(* ===== verification/Cgos_Prelude.thy ===== *)
theory Cgos_Prelude
  imports Main "HOL-Library.Word"
begin

text \<open>
  Shared vocabulary of the development: the C integer types of the kernel as words, the
  search loop \<open>for (i = 0; i < n; i++) if (P i) return i\<close> as \<open>first_index\<close>, bit tests,
  and finite ranges of addresses.
  Nothing here models a function of the kernel by itself; the component theories do.
\<close>

unbundle bit_operations_syntax

section \<open>C types\<close>

type_synonym u8 = "8 word"
type_synonym u16 = "16 word"
type_synonym u32 = "32 word"
type_synonym u64 = "64 word"

named_theorems wf_rules \<open>operations keep the well-formedness predicate of their component\<close>
named_theorems abs_rules \<open>effect of an operation on the abstraction of its component\<close>
named_theorems frame_rules \<open>fields and objects an operation leaves alone\<close>

section \<open>Words\<close>

lemma unat_add_no_wrap:
  fixes a b :: "'a::len word"
  assumes "unat a + unat b < 2 ^ LENGTH('a)"
  shows "unat (a + b) = unat a + unat b"
  using assms by (simp add: unat_word_ariths)

lemma unat_sub_no_wrap:
  fixes a b :: "'a::len word"
  assumes "unat b \<le> unat a"
  shows "unat (a - b) = unat a - unat b"
  using assms by (simp add: unat_sub word_le_nat_alt)

lemma unat_of_nat_small:
  assumes "n < 2 ^ LENGTH('a)"
  shows "unat (of_nat n :: 'a::len word) = n"
  using assms by (simp add: unat_of_nat)

lemma and_bit_eq_0_iff: "(w AND push_bit i 1 = 0) \<longleftrightarrow> \<not> bit w i" if "i < LENGTH('a)"
  for w :: "'a::len word"
proof
  assume "w AND push_bit i 1 = 0"
  then have "\<not> bit (w AND push_bit i 1) i" by simp
  with that show "\<not> bit w i" by (simp add: bit_simps)
next
  assume "\<not> bit w i"
  then show "w AND push_bit i 1 = 0"
    by (intro bit_word_eqI) (auto simp: bit_simps)
qed

lemma and_exp_eq_0_iff: "(w AND 2 ^ i = 0) \<longleftrightarrow> \<not> bit w i" if "i < LENGTH('a)"
  for w :: "'a::len word"
  using and_bit_eq_0_iff [OF that, of w] by (simp add: push_bit_of_1)

section \<open>Search loops\<close>

definition first_index :: "(nat \<Rightarrow> bool) \<Rightarrow> nat \<Rightarrow> nat option" where
  "first_index P n = find P [0..<n]"

lemma first_index_Some_iff:
  "first_index P n = Some i \<longleftrightarrow> i < n \<and> P i \<and> (\<forall>j<i. \<not> P j)"
  by (auto simp: first_index_def find_Some_iff)

lemma first_index_None_iff: "first_index P n = None \<longleftrightarrow> (\<forall>i<n. \<not> P i)"
  by (auto simp: first_index_def find_None_iff)

lemma first_indexE:
  assumes "first_index P n = Some i"
  obtains "i < n" "P i" "\<And>j. j < i \<Longrightarrow> \<not> P j"
  using assms by (auto simp: first_index_Some_iff)

lemma first_index_cong [fundef_cong]:
  assumes "m = n" and "\<And>i. i < n \<Longrightarrow> P i = Q i"
  shows "first_index P m = first_index Q n"
  using assms unfolding first_index_def by (auto intro: find_cong)

lemma find_map_conv: "find P (map f xs) = map_option f (find (\<lambda>x. P (f x)) xs)"
  by (induction xs) auto

lemma first_index_shift:
  assumes "\<not> P 0"
  shows "first_index P (Suc n) = map_option Suc (first_index (\<lambda>i. P (Suc i)) n)"
proof -
  have "[0..<Suc n] = 0 # map Suc [0..<n]" by (simp add: map_Suc_upt upt_conv_Cons del: upt_Suc)
  then show ?thesis using assms by (simp add: first_index_def find_map_conv)
qed

section \<open>Byte buffers\<close>

text \<open>\<open>memcpy(dst, data, len)\<close> onto the start of a buffer.\<close>

definition write_prefix :: "u8 list \<Rightarrow> u8 list \<Rightarrow> u8 list" where
  "write_prefix data buf = data @ drop (length data) buf"

lemma write_prefix_full: "length data = length buf \<Longrightarrow> write_prefix data buf = data"
  by (simp add: write_prefix_def)

lemma write_prefix_Nil [simp]: "write_prefix [] buf = buf"
  by (simp add: write_prefix_def)

end
