(* ===== verification/Bitmap_Mem.thy ===== *)
theory Bitmap_Mem
  imports Cgos_Prelude
begin

text \<open>
  \<^verbatim>\<open>src/memory/bitmap_mem.c\<close>: the bitmap block allocator. The manager struct is the record
  \<open>bitmap_memory_manager_t\<close>; its \<open>bitmap\<close> field holds the bytes the C pointer refers to.
  Every function takes the manager by value and returns it updated (the only manager of the
  kernel is the static \<open>phys_mem\<close> of \<^verbatim>\<open>pmm.c\<close>, whose address is never null). Addresses are
  64-bit words and \<open>0\<close> is the null pointer, so a block at address \<open>0\<close> is indistinguishable
  from a failed allocation, as in the code.
\<close>

section \<open>Configuration and state\<close>

definition BITMAP_BLOCK_SIZE :: u64 where "BITMAP_BLOCK_SIZE = 4096"
definition BITMAP_MAX_BLOCKS :: u64 where "BITMAP_MAX_BLOCKS = 32768"

record bitmap_memory_manager_t =
  bitmap :: "u8 list"
  memory_base :: u64
  total_blocks :: u64
  free_blocks :: u64
  bitmap_size :: u64

section \<open>Bit macros\<close>

definition BITMAP_SET_BIT :: "u8 list \<Rightarrow> nat \<Rightarrow> u8 list" where
  "BITMAP_SET_BIT bm b = bm[b div 8 := bm ! (b div 8) OR push_bit (b mod 8) 1]"

definition BITMAP_CLEAR_BIT :: "u8 list \<Rightarrow> nat \<Rightarrow> u8 list" where
  "BITMAP_CLEAR_BIT bm b = bm[b div 8 := bm ! (b div 8) AND NOT (push_bit (b mod 8) 1)]"

definition BITMAP_TEST_BIT :: "u8 list \<Rightarrow> nat \<Rightarrow> u8" where
  "BITMAP_TEST_BIT bm b = bm ! (b div 8) AND push_bit (b mod 8) 1"

definition bitmap_test_bit :: "u8 list \<Rightarrow> nat \<Rightarrow> bool" where
  "bitmap_test_bit bm b \<longleftrightarrow> BITMAP_TEST_BIT bm b \<noteq> 0"

section \<open>Operations\<close>

definition bitmap_block_to_address :: "bitmap_memory_manager_t \<Rightarrow> nat \<Rightarrow> u64" where
  "bitmap_block_to_address m block = memory_base m + of_nat block * BITMAP_BLOCK_SIZE"

definition bitmap_address_to_block :: "bitmap_memory_manager_t \<Rightarrow> u64 \<Rightarrow> nat" where
  "bitmap_address_to_block m address =
     (let offset = address - memory_base m in unat (offset div BITMAP_BLOCK_SIZE))"

definition bitmap_contains_address :: "bitmap_memory_manager_t \<Rightarrow> u64 \<Rightarrow> bool" where
  "bitmap_contains_address m addr =
     (let end_addr = memory_base m + total_blocks m * BITMAP_BLOCK_SIZE
      in memory_base m \<le> addr \<and> addr < end_addr)"

definition bitmap_get_free_blocks :: "bitmap_memory_manager_t \<Rightarrow> u64" where
  "bitmap_get_free_blocks m = free_blocks m"

text \<open>\<open>bitmap_init\<close> returns \<open>None\<close> where the code returns \<open>false\<close>.\<close>

definition bitmap_init :: "u8 list option \<Rightarrow> u64 \<Rightarrow> u64 \<Rightarrow> bitmap_memory_manager_t option" where
  "bitmap_init bitmap_storage base memory_size =
     (case bitmap_storage of
        None \<Rightarrow> None
      | Some storage \<Rightarrow>
          if memory_size = 0 then None
          else
            let total = memory_size div BITMAP_BLOCK_SIZE;
                total = (if BITMAP_MAX_BLOCKS < total then BITMAP_MAX_BLOCKS else total);
                size = (total + 7) div 8
            in Some \<lparr>bitmap = replicate (unat size) 0 @ drop (unat size) storage,
                     memory_base = base,
                     total_blocks = total,
                     free_blocks = total,
                     bitmap_size = size\<rparr>)"

text \<open>
  The scan of \<open>bitmap_alloc_block\<close> is \<open>first_index\<close>; the bit is set and the counter decreased
  at the first clear bit.
\<close>

definition bitmap_alloc_block :: "bitmap_memory_manager_t \<Rightarrow> u64 \<times> bitmap_memory_manager_t" where
  "bitmap_alloc_block m =
     (if free_blocks m = 0 then (0, m)
      else case first_index (\<lambda>i. \<not> bitmap_test_bit (bitmap m) i) (unat (total_blocks m)) of
             None \<Rightarrow> (0, m)
           | Some i \<Rightarrow>
               (bitmap_block_to_address m i,
                m\<lparr>bitmap := BITMAP_SET_BIT (bitmap m) i, free_blocks := free_blocks m - 1\<rparr>))"

text \<open>
  The scan of \<open>bitmap_alloc_blocks\<close> for \<open>count\<close> consecutive clear bits, with its two loop
  variables \<open>start_block\<close> and \<open>contiguous_count\<close>.
\<close>

function alloc_scan :: "u8 list \<Rightarrow> nat \<Rightarrow> nat \<Rightarrow> nat \<Rightarrow> nat \<Rightarrow> nat \<Rightarrow> nat option" where
  "alloc_scan bm n count i start_block contiguous_count =
     (if i < n then
        if \<not> bitmap_test_bit bm i then
          let start_block = (if contiguous_count = 0 then i else start_block);
              contiguous_count = contiguous_count + 1
          in if contiguous_count = count then Some start_block
             else alloc_scan bm n count (i + 1) start_block contiguous_count
        else alloc_scan bm n count (i + 1) start_block 0
      else None)"
  by pat_completeness auto
termination
  by (relation "measure (\<lambda>(bm, n, count, i, s, c). n - i)") auto

declare alloc_scan.simps [simp del]

definition set_bits :: "u8 list \<Rightarrow> nat \<Rightarrow> nat \<Rightarrow> u8 list" where
  "set_bits bm start_block count = fold (\<lambda>j bm. BITMAP_SET_BIT bm (start_block + j)) [0..<count] bm"

definition bitmap_alloc_blocks ::
  "bitmap_memory_manager_t \<Rightarrow> u64 \<Rightarrow> u64 \<times> bitmap_memory_manager_t" where
  "bitmap_alloc_blocks m count =
     (if count = 0 \<or> free_blocks m < count then (0, m)
      else if count = 1 then bitmap_alloc_block m
      else case alloc_scan (bitmap m) (unat (total_blocks m)) (unat count) 0 0 0 of
             None \<Rightarrow> (0, m)
           | Some start_block \<Rightarrow>
               (bitmap_block_to_address m start_block,
                m\<lparr>bitmap := set_bits (bitmap m) start_block (unat count),
                  free_blocks := free_blocks m - count\<rparr>))"

text \<open>The body shared by both free functions: clear a bit that is set and count it.\<close>

definition release_block :: "nat \<Rightarrow> bitmap_memory_manager_t \<Rightarrow> bitmap_memory_manager_t" where
  "release_block block m =
     (if bitmap_test_bit (bitmap m) block
      then m\<lparr>bitmap := BITMAP_CLEAR_BIT (bitmap m) block, free_blocks := free_blocks m + 1\<rparr>
      else m)"

definition bitmap_free_block ::
  "bitmap_memory_manager_t \<Rightarrow> u64 \<Rightarrow> bitmap_memory_manager_t" where
  "bitmap_free_block m address =
     (if \<not> bitmap_contains_address m address then m
      else release_block (bitmap_address_to_block m address) m)"

definition bitmap_free_blocks ::
  "bitmap_memory_manager_t \<Rightarrow> u64 \<Rightarrow> u64 \<Rightarrow> bitmap_memory_manager_t" where
  "bitmap_free_blocks m address count =
     (if \<not> bitmap_contains_address m address \<or> count = 0 then m
      else
        let start_block = bitmap_address_to_block m address;
            max_blocks = (if total_blocks m < of_nat start_block + count
                          then total_blocks m - of_nat start_block else count)
        in fold (\<lambda>i m. release_block (start_block + i) m) [0..<unat max_blocks] m)"


section \<open>Bits\<close>

lemma bitmap_test_bit_alt: "bitmap_test_bit bm b \<longleftrightarrow> bit (bm ! (b div 8)) (b mod 8)"
  by (simp add: bitmap_test_bit_def BITMAP_TEST_BIT_def and_exp_eq_0_iff)

lemma length_set_clear [simp]:
  "length (BITMAP_SET_BIT bm b) = length bm"
  "length (BITMAP_CLEAR_BIT bm b) = length bm"
  by (simp_all add: BITMAP_SET_BIT_def BITMAP_CLEAR_BIT_def)

lemma div_mod_eqD: "a div 8 = b div 8 \<Longrightarrow> a mod 8 = b mod 8 \<Longrightarrow> a = (b::nat)"
  by (metis div_mult_mod_eq)

lemma test_set_bit [simp]:
  assumes "b < 8 * length bm"
  shows "bitmap_test_bit (BITMAP_SET_BIT bm b) i \<longleftrightarrow> i = b \<or> bitmap_test_bit bm i"
proof -
  from assms have "b div 8 < length bm" by auto
  then show ?thesis
    by (cases "i div 8 = b div 8")
       (auto simp: bitmap_test_bit_alt BITMAP_SET_BIT_def bit_simps nth_list_update
             dest: div_mod_eqD)
qed

lemma test_clear_bit [simp]:
  assumes "b < 8 * length bm"
  shows "bitmap_test_bit (BITMAP_CLEAR_BIT bm b) i \<longleftrightarrow> i \<noteq> b \<and> bitmap_test_bit bm i"
proof -
  from assms have "b div 8 < length bm" by auto
  then show ?thesis
    by (cases "i div 8 = b div 8")
       (auto simp: bitmap_test_bit_alt BITMAP_CLEAR_BIT_def bit_simps nth_list_update
             dest: div_mod_eqD)
qed

lemma set_bits_Suc: "set_bits bm s (Suc c) = BITMAP_SET_BIT (set_bits bm s c) (s + c)"
  by (simp add: set_bits_def)

lemma length_set_bits [simp]: "length (set_bits bm s c) = length bm"
  by (induction c) (simp_all add: set_bits_Suc, simp add: set_bits_def)

lemma test_set_bits [simp]:
  assumes "s + c \<le> 8 * length bm"
  shows "bitmap_test_bit (set_bits bm s c) i \<longleftrightarrow> (s \<le> i \<and> i < s + c) \<or> bitmap_test_bit bm i"
  using assms
proof (induction c)
  case 0
  then show ?case by (auto simp: set_bits_def)
next
  case (Suc c)
  then show ?case by (auto simp: set_bits_Suc less_Suc_eq)
qed

section \<open>The contiguous scan\<close>

definition free_run :: "u8 list \<Rightarrow> nat \<Rightarrow> nat \<Rightarrow> nat \<Rightarrow> bool" where
  "free_run bm n count s \<longleftrightarrow> s + count \<le> n \<and> (\<forall>j<count. \<not> bitmap_test_bit bm (s + j))"

lemma free_runI:
  assumes "s + count \<le> n" and "\<And>k. s \<le> k \<Longrightarrow> k < s + count \<Longrightarrow> \<not> bitmap_test_bit bm k"
  shows "free_run bm n count s"
  using assms by (simp add: free_run_def)

lemma free_run_at:
  assumes "free_run bm n count s" and "s \<le> k" and "k < s + count"
  shows "\<not> bitmap_test_bit bm k" and "k < n"
proof -
  from assms(2,3) have "k - s < count" and "s + (k - s) = k" by auto
  with assms(1) show "\<not> bitmap_test_bit bm k" unfolding free_run_def by metis
  from assms show "k < n" by (simp add: free_run_def)
qed

text \<open>
  Loop invariant of the scan at index \<open>i\<close>: the last \<open>contiguous_count\<close> blocks are free, there
  are fewer of them than wanted, and no run starts before that window.
\<close>

definition scan_inv :: "u8 list \<Rightarrow> nat \<Rightarrow> nat \<Rightarrow> nat \<Rightarrow> nat \<Rightarrow> nat \<Rightarrow> bool" where
  "scan_inv bm n count i start c \<longleftrightarrow>
     c < count \<and> c \<le> i \<and> (c = 0 \<or> start = i - c) \<and>
     (\<forall>k. i - c \<le> k \<and> k < i \<longrightarrow> \<not> bitmap_test_bit bm k) \<and>
     (\<forall>s < i - c. \<not> free_run bm n count s)"

lemma scan_inv_reset:
  assumes "scan_inv bm n count i start c" and "bitmap_test_bit bm i"
  shows "scan_inv bm n count (i + 1) start 0"
proof -
  have "\<not> free_run bm n count s" if "s < i + 1" for s
  proof (cases "s < i - c")
    case True
    with assms(1) show ?thesis by (simp add: scan_inv_def)
  next
    case False
    with assms(1) that have "s \<le> i" and "i < s + count" by (auto simp: scan_inv_def)
    with assms(2) show ?thesis using free_run_at(1) by blast
  qed
  with assms(1) show ?thesis by (simp add: scan_inv_def)
qed

lemma scan_inv_extend:
  assumes "scan_inv bm n count i start c" and "\<not> bitmap_test_bit bm i" and "c + 1 \<noteq> count"
  shows "scan_inv bm n count (i + 1) (if c = 0 then i else start) (c + 1)"
  using assms by (auto simp: scan_inv_def less_Suc_eq)

lemma alloc_scan_correct:
  assumes "scan_inv bm n count i start c"
  shows "case alloc_scan bm n count i start c of
           Some s \<Rightarrow> free_run bm n count s \<and> (\<forall>t < s. \<not> free_run bm n count t)
         | None \<Rightarrow> \<forall>s. \<not> free_run bm n count s"
  using assms
proof (induction bm n count i start c rule: alloc_scan.induct)
  case (1 bm n count i start c)
  let ?start = "if c = 0 then i else start"
  note inv = "1.prems"
  consider (finish) "\<not> i < n" | (used) "i < n" "bitmap_test_bit bm i"
    | (found) "i < n" "\<not> bitmap_test_bit bm i" "c + 1 = count"
    | (more) "i < n" "\<not> bitmap_test_bit bm i" "c + 1 \<noteq> count"
    by blast
  then show ?case
  proof cases
    case finish
    have "\<not> free_run bm n count s" for s
      using inv finish by (cases "s < i - c") (auto simp: scan_inv_def free_run_def)
    with finish show ?thesis by (subst alloc_scan.simps) simp
  next
    case used
    with "1.IH"(2) scan_inv_reset [OF inv] show ?thesis by (subst alloc_scan.simps) simp
  next
    case found
    from inv have start: "?start = i - c" by (auto simp: scan_inv_def)
    have "free_run bm n count (i - c)"
      using inv found by (intro free_runI) (auto simp: scan_inv_def less_Suc_eq)
    with inv start found show ?thesis
      by (subst alloc_scan.simps) (auto simp: scan_inv_def)
  next
    case more
    with "1.IH"(1) scan_inv_extend [OF inv] show ?thesis
      by (subst alloc_scan.simps) (simp add: Let_def)
  qed
qed

lemma alloc_scan_0:
  assumes "0 < count"
  shows "case alloc_scan bm n count 0 0 0 of
           Some s \<Rightarrow> free_run bm n count s \<and> (\<forall>t < s. \<not> free_run bm n count t)
         | None \<Rightarrow> \<forall>s. \<not> free_run bm n count s"
  using assms by (intro alloc_scan_correct) (simp add: scan_inv_def)


section \<open>Abstraction: the set of used blocks\<close>

text \<open>
  A manager stands for the set of its used blocks below \<open>total_blocks\<close>. \<open>bitmap_wf\<close> is the
  invariant every operation keeps: the bitmap has a bit for every block, the managed region
  does not wrap around the address space, and \<open>free_blocks\<close> counts the clear bits.
\<close>

abbreviation nblocks :: "bitmap_memory_manager_t \<Rightarrow> nat" where
  "nblocks m \<equiv> unat (total_blocks m)"

definition used_blocks :: "bitmap_memory_manager_t \<Rightarrow> nat set" where
  "used_blocks m = {i. i < nblocks m \<and> bitmap_test_bit (bitmap m) i}"

definition bitmap_wf :: "bitmap_memory_manager_t \<Rightarrow> bool" where
  "bitmap_wf m \<longleftrightarrow>
     nblocks m \<le> 32768 \<and> nblocks m \<le> 8 * length (bitmap m) \<and>
     unat (memory_base m) + 4096 * nblocks m < 2 ^ 64 \<and>
     unat (free_blocks m) + card (used_blocks m) = nblocks m"

lemma used_blocks_finite [simp]: "finite (used_blocks m)"
  by (simp add: used_blocks_def)

lemma used_blocks_lt: "i \<in> used_blocks m \<Longrightarrow> i < nblocks m"
  by (simp add: used_blocks_def)

lemma test_bit_used: "i < nblocks m \<Longrightarrow> bitmap_test_bit (bitmap m) i \<longleftrightarrow> i \<in> used_blocks m"
  by (simp add: used_blocks_def)

lemma bitmap_wfD:
  assumes "bitmap_wf m"
  shows "nblocks m \<le> 32768" and "nblocks m \<le> 8 * length (bitmap m)"
    and "unat (memory_base m) + 4096 * nblocks m < 2 ^ 64"
    and "unat (free_blocks m) + card (used_blocks m) = nblocks m"
  using assms by (auto simp: bitmap_wf_def)

lemma free_zero_iff:
  assumes "bitmap_wf m"
  shows "free_blocks m = 0 \<longleftrightarrow> used_blocks m = {0..<nblocks m}"
proof
  assume "free_blocks m = 0"
  with bitmap_wfD(4) [OF assms] have "card (used_blocks m) = card {0..<nblocks m}" by simp
  moreover have "used_blocks m \<subseteq> {0..<nblocks m}" by (auto dest: used_blocks_lt)
  ultimately show "used_blocks m = {0..<nblocks m}" by (intro card_subset_eq) auto
next
  assume "used_blocks m = {0..<nblocks m}"
  with bitmap_wfD(4) [OF assms] have "unat (free_blocks m) = 0" by simp
  then show "free_blocks m = 0" by (simp add: unat_eq_0)
qed

subsection \<open>Addresses\<close>

lemma unat_block_to_address:
  assumes "bitmap_wf m" and "i < nblocks m"
  shows "unat (bitmap_block_to_address m i) = unat (memory_base m) + 4096 * i"
proof -
  have i: "i < 32768" using assms bitmap_wfD(1) by fastforce
  then have "unat (of_nat i :: u64) = i" by (intro unat_of_nat_small) simp
  then have m: "unat (of_nat i * 4096 :: u64) = 4096 * i"
    using i by (simp add: unat_word_ariths)
  have "unat (memory_base m) + unat (of_nat i * 4096 :: u64) < 2 ^ LENGTH(64)"
    using bitmap_wfD(3) [OF assms(1)] assms(2) by (simp add: m)
  from unat_add_no_wrap [OF this] m show ?thesis
    by (simp add: bitmap_block_to_address_def BITMAP_BLOCK_SIZE_def)
qed

lemma contains_address_iff:
  assumes "bitmap_wf m"
  shows "bitmap_contains_address m a \<longleftrightarrow>
     unat (memory_base m) \<le> unat a \<and> unat a < unat (memory_base m) + 4096 * nblocks m"
proof -
  have "unat (total_blocks m * 4096) = 4096 * nblocks m"
    using bitmap_wfD(1) [OF assms] by (simp add: unat_word_ariths)
  moreover from this have
    "unat (memory_base m + total_blocks m * 4096) = unat (memory_base m) + 4096 * nblocks m"
    using bitmap_wfD(3) [OF assms] by (subst unat_add_no_wrap) simp_all
  ultimately show ?thesis
    by (simp add: bitmap_contains_address_def BITMAP_BLOCK_SIZE_def word_le_nat_alt word_less_nat_alt)
qed

lemma address_to_block:
  assumes "unat (memory_base m) \<le> unat a"
  shows "bitmap_address_to_block m a = (unat a - unat (memory_base m)) div 4096"
  using assms
  by (simp add: bitmap_address_to_block_def BITMAP_BLOCK_SIZE_def unat_div unat_sub_no_wrap)

lemma contains_block_address:
  assumes "bitmap_wf m" and "i < nblocks m"
  shows "bitmap_contains_address m (bitmap_block_to_address m i)"
    and "bitmap_address_to_block m (bitmap_block_to_address m i) = i"
  using assms by (simp_all add: contains_address_iff unat_block_to_address address_to_block)

lemma address_to_block_lt:
  assumes "bitmap_wf m" and "bitmap_contains_address m a"
  shows "bitmap_address_to_block m a < nblocks m"
  using assms by (auto simp: contains_address_iff address_to_block intro!: less_mult_imp_div_less)

lemma block_to_address_inj:
  assumes "bitmap_wf m" "i < nblocks m" "j < nblocks m"
    and "bitmap_block_to_address m i = bitmap_block_to_address m j"
  shows "i = j"
  using assms contains_block_address(2) by metis


subsection \<open>Effect of the operations\<close>

definition same_region :: "bitmap_memory_manager_t \<Rightarrow> bitmap_memory_manager_t \<Rightarrow> bool" where
  "same_region m m' \<longleftrightarrow>
     memory_base m' = memory_base m \<and> total_blocks m' = total_blocks m \<and>
     bitmap_size m' = bitmap_size m"

lemma same_region_refl [simp]: "same_region m m"
  by (simp add: same_region_def)

lemma same_region_trans: "same_region a b \<Longrightarrow> same_region b c \<Longrightarrow> same_region a c"
  by (simp add: same_region_def)

lemma same_region_address:
  assumes "same_region m m'"
  shows "bitmap_block_to_address m' i = bitmap_block_to_address m i"
    and "bitmap_address_to_block m' a = bitmap_address_to_block m a"
    and "bitmap_contains_address m' a = bitmap_contains_address m a"
    and "total_blocks m' = total_blocks m"
  using assms
  by (simp_all add: same_region_def bitmap_block_to_address_def bitmap_address_to_block_def
      bitmap_contains_address_def)

definition mark_run :: "bitmap_memory_manager_t \<Rightarrow> nat \<Rightarrow> nat \<Rightarrow> bitmap_memory_manager_t" where
  "mark_run m s c =
     m\<lparr>bitmap := set_bits (bitmap m) s c, free_blocks := free_blocks m - of_nat c\<rparr>"

lemma same_region_mark_run [simp]: "same_region m (mark_run m s c)"
  by (simp add: same_region_def mark_run_def)

lemma used_blocks_mark_run:
  assumes "bitmap_wf m" and "s + c \<le> nblocks m"
  shows "used_blocks (mark_run m s c) = used_blocks m \<union> {s..<s + c}"
  using assms bitmap_wfD(2) [OF assms(1)] by (auto simp: used_blocks_def mark_run_def)

lemma free_run_used_blocks:
  assumes "s + c \<le> nblocks m"
  shows "free_run (bitmap m) (nblocks m) c s \<longleftrightarrow> used_blocks m \<inter> {s..<s + c} = {}"
proof
  assume "free_run (bitmap m) (nblocks m) c s"
  then show "used_blocks m \<inter> {s..<s + c} = {}"
    by (auto simp: used_blocks_def dest: free_run_at(1))
next
  assume "used_blocks m \<inter> {s..<s + c} = {}"
  with assms show "free_run (bitmap m) (nblocks m) c s"
    by (intro free_runI) (use test_bit_used in fastforce)+
qed

lemma bitmap_wf_mark_run [wf_rules]:
  assumes "bitmap_wf m" and "free_run (bitmap m) (nblocks m) c s"
  shows "bitmap_wf (mark_run m s c)"
proof -
  let ?m = "mark_run m s c"
  from assms(2) have sc: "s + c \<le> nblocks m" by (simp add: free_run_def)
  have disj: "used_blocks m \<inter> {s..<s + c} = {}"
    using assms(2) free_run_used_blocks [OF sc] by blast
  have used: "used_blocks ?m = used_blocks m \<union> {s..<s + c}"
    by (rule used_blocks_mark_run [OF assms(1) sc])
  then have card: "card (used_blocks ?m) = card (used_blocks m) + c"
    using disj by (simp add: card_Un_disjoint)
  have le: "card (used_blocks ?m) \<le> nblocks m"
    using card_mono [of "{0..<nblocks m}" "used_blocks ?m"] used_blocks_lt [of _ ?m]
    by (fastforce simp: mark_run_def)
  from card le have c: "c \<le> unat (free_blocks m)"
    using bitmap_wfD(4) [OF assms(1)] by simp
  then have "unat (of_nat c :: u64) = c"
    by (intro unat_of_nat_small) (use unsigned_less [of "free_blocks m", where ?'a = nat] in simp)
  with c have "unat (free_blocks m - of_nat c) = unat (free_blocks m) - c"
    by (simp add: unat_sub_no_wrap)
  with c card show ?thesis
    using bitmap_wfD [OF assms(1)] by (simp add: bitmap_wf_def mark_run_def)
qed

lemma set_bits_1: "set_bits bm s (Suc 0) = BITMAP_SET_BIT bm s"
  by (simp add: set_bits_def)

definition lowest_free :: "bitmap_memory_manager_t \<Rightarrow> nat option" where
  "lowest_free m = first_index (\<lambda>i. i \<notin> used_blocks m) (nblocks m)"

lemma lowest_free_bits:
  "lowest_free m = first_index (\<lambda>i. \<not> bitmap_test_bit (bitmap m) i) (nblocks m)"
  unfolding lowest_free_def by (rule first_index_cong) (simp_all add: test_bit_used)

lemma lowest_free_None_iff: "lowest_free m = None \<longleftrightarrow> used_blocks m = {0..<nblocks m}"
proof -
  have "used_blocks m \<subseteq> {0..<nblocks m}" using used_blocks_lt by fastforce
  then show ?thesis unfolding lowest_free_def first_index_None_iff by fastforce
qed

text \<open>\<open>bitmap_alloc_block\<close> takes the lowest free block, and fails only when there is none.\<close>

lemma bitmap_alloc_block_alt:
  assumes "bitmap_wf m"
  shows "bitmap_alloc_block m =
     (case lowest_free m of
        None \<Rightarrow> (0, m)
      | Some i \<Rightarrow> (bitmap_block_to_address m i, mark_run m i 1))"
proof (cases "free_blocks m = 0")
  case True
  then have "lowest_free m = None"
    using free_zero_iff [OF assms] by (simp add: lowest_free_None_iff)
  with True show ?thesis by (simp add: bitmap_alloc_block_def)
next
  case False
  then show ?thesis
    by (simp add: bitmap_alloc_block_def lowest_free_bits mark_run_def set_bits_1
        split: option.split)
qed

lemma lowest_free_free_run:
  assumes "lowest_free m = Some i"
  shows "free_run (bitmap m) (nblocks m) 1 i"
  using assms by (auto simp: lowest_free_bits free_run_def elim!: first_indexE)

text \<open>\<open>bitmap_alloc_blocks\<close> takes the leftmost run, and fails only when there is none.\<close>

definition leftmost_run :: "bitmap_memory_manager_t \<Rightarrow> nat \<Rightarrow> nat \<Rightarrow> bool" where
  "leftmost_run m c s \<longleftrightarrow>
     free_run (bitmap m) (nblocks m) c s \<and> (\<forall>t < s. \<not> free_run (bitmap m) (nblocks m) c t)"

lemma lowest_free_leftmost:
  assumes "lowest_free m = Some i"
  shows "leftmost_run m 1 i"
  using assms lowest_free_free_run [OF assms]
  by (auto simp: leftmost_run_def lowest_free_bits free_run_def elim!: first_indexE)

lemma bitmap_alloc_blocks_cases:
  assumes "bitmap_wf m"
  obtains (fail) "bitmap_alloc_blocks m count = (0, m)"
      and "count = 0 \<or> (\<forall>s. \<not> free_run (bitmap m) (nblocks m) (unat count) s)"
  | (success) s where "count \<noteq> 0" and "leftmost_run m (unat count) s"
      and "bitmap_alloc_blocks m count = (bitmap_block_to_address m s, mark_run m s (unat count))"
proof -
  consider (zero) "count = 0" | (many) "count \<noteq> 0" "free_blocks m < count"
    | (one) "count = 1" "\<not> free_blocks m < count"
    | (scan) "count \<noteq> 0" "count \<noteq> 1" "\<not> free_blocks m < count"
    by blast
  then show thesis
  proof cases
    case zero
    then show thesis by (intro fail) (simp_all add: bitmap_alloc_blocks_def)
  next
    case many
    have "\<not> free_run (bitmap m) (nblocks m) (unat count) s" for s
    proof
      assume "free_run (bitmap m) (nblocks m) (unat count) s"
      moreover from this have sc: "s + unat count \<le> nblocks m" by (simp add: free_run_def)
      ultimately have "used_blocks m \<inter> {s..<s + unat count} = {}"
        by (simp only: free_run_used_blocks)
      then have "card (used_blocks m \<union> {s..<s + unat count}) = card (used_blocks m) + unat count"
        by (simp add: card_Un_disjoint)
      moreover have "card (used_blocks m \<union> {s..<s + unat count}) \<le> card {0..<nblocks m}"
        using sc by (intro card_mono) (auto dest: used_blocks_lt)
      ultimately show False
        using many(2) bitmap_wfD(4) [OF assms] by (simp add: word_less_nat_alt)
    qed
    with many show thesis by (intro fail) (simp_all add: bitmap_alloc_blocks_def)
  next
    case one
    then have eq: "bitmap_alloc_blocks m count = bitmap_alloc_block m"
      by (simp add: bitmap_alloc_blocks_def)
    show thesis
    proof (cases "lowest_free m")
      case None
      then have "\<not> free_run (bitmap m) (nblocks m) (unat count) s" for s
        using one(1) by (auto simp: lowest_free_bits free_run_def first_index_None_iff)
      with None eq show thesis by (intro fail) (simp_all add: bitmap_alloc_block_alt [OF assms])
    next
      case (Some i)
      with eq one show thesis
        by (intro success [of i])
           (simp_all add: bitmap_alloc_block_alt [OF assms] lowest_free_leftmost [simplified])
    qed
  next
    case scan
    then have "0 < unat count" by (simp add: unat_gt_0)
    note spec = alloc_scan_0 [OF this, of "bitmap m" "nblocks m"]
    show thesis
    proof (cases "alloc_scan (bitmap m) (nblocks m) (unat count) 0 0 0")
      case None
      with scan spec show thesis by (intro fail) (simp_all add: bitmap_alloc_blocks_def)
    next
      case (Some s)
      with scan spec show thesis
        by (intro success [of s])
           (simp_all add: bitmap_alloc_blocks_def leftmost_run_def mark_run_def)
    qed
  qed
qed


lemma used_blocks_release:
  assumes "bitmap_wf m" and "b < nblocks m"
  shows "used_blocks (release_block b m) = used_blocks m - {b}"
  using assms bitmap_wfD(2) [OF assms(1)] by (auto simp: used_blocks_def release_block_def)

lemma same_region_release [simp]: "same_region m (release_block b m)"
  by (simp add: same_region_def release_block_def)

lemma bitmap_wf_release [wf_rules]:
  assumes "bitmap_wf m" and "b < nblocks m"
  shows "bitmap_wf (release_block b m)"
proof (cases "bitmap_test_bit (bitmap m) b")
  case True
  with assms(2) have b: "b \<in> used_blocks m" by (simp add: test_bit_used)
  then have c: "card (used_blocks m) = Suc (card (used_blocks m - {b}))"
    using card_Suc_Diff1 [OF used_blocks_finite b] by simp
  note wf = bitmap_wfD [OF assms(1)]
  from wf(1,4) c have "unat (free_blocks m + 1) = unat (free_blocks m) + 1"
    by (subst unat_add_no_wrap) simp_all
  moreover have "used_blocks (m\<lparr>bitmap := BITMAP_CLEAR_BIT (bitmap m) b,
      free_blocks := free_blocks m + 1\<rparr>) = used_blocks m - {b}"
    using used_blocks_release [OF assms] True by (simp add: release_block_def)
  ultimately show ?thesis
    using wf c True by (simp add: bitmap_wf_def release_block_def)
next
  case False
  with assms show ?thesis by (simp add: release_block_def)
qed

lemma release_run:
  assumes "bitmap_wf m" and "s + c \<le> nblocks m"
  shows "bitmap_wf (fold (\<lambda>i. release_block (s + i)) [0..<c] m) \<and>
     same_region m (fold (\<lambda>i. release_block (s + i)) [0..<c] m) \<and>
     used_blocks (fold (\<lambda>i. release_block (s + i)) [0..<c] m) = used_blocks m - {s..<s + c}"
  using assms(2)
proof (induction c)
  case 0
  then show ?case using assms(1) by simp
next
  case (Suc c)
  let ?m = "fold (\<lambda>i. release_block (s + i)) [0..<c] m"
  from Suc have IH: "bitmap_wf ?m" "same_region m ?m" "used_blocks ?m = used_blocks m - {s..<s + c}"
    by simp_all
  then have lt: "s + c < nblocks ?m" using Suc.prems by (simp add: same_region_def)
  have "used_blocks m - {s..<s + c} - {s + c} = used_blocks m - {s..<s + Suc c}"
    by auto
  with IH lt show ?case
    by (auto simp: used_blocks_release bitmap_wf_release
        intro: same_region_trans [OF _ same_region_release])
qed

lemma bitmap_free_block_spec:
  assumes "bitmap_wf m"
  shows "bitmap_wf (bitmap_free_block m a)" and "same_region m (bitmap_free_block m a)"
    and "used_blocks (bitmap_free_block m a) =
       (if bitmap_contains_address m a then used_blocks m - {bitmap_address_to_block m a}
        else used_blocks m)"
  using assms
  by (simp_all add: bitmap_free_block_def bitmap_wf_release used_blocks_release address_to_block_lt)

text \<open>
  \<open>bitmap_free_blocks\<close> clears the run at the address, cut at the end of the region. The sum
  \<open>start_block + count\<close> in the code's bound check is a 64-bit sum, so the cut needs it not to
  wrap; the callers pass page counts far below that.
\<close>

lemma bitmap_free_blocks_spec:
  assumes "bitmap_wf m" and "bitmap_contains_address m a"
    and "unat count < 2 ^ 63"
  shows "bitmap_wf (bitmap_free_blocks m a count) \<and> same_region m (bitmap_free_blocks m a count) \<and>
     used_blocks (bitmap_free_blocks m a count) =
       used_blocks m - {bitmap_address_to_block m a..<bitmap_address_to_block m a + unat count}"
proof (cases "count = 0")
  case True
  with assms show ?thesis by (simp add: bitmap_free_blocks_def)
next
  case False
  let ?s = "bitmap_address_to_block m a"
  let ?k = "if total_blocks m < of_nat ?s + count then total_blocks m - of_nat ?s else count"
  have s: "?s < nblocks m" by (rule address_to_block_lt [OF assms(1,2)])
  with bitmap_wfD(1) [OF assms(1)] have us: "unat (of_nat ?s :: u64) = ?s"
    by (intro unat_of_nat_small) simp
  have sum: "unat (of_nat ?s + count) = ?s + unat count"
    using s assms(3) bitmap_wfD(1) [OF assms(1)] us by (subst unat_add_no_wrap) simp_all
  have k: "unat ?k = min (nblocks m - ?s) (unat count)"
    using s us sum by (auto simp: word_less_nat_alt unat_sub_no_wrap min_def)
  have "used_blocks m - {?s..<?s + unat ?k} = used_blocks m - {?s..<?s + unat count}"
    using s by (auto simp: k dest: used_blocks_lt)
  moreover have "?s + unat ?k \<le> nblocks m" using s by (simp add: k)
  ultimately show ?thesis
    using release_run [OF assms(1), of ?s "unat ?k"] False assms(2)
    by (simp add: bitmap_free_blocks_def k Let_def)
qed

lemma bitmap_init_spec:
  assumes "bitmap_init (Some storage) base sz = Some m"
    and "length storage = 4096" and "unat base + unat sz < 2 ^ 64"
  shows "bitmap_wf m" and "used_blocks m = {}" and "memory_base m = base"
    and "nblocks m = min (unat sz div 4096) 32768"
proof -
  let ?t = "sz div 4096 :: u64"
  let ?n = "if 32768 < ?t then 32768 else ?t"
  from assms(1) have m: "m = \<lparr>bitmap = replicate (unat ((?n + 7) div 8)) 0 @ drop (unat ((?n + 7) div 8)) storage,
      memory_base = base, total_blocks = ?n, free_blocks = ?n, bitmap_size = (?n + 7) div 8\<rparr>"
    by (simp add: bitmap_init_def BITMAP_BLOCK_SIZE_def BITMAP_MAX_BLOCKS_def Let_def split: if_splits)
  have n: "unat ?n = min (unat sz div 4096) 32768"
    by (simp add: word_less_nat_alt unat_div min_def)
  then have n7: "unat ((?n + 7) div 8) = (unat ?n + 7) div 8"
    by (subst unat_div, subst unat_add_no_wrap) simp_all
  show base: "memory_base m = base" and blocks: "nblocks m = min (unat sz div 4096) 32768"
    using m n by simp_all
  show used: "used_blocks m = {}"
    using m n7 by (auto simp: used_blocks_def bitmap_test_bit_alt nth_append)
  have "length (bitmap m) = 4096" using m n n7 assms(2) by simp
  moreover have "unat (free_blocks m) = nblocks m" using m by simp
  ultimately show "bitmap_wf m"
    using used base blocks assms(3) by (auto simp: bitmap_wf_def min_def)
qed

section \<open>Properties\<close>

text \<open>A small manager for the witnesses: 16 blocks at 1 MiB, the first three in use.\<close>

definition sample_bitmap :: bitmap_memory_manager_t where
  "sample_bitmap = \<lparr>bitmap = [7, 0], memory_base = 0x100000, total_blocks = 16,
     free_blocks = 13, bitmap_size = 2\<rparr>"

lemma used_blocks_filter:
  "used_blocks m = set (filter (bitmap_test_bit (bitmap m)) [0..<nblocks m])"
  by (auto simp: used_blocks_def)

lemma sample_used_blocks [simp]: "used_blocks sample_bitmap = {0, 1, 2}"
proof -
  have "filter (bitmap_test_bit (bitmap sample_bitmap)) [0..<nblocks sample_bitmap] = [0, 1, 2]"
    by code_simp
  then show ?thesis by (simp add: used_blocks_filter)
qed

lemma sample_bitmap_wf [simp]: "bitmap_wf sample_bitmap"
proof -
  have "nblocks sample_bitmap = 16" by (simp add: sample_bitmap_def)
  then show ?thesis unfolding bitmap_wf_def by simp (simp add: sample_bitmap_def)
qed

text \<open>
  \<open>bitmap_alloc_blocks\<close> is a first-fit allocator: on a well-formed manager it either
  returns the address of the leftmost run of \<open>count\<close> free blocks and marks exactly that run, or
  it returns NULL, changes nothing, and no such run exists (or \<open>count\<close> is 0).
\<close>

theorem bitmap_alloc_blocks_first_fit:
  assumes "bitmap_wf m" and "bitmap_alloc_blocks m count = (a, m')"
  shows "(\<exists>s. count \<noteq> 0 \<and> leftmost_run m (unat count) s \<and> a = bitmap_block_to_address m s \<and>
            bitmap_wf m' \<and> same_region m m' \<and>
            used_blocks m' = used_blocks m \<union> {s..<s + unat count}) \<or>
         (a = 0 \<and> m' = m \<and>
            (count = 0 \<or> (\<forall>s. \<not> free_run (bitmap m) (nblocks m) (unat count) s)))"
proof (cases rule: bitmap_alloc_blocks_cases [OF assms(1), of count, case_names fail success])
  case fail
  with assms(2) show ?thesis by auto
next
  case (success s)
  then have run: "free_run (bitmap m) (nblocks m) (unat count) s"
    and eq: "a = bitmap_block_to_address m s" "m' = mark_run m s (unat count)"
    using assms(2) by (simp_all add: leftmost_run_def)
  from run have "s + unat count \<le> nblocks m" by (simp add: free_run_def)
  then have "bitmap_wf m'" "same_region m m'" "used_blocks m' = used_blocks m \<union> {s..<s + unat count}"
    using bitmap_wf_mark_run [OF assms(1) run] used_blocks_mark_run [OF assms(1)] eq(2) by simp_all
  with success eq(1) show ?thesis by blast
qed

theorem bitmap_alloc_blocks_first_fit_witness:
  "fst (bitmap_alloc_blocks sample_bitmap 4) = 0x103000 \<and>
   bitmap_wf (snd (bitmap_alloc_blocks sample_bitmap 4))"
proof -
  have eq: "bitmap_alloc_blocks sample_bitmap 4 =
      (0x103000, sample_bitmap\<lparr>bitmap := [127, 0], free_blocks := 9\<rparr>)" by code_simp
  from bitmap_alloc_blocks_first_fit [OF sample_bitmap_wf eq] show ?thesis by (auto simp: eq)
qed

text \<open>
  \<open>bitmap_free_blocks\<close> clears the blocks of the range it is given and no other, keeps the
  manager well-formed (the counter stays equal to the number of clear bits, also when a block of
  the range was free already) and ignores an address outside the region.
\<close>

theorem bitmap_free_blocks_exact:
  assumes "bitmap_wf m" and "unat count < 2 ^ 63"
  shows "bitmap_wf (bitmap_free_blocks m a count) \<and>
     used_blocks (bitmap_free_blocks m a count) =
       (if bitmap_contains_address m a
        then used_blocks m - {bitmap_address_to_block m a..<bitmap_address_to_block m a + unat count}
        else used_blocks m)"
  using assms bitmap_free_blocks_spec [OF assms(1) _ assms(2), of a]
  by (auto simp: bitmap_free_blocks_def)

theorem bitmap_free_blocks_exact_witness:
  "used_blocks (bitmap_free_blocks sample_bitmap 0x101000 5) = {0} \<and>
   bitmap_wf (bitmap_free_blocks sample_bitmap 0x101000 5)"
proof -
  have "bitmap_contains_address sample_bitmap 0x101000"
    "bitmap_address_to_block sample_bitmap 0x101000 = 1" by code_simp+
  moreover have "{0, 1, 2} - {1..<1 + 5} = {0::nat}" by auto
  ultimately show ?thesis
    using bitmap_free_blocks_exact [OF sample_bitmap_wf, of 5 "0x101000"] by simp
qed

end
