(* ===== verification/Pmm.thy ===== *)
theory Pmm
  imports Bitmap_Mem
begin

text \<open>
  \<^verbatim>\<open>src/memory/pmm.c\<close>: the physical page allocator on top of the bitmap manager. The record
  \<open>pmm\<close> holds the file's static variables. The Limine memory map is an argument (the
  bootloader supplies it); the address and the initial bytes of the static array
  \<open>bitmap_storage\<close> are fixed by the linker and the loader, so they are arguments too.
  The two drawing functions of the file (\<open>physical_print_stats\<close>, \<open>draw_memory_bitmap\<close>) only
  read the state and are not modelled.
\<close>

section \<open>State and memory map\<close>

record pmm =
  phys_mem :: bitmap_memory_manager_t
  total_memory :: u64
  reserved_memory :: u64
  used_memory :: u64

datatype memmap_type = LIMINE_MEMMAP_USABLE | LIMINE_MEMMAP_OTHER

record limine_memmap_entry =
  entry_base :: u64
  entry_length :: u64
  entry_type :: memmap_type

section \<open>Operations\<close>

definition physical_alloc_page :: "pmm \<Rightarrow> u64 \<times> pmm" where
  "physical_alloc_page s =
     (case bitmap_alloc_block (phys_mem s) of
        (page, m) \<Rightarrow>
          (page,
           if page \<noteq> 0
           then s\<lparr>phys_mem := m, used_memory := used_memory s + BITMAP_BLOCK_SIZE\<rparr>
           else s\<lparr>phys_mem := m\<rparr>))"

definition physical_alloc_pages :: "pmm \<Rightarrow> u64 \<Rightarrow> u64 \<times> pmm" where
  "physical_alloc_pages s count =
     (case bitmap_alloc_blocks (phys_mem s) count of
        (pages, m) \<Rightarrow>
          (pages,
           if pages \<noteq> 0
           then s\<lparr>phys_mem := m, used_memory := used_memory s + count * BITMAP_BLOCK_SIZE\<rparr>
           else s\<lparr>phys_mem := m\<rparr>))"

definition physical_free_page :: "pmm \<Rightarrow> u64 \<Rightarrow> pmm" where
  "physical_free_page s page =
     (if bitmap_contains_address (phys_mem s) page then
        let s = s\<lparr>phys_mem := bitmap_free_block (phys_mem s) page\<rparr>
        in if BITMAP_BLOCK_SIZE \<le> used_memory s
           then s\<lparr>used_memory := used_memory s - BITMAP_BLOCK_SIZE\<rparr> else s
      else s)"

definition physical_free_pages :: "pmm \<Rightarrow> u64 \<Rightarrow> u64 \<Rightarrow> pmm" where
  "physical_free_pages s pages count =
     (if bitmap_contains_address (phys_mem s) pages then
        let s = s\<lparr>phys_mem := bitmap_free_blocks (phys_mem s) pages count\<rparr>
        in if count * BITMAP_BLOCK_SIZE \<le> used_memory s
           then s\<lparr>used_memory := used_memory s - count * BITMAP_BLOCK_SIZE\<rparr> else s
      else s)"

text \<open>
  The loop body of \<open>physical_reserve_region\<close>: free the block, then call the first-fit
  allocator. The loop runs over the block numbers \<open>start_block\<close> to \<open>end_block\<close>.
\<close>

definition reserve_block :: "nat \<Rightarrow> bitmap_memory_manager_t \<Rightarrow> bitmap_memory_manager_t" where
  "reserve_block block m =
     snd (bitmap_alloc_block (bitmap_free_block m (bitmap_block_to_address m block)))"

definition physical_reserve_region :: "pmm \<Rightarrow> u64 \<Rightarrow> u64 \<Rightarrow> bool \<times> pmm" where
  "physical_reserve_region s base sz =
     (let m = phys_mem s;
          start_block = bitmap_address_to_block m base;
          end_address = base + sz - 1;
          end_block = bitmap_address_to_block m end_address
      in if nblocks m \<le> start_block then (False, s)
         else
           let end_block = (if nblocks m \<le> end_block then nblocks m - 1 else end_block)
           in (True, s\<lparr>phys_mem := fold reserve_block [start_block..<Suc end_block] m\<rparr>))"

definition physical_get_total_memory :: "pmm \<Rightarrow> u64" where
  "physical_get_total_memory s = total_memory s"

definition physical_get_used_memory :: "pmm \<Rightarrow> u64" where
  "physical_get_used_memory s = used_memory s + reserved_memory s"

definition physical_get_free_memory :: "pmm \<Rightarrow> u64" where
  "physical_get_free_memory s = bitmap_get_free_blocks (phys_mem s) * BITMAP_BLOCK_SIZE"

text \<open>
  First loop of \<open>physical_memory_init\<close>: the two memory totals and the largest usable entry,
  as its index (the code keeps a pointer to it) and its size.
\<close>

fun scan_memmap ::
  "limine_memmap_entry list \<Rightarrow> nat \<Rightarrow> u64 \<times> u64 \<times> nat option \<times> u64
     \<Rightarrow> u64 \<times> u64 \<times> nat option \<times> u64" where
  "scan_memmap [] i acc = acc"
| "scan_memmap (e # es) i (tot, reserved, largest, largest_size) =
     (if entry_type e = LIMINE_MEMMAP_USABLE then
        if largest_size < entry_length e
        then scan_memmap es (Suc i) (tot + entry_length e, reserved, Some i, entry_length e)
        else scan_memmap es (Suc i) (tot + entry_length e, reserved, largest, largest_size)
      else scan_memmap es (Suc i) (tot, reserved + entry_length e, largest, largest_size))"

text \<open>Second loop: reserve every non-usable entry that overlaps the managed area.\<close>

fun reserve_entries :: "nat \<Rightarrow> limine_memmap_entry list \<Rightarrow> nat \<Rightarrow> pmm \<Rightarrow> pmm" where
  "reserve_entries largest [] i s = s"
| "reserve_entries largest (e # es) i s =
     (if i = largest then reserve_entries largest es (Suc i) s
      else if entry_type e = LIMINE_MEMMAP_USABLE then reserve_entries largest es (Suc i) s
      else if bitmap_contains_address (phys_mem s) (entry_base e) \<or>
              bitmap_contains_address (phys_mem s) (entry_base e + entry_length e - 1)
           then reserve_entries largest es (Suc i)
                  (snd (physical_reserve_region s (entry_base e) (entry_length e)))
           else reserve_entries largest es (Suc i) s)"

definition physical_memory_init ::
  "u8 list \<Rightarrow> u64 \<Rightarrow> pmm \<Rightarrow> limine_memmap_entry list option \<Rightarrow> bool \<times> pmm" where
  "physical_memory_init storage storage_addr s memmap =
     (case memmap of
        None \<Rightarrow> (False, s)
      | Some entries \<Rightarrow>
          (case scan_memmap entries 0 (total_memory s, reserved_memory s, None, 0) of
             (tot, reserved, largest, largest_size) \<Rightarrow>
               let s = s\<lparr>total_memory := tot, reserved_memory := reserved\<rparr>
               in case largest of
                    None \<Rightarrow> (False, s)
                  | Some k \<Rightarrow>
                      (case bitmap_init (Some storage) (entry_base (entries ! k)) largest_size of
                         None \<Rightarrow> (False, s)
                       | Some m \<Rightarrow>
                           let s = reserve_entries k entries 0 (s\<lparr>phys_mem := m\<rparr>)
                           in (True, snd (physical_reserve_region s storage_addr 4096)))))"

section \<open>The page allocator interface\<close>

text \<open>
  What the clients of the page allocator (\<^verbatim>\<open>memory.c\<close>, \<^verbatim>\<open>vmm.c\<close>, \<^verbatim>\<open>thread.c\<close>, \<^verbatim>\<open>e1000.c\<close>) rely on.
  \<open>owned s\<close> is the set of start addresses of the pages in use.
\<close>

definition page_range :: "u64 \<Rightarrow> nat \<Rightarrow> nat set" where
  "page_range a n = (\<lambda>i. unat a + 4096 * i) ` {0..<n}"

lemma page_range_0 [simp]: "page_range a 0 = {}"
  by (simp add: page_range_def)

lemma page_range_base: "0 < n \<Longrightarrow> unat a \<in> page_range a n"
  by (force simp: page_range_def)

locale page_allocator =
  fixes inv :: "'s \<Rightarrow> bool"
    and alloc_pages :: "'s \<Rightarrow> u64 \<Rightarrow> u64 \<times> 's"
    and free_pages :: "'s \<Rightarrow> u64 \<Rightarrow> u64 \<Rightarrow> 's"
    and owned :: "'s \<Rightarrow> nat set"
  assumes alloc_success: "inv s \<Longrightarrow> alloc_pages s n = (a, s') \<Longrightarrow> a \<noteq> 0 \<Longrightarrow>
      inv s' \<and> n \<noteq> 0 \<and> owned s \<inter> page_range a (unat n) = {} \<and>
      owned s' = owned s \<union> page_range a (unat n)"
    and alloc_failure: "inv s \<Longrightarrow> alloc_pages s n = (0, s') \<Longrightarrow> s' = s"
    and free_owned: "inv s \<Longrightarrow> page_range a (unat n) \<subseteq> owned s \<Longrightarrow>
      inv (free_pages s a n) \<and> owned (free_pages s a n) = owned s - page_range a (unat n)"
begin

lemma alloc_inv:
  assumes "inv s" and "alloc_pages s n = (a, s')"
  shows "inv s'"
proof (cases "a = 0")
  case True
  with assms(2) have "s' = s" by (intro alloc_failure [OF assms(1)]) simp
  with assms(1) show ?thesis by simp
next
  case False
  with alloc_success [OF assms] show ?thesis by simp
qed

text \<open>Two allocations that are both live never overlap.\<close>

lemma alloc_twice_disjoint:
  assumes "inv s" and "alloc_pages s n = (a, s1)" and "a \<noteq> 0"
    and "alloc_pages s1 k = (b, s2)" and "b \<noteq> 0"
  shows "page_range a (unat n) \<inter> page_range b (unat k) = {}"
proof -
  from alloc_success [OF assms(1-3)] have s1: "inv s1" "page_range a (unat n) \<subseteq> owned s1"
    by auto
  from alloc_success [OF s1(1) assms(4,5)] have "owned s1 \<inter> page_range b (unat k) = {}"
    by simp
  with s1(2) show ?thesis by blast
qed

text \<open>Freeing what was just allocated gives the pages back, and only those.\<close>

lemma alloc_free_restores:
  assumes "inv s" and "alloc_pages s n = (a, s')" and "a \<noteq> 0"
  shows "inv (free_pages s' a n) \<and> owned (free_pages s' a n) = owned s"
proof -
  from alloc_success [OF assms] have s': "inv s'" "page_range a (unat n) \<subseteq> owned s'"
    and eq: "owned s' = owned s \<union> page_range a (unat n)" "owned s \<inter> page_range a (unat n) = {}"
    by auto
  from free_owned [OF s'] eq show ?thesis by auto
qed

lemma free_keeps_others:
  assumes "inv s" and "page_range a (unat n) \<subseteq> owned s" and "p \<in> owned s"
    and "p \<notin> page_range a (unat n)"
  shows "p \<in> owned (free_pages s a n)"
  using free_owned [OF assms(1,2)] assms(3,4) by blast

end


section \<open>The bitmap allocator implements it\<close>

definition pmm_wf :: "pmm \<Rightarrow> bool" where
  "pmm_wf s \<longleftrightarrow> bitmap_wf (phys_mem s) \<and> memory_base (phys_mem s) \<noteq> 0"

definition owned_pages :: "pmm \<Rightarrow> nat set" where
  "owned_pages s =
     (\<lambda>i. unat (memory_base (phys_mem s)) + 4096 * i) ` used_blocks (phys_mem s)"

lemma block_address_nonzero:
  assumes "bitmap_wf m" "memory_base m \<noteq> 0" "i < nblocks m"
  shows "bitmap_block_to_address m i \<noteq> 0"
  using unat_block_to_address [OF assms(1,3)] assms(2) by (auto simp: unat_eq_0)

lemma page_range_blocks:
  assumes "bitmap_wf m" "s < nblocks m"
  shows "page_range (bitmap_block_to_address m s) n =
     (\<lambda>i. unat (memory_base m) + 4096 * i) ` {s..<s + n}"
proof -
  have "{s..<s + n} = (\<lambda>i. s + i) ` {0..<n}" by (simp add: add.commute)
  then have "(\<lambda>i. unat (memory_base m) + 4096 * i) ` {s..<s + n} =
      (\<lambda>i. unat (memory_base m) + 4096 * s + 4096 * i) ` {0..<n}"
    by (simp only: image_image) (simp add: algebra_simps)
  then show ?thesis
    using assms by (simp add: page_range_def unat_block_to_address)
qed

lemma inj_page_address: "inj (\<lambda>i. b + 4096 * i :: nat)"
  by (simp add: inj_def)

lemma physical_alloc_pages_cases:
  assumes "pmm_wf s"
  obtains (fail) "physical_alloc_pages s n = (0, s)"
  | (success) k s' where "leftmost_run (phys_mem s) (unat n) k" and "n \<noteq> 0"
      and "k < nblocks (phys_mem s)"
      and "physical_alloc_pages s n = (bitmap_block_to_address (phys_mem s) k, s')"
      and "phys_mem s' = mark_run (phys_mem s) k (unat n)"
      and "used_memory s' = used_memory s + n * 4096"
proof -
  from assms have wf: "bitmap_wf (phys_mem s)" "memory_base (phys_mem s) \<noteq> 0"
    by (simp_all add: pmm_wf_def)
  show thesis
  proof (rule bitmap_alloc_blocks_cases [OF wf(1), of n])
    assume "bitmap_alloc_blocks (phys_mem s) n = (0, phys_mem s)"
    then show thesis by (intro fail) (simp add: physical_alloc_pages_def)
  next
    fix k assume k: "n \<noteq> 0" "leftmost_run (phys_mem s) (unat n) k"
      "bitmap_alloc_blocks (phys_mem s) n =
         (bitmap_block_to_address (phys_mem s) k, mark_run (phys_mem s) k (unat n))"
    then have lt: "k < nblocks (phys_mem s)"
      using unat_gt_0 [of n] by (auto simp: leftmost_run_def free_run_def)
    with wf have "bitmap_block_to_address (phys_mem s) k \<noteq> 0"
      by (rule block_address_nonzero)
    with k lt show thesis
      by (intro success [of k "snd (physical_alloc_pages s n)"])
         (simp_all add: physical_alloc_pages_def BITMAP_BLOCK_SIZE_def)
  qed
qed

lemma physical_alloc_page_eq:
  assumes "pmm_wf s"
  shows "physical_alloc_page s = physical_alloc_pages s 1"
proof (cases "free_blocks (phys_mem s) < 1")
  case True
  then have "free_blocks (phys_mem s) = 0" by simp
  then show ?thesis
    by (simp add: physical_alloc_page_def physical_alloc_pages_def bitmap_alloc_blocks_def
        bitmap_alloc_block_def)
next
  case False
  then show ?thesis
    by (simp add: physical_alloc_page_def physical_alloc_pages_def bitmap_alloc_blocks_def
        split: prod.split)
qed

lemma mark_run_pmm:
  assumes "pmm_wf s" and "free_run (bitmap (phys_mem s)) (nblocks (phys_mem s)) c k"
    and "phys_mem s' = mark_run (phys_mem s) k c" and "k < nblocks (phys_mem s)"
  shows "pmm_wf s'"
    and "owned_pages s' = owned_pages s \<union> page_range (bitmap_block_to_address (phys_mem s) k) c"
    and "owned_pages s \<inter> page_range (bitmap_block_to_address (phys_mem s) k) c = {}"
proof -
  let ?m = "phys_mem s"
  from assms(1) have wf: "bitmap_wf ?m" by (simp add: pmm_wf_def)
  from assms(2) have kc: "k + c \<le> nblocks ?m" by (simp add: free_run_def)
  note pr = page_range_blocks [OF wf assms(4), of c]
  show "pmm_wf s'"
    using bitmap_wf_mark_run [OF wf assms(2)] assms(1,3) by (simp add: pmm_wf_def mark_run_def)
  show "owned_pages s' = owned_pages s \<union> page_range (bitmap_block_to_address ?m k) c"
    using used_blocks_mark_run [OF wf kc] assms(3)
    by (simp add: owned_pages_def pr image_Un mark_run_def)
  have "used_blocks ?m \<inter> {k..<k + c} = {}"
    using assms(2) free_run_used_blocks [OF kc] by blast
  then show "owned_pages s \<inter> page_range (bitmap_block_to_address ?m k) c = {}"
    unfolding owned_pages_def pr by (simp only: image_Int [OF inj_page_address, symmetric]) simp
qed

lemma owned_pages_block:
  assumes "unat a \<in> owned_pages s" and "pmm_wf s"
  obtains b where "b < nblocks (phys_mem s)" and "b \<in> used_blocks (phys_mem s)"
    and "a = bitmap_block_to_address (phys_mem s) b"
proof -
  from assms(1) obtain b where b: "b \<in> used_blocks (phys_mem s)"
    "unat a = unat (memory_base (phys_mem s)) + 4096 * b"
    by (auto simp: owned_pages_def)
  then have lt: "b < nblocks (phys_mem s)" by (auto dest: used_blocks_lt)
  with b(2) assms(2) have "unat a = unat (bitmap_block_to_address (phys_mem s) b)"
    by (simp add: pmm_wf_def unat_block_to_address)
  then have "a = bitmap_block_to_address (phys_mem s) b" by (simp add: word_unat_eq_iff)
  with b lt that show thesis by blast
qed

lemma physical_free_pages_spec:
  assumes "pmm_wf s" and "page_range a (unat n) \<subseteq> owned_pages s"
  shows "pmm_wf (physical_free_pages s a n) \<and>
     owned_pages (physical_free_pages s a n) = owned_pages s - page_range a (unat n)"
proof (cases "n = 0")
  case True
  then show ?thesis
    using assms(1) by (simp add: physical_free_pages_def bitmap_free_blocks_def)
next
  case False
  let ?m = "phys_mem s"
  have wf: "bitmap_wf ?m" using assms(1) by (simp add: pmm_wf_def)
  from False have n: "0 < unat n" by (simp add: unat_gt_0)
  with assms(2) have "unat a \<in> owned_pages s" using page_range_base by blast
  then obtain b where b: "b < nblocks ?m" "a = bitmap_block_to_address ?m b"
    using owned_pages_block assms(1) by metis
  note pr = page_range_blocks [OF wf b(1), of "unat n", folded b(2)]
  have sub: "{b..<b + unat n} \<subseteq> used_blocks ?m"
    using assms(2) unfolding pr owned_pages_def
    by (simp add: inj_image_subset_iff [OF inj_page_address])
  moreover have "b + (unat n - 1) \<in> {b..<b + unat n}" using n by simp
  ultimately have "b + (unat n - 1) < nblocks ?m" by (blast intro: used_blocks_lt)
  then have small: "unat n < 2 ^ 63" using bitmap_wfD(1) [OF wf] by simp
  have cont: "bitmap_contains_address ?m a" and blk: "bitmap_address_to_block ?m a = b"
    using contains_block_address [OF wf b(1)] b(2) by simp_all
  from bitmap_free_blocks_spec [OF wf cont small]
  have "bitmap_wf (bitmap_free_blocks ?m a n)" "same_region ?m (bitmap_free_blocks ?m a n)"
    "used_blocks (bitmap_free_blocks ?m a n) = used_blocks ?m - {b..<b + unat n}"
    by (simp_all add: blk)
  then show ?thesis
    using assms(1) cont pr
    by (simp add: physical_free_pages_def pmm_wf_def owned_pages_def same_region_def Let_def
        image_set_diff [OF inj_page_address])
qed

interpretation pages: page_allocator pmm_wf physical_alloc_pages physical_free_pages owned_pages
proof unfold_locales
  fix s s' :: pmm and n a :: u64
  assume s: "pmm_wf s" "physical_alloc_pages s n = (a, s')" "a \<noteq> 0"
  show "pmm_wf s' \<and> n \<noteq> 0 \<and> owned_pages s \<inter> page_range a (unat n) = {} \<and>
      owned_pages s' = owned_pages s \<union> page_range a (unat n)"
  proof (cases rule: physical_alloc_pages_cases [OF s(1), of n, case_names fail success])
    case fail
    with s(2,3) show ?thesis by simp
  next
    case (success k s'')
    with s(2) have "s'' = s'" "a = bitmap_block_to_address (phys_mem s) k" by simp_all
    with success mark_run_pmm [OF s(1), of "unat n" k s'] show ?thesis
      by (simp add: leftmost_run_def)
  qed
next
  fix s s' :: pmm and n :: u64
  assume s: "pmm_wf s" "physical_alloc_pages s n = (0, s')"
  show "s' = s"
  proof (cases rule: physical_alloc_pages_cases [OF s(1), of n, case_names fail success])
    case fail
    with s(2) show ?thesis by simp
  next
    case (success k s'')
    with s have "bitmap_block_to_address (phys_mem s) k = 0" by simp
    with block_address_nonzero success s(1) show ?thesis by (metis pmm_wf_def)
  qed
next
  fix s :: pmm and a n :: u64
  assume "pmm_wf s" "page_range a (unat n) \<subseteq> owned_pages s"
  then show "pmm_wf (physical_free_pages s a n) \<and>
      owned_pages (physical_free_pages s a n) = owned_pages s - page_range a (unat n)"
    by (rule physical_free_pages_spec)
qed


lemma bitmap_free_block_eq:
  assumes "bitmap_wf m"
  shows "bitmap_free_block m a = bitmap_free_blocks m a 1"
proof (cases "bitmap_contains_address m a")
  case True
  let ?b = "bitmap_address_to_block m a"
  have b: "?b < nblocks m" by (rule address_to_block_lt [OF assms True])
  moreover have "unat (of_nat ?b + 1 :: u64) = ?b + 1"
    using b bitmap_wfD(1) [OF assms] by (simp add: unat_word_ariths unat_of_nat)
  ultimately have "\<not> total_blocks m < of_nat ?b + 1" by (simp add: word_less_nat_alt)
  with True show ?thesis by (simp add: bitmap_free_block_def bitmap_free_blocks_def Let_def)
next
  case False
  then show ?thesis by (simp add: bitmap_free_block_def bitmap_free_blocks_def)
qed

lemma physical_free_page_eq:
  assumes "pmm_wf s"
  shows "physical_free_page s a = physical_free_pages s a 1"
  using assms
  by (simp add: physical_free_page_def physical_free_pages_def pmm_wf_def bitmap_free_block_eq Let_def)


section \<open>Accounting\<close>

text \<open>
  \<open>used_memory\<close> follows the number of owned pages: what was reserved at boot, \<open>k\<close> pages, is
  not counted.
\<close>

definition pmm_accounts :: "nat \<Rightarrow> pmm \<Rightarrow> bool" where
  "pmm_accounts k s \<longleftrightarrow> unat (used_memory s) + 4096 * k = 4096 * card (owned_pages s)"

lemma card_owned_pages: "card (owned_pages s) = card (used_blocks (phys_mem s))"
  unfolding owned_pages_def by (rule card_image) (simp add: inj_on_def)

lemma card_owned_bound:
  assumes "pmm_wf s"
  shows "card (owned_pages s) \<le> 32768"
  using assms bitmap_wfD(1,4) [of "phys_mem s"] by (simp add: pmm_wf_def card_owned_pages)

lemma card_page_range [simp]: "card (page_range a n) = n"
  by (simp add: page_range_def card_image inj_on_def)

lemma finite_page_range [simp]: "finite (page_range a n)"
  by (simp add: page_range_def)

lemma finite_owned_pages [simp]: "finite (owned_pages s)"
  by (simp add: owned_pages_def)

lemma alloc_accounts:
  assumes "pmm_wf s" "pmm_accounts k s" "physical_alloc_pages s n = (a, s')"
  shows "pmm_accounts k s'"
proof (cases "a = 0")
  case True
  with assms(3) have "s' = s" by (intro pages.alloc_failure [OF assms(1)]) simp
  with assms(2) show ?thesis by simp
next
  case False
  note succ = pages.alloc_success [OF assms(1,3) False]
  then have card: "card (owned_pages s') = card (owned_pages s) + unat n"
    by (auto simp: card_Un_disjoint)
  with card_owned_bound [of s'] succ have n: "unat n \<le> 32768" by simp
  from physical_alloc_pages_cases [OF assms(1), of n] False assms(3)
  have "used_memory s' = used_memory s + n * 4096" by force
  moreover have "unat (used_memory s + n * 4096) = unat (used_memory s) + 4096 * unat n"
    using n card_owned_bound [OF assms(1)] assms(2)
    by (subst unat_add_no_wrap) (simp_all add: pmm_accounts_def unat_word_ariths)
  ultimately show ?thesis using assms(2) card by (simp add: pmm_accounts_def)
qed

lemma free_accounts:
  assumes "pmm_wf s" "pmm_accounts k s" "page_range a (unat n) \<subseteq> owned_pages s"
    and "k + unat n \<le> card (owned_pages s)"
  shows "pmm_accounts k (physical_free_pages s a n)"
proof (cases "n = 0")
  case True
  then show ?thesis
    using assms(2)
    by (simp add: physical_free_pages_def bitmap_free_blocks_def pmm_accounts_def owned_pages_def)
next
  case False
  then have "0 < unat n" by (simp add: unat_gt_0)
  from page_range_base [OF this] assms(3) have "unat a \<in> owned_pages s" by auto
  from owned_pages_block [OF this assms(1)] obtain b where
    "a = bitmap_block_to_address (phys_mem s) b" "b < nblocks (phys_mem s)" by blast
  then have cont: "bitmap_contains_address (phys_mem s) a"
    using assms(1) by (simp add: contains_block_address(1) pmm_wf_def)
  have "unat n \<le> 32768" using card_owned_bound [OF assms(1)] assms(4) by simp
  then have n: "unat (n * 4096) = 4096 * unat n" by (simp add: unat_word_ariths)
  have ge: "4096 * unat n \<le> unat (used_memory s)"
    using assms(2,4) by (simp add: pmm_accounts_def)
  then have "used_memory (physical_free_pages s a n) = used_memory s - n * 4096"
    using cont n by (simp add: physical_free_pages_def BITMAP_BLOCK_SIZE_def word_le_nat_alt)
  moreover have "unat (used_memory s - n * 4096) = unat (used_memory s) - 4096 * unat n"
    using n ge by (simp add: unat_sub_no_wrap)
  moreover have "card (owned_pages (physical_free_pages s a n)) = card (owned_pages s) - unat n"
    using pages.free_owned [OF assms(1,3)] assms(3) by (simp add: card_Diff_subset)
  ultimately show ?thesis using assms(2,4) ge by (simp add: pmm_accounts_def)
qed

section \<open>Reserving regions and initialisation\<close>

lemma free_block_alloc_wf:
  assumes "bitmap_wf m" and "b < nblocks m"
  shows "bitmap_wf (reserve_block b m) \<and> same_region m (reserve_block b m)"
proof -
  let ?m = "bitmap_free_block m (bitmap_block_to_address m b)"
  have wf: "bitmap_wf ?m" and same: "same_region m ?m"
    using bitmap_free_block_spec [OF assms(1)] by simp_all
  show ?thesis
  proof (cases "lowest_free ?m")
    case None
    then show ?thesis using wf same by (simp add: reserve_block_def bitmap_alloc_block_alt)
  next
    case (Some i)
    then show ?thesis
      using wf same bitmap_wf_mark_run [OF wf lowest_free_free_run [OF Some]]
      by (simp add: reserve_block_def bitmap_alloc_block_alt)
         (blast intro: same_region_trans same_region_mark_run)
  qed
qed

lemma reserve_blocks_wf:
  assumes "bitmap_wf m" and "\<forall>b\<in>set bs. b < nblocks m"
  shows "bitmap_wf (fold reserve_block bs m) \<and> same_region m (fold reserve_block bs m)"
  using assms
proof (induction bs arbitrary: m)
  case Nil
  then show ?case by simp
next
  case (Cons b bs)
  from free_block_alloc_wf [OF Cons.prems(1), of b] Cons.prems(2)
  have b: "bitmap_wf (reserve_block b m)" "same_region m (reserve_block b m)" by simp_all
  then have "\<forall>c\<in>set bs. c < nblocks (reserve_block b m)"
    using Cons.prems(2) by (simp add: same_region_def)
  from Cons.IH [OF b(1) this] b(2) show ?case
    by (auto intro: same_region_trans)
qed

lemma physical_reserve_region_region:
  assumes "pmm_wf s"
  shows "pmm_wf (snd (physical_reserve_region s base sz)) \<and>
     same_region (phys_mem s) (phys_mem (snd (physical_reserve_region s base sz)))"
proof -
  let ?m = "phys_mem s"
  let ?e = "bitmap_address_to_block ?m (base + sz - 1)"
  have "bitmap_wf (fold reserve_block bs ?m) \<and> same_region ?m (fold reserve_block bs ?m)"
    if "\<forall>b\<in>set bs. b < nblocks ?m" for bs
    using assms that by (intro reserve_blocks_wf) (simp_all add: pmm_wf_def)
  then show ?thesis
    using assms
    by (auto simp: physical_reserve_region_def Let_def pmm_wf_def same_region_def simp del: upt_Suc)
qed

lemma reserve_entries_region:
  assumes "pmm_wf s"
  shows "pmm_wf (reserve_entries k es i s) \<and> same_region (phys_mem s) (phys_mem (reserve_entries k es i s))"
  using assms
proof (induction k es i s rule: reserve_entries.induct)
  case (1 largest i s)
  then show ?case by simp
next
  case (2 largest e es i s)
  then show ?case
    using physical_reserve_region_region [of s "entry_base e" "entry_length e"]
    by (auto intro: same_region_trans)
qed

text \<open>The first loop finds a usable entry of maximal length.\<close>

definition memmap_largest ::
  "limine_memmap_entry list \<Rightarrow> nat \<Rightarrow> nat option \<Rightarrow> u64 \<Rightarrow> bool" where
  "memmap_largest es n largest sz \<longleftrightarrow>
     (case largest of
        None \<Rightarrow> sz = 0
      | Some k \<Rightarrow> k < n \<and> entry_type (es ! k) = LIMINE_MEMMAP_USABLE \<and> entry_length (es ! k) = sz \<and>
                  0 < sz) \<and>
     (\<forall>j<n. entry_type (es ! j) = LIMINE_MEMMAP_USABLE \<longrightarrow> entry_length (es ! j) \<le> sz)"

lemma memmap_largest_skip:
  assumes "memmap_largest es n largest sz"
    and "entry_type (es ! n) = LIMINE_MEMMAP_USABLE \<Longrightarrow> entry_length (es ! n) \<le> sz"
  shows "memmap_largest es (Suc n) largest sz"
  using assms by (auto simp: memmap_largest_def less_Suc_eq split: option.splits)

lemma memmap_largest_take:
  assumes "memmap_largest es n largest sz" "sz < entry_length (es ! n)"
    and "entry_type (es ! n) = LIMINE_MEMMAP_USABLE"
  shows "memmap_largest es (Suc n) (Some n) (entry_length (es ! n))"
proof -
  have "0 < entry_length (es ! n)" using assms(2) by (simp add: word_less_nat_alt)
  with assms show ?thesis
    by (auto simp: memmap_largest_def less_Suc_eq split: option.splits)
qed

lemma scan_memmap_largest:
  assumes "scan_memmap es (length pre) (t, r, l, z) = (t', r', l', z')"
    and "memmap_largest (pre @ es) (length pre) l z"
  shows "memmap_largest (pre @ es) (length (pre @ es)) l' z'"
  using assms
proof (induction es arbitrary: pre t r l z)
  case Nil
  then show ?case by simp
next
  case (Cons e es)
  have e: "(pre @ e # es) ! length pre = e" by simp
  note IH = Cons.IH [of "pre @ [e]", simplified]
  show ?case
  proof (cases "entry_type e = LIMINE_MEMMAP_USABLE \<and> z < entry_length e")
    case True
    then have "memmap_largest (pre @ e # es) (Suc (length pre)) (Some (length pre)) (entry_length e)"
      using memmap_largest_take [OF Cons.prems(2)] by (simp add: e)
    with True Cons.prems(1) show ?thesis using IH by simp
  next
    case False
    then have "memmap_largest (pre @ e # es) (Suc (length pre)) l z"
      by (intro memmap_largest_skip [OF Cons.prems(2)]) (auto simp: e not_less)
    with False Cons.prems(1) show ?thesis using IH by (auto split: if_splits)
  qed
qed

lemma physical_memory_init_cases:
  assumes "physical_memory_init storage addr s (Some es) = (True, s')"
  obtains k m where "k < length es" and "entry_type (es ! k) = LIMINE_MEMMAP_USABLE"
    and "\<forall>e\<in>set es. entry_type e = LIMINE_MEMMAP_USABLE \<longrightarrow> entry_length e \<le> entry_length (es ! k)"
    and "bitmap_init (Some storage) (entry_base (es ! k)) (entry_length (es ! k)) = Some m"
    and "\<exists>t r. s' = snd (physical_reserve_region (reserve_entries k es 0
           (s\<lparr>total_memory := t, reserved_memory := r, phys_mem := m\<rparr>)) addr 4096)"
proof -
  obtain t r l z where scan:
    "scan_memmap es 0 (total_memory s, reserved_memory s, None, 0) = (t, r, l, z)"
    by (cases "scan_memmap es 0 (total_memory s, reserved_memory s, None, 0)")
  then have big: "memmap_largest es (length es) l z"
    using scan_memmap_largest [of es "[]"] by (simp add: memmap_largest_def)
  from assms scan obtain k m where k: "l = Some k"
    and m: "bitmap_init (Some storage) (entry_base (es ! k)) z = Some m"
    and s': "s' = snd (physical_reserve_region (reserve_entries k es 0
           (s\<lparr>total_memory := t, reserved_memory := r, phys_mem := m\<rparr>)) addr 4096)"
    by (auto simp: physical_memory_init_def Let_def split: option.splits)
  from big k have "k < length es" "entry_type (es ! k) = LIMINE_MEMMAP_USABLE"
    "entry_length (es ! k) = z"
    and "\<forall>e\<in>set es. entry_type e = LIMINE_MEMMAP_USABLE \<longrightarrow> entry_length e \<le> z"
    by (auto simp: memmap_largest_def in_set_conv_nth)
  with m s' that show thesis by blast
qed

text \<open>
  One round of the reserve loop: the block is freed if it was used, then the lowest free block
  is taken, whichever that is.
\<close>

lemma used_blocks_reserve_block:
  assumes "bitmap_wf m" and "b < nblocks m" and "i < nblocks m"
    and "i \<notin> used_blocks m - {b}" and "{0..<i} \<subseteq> used_blocks m - {b}"
  shows "used_blocks (reserve_block b m) = (used_blocks m - {b}) \<union> {i}"
proof -
  let ?m = "bitmap_free_block m (bitmap_block_to_address m b)"
  have wf: "bitmap_wf ?m" and same: "same_region m ?m"
    and used: "used_blocks ?m = used_blocks m - {b}"
    using bitmap_free_block_spec [OF assms(1)] contains_block_address [OF assms(1,2)] by simp_all
  from same have n: "nblocks ?m = nblocks m" by (simp add: same_region_def)
  have "lowest_free ?m = Some i"
    using assms(3-5) by (auto simp: lowest_free_def first_index_Some_iff used n)
  then show ?thesis
    using used_blocks_mark_run [OF wf, of i 1] assms(3) n used
    by (simp add: reserve_block_def bitmap_alloc_block_alt [OF wf])
qed

lemma reserve_run_prefix:
  assumes "bitmap_wf m" and "used_blocks m = {0..<k}" and "k \<le> b" and "b + n \<le> nblocks m"
  shows "used_blocks (fold reserve_block [b..<b + n] m) = {0..<k + n}"
  using assms(4)
proof (induction n)
  case 0
  then show ?case using assms(2) by simp
next
  case (Suc n)
  let ?m = "fold reserve_block [b..<b + n] m"
  have wf: "bitmap_wf ?m" "nblocks ?m = nblocks m"
    using reserve_blocks_wf [OF assms(1), of "[b..<b + n]"] Suc.prems
    by (simp_all add: same_region_def)
  have used: "used_blocks ?m = {0..<k + n}" using Suc by simp
  have "used_blocks (reserve_block (b + n) ?m) = (used_blocks ?m - {b + n}) \<union> {k + n}"
    using wf assms(3) Suc.prems by (intro used_blocks_reserve_block) (auto simp: used)
  also have "\<dots> = {0..<k + Suc n}" using assms(3) by (auto simp: used)
  finally show ?case by simp
qed

lemma reserve_run_filled:
  assumes "bitmap_wf m" and "{0..<b} \<subseteq> used_blocks m" and "b + n \<le> nblocks m"
  shows "used_blocks (fold reserve_block [b..<b + n] m) = used_blocks m \<union> {b..<b + n}"
  using assms(3)
proof (induction n)
  case 0
  then show ?case by simp
next
  case (Suc n)
  let ?m = "fold reserve_block [b..<b + n] m"
  have wf: "bitmap_wf ?m" "nblocks ?m = nblocks m"
    using reserve_blocks_wf [OF assms(1), of "[b..<b + n]"] Suc.prems
    by (simp_all add: same_region_def)
  have used: "used_blocks ?m = used_blocks m \<union> {b..<b + n}" using Suc by simp
  have "{0..<b + n} \<subseteq> used_blocks ?m - {b + n}"
    using assms(2) by (fastforce simp: used)
  then have "used_blocks (reserve_block (b + n) ?m) = (used_blocks ?m - {b + n}) \<union> {b + n}"
    using wf Suc.prems by (intro used_blocks_reserve_block) auto
  also have "\<dots> = used_blocks m \<union> {b..<b + Suc n}" by (auto simp: used)
  finally show ?case by simp
qed

text \<open>The block range of a page-aligned region of \<open>n\<close> pages that lies in the managed area.\<close>

lemma reserve_region_blocks:
  assumes "bitmap_wf m" and "b + n \<le> nblocks m" and "0 < n"
    and "base = bitmap_block_to_address m b"
  shows "bitmap_address_to_block m base = b"
    and "bitmap_address_to_block m (base + of_nat n * 4096 - 1) = b + n - 1"
proof -
  show "bitmap_address_to_block m base = b"
    using assms contains_block_address(2) [of m b] by simp
  have *: "base + of_nat n * 4096 - 1 - memory_base m = of_nat ((b + n) * 4096 - 1)"
    using assms(3,4) by (simp add: bitmap_block_to_address_def BITMAP_BLOCK_SIZE_def of_nat_diff
        algebra_simps)
  have "(b + n) * 4096 - 1 < 2 ^ 64" using bitmap_wfD(1) [OF assms(1)] assms(2) by simp
  then have "unat (of_nat ((b + n) * 4096 - 1) :: u64) = (b + n) * 4096 - 1"
    by (intro unat_of_nat_small) simp
  moreover have "((b + n) * 4096 - 1) div 4096 = b + n - 1"
    using assms(3) by (intro div_nat_eqI) (auto simp: algebra_simps)
  ultimately show "bitmap_address_to_block m (base + of_nat n * 4096 - 1) = b + n - 1"
    by (simp add: bitmap_address_to_block_def Let_def BITMAP_BLOCK_SIZE_def * unat_div)
qed

lemma physical_reserve_region_blocks:
  assumes "pmm_wf s" and "b + n \<le> nblocks (phys_mem s)" and "0 < n"
  shows "physical_reserve_region s (bitmap_block_to_address (phys_mem s) b) (of_nat n * 4096) =
     (True, s\<lparr>phys_mem := fold reserve_block [b..<b + n] (phys_mem s)\<rparr>)"
proof -
  have wf: "bitmap_wf (phys_mem s)" using assms(1) by (simp add: pmm_wf_def)
  from assms(2,3) have "Suc (b + n - 1) = b + n" by simp
  then show ?thesis
    using assms(2,3) reserve_region_blocks [OF wf assms(2,3) refl]
    by (simp add: physical_reserve_region_def Let_def del: upt_Suc)
qed

section \<open>Properties\<close>

definition sample_pmm :: pmm where
  "sample_pmm = \<lparr>phys_mem = sample_bitmap, total_memory = 0x10000, reserved_memory = 0,
     used_memory = 0x3000\<rparr>"

lemma sample_pmm_wf [simp]: "pmm_wf sample_pmm"
  by (simp add: pmm_wf_def sample_pmm_def) (simp add: sample_bitmap_def)

lemma sample_pmm_phys_mem [simp]: "phys_mem sample_pmm = sample_bitmap"
  by (simp add: sample_pmm_def)

lemma sample_owned_pages [simp]: "owned_pages sample_pmm = {0x100000, 0x101000, 0x102000}"
  by (simp add: owned_pages_def) (simp add: sample_bitmap_def)

text \<open>
  C2. Allocated pages are exclusive: two successful calls of \<open>physical_alloc_pages\<close> with no
  free in between return page ranges that do not overlap each other or any page in use before.
\<close>

theorem physical_alloc_pages_disjoint:
  assumes "pmm_wf s" and "physical_alloc_pages s n = (a, s1)" and "a \<noteq> 0"
    and "physical_alloc_pages s1 k = (b, s2)" and "b \<noteq> 0"
  shows "page_range a (unat n) \<inter> page_range b (unat k) = {} \<and>
     owned_pages s \<inter> (page_range a (unat n) \<union> page_range b (unat k)) = {} \<and>
     owned_pages s2 = owned_pages s \<union> page_range a (unat n) \<union> page_range b (unat k)"
proof -
  note first = pages.alloc_success [OF assms(1-3)]
  then have "pmm_wf s1" by simp
  from first pages.alloc_success [OF this assms(4,5)] pages.alloc_twice_disjoint [OF assms]
  show ?thesis by auto
qed

theorem physical_alloc_pages_disjoint_witness:
  "page_range 0x103000 2 \<inter> page_range 0x105000 (unat 1) = {}"
proof -
  let ?s1 = "snd (physical_alloc_pages sample_pmm 2)"
  have 1: "physical_alloc_pages sample_pmm 2 = (0x103000, ?s1)"
    and 2: "physical_alloc_pages ?s1 1 = (0x105000, snd (physical_alloc_pages ?s1 1))"
    by code_simp+
  from physical_alloc_pages_disjoint [OF sample_pmm_wf 1 _ 2] show ?thesis by simp
qed

text \<open>
  Freeing a successful allocation undoes it: the set of pages in use is the one before
  the allocation, the manager stays well-formed and the byte counter returns to its value.
\<close>

theorem physical_alloc_free_restores:
  assumes "pmm_wf s" and "pmm_accounts k s" and "k \<le> card (owned_pages s)"
    and "physical_alloc_pages s n = (a, s')" and "a \<noteq> 0"
  shows "pmm_wf (physical_free_pages s' a n) \<and>
     owned_pages (physical_free_pages s' a n) = owned_pages s \<and>
     used_memory (physical_free_pages s' a n) = used_memory s"
proof -
  note succ = pages.alloc_success [OF assms(1,4,5)]
  have acc: "pmm_accounts k s'" by (rule alloc_accounts [OF assms(1,2,4)])
  have "card (owned_pages s') = card (owned_pages s) + unat n"
    using succ by (simp add: card_Un_disjoint)
  then have "pmm_accounts k (physical_free_pages s' a n)"
    using succ acc assms(3) by (intro free_accounts) auto
  then have "unat (used_memory (physical_free_pages s' a n)) = unat (used_memory s)"
    using assms(2) pages.alloc_free_restores [OF assms(1,4,5)] by (simp add: pmm_accounts_def)
  then show ?thesis
    using pages.alloc_free_restores [OF assms(1,4,5)] by (simp add: word_unat_eq_iff)
qed

theorem physical_alloc_free_restores_witness:
  "used_memory (physical_free_pages (snd (physical_alloc_pages sample_pmm 2)) 0x103000 2) = 0x3000"
proof -
  have 1: "physical_alloc_pages sample_pmm 2 = (0x103000, snd (physical_alloc_pages sample_pmm 2))"
    by code_simp
  have 2: "pmm_accounts 0 sample_pmm"
    unfolding pmm_accounts_def by simp (simp add: sample_pmm_def)
  from physical_alloc_free_restores [OF sample_pmm_wf 2 _ 1] show ?thesis
    by simp (simp add: sample_pmm_def)
qed

text \<open>
  Boot: when \<open>physical_memory_init\<close> succeeds, the page allocator manages the largest usable
  entry of the memory map (its first 128 MiB at most) and is well-formed, whatever the map
  reserves and wherever the linker put the bitmap.
\<close>

theorem physical_memory_init_largest:
  assumes "physical_memory_init storage addr s (Some es) = (True, s')"
    and "length storage = 4096"
    and "\<forall>e\<in>set es. entry_type e = LIMINE_MEMMAP_USABLE \<longrightarrow>
           entry_base e \<noteq> 0 \<and> unat (entry_base e) + unat (entry_length e) < 2 ^ 64"
  shows "pmm_wf s' \<and>
     (\<exists>e\<in>set es. entry_type e = LIMINE_MEMMAP_USABLE \<and>
        (\<forall>f\<in>set es. entry_type f = LIMINE_MEMMAP_USABLE \<longrightarrow> entry_length f \<le> entry_length e) \<and>
        memory_base (phys_mem s') = entry_base e \<and>
        nblocks (phys_mem s') = min (unat (entry_length e) div 4096) 32768)"
proof -
  from physical_memory_init_cases [OF assms(1)] obtain k m t r where k: "k < length es"
    "entry_type (es ! k) = LIMINE_MEMMAP_USABLE"
    and big: "\<forall>e\<in>set es. entry_type e = LIMINE_MEMMAP_USABLE \<longrightarrow> entry_length e \<le> entry_length (es ! k)"
    and m: "bitmap_init (Some storage) (entry_base (es ! k)) (entry_length (es ! k)) = Some m"
    and s': "s' = snd (physical_reserve_region (reserve_entries k es 0
           (s\<lparr>total_memory := t, reserved_memory := r, phys_mem := m\<rparr>)) addr 4096)"
    by metis
  let ?s = "s\<lparr>total_memory := t, reserved_memory := r, phys_mem := m\<rparr>"
  from assms(3) k have e: "entry_base (es ! k) \<noteq> 0"
    "unat (entry_base (es ! k)) + unat (entry_length (es ! k)) < 2 ^ 64" by (simp_all add: nth_mem)
  note init = bitmap_init_spec [OF m assms(2) e(2)]
  then have wf: "pmm_wf ?s" using e(1) by (simp add: pmm_wf_def)
  from reserve_entries_region [OF wf, of k es 0] physical_reserve_region_region
  have "pmm_wf s'" "same_region m (phys_mem s')"
    unfolding s' by (auto intro: same_region_trans)
  with init k big show ?thesis by (auto simp: same_region_def intro!: bexI [of _ "es ! k"])
qed

theorem physical_memory_init_largest_witness:
  "pmm_wf (snd (physical_memory_init (replicate 4096 0) 0xffffffff80010000
     \<lparr>phys_mem = sample_bitmap, total_memory = 0, reserved_memory = 0, used_memory = 0\<rparr>
     (Some [\<lparr>entry_base = 0x100000, entry_length = 0x10000, entry_type = LIMINE_MEMMAP_USABLE\<rparr>])))"
proof -
  let ?p = "physical_memory_init (replicate 4096 0) 0xffffffff80010000
     \<lparr>phys_mem = sample_bitmap, total_memory = 0, reserved_memory = 0, used_memory = 0\<rparr>
     (Some [\<lparr>entry_base = 0x100000, entry_length = 0x10000, entry_type = LIMINE_MEMMAP_USABLE\<rparr>])"
  have "?p = (True, snd ?p)" by (simp add: physical_memory_init_def bitmap_init_def Let_def)
  from physical_memory_init_largest [OF this] show ?thesis by simp
qed

text \<open>
  When every block below a region is in use, \<open>physical_reserve_region\<close> marks exactly the
  blocks of the region, and nothing else changes.
\<close>

theorem physical_reserve_region_filled:
  assumes "pmm_wf s" and "b + n \<le> nblocks (phys_mem s)" and "0 < n"
    and "{0..<b} \<subseteq> used_blocks (phys_mem s)"
  shows "fst (physical_reserve_region s (bitmap_block_to_address (phys_mem s) b) (of_nat n * 4096)) \<and>
     used_blocks (phys_mem (snd
       (physical_reserve_region s (bitmap_block_to_address (phys_mem s) b) (of_nat n * 4096)))) =
     used_blocks (phys_mem s) \<union> {b..<b + n}"
  using assms reserve_run_filled [of "phys_mem s" b n]
  by (simp add: physical_reserve_region_blocks pmm_wf_def)

theorem physical_reserve_region_filled_witness:
  "used_blocks (phys_mem (snd (physical_reserve_region sample_pmm 0x102000 0x2000))) = {0, 1, 2, 3}"
proof -
  have "bitmap_block_to_address sample_bitmap 2 = 0x102000" "nblocks sample_bitmap = 16"
    by code_simp+
  moreover have "{0..<2} \<subseteq> {0, 1, 2::nat}" "{0, 1, 2} \<union> {2..<2 + 2} = {0, 1, 2, 3::nat}" by auto
  ultimately show ?thesis
    using physical_reserve_region_filled [OF sample_pmm_wf, of 2 2] by simp
qed

text \<open>
  When the region does not start right above the used blocks, \<open>physical_reserve_region\<close>
  reserves the wrong blocks: with the first \<open>k\<close> blocks in use it marks the next \<open>n\<close> blocks from
  \<open>k\<close> on, so a region further up stays available to later allocations although the function
  reports success.
\<close>

theorem physical_reserve_region_misplaced:
  assumes "pmm_wf s" and "b + n \<le> nblocks (phys_mem s)" and "0 < n"
    and "used_blocks (phys_mem s) = {0..<k}" and "k \<le> b"
  shows "fst (physical_reserve_region s (bitmap_block_to_address (phys_mem s) b) (of_nat n * 4096)) \<and>
     used_blocks (phys_mem (snd
       (physical_reserve_region s (bitmap_block_to_address (phys_mem s) b) (of_nat n * 4096)))) =
     {0..<k + n}"
  using assms reserve_run_prefix [of "phys_mem s" k b n]
  by (simp add: physical_reserve_region_blocks pmm_wf_def)

theorem physical_reserve_region_misplaced_witness:
  "used_blocks (phys_mem (snd (physical_reserve_region sample_pmm 0x108000 0x2000))) = {0..<5}"
proof -
  have "bitmap_block_to_address sample_bitmap 8 = 0x108000" "nblocks sample_bitmap = 16"
    by code_simp+
  moreover have "{0, 1, 2} = {0..<3::nat}" by auto
  ultimately show ?thesis
    using physical_reserve_region_misplaced [OF sample_pmm_wf, of 8 2 3] by simp
qed

end
