(* ===== verification/Linked_List.thy ===== *)
theory Linked_List
  imports Cgos_Prelude
begin

text \<open>
  Intrusive doubly linked lists, as the heap's allocation list and the scheduler's ready queue
  and thread lists use them: the \<open>next\<close> and \<open>prev\<close> fields of all nodes are two functions on node
  addresses, \<open>0\<close> is NULL, and \<open>dll nxt prv p xs\<close> says that the nodes \<open>xs\<close> are linked in that order,
  the first one pointing back to \<open>p\<close>.
\<close>

fun hd0 :: "'a::zero list \<Rightarrow> 'a" where
  "hd0 [] = 0"
| "hd0 (x # xs) = x"

definition last0 :: "'a::zero list \<Rightarrow> 'a" where
  "last0 xs = (if xs = [] then 0 else last xs)"

fun dll :: "('a::zero \<Rightarrow> 'a) \<Rightarrow> ('a \<Rightarrow> 'a) \<Rightarrow> 'a \<Rightarrow> 'a list \<Rightarrow> bool" where
  "dll nxt prv p [] \<longleftrightarrow> True"
| "dll nxt prv p (x # xs) \<longleftrightarrow> x \<noteq> 0 \<and> prv x = p \<and> nxt x = hd0 xs \<and> dll nxt prv x xs"

lemma last0_simps [simp]: "last0 [] = 0" "last0 (xs @ [x]) = x"
  by (simp_all add: last0_def)

lemma hd0_append: "hd0 (xs @ ys) = (if xs = [] then hd0 ys else hd0 xs)"
  by (cases xs) auto

lemma hd0_in_set: "hd0 xs \<noteq> 0 \<Longrightarrow> hd0 xs \<in> set xs"
  by (cases xs) auto

lemma hd0_cases: "xs = [] \<or> hd0 xs \<in> set xs"
  by (cases xs) auto

lemma dll_nonzero: "dll nxt prv p xs \<Longrightarrow> 0 \<notin> set xs"
  by (induction xs arbitrary: p) auto

lemma hd0_eq_0_iff: "dll nxt prv p xs \<Longrightarrow> hd0 xs = 0 \<longleftrightarrow> xs = []"
  by (cases xs) auto

lemma last0_eq_0_iff: "dll nxt prv p xs \<Longrightarrow> last0 xs = 0 \<longleftrightarrow> xs = []"
  using dll_nonzero [of nxt prv p xs] by (metis last0_def last_in_set)

lemma dll_cong:
  assumes "dll nxt prv p xs" and "\<And>x. x \<in> set xs \<Longrightarrow> nxt' x = nxt x \<and> prv' x = prv x"
  shows "dll nxt' prv' p xs"
  using assms by (induction xs arbitrary: p) auto

text \<open>Insertion in front, as \<open>malloc\<close> does it.\<close>

lemma dll_push:
  assumes "dll nxt prv 0 xs" and "x \<noteq> 0" and "x \<notin> set xs" and "distinct xs"
    and "nxt' x = hd0 xs" and "prv' x = 0"
    and "\<And>y. y \<in> set xs \<Longrightarrow> nxt' y = nxt y"
    and "\<And>y. y \<in> set xs \<Longrightarrow> y \<noteq> hd0 xs \<Longrightarrow> prv' y = prv y"
    and "xs \<noteq> [] \<Longrightarrow> prv' (hd0 xs) = x"
  shows "dll nxt' prv' 0 (x # xs)"
proof (cases xs)
  case Nil
  then show ?thesis using assms(2,5,6) by simp
next
  case (Cons y ys)
  have "dll nxt prv y ys" using assms(1) Cons by simp
  then have "dll nxt' prv' y ys"
  proof (rule dll_cong)
    fix z assume z: "z \<in> set ys"
    with assms(4) Cons have "z \<noteq> y" by auto
    with z Cons show "nxt' z = nxt z \<and> prv' z = prv z" using assms(7,8) [of z] by simp
  qed
  moreover have "y \<noteq> 0" "nxt' y = hd0 ys" using assms(1,7) Cons by simp_all
  moreover have "prv' y = x" using assms(9) Cons by simp
  ultimately show ?thesis using assms(2,5,6) Cons by simp
qed

text \<open>Insertion at the tail, as the ready queue does it.\<close>

lemma dll_snoc:
  assumes "dll nxt prv p xs" and "x \<noteq> 0" and "x \<notin> set xs" and "distinct xs"
    and "nxt' x = 0" and "prv' x = (if xs = [] then p else last0 xs)"
    and "xs \<noteq> [] \<Longrightarrow> nxt' (last0 xs) = x"
    and "\<And>y. y \<in> set xs \<Longrightarrow> y \<noteq> last0 xs \<Longrightarrow> nxt' y = nxt y"
    and "\<And>y. y \<in> set xs \<Longrightarrow> prv' y = prv y"
  shows "dll nxt' prv' p (xs @ [x])"
  using assms
proof (induction xs arbitrary: p)
  case Nil
  then show ?case by simp
next
  case (Cons y ys)
  have l: "last0 (y # ys) = (if ys = [] then y else last0 ys)" by (simp add: last0_def)
  have in_ys: "ys \<noteq> [] \<Longrightarrow> last0 ys \<in> set ys" by (simp add: last0_def)
  have y: "nxt' y = hd0 (ys @ [x])"
  proof (cases "ys = []")
    case True
    then show ?thesis using Cons.prems(7) l by simp
  next
    case False
    with in_ys Cons.prems(4) have "y \<noteq> last0 (y # ys)" using l by auto
    then show ?thesis using False Cons.prems(1) Cons.prems(8) [of y] by (simp add: hd0_append)
  qed
  have "dll nxt' prv' y (ys @ [x])"
  proof (rule Cons.IH)
    show "prv' x = (if ys = [] then y else last0 ys)" using Cons.prems(6) l by simp
    show "nxt' (last0 ys) = x" if "ys \<noteq> []" using that Cons.prems(7) l by simp
    show "nxt' z = nxt z" if "z \<in> set ys" "z \<noteq> last0 ys" for z
      using that Cons.prems(8) [of z] l by (cases "ys = []") auto
    show "prv' z = prv z" if "z \<in> set ys" for z using that Cons.prems(9) by simp
  qed (use Cons.prems(1-5) in simp_all)
  with Cons.prems(1,9) y show ?case by simp
qed

text \<open>
  Removal of a node: its neighbours are linked with each other. \<open>nxt'\<close> and \<open>prv'\<close> need only
  agree with the unlinking on the remaining nodes, so the lemma covers code that also clears the
  removed node's own fields.
\<close>

lemma dll_unlink:
  assumes "dll nxt prv p (ys @ x # zs)" and "distinct (ys @ x # zs)"
    and "\<And>y. y \<in> set (ys @ zs) \<Longrightarrow> y \<noteq> last0 ys \<Longrightarrow> nxt' y = nxt y"
    and "ys \<noteq> [] \<Longrightarrow> nxt' (last0 ys) = nxt x"
    and "\<And>y. y \<in> set (ys @ zs) \<Longrightarrow> y \<noteq> hd0 zs \<Longrightarrow> prv' y = prv y"
    and "zs \<noteq> [] \<Longrightarrow> prv' (hd0 zs) = prv x"
  shows "dll nxt' prv' p (ys @ zs)"
  using assms
proof (induction ys arbitrary: p)
  case Nil
  show ?case
  proof (cases zs)
    case Nil
    then show ?thesis by simp
  next
    case (Cons z zs')
    have d: "dll nxt prv x (z # zs')" "distinct (z # zs')" using Nil.prems(1,2) Cons by simp_all
    then have nz: "0 \<notin> set (z # zs')" by (intro dll_nonzero)
    have "dll nxt' prv' z zs'"
    proof (rule dll_cong [of nxt prv])
      show "dll nxt prv z zs'" using d(1) by simp
      fix u assume "u \<in> set zs'"
      then show "nxt' u = nxt u \<and> prv' u = prv u"
        using Nil.prems(3,5) [of u] d(2) nz Cons by auto
    qed
    moreover have "nxt' z = nxt z" using Nil.prems(3) [of z] nz Cons by simp
    moreover have "prv' z = p" using Nil.prems(1,6) Cons by simp
    ultimately show ?thesis using d(1) Cons by simp
  qed
next
  case (Cons y ys)
  have l: "last0 (y # ys) = (if ys = [] then y else last0 ys)" by (simp add: last0_def)
  have in_ys: "ys \<noteq> [] \<Longrightarrow> last0 ys \<in> set ys" by (simp add: last0_def)
  have zy: "zs \<noteq> [] \<Longrightarrow> y \<noteq> hd0 zs" using Cons.prems(2) hd0_cases [of zs] by auto
  have 1: "dll nxt' prv' y (ys @ zs)"
  proof (rule Cons.IH)
    show "nxt' z = nxt z" if "z \<in> set (ys @ zs)" "z \<noteq> last0 ys" for z
      using that Cons.prems(2) Cons.prems(3) [of z] l by (cases "ys = []") auto
    show "nxt' (last0 ys) = nxt x" if "ys \<noteq> []"
      using that Cons.prems(4) l by simp
  qed (use Cons.prems in auto)
  have "nxt' y = hd0 (ys @ zs)"
  proof (cases "ys = []")
    case True
    then show ?thesis using Cons.prems(1,4) l by simp
  next
    case False
    with in_ys Cons.prems(2) have "y \<noteq> last0 ys" by auto
    then show ?thesis using False Cons.prems(1,3) l by (simp add: hd0_append)
  qed
  moreover have "prv' y = prv y"
  proof (cases "zs = []")
    case True
    then show ?thesis using Cons.prems(1,5) by simp
  next
    case False
    then show ?thesis using zy Cons.prems(5) by simp
  qed
  ultimately show ?case using Cons.prems(1) 1 by simp
qed

text \<open>The fields of a node in the middle of a list.\<close>

lemma dll_node:
  assumes "dll nxt prv p (ys @ x # zs)"
  shows "x \<noteq> 0" and "nxt x = hd0 zs" and "prv x = (if ys = [] then p else last0 ys)"
proof -
  have "x \<noteq> 0 \<and> nxt x = hd0 zs \<and> prv x = (if ys = [] then p else last0 ys)"
    using assms
  proof (induction ys arbitrary: p)
    case Nil
    then show ?case by simp
  next
    case (Cons y ys)
    then have "dll nxt prv y (ys @ x # zs)" by simp
    from Cons.IH [OF this] show ?case by (simp add: last0_def)
  qed
  then show "x \<noteq> 0" and "nxt x = hd0 zs" and "prv x = (if ys = [] then p else last0 ys)"
    by simp_all
qed

end
