(* ===== verification/Kmalloc.thy ===== *)
theory Kmalloc
  imports Pmm Linked_List
begin

text \<open>
  \<^verbatim>\<open>src/memory/memory.c\<close>: the byte routines of the C library and the kernel heap. The heap's
  state is the record \<open>kheap\<close>: the page allocator it calls, the three static variables of the
  file, the bytes of memory, and the four fields of the struct \<open>allocation_header_t\<close> at every
  address (one function per field, the usual split heap). The split keeps header fields and user
  bytes apart; \<open>user_range_in_pages\<close> and \<open>malloc_exclusive\<close> below show that for live allocations
  the bytes handed out never overlap a header, which is what the split relies on.
\<close>

section \<open>Byte routines\<close>

type_synonym memory = "u64 \<Rightarrow> u8"

definition memcpy :: "u64 \<Rightarrow> u64 \<Rightarrow> u64 \<Rightarrow> memory \<Rightarrow> memory" where
  "memcpy dest src n m =
     fold (\<lambda>i m. m(dest + of_nat i := m (src + of_nat i))) [0..<unat n] m"

definition memset :: "u64 \<Rightarrow> u32 \<Rightarrow> u64 \<Rightarrow> memory \<Rightarrow> memory" where
  "memset dest v count m =
     (let val = ucast (v AND 0xFF) in fold (\<lambda>i m. m(dest + of_nat i := val)) [0..<unat count] m)"

definition memmove :: "u64 \<Rightarrow> u64 \<Rightarrow> u64 \<Rightarrow> memory \<Rightarrow> memory" where
  "memmove dest src n m =
     (if dest < src then
        fold (\<lambda>i m. m(dest + of_nat i := m (src + of_nat i))) [0..<unat n] m
      else if src < dest then
        fold (\<lambda>i m. m(dest + of_nat i := m (src + of_nat i))) (rev [0..<unat n]) m
      else m)"

definition memcmp :: "u64 \<Rightarrow> u64 \<Rightarrow> u64 \<Rightarrow> memory \<Rightarrow> int" where
  "memcmp s1 s2 n m =
     (case first_index (\<lambda>i. m (s1 + of_nat i) \<noteq> m (s2 + of_nat i)) (unat n) of
        None \<Rightarrow> 0
      | Some i \<Rightarrow> if m (s1 + of_nat i) < m (s2 + of_nat i) then -1 else 1)"

section \<open>Heap state and operations\<close>

record kheap =
  kpmm :: pmm
  kmem :: memory
  h_size :: "u64 \<Rightarrow> u64"
  h_magic :: "u64 \<Rightarrow> u32"
  h_next :: "u64 \<Rightarrow> u64"
  h_prev :: "u64 \<Rightarrow> u64"
  allocation_list :: u64
  total_allocated :: u64
  allocation_count :: u64

definition ALLOCATION_MAGIC :: u32 where "ALLOCATION_MAGIC = 0xDEADBEEF"
definition MIN_ALLOCATION_SIZE :: u64 where "MIN_ALLOCATION_SIZE = 16"

text \<open>\<open>sizeof(allocation_header_t)\<close> on x86-64: 8 + 4 (padded to 8) + 8 + 8.\<close>

definition HEADER_SIZE :: u64 where "HEADER_SIZE = 32"

definition align_size :: "u64 \<Rightarrow> u64" where
  "align_size sz = (let page_size = 4096 in (sz + page_size - 1) AND NOT (page_size - 1))"

definition pages_needed :: "u64 \<Rightarrow> u64" where
  "pages_needed sz = (sz + HEADER_SIZE + 4095) div 4096"

definition malloc :: "u64 \<Rightarrow> kheap \<Rightarrow> u64 \<times> kheap" where
  "malloc sz s =
     (if sz = 0 then (0, s)
      else
        let sz = (if sz < MIN_ALLOCATION_SIZE then MIN_ALLOCATION_SIZE else sz);
            total_size = sz + HEADER_SIZE;
            num_pages = pages_needed total_size
        in case physical_alloc_pages (kpmm s) num_pages of
             (pages, p) \<Rightarrow>
               let s = s\<lparr>kpmm := p\<rparr>
               in if pages = 0 then (0, s)
                  else
                    let header = pages;
                        s = s\<lparr>h_size := (h_size s)(header := sz),
                              h_magic := (h_magic s)(header := ALLOCATION_MAGIC),
                              h_next := (h_next s)(header := allocation_list s),
                              h_prev := (h_prev s)(header := 0)\<rparr>;
                        s = (if allocation_list s \<noteq> 0
                             then s\<lparr>h_prev := (h_prev s)(allocation_list s := header)\<rparr> else s);
                        s = s\<lparr>allocation_list := header,
                              total_allocated := total_allocated s + num_pages * 4096,
                              allocation_count := allocation_count s + 1\<rparr>
                    in (pages + HEADER_SIZE, s))"

definition free :: "u64 \<Rightarrow> kheap \<Rightarrow> kheap" where
  "free ptr s =
     (if ptr = 0 then s
      else
        let header = ptr - HEADER_SIZE
        in if h_magic s header \<noteq> ALLOCATION_MAGIC then s
           else
             let total_size = h_size s header + HEADER_SIZE;
                 num_pages = pages_needed total_size;
                 s = (if h_prev s header \<noteq> 0
                      then s\<lparr>h_next := (h_next s)(h_prev s header := h_next s header)\<rparr>
                      else s\<lparr>allocation_list := h_next s header\<rparr>);
                 s = (if h_next s header \<noteq> 0
                      then s\<lparr>h_prev := (h_prev s)(h_next s header := h_prev s header)\<rparr> else s);
                 s = s\<lparr>h_magic := (h_magic s)(header := 0)\<rparr>;
                 s = s\<lparr>kpmm := physical_free_pages (kpmm s) header num_pages\<rparr>;
                 s = (if num_pages * 4096 \<le> total_allocated s
                      then s\<lparr>total_allocated := total_allocated s - num_pages * 4096\<rparr> else s)
             in if 0 < allocation_count s
                then s\<lparr>allocation_count := allocation_count s - 1\<rparr> else s)"

definition calloc :: "u64 \<Rightarrow> u64 \<Rightarrow> kheap \<Rightarrow> u64 \<times> kheap" where
  "calloc nmemb sz s =
     (if nmemb \<noteq> 0 \<and> (- 1) div nmemb < sz then (0, s)
      else
        let total_size = nmemb * sz
        in case malloc total_size s of
             (ptr, s) \<Rightarrow>
               (ptr, if ptr \<noteq> 0 then s\<lparr>kmem := memset ptr 0 total_size (kmem s)\<rparr> else s))"

definition realloc :: "u64 \<Rightarrow> u64 \<Rightarrow> kheap \<Rightarrow> u64 \<times> kheap" where
  "realloc ptr sz s =
     (if ptr = 0 then malloc sz s
      else if sz = 0 then (0, free ptr s)
      else
        let header = ptr - HEADER_SIZE
        in if h_magic s header \<noteq> ALLOCATION_MAGIC then (0, s)
           else
             let old_size = h_size s header
             in if sz \<le> old_size then (ptr, s\<lparr>h_size := (h_size s)(header := sz)\<rparr>)
                else case malloc sz s of
                       (new_ptr, s) \<Rightarrow>
                         if new_ptr = 0 then (0, s)
                         else (new_ptr, free ptr (s\<lparr>kmem := memcpy new_ptr ptr old_size (kmem s)\<rparr>)))"

definition kmalloc :: "u64 \<Rightarrow> kheap \<Rightarrow> u64 \<times> kheap" where
  "kmalloc sz s = malloc sz s"

definition kfree :: "u64 \<Rightarrow> kheap \<Rightarrow> kheap" where
  "kfree ptr s = free ptr s"

definition kmalloc_aligned :: "u64 \<Rightarrow> u64 \<Rightarrow> kheap \<Rightarrow> u64 \<times> kheap" where
  "kmalloc_aligned sz alignment s = malloc sz s"

definition malloc_get_total_allocated :: "kheap \<Rightarrow> u64" where
  "malloc_get_total_allocated s = total_allocated s"

definition malloc_get_free_memory :: "kheap \<Rightarrow> u64" where
  "malloc_get_free_memory s = physical_get_free_memory (kpmm s)"


section \<open>Byte routines: effect\<close>

lemma of_nat_inj_on_range:
  fixes a :: u64
  assumes "i < 2 ^ 64" "j < 2 ^ 64"
  shows "a + of_nat i = a + of_nat j \<longleftrightarrow> i = j"
  using assms by (simp add: word_of_nat_eq_iff take_bit_nat_eq_self)

definition byte_range :: "u64 \<Rightarrow> nat \<Rightarrow> u64 set" where
  "byte_range a n = (\<lambda>i. a + of_nat i) ` {0..<n}"

lemma byte_range_0 [simp]: "byte_range a 0 = {}"
  by (simp add: byte_range_def)

lemma byte_rangeI: "i < n \<Longrightarrow> a + of_nat i \<in> byte_range a n"
  by (auto simp: byte_range_def)

text \<open>Copying in the order \<open>is\<close>, when no source byte is overwritten before it is read.\<close>

lemma copy_fold:
  fixes dest src :: u64
  assumes "distinct is" and "\<forall>i\<in>set is. i < 2 ^ 64"
    and "\<And>i j ps qs. is = ps @ j # qs \<Longrightarrow> i \<in> set ps \<Longrightarrow> dest + of_nat i \<noteq> src + of_nat j"
  shows "fold (\<lambda>i m. m(dest + of_nat i := m (src + of_nat i))) is m =
     (\<lambda>a. if \<exists>i\<in>set is. a = dest + of_nat i then m (src + (a - dest)) else m a)"
  using assms
proof (induction "is" rule: rev_induct)
  case Nil
  then show ?case by simp
next
  case (snoc j js)
  let ?m = "fold (\<lambda>i m. m(dest + of_nat i := m (src + of_nat i))) js m"
  have IH: "?m = (\<lambda>a. if \<exists>i\<in>set js. a = dest + of_nat i then m (src + (a - dest)) else m a)"
  proof (rule snoc.IH)
    show "dest + of_nat i \<noteq> src + of_nat k" if "js = ps @ k # qs" "i \<in> set ps" for i k ps qs
      using snoc.prems(3) [of ps k "qs @ [j]" i] that by simp
  qed (use snoc.prems(1,2) in simp_all)
  have "?m (src + of_nat j) = m (src + of_nat j)"
    using snoc.prems(3) [of js j "[]"] by (simp add: IH) metis
  then have "fold (\<lambda>i m. m(dest + of_nat i := m (src + of_nat i))) (js @ [j]) m =
      ?m(dest + of_nat j := m (src + of_nat j))" by simp
  also have "\<dots> = (\<lambda>a. if \<exists>i\<in>set (js @ [j]). a = dest + of_nat i then m (src + (a - dest)) else m a)"
    by (subst IH) (auto simp: fun_eq_iff)
  finally show ?case .
qed

lemma upt_split_order:
  assumes "[0..<n] = ps @ j # qs"
  shows "j < n" and "i \<in> set ps \<Longrightarrow> i < j" and "i \<in> set qs \<Longrightarrow> j < i" and "i \<in> set qs \<Longrightarrow> i < n"
proof -
  have "sorted_wrt (<) (ps @ j # qs)" "set (ps @ j # qs) = {0..<n}"
    using sorted_wrt_upt [of 0 n] by (simp_all flip: assms)
  then show "j < n" and "i \<in> set ps \<Longrightarrow> i < j" and "i \<in> set qs \<Longrightarrow> j < i" and "i \<in> set qs \<Longrightarrow> i < n"
    by (auto simp: sorted_wrt_append)
qed

lemma memset_spec:
  "memset dest v n m = (\<lambda>a. if a \<in> byte_range dest (unat n) then ucast (v AND 0xFF) else m a)"
proof -
  have "fold (\<lambda>i m. m(dest + of_nat i := x)) [0..<k] m =
      (\<lambda>a. if a \<in> byte_range dest k then x else m a)" for x k
    by (induction k) (auto simp: byte_range_def fun_eq_iff less_Suc_eq)
  then show ?thesis by (simp add: memset_def Let_def)
qed

definition copied :: "u64 \<Rightarrow> u64 \<Rightarrow> nat \<Rightarrow> memory \<Rightarrow> memory" where
  "copied dest src n m = (\<lambda>a. if a \<in> byte_range dest n then m (src + (a - dest)) else m a)"

lemma copied_nth:
  assumes "i < n"
  shows "copied dest src n m (dest + of_nat i) = m (src + of_nat i)"
  using assms by (simp add: copied_def byte_rangeI)

lemma word_plus_eq_plus_of_nat:
  fixes dest src :: u64
  assumes "dest + of_nat i = src + of_nat j" and "unat src + j < 2 ^ 64" and "unat dest + i < 2 ^ 64"
  shows "unat dest + i = unat src + j"
proof -
  have "unat (dest + of_nat i) = unat dest + i" "unat (src + of_nat j) = unat src + j"
    using assms(2,3) by (simp_all add: unat_word_ariths unat_of_nat)
  with assms(1) show ?thesis by simp
qed

lemma memmove_spec:
  assumes "unat src + unat n \<le> 2 ^ 64" and "unat dest + unat n \<le> 2 ^ 64"
  shows "memmove dest src n m = copied dest src (unat n) m"
proof -
  let ?f = "\<lambda>i m. m(dest + of_nat i := m (src + of_nat i))"
  have small: "i < 2 ^ 64" if "i < unat n" for i
    using that unsigned_less [of n, where ?'a = nat] by simp
  have copied: "(\<lambda>a. if \<exists>i\<in>{0..<unat n}. a = dest + of_nat i then m (src + (a - dest)) else m a) =
      copied dest src (unat n) m"
    by (auto simp: copied_def byte_range_def fun_eq_iff image_iff)
  consider (fwd) "dest < src" | (bwd) "src < dest" | (same) "src = dest" by force
  then show ?thesis
  proof cases
    case fwd
    have "fold ?f [0..<unat n] m =
        (\<lambda>a. if \<exists>i\<in>set [0..<unat n]. a = dest + of_nat i then m (src + (a - dest)) else m a)"
    proof (rule copy_fold)
      show "dest + of_nat i \<noteq> src + of_nat j" if "[0..<unat n] = ps @ j # qs" "i \<in> set ps" for i j ps qs
      proof
        assume eq: "dest + of_nat i = src + of_nat j"
        from upt_split_order [OF that(1)] that(2) have "i < j" "j < unat n" by auto
        with word_plus_eq_plus_of_nat [OF eq] assms fwd show False by (simp add: word_less_nat_alt)
      qed
    qed (use small in auto)
    with fwd copied show ?thesis by (simp add: memmove_def)
  next
    case bwd
    have "fold ?f (rev [0..<unat n]) m =
        (\<lambda>a. if \<exists>i\<in>set (rev [0..<unat n]). a = dest + of_nat i then m (src + (a - dest)) else m a)"
    proof (rule copy_fold)
      show "dest + of_nat i \<noteq> src + of_nat j" if "rev [0..<unat n] = ps @ j # qs" "i \<in> set ps" for i j ps qs
      proof
        assume eq: "dest + of_nat i = src + of_nat j"
        from that(1) have "[0..<unat n] = rev qs @ j # rev ps" by (simp add: rev_swap)
        from upt_split_order [OF this] that(2) have "j < i" "i < unat n" by auto
        with word_plus_eq_plus_of_nat [OF eq] assms bwd show False by (simp add: word_less_nat_alt)
      qed
    qed (use small in auto)
    moreover from bwd have "\<not> dest < src" by (simp add: not_less less_imp_le)
    ultimately show ?thesis using bwd copied by (simp add: memmove_def)
  next
    case same
    then show ?thesis by (simp add: memmove_def copied_def fun_eq_iff)
  qed
qed

text \<open>\<open>memcpy\<close> copies like \<open>memmove\<close> when the ranges do not overlap.\<close>

lemma memcpy_spec:
  assumes "byte_range dest (unat n) \<inter> byte_range src (unat n) = {}"
  shows "memcpy dest src n m = copied dest src (unat n) m"
proof -
  let ?f = "\<lambda>i m. m(dest + of_nat i := m (src + of_nat i))"
  have "fold ?f [0..<unat n] m =
      (\<lambda>a. if \<exists>i\<in>set [0..<unat n]. a = dest + of_nat i then m (src + (a - dest)) else m a)"
  proof (rule copy_fold)
    show "dest + of_nat i \<noteq> src + of_nat j" if "[0..<unat n] = ps @ j # qs" "i \<in> set ps" for i j ps qs
    proof -
      from upt_split_order [OF that(1)] that(2) have "i < unat n" "j < unat n" by force+
      then have "dest + of_nat i \<in> byte_range dest (unat n)" "src + of_nat j \<in> byte_range src (unat n)"
        by (auto intro: byte_rangeI)
      with assms show ?thesis by auto
    qed
  qed (use unsigned_less [of n, where ?'a = nat] in auto)
  then show ?thesis by (auto simp: memcpy_def copied_def byte_range_def fun_eq_iff image_iff)
qed

lemma memcmp_0_iff:
  "memcmp s1 s2 n m = 0 \<longleftrightarrow> (\<forall>i<unat n. m (s1 + of_nat i) = m (s2 + of_nat i))"
  by (auto simp: memcmp_def first_index_None_iff split: option.splits if_splits
      elim!: first_indexE)

section \<open>The heap invariant\<close>

text \<open>
  \<open>heap_pages sz\<close> is the number of pages \<open>malloc\<close> takes for an allocation whose header records
  \<open>sz\<close>, and \<open>free\<close> gives back. \<open>size_ok\<close> excludes the sizes for which \<open>pages_needed\<close> wraps around.
  A live allocation is known by its header address; \<open>chunk\<close> is the set of its page addresses.
\<close>

definition heap_pages :: "u64 \<Rightarrow> nat" where
  "heap_pages sz = unat (pages_needed (sz + HEADER_SIZE))"

definition size_ok :: "u64 \<Rightarrow> bool" where
  "size_ok sz \<longleftrightarrow> unat sz + 4159 < 2 ^ 64"

definition chunk :: "kheap \<Rightarrow> u64 \<Rightarrow> nat set" where
  "chunk s h = page_range h (heap_pages (h_size s h))"

definition kheap_inv :: "kheap \<Rightarrow> u64 list \<Rightarrow> bool" where
  "kheap_inv s hs \<longleftrightarrow>
     pmm_wf (kpmm s) \<and> distinct hs \<and> dll (h_next s) (h_prev s) 0 hs \<and> allocation_list s = hd0 hs \<and>
     (\<forall>h\<in>set hs. h_magic s h = ALLOCATION_MAGIC \<and> size_ok (h_size s h) \<and>
                 chunk s h \<subseteq> owned_pages (kpmm s)) \<and>
     (\<forall>g\<in>set hs. \<forall>h\<in>set hs. g \<noteq> h \<longrightarrow> chunk s g \<inter> chunk s h = {})"

lemma heap_pages_eq:
  assumes "size_ok sz"
  shows "heap_pages sz = (unat sz + 4159) div 4096"
  using assms
  by (simp add: heap_pages_def pages_needed_def HEADER_SIZE_def size_ok_def unat_div unat_word_ariths)

lemma heap_pages_pos: "size_ok sz \<Longrightarrow> 0 < heap_pages sz"
  by (simp add: heap_pages_eq div_greater_zero_iff)

lemma heap_pages_mono: "size_ok b \<Longrightarrow> a \<le> b \<Longrightarrow> heap_pages a \<le> heap_pages b"
proof -
  assume b: "size_ok b" "a \<le> b"
  then have "size_ok a" by (simp add: size_ok_def word_le_nat_alt)
  with b show ?thesis by (simp add: heap_pages_eq word_le_nat_alt div_le_mono)
qed

lemma heap_pages_enough: "size_ok sz \<Longrightarrow> unat sz + 32 \<le> 4096 * heap_pages sz"
  by (simp add: heap_pages_eq)

lemma size_ok_le: "size_ok b \<Longrightarrow> a \<le> b \<Longrightarrow> size_ok a"
  by (simp add: size_ok_def word_le_nat_alt)

lemma chunk_base: "kheap_inv s hs \<Longrightarrow> h \<in> set hs \<Longrightarrow> unat h \<in> chunk s h"
  by (auto simp: kheap_inv_def chunk_def intro!: page_range_base heap_pages_pos)

lemma page_range_mono: "m \<le> n \<Longrightarrow> page_range a m \<subseteq> page_range a n"
  by (auto simp: page_range_def)

subsection \<open>Bytes of pages\<close>

definition page_bytes :: "nat set \<Rightarrow> nat set" where
  "page_bytes P = (\<Union>p\<in>P. {p..<p + 4096})"

lemma page_bytes_range: "page_bytes (page_range a n) = {unat a..<unat a + 4096 * n}"
proof (induction n)
  case 0
  then show ?case by (simp add: page_bytes_def)
next
  case (Suc n)
  have "page_range a (Suc n) = insert (unat a + 4096 * n) (page_range a n)"
    by (auto simp: page_range_def less_Suc_eq)
  then have "page_bytes (page_range a (Suc n)) =
      {unat a..<unat a + 4096 * n} \<union> {unat a + 4096 * n..<unat a + 4096 * n + 4096}"
    using Suc by (auto simp: page_bytes_def)
  also have "\<dots> = {unat a..<unat a + 4096 * Suc n}" by auto
  finally show ?case .
qed

lemma page_bytes_disjoint:
  assumes "P \<subseteq> owned_pages s" and "Q \<subseteq> owned_pages s" and "P \<inter> Q = {}"
  shows "page_bytes P \<inter> page_bytes Q = {}"
proof -
  have False if "p \<in> P" "q \<in> Q" "a \<in> {p..<p + 4096}" "a \<in> {q..<q + 4096}" for p q a
  proof -
    from that(1,2) assms(1,2) obtain i j where
      "p = unat (memory_base (phys_mem s)) + 4096 * i"
      "q = unat (memory_base (phys_mem s)) + 4096 * j"
      unfolding owned_pages_def by blast
    with that(3,4) have "p = q" by simp
    with that(1,2) assms(3) show False by auto
  qed
  then show ?thesis by (fastforce simp: page_bytes_def)
qed

lemma owned_page_bound:
  assumes "pmm_wf s" and "p \<in> owned_pages s"
  shows "p + 4096 < 2 ^ 64" and "p \<noteq> 0"
proof -
  from assms(2) obtain i where i: "p = unat (memory_base (phys_mem s)) + 4096 * i"
    "i < nblocks (phys_mem s)" by (auto simp: owned_pages_def dest: used_blocks_lt)
  from assms(1) have "unat (memory_base (phys_mem s)) + 4096 * nblocks (phys_mem s) < 2 ^ 64"
    and nz: "memory_base (phys_mem s) \<noteq> 0"
    by (auto simp: pmm_wf_def dest: bitmap_wfD(3))
  with i show "p + 4096 < 2 ^ 64" by simp
  from nz i show "p \<noteq> 0" by (simp add: unat_eq_0)
qed

lemma owned_range_bound:
  assumes "pmm_wf s" and "page_range a n \<subseteq> owned_pages s" and "0 < n"
  shows "unat a + 4096 * n < 2 ^ 64" and "a \<noteq> 0"
proof -
  have "unat a + 4096 * (n - 1) \<in> owned_pages s"
    using assms(2,3) by (auto simp: page_range_def)
  from owned_page_bound(1) [OF assms(1) this] assms(3) show "unat a + 4096 * n < 2 ^ 64"
    by (cases n) auto
  have "unat a \<in> owned_pages s" using assms(2) page_range_base [OF assms(3)] by auto
  from owned_page_bound(2) [OF assms(1) this] show "a \<noteq> 0" by auto
qed

text \<open>The bytes a live allocation may use, and those of its header.\<close>

definition user_bytes :: "kheap \<Rightarrow> u64 \<Rightarrow> nat set" where
  "user_bytes s h = {unat h + 32..<unat h + 32 + unat (h_size s h)}"

definition header_bytes :: "u64 \<Rightarrow> nat set" where
  "header_bytes h = {unat h..<unat h + 32}"

lemma user_range_in_pages:
  assumes "size_ok (h_size s h)"
  shows "header_bytes h \<union> user_bytes s h \<subseteq> page_bytes (chunk s h)"
  using heap_pages_enough [OF assms]
  by (auto simp: header_bytes_def user_bytes_def chunk_def page_bytes_range)

lemma header_user_disjoint: "header_bytes h \<inter> user_bytes s h = {}"
  by (auto simp: header_bytes_def user_bytes_def)

lemma live_bytes_disjoint:
  assumes "kheap_inv s hs" and "g \<in> set hs" and "h \<in> set hs" and "g \<noteq> h"
  shows "(header_bytes g \<union> user_bytes s g) \<inter> (header_bytes h \<union> user_bytes s h) = {}"
proof -
  from assms have "page_bytes (chunk s g) \<inter> page_bytes (chunk s h) = {}"
    by (intro page_bytes_disjoint [of _ "kpmm s"]) (auto simp: kheap_inv_def)
  moreover have "header_bytes g \<union> user_bytes s g \<subseteq> page_bytes (chunk s g)"
    "header_bytes h \<union> user_bytes s h \<subseteq> page_bytes (chunk s h)"
    by (rule user_range_in_pages, use assms in \<open>simp add: kheap_inv_def\<close>)+
  ultimately show ?thesis by blast
qed

lemma byte_range_user:
  assumes "kheap_inv s hs" and "h \<in> set hs" and "n \<le> unat (h_size s h)"
    and "a \<in> byte_range (h + HEADER_SIZE) n"
  shows "unat a \<in> user_bytes s h"
proof -
  from assms(1,2) have ok: "size_ok (h_size s h)" and w: "pmm_wf (kpmm s)"
    and sub: "chunk s h \<subseteq> owned_pages (kpmm s)" by (auto simp: kheap_inv_def)
  from owned_range_bound(1) [OF w sub [unfolded chunk_def] heap_pages_pos [OF ok]]
    heap_pages_enough [OF ok]
  have b: "unat h + 32 + unat (h_size s h) < 2 ^ 64" by simp
  from assms(4) obtain i where i: "i < n" "a = h + 32 + of_nat i"
    by (auto simp: byte_range_def HEADER_SIZE_def)
  with assms(3) b have "unat a = unat h + 32 + i"
    by (simp add: unat_word_ariths unat_of_nat)
  with i(1) assms(3) show ?thesis by (simp add: user_bytes_def)
qed

section \<open>Effect of the operations\<close>

definition clamp_size :: "u64 \<Rightarrow> u64" where
  "clamp_size sz = (if sz < MIN_ALLOCATION_SIZE then MIN_ALLOCATION_SIZE else sz)"

lemma size_ok_clamp: "size_ok sz \<Longrightarrow> size_ok (clamp_size sz)"
  by (simp add: size_ok_def clamp_size_def MIN_ALLOCATION_SIZE_def)

lemma clamp_size_ge: "sz \<le> clamp_size sz"
  by (simp add: clamp_size_def less_imp_le)

text \<open>\<open>malloc\<close> takes the pages and links the new header in front, or changes nothing.\<close>

lemma malloc_cases:
  assumes "pmm_wf (kpmm s)"
  obtains (fail) "malloc sz s = (0, s)"
  | (success) h p s' where "sz \<noteq> 0" "h \<noteq> 0"
      "physical_alloc_pages (kpmm s) (pages_needed (clamp_size sz + HEADER_SIZE)) = (h, p)"
      "malloc sz s = (h + HEADER_SIZE, s')" "kpmm s' = p" "kmem s' = kmem s"
      "h_size s' = (h_size s)(h := clamp_size sz)" "h_magic s' = (h_magic s)(h := ALLOCATION_MAGIC)"
      "h_next s' = (h_next s)(h := allocation_list s)"
      "h_prev s' = (if allocation_list s \<noteq> 0 then (h_prev s)(h := 0, allocation_list s := h)
                    else (h_prev s)(h := 0))"
      "allocation_list s' = h" "allocation_count s' = allocation_count s + 1"
      "total_allocated s' = total_allocated s + pages_needed (clamp_size sz + HEADER_SIZE) * 4096"
proof -
  obtain h p where hp: "physical_alloc_pages (kpmm s) (pages_needed (clamp_size sz + HEADER_SIZE)) = (h, p)"
    by fastforce
  show thesis
  proof (cases "sz = 0 \<or> h = 0")
    case True
    have "sz \<noteq> 0 \<Longrightarrow> p = kpmm s"
      using True hp pages.alloc_failure [OF assms] by blast
    with True hp show thesis by (intro fail) (auto simp: malloc_def Let_def clamp_size_def)
  next
    case False
    then show thesis
      using hp by (intro success [of h p "snd (malloc sz s)"])
        (auto simp: malloc_def Let_def clamp_size_def)
  qed
qed

lemma malloc_inv:
  assumes "kheap_inv s hs" and "size_ok sz" and "malloc sz s = (a, s')" and "a \<noteq> 0"
  obtains h where "a = h + HEADER_SIZE" and "h \<notin> set hs" and "kheap_inv s' (h # hs)"
    and "h_size s' h = clamp_size sz" and "\<And>x. x \<in> set hs \<Longrightarrow> h_size s' x = h_size s x"
    and "kmem s' = kmem s" and "sz \<noteq> 0"
    and "owned_pages (kpmm s) \<inter> chunk s' h = {}"
    and "owned_pages (kpmm s') = owned_pages (kpmm s) \<union> chunk s' h"
    and "allocation_count s' = allocation_count s + 1"
    and "total_allocated s' = total_allocated s + pages_needed (clamp_size sz + HEADER_SIZE) * 4096"
proof -
  have wf: "pmm_wf (kpmm s)" and d: "distinct hs" "dll (h_next s) (h_prev s) 0 hs"
    and al: "allocation_list s = hd0 hs"
    using assms(1) by (simp_all add: kheap_inv_def)
  show thesis
  proof (cases rule: malloc_cases [OF wf, of sz, case_names fail success])
    case fail
    with assms(3,4) show ?thesis by simp
  next
    case (success h p t)
    with assms(3) have t: "t = s'" and a: "a = h + HEADER_SIZE" by simp_all
    note s' = success(5-) [unfolded t]
    have ch: "chunk s' h = page_range h (unat (pages_needed (clamp_size sz + HEADER_SIZE)))"
      by (simp add: chunk_def heap_pages_def s')
    note al2 = pages.alloc_success [OF wf success(3) success(2), folded ch]
    have ok: "size_ok (clamp_size sz)" by (rule size_ok_clamp [OF assms(2)])
    then have base: "unat h \<in> chunk s' h"
      using page_range_base [OF heap_pages_pos [OF ok]] by (simp add: chunk_def s')
    have notin: "h \<notin> set hs"
    proof
      assume "h \<in> set hs"
      with assms(1) chunk_base [OF assms(1)] have "unat h \<in> owned_pages (kpmm s)"
        by (auto simp: kheap_inv_def)
      with al2 base show False by auto
    qed
    have other: "chunk s' x = chunk s x" if "x \<in> set hs" for x
      using that notin by (auto simp: chunk_def s')
    have "dll (h_next s') (h_prev s') 0 (h # hs)"
    proof (rule dll_push [OF d(2) success(2) notin d(1)])
      show "h_prev s' (hd0 hs) = h" if "hs \<noteq> []"
        using that hd0_eq_0_iff [OF d(2)] by (simp add: s' al)
      show "h_prev s' h = 0" using notin hd0_in_set [of hs] by (auto simp: s' al)
    qed (use notin in \<open>auto simp: s' al\<close>)
    moreover have "chunk s x \<inter> chunk s' h = {}" if "x \<in> set hs" for x
      using that assms(1) al2 by (auto simp: kheap_inv_def)
    ultimately have "kheap_inv s' (h # hs)"
      using assms(1) al2 notin other ok by (auto simp: kheap_inv_def s')
    moreover have "h_size s' x = h_size s x" if "x \<in> set hs" for x
      using that notin by (auto simp: s')
    ultimately show ?thesis
      using that [of h] a notin success(1) al2 s' by simp
  qed
qed

text \<open>\<open>free\<close> on a live allocation: the fields it leaves alone, and the new invariant.\<close>

lemma free_fields [simp]:
  "h_size (free ptr s) = h_size s" "kmem (free ptr s) = kmem s"
  by (simp_all add: free_def Let_def)

lemma free_live:
  assumes "h_magic s h = ALLOCATION_MAGIC" and "h + HEADER_SIZE \<noteq> 0"
  shows "h_magic (free (h + HEADER_SIZE) s) = (h_magic s)(h := 0)"
    and "kpmm (free (h + HEADER_SIZE) s) =
      physical_free_pages (kpmm s) h (pages_needed (h_size s h + HEADER_SIZE))"
    and "allocation_list (free (h + HEADER_SIZE) s) =
      (if h_prev s h \<noteq> 0 then allocation_list s else h_next s h)"
    and "h_prev s h \<noteq> h \<Longrightarrow> h_next (free (h + HEADER_SIZE) s) =
      (if h_prev s h \<noteq> 0 then (h_next s)(h_prev s h := h_next s h) else h_next s)"
    and "h_prev s h \<noteq> h \<Longrightarrow> h_prev (free (h + HEADER_SIZE) s) =
      (if h_next s h \<noteq> 0 then (h_prev s)(h_next s h := h_prev s h) else h_prev s)"
  using assms by (simp_all add: free_def Let_def)

lemma header_ptr_nonzero:
  assumes "kheap_inv s hs" and "h \<in> set hs"
  shows "h + HEADER_SIZE \<noteq> 0"
proof -
  from assms have ok: "size_ok (h_size s h)" and w: "pmm_wf (kpmm s)"
    and sub: "chunk s h \<subseteq> owned_pages (kpmm s)" by (auto simp: kheap_inv_def)
  note b = owned_range_bound(1) [OF w sub [unfolded chunk_def] heap_pages_pos [OF ok]]
  with heap_pages_pos [OF ok] have "unat h + 32 < 2 ^ 64" by simp
  then have "unat (h + 32) = unat h + 32" by (subst unat_add_no_wrap) simp_all
  then show ?thesis by (auto simp: HEADER_SIZE_def)
qed

lemma free_inv:
  assumes "kheap_inv s (ys @ h # zs)"
  shows "kheap_inv (free (h + HEADER_SIZE) s) (ys @ zs)"
    and "owned_pages (kpmm (free (h + HEADER_SIZE) s)) = owned_pages (kpmm s) - chunk s h"
proof -
  let ?s = "free (h + HEADER_SIZE) s"
  have wf: "pmm_wf (kpmm s)" and d: "distinct (ys @ h # zs)" "dll (h_next s) (h_prev s) 0 (ys @ h # zs)"
    and al: "allocation_list s = hd0 (ys @ h # zs)" and m: "h_magic s h = ALLOCATION_MAGIC"
    and sub: "chunk s h \<subseteq> owned_pages (kpmm s)"
    using assms by (simp_all add: kheap_inv_def)
  note node = dll_node [OF d(2)]
  have last: "ys \<noteq> [] \<Longrightarrow> last0 ys \<in> set ys" by (simp add: last0_def)
  have hd: "zs \<noteq> [] \<Longrightarrow> hd0 zs \<in> set zs" using hd0_cases by blast
  have nz: "0 \<notin> set (ys @ h # zs)" using dll_nonzero [OF d(2)] .
  have prev_ne: "h_prev s h \<noteq> h" using node d(1) last by (cases "ys = []") auto
  note live = free_live [OF m header_ptr_nonzero [OF assms]]
  note nxt = live(4) [simplified, OF prev_ne] and prv = live(5) [simplified, OF prev_ne]
  have dll: "dll (h_next ?s) (h_prev ?s) 0 (ys @ zs)"
  proof (rule dll_unlink [OF d(2,1)])
    show "h_next ?s y = h_next s y" if "y \<in> set (ys @ zs)" "y \<noteq> last0 ys" for y
      using that node nz last by (cases "ys = []") (auto simp: nxt)
    show "h_next ?s (last0 ys) = h_next s h" if "ys \<noteq> []"
      using that node nz last by (auto simp: nxt)
    show "h_prev ?s y = h_prev s y" if "y \<in> set (ys @ zs)" "y \<noteq> hd0 zs" for y
      using that node by (auto simp: prv)
    show "h_prev ?s (hd0 zs) = h_prev s h" if "zs \<noteq> []"
      using that node nz hd by (auto simp: prv)
  qed
  have al': "allocation_list ?s = hd0 (ys @ zs)"
    using node nz last al by (cases "ys = []") (auto simp: live(3) hd0_append)
  note fr = pages.free_owned [OF wf sub [unfolded chunk_def heap_pages_def],
      folded heap_pages_def chunk_def]
  have same: "chunk ?s x = chunk s x" for x by (simp add: chunk_def)
  show owned: "owned_pages (kpmm ?s) = owned_pages (kpmm s) - chunk s h"
    using fr by (simp add: live(2))
  have "chunk s x \<subseteq> owned_pages (kpmm ?s)" if "x \<in> set (ys @ zs)" for x
  proof -
    from that d(1) have "x \<noteq> h" "x \<in> set (ys @ h # zs)" by auto
    then have "chunk s x \<subseteq> owned_pages (kpmm s)" "chunk s x \<inter> chunk s h = {}"
      using assms by (auto simp: kheap_inv_def)
    then show ?thesis unfolding owned by blast
  qed
  moreover have "h_magic ?s x = ALLOCATION_MAGIC \<and> size_ok (h_size ?s x)" if "x \<in> set (ys @ zs)" for x
  proof -
    from that d(1) have "x \<noteq> h" "x \<in> set (ys @ h # zs)" by auto
    then show ?thesis using assms by (simp add: kheap_inv_def live(1))
  qed
  moreover have "pmm_wf (kpmm ?s)" using fr by (simp add: live(2))
  moreover have "distinct (ys @ zs)" using d(1) by auto
  moreover have "chunk s x \<inter> chunk s y = {}" if "x \<in> set (ys @ zs)" "y \<in> set (ys @ zs)" "x \<noteq> y" for x y
    using that assms unfolding kheap_inv_def by auto
  ultimately show "kheap_inv ?s (ys @ zs)"
    using dll al' unfolding kheap_inv_def by (auto simp: same)
qed

lemma free_idem: "free ptr (free ptr s) = free ptr s"
proof (cases "ptr = 0 \<or> h_magic s (ptr - HEADER_SIZE) \<noteq> ALLOCATION_MAGIC")
  case True
  then have "free ptr s = s" unfolding free_def Let_def by (elim disjE) simp_all
  then show ?thesis by simp
next
  case False
  then have "h_magic (free ptr s) (ptr - HEADER_SIZE) = 0"
    using free_live(1) [of s "ptr - HEADER_SIZE"] by simp
  then show ?thesis by (subst (1) free_def) (simp add: Let_def ALLOCATION_MAGIC_def)
qed

text \<open>Bytes of one live allocation are copied without touching another.\<close>

lemma user_byte_ranges_disjoint:
  assumes "kheap_inv s hs" and "g \<in> set hs" "h \<in> set hs" "g \<noteq> h"
    and "m \<le> unat (h_size s g)" "n \<le> unat (h_size s h)"
  shows "byte_range (g + HEADER_SIZE) m \<inter> byte_range (h + HEADER_SIZE) n = {}"
proof -
  have "unat a \<in> user_bytes s g \<inter> user_bytes s h"
    if "a \<in> byte_range (g + HEADER_SIZE) m \<inter> byte_range (h + HEADER_SIZE) n" for a
    using that byte_range_user [OF assms(1)] assms(2-6) by blast
  with live_bytes_disjoint [OF assms(1-4)] show ?thesis by blast
qed

lemma kheap_inv_kmem [simp]: "kheap_inv (s\<lparr>kmem := m\<rparr>) hs = kheap_inv s hs"
  by (simp add: kheap_inv_def chunk_def)

lemma realloc_shrink:
  assumes "kheap_inv s hs" and "h \<in> set hs" and "sz \<noteq> 0" and "sz \<le> h_size s h"
  shows "realloc (h + HEADER_SIZE) sz s =
      (h + HEADER_SIZE, s\<lparr>h_size := (h_size s)(h := sz)\<rparr>)"
    and "kheap_inv (s\<lparr>h_size := (h_size s)(h := sz)\<rparr>) hs"
proof -
  have h: "h_magic s h = ALLOCATION_MAGIC" "size_ok (h_size s h)" "chunk s h \<subseteq> owned_pages (kpmm s)"
    using assms(1,2) by (auto simp: kheap_inv_def)
  show "realloc (h + HEADER_SIZE) sz s = (h + HEADER_SIZE, s\<lparr>h_size := (h_size s)(h := sz)\<rparr>)"
    using header_ptr_nonzero [OF assms(1,2)] assms(3,4) h(1) by (simp add: realloc_def Let_def)
  let ?s = "s\<lparr>h_size := (h_size s)(h := sz)\<rparr>"
  have sub: "chunk ?s x \<subseteq> chunk s x" for x
    using page_range_mono [OF heap_pages_mono [OF h(2) assms(4)], of h] by (simp add: chunk_def)
  have "size_ok (h_size ?s x)" if "x \<in> set hs" for x
    using that assms(1) size_ok_le [OF h(2) assms(4)] by (simp add: kheap_inv_def)
  moreover have "chunk ?s x \<subseteq> owned_pages (kpmm s)" if "x \<in> set hs" for x
    using that assms(1) sub [of x] by (auto simp: kheap_inv_def)
  moreover have "chunk ?s x \<inter> chunk ?s y = {}" if "x \<in> set hs" "y \<in> set hs" "x \<noteq> y" for x y
  proof -
    have "chunk s x \<inter> chunk s y = {}" using that assms(1) by (simp add: kheap_inv_def)
    with sub [of x] sub [of y] show ?thesis by blast
  qed
  ultimately show "kheap_inv ?s hs" using assms(1) by (auto simp: kheap_inv_def)
qed

lemma realloc_grow:
  assumes "kheap_inv s (ys @ h # zs)" and "size_ok sz" and "h_size s h < sz"
    and "realloc (h + HEADER_SIZE) sz s = (a, s')" and "a \<noteq> 0"
  obtains g where "a = g + HEADER_SIZE" and "kheap_inv s' (g # ys @ zs)" and "sz \<le> h_size s' g"
    and "kmem s' = copied a (h + HEADER_SIZE) (unat (h_size s h)) (kmem s)"
    and "\<And>x. x \<in> set (ys @ zs) \<Longrightarrow> h_size s' x = h_size s x"
proof -
  let ?hs = "ys @ h # zs"
  have live: "h \<in> set ?hs" and m: "h_magic s h = ALLOCATION_MAGIC"
    using assms(1) by (simp_all add: kheap_inv_def)
  obtain n s1 where n: "malloc sz s = (n, s1)" by fastforce
  have "sz \<noteq> 0" using assms(3) by auto
  then have r: "(a, s') = (if n = 0 then (0, s1) else
      (n, free (h + HEADER_SIZE) (s1\<lparr>kmem := memcpy n (h + HEADER_SIZE) (h_size s h) (kmem s1)\<rparr>)))"
    using assms(3,4) header_ptr_nonzero [OF assms(1) live] m
    by (simp add: realloc_def Let_def n not_le [symmetric])
  with assms(5) have a: "a = n" "n \<noteq> 0"
    "s' = free (h + HEADER_SIZE) (s1\<lparr>kmem := memcpy n (h + HEADER_SIZE) (h_size s h) (kmem s1)\<rparr>)"
    by (auto split: if_splits)
  from malloc_inv [OF assms(1,2) n a(2)] obtain g where g: "n = g + HEADER_SIZE" "g \<notin> set ?hs"
    "kheap_inv s1 (g # ?hs)" "h_size s1 g = clamp_size sz" "kmem s1 = kmem s"
    and hs: "\<And>x. x \<in> set ?hs \<Longrightarrow> h_size s1 x = h_size s x" by metis
  have "byte_range n (unat (h_size s h)) \<inter> byte_range (h + HEADER_SIZE) (unat (h_size s h)) = {}"
    unfolding g(1)
  proof (rule user_byte_ranges_disjoint [OF g(3)])
    have "h_size s h \<le> clamp_size sz" using assms(3) clamp_size_ge [of sz] by simp
    then show "unat (h_size s h) \<le> unat (h_size s1 g)" by (simp add: g(4) word_le_nat_alt)
  qed (use g(2) hs live in auto)
  then have mem: "kmem s' = copied a (h + HEADER_SIZE) (unat (h_size s h)) (kmem s)"
    by (simp add: a memcpy_spec g(5))
  have "kheap_inv s' ((g # ys) @ zs)"
    unfolding a(3) by (rule free_inv(1)) (simp add: g(3))
  moreover have "sz \<le> h_size s' g" by (simp add: a(3) g(4) clamp_size_ge)
  moreover have "h_size s' x = h_size s x" if "x \<in> set (ys @ zs)" for x
    using that hs by (simp add: a(3))
  ultimately show thesis using that [of g] g(1) a(1) mem by simp
qed

lemma calloc_no_overflow:
  fixes nmemb sz :: u64
  assumes "\<not> (nmemb \<noteq> 0 \<and> (- 1) div nmemb < sz)"
  shows "unat (nmemb * sz) = unat nmemb * unat sz"
proof (cases "nmemb = 0")
  case True
  then show ?thesis by simp
next
  case False
  with assms have "sz \<le> (- 1) div nmemb" by simp
  then have "unat sz \<le> (2 ^ 64 - 1) div unat nmemb"
    by (simp add: word_le_nat_alt unat_div unsigned_minus_1_eq_mask mask_eq_exp_minus_1)
  then have "unat nmemb * unat sz \<le> unat nmemb * ((2 ^ 64 - 1) div unat nmemb)" by simp
  also have "\<dots> \<le> 2 ^ 64 - 1" by (rule times_div_less_eq_dividend)
  finally have "unat nmemb * unat sz < 2 ^ 64" by simp
  then show ?thesis by (simp add: unat_word_ariths)
qed

section \<open>Properties\<close>

definition sample_heap :: kheap where
  "sample_heap = \<lparr>kpmm = sample_pmm, kmem = (\<lambda>_. 0), h_size = (\<lambda>_. 0), h_magic = (\<lambda>_. 0),
     h_next = (\<lambda>_. 0), h_prev = (\<lambda>_. 0), allocation_list = 0, total_allocated = 0,
     allocation_count = 0\<rparr>"

lemma sample_heap_inv [simp]: "kheap_inv sample_heap []"
  by (simp add: kheap_inv_def sample_heap_def)

text \<open>The sample heap after one allocation of 5000 bytes, at header address 0x103000.\<close>

definition sample_heap1 :: kheap where
  "sample_heap1 = snd (malloc 5000 sample_heap)"

lemma sample_malloc [simp]: "malloc 5000 sample_heap = (0x103020, sample_heap1)"
proof -
  have "fst (malloc 5000 sample_heap) = 0x103020" by code_simp
  then show ?thesis by (simp add: sample_heap1_def prod_eq_iff)
qed

lemma sample_heap1_inv [simp]: "kheap_inv sample_heap1 [0x103000]"
  and sample_heap1_size [simp]: "h_size sample_heap1 0x103000 = 5000"
proof -
  have ok: "size_ok 5000" by (simp add: size_ok_def)
  have nz: "(0x103020 :: u64) \<noteq> 0" by simp
  obtain h where "0x103020 = h + HEADER_SIZE" "kheap_inv sample_heap1 [h]"
    by (rule malloc_inv [OF sample_heap_inv ok sample_malloc nz]) (rule that)
  moreover from this(1) have "h = 0x103000" by (simp add: HEADER_SIZE_def algebra_simps)
  ultimately show "kheap_inv sample_heap1 [0x103000]" by simp
  show "h_size sample_heap1 0x103000 = 5000" by code_simp
qed

text \<open>
  Overlapping moves: \<open>memmove\<close> leaves in the destination the bytes the source held before
  the call, and every other byte unchanged, however the two ranges overlap.
\<close>

theorem memmove_correct:
  assumes "unat src + unat n \<le> 2 ^ 64" and "unat dest + unat n \<le> 2 ^ 64"
  shows "(\<forall>i<unat n. memmove dest src n m (dest + of_nat i) = m (src + of_nat i)) \<and>
     (\<forall>a. a \<notin> byte_range dest (unat n) \<longrightarrow> memmove dest src n m a = m a)"
  using memmove_spec [OF assms] by (simp add: copied_nth) (simp add: copied_def)

theorem memmove_correct_witness:
  "memmove 4 2 3 (\<lambda>a. ucast a) (4 + of_nat 2) = (4 :: u8)"
  using memmove_correct [of 2 3 4 "\<lambda>a. ucast a"] by (auto dest!: spec [of _ 2])

text \<open>
  C1. \<open>malloc\<close> returns memory nobody else uses: the heap invariant is kept with the new header
  in front of the allocation list, the block has at least the requested size, and its header and
  bytes overlap no header and no byte of another live allocation. The size must be more than 4159 bytes below \<open>2 ^ 64\<close>:
  for larger sizes the rounding to whole pages wraps around and the block is too small.
\<close>

theorem malloc_exclusive:
  assumes "kheap_inv s hs" and "size_ok sz" and "malloc sz s = (a, s')" and "a \<noteq> 0"
  shows "\<exists>h. a = h + HEADER_SIZE \<and> kheap_inv s' (h # hs) \<and> sz \<le> h_size s' h \<and>
     (\<forall>g\<in>set hs. (header_bytes g \<union> user_bytes s' g) \<inter> (header_bytes h \<union> user_bytes s' h) = {}) \<and>
     header_bytes h \<inter> user_bytes s' h = {} \<and> kmem s' = kmem s"
proof -
  from malloc_inv [OF assms] obtain h where h: "a = h + HEADER_SIZE" "h \<notin> set hs"
    "kheap_inv s' (h # hs)" "h_size s' h = clamp_size sz" "kmem s' = kmem s" by metis
  have "(header_bytes g \<union> user_bytes s' g) \<inter> (header_bytes h \<union> user_bytes s' h) = {}"
    if "g \<in> set hs" for g
    using live_bytes_disjoint [OF h(3)] that h(2) by auto
  with h header_user_disjoint clamp_size_ge show ?thesis by metis
qed

theorem malloc_exclusive_witness:
  "\<exists>h. fst (malloc 100 sample_heap1) = h + HEADER_SIZE \<and> kheap_inv (snd (malloc 100 sample_heap1)) [h, 0x103000]"
proof -
  have ok: "size_ok 100" by (simp add: size_ok_def)
  have ne: "fst (malloc 100 sample_heap1) \<noteq> 0" by code_simp
  have "malloc 100 sample_heap1 = (fst (malloc 100 sample_heap1), snd (malloc 100 sample_heap1))"
    by simp
  from malloc_exclusive [OF sample_heap1_inv ok this ne] show ?thesis by blast
qed

text \<open>
  \<open>free\<close> undoes \<open>malloc\<close>: the live allocations, the pages in use, both counters and the
  memory contents are those before the allocation.
\<close>

theorem malloc_free_roundtrip:
  assumes "kheap_inv s hs" and "size_ok sz" and "malloc sz s = (a, s')" and "a \<noteq> 0"
    and "unat (total_allocated s) + 4096 * heap_pages (clamp_size sz) < 2 ^ 64"
    and "unat (allocation_count s) < 2 ^ 64 - 1"
  shows "kheap_inv (free a s') hs \<and> owned_pages (kpmm (free a s')) = owned_pages (kpmm s) \<and>
     kmem (free a s') = kmem s \<and> total_allocated (free a s') = total_allocated s \<and>
     allocation_count (free a s') = allocation_count s"
proof -
  from malloc_inv [OF assms(1-4)] obtain h where h: "a = h + HEADER_SIZE"
    "kheap_inv s' (h # hs)" "h_size s' h = clamp_size sz" "kmem s' = kmem s"
    "owned_pages (kpmm s) \<inter> chunk s' h = {}" "owned_pages (kpmm s') = owned_pages (kpmm s) \<union> chunk s' h"
    "allocation_count s' = allocation_count s + 1"
    "total_allocated s' = total_allocated s + pages_needed (clamp_size sz + HEADER_SIZE) * 4096"
    by metis
  have m: "h_magic s' h = ALLOCATION_MAGIC" using h(2) by (simp add: kheap_inv_def)
  have nz: "h + HEADER_SIZE \<noteq> 0" using assms(4) h(1) by simp
  let ?t = "pages_needed (clamp_size sz + HEADER_SIZE) * 4096"
  have "unat ?t = 4096 * heap_pages (clamp_size sz)"
    using assms(5) by (simp add: heap_pages_def unat_word_ariths)
  then have le: "?t \<le> total_allocated s + ?t"
    using assms(5) by (simp add: word_le_nat_alt unat_add_no_wrap)
  have cnt: "allocation_count s + 1 \<noteq> 0"
    using assms(6) unat_add_no_wrap [of "allocation_count s" 1] by auto
  have "total_allocated (free a s') = total_allocated s \<and> allocation_count (free a s') = allocation_count s"
    unfolding h(1) free_def using m nz le cnt h(3,7,8) by (simp add: Let_def word_gt_0)
  then show ?thesis
    using free_inv [of s' "[]" h hs] h(1,2,4-6) by auto
qed

theorem malloc_free_roundtrip_witness:
  "owned_pages (kpmm (free 0x103020 sample_heap1)) = owned_pages (kpmm sample_heap) \<and>
   allocation_count (free 0x103020 sample_heap1) = 0"
proof -
  have ok: "size_ok 5000" by (simp add: size_ok_def)
  have tot: "unat (total_allocated sample_heap) + 4096 * heap_pages (clamp_size 5000) < 2 ^ 64"
    by (simp add: heap_pages_eq size_ok_def clamp_size_def MIN_ALLOCATION_SIZE_def sample_heap_def)
  have cnt: "unat (allocation_count sample_heap) < 2 ^ 64 - 1" by (simp add: sample_heap_def)
  have "allocation_count sample_heap = 0" by code_simp
  with malloc_free_roundtrip [OF sample_heap_inv ok sample_malloc _ tot cnt] show ?thesis by simp
qed

text \<open>
  Double free is harmless: freeing a pointer a second time, with nothing in between, changes
  nothing, whatever the pointer and the state of the heap.
\<close>

theorem double_free_harmless: "free ptr (free ptr s) = free ptr s \<and> kfree ptr (free ptr s) = free ptr s"
  by (simp add: free_idem kfree_def)

text \<open>
  Growing with \<open>realloc\<close> keeps the contents: the new block starts with the bytes of the old
  one, the old block leaves the allocation list and the new one joins it, and the bytes of every
  other live allocation are untouched.
\<close>

theorem realloc_grow_keeps_contents:
  assumes "kheap_inv s (ys @ h # zs)" and "size_ok sz" and "h_size s h < sz"
    and "realloc (h + HEADER_SIZE) sz s = (a, s')" and "a \<noteq> 0"
  shows "\<exists>g. a = g + HEADER_SIZE \<and> kheap_inv s' (g # ys @ zs) \<and> sz \<le> h_size s' g \<and>
     (\<forall>i<unat (h_size s h). kmem s' (a + of_nat i) = kmem s (h + HEADER_SIZE + of_nat i)) \<and>
     (\<forall>x\<in>set (ys @ zs). \<forall>p. unat p \<in> user_bytes s x \<longrightarrow> kmem s' p = kmem s p)"
proof -
  from realloc_grow [OF assms] obtain g where g: "a = g + HEADER_SIZE" "kheap_inv s' (g # ys @ zs)"
    "sz \<le> h_size s' g" "kmem s' = copied a (h + HEADER_SIZE) (unat (h_size s h)) (kmem s)"
    and hs: "\<And>x. x \<in> set (ys @ zs) \<Longrightarrow> h_size s' x = h_size s x" by metis
  have "kmem s' p = kmem s p" if "x \<in> set (ys @ zs)" "unat p \<in> user_bytes s x" for x p
  proof -
    have "x \<noteq> g" using g(2) that(1) by (auto simp: kheap_inv_def)
    then have "user_bytes s' g \<inter> user_bytes s' x = {}"
      using live_bytes_disjoint [OF g(2), of g x] that(1) by auto
    moreover have "user_bytes s' x = user_bytes s x" using hs [OF that(1)] by (simp add: user_bytes_def)
    moreover have "unat (h_size s h) \<le> unat (h_size s' g)"
      using assms(3) g(3) by (simp add: word_le_nat_alt word_less_nat_alt)
    ultimately have "p \<notin> byte_range a (unat (h_size s h))"
      using byte_range_user [OF g(2), of g "unat (h_size s h)" p] g(1) that(2) by auto
    then show ?thesis by (simp add: g(4) copied_def)
  qed
  moreover have "kmem s' (a + of_nat i) = kmem s (h + HEADER_SIZE + of_nat i)" if "i < unat (h_size s h)" for i
    using that by (simp add: g(4) copied_nth)
  ultimately show ?thesis using g(1-3) by blast
qed

theorem realloc_grow_keeps_contents_witness:
  "kmem (snd (realloc 0x103020 6000 (sample_heap1\<lparr>kmem := (\<lambda>a. ucast a)\<rparr>)))
     (fst (realloc 0x103020 6000 (sample_heap1\<lparr>kmem := (\<lambda>a. ucast a)\<rparr>)) + of_nat 7) = 0x27"
proof -
  let ?s = "sample_heap1\<lparr>kmem := (\<lambda>a. ucast a)\<rparr>"
  let ?r = "realloc (0x103000 + HEADER_SIZE) 6000 ?s"
  have inv: "kheap_inv ?s ([] @ 0x103000 # [])" by simp
  have ok: "size_ok 6000" by (simp add: size_ok_def)
  have sz: "h_size ?s 0x103000 = 5000" by simp
  have r: "?r = (fst ?r, snd ?r)" by simp
  have m: "h_magic sample_heap1 0x103000 = ALLOCATION_MAGIC"
    using sample_heap1_inv by (simp add: kheap_inv_def)
  have "fst (malloc 6000 ?s) \<noteq> 0" by code_simp
  then have ne: "fst ?r \<noteq> 0"
    using m by (simp add: realloc_def Let_def HEADER_SIZE_def split: prod.split) (metis fst_conv)
  have lt: "h_size ?s 0x103000 < 6000" unfolding sz by simp
  have "\<forall>i<unat (h_size ?s 0x103000).
      kmem (snd ?r) (fst ?r + of_nat i) = kmem ?s (0x103000 + HEADER_SIZE + of_nat i)"
    using realloc_grow_keeps_contents [OF inv ok lt r ne] by blast
  from this [rule_format, of 7]
  have "kmem (snd ?r) (fst ?r + of_nat 7) = kmem ?s (0x103000 + HEADER_SIZE + of_nat 7)"
    unfolding sz by simp
  moreover have "kmem ?s (0x103000 + HEADER_SIZE + of_nat 7) = 0x27"
    by (simp add: HEADER_SIZE_def)
  moreover have "0x103000 + HEADER_SIZE = 0x103020" by (simp add: HEADER_SIZE_def)
  ultimately show ?thesis by simp
qed

text \<open>
  \<open>calloc\<close> either returns NULL or a live block of \<open>nmemb * size\<close> zero bytes, where the
  product is the true product: a product that does not fit 64 bits is refused, not truncated.
\<close>

theorem calloc_zeroed:
  assumes "kheap_inv s hs" and "size_ok (nmemb * sz)" and "calloc nmemb sz s = (a, s')" and "a \<noteq> 0"
  shows "\<exists>h. a = h + HEADER_SIZE \<and> kheap_inv s' (h # hs) \<and>
     unat nmemb * unat sz \<le> unat (h_size s' h) \<and>
     (\<forall>i < unat nmemb * unat sz. kmem s' (a + of_nat i) = 0)"
proof -
  have ov: "\<not> (nmemb \<noteq> 0 \<and> (- 1) div nmemb < sz)"
    using assms(3,4) by (auto simp: calloc_def split: if_splits)
  obtain b t where b: "malloc (nmemb * sz) s = (b, t)" by fastforce
  with assms(3,4) ov have a: "b = a" "s' = t\<lparr>kmem := memset a 0 (nmemb * sz) (kmem t)\<rparr>"
    by (auto simp: calloc_def Let_def split: if_splits)
  from malloc_inv [OF assms(1,2) b] a(1) assms(4) obtain h where
    h: "a = h + HEADER_SIZE" "kheap_inv t (h # hs)" "h_size t h = clamp_size (nmemb * sz)" by metis
  note n = calloc_no_overflow [OF ov]
  have "kheap_inv s' (h # hs)" using h(2) by (simp add: a(2))
  moreover have "unat nmemb * unat sz \<le> unat (h_size s' h)"
    using clamp_size_ge [of "nmemb * sz"] n by (simp add: a(2) h(3) word_le_nat_alt)
  moreover have "kmem s' (a + of_nat i) = 0" if "i < unat nmemb * unat sz" for i
    using that by (simp add: a(2) memset_spec n byte_rangeI)
  ultimately show ?thesis using h(1) by blast
qed

theorem calloc_zeroed_witness:
  "kmem (snd (calloc 4 8 (sample_heap1\<lparr>kmem := (\<lambda>_. 0xAA)\<rparr>)))
     (fst (calloc 4 8 (sample_heap1\<lparr>kmem := (\<lambda>_. 0xAA)\<rparr>)) + of_nat 31) = 0"
proof -
  let ?s = "sample_heap1\<lparr>kmem := (\<lambda>_. 0xAA)\<rparr>"
  let ?r = "calloc 4 8 ?s"
  have inv: "kheap_inv ?s [0x103000]" by simp
  have ok: "size_ok (4 * 8)" by (simp add: size_ok_def)
  have r: "?r = (fst ?r, snd ?r)" by simp
  have ne: "fst ?r \<noteq> 0" by code_simp
  have "\<forall>i < unat (4::u64) * unat (8::u64). kmem (snd ?r) (fst ?r + of_nat i) = 0"
    using calloc_zeroed [OF inv ok r ne] by blast
  from this [rule_format, of 31] show ?thesis by simp
qed

text \<open>
  Shrinking loses pages: \<open>realloc\<close> to a smaller size overwrites the size in the header, so
  the \<open>free\<close> that follows returns only the pages the new size needs. The remaining pages of the
  original block stay marked in use, and no live allocation covers them.
\<close>

theorem realloc_shrink_leaks:
  assumes "kheap_inv s (ys @ h # zs)" and "sz \<noteq> 0" and "sz \<le> h_size s h"
    and "heap_pages sz < heap_pages (h_size s h)"
    and "realloc (h + HEADER_SIZE) sz s = (a, s1)" and "s2 = free a s1"
  shows "kheap_inv s2 (ys @ zs) \<and> unat h + 4096 * heap_pages sz \<in> owned_pages (kpmm s2) \<and>
     (\<forall>x\<in>set (ys @ zs). unat h + 4096 * heap_pages sz \<notin> chunk s2 x)"
proof -
  let ?p = "unat h + 4096 * heap_pages sz"
  have live: "h \<in> set (ys @ h # zs)" by simp
  from realloc_shrink [OF assms(1) live assms(2,3)] assms(5)
  have a: "a = h + HEADER_SIZE" and s1: "s1 = s\<lparr>h_size := (h_size s)(h := sz)\<rparr>"
    and inv1: "kheap_inv s1 (ys @ h # zs)" by simp_all
  note fr = free_inv [OF inv1, folded a assms(6)]
  have p: "?p \<in> chunk s h" using assms(4) by (auto simp: chunk_def page_range_def)
  have "?p \<notin> chunk s1 h" by (auto simp: chunk_def page_range_def s1)
  moreover have "?p \<in> owned_pages (kpmm s1)" using p assms(1) by (auto simp: kheap_inv_def s1)
  ultimately have "?p \<in> owned_pages (kpmm s2)" by (simp add: fr(2))
  moreover have "?p \<notin> chunk s2 x" if "x \<in> set (ys @ zs)" for x
  proof -
    have "x \<noteq> h" "x \<in> set (ys @ h # zs)" using that assms(1) by (auto simp: kheap_inv_def)
    then have "chunk s x \<inter> chunk s h = {}" using assms(1) by (simp add: kheap_inv_def)
    moreover have "chunk s2 x = chunk s x" using \<open>x \<noteq> h\<close> by (simp add: chunk_def assms(6) s1)
    ultimately show ?thesis using p by auto
  qed
  ultimately show ?thesis using fr(1) by blast
qed

theorem realloc_shrink_leaks_witness:
  "0x104000 \<in> owned_pages (kpmm (free 0x103020 (snd (realloc 0x103020 100 sample_heap1)))) \<and>
   kheap_inv (free 0x103020 (snd (realloc 0x103020 100 sample_heap1))) []"
proof -
  have inv: "kheap_inv sample_heap1 ([] @ 0x103000 # [])" by simp
  have pages: "heap_pages 100 = 1" "heap_pages 5000 = 2"
    by (simp_all add: heap_pages_eq size_ok_def)
  have eq: "0x103000 + HEADER_SIZE = 0x103020" by (simp add: HEADER_SIZE_def)
  have "100 \<le> h_size sample_heap1 0x103000" by simp
  moreover have "fst (realloc 0x103020 100 sample_heap1) = 0x103020" by code_simp
  then have "realloc (0x103000 + HEADER_SIZE) 100 sample_heap1 =
      (0x103020, snd (realloc 0x103020 100 sample_heap1))" by (simp add: eq prod_eq_iff)
  ultimately show ?thesis
    using realloc_shrink_leaks [OF inv, of 100 "0x103020" "snd (realloc 0x103020 100 sample_heap1)"]
    by (simp add: pages)
qed

text \<open>
  Size overflow: for the 63 largest sizes \<open>size + HEADER_SIZE\<close> wraps around in the page
  computation, so \<open>malloc\<close> takes a single page, records the huge size in the header and returns a
  pointer as if it had succeeded.
\<close>

theorem malloc_size_overflow:
  assumes "pmm_wf (kpmm s)" and "2 ^ 64 - 63 \<le> unat sz"
    and "fst (physical_alloc_pages (kpmm s) 1) \<noteq> 0"
  shows "fst (malloc sz s) = fst (physical_alloc_pages (kpmm s) 1) + HEADER_SIZE \<and>
     kpmm (snd (malloc sz s)) = snd (physical_alloc_pages (kpmm s) 1) \<and>
     h_size (snd (malloc sz s)) (fst (malloc sz s) - HEADER_SIZE) = sz"
proof -
  have big: "\<not> sz < MIN_ALLOCATION_SIZE" "sz \<noteq> 0"
    using assms(2) by (auto simp: MIN_ALLOCATION_SIZE_def word_less_nat_alt)
  have "pages_needed (sz + HEADER_SIZE) = (sz + 4159) div 4096"
    by (simp add: pages_needed_def HEADER_SIZE_def add.assoc)
  moreover have "unat (sz + 4159) = unat sz + 4159 - 2 ^ 64"
    using assms(2) unsigned_less [of sz, where ?'a = nat]
    by (simp add: unat_word_ariths mod_if)
  moreover have "(unat sz + 4159 - 2 ^ 64) div 4096 = 1"
    using assms(2) unsigned_less [of sz, where ?'a = nat] by (intro div_nat_eqI) simp_all
  ultimately have "unat (pages_needed (sz + HEADER_SIZE)) = 1"
    by (simp add: unat_div)
  then have "pages_needed (sz + HEADER_SIZE) = 1" by (simp add: word_unat_eq_iff)
  with big assms(3) show ?thesis
    by (auto simp: malloc_def Let_def split: prod.split)
qed

theorem malloc_size_overflow_witness:
  "fst (malloc (- 1) sample_heap) = 0x103020 \<and>
   h_size (snd (malloc (- 1) sample_heap)) 0x103000 = - 1"
proof -
  have eq: "fst (physical_alloc_pages (kpmm sample_heap) 1) = 0x103000" by code_simp
  have "2 ^ 64 - 63 \<le> unat (- 1 :: u64)"
    by (simp add: unsigned_minus_1_eq_mask mask_eq_exp_minus_1)
  moreover have "pmm_wf (kpmm sample_heap)" by (simp add: sample_heap_def)
  ultimately show ?thesis
    using malloc_size_overflow [of sample_heap "- 1"] by (auto simp: eq HEADER_SIZE_def)
qed

end
