(* ===== verification/Ring_Fifo.thy ===== *)
theory Ring_Fifo
  imports Cgos_Prelude
begin

text \<open>
  The interface of the kernel's two bounded queues, the key buffer of \<^verbatim>\<open>keyboard.c\<close> and the
  loopback packet queue of \<^verbatim>\<open>netdev.c\<close>: a queue that refuses new elements when full. The
  contract is the locale \<open>bounded_fifo\<close>; \<open>ring_slice\<close> is the part of a circular array in use.
\<close>

section \<open>Circular arrays\<close>

definition ring_slice :: "'a list \<Rightarrow> nat \<Rightarrow> nat \<Rightarrow> 'a list" where
  "ring_slice buf start cnt = map (\<lambda>i. buf ! ((start + i) mod length buf)) [0..<cnt]"

lemma length_ring_slice [simp]: "length (ring_slice buf start cnt) = cnt"
  by (simp add: ring_slice_def)

lemma ring_slice_0 [simp]: "ring_slice buf start 0 = []"
  by (simp add: ring_slice_def)

lemma ring_index_inj:
  assumes "(start + i) mod n = (start + j) mod n" and "i < n" and "j < (n::nat)"
  shows "i = j"
proof (rule ccontr)
  assume "i \<noteq> j"
  then consider "i < j" | "j < i" by linarith
  then show False
  proof cases
    case 1
    then have "n dvd j - i" using assms(1) by (metis add_diff_cancel_left mod_eq_dvd_iff_nat add_le_cancel_left less_imp_le)
    with 1 assms(3) show False by (auto dest: dvd_imp_le)
  next
    case 2
    then have "n dvd i - j" using assms(1) by (metis add_diff_cancel_left mod_eq_dvd_iff_nat add_le_cancel_left less_imp_le)
    with 2 assms(2) show False by (auto dest: dvd_imp_le)
  qed
qed

lemma ring_slice_put:
  assumes "cnt < length buf"
  shows "ring_slice (buf[(start + cnt) mod length buf := x]) start (Suc cnt) =
     ring_slice buf start cnt @ [x]"
proof -
  have len: "(start + cnt) mod length buf < length buf" using assms by (intro mod_less_divisor) linarith
  have "buf[(start + cnt) mod length buf := x] ! ((start + i) mod length buf) =
      buf ! ((start + i) mod length buf)" if "i < cnt" for i
    using that assms ring_index_inj [of start cnt "length buf" i]
    by (intro nth_list_update_neq) auto
  with len show ?thesis by (simp add: ring_slice_def)
qed

lemma ring_slice_get:
  assumes "start < length buf"
  shows "ring_slice buf start (Suc cnt) =
     buf ! start # ring_slice buf ((start + 1) mod length buf) cnt"
proof -
  have "[0..<Suc cnt] = 0 # map Suc [0..<cnt]" by (simp add: map_Suc_upt upt_conv_Cons del: upt_Suc)
  then show ?thesis
    using assms by (simp add: ring_slice_def mod_simps comp_def)
qed

section \<open>The interface\<close>

text \<open>\<open>n\<close> calls of a read operation, stopping at the first that finds nothing.\<close>

primrec drain :: "('s \<Rightarrow> 'a option \<times> 's) \<Rightarrow> nat \<Rightarrow> 's \<Rightarrow> 'a list \<times> 's" where
  "drain get 0 s = ([], s)"
| "drain get (Suc n) s =
     (case get s of
        (None, s') \<Rightarrow> ([], s')
      | (Some x, s') \<Rightarrow> (case drain get n s' of (xs, s'') \<Rightarrow> (x # xs, s'')))"

locale bounded_fifo =
  fixes inv :: "'s \<Rightarrow> bool"
    and ok :: "'a \<Rightarrow> bool"
    and cap :: nat
    and contents :: "'s \<Rightarrow> 'a list"
    and put :: "'a \<Rightarrow> 's \<Rightarrow> 's"
    and get :: "'s \<Rightarrow> 'a option \<times> 's"
  assumes bound: "inv s \<Longrightarrow> length (contents s) \<le> cap"
    and put_room: "inv s \<Longrightarrow> ok x \<Longrightarrow> length (contents s) < cap \<Longrightarrow>
      inv (put x s) \<and> contents (put x s) = contents s @ [x]"
    and put_full: "inv s \<Longrightarrow> ok x \<Longrightarrow> length (contents s) = cap \<Longrightarrow> put x s = s"
    and get_empty: "inv s \<Longrightarrow> contents s = [] \<Longrightarrow> get s = (None, s)"
    and get_next: "inv s \<Longrightarrow> contents s = x # xs \<Longrightarrow>
      fst (get s) = Some x \<and> inv (snd (get s)) \<and> contents (snd (get s)) = xs"
begin

text \<open>A burst of puts keeps what fits, in order, and drops the newest.\<close>

lemma put_all:
  assumes "inv s" and "\<forall>x\<in>set xs. ok x"
  shows "inv (fold put xs s) \<and> contents (fold put xs s) = take cap (contents s @ xs)"
  using assms
proof (induction xs arbitrary: s)
  case Nil
  then show ?case using bound by simp
next
  case (Cons x xs)
  show ?case
  proof (cases "length (contents s) < cap")
    case True
    then have "take cap (contents s @ x # xs) = take cap ((contents s @ [x]) @ xs)" by simp
    with True Cons.prems Cons.IH [of "put x s"] put_room [of s x] show ?thesis
      by (simp del: take_append append_assoc)
  next
    case False
    with bound [OF Cons.prems(1)] have full: "length (contents s) = cap" by simp
    with Cons put_full [of s x] show ?thesis by simp
  qed
qed

text \<open>Reading \<open>n\<close> times yields the \<open>n\<close> oldest elements in the order they were put.\<close>

lemma drain_contents:
  assumes "inv s"
  shows "fst (drain get n s) = take n (contents s) \<and> inv (snd (drain get n s)) \<and>
     contents (snd (drain get n s)) = drop n (contents s)"
  using assms
proof (induction n arbitrary: s)
  case 0
  then show ?case by simp
next
  case (Suc n)
  show ?case
  proof (cases "contents s")
    case Nil
    then show ?thesis using get_empty [OF Suc.prems] Suc.prems by simp
  next
    case (Cons x xs)
    note g = get_next [OF Suc.prems Cons]
    then obtain s' where s': "get s = (Some x, s')" by (cases "get s") simp
    with g have "inv s'" "contents s' = xs" by simp_all
    with Suc.IH [of s'] show ?thesis by (simp add: s' Cons case_prod_beta)
  qed
qed

end

end
