(* ===== verification/Keyboard.thy ===== *)
theory Keyboard
  imports Ring_Fifo
begin

text \<open>
  \<^verbatim>\<open>src/drivers/keyboard.c\<close>: the PS/2 keyboard driver. The record \<open>keyboard\<close> holds the file's
  static variables and the number of end-of-interrupt commands sent to the PIC. \<open>char\<close> values are
  bytes. The values the driver reads from its I/O ports are arguments. The interrupt handler and
  the reader run on the same state: \<open>keyboard_get_char\<close> takes the scancodes of the interrupts that
  arrive while it waits.
\<close>

section \<open>Configuration and state\<close>

definition KEY_BUFFER_SIZE :: nat where "KEY_BUFFER_SIZE = 64"

definition MOD_SHIFT :: u8 where "MOD_SHIFT = 0x01"
definition MOD_CTRL :: u8 where "MOD_CTRL = 0x02"
definition MOD_ALT :: u8 where "MOD_ALT = 0x04"
definition MOD_CAPS :: u8 where "MOD_CAPS = 0x08"

definition KEY_LCTRL :: u8 where "KEY_LCTRL = 0x1D"
definition KEY_LSHIFT :: u8 where "KEY_LSHIFT = 0x2A"
definition KEY_RSHIFT :: u8 where "KEY_RSHIFT = 0x36"
definition KEY_LALT :: u8 where "KEY_LALT = 0x38"
definition KEY_CAPSLOCK :: u8 where "KEY_CAPSLOCK = 0x3A"

definition SPECIAL_KEY_UP :: u8 where "SPECIAL_KEY_UP = 0x80"
definition SPECIAL_KEY_DOWN :: u8 where "SPECIAL_KEY_DOWN = 0x81"
definition SPECIAL_KEY_LEFT :: u8 where "SPECIAL_KEY_LEFT = 0x82"
definition SPECIAL_KEY_RIGHT :: u8 where "SPECIAL_KEY_RIGHT = 0x83"

definition KEYBOARD_STATUS_OUTPUT_FULL :: u8 where "KEYBOARD_STATUS_OUTPUT_FULL = 0x01"

definition scancode_to_ascii :: "u8 list" where
  "scancode_to_ascii = [
     0x00, 0x1B, 0x31, 0x32, 0x33, 0x34, 0x35, 0x36, 0x37, 0x38, 0x39, 0x30, 0x2D, 0x3D, 0x08,
     0x09, 0x71, 0x77, 0x65, 0x72, 0x74, 0x79, 0x75, 0x69, 0x6F, 0x70, 0x5B, 0x5D, 0x0A, 0x00,
     0x61, 0x73, 0x64, 0x66, 0x67, 0x68, 0x6A, 0x6B, 0x6C, 0x3B, 0x27, 0x60, 0x00, 0x5C, 0x7A,
     0x78, 0x63, 0x76, 0x62, 0x6E, 0x6D, 0x2C, 0x2E, 0x2F, 0x00, 0x2A, 0x00, 0x20]"

definition scancode_to_ascii_shift :: "u8 list" where
  "scancode_to_ascii_shift = [
     0x00, 0x1B, 0x21, 0x40, 0x23, 0x24, 0x25, 0x5E, 0x26, 0x2A, 0x28, 0x29, 0x5F, 0x2B, 0x08,
     0x09, 0x51, 0x57, 0x45, 0x52, 0x54, 0x59, 0x55, 0x49, 0x4F, 0x50, 0x7B, 0x7D, 0x0A, 0x00,
     0x41, 0x53, 0x44, 0x46, 0x47, 0x48, 0x4A, 0x4B, 0x4C, 0x3A, 0x22, 0x7E, 0x00, 0x7C, 0x5A,
     0x58, 0x43, 0x56, 0x42, 0x4E, 0x4D, 0x3C, 0x3E, 0x3F, 0x00, 0x2A, 0x00, 0x20]"

text \<open>
  The interrupt counter is an \<open>int\<close> that only a debug line reads. It is not bounded here; in C the interrupt after the
  \<open>2 ^ 31 - 1\<close>-th overflows it.
\<close>

record keyboard =
  key_buffer :: "u8 list"
  buffer_head :: nat
  buffer_tail :: nat
  modifier_state :: u8
  extended_key :: bool
  irq_count :: int
  eoi_count :: nat

definition keyboard_boot :: keyboard where
  "keyboard_boot = \<lparr>key_buffer = replicate KEY_BUFFER_SIZE 0, buffer_head = 0, buffer_tail = 0,
     modifier_state = 0, extended_key = False, irq_count = 0, eoi_count = 0\<rparr>"

section \<open>Operations\<close>

definition buffer_put :: "u8 \<Rightarrow> keyboard \<Rightarrow> keyboard" where
  "buffer_put c k =
     (let nxt = (buffer_head k + 1) mod KEY_BUFFER_SIZE
      in if nxt \<noteq> buffer_tail k
         then k\<lparr>key_buffer := (key_buffer k)[buffer_head k := c], buffer_head := nxt\<rparr>
         else k)"

definition buffer_get :: "keyboard \<Rightarrow> u8 \<times> keyboard" where
  "buffer_get k =
     (if buffer_tail k = buffer_head k then (0, k)
      else (key_buffer k ! buffer_tail k,
            k\<lparr>buffer_tail := (buffer_tail k + 1) mod KEY_BUFFER_SIZE\<rparr>))"

text \<open>
  \<open>keyboard_init\<close> reads and drops bytes while the status port says there are any; the argument
  lists the values it reads from the status port. The result is the number of bytes dropped and
  the PIC mask with IRQ 1 enabled; \<open>None\<close> means that the loop is still running when the list
  ends.
\<close>

fun keyboard_init :: "u8 list \<Rightarrow> u8 \<Rightarrow> (nat \<times> u8) option" where
  "keyboard_init [] mask_reg = None"
| "keyboard_init (status # rest) mask_reg =
     (if status AND KEYBOARD_STATUS_OUTPUT_FULL \<noteq> 0
      then map_option (\<lambda>(n, m). (Suc n, m)) (keyboard_init rest mask_reg)
      else Some (0, mask_reg AND NOT 2))"

definition keyboard_has_key :: "keyboard \<Rightarrow> bool" where
  "keyboard_has_key k \<longleftrightarrow> buffer_head k \<noteq> buffer_tail k"

definition keyboard_get_modifiers :: "keyboard \<Rightarrow> u8" where
  "keyboard_get_modifiers k = modifier_state k"

text \<open>The \<open>switch\<close> of the handler for keys after the prefix 0xE0.\<close>

definition extended_press :: "u8 \<Rightarrow> keyboard \<Rightarrow> keyboard" where
  "extended_press key k =
     (if key = 0x48 then buffer_put SPECIAL_KEY_UP k
      else if key = 0x50 then buffer_put SPECIAL_KEY_DOWN k
      else if key = 0x4B then buffer_put SPECIAL_KEY_LEFT k
      else if key = 0x4D then buffer_put SPECIAL_KEY_RIGHT k
      else k)"

text \<open>The second \<open>switch\<close>: \<open>Some\<close> the new modifier state when the key is a modifier key.\<close>

definition modifier_key :: "u8 \<Rightarrow> bool \<Rightarrow> u8 \<Rightarrow> u8 option" where
  "modifier_key key released mods =
     (if key = KEY_LSHIFT \<or> key = KEY_RSHIFT then
        Some (if released then mods AND NOT MOD_SHIFT else mods OR MOD_SHIFT)
      else if key = KEY_LCTRL then
        Some (if released then mods AND NOT MOD_CTRL else mods OR MOD_CTRL)
      else if key = KEY_LALT then
        Some (if released then mods AND NOT MOD_ALT else mods OR MOD_ALT)
      else if key = KEY_CAPSLOCK then
        Some (if \<not> released then mods XOR MOD_CAPS else mods)
      else None)"

text \<open>The translation of a key press to a character, 0 when there is none.\<close>

definition translate :: "u8 \<Rightarrow> u8 \<Rightarrow> u8" where
  "translate mods key =
     (if unat key < length scancode_to_ascii then
        let shift = (mods AND MOD_SHIFT \<noteq> 0);
            caps = (mods AND MOD_CAPS \<noteq> 0);
            shift = (if caps \<and> 0x10 \<le> key \<and> key \<le> 0x32 then \<not> shift else shift)
        in if shift then scancode_to_ascii_shift ! unat key else scancode_to_ascii ! unat key
      else 0)"

definition keyboard_irq_handler :: "u8 \<Rightarrow> keyboard \<Rightarrow> keyboard" where
  "keyboard_irq_handler scancode k =
     (let k = k\<lparr>irq_count := irq_count k + 1\<rparr>;
          k = (if scancode = 0xE0 then k\<lparr>extended_key := True\<rparr>
               else
                 let released = (scancode AND 0x80 \<noteq> 0);
                     key = scancode AND 0x7F
                 in if extended_key k then
                      let k = k\<lparr>extended_key := False\<rparr>
                      in if \<not> released then extended_press key k else k
                    else
                      case modifier_key key released (modifier_state k) of
                        Some mods \<Rightarrow> k\<lparr>modifier_state := mods\<rparr>
                      | None \<Rightarrow>
                          if released then k
                          else let ascii = translate (modifier_state k) key
                               in if ascii \<noteq> 0 then buffer_put ascii k else k)
      in k\<lparr>eoi_count := eoi_count k + 1\<rparr>)"

text \<open>
  \<open>keyboard_get_char\<close> waits until the buffer has a key; the list holds the scancodes of the
  interrupts taken at its \<open>pause\<close> instructions. \<open>None\<close>: still waiting after all of them.
\<close>

fun keyboard_get_char :: "u8 list \<Rightarrow> keyboard \<Rightarrow> (u8 \<times> u8 list \<times> keyboard) option" where
  "keyboard_get_char [] k =
     (if keyboard_has_key k then case buffer_get k of (c, k') \<Rightarrow> Some (c, [], k') else None)"
| "keyboard_get_char (sc # scs) k =
     (if keyboard_has_key k then case buffer_get k of (c, k') \<Rightarrow> Some (c, sc # scs, k')
      else keyboard_get_char scs (keyboard_irq_handler sc k))"


section \<open>The key buffer is a bounded queue\<close>

definition key_count :: "keyboard \<Rightarrow> nat" where
  "key_count k = (buffer_head k + KEY_BUFFER_SIZE - buffer_tail k) mod KEY_BUFFER_SIZE"

definition keys :: "keyboard \<Rightarrow> u8 list" where
  "keys k = ring_slice (key_buffer k) (buffer_tail k) (key_count k)"

definition keyboard_wf :: "keyboard \<Rightarrow> bool" where
  "keyboard_wf k \<longleftrightarrow> length (key_buffer k) = KEY_BUFFER_SIZE \<and>
     buffer_head k < KEY_BUFFER_SIZE \<and> buffer_tail k < KEY_BUFFER_SIZE"

text \<open>The non-blocking read of the shell's polling loop: test, then get.\<close>

definition key_poll :: "keyboard \<Rightarrow> u8 option \<times> keyboard" where
  "key_poll k = (if keyboard_has_key k then case buffer_get k of (c, k') \<Rightarrow> (Some c, k') else (None, k))"

lemma keyboard_wf_boot [simp]: "keyboard_wf keyboard_boot"
  by (simp add: keyboard_wf_def keyboard_boot_def KEY_BUFFER_SIZE_def)

lemma keys_boot [simp]: "keys keyboard_boot = []"
  by (simp add: keys_def key_count_def keyboard_boot_def)

lemma key_count_cases:
  assumes "keyboard_wf k"
  shows "key_count k =
     (if buffer_tail k \<le> buffer_head k then buffer_head k - buffer_tail k
      else buffer_head k + 64 - buffer_tail k)"
  using assms by (auto simp: key_count_def keyboard_wf_def KEY_BUFFER_SIZE_def mod_if)

lemma has_key_iff: "keyboard_wf k \<Longrightarrow> keyboard_has_key k \<longleftrightarrow> keys k \<noteq> []"
  using key_count_cases [of k]
  by (auto simp: keyboard_has_key_def keys_def keyboard_wf_def KEY_BUFFER_SIZE_def
      simp flip: length_0_conv)

lemma buffer_put_room:
  assumes "keyboard_wf k" and "length (keys k) < 63"
  shows "keyboard_wf (buffer_put c k)" and "keys (buffer_put c k) = keys k @ [c]"
proof -
  let ?h = "buffer_head k" and ?t = "buffer_tail k" and ?n = "key_count k"
  from assms have n: "?n < 63" and wf: "length (key_buffer k) = 64" "?h < 64" "?t < 64"
    by (simp_all add: keys_def keyboard_wf_def KEY_BUFFER_SIZE_def)
  have h: "(?t + ?n) mod 64 = ?h"
    using wf key_count_cases [OF assms(1)] by (auto simp: mod_if)
  have ne: "(?h + 1) mod 64 \<noteq> ?t"
    using wf n key_count_cases [OF assms(1)] by (auto simp: mod_if split: if_splits)
  then have eq: "buffer_put c k =
      k\<lparr>key_buffer := (key_buffer k)[?h := c], buffer_head := (?h + 1) mod 64\<rparr>"
    by (simp add: buffer_put_def KEY_BUFFER_SIZE_def)
  then show wf': "keyboard_wf (buffer_put c k)"
    using wf by (simp add: keyboard_wf_def KEY_BUFFER_SIZE_def)
  have "key_count (buffer_put c k) = Suc ?n"
    using wf n ne key_count_cases [OF assms(1)] key_count_cases [OF wf']
    by (auto simp: eq mod_if split: if_splits)
  then show "keys (buffer_put c k) = keys k @ [c]"
    using ring_slice_put [of ?n "key_buffer k" ?t c] n wf(1) h by (simp add: keys_def eq)
qed

lemma buffer_put_full:
  assumes "keyboard_wf k" and "length (keys k) = 63"
  shows "buffer_put c k = k"
proof -
  have "(buffer_head k + 1) mod 64 = buffer_tail k"
    using assms key_count_cases [OF assms(1)]
    by (auto simp: keys_def keyboard_wf_def KEY_BUFFER_SIZE_def mod_if split: if_splits)
  then show ?thesis by (simp add: buffer_put_def KEY_BUFFER_SIZE_def)
qed

lemma buffer_get_next:
  assumes "keyboard_wf k" and "keys k = c # cs"
  shows "fst (buffer_get k) = c" and "keyboard_wf (snd (buffer_get k))" and "keys (snd (buffer_get k)) = cs"
proof -
  let ?h = "buffer_head k" and ?t = "buffer_tail k"
  have wf: "length (key_buffer k) = 64" "?h < 64" "?t < 64"
    using assms(1) by (simp_all add: keyboard_wf_def KEY_BUFFER_SIZE_def)
  from assms(2) have "length (keys k) = Suc (length cs)" by simp
  then have n: "key_count k = Suc (length cs)" by (simp add: keys_def)
  then have ne: "?t \<noteq> ?h" using key_count_cases [OF assms(1)] by auto
  have eq: "snd (buffer_get k) = k\<lparr>buffer_tail := (?t + 1) mod 64\<rparr>"
    and fst: "fst (buffer_get k) = key_buffer k ! ?t"
    using ne by (simp_all add: buffer_get_def KEY_BUFFER_SIZE_def)
  show wf': "keyboard_wf (snd (buffer_get k))"
    using wf by (simp add: eq keyboard_wf_def KEY_BUFFER_SIZE_def)
  have n': "key_count (snd (buffer_get k)) = length cs"
    using wf n ne key_count_cases [OF assms(1)] key_count_cases [OF wf']
    by (auto simp: eq mod_if split: if_splits)
  have "c # cs = key_buffer k ! ?t # ring_slice (key_buffer k) ((?t + 1) mod 64) (length cs)"
    using assms(2) ring_slice_get [of ?t "key_buffer k" "length cs"] wf n by (simp add: keys_def)
  then show "fst (buffer_get k) = c" and "keys (snd (buffer_get k)) = cs"
    using n' by (simp_all add: fst keys_def eq)
qed

interpretation kbd: bounded_fifo keyboard_wf "\<lambda>_. True" 63 keys buffer_put key_poll
proof unfold_locales
  show "length (keys k) \<le> 63" if "keyboard_wf k" for k
    using that by (simp add: keys_def key_count_def KEY_BUFFER_SIZE_def)
  show "keyboard_wf (buffer_put c k) \<and> keys (buffer_put c k) = keys k @ [c]"
    if "keyboard_wf k" "length (keys k) < 63" for c k
    using that buffer_put_room by simp
  show "buffer_put c k = k" if "keyboard_wf k" "length (keys k) = 63" for c k
    using that by (rule buffer_put_full)
  show "key_poll k = (None, k)" if "keyboard_wf k" "keys k = []" for k
    using that has_key_iff [of k] by (simp add: key_poll_def)
  show "fst (key_poll k) = Some c \<and> keyboard_wf (snd (key_poll k)) \<and> keys (snd (key_poll k)) = cs"
    if "keyboard_wf k" "keys k = c # cs" for c cs k
    using that has_key_iff [of k] buffer_get_next [OF that]
    by (simp add: key_poll_def case_prod_beta)
qed

section \<open>The interrupt handler\<close>

lemma press_bits:
  fixes sc :: u8
  assumes "unat sc < 0x80"
  shows "sc AND 0x80 = 0" and "sc AND 0x7F = sc" and "(sc OR 0x80) AND 0x80 \<noteq> 0"
    and "(sc OR 0x80) AND 0x7F = sc" and "sc \<noteq> 0xE0"
proof -
  have "unat (take_bit 7 sc) = unat sc"
    using assms by (simp add: unsigned_take_bit_eq take_bit_nat_eq_self)
  then have sc: "take_bit 7 sc = sc" by (simp add: word_unat_eq_iff)
  then have b7: "\<not> bit sc 7" by (metis bit_take_bit_iff less_irrefl)
  show "sc AND 0x80 = 0" using b7 and_exp_eq_0_iff [of 7 sc] by simp
  show 1: "sc AND 0x7F = sc" using sc by (simp add: take_bit_eq_mask mask_eq_exp_minus_1)
  show "(sc OR 0x80) AND 0x80 \<noteq> 0"
    using and_exp_eq_0_iff [of 7 "sc OR 0x80"] by (simp add: bit_simps)
  show "(sc OR 0x80) AND 0x7F = sc" using 1 by (simp add: and.commute bit.conj_disj_distrib)
  show "sc \<noteq> 0xE0" using assms by auto
qed

text \<open>A key that has a character without modifiers; no modifier key has one.\<close>

definition plain_key :: "u8 \<Rightarrow> bool" where
  "plain_key sc \<longleftrightarrow> unat sc < length scancode_to_ascii \<and> scancode_to_ascii ! unat sc \<noteq> 0"

lemma length_tables: "length scancode_to_ascii = 58" "length scancode_to_ascii_shift = 58"
  by (simp_all add: scancode_to_ascii_def scancode_to_ascii_shift_def)

lemma modifier_key_plain: "plain_key sc \<Longrightarrow> modifier_key sc released mods = None"
  unfolding modifier_key_def plain_key_def KEY_LSHIFT_def KEY_RSHIFT_def KEY_LCTRL_def KEY_LALT_def
    KEY_CAPSLOCK_def
  by (auto simp: scancode_to_ascii_def)

lemma modifier_key_None: "modifier_key key r m = None \<Longrightarrow> modifier_key key r' m' = None"
  by (simp add: modifier_key_def split: if_splits)

lemma translate_shift_nonzero:
  assumes "plain_key sc"
  shows "scancode_to_ascii_shift ! unat sc \<noteq> 0"
proof -
  have "list_all2 (\<lambda>a b. a \<noteq> 0 \<longrightarrow> b \<noteq> 0) scancode_to_ascii scancode_to_ascii_shift"
    by (simp add: scancode_to_ascii_def scancode_to_ascii_shift_def)
  with assms show ?thesis by (auto simp: plain_key_def dest: list_all2_nthD)
qed

lemma plain_key_bits:
  assumes "plain_key sc"
  shows "unat sc < 0x80" and "sc OR 0x80 \<noteq> 0xE0"
proof -
  show lt: "unat sc < 0x80" using assms by (simp add: plain_key_def length_tables)
  have "sc = 0x60" if "sc OR 0x80 = 0xE0"
    using press_bits(4) [OF lt] that by simp
  then show "sc OR 0x80 \<noteq> 0xE0" using assms by (auto simp: plain_key_def length_tables)
qed

lemma keyboard_wf_update [simp]:
  "keyboard_wf (k\<lparr>modifier_state := m\<rparr>) = keyboard_wf k"
  "keyboard_wf (k\<lparr>extended_key := e\<rparr>) = keyboard_wf k"
  "keyboard_wf (k\<lparr>irq_count := i\<rparr>) = keyboard_wf k"
  "keyboard_wf (k\<lparr>eoi_count := n\<rparr>) = keyboard_wf k"
  by (simp_all add: keyboard_wf_def)

lemma keys_update [simp]:
  "keys (k\<lparr>modifier_state := m\<rparr>) = keys k" "keys (k\<lparr>extended_key := e\<rparr>) = keys k"
  "keys (k\<lparr>irq_count := i\<rparr>) = keys k" "keys (k\<lparr>eoi_count := n\<rparr>) = keys k"
  by (simp_all add: keys_def key_count_def)

lemma buffer_put_fields [simp]:
  "modifier_state (buffer_put c k) = modifier_state k" "extended_key (buffer_put c k) = extended_key k"
  "eoi_count (buffer_put c k) = eoi_count k" "irq_count (buffer_put c k) = irq_count k"
  by (simp_all add: buffer_put_def Let_def)

lemma buffer_put_keys:
  assumes "keyboard_wf k"
  shows "keyboard_wf (buffer_put c k)" and "keys (buffer_put c k) = take 63 (keys k @ [c])"
  using kbd.put_all [OF assms, of "[c]"] by simp_all

text \<open>What one interrupt appends to the queue.\<close>

definition irq_chars :: "u8 \<Rightarrow> keyboard \<Rightarrow> u8 list" where
  "irq_chars sc k =
     (if sc = 0xE0 \<or> sc AND 0x80 \<noteq> 0 then []
      else if extended_key k then
        (case map_of [(0x48, SPECIAL_KEY_UP), (0x50, SPECIAL_KEY_DOWN), (0x4B, SPECIAL_KEY_LEFT),
                      (0x4D, SPECIAL_KEY_RIGHT)] (sc AND 0x7F) of
           None \<Rightarrow> [] | Some c \<Rightarrow> [c])
      else if modifier_key (sc AND 0x7F) False (modifier_state k) \<noteq> None then []
      else filter (\<lambda>c. c \<noteq> 0) [translate (modifier_state k) (sc AND 0x7F)])"

lemma irq_handler_spec:
  assumes "keyboard_wf k"
  shows "keyboard_wf (keyboard_irq_handler sc k) \<and>
     keys (keyboard_irq_handler sc k) = take 63 (keys k @ irq_chars sc k) \<and>
     eoi_count (keyboard_irq_handler sc k) = eoi_count k + 1"
proof -
  have le: "length (keys k) \<le> 63" by (rule kbd.bound [OF assms])
  let ?k = "k\<lparr>irq_count := irq_count k + 1\<rparr>"
  have wf: "keyboard_wf ?k" "keys ?k = keys k" "eoi_count ?k = eoi_count k" using assms by simp_all
  note put = buffer_put_keys [of ?k] buffer_put_keys [of "?k\<lparr>extended_key := False\<rparr>"]
  show ?thesis
  proof (cases "sc = 0xE0")
    case True
    then show ?thesis using wf le by (simp add: keyboard_irq_handler_def Let_def irq_chars_def)
  next
    case False
    show ?thesis
    proof (cases "extended_key k")
      case True
      with False show ?thesis
        using wf le put
        by (simp add: keyboard_irq_handler_def Let_def irq_chars_def extended_press_def)
    next
      case ext: False
      show ?thesis
      proof (cases "modifier_key (sc AND 0x7F) (sc AND 0x80 \<noteq> 0) (modifier_state k)")
        case None
        with False ext show ?thesis
          using wf le put modifier_key_None [OF None, of False "modifier_state k"]
          by (simp add: keyboard_irq_handler_def Let_def irq_chars_def)
      next
        case (Some m)
        then have "modifier_key (sc AND 0x7F) False (modifier_state k) \<noteq> None"
          using modifier_key_None by fastforce
        with Some False ext show ?thesis
          using wf le by (simp add: keyboard_irq_handler_def Let_def irq_chars_def)
      qed
    qed
  qed
qed

lemma irq_handler_plain:
  assumes "keyboard_wf k" and "plain_key sc" and "\<not> extended_key k"
  shows "irq_chars sc k = [translate (modifier_state k) sc]" and "translate (modifier_state k) sc \<noteq> 0"
    and "modifier_state (keyboard_irq_handler sc k) = modifier_state k"
    and "\<not> extended_key (keyboard_irq_handler sc k)"
    and "modifier_state (keyboard_irq_handler (sc OR 0x80) k) = modifier_state k"
    and "\<not> extended_key (keyboard_irq_handler (sc OR 0x80) k)"
    and "irq_chars (sc OR 0x80) k = []"
proof -
  note bits = press_bits [OF plain_key_bits(1) [OF assms(2)]] plain_key_bits(2) [OF assms(2)]
  note mk = modifier_key_plain [OF assms(2)]
  show nz: "translate (modifier_state k) sc \<noteq> 0"
    using assms(2) translate_shift_nonzero [OF assms(2)] by (simp add: translate_def plain_key_def Let_def)
  show "irq_chars sc k = [translate (modifier_state k) sc]"
    using bits mk assms(3) nz by (simp add: irq_chars_def)
  show "modifier_state (keyboard_irq_handler sc k) = modifier_state k"
    "\<not> extended_key (keyboard_irq_handler sc k)"
    "modifier_state (keyboard_irq_handler (sc OR 0x80) k) = modifier_state k"
    "\<not> extended_key (keyboard_irq_handler (sc OR 0x80) k)"
    using bits mk assms(3) by (simp_all add: keyboard_irq_handler_def Let_def)
  show "irq_chars (sc OR 0x80) k = []" using bits by (simp add: irq_chars_def)
qed

text \<open>The scancodes of typing some keys one after the other, each pressed and released.\<close>

definition keystrokes :: "u8 list \<Rightarrow> u8 list" where
  "keystrokes scs = concat (map (\<lambda>sc. [sc, sc OR 0x80]) scs)"

lemma irq_handler_keystrokes:
  assumes "keyboard_wf k" and "\<forall>sc\<in>set scs. plain_key sc" and "\<not> extended_key k"
  shows "keyboard_wf (fold keyboard_irq_handler (keystrokes scs) k) \<and>
     keys (fold keyboard_irq_handler (keystrokes scs) k) =
       take 63 (keys k @ map (translate (modifier_state k)) scs) \<and>
     modifier_state (fold keyboard_irq_handler (keystrokes scs) k) = modifier_state k \<and>
     eoi_count (fold keyboard_irq_handler (keystrokes scs) k) = eoi_count k + 2 * length scs"
  using assms
proof (induction scs arbitrary: k)
  case Nil
  then show ?case using kbd.bound by (simp add: keystrokes_def)
next
  case (Cons sc scs)
  let ?k1 = "keyboard_irq_handler sc k" and ?k2 = "keyboard_irq_handler (sc OR 0x80) (keyboard_irq_handler sc k)"
  have sc: "plain_key sc" using Cons.prems(2) by simp
  note p1 = irq_handler_plain [OF Cons.prems(1) sc Cons.prems(3)]
  note s1 = irq_handler_spec [OF Cons.prems(1), of sc]
  note p2 = irq_handler_plain [OF conjunct1 [OF s1] sc p1(4)]
  note s2 = irq_handler_spec [OF conjunct1 [OF s1], of "sc OR 0x80"]
  have "fold keyboard_irq_handler (keystrokes (sc # scs)) k = fold keyboard_irq_handler (keystrokes scs) ?k2"
    by (simp add: keystrokes_def)
  moreover have "keyboard_wf ?k2" "\<not> extended_key ?k2" "modifier_state ?k2 = modifier_state k"
    "keys ?k2 = take 63 (keys k @ [translate (modifier_state k) sc])" "eoi_count ?k2 = eoi_count k + 2"
    using s1 s2 p1 p2 by (simp_all del: take_append)
  moreover have "take 63 (take 63 (xs @ [x]) @ ys) = take 63 (xs @ x # ys)" for xs ys and x :: u8
    by (cases "length xs < 63") (simp_all add: take_Cons')
  ultimately show ?case using Cons.IH [of ?k2] Cons.prems(2) by simp
qed

lemma get_char_waits:
  assumes "keyboard_wf k"
  shows "keyboard_get_char scs k =
     (case first_index (\<lambda>i. keys (fold keyboard_irq_handler (take i scs) k) \<noteq> []) (Suc (length scs)) of
        None \<Rightarrow> None
      | Some i \<Rightarrow>
          let k' = fold keyboard_irq_handler (take i scs) k
          in Some (hd (keys k'), drop i scs, snd (buffer_get k')))"
  using assms
proof (induction scs arbitrary: k)
  case Nil
  show ?case
  proof (cases "keys k")
    case Nil
    then show ?thesis
      using has_key_iff [OF Nil.prems] by (simp add: first_index_def)
  next
    case (Cons c cs)
    then show ?thesis
      using has_key_iff [OF Nil.prems] buffer_get_next [OF Nil.prems Cons]
      by (auto simp: first_index_def case_prod_beta)
  qed
next
  case (Cons sc scs)
  show ?case
  proof (cases "keys k")
    case Nil
    let ?P = "\<lambda>i. keys (fold keyboard_irq_handler (take i (sc # scs)) k) \<noteq> []"
    have "first_index ?P (Suc (Suc (length scs))) =
        map_option Suc (first_index (\<lambda>i. ?P (Suc i)) (Suc (length scs)))"
      using Nil by (intro first_index_shift) simp
    then show ?thesis
      using Nil has_key_iff [OF Cons.prems] Cons.IH irq_handler_spec [OF Cons.prems, of sc]
      by (simp split: option.splits)
  next
    case (Cons c cs)
    then have "first_index (\<lambda>i. keys (fold keyboard_irq_handler (take i (sc # scs)) k) \<noteq> [])
        (Suc (length (sc # scs))) = Some 0"
      by (simp add: first_index_Some_iff)
    then show ?thesis
      using has_key_iff [OF Cons.prems] buffer_get_next [OF Cons.prems Cons] Cons
      by (simp add: case_prod_beta)
  qed
qed

section \<open>Properties\<close>

text \<open>
  C35. Typed keys reach the reader in order: after any sequence of plain keys is pressed and
  released, polling the buffer yields the characters of the keys under the current modifiers, in
  the order they were typed, up to the 63 the buffer holds; no interrupt is left without its
  end-of-interrupt.
\<close>

theorem typed_keys_delivered:
  assumes "keyboard_wf k" and "keys k = []" and "\<not> extended_key k"
    and "\<forall>sc\<in>set scs. plain_key sc"
  shows "fst (drain key_poll n (fold keyboard_irq_handler (keystrokes scs) k)) =
       take (min n 63) (map (translate (modifier_state k)) scs) \<and>
     eoi_count (fold keyboard_irq_handler (keystrokes scs) k) = eoi_count k + 2 * length scs"
proof -
  note spec = irq_handler_keystrokes [OF assms(1,4,3)]
  with kbd.drain_contents [OF conjunct1 [OF spec], of n] assms(2) show ?thesis by simp
qed

theorem typed_keys_delivered_witness:
  "fst (drain key_poll 5 (fold keyboard_irq_handler (keystrokes [0x23, 0x17]) keyboard_boot)) =
     [0x68, 0x69]"
proof -
  have "\<forall>sc\<in>set [0x23, 0x17]. plain_key sc"
    by (simp add: plain_key_def scancode_to_ascii_def)
  moreover have "\<not> extended_key keyboard_boot" "modifier_state keyboard_boot = 0"
    by (simp_all add: keyboard_boot_def)
  moreover have "map (translate 0) [0x23, 0x17] = [0x68, 0x69]" by code_simp
  ultimately show ?thesis
    using typed_keys_delivered [of keyboard_boot "[0x23, 0x17]" 5] by simp
qed

text \<open>
  Every interrupt keeps the key buffer well-formed, acknowledges the PIC once, and appends
  at most one character, which is dropped when the buffer is full; it never overwrites or reorders
  characters that wait to be read.
\<close>

theorem irq_handler_appends:
  assumes "keyboard_wf k"
  shows "keyboard_wf (keyboard_irq_handler sc k) \<and>
     eoi_count (keyboard_irq_handler sc k) = eoi_count k + 1 \<and>
     length (irq_chars sc k) \<le> 1 \<and>
     keys (keyboard_irq_handler sc k) =
       (if length (keys k) < 63 then keys k @ irq_chars sc k else keys k)"
proof -
  have len: "length (irq_chars sc k) \<le> 1" by (simp add: irq_chars_def split: option.splits)
  have "length (keys k) \<le> 63" by (rule kbd.bound [OF assms])
  with len irq_handler_spec [OF assms, of sc] show ?thesis by auto
qed

theorem irq_handler_appends_witness:
  "keys (keyboard_irq_handler 0x1E keyboard_boot) = [0x61] \<and>
   keyboard_wf (keyboard_irq_handler 0x1E keyboard_boot)"
proof -
  have "irq_chars 0x1E keyboard_boot = [0x61]" by code_simp
  with irq_handler_appends [OF keyboard_wf_boot, of "0x1E"] show ?thesis by simp
qed

text \<open>
  C36. \<open>keyboard_get_char\<close> blocks exactly until an interrupt delivers a character: it returns the
  oldest character of the buffer as soon as there is one, after the shortest prefix of the coming
  interrupts that makes the buffer non-empty, and keeps waiting while there is none.
\<close>

theorem keyboard_get_char_blocks:
  assumes "keyboard_wf k" and "keys (fold keyboard_irq_handler (take i scs) k) = c # cs"
    and "i \<le> length scs" and "\<forall>j<i. keys (fold keyboard_irq_handler (take j scs) k) = []"
  shows "keyboard_get_char scs k =
     Some (c, drop i scs, snd (buffer_get (fold keyboard_irq_handler (take i scs) k)))"
proof -
  have "first_index (\<lambda>i. keys (fold keyboard_irq_handler (take i scs) k) \<noteq> []) (Suc (length scs)) = Some i"
    using assms(2-4) by (simp add: first_index_Some_iff)
  then show ?thesis using assms(2) by (simp add: get_char_waits [OF assms(1)])
qed

theorem keyboard_get_char_blocks_witness:
  "keyboard_get_char [0x2A, 0x1E, 0x9E] keyboard_boot =
     Some (0x41, [0x9E], snd (buffer_get (keyboard_irq_handler 0x1E (keyboard_irq_handler 0x2A keyboard_boot))))"
proof -
  let ?scs = "[0x2A, 0x1E, 0x9E] :: u8 list"
  have "keys (fold keyboard_irq_handler (take 2 ?scs) keyboard_boot) = [0x41]"
    "keys (fold keyboard_irq_handler (take 1 ?scs) keyboard_boot) = []"
    "keys (fold keyboard_irq_handler (take 0 ?scs) keyboard_boot) = []"
    by code_simp+
  moreover from this have "\<forall>j<2. keys (fold keyboard_irq_handler (take j ?scs) keyboard_boot) = []"
    by (auto simp: numeral_2_eq_2 less_Suc_eq simp del: fold.simps)
  ultimately show ?thesis
    using keyboard_get_char_blocks [OF keyboard_wf_boot, of 2 ?scs "0x41" "[]"] by simp
qed

text \<open>
  Caps lock is not limited to letters: with caps lock on and shift up, a plain key between
  scancodes 0x10 and 0x32 gives its shifted character, also where that key is a bracket, a
  semicolon, a quote, a backslash or a comma.
\<close>

theorem caps_lock_shifts_punctuation:
  "map (translate MOD_CAPS) [0x1A, 0x1B, 0x27, 0x28, 0x29, 0x2B] =
     map (translate MOD_SHIFT) [0x1A, 0x1B, 0x27, 0x28, 0x29, 0x2B] \<and>
   translate 0 0x1A = 0x5B \<and> translate MOD_CAPS 0x1A = 0x7B"
  by code_simp

end
