(* ===== verification/Thread.thy ===== *)
theory Thread
  imports Pmm Linked_List
begin

text \<open>
  \<^verbatim>\<open>src/sched/thread.c\<close>, \<^verbatim>\<open>thread.h\<close> and \<^verbatim>\<open>switch.s\<close>: thread control blocks, their creation and the
  context switch. A \<open>thread_t *\<close> is a 64-bit address, \<open>0\<close> is NULL, and \<open>heap\<close> holds the thread
  structs by address; \<open>kstack\<close> holds the 64-bit words of the kernel stacks. The record \<open>sched\<close> is
  the static state of \<^verbatim>\<open>thread.c\<close>, \<^verbatim>\<open>scheduler.c\<close> and the tick counter of \<^verbatim>\<open>timer.c\<close>, together with
  the registers a context switch saves, the stack pointer field of the TSS and the page allocator.
  The offset of the direct map (\<open>hhdm\<close>) comes from the bootloader; the addresses of
  \<open>thread_entry_wrapper\<close>, of the instructions after the two calls of \<open>context_switch\<close> and of the
  static \<open>bootstrap_thread\<close> come from the linker: these are fields that nothing changes.
\<close>

section \<open>Threads\<close>

datatype thread_state_t =
    THREAD_STATE_CREATED | THREAD_STATE_READY | THREAD_STATE_RUNNING
  | THREAD_STATE_BLOCKED | THREAD_STATE_SLEEPING | THREAD_STATE_TERMINATED

definition PRIORITY_REALTIME :: u8 where "PRIORITY_REALTIME = 0"
definition PRIORITY_HIGH :: u8 where "PRIORITY_HIGH = 1"
definition PRIORITY_ABOVE_NORMAL :: u8 where "PRIORITY_ABOVE_NORMAL = 2"
definition PRIORITY_NORMAL :: u8 where "PRIORITY_NORMAL = 3"
definition PRIORITY_BELOW_NORMAL :: u8 where "PRIORITY_BELOW_NORMAL = 4"
definition PRIORITY_LOW :: u8 where "PRIORITY_LOW = 5"
definition PRIORITY_IDLE :: u8 where "PRIORITY_IDLE = 6"
definition PRIORITY_LEVELS :: u8 where "PRIORITY_LEVELS = 7"

definition TIME_SLICE_BASE_MS :: u32 where "TIME_SLICE_BASE_MS = 10"
definition KERNEL_STACK_SIZE :: u64 where "KERNEL_STACK_SIZE = 8192"
definition CPU_HISTORY_SAMPLES :: nat where "CPU_HISTORY_SAMPLES = 8"
definition PRIORITY_BOOST_THRESHOLD :: u8 where "PRIORITY_BOOST_THRESHOLD = 30"
definition PRIORITY_DEMOTE_THRESHOLD :: u8 where "PRIORITY_DEMOTE_THRESHOLD = 80"
definition MAX_THREADS :: nat where "MAX_THREADS = 256"

record thread_t =
  tid :: u32
  t_state :: thread_state_t
  kernel_stack_base :: u64
  kernel_stack_size :: u64
  t_rsp :: u64
  t_name :: "u8 list"
  t_entry :: u64
  t_arg :: u64
  priority :: u8
  base_priority :: u8
  time_slice :: u32
  time_slice_length :: u32
  total_ticks :: u64
  cpu_usage_history :: "u8 list"
  history_index :: nat
  avg_cpu_usage :: u8
  slice_start_ticks :: u64
  ticks_used_this_slice :: u64
  wake_time :: u64
  t_next :: u64
  t_prev :: u64
  exit_code :: u32

text \<open>A struct after \<open>memset(thread, 0, sizeof(thread_t))\<close>.\<close>

definition zero_thread :: thread_t where
  "zero_thread = \<lparr>tid = 0, t_state = THREAD_STATE_CREATED, kernel_stack_base = 0,
     kernel_stack_size = 0, t_rsp = 0, t_name = replicate 32 0, t_entry = 0, t_arg = 0, priority = 0,
     base_priority = 0, time_slice = 0, time_slice_length = 0, total_ticks = 0,
     cpu_usage_history = replicate CPU_HISTORY_SAMPLES 0, history_index = 0, avg_cpu_usage = 0,
     slice_start_ticks = 0, ticks_used_this_slice = 0, wake_time = 0, t_next = 0, t_prev = 0,
     exit_code = 0\<rparr>"

record scheduler_stats_t =
  total_switches :: u32
  threads_ready :: u32
  threads_sleeping :: u32
  threads_blocked :: u32
  priority_boosts :: u32
  priority_demotions :: u32
  idle_ticks :: u64

definition zero_stats :: scheduler_stats_t where
  "zero_stats = \<lparr>total_switches = 0, threads_ready = 0, threads_sleeping = 0, threads_blocked = 0,
     priority_boosts = 0, priority_demotions = 0, idle_ticks = 0\<rparr>"

text \<open>The registers \<open>context_switch\<close> saves and restores, with the program counter.\<close>

record cpu =
  rip :: u64
  rsp :: u64
  rflags :: u64
  rbp :: u64
  rbx :: u64
  r12 :: u64
  r13 :: u64
  r14 :: u64
  r15 :: u64

record sched =
  heap :: "u64 \<Rightarrow> thread_t"
  kstack :: "u64 \<Rightarrow> u64"
  scpu :: cpu
  tss_rsp0 :: u64
  spmm :: pmm
  hhdm :: u64
  entry_wrapper :: u64
  ret_switch_to :: u64
  ret_scheduler_start :: u64
  bootstrap_thread :: u64
  all_threads :: "u64 list"
  next_tid :: u32
  ready_queue_heads :: "u8 \<Rightarrow> u64"
  ready_queue_tails :: "u8 \<Rightarrow> u64"
  sleep_queue :: u64
  blocked_queue :: u64
  idle_thread :: u64
  current_thread :: u64
  stats :: scheduler_stats_t
  scheduler_running :: bool
  need_reschedule :: bool
  ticks :: u64
  pic_eois :: nat

abbreviation upd :: "u64 \<Rightarrow> (thread_t \<Rightarrow> thread_t) \<Rightarrow> sched \<Rightarrow> sched" where
  "upd t f s \<equiv> s\<lparr>heap := (heap s)(t := f (heap s t))\<rparr>"

section \<open>Stack and context switch\<close>

definition push :: "u64 \<Rightarrow> sched \<Rightarrow> sched" where
  "push v s =
     (let sp = rsp (scpu s) - 8
      in s\<lparr>scpu := (scpu s)\<lparr>rsp := sp\<rparr>, kstack := (kstack s)(sp := v)\<rparr>)"

definition pop :: "(u64 \<Rightarrow> cpu \<Rightarrow> cpu) \<Rightarrow> sched \<Rightarrow> sched" where
  "pop set_reg s =
     (let sp = rsp (scpu s)
      in s\<lparr>scpu := set_reg (kstack s sp) ((scpu s)\<lparr>rsp := sp + 8\<rparr>)\<rparr>)"

text \<open>
  \<open>context_switch\<close> called from the address before \<open>ret\<close>: the call pushes the return address, the
  routine pushes the flags and six registers, stores the stack pointer in \<open>old->rsp\<close>, loads it
  from \<open>new->rsp\<close>, pops everything in reverse order, enables interrupts and returns.
\<close>

definition save_context :: "u64 \<Rightarrow> u64 \<Rightarrow> sched \<Rightarrow> sched" where
  "save_context ret old s =
     (let c = scpu s;
          s = push (r15 c) (push (r14 c) (push (r13 c) (push (r12 c) (push (rbx c) (push (rbp c)
                (push (rflags c) (push ret s)))))))
      in upd old (\<lambda>t. t\<lparr>t_rsp := rsp (scpu s)\<rparr>) s)"

definition load_context :: "u64 \<Rightarrow> sched \<Rightarrow> sched" where
  "load_context new_thread s =
     (let s = s\<lparr>scpu := (scpu s)\<lparr>rsp := t_rsp (heap s new_thread)\<rparr>\<rparr>;
          s = pop (\<lambda>v c. c\<lparr>r15 := v\<rparr>) s;
          s = pop (\<lambda>v c. c\<lparr>r14 := v\<rparr>) s;
          s = pop (\<lambda>v c. c\<lparr>r13 := v\<rparr>) s;
          s = pop (\<lambda>v c. c\<lparr>r12 := v\<rparr>) s;
          s = pop (\<lambda>v c. c\<lparr>rbx := v\<rparr>) s;
          s = pop (\<lambda>v c. c\<lparr>rbp := v\<rparr>) s;
          s = pop (\<lambda>v c. c\<lparr>rflags := v\<rparr>) s;
          s = s\<lparr>scpu := (scpu s)\<lparr>rflags := rflags (scpu s) OR 0x200\<rparr>\<rparr>
      in pop (\<lambda>v c. c\<lparr>rip := v\<rparr>) s)"

definition context_switch :: "u64 \<Rightarrow> u64 \<Rightarrow> u64 \<Rightarrow> sched \<Rightarrow> sched" where
  "context_switch ret old new_thread s = load_context new_thread (save_context ret old s)"

section \<open>Thread creation\<close>

definition calculate_time_slice :: "u8 \<Rightarrow> u32" where
  "calculate_time_slice p = TIME_SLICE_BASE_MS + (ucast PRIORITY_LEVELS - ucast p) * 3"

definition thread_init_stack :: "u64 \<Rightarrow> sched \<Rightarrow> sched" where
  "thread_init_stack t s =
     (let top = kernel_stack_base (heap s t) + kernel_stack_size (heap s t);
          k = (kstack s)(top - 8 := entry_wrapper s, top - 16 := 0x202, top - 24 := 0, top - 32 := 0,
                top - 40 := 0, top - 48 := 0, top - 56 := 0, top - 64 := 0)
      in upd t (\<lambda>x. x\<lparr>t_rsp := top - 64\<rparr>) (s\<lparr>kstack := k\<rparr>))"

text \<open>The name is copied up to its terminator, 31 characters at most, into a zeroed array of 32.\<close>

definition copy_name :: "u8 list \<Rightarrow> u8 list" where
  "copy_name nm = (let c = take 31 (takeWhile (\<lambda>b. b \<noteq> 0) nm) in c @ replicate (32 - length c) 0)"

text \<open>The initialisation of the fields of a new thread, and its entry in the thread table.\<close>

definition thread_setup :: "u64 \<Rightarrow> u64 \<Rightarrow> u8 list \<Rightarrow> u64 \<Rightarrow> u64 \<Rightarrow> u8 \<Rightarrow> sched \<Rightarrow> sched" where
  "thread_setup t stack_pages nm entry arg prio s =
     (let s = upd t (\<lambda>x. x\<lparr>tid := next_tid s\<rparr>) s;
          s = s\<lparr>next_tid := next_tid s + 1\<rparr>;
          s = upd t (\<lambda>x. x\<lparr>t_name := copy_name nm\<rparr>) s;
          s = upd t (\<lambda>x. x\<lparr>t_entry := entry, t_arg := arg\<rparr>) s;
          s = upd t (\<lambda>x. x\<lparr>kernel_stack_base := stack_pages + hhdm s,
                          kernel_stack_size := KERNEL_STACK_SIZE\<rparr>) s;
          s = upd t (\<lambda>x. x\<lparr>priority := prio, base_priority := prio,
                          time_slice_length := calculate_time_slice prio,
                          time_slice := calculate_time_slice prio\<rparr>) s;
          s = upd t (\<lambda>x. x\<lparr>history_index := 0, avg_cpu_usage := 50,
                          cpu_usage_history := replicate CPU_HISTORY_SAMPLES 50\<rparr>) s
      in thread_init_stack t s)"

definition thread_register :: "u64 \<Rightarrow> sched \<Rightarrow> sched" where
  "thread_register t s =
     (case first_index (\<lambda>i. all_threads s ! i = 0) MAX_THREADS of
        None \<Rightarrow> s
      | Some i \<Rightarrow> s\<lparr>all_threads := (all_threads s)[i := t]\<rparr>)"

definition thread_create_priority ::
  "u8 list \<Rightarrow> u64 \<Rightarrow> u64 \<Rightarrow> u8 \<Rightarrow> sched \<Rightarrow> u64 \<times> sched" where
  "thread_create_priority nm entry arg prio s =
     (let prio = (if PRIORITY_LEVELS \<le> prio then PRIORITY_NORMAL else prio)
      in case physical_alloc_page (spmm s) of
           (thread_page, p) \<Rightarrow>
             let s = s\<lparr>spmm := p\<rparr>
             in if thread_page = 0 then (0, s)
                else
                  let t = thread_page + hhdm s;
                      s = upd t (\<lambda>_. zero_thread) s
                  in case physical_alloc_pages (spmm s) (KERNEL_STACK_SIZE div 4096) of
                       (stack_pages, p) \<Rightarrow>
                         let s = s\<lparr>spmm := p\<rparr>
                         in if stack_pages = 0
                            then (0, s\<lparr>spmm := physical_free_page (spmm s) thread_page\<rparr>)
                            else
                              let s = thread_setup t stack_pages nm entry arg prio s;
                                  s = thread_register t s
                              in (t, upd t (\<lambda>x. x\<lparr>t_state := THREAD_STATE_CREATED\<rparr>) s))"

definition thread_create :: "u8 list \<Rightarrow> u64 \<Rightarrow> u64 \<Rightarrow> sched \<Rightarrow> u64 \<times> sched" where
  "thread_create nm entry arg s = thread_create_priority nm entry arg PRIORITY_NORMAL s"

definition thread_set_priority :: "u64 \<Rightarrow> u8 \<Rightarrow> sched \<Rightarrow> sched" where
  "thread_set_priority t prio s =
     (if t \<noteq> 0 \<and> prio < PRIORITY_LEVELS
      then upd t (\<lambda>x. x\<lparr>priority := prio, time_slice_length := calculate_time_slice prio\<rparr>) s
      else s)"

definition gdt_set_kernel_stack :: "u64 \<Rightarrow> sched \<Rightarrow> sched" where
  "gdt_set_kernel_stack stack s = s\<lparr>tss_rsp0 := stack\<rparr>"

definition thread_set_current :: "u64 \<Rightarrow> sched \<Rightarrow> sched" where
  "thread_set_current t s =
     (if t \<noteq> 0
      then gdt_set_kernel_stack (kernel_stack_base (heap s t) + kernel_stack_size (heap s t)) s
      else s)"

definition thread_current :: "sched \<Rightarrow> u64" where
  "thread_current s = current_thread s"

definition thread_get_tid :: "sched \<Rightarrow> u32" where
  "thread_get_tid s = (let curr = thread_current s in if curr \<noteq> 0 then tid (heap s curr) else 0)"

definition thread_get_by_id :: "u32 \<Rightarrow> sched \<Rightarrow> u64" where
  "thread_get_by_id i s =
     (case find (\<lambda>t. t \<noteq> 0 \<and> tid (heap s t) = i) (take MAX_THREADS (all_threads s)) of
        None \<Rightarrow> 0
      | Some t \<Rightarrow> t)"

fun thread_state_name :: "thread_state_t \<Rightarrow> string" where
  "thread_state_name THREAD_STATE_CREATED = ''CREATED''"
| "thread_state_name THREAD_STATE_READY = ''READY''"
| "thread_state_name THREAD_STATE_RUNNING = ''RUNNING''"
| "thread_state_name THREAD_STATE_BLOCKED = ''BLOCKED''"
| "thread_state_name THREAD_STATE_SLEEPING = ''SLEEPING''"
| "thread_state_name THREAD_STATE_TERMINATED = ''TERMINATED''"

definition thread_priority_name :: "u8 \<Rightarrow> string" where
  "thread_priority_name p =
     (if p = PRIORITY_REALTIME then ''REALTIME''
      else if p = PRIORITY_HIGH then ''HIGH''
      else if p = PRIORITY_ABOVE_NORMAL then ''ABOVE_NORMAL''
      else if p = PRIORITY_NORMAL then ''NORMAL''
      else if p = PRIORITY_BELOW_NORMAL then ''BELOW_NORMAL''
      else if p = PRIORITY_LOW then ''LOW''
      else if p = PRIORITY_IDLE then ''IDLE''
      else ''UNKNOWN'')"

definition thread_init :: "sched \<Rightarrow> sched" where
  "thread_init s = s\<lparr>all_threads := replicate MAX_THREADS 0\<rparr>"

section \<open>Context switching\<close>

text \<open>The eight words below a stack pointer that a saved context occupies.\<close>

definition frame :: "u64 \<Rightarrow> u64 set" where
  "frame sp = {sp - 8, sp - 16, sp - 24, sp - 32, sp - 40, sp - 48, sp - 56, sp - 64}"

lemma save_context_spec:
  "t_rsp (heap (save_context ret a s) a) = rsp (scpu s) - 64"
  "b \<noteq> a \<Longrightarrow> heap (save_context ret a s) b = heap s b"
  "kstack (save_context ret a s) =
     (let sp = rsp (scpu s); c = scpu s
      in (kstack s)(sp - 8 := ret, sp - 16 := rflags c, sp - 24 := rbp c, sp - 32 := rbx c,
           sp - 40 := r12 c, sp - 48 := r13 c, sp - 56 := r14 c, sp - 64 := r15 c))"
  by (simp_all add: save_context_def push_def Let_def)

lemma load_context_spec:
  assumes "t_rsp (heap s b) = sp - 64"
  shows "scpu (load_context b s) =
     \<lparr>rip = kstack s (sp - 8), rsp = sp, rflags = kstack s (sp - 16) OR 0x200, rbp = kstack s (sp - 24),
      rbx = kstack s (sp - 32), r12 = kstack s (sp - 40), r13 = kstack s (sp - 48),
      r14 = kstack s (sp - 56), r15 = kstack s (sp - 64)\<rparr>"
  using assms by (simp add: load_context_def pop_def Let_def)

lemma load_context_frame:
  "heap (load_context b s) = heap s" "kstack (load_context b s) = kstack s"
  by (simp_all add: load_context_def pop_def Let_def)

lemma kstack_save_other: "x \<notin> frame (rsp (scpu s)) \<Longrightarrow> kstack (save_context ret a s) x = kstack s x"
  by (simp add: save_context_spec(3) frame_def Let_def)

lemma kstack_save:
  "kstack (save_context ret a s) (rsp (scpu s) - 8) = ret"
  "kstack (save_context ret a s) (rsp (scpu s) - 16) = rflags (scpu s)"
  "kstack (save_context ret a s) (rsp (scpu s) - 24) = rbp (scpu s)"
  "kstack (save_context ret a s) (rsp (scpu s) - 32) = rbx (scpu s)"
  "kstack (save_context ret a s) (rsp (scpu s) - 40) = r12 (scpu s)"
  "kstack (save_context ret a s) (rsp (scpu s) - 48) = r13 (scpu s)"
  "kstack (save_context ret a s) (rsp (scpu s) - 56) = r14 (scpu s)"
  "kstack (save_context ret a s) (rsp (scpu s) - 64) = r15 (scpu s)"
  by (simp_all add: save_context_spec(3) Let_def)

text \<open>A saved context comes back when the thread is resumed.\<close>

lemma context_resume:
  assumes "t_rsp (heap s' a) = rsp (scpu s) - 64"
    and "\<And>x. x \<in> frame (rsp (scpu s)) \<Longrightarrow> kstack s' x = kstack (save_context ret a s) x"
  shows "scpu (load_context a s') = (scpu s)\<lparr>rip := ret, rflags := rflags (scpu s) OR 0x200\<rparr>"
  using assms(2) by (simp add: load_context_spec [OF assms(1)] frame_def kstack_save)

section \<open>Creation: effect\<close>

lemma init_stack_words:
  fixes top :: u64
  assumes "k = f(top - 8 := w, top - 16 := 0x202, top - 24 := 0, top - 32 := 0,
                top - 40 := 0, top - 48 := 0, top - 56 := 0, top - 64 := 0)"
  shows "k (top - 8) = w" "k (top - 16) = 0x202" "k (top - 24) = 0" "k (top - 32) = 0"
    "k (top - 40) = 0" "k (top - 48) = 0" "k (top - 56) = 0" "k (top - 64) = 0"
  by (simp_all add: assms)

lemma stack_page_count: "KERNEL_STACK_SIZE div 4096 = 2"
  by (simp add: KERNEL_STACK_SIZE_def)

definition clamp_priority :: "u8 \<Rightarrow> u8" where
  "clamp_priority prio = (if PRIORITY_LEVELS \<le> prio then PRIORITY_NORMAL else prio)"

lemma clamp_priority_less: "clamp_priority prio < PRIORITY_LEVELS"
  by (simp add: clamp_priority_def PRIORITY_NORMAL_def PRIORITY_LEVELS_def not_le)

text \<open>What \<open>thread_setup\<close> leaves in the struct, as far as later proofs use it.\<close>

lemma thread_setup_fields:
  assumes "s' = thread_setup t st nm entry arg prio s"
  shows "spmm s' = spmm s" "hhdm s' = hhdm s" "next_tid s' = next_tid s + 1" "all_threads s' = all_threads s"
    and "\<And>x. x \<noteq> t \<Longrightarrow> heap s' x = heap s x"
    and "tid (heap s' t) = next_tid s" "priority (heap s' t) = prio" "base_priority (heap s' t) = prio"
    and "time_slice_length (heap s' t) = calculate_time_slice prio"
    and "t_entry (heap s' t) = entry" "t_arg (heap s' t) = arg"
    and "kernel_stack_base (heap s' t) = st + hhdm s" "kernel_stack_size (heap s' t) = KERNEL_STACK_SIZE"
    and "t_rsp (heap s' t) = st + hhdm s + KERNEL_STACK_SIZE - 64"
    and "t_next (heap s' t) = t_next (heap s t)" "t_prev (heap s' t) = t_prev (heap s t)"
    and "kstack s' = (let top = st + hhdm s + KERNEL_STACK_SIZE in
          (kstack s)(top - 8 := entry_wrapper s, top - 16 := 0x202, top - 24 := 0, top - 32 := 0,
                top - 40 := 0, top - 48 := 0, top - 56 := 0, top - 64 := 0))"
  unfolding assms by (simp_all add: thread_setup_def thread_init_stack_def Let_def)

lemma thread_register_fields [simp]:
  "spmm (thread_register t s) = spmm s" "hhdm (thread_register t s) = hhdm s"
  "heap (thread_register t s) = heap s" "kstack (thread_register t s) = kstack s"
  "next_tid (thread_register t s) = next_tid s"
  by (simp_all add: thread_register_def split: option.split)

lemma thread_create_cases:
  assumes "physical_alloc_page (spmm s) = (pg, p1)"
    and "physical_alloc_pages p1 2 = (st, p2)"
  shows "pg = 0 \<Longrightarrow> thread_create_priority nm entry arg prio s = (0, s\<lparr>spmm := p1\<rparr>)"
    and "pg \<noteq> 0 \<Longrightarrow> st = 0 \<Longrightarrow> thread_create_priority nm entry arg prio s =
      (0, upd (pg + hhdm s) (\<lambda>_. zero_thread) (s\<lparr>spmm := physical_free_page p2 pg\<rparr>))"
    and "pg \<noteq> 0 \<Longrightarrow> st \<noteq> 0 \<Longrightarrow> thread_create_priority nm entry arg prio s =
      (pg + hhdm s, upd (pg + hhdm s) (\<lambda>x. x\<lparr>t_state := THREAD_STATE_CREATED\<rparr>)
         (thread_register (pg + hhdm s)
           (thread_setup (pg + hhdm s) st nm entry arg (clamp_priority prio)
             ((upd (pg + hhdm s) (\<lambda>_. zero_thread) s)\<lparr>spmm := p2\<rparr>))))"
  using assms
  by (simp_all add: thread_create_priority_def stack_page_count clamp_priority_def Let_def)

lemma new_thread_context:
  assumes "s' = thread_setup t st nm entry arg prio s"
  shows "scpu (load_context t s') =
     \<lparr>rip = entry_wrapper s, rsp = st + hhdm s + KERNEL_STACK_SIZE, rflags = 0x202, rbp = 0, rbx = 0,
      r12 = 0, r13 = 0, r14 = 0, r15 = 0\<rparr>"
  using thread_setup_fields(14,17) [OF assms]
  by (simp add: load_context_spec [of s' t "st + hhdm s + KERNEL_STACK_SIZE"] Let_def)

lemma load_context_cong:
  assumes "t_rsp (heap s' t) = t_rsp (heap s t)" and "kstack s' = kstack s"
  shows "scpu (load_context t s') = scpu (load_context t s)"
  using load_context_spec [of s t "t_rsp (heap s t) + 64"]
    load_context_spec [of s' t "t_rsp (heap s t) + 64"] assms by simp

section \<open>Properties\<close>

definition sample_sched :: sched where
  "sample_sched = \<lparr>heap = (\<lambda>_. zero_thread), kstack = (\<lambda>_. 0),
     scpu = \<lparr>rip = 0x1000, rsp = 0x9000, rflags = 0x202, rbp = 1, rbx = 2, r12 = 3, r13 = 4, r14 = 5,
       r15 = 6\<rparr>,
     tss_rsp0 = 0, spmm = sample_pmm, hhdm = 0xffff800000000000, entry_wrapper = 0xffffffff80001000,
     ret_switch_to = 0xffffffff80002000, ret_scheduler_start = 0xffffffff80003000,
     bootstrap_thread = 0xffffffff80100000, all_threads = replicate MAX_THREADS 0, next_tid = 1, ready_queue_heads = (\<lambda>_. 0),
     ready_queue_tails = (\<lambda>_. 0), sleep_queue = 0, blocked_queue = 0, idle_thread = 0,
     current_thread = 0, stats = zero_stats, scheduler_running = False, need_reschedule = False,
     ticks = 0, pic_eois = 0\<rparr>"

text \<open>
  C7. A context switch is invisible to the thread that is switched away: when thread \<open>a\<close> calls
  \<open>context_switch\<close>, and some other thread \<open>b\<close> later switches back to \<open>a\<close> after running code that
  left \<open>a\<close>'s saved stack pointer and the eight words below \<open>a\<close>'s stack pointer alone, \<open>a\<close> continues
  at its return address with every callee-saved register, the stack pointer and the flags it had,
  interrupts enabled.
\<close>

theorem context_switch_transparent:
  assumes "s1 = context_switch ret a b s" and "a \<noteq> b"
    and "t_rsp (heap s2 a) = t_rsp (heap s1 a)"
    and "\<forall>x\<in>frame (rsp (scpu s)). kstack s2 x = kstack s1 x"
    and "frame (rsp (scpu s2)) \<inter> frame (rsp (scpu s)) = {}"
  shows "scpu (context_switch ret' b a s2) =
     (scpu s)\<lparr>rip := ret, rflags := rflags (scpu s) OR 0x200\<rparr>"
  unfolding context_switch_def
proof (rule context_resume)
  show "t_rsp (heap (save_context ret' b s2) a) = rsp (scpu s) - 64"
    using assms(1-3) by (simp add: context_switch_def load_context_frame save_context_spec)
  fix x assume x: "x \<in> frame (rsp (scpu s))"
  with assms(5) have "x \<notin> frame (rsp (scpu s2))" by auto
  with x assms(1,4) show "kstack (save_context ret' b s2) x = kstack (save_context ret a s) x"
    by (simp add: kstack_save_other context_switch_def load_context_frame)
qed

theorem context_switch_transparent_witness:
  "scpu (context_switch 0x77 2 1
     ((context_switch 0x55 1 2 sample_sched)\<lparr>scpu := (scpu sample_sched)\<lparr>rsp := 0x5000\<rparr>\<rparr>)) =
   (scpu sample_sched)\<lparr>rip := 0x55\<rparr>"
proof -
  let ?s2 = "(context_switch 0x55 1 2 sample_sched)\<lparr>scpu := (scpu sample_sched)\<lparr>rsp := 0x5000\<rparr>\<rparr>"
  have "frame (rsp (scpu ?s2)) \<inter> frame (rsp (scpu sample_sched)) = {}"
    by (simp add: frame_def sample_sched_def)
  from context_switch_transparent [OF refl _ _ _ this, of 1 2 "0x55" "0x77"]
  show ?thesis by (simp add: sample_sched_def)
qed

text \<open>
  A new thread can run: on success \<open>thread_create_priority\<close> returns a struct and a kernel
  stack in pages nobody else owns, with a valid priority and the next thread id, changes no other
  thread, and the first context switch to it enters \<open>thread_entry_wrapper\<close> at the top of its stack
  with interrupts enabled.
\<close>

theorem thread_create_runnable:
  assumes "pmm_wf (spmm s)" and "thread_create_priority nm entry arg prio s = (t, s')" and "t \<noteq> 0"
  shows "\<exists>pg st. t = pg + hhdm s \<and> kernel_stack_base (heap s' t) = st + hhdm s \<and>
       page_range pg 1 \<inter> page_range st 2 = {} \<and>
       owned_pages (spmm s) \<inter> (page_range pg 1 \<union> page_range st 2) = {} \<and>
       owned_pages (spmm s') = owned_pages (spmm s) \<union> page_range pg 1 \<union> page_range st 2 \<and>
       pmm_wf (spmm s') \<and>
       t_state (heap s' t) = THREAD_STATE_CREATED \<and> tid (heap s' t) = next_tid s \<and>
       priority (heap s' t) < PRIORITY_LEVELS \<and> t_entry (heap s' t) = entry \<and> t_arg (heap s' t) = arg \<and>
       (\<forall>x. x \<noteq> t \<longrightarrow> heap s' x = heap s x) \<and>
       scpu (load_context t s') =
         \<lparr>rip = entry_wrapper s, rsp = kernel_stack_base (heap s' t) + KERNEL_STACK_SIZE,
          rflags = 0x202, rbp = 0, rbx = 0, r12 = 0, r13 = 0, r14 = 0, r15 = 0\<rparr>"
proof -
  obtain pg p1 where pg: "physical_alloc_page (spmm s) = (pg, p1)" by fastforce
  obtain st p2 where st: "physical_alloc_pages p1 2 = (st, p2)" by fastforce
  note tc = thread_create_cases [OF pg st, of nm entry arg prio]
  from tc assms(2,3) have nz: "pg \<noteq> 0" "st \<noteq> 0" by fastforce+
  let ?s0 = "(upd (pg + hhdm s) (\<lambda>_. zero_thread) s)\<lparr>spmm := p2\<rparr>"
  let ?s1 = "thread_setup (pg + hhdm s) st nm entry arg (clamp_priority prio) ?s0"
  from tc(3) [OF nz] assms(2) have t: "t = pg + hhdm s"
    and s': "s' = upd t (\<lambda>x. x\<lparr>t_state := THREAD_STATE_CREATED\<rparr>) (thread_register t ?s1)" by simp_all
  note f = thread_setup_fields [OF refl [of ?s1]]
  have heap: "heap s' = (heap ?s1)(t := (heap ?s1 t)\<lparr>t_state := THREAD_STATE_CREATED\<rparr>)" by (simp add: s')
  have ctx: "scpu (load_context t s') = scpu (load_context t ?s1)"
    by (intro load_context_cong) (simp_all add: heap, simp add: s')
  have pg': "physical_alloc_pages (spmm s) 1 = (pg, p1)" using pg physical_alloc_page_eq [OF assms(1)] by simp
  note a1 = pages.alloc_success [OF assms(1) pg' nz(1)]
  note a2 = pages.alloc_success [OF conjunct1 [OF a1] st nz(2)]
  have pm: "spmm s' = p2" using f(1) by (simp add: s')
  have "(\<forall>x. x \<noteq> t \<longrightarrow> heap s' x = heap s x)" using f(5) by (simp add: heap t)
  moreover have "t_state (heap s' t) = THREAD_STATE_CREATED" "tid (heap s' t) = next_tid s"
    "priority (heap s' t) < PRIORITY_LEVELS" "t_entry (heap s' t) = entry" "t_arg (heap s' t) = arg"
    "kernel_stack_base (heap s' t) = st + hhdm s"
    using f clamp_priority_less [of prio] by (simp_all add: heap t)
  moreover have "scpu (load_context t s') = \<lparr>rip = entry_wrapper s, rsp = st + hhdm s + KERNEL_STACK_SIZE,
      rflags = 0x202, rbp = 0, rbx = 0, r12 = 0, r13 = 0, r14 = 0, r15 = 0\<rparr>"
    using ctx new_thread_context [OF refl [of ?s1]] by (simp add: t)
  moreover have "page_range pg 1 \<inter> page_range st 2 = {}"
    "owned_pages (spmm s) \<inter> (page_range pg 1 \<union> page_range st 2) = {}"
    "owned_pages p2 = owned_pages (spmm s) \<union> page_range pg 1 \<union> page_range st 2" "pmm_wf p2"
    using a1 a2 by auto
  ultimately show ?thesis using t pm by auto
qed

theorem thread_create_runnable_witness:
  "rip (scpu (load_context (fst (thread_create_priority [0x69] 0x400000 0 9 sample_sched))
     (snd (thread_create_priority [0x69] 0x400000 0 9 sample_sched)))) = 0xffffffff80001000"
proof -
  let ?r = "thread_create_priority [0x69] 0x400000 0 9 sample_sched"
  have wf: "pmm_wf (spmm sample_sched)" by (simp add: sample_sched_def)
  have ne: "fst ?r \<noteq> 0" by code_simp
  have eq: "?r = (fst ?r, snd ?r)" by simp
  have "entry_wrapper sample_sched = 0xffffffff80001000" by (simp add: sample_sched_def)
  with thread_create_runnable [OF wf eq ne] show ?thesis by auto
qed

text \<open>
  A failed creation leaks nothing: when there is no page for the struct or no run of two pages
  for the stack, \<open>thread_create_priority\<close> returns NULL with the page allocator owning exactly the
  pages it owned before, the thread table and the next thread id unchanged.
\<close>

theorem thread_create_failure_no_leak:
  assumes "pmm_wf (spmm s)" and "thread_create_priority nm entry arg prio s = (0, s')"
    and "fst (physical_alloc_page (spmm s)) + hhdm s \<noteq> 0"
  shows "pmm_wf (spmm s') \<and> owned_pages (spmm s') = owned_pages (spmm s) \<and>
     all_threads s' = all_threads s \<and> next_tid s' = next_tid s"
proof -
  obtain pg p1 where pg: "physical_alloc_page (spmm s) = (pg, p1)" by fastforce
  obtain st p2 where st: "physical_alloc_pages p1 2 = (st, p2)" by fastforce
  note tc = thread_create_cases [OF pg st, of nm entry arg prio]
  have pg': "physical_alloc_pages (spmm s) 1 = (pg, p1)" using pg physical_alloc_page_eq [OF assms(1)] by simp
  show ?thesis
  proof (cases "pg = 0")
    case True
    with pages.alloc_failure [OF assms(1)] pg' have "p1 = spmm s" by simp
    with tc(1) True assms show ?thesis by auto
  next
    case False
    from pages.alloc_success [OF assms(1) pg' False] have wf1: "pmm_wf p1" by simp
    have "st = 0" using tc(3) [OF False] assms(2,3) pg by auto
    then have p2: "p2 = p1" using pages.alloc_failure [OF wf1] st by simp
    with tc(2) [OF False \<open>st = 0\<close>] assms(2)
    have s': "s' = upd (pg + hhdm s) (\<lambda>_. zero_thread) (s\<lparr>spmm := physical_free_page p1 pg\<rparr>)" by simp
    show ?thesis
      using pages.alloc_free_restores [OF assms(1) pg' False] physical_free_page_eq [OF wf1]
      by (simp add: s')
  qed
qed

theorem thread_create_failure_no_leak_witness:
  "owned_pages (spmm (snd (thread_create [0x69] 0x400000 0
     (sample_sched\<lparr>spmm := snd (physical_alloc_pages sample_pmm 12)\<rparr>)))) =
   owned_pages (snd (physical_alloc_pages sample_pmm 12))"
proof -
  let ?s = "sample_sched\<lparr>spmm := snd (physical_alloc_pages sample_pmm 12)\<rparr>"
  let ?r = "thread_create_priority [0x69] 0x400000 0 PRIORITY_NORMAL ?s"
  have "physical_alloc_pages sample_pmm 12 = (0x103000, snd (physical_alloc_pages sample_pmm 12))"
    by code_simp
  from pages.alloc_inv [OF sample_pmm_wf this] have wf: "pmm_wf (spmm ?s)" by simp
  have "fst ?r = 0" by code_simp
  then have eq: "?r = (0, snd ?r)" by (simp add: prod_eq_iff)
  have ne: "fst (physical_alloc_page (spmm ?s)) + hhdm ?s \<noteq> 0" by code_simp
  from thread_create_failure_no_leak [OF wf eq ne] show ?thesis by (simp add: thread_create_def)
qed

end
