(* ===== verification/Scheduler.thy ===== *)
theory Scheduler
  imports Thread
begin

text \<open>
  \<^verbatim>\<open>src/sched/scheduler.c\<close>, the operations of \<^verbatim>\<open>thread.c\<close> that call it, and \<^verbatim>\<open>src/timer/timer.c\<close>: the
  priority scheduler. Each C function is a function on the state \<open>sched\<close> of theory \<open>Thread\<close>; the
  queue manipulations run with interrupts disabled, so one call is one atomic step. A function
  that ends in \<open>context_switch\<close> returns the state in which the chosen thread goes on. The two loops
  that follow list pointers are partial functions: \<open>None\<close> stands for a loop that does not end, and
  the properties show that on well-formed queues they do end.
\<close>

section \<open>Queue operations\<close>

definition enqueue_ready :: "u64 \<Rightarrow> sched \<Rightarrow> sched" where
  "enqueue_ready t s =
     (let p = priority (heap s t);
          s = upd t (\<lambda>x. x\<lparr>t_next := 0\<rparr>) s;
          s = upd t (\<lambda>x. x\<lparr>t_prev := ready_queue_tails s p\<rparr>) s;
          s = (if ready_queue_tails s p \<noteq> 0
               then upd (ready_queue_tails s p) (\<lambda>x. x\<lparr>t_next := t\<rparr>) s
               else s\<lparr>ready_queue_heads := (ready_queue_heads s)(p := t)\<rparr>);
          s = s\<lparr>ready_queue_tails := (ready_queue_tails s)(p := t)\<rparr>;
          s = upd t (\<lambda>x. x\<lparr>t_state := THREAD_STATE_READY\<rparr>) s
      in s\<lparr>stats := (stats s)\<lparr>threads_ready := threads_ready (stats s) + 1\<rparr>\<rparr>)"

definition dequeue_ready :: "u8 \<Rightarrow> sched \<Rightarrow> u64 \<times> sched" where
  "dequeue_ready p s =
     (let t = ready_queue_heads s p
      in if t = 0 then (0, s)
         else
           let s = s\<lparr>ready_queue_heads := (ready_queue_heads s)(p := t_next (heap s t))\<rparr>;
               s = (if ready_queue_heads s p \<noteq> 0
                    then upd (ready_queue_heads s p) (\<lambda>x. x\<lparr>t_prev := 0\<rparr>) s
                    else s\<lparr>ready_queue_tails := (ready_queue_tails s)(p := 0)\<rparr>);
               s = upd t (\<lambda>x. x\<lparr>t_next := 0, t_prev := 0\<rparr>) s
           in (t, s\<lparr>stats := (stats s)\<lparr>threads_ready := threads_ready (stats s) - 1\<rparr>\<rparr>))"

definition remove_from_ready :: "u64 \<Rightarrow> sched \<Rightarrow> sched" where
  "remove_from_ready t s =
     (let p = priority (heap s t);
          s = (if t_prev (heap s t) \<noteq> 0
               then upd (t_prev (heap s t)) (\<lambda>x. x\<lparr>t_next := t_next (heap s t)\<rparr>) s
               else s\<lparr>ready_queue_heads := (ready_queue_heads s)(p := t_next (heap s t))\<rparr>);
          s = (if t_next (heap s t) \<noteq> 0
               then upd (t_next (heap s t)) (\<lambda>x. x\<lparr>t_prev := t_prev (heap s t)\<rparr>) s
               else s\<lparr>ready_queue_tails := (ready_queue_tails s)(p := t_prev (heap s t))\<rparr>);
          s = upd t (\<lambda>x. x\<lparr>t_next := 0, t_prev := 0\<rparr>) s
      in s\<lparr>stats := (stats s)\<lparr>threads_ready := threads_ready (stats s) - 1\<rparr>\<rparr>)"

text \<open>The search loop of \<open>enqueue_sleep\<close>: the last node whose successor wakes later.\<close>

partial_function (option) sleep_walk :: "(u64 \<Rightarrow> thread_t) \<Rightarrow> u64 \<Rightarrow> u64 \<Rightarrow> u64 option" where
  "sleep_walk h w prev =
     (if t_next (h prev) \<noteq> 0 \<and> wake_time (h (t_next (h prev))) \<le> w
      then sleep_walk h w (t_next (h prev))
      else Some prev)"

definition enqueue_sleep :: "u64 \<Rightarrow> sched \<Rightarrow> sched option" where
  "enqueue_sleep t s =
     (let s = upd t (\<lambda>x. x\<lparr>t_state := THREAD_STATE_SLEEPING, t_next := 0\<rparr>) s;
          bump = (\<lambda>s. s\<lparr>stats := (stats s)\<lparr>threads_sleeping := threads_sleeping (stats s) + 1\<rparr>\<rparr>)
      in if sleep_queue s = 0 \<or> wake_time (heap s t) < wake_time (heap s (sleep_queue s)) then
           let s = upd t (\<lambda>x. x\<lparr>t_next := sleep_queue s\<rparr>) s
           in Some (bump (s\<lparr>sleep_queue := t\<rparr>))
         else
           case sleep_walk (heap s) (wake_time (heap s t)) (sleep_queue s) of
             None \<Rightarrow> None
           | Some prev \<Rightarrow>
               let s = upd t (\<lambda>x. x\<lparr>t_next := t_next (heap s prev)\<rparr>) s;
                   s = upd prev (\<lambda>x. x\<lparr>t_next := t\<rparr>) s
               in Some (bump s))"

section \<open>Adaptive priority\<close>

definition update_cpu_usage :: "u8 \<Rightarrow> thread_t \<Rightarrow> thread_t" where
  "update_cpu_usage usage_percent t =
     (let t = t\<lparr>cpu_usage_history := (cpu_usage_history t)[history_index t := usage_percent]\<rparr>;
          t = t\<lparr>history_index := (history_index t + 1) mod CPU_HISTORY_SAMPLES\<rparr>;
          sum = fold (\<lambda>i (acc :: u16). acc + ucast (cpu_usage_history t ! i)) [0..<CPU_HISTORY_SAMPLES] 0
      in t\<lparr>avg_cpu_usage := ucast (sum div of_nat CPU_HISTORY_SAMPLES)\<rparr>)"

definition adjust_priority :: "u64 \<Rightarrow> sched \<Rightarrow> sched" where
  "adjust_priority t s =
     (if t = idle_thread s \<or> base_priority (heap s t) = PRIORITY_REALTIME then s
      else
        let old_priority = priority (heap s t);
            s = (if PRIORITY_DEMOTE_THRESHOLD < avg_cpu_usage (heap s t) then
                   if priority (heap s t) < PRIORITY_LOW then
                     (upd t (\<lambda>x. x\<lparr>priority := priority x + 1\<rparr>) s)
                       \<lparr>stats := (stats s)\<lparr>priority_demotions := priority_demotions (stats s) + 1\<rparr>\<rparr>
                   else s
                 else if avg_cpu_usage (heap s t) < PRIORITY_BOOST_THRESHOLD then
                   if base_priority (heap s t) < priority (heap s t) then
                     (upd t (\<lambda>x. x\<lparr>priority := priority x - 1\<rparr>) s)
                       \<lparr>stats := (stats s)\<lparr>priority_boosts := priority_boosts (stats s) + 1\<rparr>\<rparr>
                   else s
                 else s)
        in if priority (heap s t) \<noteq> old_priority
           then upd t (\<lambda>x. x\<lparr>time_slice_length :=
                  TIME_SLICE_BASE_MS + (ucast PRIORITY_LEVELS - ucast (priority x)) * 3\<rparr>) s
           else s)"

section \<open>Choosing and switching\<close>

text \<open>The scan over the priority levels 0 to 6.\<close>

definition pick_next_thread :: "sched \<Rightarrow> u64 \<times> sched" where
  "pick_next_thread s =
     (case first_index (\<lambda>p. ready_queue_heads s (of_nat p) \<noteq> 0) (unat PRIORITY_LEVELS) of
        Some p \<Rightarrow> dequeue_ready (of_nat p) s
      | None \<Rightarrow> (idle_thread s, s))"

definition timer_get_ticks :: "sched \<Rightarrow> u64" where
  "timer_get_ticks s = ticks s"

partial_function (option) wake_loop :: "u64 \<Rightarrow> sched \<Rightarrow> sched option" where
  "wake_loop now s =
     (if sleep_queue s \<noteq> 0 \<and> wake_time (heap s (sleep_queue s)) \<le> now then
        let t = sleep_queue s;
            s = s\<lparr>sleep_queue := t_next (heap s t)\<rparr>;
            s = upd t (\<lambda>x. x\<lparr>t_next := 0\<rparr>) s;
            s = s\<lparr>stats := (stats s)\<lparr>threads_sleeping := threads_sleeping (stats s) - 1\<rparr>\<rparr>
        in wake_loop now (enqueue_ready t s)
      else Some s)"

definition wake_expired_sleepers :: "sched \<Rightarrow> sched option" where
  "wake_expired_sleepers s = wake_loop (timer_get_ticks s) s"

definition switch_to :: "u64 \<Rightarrow> sched \<Rightarrow> sched" where
  "switch_to nxt s =
     (if nxt = current_thread s then s
      else
        let prev = current_thread s;
            s = s\<lparr>current_thread := nxt\<rparr>;
            s = upd nxt (\<lambda>x. x\<lparr>t_state := THREAD_STATE_RUNNING\<rparr>) s;
            s = gdt_set_kernel_stack
                  (kernel_stack_base (heap s nxt) + kernel_stack_size (heap s nxt)) s;
            s = upd nxt (\<lambda>x. x\<lparr>time_slice := time_slice_length x,
                  slice_start_ticks := timer_get_ticks s, ticks_used_this_slice := 0\<rparr>) s;
            s = s\<lparr>stats := (stats s)\<lparr>total_switches := total_switches (stats s) + 1\<rparr>\<rparr>
        in context_switch (ret_switch_to s) prev nxt s)"

definition schedule :: "sched \<Rightarrow> sched" where
  "schedule s =
     (case pick_next_thread s of
        (nxt, s) \<Rightarrow> if nxt \<noteq> current_thread s then switch_to nxt s else s)"

section \<open>Public operations\<close>

definition scheduler_init :: "u64 \<Rightarrow> sched \<Rightarrow> sched" where
  "scheduler_init idle_entry s =
     (let s = s\<lparr>ready_queue_heads := (\<lambda>_. 0), ready_queue_tails := (\<lambda>_. 0), sleep_queue := 0,
               blocked_queue := 0, stats := zero_stats\<rparr>;
          s = thread_init s
      in case thread_create_priority [0x69, 0x64, 0x6C, 0x65, 0] idle_entry 0 PRIORITY_IDLE s of
           (t, s) \<Rightarrow>
             let s = s\<lparr>idle_thread := t\<rparr>
             in if t = 0 then s else upd t (\<lambda>x. x\<lparr>t_state := THREAD_STATE_READY\<rparr>) s)"

definition scheduler_add :: "u64 \<Rightarrow> sched \<Rightarrow> sched" where
  "scheduler_add t s = (if t = 0 then s else enqueue_ready t s)"

definition scheduler_remove :: "u64 \<Rightarrow> sched \<Rightarrow> sched" where
  "scheduler_remove t s =
     (if t = 0 then s
      else if t_state (heap s t) = THREAD_STATE_READY then remove_from_ready t s else s)"

text \<open>
  The usage of the slice in percent, cut to eight bits. With a slice length of zero the C code faults at the division, and this
  definition gives 0; \<open>scheduler_yield\<close> tests the length, and the slice of a thread with a valid priority is
  never empty (\<open>prio_ok_slice\<close>).
\<close>

definition slice_usage :: "thread_t \<Rightarrow> u8" where
  "slice_usage t = ucast (ticks_used_this_slice t * 100 div ucast (time_slice_length t))"

definition tick_account :: "sched \<Rightarrow> sched" where
  "tick_account s =
     (let c = current_thread s;
          s = upd c (\<lambda>x. x\<lparr>total_ticks := total_ticks x + 1,
                ticks_used_this_slice := ticks_used_this_slice x + 1\<rparr>) s
      in if 0 < time_slice (heap s c)
         then upd c (\<lambda>x. x\<lparr>time_slice := time_slice x - 1\<rparr>) s else s)"

definition tick_expire :: "sched \<Rightarrow> sched" where
  "tick_expire s =
     (let c = current_thread s;
          usage = slice_usage (heap s c);
          usage = (if 100 < usage then 100 else usage);
          s = upd c (update_cpu_usage usage) s;
          s = adjust_priority c s;
          s = enqueue_ready c s
      in s\<lparr>need_reschedule := True\<rparr>)"

definition tick_current :: "sched \<Rightarrow> sched" where
  "tick_current s =
     (let s = tick_account s
      in if time_slice (heap s (current_thread s)) = 0 \<and> current_thread s \<noteq> idle_thread s
         then tick_expire s else s)"

definition scheduler_tick :: "sched \<Rightarrow> sched option" where
  "scheduler_tick s =
     (if \<not> scheduler_running s \<or> current_thread s = 0 then Some s
      else
        let s = (if current_thread s = idle_thread s
                 then s\<lparr>stats := (stats s)\<lparr>idle_ticks := idle_ticks (stats s) + 1\<rparr>\<rparr> else s)
        in map_option tick_current (wake_expired_sleepers s))"

definition scheduler_yield :: "sched \<Rightarrow> sched" where
  "scheduler_yield s =
     (if \<not> scheduler_running s \<or> current_thread s = 0 then s
      else
        let s = s\<lparr>need_reschedule := False\<rparr>;
            c = current_thread s;
            s = (if c \<noteq> idle_thread s \<and> 0 < time_slice_length (heap s c)
                 then adjust_priority c (upd c (update_cpu_usage (slice_usage (heap s c))) s)
                 else s);
            s = (if t_state (heap s c) \<noteq> THREAD_STATE_TERMINATED then enqueue_ready c s else s)
        in schedule s)"

definition scheduler_block :: "u64 \<Rightarrow> sched \<Rightarrow> sched" where
  "scheduler_block t s =
     (let s = upd t (\<lambda>x. x\<lparr>t_state := THREAD_STATE_BLOCKED\<rparr>) s;
          s = s\<lparr>stats := (stats s)\<lparr>threads_blocked := threads_blocked (stats s) + 1\<rparr>\<rparr>
      in if t = current_thread s then schedule s else s)"

definition scheduler_unblock :: "u64 \<Rightarrow> sched \<Rightarrow> sched" where
  "scheduler_unblock t s =
     (if t_state (heap s t) = THREAD_STATE_BLOCKED
      then enqueue_ready t
             (s\<lparr>stats := (stats s)\<lparr>threads_blocked := threads_blocked (stats s) - 1\<rparr>\<rparr>)
      else s)"

definition scheduler_sleep :: "u64 \<Rightarrow> u64 \<Rightarrow> sched \<Rightarrow> sched option" where
  "scheduler_sleep t w s =
     (case enqueue_sleep t (upd t (\<lambda>x. x\<lparr>wake_time := w\<rparr>) s) of
        None \<Rightarrow> None
      | Some s \<Rightarrow> Some (if t = current_thread s then schedule s else s))"

definition scheduler_start :: "sched \<Rightarrow> sched" where
  "scheduler_start s =
     (let s = s\<lparr>scheduler_running := True\<rparr>
      in case pick_next_thread s of
           (first, s) \<Rightarrow>
             let first = (if first = 0 then idle_thread s else first);
                 s = upd first (\<lambda>x. x\<lparr>t_state := THREAD_STATE_RUNNING\<rparr>) s;
                 s = s\<lparr>current_thread := first\<rparr>;
                 s = upd first (\<lambda>x. x\<lparr>slice_start_ticks := timer_get_ticks s\<rparr>) s;
                 s = gdt_set_kernel_stack
                       (kernel_stack_base (heap s first) + kernel_stack_size (heap s first)) s;
                 s = upd (bootstrap_thread s) (\<lambda>_. zero_thread) s
             in context_switch (ret_scheduler_start s) (bootstrap_thread s) first s)"

definition scheduler_is_running :: "sched \<Rightarrow> bool" where
  "scheduler_is_running s = scheduler_running s"

definition scheduler_get_stats :: "sched \<Rightarrow> scheduler_stats_t" where
  "scheduler_get_stats s = stats s"

text \<open>Operations of \<^verbatim>\<open>thread.c\<close> on the current thread. \<open>thread_exit\<close> does not return.\<close>

definition thread_yield :: "sched \<Rightarrow> sched" where
  "thread_yield s = scheduler_yield s"

definition thread_exit :: "sched \<Rightarrow> sched" where
  "thread_exit s =
     (let t = thread_current s
      in if t \<noteq> 0 then thread_yield (upd t (\<lambda>x. x\<lparr>t_state := THREAD_STATE_TERMINATED\<rparr>) s) else s)"

definition thread_sleep_ms :: "u32 \<Rightarrow> sched \<Rightarrow> sched option" where
  "thread_sleep_ms ms s =
     (let t = thread_current s
      in if t \<noteq> 0 then scheduler_sleep t (timer_get_ticks s + ucast ms) s else Some s)"

section \<open>Timer\<close>

definition TIMER_FREQUENCY_HZ :: u64 where "TIMER_FREQUENCY_HZ = 1000"

definition timer_irq_handler :: "sched \<Rightarrow> sched option" where
  "timer_irq_handler s =
     map_option (\<lambda>s. s\<lparr>pic_eois := pic_eois s + 1\<rparr>) (scheduler_tick (s\<lparr>ticks := ticks s + 1\<rparr>))"

definition timer_get_seconds :: "sched \<Rightarrow> u32" where
  "timer_get_seconds s = ucast (ticks s div TIMER_FREQUENCY_HZ)"

section \<open>Well-formed queues\<close>

abbreviation nxt :: "sched \<Rightarrow> u64 \<Rightarrow> u64" where
  "nxt s \<equiv> (\<lambda>t. t_next (heap s t))"

abbreviation prv :: "sched \<Rightarrow> u64 \<Rightarrow> u64" where
  "prv s \<equiv> (\<lambda>t. t_prev (heap s t))"

abbreviation wake :: "sched \<Rightarrow> u64 \<Rightarrow> u64" where
  "wake s \<equiv> (\<lambda>t. wake_time (heap s t))"

text \<open>
  \<open>queue_ok s p ts\<close>: the ready queue of priority \<open>p\<close> holds exactly the threads \<open>ts\<close>, in that order.
  \<open>sleep_ok s ts\<close>: the sleep queue holds \<open>ts\<close>, ordered by wake time.
  \<open>sched_inv s rq sl\<close>: the ready queues hold \<open>rq\<close>, the sleep queue holds \<open>sl\<close>, and the two counters
  of the statistics agree. This relates the pointer structure to an abstract scheduler state
  \<open>(rq, sl)\<close> of lists. That a thread is in one queue only follows: the members of the queue of
  priority \<open>p\<close> have priority \<open>p\<close> and are ready, and those of the sleep queue are sleeping.
\<close>

definition queue_ok :: "sched \<Rightarrow> u8 \<Rightarrow> u64 list \<Rightarrow> bool" where
  "queue_ok s p ts \<longleftrightarrow> distinct ts \<and> dll (nxt s) (prv s) 0 ts \<and>
     ready_queue_heads s p = hd0 ts \<and> ready_queue_tails s p = last0 ts \<and>
     (\<forall>t\<in>set ts. priority (heap s t) = p \<and> t_state (heap s t) = THREAD_STATE_READY)"

fun sll :: "('a::zero \<Rightarrow> 'a) \<Rightarrow> 'a list \<Rightarrow> bool" where
  "sll nx [] \<longleftrightarrow> True"
| "sll nx (x # xs) \<longleftrightarrow> x \<noteq> 0 \<and> nx x = hd0 xs \<and> sll nx xs"

definition sleep_ok :: "sched \<Rightarrow> u64 list \<Rightarrow> bool" where
  "sleep_ok s ts \<longleftrightarrow> distinct ts \<and> sll (nxt s) ts \<and> sleep_queue s = hd0 ts \<and>
     sorted (map (wake s) ts) \<and>
     (\<forall>t\<in>set ts. t_state (heap s t) = THREAD_STATE_SLEEPING \<and> priority (heap s t) < PRIORITY_LEVELS)"

definition ready_count :: "(u8 \<Rightarrow> u64 list) \<Rightarrow> nat" where
  "ready_count rq = (\<Sum>p\<in>UNIV. length (rq p))"

definition sched_inv :: "sched \<Rightarrow> (u8 \<Rightarrow> u64 list) \<Rightarrow> u64 list \<Rightarrow> bool" where
  "sched_inv s rq sl \<longleftrightarrow>
     (\<forall>p. queue_ok s p (rq p)) \<and> (\<forall>p. rq p \<noteq> [] \<longrightarrow> p < PRIORITY_LEVELS) \<and> sleep_ok s sl \<and>
     threads_ready (stats s) = of_nat (ready_count rq) \<and>
     threads_sleeping (stats s) = of_nat (length sl)"

definition queued :: "(u8 \<Rightarrow> u64 list) \<Rightarrow> u64 list \<Rightarrow> u64 set" where
  "queued rq sl = (\<Union>p. set (rq p)) \<union> set sl"

lemma not_queued: "t \<notin> queued rq sl \<longleftrightarrow> (\<forall>p. t \<notin> set (rq p)) \<and> t \<notin> set sl"
  by (auto simp: queued_def)

lemma sll_nonzero: "sll nx xs \<Longrightarrow> 0 \<notin> set xs"
  by (induction xs) auto

lemma sll_cong:
  assumes "sll nx xs" and "\<And>x. x \<in> set xs \<Longrightarrow> nx' x = nx x"
  shows "sll nx' xs"
  using assms by (induction xs) auto

lemma sched_inv_queue: "sched_inv s rq sl \<Longrightarrow> queue_ok s p (rq p)"
  by (simp add: sched_inv_def)

lemma sched_inv_member:
  assumes "sched_inv s rq sl" and "t \<in> set (rq p)"
  shows "priority (heap s t) = p" and "t_state (heap s t) = THREAD_STATE_READY" and "t \<noteq> 0"
    and "p < PRIORITY_LEVELS" and "t \<notin> set sl" and "t \<in> set (rq q) \<longleftrightarrow> q = p"
proof -
  have q: "queue_ok s p (rq p)" for p using assms(1) by (simp add: sched_inv_def)
  show p: "priority (heap s t) = p" and st: "t_state (heap s t) = THREAD_STATE_READY"
    using q [of p] assms(2) by (auto simp: queue_ok_def)
  show "t \<noteq> 0" using q [of p] assms(2) dll_nonzero [of "nxt s" "prv s" 0 "rq p"]
    by (auto simp: queue_ok_def)
  have "rq p \<noteq> []" using assms(2) by auto
  then show "p < PRIORITY_LEVELS" using assms(1) by (simp add: sched_inv_def)
  show "t \<notin> set sl" using assms(1) st by (auto simp: sched_inv_def sleep_ok_def)
  show "t \<in> set (rq q) \<longleftrightarrow> q = p" using q [of q] p assms(2) by (auto simp: queue_ok_def)
qed

text \<open>The invariant depends only on the queue fields of the queued threads.\<close>

lemma queue_ok_cong:
  assumes "queue_ok s p ts" and "ready_queue_heads s' p = ready_queue_heads s p"
    and "ready_queue_tails s' p = ready_queue_tails s p"
    and "\<And>t. t \<in> set ts \<Longrightarrow> nxt s' t = nxt s t \<and> prv s' t = prv s t \<and>
           priority (heap s' t) = priority (heap s t) \<and> t_state (heap s' t) = t_state (heap s t)"
  shows "queue_ok s' p ts"
proof -
  have q: "distinct ts" "dll (nxt s) (prv s) 0 ts" "ready_queue_heads s p = hd0 ts"
    "ready_queue_tails s p = last0 ts"
    and m: "\<And>t. t \<in> set ts \<Longrightarrow> priority (heap s t) = p \<and> t_state (heap s t) = THREAD_STATE_READY"
    using assms(1) unfolding queue_ok_def by blast+
  have "dll (nxt s') (prv s') 0 ts"
    by (rule dll_cong [OF q(2)]) (simp add: assms(4))
  moreover have "priority (heap s' t) = p \<and> t_state (heap s' t) = THREAD_STATE_READY" if "t \<in> set ts" for t
    using assms(4) [OF that] m [OF that] by simp
  ultimately show ?thesis using q(1,3,4) assms(2,3) unfolding queue_ok_def by simp
qed

lemma sleep_ok_cong:
  assumes "sleep_ok s ts" and "sleep_queue s' = sleep_queue s"
    and "\<And>t. t \<in> set ts \<Longrightarrow> nxt s' t = nxt s t \<and> wake s' t = wake s t \<and>
           priority (heap s' t) = priority (heap s t) \<and> t_state (heap s' t) = t_state (heap s t)"
  shows "sleep_ok s' ts"
proof -
  have q: "distinct ts" "sll (nxt s) ts" "sleep_queue s = hd0 ts" "sorted (map (wake s) ts)"
    and m: "\<And>t. t \<in> set ts \<Longrightarrow>
      t_state (heap s t) = THREAD_STATE_SLEEPING \<and> priority (heap s t) < PRIORITY_LEVELS"
    using assms(1) unfolding sleep_ok_def by blast+
  have "sll (nxt s') ts" by (rule sll_cong [OF q(2)]) (simp add: assms(3))
  moreover have eq: "map (wake s') ts = map (wake s) ts" using assms(3) by simp
  then have "sorted (map (wake s') ts)" using q(4) by metis
  moreover have "t_state (heap s' t) = THREAD_STATE_SLEEPING \<and> priority (heap s' t) < PRIORITY_LEVELS"
    if "t \<in> set ts" for t
    using assms(3) [OF that] m [OF that] by simp
  ultimately show ?thesis using q(1,3,4) assms(2) unfolding sleep_ok_def by simp
qed

definition same_queues :: "sched \<Rightarrow> sched \<Rightarrow> bool" where
  "same_queues s s' \<longleftrightarrow> ready_queue_heads s' = ready_queue_heads s \<and>
     ready_queue_tails s' = ready_queue_tails s \<and> sleep_queue s' = sleep_queue s \<and>
     threads_ready (stats s') = threads_ready (stats s) \<and>
     threads_sleeping (stats s') = threads_sleeping (stats s)"

definition same_links :: "thread_t \<Rightarrow> thread_t \<Rightarrow> bool" where
  "same_links x y \<longleftrightarrow> t_next y = t_next x \<and> t_prev y = t_prev x \<and> priority y = priority x \<and>
     t_state y = t_state x \<and> wake_time y = wake_time x"

lemma sched_inv_cong:
  assumes "sched_inv s rq sl" and "same_queues s s'"
    and "\<And>t. t \<in> queued rq sl \<Longrightarrow> same_links (heap s t) (heap s' t)"
  shows "sched_inv s' rq sl"
proof -
  have "queue_ok s' p (rq p)" for p
  proof (rule queue_ok_cong [OF sched_inv_queue [OF assms(1)]])
    fix t assume "t \<in> set (rq p)"
    then have "t \<in> queued rq sl" by (auto simp: queued_def)
    from assms(3) [OF this]
    show "nxt s' t = nxt s t \<and> prv s' t = prv s t \<and> priority (heap s' t) = priority (heap s t) \<and>
        t_state (heap s' t) = t_state (heap s t)" by (simp add: same_links_def)
  qed (use assms(2) in \<open>simp_all add: same_queues_def\<close>)
  moreover have "sleep_ok s' sl"
  proof (rule sleep_ok_cong [of s])
    fix t assume "t \<in> set sl"
    then have "t \<in> queued rq sl" by (auto simp: queued_def)
    from assms(3) [OF this]
    show "nxt s' t = nxt s t \<and> wake s' t = wake s t \<and> priority (heap s' t) = priority (heap s t) \<and>
        t_state (heap s' t) = t_state (heap s t)" by (simp add: same_links_def)
  qed (use assms(1,2) in \<open>simp_all add: same_queues_def sched_inv_def\<close>)
  ultimately show ?thesis using assms(1,2) by (simp add: sched_inv_def same_queues_def)
qed

lemma sched_inv_upd_free:
  assumes "sched_inv s rq sl" and "t \<notin> queued rq sl"
  shows "sched_inv (upd t f s) rq sl"
  using assms by (intro sched_inv_cong [OF assms(1)]) (auto simp: same_queues_def same_links_def)

lemma ready_count_update:
  "ready_count (rq(p := ts)) + length (rq p) = ready_count rq + length ts"
proof -
  have *: "ready_count f = length (f p) + (\<Sum>q\<in>UNIV - {p}. length (f q))" for f :: "u8 \<Rightarrow> u64 list"
    by (simp add: ready_count_def sum.remove [of UNIV p])
  have "(\<Sum>q\<in>UNIV - {p}. length ((rq(p := ts)) q)) = (\<Sum>q\<in>UNIV - {p}. length (rq q))"
    by (intro sum.cong) auto
  with * [of rq] * [of "rq(p := ts)"] show ?thesis by simp
qed

section \<open>Effect of the queue operations\<close>

lemma enqueue_ready_spec:
  assumes "p = priority (heap s t)" and "l = ready_queue_tails s p" and "t \<noteq> l"
    and "s' = enqueue_ready t s"
  shows "heap s' = (\<lambda>x. if x = t then (heap s t)\<lparr>t_next := 0, t_prev := l, t_state := THREAD_STATE_READY\<rparr>
                        else if x = l \<and> l \<noteq> 0 then (heap s l)\<lparr>t_next := t\<rparr> else heap s x)"
    and "ready_queue_heads s' = (if l = 0 then (ready_queue_heads s)(p := t) else ready_queue_heads s)"
    and "ready_queue_tails s' = (ready_queue_tails s)(p := t)"
    and "sleep_queue s' = sleep_queue s"
    and "stats s' = (stats s)\<lparr>threads_ready := threads_ready (stats s) + 1\<rparr>"
    and "current_thread s' = current_thread s" and "idle_thread s' = idle_thread s"
  using assms(3) unfolding assms(4) enqueue_ready_def assms(1,2)
  by (auto simp: Let_def fun_eq_iff)

lemma enqueue_ready_inv:
  assumes "sched_inv s rq sl" and "t \<noteq> 0" and "t \<notin> queued rq sl"
    and "priority (heap s t) = p" and "p < PRIORITY_LEVELS"
  shows "sched_inv (enqueue_ready t s) (rq(p := rq p @ [t])) sl"
proof -
  let ?s = "enqueue_ready t s" and ?l = "ready_queue_tails s p"
  note q = sched_inv_queue [OF assms(1)]
  have fresh: "\<And>q. t \<notin> set (rq q)" "t \<notin> set sl" using assms(3) by (auto simp: not_queued)
  have l: "?l = last0 (rq p)" and dp: "distinct (rq p)" "dll (nxt s) (prv s) 0 (rq p)"
    using q [of p] by (simp_all add: queue_ok_def)
  have l_in: "rq p \<noteq> [] \<Longrightarrow> ?l \<in> set (rq p)" by (simp add: l last0_def)
  have l0: "?l = 0 \<longleftrightarrow> rq p = []" using last0_eq_0_iff [OF dp(2)] l by simp
  have tl: "t \<noteq> ?l" using l_in fresh(1) assms(2) l0 by (cases "rq p = []") auto
  note spec = enqueue_ready_spec [OF assms(4) [symmetric] refl tl refl]
  have other: "heap ?s x = heap s x" if "x \<noteq> t" "x \<notin> set (rq p)" for x
    using that l_in l0 by (auto simp: spec(1))
  have same: "prv ?s x = prv s x" "priority (heap ?s x) = priority (heap s x)" "t_state (heap ?s x) = t_state (heap s x)"
    if "x \<noteq> t" for x using that by (simp_all add: spec(1))
  have "queue_ok ?s p (rq p @ [t])"
  proof -
    have "dll (nxt ?s) (prv ?s) 0 (rq p @ [t])"
    proof (rule dll_snoc [OF dp(2) assms(2) fresh(1) dp(1)])
      show "prv ?s t = (if rq p = [] then 0 else last0 (rq p))" using l l0 by (simp add: spec(1))
      show "nxt ?s (last0 (rq p)) = t" if "rq p \<noteq> []" using that l l0 tl by (simp add: spec(1))
      show "nxt ?s y = nxt s y" if "y \<in> set (rq p)" "y \<noteq> last0 (rq p)" for y
        using that fresh(1) [of p] l by (auto simp: spec(1))
      show "prv ?s y = prv s y" if "y \<in> set (rq p)" for y
        using that fresh(1) [of p] by (intro same) auto
    qed (simp add: spec(1))
    moreover have "ready_queue_heads ?s p = hd0 (rq p @ [t])"
      using q [of p] l0 by (auto simp: spec(2) queue_ok_def hd0_append)
    moreover have "priority (heap ?s x) = p \<and> t_state (heap ?s x) = THREAD_STATE_READY"
      if "x \<in> set (rq p @ [t])" for x
    proof (cases "x = t")
      case True
      then show ?thesis using assms(4) by (simp add: spec(1))
    next
      case False
      with that have "x \<in> set (rq p)" by simp
      then show ?thesis using same [OF False] sched_inv_member(1,2) [OF assms(1)] by simp
    qed
    ultimately show ?thesis using dp(1) fresh(1) by (simp add: queue_ok_def spec(3))
  qed
  moreover have "queue_ok ?s r (rq r)" if "r \<noteq> p" for r
  proof (rule queue_ok_cong [OF q])
    fix x assume "x \<in> set (rq r)"
    then have "x \<notin> set (rq p)" "x \<noteq> t" using sched_inv_member(6) [OF assms(1)] that fresh(1) by auto
    from other [OF this(2,1)] show "nxt ?s x = nxt s x \<and> prv ?s x = prv s x \<and>
        priority (heap ?s x) = priority (heap s x) \<and> t_state (heap ?s x) = t_state (heap s x)" by simp
  qed (use that in \<open>simp_all add: spec\<close>)
  moreover have "sleep_ok ?s sl"
  proof (rule sleep_ok_cong [of s])
    fix x assume x: "x \<in> set sl"
    then have "x \<notin> set (rq p)" "x \<noteq> t" using sched_inv_member(5) [OF assms(1)] fresh(2) by auto
    from other [OF this(2,1)] show "nxt ?s x = nxt s x \<and> wake ?s x = wake s x \<and>
        priority (heap ?s x) = priority (heap s x) \<and> t_state (heap ?s x) = t_state (heap s x)" by simp
  qed (use assms(1) in \<open>simp_all add: spec sched_inv_def\<close>)
  moreover have "ready_count (rq(p := rq p @ [t])) = ready_count rq + 1"
    using ready_count_update [of rq p "rq p @ [t]"] by simp
  ultimately show ?thesis
    using assms(1,5) by (simp add: sched_inv_def spec(5))
qed

text \<open>Taking a thread out of its queue, common to \<open>dequeue_ready\<close> and \<open>remove_from_ready\<close>.\<close>

lemma unlink_inv:
  assumes "sched_inv s rq sl" and "rq p = ys @ t # zs"
    and "\<And>x. x \<noteq> t \<Longrightarrow> t_next (heap s' x) = (if ys \<noteq> [] \<and> x = last0 ys then hd0 zs else nxt s x)"
    and "\<And>x. x \<noteq> t \<Longrightarrow> t_prev (heap s' x) = (if zs \<noteq> [] \<and> x = hd0 zs then prv s t else prv s x)"
    and "\<And>x. priority (heap s' x) = priority (heap s x) \<and> t_state (heap s' x) = t_state (heap s x) \<and>
           wake_time (heap s' x) = wake_time (heap s x)"
    and "ready_queue_heads s' = (ready_queue_heads s)(p := hd0 (ys @ zs))"
    and "ready_queue_tails s' = (ready_queue_tails s)(p := last0 (ys @ zs))"
    and "sleep_queue s' = sleep_queue s"
    and "threads_ready (stats s') = threads_ready (stats s) - 1"
    and "threads_sleeping (stats s') = threads_sleeping (stats s)"
  shows "sched_inv s' (rq(p := ys @ zs)) sl"
proof -
  note q = sched_inv_queue [OF assms(1)]
  have dp: "distinct (ys @ t # zs)" "dll (nxt s) (prv s) 0 (ys @ t # zs)"
    using q [of p] by (simp_all add: queue_ok_def assms(2))
  note node = dll_node [OF dp(2)]
  have ends: "ys \<noteq> [] \<Longrightarrow> last0 ys \<in> set ys" "zs \<noteq> [] \<Longrightarrow> hd0 zs \<in> set zs"
    using hd0_cases [of zs] by (auto simp: last0_def)
  have other: "same_links (heap s x) (heap s' x)" if "x \<notin> set (rq p)" for x
  proof -
    from that have "x \<noteq> t" "ys \<noteq> [] \<Longrightarrow> x \<noteq> last0 ys" "zs \<noteq> [] \<Longrightarrow> x \<noteq> hd0 zs"
      using ends by (auto simp: assms(2))
    with assms(3) [of x] assms(4) [of x] assms(5) [of x] show ?thesis by (auto simp: same_links_def)
  qed
  have "dll (nxt s') (prv s') 0 (ys @ zs)"
  proof (rule dll_unlink [OF dp(2,1)])
    fix y assume y: "y \<in> set (ys @ zs)"
    then have "y \<noteq> t" using dp(1) by auto
    then show "y \<noteq> last0 ys \<Longrightarrow> nxt s' y = nxt s y" "y \<noteq> hd0 zs \<Longrightarrow> prv s' y = prv s y"
      by (simp_all add: assms(3,4))
  next
    assume "ys \<noteq> []"
    with ends dp(1) have "last0 ys \<noteq> t" by auto
    with \<open>ys \<noteq> []\<close> node(2) show "nxt s' (last0 ys) = nxt s t" by (simp add: assms(3))
  next
    assume "zs \<noteq> []"
    with ends dp(1) have "hd0 zs \<noteq> t" by auto
    with \<open>zs \<noteq> []\<close> show "prv s' (hd0 zs) = prv s t" by (simp add: assms(4))
  qed
  moreover have "priority (heap s' x) = p \<and> t_state (heap s' x) = THREAD_STATE_READY"
    if "x \<in> set (ys @ zs)" for x
    using that sched_inv_member(1,2) [OF assms(1), of x p] assms(5) by (auto simp: assms(2))
  ultimately have "queue_ok s' p (ys @ zs)"
    using dp(1) by (simp add: queue_ok_def assms(6,7))
  moreover have "queue_ok s' r (rq r)" if "r \<noteq> p" for r
  proof (rule queue_ok_cong [OF q])
    fix x assume "x \<in> set (rq r)"
    then have "x \<notin> set (rq p)" using sched_inv_member(6) [OF assms(1)] that by auto
    from other [OF this] show "nxt s' x = nxt s x \<and> prv s' x = prv s x \<and>
        priority (heap s' x) = priority (heap s x) \<and> t_state (heap s' x) = t_state (heap s x)"
      by (simp add: same_links_def)
  qed (use that in \<open>simp_all add: assms(6,7)\<close>)
  moreover have "sleep_ok s' sl"
  proof (rule sleep_ok_cong [of s])
    fix x assume x: "x \<in> set sl"
    then have "x \<notin> set (rq p)" using sched_inv_member(5) [OF assms(1)] by auto
    from other [OF this] show "nxt s' x = nxt s x \<and> wake s' x = wake s x \<and>
        priority (heap s' x) = priority (heap s x) \<and> t_state (heap s' x) = t_state (heap s x)"
      by (simp add: same_links_def)
  qed (use assms(1,8) in \<open>simp_all add: sched_inv_def\<close>)
  moreover have "ready_count rq = ready_count (rq(p := ys @ zs)) + 1"
    using ready_count_update [of rq p "ys @ zs"] by (simp add: assms(2))
  moreover have "rq p \<noteq> []" by (simp add: assms(2))
  ultimately show ?thesis
    using assms(1,9,10) unfolding sched_inv_def by auto
qed

lemma dequeue_ready_inv:
  assumes "sched_inv s rq sl" and "rq p = t # ts"
  shows "fst (dequeue_ready p s) = t"
    and "sched_inv (snd (dequeue_ready p s)) (rq(p := ts)) sl"
    and "current_thread (snd (dequeue_ready p s)) = current_thread s"
    and "idle_thread (snd (dequeue_ready p s)) = idle_thread s"
proof -
  let ?s = "snd (dequeue_ready p s)"
  have q: "distinct (t # ts)" "dll (nxt s) (prv s) 0 ([] @ t # ts)" "ready_queue_heads s p = t"
    "ready_queue_tails s p = last0 (t # ts)"
    using sched_inv_queue [OF assms(1), of p] by (simp_all add: queue_ok_def assms(2))
  note node = dll_node [OF q(2)]
  have h0: "hd0 ts = 0 \<longleftrightarrow> ts = []" using q(2) hd0_eq_0_iff [of "nxt s" "prv s" t ts] by simp
  have hin: "ts \<noteq> [] \<Longrightarrow> hd0 ts \<in> set ts" using hd0_cases by blast
  then have ht: "hd0 ts \<noteq> t" using q(1) node(1) h0 by (cases "ts = []") auto
  have eq: "dequeue_ready p s = (t,
      let s = s\<lparr>ready_queue_heads := (ready_queue_heads s)(p := hd0 ts)\<rparr>;
          s = (if hd0 ts \<noteq> 0 then upd (hd0 ts) (\<lambda>x. x\<lparr>t_prev := 0\<rparr>) s
               else s\<lparr>ready_queue_tails := (ready_queue_tails s)(p := 0)\<rparr>);
          s = upd t (\<lambda>x. x\<lparr>t_next := 0, t_prev := 0\<rparr>) s
      in s\<lparr>stats := (stats s)\<lparr>threads_ready := threads_ready (stats s) - 1\<rparr>\<rparr>)"
    using q(3) node by (simp add: dequeue_ready_def Let_def)
  show "fst (dequeue_ready p s) = t" by (simp add: eq)
  show "current_thread ?s = current_thread s" "idle_thread ?s = idle_thread s"
    by (simp_all add: eq Let_def)
  have "sched_inv ?s (rq(p := [] @ ts)) sl"
  proof (rule unlink_inv [OF assms(1), of p "[]" t ts])
    show "t_prev (heap ?s x) = (if ts \<noteq> [] \<and> x = hd0 ts then prv s t else prv s x)" if "x \<noteq> t" for x
      using that node(3) h0 by (simp add: eq Let_def)
    show "ready_queue_tails ?s = (ready_queue_tails s)(p := last0 ([] @ ts))"
      using q(4) h0 by (auto simp: eq Let_def fun_eq_iff last0_def)
  qed (simp_all add: eq Let_def assms(2))
  then show "sched_inv ?s (rq(p := ts)) sl" by simp
qed

lemma remove_from_ready_inv:
  assumes "sched_inv s rq sl" and "rq p = ys @ t # zs"
  shows "sched_inv (remove_from_ready t s) (rq(p := ys @ zs)) sl"
proof -
  let ?s = "remove_from_ready t s"
  have q: "distinct (ys @ t # zs)" "dll (nxt s) (prv s) 0 (ys @ t # zs)"
    "ready_queue_heads s p = hd0 (ys @ t # zs)" "ready_queue_tails s p = last0 (ys @ t # zs)"
    using sched_inv_queue [OF assms(1), of p] by (simp_all add: queue_ok_def assms(2))
  note node = dll_node [OF q(2)]
  have pr: "priority (heap s t) = p" using sched_inv_member(1) [OF assms(1)] by (simp add: assms(2))
  have nz: "0 \<notin> set (ys @ t # zs)" by (rule dll_nonzero [OF q(2)])
  have ends: "ys \<noteq> [] \<Longrightarrow> last0 ys \<in> set ys" "zs \<noteq> [] \<Longrightarrow> hd0 zs \<in> set zs"
    using hd0_cases [of zs] by (auto simp: last0_def)
  have y: "ys \<noteq> [] \<Longrightarrow> last0 ys \<noteq> 0 \<and> last0 ys \<noteq> t \<and> t \<noteq> last0 ys"
    and z: "zs \<noteq> [] \<Longrightarrow> hd0 zs \<noteq> 0 \<and> hd0 zs \<noteq> t \<and> t \<noteq> hd0 zs"
    using ends nz q(1) by auto
  have eq: "?s =
     (let s = (if ys \<noteq> [] then upd (last0 ys) (\<lambda>x. x\<lparr>t_next := hd0 zs\<rparr>) s
               else s\<lparr>ready_queue_heads := (ready_queue_heads s)(p := hd0 zs)\<rparr>);
          s = (if zs \<noteq> [] then upd (hd0 zs) (\<lambda>x. x\<lparr>t_prev := prv s t\<rparr>) s
               else s\<lparr>ready_queue_tails := (ready_queue_tails s)(p := prv s t)\<rparr>);
          s = upd t (\<lambda>x. x\<lparr>t_next := 0, t_prev := 0\<rparr>) s
      in s\<lparr>stats := (stats s)\<lparr>threads_ready := threads_ready (stats s) - 1\<rparr>\<rparr>)"
    using node pr y z by (cases "ys = []"; cases "zs = []") (simp_all add: remove_from_ready_def Let_def)
  show ?thesis
  proof (rule unlink_inv [OF assms])
    show "ready_queue_heads ?s = (ready_queue_heads s)(p := hd0 (ys @ zs))"
      using q(3) by (auto simp: eq Let_def fun_eq_iff hd0_append)
    show "ready_queue_tails ?s = (ready_queue_tails s)(p := last0 (ys @ zs))"
      using q(4) node(3) y by (auto simp: eq Let_def fun_eq_iff last0_def)
    show "t_next (heap ?s x) = (if ys \<noteq> [] \<and> x = last0 ys then hd0 zs else nxt s x)" if "x \<noteq> t" for x
      using that by (simp add: eq Let_def)
    show "t_prev (heap ?s x) = (if zs \<noteq> [] \<and> x = hd0 zs then prv s t else prv s x)" if "x \<noteq> t" for x
      using that y by (auto simp: eq Let_def)
  qed (auto simp: eq Let_def)
qed

section \<open>Sleepers\<close>

text \<open>The walk stops at the last sleeper that wakes no later than \<open>w\<close>.\<close>

lemma sleep_walk_stops:
  assumes "sll (\<lambda>t. t_next (h t)) (xs @ y # zs)" and "\<forall>x\<in>set (xs @ [y]). wake_time (h x) \<le> w"
    and "zs \<noteq> [] \<longrightarrow> w < wake_time (h (hd0 zs))"
  shows "sleep_walk h w (hd0 (xs @ [y])) = Some y"
  using assms
proof (induction xs)
  case Nil
  then have "t_next (h y) = hd0 zs" by simp
  with Nil(3) show ?case by (subst sleep_walk.simps) (cases zs; auto)
next
  case (Cons x xs)
  then have IH: "sleep_walk h w (hd0 (xs @ [y])) = Some y" by simp
  have n: "t_next (h x) = hd0 (xs @ [y])" "hd0 (xs @ [y]) \<in> set (xs @ [y])" "hd0 (xs @ [y]) \<noteq> 0"
    using Cons.prems(1) by (cases xs; auto)+
  have "\<forall>x\<in>set (xs @ [y]). wake_time (h x) \<le> w" using Cons.prems(2) by simp
  from bspec [OF this n(2)] have "wake_time (h (t_next (h x))) \<le> w" unfolding n(1) .
  with n IH show ?case by (subst sleep_walk.simps) simp
qed

definition sleep_insert :: "(u64 \<Rightarrow> u64) \<Rightarrow> u64 \<Rightarrow> u64 list \<Rightarrow> u64 list" where
  "sleep_insert w t ts =
     takeWhile (\<lambda>x. w x \<le> w t) ts @ t # dropWhile (\<lambda>x. w x \<le> w t) ts"

lemma set_sleep_insert: "set (sleep_insert w t ts) = insert t (set ts)"
proof -
  have "set ts = set (takeWhile (\<lambda>x. w x \<le> w t) ts) \<union> set (dropWhile (\<lambda>x. w x \<le> w t) ts)"
    by (metis set_append takeWhile_dropWhile_id)
  then show ?thesis by (simp add: sleep_insert_def)
qed

lemma sorted_sleep_insert:
  assumes "sorted (map w ts)"
  shows "sorted (map w (sleep_insert w t ts))"
proof -
  let ?as = "takeWhile (\<lambda>x. w x \<le> w t) ts" and ?bs = "dropWhile (\<lambda>x. w x \<le> w t) ts"
  have "sorted (map w ?as @ map w ?bs)" using assms by (simp flip: map_append)
  then have s: "sorted (map w ?as)" "sorted (map w ?bs)" "\<forall>a\<in>set ?as. \<forall>b\<in>set ?bs. w a \<le> w b"
    unfolding sorted_append by simp_all
  have "w t \<le> w b" if "b \<in> set ?bs" for b
  proof (cases ?bs)
    case (Cons c cs)
    then have c: "\<not> w c \<le> w t" using hd_dropWhile [of "\<lambda>x. w x \<le> w t" ts] by auto
    have "sorted (map w (c # cs))" using s(2) Cons by simp
    with that Cons have "w c \<le> w b" by auto
    with c show ?thesis by simp
  next
    case Nil
    with that show ?thesis by (metis empty_iff list.set(1))
  qed
  then have b: "\<forall>b\<in>set ?bs. w t \<le> w b" by blast
  have a: "\<forall>a\<in>set ?as. w a \<le> w t" using set_takeWhileD by fast
  have "sorted (map w ?as @ w t # map w ?bs)"
    unfolding sorted_append sorted_simps(2) set_map list.set using s a b by blast
  then show ?thesis by (simp add: sleep_insert_def)
qed

lemma sorted_dropWhile_gt:
  assumes "sorted (map w ts)" and "t \<in> set (dropWhile (\<lambda>x. w x \<le> (n :: u64)) ts)"
  shows "n < w t"
  using assms
proof (induction ts)
  case Nil
  then show ?case by simp
next
  case (Cons x xs)
  show ?case
  proof (cases "w x \<le> n")
    case True
    with Cons show ?thesis by simp
  next
    case False
    with Cons.prems(2) have "t \<in> set (x # xs)" by simp
    with Cons.prems(1) have "w x \<le> w t" by auto
    with False show ?thesis by simp
  qed
qed

lemma sll_insert:
  assumes "sll nx (as @ bs)" and "t \<noteq> 0" and "t \<notin> set (as @ bs)" and "distinct (as @ bs)"
    and "nx' t = hd0 bs" and "as \<noteq> [] \<Longrightarrow> nx' (last as) = t"
    and "\<And>x. x \<in> set (as @ bs) \<Longrightarrow> as = [] \<or> x \<noteq> last as \<Longrightarrow> nx' x = nx x"
  shows "sll nx' (as @ t # bs)"
  using assms
proof (induction as)
  case Nil
  have "sll nx' bs"
  proof (rule sll_cong [of nx])
    show "nx' x = nx x" if "x \<in> set bs" for x using Nil(7) [of x] that by simp
  qed (use Nil(1) in simp)
  then show ?case using Nil(2,5) by simp
next
  case (Cons a as)
  have "sll nx' (as @ t # bs)"
  proof (rule Cons.IH)
    show "nx' x = nx x" if "x \<in> set (as @ bs)" "as = [] \<or> x \<noteq> last as" for x
      using that Cons.prems(4) Cons.prems(7) [of x] by (cases "as = []") auto
  qed (use Cons.prems(1-6) in auto)
  moreover have "nx' a = hd0 (as @ t # bs)"
  proof (cases "as = []")
    case True
    then show ?thesis using Cons.prems(6) by simp
  next
    case False
    then have "a \<noteq> last as" using Cons.prems(4) by auto
    with False show ?thesis using Cons.prems(1,7) by (simp add: hd0_append)
  qed
  ultimately show ?case using Cons.prems(1) by simp
qed

lemma enqueue_sleep_inv:
  assumes "sched_inv s rq sl" and "t \<noteq> 0" and "t \<notin> queued rq sl" and "priority (heap s t) < PRIORITY_LEVELS"
  obtains s' where "enqueue_sleep t s = Some s'" and "sched_inv s' rq (sleep_insert (wake s) t sl)"
    and "current_thread s' = current_thread s" and "idle_thread s' = idle_thread s"
    and "t_state (heap s' t) = THREAD_STATE_SLEEPING"
proof -
  let ?w = "wake s"
  define as bs where as: "as = takeWhile (\<lambda>x. ?w x \<le> ?w t) sl" and bs: "bs = dropWhile (\<lambda>x. ?w x \<le> ?w t) sl"
  have sl: "sl = as @ bs" by (simp add: as bs)
  have q: "distinct sl" "sll (nxt s) sl" "sleep_queue s = hd0 sl" "sorted (map ?w sl)"
    and m: "\<And>x. x \<in> set sl \<Longrightarrow> t_state (heap s x) = THREAD_STATE_SLEEPING \<and> priority (heap s x) < PRIORITY_LEVELS"
    using assms(1) unfolding sched_inv_def sleep_ok_def by blast+
  have fresh: "\<And>q. t \<notin> set (rq q)" "t \<notin> set sl" using assms(3) by (auto simp: not_queued)
  let ?hp = "(heap s)(t := (heap s t)\<lparr>t_state := THREAD_STATE_SLEEPING, t_next := hd0 bs\<rparr>)"
  let ?h = "if as = [] then ?hp else ?hp(last as := (heap s (last as))\<lparr>t_next := t\<rparr>)"
  let ?s = "s\<lparr>heap := ?h, sleep_queue := hd0 (as @ [t]),
      stats := (stats s)\<lparr>threads_sleeping := threads_sleeping (stats s) + 1\<rparr>\<rparr>"
  have last: "as \<noteq> [] \<Longrightarrow> last as \<in> set sl" by (simp add: sl)
  have lt: "as \<noteq> [] \<Longrightarrow> last as \<noteq> t" using last fresh(2) by auto
  have nz: "0 \<notin> set sl" by (rule sll_nonzero [OF q(2)])
  have res: "enqueue_sleep t s = Some ?s"
  proof (cases "as = []")
    case True
    then have "sl = [] \<or> ?w t < ?w (hd0 sl)" by (cases sl) (auto simp: as split: if_splits)
    then have c: "hd0 sl = 0 \<or> ?w t < ?w (hd0 sl)" by auto
    have "hd0 sl \<noteq> t" using fresh(2) assms(2) hd0_cases [of sl] by (cases sl) auto
    with c True q(3) sl show ?thesis
      by (simp add: enqueue_sleep_def Let_def)
  next
    case False
    then obtain bs0 y where y: "as = bs0 @ [y]" by (metis rev_exhaust)
    have le: "\<forall>x\<in>set as. ?w x \<le> ?w t" using set_takeWhileD by (fastforce simp: as)
    have hd: "hd0 sl = hd0 as" "hd0 as \<in> set as" using False hd0_cases [of as] by (simp_all add: sl hd0_append)
    have hne: "hd0 sl \<noteq> t" "hd0 sl \<noteq> 0" using hd fresh(2) nz by (auto simp: sl)
    let ?h0 = "(heap s)(t := (heap s t)\<lparr>t_state := THREAD_STATE_SLEEPING, t_next := 0\<rparr>)"
    have "sleep_walk ?h0 (?w t) (hd0 (bs0 @ [y])) = Some y"
    proof (rule sleep_walk_stops)
      show "sll (\<lambda>x. t_next (?h0 x)) (bs0 @ y # bs)"
      proof (rule sll_cong [of "nxt s"])
        show "sll (nxt s) (bs0 @ y # bs)" using q(2) by (simp add: sl y)
        fix x assume "x \<in> set (bs0 @ y # bs)"
        then have "x \<noteq> t" using fresh(2) by (auto simp: sl y)
        then show "t_next (?h0 x) = nxt s x" by simp
      qed
      show "\<forall>x\<in>set (bs0 @ [y]). wake_time (?h0 x) \<le> ?w t" using le by (simp add: y)
      show "bs \<noteq> [] \<longrightarrow> ?w t < wake_time (?h0 (hd0 bs))"
      proof
        assume ne: "bs \<noteq> []"
        then obtain b bs' where b: "bs = b # bs'" by (cases bs) auto
        then have "\<not> ?w b \<le> ?w t" using hd_dropWhile [of "\<lambda>x. ?w x \<le> ?w t" sl] bs by auto
        moreover have "b \<noteq> t" using fresh(2) by (auto simp: sl b)
        ultimately show "?w t < wake_time (?h0 (hd0 bs))" by (simp add: b)
      qed
    qed
    moreover have "?w (hd0 sl) \<le> ?w t" using le hd by simp
    moreover have "t_next (heap s y) = hd0 bs"
    proof -
      have "sll (nxt s) (bs0 @ y # bs)" using q(2) by (simp add: sl y)
      then show ?thesis by (induction bs0) auto
    qed
    moreover have "y \<noteq> t" using lt y by auto
    ultimately show ?thesis
      using False q(3) hne y hd(1) by (simp add: enqueue_sleep_def Let_def hd0_append)
  qed
  have inv: "sched_inv ?s rq (as @ t # bs)"
  proof -
    have same: "same_links (heap s x) (heap ?s x)" if "x \<notin> set sl" "x \<noteq> t" for x
      using that last by (auto simp: same_links_def)
    have "queue_ok ?s p (rq p)" for p
    proof (rule queue_ok_cong [OF sched_inv_queue [OF assms(1)]])
      fix x assume "x \<in> set (rq p)"
      then have "x \<notin> set sl" "x \<noteq> t" using sched_inv_member(5) [OF assms(1)] fresh(1) by auto
      from same [OF this] show "nxt ?s x = nxt s x \<and> prv ?s x = prv s x \<and>
        priority (heap ?s x) = priority (heap s x) \<and> t_state (heap ?s x) = t_state (heap s x)"
        by (simp add: same_links_def)
    qed simp_all
    moreover have "sleep_ok ?s (as @ t # bs)"
      unfolding sleep_ok_def
    proof (intro conjI)
      show "distinct (as @ t # bs)" using q(1) fresh(2) by (auto simp: sl)
      show "sll (nxt ?s) (as @ t # bs)"
      proof (rule sll_insert [of "nxt s"])
        show "sll (nxt s) (as @ bs)" "t \<noteq> 0" "t \<notin> set (as @ bs)" "distinct (as @ bs)"
          using q(1,2) fresh(2) assms(2) by (simp_all add: sl)
        show "nxt ?s t = hd0 bs" using lt by auto
        show "nxt ?s (last as) = t" if "as \<noteq> []" using that by simp
        show "nxt ?s x = nxt s x" if "x \<in> set (as @ bs)" "as = [] \<or> x \<noteq> last as" for x
        proof -
          have "x \<noteq> t" using that(1) fresh(2) by (auto simp: sl)
          with that(2) show ?thesis by (cases "as = []") simp_all
        qed
      qed
      show "sleep_queue ?s = hd0 (as @ t # bs)" by (simp add: hd0_append)
      have "wake ?s = ?w" using lt by (cases "as = []") (simp_all add: fun_eq_iff)
      then show "sorted (map (wake ?s) (as @ t # bs))"
        using sorted_sleep_insert [OF q(4), of t] by (simp add: sleep_insert_def as bs)
      show "\<forall>x\<in>set (as @ t # bs). t_state (heap ?s x) = THREAD_STATE_SLEEPING \<and>
          priority (heap ?s x) < PRIORITY_LEVELS"
      proof
        fix x assume "x \<in> set (as @ t # bs)"
        then consider "x = t" | "x \<in> set sl" "x \<noteq> t" by (auto simp: sl)
        then show "t_state (heap ?s x) = THREAD_STATE_SLEEPING \<and> priority (heap ?s x) < PRIORITY_LEVELS"
        proof cases
          case 1
          then show ?thesis using assms(4) lt by (cases "as = []") simp_all
        next
          case 2
          then show ?thesis using m [of x] by (cases "as = []") auto
        qed
      qed
    qed
    ultimately show ?thesis using assms(1) by (auto simp: sched_inv_def sl)
  qed
  show thesis
    by (rule that [OF res]) (use inv lt in \<open>auto simp: sleep_insert_def as bs\<close>)
qed

text \<open>Waking: the expired sleepers join the tails of their queues in wake order.\<close>

definition wake_into :: "(u64 \<Rightarrow> u8) \<Rightarrow> u64 list \<Rightarrow> (u8 \<Rightarrow> u64 list) \<Rightarrow> u8 \<Rightarrow> u64 list" where
  "wake_into pr ts rq = fold (\<lambda>t rq. rq(pr t := rq (pr t) @ [t])) ts rq"

lemma enqueue_ready_keeps [simp]:
  "priority (heap (enqueue_ready t s) x) = priority (heap s x)"
  "wake_time (heap (enqueue_ready t s) x) = wake_time (heap s x)"
  "current_thread (enqueue_ready t s) = current_thread s"
  "idle_thread (enqueue_ready t s) = idle_thread s"
  "scheduler_running (enqueue_ready t s) = scheduler_running s"
  "ticks (enqueue_ready t s) = ticks s"
  by (simp_all add: enqueue_ready_def Let_def)

lemma sleep_pop_inv:
  assumes "sched_inv s rq (t # ts)"
    and "s' = (upd t (\<lambda>x. x\<lparr>t_next := 0\<rparr>) (s\<lparr>sleep_queue := t_next (heap s t)\<rparr>))
      \<lparr>stats := (stats s)\<lparr>threads_sleeping := threads_sleeping (stats s) - 1\<rparr>\<rparr>"
  shows "sched_inv s' rq ts" and "t \<notin> queued rq ts" and "t \<noteq> 0"
    and "priority (heap s t) < PRIORITY_LEVELS"
proof -
  have q: "distinct (t # ts)" "sll (nxt s) (t # ts)" "sorted (map (wake s) (t # ts))"
    and m: "\<forall>x\<in>set (t # ts). t_state (heap s x) = THREAD_STATE_SLEEPING \<and> priority (heap s x) < PRIORITY_LEVELS"
    using assms(1) unfolding sched_inv_def sleep_ok_def by blast+
  show "t \<noteq> 0" "priority (heap s t) < PRIORITY_LEVELS" using q(2) m by simp_all
  have fresh: "t \<notin> set (rq p)" for p using sched_inv_member(5) [OF assms(1), of t p] by auto
  then show "t \<notin> queued rq ts" using q(1) by (simp add: not_queued)
  have heap: "heap s' x = heap s x" if "x \<noteq> t" for x using that by (simp add: assms(2))
  have "queue_ok s' p (rq p)" for p
  proof (rule queue_ok_cong [OF sched_inv_queue [OF assms(1)]])
    fix x assume "x \<in> set (rq p)"
    then have "x \<noteq> t" using fresh by auto
    from heap [OF this] show "nxt s' x = nxt s x \<and> prv s' x = prv s x \<and>
        priority (heap s' x) = priority (heap s x) \<and> t_state (heap s' x) = t_state (heap s x)" by simp
  qed (simp_all add: assms(2))
  moreover have "sleep_ok s' ts"
  proof -
    have ne: "x \<noteq> t" if "x \<in> set ts" for x using that q(1) by auto
    have "sll (nxt s') ts"
    proof (rule sll_cong [of "nxt s"])
      show "nxt s' x = nxt s x" if "x \<in> set ts" for x using heap [OF ne [OF that]] by simp
    qed (use q(2) in simp)
    moreover have "map (wake s') ts = map (wake s) ts" using heap [OF ne] by simp
    then have "sorted (map (wake s') ts)" using q(3) by (metis list.map(2) sorted_simps(2))
    moreover have "\<forall>x\<in>set ts. t_state (heap s' x) = THREAD_STATE_SLEEPING \<and> priority (heap s' x) < PRIORITY_LEVELS"
      using m heap [OF ne] by simp
    ultimately show ?thesis using q(1,2) by (simp add: sleep_ok_def assms(2))
  qed
  moreover have "threads_sleeping (stats s) - 1 = of_nat (length ts)"
    using assms(1) by (simp add: sched_inv_def)
  ultimately show "sched_inv s' rq ts" using assms(1) by (simp add: sched_inv_def assms(2))
qed

lemma wake_loop_inv:
  assumes "sched_inv s rq (es @ rest)" and "\<forall>x\<in>set es. wake s x \<le> now"
    and "rest \<noteq> [] \<longrightarrow> now < wake s (hd0 rest)"
  shows "\<exists>s'. wake_loop now s = Some s' \<and>
     sched_inv s' (wake_into (\<lambda>t. priority (heap s t)) es rq) rest \<and>
     (\<forall>x. priority (heap s' x) = priority (heap s x) \<and> wake s' x = wake s x) \<and>
     current_thread s' = current_thread s \<and> idle_thread s' = idle_thread s \<and>
     scheduler_running s' = scheduler_running s"
  using assms
proof (induction es arbitrary: s rq)
  case Nil
  have q: "sleep_queue s = hd0 rest" using Nil(1) by (simp add: sched_inv_def sleep_ok_def)
  have "\<not> (sleep_queue s \<noteq> 0 \<and> wake_time (heap s (sleep_queue s)) \<le> now)"
  proof (cases rest)
    case (Cons r rs)
    then have "now < wake s (sleep_queue s)" using Nil(3) q by simp
    then show ?thesis by (simp add: not_le)
  qed (simp add: q)
  then have "wake_loop now s = Some s" by (subst wake_loop.simps) (rule if_not_P)
  with Nil(1) show ?case by (simp add: wake_into_def)
next
  case (Cons t es)
  let ?s1 = "(upd t (\<lambda>x. x\<lparr>t_next := 0\<rparr>) (s\<lparr>sleep_queue := t_next (heap s t)\<rparr>))
      \<lparr>stats := (stats s)\<lparr>threads_sleeping := threads_sleeping (stats s) - 1\<rparr>\<rparr>"
  let ?s2 = "enqueue_ready t ?s1" and ?p = "priority (heap s t)"
  have inv0: "sched_inv s rq (t # es @ rest)" using Cons.prems(1) by simp
  note pop = sleep_pop_inv [OF inv0 refl]
  have inv2: "sched_inv ?s2 (rq(?p := rq ?p @ [t])) (es @ rest)"
    using pop(3,4) by (intro enqueue_ready_inv [OF pop(1) _ pop(2)]) simp_all
  have keep: "wake ?s2 x = wake s x" "priority (heap ?s2 x) = priority (heap s x)"
    "current_thread ?s2 = current_thread s" "idle_thread ?s2 = idle_thread s"
    "scheduler_running ?s2 = scheduler_running s" for x by simp_all
  have "\<forall>x\<in>set es. wake ?s2 x \<le> now" "rest \<noteq> [] \<longrightarrow> now < wake ?s2 (hd0 rest)"
    unfolding keep using Cons.prems(2,3) by simp_all
  note IH = Cons.IH [OF inv2 this, unfolded keep]
  have "sleep_queue s = t" using inv0 by (simp add: sched_inv_def sleep_ok_def)
  moreover have "wake s t \<le> now" using Cons.prems(2) by simp
  ultimately have "wake_loop now s = wake_loop now ?s2"
    using pop(3) by (subst wake_loop.simps) (simp add: Let_def)
  moreover have "wake_into (\<lambda>t. priority (heap s t)) (t # es) rq =
      wake_into (\<lambda>t. priority (heap s t)) es (rq(?p := rq ?p @ [t]))"
    by (simp add: wake_into_def)
  ultimately show ?case using IH by (simp only:)
qed

section \<open>Choosing the next thread\<close>

text \<open>The highest priority (the smallest number) whose queue is not empty.\<close>

definition top_priority :: "(u8 \<Rightarrow> u64 list) \<Rightarrow> u8 \<Rightarrow> bool" where
  "top_priority rq p \<longleftrightarrow> rq p \<noteq> [] \<and> (\<forall>q<p. rq q = [])"

lemma head_zero_iff: "sched_inv s rq sl \<Longrightarrow> ready_queue_heads s p = 0 \<longleftrightarrow> rq p = []"
  using sched_inv_queue [of s rq sl p] hd0_eq_0_iff [of "nxt s" "prv s" 0 "rq p"]
  by (simp add: queue_ok_def)

lemma pick_next_cases:
  assumes "sched_inv s rq sl"
  obtains (ready) p t ts where "top_priority rq p" and "rq p = t # ts"
      and "pick_next_thread s = (t, snd (dequeue_ready p s))"
      and "sched_inv (snd (dequeue_ready p s)) (rq(p := ts)) sl"
      and "t \<notin> queued (rq(p := ts)) sl"
  | (idle) "\<forall>p. rq p = []" and "pick_next_thread s = (idle_thread s, s)"
proof (cases "first_index (\<lambda>p. ready_queue_heads s (of_nat p) \<noteq> 0) (unat PRIORITY_LEVELS)")
  case None
  have "rq p = []" for p
  proof (rule ccontr)
    assume "rq p \<noteq> []"
    moreover from this have "p < PRIORITY_LEVELS" using assms by (simp add: sched_inv_def)
    ultimately have "unat p < unat PRIORITY_LEVELS \<and> ready_queue_heads s (of_nat (unat p)) \<noteq> 0"
      using head_zero_iff [OF assms] by (simp add: word_less_nat_alt)
    with None show False by (auto simp: first_index_None_iff)
  qed
  with None show thesis by (intro idle) (simp_all add: pick_next_thread_def)
next
  case (Some i)
  let ?p = "of_nat i :: u8"
  from Some have i: "i < 7" "ready_queue_heads s ?p \<noteq> 0" "\<And>j. j < i \<Longrightarrow> ready_queue_heads s (of_nat j) = 0"
    by (auto simp: PRIORITY_LEVELS_def elim!: first_indexE)
  from i(2) obtain t ts where ts: "rq ?p = t # ts" using head_zero_iff [OF assms] by (cases "rq ?p") auto
  have "rq q = []" if "q < ?p" for q
  proof -
    have "unat q < i" using that i(1) by (simp add: word_less_nat_alt unat_of_nat)
    from i(3) [OF this] show ?thesis using head_zero_iff [OF assms] by simp
  qed
  then have top: "top_priority rq ?p" by (simp add: top_priority_def ts)
  note d = dequeue_ready_inv [OF assms ts]
  have "t \<notin> set ts" using sched_inv_queue [OF assms, of ?p] by (simp add: queue_ok_def ts)
  then have "t \<notin> queued (rq(?p := ts)) sl"
    using sched_inv_member(5,6) [OF assms, of t ?p] ts by (auto simp: not_queued)
  moreover have "pick_next_thread s = (t, snd (dequeue_ready ?p s))"
    using d(1) Some by (simp add: pick_next_thread_def prod_eq_iff)
  ultimately show thesis using ready [OF top ts] d(2) by blast
qed

lemma context_switch_keeps [simp]:
  "ready_queue_heads (context_switch ret a b s) = ready_queue_heads s"
  "ready_queue_tails (context_switch ret a b s) = ready_queue_tails s"
  "sleep_queue (context_switch ret a b s) = sleep_queue s"
  "stats (context_switch ret a b s) = stats s"
  "current_thread (context_switch ret a b s) = current_thread s"
  "idle_thread (context_switch ret a b s) = idle_thread s"
  "scheduler_running (context_switch ret a b s) = scheduler_running s"
  "heap (context_switch ret a b s) = (heap s)(a := (heap s a)\<lparr>t_rsp := rsp (scpu s) - 64\<rparr>)"
  by (simp_all add: context_switch_def load_context_def save_context_def push_def pop_def Let_def)

lemma switch_to_inv:
  assumes "sched_inv s rq sl" and "n \<notin> queued rq sl"
  shows "sched_inv (switch_to n s) rq sl" and "current_thread (switch_to n s) = n"
    and "idle_thread (switch_to n s) = idle_thread s"
    and "scheduler_running (switch_to n s) = scheduler_running s"
    and "n \<noteq> current_thread s \<Longrightarrow> t_state (heap (switch_to n s) n) = THREAD_STATE_RUNNING"
proof -
  have links: "same_links (heap s x) (heap (switch_to n s) x)" if "x \<noteq> n" for x
    using that by (simp add: switch_to_def Let_def gdt_set_kernel_stack_def same_links_def)
  have "same_queues s (switch_to n s)"
    by (simp add: switch_to_def Let_def gdt_set_kernel_stack_def same_queues_def)
  then show "sched_inv (switch_to n s) rq sl"
  proof (rule sched_inv_cong [OF assms(1)])
    show "same_links (heap s x) (heap (switch_to n s) x)" if "x \<in> queued rq sl" for x
      using that assms(2) by (intro links) auto
  qed
  show "current_thread (switch_to n s) = n" "idle_thread (switch_to n s) = idle_thread s"
    "scheduler_running (switch_to n s) = scheduler_running s"
    "n \<noteq> current_thread s \<Longrightarrow> t_state (heap (switch_to n s) n) = THREAD_STATE_RUNNING"
    by (auto simp: switch_to_def Let_def gdt_set_kernel_stack_def)
qed

lemma schedule_cases:
  assumes "sched_inv s rq sl" and "idle_thread s \<notin> queued rq sl"
  obtains (ready) p t ts where "top_priority rq p" and "rq p = t # ts"
      and "current_thread (schedule s) = t" and "sched_inv (schedule s) (rq(p := ts)) sl"
      and "t \<noteq> current_thread s \<Longrightarrow> t_state (heap (schedule s) t) = THREAD_STATE_RUNNING"
  | (idle) "\<forall>p. rq p = []" and "current_thread (schedule s) = idle_thread s"
      and "sched_inv (schedule s) rq sl"
      and "idle_thread s \<noteq> current_thread s \<Longrightarrow>
        t_state (heap (schedule s) (idle_thread s)) = THREAD_STATE_RUNNING"
proof (cases rule: pick_next_cases [OF assms(1), case_names R I])
  case (R p t ts)
  let ?s = "snd (dequeue_ready p s)"
  have cur: "current_thread ?s = current_thread s" using dequeue_ready_inv(3) [OF assms(1) R(2)] .
  have "schedule s = switch_to t ?s"
    using R(3) by (simp add: schedule_def) (simp add: switch_to_def)
  then show thesis using ready [OF R(1,2)] switch_to_inv [OF R(4,5)] cur by simp
next
  case I
  have "schedule s = switch_to (idle_thread s) s"
    using I(2) by (simp add: schedule_def) (simp add: switch_to_def)
  then show thesis using idle [OF I(1)] switch_to_inv [OF assms] by simp
qed

section \<open>Adaptive priority: effect\<close>

lemma adjust_priority_frame:
  "x \<noteq> t \<Longrightarrow> heap (adjust_priority t s) x = heap s x"
  "same_queues s (adjust_priority t s)"
  "current_thread (adjust_priority t s) = current_thread s"
  "idle_thread (adjust_priority t s) = idle_thread s"
  "scheduler_running (adjust_priority t s) = scheduler_running s"
  "t_state (heap (adjust_priority t s) t) = t_state (heap s t)"
  "base_priority (heap (adjust_priority t s) t) = base_priority (heap s t)"
  by (simp_all add: adjust_priority_def Let_def same_queues_def)

text \<open>
  A thread's priority lies between its base priority and \<open>PRIORITY_LOW\<close> (or its base, if that is
  lower still), and its time slice is the one of its priority.
\<close>

definition prio_ok :: "thread_t \<Rightarrow> bool" where
  "prio_ok t \<longleftrightarrow> base_priority t \<le> priority t \<and> base_priority t < PRIORITY_LEVELS \<and>
     (priority t \<le> PRIORITY_LOW \<or> priority t = base_priority t) \<and>
     time_slice_length t = calculate_time_slice (priority t)"

lemma prio_ok_less: "prio_ok t \<Longrightarrow> priority t < PRIORITY_LEVELS"
  by (auto simp: prio_ok_def PRIORITY_LOW_def PRIORITY_LEVELS_def word_le_nat_alt word_less_nat_alt)

lemma prio_ok_slice: "prio_ok t \<Longrightarrow> 0 < time_slice_length t"
proof -
  assume ok: "prio_ok t"
  have "unat (priority t) < 7" using prio_ok_less [OF ok] by (simp add: PRIORITY_LEVELS_def word_less_nat_alt)
  then have "unat (priority t) \<in> {0, 1, 2, 3, 4, 5, 6}" by auto
  then have "priority t \<in> {0, 1, 2, 3, 4, 5, 6}" by (simp add: word_unat_eq_iff)
  then show ?thesis using ok
    by (auto simp: prio_ok_def calculate_time_slice_def TIME_SLICE_BASE_MS_def PRIORITY_LEVELS_def)
qed

lemma adjust_priority_ok:
  assumes "prio_ok (heap s t)"
  shows "prio_ok (heap (adjust_priority t s) t)"
proof -
  let ?x = "heap s t"
  have up: "unat (priority ?x + 1) = unat (priority ?x) + 1" if "priority ?x < PRIORITY_LOW"
    using that unat_add_no_wrap [of "priority ?x" 1] by (simp add: PRIORITY_LOW_def word_less_nat_alt)
  have down: "unat (priority ?x - 1) = unat (priority ?x) - 1" if "base_priority ?x < priority ?x"
    using that unat_sub_no_wrap [of 1 "priority ?x"] by (simp add: word_less_nat_alt)
  show ?thesis
    using assms up down
    by (simp add: adjust_priority_def Let_def prio_ok_def calculate_time_slice_def)
       (auto simp: PRIORITY_LOW_def PRIORITY_LEVELS_def word_le_nat_alt word_less_nat_alt word_unat_eq_iff)
qed

lemma update_cpu_usage_frame [simp]:
  "t_next (update_cpu_usage u t) = t_next t" "t_prev (update_cpu_usage u t) = t_prev t"
  "priority (update_cpu_usage u t) = priority t" "base_priority (update_cpu_usage u t) = base_priority t"
  "t_state (update_cpu_usage u t) = t_state t" "wake_time (update_cpu_usage u t) = wake_time t"
  "time_slice_length (update_cpu_usage u t) = time_slice_length t"
  "time_slice (update_cpu_usage u t) = time_slice t"
  by (simp_all add: update_cpu_usage_def Let_def)

lemma prio_ok_update [simp]: "prio_ok (update_cpu_usage u t) = prio_ok t"
  by (simp add: prio_ok_def)

text \<open>The 16-bit sum of eight byte samples does not wrap.\<close>

lemma sum_samples:
  assumes "n \<le> 8"
  shows "unat (fold (\<lambda>i (acc :: u16). acc + ucast (xs ! i :: u8)) [0..<n] 0) = (\<Sum>i<n. unat (xs ! i)) \<and>
     (\<Sum>i<n. unat (xs ! i)) \<le> n * 255"
  using assms
proof (induction n)
  case 0
  then show ?case by simp
next
  case (Suc n)
  let ?f = "fold (\<lambda>i (acc :: u16). acc + ucast (xs ! i :: u8)) [0..<n] 0"
  have IH: "unat ?f = (\<Sum>i<n. unat (xs ! i))" "(\<Sum>i<n. unat (xs ! i)) \<le> n * 255" using Suc by simp_all
  have x: "unat (ucast (xs ! n) :: u16) = unat (xs ! n)" "unat (xs ! n) \<le> 255"
    using unsigned_less [of "xs ! n", where ?'a = nat]
    by (simp_all add: unsigned_ucast_eq take_bit_nat_eq_self)
  have "unat (?f + ucast (xs ! n)) = unat ?f + unat (xs ! n)"
    using IH x Suc.prems by (subst unat_add_no_wrap) simp_all
  with IH x show ?case by simp
qed

lemma update_cpu_usage_avg:
  assumes "length (cpu_usage_history t) = 8" and "history_index t < 8"
  shows "unat (avg_cpu_usage (update_cpu_usage u t)) =
       (\<Sum>i<8. unat (((cpu_usage_history t)[history_index t := u]) ! i)) div 8"
    and "history_index (update_cpu_usage u t) < 8"
    and "length (cpu_usage_history (update_cpu_usage u t)) = 8"
proof -
  let ?h = "(cpu_usage_history t)[history_index t := u]"
  let ?sum = "fold (\<lambda>i (acc :: u16). acc + ucast (?h ! i)) [0..<8] 0"
  have s: "unat ?sum = (\<Sum>i<8. unat (?h ! i))" "unat ?sum \<le> 2040" using sum_samples [of 8 ?h] by simp_all
  have "unat (ucast (?sum div 8) :: u8) = unat (?sum div 8) mod 256"
    by (simp add: unsigned_ucast_eq take_bit_eq_mod)
  also have "\<dots> = unat ?sum div 8" using s(2) by (simp add: unat_div)
  finally show "unat (avg_cpu_usage (update_cpu_usage u t)) = (\<Sum>i<8. unat (?h ! i)) div 8"
    by (simp add: update_cpu_usage_def Let_def CPU_HISTORY_SAMPLES_def s(1))
  show "history_index (update_cpu_usage u t) < 8" "length (cpu_usage_history (update_cpu_usage u t)) = 8"
    using assms by (simp_all add: update_cpu_usage_def Let_def CPU_HISTORY_SAMPLES_def)
qed

section \<open>Effect of the public operations\<close>

lemma yield_prepare:
  assumes "sched_inv s rq sl" and "c = current_thread s" and "c \<noteq> 0" and "c \<notin> queued rq sl"
    and "prio_ok (heap s c)" and "scheduler_running s" and "t_state (heap s c) \<noteq> THREAD_STATE_TERMINATED"
  obtains s1 where "scheduler_yield s = schedule s1"
    and "sched_inv s1 (rq(priority (heap s1 c) := rq (priority (heap s1 c)) @ [c])) sl"
    and "current_thread s1 = c" and "idle_thread s1 = idle_thread s"
    and "scheduler_running s1" and "prio_ok (heap s1 c)"
    and "c = idle_thread s \<Longrightarrow> priority (heap s1 c) = priority (heap s c)"
proof -
  let ?s0 = "s\<lparr>need_reschedule := False\<rparr>"
  let ?u = "upd c (update_cpu_usage (slice_usage (heap s c))) ?s0"
  define s1 where "s1 = (if c \<noteq> idle_thread s \<and> 0 < time_slice_length (heap s c)
      then adjust_priority c ?u else ?s0)"
  have ok: "prio_ok (heap s1 c)"
    using assms(5) adjust_priority_ok [of ?u c] by (simp add: s1_def)
  have free: "x \<noteq> c \<Longrightarrow> heap s1 x = heap s x" for x by (simp add: s1_def adjust_priority_frame)
  have fields: "same_queues s s1" "current_thread s1 = c" "idle_thread s1 = idle_thread s" "scheduler_running s1"
    "t_state (heap s1 c) = t_state (heap s c)"
    using assms(2,6) adjust_priority_frame(2) [of ?u c] by (simp_all add: s1_def same_queues_def adjust_priority_frame)
  have inv: "sched_inv s1 rq sl"
  proof (rule sched_inv_cong [OF assms(1) fields(1)])
    fix x assume "x \<in> queued rq sl"
    with assms(4) have "x \<noteq> c" by auto
    then show "same_links (heap s x) (heap s1 x)" by (simp add: same_links_def free)
  qed
  have eq: "scheduler_yield s = schedule (enqueue_ready c s1)"
    using assms(2,3,6,7) by (simp add: scheduler_yield_def Let_def s1_def adjust_priority_frame)
  show thesis
  proof (rule that [OF eq])
    show "sched_inv (enqueue_ready c s1) (rq(priority (heap (enqueue_ready c s1) c) :=
        rq (priority (heap (enqueue_ready c s1) c)) @ [c])) sl"
      using enqueue_ready_inv [OF inv assms(3,4) refl prio_ok_less [OF ok]] by simp
    show "prio_ok (heap (enqueue_ready c s1) c)"
      using ok by (simp add: enqueue_ready_def Let_def prio_ok_def)
  qed (use fields in \<open>simp_all add: s1_def\<close>)
qed

lemma schedule_keeps_priority [simp]: "priority (heap (schedule s) x) = priority (heap s x)"
proof -
  have d: "priority (heap (snd (dequeue_ready p s)) x) = priority (heap s x)" for p
    by (simp add: dequeue_ready_def Let_def)
  have "priority (heap (snd (pick_next_thread s)) x) = priority (heap s x)"
    by (simp add: pick_next_thread_def d split: option.split)
  moreover have "priority (heap (switch_to n s') x) = priority (heap s' x)" for n s'
    by (simp add: switch_to_def Let_def gdt_set_kernel_stack_def)
  ultimately show ?thesis by (simp add: schedule_def split: prod.split) (metis snd_conv)
qed

text \<open>A tick that ends the slice of a realtime thread.\<close>

lemma tick_current_expired:
  assumes "current_thread s = c" and "c \<noteq> idle_thread s"
    and "base_priority (heap s c) = PRIORITY_REALTIME" and "time_slice (heap s c) \<le> 1"
  shows "\<exists>f. tick_current s = (enqueue_ready c (upd c f s))\<lparr>need_reschedule := True\<rparr> \<and>
     time_slice (f (heap s c)) = 0 \<and> priority (f (heap s c)) = priority (heap s c) \<and>
     base_priority (f (heap s c)) = base_priority (heap s c)"
proof -
  let ?x = "(heap s c)\<lparr>total_ticks := total_ticks (heap s c) + 1,
      ticks_used_this_slice := ticks_used_this_slice (heap s c) + 1, time_slice := 0\<rparr>"
  let ?u = "if 100 < slice_usage ?x then 100 else slice_usage ?x"
  have "time_slice (heap s c) = 0 \<or> time_slice (heap s c) = 1"
    using assms(4) by (simp add: word_le_nat_alt word_unat_eq_iff) linarith
  moreover have z: "time_slice x = 0 \<Longrightarrow> x\<lparr>total_ticks := a, ticks_used_this_slice := b, time_slice := 0\<rparr> =
      x\<lparr>total_ticks := a, ticks_used_this_slice := b\<rparr>" for x :: thread_t and a b
    by (cases x) simp
  ultimately have acc: "tick_account s = upd c (\<lambda>_. ?x) s"
    using assms(1) by (elim disjE) (simp_all add: tick_account_def Let_def z)
  have "adjust_priority c (upd c (\<lambda>_. update_cpu_usage u ?x) s) = upd c (\<lambda>_. update_cpu_usage u ?x) s" for u
    using assms(3) by (simp add: adjust_priority_def)
  then have exp: "tick_expire (upd c (\<lambda>_. ?x) s) =
      (enqueue_ready c (upd c (\<lambda>_. update_cpu_usage ?u ?x) s))\<lparr>need_reschedule := True\<rparr>"
    using assms(1) by (simp add: tick_expire_def Let_def)
  have "tick_current s = tick_expire (upd c (\<lambda>_. ?x) s)"
    using assms(1,2) by (simp add: tick_current_def acc)
  with exp show ?thesis by (intro exI [of _ "\<lambda>_. update_cpu_usage ?u ?x"]) simp
qed

section \<open>Properties\<close>

text \<open>
  A scheduler for the witnesses: thread 0x1000 runs, 0x2000 is ready with the same priority, the
  idle thread is 0x9000.
\<close>

definition sample_thread :: thread_t where
  "sample_thread = zero_thread\<lparr>priority := 3, base_priority := 3, time_slice_length := 22,
     time_slice := 1, t_state := THREAD_STATE_RUNNING, ticks_used_this_slice := 21\<rparr>"

definition sample_empty :: sched where
  "sample_empty = sample_sched\<lparr>heap := (\<lambda>_. sample_thread), scheduler_running := True,
     current_thread := 0x1000, idle_thread := 0x9000\<rparr>"

definition sample_ready :: sched where
  "sample_ready = scheduler_add 0x2000 sample_empty"

lemma ready_count_empty [simp]: "ready_count (\<lambda>_. []) = 0"
  by (simp add: ready_count_def)

lemma sample_empty_inv: "sched_inv sample_empty (\<lambda>_. []) []"
  by (simp add: sched_inv_def queue_ok_def sleep_ok_def sample_empty_def sample_sched_def zero_stats_def)

lemma sample_ready_inv: "sched_inv sample_ready ((\<lambda>_. [])(3 := [0x2000])) []"
proof -
  have "sched_inv (enqueue_ready 0x2000 sample_empty) ((\<lambda>_. [])(3 := [] @ [0x2000])) []"
    by (rule enqueue_ready_inv [OF sample_empty_inv])
      (simp_all add: queued_def sample_empty_def sample_thread_def PRIORITY_LEVELS_def)
  then show ?thesis by (simp add: sample_ready_def scheduler_add_def)
qed

lemma sample_ready_fields:
  "current_thread sample_ready = 0x1000" "idle_thread sample_ready = 0x9000" "scheduler_running sample_ready"
  "prio_ok (heap sample_ready 0x1000)" "t_state (heap sample_ready 0x1000) = THREAD_STATE_RUNNING"
proof -
  have "heap sample_ready 0x1000 = sample_thread"
    by (simp add: sample_ready_def scheduler_add_def enqueue_ready_def Let_def sample_empty_def sample_sched_def)
  then show "prio_ok (heap sample_ready 0x1000)" "t_state (heap sample_ready 0x1000) = THREAD_STATE_RUNNING"
    by (simp_all add: sample_thread_def prio_ok_def PRIORITY_LEVELS_def PRIORITY_LOW_def
        calculate_time_slice_def TIME_SLICE_BASE_MS_def)
qed (simp_all add: sample_ready_def scheduler_add_def sample_empty_def sample_sched_def)

lemma sample_ready_queued: "0x1000 \<notin> queued ((\<lambda>_. [])(3 := [0x2000])) []" "0x9000 \<notin> queued ((\<lambda>_. [])(3 := [0x2000])) []"
  by (auto simp: queued_def split: if_splits)

text \<open>
  C3. Yielding is strict priority with round robin: the yielding thread joins the tail of the queue
  of its (possibly adjusted) priority, and the head of the highest non-empty queue runs next. The
  queues stay well-formed, every other queued thread keeps its place, and no thread is lost or
  duplicated.
\<close>

theorem scheduler_yield_round_robin:
  assumes "sched_inv s rq sl" and "scheduler_running s"
    and "c = current_thread s" and "c \<noteq> 0" and "c \<notin> queued rq sl" and "c \<noteq> idle_thread s"
    and "idle_thread s \<notin> queued rq sl" and "prio_ok (heap s c)"
    and "t_state (heap s c) \<noteq> THREAD_STATE_TERMINATED"
    and "s' = scheduler_yield s" and "p' = priority (heap s' c)"
  shows "\<exists>p t ts. top_priority (rq(p' := rq p' @ [c])) p \<and> (rq(p' := rq p' @ [c])) p = t # ts \<and>
     current_thread s' = t \<and> sched_inv s' (rq(p' := rq p' @ [c], p := ts)) sl \<and>
     (t \<noteq> c \<longrightarrow> t_state (heap s' t) = THREAD_STATE_RUNNING) \<and> p' < PRIORITY_LEVELS"
proof -
  from yield_prepare [OF assms(1,3-5,8,2,9)] obtain s1 where s1: "scheduler_yield s = schedule s1"
    "sched_inv s1 (rq(priority (heap s1 c) := rq (priority (heap s1 c)) @ [c])) sl"
    "current_thread s1 = c" "idle_thread s1 = idle_thread s" "prio_ok (heap s1 c)" by metis
  have p: "priority (heap s1 c) = p'" using s1(1) by (simp add: assms(10,11))
  let ?rq = "rq(p' := rq p' @ [c])"
  have inv: "sched_inv s1 ?rq sl" using s1(2) by (simp add: p)
  have idle: "idle_thread s1 \<notin> queued ?rq sl" using assms(6,7) s1(4) by (simp add: not_queued)
  have lt: "p' < PRIORITY_LEVELS" using prio_ok_less [OF s1(5)] p by simp
  show ?thesis
  proof (cases rule: schedule_cases [OF inv idle, case_names R I])
    case (R p t ts)
    then show ?thesis using s1(1,3) lt assms(10) by (intro exI [of _ p] exI [of _ t] exI [of _ ts]) simp
  next
    case I
    then have "?rq p' = []" by blast
    then show ?thesis by simp
  qed
qed

theorem scheduler_yield_round_robin_witness:
  "current_thread (scheduler_yield sample_ready) = 0x2000"
proof -
  note f = sample_ready_fields
  let ?p' = "priority (heap (scheduler_yield sample_ready) 0x1000)"
  have p': "?p' = 3" by code_simp
  let ?rq = "(\<lambda>_. [])(3 := [0x2000 :: u64])"
  have n: "(0x1000 :: u64) \<noteq> 0" "0x1000 \<noteq> idle_thread sample_ready"
    "idle_thread sample_ready \<notin> queued ?rq []"
    "t_state (heap sample_ready 0x1000) \<noteq> THREAD_STATE_TERMINATED"
    using sample_ready_queued(2) by (simp_all add: f)
  from scheduler_yield_round_robin [OF sample_ready_inv f(3) f(1) [symmetric] n(1) sample_ready_queued(1)
      n(2,3) f(4) n(4) refl refl]
  obtain p t ts where t: "(?rq(?p' := ?rq ?p' @ [0x1000])) p = t # ts"
    "current_thread (scheduler_yield sample_ready) = t" by blast
  from t(1) have "t = 0x2000" unfolding p' by (cases "p = 3") simp_all
  with t(2) show ?thesis by simp
qed

text \<open>
  \<open>pick_next_thread\<close> takes the longest waiting thread of the highest priority that has a
  ready thread, removing exactly that thread from the queues, and falls back to the idle thread
  only when every queue is empty.
\<close>

theorem pick_next_thread_highest:
  assumes "sched_inv s rq sl"
  shows "(\<exists>p t ts. top_priority rq p \<and> rq p = t # ts \<and> fst (pick_next_thread s) = t \<and>
            sched_inv (snd (pick_next_thread s)) (rq(p := ts)) sl) \<or>
         ((\<forall>p. rq p = []) \<and> pick_next_thread s = (idle_thread s, s))"
proof (cases rule: pick_next_cases [OF assms, case_names R I])
  case (R p t ts)
  then show ?thesis by (intro disjI1 exI [of _ p] exI [of _ t] exI [of _ ts]) simp
next
  case I
  then show ?thesis by simp
qed

theorem pick_next_thread_highest_witness:
  "fst (pick_next_thread sample_ready) = 0x2000"
  using pick_next_thread_highest [OF sample_ready_inv] by (auto split: if_splits)

text \<open>
  C15. Sleeping keeps the sleep queue sorted by wake time: putting the current thread to sleep
  terminates, inserts it after every sleeper that wakes no later, changes no other queue, and hands
  the processor to the next ready thread, or to the idle thread when there is none.
\<close>

theorem scheduler_sleep_sorted:
  assumes "sched_inv s rq sl" and "c = current_thread s" and "c \<noteq> 0" and "c \<notin> queued rq sl"
    and "c \<noteq> idle_thread s" and "idle_thread s \<notin> queued rq sl" and "priority (heap s c) < PRIORITY_LEVELS"
    and "sl' = sleep_insert ((wake s)(c := w)) c sl"
  shows "\<exists>s'. scheduler_sleep c w s = Some s' \<and>
     ((\<exists>p t ts. top_priority rq p \<and> rq p = t # ts \<and> current_thread s' = t \<and>
         sched_inv s' (rq(p := ts)) sl') \<or>
      ((\<forall>p. rq p = []) \<and> current_thread s' = idle_thread s \<and> sched_inv s' rq sl'))"
proof -
  let ?s = "upd c (\<lambda>x. x\<lparr>wake_time := w\<rparr>) s"
  have inv: "sched_inv ?s rq sl" by (rule sched_inv_upd_free [OF assms(1,4)])
  have pr: "priority (heap ?s c) < PRIORITY_LEVELS" using assms(7) by simp
  have w: "wake ?s = (wake s)(c := w)" by (simp add: fun_eq_iff)
  from enqueue_sleep_inv [OF inv assms(3,4) pr] obtain s1 where s1: "enqueue_sleep c ?s = Some s1"
    "sched_inv s1 rq (sleep_insert (wake ?s) c sl)" "current_thread s1 = current_thread ?s"
    "idle_thread s1 = idle_thread ?s" by blast
  then have inv1: "sched_inv s1 rq sl'" using assms(8) w by simp
  have fields: "current_thread s1 = c" "idle_thread s1 = idle_thread s" using s1(3,4) assms(2) by simp_all
  then have eq: "scheduler_sleep c w s = Some (schedule s1)" by (simp add: scheduler_sleep_def s1(1))
  have "set sl' = insert c (set sl)" unfolding assms(8) by (rule set_sleep_insert)
  then have idle: "idle_thread s1 \<notin> queued rq sl'" using assms(5,6) fields by (auto simp: not_queued)
  show ?thesis
  proof (cases rule: schedule_cases [OF inv1 idle, case_names R I])
    case (R p t ts)
    then show ?thesis unfolding eq by blast
  next
    case I
    then show ?thesis using fields(2) unfolding eq by auto
  qed
qed

theorem scheduler_sleep_sorted_witness:
  "\<exists>s'. scheduler_sleep 0x1000 50 sample_ready = Some s' \<and> current_thread s' = 0x2000"
proof -
  note f = sample_ready_fields
  let ?rq = "(\<lambda>_ :: u8. [])(3 := [0x2000 :: u64])"
  have n: "(0x1000 :: u64) \<noteq> 0" "0x1000 \<noteq> idle_thread sample_ready"
    "idle_thread sample_ready \<notin> queued ?rq []"
    using sample_ready_queued(2) by (simp_all add: f)
  from scheduler_sleep_sorted [OF sample_ready_inv f(1) [symmetric] n(1) sample_ready_queued(1) n(2,3)
      prio_ok_less [OF f(4)] refl, of 50]
  obtain s' where s': "scheduler_sleep 0x1000 50 sample_ready = Some s'"
    "(\<exists>p t ts. top_priority ?rq p \<and> ?rq p = t # ts \<and> current_thread s' = t) \<or> (\<forall>p. ?rq p = [])"
    by blast
  from s'(2) have "current_thread s' = 0x2000" by (auto split: if_splits)
  with s'(1) show ?thesis by blast
qed

text \<open>
  C14. The tick wakes exactly the threads that are due: \<open>wake_expired_sleepers\<close> terminates, moves
  every sleeper whose wake time has passed to the tail of its ready queue, in wake order, and leaves
  in the sleep queue only sleepers that are not yet due.
\<close>

theorem wake_expired_sleepers_exact:
  assumes "sched_inv s rq sl"
  shows "\<exists>s'. wake_expired_sleepers s = Some s' \<and>
     sched_inv s' (wake_into (\<lambda>t. priority (heap s t)) (takeWhile (\<lambda>t. wake s t \<le> ticks s) sl) rq)
       (dropWhile (\<lambda>t. wake s t \<le> ticks s) sl) \<and>
     (\<forall>t\<in>set (dropWhile (\<lambda>t. wake s t \<le> ticks s) sl). ticks s < wake s t)"
proof -
  let ?es = "takeWhile (\<lambda>t. wake s t \<le> ticks s) sl" and ?rest = "dropWhile (\<lambda>t. wake s t \<le> ticks s) sl"
  have srt: "sorted (map (wake s) sl)" using assms by (simp add: sched_inv_def sleep_ok_def)
  have due: "\<forall>x\<in>set ?es. wake s x \<le> ticks s" using set_takeWhileD by fast
  have rest: "ticks s < wake s t" if "t \<in> set ?rest" for t
    by (rule sorted_dropWhile_gt [OF srt that])
  have "?rest \<noteq> [] \<longrightarrow> ticks s < wake s (hd0 ?rest)" using rest hd0_cases by blast
  from wake_loop_inv [of s rq ?es ?rest "ticks s"] assms due this rest show ?thesis
    by (auto simp: wake_expired_sleepers_def timer_get_ticks_def)
qed

text \<open>At tick 10, two threads sleep until ticks 5 and 7 and one until tick 50.\<close>

definition sample_asleep :: sched where
  "sample_asleep = sample_empty\<lparr>heap := (\<lambda>t. sample_thread\<lparr>t_state := THREAD_STATE_SLEEPING,
       wake_time := (if t = 0x3000 then 5 else if t = 0x4000 then 7 else 50),
       t_next := (if t = 0x3000 then 0x4000 else if t = 0x4000 then 0x5000 else 0)\<rparr>),
     sleep_queue := 0x3000, ticks := 10, stats := (stats sample_empty)\<lparr>threads_sleeping := 3\<rparr>\<rparr>"

lemma sample_asleep_inv: "sched_inv sample_asleep (\<lambda>_. []) [0x3000, 0x4000, 0x5000]"
  by (simp add: sched_inv_def queue_ok_def sleep_ok_def sample_asleep_def sample_empty_def sample_thread_def sample_sched_def
      zero_stats_def PRIORITY_LEVELS_def)

theorem wake_expired_sleepers_exact_witness:
  "\<exists>s'. wake_expired_sleepers sample_asleep = Some s' \<and>
     sched_inv s' ((\<lambda>_. [])(3 := [0x3000, 0x4000])) [0x5000]"
proof -
  have "wake sample_asleep t = (if t = 0x3000 then 5 else if t = 0x4000 then 7 else 50)" "priority (heap sample_asleep t) = 3"
    "ticks sample_asleep = 10" for t
    by (simp_all add: sample_asleep_def sample_thread_def)
  then show ?thesis
    using wake_expired_sleepers_exact [OF sample_asleep_inv] by (simp add: wake_into_def)
qed

text \<open>
  Waking a blocked thread: \<open>scheduler_unblock\<close> puts a blocked thread at the tail of the queue of
  its priority, keeps every queue well-formed, and does nothing to a thread that is not blocked.
\<close>

theorem scheduler_unblock_requeues:
  assumes "sched_inv s rq sl" and "t \<noteq> 0" and "t \<notin> queued rq sl" and "priority (heap s t) = p"
    and "p < PRIORITY_LEVELS"
  shows "sched_inv (scheduler_unblock t s)
     (if t_state (heap s t) = THREAD_STATE_BLOCKED then rq(p := rq p @ [t]) else rq) sl"
proof -
  let ?s = "s\<lparr>stats := (stats s)\<lparr>threads_blocked := threads_blocked (stats s) - 1\<rparr>\<rparr>"
  have "sched_inv ?s rq sl"
    by (rule sched_inv_cong [OF assms(1)]) (simp_all add: same_queues_def same_links_def)
  from enqueue_ready_inv [OF this assms(2,3) _ assms(5)] assms(1,4) show ?thesis
    by (simp add: scheduler_unblock_def)
qed

theorem scheduler_unblock_requeues_witness:
  "sched_inv (scheduler_unblock 0x3000 (upd 0x3000 (\<lambda>x. x\<lparr>t_state := THREAD_STATE_BLOCKED\<rparr>) sample_empty))
     ((\<lambda>_. [])(3 := [0x3000])) []"
proof -
  let ?s = "upd 0x3000 (\<lambda>x. x\<lparr>t_state := THREAD_STATE_BLOCKED\<rparr>) sample_empty"
  have q: "0x3000 \<notin> queued (\<lambda>_. []) []" by (simp add: queued_def)
  have "sched_inv ?s (\<lambda>_. []) []" by (rule sched_inv_upd_free [OF sample_empty_inv q])
  moreover have "priority (heap ?s 0x3000) = 3" by (simp add: sample_empty_def sample_thread_def)
  ultimately show ?thesis
    using scheduler_unblock_requeues [of ?s "\<lambda>_. []" "[]" "0x3000" 3] q by (simp add: PRIORITY_LEVELS_def)
qed

text \<open>
  Adaptive priority stays within bounds: adjusting a thread moves its priority by at most one
  level, never above its base priority and never below \<open>PRIORITY_LOW\<close> (or its base, if lower), and
  keeps the time slice of the new priority; realtime threads and the idle thread are left alone.
\<close>

theorem adjust_priority_bounds:
  assumes "prio_ok (heap s t)"
  shows "prio_ok (heap (adjust_priority t s) t) \<and>
     priority (heap (adjust_priority t s) t) < PRIORITY_LEVELS \<and>
     (t = idle_thread s \<or> base_priority (heap s t) = PRIORITY_REALTIME \<longrightarrow> adjust_priority t s = s) \<and>
     priority (heap (adjust_priority t s) t) \<in>
       {priority (heap s t), priority (heap s t) + 1, priority (heap s t) - 1} \<and>
     (\<forall>x. x \<noteq> t \<longrightarrow> heap (adjust_priority t s) x = heap s x)"
proof (intro conjI)
  show "prio_ok (heap (adjust_priority t s) t)" by (rule adjust_priority_ok [OF assms])
  then show "priority (heap (adjust_priority t s) t) < PRIORITY_LEVELS" by (rule prio_ok_less)
  show "priority (heap (adjust_priority t s) t) \<in>
       {priority (heap s t), priority (heap s t) + 1, priority (heap s t) - 1}"
    by (simp add: adjust_priority_def Let_def)
qed (auto simp: adjust_priority_def adjust_priority_frame)

theorem adjust_priority_bounds_witness:
  "prio_ok (heap (adjust_priority 0x1000 sample_ready) 0x1000)"
  using adjust_priority_bounds [OF sample_ready_fields(4)] by simp

text \<open>
  The usage average is exact: \<open>update_cpu_usage\<close> stores the floor of the mean of the eight most
  recent samples; neither the 16-bit sum nor the conversion to a byte loses anything, and the ring
  index stays in range.
\<close>

theorem update_cpu_usage_mean:
  assumes "length (cpu_usage_history t) = CPU_HISTORY_SAMPLES" and "history_index t < CPU_HISTORY_SAMPLES"
  shows "unat (avg_cpu_usage (update_cpu_usage u t)) =
       (\<Sum>i<CPU_HISTORY_SAMPLES. unat (cpu_usage_history (update_cpu_usage u t) ! i)) div 8 \<and>
     cpu_usage_history (update_cpu_usage u t) = (cpu_usage_history t)[history_index t := u] \<and>
     history_index (update_cpu_usage u t) < CPU_HISTORY_SAMPLES"
proof -
  have h: "cpu_usage_history (update_cpu_usage u t) = (cpu_usage_history t)[history_index t := u]"
    by (simp add: update_cpu_usage_def Let_def)
  show ?thesis using update_cpu_usage_avg [of t u] assms unfolding h CPU_HISTORY_SAMPLES_def by simp
qed

theorem update_cpu_usage_mean_witness:
  "unat (avg_cpu_usage (update_cpu_usage 90 (zero_thread\<lparr>cpu_usage_history := replicate 8 50\<rparr>))) = 55"
proof -
  let ?t = "zero_thread\<lparr>cpu_usage_history := replicate 8 50\<rparr>"
  have "length (cpu_usage_history ?t) = CPU_HISTORY_SAMPLES" "history_index ?t < CPU_HISTORY_SAMPLES"
    by (simp_all add: CPU_HISTORY_SAMPLES_def zero_thread_def)
  from update_cpu_usage_mean [OF this, of 90]
  have "unat (avg_cpu_usage (update_cpu_usage 90 ?t)) =
      (\<Sum>i<CPU_HISTORY_SAMPLES. unat (cpu_usage_history (update_cpu_usage 90 ?t) ! i)) div 8" by blast
  also have "\<dots> = 55" by code_simp
  finally show ?thesis .
qed

text \<open>
  C40. Preemption corrupts the ready queue: when the time slice of a realtime thread runs out,
  \<open>scheduler_tick\<close> puts the running thread into its ready queue but leaves it running with an empty
  slice, so the next tick puts it in again and the thread becomes its own successor.
\<close>

theorem double_tick_self_loop:
  assumes "scheduler_running s" and "c = current_thread s" and "c \<noteq> 0" and "c \<noteq> idle_thread s"
    and "sleep_queue s = 0" and "base_priority (heap s c) = PRIORITY_REALTIME"
    and "time_slice (heap s c) \<le> 1" and "ready_queue_tails s (priority (heap s c)) \<noteq> c"
  shows "\<exists>s1 s2. timer_irq_handler s = Some s1 \<and> timer_irq_handler s1 = Some s2 \<and>
     current_thread s2 = c \<and> nxt s2 c = c"
proof -
  have tick: "scheduler_tick s = Some (tick_current s)"
    if "scheduler_running s" "current_thread s = c" "sleep_queue s = 0" "c \<noteq> idle_thread s" for s
    using that assms(3)
    by (simp add: scheduler_tick_def Let_def wake_expired_sleepers_def) (subst wake_loop.simps, simp)
  have expired: "time_slice (heap (tick_current s) c) = 0 \<and> current_thread (tick_current s) = c \<and>
      scheduler_running (tick_current s) = scheduler_running s \<and> sleep_queue (tick_current s) = 0 \<and>
      idle_thread (tick_current s) = idle_thread s \<and>
      base_priority (heap (tick_current s) c) = PRIORITY_REALTIME \<and>
      priority (heap (tick_current s) c) = priority (heap s c) \<and>
      ready_queue_tails (tick_current s) (priority (heap s c)) = c \<and>
      (ready_queue_tails s (priority (heap s c)) = c \<longrightarrow> nxt (tick_current s) c = c)"
    if s: "current_thread s = c" "sleep_queue s = 0" "c \<noteq> idle_thread s"
      "base_priority (heap s c) = PRIORITY_REALTIME" "time_slice (heap s c) \<le> 1" for s
  proof -
    from tick_current_expired [OF s(1,3,4,5)] obtain f where f:
      "tick_current s = (enqueue_ready c (upd c f s))\<lparr>need_reschedule := True\<rparr>"
      "time_slice (f (heap s c)) = 0" "priority (f (heap s c)) = priority (heap s c)"
      "base_priority (f (heap s c)) = base_priority (heap s c)" by blast
    show ?thesis using s f(2-4) assms(3) unfolding f(1) by (simp add: enqueue_ready_def Let_def)
  qed
  let ?s0 = "s\<lparr>ticks := ticks s + 1\<rparr>"
  let ?s1 = "(tick_current ?s0)\<lparr>pic_eois := pic_eois (tick_current ?s0) + 1\<rparr>"
  let ?s1' = "?s1\<lparr>ticks := ticks ?s1 + 1\<rparr>"
  let ?s2 = "(tick_current ?s1')\<lparr>pic_eois := pic_eois (tick_current ?s1') + 1\<rparr>"
  have e0: "current_thread ?s0 = c" "sleep_queue ?s0 = 0" "c \<noteq> idle_thread ?s0"
    "base_priority (heap ?s0 c) = PRIORITY_REALTIME" "time_slice (heap ?s0 c) \<le> 1"
    using assms by simp_all
  note x1 = expired [OF e0]
  have e1: "current_thread ?s1' = c" "sleep_queue ?s1' = 0" "c \<noteq> idle_thread ?s1'"
    "base_priority (heap ?s1' c) = PRIORITY_REALTIME" "time_slice (heap ?s1' c) \<le> 1"
    using x1 assms(4) by simp_all
  note x2 = expired [OF e1]
  have "timer_irq_handler s = Some ?s1"
    using tick [of ?s0] assms by (simp add: timer_irq_handler_def)
  moreover have "timer_irq_handler ?s1 = Some ?s2"
    using tick [of ?s1'] e1 x1 assms(1) by (simp add: timer_irq_handler_def)
  moreover have "current_thread ?s2 = c" "nxt ?s2 c = c" using x1 x2 by simp_all
  ultimately show ?thesis by blast
qed

theorem double_tick_self_loop_witness:
  "\<exists>s1 s2. timer_irq_handler (upd 0x1000 (\<lambda>x. x\<lparr>base_priority := 0, priority := 0\<rparr>) sample_empty) = Some s1 \<and>
     timer_irq_handler s1 = Some s2 \<and> current_thread s2 = 0x1000 \<and> nxt s2 0x1000 = 0x1000"
proof -
  let ?s = "upd 0x1000 (\<lambda>x. x\<lparr>base_priority := 0, priority := 0\<rparr>) sample_empty"
  have "scheduler_running ?s" "0x1000 = current_thread ?s" "(0x1000 :: u64) \<noteq> 0"
    "0x1000 \<noteq> idle_thread ?s" "sleep_queue ?s = 0" "base_priority (heap ?s 0x1000) = PRIORITY_REALTIME"
    "time_slice (heap ?s 0x1000) \<le> 1" "ready_queue_tails ?s (priority (heap ?s 0x1000)) \<noteq> 0x1000"
    by (simp_all add: sample_empty_def sample_sched_def sample_thread_def PRIORITY_REALTIME_def)
  from double_tick_self_loop [OF this] show ?thesis .
qed

text \<open>
  Usage percentages wrap around: the recorded usage is the true percentage modulo 256, taken
  before the clamp to 100, so a thread that used 256\<open>%\<close> of its slice counts as idle.
\<close>

theorem slice_usage_wraps:
  assumes "unat (ticks_used_this_slice t) * 100 < 2 ^ 64"
  shows "unat (slice_usage t) =
     (unat (ticks_used_this_slice t) * 100 div unat (time_slice_length t)) mod 256"
proof -
  have "unat (ticks_used_this_slice t * 100) = unat (ticks_used_this_slice t) * 100"
    using assms by (simp add: unat_word_ariths)
  moreover have "unat (ucast (time_slice_length t) :: u64) = unat (time_slice_length t)"
    using unsigned_less [of "time_slice_length t", where ?'a = nat]
    by (simp add: unsigned_ucast_eq take_bit_nat_eq_self)
  ultimately show ?thesis
    by (simp add: slice_usage_def unsigned_ucast_eq take_bit_eq_mod unat_div)
qed

theorem slice_usage_wraps_witness:
  "unat (slice_usage (zero_thread\<lparr>ticks_used_this_slice := 64, time_slice_length := 25\<rparr>)) = 0"
  using slice_usage_wraps [of "zero_thread\<lparr>ticks_used_this_slice := 64, time_slice_length := 25\<rparr>"] by simp

end
