(* ===== verification/E1000.thy ===== *)
theory E1000
  imports Pmm Ring_Fifo
begin

text \<open>
  The Intel E1000 network card driver (\<^verbatim>\<open>drivers/e1000.c\<close>): descriptor rings, transmission,
  reception, ring set-up from the page allocator, and the MAC address registers.

  The card is outside the program. \<open>mmio_read\<close> is what its registers answer (never changed by
  the driver), \<open>mmio_log\<close> the register writes in order, \<open>page_mem\<close> the contents of the DMA pages by
  their kernel virtual address. Descriptor rings are lists of the 32 descriptors in use.
  Probing and the MMIO mapping are in \<open>E1000_Probe\<close>.
\<close>

section \<open>Registers and descriptors\<close>

definition E1000_CTRL :: u32 where "E1000_CTRL = 0x00000"
definition E1000_STATUS :: u32 where "E1000_STATUS = 0x00008"
definition E1000_ICR :: u32 where "E1000_ICR = 0x000C0"
definition E1000_IMS :: u32 where "E1000_IMS = 0x000D0"
definition E1000_IMC :: u32 where "E1000_IMC = 0x000D8"
definition E1000_RCTL :: u32 where "E1000_RCTL = 0x00100"
definition E1000_RDBAL :: u32 where "E1000_RDBAL = 0x02800"
definition E1000_RDBAH :: u32 where "E1000_RDBAH = 0x02804"
definition E1000_RDLEN :: u32 where "E1000_RDLEN = 0x02808"
definition E1000_RDH :: u32 where "E1000_RDH = 0x02810"
definition E1000_RDT :: u32 where "E1000_RDT = 0x02818"
definition E1000_TCTL :: u32 where "E1000_TCTL = 0x00400"
definition E1000_TDBAL :: u32 where "E1000_TDBAL = 0x03800"
definition E1000_TDBAH :: u32 where "E1000_TDBAH = 0x03804"
definition E1000_TDLEN :: u32 where "E1000_TDLEN = 0x03808"
definition E1000_TDH :: u32 where "E1000_TDH = 0x03810"
definition E1000_TDT :: u32 where "E1000_TDT = 0x03818"
definition E1000_RAL :: u32 where "E1000_RAL = 0x05400"
definition E1000_RAH :: u32 where "E1000_RAH = 0x05404"
definition E1000_CTRL_RST :: u32 where "E1000_CTRL_RST = 0x04000000"
definition E1000_RCTL_EN :: u32 where "E1000_RCTL_EN = 0x00000002"
definition E1000_RCTL_UPE :: u32 where "E1000_RCTL_UPE = 0x00000008"
definition E1000_RCTL_MPE :: u32 where "E1000_RCTL_MPE = 0x00000010"
definition E1000_RCTL_BAM :: u32 where "E1000_RCTL_BAM = 0x00008000"
definition E1000_RCTL_SZ_2048 :: u32 where "E1000_RCTL_SZ_2048 = 0x00000000"
definition E1000_RCTL_SECRC :: u32 where "E1000_RCTL_SECRC = 0x04000000"
definition E1000_TCTL_EN :: u32 where "E1000_TCTL_EN = 0x00000002"
definition E1000_TCTL_PSP :: u32 where "E1000_TCTL_PSP = 0x00000008"
definition E1000_ICR_TXDW :: u32 where "E1000_ICR_TXDW = 0x00000001"
definition E1000_ICR_LSC :: u32 where "E1000_ICR_LSC = 0x00000004"
definition E1000_ICR_RXT0 :: u32 where "E1000_ICR_RXT0 = 0x00000080"

definition E1000_RXD_STAT_DD :: u8 where "E1000_RXD_STAT_DD = 0x01"
definition E1000_TXD_CMD_EOP :: u8 where "E1000_TXD_CMD_EOP = 0x01"
definition E1000_TXD_CMD_IFCS :: u8 where "E1000_TXD_CMD_IFCS = 0x02"
definition E1000_TXD_CMD_RS :: u8 where "E1000_TXD_CMD_RS = 0x08"
definition E1000_TXD_STAT_DD :: u8 where "E1000_TXD_STAT_DD = 0x01"

definition E1000_NUM_RX_DESC :: nat where "E1000_NUM_RX_DESC = 32"
definition E1000_NUM_TX_DESC :: nat where "E1000_NUM_TX_DESC = 32"
definition E1000_BUFFER_SIZE :: nat where "E1000_BUFFER_SIZE = 2048"

record e1000_rx_desc_t =
  rx_buffer_addr :: u64
  rx_length :: u16
  rx_checksum :: u16
  rx_status :: u8
  rx_errors :: u8
  rx_special :: u16

record e1000_tx_desc_t =
  tx_buffer_addr :: u64
  tx_length :: u16
  tx_cso :: u8
  tx_cmd :: u8
  tx_status :: u8
  tx_css :: u8
  tx_special :: u16

record e1000_device_t =
  mmio_base :: u64
  dev_mac_address :: "u8 list"
  rx_desc :: "e1000_rx_desc_t list"
  rx_buffers :: "u64 list"
  rx_cur :: u16
  tx_desc :: "e1000_tx_desc_t list"
  tx_buffers :: "u64 list"
  tx_cur :: u16
  e1000_initialized :: bool
  page_mem :: "u64 \<Rightarrow> u8 list"
  mmio_read :: "u32 \<Rightarrow> u32"
  mmio_log :: "(u32 \<times> u32) list"

definition zero_rx_desc :: e1000_rx_desc_t where
  "zero_rx_desc = \<lparr>rx_buffer_addr = 0, rx_length = 0, rx_checksum = 0, rx_status = 0,
     rx_errors = 0, rx_special = 0\<rparr>"

definition zero_tx_desc :: e1000_tx_desc_t where
  "zero_tx_desc = \<lparr>tx_buffer_addr = 0, tx_length = 0, tx_cso = 0, tx_cmd = 0, tx_status = 0,
     tx_css = 0, tx_special = 0\<rparr>"

section \<open>Operations\<close>

definition e1000_read_reg :: "e1000_device_t \<Rightarrow> u32 \<Rightarrow> u32" where
  "e1000_read_reg dev reg = (if mmio_base dev = 0 then 0xFFFFFFFF else mmio_read dev reg)"

definition e1000_write_reg :: "u32 \<Rightarrow> u32 \<Rightarrow> e1000_device_t \<Rightarrow> e1000_device_t" where
  "e1000_write_reg reg val dev =
     (if mmio_base dev = 0 then dev else dev\<lparr>mmio_log := mmio_log dev @ [(reg, val)]\<rparr>)"

definition e1000_reset :: "e1000_device_t \<Rightarrow> e1000_device_t" where
  "e1000_reset dev =
     (if mmio_base dev = 0 then dev
      else e1000_write_reg E1000_IMC 0xFFFFFFFF (e1000_write_reg E1000_CTRL E1000_CTRL_RST dev))"

definition e1000_read_mac_address :: "e1000_device_t \<Rightarrow> e1000_device_t" where
  "e1000_read_mac_address dev =
     (let ral = e1000_read_reg dev E1000_RAL;
          rah = e1000_read_reg dev E1000_RAH;
          mac = map (\<lambda>w. ucast w :: u8)
                 [ral AND 0xFF, drop_bit 8 ral AND 0xFF, drop_bit 16 ral AND 0xFF,
                  drop_bit 24 ral AND 0xFF, rah AND 0xFF, drop_bit 8 rah AND 0xFF]
      in if list_all (\<lambda>b. b = 0) mac
         then let mac = [0x52, 0x54, 0x00, 0x12, 0x34, 0x56]
              in e1000_write_reg E1000_RAH
                   (ucast (mac ! 4) OR push_bit 8 (ucast (mac ! 5)) OR push_bit 31 1)
                   (e1000_write_reg E1000_RAL
                     (ucast (mac ! 0) OR push_bit 8 (ucast (mac ! 1)) OR
                      push_bit 16 (ucast (mac ! 2)) OR push_bit 24 (ucast (mac ! 3)))
                     (dev\<lparr>dev_mac_address := mac\<rparr>))
         else dev\<lparr>dev_mac_address := mac\<rparr>)"

text \<open>
  The buffer loops of the two set-up functions: one page per descriptor from index \<open>i\<close> on;
  False when the allocator has no page left.
\<close>

fun rx_fill :: "u64 \<Rightarrow> nat list \<Rightarrow> e1000_device_t \<Rightarrow> pmm \<Rightarrow> bool \<times> e1000_device_t \<times> pmm" where
  "rx_fill hhdm [] dev s = (True, dev, s)"
| "rx_fill hhdm (i # is) dev s =
     (case physical_alloc_page s of
        (buf_phys, s) \<Rightarrow>
          if buf_phys = 0 then (False, dev, s)
          else rx_fill hhdm is
                 (dev\<lparr>rx_buffers := (rx_buffers dev)[i := buf_phys + hhdm],
                      rx_desc := (rx_desc dev)[i := (rx_desc dev ! i)
                        \<lparr>rx_buffer_addr := buf_phys, rx_status := 0\<rparr>]\<rparr>) s)"

fun tx_fill :: "u64 \<Rightarrow> nat list \<Rightarrow> e1000_device_t \<Rightarrow> pmm \<Rightarrow> bool \<times> e1000_device_t \<times> pmm" where
  "tx_fill hhdm [] dev s = (True, dev, s)"
| "tx_fill hhdm (i # is) dev s =
     (case physical_alloc_page s of
        (buf_phys, s) \<Rightarrow>
          if buf_phys = 0 then (False, dev, s)
          else tx_fill hhdm is
                 (dev\<lparr>tx_buffers := (tx_buffers dev)[i := buf_phys + hhdm],
                      tx_desc := (tx_desc dev)[i := (tx_desc dev ! i)
                        \<lparr>tx_buffer_addr := buf_phys, tx_status := E1000_TXD_STAT_DD\<rparr>]\<rparr>) s)"

definition rx_registers :: "u64 \<Rightarrow> e1000_device_t \<Rightarrow> e1000_device_t" where
  "rx_registers rx_desc_phys dev =
     (if mmio_base dev \<noteq> 0 then
        e1000_write_reg E1000_RCTL (E1000_RCTL_EN OR E1000_RCTL_BAM OR E1000_RCTL_SZ_2048 OR
            E1000_RCTL_SECRC OR E1000_RCTL_UPE OR E1000_RCTL_MPE)
         (e1000_write_reg E1000_RDT (of_nat (E1000_NUM_RX_DESC - 1))
         (e1000_write_reg E1000_RDH 0
         (e1000_write_reg E1000_RDLEN (of_nat (E1000_NUM_RX_DESC * 16))
         (e1000_write_reg E1000_RDBAL (ucast rx_desc_phys)
         (e1000_write_reg E1000_RDBAH 0 dev)))))
      else dev)"

definition e1000_rx_init :: "u64 \<Rightarrow> e1000_device_t \<Rightarrow> pmm \<Rightarrow> int \<times> e1000_device_t \<times> pmm" where
  "e1000_rx_init hhdm dev s =
     (case physical_alloc_page s of
        (rx_desc_phys, s) \<Rightarrow>
          if rx_desc_phys = 0 then (- 1, dev, s)
          else let dev = dev\<lparr>rx_desc := replicate E1000_NUM_RX_DESC zero_rx_desc\<rparr>
               in case physical_alloc_page s of
                    (buf_array_phys, s) \<Rightarrow>
                      if buf_array_phys = 0 then (- 1, dev, s)
                      else case rx_fill hhdm [0..<E1000_NUM_RX_DESC]
                                  (dev\<lparr>rx_buffers := replicate E1000_NUM_RX_DESC 0\<rparr>) s of
                             (ok, dev, s) \<Rightarrow>
                               if \<not> ok then (- 1, dev, s)
                               else (0, rx_registers rx_desc_phys (dev\<lparr>rx_cur := 0\<rparr>), s))"

definition tx_registers :: "u64 \<Rightarrow> e1000_device_t \<Rightarrow> e1000_device_t" where
  "tx_registers tx_desc_phys dev =
     e1000_write_reg E1000_TCTL (E1000_TCTL_EN OR E1000_TCTL_PSP OR push_bit 4 0x10 OR
         push_bit 12 0x40)
      (e1000_write_reg E1000_TDT 0
      (e1000_write_reg E1000_TDH 0
      (e1000_write_reg E1000_TDLEN (of_nat (E1000_NUM_TX_DESC * 16))
      (e1000_write_reg E1000_TDBAL (ucast tx_desc_phys)
      (e1000_write_reg E1000_TDBAH 0 dev)))))"

definition e1000_tx_init :: "u64 \<Rightarrow> e1000_device_t \<Rightarrow> pmm \<Rightarrow> int \<times> e1000_device_t \<times> pmm" where
  "e1000_tx_init hhdm dev s =
     (case physical_alloc_page s of
        (tx_desc_phys, s) \<Rightarrow>
          if tx_desc_phys = 0 then (- 1, dev, s)
          else let dev = dev\<lparr>tx_desc := replicate E1000_NUM_TX_DESC zero_tx_desc\<rparr>
               in case physical_alloc_page s of
                    (tx_buf_array_phys, s) \<Rightarrow>
                      if tx_buf_array_phys = 0 then (- 1, dev, s)
                      else case tx_fill hhdm [0..<E1000_NUM_TX_DESC]
                                  (dev\<lparr>tx_buffers := replicate E1000_NUM_TX_DESC 0\<rparr>) s of
                             (ok, dev, s) \<Rightarrow>
                               if \<not> ok then (- 1, dev, s)
                               else (0, tx_registers tx_desc_phys (dev\<lparr>tx_cur := 0\<rparr>), s))"

definition e1000_send_packet :: "u8 list \<Rightarrow> e1000_device_t \<Rightarrow> int \<times> e1000_device_t" where
  "e1000_send_packet data dev =
     (let cur = unat (tx_cur dev)
      in if \<not> e1000_initialized dev \<or> length data = 0 \<or> E1000_BUFFER_SIZE < length data
         then (- 1, dev)
         else if tx_status (tx_desc dev ! cur) AND E1000_TXD_STAT_DD = 0 then (- 1, dev)
         else let buf = tx_buffers dev ! cur;
                  cur' = (tx_cur dev + 1) mod of_nat E1000_NUM_TX_DESC
              in (int (length data),
                  e1000_write_reg E1000_TDT (ucast cur')
                   (dev\<lparr>page_mem := (page_mem dev)(buf := write_prefix data (page_mem dev buf)),
                        tx_desc := (tx_desc dev)[cur := (tx_desc dev ! cur)
                          \<lparr>tx_length := of_nat (length data),
                           tx_cmd := E1000_TXD_CMD_EOP OR E1000_TXD_CMD_IFCS OR E1000_TXD_CMD_RS,
                           tx_status := 0\<rparr>],
                        tx_cur := cur'\<rparr>)))"

text \<open>The result is the return value and the bytes stored at the start of the caller's buffer.\<close>

definition e1000_receive_packet ::
  "nat \<Rightarrow> e1000_device_t \<Rightarrow> (int \<times> u8 list) \<times> e1000_device_t" where
  "e1000_receive_packet max_len dev =
     (let cur = unat (rx_cur dev)
      in if \<not> e1000_initialized dev \<or> max_len = 0 then ((0, []), dev)
         else if rx_status (rx_desc dev ! cur) AND E1000_RXD_STAT_DD = 0 then ((0, []), dev)
         else let len = min (unat (rx_length (rx_desc dev ! cur))) max_len;
                  dev' = e1000_write_reg E1000_RDT (ucast (rx_cur dev))
                    (dev\<lparr>rx_desc := (rx_desc dev)[cur := (rx_desc dev ! cur)\<lparr>rx_status := 0\<rparr>]\<rparr>)
              in ((int len, take len (page_mem dev (rx_buffers dev ! cur))),
                  dev'\<lparr>rx_cur := (rx_cur dev + 1) mod of_nat E1000_NUM_RX_DESC\<rparr>))"

definition e1000_enable_interrupts :: "e1000_device_t \<Rightarrow> e1000_device_t" where
  "e1000_enable_interrupts dev =
     e1000_write_reg E1000_IMS (E1000_ICR_RXT0 OR E1000_ICR_TXDW OR E1000_ICR_LSC) dev"

definition e1000_disable_interrupts :: "e1000_device_t \<Rightarrow> e1000_device_t" where
  "e1000_disable_interrupts dev = e1000_write_reg E1000_IMC 0xFFFFFFFF dev"

section \<open>The rings\<close>

definition tx_ring_wf :: "e1000_device_t \<Rightarrow> bool" where
  "tx_ring_wf dev \<longleftrightarrow> e1000_initialized dev \<and> length (tx_desc dev) = E1000_NUM_TX_DESC \<and>
     length (tx_buffers dev) = E1000_NUM_TX_DESC \<and> unat (tx_cur dev) < E1000_NUM_TX_DESC \<and>
     distinct (tx_buffers dev)"

definition rx_ring_wf :: "e1000_device_t \<Rightarrow> bool" where
  "rx_ring_wf dev \<longleftrightarrow> e1000_initialized dev \<and> length (rx_desc dev) = E1000_NUM_RX_DESC \<and>
     length (rx_buffers dev) = E1000_NUM_RX_DESC \<and> unat (rx_cur dev) < E1000_NUM_RX_DESC"

text \<open>The descriptor \<open>i\<close> places after the current one.\<close>

definition tx_slot :: "e1000_device_t \<Rightarrow> nat \<Rightarrow> nat" where
  "tx_slot dev i = (unat (tx_cur dev) + i) mod E1000_NUM_TX_DESC"

definition rx_slot :: "e1000_device_t \<Rightarrow> nat \<Rightarrow> nat" where
  "rx_slot dev i = (unat (rx_cur dev) + i) mod E1000_NUM_RX_DESC"

definition tx_done :: "e1000_device_t \<Rightarrow> nat \<Rightarrow> bool" where
  "tx_done dev k \<longleftrightarrow> tx_status (tx_desc dev ! k) AND E1000_TXD_STAT_DD \<noteq> 0"

definition rx_done :: "e1000_device_t \<Rightarrow> nat \<Rightarrow> bool" where
  "rx_done dev k \<longleftrightarrow> rx_status (rx_desc dev ! k) AND E1000_RXD_STAT_DD \<noteq> 0"

text \<open>The frame that descriptor \<open>k\<close> hands to the card, and the frame the card left at \<open>k\<close>.\<close>

definition tx_frame :: "e1000_device_t \<Rightarrow> nat \<Rightarrow> u8 list" where
  "tx_frame dev k = take (unat (tx_length (tx_desc dev ! k))) (page_mem dev (tx_buffers dev ! k))"

definition rx_frame :: "e1000_device_t \<Rightarrow> nat \<Rightarrow> u8 list" where
  "rx_frame dev k = take (unat (rx_length (rx_desc dev ! k))) (page_mem dev (rx_buffers dev ! k))"

lemmas e1000_consts = E1000_NUM_TX_DESC_def E1000_NUM_RX_DESC_def E1000_BUFFER_SIZE_def

lemma ring_next:
  fixes cur :: u16
  assumes "unat cur < 32"
  shows "unat ((cur + 1) mod 32) = (unat cur + 1) mod 32"
proof -
  have "unat (cur + 1) = unat cur + 1" using assms by (intro trans [OF unat_add_no_wrap]) simp_all
  then show ?thesis by (simp add: unat_mod)
qed

lemma tx_slot_lt [simp]: "tx_slot dev i < E1000_NUM_TX_DESC"
  by (simp add: tx_slot_def e1000_consts)

lemma rx_slot_lt [simp]: "rx_slot dev i < E1000_NUM_RX_DESC"
  by (simp add: rx_slot_def e1000_consts)

lemma tx_slot_0: "tx_ring_wf dev \<Longrightarrow> tx_slot dev 0 = unat (tx_cur dev)"
  by (simp add: tx_slot_def tx_ring_wf_def)

lemma rx_slot_0: "rx_ring_wf dev \<Longrightarrow> rx_slot dev 0 = unat (rx_cur dev)"
  by (simp add: rx_slot_def rx_ring_wf_def)

lemma tx_slot_inj: "tx_slot dev i = tx_slot dev j \<Longrightarrow> i < 32 \<Longrightarrow> j < 32 \<Longrightarrow> i = j"
  using ring_index_inj [of "unat (tx_cur dev)" i 32 j] by (simp add: tx_slot_def e1000_consts)

lemma rx_slot_inj: "rx_slot dev i = rx_slot dev j \<Longrightarrow> i < 32 \<Longrightarrow> j < 32 \<Longrightarrow> i = j"
  using ring_index_inj [of "unat (rx_cur dev)" i 32 j] by (simp add: rx_slot_def e1000_consts)

lemma write_reg_fields [simp]:
  "tx_desc (e1000_write_reg r v dev) = tx_desc dev"
  "tx_buffers (e1000_write_reg r v dev) = tx_buffers dev"
  "tx_cur (e1000_write_reg r v dev) = tx_cur dev"
  "rx_desc (e1000_write_reg r v dev) = rx_desc dev"
  "rx_buffers (e1000_write_reg r v dev) = rx_buffers dev"
  "rx_cur (e1000_write_reg r v dev) = rx_cur dev"
  "page_mem (e1000_write_reg r v dev) = page_mem dev"
  "e1000_initialized (e1000_write_reg r v dev) = e1000_initialized dev"
  "mmio_base (e1000_write_reg r v dev) = mmio_base dev"
  "dev_mac_address (e1000_write_reg r v dev) = dev_mac_address dev"
  by (simp_all add: e1000_write_reg_def)

section \<open>Transmission\<close>

lemma send_refused:
  assumes "\<not> tx_done dev (unat (tx_cur dev))"
  shows "e1000_send_packet data dev = (- 1, dev)"
  using assms by (simp add: e1000_send_packet_def tx_done_def Let_def)

lemma send_accepted:
  assumes wf: "tx_ring_wf dev" and len: "0 < length data" "length data \<le> 2048"
    and dd: "tx_done dev (tx_slot dev 0)"
  obtains dev' where "e1000_send_packet data dev = (int (length data), dev')"
    and "tx_ring_wf dev'" and "\<And>i. tx_slot dev' i = tx_slot dev (Suc i)"
    and "tx_frame dev' (tx_slot dev 0) = data" and "\<not> tx_done dev' (tx_slot dev 0)"
    and "\<And>k. k < 32 \<Longrightarrow> k \<noteq> tx_slot dev 0 \<Longrightarrow>
       tx_frame dev' k = tx_frame dev k \<and> tx_done dev' k = tx_done dev k"
    and "mmio_base dev \<noteq> 0 \<Longrightarrow>
       mmio_log dev' = mmio_log dev @ [(E1000_TDT, of_nat (tx_slot dev 1))]"
proof -
  let ?cur = "unat (tx_cur dev)"
  define dev' where "dev' = snd (e1000_send_packet data dev)"
  from wf have cur: "?cur < 32" and lens: "length (tx_desc dev) = 32" "length (tx_buffers dev) = 32"
    and dist: "distinct (tx_buffers dev)" and ini: "e1000_initialized dev"
    by (simp_all add: tx_ring_wf_def e1000_consts)
  note slot = tx_slot_0 [OF wf]
  have send: "e1000_send_packet data dev = (int (length data), dev')"
    using len dd ini by (simp add: dev'_def e1000_send_packet_def tx_done_def slot Let_def e1000_consts)
  have f: "tx_buffers dev' = tx_buffers dev" "tx_cur dev' = (tx_cur dev + 1) mod 32"
     "tx_desc dev' = (tx_desc dev)[?cur := (tx_desc dev ! ?cur)\<lparr>tx_length := of_nat (length data),
        tx_cmd := E1000_TXD_CMD_EOP OR E1000_TXD_CMD_IFCS OR E1000_TXD_CMD_RS, tx_status := 0\<rparr>]"
     "page_mem dev' = (page_mem dev)(tx_buffers dev ! ?cur :=
        write_prefix data (page_mem dev (tx_buffers dev ! ?cur)))"
     "e1000_initialized dev'"
    using len dd ini
    by (simp_all add: dev'_def e1000_send_packet_def tx_done_def slot Let_def e1000_consts)
  have ucur: "unat (tx_cur dev') = (?cur + 1) mod 32" using ring_next [OF cur] by (simp add: f)
  have wf': "tx_ring_wf dev'"
    using wf by (simp add: tx_ring_wf_def f(1,3,5) ucur e1000_consts)
  have slots: "tx_slot dev' i = tx_slot dev (Suc i)" for i
    by (simp add: tx_slot_def ucur e1000_consts mod_simps)
  have ulen: "unat (of_nat (length data) :: u16) = length data"
    using len by (intro unat_of_nat_small) simp
  have frame: "tx_frame dev' (tx_slot dev 0) = data" "\<not> tx_done dev' (tx_slot dev 0)"
    using cur lens by (simp_all add: slot tx_frame_def tx_done_def f ulen write_prefix_def)
  have others: "tx_frame dev' k = tx_frame dev k \<and> tx_done dev' k = tx_done dev k"
    if "k < 32" "k \<noteq> tx_slot dev 0" for k
  proof -
    have "tx_buffers dev ! k \<noteq> tx_buffers dev ! ?cur"
      using that dist cur lens by (simp add: nth_eq_iff_index_eq slot)
    with that cur lens show ?thesis by (simp add: slot tx_frame_def tx_done_def f)
  qed
  have log: "mmio_log dev' = mmio_log dev @ [(E1000_TDT, of_nat (tx_slot dev 1))]"
    if "mmio_base dev \<noteq> 0"
  proof -
    have "(of_nat (unat (tx_cur dev')) :: u32) = of_nat (tx_slot dev 1)"
      by (simp only: ucur tx_slot_def e1000_consts)
    then have "ucast ((tx_cur dev + 1) mod 32) = (of_nat (tx_slot dev 1) :: u32)"
      by (simp only: of_nat_unat f)
    with that len dd ini show ?thesis
      by (simp add: dev'_def e1000_send_packet_def tx_done_def slot Let_def e1000_consts
          e1000_write_reg_def)
  qed
  show thesis by (rule that [OF send wf' slots frame others log])
qed

definition send_all :: "u8 list list \<Rightarrow> e1000_device_t \<Rightarrow> e1000_device_t" where
  "send_all fs dev = fold (\<lambda>f d. snd (e1000_send_packet f d)) fs dev"

lemma send_all_ring:
  assumes "tx_ring_wf dev" and "\<forall>f\<in>set fs. 0 < length f \<and> length f \<le> 2048"
    and "length fs \<le> 32" and "\<forall>i<length fs. tx_done dev (tx_slot dev i)"
  shows "tx_ring_wf (send_all fs dev) \<and>
     (\<forall>i. tx_slot (send_all fs dev) i = tx_slot dev (length fs + i)) \<and>
     (\<forall>i<length fs. tx_frame (send_all fs dev) (tx_slot dev i) = fs ! i \<and>
        \<not> tx_done (send_all fs dev) (tx_slot dev i)) \<and>
     (\<forall>k<32. k \<notin> tx_slot dev ` {..<length fs} \<longrightarrow>
        tx_frame (send_all fs dev) k = tx_frame dev k \<and> tx_done (send_all fs dev) k = tx_done dev k)"
  using assms
proof (induction fs arbitrary: dev)
  case Nil
  then show ?case by (simp add: send_all_def)
next
  case (Cons f fs)
  from Cons.prems have f: "0 < length f" "length f \<le> 2048" "tx_done dev (tx_slot dev 0)" by simp_all
  from send_accepted [OF Cons.prems(1) f] obtain d where
    d: "e1000_send_packet f dev = (int (length f), d)" "tx_ring_wf d"
       "\<And>i. tx_slot d i = tx_slot dev (Suc i)"
       "tx_frame d (tx_slot dev 0) = f" "\<not> tx_done d (tx_slot dev 0)"
       "\<And>k. k < 32 \<Longrightarrow> k \<noteq> tx_slot dev 0 \<Longrightarrow>
          tx_frame d k = tx_frame dev k \<and> tx_done d k = tx_done dev k" by metis
  have lt: "tx_slot dev i < 32" for i using tx_slot_lt [of dev i] by (simp only: e1000_consts)
  have ne: "tx_slot dev (Suc i) \<noteq> tx_slot dev 0" if "i < length fs" for i
    using tx_slot_inj [of dev "Suc i" 0] that Cons.prems(3) by auto
  have "tx_done d (tx_slot d i)" if "i < length fs" for i
    using Cons.prems(4) that ne [OF that] d(6) [of "tx_slot dev (Suc i)"] lt by (auto simp: d(3))
  with Cons.prems d(2) have IH: "tx_ring_wf (send_all fs d)"
     "\<And>i. tx_slot (send_all fs d) i = tx_slot d (length fs + i)"
     "\<And>i. i < length fs \<Longrightarrow> tx_frame (send_all fs d) (tx_slot d i) = fs ! i \<and>
        \<not> tx_done (send_all fs d) (tx_slot d i)"
     "\<And>k. k < 32 \<Longrightarrow> k \<notin> tx_slot d ` {..<length fs} \<Longrightarrow>
        tx_frame (send_all fs d) k = tx_frame d k \<and> tx_done (send_all fs d) k = tx_done d k"
    using Cons.IH [of d] by simp_all
  have all: "send_all (f # fs) dev = send_all fs d" by (simp add: send_all_def d(1))
  have fresh: "tx_slot dev 0 \<notin> tx_slot d ` {..<length fs}" using ne by (fastforce simp: d(3))
  have "tx_frame (send_all fs d) (tx_slot dev i) = (f # fs) ! i \<and>
      \<not> tx_done (send_all fs d) (tx_slot dev i)" if "i < length (f # fs)" for i
    using that IH(3) [of "i - 1"] IH(4) [OF lt fresh] d(4,5) by (cases i) (simp_all add: d(3))
  moreover have "tx_frame (send_all fs d) k = tx_frame dev k \<and>
      tx_done (send_all fs d) k = tx_done dev k"
    if k: "k < 32" "k \<notin> tx_slot dev ` {..<length (f # fs)}" for k
  proof -
    have "k \<noteq> tx_slot dev 0" "k \<notin> tx_slot d ` {..<length fs}" using k(2) by (auto simp: d(3))
    with IH(4) [OF k(1)] d(6) [OF k(1)] show ?thesis by simp
  qed
  ultimately show ?case using IH(1,2) by (simp add: all d(3))
qed

section \<open>Reception\<close>

lemma receive_none:
  assumes "\<not> rx_done dev (unat (rx_cur dev))"
  shows "e1000_receive_packet m dev = ((0, []), dev)"
  using assms by (simp add: e1000_receive_packet_def rx_done_def Let_def)

lemma receive_frame:
  assumes wf: "rx_ring_wf dev" and m: "0 < m" and dd: "rx_done dev (rx_slot dev 0)"
  obtains dev' where "e1000_receive_packet m dev =
      ((int (min (unat (rx_length (rx_desc dev ! rx_slot dev 0))) m),
        take m (rx_frame dev (rx_slot dev 0))), dev')"
    and "rx_ring_wf dev'" and "\<And>i. rx_slot dev' i = rx_slot dev (Suc i)"
    and "\<And>k. rx_frame dev' k = rx_frame dev k" and "\<not> rx_done dev' (rx_slot dev 0)"
    and "\<And>k. k \<noteq> rx_slot dev 0 \<Longrightarrow> rx_done dev' k = rx_done dev k"
    and "map rx_length (rx_desc dev') = map rx_length (rx_desc dev)"
proof -
  let ?cur = "unat (rx_cur dev)"
  define dev' where "dev' = snd (e1000_receive_packet m dev)"
  from wf have cur: "?cur < 32" and lens: "length (rx_desc dev) = 32" "length (rx_buffers dev) = 32"
    and ini: "e1000_initialized dev"
    by (simp_all add: rx_ring_wf_def e1000_consts)
  note slot = rx_slot_0 [OF wf]
  have recv: "e1000_receive_packet m dev =
      ((int (min (unat (rx_length (rx_desc dev ! rx_slot dev 0))) m),
        take m (rx_frame dev (rx_slot dev 0))), dev')"
    using m dd ini
    by (simp add: dev'_def e1000_receive_packet_def rx_done_def rx_frame_def slot Let_def
        min.commute)
  have f: "rx_buffers dev' = rx_buffers dev" "rx_cur dev' = (rx_cur dev + 1) mod 32"
     "rx_desc dev' = (rx_desc dev)[?cur := (rx_desc dev ! ?cur)\<lparr>rx_status := 0\<rparr>]"
     "page_mem dev' = page_mem dev" "e1000_initialized dev'"
    using m dd ini
    by (simp_all add: dev'_def e1000_receive_packet_def rx_done_def slot Let_def e1000_consts)
  have ucur: "unat (rx_cur dev') = (?cur + 1) mod 32" using ring_next [OF cur] by (simp add: f)
  have wf': "rx_ring_wf dev'"
    using wf by (simp add: rx_ring_wf_def f(1,3,5) ucur e1000_consts)
  have slots: "rx_slot dev' i = rx_slot dev (Suc i)" for i
    by (simp add: rx_slot_def ucur e1000_consts mod_simps)
  have frames: "rx_frame dev' k = rx_frame dev k" for k
    using cur lens by (cases "k = ?cur") (simp_all add: rx_frame_def f)
  have done0: "\<not> rx_done dev' (rx_slot dev 0)" using cur lens by (simp add: slot rx_done_def f)
  have others: "rx_done dev' k = rx_done dev k" if "k \<noteq> rx_slot dev 0" for k
    using that by (simp add: slot rx_done_def f)
  have lengths: "map rx_length (rx_desc dev') = map rx_length (rx_desc dev)"
    using cur lens by (simp add: f map_update list_update_same_conv)
  show thesis by (rule that [OF recv wf' slots frames done0 others lengths])
qed

text \<open>A poll that hands over a frame returns its length, which is positive.\<close>

definition poll :: "nat \<Rightarrow> e1000_device_t \<Rightarrow> u8 list option \<times> e1000_device_t" where
  "poll m dev =
     (case e1000_receive_packet m dev of
        ((r, bytes), dev') \<Rightarrow> (if 0 < r then Some bytes else None, dev'))"

lemma drain_poll:
  assumes "rx_ring_wf dev" and "0 < m" and "n \<le> 31"
    and "\<forall>i<n. rx_done dev (rx_slot dev i) \<and> 0 < unat (rx_length (rx_desc dev ! rx_slot dev i))"
    and "\<not> rx_done dev (rx_slot dev n)" and "n \<le> k"
  shows "fst (drain (poll m) k dev) = map (\<lambda>i. take m (rx_frame dev (rx_slot dev i))) [0..<n] \<and>
     rx_ring_wf (snd (drain (poll m) k dev)) \<and>
     rx_slot (snd (drain (poll m) k dev)) 0 = rx_slot dev n \<and>
     (\<forall>i<n. \<not> rx_done (snd (drain (poll m) k dev)) (rx_slot dev i)) \<and>
     (\<forall>j. \<not> rx_done dev j \<longrightarrow> \<not> rx_done (snd (drain (poll m) k dev)) j)"
  using assms
proof (induction n arbitrary: dev k)
  case 0
  then have "poll m dev = (None, dev)"
    using receive_none [of dev m] by (simp add: poll_def rx_slot_0)
  with 0 show ?case by (cases k) simp_all
next
  case (Suc n)
  then obtain k' where k: "k = Suc k'" "n \<le> k'" by (cases k) simp_all
  from Suc.prems(4) have dd: "rx_done dev (rx_slot dev 0)"
    and pos: "0 < unat (rx_length (rx_desc dev ! rx_slot dev 0))" by simp_all
  from receive_frame [OF Suc.prems(1,2) dd] obtain d where
    d: "e1000_receive_packet m dev =
          ((int (min (unat (rx_length (rx_desc dev ! rx_slot dev 0))) m),
            take m (rx_frame dev (rx_slot dev 0))), d)" "rx_ring_wf d"
       "\<And>i. rx_slot d i = rx_slot dev (Suc i)" "\<And>k. rx_frame d k = rx_frame dev k"
       "\<not> rx_done d (rx_slot dev 0)"
       "\<And>k. k \<noteq> rx_slot dev 0 \<Longrightarrow> rx_done d k = rx_done dev k"
       "map rx_length (rx_desc d) = map rx_length (rx_desc dev)" by metis
  have lens: "length (rx_desc d) = 32" "length (rx_desc dev) = 32"
    using d(2) Suc.prems(1) by (simp_all add: rx_ring_wf_def e1000_consts)
  have lt: "rx_slot dev i < 32" for i using rx_slot_lt [of dev i] by (simp only: e1000_consts)
  have len: "rx_length (rx_desc d ! rx_slot dev i) = rx_length (rx_desc dev ! rx_slot dev i)" for i
    using arg_cong [OF d(7), of "\<lambda>xs. xs ! rx_slot dev i"] lt [of i] by (simp add: lens)
  have ne: "rx_slot dev (Suc i) \<noteq> rx_slot dev 0" if "i \<le> n" for i
    using rx_slot_inj [of dev "Suc i" 0] that Suc.prems(3) by auto
  have "\<forall>i<n. rx_done d (rx_slot d i) \<and> 0 < unat (rx_length (rx_desc d ! rx_slot d i))"
    using Suc.prems(4) ne by (simp add: d(3,6) len)
  moreover have "\<not> rx_done d (rx_slot d n)"
    using Suc.prems(5) ne [of n] by (simp add: d(3,6))
  ultimately have IH: "fst (drain (poll m) k' d) = map (\<lambda>i. take m (rx_frame d (rx_slot d i))) [0..<n]"
     "rx_ring_wf (snd (drain (poll m) k' d))" "rx_slot (snd (drain (poll m) k' d)) 0 = rx_slot d n"
     "\<And>i. i < n \<Longrightarrow> \<not> rx_done (snd (drain (poll m) k' d)) (rx_slot d i)"
     "\<And>j. \<not> rx_done d j \<Longrightarrow> \<not> rx_done (snd (drain (poll m) k' d)) j"
    using Suc.IH [OF d(2) Suc.prems(2) _ _ _ k(2)] Suc.prems(3) by simp_all
  have "poll m dev = (Some (take m (rx_frame dev (rx_slot dev 0))), d)"
    using Suc.prems(2) pos by (simp add: poll_def d(1))
  then have dr: "drain (poll m) k dev =
      (take m (rx_frame dev (rx_slot dev 0)) # fst (drain (poll m) k' d),
       snd (drain (poll m) k' d))" by (simp add: k(1) case_prod_beta)
  have upt: "[0..<Suc n] = 0 # map Suc [0..<n]" by (simp add: map_Suc_upt upt_conv_Cons del: upt_Suc)
  have "\<not> rx_done (snd (drain (poll m) k' d)) (rx_slot dev i)" if "i < Suc n" for i
    using that IH(4) [of "i - 1"] IH(5) [OF d(5)] by (cases i) (simp_all add: d(3))
  moreover have "\<not> rx_done (snd (drain (poll m) k' d)) j" if "\<not> rx_done dev j" for j
    using IH(5) [of j] d(5,6) that by metis
  ultimately show ?case using IH(1-3) by (simp add: dr upt d(3,4) comp_def del: upt_Suc)
qed

section \<open>Ring set-up\<close>

lemma physical_alloc_page_owned:
  assumes "pmm_wf s" and "physical_alloc_page s = (a, s')" and "a \<noteq> 0"
  shows "pmm_wf s'" and "unat a \<notin> owned_pages s" and "owned_pages s' = insert (unat a) (owned_pages s)"
proof -
  have "physical_alloc_pages s 1 = (a, s')" using assms(1,2) by (simp add: physical_alloc_page_eq)
  from pages.alloc_success [OF assms(1) this assms(3)]
  have *: "pmm_wf s'" "owned_pages s \<inter> page_range a 1 = {}"
    "owned_pages s' = owned_pages s \<union> page_range a 1" by simp_all
  have "page_range a 1 = {unat a}" by (simp add: page_range_def)
  with * show "pmm_wf s'" "unat a \<notin> owned_pages s" "owned_pages s' = insert (unat a) (owned_pages s)"
    by simp_all
qed

lemma rx_fill_pages:
  assumes "pmm_wf s" and "rx_fill hhdm is dev s = (True, dev', s')"
    and "distinct is" and "\<forall>i\<in>set is. i < length (rx_desc dev)"
    and "length (rx_buffers dev) = length (rx_desc dev)"
  shows "\<exists>as. length as = length is \<and> distinct as \<and> unat ` set as \<inter> owned_pages s = {} \<and>
     pmm_wf s' \<and> owned_pages s' = owned_pages s \<union> unat ` set as \<and>
     length (rx_desc dev') = length (rx_desc dev) \<and> length (rx_buffers dev') = length (rx_desc dev) \<and>
     (\<forall>k<length is. rx_buffer_addr (rx_desc dev' ! (is ! k)) = as ! k \<and>
        rx_buffers dev' ! (is ! k) = as ! k + hhdm \<and> rx_status (rx_desc dev' ! (is ! k)) = 0) \<and>
     (\<forall>k. k \<notin> set is \<longrightarrow> rx_desc dev' ! k = rx_desc dev ! k \<and> rx_buffers dev' ! k = rx_buffers dev ! k)"
  using assms
proof (induction "is" arbitrary: dev s)
  case Nil
  then show ?case by simp
next
  case (Cons i "is")
  obtain a s1 where al: "physical_alloc_page s = (a, s1)" by fastforce
  with Cons.prems(2) have a: "a \<noteq> 0" by (auto split: if_splits)
  note own = physical_alloc_page_owned [OF Cons.prems(1) al a]
  let ?d = "dev\<lparr>rx_buffers := (rx_buffers dev)[i := a + hhdm],
      rx_desc := (rx_desc dev)[i := (rx_desc dev ! i)\<lparr>rx_buffer_addr := a, rx_status := 0\<rparr>]\<rparr>"
  from Cons.prems(2) al a have "rx_fill hhdm is ?d s1 = (True, dev', s')" by simp
  from Cons.IH [OF own(1) this] Cons.prems(3-5) obtain as where
    as: "length as = length is" "distinct as" "unat ` set as \<inter> owned_pages s1 = {}" "pmm_wf s'"
      "owned_pages s' = owned_pages s1 \<union> unat ` set as"
      "length (rx_desc dev') = length (rx_desc dev)" "length (rx_buffers dev') = length (rx_desc dev)"
      "\<And>k. k < length is \<Longrightarrow> rx_buffer_addr (rx_desc dev' ! (is ! k)) = as ! k \<and>
        rx_buffers dev' ! (is ! k) = as ! k + hhdm \<and> rx_status (rx_desc dev' ! (is ! k)) = 0"
      "\<And>k. k \<notin> set is \<Longrightarrow> rx_desc dev' ! k = rx_desc ?d ! k \<and> rx_buffers dev' ! k = rx_buffers ?d ! k"
    by auto
  have "a \<notin> set as" using as(3) own(3) by auto
  moreover have "rx_desc dev' ! i = (rx_desc dev ! i)\<lparr>rx_buffer_addr := a, rx_status := 0\<rparr>"
    "rx_buffers dev' ! i = a + hhdm"
    using as(9) [of i] Cons.prems(3-5) by simp_all
  ultimately show ?case
    using as own Cons.prems(3) by (intro exI [of _ "a # as"]) (auto simp: nth_Cons split: nat.split)
qed

lemma rx_registers_fields [simp]:
  "rx_desc (rx_registers p dev) = rx_desc dev" "rx_buffers (rx_registers p dev) = rx_buffers dev"
  "rx_cur (rx_registers p dev) = rx_cur dev"
  by (simp_all add: rx_registers_def)

section \<open>Properties\<close>

definition sample_nic :: e1000_device_t where
  "sample_nic = \<lparr>mmio_base = 0xFFFFFFFFC0000000, dev_mac_address = [2, 0, 0, 0, 0, 1],
     rx_desc = map (\<lambda>i. zero_rx_desc\<lparr>rx_length := 60, rx_status := (if i < 2 then 1 else 0)\<rparr>) [0..<32],
     rx_buffers = map (\<lambda>i. 0x200000 + 4096 * of_nat i) [0..<32], rx_cur = 0,
     tx_desc = replicate 32 (zero_tx_desc\<lparr>tx_status := 1\<rparr>),
     tx_buffers = map (\<lambda>i. 0x100000 + 4096 * of_nat i) [0..<32], tx_cur = 0,
     e1000_initialized = True, page_mem = (\<lambda>a. replicate 100 7), mmio_read = (\<lambda>r. 0), mmio_log = []\<rparr>"

text \<open>64 free pages at 2 MiB.\<close>

definition sample_pages :: pmm where
  "sample_pages = sample_pmm\<lparr>phys_mem := \<lparr>bitmap = replicate 8 0, memory_base = 0x200000,
     total_blocks = 64, free_blocks = 64, bitmap_size = 8\<rparr>\<rparr>"

lemma sample_pages_wf: "pmm_wf sample_pages"
proof -
  have "filter (bitmap_test_bit (bitmap (phys_mem sample_pages)))
      [0..<nblocks (phys_mem sample_pages)] = []" by code_simp
  then have "used_blocks (phys_mem sample_pages) = {}" by (simp add: used_blocks_filter)
  then show ?thesis by (simp add: pmm_wf_def bitmap_wf_def) (simp add: sample_pages_def)
qed

lemma sample_nic_wf: "tx_ring_wf sample_nic" "rx_ring_wf sample_nic"
  by code_simp+

text \<open>
  A burst of up to 32 frames, each of at most 2048 bytes, into free descriptors of the transmit
  ring: every frame sits unchanged in its own buffer, in ring order from the descriptor that was
  current, each handed to the card (status cleared), and no other buffer or descriptor is touched. When the
  burst fills the ring the index is back where it started, so the tail register equals the head of a card
  that has sent nothing yet, and every further frame is refused without changing anything.
\<close>

theorem e1000_send_burst:
  assumes "tx_ring_wf dev" and "\<forall>f\<in>set fs. 0 < length f \<and> length f \<le> 2048"
    and "length fs \<le> 32" and "\<forall>i<length fs. tx_done dev (tx_slot dev i)"
  shows "map (\<lambda>i. tx_frame (send_all fs dev) (tx_slot dev i)) [0..<length fs] = fs \<and>
     (\<forall>i<length fs. \<not> tx_done (send_all fs dev) (tx_slot dev i)) \<and>
     (\<forall>k<32. k \<notin> tx_slot dev ` {..<length fs} \<longrightarrow>
        tx_frame (send_all fs dev) k = tx_frame dev k \<and> tx_done (send_all fs dev) k = tx_done dev k) \<and>
     (length fs = 32 \<longrightarrow> tx_cur (send_all fs dev) = tx_cur dev \<and>
        e1000_send_packet g (send_all fs dev) = (- 1, send_all fs dev))"
proof -
  note r = send_all_ring [OF assms]
  have full: "tx_slot (send_all fs dev) 0 = tx_slot dev 0" if "length fs = 32"
  proof -
    have "tx_slot (send_all fs dev) 0 = tx_slot dev (length fs + 0)" using r by blast
    with that show ?thesis by (simp add: tx_slot_def e1000_consts)
  qed
  have cur: "unat (tx_cur (send_all fs dev)) = tx_slot dev 0" if "length fs = 32"
    using tx_slot_0 [of "send_all fs dev"] r full [OF that] by simp
  then have "tx_cur (send_all fs dev) = tx_cur dev" if "length fs = 32"
    using that tx_slot_0 [OF assms(1)] by (simp add: word_unat_eq_iff)
  moreover have "e1000_send_packet g (send_all fs dev) = (- 1, send_all fs dev)" if "length fs = 32"
    using that r by (intro send_refused) (simp add: cur)
  ultimately show ?thesis using r by (auto intro: nth_equalityI)
qed

theorem e1000_send_burst_witness:
  "map (\<lambda>i. tx_frame (send_all [[1, 2, 3], [4, 5]] sample_nic) (tx_slot sample_nic i)) [0..<2] =
     [[1, 2, 3], [4, 5]]"
proof -
  have "\<forall>i<2. tx_done sample_nic (tx_slot sample_nic i)"
    by (simp add: tx_done_def tx_slot_def sample_nic_def e1000_consts E1000_TXD_STAT_DD_def)
  then show ?thesis
    using e1000_send_burst [of sample_nic "[[1, 2, 3], [4, 5]]", OF sample_nic_wf(1)]
    by (simp add: numeral_2_eq_2)
qed

text \<open>
  Polling the receive ring hands over exactly the frames the card has completed, oldest first,
  each cut to the caller's buffer, then reports no packet; every consumed descriptor goes back to the
  card and none is handed over twice.
\<close>

theorem e1000_receive_in_order:
  assumes "rx_ring_wf dev" and "0 < m" and "n \<le> 31" and "n \<le> k"
    and "\<forall>i<n. rx_done dev (rx_slot dev i) \<and> 0 < unat (rx_length (rx_desc dev ! rx_slot dev i))"
    and "\<not> rx_done dev (rx_slot dev n)"
  shows "fst (drain (poll m) k dev) = map (\<lambda>i. take m (rx_frame dev (rx_slot dev i))) [0..<n] \<and>
     (\<forall>i<n. \<not> rx_done (snd (drain (poll m) k dev)) (rx_slot dev i)) \<and>
     e1000_receive_packet m (snd (drain (poll m) k dev)) = ((0, []), snd (drain (poll m) k dev))"
proof -
  note d = drain_poll [OF assms(1-3,5,6,4)]
  then have "\<not> rx_done (snd (drain (poll m) k dev)) (unat (rx_cur (snd (drain (poll m) k dev))))"
    using assms(6) by (auto simp: rx_slot_0)
  with d receive_none show ?thesis by blast
qed

theorem e1000_receive_in_order_witness:
  "fst (drain (poll 64) 5 sample_nic) = [replicate 60 7, replicate 60 7]"
proof -
  have "\<forall>i<2. rx_done sample_nic (rx_slot sample_nic i) \<and>
      0 < unat (rx_length (rx_desc sample_nic ! rx_slot sample_nic i))"
    "\<not> rx_done sample_nic (rx_slot sample_nic 2)" by code_simp+
  then have "fst (drain (poll 64) 5 sample_nic) =
      map (\<lambda>i. take 64 (rx_frame sample_nic (rx_slot sample_nic i))) [0..<2]"
    using e1000_receive_in_order [of sample_nic 64 2 5, OF sample_nic_wf(2)] by simp
  also have "\<dots> = [replicate 60 7, replicate 60 7]" by code_simp
  finally show ?thesis .
qed

text \<open>
  When the receive ring is set up successfully, the 32 descriptors point at 32 different pages,
  all taken from the page allocator and not in use before, the kernel's buffer pointers are the
  direct-map addresses of the same pages, no descriptor is marked done, and the first one is current.
\<close>

theorem e1000_rx_init_exclusive:
  assumes "pmm_wf s" and "e1000_rx_init hhdm dev s = (0, dev', s')"
  shows "length (rx_desc dev') = 32 \<and> rx_cur dev' = 0 \<and>
     distinct (map rx_buffer_addr (rx_desc dev')) \<and>
     rx_buffers dev' = map (\<lambda>d. rx_buffer_addr d + hhdm) (rx_desc dev') \<and>
     (\<forall>k<32. \<not> rx_done dev' k) \<and> pmm_wf s' \<and>
     (\<forall>d\<in>set (rx_desc dev'). unat (rx_buffer_addr d) \<in> owned_pages s' - owned_pages s)"
proof -
  from assms(2) obtain p s1 q s2 d where
    p: "physical_alloc_page s = (p, s1)" "p \<noteq> 0" and q: "physical_alloc_page s1 = (q, s2)" "q \<noteq> 0"
    and fill: "rx_fill hhdm [0..<32] (dev\<lparr>rx_desc := replicate 32 zero_rx_desc,
        rx_buffers := replicate 32 0\<rparr>) s2 = (True, d, s')"
    and dev': "dev' = rx_registers p (d\<lparr>rx_cur := 0\<rparr>)"
    by (auto simp: e1000_rx_init_def e1000_consts Let_def split: prod.splits if_splits)
  note own1 = physical_alloc_page_owned [OF assms(1) p]
  note own2 = physical_alloc_page_owned [OF own1(1) q]
  from rx_fill_pages [OF own2(1) fill] obtain as where
    as: "length as = 32" "distinct as" "unat ` set as \<inter> owned_pages s2 = {}" "pmm_wf s'"
      "owned_pages s' = owned_pages s2 \<union> unat ` set as"
      "length (rx_desc d) = 32" "length (rx_buffers d) = 32"
      "\<And>k. k < 32 \<Longrightarrow> rx_buffer_addr (rx_desc d ! k) = as ! k \<and>
        rx_buffers d ! k = as ! k + hhdm \<and> rx_status (rx_desc d ! k) = 0"
    by auto
  have addrs: "map rx_buffer_addr (rx_desc d) = as" by (rule nth_equalityI) (simp_all add: as)
  have bufs: "rx_buffers d = map (\<lambda>x. rx_buffer_addr x + hhdm) (rx_desc d)"
    by (rule nth_equalityI) (simp_all add: as)
  have "unat (rx_buffer_addr x) \<in> owned_pages s' - owned_pages s" if "x \<in> set (rx_desc d)" for x
  proof -
    from that have "rx_buffer_addr x \<in> set as" by (simp flip: addrs)
    with as(3,5) own1(3) own2(3) show ?thesis by auto
  qed
  with as addrs bufs show ?thesis by (simp add: dev' rx_done_def)
qed

theorem e1000_rx_init_exclusive_witness:
  "let r = e1000_rx_init 0xFFFF800000000000 sample_nic sample_pages
   in fst r = 0 \<and> distinct (map rx_buffer_addr (rx_desc (fst (snd r))))"
proof -
  let ?r = "e1000_rx_init 0xFFFF800000000000 sample_nic sample_pages"
  have "fst ?r = 0" by code_simp
  then have "?r = (0, fst (snd ?r), snd (snd ?r))" by (metis prod.collapse)
  from e1000_rx_init_exclusive [OF sample_pages_wf this] show ?thesis
    using \<open>fst ?r = 0\<close> by (simp add: Let_def)
qed

end
