(* ===== verification/Net_Bytes.thy ===== *)
theory Net_Bytes
  imports Cgos_Prelude
begin

text \<open>
  Byte order and checksums, shared by the protocol theories: the two byte-swap builtins, the
  little-endian memory layout of the packed header structs (the kernel runs on x86-64), and the one's
  complement sum that \<^verbatim>\<open>ip_checksum\<close>, \<^verbatim>\<open>icmp_checksum\<close>, \<^verbatim>\<open>udp_checksum\<close> and \<^verbatim>\<open>tcp_checksum\<close> compute
  with the same loop.
\<close>

section \<open>Byte order\<close>

definition le16 :: "u16 \<Rightarrow> u8 list" where
  "le16 w = [ucast w, ucast (drop_bit 8 w)]"

definition le32 :: "u32 \<Rightarrow> u8 list" where
  "le32 w = [ucast w, ucast (drop_bit 8 w), ucast (drop_bit 16 w), ucast (drop_bit 24 w)]"

text \<open>Reading a field of a packed struct at byte offset \<open>i\<close>.\<close>

definition rd16 :: "u8 list \<Rightarrow> nat \<Rightarrow> u16" where
  "rd16 bs i = ucast (bs ! i) OR push_bit 8 (ucast (bs ! (i + 1)))"

definition rd32 :: "u8 list \<Rightarrow> nat \<Rightarrow> u32" where
  "rd32 bs i = ucast (bs ! i) OR push_bit 8 (ucast (bs ! (i + 1))) OR
     push_bit 16 (ucast (bs ! (i + 2))) OR push_bit 24 (ucast (bs ! (i + 3)))"

text \<open>The builtins reverse the bytes.\<close>

definition bswap16 :: "u16 \<Rightarrow> u16" where
  "bswap16 w = rd16 (rev (le16 w)) 0"

definition bswap32 :: "u32 \<Rightarrow> u32" where
  "bswap32 w = rd32 (rev (le32 w)) 0"

lemma length_le16 [simp]: "length (le16 w) = 2"
  by (simp add: le16_def)

lemma length_le32 [simp]: "length (le32 w) = 4"
  by (simp add: le32_def)

lemma rd16_le16: "rd16 (le16 w @ bs) 0 = w"
proof (rule bit_word_eqI)
  fix n assume "n < LENGTH(16)"
  then consider "n < 8" | "8 \<le> n" "n < 16" by fastforce
  then show "bit (rd16 (le16 w @ bs) 0) n = bit w n"
    by cases (auto simp: rd16_def le16_def bit_simps)
qed

lemma rd32_le32: "rd32 (le32 w @ bs) 0 = w"
proof (rule bit_word_eqI)
  fix n assume "n < LENGTH(32)"
  then consider "n < 8" | "8 \<le> n" "n < 16" | "16 \<le> n" "n < 24" | "24 \<le> n" "n < 32"
    by fastforce
  then show "bit (rd32 (le32 w @ bs) 0) n = bit w n"
    by cases (auto simp: rd32_def le32_def bit_simps)
qed

lemma bit_u8_high: "8 \<le> n \<Longrightarrow> \<not> bit a n" for a :: u8
  using bit_imp_le_length [of a n] by auto

lemma le16_rd16: "le16 (rd16 [a, b] 0) = [a, b]"
  by (auto simp: le16_def rd16_def bit_simps bit_u8_high intro!: bit_word_eqI)

lemma le32_rd32: "le32 (rd32 [a, b, c, d] 0) = [a, b, c, d]"
  by (auto simp: le32_def rd32_def bit_simps bit_u8_high intro!: bit_word_eqI)

lemma bswap16_bswap16 [simp]: "bswap16 (bswap16 w) = w"
proof -
  have "le16 (bswap16 w) = rev (le16 w)" unfolding bswap16_def le16_def [of w] by (simp add: le16_rd16)
  then show ?thesis using rd16_le16 [of w "[]"] by (simp add: bswap16_def [of "bswap16 w"])
qed

lemma bswap32_bswap32 [simp]: "bswap32 (bswap32 w) = w"
proof -
  have "le32 (bswap32 w) = rev (le32 w)" unfolding bswap32_def le32_def [of w] by (simp add: le32_rd32)
  then show ?thesis using rd32_le32 [of w "[]"] by (simp add: bswap32_def [of "bswap32 w"])
qed

lemma rd16_append: "rd16 (as @ bs) (length as + i) = rd16 bs i"
  by (simp add: rd16_def nth_append add.assoc)

lemma rd32_append: "rd32 (as @ bs) (length as + i) = rd32 bs i"
  by (simp add: rd32_def nth_append add.assoc)

text \<open>Field \<open>w\<close> after a prefix of known length.\<close>

lemma rd16_field: "length as = n \<Longrightarrow> rd16 (as @ le16 w @ bs) n = w"
  using rd16_append [of as "le16 w @ bs" 0] by (simp add: rd16_le16)

lemma rd32_field: "length as = n \<Longrightarrow> rd32 (as @ le32 w @ bs) n = w"
  using rd32_append [of as "le32 w @ bs" 0] by (simp add: rd32_le32)

text \<open>Storing a 16-bit field.\<close>

definition wr16 :: "u8 list \<Rightarrow> nat \<Rightarrow> u16 \<Rightarrow> u8 list" where
  "wr16 bs i w = bs[i := ucast w, i + 1 := ucast (drop_bit 8 w)]"

lemma length_wr16 [simp]: "length (wr16 bs i w) = length bs"
  by (simp add: wr16_def)

lemma wr16_field: "length as = n \<Longrightarrow> wr16 (as @ le16 v @ bs) n w = as @ le16 w @ bs"
  by (simp add: wr16_def le16_def list_update_append)

lemma nth_wr16_other: "k \<noteq> i \<Longrightarrow> k \<noteq> i + 1 \<Longrightarrow> wr16 bs i w ! k = bs ! k"
  by (simp add: wr16_def)

section \<open>The one's complement sum\<close>

text \<open>\<open>while (sum >> 16) sum = (sum & 0xFFFF) + (sum >> 16)\<close>\<close>

lemma unat_drop16: "unat (drop_bit 16 acc) = unat acc div 65536" for acc :: u32
proof -
  have "take_bit 32 (unat acc) = unat acc"
    using unsigned_less [of acc, where ?'a = nat] by (simp add: take_bit_nat_eq_self)
  then show ?thesis by (subst unsigned_drop_bit_eq) (simp add: drop_bit_eq_div)
qed

lemma unat_low16: "unat (acc AND 0xFFFF) = unat acc mod 65536" for acc :: u32
proof -
  have "acc AND 0xFFFF = take_bit 16 acc" by (simp add: take_bit_eq_mask mask_eq_exp_minus_1)
  then show ?thesis by (simp only: unsigned_take_bit_eq) (simp add: take_bit_eq_mod)
qed

lemma carry_unat:
  "unat ((acc AND 0xFFFF) + drop_bit 16 acc :: u32) = unat acc mod 65536 + unat acc div 65536"
proof -
  have "unat (acc AND 0xFFFF) = unat acc mod 65536" "unat (drop_bit 16 acc) = unat acc div 65536"
    by (rule unat_low16 unat_drop16)+
  moreover have "unat acc < 2 ^ 32" using unsigned_less [of acc, where ?'a = nat] by simp
  ultimately show ?thesis by (intro trans [OF unat_add_no_wrap]) auto
qed

function fold_carry :: "u32 \<Rightarrow> u32" where
  "fold_carry acc =
     (if drop_bit 16 acc \<noteq> 0 then fold_carry ((acc AND 0xFFFF) + drop_bit 16 acc) else acc)"
  by pat_completeness auto

termination
proof (relation "measure unat")
  fix acc :: u32
  assume "drop_bit 16 acc \<noteq> 0"
  then have "unat acc div 65536 \<noteq> 0"
    by (simp only: word_unat_eq_iff unat_drop16) simp
  then have "unat acc mod 65536 + unat acc div 65536 < unat acc"
    using mod_mult_div_eq [of "unat acc" 65536] by linarith
  then show "((acc AND 0xFFFF) + drop_bit 16 acc, acc) \<in> measure unat"
    by (simp add: carry_unat)
qed simp

declare fold_carry.simps [simp del]

lemma fold_carry_spec:
  "unat (fold_carry acc) < 65536 \<and> unat (fold_carry acc) mod 65535 = unat acc mod 65535 \<and>
   (unat (fold_carry acc) = 0 \<longleftrightarrow> unat acc = 0)"
proof (induction acc rule: fold_carry.induct)
  case (1 acc)
  have ud: "unat (drop_bit 16 acc) = unat acc div 65536"
    by (rule unat_drop16)
  show ?case
  proof (cases "drop_bit 16 acc = 0")
    case True
    then have "unat acc div 65536 = 0" using ud by simp
    then have "unat acc < 65536" by (simp add: div_eq_0_iff)
    with True show ?thesis by (subst (1 2 3) fold_carry.simps) simp
  next
    case False
    let ?s = "(acc AND 0xFFFF) + drop_bit 16 acc"
    have step: "fold_carry acc = fold_carry ?s" using False by (subst fold_carry.simps) simp
    have "unat acc = unat acc div 65536 * 65535 + unat ?s"
      unfolding carry_unat using mod_mult_div_eq [of "unat acc" 65536] by linarith
    then have "unat ?s mod 65535 = unat acc mod 65535" by (metis mod_mult_self3)
    moreover have "unat ?s = 0 \<longleftrightarrow> unat acc = 0" unfolding carry_unat by auto
    ultimately show ?thesis using 1 [OF False] step by simp
  qed
qed

text \<open>The words a loop over \<open>uint16_t *ptr\<close> reads.\<close>

fun words16 :: "u8 list \<Rightarrow> u16 list" where
  "words16 (a # b # bs) = (ucast a OR push_bit 8 (ucast b)) # words16 bs"
| "words16 _ = []"

definition add_words :: "u16 list \<Rightarrow> u32 \<Rightarrow> u32" where
  "add_words ws acc = fold (\<lambda>w acc. acc + ucast w) ws acc"

text \<open>
  The summation of the ICMP, UDP and TCP checksums over \<^verbatim>\<open>len\<close> bytes: the words, then an odd last byte
  shifted left by eight.
\<close>

definition add_bytes :: "u8 list \<Rightarrow> u32 \<Rightarrow> u32" where
  "add_bytes bs acc =
     (let acc = add_words (words16 bs) acc
      in if odd (length bs) then acc + push_bit 8 (ucast (last bs)) else acc)"

text \<open>\<open>return ~sum\<close> as a 16-bit value\<close>

definition ones_complement :: "u32 \<Rightarrow> u16" where
  "ones_complement acc = ucast (NOT (fold_carry acc))"

definition total16 :: "u16 list \<Rightarrow> nat" where
  "total16 ws = sum_list (map unat ws)"

lemma total16_simps [simp]: "total16 [] = 0" "total16 (w # ws) = unat w + total16 ws"
  "total16 (us @ ws) = total16 us + total16 ws"
  by (simp_all add: total16_def)

lemma total16_bound: "total16 ws \<le> 65535 * length ws"
proof (induction ws)
  case (Cons w ws)
  have "unat w < 2 ^ 16" using unsigned_less [of w, where ?'a = nat] by simp
  with Cons show ?case by simp
qed simp

lemma unat_add_words:
  assumes "unat acc + total16 ws < 2 ^ 32"
  shows "unat (add_words ws acc) = unat acc + total16 ws"
  using assms
proof (induction ws arbitrary: acc)
  case (Cons w ws)
  have "unat (ucast w :: u32) = unat w" by (simp add: unsigned_ucast_eq take_bit_nat_eq_self_iff)
      (use unsigned_less [of w, where ?'a = nat] in simp)
  moreover from this Cons.prems have "unat (acc + ucast w) = unat acc + unat w"
    by (intro trans [OF unat_add_no_wrap]) simp_all
  ultimately show ?case using Cons.IH [of "acc + ucast w"] Cons.prems by (simp add: add_words_def)
qed (simp add: add_words_def)

lemma unat_ones_complement: "unat (ones_complement acc) = 65535 - unat (fold_carry acc)"
proof -
  let ?f = "fold_carry acc"
  have "NOT ?f = - 1 - ?f" by (simp add: not_eq_complement)
  moreover have "unat (- 1 - ?f) = 2 ^ 32 - 1 - unat ?f"
    by (subst unat_sub) (simp_all add: unsigned_minus_1_eq_mask mask_eq_exp_minus_1)
  ultimately have "unat (ones_complement acc) = (2 ^ 32 - 1 - unat ?f) mod 65536"
    by (simp add: ones_complement_def unsigned_ucast_eq take_bit_eq_mod)
  also have "2 ^ 32 - 1 - unat ?f = (65535 - unat ?f) + 65535 * 65536"
    using fold_carry_spec [of acc] by simp
  also have "\<dots> mod 65536 = 65535 - unat ?f" by (subst mod_mult_self1) simp
  finally show ?thesis .
qed

text \<open>
  The receiver's view of the sum: adding the checksum to the words it was computed over folds to
  all ones.
\<close>

lemma checksum_completes:
  assumes "unat s' = unat s + unat (ones_complement s)"
  shows "unat (fold_carry s') = 65535"
proof -
  let ?f = "unat (fold_carry s)"
  have f: "?f < 65536" "?f mod 65535 = unat s mod 65535" "?f = 0 \<longleftrightarrow> unat s = 0"
    using fold_carry_spec [of s] by simp_all
  have s': "unat s' = unat s + (65535 - ?f)" using assms by (simp add: unat_ones_complement)
  have "unat s' mod 65535 = (?f + (65535 - ?f)) mod 65535"
    unfolding s' using f(2) by (metis mod_add_left_eq)
  then have "unat s' mod 65535 = 0" using f(1) by simp
  moreover have "unat s' \<noteq> 0" using s' f by auto
  moreover note g = fold_carry_spec [of s']
  ultimately have "unat (fold_carry s') mod 65535 = 0" "unat (fold_carry s') \<noteq> 0" by simp_all
  then have "65535 dvd unat (fold_carry s')" by (simp add: mod_eq_0_iff_dvd)
  then obtain k where "unat (fold_carry s') = 65535 * k" by (elim dvdE)
  with g \<open>unat (fold_carry s') \<noteq> 0\<close> show ?thesis by (cases "k = 1") auto
qed

text \<open>Two non-zero sums get the same checksum exactly when they agree modulo 65535.\<close>

lemma ones_complement_eq_iff:
  assumes "unat s \<noteq> 0" and "unat t \<noteq> 0"
  shows "ones_complement s = ones_complement t \<longleftrightarrow> unat s mod 65535 = unat t mod 65535"
proof -
  let ?f = "unat (fold_carry s)" and ?g = "unat (fold_carry t)"
  have f: "0 < ?f" "?f \<le> 65535" "?f mod 65535 = unat s mod 65535"
    and g: "0 < ?g" "?g \<le> 65535" "?g mod 65535 = unat t mod 65535"
    using fold_carry_spec [of s] fold_carry_spec [of t] assms by auto
  have "ones_complement s = ones_complement t \<longleftrightarrow> ?f = ?g"
    using f g by (auto simp: word_unat_eq_iff unat_ones_complement)
  also have "\<dots> \<longleftrightarrow> ?f mod 65535 = ?g mod 65535"
    using f(1,2) g(1,2) by (cases "?f = 65535"; cases "?g = 65535") auto
  finally show ?thesis using f g by simp
qed

end
