(* ===== verification/Netdev.thy ===== *)
theory Netdev
  imports E1000 Net_Bytes
begin

text \<open>
  Network devices and interfaces: \<^verbatim>\<open>network/netdev.c\<close> and the interface table of \<^verbatim>\<open>network/network.c\<close>.

  An interface is referred to by its index in the static array of \<^verbatim>\<open>netdev_register\<close> (\<open>if_pool\<close>);
  \<open>interfaces\<close> is the pointer table of \<^verbatim>\<open>network.c\<close>. The function pointers \<^verbatim>\<open>send_packet\<close> and
  \<^verbatim>\<open>receive_packet\<close> of an interface are the constructors of \<open>driver\<close>, since these are the
  functions the program stores there. A buffer passed with its length is a byte list; the checks
  for NULL buffers have no counterpart. The state record is extended by each protocol theory, so every
  operation here works on any extension.
\<close>

section \<open>State\<close>

definition MAX_NETWORK_INTERFACES :: nat where "MAX_NETWORK_INTERFACES = 4"
definition ETHERNET_FRAME_SIZE :: nat where "ETHERNET_FRAME_SIZE = 1518"
definition NET_SUCCESS :: int where "NET_SUCCESS = 0"
definition NET_ERROR :: int where "NET_ERROR = - 1"
definition NET_TIMEOUT :: int where "NET_TIMEOUT = - 2"
definition NET_BUFFER_FULL :: int where "NET_BUFFER_FULL = - 3"
definition NET_INVALID_PARAM :: int where "NET_INVALID_PARAM = - 4"
definition MAX_PACKET_QUEUE :: nat where "MAX_PACKET_QUEUE = 16"

lemmas net_codes = NET_SUCCESS_def NET_ERROR_def NET_TIMEOUT_def NET_BUFFER_FULL_def
  NET_INVALID_PARAM_def

datatype driver = LOOPBACK | ETHERNET | E1000

record network_interface_t =
  mac_address :: "u8 list"
  ip_address :: u32
  subnet_mask :: u32
  gateway :: u32
  active :: bool
  name :: string
  send_packet :: "driver option"
  receive_packet :: "driver option"

record packet_queue_t =
  packets :: "u8 list list"
  lengths :: "nat list"
  q_head :: nat
  q_tail :: nat
  q_count :: nat

record netdev =
  interfaces :: "nat option list"
  interface_count :: nat
  if_pool :: "network_interface_t list"
  if_pool_count :: nat
  loopback_queue :: packet_queue_t
  e1000_dev :: e1000_device_t
  timer_ticks :: u64

abbreviation iface :: "'z netdev_scheme \<Rightarrow> nat \<Rightarrow> network_interface_t" where
  "iface s i \<equiv> if_pool s ! i"

abbreviation upd_iface ::
  "nat \<Rightarrow> (network_interface_t \<Rightarrow> network_interface_t) \<Rightarrow> 'z netdev_scheme \<Rightarrow> 'z netdev_scheme" where
  "upd_iface i f s \<equiv> s\<lparr>if_pool := (if_pool s)[i := f (if_pool s ! i)]\<rparr>"

section \<open>Loopback device\<close>

definition queue_put :: "u8 list \<Rightarrow> packet_queue_t \<Rightarrow> packet_queue_t" where
  "queue_put data q =
     (let index = q_tail q
      in q\<lparr>packets := (packets q)[index := write_prefix data (packets q ! index)],
           lengths := (lengths q)[index := length data],
           q_tail := (q_tail q + 1) mod MAX_PACKET_QUEUE,
           q_count := q_count q + 1\<rparr>)"

definition loopback_send :: "u8 list \<Rightarrow> 'z netdev_scheme \<Rightarrow> int \<times> 'z netdev_scheme" where
  "loopback_send data s =
     (if length data = 0 \<or> ETHERNET_FRAME_SIZE < length data then (NET_INVALID_PARAM, s)
      else if MAX_PACKET_QUEUE \<le> q_count (loopback_queue s) then (NET_BUFFER_FULL, s)
      else (NET_SUCCESS, s\<lparr>loopback_queue := queue_put data (loopback_queue s)\<rparr>))"

definition queue_drop :: "packet_queue_t \<Rightarrow> packet_queue_t" where
  "queue_drop q = q\<lparr>q_head := (q_head q + 1) mod MAX_PACKET_QUEUE, q_count := q_count q - 1\<rparr>"

text \<open>The result is the return value and the bytes stored at the start of the caller's buffer.\<close>

definition loopback_receive :: "nat \<Rightarrow> 'z netdev_scheme \<Rightarrow> (int \<times> u8 list) \<times> 'z netdev_scheme" where
  "loopback_receive max_len s =
     (let q = loopback_queue s
      in if max_len = 0 then ((NET_INVALID_PARAM, []), s)
         else if q_count q = 0 then ((0, []), s)
         else let index = q_head q; len = lengths q ! index
              in if max_len < len then ((NET_ERROR, []), s)
                 else ((int len, take len (packets q ! index)),
                       s\<lparr>loopback_queue := queue_drop q\<rparr>))"

definition loopback_start :: "nat \<Rightarrow> 'z netdev_scheme \<Rightarrow> int \<times> 'z netdev_scheme" where
  "loopback_start i s = (NET_SUCCESS, s)"

definition loopback_stop :: "nat \<Rightarrow> 'z netdev_scheme \<Rightarrow> int \<times> 'z netdev_scheme" where
  "loopback_stop i s =
     (NET_SUCCESS, s\<lparr>loopback_queue := (loopback_queue s)\<lparr>q_head := 0, q_tail := 0, q_count := 0\<rparr>\<rparr>)"

definition loopback_init_dev :: "nat \<Rightarrow> 'z netdev_scheme \<Rightarrow> int \<times> 'z netdev_scheme" where
  "loopback_init_dev i s =
     (NET_SUCCESS, s\<lparr>loopback_queue := (loopback_queue s)\<lparr>q_head := 0, q_tail := 0, q_count := 0\<rparr>\<rparr>)"

definition loopback_set_mac :: "nat \<Rightarrow> u8 list option \<Rightarrow> 'z netdev_scheme \<Rightarrow> 'z netdev_scheme" where
  "loopback_set_mac i mac s =
     (case mac of None \<Rightarrow> s | Some m \<Rightarrow> upd_iface i (\<lambda>f. f\<lparr>mac_address := take 6 m\<rparr>) s)"

definition loopback_get_mac :: "nat \<Rightarrow> 'z netdev_scheme \<Rightarrow> u8 list" where
  "loopback_get_mac i s = mac_address (iface s i)"

section \<open>Interface table\<close>

definition network_register_interface :: "nat \<Rightarrow> 'z netdev_scheme \<Rightarrow> int \<times> 'z netdev_scheme" where
  "network_register_interface i s =
     (if MAX_NETWORK_INTERFACES \<le> interface_count s then (NET_ERROR, s)
      else (NET_SUCCESS,
            upd_iface i (\<lambda>f. f\<lparr>active := True\<rparr>)
             (s\<lparr>interfaces := (interfaces s)[interface_count s := Some i],
                interface_count := interface_count s + 1\<rparr>)))"

definition network_get_interface :: "int \<Rightarrow> 'z netdev_scheme \<Rightarrow> nat option" where
  "network_get_interface index s =
     (if index < 0 \<or> int (interface_count s) \<le> index then None else interfaces s ! nat index)"

text \<open>The call through \<^verbatim>\<open>iface->send_packet\<close>; its result is dropped by the caller.\<close>

definition call_send :: "driver \<Rightarrow> u8 list \<Rightarrow> 'z netdev_scheme \<Rightarrow> 'z netdev_scheme" where
  "call_send d data s =
     (case d of
        LOOPBACK \<Rightarrow> snd (loopback_send data s)
      | ETHERNET \<Rightarrow> s\<lparr>e1000_dev := snd (e1000_send_packet data (e1000_dev s))\<rparr>
      | E1000 \<Rightarrow> s\<lparr>e1000_dev := snd (e1000_send_packet data (e1000_dev s))\<rparr>)"

definition call_receive ::
  "driver \<Rightarrow> nat \<Rightarrow> 'z netdev_scheme \<Rightarrow> (int \<times> u8 list) \<times> 'z netdev_scheme" where
  "call_receive d max_len s =
     (case d of
        LOOPBACK \<Rightarrow> loopback_receive max_len s
      | _ \<Rightarrow> (case e1000_receive_packet max_len (e1000_dev s) of
                (r, dev) \<Rightarrow> (r, s\<lparr>e1000_dev := dev\<rparr>)))"

definition network_send_raw :: "nat \<Rightarrow> u8 list \<Rightarrow> 'z netdev_scheme \<Rightarrow> int \<times> 'z netdev_scheme" where
  "network_send_raw i data s =
     (if length data = 0 \<or> \<not> active (iface s i) then (NET_INVALID_PARAM, s)
      else case send_packet (iface s i) of
             Some d \<Rightarrow> (NET_SUCCESS, call_send d data s)
           | None \<Rightarrow> (NET_ERROR, s))"

definition network_receive_raw ::
  "nat \<Rightarrow> nat \<Rightarrow> 'z netdev_scheme \<Rightarrow> (int \<times> u8 list) \<times> 'z netdev_scheme" where
  "network_receive_raw i max_len s =
     (if max_len = 0 \<or> \<not> active (iface s i) then ((NET_INVALID_PARAM, []), s)
      else case receive_packet (iface s i) of
             Some d \<Rightarrow> call_receive d max_len s
           | None \<Rightarrow> ((NET_ERROR, []), s))"

text \<open>The first registered interface, in table order, that satisfies a condition.\<close>

definition find_iface :: "(network_interface_t \<Rightarrow> bool) \<Rightarrow> 'z netdev_scheme \<Rightarrow> nat option" where
  "find_iface P s =
     (case first_index (\<lambda>k. case interfaces s ! k of None \<Rightarrow> False | Some i \<Rightarrow> P (iface s i))
             (interface_count s) of
        None \<Rightarrow> None
      | Some k \<Rightarrow> interfaces s ! k)"

definition network_find_interface_by_ip :: "u32 \<Rightarrow> 'z netdev_scheme \<Rightarrow> nat option" where
  "network_find_interface_by_ip ip s = find_iface (\<lambda>f. active f \<and> ip_address f = ip) s"

definition network_find_route :: "u32 \<Rightarrow> 'z netdev_scheme \<Rightarrow> nat option" where
  "network_find_route dest_ip s =
     (case find_iface (\<lambda>f. active f \<and>
              ip_address f AND subnet_mask f = dest_ip AND subnet_mask f) s of
        Some i \<Rightarrow> Some i
      | None \<Rightarrow> find_iface active s)"

section \<open>Device registration\<close>

text \<open>C strings are character lists with their terminating NUL.\<close>

abbreviation NUL :: char where "NUL \<equiv> CHR 0x00"

fun netdev_strcmp :: "string \<Rightarrow> string \<Rightarrow> int" where
  "netdev_strcmp (a # as) (b # bs) =
     (if a \<noteq> NUL \<and> a = b then netdev_strcmp as bs else of_char a - of_char b)"
| "netdev_strcmp _ _ = 0"

definition netdev_strncpy :: "string \<Rightarrow> string \<Rightarrow> nat \<Rightarrow> string" where
  "netdev_strncpy dest src n =
     (let i = length (takeWhile (\<lambda>c. c \<noteq> NUL) (take (n - 1) src))
      in take i src @ replicate (n - i) NUL @ drop n dest)"

record 's netdev_ops_t =
  op_init :: "(nat \<Rightarrow> 's \<Rightarrow> int \<times> 's) option"
  op_start :: "(nat \<Rightarrow> 's \<Rightarrow> int \<times> 's) option"
  op_stop :: "(nat \<Rightarrow> 's \<Rightarrow> int \<times> 's) option"
  op_send :: "driver option"
  op_receive :: "driver option"

definition call_op :: "(nat \<Rightarrow> 's \<Rightarrow> int \<times> 's) option \<Rightarrow> nat \<Rightarrow> 's \<Rightarrow> 's" where
  "call_op f i s = (case f of None \<Rightarrow> s | Some g \<Rightarrow> snd (g i s))"

definition fill_interface ::
  "string \<Rightarrow> 's netdev_ops_t \<Rightarrow> u8 list option \<Rightarrow> u32 \<Rightarrow> u32 \<Rightarrow> u32 \<Rightarrow> nat \<Rightarrow>
     network_interface_t \<Rightarrow> network_interface_t" where
  "fill_interface nm ops mac_addr ip netmask gw count f =
     f\<lparr>mac_address := (case mac_addr of Some m \<Rightarrow> take 6 m
                        | None \<Rightarrow> [0x02, 0, 0, 0, 0, of_nat count]),
       ip_address := ip, subnet_mask := netmask, gateway := gw, active := False,
       name := (netdev_strncpy (name f) nm 15)[15 := NUL],
       send_packet := op_send ops, receive_packet := op_receive ops\<rparr>"

definition netdev_register ::
  "string \<Rightarrow> 'z netdev_scheme netdev_ops_t \<Rightarrow> u8 list option \<Rightarrow> u32 \<Rightarrow> u32 \<Rightarrow> u32 \<Rightarrow>
     'z netdev_scheme \<Rightarrow> int \<times> 'z netdev_scheme" where
  "netdev_register nm ops mac_addr ip netmask gw s =
     (if MAX_NETWORK_INTERFACES \<le> if_pool_count s then (NET_ERROR, s)
      else let i = if_pool_count s;
               s = s\<lparr>if_pool_count := i + 1\<rparr>;
               s = upd_iface i (fill_interface nm ops mac_addr ip netmask gw (i + 1)) s;
               s = call_op (op_init ops) i s;
               s = snd (network_register_interface i s);
               s = call_op (op_start ops) i s
           in (NET_SUCCESS, s))"

definition netdev_get_by_name :: "string \<Rightarrow> 'z netdev_scheme \<Rightarrow> nat option" where
  "netdev_get_by_name nm s =
     (case first_index (\<lambda>k. case network_get_interface (int k) s of
                             None \<Rightarrow> False
                           | Some i \<Rightarrow> netdev_strcmp (name (iface s i)) nm = 0)
             MAX_NETWORK_INTERFACES of
        None \<Rightarrow> None
      | Some k \<Rightarrow> network_get_interface (int k) s)"

definition loopback_ops :: "'z netdev_scheme netdev_ops_t" where
  "loopback_ops = \<lparr>op_init = Some loopback_init_dev, op_start = Some loopback_start,
     op_stop = Some loopback_stop, op_send = Some LOOPBACK, op_receive = Some LOOPBACK\<rparr>"

definition loopback_init :: "'z netdev_scheme \<Rightarrow> int \<times> 'z netdev_scheme" where
  "loopback_init s =
     netdev_register (''lo'' @ [NUL]) loopback_ops (Some [0, 0, 0, 0, 0, 1])
       0x7F000001 0xFF000000 0x7F000001 s"

definition ethernet_start :: "nat \<Rightarrow> 'z netdev_scheme \<Rightarrow> int \<times> 'z netdev_scheme" where
  "ethernet_start i s = (0, s)"

definition ethernet_stop :: "nat \<Rightarrow> 'z netdev_scheme \<Rightarrow> int \<times> 'z netdev_scheme" where
  "ethernet_stop i s = (0, upd_iface i (\<lambda>f. f\<lparr>active := False\<rparr>) s)"

definition ethernet_init_dev :: "nat \<Rightarrow> 'z netdev_scheme \<Rightarrow> int \<times> 'z netdev_scheme" where
  "ethernet_init_dev i s = (NET_SUCCESS, upd_iface i (\<lambda>f. f\<lparr>active := True\<rparr>) s)"

definition ethernet_ops :: "'z netdev_scheme netdev_ops_t" where
  "ethernet_ops = \<lparr>op_init = Some ethernet_init_dev, op_start = Some ethernet_start,
     op_stop = Some ethernet_stop, op_send = Some ETHERNET, op_receive = Some ETHERNET\<rparr>"

definition e1000_netdev_ops :: "'z netdev_scheme netdev_ops_t" where
  "e1000_netdev_ops = \<lparr>op_init = None, op_start = None, op_stop = None,
     op_send = Some E1000, op_receive = Some E1000\<rparr>"

definition e1000_register_netdev :: "'z netdev_scheme \<Rightarrow> int \<times> 'z netdev_scheme" where
  "e1000_register_netdev s =
     (if \<not> e1000_initialized (e1000_dev s) then (- 1, s)
      else netdev_register (''eth0'' @ [NUL]) e1000_netdev_ops
             (Some (dev_mac_address (e1000_dev s))) 0 0 0 s)"

text \<open>\<open>e1000_init\<close>, the PCI search and probe of the card, is a parameter.\<close>

definition ethernet_init ::
  "(e1000_device_t \<Rightarrow> int \<times> e1000_device_t) \<Rightarrow> 'z netdev_scheme \<Rightarrow> int \<times> 'z netdev_scheme" where
  "ethernet_init e1000_init s =
     (case e1000_init (e1000_dev s) of
        (r, dev) \<Rightarrow>
          let s = s\<lparr>e1000_dev := dev\<rparr>
          in if r = 0 then e1000_register_netdev s
             else netdev_register (''eth0'' @ [NUL]) ethernet_ops
                    (Some [0x02, 0x00, 0x00, 0x12, 0x34, 0x56]) 0 0 0 s)"

section \<open>The loopback queue is a bounded FIFO\<close>

text \<open>Every frame on the wire fits the 1514-byte frame struct of \<^verbatim>\<open>ethernet.h\<close>.\<close>

definition ETH_FRAME_LEN :: nat where "ETH_FRAME_LEN = 1514"

definition frame_ok :: "u8 list \<Rightarrow> bool" where
  "frame_ok f \<longleftrightarrow> 0 < length f \<and> length f \<le> ETH_FRAME_LEN"

definition queue_slots :: "packet_queue_t \<Rightarrow> u8 list list" where
  "queue_slots q = map2 take (lengths q) (packets q)"

definition lo_contents :: "'z netdev_scheme \<Rightarrow> u8 list list" where
  "lo_contents s = ring_slice (queue_slots (loopback_queue s)) (q_head (loopback_queue s))
     (q_count (loopback_queue s))"

definition queue_wf :: "packet_queue_t \<Rightarrow> bool" where
  "queue_wf q \<longleftrightarrow> length (packets q) = MAX_PACKET_QUEUE \<and> length (lengths q) = MAX_PACKET_QUEUE \<and>
     list_all2 (\<lambda>n p. n \<le> length p) (lengths q) (packets q) \<and>
     q_head q < MAX_PACKET_QUEUE \<and> q_count q \<le> MAX_PACKET_QUEUE \<and>
     q_tail q = (q_head q + q_count q) mod MAX_PACKET_QUEUE"

definition lo_inv :: "'z netdev_scheme \<Rightarrow> bool" where
  "lo_inv s \<longleftrightarrow> queue_wf (loopback_queue s) \<and> list_all frame_ok (lo_contents s)"

definition lo_put :: "u8 list \<Rightarrow> 'z netdev_scheme \<Rightarrow> 'z netdev_scheme" where
  "lo_put data s = snd (loopback_send data s)"

definition lo_get :: "'z netdev_scheme \<Rightarrow> u8 list option \<times> 'z netdev_scheme" where
  "lo_get s =
     (case loopback_receive ETH_FRAME_LEN s of
        ((r, bytes), s') \<Rightarrow> (if 0 < r then Some bytes else None, s'))"

lemmas netdev_consts = MAX_PACKET_QUEUE_def ETHERNET_FRAME_SIZE_def ETH_FRAME_LEN_def
  MAX_NETWORK_INTERFACES_def

lemma length_queue_slots: "queue_wf q \<Longrightarrow> length (queue_slots q) = 16"
  by (simp add: queue_wf_def queue_slots_def netdev_consts)

lemma queue_slots_put:
  assumes "queue_wf q"
  shows "queue_slots (queue_put data q) = (queue_slots q)[q_tail q := data]"
proof (rule nth_equalityI)
  show "length (queue_slots (queue_put data q)) = length ((queue_slots q)[q_tail q := data])"
    by (simp add: queue_slots_def queue_put_def Let_def)
  fix i assume "i < length (queue_slots (queue_put data q))"
  with assms have "i < length (packets q)" "i < length (lengths q)"
    by (simp_all add: queue_slots_def queue_put_def Let_def)
  then show "queue_slots (queue_put data q) ! i = (queue_slots q)[q_tail q := data] ! i"
    by (cases "i = q_tail q") (simp_all add: queue_slots_def queue_put_def Let_def write_prefix_def)
qed

lemma queue_put_wf:
  assumes "queue_wf q" and "q_count q < 16"
  shows "queue_wf (queue_put data q)"
  using assms
  by (auto simp: queue_wf_def queue_put_def Let_def netdev_consts write_prefix_def mod_simps
      intro!: list_all2_update_cong)

lemma queue_drop_wf: "queue_wf q \<Longrightarrow> 0 < q_count q \<Longrightarrow> queue_wf (queue_drop q)"
  by (cases "q_count q") (simp_all add: queue_wf_def queue_drop_def netdev_consts mod_simps)

lemma queue_slots_drop [simp]: "queue_slots (queue_drop q) = queue_slots q"
  by (simp add: queue_slots_def queue_drop_def)

lemma length_lo_contents [simp]: "length (lo_contents s) = q_count (loopback_queue s)"
  by (simp add: lo_contents_def)

lemma lo_put_room:
  assumes "lo_inv s" and "frame_ok data" and "length (lo_contents s) < MAX_PACKET_QUEUE"
  shows "lo_inv (lo_put data s) \<and> lo_contents (lo_put data s) = lo_contents s @ [data]"
proof -
  let ?q = "loopback_queue s"
  from assms have wf: "queue_wf ?q" and room: "q_count ?q < 16"
    by (simp_all add: lo_inv_def netdev_consts)
  then have q: "loopback_queue (lo_put data s) = queue_put data ?q"
    using assms(2) by (simp add: lo_put_def loopback_send_def frame_ok_def netdev_consts)
  have "ring_slice ((queue_slots ?q)[q_tail ?q := data]) (q_head ?q) (Suc (q_count ?q)) =
      ring_slice (queue_slots ?q) (q_head ?q) (q_count ?q) @ [data]"
    using ring_slice_put [of "q_count ?q" "queue_slots ?q" "q_head ?q" data] wf room
    by (simp add: length_queue_slots) (simp add: queue_wf_def netdev_consts)
  then have "lo_contents (lo_put data s) = lo_contents s @ [data]"
    by (simp add: lo_contents_def q queue_slots_put [OF wf])
       (simp add: queue_put_def Let_def)
  with assms(1,2) queue_put_wf [OF wf room] show ?thesis by (simp add: lo_inv_def q)
qed

lemma lo_put_full:
  assumes "length (lo_contents s) = MAX_PACKET_QUEUE"
  shows "lo_put data s = s"
  using assms by (simp add: lo_put_def loopback_send_def)

lemma lo_get_empty:
  assumes "lo_contents s = []"
  shows "lo_get s = (None, s)"
proof -
  have "q_count (loopback_queue s) = 0" using arg_cong [OF assms, of length] by simp
  then show ?thesis by (simp add: lo_get_def loopback_receive_def netdev_consts Let_def)
qed

lemma lo_receive_next:
  assumes "lo_inv s" and "lo_contents s = x # xs"
  shows "loopback_receive ETH_FRAME_LEN s =
       ((int (length x), x), s\<lparr>loopback_queue := queue_drop (loopback_queue s)\<rparr>) \<and>
     lo_inv (s\<lparr>loopback_queue := queue_drop (loopback_queue s)\<rparr>) \<and>
     lo_contents (s\<lparr>loopback_queue := queue_drop (loopback_queue s)\<rparr>) = xs"
proof -
  let ?q = "loopback_queue s"
  from assms have wf: "queue_wf ?q" and ok: "frame_ok x" "list_all frame_ok xs"
    by (simp_all add: lo_inv_def)
  from arg_cong [OF assms(2), of length] obtain c where c: "q_count ?q = Suc c" by (cases "q_count ?q") auto
  have h: "q_head ?q < 16" using wf by (simp add: queue_wf_def netdev_consts)
  have "ring_slice (queue_slots ?q) (q_head ?q) (Suc c) =
      queue_slots ?q ! q_head ?q # ring_slice (queue_slots ?q) ((q_head ?q + 1) mod 16) c"
    using ring_slice_get [of "q_head ?q" "queue_slots ?q" c] h by (simp add: length_queue_slots [OF wf])
  with assms(2) c have x: "x = queue_slots ?q ! q_head ?q"
    and xs: "xs = ring_slice (queue_slots ?q) ((q_head ?q + 1) mod 16) c"
    by (simp_all add: lo_contents_def)
  have slot: "queue_slots ?q ! q_head ?q = take (lengths ?q ! q_head ?q) (packets ?q ! q_head ?q)"
    using wf h by (simp add: queue_slots_def queue_wf_def netdev_consts)
  have "lengths ?q ! q_head ?q \<le> length (packets ?q ! q_head ?q)"
    using wf h by (simp add: queue_wf_def netdev_consts list_all2_conv_all_nth)
  then have len: "lengths ?q ! q_head ?q = length x" by (simp add: x slot)
  have get: "loopback_receive ETH_FRAME_LEN s = ((int (length x), x), s\<lparr>loopback_queue := queue_drop ?q\<rparr>)"
  proof -
    have "take (length x) (packets ?q ! q_head ?q) = x" using x slot len by simp
    moreover have "0 < length x" "length x \<le> 1514" using ok(1) by (simp_all add: frame_ok_def netdev_consts)
    ultimately show ?thesis
      using c by (simp add: loopback_receive_def Let_def len netdev_consts)
  qed
  have "lo_contents (s\<lparr>loopback_queue := queue_drop ?q\<rparr>) = xs"
    by (simp add: lo_contents_def xs) (simp add: queue_drop_def c netdev_consts)
  with get ok(2) queue_drop_wf [OF wf] c show ?thesis by (simp add: lo_inv_def)
qed

lemma lo_get_next:
  assumes "lo_inv s" and "lo_contents s = x # xs"
  shows "fst (lo_get s) = Some x \<and> lo_inv (snd (lo_get s)) \<and> lo_contents (snd (lo_get s)) = xs"
proof -
  have "frame_ok x" using assms by (simp add: lo_inv_def)
  then have "0 < length x" by (simp add: frame_ok_def)
  with lo_receive_next [OF assms] show ?thesis by (simp add: lo_get_def)
qed

interpretation lo: bounded_fifo "lo_inv :: 'z netdev_scheme \<Rightarrow> bool" frame_ok MAX_PACKET_QUEUE
  lo_contents lo_put lo_get
proof
  show "length (lo_contents s) \<le> MAX_PACKET_QUEUE" if "lo_inv s" for s :: "'z netdev_scheme"
    using that by (simp add: lo_inv_def queue_wf_def)
qed (use lo_put_room lo_put_full lo_get_empty lo_get_next in blast)+

end
