(* ===== verification/Ethernet.thy ===== *)
theory Ethernet
  imports Netdev
begin

text \<open>
  Ethernet framing (\<^verbatim>\<open>network/ethernet.c\<close>): building, padding and receiving frames. The dispatch of
  a received frame to ARP and IP, \<^verbatim>\<open>ethernet_process_frame\<close>, is in the theory \<open>Net_Input\<close>, after the
  protocols it calls. A received frame is the content of the caller's 1514-byte frame struct.
\<close>

section \<open>Operations\<close>

definition ETH_ALEN :: nat where "ETH_ALEN = 6"
definition ETH_HLEN :: nat where "ETH_HLEN = 14"
definition ETH_ZLEN :: nat where "ETH_ZLEN = 60"
definition ETH_TYPE_IP :: u16 where "ETH_TYPE_IP = 0x0800"
definition ETH_TYPE_ARP :: u16 where "ETH_TYPE_ARP = 0x0806"

definition broadcast_mac :: "u8 list" where
  "broadcast_mac = [0xFF, 0xFF, 0xFF, 0xFF, 0xFF, 0xFF]"

lemmas eth_consts = ETH_ALEN_def ETH_HLEN_def ETH_ZLEN_def ETH_FRAME_LEN_def

text \<open>The bytes of \<^verbatim>\<open>ethernet_frame_t\<close> up to \<^verbatim>\<open>frame_len\<close>, padding included.\<close>

definition ethernet_frame :: "u8 list \<Rightarrow> u8 list \<Rightarrow> u16 \<Rightarrow> u8 list \<Rightarrow> u8 list" where
  "ethernet_frame dest_mac src_mac ethertype payload =
     (let frame = take ETH_ALEN dest_mac @ take ETH_ALEN src_mac @ le16 (bswap16 ethertype) @ payload;
          frame_len = ETH_HLEN + length payload
      in if frame_len < ETH_ZLEN then frame @ replicate (ETH_ZLEN - frame_len) 0 else frame)"

definition ethernet_send_frame ::
  "nat \<Rightarrow> u8 list \<Rightarrow> u16 \<Rightarrow> u8 list \<Rightarrow> 'z netdev_scheme \<Rightarrow> int \<times> 'z netdev_scheme" where
  "ethernet_send_frame i dest_mac ethertype payload s =
     (if length payload = 0 then (NET_INVALID_PARAM, s)
      else if ETH_FRAME_LEN - ETH_HLEN < length payload then (NET_ERROR, s)
      else network_send_raw i
             (ethernet_frame dest_mac (mac_address (iface s i)) ethertype payload) s)"

definition ethernet_receive_frame ::
  "nat \<Rightarrow> u8 list \<Rightarrow> 'z netdev_scheme \<Rightarrow> (int \<times> u8 list) \<times> 'z netdev_scheme" where
  "ethernet_receive_frame i frame s =
     (case network_receive_raw i ETH_FRAME_LEN s of
        ((result, bytes), s) \<Rightarrow>
          let frame = write_prefix bytes frame
          in if result \<le> 0 then ((result, frame), s)
             else ((result, wr16 frame 12 (bswap16 (rd16 frame 12))), s))"

definition ethernet_is_broadcast :: "u8 list \<Rightarrow> bool" where
  "ethernet_is_broadcast mac \<longleftrightarrow> take ETH_ALEN mac = broadcast_mac"

definition ethernet_set_multicast :: "u32 \<Rightarrow> u8 list" where
  "ethernet_set_multicast ip =
     [0x01, 0x00, 0x5E, ucast (drop_bit 16 ip AND 0x7F), ucast (drop_bit 8 ip AND 0xFF),
      ucast (ip AND 0xFF)]"

section \<open>Layout\<close>

lemma length_ethernet_frame:
  assumes "length d = 6" and "length m = 6"
  shows "length (ethernet_frame d m et p) = max 60 (14 + length p)"
  using assms by (simp add: ethernet_frame_def eth_consts Let_def max_def)

lemma ethernet_frame_ok:
  assumes "length d = 6" and "length m = 6" and "length p \<le> 1500"
  shows "frame_ok (ethernet_frame d m et p)"
  using assms by (simp add: frame_ok_def length_ethernet_frame eth_consts)

lemma ethernet_frame_layout:
  assumes "length d = 6" and "length m = 6"
  obtains pad where "ethernet_frame d m et p = d @ m @ le16 (bswap16 et) @ p @ pad"
    and "length pad = 46 - length p"
proof
  let ?pad = "replicate (46 - length p) (0 :: u8)"
  show "ethernet_frame d m et p = d @ m @ le16 (bswap16 et) @ p @ ?pad"
    using assms by (simp add: ethernet_frame_def eth_consts Let_def)
qed simp

text \<open>What a receive of a well-formed frame leaves in the caller's struct.\<close>

definition received :: "u8 list \<Rightarrow> u8 list \<Rightarrow> u8 list" where
  "received bytes frame = wr16 (write_prefix bytes frame) 12 (bswap16 (rd16 (write_prefix bytes frame) 12))"

lemma received_split:
  assumes "length d = 6" and "length m = 6" and "length p \<le> 1500" and "length buf = 1514"
  obtains rest where "received (ethernet_frame d m et p) buf = d @ m @ le16 et @ p @ rest"
    and "length rest = 1500 - length p"
proof -
  obtain pad where f: "ethernet_frame d m et p = d @ m @ le16 (bswap16 et) @ p @ pad"
    and pad: "length pad = 46 - length p" by (rule ethernet_frame_layout [OF assms(1,2)])
  define rest where "rest = pad @ drop (14 + length p + length pad) buf"
  have w: "write_prefix (ethernet_frame d m et p) buf = (d @ m) @ le16 (bswap16 et) @ p @ rest"
    unfolding write_prefix_def f rest_def using assms by (simp add: add.assoc)
  have dm: "length (d @ m) = 12" using assms by simp
  have "received (ethernet_frame d m et p) buf = (d @ m) @ le16 et @ p @ rest"
    unfolding received_def w rd16_field [OF dm] wr16_field [OF dm] by simp
  moreover have "length rest = 1500 - length p" using assms pad by (simp add: rest_def)
  ultimately show thesis by (intro that [of rest]) simp_all
qed

end
