(* ===== verification/Arp.thy ===== *)
theory Arp
  imports Ethernet
begin

text \<open>
  Address resolution (\<^verbatim>\<open>network/arp.c\<close>): the 128-entry table with its replacement of the oldest
  entry, requests, replies and the processing of received ARP packets.
\<close>

section \<open>State and operations\<close>

definition ARP_HARDWARE_ETHERNET :: u16 where "ARP_HARDWARE_ETHERNET = 1"
definition ARP_PROTOCOL_IP :: u16 where "ARP_PROTOCOL_IP = 0x0800"
definition ARP_REQUEST :: u16 where "ARP_REQUEST = 1"
definition ARP_REPLY :: u16 where "ARP_REPLY = 2"
definition ARP_TABLE_SIZE :: nat where "ARP_TABLE_SIZE = 128"

record arp_entry_t =
  arp_ip :: u32
  arp_mac :: "u8 list"
  timestamp :: u32
  valid :: bool

record arp_net = netdev +
  arp_table :: "arp_entry_t list"
  arp_table_entries :: nat

text \<open>The 28 bytes of \<^verbatim>\<open>arp_header_t\<close> as the two send functions fill it.\<close>

definition arp_header :: "u16 \<Rightarrow> u8 list \<Rightarrow> u32 \<Rightarrow> u8 list \<Rightarrow> u32 \<Rightarrow> u8 list" where
  "arp_header operation sender_mac sender_ip target_mac target_ip =
     le16 (bswap16 ARP_HARDWARE_ETHERNET) @ le16 (bswap16 ARP_PROTOCOL_IP) @ [6, 4] @
     le16 (bswap16 operation) @ take 6 sender_mac @ le32 (bswap32 sender_ip) @
     take 6 target_mac @ le32 (bswap32 target_ip)"

definition arp_get_time :: "'z netdev_scheme \<Rightarrow> u32" where
  "arp_get_time s = ucast (timer_ticks s)"

definition arp_init :: "'z arp_net_scheme \<Rightarrow> int \<times> 'z arp_net_scheme" where
  "arp_init s =
     (NET_SUCCESS,
      s\<lparr>arp_table := replicate ARP_TABLE_SIZE
           \<lparr>arp_ip = 0, arp_mac = replicate 6 0, timestamp = 0, valid = False\<rparr>,
        arp_table_entries := 0\<rparr>)"

definition arp_send_request :: "nat \<Rightarrow> u32 \<Rightarrow> 'z netdev_scheme \<Rightarrow> int \<times> 'z netdev_scheme" where
  "arp_send_request i target_ip s =
     ethernet_send_frame i (replicate 6 0xFF) ETH_TYPE_ARP
       (arp_header ARP_REQUEST (mac_address (iface s i)) (ip_address (iface s i))
         (replicate 6 0) target_ip) s"

definition arp_send_reply :: "nat \<Rightarrow> u32 \<Rightarrow> u8 list \<Rightarrow> 'z netdev_scheme \<Rightarrow> int \<times> 'z netdev_scheme" where
  "arp_send_reply i target_ip target_mac s =
     ethernet_send_frame i target_mac ETH_TYPE_ARP
       (arp_header ARP_REPLY (mac_address (iface s i)) (ip_address (iface s i))
         target_mac target_ip) s"

definition arp_slot :: "u32 \<Rightarrow> 'z arp_net_scheme \<Rightarrow> nat option" where
  "arp_slot ip s =
     first_index (\<lambda>k. valid (arp_table s ! k) \<and> arp_ip (arp_table s ! k) = ip) ARP_TABLE_SIZE"

definition arp_lookup :: "u32 \<Rightarrow> 'z arp_net_scheme \<Rightarrow> u8 list option" where
  "arp_lookup ip s = map_option (\<lambda>k. arp_mac (arp_table s ! k)) (arp_slot ip s)"

text \<open>The search of \<^verbatim>\<open>arp_add_entry\<close>: an unused slot, or else the oldest entry older than now.\<close>

fun arp_scan :: "arp_entry_t list \<Rightarrow> nat \<Rightarrow> nat option \<Rightarrow> u32 \<Rightarrow> nat option" where
  "arp_scan [] i slot oldest_time = slot"
| "arp_scan (e # es) i slot oldest_time =
     (if \<not> valid e then Some i
      else if timestamp e < oldest_time then arp_scan es (i + 1) (Some i) (timestamp e)
      else arp_scan es (i + 1) slot oldest_time)"

definition arp_add_entry :: "u32 \<Rightarrow> u8 list \<Rightarrow> 'z arp_net_scheme \<Rightarrow> int \<times> 'z arp_net_scheme" where
  "arp_add_entry ip mac s =
     (case arp_scan (arp_table s) 0 None (arp_get_time s) of
        None \<Rightarrow> (NET_ERROR, s)
      | Some slot \<Rightarrow>
          (NET_SUCCESS,
           s\<lparr>arp_table := (arp_table s)[slot :=
                \<lparr>arp_ip = ip, arp_mac = take 6 mac, timestamp = arp_get_time s, valid = True\<rparr>],
             arp_table_entries :=
               (if arp_table_entries s \<le> slot then slot + 1 else arp_table_entries s)\<rparr>))"

definition arp_update_entry :: "u32 \<Rightarrow> u8 list \<Rightarrow> 'z arp_net_scheme \<Rightarrow> 'z arp_net_scheme" where
  "arp_update_entry ip mac s =
     (case arp_slot ip s of
        Some k \<Rightarrow>
          s\<lparr>arp_table := (arp_table s)[k := (arp_table s ! k)
              \<lparr>arp_mac := take 6 mac, timestamp := arp_get_time s\<rparr>]\<rparr>
      | None \<Rightarrow> snd (arp_add_entry ip mac s))"

definition arp_process_packet :: "nat \<Rightarrow> u8 list \<Rightarrow> 'z arp_net_scheme \<Rightarrow> 'z arp_net_scheme" where
  "arp_process_packet i arp_hdr s =
     (let operation = bswap16 (rd16 arp_hdr 6);
          sender_mac = take 6 (drop 8 arp_hdr);
          sender_ip = bswap32 (rd32 arp_hdr 14);
          target_ip = bswap32 (rd32 arp_hdr 24);
          s = arp_update_entry sender_ip sender_mac s
      in if target_ip = ip_address (iface s i) \<and> operation = ARP_REQUEST
         then snd (arp_send_reply i sender_ip sender_mac s)
         else s)"

section \<open>Header layout\<close>

lemma length_arp_header [simp]:
  "length sm = 6 \<Longrightarrow> length tm = 6 \<Longrightarrow> length (arp_header opr sm si tm ti) = 28"
  by (simp add: arp_header_def)

lemma arp_header_fields:
  assumes "length sm = 6" and "length tm = 6"
  shows "rd16 (arp_header opr sm si tm ti @ bs) 6 = bswap16 opr"
    and "take 6 (drop 8 (arp_header opr sm si tm ti @ bs)) = sm"
    and "rd32 (arp_header opr sm si tm ti @ bs) 14 = bswap32 si"
    and "rd32 (arp_header opr sm si tm ti @ bs) 24 = bswap32 ti"
proof -
  let ?h = "le16 (bswap16 ARP_HARDWARE_ETHERNET) @ le16 (bswap16 ARP_PROTOCOL_IP) @ [6, 4]"
  let ?t = "le32 (bswap32 si) @ tm @ le32 (bswap32 ti) @ bs"
  have h: "arp_header opr sm si tm ti @ bs = ?h @ le16 (bswap16 opr) @ sm @ ?t"
    using assms by (simp add: arp_header_def)
  show "rd16 (arp_header opr sm si tm ti @ bs) 6 = bswap16 opr"
    unfolding h by (rule rd16_field) simp
  show "take 6 (drop 8 (arp_header opr sm si tm ti @ bs)) = sm"
    unfolding h using assms by simp
  have "arp_header opr sm si tm ti @ bs =
      (?h @ le16 (bswap16 opr) @ sm) @ le32 (bswap32 si) @ tm @ le32 (bswap32 ti) @ bs"
    using assms by (simp add: arp_header_def)
  then show "rd32 (arp_header opr sm si tm ti @ bs) 14 = bswap32 si"
    using rd32_field [of "?h @ le16 (bswap16 opr) @ sm" 14] assms by simp
  have "arp_header opr sm si tm ti @ bs =
      (?h @ le16 (bswap16 opr) @ sm @ le32 (bswap32 si) @ tm) @ le32 (bswap32 ti) @ bs"
    using assms by (simp add: arp_header_def)
  then show "rd32 (arp_header opr sm si tm ti @ bs) 24 = bswap32 ti"
    using rd32_field [of "?h @ le16 (bswap16 opr) @ sm @ le32 (bswap32 si) @ tm" 24] assms by simp
qed

section \<open>The table\<close>

definition arp_wf :: "'z arp_net_scheme \<Rightarrow> bool" where
  "arp_wf s \<longleftrightarrow> length (arp_table s) = ARP_TABLE_SIZE \<and>
     (\<forall>i<ARP_TABLE_SIZE. \<forall>j<ARP_TABLE_SIZE. valid (arp_table s ! i) \<longrightarrow> valid (arp_table s ! j) \<longrightarrow>
        arp_ip (arp_table s ! i) = arp_ip (arp_table s ! j) \<longrightarrow> i = j)"

definition arp_full :: "'z arp_net_scheme \<Rightarrow> bool" where
  "arp_full s \<longleftrightarrow> list_all valid (arp_table s)"

lemma arp_wfD:
  assumes "arp_wf s" and "i < ARP_TABLE_SIZE" and "j < ARP_TABLE_SIZE"
    and "valid (arp_table s ! i)" and "valid (arp_table s ! j)"
    and "arp_ip (arp_table s ! i) = arp_ip (arp_table s ! j)"
  shows "i = j"
  using assms unfolding arp_wf_def by blast

lemma arp_slot_Some:
  "arp_slot ip s = Some k \<Longrightarrow> k < ARP_TABLE_SIZE \<and> valid (arp_table s ! k) \<and> arp_ip (arp_table s ! k) = ip"
  by (auto simp: arp_slot_def first_index_Some_iff)

lemma arp_slotI:
  assumes "arp_wf s" and "k < ARP_TABLE_SIZE" and "valid (arp_table s ! k)"
    and "arp_ip (arp_table s ! k) = ip"
  shows "arp_slot ip s = Some k"
  using assms unfolding arp_slot_def first_index_Some_iff arp_wf_def
  by (metis nat_neq_iff order_less_trans)

lemma arp_slot_None:
  "arp_slot ip s = None \<longleftrightarrow> (\<forall>k<ARP_TABLE_SIZE. valid (arp_table s ! k) \<longrightarrow> arp_ip (arp_table s ! k) \<noteq> ip)"
  by (auto simp: arp_slot_def first_index_None_iff)

lemma arp_scan_slot:
  assumes "arp_scan es n slot t = Some k"
  shows "slot = Some k \<or> (n \<le> k \<and> k < n + length es)"
  using assms
proof (induction es n slot t rule: arp_scan.induct)
  case (2 e es i slot t)
  show ?case
  proof (cases "\<not> valid e")
    case True
    with "2.prems" show ?thesis by simp
  next
    case False
    show ?thesis
    proof (cases "timestamp e < t")
      case True
      with False "2.prems" "2.IH"(1) show ?thesis by fastforce
    next
      case nt: False
      with False "2.prems" "2.IH"(2) show ?thesis by fastforce
    qed
  qed
qed simp

lemma arp_scan_free:
  assumes "\<not> list_all valid es"
  shows "\<exists>k<length es. arp_scan es n slot t = Some (n + k) \<and> \<not> valid (es ! k)"
  using assms
proof (induction es n slot t rule: arp_scan.induct)
  case (2 e es i slot t)
  show ?case
  proof (cases "valid e")
    case True
    with "2.prems" have nv: "\<not> list_all valid es" by simp
    from True "2.IH" [OF _ _ nv] obtain k where "k < length es"
      "arp_scan (e # es) i slot t = Some (i + 1 + k)" "\<not> valid (es ! k)"
      by (cases "timestamp e < t") auto
    then show ?thesis by (intro exI [of _ "Suc k"]) simp
  next
    case False
    then show ?thesis by (intro exI [of _ 0]) simp
  qed
qed simp

text \<open>In a full table: the entry with the smallest timestamp below \<open>t\<close>, the first such.\<close>

lemma arp_scan_oldest:
  assumes "list_all valid es"
  shows "case arp_scan es n slot t of
      None \<Rightarrow> slot = None \<and> (\<forall>e\<in>set es. t \<le> timestamp e)
    | Some k \<Rightarrow>
        (slot = Some k \<and> (\<forall>e\<in>set es. t \<le> timestamp e)) \<or>
        (n \<le> k \<and> k < n + length es \<and> timestamp (es ! (k - n)) < t \<and>
         (\<forall>e\<in>set es. timestamp (es ! (k - n)) \<le> timestamp e))"
  using assms
proof (induction es n slot t rule: arp_scan.induct)
  case (1 i slot t)
  then show ?case by (cases slot) simp_all
next
  case (2 e es i slot t)
  then have v: "valid e" "list_all valid es" by simp_all
  show ?case
  proof (cases "timestamp e < t")
    case True
    note IH = "2.IH"(1) [OF _ True v(2)]
    from True v have eq: "arp_scan (e # es) i slot t = arp_scan es (i + 1) (Some i) (timestamp e)" by simp
    show ?thesis
    proof (cases "arp_scan es (i + 1) (Some i) (timestamp e)")
      case None
      with IH v show ?thesis by simp
    next
      case (Some k)
      with IH v consider "k = i" "\<forall>x\<in>set es. timestamp e \<le> timestamp x"
        | "i + 1 \<le> k" "k < i + 1 + length es" "timestamp (es ! (k - (i + 1))) < timestamp e"
          "\<forall>x\<in>set es. timestamp (es ! (k - (i + 1))) \<le> timestamp x" by auto
      then show ?thesis
      proof cases
        case 1
        with True eq Some show ?thesis by auto
      next
        case 2
        then have "(e # es) ! (k - i) = es ! (k - (i + 1))" by (simp add: nth_Cons')
        with 2 True eq Some show ?thesis by auto
      qed
    qed
  next
    case False
    note IH = "2.IH"(2) [OF _ False v(2)]
    from False v have eq: "arp_scan (e # es) i slot t = arp_scan es (i + 1) slot t" by simp
    from False have ge: "t \<le> timestamp e" by simp
    show ?thesis
    proof (cases "arp_scan es (i + 1) slot t")
      case None
      with IH v False show ?thesis by simp
    next
      case (Some k)
      with IH v consider "slot = Some k" "\<forall>x\<in>set es. t \<le> timestamp x"
        | "i + 1 \<le> k" "k < i + 1 + length es" "timestamp (es ! (k - (i + 1))) < t"
          "\<forall>x\<in>set es. timestamp (es ! (k - (i + 1))) \<le> timestamp x" by auto
      then show ?thesis
      proof cases
        case 1
        with ge eq Some show ?thesis by simp
      next
        case 2
        then have "(e # es) ! (k - i) = es ! (k - (i + 1))" by (simp add: nth_Cons')
        with 2 ge eq Some show ?thesis by auto
      qed
    qed
  qed
qed

text \<open>Storing a valid entry for \<open>ip\<close> in slot \<open>k\<close>, when no other slot holds \<open>ip\<close>.\<close>

lemma arp_put:
  assumes wf: "arp_wf s" and k: "k < ARP_TABLE_SIZE" and free: "arp_slot ip s = None \<or> arp_slot ip s = Some k"
    and tab: "arp_table s' = (arp_table s)[k := e]" and e: "valid e" "arp_ip e = ip"
  shows "arp_wf s'" and "arp_lookup ip s' = Some (arp_mac e)"
    and "x \<noteq> ip \<Longrightarrow> \<not> (valid (arp_table s ! k) \<and> arp_ip (arp_table s ! k) = x) \<Longrightarrow>
      arp_lookup x s' = arp_lookup x s"
    and "x \<noteq> ip \<Longrightarrow> valid (arp_table s ! k) \<Longrightarrow> arp_ip (arp_table s ! k) = x \<Longrightarrow> arp_lookup x s' = None"
proof -
  have len: "length (arp_table s) = ARP_TABLE_SIZE" using wf by (simp add: arp_wf_def)
  have nth: "arp_table s' ! j = (if j = k then e else arp_table s ! j)" if "j < ARP_TABLE_SIZE" for j
    using that k len by (simp add: tab)
  have other: "\<not> (valid (arp_table s ! j) \<and> arp_ip (arp_table s ! j) = ip)"
    if "j < ARP_TABLE_SIZE" "j \<noteq> k" for j
    using free that arp_slotI [OF wf that(1), of ip] by (auto simp: arp_slot_None)
  show wf': "arp_wf s'"
    unfolding arp_wf_def
  proof (intro conjI allI impI)
    show "length (arp_table s') = ARP_TABLE_SIZE" by (simp add: tab len)
    fix i j assume i: "i < ARP_TABLE_SIZE" and j: "j < ARP_TABLE_SIZE"
      and v: "valid (arp_table s' ! i)" "valid (arp_table s' ! j)"
        "arp_ip (arp_table s' ! i) = arp_ip (arp_table s' ! j)"
    consider "i = k" "j = k" | "i = k" "j \<noteq> k" | "i \<noteq> k" "j = k" | "i \<noteq> k" "j \<noteq> k" by blast
    then show "i = j"
    proof cases
      case 2
      with other [OF j] v e nth [OF i] nth [OF j] show ?thesis by simp
    next
      case 3
      with other [OF i] v e nth [OF i] nth [OF j] show ?thesis by simp
    next
      case 4
      with arp_wfD [OF wf i j] v nth [OF i] nth [OF j] show ?thesis by simp
    qed simp
  qed
  show "arp_lookup ip s' = Some (arp_mac e)"
    using arp_slotI [OF wf' k, of ip] nth [OF k] e by (simp add: arp_lookup_def)
  show "arp_lookup x s' = arp_lookup x s"
    if x: "x \<noteq> ip" "\<not> (valid (arp_table s ! k) \<and> arp_ip (arp_table s ! k) = x)"
  proof -
    have "valid (arp_table s' ! j) \<and> arp_ip (arp_table s' ! j) = x \<longleftrightarrow>
        valid (arp_table s ! j) \<and> arp_ip (arp_table s ! j) = x" if "j < ARP_TABLE_SIZE" for j
      using that x e by (auto simp: nth)
    then have slot: "arp_slot x s' = arp_slot x s" unfolding arp_slot_def by (rule first_index_cong [OF refl])
    show ?thesis
    proof (cases "arp_slot x s")
      case None
      then show ?thesis by (simp add: arp_lookup_def slot)
    next
      case (Some j)
      from arp_slot_Some [OF this] x have "j < ARP_TABLE_SIZE" "j \<noteq> k" by auto
      then show ?thesis by (simp add: arp_lookup_def slot Some nth)
    qed
  qed
  show "arp_lookup x s' = None"
    if x: "x \<noteq> ip" "valid (arp_table s ! k)" "arp_ip (arp_table s ! k) = x"
  proof -
    have "\<not> (valid (arp_table s' ! j) \<and> arp_ip (arp_table s' ! j) = x)" if "j < ARP_TABLE_SIZE" for j
    proof (cases "j = k")
      case True
      then show ?thesis using x(1) e nth [OF that] by simp
    next
      case False
      then show ?thesis using arp_wfD [OF wf that k _ x(2)] x(3) nth [OF that] by force
    qed
    then have "arp_slot x s' = None" unfolding arp_slot_None by blast
    then show ?thesis by (simp add: arp_lookup_def)
  qed
qed

lemma arp_update_present:
  assumes wf: "arp_wf s" and k: "arp_slot ip s = Some k"
  shows "arp_wf (arp_update_entry ip mac s) \<and>
     (\<lambda>x. arp_lookup x (arp_update_entry ip mac s)) = (\<lambda>x. arp_lookup x s)(ip \<mapsto> take 6 mac)"
proof -
  let ?s = "arp_update_entry ip mac s"
  let ?e = "(arp_table s ! k)\<lparr>arp_mac := take 6 mac, timestamp := arp_get_time s\<rparr>"
  note ks = arp_slot_Some [OF k]
  have tab: "arp_table ?s = (arp_table s)[k := ?e]" by (simp add: arp_update_entry_def k)
  note put = arp_put [OF wf _ _ tab, of ip, simplified]
  have "arp_lookup x ?s = ((\<lambda>x. arp_lookup x s)(ip \<mapsto> take 6 mac)) x" for x
    using put(2-4) ks k by (cases "x = ip") auto
  with put(1) ks k show ?thesis by auto
qed

lemma arp_update_absent:
  assumes wf: "arp_wf s" and no: "arp_slot ip s = None"
    and k: "arp_scan (arp_table s) 0 None (arp_get_time s) = Some k"
  shows "arp_wf (arp_update_entry ip mac s) \<and>
     (\<lambda>x. arp_lookup x (arp_update_entry ip mac s)) =
     (if valid (arp_table s ! k)
      then (\<lambda>x. arp_lookup x s)(arp_ip (arp_table s ! k) := None, ip \<mapsto> take 6 mac)
      else (\<lambda>x. arp_lookup x s)(ip \<mapsto> take 6 mac))"
proof -
  let ?s = "arp_update_entry ip mac s"
  let ?e = "\<lparr>arp_ip = ip, arp_mac = take 6 mac, timestamp = arp_get_time s, valid = True\<rparr>"
  have lt: "k < ARP_TABLE_SIZE" using arp_scan_slot [OF k] wf by (simp add: arp_wf_def)
  have tab: "arp_table ?s = (arp_table s)[k := ?e]"
    by (simp add: arp_update_entry_def no arp_add_entry_def k)
  note put = arp_put [OF wf lt _ tab, of ip, simplified, OF disjI1 [OF no]]
  have "arp_lookup x ?s =
     (if valid (arp_table s ! k)
      then (\<lambda>x. arp_lookup x s)(arp_ip (arp_table s ! k) := None, ip \<mapsto> take 6 mac)
      else (\<lambda>x. arp_lookup x s)(ip \<mapsto> take 6 mac)) x" for x
    using put(2-4) by (cases "x = ip") auto
  with put(1) show ?thesis by auto
qed

lemma arp_update_room:
  assumes "arp_wf s" and "arp_slot ip s \<noteq> None \<or> \<not> arp_full s"
  shows "arp_wf (arp_update_entry ip mac s) \<and>
     (\<lambda>x. arp_lookup x (arp_update_entry ip mac s)) = (\<lambda>x. arp_lookup x s)(ip \<mapsto> take 6 mac)"
proof (cases "arp_slot ip s")
  case None
  with assms(2) have "\<not> list_all valid (arp_table s)" by (simp add: arp_full_def)
  from arp_scan_free [OF this, of 0 None "arp_get_time s"] obtain k
    where "arp_scan (arp_table s) 0 None (arp_get_time s) = Some k" "\<not> valid (arp_table s ! k)" by auto
  with arp_update_absent [OF assms(1) None] show ?thesis by simp
next
  case (Some k)
  with arp_update_present [OF assms(1)] show ?thesis by blast
qed

lemma arp_update_full:
  assumes "arp_wf s" and "arp_slot ip s = None" and "arp_full s"
  shows "(\<forall>e\<in>set (arp_table s). arp_get_time s \<le> timestamp e) \<and> arp_update_entry ip mac s = s \<or>
     (\<exists>k<ARP_TABLE_SIZE. timestamp (arp_table s ! k) < arp_get_time s \<and>
        (\<forall>e\<in>set (arp_table s). timestamp (arp_table s ! k) \<le> timestamp e) \<and>
        arp_wf (arp_update_entry ip mac s) \<and>
        (\<lambda>x. arp_lookup x (arp_update_entry ip mac s)) =
          (\<lambda>x. arp_lookup x s)(arp_ip (arp_table s ! k) := None, ip \<mapsto> take 6 mac))"
proof -
  note scan = arp_scan_oldest [where es = "arp_table s" and n = 0 and slot = None and t = "arp_get_time s"]
  show ?thesis
  proof (cases "arp_scan (arp_table s) 0 None (arp_get_time s)")
    case None
    with scan assms show ?thesis
      by (simp add: arp_update_entry_def arp_add_entry_def arp_full_def)
  next
    case (Some k)
    with scan assms have k: "k < ARP_TABLE_SIZE" "timestamp (arp_table s ! k) < arp_get_time s"
      "\<forall>e\<in>set (arp_table s). timestamp (arp_table s ! k) \<le> timestamp e" "valid (arp_table s ! k)"
      by (auto simp: arp_full_def arp_wf_def list_all_length)
    with arp_update_absent [OF assms(1,2) Some, of mac] show ?thesis by auto
  qed
qed

section \<open>Sending changes only the devices\<close>

lemma call_send_fields [simp]:
  "if_pool (call_send d f s) = if_pool s" "interfaces (call_send d f s) = interfaces s"
  "interface_count (call_send d f s) = interface_count s" "timer_ticks (call_send d f s) = timer_ticks s"
  "if_pool_count (call_send d f s) = if_pool_count s"
  by (cases d; simp add: call_send_def loopback_send_def)+

lemma ethernet_send_fields [simp]:
  "if_pool (snd (ethernet_send_frame i m et p s)) = if_pool s"
  "interfaces (snd (ethernet_send_frame i m et p s)) = interfaces s"
  "interface_count (snd (ethernet_send_frame i m et p s)) = interface_count s"
  "timer_ticks (snd (ethernet_send_frame i m et p s)) = timer_ticks s"
  by (simp_all add: ethernet_send_frame_def network_send_raw_def split: option.split)

lemma ethernet_send_arp_fields [simp]:
  "arp_table (snd (ethernet_send_frame i m et p s)) = arp_table s"
  "arp_table_entries (snd (ethernet_send_frame i m et p s)) = arp_table_entries s"
  by (simp_all add: ethernet_send_frame_def network_send_raw_def call_send_def loopback_send_def
      split: option.split driver.split)

lemma arp_lookup_cong: "arp_table s' = arp_table s \<Longrightarrow> arp_lookup x s' = arp_lookup x s"
  by (simp add: arp_lookup_def arp_slot_def)

lemma arp_wf_cong: "arp_table s' = arp_table s \<Longrightarrow> arp_wf s' = arp_wf s"
  by (simp add: arp_wf_def)

lemma arp_update_fields [simp]:
  "if_pool (arp_update_entry ip mac s) = if_pool s"
  "interfaces (arp_update_entry ip mac s) = interfaces s"
  "interface_count (arp_update_entry ip mac s) = interface_count s"
  "timer_ticks (arp_update_entry ip mac s) = timer_ticks s"
  "loopback_queue (arp_update_entry ip mac s) = loopback_queue s"
  "e1000_dev (arp_update_entry ip mac s) = e1000_dev s"
  by (simp_all add: arp_update_entry_def arp_add_entry_def split: option.split)

section \<open>Properties\<close>

text \<open>A host for the witnesses: one loopback interface 127.0.0.1 and an empty ARP table.\<close>

definition sample_lo_iface :: network_interface_t where
  "sample_lo_iface = \<lparr>mac_address = [0, 0, 0, 0, 0, 1], ip_address = 0x7F000001,
     subnet_mask = 0xFF000000, gateway = 0x7F000001, active = True, name = ''lo'',
     send_packet = Some LOOPBACK, receive_packet = Some LOOPBACK\<rparr>"

definition sample_queue :: packet_queue_t where
  "sample_queue = \<lparr>packets = replicate 16 [], lengths = replicate 16 0, q_head = 0, q_tail = 0,
     q_count = 0\<rparr>"

definition sample_arp :: arp_net where
  "sample_arp = \<lparr>interfaces = [Some 0, None, None, None], interface_count = 1,
     if_pool = [sample_lo_iface], if_pool_count = 1, loopback_queue = sample_queue,
     e1000_dev = sample_nic, timer_ticks = 5,
     arp_table = replicate 128 \<lparr>arp_ip = 0, arp_mac = replicate 6 0, timestamp = 0, valid = False\<rparr>,
     arp_table_entries = 0\<rparr>"

lemma sample_arp_wf: "arp_wf sample_arp" "\<not> arp_full sample_arp"
  by (simp_all add: sample_arp_def arp_wf_def arp_full_def ARP_TABLE_SIZE_def list_all_iff)

text \<open>
  Learning an address keeps the table free of duplicate IP addresses. While the address is
  known or a slot is free, the lookups afterwards are the old ones updated at that address only.
  In a full table the entry given up is one with the smallest timestamp; when no entry is older than
  the current time the table stays as it is.
\<close>

theorem arp_update_learns:
  assumes "arp_wf s" and "length mac = 6"
  shows "arp_wf (arp_update_entry ip mac s) \<and>
     (if arp_slot ip s \<noteq> None \<or> \<not> arp_full s
      then (\<lambda>x. arp_lookup x (arp_update_entry ip mac s)) = (\<lambda>x. arp_lookup x s)(ip \<mapsto> mac)
      else (\<forall>e\<in>set (arp_table s). arp_get_time s \<le> timestamp e) \<and> arp_update_entry ip mac s = s \<or>
        (\<exists>k<ARP_TABLE_SIZE. timestamp (arp_table s ! k) < arp_get_time s \<and>
          (\<forall>e\<in>set (arp_table s). timestamp (arp_table s ! k) \<le> timestamp e) \<and>
          (\<lambda>x. arp_lookup x (arp_update_entry ip mac s)) =
            (\<lambda>x. arp_lookup x s)(arp_ip (arp_table s ! k) := None, ip \<mapsto> mac)))"
proof (cases "arp_slot ip s \<noteq> None \<or> \<not> arp_full s")
  case True
  with arp_update_room [OF assms(1) True, of mac] assms(2) show ?thesis by simp
next
  case False
  then have "arp_slot ip s = None" "arp_full s" by simp_all
  from arp_update_full [OF assms(1) this, of mac] False assms show ?thesis by auto
qed

theorem arp_update_learns_witness:
  "arp_lookup 0x0A000002 (arp_update_entry 0x0A000002 [2, 0, 0, 0, 0, 9] sample_arp) =
     Some [2, 0, 0, 0, 0, 9]"
proof -
  have "(\<lambda>x. arp_lookup x (arp_update_entry 0x0A000002 [2, 0, 0, 0, 0, 9] sample_arp)) =
      (\<lambda>x. arp_lookup x sample_arp)(0x0A000002 \<mapsto> [2, 0, 0, 0, 0, 9])"
    using arp_update_learns [OF sample_arp_wf(1), where mac = "[2, 0, 0, 0, 0, 9]" and ip = "0x0A000002"] sample_arp_wf(2)
    by simp
  from fun_cong [OF this, of "0x0A000002"] show ?thesis by simp
qed

lemma arp_process_header:
  assumes "length sm = 6" and "length tm = 6"
  shows "arp_process_packet i (arp_header opr sm si tm ti @ bs) s =
     (if ti = ip_address (iface s i) \<and> opr = ARP_REQUEST
      then snd (arp_send_reply i si sm (arp_update_entry si sm s))
      else arp_update_entry si sm s)"
  unfolding arp_process_packet_def arp_header_fields [OF assms] by (simp add: Let_def)

text \<open>
  C12. Address resolution between two hosts: the request host A sends for B's address makes B learn
  A and answer with a frame addressed to A; when A processes the header of that answer, whatever bytes
  follow it in the frame, A knows B's MAC address and sends nothing further.
\<close>

theorem arp_resolution:
  assumes macs: "length (mac_address (iface sA i)) = 6" "length (mac_address (iface sB j)) = 6"
    and wf: "arp_wf sA" "arp_wf sB"
    and room: "arp_slot (ip_address (iface sB j)) sA \<noteq> None \<or> \<not> arp_full sA"
      "arp_slot (ip_address (iface sA i)) sB \<noteq> None \<or> \<not> arp_full sB"
  defines "request \<equiv> arp_header ARP_REQUEST (mac_address (iface sA i)) (ip_address (iface sA i))
      (replicate 6 0) (ip_address (iface sB j))"
    and "reply \<equiv> arp_header ARP_REPLY (mac_address (iface sB j)) (ip_address (iface sB j))
      (mac_address (iface sA i)) (ip_address (iface sA i))"
  shows "arp_send_request i (ip_address (iface sB j)) sA =
        ethernet_send_frame i broadcast_mac ETH_TYPE_ARP request sA \<and>
     arp_process_packet j (request @ bs) sB =
        snd (ethernet_send_frame j (mac_address (iface sA i)) ETH_TYPE_ARP reply
          (arp_update_entry (ip_address (iface sA i)) (mac_address (iface sA i)) sB)) \<and>
     arp_lookup (ip_address (iface sA i)) (arp_process_packet j (request @ bs) sB) =
        Some (mac_address (iface sA i)) \<and>
     arp_lookup (ip_address (iface sB j)) (arp_process_packet i (reply @ bs') sA) =
        Some (mac_address (iface sB j)) \<and>
     loopback_queue (arp_process_packet i (reply @ bs') sA) = loopback_queue sA \<and>
     e1000_dev (arp_process_packet i (reply @ bs') sA) = e1000_dev sA"
proof -
  let ?ma = "mac_address (iface sA i)" and ?mb = "mac_address (iface sB j)"
  let ?a = "ip_address (iface sA i)" and ?b = "ip_address (iface sB j)"
  have req: "arp_process_packet j (request @ bs) sB =
      snd (ethernet_send_frame j ?ma ETH_TYPE_ARP reply (arp_update_entry ?a ?ma sB))"
    unfolding request_def using macs
    by (subst arp_process_header) (simp_all add: arp_send_reply_def reply_def)
  have rep: "arp_process_packet i (reply @ bs') sA = arp_update_entry ?b ?mb sA"
    unfolding reply_def using macs
    by (subst arp_process_header) (simp_all add: ARP_REPLY_def ARP_REQUEST_def)
  have "arp_lookup ?a (arp_update_entry ?a ?ma sB) = Some ?ma"
    using fun_cong [OF conjunct2 [OF arp_update_room [OF wf(2) room(2), of ?ma]], of ?a] macs by simp
  then have learnA: "arp_lookup ?a (arp_process_packet j (request @ bs) sB) = Some ?ma"
    unfolding req by (subst arp_lookup_cong [of _ "arp_update_entry ?a ?ma sB"]) simp_all
  have learnB: "arp_lookup ?b (arp_update_entry ?b ?mb sA) = Some ?mb"
    using fun_cong [OF conjunct2 [OF arp_update_room [OF wf(1) room(1), of ?mb]], of ?b] macs by simp
  have bc: "replicate 6 0xFF = broadcast_mac" by (simp add: broadcast_mac_def numeral_eq_Suc)
  show ?thesis
    using req learnA learnB by (simp add: rep arp_send_request_def request_def bc)
qed

theorem arp_resolution_witness:
  "arp_lookup 0x7F000001 (arp_process_packet 0
      (arp_header ARP_REPLY [0, 0, 0, 0, 0, 1] 0x7F000001 [0, 0, 0, 0, 0, 1] 0x7F000001 @ []) sample_arp) =
     Some [0, 0, 0, 0, 0, 1]"
  using arp_resolution [of sample_arp 0 sample_arp 0 "[]" "[]"] sample_arp_wf
  by (simp add: sample_arp_def [THEN arg_cong, of if_pool] sample_lo_iface_def)

end
