(* ===== verification/Ip.thy ===== *)
theory Ip
  imports Arp
begin

text \<open>
  The IPv4 layer (\<^verbatim>\<open>network/ip.c\<close>) except the dispatch of received packets, which is in \<open>Net_Input\<close>:
  sending with address resolution, the header checksum and its validation, and the dotted-decimal
  conversions.
\<close>

section \<open>State and operations\<close>

definition IP_PACKET_SIZE :: nat where "IP_PACKET_SIZE = 1500"
definition IP_HEADER_LEN :: nat where "IP_HEADER_LEN = 20"
definition IP_VERSION_4 :: u8 where "IP_VERSION_4 = 4"
definition IP_PROTOCOL_ICMP :: u8 where "IP_PROTOCOL_ICMP = 1"
definition IP_PROTOCOL_TCP :: u8 where "IP_PROTOCOL_TCP = 6"
definition IP_PROTOCOL_UDP :: u8 where "IP_PROTOCOL_UDP = 17"
definition IP_FLAG_DONT_FRAGMENT :: u16 where "IP_FLAG_DONT_FRAGMENT = 0x4000"

lemmas ip_consts = IP_PACKET_SIZE_def IP_HEADER_LEN_def

record ip_net = arp_net +
  ip_identification :: u16

text \<open>The bytes of \<^verbatim>\<open>ip_header_t\<close> as \<^verbatim>\<open>ip_send_packet\<close> fills it; the checksum field is last in the
  argument list.\<close>

definition ip_header :: "nat \<Rightarrow> u16 \<Rightarrow> u8 \<Rightarrow> u32 \<Rightarrow> u32 \<Rightarrow> u16 \<Rightarrow> u8 list" where
  "ip_header payload_len identification protocol src_ip dest_ip checksum =
     [push_bit 4 IP_VERSION_4 OR 5, 0] @ le16 (bswap16 (of_nat (IP_HEADER_LEN + payload_len))) @
     le16 (bswap16 identification) @ le16 (bswap16 IP_FLAG_DONT_FRAGMENT) @ [64, protocol] @
     le16 checksum @ le32 (bswap32 src_ip) @ le32 (bswap32 dest_ip)"

definition ip_checksum :: "u8 list \<Rightarrow> u16" where
  "ip_checksum header = ones_complement (add_words (words16 (take IP_HEADER_LEN header)) 0)"

definition ip_validate_checksum :: "u8 list \<Rightarrow> bool" where
  "ip_validate_checksum header \<longleftrightarrow> rd16 header 10 = ip_checksum (wr16 header 10 0)"

definition ip_init :: "'z ip_net_scheme \<Rightarrow> int \<times> 'z ip_net_scheme" where
  "ip_init s = (NET_SUCCESS, s\<lparr>ip_identification := 1\<rparr>)"

definition ip_packet :: "u16 \<Rightarrow> u8 \<Rightarrow> u32 \<Rightarrow> u32 \<Rightarrow> u8 list \<Rightarrow> u8 list" where
  "ip_packet identification protocol src_ip dest_ip payload =
     (let header = ip_header (length payload) identification protocol src_ip dest_ip 0
      in wr16 header 10 (ip_checksum header) @ payload)"

definition ip_send_packet ::
  "nat \<Rightarrow> u32 \<Rightarrow> u8 \<Rightarrow> u8 list \<Rightarrow> 'z ip_net_scheme \<Rightarrow> int \<times> 'z ip_net_scheme" where
  "ip_send_packet i dest_ip protocol payload s =
     (if length payload = 0 then (NET_INVALID_PARAM, s)
      else if IP_PACKET_SIZE - IP_HEADER_LEN < length payload then (NET_ERROR, s)
      else let packet = ip_packet (ip_identification s) protocol (ip_address (iface s i)) dest_ip payload;
               s = s\<lparr>ip_identification := ip_identification s + 1\<rparr>
           in if dest_ip = 0xFFFFFFFF
              then ethernet_send_frame i (replicate 6 0xFF) ETH_TYPE_IP packet s
              else case arp_lookup dest_ip s of
                     None \<Rightarrow> (NET_TIMEOUT, snd (arp_send_request i dest_ip s))
                   | Some dest_mac \<Rightarrow> ethernet_send_frame i dest_mac ETH_TYPE_IP packet s)"

text \<open>
  The character loop of \<^verbatim>\<open>ip_str_to_addr\<close> (the loop of \<^verbatim>\<open>inet_addr\<close> is the same): the octets
  stored so far and the current one; None where the source returns its error value from the loop.
\<close>

fun parse_octets :: "string \<Rightarrow> u32 list \<Rightarrow> u32 \<Rightarrow> (u32 list \<times> u32) option" where
  "parse_octets [] octets current = Some (octets, current)"
| "parse_octets (c # cs) octets current =
     (if c = NUL \<or> 4 \<le> length octets then Some (octets, current)
      else if 48 \<le> (of_char c :: nat) \<and> (of_char c :: nat) \<le> 57 then
        let current = current * 10 + of_nat (of_char c - 48)
        in if 255 < current then None else parse_octets cs octets current
      else if c = CHR ''.'' then parse_octets cs (octets @ [current]) 0
      else None)"

definition combine_octets :: "u32 list \<Rightarrow> u32" where
  "combine_octets os = push_bit 24 (os ! 0) OR push_bit 16 (os ! 1) OR push_bit 8 (os ! 2) OR os ! 3"

definition ip_str_to_addr :: "string \<Rightarrow> u32" where
  "ip_str_to_addr ip_str =
     (case parse_octets ip_str [] 0 of
        None \<Rightarrow> 0
      | Some (octets, current) \<Rightarrow>
          if length octets \<noteq> 3 then 0 else combine_octets (octets @ [current]))"

definition digit :: "u8 \<Rightarrow> char" where
  "digit d = char_of (48 + unat d)"

definition octet_str :: "u8 \<Rightarrow> string" where
  "octet_str val =
     (if 100 \<le> val then
        [digit (val div 100), digit (val mod 100 div 10), digit (val mod 100 mod 10)]
      else if 10 \<le> val then [digit (val div 10), digit (val mod 10)]
      else [digit val])"

definition ip_addr_to_str :: "u32 \<Rightarrow> string" where
  "ip_addr_to_str ip =
     octet_str (ucast (drop_bit 24 ip AND 0xFF)) @ ''.'' @
     octet_str (ucast (drop_bit 16 ip AND 0xFF)) @ ''.'' @
     octet_str (ucast (drop_bit 8 ip AND 0xFF)) @ ''.'' @
     octet_str (ucast (ip AND 0xFF)) @ [NUL]"

definition ip_is_local :: "nat \<Rightarrow> u32 \<Rightarrow> 'z netdev_scheme \<Rightarrow> bool" where
  "ip_is_local i ip s \<longleftrightarrow>
     ip_address (iface s i) AND subnet_mask (iface s i) = ip AND subnet_mask (iface s i)"

section \<open>Checksum lemmas\<close>

lemma words16_append:
  "even (length as) \<Longrightarrow> words16 (as @ bs) = words16 as @ words16 bs"
  by (induction as rule: words16.induct) auto

lemma words16_le16: "words16 (le16 w @ bs) = w # words16 bs"
  using rd16_le16 [of w bs] by (simp add: le16_def rd16_def)

lemma words16_field:
  assumes "even (length as)"
  shows "words16 (as @ le16 w @ bs) = words16 as @ w # words16 bs"
  by (simp only: words16_append [OF assms] words16_le16)

lemma length_words16: "length (words16 bs) = length bs div 2"
  by (induction bs rule: words16.induct) auto

lemma unat_header_sum:
  assumes "length h \<le> 20"
  shows "unat (add_words (words16 h) 0) = total16 (words16 h)"
proof -
  have "total16 (words16 h) \<le> 65535 * 10"
    using total16_bound [of "words16 h"] assms by (simp add: length_words16)
  then show ?thesis by (subst unat_add_words) simp_all
qed

text \<open>A header around its checksum field.\<close>

lemma header_split:
  assumes "length h = 20"
  obtains as v bs where "h = as @ le16 v @ bs" and "length as = 10" and "length bs = 8"
proof
  show "h = take 10 h @ le16 (rd16 h 10) @ drop 12 h"
  proof -
    have "h = take 10 h @ [h ! 10, h ! 11] @ drop 12 h"
    proof -
      have "drop 10 h = h ! 10 # h ! 11 # drop 12 h"
        using assms Cons_nth_drop_Suc [of 10 h] Cons_nth_drop_Suc [of 11 h] by simp
      then show ?thesis by (metis append_take_drop_id append_Cons append_Nil)
    qed
    moreover have "le16 (rd16 h 10) = [h ! 10, h ! 11]"
      using le16_rd16 [of "h ! 10" "h ! 11"] by (simp add: rd16_def)
    ultimately show ?thesis by simp
  qed
qed (use assms in simp_all)

lemma ip_checksum_completes:
  assumes "length h = 20"
  shows "fold_carry (add_words (words16 (wr16 h 10 (ip_checksum (wr16 h 10 0)))) 0) = 0xFFFF"
proof -
  from header_split [OF assms] obtain as v bs where
    h: "h = as @ le16 v @ bs" and len: "length as = 10" "length bs = 8" by metis
  have ev: "even (length as)" using len by simp
  have wr: "wr16 h 10 w = as @ le16 w @ bs" for w unfolding h using wr16_field [OF len(1)] .
  have tot: "total16 (words16 (wr16 h 10 w)) = total16 (words16 as) + unat w + total16 (words16 bs)" for w
    unfolding wr words16_field [OF ev] by simp
  let ?s = "add_words (words16 (wr16 h 10 0)) 0"
  let ?c = "ip_checksum (wr16 h 10 0)"
  have c: "?c = ones_complement ?s" using assms by (simp add: ip_checksum_def ip_consts)
  have "unat (add_words (words16 (wr16 h 10 ?c)) 0) = unat ?s + unat (ones_complement ?s)"
    using assms by (simp add: unat_header_sum tot flip: c)
  from checksum_completes [OF this] show ?thesis by (simp add: word_unat_eq_iff)
qed

lemma mod_65535_word:
  fixes w w' :: u16
  assumes "unat w mod 65535 = unat w' mod 65535" and "w \<noteq> w'"
  shows "{w, w'} = {0, 0xFFFF}"
proof -
  have b: "unat w < 65536" "unat w' < 65536"
    using unsigned_less [of w, where ?'a = nat] unsigned_less [of w', where ?'a = nat] by simp_all
  have ne: "unat w \<noteq> unat w'" using assms(2) by (simp add: word_unat_eq_iff)
  have "unat w = 65535 \<and> unat w' = 0 \<or> unat w = 0 \<and> unat w' = 65535"
    using b ne assms(1) by (cases "unat w = 65535"; cases "unat w' = 65535") simp_all
  then show ?thesis by (auto simp: word_unat_eq_iff)
qed

lemma words16_hd_pos:
  assumes "a \<noteq> 0"
  shows "0 < total16 (words16 (a # b # bs))"
proof -
  have "le16 (rd16 [a, b] 0) = [a, b]" by (rule le16_rd16)
  then have "rd16 [a, b] 0 \<noteq> 0" using assms by (auto simp: le16_def)
  then show ?thesis by (simp add: rd16_def unat_gt_0 [symmetric])
qed

text \<open>The checksum field of a header that is given around another word.\<close>

lemma wr16_append: "i + 2 \<le> length h \<Longrightarrow> wr16 (h @ bs) i w = wr16 h i w @ bs"
  by (simp add: wr16_def list_update_append)

lemma rd16_prefix: "i + 2 \<le> length h \<Longrightarrow> rd16 (h @ bs) i = rd16 h i"
  by (simp add: rd16_def nth_append)

lemma wr16_append_right: "length h \<le> i \<Longrightarrow> wr16 (h @ bs) i w = h @ wr16 bs (i - length h) w"
  by (simp add: wr16_def list_update_append Suc_diff_le)

lemma word_before_or_after:
  assumes "even n" and "n \<noteq> (10 :: nat)"
  shows "n + 2 \<le> 10 \<or> 12 \<le> n"
proof -
  from assms(1) obtain k where "n = 2 * k" by (elim evenE)
  with assms(2) show ?thesis by auto
qed

lemma zero_checksum_field:
  assumes "even (length as)" and "length as \<noteq> 10"
  obtains as' bs' where "length as' = length as" and "length bs' = length bs" and "as' ! 0 = as ! 0"
    and "\<And>w. wr16 (as @ le16 w @ bs) 10 0 = as' @ le16 w @ bs'"
  using word_before_or_after [OF assms]
proof
  assume "length as + 2 \<le> 10"
  then have "wr16 (as @ le16 w @ bs) 10 0 = as @ le16 w @ wr16 bs (10 - (length as + 2)) 0" for w
    using wr16_append_right [of "as @ le16 w" 10 bs 0] by simp
  then show thesis by (intro that [of as "wr16 bs (10 - (length as + 2)) 0"]) simp_all
next
  assume "12 \<le> length as"
  then have "wr16 (as @ le16 w @ bs) 10 0 = wr16 as 10 0 @ le16 w @ bs" for w
    by (simp add: wr16_append)
  moreover have "wr16 as 10 0 ! 0 = as ! 0" by (simp add: wr16_def)
  ultimately show thesis by (intro that [of "wr16 as 10 0" bs]) simp_all
qed

lemma checksum_field_elsewhere:
  assumes "even (length as)" and "length as \<noteq> 10"
  shows "rd16 (as @ le16 w @ bs) 10 = rd16 (as @ le16 w' @ bs) 10"
  using word_before_or_after [OF assms] by (auto simp: rd16_def nth_append)

section \<open>Packet layout\<close>

lemma length_ip_header [simp]: "length (ip_header n ident p src dst c) = 20"
  by (simp add: ip_header_def)

lemma ip_header_split:
  "ip_header n ident p src dst c =
     ([push_bit 4 IP_VERSION_4 OR 5, 0] @ le16 (bswap16 (of_nat (IP_HEADER_LEN + n))) @
      le16 (bswap16 ident) @ le16 (bswap16 IP_FLAG_DONT_FRAGMENT) @ [64, p]) @
     le16 c @ le32 (bswap32 src) @ le32 (bswap32 dst)"
  by (simp add: ip_header_def)

lemma wr16_ip_header: "wr16 (ip_header n ident p src dst c) 10 c' = ip_header n ident p src dst c'"
  unfolding ip_header_split by (rule wr16_field) simp

lemma ip_packet_eq:
  "ip_packet ident p src dst payload =
     ip_header (length payload) ident p src dst
       (ip_checksum (ip_header (length payload) ident p src dst 0)) @ payload"
  by (simp add: ip_packet_def Let_def wr16_ip_header)

lemma length_ip_packet [simp]: "length (ip_packet ident p src dst payload) = 20 + length payload"
  by (simp add: ip_packet_eq)

lemma ip_header_fields:
  shows "ip_header n ident p src dst c ! 0 = 0x45" and "ip_header n ident p src dst c ! 9 = p"
    and "rd16 (ip_header n ident p src dst c @ bs) 2 = bswap16 (of_nat (20 + n))"
    and "rd16 (ip_header n ident p src dst c @ bs) 10 = c"
    and "rd32 (ip_header n ident p src dst c @ bs) 12 = bswap32 src"
    and "rd32 (ip_header n ident p src dst c @ bs) 16 = bswap32 dst"
proof -
  show "ip_header n ident p src dst c ! 0 = 0x45" "ip_header n ident p src dst c ! 9 = p"
    by (simp_all add: ip_header_def le16_def IP_VERSION_4_def)
  let ?t = "le16 (bswap16 ident) @ le16 (bswap16 IP_FLAG_DONT_FRAGMENT) @ [64, p] @ le16 c @
      le32 (bswap32 src) @ le32 (bswap32 dst) @ bs"
  have "ip_header n ident p src dst c @ bs =
      [push_bit 4 IP_VERSION_4 OR 5, 0] @ le16 (bswap16 (of_nat (20 + n))) @ ?t"
    by (simp add: ip_header_def ip_consts)
  then show "rd16 (ip_header n ident p src dst c @ bs) 2 = bswap16 (of_nat (20 + n))"
    using rd16_field [of "[push_bit 4 IP_VERSION_4 OR 5, 0]" 2] by simp
  let ?h = "[push_bit 4 IP_VERSION_4 OR 5, 0] @ le16 (bswap16 (of_nat (IP_HEADER_LEN + n))) @
      le16 (bswap16 ident) @ le16 (bswap16 IP_FLAG_DONT_FRAGMENT) @ [64, p]"
  have h: "ip_header n ident p src dst c @ bs =
      ?h @ le16 c @ le32 (bswap32 src) @ le32 (bswap32 dst) @ bs" by (simp add: ip_header_def)
  then show "rd16 (ip_header n ident p src dst c @ bs) 10 = c"
    using rd16_field [of ?h 10] by simp
  have "ip_header n ident p src dst c @ bs =
      (?h @ le16 c) @ le32 (bswap32 src) @ le32 (bswap32 dst) @ bs" by (simp add: ip_header_def)
  then show "rd32 (ip_header n ident p src dst c @ bs) 12 = bswap32 src"
    using rd32_field [of "?h @ le16 c" 12] by simp
  have "ip_header n ident p src dst c @ bs =
      (?h @ le16 c @ le32 (bswap32 src)) @ le32 (bswap32 dst) @ bs" by (simp add: ip_header_def)
  then show "rd32 (ip_header n ident p src dst c @ bs) 16 = bswap32 dst"
    using rd32_field [of "?h @ le16 c @ le32 (bswap32 src)" 16] by simp
qed

lemma ip_checksum_take: "ip_checksum (take 20 h) = ip_checksum h"
  by (simp add: ip_checksum_def ip_consts)

lemma ip_validate_append:
  assumes "length h = 20"
  shows "ip_validate_checksum (h @ bs) = ip_validate_checksum h"
  using assms
  by (simp add: ip_validate_checksum_def rd16_prefix wr16_append ip_checksum_def ip_consts)

lemma ip_packet_valid: "ip_validate_checksum (ip_packet ident p src dst payload @ bs)"
proof -
  let ?c = "ip_checksum (ip_header (length payload) ident p src dst 0)"
  let ?h = "ip_header (length payload) ident p src dst ?c"
  have "ip_validate_checksum ?h"
    using ip_header_fields(4) [of "length payload" ident p src dst ?c "[]"]
    by (simp add: ip_validate_checksum_def wr16_ip_header)
  then show ?thesis
    using ip_validate_append [of ?h "payload @ bs"] by (simp add: ip_packet_eq)
qed

section \<open>What sending changes\<close>

text \<open>
  Sending touches the device queues and the identification counter only, and of the card only the
  transmit side. One lemma per layer states the shape of the new state; the facts on single fields
  follow from it.
\<close>

definition rx_same :: "e1000_device_t \<Rightarrow> e1000_device_t \<Rightarrow> bool" where
  "rx_same d d' \<longleftrightarrow> rx_desc d' = rx_desc d \<and> rx_cur d' = rx_cur d \<and> rx_buffers d' = rx_buffers d \<and>
     e1000_initialized d' = e1000_initialized d"

lemma rx_same_refl [simp]: "rx_same d d"
  by (simp add: rx_same_def)

lemma e1000_send_rx_same [simp]: "rx_same d (snd (e1000_send_packet f d))"
  by (simp add: rx_same_def e1000_send_packet_def Let_def)

lemma call_send_shape:
  "\<exists>q d. call_send drv f s = s\<lparr>loopback_queue := q, e1000_dev := d\<rparr> \<and> rx_same (e1000_dev s) d"
proof (cases drv)
  case LOOPBACK
  then have "call_send drv f s = s\<lparr>loopback_queue := loopback_queue (call_send drv f s)\<rparr>"
    by (simp add: call_send_def loopback_send_def)
  then obtain q where "call_send drv f s = s\<lparr>loopback_queue := q\<rparr>" ..
  then show ?thesis by (intro exI [of _ q] exI [of _ "e1000_dev s"]) simp
qed (auto simp: call_send_def intro!: exI [of _ "loopback_queue s"] exI [of _ "snd (e1000_send_packet f (e1000_dev s))"])

lemma ethernet_send_shape:
  "\<exists>q d. snd (ethernet_send_frame i m et p s) = s\<lparr>loopback_queue := q, e1000_dev := d\<rparr> \<and>
     rx_same (e1000_dev s) d"
proof -
  have "\<exists>q d. s = s\<lparr>loopback_queue := q, e1000_dev := d\<rparr> \<and> rx_same (e1000_dev s) d"
    by (intro exI [of _ "loopback_queue s"] exI [of _ "e1000_dev s"]) simp
  then show ?thesis
    using call_send_shape
    by (auto simp: ethernet_send_frame_def network_send_raw_def split: option.split)
qed

lemma ip_send_shape:
  "\<exists>q d n. snd (ip_send_packet i dst p payload s) =
     s\<lparr>loopback_queue := q, e1000_dev := d, ip_identification := n\<rparr> \<and> rx_same (e1000_dev s) d"
proof -
  have id: "\<exists>q d n. s = s\<lparr>loopback_queue := q, e1000_dev := d, ip_identification := n\<rparr> \<and>
      rx_same (e1000_dev s) d"
    by (intro exI [of _ "loopback_queue s"] exI [of _ "e1000_dev s"] exI [of _ "ip_identification s"]) simp
  have send: "\<exists>q d n. snd (ethernet_send_frame i m et pk (s\<lparr>ip_identification := k\<rparr>)) =
      s\<lparr>loopback_queue := q, e1000_dev := d, ip_identification := n\<rparr> \<and> rx_same (e1000_dev s) d"
    for m et pk k
  proof -
    from ethernet_send_shape [of i m et pk "s\<lparr>ip_identification := k\<rparr>"] obtain q d where
      "snd (ethernet_send_frame i m et pk (s\<lparr>ip_identification := k\<rparr>)) =
         s\<lparr>ip_identification := k, loopback_queue := q, e1000_dev := d\<rparr>" "rx_same (e1000_dev s) d"
      by auto
    then show ?thesis by (intro exI [of _ q] exI [of _ d] exI [of _ k]) simp
  qed
  show ?thesis
    using id send by (auto simp: ip_send_packet_def arp_send_request_def Let_def split: option.split)
qed

lemma ip_send_fields [simp]:
  "if_pool (snd (ip_send_packet i dst p pl s)) = if_pool s"
  "interfaces (snd (ip_send_packet i dst p pl s)) = interfaces s"
  "interface_count (snd (ip_send_packet i dst p pl s)) = interface_count s"
  "timer_ticks (snd (ip_send_packet i dst p pl s)) = timer_ticks s"
  "arp_table (snd (ip_send_packet i dst p pl s)) = arp_table s"
  "rx_same (e1000_dev s) (e1000_dev (snd (ip_send_packet i dst p pl s)))"
  using ip_send_shape [of i dst p pl s] by auto

lemma ip_send_rx_fields [simp]:
  "rx_desc (e1000_dev (snd (ip_send_packet i dst p pl s))) = rx_desc (e1000_dev s)"
  "rx_cur (e1000_dev (snd (ip_send_packet i dst p pl s))) = rx_cur (e1000_dev s)"
  "rx_buffers (e1000_dev (snd (ip_send_packet i dst p pl s))) = rx_buffers (e1000_dev s)"
  "e1000_initialized (e1000_dev (snd (ip_send_packet i dst p pl s))) = e1000_initialized (e1000_dev s)"
  using ip_send_fields(6) [of s i dst p pl] by (simp_all add: rx_same_def)

lemma ethernet_send_rx_fields [simp]:
  "rx_desc (e1000_dev (snd (ethernet_send_frame i m et p s))) = rx_desc (e1000_dev s)"
  "rx_cur (e1000_dev (snd (ethernet_send_frame i m et p s))) = rx_cur (e1000_dev s)"
  "rx_buffers (e1000_dev (snd (ethernet_send_frame i m et p s))) = rx_buffers (e1000_dev s)"
  "e1000_initialized (e1000_dev (snd (ethernet_send_frame i m et p s))) = e1000_initialized (e1000_dev s)"
  using ethernet_send_shape [of i m et p s] by (auto simp: rx_same_def)

text \<open>A packet to a resolved address leaves as one frame on the interface's device.\<close>

lemma ip_send_resolved:
  assumes "0 < length payload" and "length payload \<le> 1480" and "active (iface s i)"
    and "send_packet (iface s i) = Some d" and "arp_lookup dst s = Some m" and "dst \<noteq> 0xFFFFFFFF"
    and "length m = 6" and "length (mac_address (iface s i)) = 6"
  shows "ip_send_packet i dst p payload s =
     (NET_SUCCESS, call_send d (ethernet_frame m (mac_address (iface s i)) ETH_TYPE_IP
        (ip_packet (ip_identification s) p (ip_address (iface s i)) dst payload))
        (s\<lparr>ip_identification := ip_identification s + 1\<rparr>))"
proof -
  have "arp_lookup dst (s\<lparr>ip_identification := n\<rparr>) = Some m" for n
    using assms(5) by (simp add: arp_lookup_def arp_slot_def)
  moreover have "ethernet_frame m (mac_address (iface s i)) ETH_TYPE_IP pk \<noteq> []" for pk
    using length_ethernet_frame [OF assms(7,8), of ETH_TYPE_IP pk] by auto
  moreover have "ip_packet n p src dst payload \<noteq> []" for n src
    using length_ip_packet [of n p src dst payload] by (metis add_is_0 length_0_conv zero_neq_numeral)
  ultimately show ?thesis
    using assms by (simp add: ip_send_packet_def ethernet_send_frame_def network_send_raw_def Let_def
        ip_consts eth_consts)
qed

section \<open>Address conversion\<close>

lemma of_char_digit: "unat d \<le> 9 \<Longrightarrow> (of_char (digit d) :: nat) = 48 + unat d"
  by (simp add: digit_def take_bit_eq_mod)

lemma digit_not_NUL: "unat d \<le> 9 \<Longrightarrow> digit d \<noteq> NUL"
proof
  assume "unat d \<le> 9" "digit d = NUL"
  then have "48 + unat d = of_char NUL" using of_char_digit [of d] by simp
  then show False by simp
qed

lemma parse_digit:
  assumes d: "unat d \<le> 9" and len: "length octets < 4" and m: "m * 10 + unat d \<le> 255"
  shows "parse_octets (digit d # cs) octets (of_nat m) = parse_octets cs octets (of_nat (m * 10 + unat d))"
proof -
  have "(of_nat m :: u32) * 10 + of_nat (48 + unat d - 48) = of_nat (m * 10 + unat d)" by simp
  moreover have "unat (of_nat (m * 10 + unat d) :: u32) = m * 10 + unat d"
    using m by (intro unat_of_nat_small) simp
  then have "\<not> 255 < (of_nat (m * 10 + unat d) :: u32)"
    using m by (simp add: word_less_nat_alt del: of_nat_add of_nat_mult)
  ultimately show ?thesis using d len digit_not_NUL [OF d] of_char_digit [OF d] by (simp add: Let_def)
qed

lemma three_digits:
  fixes n :: nat
  assumes "n < 256"
  shows "(n div 100 * 10 + n mod 100 div 10) * 10 + n mod 100 mod 10 = n"
    and "n div 100 \<le> 9" and "n mod 100 div 10 \<le> 9" and "n mod 100 mod 10 \<le> 9"
    and "n div 100 * 10 + n mod 100 div 10 \<le> 255"
proof -
  define a r b c where "a = n div 100" and "r = n mod 100" and "b = r div 10" and "c = r mod 10"
  then have *: "n = a * 100 + r" "r = b * 10 + c" "r < 100" "c < 10" by simp_all
  then have "(a * 10 + b) * 10 + c = n" "a \<le> 9" "b \<le> 9" "c \<le> 9" "a * 10 + b \<le> 255"
    using assms by simp_all
  then show "(n div 100 * 10 + n mod 100 div 10) * 10 + n mod 100 mod 10 = n"
    "n div 100 \<le> 9" "n mod 100 div 10 \<le> 9" "n mod 100 mod 10 \<le> 9"
    "n div 100 * 10 + n mod 100 div 10 \<le> 255"
    by (simp_all only: a_def r_def b_def c_def)
qed

lemma parse_octet:
  assumes len: "length octets < 4"
  shows "parse_octets (octet_str v @ cs) octets 0 = parse_octets cs octets (ucast v)"
proof -
  let ?n = "unat v"
  have n: "?n < 256" using unsigned_less [of v, where ?'a = nat] by simp
  have uc: "(of_nat ?n :: u32) = ucast v" by (simp only: of_nat_unat)
  have le: "100 \<le> v \<longleftrightarrow> 100 \<le> ?n" "10 \<le> v \<longleftrightarrow> 10 \<le> ?n" by (simp_all add: word_le_nat_alt)
  have dm: "unat (v div 100) = ?n div 100" "unat (v mod 100 div 10) = ?n mod 100 div 10"
    "unat (v mod 100 mod 10) = ?n mod 100 mod 10" "unat (v div 10) = ?n div 10" "unat (v mod 10) = ?n mod 10"
    by (simp_all add: unat_div unat_mod)
  note digit = parse_digit [OF _ len]
  consider "100 \<le> ?n" | "10 \<le> ?n" "?n < 100" | "?n < 10" by linarith
  then show ?thesis
  proof cases
    case 1
    note e = three_digits [OF n]
    with 1 n e show ?thesis
      using digit [of "v div 100" 0 "digit (v mod 100 div 10) # digit (v mod 100 mod 10) # cs"]
        digit [of "v mod 100 div 10" "?n div 100" "digit (v mod 100 mod 10) # cs"]
        digit [of "v mod 100 mod 10" "?n div 100 * 10 + ?n mod 100 div 10" cs]
      by (simp add: octet_str_def le dm uc del: parse_octets.simps of_nat_add of_nat_mult)
  next
    case 2
    have e: "?n div 10 * 10 + ?n mod 10 = ?n" by simp
    have os: "octet_str v = [digit (v div 10), digit (v mod 10)]"
      using 2 by (simp add: octet_str_def le)
    have "?n div 10 \<le> 9" "?n mod 10 \<le> 9" using 2 by auto
    with 2 n e show ?thesis
      using digit [of "v div 10" 0 "digit (v mod 10) # cs"] digit [of "v mod 10" "?n div 10" cs]
      by (simp add: os dm uc del: parse_octets.simps of_nat_add of_nat_mult)
  next
    case 3
    with n show ?thesis
      using digit [of v 0 cs] by (simp add: octet_str_def le uc del: parse_octets.simps)
  qed
qed

lemma parse_dot:
  "length octets < 4 \<Longrightarrow> parse_octets (CHR ''.'' # cs) octets cur = parse_octets cs (octets @ [cur]) 0"
  by simp

lemma combine_octets_addr:
  "combine_octets [ucast (ucast (drop_bit 24 a AND 0xFF) :: u8), ucast (ucast (drop_bit 16 a AND 0xFF) :: u8),
     ucast (ucast (drop_bit 8 a AND 0xFF) :: u8), ucast (ucast (a AND 0xFF) :: u8)] = (a :: u32)"
proof (rule bit_word_eqI)
  fix n assume "n < LENGTH(32)"
  then consider "n < 8" | "8 \<le> n" "n < 16" | "16 \<le> n" "n < 24" | "24 \<le> n" "n < 32" by fastforce
  moreover have m: "(0xFF :: u32) = mask 8" by (simp add: mask_eq_exp_minus_1)
  ultimately show "bit (combine_octets [ucast (ucast (drop_bit 24 a AND 0xFF) :: u8),
     ucast (ucast (drop_bit 16 a AND 0xFF) :: u8), ucast (ucast (drop_bit 8 a AND 0xFF) :: u8),
     ucast (ucast (a AND 0xFF) :: u8)]) n = bit a n"
    unfolding m combine_octets_def by cases (auto simp: bit_simps)
qed

lemma parse_addr:
  "parse_octets (ip_addr_to_str a) [] 0 =
     Some ([ucast (ucast (drop_bit 24 a AND 0xFF) :: u8), ucast (ucast (drop_bit 16 a AND 0xFF) :: u8),
        ucast (ucast (drop_bit 8 a AND 0xFF) :: u8)], ucast (ucast (a AND 0xFF) :: u8))"
  unfolding ip_addr_to_str_def
  by (simp add: parse_octet parse_dot del: parse_octets.simps(2)) simp

section \<open>Properties\<close>

text \<open>
  The one's complement sum of RFC 1071, on numbers and the words in network order: 16-bit addition in which a carry out of
  the top is added back in at the bottom.
\<close>

definition end_around :: "nat \<Rightarrow> nat \<Rightarrow> nat" where
  "end_around x y = (if x + y < 65536 then x + y else x + y - 65536 + 1)"

fun rfc1071_sum :: "u8 list \<Rightarrow> nat" where
  "rfc1071_sum (a # b # bs) = end_around (256 * unat a + unat b) (rfc1071_sum bs)"
| "rfc1071_sum _ = 0"

lemma end_around_mod:
  assumes "x < 65536" and "y < 65536"
  shows "end_around x y < 65536" and "end_around x y mod 65535 = (x + y) mod 65535" and "end_around x y = 0 \<longleftrightarrow> x = 0 \<and> y = 0"
proof -
  have "Suc (x + y - 65536) = x + y - 65535" if "\<not> x + y < 65536" using that by simp
  then show "end_around x y mod 65535 = (x + y) mod 65535" by (simp add: end_around_def le_mod_geq)
qed (use assms in \<open>auto simp: end_around_def\<close>)

lemma rfc1071_sum_words:
  "rfc1071_sum bs < 65536 \<and> 256 * rfc1071_sum bs mod 65535 = total16 (words16 bs) mod 65535 \<and>
   (rfc1071_sum bs = 0 \<longleftrightarrow> total16 (words16 bs) = 0)"
proof (induction bs rule: rfc1071_sum.induct)
  case (1 a b bs)
  let ?x = "256 * unat a + unat b" and ?r = "rfc1071_sum bs"
  have ab: "unat a < 256" "unat b < 256" using unsigned_less [of a, where ?'a = nat] unsigned_less [of b, where ?'a = nat] by simp_all
  then have x: "?x < 65536" by simp
  have "(ucast a :: u16) OR push_bit 8 (ucast b) = ucast a + push_bit 8 (ucast b)"
    by (rule sym, rule disjunctive_add) (auto simp: bit_simps dest: bit_imp_le_length)
  moreover have "unat (ucast a :: u16) = unat a" "unat (ucast b :: u16) = unat b"
    using ab by (simp_all add: unsigned_ucast_eq take_bit_nat_eq_self)
  ultimately have w: "unat ((ucast a :: u16) OR push_bit 8 (ucast b)) = unat a + 256 * unat b"
    using ab by (simp add: push_bit_eq_mult unat_word_ariths)
  note e = end_around_mod [OF x, of ?r]
  have "256 * end_around ?x ?r mod 65535 = 256 * (?x + ?r) mod 65535"
    using 1 e(2) by (intro mod_mult_cong) simp_all
  also have "256 * (?x + ?r) = (unat a + 256 * unat b + 256 * ?r) + 65535 * unat a" by simp
  also have "\<dots> mod 65535 = (unat a + 256 * unat b + 256 * ?r) mod 65535" by (rule mod_mult_self2)
  also have "\<dots> = (unat a + 256 * unat b + total16 (words16 bs)) mod 65535"
    using 1 by (intro mod_add_cong) simp_all
  finally show ?case using e 1 w by auto
qed simp_all

lemma rfc1071_sum_complete:
  assumes "length h \<le> 20" and "fold_carry (add_words (words16 h) 0) = 0xFFFF"
  shows "rfc1071_sum h = 0xFFFF"
proof -
  let ?r = "rfc1071_sum h"
  have "unat (fold_carry (add_words (words16 h) 0)) = 65535" by (simp add: assms(2))
  then have t: "total16 (words16 h) mod 65535 = 0" "total16 (words16 h) \<noteq> 0"
    using fold_carry_spec [of "add_words (words16 h) 0"] unat_header_sum [OF assms(1)] by simp_all
  then have "65535 dvd 256 * ?r" "?r \<noteq> 0" "?r < 65536" using rfc1071_sum_words [of h] by auto
  moreover have "coprime (65535 :: nat) 256" by (simp add: coprime_iff_gcd_eq_1 gcd_non_0_nat)
  ultimately have "65535 dvd ?r" by (simp add: coprime_dvd_mult_right_iff)
  then obtain k where "?r = 65535 * k" by (elim dvdE)
  with \<open>?r \<noteq> 0\<close> \<open>?r < 65536\<close> show ?thesis by (cases "k = 1") auto
qed

text \<open>
  C32. The header checksum meets RFC 1071: with the computed checksum stored, the one's complement sum of the ten header
  words in network order, carries added back in, is all ones, which is what any receiver checks. This kernel's own validation
  accepts that header, and it accepts no header whose sum is anything else.
\<close>

theorem ip_checksum_rfc1071:
  assumes "length h = 20"
  shows "rfc1071_sum (wr16 h 10 (ip_checksum (wr16 h 10 0))) = 0xFFFF \<and>
     ip_validate_checksum (wr16 h 10 (ip_checksum (wr16 h 10 0))) \<and>
     (ip_validate_checksum h \<longrightarrow> rfc1071_sum h = 0xFFFF)"
proof -
  from header_split [OF assms] obtain as v bs where
    h: "h = as @ le16 v @ bs" and len: "length as = 10" "length bs = 8" by metis
  have wr: "wr16 (as @ le16 u @ bs) 10 w = as @ le16 w @ bs" for u w by (rule wr16_field [OF len(1)])
  have rd: "rd16 (as @ le16 w @ bs) 10 = w" for w by (rule rd16_field [OF len(1)])
  then have "ip_validate_checksum (wr16 h 10 (ip_checksum (wr16 h 10 0)))"
    by (simp add: ip_validate_checksum_def h wr)
  moreover have sum: "rfc1071_sum (wr16 h 10 (ip_checksum (wr16 h 10 0))) = 0xFFFF"
    by (rule rfc1071_sum_complete [OF _ ip_checksum_completes [OF assms]]) (simp add: wr16_def assms)
  moreover have "wr16 h 10 (ip_checksum (wr16 h 10 0)) = h" if "ip_validate_checksum h"
    using that rd wr by (simp add: ip_validate_checksum_def h)
  ultimately show ?thesis by auto
qed

theorem ip_checksum_rfc1071_witness:
  "rfc1071_sum (wr16 (ip_header 8 1 17 0x0A000001 0x0A000002 0) 10
     (ip_checksum (wr16 (ip_header 8 1 17 0x0A000001 0x0A000002 0) 10 0))) = 0xFFFF"
  using ip_checksum_rfc1071 [of "ip_header 8 1 17 0x0A000001 0x0A000002 0"] by simp

text \<open>
  Error detection: if a header validates and any single 16-bit word outside the first word and the
  checksum field is replaced by a different one, validation fails, unless the two words are the
  pair 0000 and FFFF that one's complement cannot tell apart.
\<close>

theorem ip_checksum_detects:
  assumes "even (length as)" and "2 \<le> length as" and "length as \<noteq> 10" and "length as + 2 + length bs = 20"
    and "as ! 0 \<noteq> 0" and "w \<noteq> w'" and "{w, w'} \<noteq> {0, 0xFFFF}"
    and "ip_validate_checksum (as @ le16 w @ bs)"
  shows "\<not> ip_validate_checksum (as @ le16 w' @ bs)"
proof
  assume v': "ip_validate_checksum (as @ le16 w' @ bs)"
  let ?z = "\<lambda>w. wr16 (as @ le16 w @ bs) 10 0"
  obtain as\<^sub>1 bs\<^sub>1 where z: "length as\<^sub>1 = length as" "length bs\<^sub>1 = length bs" "as\<^sub>1 ! 0 = as ! 0"
    "\<And>w. ?z w = as\<^sub>1 @ le16 w @ bs\<^sub>1" by (rule zero_checksum_field [OF assms(1,3)]) blast
  have field: "rd16 (as @ le16 w @ bs) 10 = rd16 (as @ le16 w' @ bs) 10"
    by (rule checksum_field_elsewhere [OF assms(1,3)])
  let ?S = "\<lambda>w. add_words (words16 (as\<^sub>1 @ le16 w @ bs\<^sub>1)) 0"
  obtain a\<^sub>1 b\<^sub>1 r where as1: "as\<^sub>1 = a\<^sub>1 # b\<^sub>1 # r" using assms(2) z(1) by (cases as\<^sub>1; cases "tl as\<^sub>1") auto
  have ev: "even (length as\<^sub>1)" using assms(1) z(1) by simp
  have S: "unat (?S w) = total16 (words16 as\<^sub>1) + unat w + total16 (words16 bs\<^sub>1)" for w
    using assms(4) z(1,2) by (subst unat_header_sum) (simp_all add: words16_field [OF ev] del: words16.simps)
  have pos: "0 < total16 (words16 as\<^sub>1)"
    using assms(5) z(3) words16_hd_pos [of a\<^sub>1 b\<^sub>1 r] by (simp add: as1 del: words16.simps)
  have ck: "ip_checksum (?z w) = ones_complement (?S w)" for w
    using assms(4) z by (simp add: ip_checksum_def ip_consts)
  from assms(8) v' field have "ones_complement (?S w) = ones_complement (?S w')"
    by (simp add: ip_validate_checksum_def flip: ck)
  then have eq: "unat (?S w) mod 65535 = unat (?S w') mod 65535"
    using pos by (subst (asm) ones_complement_eq_iff) (simp_all add: S)
  let ?t = "total16 (words16 as\<^sub>1) + total16 (words16 bs\<^sub>1)"
  have "(unat w + ?t) mod 65535 = (unat w' + ?t) mod 65535" using eq by (simp add: S ac_simps)
  then have "unat w mod 65535 = unat w' mod 65535" by (simp add: nat_mod_eq_iff)
  from mod_65535_word [OF this assms(6)] assms(7) show False by simp
qed

theorem ip_checksum_detects_witness:
  "\<not> ip_validate_checksum ([0x45, 0] @ le16 0x1D00 @ drop 4 (ip_header 8 1 17 0x0A000001 0x0A000002 0xCE26))"
proof -
  have "ip_validate_checksum ([0x45, 0] @ le16 0x1C00 @ drop 4 (ip_header 8 1 17 0x0A000001 0x0A000002 0xCE26))"
    by code_simp
  then show ?thesis
    using ip_checksum_detects [of "[0x45, 0]" "drop 4 (ip_header 8 1 17 0x0A000001 0x0A000002 0xCE26)"
        "0x1C00" "0x1D00"] by (simp add: doubleton_eq_iff)
qed

text \<open>
  Printing an IPv4 address in dotted decimal and parsing the text gives the address back, for every
  address.
\<close>

theorem ip_addr_str_roundtrip:
  "ip_str_to_addr (ip_addr_to_str a) = a"
  using combine_octets_addr [of a] by (simp add: ip_str_to_addr_def parse_addr)

end
