(* ===== verification/Icmp.thy ===== *)
theory Icmp
  imports Ip
begin

text \<open>
  ICMP (\<^verbatim>\<open>network/icmp.c\<close>): echo requests and replies, destination unreachable messages and the
  processing of received ICMP packets. The polling loop of \<^verbatim>\<open>icmp_ping\<close> is in \<open>Net_Input\<close>.
\<close>

section \<open>State and operations\<close>

definition ICMP_ECHO_REPLY :: u8 where "ICMP_ECHO_REPLY = 0"
definition ICMP_DEST_UNREACHABLE :: u8 where "ICMP_DEST_UNREACHABLE = 3"
definition ICMP_ECHO_REQUEST :: u8 where "ICMP_ECHO_REQUEST = 8"
definition ICMP_PROTOCOL_UNREACHABLE :: u8 where "ICMP_PROTOCOL_UNREACHABLE = 2"
definition ICMP_MAX_PAYLOAD :: nat where "ICMP_MAX_PAYLOAD = 1472"

record icmp_net = ip_net +
  ping_reply_received :: bool
  ping_reply_src_ip :: u32
  ping_reply_seq :: u16
  ping_send_time :: u64
  ping_reply_time :: u64

definition icmp_init :: "'z icmp_net_scheme \<Rightarrow> int \<times> 'z icmp_net_scheme" where
  "icmp_init s = (NET_SUCCESS, s\<lparr>ping_reply_received := False\<rparr>)"

definition icmp_checksum :: "u8 list \<Rightarrow> u16" where
  "icmp_checksum bytes = ones_complement (add_bytes bytes 0)"

text \<open>
  The bytes of \<^verbatim>\<open>icmp_packet_t\<close> in use: type, code, checksum, the four bytes of the union, payload.
  The payload is cut to the size of the struct's array before.
\<close>

definition icmp_packet :: "u8 \<Rightarrow> u8 \<Rightarrow> u8 list \<Rightarrow> u8 list \<Rightarrow> u8 list" where
  "icmp_packet typ code rest payload =
     (let packet = [typ, code] @ le16 0 @ rest @ payload
      in wr16 packet 2 (icmp_checksum packet))"

definition icmp_send_echo_request ::
  "nat \<Rightarrow> u32 \<Rightarrow> u16 \<Rightarrow> u16 \<Rightarrow> u8 list \<Rightarrow> 'z ip_net_scheme \<Rightarrow> int \<times> 'z ip_net_scheme" where
  "icmp_send_echo_request i dest_ip identifier sequence data s =
     ip_send_packet i dest_ip IP_PROTOCOL_ICMP
       (icmp_packet ICMP_ECHO_REQUEST 0 (le16 (bswap16 identifier) @ le16 (bswap16 sequence))
         (take ICMP_MAX_PAYLOAD data)) s"

definition icmp_send_echo_reply ::
  "nat \<Rightarrow> u32 \<Rightarrow> u16 \<Rightarrow> u16 \<Rightarrow> u8 list \<Rightarrow> 'z ip_net_scheme \<Rightarrow> int \<times> 'z ip_net_scheme" where
  "icmp_send_echo_reply i dest_ip identifier sequence data s =
     ip_send_packet i dest_ip IP_PROTOCOL_ICMP
       (icmp_packet ICMP_ECHO_REPLY 0 (le16 (bswap16 identifier) @ le16 (bswap16 sequence))
         (take ICMP_MAX_PAYLOAD data)) s"

definition icmp_send_dest_unreachable ::
  "nat \<Rightarrow> u32 \<Rightarrow> u8 \<Rightarrow> u8 list \<Rightarrow> 'z ip_net_scheme \<Rightarrow> int \<times> 'z ip_net_scheme" where
  "icmp_send_dest_unreachable i dest_ip code original_packet s =
     ip_send_packet i dest_ip IP_PROTOCOL_ICMP
       (icmp_packet ICMP_DEST_UNREACHABLE code (le32 0) (take ICMP_MAX_PAYLOAD original_packet)) s"

text \<open>
  The received packet is a view into the frame buffer and its checksum field is cleared in place: the
  result is the changed bytes and the new state.
\<close>

definition icmp_process_packet ::
  "nat \<Rightarrow> u32 \<Rightarrow> u8 list \<Rightarrow> 'z icmp_net_scheme \<Rightarrow> u8 list \<times> 'z icmp_net_scheme" where
  "icmp_process_packet i src_ip packet s =
     (let original_checksum = rd16 packet 2;
          packet = wr16 packet 2 0;
          sequence = bswap16 (rd16 packet 6)
      in (packet,
          if original_checksum \<noteq> icmp_checksum (take 8 packet) then s
          else if packet ! 0 = ICMP_ECHO_REQUEST
            then snd (icmp_send_echo_reply i src_ip (bswap16 (rd16 packet 4)) sequence [] s)
          else if packet ! 0 = ICMP_ECHO_REPLY
            then s\<lparr>ping_reply_received := True, ping_reply_src_ip := src_ip,
                   ping_reply_seq := sequence, ping_reply_time := timer_ticks s\<rparr>
          else s))"

end
