(* ===== verification/Udp.thy ===== *)
theory Udp
  imports Icmp
begin

text \<open>
  UDP (\<^verbatim>\<open>network/udp.c\<close>): the socket table, binding, sending, the checksum. A socket is referred to by
  its index in the static array. A receive callback is an opaque identifier and its calls are recorded
  in \<open>udp_events\<close>. The processing of received datagrams, which calls the DHCP client, is in
  \<open>Net_Input\<close>.
\<close>

section \<open>State and operations\<close>

definition MAX_SOCKETS :: nat where "MAX_SOCKETS = 64"
definition UDP_HEADER_LEN :: nat where "UDP_HEADER_LEN = 8"
definition UDP_MAX_PAYLOAD :: nat where "UDP_MAX_PAYLOAD = IP_PACKET_SIZE - IP_HEADER_LEN - UDP_HEADER_LEN"

record udp_socket_t =
  local_port :: u16
  remote_ip :: u32
  remote_port :: u16
  bound :: bool
  connected :: bool
  receive_callback :: "nat option"

text \<open>A callback invocation: callback, socket, the bytes at the data pointer up to the end of the
  frame buffer, the length passed, source address and port.\<close>

record udp_event =
  ev_callback :: nat
  ev_socket :: nat
  ev_data :: "u8 list"
  ev_len :: nat
  ev_src_ip :: u32
  ev_src_port :: u16

record udp_net = icmp_net +
  udp_sockets :: "udp_socket_t list"
  udp_socket_count :: nat
  udp_events :: "udp_event list"

definition free_socket :: udp_socket_t where
  "free_socket = \<lparr>local_port = 0, remote_ip = 0, remote_port = 0, bound = False, connected = False,
     receive_callback = None\<rparr>"

abbreviation upd_usock ::
  "nat \<Rightarrow> (udp_socket_t \<Rightarrow> udp_socket_t) \<Rightarrow> 'z udp_net_scheme \<Rightarrow> 'z udp_net_scheme" where
  "upd_usock k f s \<equiv> s\<lparr>udp_sockets := (udp_sockets s)[k := f (udp_sockets s ! k)]\<rparr>"

definition udp_init :: "'z udp_net_scheme \<Rightarrow> int \<times> 'z udp_net_scheme" where
  "udp_init s =
     (NET_SUCCESS, s\<lparr>udp_sockets := replicate MAX_SOCKETS free_socket, udp_socket_count := 0\<rparr>)"

definition pseudo_sum :: "u32 \<Rightarrow> u32 \<Rightarrow> u16 \<Rightarrow> nat \<Rightarrow> u32" where
  "pseudo_sum src_ip dest_ip protocol len =
     (drop_bit 16 src_ip AND 0xFFFF) + (src_ip AND 0xFFFF) +
     (drop_bit 16 dest_ip AND 0xFFFF) + (dest_ip AND 0xFFFF) +
     ucast (bswap16 protocol) + ucast (bswap16 (of_nat len))"

definition udp_checksum :: "u8 list \<Rightarrow> u32 \<Rightarrow> u32 \<Rightarrow> u16" where
  "udp_checksum bytes src_ip dest_ip =
     ones_complement (add_bytes bytes
       (pseudo_sum src_ip dest_ip (ucast IP_PROTOCOL_UDP) (length bytes)))"

definition udp_header :: "u16 \<Rightarrow> u16 \<Rightarrow> nat \<Rightarrow> u16 \<Rightarrow> u8 list" where
  "udp_header src_port dest_port payload_len checksum =
     le16 (bswap16 src_port) @ le16 (bswap16 dest_port) @
     le16 (bswap16 (of_nat (UDP_HEADER_LEN + payload_len))) @ le16 checksum"

definition udp_packet :: "u32 \<Rightarrow> u32 \<Rightarrow> u16 \<Rightarrow> u16 \<Rightarrow> u8 list \<Rightarrow> u8 list" where
  "udp_packet src_ip dest_ip src_port dest_port payload =
     (let packet = udp_header src_port dest_port (length payload) 0 @ payload
      in wr16 packet 6 (udp_checksum packet src_ip dest_ip))"

definition udp_send_packet ::
  "nat \<Rightarrow> u32 \<Rightarrow> u16 \<Rightarrow> u16 \<Rightarrow> u8 list \<Rightarrow> 'z ip_net_scheme \<Rightarrow> int \<times> 'z ip_net_scheme" where
  "udp_send_packet i dest_ip src_port dest_port payload s =
     (if length payload = 0 then (NET_INVALID_PARAM, s)
      else if UDP_MAX_PAYLOAD < length payload then (NET_ERROR, s)
      else ip_send_packet i dest_ip IP_PROTOCOL_UDP
             (udp_packet (ip_address (iface s i)) dest_ip src_port dest_port payload) s)"

definition udp_create_socket :: "'z udp_net_scheme \<Rightarrow> nat option \<times> 'z udp_net_scheme" where
  "udp_create_socket s =
     (if MAX_SOCKETS \<le> udp_socket_count s then (None, s)
      else let k = udp_socket_count s
           in (Some k, s\<lparr>udp_socket_count := k + 1, udp_sockets := (udp_sockets s)[k := free_socket]\<rparr>))"

definition udp_bind :: "nat \<Rightarrow> u16 \<Rightarrow> 'z udp_net_scheme \<Rightarrow> int \<times> 'z udp_net_scheme" where
  "udp_bind socket port s =
     (if port = 0 then (NET_INVALID_PARAM, s)
      else if first_index (\<lambda>k. bound (udp_sockets s ! k) \<and> local_port (udp_sockets s ! k) = port)
                MAX_SOCKETS \<noteq> None
        then (NET_ERROR, s)
      else (NET_SUCCESS, upd_usock socket (\<lambda>u. u\<lparr>local_port := port, bound := True\<rparr>) s))"

definition udp_connect :: "nat \<Rightarrow> u32 \<Rightarrow> u16 \<Rightarrow> 'z udp_net_scheme \<Rightarrow> int \<times> 'z udp_net_scheme" where
  "udp_connect socket rip rport s =
     (if rip = 0 \<or> rport = 0 then (NET_INVALID_PARAM, s)
      else (NET_SUCCESS,
            upd_usock socket (\<lambda>u. u\<lparr>remote_ip := rip, remote_port := rport, connected := True\<rparr>) s))"

definition udp_sendto ::
  "nat \<Rightarrow> u8 list \<Rightarrow> u32 \<Rightarrow> u16 \<Rightarrow> 'z udp_net_scheme \<Rightarrow> int \<times> 'z udp_net_scheme" where
  "udp_sendto socket data dest_ip dest_port s =
     (if length data = 0 \<or> dest_ip = 0 \<or> dest_port = 0 \<or> \<not> bound (udp_sockets s ! socket)
      then (NET_INVALID_PARAM, s)
      else case network_find_route dest_ip s of
             None \<Rightarrow> (NET_ERROR, s)
           | Some i \<Rightarrow> udp_send_packet i dest_ip (local_port (udp_sockets s ! socket)) dest_port data s)"

definition udp_send :: "nat \<Rightarrow> u8 list \<Rightarrow> 'z udp_net_scheme \<Rightarrow> int \<times> 'z udp_net_scheme" where
  "udp_send socket data s =
     (if length data = 0 \<or> \<not> connected (udp_sockets s ! socket) then (NET_INVALID_PARAM, s)
      else udp_sendto socket data (remote_ip (udp_sockets s ! socket))
             (remote_port (udp_sockets s ! socket)) s)"

definition udp_close :: "nat \<Rightarrow> 'z udp_net_scheme \<Rightarrow> 'z udp_net_scheme" where
  "udp_close socket s = s\<lparr>udp_sockets := (udp_sockets s)[socket := free_socket]\<rparr>"

text \<open>Delivery of a datagram to the first socket bound to the port.\<close>

definition udp_deliver ::
  "u32 \<Rightarrow> u16 \<Rightarrow> u16 \<Rightarrow> u8 list \<Rightarrow> nat \<Rightarrow> 'z udp_net_scheme \<Rightarrow> 'z udp_net_scheme" where
  "udp_deliver src_ip src_port dest_port data payload_len s =
     (case first_index (\<lambda>k. bound (udp_sockets s ! k) \<and> local_port (udp_sockets s ! k) = dest_port)
             MAX_SOCKETS of
        None \<Rightarrow> s
      | Some k \<Rightarrow>
          (case receive_callback (udp_sockets s ! k) of
             None \<Rightarrow> s
           | Some cb \<Rightarrow>
               s\<lparr>udp_events := udp_events s @
                   [\<lparr>ev_callback = cb, ev_socket = k, ev_data = data, ev_len = payload_len,
                     ev_src_ip = src_ip, ev_src_port = src_port\<rparr>]\<rparr>))"

section \<open>Datagram layout\<close>

lemma length_udp_header [simp]: "length (udp_header sp dp n c) = 8"
  by (simp add: udp_header_def)

lemma udp_packet_eq:
  "udp_packet src dst sp dp payload =
     udp_header sp dp (length payload)
       (udp_checksum (udp_header sp dp (length payload) 0 @ payload) src dst) @ payload"
proof -
  let ?h = "le16 (bswap16 sp) @ le16 (bswap16 dp) @ le16 (bswap16 (of_nat (UDP_HEADER_LEN + length payload)))"
  have "wr16 (?h @ le16 0 @ payload) 6 c = ?h @ le16 c @ payload" for c
    by (rule wr16_field) simp
  then show ?thesis by (simp add: udp_packet_def udp_header_def Let_def)
qed

lemma length_udp_packet [simp]: "length (udp_packet src dst sp dp payload) = 8 + length payload"
  by (simp add: udp_packet_eq)

lemma udp_header_fields:
  shows "rd16 (udp_header sp dp n c @ bs) 0 = bswap16 sp"
    and "rd16 (udp_header sp dp n c @ bs) 2 = bswap16 dp"
    and "rd16 (udp_header sp dp n c @ bs) 4 = bswap16 (of_nat (8 + n))"
proof -
  show "rd16 (udp_header sp dp n c @ bs) 0 = bswap16 sp" by (simp add: udp_header_def rd16_le16)
  show "rd16 (udp_header sp dp n c @ bs) 2 = bswap16 dp"
    using rd16_field [of "le16 (bswap16 sp)" 2] by (simp add: udp_header_def)
  show "rd16 (udp_header sp dp n c @ bs) 4 = bswap16 (of_nat (8 + n))"
    using rd16_field [of "le16 (bswap16 sp) @ le16 (bswap16 dp)" 4]
    by (simp add: udp_header_def UDP_HEADER_LEN_def)
qed

section \<open>Port ownership\<close>

text \<open>No two bound sockets share a port, and a bound socket has a port.\<close>

definition ports_ok :: "'z udp_net_scheme \<Rightarrow> bool" where
  "ports_ok s \<longleftrightarrow> length (udp_sockets s) = MAX_SOCKETS \<and>
     (\<forall>i<MAX_SOCKETS. bound (udp_sockets s ! i) \<longrightarrow> local_port (udp_sockets s ! i) \<noteq> 0) \<and>
     (\<forall>i<MAX_SOCKETS. \<forall>j<MAX_SOCKETS. bound (udp_sockets s ! i) \<longrightarrow> bound (udp_sockets s ! j) \<longrightarrow>
        local_port (udp_sockets s ! i) = local_port (udp_sockets s ! j) \<longrightarrow> i = j)"

lemma ports_okD:
  assumes "ports_ok s" and "i < MAX_SOCKETS" and "j < MAX_SOCKETS"
    and "bound (udp_sockets s ! i)" and "bound (udp_sockets s ! j)"
    and "local_port (udp_sockets s ! i) = local_port (udp_sockets s ! j)"
  shows "i = j"
  using assms unfolding ports_ok_def by blast

text \<open>Replacing the entry of socket \<open>k\<close> by one that is unbound or has a port nobody else has.\<close>

lemma ports_ok_update:
  assumes ok: "ports_ok s"
    and e: "bound e \<longrightarrow> local_port e \<noteq> 0 \<and>
      (\<forall>j<MAX_SOCKETS. j \<noteq> k \<longrightarrow> bound (udp_sockets s ! j) \<longrightarrow> local_port (udp_sockets s ! j) \<noteq> local_port e)"
    and s': "udp_sockets s' = (udp_sockets s)[k := e]"
  shows "ports_ok s'"
proof -
  have len: "length (udp_sockets s) = MAX_SOCKETS" using ok by (simp add: ports_ok_def)
  have nth: "udp_sockets s' ! j = (if j = k then e else udp_sockets s ! j)" if "j < MAX_SOCKETS" for j
    using that len by (simp add: s')
  show ?thesis
    unfolding ports_ok_def
  proof (intro conjI allI impI)
    show "length (udp_sockets s') = MAX_SOCKETS" by (simp add: s' len)
  next
    fix i assume "i < MAX_SOCKETS" "bound (udp_sockets s' ! i)"
    then show "local_port (udp_sockets s' ! i) \<noteq> 0"
      using ok e by (cases "i = k") (simp_all add: nth ports_ok_def)
  next
    fix i j
    assume ij: "i < MAX_SOCKETS" "j < MAX_SOCKETS"
      and b: "bound (udp_sockets s' ! i)" "bound (udp_sockets s' ! j)"
        "local_port (udp_sockets s' ! i) = local_port (udp_sockets s' ! j)"
    consider "i = k" "j = k" | "i = k" "j \<noteq> k" | "i \<noteq> k" "j = k" | "i \<noteq> k" "j \<noteq> k" by blast
    then show "i = j"
    proof cases
      case 2
      with b ij have "bound e" "bound (udp_sockets s ! j)"
        "local_port (udp_sockets s ! j) = local_port e" by (simp_all add: nth)
      with e 2 ij show ?thesis by blast
    next
      case 3
      with b ij have "bound e" "bound (udp_sockets s ! i)"
        "local_port (udp_sockets s ! i) = local_port e" by (simp_all add: nth)
      with e 3 ij show ?thesis by blast
    next
      case 4
      with b ij ports_okD [OF ok ij] show ?thesis by (simp add: nth)
    qed simp
  qed
qed

lemma ports_ok_cong: "udp_sockets s' = udp_sockets s \<Longrightarrow> ports_ok s' = ports_ok s"
  by (simp add: ports_ok_def)

lemma ip_send_udp_fields [simp]:
  "udp_sockets (snd (ip_send_packet i dst p pl s)) = udp_sockets s"
  "udp_socket_count (snd (ip_send_packet i dst p pl s)) = udp_socket_count s"
  "udp_events (snd (ip_send_packet i dst p pl s)) = udp_events s"
  using ip_send_shape [of i dst p pl s] by auto

lemma udp_send_packet_state:
  "snd (udp_send_packet i dst sp dp pl s) = s \<or>
   (\<exists>bs. snd (udp_send_packet i dst sp dp pl s) = snd (ip_send_packet i dst IP_PROTOCOL_UDP bs s))"
  by (auto simp: udp_send_packet_def)

lemma udp_bind_ports:
  assumes "ports_ok s"
  shows "ports_ok (snd (udp_bind k port s))"
proof -
  let ?busy = "first_index (\<lambda>j. bound (udp_sockets s ! j) \<and> local_port (udp_sockets s ! j) = port) MAX_SOCKETS"
  show ?thesis
  proof (cases "port = 0 \<or> ?busy \<noteq> None")
    case True
    then have "snd (udp_bind k port s) = s" by (auto simp: udp_bind_def)
    with assms show ?thesis by simp
  next
    case False
    then have s': "snd (udp_bind k port s) = upd_usock k (\<lambda>u. u\<lparr>local_port := port, bound := True\<rparr>) s"
      by (simp add: udp_bind_def)
    from False have "\<forall>j<MAX_SOCKETS. \<not> (bound (udp_sockets s ! j) \<and> local_port (udp_sockets s ! j) = port)"
      by (simp add: first_index_None_iff)
    with False show ?thesis
      unfolding s'
      by (intro ports_ok_update [OF assms, of "(udp_sockets s ! k)\<lparr>local_port := port, bound := True\<rparr>" k])
         simp_all
  qed
qed

lemma udp_ports_keep:
  assumes "ports_ok s"
  shows "ports_ok (snd (udp_create_socket s))" and "ports_ok (udp_close k s)"
    and "ports_ok (snd (udp_connect k ip port s))" and "ports_ok (snd (udp_sendto k bs ip port s))"
proof -
  show "ports_ok (snd (udp_create_socket s))"
  proof (cases "MAX_SOCKETS \<le> udp_socket_count s")
    case False
    show ?thesis
      by (rule ports_ok_update [OF assms, of free_socket "udp_socket_count s"])
         (use False in \<open>simp_all add: udp_create_socket_def free_socket_def Let_def\<close>)
  qed (use assms in \<open>simp add: udp_create_socket_def\<close>)
  show "ports_ok (udp_close k s)"
    by (rule ports_ok_update [OF assms, of free_socket k]) (simp_all add: udp_close_def free_socket_def)
  show "ports_ok (snd (udp_connect k ip port s))"
  proof (cases "ip = 0 \<or> port = 0 \<or> \<not> k < MAX_SOCKETS")
    case True
    then show ?thesis
      using assms by (auto simp: udp_connect_def list_update_beyond ports_ok_def)
  next
    case False
    let ?e = "(udp_sockets s ! k)\<lparr>remote_ip := ip, remote_port := port, connected := True\<rparr>"
    have "bound ?e \<longrightarrow> local_port ?e \<noteq> 0 \<and> (\<forall>j<MAX_SOCKETS. j \<noteq> k \<longrightarrow> bound (udp_sockets s ! j) \<longrightarrow>
        local_port (udp_sockets s ! j) \<noteq> local_port ?e)"
    proof (intro impI conjI allI notI)
      assume "bound ?e" "local_port ?e = 0"
      then show False using False assms by (simp add: ports_ok_def)
    next
      fix j assume "bound ?e" "j < MAX_SOCKETS" "j \<noteq> k" "bound (udp_sockets s ! j)"
        "local_port (udp_sockets s ! j) = local_port ?e"
      then show False using ports_okD [OF assms, of j k] False by simp
    qed
    then show ?thesis
      by (rule ports_ok_update [OF assms]) (use False in \<open>simp add: udp_connect_def\<close>)
  qed
  have "ports_ok (snd (udp_send_packet i d sp dp pl s))" for i d sp dp pl
    using udp_send_packet_state [of i d sp dp pl s] assms ports_ok_cong [OF ip_send_udp_fields(1)] by metis
  then show "ports_ok (snd (udp_sendto k bs ip port s))"
    using assms by (auto simp: udp_sendto_def split: option.split)
qed

end
