(* ===== verification/Dhcp.thy ===== *)
theory Dhcp
  imports Udp
begin

text \<open>
  The DHCP client (\<^verbatim>\<open>network/dhcp.c\<close>): the option encoder and decoder, the messages it sends and
  its state machine. A client is referred to by its index in the static array.
  The two simulation helpers compiled only with \<^verbatim>\<open>DHCP_DEBUG\<close> are left out.
\<close>

section \<open>State\<close>

definition DHCP_DISCOVER :: u8 where "DHCP_DISCOVER = 1"
definition DHCP_OFFER :: u8 where "DHCP_OFFER = 2"
definition DHCP_REQUEST :: u8 where "DHCP_REQUEST = 3"
definition DHCP_ACK :: u8 where "DHCP_ACK = 5"
definition DHCP_NAK :: u8 where "DHCP_NAK = 6"
definition DHCP_RELEASE :: u8 where "DHCP_RELEASE = 7"
definition DHCP_OPTION_PAD :: u8 where "DHCP_OPTION_PAD = 0"
definition DHCP_OPTION_SUBNET_MASK :: u8 where "DHCP_OPTION_SUBNET_MASK = 1"
definition DHCP_OPTION_ROUTER :: u8 where "DHCP_OPTION_ROUTER = 3"
definition DHCP_OPTION_DNS_SERVER :: u8 where "DHCP_OPTION_DNS_SERVER = 6"
definition DHCP_OPTION_DOMAIN_NAME :: u8 where "DHCP_OPTION_DOMAIN_NAME = 15"
definition DHCP_OPTION_BROADCAST_ADDR :: u8 where "DHCP_OPTION_BROADCAST_ADDR = 28"
definition DHCP_OPTION_REQUESTED_IP :: u8 where "DHCP_OPTION_REQUESTED_IP = 50"
definition DHCP_OPTION_LEASE_TIME :: u8 where "DHCP_OPTION_LEASE_TIME = 51"
definition DHCP_OPTION_MSG_TYPE :: u8 where "DHCP_OPTION_MSG_TYPE = 53"
definition DHCP_OPTION_SERVER_ID :: u8 where "DHCP_OPTION_SERVER_ID = 54"
definition DHCP_OPTION_PARAM_REQUEST :: u8 where "DHCP_OPTION_PARAM_REQUEST = 55"
definition DHCP_OPTION_RENEWAL_TIME :: u8 where "DHCP_OPTION_RENEWAL_TIME = 58"
definition DHCP_OPTION_REBINDING_TIME :: u8 where "DHCP_OPTION_REBINDING_TIME = 59"
definition DHCP_OPTION_CLIENT_ID :: u8 where "DHCP_OPTION_CLIENT_ID = 61"
definition DHCP_OPTION_END :: u8 where "DHCP_OPTION_END = 255"
definition DHCP_MAGIC_COOKIE :: u32 where "DHCP_MAGIC_COOKIE = 0x63825363"
definition DHCP_CLIENT_PORT :: u16 where "DHCP_CLIENT_PORT = 68"
definition DHCP_SERVER_PORT :: u16 where "DHCP_SERVER_PORT = 67"

lemmas dhcp_options = DHCP_OPTION_PAD_def DHCP_OPTION_SUBNET_MASK_def DHCP_OPTION_ROUTER_def
  DHCP_OPTION_DNS_SERVER_def DHCP_OPTION_DOMAIN_NAME_def DHCP_OPTION_BROADCAST_ADDR_def
  DHCP_OPTION_REQUESTED_IP_def DHCP_OPTION_LEASE_TIME_def DHCP_OPTION_MSG_TYPE_def
  DHCP_OPTION_SERVER_ID_def DHCP_OPTION_PARAM_REQUEST_def DHCP_OPTION_RENEWAL_TIME_def
  DHCP_OPTION_REBINDING_TIME_def DHCP_OPTION_CLIENT_ID_def DHCP_OPTION_END_def

lemmas dhcp_types = DHCP_DISCOVER_def DHCP_OFFER_def DHCP_REQUEST_def DHCP_ACK_def DHCP_NAK_def
  DHCP_RELEASE_def

datatype dhcp_state_t =
  DHCP_STATE_INIT | DHCP_STATE_SELECTING | DHCP_STATE_REQUESTING | DHCP_STATE_BOUND |
  DHCP_STATE_RENEWING | DHCP_STATE_REBINDING | DHCP_STATE_INIT_REBOOT

record dhcp_client_t =
  dhcp_iface :: "nat option"
  dhcp_state :: dhcp_state_t
  transaction_id :: u32
  server_ip :: u32
  offered_ip :: u32
  dhcp_subnet_mask :: u32
  dhcp_gateway :: u32
  dns_server :: u32
  lease_time :: u32
  renewal_time :: u32
  rebinding_time :: u32
  lease_start_time :: u32
  dhcp_active :: bool

record dhcp_net = udp_net +
  dhcp_clients :: "dhcp_client_t list"
  dhcp_client_count :: nat
  dhcp_xid_counter :: u32

abbreviation client :: "'z dhcp_net_scheme \<Rightarrow> nat \<Rightarrow> dhcp_client_t" where
  "client s c \<equiv> dhcp_clients s ! c"

abbreviation upd_client ::
  "nat \<Rightarrow> (dhcp_client_t \<Rightarrow> dhcp_client_t) \<Rightarrow> 'z dhcp_net_scheme \<Rightarrow> 'z dhcp_net_scheme" where
  "upd_client c f s \<equiv> s\<lparr>dhcp_clients := (dhcp_clients s)[c := f (dhcp_clients s ! c)]\<rparr>"

section \<open>Clients\<close>

definition dhcp_get_time :: "'z netdev_scheme \<Rightarrow> u32" where
  "dhcp_get_time s = ucast (timer_ticks s div 1000)"

definition dhcp_generate_xid :: "'z dhcp_net_scheme \<Rightarrow> u32 \<times> 'z dhcp_net_scheme" where
  "dhcp_generate_xid s = (dhcp_xid_counter s, s\<lparr>dhcp_xid_counter := dhcp_xid_counter s + 1\<rparr>)"

definition dhcp_get_client :: "nat \<Rightarrow> 'z dhcp_net_scheme \<Rightarrow> nat option" where
  "dhcp_get_client i s =
     first_index (\<lambda>c. dhcp_iface (client s c) = Some i) (dhcp_client_count s)"

definition dhcp_client_init :: "nat \<Rightarrow> 'z dhcp_net_scheme \<Rightarrow> int \<times> 'z dhcp_net_scheme" where
  "dhcp_client_init i s =
     (if MAX_NETWORK_INTERFACES \<le> dhcp_client_count s then (- 1, s)
      else let c = dhcp_client_count s;
               s = s\<lparr>dhcp_client_count := c + 1\<rparr>
           in case dhcp_generate_xid s of
                (xid, s) \<Rightarrow>
                  (0, upd_client c (\<lambda>_. \<lparr>dhcp_iface = Some i, dhcp_state = DHCP_STATE_INIT,
                        transaction_id = xid, server_ip = 0, offered_ip = 0, dhcp_subnet_mask = 0,
                        dhcp_gateway = 0, dns_server = 0, lease_time = 0, renewal_time = 0,
                        rebinding_time = 0, lease_start_time = 0, dhcp_active = False\<rparr>) s))"

section \<open>Options\<close>

text \<open>Overwriting part of an array.\<close>

definition write_at :: "nat \<Rightarrow> u8 list \<Rightarrow> u8 list \<Rightarrow> u8 list" where
  "write_at off bytes arr = take off arr @ bytes @ drop (off + length bytes) arr"

text \<open>The array of 312 option bytes and the offset are passed and returned together.\<close>

definition dhcp_add_option ::
  "u8 \<Rightarrow> u8 \<Rightarrow> u8 list option \<Rightarrow> u8 list \<times> nat \<Rightarrow> int \<times> u8 list \<times> nat" where
  "dhcp_add_option typ len data os =
     (case os of
        (options, offset) \<Rightarrow>
          if 312 \<le> offset + 2 + unat len then (- 1, options, offset)
          else let options = write_at offset [typ, len] options;
                   offset = offset + 2
               in case data of
                    Some bytes \<Rightarrow>
                      if 0 < len
                      then (0, write_at offset (take (unat len) bytes) options, offset + unat len)
                      else (0, options, offset)
                  | None \<Rightarrow> (0, options, offset))"

abbreviation add_opt :: "u8 \<Rightarrow> u8 \<Rightarrow> u8 list option \<Rightarrow> u8 list \<times> nat \<Rightarrow> u8 list \<times> nat" where
  "add_opt typ len data os \<equiv> snd (dhcp_add_option typ len data os)"

text \<open>\<^verbatim>\<open>(options[i] << 24) | (options[i+1] << 16) | (options[i+2] << 8) | options[i+3]\<close>\<close>

definition be32 :: "u8 list \<Rightarrow> nat \<Rightarrow> u32" where
  "be32 options i = push_bit 24 (ucast (options ! i)) OR push_bit 16 (ucast (options ! (i + 1))) OR
     push_bit 8 (ucast (options ! (i + 2))) OR ucast (options ! (i + 3))"

text \<open>The switch of \<^verbatim>\<open>dhcp_parse_options\<close> for one option whose data start at \<open>i\<close>.\<close>

definition dhcp_parse_option ::
  "u8 list \<Rightarrow> nat \<Rightarrow> u8 \<Rightarrow> nat \<Rightarrow> dhcp_client_t \<times> u8 \<Rightarrow> dhcp_client_t \<times> u8" where
  "dhcp_parse_option options i option_type option_len cm =
     (case cm of
        (c, msg_type) \<Rightarrow>
          if option_type = DHCP_OPTION_MSG_TYPE then
            (c, if option_len = 1 then options ! i else msg_type)
          else if option_type = DHCP_OPTION_SUBNET_MASK then
            (if option_len = 4 then c\<lparr>dhcp_subnet_mask := be32 options i\<rparr> else c, msg_type)
          else if option_type = DHCP_OPTION_ROUTER then
            (if 4 \<le> option_len then c\<lparr>dhcp_gateway := be32 options i\<rparr> else c, msg_type)
          else if option_type = DHCP_OPTION_DNS_SERVER then
            (if 4 \<le> option_len then c\<lparr>dns_server := be32 options i\<rparr> else c, msg_type)
          else if option_type = DHCP_OPTION_LEASE_TIME then
            (if option_len = 4 then c\<lparr>lease_time := be32 options i\<rparr> else c, msg_type)
          else if option_type = DHCP_OPTION_SERVER_ID then
            (if option_len = 4 then c\<lparr>server_ip := be32 options i\<rparr> else c, msg_type)
          else if option_type = DHCP_OPTION_RENEWAL_TIME then
            (if option_len = 4 then c\<lparr>renewal_time := be32 options i\<rparr> else c, msg_type)
          else if option_type = DHCP_OPTION_REBINDING_TIME then
            (if option_len = 4 then c\<lparr>rebinding_time := be32 options i\<rparr> else c, msg_type)
          else (c, msg_type))"

function parse_from ::
  "u8 list \<Rightarrow> nat \<Rightarrow> nat \<Rightarrow> dhcp_client_t \<times> u8 \<Rightarrow> dhcp_client_t \<times> u8" where
  "parse_from options len i cm =
     (if i < len then
        let option_type = options ! i; i = i + 1
        in if option_type = DHCP_OPTION_PAD then parse_from options len i cm
           else if option_type = DHCP_OPTION_END then cm
           else if len \<le> i then cm
           else let option_len = unat (options ! i); i = i + 1
                in if len < i + option_len then cm
                   else parse_from options len (i + option_len)
                          (dhcp_parse_option options i option_type option_len cm)
      else cm)"
  by pat_completeness auto

termination
  by (relation "measure (\<lambda>(options, len, i, cm). len - i)") auto

declare parse_from.simps [simp del]

definition dhcp_parse_options :: "u8 list \<Rightarrow> nat \<Rightarrow> dhcp_client_t \<Rightarrow> dhcp_client_t \<times> u8" where
  "dhcp_parse_options options len c = parse_from options len 0 (c, 0)"

section \<open>Messages\<close>

text \<open>The 240 bytes of \<^verbatim>\<open>dhcp_packet_t\<close> before the options.\<close>

definition dhcp_header :: "u32 \<Rightarrow> u16 \<Rightarrow> u32 \<Rightarrow> u8 list \<Rightarrow> u8 list" where
  "dhcp_header xid flags ciaddr mac =
     [1, 1, 6, 0] @ le32 (bswap32 xid) @ le16 0 @ le16 (bswap16 flags) @ le32 (bswap32 ciaddr) @
     le32 0 @ le32 0 @ le32 0 @ (take 6 mac @ replicate 10 0) @ replicate 64 0 @ replicate 128 0 @
     le32 (bswap32 DHCP_MAGIC_COOKIE)"

text \<open>\<^verbatim>\<open>sizeof(dhcp_packet_t) - sizeof(packet.options) + opt_offset + 1\<close> bytes are sent.\<close>

definition dhcp_message :: "u8 list \<Rightarrow> u8 list \<times> nat \<Rightarrow> u8 list" where
  "dhcp_message header os =
     (case os of (options, opt_offset) \<Rightarrow> take (552 - 312 + opt_offset + 1) (header @ options))"

abbreviation no_options :: "u8 list \<times> nat" where "no_options \<equiv> (replicate 312 0, 0)"

definition discover_options :: "u8 list \<Rightarrow> u8 list \<times> nat" where
  "discover_options mac =
     add_opt DHCP_OPTION_END 0 None
      (add_opt DHCP_OPTION_CLIENT_ID 7 (Some (1 # take 6 mac))
      (add_opt DHCP_OPTION_PARAM_REQUEST 5
        (Some [DHCP_OPTION_SUBNET_MASK, DHCP_OPTION_ROUTER, DHCP_OPTION_DNS_SERVER,
               DHCP_OPTION_DOMAIN_NAME, DHCP_OPTION_BROADCAST_ADDR])
      (add_opt DHCP_OPTION_MSG_TYPE 1 (Some [DHCP_DISCOVER]) no_options)))"

definition dhcp_client_discover :: "nat \<Rightarrow> 'z dhcp_net_scheme \<Rightarrow> int \<times> 'z dhcp_net_scheme" where
  "dhcp_client_discover c s =
     (case dhcp_iface (client s c) of
        None \<Rightarrow> (- 1, s)
      | Some i \<Rightarrow>
          let mac = mac_address (iface s i);
              packet = dhcp_message (dhcp_header (transaction_id (client s c)) 0x8000 0 mac)
                         (discover_options mac)
          in case udp_send_packet i 0xFFFFFFFF 68 67 packet s of
               (result, s) \<Rightarrow>
                 if result < 0 then (- 1, s)
                 else (0, upd_client c (\<lambda>k. k\<lparr>dhcp_state := DHCP_STATE_SELECTING\<rparr>) s))"

definition request_options :: "u32 \<Rightarrow> u32 \<Rightarrow> u8 list \<Rightarrow> u8 list \<times> nat" where
  "request_options offered server mac =
     add_opt DHCP_OPTION_END 0 None
      (add_opt DHCP_OPTION_CLIENT_ID 7 (Some (1 # take 6 mac))
      (add_opt DHCP_OPTION_SERVER_ID 4 (Some (le32 (bswap32 server)))
      (add_opt DHCP_OPTION_REQUESTED_IP 4 (Some (le32 (bswap32 offered)))
      (add_opt DHCP_OPTION_MSG_TYPE 1 (Some [DHCP_REQUEST]) no_options))))"

definition dhcp_client_request :: "nat \<Rightarrow> 'z dhcp_net_scheme \<Rightarrow> int \<times> 'z dhcp_net_scheme" where
  "dhcp_client_request c s =
     (case dhcp_iface (client s c) of
        None \<Rightarrow> (- 1, s)
      | Some i \<Rightarrow>
          if offered_ip (client s c) = 0 then (- 1, s)
          else let mac = mac_address (iface s i);
                   packet = dhcp_message (dhcp_header (transaction_id (client s c)) 0x8000 0 mac)
                     (request_options (offered_ip (client s c)) (server_ip (client s c)) mac)
               in case udp_send_packet i 0xFFFFFFFF 68 67 packet s of
                    (result, s) \<Rightarrow>
                      if result < 0 then (- 1, s)
                      else (0, upd_client c (\<lambda>k. k\<lparr>dhcp_state := DHCP_STATE_REQUESTING\<rparr>) s))"

definition release_options :: "u32 \<Rightarrow> u8 list \<times> nat" where
  "release_options server =
     add_opt DHCP_OPTION_END 0 None
      (add_opt DHCP_OPTION_SERVER_ID 4 (Some (le32 (bswap32 server)))
      (add_opt DHCP_OPTION_MSG_TYPE 1 (Some [DHCP_RELEASE]) no_options))"

text \<open>An active client has an interface; the code dereferences it without a check.\<close>

definition dhcp_client_release :: "nat \<Rightarrow> 'z dhcp_net_scheme \<Rightarrow> int \<times> 'z dhcp_net_scheme" where
  "dhcp_client_release c s =
     (if \<not> dhcp_active (client s c) then (- 1, s)
      else let i = the (dhcp_iface (client s c));
               packet = dhcp_message
                 (dhcp_header (transaction_id (client s c)) 0 (ip_address (iface s i))
                   (mac_address (iface s i)))
                 (release_options (server_ip (client s c)));
               s = snd (udp_send_packet i (server_ip (client s c)) 68 67 packet s);
               s = upd_iface i (\<lambda>f. f\<lparr>ip_address := 0, subnet_mask := 0, gateway := 0\<rparr>) s
           in (0, upd_client c (\<lambda>k. k\<lparr>dhcp_state := DHCP_STATE_INIT, dhcp_active := False\<rparr>) s))"

section \<open>State machine\<close>

definition dhcp_bind_lease :: "u32 \<Rightarrow> dhcp_client_t \<Rightarrow> dhcp_client_t" where
  "dhcp_bind_lease now k =
     (let k = k\<lparr>dhcp_state := DHCP_STATE_BOUND, lease_start_time := now, dhcp_active := True\<rparr>;
          k = (if renewal_time k = 0 then k\<lparr>renewal_time := lease_time k div 2\<rparr> else k)
      in if rebinding_time k = 0 then k\<lparr>rebinding_time := (lease_time k * 7) div 8\<rparr> else k)"

definition dhcp_client_process_packet ::
  "nat \<Rightarrow> u8 list \<Rightarrow> nat \<Rightarrow> 'z dhcp_net_scheme \<Rightarrow> 'z dhcp_net_scheme" where
  "dhcp_client_process_packet c packet packet_len s =
     (if packet_len < 240 then s
      else if bswap32 (rd32 packet 236) \<noteq> 0x63825363 then s
      else if bswap32 (rd32 packet 4) \<noteq> transaction_id (client s c) then s
      else case dhcp_parse_options (take 312 (drop 240 packet)) 312 (client s c) of
             (k, msg_type) \<Rightarrow>
               let s = upd_client c (\<lambda>_. k) s;
                   offered = bswap32 (rd32 packet 16)
               in if dhcp_state k = DHCP_STATE_SELECTING then
                    if msg_type = DHCP_OFFER
                    then snd (dhcp_client_request c (upd_client c (\<lambda>k. k\<lparr>offered_ip := offered\<rparr>) s))
                    else s
                  else if dhcp_state k = DHCP_STATE_REQUESTING then
                    if msg_type = DHCP_ACK
                    then upd_client c (dhcp_bind_lease (dhcp_get_time s))
                          (upd_iface (the (dhcp_iface k))
                            (\<lambda>f. f\<lparr>ip_address := offered_ip k, subnet_mask := dhcp_subnet_mask k,
                                   gateway := dhcp_gateway k\<rparr>) s)
                    else if msg_type = DHCP_NAK
                    then upd_client c (\<lambda>k. k\<lparr>dhcp_state := DHCP_STATE_INIT, offered_ip := 0,
                                             server_ip := 0\<rparr>) s
                    else s
                  else s)"

definition dhcp_client_start :: "nat \<Rightarrow> 'z dhcp_net_scheme \<Rightarrow> int \<times> 'z dhcp_net_scheme" where
  "dhcp_client_start c s =
     (let s = upd_client c (\<lambda>k. k\<lparr>dhcp_state := DHCP_STATE_INIT\<rparr>) s
      in case dhcp_generate_xid s of
           (xid, s) \<Rightarrow> dhcp_client_discover c (upd_client c (\<lambda>k. k\<lparr>transaction_id := xid\<rparr>) s))"

definition dhcp_client_update :: "nat \<Rightarrow> 'z dhcp_net_scheme \<Rightarrow> 'z dhcp_net_scheme" where
  "dhcp_client_update c s =
     (if \<not> dhcp_active (client s c) then s
      else let elapsed = dhcp_get_time s - lease_start_time (client s c)
           in case dhcp_state (client s c) of
                DHCP_STATE_BOUND \<Rightarrow>
                  if renewal_time (client s c) \<le> elapsed
                  then snd (dhcp_client_request c
                         (upd_client c (\<lambda>k. k\<lparr>dhcp_state := DHCP_STATE_RENEWING\<rparr>) s))
                  else s
              | DHCP_STATE_RENEWING \<Rightarrow>
                  if rebinding_time (client s c) \<le> elapsed
                  then snd (dhcp_client_request c
                         (upd_client c (\<lambda>k. k\<lparr>dhcp_state := DHCP_STATE_REBINDING\<rparr>) s))
                  else s
              | DHCP_STATE_REBINDING \<Rightarrow>
                  if lease_time (client s c) \<le> elapsed
                  then let i = the (dhcp_iface (client s c));
                           s = upd_client c (\<lambda>k. k\<lparr>dhcp_state := DHCP_STATE_INIT, dhcp_active := False\<rparr>) s;
                           s = upd_iface i (\<lambda>f. f\<lparr>ip_address := 0\<rparr>) s
                       in snd (dhcp_client_start c s)
                  else s
              | _ \<Rightarrow> s)"

end
