(* ===== verification/Tcp.thy ===== *)
theory Tcp
  imports Dhcp
begin

text \<open>
  TCP (\<^verbatim>\<open>network/tcp.c\<close>): the connection table, segments and the connection state machine. A
  connection is referred to by its index in the static array; callbacks are opaque identifiers whose
  invocations are recorded in \<open>tcp_events\<close>.
\<close>

section \<open>State\<close>

definition MAX_CONNECTIONS :: nat where "MAX_CONNECTIONS = 32"
definition TCP_HEADER_LEN :: nat where "TCP_HEADER_LEN = 20"
definition TCP_MAX_PAYLOAD :: nat where "TCP_MAX_PAYLOAD = IP_PACKET_SIZE - IP_HEADER_LEN - TCP_HEADER_LEN"
definition TCP_WINDOW_SIZE :: u16 where "TCP_WINDOW_SIZE = 65535"
definition TCP_FLAG_FIN :: u8 where "TCP_FLAG_FIN = 0x01"
definition TCP_FLAG_SYN :: u8 where "TCP_FLAG_SYN = 0x02"
definition TCP_FLAG_RST :: u8 where "TCP_FLAG_RST = 0x04"
definition TCP_FLAG_PSH :: u8 where "TCP_FLAG_PSH = 0x08"
definition TCP_FLAG_ACK :: u8 where "TCP_FLAG_ACK = 0x10"

lemmas tcp_flags = TCP_FLAG_FIN_def TCP_FLAG_SYN_def TCP_FLAG_RST_def TCP_FLAG_PSH_def TCP_FLAG_ACK_def

datatype tcp_state_t =
  TCP_CLOSED | TCP_LISTEN | TCP_SYN_SENT | TCP_SYN_RECEIVED | TCP_ESTABLISHED | TCP_FIN_WAIT_1 |
  TCP_FIN_WAIT_2 | TCP_CLOSE_WAIT | TCP_CLOSING | TCP_LAST_ACK | TCP_TIME_WAIT

record tcp_connection_t =
  c_local_ip :: u32
  c_local_port :: u16
  c_remote_ip :: u32
  c_remote_port :: u16
  c_state :: tcp_state_t
  seq_num :: u32
  ack_num :: u32
  window_size :: u16
  c_active :: bool
  on_connect :: "nat option"
  on_data :: "nat option"
  on_close :: "nat option"

text \<open>An invocation: the callback and the connection; for data the bytes at the pointer up to the end
  of the frame buffer, and the length passed.\<close>

datatype tcp_event =
  Connected nat nat
| Data nat nat "u8 list" nat
| Closed nat nat

record tcp_net = dhcp_net +
  connections :: "tcp_connection_t list"
  connection_count :: nat
  tcp_sequence_number :: u32
  tcp_events :: "tcp_event list"

abbreviation conn_at :: "'z tcp_net_scheme \<Rightarrow> nat \<Rightarrow> tcp_connection_t" where
  "conn_at s c \<equiv> connections s ! c"

abbreviation upd_conn ::
  "nat \<Rightarrow> (tcp_connection_t \<Rightarrow> tcp_connection_t) \<Rightarrow> 'z tcp_net_scheme \<Rightarrow> 'z tcp_net_scheme" where
  "upd_conn c f s \<equiv> s\<lparr>connections := (connections s)[c := f (connections s ! c)]\<rparr>"

definition fresh_connection :: "u32 \<Rightarrow> bool \<Rightarrow> tcp_connection_t" where
  "fresh_connection seq act = \<lparr>c_local_ip = 0, c_local_port = 0, c_remote_ip = 0, c_remote_port = 0,
     c_state = TCP_CLOSED, seq_num = seq, ack_num = 0, window_size = TCP_WINDOW_SIZE, c_active = act,
     on_connect = None, on_data = None, on_close = None\<rparr>"

section \<open>Segments\<close>

definition tcp_init :: "'z tcp_net_scheme \<Rightarrow> int \<times> 'z tcp_net_scheme" where
  "tcp_init s =
     (NET_SUCCESS,
      s\<lparr>connections := replicate MAX_CONNECTIONS (fresh_connection 0 False), connection_count := 0\<rparr>)"

definition tcp_checksum :: "u8 list \<Rightarrow> u32 \<Rightarrow> u32 \<Rightarrow> u16" where
  "tcp_checksum bytes src_ip dest_ip =
     ones_complement (add_bytes bytes
       (pseudo_sum src_ip dest_ip (ucast IP_PROTOCOL_TCP) (length bytes)))"

definition tcp_header :: "u16 \<Rightarrow> u16 \<Rightarrow> u32 \<Rightarrow> u32 \<Rightarrow> u8 \<Rightarrow> u16 \<Rightarrow> u8 list" where
  "tcp_header src_port dest_port seq ack flags checksum =
     le16 (bswap16 src_port) @ le16 (bswap16 dest_port) @ le32 (bswap32 seq) @ le32 (bswap32 ack) @
     [push_bit 4 5, flags] @ le16 (bswap16 TCP_WINDOW_SIZE) @ le16 checksum @ le16 0"

definition tcp_segment ::
  "u32 \<Rightarrow> u32 \<Rightarrow> u16 \<Rightarrow> u16 \<Rightarrow> u32 \<Rightarrow> u32 \<Rightarrow> u8 \<Rightarrow> u8 list \<Rightarrow> u8 list" where
  "tcp_segment src_ip dest_ip src_port dest_port seq ack flags payload =
     (let packet = tcp_header src_port dest_port seq ack flags 0 @ payload
      in wr16 packet 16 (tcp_checksum packet src_ip dest_ip))"

definition tcp_send_packet ::
  "nat \<Rightarrow> u32 \<Rightarrow> u16 \<Rightarrow> u16 \<Rightarrow> u32 \<Rightarrow> u32 \<Rightarrow> u8 \<Rightarrow> u8 list \<Rightarrow> 'z ip_net_scheme \<Rightarrow>
     int \<times> 'z ip_net_scheme" where
  "tcp_send_packet i dest_ip src_port dest_port seq ack flags payload s =
     (if TCP_MAX_PAYLOAD < length payload then (NET_ERROR, s)
      else ip_send_packet i dest_ip IP_PROTOCOL_TCP
             (tcp_segment (ip_address (iface s i)) dest_ip src_port dest_port seq ack flags payload) s)"

section \<open>Receiving\<close>

definition log_event :: "tcp_event \<Rightarrow> 'z tcp_net_scheme \<Rightarrow> 'z tcp_net_scheme" where
  "log_event e s = s\<lparr>tcp_events := tcp_events s @ [e]\<rparr>"

definition call_back :: "nat option \<Rightarrow> (nat \<Rightarrow> tcp_event) \<Rightarrow> 'z tcp_net_scheme \<Rightarrow> 'z tcp_net_scheme" where
  "call_back cb e s = (case cb of None \<Rightarrow> s | Some f \<Rightarrow> log_event (e f) s)"

definition find_conn ::
  "(tcp_connection_t \<Rightarrow> bool) \<Rightarrow> 'z tcp_net_scheme \<Rightarrow> nat option" where
  "find_conn P s = first_index (\<lambda>c. c_active (conn_at s c) \<and> P (conn_at s c)) MAX_CONNECTIONS"

text \<open>The two searches: an exact match, then for a bare SYN a listener, which takes the peer's
  address.\<close>

definition tcp_demux ::
  "u32 \<Rightarrow> u32 \<Rightarrow> u16 \<Rightarrow> u16 \<Rightarrow> u8 \<Rightarrow> 'z tcp_net_scheme \<Rightarrow> nat option \<times> 'z tcp_net_scheme" where
  "tcp_demux src_ip dest_ip src_port dest_port flags s =
     (case find_conn (\<lambda>k. c_local_ip k = dest_ip \<and> c_local_port k = dest_port \<and>
              c_remote_ip k = src_ip \<and> c_remote_port k = src_port) s of
        Some c \<Rightarrow> (Some c, s)
      | None \<Rightarrow>
          if flags AND TCP_FLAG_SYN \<noteq> 0 \<and> flags AND TCP_FLAG_ACK = 0 then
            (case find_conn (\<lambda>k. c_local_ip k = dest_ip \<and> c_local_port k = dest_port \<and>
                    c_state k = TCP_LISTEN) s of
               None \<Rightarrow> (None, s)
             | Some c \<Rightarrow>
                 (Some c, upd_conn c (\<lambda>k. k\<lparr>c_remote_ip := src_ip, c_remote_port := src_port\<rparr>) s))
          else (None, s))"

text \<open>The branch for the state \<^verbatim>\<open>TCP_ESTABLISHED\<close>: data first, then a close by the peer.\<close>

definition tcp_established ::
  "nat \<Rightarrow> u32 \<Rightarrow> u16 \<Rightarrow> u16 \<Rightarrow> u32 \<Rightarrow> u8 \<Rightarrow> u8 list \<Rightarrow> nat \<Rightarrow> 'z tcp_net_scheme \<Rightarrow> 'z tcp_net_scheme" where
  "tcp_established i src_ip src_port dest_port seq flags payload c s =
     (let s = (if flags AND TCP_FLAG_PSH \<noteq> 0 then
                 let data_len = TCP_HEADER_LEN;
                     s = call_back (on_data (conn_at s c)) (\<lambda>f. Data f c payload data_len) s;
                     s = upd_conn c (\<lambda>k. k\<lparr>ack_num := seq + of_nat data_len\<rparr>) s
                 in snd (tcp_send_packet i src_ip dest_port src_port (seq_num (conn_at s c))
                          (ack_num (conn_at s c)) TCP_FLAG_ACK [] s)
               else s)
      in if flags AND TCP_FLAG_FIN \<noteq> 0 then
           let s = upd_conn c (\<lambda>k. k\<lparr>ack_num := seq + 1\<rparr>) s;
               s = snd (tcp_send_packet i src_ip dest_port src_port (seq_num (conn_at s c))
                     (ack_num (conn_at s c)) TCP_FLAG_ACK [] s);
               s = upd_conn c (\<lambda>k. k\<lparr>c_state := TCP_CLOSE_WAIT\<rparr>) s
           in call_back (on_close (conn_at s c)) (\<lambda>f. Closed f c) s
         else s)"

definition tcp_step ::
  "nat \<Rightarrow> u32 \<Rightarrow> u16 \<Rightarrow> u16 \<Rightarrow> u32 \<Rightarrow> u8 \<Rightarrow> u8 list \<Rightarrow> nat \<Rightarrow> 'z tcp_net_scheme \<Rightarrow> 'z tcp_net_scheme" where
  "tcp_step i src_ip src_port dest_port seq flags payload c s =
     (case c_state (conn_at s c) of
        TCP_LISTEN \<Rightarrow>
          if flags AND TCP_FLAG_SYN \<noteq> 0 then
            let s = upd_conn c (\<lambda>k. k\<lparr>ack_num := seq + 1, seq_num := tcp_sequence_number s\<rparr>) s;
                s = s\<lparr>tcp_sequence_number := tcp_sequence_number s + 1\<rparr>;
                s = snd (tcp_send_packet i src_ip dest_port src_port (seq_num (conn_at s c))
                      (ack_num (conn_at s c)) (TCP_FLAG_SYN OR TCP_FLAG_ACK) [] s)
            in upd_conn c (\<lambda>k. k\<lparr>c_state := TCP_SYN_RECEIVED\<rparr>) s
          else s
      | TCP_SYN_SENT \<Rightarrow>
          if flags AND (TCP_FLAG_SYN OR TCP_FLAG_ACK) = TCP_FLAG_SYN OR TCP_FLAG_ACK then
            let s = upd_conn c (\<lambda>k. k\<lparr>ack_num := seq + 1\<rparr>) s;
                s = snd (tcp_send_packet i src_ip dest_port src_port (seq_num (conn_at s c) + 1)
                      (ack_num (conn_at s c)) TCP_FLAG_ACK [] s);
                s = upd_conn c (\<lambda>k. k\<lparr>c_state := TCP_ESTABLISHED\<rparr>) s
            in call_back (on_connect (conn_at s c)) (\<lambda>f. Connected f c) s
          else s
      | TCP_SYN_RECEIVED \<Rightarrow>
          if flags AND TCP_FLAG_ACK \<noteq> 0 then
            let s = upd_conn c (\<lambda>k. k\<lparr>c_state := TCP_ESTABLISHED\<rparr>) s
            in call_back (on_connect (conn_at s c)) (\<lambda>f. Connected f c) s
          else s
      | TCP_ESTABLISHED \<Rightarrow> tcp_established i src_ip src_port dest_port seq flags payload c s
      | _ \<Rightarrow> s)"

definition tcp_process_packet ::
  "nat \<Rightarrow> u32 \<Rightarrow> u32 \<Rightarrow> u8 list \<Rightarrow> 'z tcp_net_scheme \<Rightarrow> 'z tcp_net_scheme" where
  "tcp_process_packet i src_ip dest_ip packet s =
     (let src_port = bswap16 (rd16 packet 0);
          dest_port = bswap16 (rd16 packet 2);
          seq = bswap32 (rd32 packet 4);
          flags = packet ! 13
      in case tcp_demux src_ip dest_ip src_port dest_port flags s of
           (None, s) \<Rightarrow>
             snd (tcp_send_packet i src_ip dest_port src_port 0 (seq + 1) (TCP_FLAG_RST OR TCP_FLAG_ACK) [] s)
         | (Some c, s) \<Rightarrow> tcp_step i src_ip src_port dest_port seq flags (drop 20 packet) c s)"

section \<open>Calls\<close>

definition tcp_create_connection :: "'z tcp_net_scheme \<Rightarrow> nat option \<times> 'z tcp_net_scheme" where
  "tcp_create_connection s =
     (if MAX_CONNECTIONS \<le> connection_count s then (None, s)
      else let c = connection_count s
           in (Some c,
               s\<lparr>connection_count := c + 1,
                 connections := (connections s)[c := fresh_connection (tcp_sequence_number s) True],
                 tcp_sequence_number := tcp_sequence_number s + 1\<rparr>))"

definition tcp_connect :: "nat \<Rightarrow> u32 \<Rightarrow> u16 \<Rightarrow> 'z tcp_net_scheme \<Rightarrow> int \<times> 'z tcp_net_scheme" where
  "tcp_connect c rip rport s =
     (if rip = 0 \<or> rport = 0 then (NET_INVALID_PARAM, s)
      else case network_find_route rip s of
             None \<Rightarrow> (NET_ERROR, s)
           | Some i \<Rightarrow>
               let lport = 32768 + ucast (tcp_sequence_number s mod 32768);
                   s = upd_conn c (\<lambda>k. k\<lparr>c_local_ip := ip_address (iface s i), c_local_port := lport,
                         c_remote_ip := rip, c_remote_port := rport, c_state := TCP_SYN_SENT\<rparr>) s
               in tcp_send_packet i rip lport rport (seq_num (conn_at s c)) 0 TCP_FLAG_SYN [] s)"

definition tcp_listen :: "u16 \<Rightarrow> 'z tcp_net_scheme \<Rightarrow> int \<times> 'z tcp_net_scheme" where
  "tcp_listen port s =
     (case tcp_create_connection s of
        (None, s) \<Rightarrow> (NET_ERROR, s)
      | (Some c, s) \<Rightarrow>
          (NET_SUCCESS, upd_conn c (\<lambda>k. k\<lparr>c_local_port := port, c_state := TCP_LISTEN\<rparr>) s))"

definition tcp_send :: "nat \<Rightarrow> u8 list \<Rightarrow> 'z tcp_net_scheme \<Rightarrow> int \<times> 'z tcp_net_scheme" where
  "tcp_send c bytes s =
     (if length bytes = 0 \<or> c_state (conn_at s c) \<noteq> TCP_ESTABLISHED then (NET_INVALID_PARAM, s)
      else case network_find_route (c_remote_ip (conn_at s c)) s of
             None \<Rightarrow> (NET_ERROR, s)
           | Some i \<Rightarrow>
               (case tcp_send_packet i (c_remote_ip (conn_at s c)) (c_local_port (conn_at s c))
                       (c_remote_port (conn_at s c)) (seq_num (conn_at s c)) (ack_num (conn_at s c))
                       (TCP_FLAG_PSH OR TCP_FLAG_ACK) bytes s of
                  (result, s) \<Rightarrow>
                    (result,
                     if result = NET_SUCCESS
                     then upd_conn c (\<lambda>k. k\<lparr>seq_num := seq_num k + of_nat (length bytes)\<rparr>) s
                     else s)))"

definition tcp_close :: "nat \<Rightarrow> 'z tcp_net_scheme \<Rightarrow> 'z tcp_net_scheme" where
  "tcp_close c s =
     (if c_state (conn_at s c) = TCP_CLOSED then s
      else let s = (case network_find_route (c_remote_ip (conn_at s c)) s of
                      Some i \<Rightarrow>
                        if c_state (conn_at s c) = TCP_ESTABLISHED
                        then upd_conn c (\<lambda>k. k\<lparr>c_state := TCP_FIN_WAIT_1\<rparr>)
                              (snd (tcp_send_packet i (c_remote_ip (conn_at s c))
                                 (c_local_port (conn_at s c)) (c_remote_port (conn_at s c))
                                 (seq_num (conn_at s c)) (ack_num (conn_at s c))
                                 (TCP_FLAG_FIN OR TCP_FLAG_ACK) [] s))
                        else s
                    | None \<Rightarrow> s)
           in upd_conn c (\<lambda>k. k\<lparr>c_active := False, c_state := TCP_CLOSED\<rparr>) s)"

end
