(* ===== verification/Socket.thy ===== *)
theory Socket
  imports Tcp
begin

text \<open>
  The socket calls (\<^verbatim>\<open>network/socket.c\<close>): descriptor allocation and the dispatch to UDP and TCP,
  and the address conversions of the socket interface.
\<close>

section \<open>State\<close>

definition SOCK_STREAM :: int where "SOCK_STREAM = 1"
definition SOCK_DGRAM :: int where "SOCK_DGRAM = 2"
definition AF_INET :: int where "AF_INET = 2"

lemmas sock_consts = SOCK_STREAM_def SOCK_DGRAM_def AF_INET_def

record sockaddr_in_t =
  sin_family :: u16
  sin_port :: u16
  sin_addr :: u32

text \<open>\<open>sk_impl\<close> is the union of the UDP socket and TCP connection pointers.\<close>

record socket_t =
  sk_type :: int
  sk_protocol :: int
  sk_bound :: bool
  sk_connected :: bool
  sk_listening :: bool
  sk_bound_port :: u16
  sk_impl :: "nat option"

record net = tcp_net +
  sockets :: "socket_t list"
  socket_used :: "bool list"

definition zero_socket :: socket_t where
  "zero_socket = \<lparr>sk_type = 0, sk_protocol = 0, sk_bound = False, sk_connected = False,
     sk_listening = False, sk_bound_port = 0, sk_impl = None\<rparr>"

abbreviation upd_sock :: "nat \<Rightarrow> (socket_t \<Rightarrow> socket_t) \<Rightarrow> 'z net_scheme \<Rightarrow> 'z net_scheme" where
  "upd_sock k f s \<equiv> s\<lparr>sockets := (sockets s)[k := f (sockets s ! k)]\<rparr>"

definition htons :: "u16 \<Rightarrow> u16" where "htons w = bswap16 w"
definition ntohs :: "u16 \<Rightarrow> u16" where "ntohs w = bswap16 w"
definition htonl :: "u32 \<Rightarrow> u32" where "htonl w = bswap32 w"
definition ntohl :: "u32 \<Rightarrow> u32" where "ntohl w = bswap32 w"

section \<open>Descriptors\<close>

definition allocate_socket_fd :: "'z net_scheme \<Rightarrow> int \<times> 'z net_scheme" where
  "allocate_socket_fd s =
     (case first_index (\<lambda>k. \<not> socket_used s ! k) MAX_SOCKETS of
        None \<Rightarrow> (- 1, s)
      | Some k \<Rightarrow> (int k, s\<lparr>socket_used := (socket_used s)[k := True]\<rparr>))"

definition free_socket_fd :: "int \<Rightarrow> 'z net_scheme \<Rightarrow> 'z net_scheme" where
  "free_socket_fd fd s =
     (if 0 \<le> fd \<and> fd < int MAX_SOCKETS
      then s\<lparr>socket_used := (socket_used s)[nat fd := False],
             sockets := (sockets s)[nat fd := zero_socket]\<rparr>
      else s)"

definition get_socket :: "int \<Rightarrow> 'z net_scheme \<Rightarrow> nat option" where
  "get_socket fd s =
     (if fd < 0 \<or> int MAX_SOCKETS \<le> fd \<or> \<not> socket_used s ! nat fd then None else Some (nat fd))"

section \<open>Calls\<close>

definition socket_create :: "int \<Rightarrow> int \<Rightarrow> int \<Rightarrow> 'z net_scheme \<Rightarrow> int \<times> 'z net_scheme" where
  "socket_create domain typ protocol s =
     (if domain \<noteq> AF_INET then (- 1, s)
      else case allocate_socket_fd s of
             (fd, s) \<Rightarrow>
               if fd < 0 then (- 1, s)
               else let k = nat fd;
                        s = upd_sock k (\<lambda>x. x\<lparr>sk_type := typ, sk_protocol := protocol,
                              sk_bound := False, sk_connected := False, sk_listening := False\<rparr>) s
                    in if typ = SOCK_DGRAM then
                         (case udp_create_socket s of
                            (u, s) \<Rightarrow>
                              let s = upd_sock k (\<lambda>x. x\<lparr>sk_impl := u\<rparr>) s
                              in if u = None then (- 1, free_socket_fd fd s) else (fd, s))
                       else if typ = SOCK_STREAM then
                         (case tcp_create_connection s of
                            (c, s) \<Rightarrow>
                              let s = upd_sock k (\<lambda>x. x\<lparr>sk_impl := c\<rparr>) s
                              in if c = None then (- 1, free_socket_fd fd s) else (fd, s))
                       else (- 1, free_socket_fd fd s))"

text \<open>
  \<^verbatim>\<open>addrlen < sizeof(sockaddr_in_t)\<close> converts the signed length to \<^verbatim>\<open>size_t\<close> before it is compared;
  \<^verbatim>\<open>socket_sendto\<close> compares as \<^verbatim>\<open>int\<close>. An address pointer is an option.
\<close>

definition addr_too_short :: "int \<Rightarrow> bool" where
  "addr_too_short addrlen \<longleftrightarrow> (word_of_int addrlen :: u64) < 16"

definition socket_bind ::
  "int \<Rightarrow> sockaddr_in_t option \<Rightarrow> int \<Rightarrow> 'z net_scheme \<Rightarrow> int \<times> 'z net_scheme" where
  "socket_bind fd addr addrlen s =
     (case (get_socket fd s, addr) of
        (Some k, Some a) \<Rightarrow>
          if addr_too_short addrlen then (- 1, s)
          else let port = ntohs (sin_port a); x = sockets s ! k
               in if sk_type x = SOCK_DGRAM then
                    (case sk_impl x of
                       None \<Rightarrow> (- 1, s)
                     | Some u \<Rightarrow>
                         (case udp_bind u port s of
                            (r, s) \<Rightarrow>
                              if r = NET_SUCCESS then (0, upd_sock k (\<lambda>x. x\<lparr>sk_bound := True\<rparr>) s)
                              else (- 1, s)))
                  else if sk_type x = SOCK_STREAM then
                    (0, upd_sock k (\<lambda>x. x\<lparr>sk_bound_port := port, sk_bound := True\<rparr>) s)
                  else (- 1, s)
      | _ \<Rightarrow> (- 1, s))"

definition socket_listen :: "int \<Rightarrow> 'z net_scheme \<Rightarrow> int \<times> 'z net_scheme" where
  "socket_listen fd s =
     (case get_socket fd s of
        None \<Rightarrow> (- 1, s)
      | Some k \<Rightarrow>
          if sk_type (sockets s ! k) \<noteq> SOCK_STREAM \<or> \<not> sk_bound (sockets s ! k) then (- 1, s)
          else case tcp_listen (sk_bound_port (sockets s ! k)) s of
                 (r, s) \<Rightarrow>
                   if r = NET_SUCCESS then (0, upd_sock k (\<lambda>x. x\<lparr>sk_listening := True\<rparr>) s)
                   else (- 1, s))"

definition socket_accept :: "int \<Rightarrow> 'z net_scheme \<Rightarrow> int" where
  "socket_accept fd s =
     (case get_socket fd s of
        None \<Rightarrow> - 1
      | Some k \<Rightarrow>
          if sk_type (sockets s ! k) \<noteq> SOCK_STREAM \<or> \<not> sk_listening (sockets s ! k) then - 1 else - 1)"

definition socket_connect ::
  "int \<Rightarrow> sockaddr_in_t option \<Rightarrow> int \<Rightarrow> 'z net_scheme \<Rightarrow> int \<times> 'z net_scheme" where
  "socket_connect fd addr addrlen s =
     (case (get_socket fd s, addr) of
        (Some k, Some a) \<Rightarrow>
          if addr_too_short addrlen then (- 1, s)
          else let ip = ntohl (sin_addr a); port = ntohs (sin_port a); x = sockets s ! k
               in (case sk_impl x of
                    None \<Rightarrow> (- 1, s)
                  | Some m \<Rightarrow>
                      if sk_type x = SOCK_DGRAM then
                        (case udp_connect m ip port s of
                           (r, s) \<Rightarrow>
                             if r = NET_SUCCESS then (0, upd_sock k (\<lambda>x. x\<lparr>sk_connected := True\<rparr>) s)
                             else (- 1, s))
                      else if sk_type x = SOCK_STREAM then
                        (case tcp_connect m ip port s of
                           (r, s) \<Rightarrow>
                             if r = NET_SUCCESS then (0, upd_sock k (\<lambda>x. x\<lparr>sk_connected := True\<rparr>) s)
                             else (- 1, s))
                      else (- 1, s))
      | _ \<Rightarrow> (- 1, s))"

text \<open>A send through a null implementation pointer fails in \<^verbatim>\<open>udp_send\<close> and \<^verbatim>\<open>tcp_send\<close>.\<close>

definition socket_send :: "int \<Rightarrow> u8 list \<Rightarrow> 'z net_scheme \<Rightarrow> int \<times> 'z net_scheme" where
  "socket_send fd buf s =
     (case get_socket fd s of
        None \<Rightarrow> (- 1, s)
      | Some k \<Rightarrow>
          let x = sockets s ! k
          in if length buf = 0 then (- 1, s)
             else if sk_type x = SOCK_DGRAM \<and> sk_connected x then
               (case sk_impl x of None \<Rightarrow> (NET_INVALID_PARAM, s) | Some u \<Rightarrow> udp_send u buf s)
             else if sk_type x = SOCK_STREAM \<and> sk_connected x then
               (case sk_impl x of None \<Rightarrow> (NET_INVALID_PARAM, s) | Some c \<Rightarrow> tcp_send c buf s)
             else (- 1, s))"

definition socket_recv :: "int \<Rightarrow> nat \<Rightarrow> 'z net_scheme \<Rightarrow> int" where
  "socket_recv fd len s =
     (case get_socket fd s of
        None \<Rightarrow> - 1
      | Some k \<Rightarrow>
          if len = 0 then - 1
          else if sk_type (sockets s ! k) = SOCK_DGRAM then - 1
          else if sk_type (sockets s ! k) = SOCK_STREAM \<and> sk_connected (sockets s ! k) \<and>
                  sk_impl (sockets s ! k) \<noteq> None then 0
          else - 1)"

definition socket_sendto ::
  "int \<Rightarrow> u8 list \<Rightarrow> sockaddr_in_t option \<Rightarrow> int \<Rightarrow> 'z net_scheme \<Rightarrow> int \<times> 'z net_scheme" where
  "socket_sendto fd buf dest_addr addrlen s =
     (case (get_socket fd s, dest_addr) of
        (Some k, Some a) \<Rightarrow>
          if length buf = 0 \<or> addrlen < 16 then (- 1, s)
          else if sk_type (sockets s ! k) \<noteq> SOCK_DGRAM then (- 1, s)
          else (case sk_impl (sockets s ! k) of
                  None \<Rightarrow> (NET_INVALID_PARAM, s)
                | Some u \<Rightarrow> udp_sendto u buf (ntohl (sin_addr a)) (ntohs (sin_port a)) s)
      | _ \<Rightarrow> (- 1, s))"

definition socket_recvfrom :: "int \<Rightarrow> nat \<Rightarrow> 'z net_scheme \<Rightarrow> int" where
  "socket_recvfrom fd len s =
     (case get_socket fd s of
        None \<Rightarrow> - 1
      | Some k \<Rightarrow> if len = 0 then - 1 else if sk_type (sockets s ! k) \<noteq> SOCK_DGRAM then - 1 else - 1)"

definition socket_close :: "int \<Rightarrow> 'z net_scheme \<Rightarrow> int \<times> 'z net_scheme" where
  "socket_close fd s =
     (case get_socket fd s of
        None \<Rightarrow> (- 1, s)
      | Some k \<Rightarrow>
          let x = sockets s ! k;
              s = (case sk_impl x of
                     None \<Rightarrow> s
                   | Some m \<Rightarrow>
                       if sk_type x = SOCK_DGRAM then udp_close m s
                       else if sk_type x = SOCK_STREAM then tcp_close m s
                       else s)
          in (0, free_socket_fd fd s))"

section \<open>Address conversion\<close>

definition inet_addr :: "string \<Rightarrow> u32" where
  "inet_addr cp =
     (case parse_octets cp [] 0 of
        None \<Rightarrow> 0xFFFFFFFF
      | Some (octets, current) \<Rightarrow>
          if length octets \<noteq> 3 then 0xFFFFFFFF
          else htonl (combine_octets (octets @ [current])))"

definition inet_ntoa :: "u32 \<Rightarrow> string" where
  "inet_ntoa addr =
     (let host_addr = ntohl addr
      in octet_str (ucast (drop_bit 24 host_addr AND 0xFF)) @ ''.'' @
         octet_str (ucast (drop_bit 16 host_addr AND 0xFF)) @ ''.'' @
         octet_str (ucast (drop_bit 8 host_addr AND 0xFF)) @ ''.'' @
         octet_str (ucast (host_addr AND 0xFF)) @ [NUL])"

end
