(* ===== verification/Net_Input.thy ===== *)
theory Net_Input
  imports Socket
begin

text \<open>
  The receive path, from the devices up: \<^verbatim>\<open>network_process_packets\<close> polls the interfaces,
  \<^verbatim>\<open>ethernet_process_frame\<close> dispatches a frame to ARP or IP, \<^verbatim>\<open>ip_process_packet\<close> dispatches to ICMP,
  UDP or TCP, and \<^verbatim>\<open>udp_process_packet\<close> to the DHCP client or a socket. Also \<^verbatim>\<open>network_init\<close> and
  \<^verbatim>\<open>icmp_ping\<close>, which poll or set up all layers.

  The polling loop can run for ever (a card that keeps delivering, or the loopback queue); the loop
  is a partial function into option, None meaning that it does not return.
\<close>

section \<open>Dispatch\<close>

definition udp_process_packet :: "nat \<Rightarrow> u32 \<Rightarrow> u8 list \<Rightarrow> 'z dhcp_net_scheme \<Rightarrow> 'z dhcp_net_scheme" where
  "udp_process_packet i src_ip packet s =
     (let src_port = bswap16 (rd16 packet 0);
          dest_port = bswap16 (rd16 packet 2);
          length' = unat (bswap16 (rd16 packet 4));
          payload = drop 8 packet
      in if length' < UDP_HEADER_LEN then s
         else let payload_len = length' - UDP_HEADER_LEN
              in if dest_port = 68 \<and> src_port = 67 then
                   (case dhcp_get_client i s of
                      None \<Rightarrow> s
                    | Some c \<Rightarrow> dhcp_client_process_packet c payload payload_len s)
                 else udp_deliver src_ip src_port dest_port payload payload_len s)"

definition ip_accepts :: "network_interface_t \<Rightarrow> u32 \<Rightarrow> bool" where
  "ip_accepts f dest_ip \<longleftrightarrow>
     dest_ip = ip_address f \<or> dest_ip = 0xFFFFFFFF \<or> ip_address f = 0 \<or>
     (subnet_mask f \<noteq> 0 \<and> dest_ip OR subnet_mask f = 0xFFFFFFFF)"

text \<open>The packet is a view into the frame buffer; the result is its changed bytes and the state.\<close>

definition ip_process_packet ::
  "nat \<Rightarrow> u8 list \<Rightarrow> 'z tcp_net_scheme \<Rightarrow> u8 list \<times> 'z tcp_net_scheme" where
  "ip_process_packet i packet s =
     (let version = drop_bit 4 (packet ! 0) AND 0x0F;
          src_ip = bswap32 (rd32 packet 12);
          dest_ip = bswap32 (rd32 packet 16);
          protocol = packet ! 9
      in if version \<noteq> IP_VERSION_4 then (packet, s)
         else if \<not> ip_validate_checksum packet then (packet, s)
         else if \<not> ip_accepts (iface s i) dest_ip then (packet, s)
         else if protocol = IP_PROTOCOL_ICMP then
           (case icmp_process_packet i src_ip (drop 20 packet) s of
              (rest, s) \<Rightarrow> (take 20 packet @ rest, s))
         else if protocol = IP_PROTOCOL_UDP then
           (packet, udp_process_packet i src_ip (drop 20 packet) s)
         else if protocol = IP_PROTOCOL_TCP then
           (packet, tcp_process_packet i src_ip dest_ip (drop 20 packet) s)
         else (packet, snd (icmp_send_dest_unreachable i src_ip ICMP_PROTOCOL_UNREACHABLE
                              (take 28 packet) s)))"

definition ethernet_process_frame ::
  "nat \<Rightarrow> u8 list \<Rightarrow> 'z tcp_net_scheme \<Rightarrow> u8 list \<times> 'z tcp_net_scheme" where
  "ethernet_process_frame i frame s =
     (let for_us = (take ETH_ALEN frame = mac_address (iface s i));
          broadcast = ethernet_is_broadcast (take ETH_ALEN frame);
          ethertype = rd16 frame 12
      in if \<not> for_us \<and> \<not> broadcast then (frame, s)
         else if ethertype = ETH_TYPE_ARP then (frame, arp_process_packet i (drop 14 frame) s)
         else if ethertype = ETH_TYPE_IP then
           (case ip_process_packet i (drop 14 frame) s of
              (packet, s) \<Rightarrow> (take 14 frame @ packet, s))
         else (frame, s))"

section \<open>Polling\<close>

partial_function (option) receive_loop ::
  "nat \<Rightarrow> u8 list \<Rightarrow> 'z tcp_net_scheme \<Rightarrow> (u8 list \<times> 'z tcp_net_scheme) option" where
  "receive_loop i frame s =
     (case ethernet_receive_frame i frame s of
        ((result, frame), s) \<Rightarrow>
          if 0 < result
          then (case ethernet_process_frame i frame s of (frame, s) \<Rightarrow> receive_loop i frame s)
          else Some (frame, s))"

text \<open>The loop over the interface table; handling a frame does not change the table.\<close>

fun process_interfaces ::
  "nat list \<Rightarrow> u8 list \<Rightarrow> 'z tcp_net_scheme \<Rightarrow> (u8 list \<times> 'z tcp_net_scheme) option" where
  "process_interfaces [] frame s = Some (frame, s)"
| "process_interfaces (k # ks) frame s =
     (case interfaces s ! k of
        None \<Rightarrow> process_interfaces ks frame s
      | Some i \<Rightarrow>
          if \<not> active (iface s i) then process_interfaces ks frame s
          else (case receive_loop i frame s of
                  None \<Rightarrow> None
                | Some (frame, s) \<Rightarrow> process_interfaces ks frame s))"

text \<open>\<open>stack\<close> is what the uninitialised frame struct on the stack holds at the call.\<close>

definition network_process_packets ::
  "u8 list \<Rightarrow> 'z tcp_net_scheme \<Rightarrow> 'z tcp_net_scheme option" where
  "network_process_packets stack s =
     map_option snd (process_interfaces [0..<interface_count s] stack s)"

section \<open>Initialisation\<close>

text \<open>\<open>e1000_init\<close>, the PCI search and probe of the card, is a parameter. All other init functions
  succeed in the code; their results are tested as the code does.\<close>

definition network_init ::
  "(e1000_device_t \<Rightarrow> int \<times> e1000_device_t) \<Rightarrow> 'z tcp_net_scheme \<Rightarrow> int \<times> 'z tcp_net_scheme" where
  "network_init e1000_init s =
     (let s = s\<lparr>interfaces := replicate MAX_NETWORK_INTERFACES None, interface_count := 0\<rparr>
      in case arp_init s of (r, s) \<Rightarrow> if r \<noteq> NET_SUCCESS then (NET_ERROR, s) else
         (case ip_init s of (r, s) \<Rightarrow> if r \<noteq> NET_SUCCESS then (NET_ERROR, s) else
         (case udp_init s of (r, s) \<Rightarrow> if r \<noteq> NET_SUCCESS then (NET_ERROR, s) else
         (case tcp_init s of (r, s) \<Rightarrow> if r \<noteq> NET_SUCCESS then (NET_ERROR, s) else
         (case icmp_init s of (r, s) \<Rightarrow> if r \<noteq> NET_SUCCESS then (NET_ERROR, s) else
         (case loopback_init s of (r, s) \<Rightarrow> if r \<noteq> NET_SUCCESS then (NET_ERROR, s) else
         (NET_SUCCESS, snd (ethernet_init e1000_init s))))))))"

section \<open>Ping\<close>

record ping_result_t =
  sent :: int
  received_count :: int
  min_time :: u32
  max_time :: u32
  total_time :: u32

text \<open>
  The two waiting loops. \<open>env\<close> lists what happens outside the code between two polls (timer
  interrupts, frames arriving on the card); None means that the list ends before the loop does or that
  a poll does not return. The rest of the list is returned for the code that follows.
\<close>

fun poll_until ::
  "('z tcp_net_scheme \<Rightarrow> bool) \<Rightarrow> u8 list \<Rightarrow> ('z tcp_net_scheme \<Rightarrow> 'z tcp_net_scheme) list \<Rightarrow>
     'z tcp_net_scheme \<Rightarrow> ('z tcp_net_scheme \<times> ('z tcp_net_scheme \<Rightarrow> 'z tcp_net_scheme) list) option" where
  "poll_until stop stack env s =
     (if stop s then Some (s, env)
      else (case env of
              [] \<Rightarrow> None
            | e # env \<Rightarrow>
                (case network_process_packets stack s of
                   None \<Rightarrow> None
                 | Some s \<Rightarrow> poll_until stop stack env (e s))))"

definition ping_account :: "u32 \<Rightarrow> 'z tcp_net_scheme \<Rightarrow> ping_result_t \<Rightarrow> ping_result_t" where
  "ping_account dest_ip s r =
     (if ping_reply_received s \<and> ping_reply_src_ip s = dest_ip then
        let rtt = ucast (ping_reply_time s - ping_send_time s)
        in r\<lparr>received_count := received_count r + 1, total_time := total_time r + rtt,
             min_time := (if rtt < min_time r then rtt else min_time r),
             max_time := (if max_time r < rtt then rtt else max_time r)\<rparr>
      else r)"

fun ping_loop ::
  "nat \<Rightarrow> u32 \<Rightarrow> u16 \<Rightarrow> nat list \<Rightarrow> nat \<Rightarrow> u8 list \<Rightarrow> ('z tcp_net_scheme \<Rightarrow> 'z tcp_net_scheme) list \<Rightarrow>
     ping_result_t \<Rightarrow> 'z tcp_net_scheme \<Rightarrow> (ping_result_t \<times> 'z tcp_net_scheme) option" where
  "ping_loop i dest_ip identifier [] cnt stack env r s = Some (r, s)"
| "ping_loop i dest_ip identifier (n # ns) cnt stack env r s =
     (let s = s\<lparr>ping_reply_received := False, ping_send_time := timer_ticks s\<rparr>
      in case icmp_send_echo_request i dest_ip identifier (of_nat n) [] s of
           (ret, s) \<Rightarrow>
             if ret \<noteq> NET_SUCCESS then ping_loop i dest_ip identifier ns cnt stack env r s
             else let r = r\<lparr>sent := sent r + 1\<rparr>;
                      timeout = ping_send_time s + 1000
                  in case poll_until (\<lambda>s. ping_reply_received s \<or> timeout \<le> timer_ticks s) stack env s of
                       None \<Rightarrow> None
                     | Some (s, env) \<Rightarrow>
                         let r = ping_account dest_ip s r
                         in if n + 1 < cnt
                            then let delay_end = timer_ticks s + 500
                                 in (case poll_until (\<lambda>s. delay_end \<le> timer_ticks s) stack env s of
                                       None \<Rightarrow> None
                                     | Some (s, env) \<Rightarrow> ping_loop i dest_ip identifier ns cnt stack env r s)
                            else ping_loop i dest_ip identifier ns cnt stack env r s)"

definition icmp_ping ::
  "nat \<Rightarrow> u32 \<Rightarrow> int \<Rightarrow> u8 list \<Rightarrow> ('z tcp_net_scheme \<Rightarrow> 'z tcp_net_scheme) list \<Rightarrow>
     'z tcp_net_scheme \<Rightarrow> (int \<times> ping_result_t \<times> 'z tcp_net_scheme) option" where
  "icmp_ping i dest_ip cnt stack env s =
     map_option (\<lambda>(r, s). (NET_SUCCESS, r, s))
       (ping_loop i dest_ip (ucast (timer_ticks s AND 0xFFFF)) [0..<nat cnt] (nat cnt) stack env
         \<lparr>sent = 0, received_count = 0, min_time = 0xFFFFFFFF, max_time = 0, total_time = 0\<rparr> s)"

section \<open>Dispatch of well-formed frames\<close>

lemma ip_packet_fields:
  shows "(ip_packet ident p src dst pl @ rest) ! 0 = 0x45" and "(ip_packet ident p src dst pl @ rest) ! 9 = p"
    and "rd32 (ip_packet ident p src dst pl @ rest) 12 = bswap32 src"
    and "rd32 (ip_packet ident p src dst pl @ rest) 16 = bswap32 dst"
    and "drop 20 (ip_packet ident p src dst pl @ rest) = pl @ rest"
  using ip_header_fields(1,2) [of "length pl" ident p src dst
      "ip_checksum (ip_header (length pl) ident p src dst 0)"]
    ip_header_fields(5,6) [of "length pl" ident p src dst
      "ip_checksum (ip_header (length pl) ident p src dst 0)" "pl @ rest"]
  by (simp_all add: ip_packet_eq nth_append)

lemma ip_process_wellformed:
  assumes "ip_accepts (iface s j) dst"
  shows "ip_process_packet j (ip_packet ident p src dst pl @ rest) s =
     (if p = IP_PROTOCOL_ICMP then
        (case icmp_process_packet j src (pl @ rest) s of
           (r, s') \<Rightarrow> (take 20 (ip_packet ident p src dst pl @ rest) @ r, s'))
      else if p = IP_PROTOCOL_UDP then
        (ip_packet ident p src dst pl @ rest, udp_process_packet j src (pl @ rest) s)
      else if p = IP_PROTOCOL_TCP then
        (ip_packet ident p src dst pl @ rest, tcp_process_packet j src dst (pl @ rest) s)
      else (ip_packet ident p src dst pl @ rest,
            snd (icmp_send_dest_unreachable j src ICMP_PROTOCOL_UNREACHABLE
                   (take 28 (ip_packet ident p src dst pl @ rest)) s)))"
proof -
  have v: "drop_bit 4 (0x45 :: u8) AND 0x0F = IP_VERSION_4" by (simp add: IP_VERSION_4_def)
  show ?thesis
    unfolding ip_process_packet_def ip_packet_fields Let_def bswap32_bswap32 v
    using assms by (simp add: ip_packet_valid del: take_append)
qed

lemma ethernet_process_split:
  assumes "length d = 6" and "length m = 6"
    and "d = mac_address (iface s j) \<or> d = broadcast_mac"
  shows "snd (ethernet_process_frame j (d @ m @ le16 ETH_TYPE_IP @ bs) s) = snd (ip_process_packet j bs s)"
    and "snd (ethernet_process_frame j (d @ m @ le16 ETH_TYPE_ARP @ bs) s) = arp_process_packet j bs s"
proof -
  have et: "rd16 (d @ m @ le16 et @ bs) 12 = et" for et
    using rd16_field [of "d @ m" 12 et bs] assms by simp
  have ne: "ETH_TYPE_IP \<noteq> ETH_TYPE_ARP" by (simp add: ETH_TYPE_IP_def ETH_TYPE_ARP_def)
  show "snd (ethernet_process_frame j (d @ m @ le16 ETH_TYPE_IP @ bs) s) = snd (ip_process_packet j bs s)"
    unfolding ethernet_process_frame_def et Let_def
    using assms ne by (auto simp: ethernet_is_broadcast_def eth_consts split: prod.split)
  show "snd (ethernet_process_frame j (d @ m @ le16 ETH_TYPE_ARP @ bs) s) = arp_process_packet j bs s"
    unfolding ethernet_process_frame_def et Let_def
    using assms by (auto simp: ethernet_is_broadcast_def eth_consts)
qed

lemma udp_process_datagram:
  assumes "length pl + 8 < 65536" and "\<not> (sp = 67 \<and> dp = 68)"
  shows "udp_process_packet i src (udp_packet a b sp dp pl @ rest) s =
     udp_deliver src sp dp (pl @ rest) (length pl) s"
proof -
  have "unat (of_nat (8 + length pl) :: u16) = 8 + length pl"
    using assms(1) by (intro unat_of_nat_small) simp
  then show ?thesis
    unfolding udp_process_packet_def udp_packet_eq append_assoc udp_header_fields bswap16_bswap16 Let_def
    using assms(2) by (auto simp: UDP_HEADER_LEN_def simp del: of_nat_add)
qed

section \<open>What handling a frame leaves alone\<close>

text \<open>
  Everything a poll reads before the next frame: the interface table, which interfaces are active and
  on which driver, and the receive side of the card.
\<close>

definition poll_view :: "'z netdev_scheme \<Rightarrow> _" where
  "poll_view s = (interfaces s, interface_count s, map (\<lambda>f. (active f, receive_packet f)) (if_pool s),
     rx_desc (e1000_dev s), rx_cur (e1000_dev s), rx_buffers (e1000_dev s), e1000_initialized (e1000_dev s))"

lemma map_update_same: "g (h (xs ! i)) = g (xs ! i) \<Longrightarrow> map g (xs[i := h (xs ! i)]) = map g xs"
  by (simp add: map_update) (metis list_update_id map_update)

lemma arp_process_poll_view: "poll_view (arp_process_packet i hdr s) = poll_view s"
  by (simp add: poll_view_def arp_process_packet_def arp_send_reply_def Let_def)

lemma icmp_process_poll_view: "poll_view (snd (icmp_process_packet i src p s)) = poll_view s"
  by (simp add: poll_view_def icmp_process_packet_def icmp_send_echo_reply_def Let_def)

lemma udp_send_poll_view: "poll_view (snd (udp_send_packet i dst sp dp pl s)) = poll_view s"
  by (simp add: poll_view_def udp_send_packet_def)

lemma tcp_send_poll_view: "poll_view (snd (tcp_send_packet i dst sp dp sq ak fl pl s)) = poll_view s"
  by (simp add: poll_view_def tcp_send_packet_def)

lemma poll_view_upd [simp]:
  "poll_view (s\<lparr>udp_events := a\<rparr>) = poll_view s" "poll_view (s\<lparr>dhcp_clients := b\<rparr>) = poll_view s"
  "poll_view (s'\<lparr>connections := c\<rparr>) = poll_view s'" "poll_view (s'\<lparr>tcp_events := d\<rparr>) = poll_view s'"
  "poll_view (s'\<lparr>tcp_sequence_number := e\<rparr>) = poll_view s'"
  by (simp_all add: poll_view_def)

lemma dhcp_request_poll_view: "poll_view (snd (dhcp_client_request c s)) = poll_view s"
  by (simp add: dhcp_client_request_def Let_def split_beta udp_send_poll_view split: option.split)

lemma upd_iface_poll_view:
  "poll_view (s\<lparr>if_pool := (if_pool s)[i := (if_pool s ! i)
     \<lparr>ip_address := a, subnet_mask := b, gateway := g\<rparr>]\<rparr>) = poll_view s"
  using map_update_same [of "\<lambda>f. (active f, receive_packet f)"
      "\<lambda>f. f\<lparr>ip_address := a, subnet_mask := b, gateway := g\<rparr>" "if_pool s" i]
  by (simp add: poll_view_def)

lemma dhcp_process_poll_view: "poll_view (dhcp_client_process_packet c p n s) = poll_view s"
  by (simp add: dhcp_client_process_packet_def Let_def dhcp_request_poll_view upd_iface_poll_view
      split: prod.split)

lemma udp_process_poll_view: "poll_view (udp_process_packet i src p s) = poll_view s"
  by (simp add: udp_process_packet_def udp_deliver_def Let_def dhcp_process_poll_view split: option.split)

lemma call_back_poll_view [simp]: "poll_view (call_back cb e s) = poll_view s"
  by (simp add: call_back_def log_event_def split: option.split)

lemma tcp_demux_poll_view: "poll_view (snd (tcp_demux a b c d fl s)) = poll_view s"
  by (simp add: tcp_demux_def split: option.split)

lemma tcp_established_poll_view: "poll_view (tcp_established i a sp dp sq fl pl c s) = poll_view s"
  by (simp add: tcp_established_def Let_def tcp_send_poll_view)

lemma tcp_step_poll_view: "poll_view (tcp_step i a sp dp sq fl pl c s) = poll_view s"
  by (simp add: tcp_step_def Let_def tcp_send_poll_view tcp_established_poll_view split: tcp_state_t.split)

lemma tcp_process_poll_view: "poll_view (tcp_process_packet i a b p s) = poll_view s"
proof -
  obtain c s' where d: "tcp_demux a b (bswap16 (rd16 p 0)) (bswap16 (rd16 p 2)) (p ! 13) s = (c, s')"
    by fastforce
  from tcp_demux_poll_view [of a b "bswap16 (rd16 p 0)" "bswap16 (rd16 p 2)" "p ! 13" s] d
  have "poll_view s' = poll_view s" by simp
  then show ?thesis
    by (simp add: tcp_process_packet_def Let_def d tcp_send_poll_view tcp_step_poll_view split: option.split)
qed

lemma ip_process_poll_view: "poll_view (snd (ip_process_packet i p s)) = poll_view s"
proof -
  have "poll_view (snd (icmp_send_dest_unreachable i a b bs s)) = poll_view s" for a b bs
    by (simp add: poll_view_def icmp_send_dest_unreachable_def)
  then show ?thesis
    using icmp_process_poll_view [of i _ _ s]
    by (simp add: ip_process_packet_def Let_def udp_process_poll_view tcp_process_poll_view split_beta)
qed

lemma ethernet_process_poll_view: "poll_view (snd (ethernet_process_frame i f s)) = poll_view s"
  by (simp add: ethernet_process_frame_def Let_def arp_process_poll_view ip_process_poll_view split_beta)

end
