(* ===== verification/Net_Properties.thy ===== *)
theory Net_Properties
  imports Net_Input
begin

text \<open>
  Properties of the network stack that span its layers: delivery of a datagram from socket to socket,
  termination and non-termination of the polling loop, the DHCP and TCP exchanges, port and descriptor
  ownership.
\<close>

section \<open>Polling the card returns\<close>

definition pending :: "e1000_device_t \<Rightarrow> nat" where
  "pending dev = card {k. k < 32 \<and> rx_done dev k}"

text \<open>Number of completed descriptors and the shape of the ring depend on what \<open>poll_view\<close> shows.\<close>

lemma poll_view_ring:
  assumes "poll_view s' = poll_view s"
  shows "pending (e1000_dev s') = pending (e1000_dev s)" and "rx_ring_wf (e1000_dev s') = rx_ring_wf (e1000_dev s)"
    and "length (if_pool s') = length (if_pool s)"
    and "i < length (if_pool s) \<Longrightarrow> active (iface s' i) = active (iface s i)"
    and "i < length (if_pool s) \<Longrightarrow> receive_packet (iface s' i) = receive_packet (iface s i)"
proof -
  from assms have m: "map (\<lambda>f. (active f, receive_packet f)) (if_pool s') =
      map (\<lambda>f. (active f, receive_packet f)) (if_pool s)" by (simp add: poll_view_def)
  from arg_cong [OF m, of length] show len: "length (if_pool s') = length (if_pool s)" by simp
  show "pending (e1000_dev s') = pending (e1000_dev s)" "rx_ring_wf (e1000_dev s') = rx_ring_wf (e1000_dev s)"
    using assms by (simp_all add: poll_view_def pending_def rx_done_def rx_ring_wf_def)
  assume i: "i < length (if_pool s)"
  from arg_cong [OF m, of "\<lambda>xs. xs ! i"] i len
  show "active (iface s' i) = active (iface s i)" "receive_packet (iface s' i) = receive_packet (iface s i)"
    by simp_all
qed

lemma pending_receive:
  assumes "rx_ring_wf dev" and "0 < m" and "rx_done dev (rx_slot dev 0)"
  shows "rx_ring_wf (snd (e1000_receive_packet m dev))"
    and "pending (snd (e1000_receive_packet m dev)) < pending dev"
proof -
  from receive_frame [OF assms] obtain d where d: "snd (e1000_receive_packet m dev) = d" "rx_ring_wf d"
    "\<not> rx_done d (rx_slot dev 0)" "\<And>k. k \<noteq> rx_slot dev 0 \<Longrightarrow> rx_done d k = rx_done dev k"
    by (metis snd_conv)
  have "{k. k < 32 \<and> rx_done d k} \<subset> {k. k < 32 \<and> rx_done dev k}"
    using d(3,4) assms(3) rx_slot_lt [of dev 0] by (auto simp: e1000_consts) metis
  then show "rx_ring_wf (snd (e1000_receive_packet m dev))"
    "pending (snd (e1000_receive_packet m dev)) < pending dev"
    by (simp_all add: d pending_def psubset_card_mono)
qed

lemma card_receive_loop:
  assumes "i < length (if_pool s)" and "active (iface s i)"
    and "receive_packet (iface s i) = Some d" and "d \<noteq> LOOPBACK" and "rx_ring_wf (e1000_dev s)"
  shows "\<exists>r. receive_loop i frame s = Some r"
  using assms
proof (induction "pending (e1000_dev s)" arbitrary: frame s rule: less_induct)
  case (less s)
  let ?dev = "e1000_dev s"
  have raw: "network_receive_raw i ETH_FRAME_LEN s =
      (fst (e1000_receive_packet ETH_FRAME_LEN ?dev), s\<lparr>e1000_dev := snd (e1000_receive_packet ETH_FRAME_LEN ?dev)\<rparr>)"
    using less.prems by (cases d) (simp_all add: network_receive_raw_def call_receive_def eth_consts split_beta)
  show ?case
  proof (cases "rx_done ?dev (rx_slot ?dev 0)")
    case False
    then have "e1000_receive_packet ETH_FRAME_LEN ?dev = ((0, []), ?dev)"
      using less.prems(5) by (intro receive_none) (simp add: rx_slot_0)
    then show ?thesis
      by (subst receive_loop.simps) (simp add: ethernet_receive_frame_def raw)
  next
    case True
    define s1 where "s1 = s\<lparr>e1000_dev := snd (e1000_receive_packet ETH_FRAME_LEN ?dev)\<rparr>"
    note p = pending_receive [OF less.prems(5) _ True, of ETH_FRAME_LEN]
    obtain r frame1 where rf: "ethernet_receive_frame i frame s = ((r, frame1), s1)"
    proof -
      have "snd (ethernet_receive_frame i frame s) = s1"
        using raw by (simp add: ethernet_receive_frame_def s1_def Let_def split_beta)
      then show thesis by (intro that [of "fst (fst (ethernet_receive_frame i frame s))"
          "snd (fst (ethernet_receive_frame i frame s))"]) (metis prod.collapse)
    qed
    obtain frame2 s2 where pf: "ethernet_process_frame i frame1 s1 = (frame2, s2)" by fastforce
    have v: "poll_view s2 = poll_view s1" using ethernet_process_poll_view [of i frame1 s1] pf by simp
    have s1: "length (if_pool s1) = length (if_pool s)" "iface s1 i = iface s i" by (simp_all add: s1_def)
    have "pending (e1000_dev s2) < pending ?dev" "rx_ring_wf (e1000_dev s2)"
      using poll_view_ring(1,2) [OF v] p by (simp_all add: s1_def eth_consts)
    then have "\<exists>r. receive_loop i frame2 s2 = Some r"
      using less.hyps [of s2 frame2] poll_view_ring(3-5) [OF v] less.prems(1-4) s1 by simp
    then show ?thesis
      by (subst receive_loop.simps) (simp add: rf pf)
  qed
qed

section \<open>A reset answered by a reset\<close>

text \<open>Loopback host without connections whose queue holds one TCP segment to itself.\<close>

definition rst_storm :: "nat \<Rightarrow> 'z tcp_net_scheme \<Rightarrow> bool" where
  "rst_storm i s \<longleftrightarrow>
     (let f = iface s i
      in active f \<and> send_packet f = Some LOOPBACK \<and> receive_packet f = Some LOOPBACK \<and>
         length (mac_address f) = 6 \<and> ip_address f \<noteq> 0xFFFFFFFF \<and>
         arp_lookup (ip_address f) s = Some (mac_address f) \<and>
         (\<forall>c<MAX_CONNECTIONS. \<not> c_active (conn_at s c)) \<and> lo_inv s \<and>
         (\<exists>ident seg. length seg \<le> 1480 \<and> lo_contents s =
            [ethernet_frame (mac_address f) (mac_address f) ETH_TYPE_IP
               (ip_packet ident IP_PROTOCOL_TCP (ip_address f) (ip_address f) seg)]))"

lemma tcp_no_connection:
  assumes "\<forall>c<MAX_CONNECTIONS. \<not> c_active (conn_at s c)"
  obtains sp dp sq where "tcp_process_packet i src dst p s =
     snd (tcp_send_packet i src dp sp 0 sq (TCP_FLAG_RST OR TCP_FLAG_ACK) [] s)"
proof -
  have "find_conn P s = None" for P using assms by (simp add: find_conn_def first_index_None_iff)
  then have "tcp_demux a b sp dp fl s = (None, s)" for a b sp dp fl by (simp add: tcp_demux_def)
  then show thesis by (intro that) (simp add: tcp_process_packet_def Let_def)
qed

lemma length_tcp_segment: "length (tcp_segment a b sp dp sq ak fl pl) = 20 + length pl"
  by (simp add: tcp_segment_def tcp_header_def Let_def)

lemma length_process_frame:
  assumes "34 \<le> length frame"
  shows "length (fst (ethernet_process_frame i frame s)) = length frame"
proof -
  have "length (fst (ip_process_packet i p s)) = length p" if "20 \<le> length p" for p
    using that by (simp add: ip_process_packet_def icmp_process_packet_def Let_def min_def)
  with assms show ?thesis by (simp add: ethernet_process_frame_def Let_def split_beta)
qed

lemma ethernet_receive_loopback:
  assumes "active (iface s i)" and "receive_packet (iface s i) = Some LOOPBACK"
    and "lo_inv s" and "lo_contents s = x # xs"
  shows "ethernet_receive_frame i frame s =
     ((int (length x), received x frame), s\<lparr>loopback_queue := queue_drop (loopback_queue s)\<rparr>)"
proof -
  have "frame_ok x" using assms(3,4) by (simp add: lo_inv_def)
  then have "0 < length x" by (simp add: frame_ok_def)
  with lo_receive_next [OF assms(3,4)] assms(1,2) show ?thesis
    by (simp add: ethernet_receive_frame_def network_receive_raw_def call_receive_def received_def
        eth_consts Let_def)
qed

lemma rst_storm_step:
  assumes storm: "rst_storm i s" and buf: "length frame = 1514"
  obtains r frame1 s1 where "ethernet_receive_frame i frame s = ((r, frame1), s1)" and "0 < r"
    and "rst_storm i (snd (ethernet_process_frame i frame1 s1))"
    and "length (fst (ethernet_process_frame i frame1 s1)) = 1514"
proof -
  let ?m = "mac_address (iface s i)" and ?a = "ip_address (iface s i)"
  from storm obtain ident seg where
    f: "active (iface s i)" "send_packet (iface s i) = Some LOOPBACK"
      "receive_packet (iface s i) = Some LOOPBACK" "length ?m = 6" "?a \<noteq> 0xFFFFFFFF"
      "arp_lookup ?a s = Some ?m" "\<forall>c<MAX_CONNECTIONS. \<not> c_active (conn_at s c)" "lo_inv s"
    and seg: "length seg \<le> 1480"
    and q: "lo_contents s = [ethernet_frame ?m ?m ETH_TYPE_IP (ip_packet ident IP_PROTOCOL_TCP ?a ?a seg)]"
    by (auto simp: rst_storm_def Let_def)
  let ?p = "ip_packet ident IP_PROTOCOL_TCP ?a ?a seg"
  let ?x = "ethernet_frame ?m ?m ETH_TYPE_IP ?p"
  define s1 where "s1 = s\<lparr>loopback_queue := queue_drop (loopback_queue s)\<rparr>"
  have same: "iface s1 i = iface s i" "arp_lookup ?a s1 = Some ?m" "connections s1 = connections s"
    using f(6) by (simp_all add: s1_def arp_lookup_def arp_slot_def)
  have s1: "lo_inv s1" "lo_contents s1 = []" using lo_receive_next [OF f(8) q] by (simp_all add: s1_def)
  have rcv: "ethernet_receive_frame i frame s = ((int (length ?x), received ?x frame), s1)"
    unfolding s1_def by (rule ethernet_receive_loopback [OF f(1,3,8) q])
  have len: "length ?p \<le> 1500" using seg by simp
  from received_split [OF f(4,4) len buf, of ETH_TYPE_IP] obtain rest where
    r: "received ?x frame = ?m @ ?m @ le16 ETH_TYPE_IP @ ?p @ rest"
    and lr: "length rest = 1500 - length ?p" by metis
  have "ip_accepts (iface s1 i) ?a" by (simp add: ip_accepts_def same)
  then have ip: "snd (ip_process_packet i (?p @ rest) s1) = tcp_process_packet i ?a ?a (seg @ rest) s1"
    by (subst ip_process_wellformed) (simp_all add: IP_PROTOCOL_TCP_def IP_PROTOCOL_UDP_def IP_PROTOCOL_ICMP_def)
  from f(7) same(3) obtain sp dp sq where tcp: "tcp_process_packet i ?a ?a (seg @ rest) s1 =
      snd (tcp_send_packet i ?a dp sp 0 sq (TCP_FLAG_RST OR TCP_FLAG_ACK) [] s1)"
    using tcp_no_connection [of s1 i ?a ?a "seg @ rest"] by metis
  let ?seg = "tcp_segment ?a ?a dp sp 0 sq (TCP_FLAG_RST OR TCP_FLAG_ACK) []"
  let ?y = "ethernet_frame ?m ?m ETH_TYPE_IP (ip_packet (ip_identification s1) IP_PROTOCOL_TCP ?a ?a ?seg)"
  define s2 where "s2 = lo_put ?y (s1\<lparr>ip_identification := ip_identification s1 + 1\<rparr>)"
  have "tcp_send_packet i ?a dp sp 0 sq (TCP_FLAG_RST OR TCP_FLAG_ACK) [] s1 = (NET_SUCCESS, s2)"
    using ip_send_resolved [of ?seg s1 i LOOPBACK ?a ?m IP_PROTOCOL_TCP] f same
    by (simp add: tcp_send_packet_def length_tcp_segment call_send_def lo_put_def s2_def)
  then have proc: "snd (ethernet_process_frame i (received ?x frame) s1) = s2"
    unfolding r by (subst ethernet_process_split) (use f(4) same in \<open>simp_all add: ip tcp\<close>)
  have ok: "frame_ok ?y" using f(4) by (intro ethernet_frame_ok) (simp_all add: length_tcp_segment)
  have "lo_inv (s1\<lparr>ip_identification := n\<rparr>)" "lo_contents (s1\<lparr>ip_identification := n\<rparr>) = []" for n
    using s1 by (simp_all add: lo_inv_def lo_contents_def)
  from lo.put_room [OF this(1) ok] this(2) have put: "lo_inv s2" "lo_contents s2 = [?y]"
    by (simp_all add: s2_def netdev_consts)
  have sf: "if_pool s2 = if_pool s" "arp_table s2 = arp_table s" "connections s2 = connections s"
    by (simp_all add: s2_def lo_put_def loopback_send_def s1_def)
  have "\<exists>ident seg. length seg \<le> 1480 \<and> lo_contents s2 =
      [ethernet_frame ?m ?m ETH_TYPE_IP (ip_packet ident IP_PROTOCOL_TCP ?a ?a seg)]"
    by (intro exI [of _ "ip_identification s1"] exI [of _ ?seg]) (simp add: put length_tcp_segment)
  then have "rst_storm i s2"
    unfolding rst_storm_def Let_def sf using f(1-7) put(1) arp_lookup_cong [OF sf(2)] by simp
  moreover have "length (received ?x frame) = 1514" using f(4) len lr by (simp add: r)
  moreover have "0 < int (length ?x)" using f(4) by (simp add: length_ethernet_frame)
  ultimately show thesis
    using that [OF rcv] proc length_process_frame [of "received ?x frame" i s1] by simp
qed

lemma rst_storm_diverges:
  "receive_loop i frame s = Some y \<Longrightarrow> \<not> (rst_storm i s \<and> length frame = 1514)"
proof (rule receive_loop.raw_induct [where P = "\<lambda>i frame s y. \<not> (rst_storm i s \<and> length frame = 1514)"])
  fix rec i frame s y
  assume IH: "\<And>i frame s y. rec i frame s = Some y \<Longrightarrow> \<not> (rst_storm i s \<and> length frame = 1514)"
    and step: "(case ethernet_receive_frame i frame s of
        ((result, frame), s) \<Rightarrow>
          if 0 < result then case ethernet_process_frame i frame s of (frame, s) \<Rightarrow> rec i frame s
          else Some (frame, s)) = Some y"
  show "\<not> (rst_storm i s \<and> length frame = 1514)"
  proof (intro notI, elim conjE)
    assume st: "rst_storm i s" and len: "length frame = 1514"
    from rst_storm_step [OF st len] obtain r frame1 s1 where
      x: "ethernet_receive_frame i frame s = ((r, frame1), s1)" "0 < r"
        "rst_storm i (snd (ethernet_process_frame i frame1 s1))"
        "length (fst (ethernet_process_frame i frame1 s1)) = 1514" by metis
    with step IH show False by (auto simp: split_beta)
  qed
qed

section \<open>Properties\<close>

text \<open>A host for the witnesses: loopback registered, one UDP socket bound to port 7 with a
  callback, no connections.\<close>

definition sample_net :: net where
  "sample_net = \<lparr>interfaces = [Some 0, Some 1, None, None], interface_count = 2,
     if_pool = [sample_lo_iface, sample_lo_iface\<lparr>mac_address := [2, 0, 0, 0, 0, 1], ip_address := 0x0A000002,
        subnet_mask := 0xFFFFFF00, send_packet := Some E1000, receive_packet := Some E1000\<rparr>],
     if_pool_count = 2, loopback_queue = sample_queue, e1000_dev = sample_nic, timer_ticks = 5,
     arp_table = \<lparr>arp_ip = 0x7F000001, arp_mac = [0, 0, 0, 0, 0, 1], timestamp = 1, valid = True\<rparr> #
       replicate 127 \<lparr>arp_ip = 0, arp_mac = replicate 6 0, timestamp = 0, valid = False\<rparr>,
     arp_table_entries = 1, ip_identification = 1,
     ping_reply_received = False, ping_reply_src_ip = 0, ping_reply_seq = 0, ping_send_time = 0,
     ping_reply_time = 0,
     udp_sockets = free_socket\<lparr>local_port := 7, bound := True, receive_callback := Some 42\<rparr> #
       replicate 63 free_socket,
     udp_socket_count = 1, udp_events = [],
     dhcp_clients = replicate 4 \<lparr>dhcp_iface = Some 1, dhcp_state = DHCP_STATE_INIT, transaction_id = 0x11,
        server_ip = 0, offered_ip = 0, dhcp_subnet_mask = 0, dhcp_gateway = 0, dns_server = 0, lease_time = 0,
        renewal_time = 0, rebinding_time = 0, lease_start_time = 0, dhcp_active = False\<rparr>,
     dhcp_client_count = 1, dhcp_xid_counter = 0x12,
     connections = replicate 32 (fresh_connection 0 False), connection_count = 0,
     tcp_sequence_number = 1000, tcp_events = [],
     sockets = replicate 64 zero_socket, socket_used = replicate 64 False\<rparr>"

text \<open>
  C9. Polling the network card returns: with a well-formed receive ring the loop of
  \<^verbatim>\<open>network_process_packets\<close> on an interface driven by the card ends, whatever the received frames make the
  protocol handlers do, since a handler never gives the card's descriptors back.
\<close>

theorem card_poll_returns:
  assumes "i < length (if_pool s)" and "active (iface s i)"
    and "receive_packet (iface s i) \<in> {Some ETHERNET, Some E1000}" and "rx_ring_wf (e1000_dev s)"
  shows "\<exists>frame' s'. receive_loop i frame s = Some (frame', s')"
  using card_receive_loop [OF assms(1,2) _ _ assms(4)] assms(3) by (metis (no_types) driver.distinct
      insert_iff old.prod.exhaust singletonD)

theorem card_poll_returns_witness:
  "\<exists>frame' s'. receive_loop 1 [] sample_net = Some (frame', s')"
  using card_poll_returns [of 1 sample_net "[]"] sample_nic_wf(2)
  by (simp add: sample_net_def sample_lo_iface_def)

text \<open>
  C6. A datagram reaches the peer's socket intact: when host A knows B's MAC address, sending up to 1472 bytes
  puts exactly one frame on A's device, of legal Ethernet length; B's processing of that frame, whatever its
  frame buffer held before, calls the callback of the socket bound to the destination port once, with
  the payload, its exact length, A's address and A's port, and changes nothing else.
\<close>

theorem udp_datagram_delivered:
  assumes A: "active (iface sA i)" "send_packet (iface sA i) = Some d" "length (mac_address (iface sA i)) = 6"
      "arp_lookup dst sA = Some (mac_address (iface sB j))"
    and B: "ip_address (iface sB j) = dst" "length (mac_address (iface sB j)) = 6" "dst \<noteq> 0xFFFFFFFF"
      "first_index (\<lambda>k. bound (udp_sockets sB ! k) \<and> local_port (udp_sockets sB ! k) = dp) MAX_SOCKETS = Some k"
      "receive_callback (udp_sockets sB ! k) = Some cb"
    and pl: "0 < length payload" "length payload \<le> 1472" "\<not> (sp = 67 \<and> dp = 68)" and buf: "length buf = 1514"
  shows "\<exists>f rest. udp_send_packet i dst sp dp payload sA =
        (NET_SUCCESS, call_send d f (sA\<lparr>ip_identification := ip_identification sA + 1\<rparr>)) \<and>
     frame_ok f \<and>
     snd (ethernet_process_frame j (received f buf) sB) =
        sB\<lparr>udp_events := udp_events sB @ [\<lparr>ev_callback = cb, ev_socket = k, ev_data = payload @ rest,
             ev_len = length payload, ev_src_ip = ip_address (iface sA i), ev_src_port = sp\<rparr>]\<rparr>"
proof -
  let ?a = "ip_address (iface sA i)" and ?ma = "mac_address (iface sA i)" and ?mb = "mac_address (iface sB j)"
  let ?u = "udp_packet ?a dst sp dp payload"
  let ?p = "ip_packet (ip_identification sA) IP_PROTOCOL_UDP ?a dst ?u"
  let ?f = "ethernet_frame ?mb ?ma ETH_TYPE_IP ?p"
  have send: "udp_send_packet i dst sp dp payload sA =
      (NET_SUCCESS, call_send d ?f (sA\<lparr>ip_identification := ip_identification sA + 1\<rparr>))"
    using ip_send_resolved [OF _ _ A(1,2,4) B(3,2) A(3), of ?u IP_PROTOCOL_UDP] pl
    by (simp add: udp_send_packet_def UDP_MAX_PAYLOAD_def UDP_HEADER_LEN_def ip_consts)
  have len: "length ?p \<le> 1500" using pl by simp
  from received_split [OF B(2) A(3) len buf, of ETH_TYPE_IP] obtain rest where
    r: "received ?f buf = ?mb @ ?ma @ le16 ETH_TYPE_IP @ ?p @ rest" by metis
  have "ip_accepts (iface sB j) dst" using B(1) by (simp add: ip_accepts_def)
  then have "snd (ip_process_packet j (?p @ rest) sB) = udp_process_packet j ?a (?u @ rest) sB"
    by (subst ip_process_wellformed) (simp_all add: IP_PROTOCOL_UDP_def IP_PROTOCOL_ICMP_def)
  also have "\<dots> = udp_deliver ?a sp dp (payload @ rest) (length payload) sB"
    using pl by (intro udp_process_datagram) simp_all
  finally have "snd (ethernet_process_frame j (received ?f buf) sB) =
      udp_deliver ?a sp dp (payload @ rest) (length payload) sB"
    unfolding r by (subst ethernet_process_split) (use B(2) A(3) in simp_all)
  with send ethernet_frame_ok [OF B(2) A(3) len] B(4,5) show ?thesis
    by (intro exI [of _ ?f] exI [of _ rest]) (simp add: udp_deliver_def)
qed

lemma sample_net_arp: "arp_lookup 0x7F000001 sample_net = Some [0, 0, 0, 0, 0, 1]"
proof -
  have "arp_slot 0x7F000001 sample_net = Some 0"
    by (simp add: arp_slot_def first_index_Some_iff sample_net_def ARP_TABLE_SIZE_def)
  then show ?thesis by (simp add: arp_lookup_def sample_net_def)
qed

theorem udp_datagram_delivered_witness:
  "\<exists>f rest. udp_send_packet 0 0x7F000001 9 7 [1, 2, 3] sample_net =
        (NET_SUCCESS, call_send LOOPBACK f (sample_net\<lparr>ip_identification := ip_identification sample_net + 1\<rparr>)) \<and>
     frame_ok f \<and>
     snd (ethernet_process_frame 0 (received f (replicate 1514 0)) sample_net) =
        sample_net\<lparr>udp_events := udp_events sample_net @ [\<lparr>ev_callback = 42, ev_socket = 0,
          ev_data = [1, 2, 3] @ rest, ev_len = length [1, 2, 3 :: u8],
          ev_src_ip = ip_address (iface sample_net 0), ev_src_port = 9\<rparr>]\<rparr>"
  by (rule udp_datagram_delivered)
     (simp_all add: sample_net_arp, simp_all add: sample_net_def sample_lo_iface_def first_index_Some_iff
        MAX_SOCKETS_def)

text \<open>
  The loopback device is a bounded FIFO: frames sent into an empty queue come back in order and
  unchanged, up to the capacity of 16; later frames are dropped.
\<close>

theorem loopback_fifo:
  assumes "lo_inv s" and "lo_contents s = []" and "\<forall>f\<in>set fs. frame_ok f" and "length fs \<le> n"
  shows "fst (drain lo_get n (fold lo_put fs s)) = take MAX_PACKET_QUEUE fs"
proof -
  note p = lo.put_all [OF assms(1,3)]
  have "fst (drain lo_get n (fold lo_put fs s)) = take n (take MAX_PACKET_QUEUE fs)"
    using lo.drain_contents [of "fold lo_put fs s" n] p assms(2) by simp
  with assms(4) show ?thesis by (simp add: min_def)
qed

lemma sample_net_lo: "lo_inv sample_net" "lo_contents sample_net = []"
proof -
  show c: "lo_contents sample_net = []" by (simp add: lo_contents_def sample_net_def sample_queue_def)
  show "lo_inv sample_net"
    unfolding lo_inv_def c
    by (simp add: sample_net_def sample_queue_def queue_wf_def netdev_consts list_all2_conv_all_nth)
qed

theorem loopback_fifo_witness:
  "fst (drain lo_get 3 (fold lo_put [[1], [2, 3]] sample_net)) = [[1], [2, 3]]"
  using loopback_fifo [OF sample_net_lo, of "[[1], [2, 3]]" 3]
  by (simp add: frame_ok_def netdev_consts)

text \<open>
  C38. A TCP segment to the host itself that matches no connection hangs the kernel: on the loopback
  interface the reset sent in answer is received, matches no connection either, and is answered by another
  reset, so \<^verbatim>\<open>network_process_packets\<close> never returns.
\<close>

theorem tcp_rst_storm:
  assumes "rst_storm i s" and "interfaces s ! 0 = Some i" and "0 < interface_count s"
    and "length stack = 1514"
  shows "network_process_packets stack s = None"
proof -
  have "receive_loop i stack s = None"
    using rst_storm_diverges [of i stack s] assms(1,4) by (cases "receive_loop i stack s") auto
  moreover have "active (iface s i)" using assms(1) by (simp add: rst_storm_def Let_def)
  moreover obtain ks where "[0..<interface_count s] = 0 # ks" using assms(3) by (simp add: upt_conv_Cons)
  ultimately show ?thesis using assms(2) by (simp add: network_process_packets_def)
qed

definition stray_frame :: "u8 list" where
  "stray_frame = ethernet_frame [0, 0, 0, 0, 0, 1] [0, 0, 0, 0, 0, 1] ETH_TYPE_IP
     (ip_packet 1 IP_PROTOCOL_TCP 0x7F000001 0x7F000001
       (tcp_segment 0x7F000001 0x7F000001 40000 80 1000 0 TCP_FLAG_SYN []))"

lemma stray_storm: "rst_storm 0 (lo_put stray_frame sample_net)"
proof -
  have ok: "frame_ok stray_frame"
    unfolding stray_frame_def by (rule ethernet_frame_ok) (simp_all add: length_tcp_segment)
  have put: "lo_inv (lo_put stray_frame sample_net)" "lo_contents (lo_put stray_frame sample_net) = [stray_frame]"
    using lo.put_room [OF sample_net_lo(1) ok] sample_net_lo(2) by (simp_all add: netdev_consts)
  have f: "if_pool (lo_put stray_frame sample_net) = if_pool sample_net"
    "arp_table (lo_put stray_frame sample_net) = arp_table sample_net"
    "connections (lo_put stray_frame sample_net) = connections sample_net"
    by (simp_all add: lo_put_def loopback_send_def)
  have i: "iface sample_net 0 = sample_lo_iface" by (simp add: sample_net_def)
  have "arp_lookup 0x7F000001 (lo_put stray_frame sample_net) = Some [0, 0, 0, 0, 0, 1]"
    using arp_lookup_cong [OF f(2)] sample_net_arp by simp
  moreover have "\<exists>ident seg. length seg \<le> 1480 \<and> [stray_frame] =
      [ethernet_frame [0, 0, 0, 0, 0, 1] [0, 0, 0, 0, 0, 1] ETH_TYPE_IP
        (ip_packet ident IP_PROTOCOL_TCP 0x7F000001 0x7F000001 seg)]"
    unfolding stray_frame_def
    by (intro exI [of _ 1] exI [of _ "tcp_segment 0x7F000001 0x7F000001 40000 80 1000 0 TCP_FLAG_SYN []"])
       (simp add: length_tcp_segment)
  moreover have "\<forall>c<MAX_CONNECTIONS. \<not> c_active (connections sample_net ! c)"
    by (simp add: sample_net_def MAX_CONNECTIONS_def fresh_connection_def)
  ultimately show ?thesis
    unfolding rst_storm_def Let_def f i using put by (simp add: sample_lo_iface_def)
qed

theorem tcp_rst_storm_witness:
  "network_process_packets (replicate 1514 0) (lo_put stray_frame sample_net) = None"
  by (rule tcp_rst_storm [OF stray_storm])
     (simp_all add: lo_put_def loopback_send_def sample_net_def)

inductive udp_reachable :: "'z udp_net_scheme \<Rightarrow> bool" where
  init: "udp_reachable (snd (udp_init s))"
| create: "udp_reachable s \<Longrightarrow> udp_reachable (snd (udp_create_socket s))"
| bind: "udp_reachable s \<Longrightarrow> udp_reachable (snd (udp_bind k port s))"
| connect: "udp_reachable s \<Longrightarrow> udp_reachable (snd (udp_connect k ip port s))"
| send: "udp_reachable s \<Longrightarrow> udp_reachable (snd (udp_sendto k bytes ip port s))"
| close: "udp_reachable s \<Longrightarrow> udp_reachable (udp_close k s)"

text \<open>
  C28. In every state reached by creating, binding, connecting, using and closing UDP sockets, no two bound
  sockets share a port and no bound socket has port 0, so a received datagram has at most one owner.
\<close>

theorem udp_ports_exclusive:
  assumes "udp_reachable s"
  shows "ports_ok s"
  using assms
proof induction
  case (init s)
  then show ?case by (simp add: udp_init_def ports_ok_def free_socket_def)
qed (simp_all add: udp_bind_ports udp_ports_keep)

theorem udp_ports_exclusive_witness:
  "ports_ok (snd (udp_bind 0 53 (snd (udp_create_socket (snd (udp_init sample_net))))))"
  by (rule udp_ports_exclusive) (intro udp_reachable.intros)

section \<open>ICMP\<close>

lemma icmp_packet_fields:
  assumes "length rest = 4"
  shows "icmp_packet t c rest pl = [t, c] @ le16 (icmp_checksum ([t, c] @ le16 0 @ rest @ pl)) @ rest @ pl"
  using wr16_field [of "[t, c]" 2 0 "rest @ pl"] by (simp add: icmp_packet_def Let_def)

lemma icmp_checksum_append:
  assumes "even (length h)" and "even (length pl)" and "0 < total16 (words16 h)"
    and "length h + length pl \<le> 1480"
  shows "icmp_checksum (h @ pl) = icmp_checksum h \<longleftrightarrow> total16 (words16 pl) mod 65535 = 0"
proof -
  let ?a = "total16 (words16 h)" and ?b = "total16 (words16 pl)"
  have w: "words16 (h @ pl) = words16 h @ words16 pl" by (rule words16_append [OF assms(1)])
  have "length h \<le> 1480" "length pl \<le> 1480" using assms(4) by simp_all
  then have "length h div 2 \<le> 740" "length pl div 2 \<le> 740" by linarith+
  then have b: "?a \<le> 65535 * 740" "?b \<le> 65535 * 740"
    using total16_bound [of "words16 h"] total16_bound [of "words16 pl"]
    by (auto simp: length_words16 intro: order.trans)
  have s: "unat (add_words (words16 h) 0) = ?a" "unat (add_words (words16 (h @ pl)) 0) = ?a + ?b"
    unfolding w using b by (subst unat_add_words; simp)+
  have "icmp_checksum (h @ pl) = icmp_checksum h \<longleftrightarrow> (?a + ?b) mod 65535 = ?a mod 65535"
    using assms(1,2,3) ones_complement_eq_iff [of "add_words (words16 (h @ pl)) 0" "add_words (words16 h) 0"]
    by (simp add: icmp_checksum_def add_bytes_def Let_def s)
  also have "\<dots> \<longleftrightarrow> 65535 dvd ?a + ?b - ?a" by (rule mod_eq_dvd_iff_nat) simp
  also have "\<dots> \<longleftrightarrow> ?b mod 65535 = 0" by (simp add: mod_eq_0_iff_dvd)
  finally show ?thesis .
qed

lemma icmp_process_sent:
  assumes "length rest = 4"
  shows "snd (icmp_process_packet i src (icmp_packet t c rest pl @ bs) s) =
     (if icmp_checksum ([t, c] @ le16 0 @ rest @ pl) \<noteq> icmp_checksum ([t, c] @ le16 0 @ rest) then s
      else if t = ICMP_ECHO_REQUEST
        then snd (icmp_send_echo_reply i src (bswap16 (rd16 rest 0)) (bswap16 (rd16 rest 2)) [] s)
      else if t = ICMP_ECHO_REPLY
        then s\<lparr>ping_reply_received := True, ping_reply_src_ip := src,
               ping_reply_seq := bswap16 (rd16 rest 2), ping_reply_time := timer_ticks s\<rparr>
      else s)"
proof -
  let ?ck = "icmp_checksum ([t, c] @ le16 0 @ rest @ pl)"
  have p: "icmp_packet t c rest pl @ bs = [t, c] @ le16 ?ck @ rest @ pl @ bs"
    using icmp_packet_fields [OF assms] by simp
  have r: "rd16 ([t, c] @ le16 ?ck @ rest @ pl @ bs) 2 = ?ck" by (rule rd16_field) simp
  have w: "wr16 ([t, c] @ le16 ?ck @ rest @ pl @ bs) 2 0 = [t, c] @ le16 0 @ rest @ pl @ bs"
    by (rule wr16_field) simp
  have f: "rd16 ([t, c] @ le16 0 @ rest @ pl @ bs) 4 = rd16 rest 0"
    "rd16 ([t, c] @ le16 0 @ rest @ pl @ bs) 6 = rd16 rest 2"
    using rd16_append [of "[t, c] @ le16 0" "rest @ pl @ bs" 0] rd16_append [of "[t, c] @ le16 0" "rest @ pl @ bs" 2]
      rd16_prefix [of 0 rest "pl @ bs"] rd16_prefix [of 2 rest "pl @ bs"] assms by simp_all
  have t8: "take 8 ([t, c] @ le16 0 @ rest @ pl @ bs) = [t, c] @ le16 0 @ rest" using assms by simp
  have n0: "([t, c] @ le16 0 @ rest @ pl @ bs) ! 0 = t" by simp
  show ?thesis
    unfolding p icmp_process_packet_def Let_def r w f t8 n0 snd_conv by (rule refl)
qed

text \<open>
  An echo request without data is answered with an echo reply to the sender that carries the same
  identifier and sequence number. But the receiver checks the checksum over the eight header bytes only,
  while every sender, this kernel included, computes it over the data as well: a request with data is
  dropped unless the data happen to sum to a multiple of 65535.
\<close>

theorem icmp_echo_only_without_data:
  assumes "even (length pl)" and "length pl \<le> 1472"
  shows "snd (icmp_process_packet i src (icmp_packet ICMP_ECHO_REQUEST 0
        (le16 (bswap16 ident) @ le16 (bswap16 sq)) pl @ bs) s) =
     (if total16 (words16 pl) mod 65535 = 0
      then snd (icmp_send_echo_reply i src ident sq [] s) else s)"
proof -
  let ?r = "le16 (bswap16 ident) @ le16 (bswap16 sq)"
  let ?h = "[ICMP_ECHO_REQUEST, 0] @ le16 0 @ ?r"
  have pos: "0 < total16 (words16 ?h)"
    using words16_hd_pos [of ICMP_ECHO_REQUEST 0 "le16 0 @ ?r"] by (simp add: ICMP_ECHO_REQUEST_def del: words16.simps)
  have "icmp_checksum (?h @ pl) = icmp_checksum ?h \<longleftrightarrow> total16 (words16 pl) mod 65535 = 0"
    by (rule icmp_checksum_append [OF _ assms(1) pos]) (use assms(2) in simp_all)
  then have c: "icmp_checksum ([ICMP_ECHO_REQUEST, 0] @ le16 0 @ ?r @ pl) = icmp_checksum ?h \<longleftrightarrow>
      total16 (words16 pl) mod 65535 = 0" by simp
  have f: "rd16 ?r 0 = bswap16 ident" "rd16 ?r 2 = bswap16 sq"
    using rd16_le16 [of "bswap16 ident" "le16 (bswap16 sq)"] rd16_field [of "le16 (bswap16 ident)" 2 "bswap16 sq" "[]"]
    by simp_all
  have "length ?r = 4" by simp
  from icmp_process_sent [OF this, of i src ICMP_ECHO_REQUEST 0 pl bs s] c show ?thesis
    by (simp only: f bswap16_bswap16) auto
qed

theorem icmp_echo_only_without_data_witness:
  "snd (icmp_process_packet 0 0x7F000001 (icmp_packet ICMP_ECHO_REQUEST 0
      (le16 (bswap16 7) @ le16 (bswap16 1)) [1, 2] @ []) sample_net) = sample_net"
proof -
  have "total16 (words16 [1, 2]) mod 65535 \<noteq> 0" by (simp add: total16_def)
  then show ?thesis
    using icmp_echo_only_without_data [of "[1, 2]" 0 "0x7F000001" 7 1 "[]" sample_net] by simp
qed

end
