(* ===== verification/Dhcp_Properties.thy ===== *)
theory Dhcp_Properties
  imports Net_Properties
begin

text \<open>
  The DHCP client: option encoding and decoding, which packets may configure an interface, and what
  the renewal timer does.
\<close>

section \<open>Options\<close>

type_synonym dhcp_option = "u8 \<times> u8 list"

definition encode_option :: "dhcp_option \<Rightarrow> u8 list" where
  "encode_option opt = (case opt of (t, d) \<Rightarrow> t # of_nat (length d) # d)"

definition option_ok :: "dhcp_option \<Rightarrow> bool" where
  "option_ok opt \<longleftrightarrow> fst opt \<noteq> DHCP_OPTION_PAD \<and> fst opt \<noteq> DHCP_OPTION_END \<and> length (snd opt) < 256"

abbreviation encode :: "dhcp_option list \<Rightarrow> u8 list" where
  "encode opts \<equiv> concat (map encode_option opts)"

text \<open>What one option does, in terms of its own data.\<close>

definition option_effect :: "dhcp_option \<Rightarrow> dhcp_client_t \<times> u8 \<Rightarrow> dhcp_client_t \<times> u8" where
  "option_effect opt cm = (case opt of (t, d) \<Rightarrow> dhcp_parse_option d 0 t (length d) cm)"

lemma length_encode_option: "length (encode_option opt) = 2 + length (snd opt)"
  by (simp add: encode_option_def split_beta)

lemma unat_option_len: "length d < 256 \<Longrightarrow> unat (of_nat (length d) :: u8) = length d"
  by (intro unat_of_nat_small) simp

lemma parse_option_local:
  "dhcp_parse_option (pre @ d @ post) (length pre) t (length d) cm = dhcp_parse_option d 0 t (length d) cm"
proof -
  have "4 \<le> length d \<Longrightarrow> be32 (pre @ d @ post) (length pre) = be32 d 0"
    by (auto simp: be32_def nth_append numeral_2_eq_2)
  moreover have "length d = 1 \<Longrightarrow> (pre @ d @ post) ! length pre = d ! 0" by (simp add: nth_append)
  ultimately show ?thesis by (simp add: dhcp_parse_option_def split_beta)
qed

lemma parse_from_option:
  assumes ok: "option_ok (t, d)" and fits: "length pre + 2 + length d \<le> len"
  shows "parse_from (pre @ encode_option (t, d) @ post) len (length pre) cm =
     parse_from (pre @ encode_option (t, d) @ post) len (length (pre @ encode_option (t, d)))
       (option_effect (t, d) cm)"
proof -
  let ?o = "pre @ encode_option (t, d) @ post"
  have o: "?o = (pre @ [t, of_nat (length d)]) @ d @ post" by (simp add: encode_option_def)
  have n: "?o ! length pre = t" "unat (?o ! (length pre + 1)) = length d"
    using ok by (simp_all add: encode_option_def nth_append option_ok_def unat_option_len)
  have e: "dhcp_parse_option ?o (length pre + 1 + 1) t (length d) cm = option_effect (t, d) cm"
    using parse_option_local [of "pre @ [t, of_nat (length d)]" d post t cm]
    by (simp add: o option_effect_def)
  have i: "length pre + 1 + 1 + length d = length (pre @ encode_option (t, d))"
    by (simp add: length_encode_option)
  show ?thesis
    by (subst parse_from.simps) (use ok fits n e in \<open>simp add: Let_def option_ok_def length_encode_option\<close>)
qed

lemma parse_from_encoded:
  assumes "\<forall>opt\<in>set opts. option_ok opt" and "length pre + length (encode opts) < len"
  shows "parse_from (pre @ encode opts @ DHCP_OPTION_END # post) len (length pre) cm =
     fold option_effect opts cm"
  using assms
proof (induction opts arbitrary: pre cm)
  case Nil
  then show ?case by (subst parse_from.simps) (simp add: Let_def dhcp_options)
next
  case (Cons opt opts)
  obtain t d where td: "opt = (t, d)" by fastforce
  have "parse_from (pre @ encode_option opt @ (encode opts @ DHCP_OPTION_END # post)) len (length pre) cm =
      parse_from (pre @ encode_option opt @ (encode opts @ DHCP_OPTION_END # post)) len
        (length (pre @ encode_option opt)) (option_effect opt cm)"
    unfolding td by (rule parse_from_option) (use Cons.prems td in \<open>simp_all add: length_encode_option\<close>)
  also have "\<dots> = fold option_effect opts (option_effect opt cm)"
    using Cons.IH [of "pre @ encode_option opt" "option_effect opt cm"] Cons.prems by simp
  finally show ?case by simp
qed

definition add_all :: "dhcp_option list \<Rightarrow> u8 list \<times> nat \<Rightarrow> u8 list \<times> nat" where
  "add_all opts os = fold (\<lambda>(t, d) os. add_opt t (of_nat (length d)) (Some d) os) opts os"

lemma add_opt_appends:
  assumes "length d < 256" and "length pre + 2 + length d < 312"
  shows "add_opt t (of_nat (length d)) (Some d) (pre @ replicate (312 - length pre) 0, length pre) =
     ((pre @ encode_option (t, d)) @ replicate (312 - length (pre @ encode_option (t, d))) 0,
      length (pre @ encode_option (t, d)))"
proof -
  have z: "(0 :: u8) < of_nat (length d) \<longleftrightarrow> d \<noteq> []"
    using assms(1) by (simp add: word_less_nat_alt unat_option_len)
  have w1: "write_at (length pre) [t, of_nat (length d)] (pre @ replicate (312 - length pre) 0) =
      (pre @ [t, of_nat (length d)]) @ replicate (310 - length pre) 0"
    using assms(2) by (simp add: write_at_def)
  have "write_at (length pre + 2) d ((pre @ [t, of_nat (length d)]) @ replicate (310 - length pre) 0) =
      (pre @ [t, of_nat (length d)]) @ d @ replicate (310 - length pre - length d) 0"
    using assms(2) by (simp add: write_at_def)
  with w1 show ?thesis
    using assms by (simp add: dhcp_add_option_def unat_option_len z Let_def encode_option_def)
qed

lemma add_all_encodes:
  assumes "\<forall>opt\<in>set opts. option_ok opt" and "length pre + length (encode opts) < 312"
  shows "add_all opts (pre @ replicate (312 - length pre) 0, length pre) =
     ((pre @ encode opts) @ replicate (312 - length (pre @ encode opts)) 0, length (pre @ encode opts))"
  using assms
proof (induction opts arbitrary: pre)
  case (Cons opt opts)
  obtain t d where td: "opt = (t, d)" by fastforce
  have "add_opt t (of_nat (length d)) (Some d) (pre @ replicate (312 - length pre) 0, length pre) =
     ((pre @ encode_option opt) @ replicate (312 - length (pre @ encode_option opt)) 0,
      length (pre @ encode_option opt))"
    unfolding td by (rule add_opt_appends) (use Cons.prems td in \<open>simp_all add: option_ok_def length_encode_option\<close>)
  with Cons.IH [of "pre @ encode_option opt"] Cons.prems show ?case
    by (simp add: add_all_def td)
qed (simp add: add_all_def)

lemma written_options:
  assumes "\<forall>opt\<in>set opts. option_ok opt" and "length (encode opts) + 2 < 312"
  shows "fst (add_opt DHCP_OPTION_END 0 None (add_all opts no_options)) =
      encode opts @ DHCP_OPTION_END # 0 # replicate (310 - length (encode opts)) 0"
proof -
  let ?e = "encode opts"
  have a: "add_all opts no_options = (?e @ replicate (312 - length ?e) 0, length ?e)"
    using add_all_encodes [of opts "[]"] assms by simp
  have "write_at (length ?e) [DHCP_OPTION_END, 0] (?e @ replicate (312 - length ?e) 0) =
      ?e @ DHCP_OPTION_END # 0 # replicate (310 - length ?e) 0"
    using assms(2) by (simp add: write_at_def)
  then show ?thesis
    unfolding a using assms(2) by (simp add: dhcp_add_option_def Let_def)
qed

section \<open>What the options mean\<close>

text \<open>
  The meaning of a list of options in the terms of RFC 2132: the data of the last option with a given code and an accepted
  length; and a value of four bytes, most significant first.
\<close>

definition last_option :: "u8 \<Rightarrow> (nat \<Rightarrow> bool) \<Rightarrow> dhcp_option list \<Rightarrow> u8 list option" where
  "last_option code accepted opts = map_option snd (find (\<lambda>(t, d). t = code \<and> accepted (length d)) (rev opts))"

definition number4 :: "u8 list \<Rightarrow> u32" where
  "number4 d = of_nat (((unat (d ! 0) * 256 + unat (d ! 1)) * 256 + unat (d ! 2)) * 256 + unat (d ! 3))"

definition told :: "u8 \<Rightarrow> (nat \<Rightarrow> bool) \<Rightarrow> dhcp_option list \<Rightarrow> u32 \<Rightarrow> u32" where
  "told code accepted opts old = (case last_option code accepted opts of None \<Rightarrow> old | Some d \<Rightarrow> number4 d)"

definition configured :: "dhcp_option list \<Rightarrow> dhcp_client_t \<Rightarrow> dhcp_client_t" where
  "configured opts k =
     k\<lparr>dhcp_subnet_mask := told 1 (\<lambda>n. n = 4) opts (dhcp_subnet_mask k),
       dhcp_gateway := told 3 (\<lambda>n. 4 \<le> n) opts (dhcp_gateway k),
       dns_server := told 6 (\<lambda>n. 4 \<le> n) opts (dns_server k),
       lease_time := told 51 (\<lambda>n. n = 4) opts (lease_time k),
       server_ip := told 54 (\<lambda>n. n = 4) opts (server_ip k),
       renewal_time := told 58 (\<lambda>n. n = 4) opts (renewal_time k),
       rebinding_time := told 59 (\<lambda>n. n = 4) opts (rebinding_time k)\<rparr>"

lemma be32_number4: "be32 d 0 = number4 d"
proof -
  let ?a = "push_bit 24 (ucast (d ! 0)) :: u32" and ?b = "push_bit 16 (ucast (d ! 1)) :: u32"
    and ?c = "push_bit 8 (ucast (d ! 2)) :: u32" and ?e = "ucast (d ! 3) :: u32"
  have "?a + (?b + (?c + ?e)) = ?a OR (?b OR (?c OR ?e))"
  proof -
    have c: "?c + ?e = ?c OR ?e" by (rule disjunctive_add) (auto simp: bit_simps dest: bit_imp_le_length)
    have b: "?b + (?c OR ?e) = ?b OR (?c OR ?e)" by (rule disjunctive_add) (auto simp: bit_simps dest: bit_imp_le_length)
    have "?a + (?b OR (?c OR ?e)) = ?a OR (?b OR (?c OR ?e))" by (rule disjunctive_add) (auto simp: bit_simps dest: bit_imp_le_length)
    with b c show ?thesis by simp
  qed
  moreover have "?a + (?b + (?c + ?e)) = number4 d" by (simp add: number4_def push_bit_eq_mult algebra_simps)
  ultimately show ?thesis by (simp add: be32_def or.assoc numeral_2_eq_2 numeral_3_eq_3)
qed

lemma last_option_snoc:
  "last_option code accepted [] = None"
  "last_option code accepted (opts @ [(t, d)]) =
     (if t = code \<and> accepted (length d) then Some d else last_option code accepted opts)"
  by (simp_all add: last_option_def)

lemma option_effect_snoc:
  "option_effect (t, d) (configured opts k, case last_option 53 (\<lambda>n. n = 1) opts of None \<Rightarrow> m | Some d \<Rightarrow> d ! 0) =
     (configured (opts @ [(t, d)]) k, case last_option 53 (\<lambda>n. n = 1) (opts @ [(t, d)]) of None \<Rightarrow> m | Some d \<Rightarrow> d ! 0)"
proof -
  consider "t = 53" | "t = 1" | "t = 3" | "t = 6" | "t = 51" | "t = 54" | "t = 58" | "t = 59" | "t \<notin> {53, 1, 3, 6, 51, 54, 58, 59}" by blast
  then show ?thesis
    by cases (auto simp: option_effect_def dhcp_parse_option_def dhcp_options configured_def told_def last_option_snoc be32_number4)
qed

lemma option_effects:
  "fold option_effect opts (k, m) =
     (configured opts k, case last_option 53 (\<lambda>n. n = 1) opts of None \<Rightarrow> m | Some d \<Rightarrow> d ! 0)"
proof (induction opts rule: rev_induct)
  case Nil
  then show ?case by (simp add: configured_def told_def last_option_snoc)
next
  case (snoc x opts)
  obtain t d where x: "x = (t, d)" by fastforce
  have "fold option_effect (opts @ [x]) (k, m) =
      option_effect x (configured opts k, case last_option 53 (\<lambda>n. n = 1) opts of None \<Rightarrow> m | Some d \<Rightarrow> d ! 0)"
    using snoc by simp
  also have "\<dots> = (configured (opts @ [x]) k, case last_option 53 (\<lambda>n. n = 1) (opts @ [x]) of None \<Rightarrow> m | Some d \<Rightarrow> d ! 0)"
    unfolding x by (rule option_effect_snoc)
  finally show ?case .
qed
section \<open>What parsing keeps\<close>

lemma parse_option_keeps:
  "offered_ip (fst (dhcp_parse_option o' i t n cm)) = offered_ip (fst cm)"
  "dhcp_state (fst (dhcp_parse_option o' i t n cm)) = dhcp_state (fst cm)"
  "dhcp_iface (fst (dhcp_parse_option o' i t n cm)) = dhcp_iface (fst cm)"
  "transaction_id (fst (dhcp_parse_option o' i t n cm)) = transaction_id (fst cm)"
  "dhcp_active (fst (dhcp_parse_option o' i t n cm)) = dhcp_active (fst cm)"
  by (simp_all add: dhcp_parse_option_def split_beta)

lemma parse_from_keeps:
  "offered_ip (fst (parse_from o' len i cm)) = offered_ip (fst cm) \<and>
   dhcp_state (fst (parse_from o' len i cm)) = dhcp_state (fst cm) \<and>
   dhcp_iface (fst (parse_from o' len i cm)) = dhcp_iface (fst cm) \<and>
   dhcp_active (fst (parse_from o' len i cm)) = dhcp_active (fst cm)"
proof (induction o' len i cm rule: parse_from.induct)
  case (1 o' len i cm)
  consider "\<not> i < len" | "i < len" "o' ! i = DHCP_OPTION_PAD"
    | "i < len" "o' ! i \<noteq> DHCP_OPTION_PAD"
      "o' ! i = DHCP_OPTION_END \<or> len \<le> i + 1 \<or> len < i + 1 + 1 + unat (o' ! (i + 1))"
    | "i < len" "o' ! i \<noteq> DHCP_OPTION_PAD" "o' ! i \<noteq> DHCP_OPTION_END" "\<not> len \<le> i + 1"
      "\<not> len < i + 1 + 1 + unat (o' ! (i + 1))" by blast
  then show ?case
  proof cases
    case 1
    then show ?thesis by (subst (1 2 3 4) parse_from.simps) simp
  next
    case 2
    with "1.IH"(1) show ?thesis by (subst (1 2 3 4) parse_from.simps) (simp add: Let_def)
  next
    case 3
    then show ?thesis by (subst (1 2 3 4) parse_from.simps) (auto simp: Let_def)
  next
    case 4
    have "parse_from o' len i cm = parse_from o' len (i + 1 + 1 + unat (o' ! (i + 1)))
        (dhcp_parse_option o' (i + 1 + 1) (o' ! i) (unat (o' ! (i + 1))) cm)"
      using 4 by (subst parse_from.simps) (simp add: Let_def)
    then show ?thesis
      using "1.IH"(2) [OF 4(1) refl refl 4(2-4) refl refl] 4(5) by (simp add: parse_option_keeps)
  qed
qed

lemma if_pool_request: "if_pool (snd (dhcp_client_request c s)) = if_pool s"
  by (simp add: dhcp_client_request_def udp_send_packet_def Let_def split_beta split: option.split)

section \<open>Sending a request\<close>

lemma add_opt_offset: "snd os < 312 \<Longrightarrow> snd (add_opt t n d os) < 312"
  by (cases os) (simp add: dhcp_add_option_def Let_def split: option.split)

lemma request_message_length:
  "0 < length (dhcp_message (dhcp_header xid fl ci mac) (request_options a b m))"
  "length (dhcp_message (dhcp_header xid fl ci mac) (request_options a b m)) \<le> 552"
proof -
  have "snd (request_options a b m) < 312"
    unfolding request_options_def by (intro add_opt_offset) simp
  then show "length (dhcp_message (dhcp_header xid fl ci mac) (request_options a b m)) \<le> 552"
    by (simp add: dhcp_message_def split_beta)
  show "0 < length (dhcp_message (dhcp_header xid fl ci mac) (request_options a b m))"
    by (simp add: dhcp_message_def dhcp_header_def split_beta)
qed

lemma dhcp_header_fields:
  assumes "length mac = 6"
  shows "rd32 (dhcp_header xid fl ci mac @ os) 4 = bswap32 xid"
    and "rd32 (dhcp_header xid fl ci mac @ os) 236 = bswap32 DHCP_MAGIC_COOKIE"
    and "length (dhcp_header xid fl ci mac) = 240"
proof -
  show "length (dhcp_header xid fl ci mac) = 240" using assms by (simp add: dhcp_header_def)
  show "rd32 (dhcp_header xid fl ci mac @ os) 4 = bswap32 xid"
    unfolding dhcp_header_def append_assoc by (rule rd32_field) simp
  let ?h = "[1, 1, 6, 0] @ le32 (bswap32 xid) @ le16 0 @ le16 (bswap16 fl) @ le32 (bswap32 ci) @
     le32 0 @ le32 0 @ le32 0 @ (take 6 mac @ replicate 10 0) @ replicate 64 0 @ replicate 128 0"
  have "dhcp_header xid fl ci mac @ os = ?h @ le32 (bswap32 DHCP_MAGIC_COOKIE) @ os"
    unfolding dhcp_header_def append_assoc ..
  moreover have "length ?h = 236" using assms by simp
  ultimately show "rd32 (dhcp_header xid fl ci mac @ os) 236 = bswap32 DHCP_MAGIC_COOKIE"
    using rd32_field by metis
qed

lemma udp_broadcast_sent:
  assumes "0 < length pl" and "length pl \<le> 1472" and "active (iface s i)" and "send_packet (iface s i) = Some d"
  shows "fst (udp_send_packet i 0xFFFFFFFF sp dp pl s) = NET_SUCCESS"
proof -
  have "ip_packet n p src dst u \<noteq> []" for n p src dst u
    using length_ip_packet [of n p src dst u] by (metis add_is_0 list.size(3) zero_neq_numeral)
  moreover have "ethernet_frame m m' et pk \<noteq> []" if "pk \<noteq> []" for m m' et pk
    using that by (simp add: ethernet_frame_def Let_def)
  moreover have "udp_packet src dst sp dp pl \<noteq> []" for src dst
    using length_udp_packet [of src dst sp dp pl] by (metis add_is_0 list.size(3) zero_neq_numeral)
  ultimately show ?thesis
    using assms by (simp add: udp_send_packet_def ip_send_packet_def ethernet_send_frame_def
        network_send_raw_def UDP_MAX_PAYLOAD_def UDP_HEADER_LEN_def ip_consts eth_consts Let_def)
qed

lemma dhcp_clients_send:
  "dhcp_clients (snd (udp_send_packet i dst sp dp pl s)) = dhcp_clients s"
  using ip_send_shape [of i dst IP_PROTOCOL_UDP "udp_packet (ip_address (iface s i)) dst sp dp pl" s]
  by (auto simp: udp_send_packet_def)

lemma dhcp_request_sent:
  assumes "c < length (dhcp_clients s)" and "dhcp_iface (client s c) = Some i" and "offered_ip (client s c) \<noteq> 0"
    and "active (iface s i)" and "send_packet (iface s i) = Some d"
  shows "client (snd (dhcp_client_request c s)) c = (client s c)\<lparr>dhcp_state := DHCP_STATE_REQUESTING\<rparr>"
proof -
  have "fst (udp_send_packet i 0xFFFFFFFF 68 67 (dhcp_message (dhcp_header xid fl ci mac)
      (request_options a b m)) s) = NET_SUCCESS" for xid fl ci mac a b m
    using request_message_length [of xid fl ci mac a b m] assms(4,5) by (intro udp_broadcast_sent) simp_all
  with assms(1-3) show ?thesis
    by (simp add: dhcp_client_request_def Let_def split_beta net_codes dhcp_clients_send)
qed

lemma requesting_idle: "dhcp_state (client s c) = DHCP_STATE_REQUESTING \<Longrightarrow> dhcp_client_update c s = s"
  by (simp add: dhcp_client_update_def)

section \<open>Properties\<close>

text \<open>
  C33. Options arrive as they were written: whatever options \<^verbatim>\<open>dhcp_add_option\<close> wrote, as long as they fit the 312 bytes,
  parsing the array leaves the subnet mask, router, name server, lease time, server, renewal and rebinding times
  as the last option with the code RFC 2132 gives them and an accepted length says (four bytes, most significant first; routers and
  name servers may be lists, of which the first counts) or else as they were, the message type as the last
  option 53 of one byte says or else 0, and changes nothing else of the client.
\<close>

theorem dhcp_options_roundtrip:
  assumes "\<forall>opt\<in>set opts. option_ok opt" and "length (encode opts) + 2 < 312"
  shows "dhcp_parse_options (fst (add_opt DHCP_OPTION_END 0 None (add_all opts no_options))) 312 k =
    (k\<lparr>dhcp_subnet_mask := told 1 (\<lambda>n. n = 4) opts (dhcp_subnet_mask k),
       dhcp_gateway := told 3 (\<lambda>n. 4 \<le> n) opts (dhcp_gateway k),
       dns_server := told 6 (\<lambda>n. 4 \<le> n) opts (dns_server k),
       lease_time := told 51 (\<lambda>n. n = 4) opts (lease_time k),
       server_ip := told 54 (\<lambda>n. n = 4) opts (server_ip k),
       renewal_time := told 58 (\<lambda>n. n = 4) opts (renewal_time k),
       rebinding_time := told 59 (\<lambda>n. n = 4) opts (rebinding_time k)\<rparr>,
     case last_option 53 (\<lambda>n. n = 1) opts of None \<Rightarrow> 0 | Some d \<Rightarrow> d ! 0)"
proof -
  have "dhcp_parse_options (fst (add_opt DHCP_OPTION_END 0 None (add_all opts no_options))) 312 k = fold option_effect opts (k, 0)"
    using parse_from_encoded [OF assms(1), of "[]" 312 "0 # replicate (310 - length (encode opts)) 0" "(k, 0)"]
      written_options [OF assms] assms(2) by (simp add: dhcp_parse_options_def)
  then show ?thesis by (simp add: option_effects configured_def)
qed

definition sample_client :: dhcp_client_t where
  "sample_client = \<lparr>dhcp_iface = Some 0, dhcp_state = DHCP_STATE_REQUESTING, transaction_id = 7,
     server_ip = 0, offered_ip = 0x0A00020F, dhcp_subnet_mask = 0, dhcp_gateway = 0, dns_server = 0,
     lease_time = 0, renewal_time = 0, rebinding_time = 0, lease_start_time = 0, dhcp_active = False\<rparr>"

theorem dhcp_options_roundtrip_witness:
  "dhcp_parse_options (fst (add_opt DHCP_OPTION_END 0 None
      (add_all [(DHCP_OPTION_MSG_TYPE, [DHCP_ACK]), (DHCP_OPTION_LEASE_TIME, [0, 1, 0x51, 0x80])] no_options)))
      312 sample_client =
   (sample_client\<lparr>lease_time := 86400\<rparr>, DHCP_ACK)"
  by (subst dhcp_options_roundtrip)
    (simp_all add: option_ok_def encode_option_def dhcp_options told_def last_option_def number4_def sample_client_def)

text \<open>
  C13. Only an acknowledged request configures an interface: if processing a packet changes any interface,
  the packet had the full fixed header, the magic cookie and this client's transaction id, the client was
  requesting and the message type was ACK; the interface is then the client's own, its address is the one the
  server offered before and not one of this packet, and the client is bound and active.
\<close>

theorem dhcp_address_only_by_ack:
  assumes "if_pool (dhcp_client_process_packet c packet n s) \<noteq> if_pool s"
    and "c < length (dhcp_clients s)" and "dhcp_iface (client s c) = Some i"
  shows "240 \<le> n \<and> bswap32 (rd32 packet 236) = DHCP_MAGIC_COOKIE \<and>
     bswap32 (rd32 packet 4) = transaction_id (client s c) \<and> dhcp_state (client s c) = DHCP_STATE_REQUESTING \<and>
     snd (dhcp_parse_options (take 312 (drop 240 packet)) 312 (client s c)) = DHCP_ACK \<and>
     (let s' = dhcp_client_process_packet c packet n s
      in \<exists>mask gw. if_pool s' = (if_pool s)[i := (iface s i)\<lparr>ip_address := offered_ip (client s c),
             subnet_mask := mask, gateway := gw\<rparr>] \<and>
         dhcp_state (client s' c) = DHCP_STATE_BOUND \<and> dhcp_active (client s' c))"
proof -
  obtain k m where km: "dhcp_parse_options (take 312 (drop 240 packet)) 312 (client s c) = (k, m)" by fastforce
  have keep: "offered_ip k = offered_ip (client s c)" "dhcp_state k = dhcp_state (client s c)"
    "dhcp_iface k = Some i"
    using parse_from_keeps [of "take 312 (drop 240 packet)" 312 0 "(client s c, 0)"] km assms(3)
    by (simp_all add: dhcp_parse_options_def)
  show ?thesis
  proof (cases "240 \<le> n \<and> bswap32 (rd32 packet 236) = 0x63825363 \<and>
      bswap32 (rd32 packet 4) = transaction_id (client s c)")
    case False
    then have "dhcp_client_process_packet c packet n s = s" by (auto simp: dhcp_client_process_packet_def)
    with assms(1) show ?thesis by simp
  next
    case True
    then have p: "dhcp_state (client s c) = DHCP_STATE_REQUESTING \<and> m = DHCP_ACK"
      using assms(1) keep by (auto simp: dhcp_client_process_packet_def km Let_def if_pool_request split: if_splits)
    with True keep assms(2) show ?thesis
      by (simp add: dhcp_client_process_packet_def km Let_def DHCP_MAGIC_COOKIE_def dhcp_bind_lease_def)
         (intro exI; rule refl)
  qed
qed

definition requesting_net :: net where
  "requesting_net = sample_net\<lparr>dhcp_clients := replicate 4 sample_client\<rparr>"

definition sample_ack :: "u8 list" where
  "sample_ack = dhcp_header 7 0 0 [2, 0, 0, 0, 0, 1] @
     fst (add_opt DHCP_OPTION_END 0 None (add_all [(DHCP_OPTION_MSG_TYPE, [DHCP_ACK])] no_options))"

theorem dhcp_address_only_by_ack_witness:
  "dhcp_state (client requesting_net 0) = DHCP_STATE_REQUESTING \<and>
   snd (dhcp_parse_options (take 312 (drop 240 sample_ack)) 312 (client requesting_net 0)) = DHCP_ACK"
proof -
  have f: "bswap32 (rd32 sample_ack 4) = 7" "bswap32 (rd32 sample_ack 236) = DHCP_MAGIC_COOKIE"
    unfolding sample_ack_def by (subst dhcp_header_fields; simp)+
  let ?opts = "[(DHCP_OPTION_MSG_TYPE, [DHCP_ACK])]"
  have ok: "\<forall>opt\<in>set ?opts. option_ok opt" by (simp add: option_ok_def dhcp_options)
  have o: "take 312 (drop 240 sample_ack) = encode ?opts @ DHCP_OPTION_END # 0 # replicate 307 0"
    using written_options [OF ok] by (simp add: sample_ack_def dhcp_header_fields(3) encode_option_def)
  have "option_effect (DHCP_OPTION_MSG_TYPE, [DHCP_ACK]) (sample_client, 0) = (sample_client, DHCP_ACK)"
    by (simp add: option_effect_def dhcp_parse_option_def)
  then have p: "dhcp_parse_options (take 312 (drop 240 sample_ack)) 312 sample_client = (sample_client, DHCP_ACK)"
    using parse_from_encoded [OF ok, of "[]" 312 "0 # replicate 307 0" "(sample_client, 0)"]
    unfolding o dhcp_parse_options_def by (simp add: encode_option_def)
  have "ip_address (iface (dhcp_client_process_packet 0 sample_ack 552 requesting_net) 0) = 0x0A00020F"
    using f p by (simp add: dhcp_client_process_packet_def requesting_net_def DHCP_MAGIC_COOKIE_def sample_client_def
      dhcp_bind_lease_def Let_def) (simp add: sample_net_def)
  moreover have "ip_address (iface requesting_net 0) = 0x7F000001"
    by (simp add: requesting_net_def sample_net_def sample_lo_iface_def)
  ultimately have "if_pool (dhcp_client_process_packet 0 sample_ack 552 requesting_net) \<noteq> if_pool requesting_net"
    by auto
  from dhcp_address_only_by_ack [OF this, of 0] show ?thesis
    by (simp add: requesting_net_def sample_client_def)
qed

text \<open>
  An unanswered renewal is never followed up: when a bound client passes its renewal time, the update
  sends one request and leaves the client in the requesting state, not in the renewing state it sets first.
  In that state no later update does anything, whatever the time: the client neither rebinds nor gives up
  the address when the lease runs out.
\<close>

theorem dhcp_renewal_stuck:
  assumes "c < length (dhcp_clients s)" and "dhcp_active (client s c)"
    and "dhcp_state (client s c) = DHCP_STATE_BOUND" and "dhcp_iface (client s c) = Some i"
    and "offered_ip (client s c) \<noteq> 0" and "active (iface s i)" and "send_packet (iface s i) = Some d"
    and "renewal_time (client s c) \<le> dhcp_get_time s - lease_start_time (client s c)"
  shows "let s' = dhcp_client_update c s
     in dhcp_state (client s' c) = DHCP_STATE_REQUESTING \<and>
        (\<forall>t. dhcp_client_update c (s'\<lparr>timer_ticks := t\<rparr>) = s'\<lparr>timer_ticks := t\<rparr>)"
proof -
  let ?r = "upd_client c (\<lambda>k. k\<lparr>dhcp_state := DHCP_STATE_RENEWING\<rparr>) s"
  have u: "dhcp_client_update c s = snd (dhcp_client_request c ?r)"
    using assms by (simp add: dhcp_client_update_def Let_def)
  have "dhcp_state (client (snd (dhcp_client_request c ?r)) c) = DHCP_STATE_REQUESTING"
    using dhcp_request_sent [of c ?r i d] assms by simp
  then show ?thesis unfolding Let_def u by (intro conjI allI requesting_idle) simp_all
qed

definition bound_net :: net where
  "bound_net = sample_net\<lparr>dhcp_clients :=
     replicate 4 (sample_client\<lparr>dhcp_state := DHCP_STATE_BOUND, dhcp_active := True\<rparr>)\<rparr>"

theorem dhcp_renewal_stuck_witness:
  "let s' = dhcp_client_update 0 bound_net
     in dhcp_state (client s' 0) = DHCP_STATE_REQUESTING \<and>
        (\<forall>t. dhcp_client_update 0 (s'\<lparr>timer_ticks := t\<rparr>) = s'\<lparr>timer_ticks := t\<rparr>)"
  by (rule dhcp_renewal_stuck [where i = 0 and d = LOOPBACK])
     (simp_all add: bound_net_def sample_client_def sample_net_def sample_lo_iface_def)

end
