(* ===== verification/Tcp_Properties.thy ===== *)
theory Tcp_Properties
  imports Dhcp_Properties
begin

text \<open>
  The TCP connection table and state machine: what one segment does to a connection, which states a
  sequence of calls and segments can reach, and the ownership of protocol slots by socket descriptors.
\<close>

section \<open>Segment layout\<close>

lemma tcp_segment_eq:
  "tcp_segment src dst sp dp sq ak fl pl =
     tcp_header sp dp sq ak fl (tcp_checksum (tcp_header sp dp sq ak fl 0 @ pl) src dst) @ pl"
proof -
  let ?h = "le16 (bswap16 sp) @ le16 (bswap16 dp) @ le32 (bswap32 sq) @ le32 (bswap32 ak) @
     [push_bit 4 5, fl] @ le16 (bswap16 TCP_WINDOW_SIZE)"
  have "wr16 (?h @ le16 0 @ le16 0 @ pl) 16 c = ?h @ le16 c @ le16 0 @ pl" for c
    by (rule wr16_field) simp
  then show ?thesis
    unfolding tcp_segment_def tcp_header_def Let_def append_assoc by metis
qed

lemma tcp_segment_fields:
  shows "rd16 (tcp_segment src dst sp dp sq ak fl pl @ bs) 0 = bswap16 sp"
    and "rd16 (tcp_segment src dst sp dp sq ak fl pl @ bs) 2 = bswap16 dp"
    and "rd32 (tcp_segment src dst sp dp sq ak fl pl @ bs) 4 = bswap32 sq"
    and "(tcp_segment src dst sp dp sq ak fl pl @ bs) ! 13 = fl"
    and "drop 20 (tcp_segment src dst sp dp sq ak fl pl @ bs) = pl @ bs"
proof -
  show "rd16 (tcp_segment src dst sp dp sq ak fl pl @ bs) 0 = bswap16 sp"
    unfolding tcp_segment_eq tcp_header_def append_assoc by (rule rd16_le16)
  show "rd16 (tcp_segment src dst sp dp sq ak fl pl @ bs) 2 = bswap16 dp"
    unfolding tcp_segment_eq tcp_header_def append_assoc by (rule rd16_field) simp
  show "rd32 (tcp_segment src dst sp dp sq ak fl pl @ bs) 4 = bswap32 sq"
    unfolding tcp_segment_eq tcp_header_def append_assoc
    using rd32_field [of "le16 (bswap16 sp) @ le16 (bswap16 dp)" 4] by simp
  show "(tcp_segment src dst sp dp sq ak fl pl @ bs) ! 13 = fl"
    unfolding tcp_segment_eq tcp_header_def by (simp add: nth_append)
  show "drop 20 (tcp_segment src dst sp dp sq ak fl pl @ bs) = pl @ bs"
    unfolding tcp_segment_eq tcp_header_def by simp
qed

lemma tcp_send_fields [simp]:
  "connections (snd (tcp_send_packet i dst sp dp sq ak fl pl s)) = connections s"
  "connection_count (snd (tcp_send_packet i dst sp dp sq ak fl pl s)) = connection_count s"
  "tcp_events (snd (tcp_send_packet i dst sp dp sq ak fl pl s)) = tcp_events s"
  "tcp_sequence_number (snd (tcp_send_packet i dst sp dp sq ak fl pl s)) = tcp_sequence_number s"
  using ip_send_shape [of i dst IP_PROTOCOL_TCP
      "tcp_segment (ip_address (iface s i)) dst sp dp sq ak fl pl" s]
  by (auto simp: tcp_send_packet_def)

lemma call_back_fields [simp]:
  "connections (call_back cb e s) = connections s"
  "connection_count (call_back cb e s) = connection_count s"
  by (simp_all add: call_back_def log_event_def split: option.split)

lemma find_conn_first:
  assumes "c < MAX_CONNECTIONS" and "c_active (conn_at s c)" and "P (conn_at s c)"
    and "\<forall>k<c. \<not> (c_active (conn_at s k) \<and> P (conn_at s k))"
  shows "find_conn P s = Some c"
  using assms by (simp add: find_conn_def first_index_Some_iff)

section \<open>Active open\<close>

abbreviation same_peer :: "tcp_connection_t \<Rightarrow> u32 \<Rightarrow> u16 \<Rightarrow> u32 \<Rightarrow> u16 \<Rightarrow> bool" where
  "same_peer k lip lport rip rport \<equiv>
     c_local_ip k = lip \<and> c_local_port k = lport \<and> c_remote_ip k = rip \<and> c_remote_port k = rport"

text \<open>The ephemeral port of \<^verbatim>\<open>tcp_connect\<close>.\<close>

definition ephemeral_port :: "'z tcp_net_scheme \<Rightarrow> u16" where
  "ephemeral_port s = 32768 + ucast (tcp_sequence_number s mod 32768)"

text \<open>The connection after the SYN was sent.\<close>

definition syn_sent :: "u32 \<Rightarrow> u16 \<Rightarrow> u32 \<Rightarrow> u16 \<Rightarrow> tcp_connection_t \<Rightarrow> tcp_connection_t" where
  "syn_sent lip lport rip rport k =
     k\<lparr>c_local_ip := lip, c_local_port := lport, c_remote_ip := rip, c_remote_port := rport,
       c_state := TCP_SYN_SENT\<rparr>"

lemma tcp_connect_effect:
  assumes "rip \<noteq> 0" and "rport \<noteq> 0" and "network_find_route rip s = Some i"
  shows "tcp_connect c rip rport s =
     tcp_send_packet i rip (ephemeral_port s) rport (seq_num ((connections s)[c := syn_sent (ip_address (iface s i))
        (ephemeral_port s) rip rport (conn_at s c)] ! c)) 0 TCP_FLAG_SYN []
       (upd_conn c (syn_sent (ip_address (iface s i)) (ephemeral_port s) rip rport) s)"
  using assms by (simp add: tcp_connect_def Let_def ephemeral_port_def syn_sent_def)

lemma syn_ack_step:
  assumes "c < length (connections s)" and "c_state (conn_at s c) = TCP_SYN_SENT"
  shows "let s' = tcp_step i src sp dp sq (TCP_FLAG_SYN OR TCP_FLAG_ACK) pl c s
     in connections s' = (connections s)[c := (conn_at s c)\<lparr>ack_num := sq + 1, c_state := TCP_ESTABLISHED\<rparr>] \<and>
        tcp_events s' = tcp_events s @
          (case on_connect (conn_at s c) of None \<Rightarrow> [] | Some f \<Rightarrow> [Connected f c])"
  using assms by (simp add: tcp_step_def Let_def call_back_def log_event_def split: option.split)

text \<open>
  C29. Active open: \<^verbatim>\<open>tcp_connect\<close> puts a created connection into SYN_SENT, and the peer's SYN-ACK, in whatever
  buffer it arrives, takes exactly that connection to ESTABLISHED, acknowledges the peer's sequence
  number plus one and calls the connect callback once. The acknowledgement number the peer sent is not
  looked at, and the connection's own sequence number stays at the one the SYN used.
\<close>

theorem tcp_active_open:
  assumes c: "c < MAX_CONNECTIONS" "length (connections s) = MAX_CONNECTIONS" "c_active (conn_at s c)"
    and r: "rip \<noteq> 0" "rport \<noteq> 0" "network_find_route rip s = Some i"
    and lip: "lip = ip_address (iface s i)" and lport: "lport = ephemeral_port s"
    and other: "\<forall>k<c. \<not> (c_active (conn_at s k) \<and> same_peer (conn_at s k) lip lport rip rport)"
  shows "let s1 = snd (tcp_connect c rip rport s);
         s2 = tcp_process_packet j rip lip
                (tcp_segment rip lip rport lport pseq pack (TCP_FLAG_SYN OR TCP_FLAG_ACK) [] @ bs) s1
     in c_state (conn_at s1 c) = TCP_SYN_SENT \<and>
        connections s2 = (connections s)[c := (syn_sent lip lport rip rport (conn_at s c))
           \<lparr>ack_num := pseq + 1, c_state := TCP_ESTABLISHED\<rparr>] \<and>
        seq_num (conn_at s2 c) = seq_num (conn_at s c) \<and>
        tcp_events s2 = tcp_events s @
          (case on_connect (conn_at s c) of None \<Rightarrow> [] | Some f \<Rightarrow> [Connected f c])"
proof -
  define s1 where "s1 = snd (tcp_connect c rip rport s)"
  let ?k = "syn_sent lip lport rip rport (conn_at s c)"
  have s1: "connections s1 = (connections s)[c := ?k]" "tcp_events s1 = tcp_events s"
    by (simp_all add: s1_def tcp_connect_effect [OF r] lip lport)
  have f: "find_conn (\<lambda>k. same_peer k lip lport rip rport) s1 = Some c"
    by (rule find_conn_first) (use c other in \<open>simp_all add: s1 syn_sent_def\<close>)
  have k: "conn_at s1 c = ?k" using c by (simp add: s1)
  have p: "tcp_process_packet j rip lip
      (tcp_segment rip lip rport lport pseq pack (TCP_FLAG_SYN OR TCP_FLAG_ACK) [] @ bs) s1 =
      tcp_step j rip rport lport pseq (TCP_FLAG_SYN OR TCP_FLAG_ACK) bs c s1"
    unfolding tcp_process_packet_def tcp_segment_fields bswap16_bswap16 bswap32_bswap32 Let_def tcp_demux_def f
    by simp
  show ?thesis
    using syn_ack_step [of c s1 j rip rport lport pseq bs] c
    unfolding Let_def s1_def [symmetric] p by (simp add: k s1 syn_sent_def)
qed

definition opened_net :: net where
  "opened_net = sample_net\<lparr>connections := (connections sample_net)[0 := fresh_connection 1000 True],
     connection_count := 1, tcp_sequence_number := 1001\<rparr>"

lemma opened_net_route: "network_find_route 0x0A000005 opened_net = Some 1"
proof -
  have i: "interfaces opened_net = [Some 0, Some 1, None, None]" "interface_count opened_net = 2"
    and p: "if_pool opened_net = if_pool sample_net"
    by (simp_all add: opened_net_def sample_net_def)
  have u: "[0..<2] = [0, 1]" by (simp add: upt_rec)
  have "find_iface (\<lambda>f. active f \<and> ip_address f AND subnet_mask f = 0x0A000005 AND subnet_mask f) opened_net = Some 1"
    unfolding find_iface_def i p first_index_def u by (simp add: sample_net_def sample_lo_iface_def)
  then show ?thesis by (simp add: network_find_route_def)
qed

theorem tcp_active_open_witness:
  "let s1 = snd (tcp_connect 0 0x0A000005 80 opened_net);
       s2 = tcp_process_packet 1 0x0A000005 0x0A000002
              (tcp_segment 0x0A000005 0x0A000002 80 (ephemeral_port opened_net) 5000 1001
                (TCP_FLAG_SYN OR TCP_FLAG_ACK) [] @ []) s1
   in c_state (conn_at s1 0) = TCP_SYN_SENT \<and>
      connections s2 = (connections opened_net)[0 := (syn_sent 0x0A000002 (ephemeral_port opened_net) 0x0A000005 80
        (conn_at opened_net 0))\<lparr>ack_num := 5000 + 1, c_state := TCP_ESTABLISHED\<rparr>] \<and>
      seq_num (conn_at s2 0) = seq_num (conn_at opened_net 0) \<and>
      tcp_events s2 = tcp_events opened_net @
        (case on_connect (conn_at opened_net 0) of None \<Rightarrow> [] | Some f \<Rightarrow> [Connected f 0])"
  by (rule tcp_active_open [OF _ _ _ _ _ opened_net_route])
     (simp_all add: opened_net_def sample_net_def sample_lo_iface_def MAX_CONNECTIONS_def fresh_connection_def)

section \<open>Sequences of calls and segments\<close>

datatype tcp_call =
  Create | Connect nat u32 u16 | Listen u16 | Send nat "u8 list" | Close nat
| Segment nat u32 u32 "u8 list"

fun tcp_exec :: "tcp_call \<Rightarrow> 'z tcp_net_scheme \<Rightarrow> 'z tcp_net_scheme" where
  "tcp_exec Create s = snd (tcp_create_connection s)"
| "tcp_exec (Connect c rip rport) s = snd (tcp_connect c rip rport s)"
| "tcp_exec (Listen port) s = snd (tcp_listen port s)"
| "tcp_exec (Send c bytes) s = snd (tcp_send c bytes s)"
| "tcp_exec (Close c) s = tcp_close c s"
| "tcp_exec (Segment i src dst p) s = tcp_process_packet i src dst p s"

definition tcp_run :: "tcp_call list \<Rightarrow> 'z tcp_net_scheme \<Rightarrow> 'z tcp_net_scheme" where
  "tcp_run calls s = fold tcp_exec calls (snd (tcp_init s))"

lemma tcp_run_induct:
  assumes "P (snd (tcp_init s))" and "\<And>call s. P s \<Longrightarrow> P (tcp_exec call s)"
  shows "P (tcp_run calls s)"
proof -
  have "P (fold tcp_exec calls r)" if "P r" for r
    using that by (induction calls arbitrary: r) (simp_all add: assms(2))
  with assms(1) show ?thesis by (simp add: tcp_run_def)
qed

text \<open>A predicate on single connections that holds after an update of one of them.\<close>

abbreviation all_conns :: "(tcp_connection_t \<Rightarrow> bool) \<Rightarrow> 'z tcp_net_scheme \<Rightarrow> bool" where
  "all_conns P s \<equiv> length (connections s) = MAX_CONNECTIONS \<and> list_all P (connections s)"

lemma list_all_upd: "list_all P ks \<Longrightarrow> c < length ks \<longrightarrow> P x \<Longrightarrow> list_all P (ks[c := x])"
  by (cases "c < length ks") (auto simp: list_all_length nth_list_update)

lemma all_conns_nth: "all_conns P s \<Longrightarrow> c < length (connections s) \<Longrightarrow> P (conn_at s c)"
  by (simp add: list_all_length)

section \<open>Listeners\<close>

definition listens_nowhere :: "tcp_connection_t \<Rightarrow> bool" where
  "listens_nowhere k \<longleftrightarrow> (c_state k = TCP_LISTEN \<longrightarrow> c_local_ip k = 0)"

lemma listens_simps [simp]:
  "listens_nowhere (k\<lparr>ack_num := a\<rparr>) = listens_nowhere k"
  "listens_nowhere (k\<lparr>seq_num := a\<rparr>) = listens_nowhere k"
  "listens_nowhere (k\<lparr>c_remote_ip := b\<rparr>) = listens_nowhere k"
  "listens_nowhere (k\<lparr>c_remote_port := p\<rparr>) = listens_nowhere k"
  "listens_nowhere (k\<lparr>c_state := st\<rparr>) = (st = TCP_LISTEN \<longrightarrow> c_local_ip k = 0)"
  "listens_nowhere (fresh_connection a act)"
  by (simp_all add: listens_nowhere_def fresh_connection_def)

lemma listens_established:
  assumes "all_conns listens_nowhere s"
  shows "all_conns listens_nowhere (tcp_established i src sp dp sq fl pl c s)"
  using assms all_conns_nth [OF assms] by (simp add: tcp_established_def Let_def list_all_upd)

lemma listens_step:
  assumes "all_conns listens_nowhere s"
  shows "all_conns listens_nowhere (tcp_step i src sp dp sq fl pl c s)"
  using assms listens_established [OF assms] all_conns_nth [OF assms]
  by (simp add: tcp_step_def Let_def list_all_upd split: tcp_state_t.split)

lemma listens_demux:
  assumes "all_conns listens_nowhere s"
  shows "all_conns listens_nowhere (snd (tcp_demux src dst sp dp fl s))"
  using assms all_conns_nth [OF assms] by (simp add: tcp_demux_def list_all_upd split: option.split)

lemma listens_process:
  assumes "all_conns listens_nowhere s"
  shows "all_conns listens_nowhere (tcp_process_packet i src dst p s)"
proof -
  obtain c s' where d: "tcp_demux src dst (bswap16 (rd16 p 0)) (bswap16 (rd16 p 2)) (p ! 13) s = (c, s')"
    by fastforce
  with listens_demux [OF assms, of src dst "bswap16 (rd16 p 0)" "bswap16 (rd16 p 2)" "p ! 13"]
  have "all_conns listens_nowhere s'" by simp
  then show ?thesis
    by (cases c) (simp_all add: tcp_process_packet_def Let_def d listens_step)
qed

lemma listens_exec:
  assumes "all_conns listens_nowhere s"
  shows "all_conns listens_nowhere (tcp_exec call s)"
proof (cases call)
  case Create
  with assms show ?thesis by (simp add: tcp_create_connection_def Let_def list_all_upd)
next
  case (Connect c rip rport)
  have "list_all listens_nowhere ((connections s)[c := syn_sent a b rip rport (conn_at s c)])" for a b
    using assms by (simp add: list_all_upd syn_sent_def)
  with assms Connect show ?thesis
    by (simp add: tcp_connect_def Let_def syn_sent_def split: option.split)
next
  case (Listen port)
  have "c_local_ip ((fresh_connection a act)\<lparr>c_local_port := p\<rparr>) = 0" for a act p
    by (simp add: fresh_connection_def)
  with assms Listen show ?thesis
    by (simp add: tcp_listen_def tcp_create_connection_def Let_def list_all_upd)
next
  case (Send c bytes)
  with assms all_conns_nth [OF assms] show ?thesis
    by (simp add: tcp_send_def Let_def split_beta list_all_upd split: option.split)
next
  case (Close c)
  with assms show ?thesis by (simp add: tcp_close_def Let_def list_all_upd split: option.split)
next
  case (Segment i src dst p)
  with listens_process [OF assms] show ?thesis by simp
qed

lemma listens_run: "all_conns listens_nowhere (tcp_run calls s)"
  by (rule tcp_run_induct [where P = "all_conns listens_nowhere"], simp add: tcp_init_def list_all_length)
     (rule listens_exec)

text \<open>
  C39. Passive open never works: in every state reached by creating, connecting, listening, sending, closing
  and receiving segments, a segment addressed to any address but 0.0.0.0 that matches no connection exactly
  is answered with a reset and changes no connection, even if it is a SYN to a port some connection listens on.
\<close>

theorem tcp_passive_open_refused:
  assumes "dst \<noteq> 0" and "find_conn (\<lambda>k. same_peer k dst (bswap16 (rd16 p 2)) src (bswap16 (rd16 p 0))) (tcp_run calls s) = None"
  shows "tcp_process_packet i src dst p (tcp_run calls s) =
     snd (tcp_send_packet i src (bswap16 (rd16 p 2)) (bswap16 (rd16 p 0)) 0 (bswap32 (rd32 p 4) + 1)
       (TCP_FLAG_RST OR TCP_FLAG_ACK) [] (tcp_run calls s))"
proof -
  let ?s = "tcp_run calls s"
  have "\<not> (c_local_ip (conn_at ?s c) = dst \<and> c_local_port (conn_at ?s c) = port \<and> c_state (conn_at ?s c) = TCP_LISTEN)"
    if "c < MAX_CONNECTIONS" for c port
    using all_conns_nth [OF listens_run [of calls s], of c] listens_run [of calls s] assms(1) that
    by (auto simp: listens_nowhere_def)
  then have "find_conn (\<lambda>k. c_local_ip k = dst \<and> c_local_port k = port \<and> c_state k = TCP_LISTEN) ?s = None" for port
    unfolding find_conn_def first_index_None_iff by blast
  then have "tcp_demux src dst (bswap16 (rd16 p 0)) (bswap16 (rd16 p 2)) fl ?s = (None, ?s)" for fl
    using assms(2) by (simp add: tcp_demux_def)
  then show ?thesis by (simp add: tcp_process_packet_def Let_def)
qed

definition sample_syn :: "u8 list" where
  "sample_syn = tcp_segment 0x0A000005 0x0A000002 40000 80 700 0 TCP_FLAG_SYN [] @ []"

theorem tcp_passive_open_refused_witness:
  "tcp_process_packet 1 0x0A000005 0x0A000002 sample_syn (tcp_run [Listen 80] sample_net) =
   snd (tcp_send_packet 1 0x0A000005 80 40000 0 701 (TCP_FLAG_RST OR TCP_FLAG_ACK) [] (tcp_run [Listen 80] sample_net))"
proof -
  have f: "bswap16 (rd16 sample_syn 0) = 40000" "bswap16 (rd16 sample_syn 2) = 80" "bswap32 (rd32 sample_syn 4) = 700"
    unfolding sample_syn_def tcp_segment_fields by simp_all
  have "c_local_ip (conn_at (tcp_run [Listen 80] sample_net) c) = 0" if "c < MAX_CONNECTIONS" for c
    using that by (cases c) (simp_all add: tcp_run_def tcp_listen_def tcp_create_connection_def tcp_init_def
        fresh_connection_def Let_def MAX_CONNECTIONS_def)
  then have "find_conn (\<lambda>k. same_peer k 0x0A000002 80 0x0A000005 40000) (tcp_run [Listen 80] sample_net) = None"
    unfolding find_conn_def first_index_None_iff by fastforce
  from tcp_passive_open_refused [of "0x0A000002" sample_syn "0x0A000005" "[Listen 80]" sample_net 1, unfolded f] this
  show ?thesis by simp
qed

section \<open>Connection slots\<close>

fun takes_slot :: "tcp_call \<Rightarrow> bool" where
  "takes_slot Create = True"
| "takes_slot (Listen _) = True"
| "takes_slot _ = False"

lemma count_established: "connection_count (tcp_established i src sp dp sq fl pl c s) = connection_count s"
  by (simp add: tcp_established_def Let_def)

lemma count_process: "connection_count (tcp_process_packet i src dst p s) = connection_count s"
proof -
  obtain c s' where d: "tcp_demux src dst (bswap16 (rd16 p 0)) (bswap16 (rd16 p 2)) (p ! 13) s = (c, s')"
    by fastforce
  then have "connection_count s' = connection_count s"
    by (auto simp: tcp_demux_def split: option.splits if_splits)
  then show ?thesis
    by (cases c) (simp_all add: tcp_process_packet_def Let_def d tcp_step_def count_established split: tcp_state_t.split)
qed

lemma count_exec:
  "connection_count s \<le> MAX_CONNECTIONS \<Longrightarrow>
   connection_count (tcp_exec call s) =
     (if takes_slot call then min MAX_CONNECTIONS (connection_count s + 1) else connection_count s)"
  by (cases call) (auto simp: tcp_create_connection_def tcp_listen_def tcp_connect_def tcp_send_def tcp_close_def
      count_process Let_def split_beta split: option.split)

lemma count_run:
  fixes s :: "'z tcp_net_scheme"
  shows "connection_count (tcp_run calls s) = min MAX_CONNECTIONS (length (filter takes_slot calls))"
proof -
  have "connection_count (fold tcp_exec calls r) =
      min MAX_CONNECTIONS (connection_count r + length (filter takes_slot calls))"
    if "connection_count r \<le> MAX_CONNECTIONS" for r :: "'z tcp_net_scheme"
    using that by (induction calls arbitrary: r) (auto simp: count_exec min_def)
  then show ?thesis by (simp add: tcp_run_def tcp_init_def)
qed

text \<open>
  Connection slots are never reused: after any sequence of calls and segments a new connection can be
  created exactly if fewer than 32 creations and listens have been made since start-up. Closing connections
  does not help, so the 33rd connection of the kernel's life always fails.
\<close>

theorem tcp_slots_not_reused:
  "fst (tcp_create_connection (tcp_run calls s)) = None \<longleftrightarrow> MAX_CONNECTIONS \<le> length (filter takes_slot calls)"
  by (simp add: tcp_create_connection_def count_run Let_def)

section \<open>Socket descriptors\<close>

text \<open>
  A used descriptor is a UDP or TCP socket with a protocol slot that was handed out, and no two used
  descriptors of a type share a slot.
\<close>

definition fd_key :: "'z net_scheme \<Rightarrow> nat \<Rightarrow> int \<times> nat option" where
  "fd_key s k = (sk_type (sockets s ! k), sk_impl (sockets s ! k))"

definition fd_valid :: "'z net_scheme \<Rightarrow> nat \<Rightarrow> bool" where
  "fd_valid s k \<longleftrightarrow> (\<exists>u<udp_socket_count s. fd_key s k = (SOCK_DGRAM, Some u)) \<or>
     (\<exists>c<connection_count s. fd_key s k = (SOCK_STREAM, Some c))"

definition fds_ok :: "'z net_scheme \<Rightarrow> bool" where
  "fds_ok s \<longleftrightarrow> length (sockets s) = MAX_SOCKETS \<and> length (socket_used s) = MAX_SOCKETS \<and>
     (\<forall>k<MAX_SOCKETS. socket_used s ! k \<longrightarrow> fd_valid s k) \<and>
     (\<forall>k<MAX_SOCKETS. \<forall>j<MAX_SOCKETS. socket_used s ! k \<longrightarrow> socket_used s ! j \<longrightarrow> fd_key s k = fd_key s j \<longrightarrow> k = j)"

lemma fds_okI:
  assumes "length (sockets s) = MAX_SOCKETS" and "length (socket_used s) = MAX_SOCKETS"
    and "\<And>k. k < MAX_SOCKETS \<Longrightarrow> socket_used s ! k \<Longrightarrow> fd_valid s k"
    and "\<And>k j. k < MAX_SOCKETS \<Longrightarrow> j < MAX_SOCKETS \<Longrightarrow> socket_used s ! k \<Longrightarrow> socket_used s ! j \<Longrightarrow>
      fd_key s k = fd_key s j \<Longrightarrow> k = j"
  shows "fds_ok s"
  unfolding fds_ok_def using assms by blast

lemma fds_okD:
  assumes "fds_ok s"
  shows "length (sockets s) = MAX_SOCKETS" and "length (socket_used s) = MAX_SOCKETS"
    and "k < MAX_SOCKETS \<Longrightarrow> socket_used s ! k \<Longrightarrow> fd_valid s k"
    and "k < MAX_SOCKETS \<Longrightarrow> j < MAX_SOCKETS \<Longrightarrow> socket_used s ! k \<Longrightarrow> socket_used s ! j \<Longrightarrow>
      fd_key s k = fd_key s j \<Longrightarrow> k = j"
  using assms unfolding fds_ok_def by blast+

lemma fds_ok_mono:
  assumes ok: "fds_ok s" and len: "length (sockets s') = MAX_SOCKETS" "length (socket_used s') = MAX_SOCKETS"
    and used: "\<And>k. k < MAX_SOCKETS \<Longrightarrow> socket_used s' ! k \<Longrightarrow> socket_used s ! k \<and> fd_key s' k = fd_key s k"
    and count: "udp_socket_count s \<le> udp_socket_count s'" "connection_count s \<le> connection_count s'"
  shows "fds_ok s'"
proof (rule fds_okI [OF len])
  fix k assume k: "k < MAX_SOCKETS" "socket_used s' ! k"
  with fds_okD(3) [OF ok k(1)] used [OF k] count show "fd_valid s' k"
    unfolding fd_valid_def by (metis order.strict_trans2)
  fix j assume j: "j < MAX_SOCKETS" "socket_used s' ! j" "fd_key s' k = fd_key s' j"
  with fds_okD(4) [OF ok k(1) j(1)] used [OF k] used [OF j(1,2)] show "k = j" by simp
qed

text \<open>Protocol calls do not touch the descriptor table.\<close>

lemma tcp_send_sockets [simp]:
  "sockets (snd (tcp_send_packet i dst sp dp sq ak fl pl s)) = sockets s"
  "socket_used (snd (tcp_send_packet i dst sp dp sq ak fl pl s)) = socket_used s"
  "udp_socket_count (snd (tcp_send_packet i dst sp dp sq ak fl pl s)) = udp_socket_count s"
  using ip_send_shape [of i dst IP_PROTOCOL_TCP
      "tcp_segment (ip_address (iface s i)) dst sp dp sq ak fl pl" s]
  by (auto simp: tcp_send_packet_def)

lemma udp_send_sockets [simp]:
  "sockets (snd (udp_send_packet i dst sp dp pl s)) = sockets s"
  "socket_used (snd (udp_send_packet i dst sp dp pl s)) = socket_used s"
  "udp_socket_count (snd (udp_send_packet i dst sp dp pl s)) = udp_socket_count s"
  using ip_send_shape [of i dst IP_PROTOCOL_UDP "udp_packet (ip_address (iface s i)) dst sp dp pl" s]
  by (auto simp: udp_send_packet_def)

lemma udp_send_count [simp]:
  "connection_count (snd (udp_send_packet i dst sp dp pl s)) = connection_count s"
  using ip_send_shape [of i dst IP_PROTOCOL_UDP "udp_packet (ip_address (iface s i)) dst sp dp pl" s]
  by (auto simp: udp_send_packet_def)

definition fd_view :: "'z net_scheme \<Rightarrow> _" where
  "fd_view s = (map (\<lambda>x. (sk_type x, sk_impl x)) (sockets s), socket_used s, udp_socket_count s)"

lemma fds_ok_view:
  assumes "fds_ok s" and "fd_view s' = fd_view s" and "connection_count s \<le> connection_count s'"
  shows "fds_ok s'"
proof -
  from assms(2) have v: "map (\<lambda>x. (sk_type x, sk_impl x)) (sockets s') = map (\<lambda>x. (sk_type x, sk_impl x)) (sockets s)"
    and u: "socket_used s' = socket_used s" "udp_socket_count s' = udp_socket_count s"
    by (simp_all add: fd_view_def)
  have len: "length (sockets s') = length (sockets s)" using arg_cong [OF v, of length] by simp
  have "fd_key s' k = fd_key s k" if "k < MAX_SOCKETS" for k
    using arg_cong [OF v, of "\<lambda>xs. xs ! k"] that len fds_okD(1) [OF assms(1)] by (simp add: fd_key_def)
  then show ?thesis
    using fds_okD(1,2) [OF assms(1)] assms(3) by (intro fds_ok_mono [OF assms(1)]) (simp_all add: len u)
qed

lemma fd_view_flags [simp]:
  "fd_view (upd_sock k (\<lambda>x. x\<lparr>sk_bound := b\<rparr>) s) = fd_view s"
  "fd_view (upd_sock k (\<lambda>x. x\<lparr>sk_connected := b\<rparr>) s) = fd_view s"
  "fd_view (upd_sock k (\<lambda>x. x\<lparr>sk_listening := b\<rparr>) s) = fd_view s"
  "fd_view (upd_sock k (\<lambda>x. x\<lparr>sk_bound_port := p, sk_bound := b\<rparr>) s) = fd_view s"
  using map_update_same [of "\<lambda>x. (sk_type x, sk_impl x)" "\<lambda>x. x\<lparr>sk_bound_port := p, sk_bound := b\<rparr>" "sockets s" k]
  by (simp_all add: fd_view_def map_update_same [of "\<lambda>x. (sk_type x, sk_impl x)"])

lemma tcp_calls_view:
  "fd_view (snd (tcp_listen port s)) = fd_view s" "fd_view (snd (tcp_connect c rip rport s)) = fd_view s"
  "fd_view (snd (tcp_send c bytes s)) = fd_view s" "fd_view (tcp_close c s) = fd_view s"
  by (simp_all add: fd_view_def tcp_listen_def tcp_create_connection_def tcp_connect_def tcp_send_def tcp_close_def
      Let_def split_beta split: option.split)

lemma udp_calls_view:
  "fd_view (snd (udp_bind u port s)) = fd_view s" "fd_view (snd (udp_connect u rip rport s)) = fd_view s"
  "fd_view (snd (udp_sendto u bytes rip rport s)) = fd_view s" "fd_view (snd (udp_send u bytes s)) = fd_view s"
  "fd_view (udp_close u s) = fd_view s"
  by (simp_all add: fd_view_def udp_bind_def udp_connect_def udp_sendto_def udp_send_def udp_close_def
      Let_def split: option.split)

lemma calls_count:
  "connection_count s \<le> connection_count (snd (tcp_listen port s))"
  "connection_count (snd (tcp_connect c rip rport s)) = connection_count s"
  "connection_count (snd (tcp_send c bytes s)) = connection_count s"
  "connection_count (tcp_close c s) = connection_count s"
  "connection_count (snd (udp_bind u port s)) = connection_count s"
  "connection_count (snd (udp_connect u rip rport s)) = connection_count s"
  "connection_count (snd (udp_sendto u bytes rip rport s)) = connection_count s"
  "connection_count (snd (udp_send u bytes s)) = connection_count s"
  "connection_count (udp_close u s) = connection_count s"
  by (simp_all add: tcp_listen_def tcp_create_connection_def tcp_connect_def tcp_send_def tcp_close_def
      udp_bind_def udp_connect_def udp_sendto_def udp_send_def udp_close_def Let_def split_beta split: option.split)

lemmas fd_calls = tcp_calls_view udp_calls_view calls_count

lemma release_ok:
  assumes "fds_ok s" and "k < MAX_SOCKETS"
    and "socket_used s' = (socket_used s)[k := False]" and "length (sockets s') = MAX_SOCKETS"
    and "\<And>j. j \<noteq> k \<Longrightarrow> fd_key s' j = fd_key s j"
    and "udp_socket_count s \<le> udp_socket_count s'" and "connection_count s \<le> connection_count s'"
  shows "fds_ok s'"
proof (rule fds_ok_mono [OF assms(1,4) _ _ assms(6,7)])
  show "length (socket_used s') = MAX_SOCKETS" using assms(3) fds_okD(2) [OF assms(1)] by simp
  fix j assume j: "j < MAX_SOCKETS" "socket_used s' ! j"
  have "j \<noteq> k"
  proof
    assume "j = k"
    with j assms(3) fds_okD(2) [OF assms(1)] show False by simp
  qed
  with assms(3,5) j show "socket_used s ! j \<and> fd_key s' j = fd_key s j" by simp
qed

lemma claim_ok:
  assumes ok: "fds_ok s" and k: "k < MAX_SOCKETS"
    and used: "socket_used s' = (socket_used s)[k := True]" and len: "length (sockets s') = MAX_SOCKETS"
    and other: "\<And>j. j \<noteq> k \<Longrightarrow> fd_key s' j = fd_key s j"
    and new: "fd_key s' k = (SOCK_DGRAM, Some (udp_socket_count s)) \<and>
        udp_socket_count s' = udp_socket_count s + 1 \<and> connection_count s' = connection_count s \<or>
      fd_key s' k = (SOCK_STREAM, Some (connection_count s)) \<and>
        udp_socket_count s' = udp_socket_count s \<and> connection_count s' = connection_count s + 1"
  shows "fds_ok s'"
proof -
  have old: "fd_valid s j \<and> fd_valid s' j \<and> fd_key s' j \<noteq> fd_key s' k"
    if "j < MAX_SOCKETS" "socket_used s' ! j" "j \<noteq> k" for j
  proof -
    have v: "fd_valid s j" using that used fds_okD(3) [OF ok] by simp
    with other [OF that(3)] new show ?thesis
      unfolding fd_valid_def by (auto simp: sock_consts)
  qed
  have valid: "fd_valid s' k" using new by (auto simp: fd_valid_def)
  show ?thesis
  proof (rule fds_okI [OF len])
    show "length (socket_used s') = MAX_SOCKETS" using used fds_okD(2) [OF ok] by simp
    fix i assume i: "i < MAX_SOCKETS" "socket_used s' ! i"
    show "fd_valid s' i" using old [OF i] valid by blast
    fix j assume j: "j < MAX_SOCKETS" "socket_used s' ! j" and eq: "fd_key s' i = fd_key s' j"
    consider "i = k" | "j = k" | "i \<noteq> k" "j \<noteq> k" by blast
    then show "i = j"
    proof cases
      case 1 then show ?thesis using old [OF j] eq by metis
    next
      case 2 then show ?thesis using old [OF i] eq by metis
    next
      case 3
      then show ?thesis
        using fds_okD(4) [OF ok i(1) j(1)] i(2) j(2) eq used other [OF 3(1)] other [OF 3(2)] by simp
    qed
  qed
qed

lemma create_ok:
  assumes "fds_ok s"
  shows "fds_ok (snd (socket_create domain typ protocol s))"
proof (cases "first_index (\<lambda>k. \<not> socket_used s ! k) MAX_SOCKETS")
  case None
  then show ?thesis using assms by (simp add: socket_create_def allocate_socket_fd_def)
next
  case (Some k)
  then have k: "k < MAX_SOCKETS" by (simp add: first_index_Some_iff)
  note len = fds_okD(1,2) [OF assms]
  let ?s' = "snd (socket_create domain typ protocol s)"
  have key: "fd_key ?s' j = fd_key s j" if "j \<noteq> k" for j
    using that Some by (simp add: socket_create_def allocate_socket_fd_def free_socket_fd_def fd_key_def Let_def
        udp_create_socket_def tcp_create_connection_def)
  have l: "length (sockets ?s') = MAX_SOCKETS"
    using Some len by (simp add: socket_create_def allocate_socket_fd_def free_socket_fd_def Let_def
        udp_create_socket_def tcp_create_connection_def)
  consider "domain \<noteq> AF_INET"
    | "domain = AF_INET" "typ = SOCK_DGRAM" "udp_socket_count s < MAX_SOCKETS"
    | "domain = AF_INET" "typ = SOCK_STREAM" "connection_count s < MAX_CONNECTIONS"
    | "domain = AF_INET" "typ = SOCK_DGRAM \<longrightarrow> MAX_SOCKETS \<le> udp_socket_count s"
      "typ = SOCK_STREAM \<longrightarrow> MAX_CONNECTIONS \<le> connection_count s" by force
  then show ?thesis
  proof cases
    case 1
    with assms show ?thesis by (simp add: socket_create_def)
  next
    case 2
    show ?thesis
      by (rule claim_ok [OF assms k _ l key])
         (use 2 Some k len in \<open>simp_all add: socket_create_def allocate_socket_fd_def fd_key_def Let_def
            udp_create_socket_def\<close>)
  next
    case 3
    show ?thesis
      by (rule claim_ok [OF assms k _ l key])
         (use 3 Some k len in \<open>simp_all add: socket_create_def allocate_socket_fd_def fd_key_def Let_def
            tcp_create_connection_def sock_consts\<close>)
  next
    case 4
    show ?thesis
      by (rule release_ok [OF assms k _ l key])
         (use 4 Some k len in \<open>simp_all add: socket_create_def allocate_socket_fd_def free_socket_fd_def Let_def
            udp_create_socket_def tcp_create_connection_def\<close>)
  qed
qed

lemma close_ok:
  assumes "fds_ok s"
  shows "fds_ok (snd (socket_close fd s))"
proof (cases "get_socket fd s")
  case None
  with assms show ?thesis by (simp add: socket_close_def)
next
  case (Some k)
  define s1 where "s1 = (case sk_impl (sockets s ! k) of None \<Rightarrow> s
     | Some m \<Rightarrow> if sk_type (sockets s ! k) = SOCK_DGRAM then udp_close m s
                 else if sk_type (sockets s ! k) = SOCK_STREAM then tcp_close m s else s)"
  have ok1: "fds_ok s1"
    by (rule fds_ok_view [OF assms]) (simp_all add: s1_def fd_calls split: option.split)
  from Some have k: "k < MAX_SOCKETS" "fd = int k"
    by (auto simp: get_socket_def split: if_splits)
  have "snd (socket_close fd s) = free_socket_fd fd s1" using Some by (simp add: socket_close_def Let_def s1_def)
  moreover have "fds_ok (free_socket_fd fd s1)"
    by (rule release_ok [OF ok1 k(1)])
       (use k fds_okD(1) [OF ok1] in \<open>simp_all add: free_socket_fd_def fd_key_def\<close>)
  ultimately show ?thesis by simp
qed

lemma other_calls_ok:
  assumes "fds_ok s"
  shows "fds_ok (snd (socket_bind fd addr n s))" and "fds_ok (snd (socket_listen fd s))"
    and "fds_ok (snd (socket_connect fd addr n s))" and "fds_ok (snd (socket_send fd buf s))"
    and "fds_ok (snd (socket_sendto fd buf addr n s))"
proof -
  note keep = fds_ok_view [OF assms]
  show "fds_ok (snd (socket_bind fd addr n s))"
    by (rule keep) (simp_all add: socket_bind_def fd_calls Let_def split_beta split: option.split)
  show "fds_ok (snd (socket_listen fd s))"
    by (rule keep) (simp_all add: socket_listen_def fd_calls Let_def split_beta split: option.split)
  show "fds_ok (snd (socket_connect fd addr n s))"
    by (rule keep) (simp_all add: socket_connect_def fd_calls Let_def split_beta split: option.split)
  show "fds_ok (snd (socket_send fd buf s))"
    by (rule keep) (simp_all add: socket_send_def fd_calls Let_def split: option.split)
  show "fds_ok (snd (socket_sendto fd buf addr n s))"
    by (rule keep) (simp_all add: socket_sendto_def fd_calls Let_def split: option.split)
qed

text \<open>The states of the socket layer: start-up, then any sequence of socket calls.\<close>

inductive socket_reachable :: "'z net_scheme \<Rightarrow> bool" where
  boot: "length (sockets s) = MAX_SOCKETS \<Longrightarrow> socket_used s = replicate MAX_SOCKETS False \<Longrightarrow> socket_reachable s"
| create: "socket_reachable s \<Longrightarrow> socket_reachable (snd (socket_create domain typ protocol s))"
| bind: "socket_reachable s \<Longrightarrow> socket_reachable (snd (socket_bind fd addr n s))"
| listen: "socket_reachable s \<Longrightarrow> socket_reachable (snd (socket_listen fd s))"
| connect: "socket_reachable s \<Longrightarrow> socket_reachable (snd (socket_connect fd addr n s))"
| send: "socket_reachable s \<Longrightarrow> socket_reachable (snd (socket_send fd buf s))"
| sendto: "socket_reachable s \<Longrightarrow> socket_reachable (snd (socket_sendto fd buf addr n s))"
| close: "socket_reachable s \<Longrightarrow> socket_reachable (snd (socket_close fd s))"

text \<open>
  C27. Descriptors own their protocol slots: after any sequence of socket calls, failing ones included, every
  open descriptor is a UDP or TCP socket with a slot that was handed out, and no two open descriptors of the
  same type share one, so closing or reusing one never touches the traffic of another.
\<close>

theorem socket_slots_exclusive:
  assumes "socket_reachable s"
  shows "fds_ok s"
  using assms
proof induction
  case (boot s)
  then show ?case by (intro fds_okI) simp_all
qed (simp_all add: create_ok close_ok other_calls_ok)

theorem socket_slots_exclusive_witness:
  "fds_ok (snd (socket_close 0 (snd (socket_create AF_INET SOCK_STREAM 0
     (snd (socket_create AF_INET SOCK_DGRAM 0 sample_net))))))"
  by (rule socket_slots_exclusive)
     (intro socket_reachable.close socket_reachable.create socket_reachable.boot;
      simp add: sample_net_def MAX_SOCKETS_def)

end
