(* ===== verification/Vmm.thy ===== *)
theory Vmm
  imports Pmm
begin

text \<open>
  The virtual memory manager (\<^verbatim>\<open>memory/vmm.c\<close>): four-level page tables in physical memory, mapping,
  unmapping and translation of pages, and the MMIO address range.

  Page tables are read and written through the direct map (physical address plus \<^verbatim>\<open>hhdm_offset\<close>); here a
  table is referred to by its physical address and \<open>phys\<close> holds the 64-bit word at each physical address.
  The contexts the kernel has are the list \<open>contexts\<close>, whose first element is the static \<^verbatim>\<open>kernel_context\<close>;
  a context pointer is an index. The control registers and the addresses passed to \<^verbatim>\<open>invlpg\<close> are fields.
\<close>

section \<open>State\<close>

definition PAGE_SIZE :: u64 where "PAGE_SIZE = 4096"
definition PAGE_MASK :: u64 where "PAGE_MASK = PAGE_SIZE - 1"
definition PAGE_ALIGN :: "u64 \<Rightarrow> u64" where "PAGE_ALIGN a = a AND NOT PAGE_MASK"
definition PAGE_ALIGN_UP :: "u64 \<Rightarrow> u64" where "PAGE_ALIGN_UP a = (a + PAGE_MASK) AND NOT PAGE_MASK"
definition MMIO_VIRTUAL_BASE :: u64 where "MMIO_VIRTUAL_BASE = 0xFFFFFFFFC0000000"
definition PAGE_PRESENT :: u64 where "PAGE_PRESENT = push_bit 0 1"
definition PAGE_WRITABLE :: u64 where "PAGE_WRITABLE = push_bit 1 1"
definition PAGE_USER :: u64 where "PAGE_USER = push_bit 2 1"
definition PAGE_PWT :: u64 where "PAGE_PWT = push_bit 3 1"
definition PAGE_PCD :: u64 where "PAGE_PCD = push_bit 4 1"
definition PAGE_HUGE :: u64 where "PAGE_HUGE = push_bit 7 1"

lemmas page_flags = PAGE_PRESENT_def PAGE_WRITABLE_def PAGE_USER_def PAGE_PWT_def PAGE_PCD_def

definition PML4_INDEX :: "u64 \<Rightarrow> nat" where "PML4_INDEX a = unat (drop_bit 39 a AND 0x1FF)"
definition PDP_INDEX :: "u64 \<Rightarrow> nat" where "PDP_INDEX a = unat (drop_bit 30 a AND 0x1FF)"
definition PD_INDEX :: "u64 \<Rightarrow> nat" where "PD_INDEX a = unat (drop_bit 21 a AND 0x1FF)"
definition PT_INDEX :: "u64 \<Rightarrow> nat" where "PT_INDEX a = unat (drop_bit 12 a AND 0x1FF)"

record vmm_context_t =
  pml4 :: u64
  cr3_value :: u64

record vmm =
  contexts :: "vmm_context_t list"
  current_context :: nat
  next_mmio_vaddr :: u64
  hhdm_offset :: u64
  phys :: "u64 \<Rightarrow> u64"
  page_pool :: pmm
  cr0 :: u64
  cr3 :: u64
  cr4 :: u64
  flushed :: "u64 list"

abbreviation kernel_context :: "vmm \<Rightarrow> vmm_context_t" where
  "kernel_context s \<equiv> contexts s ! 0"

section \<open>Operations\<close>

definition vmm_get_hhdm_offset :: "vmm \<Rightarrow> u64" where
  "vmm_get_hhdm_offset s = hhdm_offset s"

definition vmm_set_hhdm_offset :: "u64 \<Rightarrow> vmm \<Rightarrow> vmm" where
  "vmm_set_hhdm_offset offset s = s\<lparr>hhdm_offset := offset\<rparr>"

definition vmm_init :: "vmm \<Rightarrow> int \<times> vmm" where
  "vmm_init s =
     (let current_cr3 = cr3 s
      in (0, s\<lparr>contexts := (contexts s)[0 := \<lparr>pml4 = current_cr3 AND NOT 0xFFF, cr3_value = current_cr3\<rparr>]\<rparr>))"

text \<open>The address of \<^verbatim>\<open>table->entries[index]\<close>, and the entry.\<close>

definition entry_at :: "u64 \<Rightarrow> nat \<Rightarrow> u64" where
  "entry_at table index = table + 8 * of_nat index"

abbreviation entry :: "(u64 \<Rightarrow> u64) \<Rightarrow> u64 \<Rightarrow> nat \<Rightarrow> u64" where
  "entry mem table index \<equiv> mem (entry_at table index)"

text \<open>\<^verbatim>\<open>memset(page, 0, PAGE_SIZE)\<close>\<close>

definition zero_page :: "u64 \<Rightarrow> (u64 \<Rightarrow> u64) \<Rightarrow> u64 \<Rightarrow> u64" where
  "zero_page page mem = (\<lambda>a. if a - page < PAGE_SIZE then 0 else mem a)"

text \<open>The block repeated for every level: follow the entry, or allocate a table and enter it.\<close>

definition walk_or_create :: "u64 \<Rightarrow> nat \<Rightarrow> vmm \<Rightarrow> u64 option \<times> vmm" where
  "walk_or_create table index s =
     (if entry (phys s) table index AND PAGE_PRESENT \<noteq> 0
      then (Some (entry (phys s) table index AND NOT PAGE_MASK), s)
      else case physical_alloc_page (page_pool s) of
             (new_page, pool) \<Rightarrow>
               if new_page = 0 then (None, s\<lparr>page_pool := pool\<rparr>)
               else (Some new_page,
                     s\<lparr>page_pool := pool,
                       phys := (zero_page new_page (phys s))
                         (entry_at table index := new_page OR PAGE_PRESENT OR PAGE_WRITABLE)\<rparr>))"

text \<open>The three levels, shared by \<^verbatim>\<open>vmm_map_page\<close> and the loop of \<^verbatim>\<open>vmm_map_mmio\<close>.\<close>

definition walk_tables :: "u64 \<Rightarrow> u64 \<Rightarrow> vmm \<Rightarrow> u64 option \<times> vmm" where
  "walk_tables root vaddr s =
     (case walk_or_create root (PML4_INDEX vaddr) s of
        (None, s) \<Rightarrow> (None, s)
      | (Some pdp, s) \<Rightarrow>
          (case walk_or_create pdp (PDP_INDEX vaddr) s of
             (None, s) \<Rightarrow> (None, s)
           | (Some pd, s) \<Rightarrow> walk_or_create pd (PD_INDEX vaddr) s))"

definition vmm_map_page :: "u64 \<Rightarrow> u64 \<Rightarrow> u64 \<Rightarrow> vmm \<Rightarrow> u64 option \<times> vmm" where
  "vmm_map_page physical_addr virtual_addr flags s =
     (if hhdm_offset s = 0 then (None, s)
      else case walk_tables (cr3_value (kernel_context s) AND NOT 0xFFF) virtual_addr s of
             (None, s) \<Rightarrow> (None, s)
           | (Some pt, s) \<Rightarrow>
               let page_flags = PAGE_PRESENT OR (flags AND (PAGE_WRITABLE OR PAGE_USER OR PAGE_PCD OR PAGE_PWT))
               in (Some virtual_addr,
                   s\<lparr>phys := (phys s)(entry_at pt (PT_INDEX virtual_addr) := physical_addr OR page_flags),
                     flushed := flushed s @ [virtual_addr]\<rparr>))"

definition get_or_create_table :: "u64 \<Rightarrow> nat \<Rightarrow> u64 \<Rightarrow> vmm \<Rightarrow> u64 option \<times> vmm" where
  "get_or_create_table parent index flags s =
     (if entry (phys s) parent index AND PAGE_PRESENT \<noteq> 0
      then (Some (entry (phys s) parent index AND NOT PAGE_MASK), s)
      else case physical_alloc_page (page_pool s) of
             (new_table, pool) \<Rightarrow>
               if new_table = 0 then (None, s\<lparr>page_pool := pool\<rparr>)
               else (Some new_table,
                     s\<lparr>page_pool := pool,
                       phys := (zero_page new_table (phys s)) (entry_at parent index := new_table OR flags)\<rparr>))"

text \<open>The mapping loop of \<^verbatim>\<open>vmm_map_mmio\<close> for the page numbers still to do; false where it returns NULL.\<close>

fun map_mmio_pages :: "u64 \<Rightarrow> u64 \<Rightarrow> u64 \<Rightarrow> nat list \<Rightarrow> vmm \<Rightarrow> bool \<times> vmm" where
  "map_mmio_pages root physical_addr vaddr [] s = (True, s)"
| "map_mmio_pages root physical_addr vaddr (i # is) s =
     (let paddr = physical_addr + of_nat i * PAGE_SIZE;
          this_vaddr = vaddr + of_nat i * PAGE_SIZE
      in case walk_tables root this_vaddr s of
           (None, s) \<Rightarrow> (False, s)
         | (Some pt, s) \<Rightarrow>
             let page_flags = PAGE_PRESENT OR PAGE_WRITABLE OR PAGE_PCD OR PAGE_PWT
             in map_mmio_pages root physical_addr vaddr is
                  (s\<lparr>phys := (phys s)(entry_at pt (PT_INDEX this_vaddr) := paddr OR page_flags)\<rparr>))"

definition vmm_map_mmio :: "u64 \<Rightarrow> u64 \<Rightarrow> vmm \<Rightarrow> u64 option \<times> vmm" where
  "vmm_map_mmio physical_addr sz s =
     (if hhdm_offset s = 0 then (None, s)
      else let vaddr = next_mmio_vaddr s;
               pages = (sz + PAGE_SIZE - 1) div PAGE_SIZE;
               s = s\<lparr>next_mmio_vaddr := next_mmio_vaddr s + pages * PAGE_SIZE\<rparr>
           in case map_mmio_pages (cr3_value (kernel_context s) AND NOT 0xFFF) physical_addr vaddr
                     [0..<unat pages] s of
                (False, s) \<Rightarrow> (None, s)
              | (True, s) \<Rightarrow>
                  (Some vaddr,
                   s\<lparr>flushed := flushed s @ map (\<lambda>i. vaddr + of_nat i * PAGE_SIZE) [0..<unat pages]\<rparr>))"

text \<open>The walk of \<^verbatim>\<open>vmm_unmap_page\<close> and \<^verbatim>\<open>vmm_get_physical_addr\<close>: the page table of an address.\<close>

definition find_table :: "u64 \<Rightarrow> u64 \<Rightarrow> vmm \<Rightarrow> u64 option" where
  "find_table root vaddr s =
     (let e4 = entry (phys s) root (PML4_INDEX vaddr)
      in if e4 AND PAGE_PRESENT = 0 then None
         else let e3 = entry (phys s) (e4 AND NOT PAGE_MASK) (PDP_INDEX vaddr)
              in if e3 AND PAGE_PRESENT = 0 then None
                 else let e2 = entry (phys s) (e3 AND NOT PAGE_MASK) (PD_INDEX vaddr)
                      in if e2 AND PAGE_PRESENT = 0 then None else Some (e2 AND NOT PAGE_MASK))"

definition vmm_unmap_page :: "u64 \<Rightarrow> vmm \<Rightarrow> vmm" where
  "vmm_unmap_page virtual_addr s =
     (if hhdm_offset s = 0 then s
      else case find_table (cr3_value (contexts s ! current_context s) AND NOT 0xFFF) virtual_addr s of
             None \<Rightarrow> s
           | Some pt \<Rightarrow>
               s\<lparr>phys := (phys s)(entry_at pt (PT_INDEX virtual_addr) := 0),
                 flushed := flushed s @ [virtual_addr]\<rparr>)"

partial_function (option) unmap_loop :: "u64 \<Rightarrow> u64 \<Rightarrow> vmm \<Rightarrow> vmm option" where
  "unmap_loop vaddr virt_end s =
     (if vaddr < virt_end then unmap_loop (vaddr + PAGE_SIZE) virt_end (vmm_unmap_page vaddr s) else Some s)"

definition vmm_unmap :: "u64 \<Rightarrow> u64 \<Rightarrow> vmm \<Rightarrow> vmm option" where
  "vmm_unmap virtual_addr sz s =
     (let virt_start = PAGE_ALIGN virtual_addr;
          virt_end = PAGE_ALIGN_UP (virtual_addr + sz)
      in unmap_loop virt_start virt_end s)"

definition vmm_get_physical_addr :: "u64 \<Rightarrow> vmm \<Rightarrow> u64" where
  "vmm_get_physical_addr virtual_addr s =
     (if hhdm_offset s = 0 then 0
      else case find_table (cr3_value (contexts s ! current_context s) AND NOT 0xFFF) virtual_addr s of
             None \<Rightarrow> 0
           | Some pt \<Rightarrow>
               if entry (phys s) pt (PT_INDEX virtual_addr) AND PAGE_PRESENT = 0 then 0
               else let phys_page = entry (phys s) pt (PT_INDEX virtual_addr) AND NOT PAGE_MASK;
                        offset = virtual_addr AND PAGE_MASK
                    in phys_page + offset)"

definition vmm_get_current_context :: "vmm \<Rightarrow> nat" where
  "vmm_get_current_context s = current_context s"

definition vmm_switch_context :: "nat option \<Rightarrow> vmm \<Rightarrow> vmm" where
  "vmm_switch_context context s =
     (case context of
        None \<Rightarrow> s
      | Some c \<Rightarrow>
          if c \<noteq> current_context s
          then s\<lparr>current_context := c, cr3 := cr3_value (contexts s ! c)\<rparr>
          else s)"

definition vmm_enable_paging :: "vmm \<Rightarrow> vmm" where
  "vmm_enable_paging s =
     s\<lparr>cr3 := cr3_value (kernel_context s),
       cr4 := cr4 s OR (push_bit 5 1 OR push_bit 7 1),
       cr0 := cr0 s OR push_bit 31 1\<rparr>"

section \<open>Page-aligned addresses\<close>

definition page_aligned :: "u64 \<Rightarrow> bool" where
  "page_aligned a \<longleftrightarrow> take_bit 12 a = 0"

lemma PAGE_MASK_mask: "PAGE_MASK = mask 12"
  by (simp add: PAGE_MASK_def PAGE_SIZE_def mask_eq_exp_minus_1)

lemma mask_0xFFF: "(0xFFF :: u64) = mask 12"
  by (simp add: mask_eq_exp_minus_1)

lemma page_aligned_not_mask [simp]: "page_aligned (a AND NOT (mask 12))" "page_aligned (a AND NOT PAGE_MASK)"
  by (auto simp: page_aligned_def PAGE_MASK_mask bit_simps intro!: bit_word_eqI)

lemma unat_take_bit: "unat (take_bit 12 a) = unat a mod 4096" for a :: u64
  by (simp add: take_bit_eq_mod unat_mod)

lemma page_aligned_bit: "page_aligned a \<Longrightarrow> n < 12 \<Longrightarrow> \<not> bit a n"
  unfolding page_aligned_def by (metis bit_0_eq bit_take_bit_iff bot_apply bot_bool_def)

lemma not_mask_aligned: "page_aligned a \<Longrightarrow> a AND NOT PAGE_MASK = a"
  by (rule bit_word_eqI) (auto simp: PAGE_MASK_mask bit_simps dest: page_aligned_bit)

lemma small_word_bit: "unat w < 4096 \<Longrightarrow> 12 \<le> n \<Longrightarrow> \<not> bit w n" for w :: u64
proof -
  assume w: "unat w < 4096" and n: "12 \<le> n"
  have "take_bit 12 w = w" using w by (simp add: word_unat_eq_iff unat_take_bit)
  with n show ?thesis by (metis bit_take_bit_iff not_le)
qed

lemma aligned_plus:
  assumes "page_aligned t" and "unat w < 4096"
  shows "t + w = t OR w" and "(t + w) AND NOT PAGE_MASK = t" and "(t + w) AND PAGE_MASK = w"
proof -
  have d: "t AND w = 0"
  proof (rule bit_word_eqI)
    fix n
    show "bit (t AND w) n = bit 0 n"
      using page_aligned_bit [OF assms(1), of n] small_word_bit [OF assms(2), of n]
      by (cases "n < 12") (simp_all add: bit_simps)
  qed
  show p: "t + w = t OR w" by (rule disjunctive_add_eq_or [OF d])
  have b: "bit t n \<longrightarrow> \<not> n < 12" "bit w n \<longrightarrow> n < 12" for n
    using page_aligned_bit [OF assms(1), of n] small_word_bit [OF assms(2), of n] by (cases "n < 12"; simp)+
  show "(t + w) AND NOT PAGE_MASK = t" unfolding p
    by (rule bit_word_eqI) (use b in \<open>auto simp: PAGE_MASK_mask bit_simps\<close>)
  show "(t + w) AND PAGE_MASK = w" unfolding p
    by (rule bit_word_eqI) (use b in \<open>auto simp: PAGE_MASK_mask bit_simps\<close>)
qed

lemma unat_slot: "i < 512 \<Longrightarrow> unat (8 * of_nat i :: u64) = 8 * i"
  using unat_of_nat_small [of "8 * i", where 'a = 64] by simp

lemma entry_at_parts:
  assumes "page_aligned t" "i < 512"
  shows "entry_at t i AND NOT PAGE_MASK = t" and "unat (entry_at t i AND PAGE_MASK) = 8 * i"
  using aligned_plus(2,3) [OF assms(1), of "8 * of_nat i"] unat_slot [OF assms(2)] assms(2)
  by (simp_all add: entry_at_def)

lemma entry_at_inj:
  assumes "page_aligned t" "page_aligned t'" "i < 512" "i' < 512"
  shows "entry_at t i = entry_at t' i' \<longleftrightarrow> t = t' \<and> i = i'"
proof
  assume e: "entry_at t i = entry_at t' i'"
  have "t = t'" using entry_at_parts(1) [OF assms(1,3)] entry_at_parts(1) [OF assms(2,4)] e by metis
  moreover have "8 * i = 8 * i'"
    using entry_at_parts(2) [OF assms(1,3)] entry_at_parts(2) [OF assms(2,4)] e by metis
  ultimately show "t = t' \<and> i = i'" by simp
qed simp

lemma page_aligned_dvd: "page_aligned a \<longleftrightarrow> 4096 dvd unat a"
  by (simp add: page_aligned_def word_unat_eq_iff unat_take_bit dvd_eq_mod_eq_0)

lemma page_aligned_diff:
  assumes "page_aligned a" "page_aligned b"
  shows "page_aligned (a - b)"
proof -
  have "(4096 :: nat) dvd 2 ^ 64" by simp
  with assms show ?thesis
    by (auto simp: page_aligned_dvd unat_sub_if' intro!: dvd_diff_nat dvd_add)
qed

lemma zero_page_entry:
  assumes "page_aligned n" "page_aligned t" "i < 512"
  shows "zero_page n mem (entry_at t i) = (if t = n then 0 else mem (entry_at t i))"
proof -
  have w: "unat (8 * of_nat i :: u64) < 4096" using unat_slot [OF assms(3)] assms(3) by simp
  have al: "page_aligned (t - n)"
    using assms(1,2) by (simp add: page_aligned_diff)
  have split: "entry_at t i - n = (t - n) + 8 * of_nat i" by (simp add: entry_at_def)
  have "entry_at t i - n < PAGE_SIZE \<longleftrightarrow> t = n"
  proof
    assume lt: "entry_at t i - n < PAGE_SIZE"
    have "t - n = (entry_at t i - n) AND NOT PAGE_MASK"
      unfolding split by (rule aligned_plus(2) [OF al w, symmetric])
    also have "\<dots> = 0"
    proof (rule bit_word_eqI)
      fix k
      have "unat (entry_at t i - n) < 4096" using lt by (simp add: PAGE_SIZE_def word_less_nat_alt)
      then show "bit ((entry_at t i - n) AND NOT PAGE_MASK) k = bit 0 k"
        using small_word_bit by (auto simp: PAGE_MASK_mask bit_simps not_less)
    qed
    finally show "t = n" by simp
  next
    assume "t = n"
    with w show "entry_at t i - n < PAGE_SIZE" by (simp add: entry_at_def PAGE_SIZE_def word_less_nat_alt)
  qed
  then show ?thesis by (simp add: zero_page_def)
qed

section \<open>The tree of page tables\<close>

text \<open>
  \<open>walk\<close> follows a path of indices through entries that are present and not large-page entries; \<open>small\<close>
  says that no large-page entry lies on the path, so that the code's walk, which does not look at the
  size bit, is this walk.
\<close>

definition child :: "(u64 \<Rightarrow> u64) \<Rightarrow> u64 \<Rightarrow> nat \<Rightarrow> u64 option" where
  "child mem t i =
     (let e = entry mem t i
      in if e AND PAGE_PRESENT \<noteq> 0 \<and> e AND PAGE_HUGE = 0 then Some (e AND NOT PAGE_MASK) else None)"

fun walk :: "(u64 \<Rightarrow> u64) \<Rightarrow> u64 \<Rightarrow> nat list \<Rightarrow> u64 option" where
  "walk mem t [] = Some t"
| "walk mem t (i # is) = (case child mem t i of None \<Rightarrow> None | Some c \<Rightarrow> walk mem c is)"

fun small :: "(u64 \<Rightarrow> u64) \<Rightarrow> u64 \<Rightarrow> nat list \<Rightarrow> bool" where
  "small mem t [] = True"
| "small mem t (i # is) =
     (entry mem t i AND PAGE_PRESENT \<noteq> 0 \<longrightarrow>
        entry mem t i AND PAGE_HUGE = 0 \<and> small mem (entry mem t i AND NOT PAGE_MASK) is)"

definition path_ok :: "nat list \<Rightarrow> bool" where
  "path_ok p \<longleftrightarrow> length p \<le> 3 \<and> (\<forall>i\<in>set p. i < 512)"

definition table_path :: "u64 \<Rightarrow> nat list" where
  "table_path v = [PML4_INDEX v, PDP_INDEX v, PD_INDEX v]"

definition tables :: "(u64 \<Rightarrow> u64) \<Rightarrow> u64 \<Rightarrow> u64 set" where
  "tables mem root = {a. \<exists>p. path_ok p \<and> walk mem root p = Some a}"

text \<open>No table is reached along two paths.\<close>

definition page_tree :: "(u64 \<Rightarrow> u64) \<Rightarrow> u64 \<Rightarrow> bool" where
  "page_tree mem root \<longleftrightarrow> page_aligned root \<and>
     (\<forall>p q. path_ok p \<longrightarrow> path_ok q \<longrightarrow> walk mem root p \<noteq> None \<longrightarrow> walk mem root p = walk mem root q \<longrightarrow> p = q)"

lemma page_treeD:
  assumes "page_tree mem root" and "path_ok p" and "path_ok q"
    and "walk mem root p = Some a" and "walk mem root q = Some a"
  shows "p = q"
  using assms unfolding page_tree_def by (metis option.distinct(1))

lemma child_aligned: "child mem t i = Some c \<Longrightarrow> page_aligned c"
  by (auto simp: child_def Let_def split: if_splits)

lemma walk_aligned: "page_aligned t \<Longrightarrow> walk mem t p = Some a \<Longrightarrow> page_aligned a"
  by (induction p arbitrary: t) (auto dest: child_aligned split: option.splits)

lemma walk_append: "walk mem t (p @ q) = (case walk mem t p of None \<Rightarrow> None | Some c \<Rightarrow> walk mem c q)"
  by (induction p arbitrary: t) (simp_all split: option.split)

lemma small_append: "walk mem t p = Some c \<Longrightarrow> small mem t (p @ q) \<longleftrightarrow> small mem c q"
  by (induction p arbitrary: t) (auto simp: child_def Let_def split: option.splits if_splits)

text \<open>A walk depends on the entries it reads only.\<close>

lemma walk_cong:
  assumes "\<And>r j q c. p = r @ j # q \<Longrightarrow> walk mem t r = Some c \<Longrightarrow> entry mem' c j = entry mem c j"
  shows "walk mem' t p = walk mem t p \<and> small mem' t p = small mem t p"
  using assms
proof (induction p arbitrary: t)
  case (Cons i p)
  have e: "entry mem' t i = entry mem t i" using Cons.prems [of "[]" i p t] by simp
  then have c: "child mem' t i = child mem t i" by (simp add: child_def)
  have ih: "walk mem' c p = walk mem c p \<and> small mem' c p = small mem c p" if "child mem t i = Some c" for c
    by (rule Cons.IH) (use Cons.prems [of "i # _"] that in simp)
  have "small mem' (entry mem t i AND NOT PAGE_MASK) p = small mem (entry mem t i AND NOT PAGE_MASK) p"
    if "entry mem t i AND PAGE_PRESENT \<noteq> 0" "entry mem t i AND PAGE_HUGE = 0"
    using ih that by (simp add: child_def)
  with ih show ?case by (auto simp: e c split: option.split)
qed simp

lemma path_ok_append: "path_ok (p @ q) \<Longrightarrow> path_ok p"
  by (simp add: path_ok_def)

lemma index_lt: "PML4_INDEX v < 512" "PDP_INDEX v < 512" "PD_INDEX v < 512" "PT_INDEX v < 512"
proof -
  have "unat (w AND 0x1FF) < 512" for w :: u64
  proof -
    have "(0x1FF :: u64) = mask 9" by (simp add: mask_eq_exp_minus_1)
    then have "w AND 0x1FF = take_bit 9 w" by (simp add: take_bit_eq_mask)
    then show ?thesis by (simp add: take_bit_eq_mod unat_mod)
  qed
  then show "PML4_INDEX v < 512" "PDP_INDEX v < 512" "PD_INDEX v < 512" "PT_INDEX v < 512"
    by (simp_all add: PML4_INDEX_def PDP_INDEX_def PD_INDEX_def PT_INDEX_def)
qed

lemma path_ok_table_path [simp]: "path_ok (table_path v)" "length (table_path v) = 3"
  by (simp_all add: path_ok_def table_path_def index_lt)

lemma find_table_walk:
  assumes "small (phys s) root (table_path v)"
  shows "find_table root v s = walk (phys s) root (table_path v)"
  using assms by (auto simp: find_table_def table_path_def child_def Let_def)

text \<open>The translation the tables give.\<close>

definition leaf_addr :: "u64 \<Rightarrow> u64 \<Rightarrow> u64" where
  "leaf_addr e v = (if e AND PAGE_PRESENT = 0 then 0 else (e AND NOT PAGE_MASK) + (v AND PAGE_MASK))"

definition lookup :: "(u64 \<Rightarrow> u64) \<Rightarrow> u64 \<Rightarrow> u64 \<Rightarrow> u64" where
  "lookup mem root v =
     (case walk mem root (table_path v) of
        None \<Rightarrow> 0
      | Some pt \<Rightarrow> leaf_addr (entry mem pt (PT_INDEX v)) v)"

section \<open>Writing a table entry\<close>

text \<open>A write to entry \<open>i\<close> of the table at path \<open>p\<close> concerns only the paths through it.\<close>

lemma write_elsewhere:
  assumes "page_tree mem root" and "path_ok p" and "walk mem root p = Some b" and "i < 512"
    and "path_ok q" and "\<nexists>r. q = p @ i # r"
  shows "walk (mem(entry_at b i := e)) root q = walk mem root q \<and>
     small (mem(entry_at b i := e)) root q = small mem root q"
proof (rule walk_cong)
  fix r j q' c assume q: "q = r @ j # q'" and c: "walk mem root r = Some c"
  have al: "page_aligned b" "page_aligned c"
    using walk_aligned assms(1,3) c by (auto simp: page_tree_def)
  have r: "path_ok r" "j < 512" using assms(5) q by (auto simp: path_ok_def)
  have "\<not> (c = b \<and> j = i)" using page_treeD [OF assms(1) r(1) assms(2)] c assms(3,6) q by auto
  then show "entry (mem(entry_at b i := e)) c j = entry mem c j"
    using entry_at_inj [OF al(2,1) r(2) assms(4)] by auto
qed

lemma walk_in_tables: "path_ok p \<Longrightarrow> walk mem root p = Some a \<Longrightarrow> a \<in> tables mem root"
  by (auto simp: tables_def)

lemma tables_aligned: "page_tree mem root \<Longrightarrow> a \<in> tables mem root \<Longrightarrow> page_aligned a"
  by (auto simp: tables_def page_tree_def dest: walk_aligned)

lemma page_tree_cong:
  assumes "page_tree mem root" and "\<And>q. path_ok q \<Longrightarrow> walk mem' root q = walk mem root q"
  shows "page_tree mem' root \<and> tables mem' root = tables mem root"
  using assms by (auto simp: page_tree_def tables_def)

text \<open>Clearing a page that is no table changes no walk.\<close>

lemma zero_fresh:
  assumes "page_tree mem root" and "page_aligned n" and "n \<notin> tables mem root" and "path_ok q"
  shows "walk (zero_page n mem) root q = walk mem root q \<and> small (zero_page n mem) root q = small mem root q"
proof (rule walk_cong)
  fix r j q' c assume q: "q = r @ j # q'" and c: "walk mem root r = Some c"
  then have "path_ok r" "j < 512" using assms(4) by (auto simp: path_ok_def)
  moreover have "c \<in> tables mem root" using c \<open>path_ok r\<close> by (rule walk_in_tables [rotated])
  ultimately show "entry (zero_page n mem) c j = entry mem c j"
    using zero_page_entry [OF assms(2), of c j mem] tables_aligned [OF assms(1)] assms(3) by auto
qed

lemma table_entry_bits:
  assumes "page_aligned n"
  shows "(n OR PAGE_PRESENT OR PAGE_WRITABLE) AND PAGE_PRESENT \<noteq> 0"
    and "(n OR PAGE_PRESENT OR PAGE_WRITABLE) AND PAGE_HUGE = 0"
    and "(n OR PAGE_PRESENT OR PAGE_WRITABLE) AND NOT PAGE_MASK = n"
proof -
  have "n OR PAGE_PRESENT OR PAGE_WRITABLE = n + 3"
    using aligned_plus(1) [OF assms, of 3] by (simp add: page_flags)
  with aligned_plus(2) [OF assms, of 3] show "(n OR PAGE_PRESENT OR PAGE_WRITABLE) AND NOT PAGE_MASK = n" by simp
  have "bit ((n OR PAGE_PRESENT OR PAGE_WRITABLE) AND PAGE_PRESENT) 0" by (simp add: bit_simps page_flags)
  then show "(n OR PAGE_PRESENT OR PAGE_WRITABLE) AND PAGE_PRESENT \<noteq> 0" by auto
  show "(n OR PAGE_PRESENT OR PAGE_WRITABLE) AND PAGE_HUGE = 0"
    using page_aligned_bit [OF assms, of 7] unfolding PAGE_HUGE_def
    by (subst and_bit_eq_0_iff) (simp_all add: bit_simps page_flags)
qed

definition enter_table :: "u64 \<Rightarrow> nat \<Rightarrow> u64 \<Rightarrow> (u64 \<Rightarrow> u64) \<Rightarrow> u64 \<Rightarrow> u64" where
  "enter_table b i n mem = (zero_page n mem)(entry_at b i := n OR PAGE_PRESENT OR PAGE_WRITABLE)"

lemma enter_table_entries:
  assumes "page_aligned n" "page_aligned b" "i < 512" "n \<noteq> b"
  shows "j < 512 \<Longrightarrow> entry (enter_table b i n mem) n j = 0"
    and "entry (enter_table b i n mem) b i = n OR PAGE_PRESENT OR PAGE_WRITABLE"
    and "page_aligned c \<Longrightarrow> j < 512 \<Longrightarrow> c \<noteq> n \<Longrightarrow> \<not> (c = b \<and> j = i) \<Longrightarrow>
      entry (enter_table b i n mem) c j = entry mem c j"
  using assms entry_at_inj [of n b j i] entry_at_inj [of c b j i] zero_page_entry [OF assms(1), of _ _ mem]
  by (auto simp: enter_table_def)

lemma enter_table_walk:
  assumes tree: "page_tree mem root" and p: "path_ok (p @ [i])" "walk mem root p = Some b"
    and absent: "entry mem b i AND PAGE_PRESENT = 0" and n: "page_aligned n" "n \<notin> tables mem root"
  defines "mem' \<equiv> enter_table b i n mem"
  shows "path_ok q \<Longrightarrow> \<nexists>r. q = p @ i # r \<Longrightarrow> walk mem' root q = walk mem root q \<and> small mem' root q = small mem root q"
    and "path_ok (p @ i # r) \<Longrightarrow> walk mem' root (p @ i # r) = (if r = [] then Some n else None)"
    and "path_ok (p @ i # r) \<Longrightarrow> small mem' root (p @ i # r)"
    and "path_ok (p @ i # r) \<Longrightarrow> walk mem root (p @ i # r) = None"
proof -
  have pk: "path_ok p" "i < 512" using p(1) by (auto simp: path_ok_def)
  have b: "b \<in> tables mem root" using pk(1) p(2) by (rule walk_in_tables)
  have al: "page_aligned b" "n \<noteq> b" using tables_aligned [OF tree b] b n(2) by auto
  note ent = enter_table_entries [OF n(1) al(1) pk(2) al(2), where mem = mem, folded mem'_def]
  have tree0: "page_tree (zero_page n mem) root"
    using page_tree_cong [OF tree] zero_fresh [OF tree n] by blast
  show elsewhere: "walk mem' root q = walk mem root q \<and> small mem' root q = small mem root q"
    if "path_ok q" "\<nexists>r. q = p @ i # r" for q
    using write_elsewhere [OF tree0 pk(1) _ pk(2) that] zero_fresh [OF tree n pk(1)] zero_fresh [OF tree n that(1)] p(2)
    by (simp add: mem'_def enter_table_def)
  have wp: "walk mem' root p = Some b" using elsewhere [of p] pk(1) p(2) by simp
  have ch: "child mem' b i = Some n"
    using table_entry_bits [OF n(1)] ent(2) by (simp add: child_def)
  have rest: "walk mem' n r = (if r = [] then Some n else None) \<and> small mem' n r" if "path_ok (p @ i # r)" for r
    using that ent(1) by (cases r) (simp_all add: child_def path_ok_def)
  show "walk mem' root (p @ i # r) = (if r = [] then Some n else None)" if "path_ok (p @ i # r)" for r
    using rest [OF that] by (simp add: walk_append wp ch)
  show "small mem' root (p @ i # r)" if "path_ok (p @ i # r)" for r
    using rest [OF that] table_entry_bits [OF n(1)] ent(2) by (simp add: small_append [OF wp])
  show "walk mem root (p @ i # r) = None" for r
    using absent by (simp add: walk_append p(2) child_def)
qed

lemma enter_table_tree:
  assumes tree: "page_tree mem root" and p: "path_ok (p @ [i])" "walk mem root p = Some b"
    and absent: "entry mem b i AND PAGE_PRESENT = 0" and n: "page_aligned n" "n \<notin> tables mem root"
  shows "page_tree (enter_table b i n mem) root"
    and "tables (enter_table b i n mem) root = insert n (tables mem root)"
proof -
  note w = enter_table_walk [OF assms]
  have inv: "(q = p @ [i] \<and> a = n) \<or> (walk mem root q = Some a \<and> a \<in> tables mem root)"
    if "path_ok q" "walk (enter_table b i n mem) root q = Some a" for q a
  proof (cases "\<exists>r. q = p @ i # r")
    case True
    then obtain r where r: "q = p @ i # r" by blast
    with w(2) [of r] that show ?thesis by (simp split: if_splits)
  next
    case False
    with w(1) [of q] that show ?thesis by (auto intro: walk_in_tables)
  qed
  have "q = q'" if "path_ok q" "path_ok q'" "walk (enter_table b i n mem) root q = Some a"
    "walk (enter_table b i n mem) root q' = Some a" for q q' a
    using inv [OF that(1,3)] inv [OF that(2,4)] n(2) page_treeD [OF tree that(1,2)] by auto
  then show "page_tree (enter_table b i n mem) root"
    using tree unfolding page_tree_def by (metis option.exhaust)
  have "a \<in> tables (enter_table b i n mem) root" if "a \<in> tables mem root" for a
  proof -
    from that obtain q where q: "path_ok q" "walk mem root q = Some a" by (auto simp: tables_def)
    then have "\<nexists>r. q = p @ i # r" using w(4) by auto
    with w(1) [of q] q show ?thesis by (auto simp: tables_def)
  qed
  moreover have "n \<in> tables (enter_table b i n mem) root"
    using w(2) [of "[]"] p(1) by (auto simp: tables_def)
  moreover have "a = n \<or> a \<in> tables mem root" if "a \<in> tables (enter_table b i n mem) root" for a
  proof -
    from that obtain q where "path_ok q" "walk (enter_table b i n mem) root q = Some a" by (auto simp: tables_def)
    from inv [OF this] show ?thesis by blast
  qed
  ultimately show "tables (enter_table b i n mem) root = insert n (tables mem root)" by blast
qed

text \<open>Entering an empty table changes no translation.\<close>

lemma enter_table_lookup:
  assumes tree: "page_tree mem root" and p: "path_ok (p @ [i])" "walk mem root p = Some b"
    and absent: "entry mem b i AND PAGE_PRESENT = 0" and n: "page_aligned n" "n \<notin> tables mem root"
    and short: "length p < 3" and v: "small mem root (table_path v)"
  shows "small (enter_table b i n mem) root (table_path v) \<and>
     lookup (enter_table b i n mem) root v = lookup mem root v"
proof -
  note w = enter_table_walk [OF tree p absent n]
  have pk: "path_ok p" "i < 512" using p(1) by (auto simp: path_ok_def)
  have b: "b \<in> tables mem root" using pk(1) p(2) by (rule walk_in_tables)
  have al: "page_aligned b" "n \<noteq> b" using tables_aligned [OF tree b] b n(2) by auto
  note ent = enter_table_entries [OF n(1) al(1) pk(2) al(2), where mem = mem]
  show ?thesis
  proof (cases "\<exists>r. table_path v = p @ i # r")
    case True
    then obtain r where r: "table_path v = p @ i # r" by blast
    have ok: "path_ok (p @ i # r)" using path_ok_table_path(1) [of v] by (simp add: r)
    show ?thesis
      using w(2-4) [OF ok] ent(1) [OF index_lt(4)] by (simp add: lookup_def r leaf_addr_def)
  next
    case False
    then have e: "walk (enter_table b i n mem) root (table_path v) = walk mem root (table_path v)"
      "small (enter_table b i n mem) root (table_path v)"
      using w(1) [of "table_path v"] v by simp_all
    have "entry (enter_table b i n mem) c (PT_INDEX v) = entry mem c (PT_INDEX v)"
      if c: "walk mem root (table_path v) = Some c" for c
    proof (rule ent(3))
      have "c \<in> tables mem root" using c by (intro walk_in_tables) simp_all
      then show "page_aligned c" "c \<noteq> n" using tables_aligned [OF tree] n(2) by auto
      have "c \<noteq> b" using page_treeD [OF tree _ pk(1), of "table_path v"] c p(2) short by fastforce
      then show "\<not> (c = b \<and> PT_INDEX v = i)" by simp
    qed (rule index_lt)
    with e show ?thesis by (simp add: lookup_def split: option.split)
  qed
qed

text \<open>The last level: writing one entry of a page table changes the translation of one page.\<close>

lemma leaf_write:
  fixes e :: u64
  assumes tree: "page_tree mem root" and p: "path_ok p" "length p = 3" "walk mem root p = Some pt" and i: "i < 512"
  defines "mem' \<equiv> mem(entry_at pt i := e)"
  shows "path_ok q \<Longrightarrow> walk mem' root q = walk mem root q \<and> small mem' root q = small mem root q"
    and "page_tree mem' root \<and> tables mem' root = tables mem root"
    and "lookup mem' root v = (if table_path v = p \<and> PT_INDEX v = i then leaf_addr e v else lookup mem root v)"
proof -
  show w: "walk mem' root q = walk mem root q \<and> small mem' root q = small mem root q" if "path_ok q" for q
    unfolding mem'_def
    by (rule write_elsewhere [OF tree p(1,3) i that]) (use that p(2) in \<open>auto simp: path_ok_def\<close>)
  then show "page_tree mem' root \<and> tables mem' root = tables mem root"
    using page_tree_cong [OF tree] by blast
  have "entry mem' c (PT_INDEX v) = (if table_path v = p \<and> PT_INDEX v = i then e else entry mem c (PT_INDEX v))"
    if c: "walk mem root (table_path v) = Some c" for c
  proof -
    have al: "page_aligned c" "page_aligned pt" using walk_aligned c p(3) tree by (auto simp: page_tree_def)
    have "c = pt \<longleftrightarrow> table_path v = p"
      using page_treeD [OF tree path_ok_table_path(1) p(1) c] c p(3) by (metis option.inject)
    with entry_at_inj [OF al index_lt(4) i, of v] show ?thesis by (simp add: mem'_def)
  qed
  moreover have "walk mem root (table_path v) \<noteq> None" if "table_path v = p" using that p(3) by simp
  ultimately show "lookup mem' root v =
      (if table_path v = p \<and> PT_INDEX v = i then leaf_addr e v else lookup mem root v)"
    using w [OF path_ok_table_path(1), of v]
    by (cases "walk mem root (table_path v)") (auto simp: lookup_def)
qed

section \<open>Two addresses in one page\<close>

text \<open>The translation uses bits 12 to 47 of an address.\<close>

definition same_page :: "u64 \<Rightarrow> u64 \<Rightarrow> bool" where
  "same_page v w \<longleftrightarrow> take_bit 36 (drop_bit 12 v) = take_bit 36 (drop_bit 12 w)"

lemma all_offset: "(\<forall>j<m. P (k + j)) \<longleftrightarrow> (\<forall>n. k \<le> n \<and> n < k + m \<longrightarrow> P n)" for k m :: nat
  by (metis add_less_cancel_left le_add1 le_add_diff_inverse)

lemma take_bit_eq_bits: "take_bit m a = take_bit m b \<longleftrightarrow> (\<forall>j<m. bit a j = bit b j)" for a b :: u64
proof
  assume eq: "take_bit m a = take_bit m b"
  show "\<forall>j<m. bit a j = bit b j"
  proof (intro allI impI)
    fix j assume "j < m"
    with arg_cong [OF eq, of "\<lambda>w. bit w j"] show "bit a j = bit b j" by (simp add: bit_simps)
  qed
next
  assume "\<forall>j<m. bit a j = bit b j"
  then show "take_bit m a = take_bit m b" by (intro bit_word_eqI) (auto simp: bit_simps)
qed

lemma index_eq_iff:
  "unat (drop_bit k v AND 0x1FF) = unat (drop_bit k w AND 0x1FF) \<longleftrightarrow> (\<forall>n. k \<le> n \<and> n < k + 9 \<longrightarrow> bit v n = bit w n)"
  for v w :: u64
proof -
  have m: "(0x1FF :: u64) = mask 9" by (simp add: mask_eq_exp_minus_1)
  have "drop_bit k v AND 0x1FF = drop_bit k w AND 0x1FF \<longleftrightarrow> (\<forall>j<9. bit v (k + j) = bit w (k + j))"
    unfolding m take_bit_eq_mask [symmetric] take_bit_eq_bits by (simp add: bit_drop_bit_eq)
  also have "\<dots> \<longleftrightarrow> (\<forall>n. k \<le> n \<and> n < k + 9 \<longrightarrow> bit v n = bit w n)" by (rule all_offset)
  finally show ?thesis by (simp add: word_unat_eq_iff)
qed

lemma same_page_iff: "same_page v w \<longleftrightarrow> table_path v = table_path w \<and> PT_INDEX v = PT_INDEX w"
proof -
  have "same_page v w \<longleftrightarrow> (\<forall>j<36. bit v (12 + j) = bit w (12 + j))"
    unfolding same_page_def take_bit_eq_bits by (simp add: bit_drop_bit_eq)
  also have "\<dots> \<longleftrightarrow> (\<forall>n. 12 \<le> n \<and> n < 48 \<longrightarrow> bit v n = bit w n)"
    using all_offset [of 36 "\<lambda>n. bit v n = bit w n" 12] by simp
  also have "\<dots> \<longleftrightarrow> table_path v = table_path w \<and> PT_INDEX v = PT_INDEX w"
  proof
    assume "\<forall>n. 12 \<le> n \<and> n < 48 \<longrightarrow> bit v n = bit w n"
    then show "table_path v = table_path w \<and> PT_INDEX v = PT_INDEX w"
      by (simp add: table_path_def PML4_INDEX_def PDP_INDEX_def PD_INDEX_def PT_INDEX_def index_eq_iff)
  next
    assume "table_path v = table_path w \<and> PT_INDEX v = PT_INDEX w"
    then have r: "\<forall>n. 39 \<le> n \<and> n < 48 \<longrightarrow> bit v n = bit w n" "\<forall>n. 30 \<le> n \<and> n < 39 \<longrightarrow> bit v n = bit w n"
      "\<forall>n. 21 \<le> n \<and> n < 30 \<longrightarrow> bit v n = bit w n" "\<forall>n. 12 \<le> n \<and> n < 21 \<longrightarrow> bit v n = bit w n"
      by (simp_all add: table_path_def PML4_INDEX_def PDP_INDEX_def PD_INDEX_def PT_INDEX_def index_eq_iff)
    show "\<forall>n. 12 \<le> n \<and> n < 48 \<longrightarrow> bit v n = bit w n"
    proof (intro allI impI)
      fix n :: nat assume "12 \<le> n \<and> n < 48"
      then consider "39 \<le> n \<and> n < 48" | "30 \<le> n \<and> n < 39" | "21 \<le> n \<and> n < 30" | "12 \<le> n \<and> n < 21" by linarith
      then show "bit v n = bit w n" using r by cases blast+
    qed
  qed
  finally show ?thesis .
qed

section \<open>Where new tables come from\<close>

text \<open>
  The manager relies on a page source: a page it hands out was available, is aligned and is not available
  any more. A set of pages that are not available therefore never meets a new page.
\<close>

locale page_source =
  fixes ok :: "'s \<Rightarrow> bool"
    and alloc :: "'s \<Rightarrow> u64 \<times> 's"
    and avail :: "'s \<Rightarrow> u64 \<Rightarrow> bool"
  assumes alloc_page: "ok s \<Longrightarrow> alloc s = (a, s') \<Longrightarrow> a \<noteq> 0 \<Longrightarrow>
      ok s' \<and> page_aligned a \<and> avail s a \<and> \<not> avail s' a \<and> (\<forall>b. avail s' b \<longrightarrow> avail s b)"
    and alloc_none: "ok s \<Longrightarrow> alloc s = (0, s') \<Longrightarrow> s' = s"
begin

lemma fresh_page:
  assumes "ok s" and "alloc s = (a, s')" and "a \<noteq> 0" and "\<forall>b\<in>T. \<not> avail s b"
  shows "a \<notin> T" and "page_aligned a" and "ok s'" and "\<forall>b\<in>insert a T. \<not> avail s' b"
  using alloc_page [OF assms(1-3)] assms(4) by blast+

end

definition pool_ok :: "pmm \<Rightarrow> bool" where
  "pool_ok s \<longleftrightarrow> pmm_wf s \<and> page_aligned (memory_base (phys_mem s))"

definition available :: "pmm \<Rightarrow> u64 \<Rightarrow> bool" where
  "available s a \<longleftrightarrow>
     (\<exists>i<nblocks (phys_mem s). i \<notin> used_blocks (phys_mem s) \<and> a = bitmap_block_to_address (phys_mem s) i)"

interpretation pool: page_source pool_ok physical_alloc_page available
proof unfold_locales
  fix s s' :: pmm and a :: u64
  assume s: "pool_ok s" "physical_alloc_page s = (a, s')" "a \<noteq> 0"
  then have wf: "pmm_wf s" "bitmap_wf (phys_mem s)" "page_aligned (memory_base (phys_mem s))"
    by (simp_all add: pool_ok_def pmm_wf_def)
  have al: "physical_alloc_pages s 1 = (a, s')" using s(2) physical_alloc_page_eq [OF wf(1)] by simp
  show "pool_ok s' \<and> page_aligned a \<and> available s a \<and> \<not> available s' a \<and> (\<forall>b. available s' b \<longrightarrow> available s b)"
  proof (cases rule: physical_alloc_pages_cases [OF wf(1), of 1, case_names fail success])
    case fail
    with al s(3) show ?thesis by simp
  next
    case (success k s'')
    then have s'': "s'' = s'" and a: "a = bitmap_block_to_address (phys_mem s) k" using al by simp_all
    from success(1) have free: "free_run (bitmap (phys_mem s)) (nblocks (phys_mem s)) 1 k"
      by (simp add: leftmost_run_def)
    then have k: "k \<notin> used_blocks (phys_mem s)" by (simp add: free_run_def used_blocks_def)
    have m: "phys_mem s' = mark_run (phys_mem s) k 1" using success(5) s'' by simp
    have u: "used_blocks (phys_mem s') = insert k (used_blocks (phys_mem s))"
      unfolding m using used_blocks_mark_run [OF wf(2), of k 1] success(3) by simp
    have r: "memory_base (phys_mem s') = memory_base (phys_mem s)" "total_blocks (phys_mem s') = total_blocks (phys_mem s)"
      by (simp_all add: m mark_run_def)
    have addr: "bitmap_block_to_address (phys_mem s') i = bitmap_block_to_address (phys_mem s) i" for i
      by (simp add: bitmap_block_to_address_def r)
    have "unat a = unat (memory_base (phys_mem s)) + 4096 * k"
      unfolding a by (rule unat_block_to_address [OF wf(2) success(3)])
    then have "page_aligned a" using wf(3) by (simp add: page_aligned_dvd)
    moreover have "pool_ok s'"
      using mark_run_pmm(1) [OF wf(1) free _ success(3), of s'] m wf(3) r by (simp add: pool_ok_def)
    moreover have "available s a" using a k success(3) by (auto simp: available_def)
    moreover have "\<not> available s' a"
      using block_to_address_inj [OF wf(2)] success(3) by (auto simp: available_def a addr u r)
    moreover have "available s b" if "available s' b" for b using that by (auto simp: available_def addr u r)
    ultimately show ?thesis by blast
  qed
next
  fix s s' :: pmm
  assume "pool_ok s" "physical_alloc_page s = (0, s')"
  then show "s' = s"
    using pages.alloc_failure [of s 1 s'] physical_alloc_page_eq [of s] by (simp add: pool_ok_def)
qed

end
