(* ===== verification/Vmm_Properties.thy ===== *)
theory Vmm_Properties
  imports Vmm
begin

text \<open>
  What mapping and unmapping do to the translation of every address: the operations of the virtual memory
  manager against the tree of tables, starting from any tables the boot loader left.
\<close>

section \<open>Invariant\<close>

text \<open>The tables form a tree and none of them is a page the allocator may still hand out.\<close>

definition vmm_wf :: "u64 \<Rightarrow> vmm \<Rightarrow> bool" where
  "vmm_wf root s \<longleftrightarrow> page_tree (phys s) root \<and> pool_ok (page_pool s) \<and>
     (\<forall>a\<in>tables (phys s) root. \<not> available (page_pool s) a)"

text \<open>No large page on the way to an address.\<close>

definition no_large :: "u64 \<Rightarrow> vmm \<Rightarrow> u64 \<Rightarrow> bool" where
  "no_large root s v \<longleftrightarrow> small (phys s) root (table_path v)"

text \<open>A step that may add tables but changes no translation and nothing else.\<close>

definition keeps :: "u64 \<Rightarrow> vmm \<Rightarrow> vmm \<Rightarrow> bool" where
  "keeps root s s' \<longleftrightarrow> vmm_wf root s' \<and>
     (\<forall>v. no_large root s v \<longrightarrow> no_large root s' v \<and> lookup (phys s') root v = lookup (phys s) root v) \<and>
     s' = s\<lparr>phys := phys s', page_pool := page_pool s'\<rparr>"

lemma keeps_refl: "vmm_wf root s \<Longrightarrow> keeps root s s"
  by (simp add: keeps_def)

lemma keeps_trans:
  assumes "keeps root s s1" and "keeps root s1 s2"
  shows "keeps root s s2"
proof -
  have "s1 = s\<lparr>phys := phys s1, page_pool := page_pool s1\<rparr>" "s2 = s1\<lparr>phys := phys s2, page_pool := page_pool s2\<rparr>"
    using assms by (simp_all add: keeps_def)
  then have "s2 = s\<lparr>phys := phys s2, page_pool := page_pool s2\<rparr>" by (cases s, cases s1, cases s2) simp
  with assms show ?thesis unfolding keeps_def by simp
qed

lemma keepsD:
  assumes "keeps root s s'"
  shows "vmm_wf root s'" and "no_large root s v \<Longrightarrow> no_large root s' v"
    and "no_large root s v \<Longrightarrow> lookup (phys s') root v = lookup (phys s) root v"
    and "contexts s' = contexts s" and "current_context s' = current_context s" and "hhdm_offset s' = hhdm_offset s"
    and "next_mmio_vaddr s' = next_mmio_vaddr s"
proof -
  have s': "s' = s\<lparr>phys := phys s', page_pool := page_pool s'\<rparr>" using assms by (simp add: keeps_def)
  show "contexts s' = contexts s" "current_context s' = current_context s" "hhdm_offset s' = hhdm_offset s"
    "next_mmio_vaddr s' = next_mmio_vaddr s" by (subst s', simp)+
qed (use assms in \<open>simp_all add: keeps_def\<close>)

section \<open>Walking and creating\<close>

lemma small_prefix: "small mem t (p @ q) \<Longrightarrow> small mem t p"
  by (induction p arbitrary: t) auto

lemma present_child:
  assumes "small mem b [i]" and "entry mem b i AND PAGE_PRESENT \<noteq> 0"
  shows "child mem b i = Some (entry mem b i AND NOT PAGE_MASK)"
  using assms by (simp add: child_def)

lemma walk_or_create_spec:
  assumes wf: "vmm_wf root s" and p: "path_ok (p @ [i])" "walk (phys s) root p = Some b"
    and small: "small (phys s) root (p @ [i])" and r: "walk_or_create b i s = (r, s')"
  shows "keeps root s s'" and "r = None \<or> r = walk (phys s') root (p @ [i])"
proof -
  have tree: "page_tree (phys s) root" and pool: "pool_ok (page_pool s)"
    and used: "\<forall>a\<in>tables (phys s) root. \<not> available (page_pool s) a" using wf by (simp_all add: vmm_wf_def)
  consider (present) "entry (phys s) b i AND PAGE_PRESENT \<noteq> 0"
    | (full) "entry (phys s) b i AND PAGE_PRESENT = 0" "fst (physical_alloc_page (page_pool s)) = 0"
    | (new) "entry (phys s) b i AND PAGE_PRESENT = 0" "fst (physical_alloc_page (page_pool s)) \<noteq> 0" by blast
  then have "keeps root s s' \<and> (r = None \<or> r = walk (phys s') root (p @ [i]))"
  proof cases
    case present
    have "small (phys s) b [i]" using small small_append [OF p(2)] by simp
    with present_child present have "walk (phys s) root (p @ [i]) = Some (entry (phys s) b i AND NOT PAGE_MASK)"
      by (simp add: walk_append p(2))
    with present r wf show ?thesis by (auto simp: walk_or_create_def keeps_refl)
  next
    case full
    then have "physical_alloc_page (page_pool s) = (0, page_pool s)"
      using pool.alloc_none [OF pool] by (metis prod.collapse)
    with full r wf show ?thesis by (auto simp: walk_or_create_def keeps_refl)
  next
    case new
    obtain n pool' where al: "physical_alloc_page (page_pool s) = (n, pool')" by fastforce
    with new have n0: "n \<noteq> 0" by simp
    note f = pool.fresh_page [OF pool al n0 used]
    have s': "s' = s\<lparr>page_pool := pool', phys := enter_table b i n (phys s)\<rparr>" and rn: "r = Some n"
      using r new al n0 by (auto simp: walk_or_create_def enter_table_def)
    have len: "length p < 3" using p(1) by (simp add: path_ok_def)
    note t = enter_table_tree [OF tree p new(1) f(2,1)]
    have wf': "vmm_wf root s'" using t f(3,4) by (simp add: vmm_wf_def s')
    have look: "no_large root s v \<longrightarrow> no_large root s' v \<and> lookup (phys s') root v = lookup (phys s) root v" for v
      using enter_table_lookup [OF tree p new(1) f(2,1) len, of v] by (simp add: no_large_def s')
    have shape: "s' = s\<lparr>phys := phys s', page_pool := page_pool s'\<rparr>" by (simp add: s')
    have "walk (phys s') root (p @ [i]) = Some n"
      using enter_table_walk(2) [OF tree p new(1) f(2,1), of "[]"] p(1) by (simp add: s')
    with wf' look shape rn show ?thesis unfolding keeps_def by simp
  qed
  then show "keeps root s s'" "r = None \<or> r = walk (phys s') root (p @ [i])" by blast+
qed

lemma walk_tables_spec:
  assumes wf: "vmm_wf root s" and v: "no_large root s v" and r: "walk_tables root v s = (r, s')"
  shows "keeps root s s'" and "r = None \<or> r = walk (phys s') root (table_path v)"
proof -
  let ?i4 = "PML4_INDEX v" and ?i3 = "PDP_INDEX v" and ?i2 = "PD_INDEX v"
  have ok: "path_ok ([] @ [?i4])" "path_ok ([?i4] @ [?i3])" "path_ok ([?i4, ?i3] @ [?i2])"
    by (simp_all add: path_ok_def index_lt)
  have sm: "small (phys t) root ([] @ [?i4])" "small (phys t) root ([?i4] @ [?i3])"
    "small (phys t) root ([?i4, ?i3] @ [?i2])" if "no_large root t v" for t
    using that small_prefix [of "phys t" root "[?i4]" "[?i3, ?i2]"] small_prefix [of "phys t" root "[?i4, ?i3]" "[?i2]"]
    by (simp_all add: no_large_def table_path_def del: small.simps)
  obtain r1 s1 where 1: "walk_or_create root ?i4 s = (r1, s1)" by fastforce
  note k1 = walk_or_create_spec [OF wf ok(1) _ sm(1) [OF v] 1, simplified]
  have v1: "no_large root s1 v" by (rule keepsD(2) [OF k1(1) v])
  show "keeps root s s'" "r = None \<or> r = walk (phys s') root (table_path v)"
  proof (atomize (full), cases r1)
    case None
    with r 1 k1(1) show "keeps root s s' \<and> (r = None \<or> r = walk (phys s') root (table_path v))"
      by (simp add: walk_tables_def)
  next
    case (Some pdp)
    with k1(2) have w1: "walk (phys s1) root [?i4] = Some pdp" by simp
    obtain r2 s2 where 2: "walk_or_create pdp ?i3 s1 = (r2, s2)" by fastforce
    note k2 = walk_or_create_spec [OF keepsD(1) [OF k1(1)] ok(2) w1 sm(2) [OF v1] 2]
    have v2: "no_large root s2 v" by (rule keepsD(2) [OF k2(1) v1])
    note k12 = keeps_trans [OF k1(1) k2(1)]
    show "keeps root s s' \<and> (r = None \<or> r = walk (phys s') root (table_path v))"
    proof (cases r2)
      case None
      with r 1 2 Some k12 show ?thesis by (simp add: walk_tables_def)
    next
      case (Some pd)
      with k2(2) have w2: "walk (phys s2) root [?i4, ?i3] = Some pd" by simp
      have 3: "walk_or_create pd ?i2 s2 = (r, s')" using r 1 2 Some \<open>r1 = Some pdp\<close> by (simp add: walk_tables_def)
      note k3 = walk_or_create_spec [OF keepsD(1) [OF k2(1)] ok(3) w2 sm(3) [OF v2] 3]
      with keeps_trans [OF k12 k3(1)] show ?thesis by (simp add: table_path_def)
    qed
  qed
qed

section \<open>The last level\<close>

abbreviation kernel_root :: "vmm \<Rightarrow> u64" where
  "kernel_root s \<equiv> cr3_value (kernel_context s) AND NOT 0xFFF"

definition set_leaf :: "u64 \<Rightarrow> u64 \<Rightarrow> u64 \<Rightarrow> vmm \<Rightarrow> vmm" where
  "set_leaf pt v e s = s\<lparr>phys := (phys s)(entry_at pt (PT_INDEX v) := e)\<rparr>"

lemma set_leaf_spec:
  assumes wf: "vmm_wf root s" and w: "walk (phys s) root (table_path v) = Some pt"
  shows "vmm_wf root (set_leaf pt v e s)" and "no_large root (set_leaf pt v e s) w = no_large root s w"
    and "lookup (phys (set_leaf pt v e s)) root w = (if same_page v w then leaf_addr e w else lookup (phys s) root w)"
proof -
  have tree: "page_tree (phys s) root" using wf by (simp add: vmm_wf_def)
  note l = leaf_write [OF tree path_ok_table_path w index_lt(4) [of v], where e = e]
  show "vmm_wf root (set_leaf pt v e s)" using l(2) wf by (simp add: vmm_wf_def set_leaf_def)
  show "no_large root (set_leaf pt v e s) w = no_large root s w"
    using l(1) [OF path_ok_table_path(1)] by (simp add: no_large_def set_leaf_def)
  show "lookup (phys (set_leaf pt v e s)) root w = (if same_page v w then leaf_addr e w else lookup (phys s) root w)"
    using l(3) [of w] by (auto simp: same_page_iff set_leaf_def)
qed

lemma get_physical_lookup:
  assumes "no_large (kernel_root s) s v" and "current_context s = 0" and "hhdm_offset s \<noteq> 0"
  shows "vmm_get_physical_addr v s = lookup (phys s) (kernel_root s) v"
  using assms find_table_walk [of s "kernel_root s" v]
  by (simp add: vmm_get_physical_addr_def lookup_def leaf_addr_def no_large_def Let_def split: option.split)

lemma leaf_flags:
  assumes "page_aligned pa" and "unat fl < 4096" and "bit fl 0"
  shows "leaf_addr (pa OR fl) v = pa + (v AND PAGE_MASK)"
proof -
  have "pa OR fl = pa + fl" using aligned_plus(1) [OF assms(1,2)] by simp
  moreover have "(pa OR fl) AND PAGE_PRESENT \<noteq> 0"
  proof -
    have "bit ((pa OR fl) AND PAGE_PRESENT) 0" using assms(3) by (simp add: bit_simps PAGE_PRESENT_def)
    then show ?thesis by auto
  qed
  ultimately show ?thesis using aligned_plus(2) [OF assms(1,2)] by (simp add: leaf_addr_def)
qed

lemma unat_and_less: "unat b < n \<Longrightarrow> unat (a AND b) < n" for a b :: u64
  using word_and_le1 [of a b] by (simp add: word_le_nat_alt)

lemma map_page_flags:
  "unat (PAGE_PRESENT OR (flags AND (PAGE_WRITABLE OR PAGE_USER OR PAGE_PCD OR PAGE_PWT))) < 4096"
  "bit (PAGE_PRESENT OR (flags AND (PAGE_WRITABLE OR PAGE_USER OR PAGE_PCD OR PAGE_PWT))) 0"
proof -
  let ?x = "flags AND (PAGE_WRITABLE OR PAGE_USER OR PAGE_PCD OR PAGE_PWT)"
  have x: "unat ?x < 31" by (rule unat_and_less) (simp add: page_flags)
  have "PAGE_PRESENT AND ?x = flags AND (PAGE_PRESENT AND (PAGE_WRITABLE OR PAGE_USER OR PAGE_PCD OR PAGE_PWT))"
    by (rule and.left_commute)
  then have "PAGE_PRESENT AND ?x = 0" by (simp add: page_flags)
  then have "PAGE_PRESENT OR ?x = PAGE_PRESENT + ?x" by (simp add: disjunctive_add_eq_or)
  moreover have "unat (PAGE_PRESENT + ?x) \<le> 1 + unat ?x"
    using unat_plus_simple [of PAGE_PRESENT ?x] x by (simp add: page_flags unat_word_ariths)
  ultimately show "unat (PAGE_PRESENT OR ?x) < 4096" using x by simp
  show "bit (PAGE_PRESENT OR ?x) 0" by (simp add: bit_simps PAGE_PRESENT_def)
qed

lemma map_page_cases:
  assumes wf: "vmm_wf (kernel_root s) s" and v: "no_large (kernel_root s) s v" and "hhdm_offset s \<noteq> 0"
    and r: "vmm_map_page pa v flags s = (r, s')"
  obtains (full) "r = None" "keeps (kernel_root s) s s'"
  | (mapped) pt t where "r = Some v" "keeps (kernel_root s) s t" "walk (phys t) (kernel_root s) (table_path v) = Some pt"
      "s' = (set_leaf pt v (pa OR (PAGE_PRESENT OR (flags AND (PAGE_WRITABLE OR PAGE_USER OR PAGE_PCD OR PAGE_PWT)))) t)
         \<lparr>flushed := flushed t @ [v]\<rparr>"
proof -
  obtain q t where q: "walk_tables (kernel_root s) v s = (q, t)" by fastforce
  note k = walk_tables_spec [OF wf v q]
  show thesis
  proof (cases q)
    case None
    with r q k assms(3) show thesis by (intro full) (auto simp: vmm_map_page_def)
  next
    case (Some pt)
    then have w: "walk (phys t) (kernel_root s) (table_path v) = Some pt" using k(2) by simp
    show thesis
      by (rule mapped [OF _ k(1) w])
         (use r q Some assms(3) in \<open>auto simp: vmm_map_page_def set_leaf_def Let_def\<close>)
  qed
qed

section \<open>Unmapping\<close>

text \<open>What a step keeps of everything but the tables.\<close>

definition same_context :: "vmm \<Rightarrow> vmm \<Rightarrow> bool" where
  "same_context s s' \<longleftrightarrow> contexts s' = contexts s \<and> current_context s' = current_context s \<and>
     hhdm_offset s' = hhdm_offset s"

lemma unmap_page_spec:
  assumes wf: "vmm_wf (kernel_root s) s" and v: "no_large (kernel_root s) s v" and "hhdm_offset s \<noteq> 0"
    and "current_context s = 0"
  defines "s' \<equiv> vmm_unmap_page v s"
  shows "same_context s s'" and "vmm_wf (kernel_root s) s'" and "no_large (kernel_root s) s' w = no_large (kernel_root s) s w"
    and "lookup (phys s') (kernel_root s) w = (if same_page v w then 0 else lookup (phys s) (kernel_root s) w)"
proof -
  let ?R = "kernel_root s"
  have f: "find_table ?R v s = walk (phys s) ?R (table_path v)" using find_table_walk v by (simp add: no_large_def)
  have "same_context s s' \<and> vmm_wf ?R s' \<and> no_large ?R s' w = no_large ?R s w \<and>
     lookup (phys s') ?R w = (if same_page v w then 0 else lookup (phys s) ?R w)"
  proof (cases "walk (phys s) ?R (table_path v)")
    case None
    then have "s' = s" using f assms(3,4) by (simp add: s'_def vmm_unmap_page_def)
    moreover have "lookup (phys s) ?R w = 0" if "same_page v w"
      using that None by (simp add: same_page_iff lookup_def)
    ultimately show ?thesis using wf by (simp add: same_context_def)
  next
    case (Some pt)
    then have s': "s' = (set_leaf pt v 0 s)\<lparr>flushed := flushed s @ [v]\<rparr>"
      using f assms(3,4) by (simp add: s'_def vmm_unmap_page_def set_leaf_def)
    have "leaf_addr 0 w = 0" by (simp add: leaf_addr_def)
    with set_leaf_spec(1) [OF wf Some, of 0] set_leaf_spec(2,3) [OF wf Some, of 0 w] show ?thesis
      by (simp add: s' same_context_def vmm_wf_def no_large_def set_leaf_def)
  qed
  then show "same_context s s'" "vmm_wf (kernel_root s) s'" "no_large (kernel_root s) s' w = no_large (kernel_root s) s w"
    "lookup (phys s') (kernel_root s) w = (if same_page v w then 0 else lookup (phys s) (kernel_root s) w)"
    by blast+
qed

lemma unmap_pages_spec:
  assumes "vmm_wf (kernel_root s) s" and "hhdm_offset s \<noteq> 0" and "current_context s = 0"
    and "\<forall>v\<in>set vs. no_large (kernel_root s) s v"
  shows "same_context s (fold vmm_unmap_page vs s) \<and> vmm_wf (kernel_root s) (fold vmm_unmap_page vs s) \<and>
     no_large (kernel_root s) (fold vmm_unmap_page vs s) w = no_large (kernel_root s) s w \<and>
     lookup (phys (fold vmm_unmap_page vs s)) (kernel_root s) w =
       (if \<exists>v\<in>set vs. same_page v w then 0 else lookup (phys s) (kernel_root s) w)"
  using assms
proof (induction vs arbitrary: s)
  case Nil
  then show ?case by (simp add: same_context_def)
next
  case (Cons v vs)
  have v: "no_large (kernel_root s) s v" using Cons.prems by simp
  note u = unmap_page_spec [OF Cons.prems(1) v Cons.prems(2,3)]
  then have same: "kernel_root (vmm_unmap_page v s) = kernel_root s" "hhdm_offset (vmm_unmap_page v s) \<noteq> 0"
    "current_context (vmm_unmap_page v s) = 0" using Cons.prems by (simp_all add: same_context_def)
  have "\<forall>x\<in>set vs. no_large (kernel_root s) (vmm_unmap_page v s) x" using Cons.prems u(3) by simp
  with Cons.IH [of "vmm_unmap_page v s"] same u show ?case by (auto simp: same_context_def)
qed

text \<open>The pages the loop of \<^verbatim>\<open>vmm_unmap\<close> visits.\<close>

definition pages_between :: "u64 \<Rightarrow> u64 \<Rightarrow> u64 list" where
  "pages_between a e = map (\<lambda>k. a + of_nat k * PAGE_SIZE) [0..<(unat e - unat a) div 4096]"

lemma unmap_loop_returns:
  assumes "page_aligned a" and "page_aligned e"
  shows "unmap_loop a e s = Some (fold vmm_unmap_page (pages_between a e) s)"
  using assms
proof (induction "(unat e - unat a) div 4096" arbitrary: a s)
  case 0
  then have "\<not> a < e"
    by (auto simp: page_aligned_dvd word_less_nat_alt dvd_def)
  then show ?case using 0 by (subst unmap_loop.simps) (simp add: pages_between_def)
next
  case (Suc n)
  obtain x y where xy: "unat a = 4096 * x" "unat e = 4096 * y" using Suc.prems by (auto simp: page_aligned_dvd dvd_def)
  have n: "y = x + Suc n" using Suc.hyps(2) xy by (simp flip: diff_mult_distrib2)
  have lt: "a < e" using n xy by (simp add: word_less_nat_alt)
  have y: "4096 * y < 2 ^ 64" using xy(2) unsigned_less [of e, where 'a = nat] by simp
  have next_page: "unat (a + PAGE_SIZE) = 4096 * Suc x"
    using unat_add_no_wrap [of a PAGE_SIZE] xy n y by (simp add: PAGE_SIZE_def)
  have al: "page_aligned (a + PAGE_SIZE)" using next_page by (simp add: page_aligned_dvd)
  have m: "(unat e - unat (a + PAGE_SIZE)) div 4096 = n" "(unat e - unat a) div 4096 = Suc n"
    using next_page xy n by (simp_all flip: diff_mult_distrib2)
  have "pages_between a e = a # pages_between (a + PAGE_SIZE) e"
    unfolding pages_between_def m
    by (simp add: map_upt_Suc algebra_simps del: upt_Suc)
  then show ?case
    using Suc.hyps(1) [OF m(1) [symmetric] al Suc.prems(2), of "vmm_unmap_page a s"] lt
    by (subst unmap_loop.simps) simp
qed

text \<open>These are the pages that hold a byte of the range, unless the range reaches into the last page.\<close>

lemma unat_PAGE_ALIGN: "unat (PAGE_ALIGN a) = unat a div 4096 * 4096"
proof -
  have m: "PAGE_MASK = mask 12" by (simp add: PAGE_MASK_def PAGE_SIZE_def mask_eq_exp_minus_1)
  have "PAGE_ALIGN a = push_bit 12 (drop_bit 12 a)"
    unfolding PAGE_ALIGN_def m by (intro bit_word_eqI) (auto simp: bit_simps)
  moreover have "unat a div 4096 * 4096 < 2 ^ 64" using unsigned_less [of a, where ?'a = nat] by simp
  ultimately show ?thesis
    by (simp add: drop_bit_eq_div push_bit_eq_mult unat_word_ariths(2) unat_div)
qed

lemma unat_PAGE_ALIGN_UP:
  "unat a + 4096 \<le> 2 ^ 64 \<Longrightarrow> unat (PAGE_ALIGN_UP a) = (unat a + 4095) div 4096 * 4096"
  using unat_PAGE_ALIGN [of "a + PAGE_MASK"] unat_add_no_wrap [of a PAGE_MASK]
  by (simp add: PAGE_ALIGN_def PAGE_ALIGN_UP_def PAGE_MASK_def PAGE_SIZE_def)

lemma same_page_unat: "same_page v w \<longleftrightarrow> unat v div 4096 mod 2 ^ 36 = unat w div 4096 mod 2 ^ 36"
  unfolding same_page_def by (simp add: word_unat_eq_iff take_bit_eq_mod drop_bit_eq_div unat_div unat_mod)

lemma pages_between_touch:
  assumes "0 < sz" and "unat a + unat sz + 4096 \<le> 2 ^ 64"
  shows "(\<exists>v\<in>set (pages_between (PAGE_ALIGN a) (PAGE_ALIGN_UP (a + sz))). same_page v w) \<longleftrightarrow>
    (\<exists>b. unat a \<le> b \<and> b < unat a + unat sz \<and> b div 4096 mod 2 ^ 36 = unat w div 4096 mod 2 ^ 36)" (is "?l \<longleftrightarrow> ?r")
proof -
  let ?x = "unat a div 4096" and ?e = "unat a + unat sz"
  let ?n = "(?e + 4095) div 4096 - ?x"
  have sz: "0 < unat sz" using assms(1) by (simp add: word_less_nat_alt)
  have e: "unat (PAGE_ALIGN_UP (a + sz)) = (?e + 4095) div 4096 * 4096"
    using assms(2) unat_add_no_wrap [of a sz] by (subst unat_PAGE_ALIGN_UP) simp_all
  have n: "(unat (PAGE_ALIGN_UP (a + sz)) - unat (PAGE_ALIGN a)) div 4096 = ?n"
    unfolding e unat_PAGE_ALIGN by (simp flip: diff_mult_distrib)
  have "unat (PAGE_ALIGN a + of_nat k * PAGE_SIZE) div 4096 = ?x + k" if "k < ?n" for k
  proof -
    have "(?x + k) * 4096 \<le> ((?e + 4095) div 4096 - 1) * 4096" using that by simp
    also have "\<dots> < 2 ^ 64" using assms(2) by simp linarith?
    finally have "(?x + k) * 4096 < 2 ^ 64" .
    then have "unat (PAGE_ALIGN a + of_nat k * PAGE_SIZE) = (?x + k) * 4096"
      using unat_add_no_wrap
      by (simp add: unat_word_ariths unat_PAGE_ALIGN PAGE_SIZE_def unat_of_nat add_mult_distrib mod_mult_right_eq)
    then show ?thesis by simp
  qed
  then have "?l \<longleftrightarrow> (\<exists>k < ?n. (?x + k) mod 2 ^ 36 = unat w div 4096 mod 2 ^ 36)"
    unfolding pages_between_def n same_page_unat by auto
  also have "\<dots> \<longleftrightarrow> ?r"
  proof (intro iffI; elim exE conjE)
    fix k assume k: "k < ?n" "(?x + k) mod 2 ^ 36 = unat w div 4096 mod 2 ^ 36"
    let ?b = "max (unat a) ((?x + k) * 4096)"
    have "Suc (?x + k) \<le> (?e + 4095) div 4096" using k(1) by simp
    then have "Suc (?x + k) * 4096 \<le> ?e + 4095" by (simp add: less_eq_div_iff_mult_less_eq)
    then have "?b < ?e" using sz by simp
    moreover have "?b div 4096 = ?x + k" by (cases k) (auto simp: max_def)
    ultimately show ?r using k(2) by (intro exI [of _ ?b]) simp
  next
    fix b assume b: "unat a \<le> b" "b < ?e" "b div 4096 mod 2 ^ 36 = unat w div 4096 mod 2 ^ 36"
    then have "b div 4096 - ?x < ?n" "?x + (b div 4096 - ?x) = b div 4096" by (auto simp: div_le_mono) linarith
    then show "\<exists>k < ?n. (?x + k) mod 2 ^ 36 = unat w div 4096 mod 2 ^ 36" using b(3) by metis
  qed
  finally show ?thesis .
qed

lemma pages_between_top:
  assumes "2 ^ 64 < unat a + unat sz + 4096" and "unat a + unat sz \<le> 2 ^ 64"
  shows "pages_between (PAGE_ALIGN a) (PAGE_ALIGN_UP (a + sz)) = []"
proof -
  have "unat (a + sz + PAGE_MASK) < 4096" if "unat a + unat sz < 2 ^ 64"
  proof -
    have "unat (a + sz + PAGE_MASK) = (unat a + unat sz + 4095) mod 2 ^ 64"
      using that unat_add_no_wrap [of a sz] by (simp add: unat_word_ariths(1) [of "a + sz"] PAGE_MASK_def PAGE_SIZE_def)
    also have "\<dots> = unat a + unat sz + 4095 - 2 ^ 64" using that assms(1) by (subst mod_if) (simp add: mod_less)
    finally show ?thesis using that by simp
  qed
  moreover have "unat (a + sz + PAGE_MASK) < 4096" if "unat a + unat sz = 2 ^ 64"
  proof -
    have "unat (a + sz) = 0" using that by (simp only: unat_word_ariths(1)) simp
    then have "a + sz = 0" by (simp only: unat_eq_zero)
    then show ?thesis by (simp only:) (simp add: PAGE_MASK_def PAGE_SIZE_def)
  qed
  ultimately have "unat (a + sz + PAGE_MASK) < 4096" using assms(2) by linarith
  then have "unat (PAGE_ALIGN_UP (a + sz)) = 0"
    using unat_PAGE_ALIGN [of "a + sz + PAGE_MASK"] by (simp add: PAGE_ALIGN_def PAGE_ALIGN_UP_def)
  then show ?thesis by (simp add: pages_between_def)
qed

lemma no_large_same_page: "same_page v w \<Longrightarrow> no_large root s v \<longleftrightarrow> no_large root s w"
  by (simp add: no_large_def same_page_iff)


section \<open>Mapping a device window\<close>

lemma page_aligned_add: "page_aligned a \<Longrightarrow> page_aligned b \<Longrightarrow> page_aligned (a + b)"
  using page_aligned_diff [of a "0 - b"] page_aligned_diff [of 0 b] by (simp add: page_aligned_dvd)

lemma page_aligned_mult: "page_aligned (x * PAGE_SIZE)"
proof -
  have "x * PAGE_SIZE = push_bit 12 x" by (simp add: PAGE_SIZE_def push_bit_eq_mult)
  then show ?thesis by (simp add: page_aligned_def take_bit_push_bit)
qed

lemma mmio_flags:
  "unat (PAGE_PRESENT OR PAGE_WRITABLE OR PAGE_PCD OR PAGE_PWT) < 4096"
  "bit (PAGE_PRESENT OR PAGE_WRITABLE OR PAGE_PCD OR PAGE_PWT) 0"
  by (simp_all add: page_flags)

abbreviation page_at :: "u64 \<Rightarrow> nat \<Rightarrow> u64" where
  "page_at a i \<equiv> a + of_nat i * PAGE_SIZE"

lemma map_mmio_pages_spec:
  assumes "vmm_wf root s" and "\<forall>i\<in>set is. no_large root s (page_at va i)" and "page_aligned pa"
    and "distinct is" and "\<forall>i\<in>set is. \<forall>j\<in>set is. same_page (page_at va i) (page_at va j) \<longrightarrow> i = j"
    and "map_mmio_pages root pa va is s = (ok, s')"
  shows "same_context s s' \<and> next_mmio_vaddr s' = next_mmio_vaddr s \<and> vmm_wf root s' \<and>
     (\<forall>w. no_large root s w \<longrightarrow> no_large root s' w \<and>
       (if \<exists>i\<in>set is. same_page (page_at va i) w
        then ok \<longrightarrow> (\<forall>i\<in>set is. same_page (page_at va i) w \<longrightarrow> lookup (phys s') root w = page_at pa i + (w AND PAGE_MASK))
        else lookup (phys s') root w = lookup (phys s) root w))"
  using assms
proof (induction "is" arbitrary: s)
  case Nil
  then show ?case by (simp add: same_context_def)
next
  case (Cons i "is")
  let ?v = "page_at va i"
  obtain q t where q: "walk_tables root ?v s = (q, t)" by fastforce
  have v: "no_large root s ?v" using Cons.prems by simp
  note k = walk_tables_spec [OF Cons.prems(1) v q]
  note kd = keepsD [OF k(1)]
  show ?case
  proof (cases q)
    case None
    then have "ok = False" "s' = t" using Cons.prems(6) q by (simp_all add: Let_def)
    with kd show ?thesis by (simp add: same_context_def)
  next
    case (Some pt)
    then have w: "walk (phys t) root (table_path ?v) = Some pt" using k(2) by simp
    let ?e = "page_at pa i OR (PAGE_PRESENT OR PAGE_WRITABLE OR PAGE_PCD OR PAGE_PWT)"
    let ?t = "set_leaf pt ?v ?e t"
    note l = set_leaf_spec [OF kd(1) w, where e = ?e]
    have "page_aligned (page_at pa i)" using Cons.prems(3) page_aligned_mult by (rule page_aligned_add)
    note leaf = leaf_flags [OF this mmio_flags]
    have rest: "map_mmio_pages root pa va is ?t = (ok, s')"
      using Cons.prems(6) q Some by (simp add: Let_def set_leaf_def)
    have nl: "no_large root s x \<Longrightarrow> no_large root ?t x" for x using kd(2) l(2) by simp
    have look: "lookup (phys ?t) root x = (if same_page ?v x then page_at pa i + (x AND PAGE_MASK) else lookup (phys s) root x)"
      if "no_large root s x" for x using l(3) [of x] kd(3) [OF that] leaf by simp
    have ih: "same_context ?t s' \<and> next_mmio_vaddr s' = next_mmio_vaddr ?t \<and> vmm_wf root s' \<and>
       (\<forall>w. no_large root ?t w \<longrightarrow> no_large root s' w \<and>
         (if \<exists>i\<in>set is. same_page (page_at va i) w
          then ok \<longrightarrow> (\<forall>i\<in>set is. same_page (page_at va i) w \<longrightarrow> lookup (phys s') root w = page_at pa i + (w AND PAGE_MASK))
          else lookup (phys s') root w = lookup (phys ?t) root w))"
      by (rule Cons.IH [OF l(1) _ Cons.prems(3) _ _ rest]) (use Cons.prems(2,4,5) nl in auto)
    have other: "\<not> same_page (page_at va j) x" if "same_page ?v x" "j \<in> set is" for j x
      using that Cons.prems(4,5) by (auto simp: same_page_def)
    have c: "same_context s s'" "next_mmio_vaddr s' = next_mmio_vaddr s"
      using ih kd by (simp_all add: same_context_def set_leaf_def)
    have "no_large root s' x \<and>
       (if \<exists>j\<in>set (i # is). same_page (page_at va j) x
        then ok \<longrightarrow> (\<forall>j\<in>set (i # is). same_page (page_at va j) x \<longrightarrow> lookup (phys s') root x = page_at pa j + (x AND PAGE_MASK))
        else lookup (phys s') root x = lookup (phys s) root x)" if x: "no_large root s x" for x
    proof -
      note ihx = ih [THEN conjunct2, THEN conjunct2, THEN conjunct2, rule_format, OF nl [OF x]]
      show ?thesis
        using ihx look [OF x] other [of x] by (cases "same_page ?v x") (auto split: if_splits)
    qed
    with c ih show ?thesis by blast
  qed
qed

lemma window_pages_distinct:
  assumes "unat va + 4096 * n \<le> 2 ^ 64" and "n \<le> 2 ^ 36" and "i < n" and "j < n"
    and "same_page (page_at va i) (page_at va j)"
  shows "i = j"
proof -
  have u: "unat (drop_bit 12 (page_at va k)) = unat va div 4096 + k" if "k < n" for k
  proof -
    have "unat va + 4096 * k < 2 ^ 64" using assms(1) that by simp
    moreover have "4096 * k < 2 ^ 64" using calculation by simp
    then have "unat (of_nat k * PAGE_SIZE) = 4096 * k"
      using unat_of_nat_small [of "4096 * k", where 'a = 64] by (simp add: PAGE_SIZE_def mult.commute)
    ultimately have "unat (page_at va k) = unat va + 4096 * k"
      using unat_add_no_wrap [of va "of_nat k * PAGE_SIZE"] by simp
    then show ?thesis by (simp add: drop_bit_eq_div unat_div)
  qed
  have "take_bit 36 (drop_bit 12 (page_at va i)) = take_bit 36 (drop_bit 12 (page_at va j))"
    using assms(5) by (simp add: same_page_def)
  then have "(unat va div 4096 + i) mod 2 ^ 36 = (unat va div 4096 + j) mod 2 ^ 36"
    using u assms(3,4) by (simp add: take_bit_eq_mod word_unat_eq_iff unat_mod)
  then have "i mod 2 ^ 36 = j mod 2 ^ 36" by (auto simp: nat_mod_eq_iff)
  then show ?thesis using assms(2,3,4) by simp
qed

lemma map_page_effect:
  assumes "vmm_wf (kernel_root s) s" and "no_large (kernel_root s) s v" and "hhdm_offset s \<noteq> 0"
    and "current_context s = 0" and "page_aligned pa"
  shows "case vmm_map_page pa v flags s of (r, s') \<Rightarrow>
     vmm_wf (kernel_root s') s' \<and> r \<in> {None, Some v} \<and>
     (\<forall>w. no_large (kernel_root s) s w \<longrightarrow> no_large (kernel_root s') s' w \<and>
        vmm_get_physical_addr w s' =
          (if r = Some v \<and> same_page v w then pa + (w AND PAGE_MASK) else vmm_get_physical_addr w s))"
proof -
  obtain r s' where r: "vmm_map_page pa v flags s = (r, s')" by fastforce
  let ?R = "kernel_root s"
  have "kernel_root s' = ?R \<and> vmm_wf ?R s' \<and> r \<in> {None, Some v} \<and> current_context s' = 0 \<and> hhdm_offset s' \<noteq> 0 \<and>
     (\<forall>w. no_large ?R s w \<longrightarrow> no_large ?R s' w \<and> lookup (phys s') ?R w =
        (if r = Some v \<and> same_page v w then pa + (w AND PAGE_MASK) else lookup (phys s) ?R w))"
    using assms(1-3) r
  proof (cases rule: map_page_cases)
    case full
    with keepsD [OF full(2)] assms(3,4) show ?thesis by simp
  next
    case (mapped pt t)
    let ?e = "pa OR (PAGE_PRESENT OR (flags AND (PAGE_WRITABLE OR PAGE_USER OR PAGE_PCD OR PAGE_PWT)))"
    note k = keepsD [OF mapped(2)]
    note l = set_leaf_spec [OF k(1) mapped(3), where e = ?e]
    have f: "phys s' = phys (set_leaf pt v ?e t)" "page_pool s' = page_pool (set_leaf pt v ?e t)"
      "contexts s' = contexts t" "current_context s' = current_context t" "hhdm_offset s' = hhdm_offset t"
      by (simp_all add: mapped(4) set_leaf_def)
    then have "vmm_wf ?R s' \<and> (\<forall>w. no_large ?R s' w = no_large ?R t w)"
      using l(1,2) by (simp add: vmm_wf_def no_large_def)
    with f k l(3) leaf_flags [OF assms(5) map_page_flags, of flags] assms(3,4) mapped(1) show ?thesis by simp
  qed
  then show ?thesis
    using get_physical_lookup [of s'] get_physical_lookup [of s] assms(3,4) by (simp add: r)
qed

section \<open>Properties\<close>

text \<open>
  C4. Mapping a page: whatever tables the boot loader left, as long as they form a tree and are not in the
  page allocator's free pages, a successful \<^verbatim>\<open>vmm_map_page\<close> makes every address of that virtual page translate to
  the given physical page and leaves the translation of every other address (not behind a large page)
  as it was, although up to three tables are allocated, cleared and linked in; when memory runs out it
  returns NULL and no translation changes. The invariant holds in both cases.
\<close>

theorem vmm_map_page_translates:
  assumes "vmm_wf (kernel_root s) s" and "no_large (kernel_root s) s v" and "hhdm_offset s \<noteq> 0"
    and "current_context s = 0" and "page_aligned pa"
  shows "case vmm_map_page pa v flags s of (r, s') \<Rightarrow>
     vmm_wf (kernel_root s') s' \<and> r \<in> {None, Some v} \<and>
     (\<forall>w. no_large (kernel_root s) s w \<longrightarrow> no_large (kernel_root s') s' w \<and>
        vmm_get_physical_addr w s' =
          (if r = Some v \<and> same_page v w then pa + (w AND PAGE_MASK) else vmm_get_physical_addr w s))"
  using assms by (rule map_page_effect)

text \<open>Empty tables with a root the allocator has given out before.\<close>

definition sample_vmm :: vmm where
  "sample_vmm = \<lparr>contexts = [\<lparr>pml4 = 0x101000, cr3_value = 0x101008\<rparr>], current_context = 0,
     next_mmio_vaddr = MMIO_VIRTUAL_BASE, hhdm_offset = 0xFFFF800000000000, phys = (\<lambda>_. 0),
     page_pool = sample_pmm, cr0 = 0x80000001, cr3 = 0x101008, cr4 = 0, flushed = []\<rparr>"

lemma empty_walk: "walk (\<lambda>_. 0) root p = (if p = [] then Some root else None)"
  by (cases p) (simp_all add: child_def)

lemma empty_small: "small (\<lambda>_. 0) root p"
  by (cases p) simp_all

lemma sample_vmm_root: "kernel_root sample_vmm = 0x101000"
  by (simp add: sample_vmm_def)

lemma sample_vmm_ok:
  "vmm_wf (kernel_root sample_vmm) sample_vmm" "no_large (kernel_root sample_vmm) sample_vmm v"
  "hhdm_offset sample_vmm \<noteq> 0" "current_context sample_vmm = 0"
proof -
  have al: "page_aligned 0x101000" "page_aligned 0x100000" by (simp_all add: page_aligned_def)
  have "bitmap_block_to_address sample_bitmap 1 = 0x101000" by code_simp
  then have "\<not> available sample_pmm 0x101000"
    using block_to_address_inj [OF sample_bitmap_wf, of _ 1] by (auto simp: available_def)
  moreover have "tables (\<lambda>_. 0) 0x101000 = {0x101000}"
    by (auto simp: tables_def empty_walk path_ok_def split: if_splits)
  moreover have "memory_base sample_bitmap = 0x100000" by (simp add: sample_bitmap_def)
  ultimately show "vmm_wf (kernel_root sample_vmm) sample_vmm"
    unfolding sample_vmm_root vmm_wf_def using al
    by (simp add: sample_vmm_def pool_ok_def page_tree_def empty_walk)
  show "no_large (kernel_root sample_vmm) sample_vmm v" "hhdm_offset sample_vmm \<noteq> 0" "current_context sample_vmm = 0"
    by (simp_all add: no_large_def sample_vmm_def empty_small)
qed

theorem vmm_map_page_translates_witness:
  "case vmm_map_page 0xFEC00000 0xFFFFFFFFC0000000 3 sample_vmm of (r, s') \<Rightarrow>
     r = Some 0xFFFFFFFFC0000000 \<and> vmm_get_physical_addr 0xFFFFFFFFC0000010 s' = 0xFEC00010"
proof -
  have r: "fst (vmm_map_page 0xFEC00000 0xFFFFFFFFC0000000 3 sample_vmm) = Some 0xFFFFFFFFC0000000" by code_simp
  have "page_aligned 0xFEC00000" "same_page 0xFFFFFFFFC0000000 0xFFFFFFFFC0000010"
    by (simp_all add: page_aligned_def same_page_def)
  with vmm_map_page_translates [OF sample_vmm_ok(1) sample_vmm_ok(2) sample_vmm_ok(3,4), of "0xFEC00000" "0xFFFFFFFFC0000000" 3]
    r sample_vmm_ok(2) [of "0xFFFFFFFFC0000010"] show ?thesis
    by (auto simp: split_beta PAGE_MASK_def PAGE_SIZE_def)
qed

text \<open>
  C20. Unmapping a range of at least one byte always returns. If the range ends below the last page of the address space,
  every address whose page holds a byte of the range afterwards translates to nothing, and every other translation
  is unchanged; pages are told apart by address bits 12 to 47, the bits translation reads. If the range
  reaches into the last page, the rounded end wraps around to zero and the call changes nothing at all.
\<close>

theorem vmm_unmap_range:
  assumes "vmm_wf (kernel_root s) s" and "hhdm_offset s \<noteq> 0" and "current_context s = 0" and "0 < sz"
    and "\<forall>v. unat a \<le> unat v \<longrightarrow> unat v < unat a + unat sz \<longrightarrow> no_large (kernel_root s) s v"
  shows "\<exists>s'. vmm_unmap a sz s = Some s' \<and>
     (unat a + unat sz + 4096 \<le> 2 ^ 64 \<longrightarrow> vmm_wf (kernel_root s') s' \<and>
       (\<forall>w. no_large (kernel_root s) s w \<longrightarrow> vmm_get_physical_addr w s' =
          (if \<exists>b. unat a \<le> b \<and> b < unat a + unat sz \<and> b div 4096 mod 2 ^ 36 = unat w div 4096 mod 2 ^ 36 then 0
           else vmm_get_physical_addr w s))) \<and>
     (2 ^ 64 < unat a + unat sz + 4096 \<and> unat a + unat sz \<le> 2 ^ 64 \<longrightarrow> s' = s)"
proof -
  let ?vs = "pages_between (PAGE_ALIGN a) (PAGE_ALIGN_UP (a + sz))"
  let ?s = "fold vmm_unmap_page ?vs s"
  have r: "vmm_unmap a sz s = Some ?s"
    unfolding vmm_unmap_def Let_def by (rule unmap_loop_returns) (simp_all add: PAGE_ALIGN_def PAGE_ALIGN_UP_def)
  have inside: "vmm_wf (kernel_root ?s) ?s \<and>
      (\<forall>w. no_large (kernel_root s) s w \<longrightarrow> vmm_get_physical_addr w ?s =
        (if \<exists>b. unat a \<le> b \<and> b < unat a + unat sz \<and> b div 4096 mod 2 ^ 36 = unat w div 4096 mod 2 ^ 36 then 0
         else vmm_get_physical_addr w s))"
    if fits: "unat a + unat sz + 4096 \<le> 2 ^ 64"
  proof -
    note touch = pages_between_touch [OF assms(4) fits]
    have small: "\<forall>v\<in>set ?vs. no_large (kernel_root s) s v"
    proof
      fix v assume "v \<in> set ?vs"
      then obtain b where b: "unat a \<le> b" "b < unat a + unat sz" "b div 4096 mod 2 ^ 36 = unat v div 4096 mod 2 ^ 36"
        using touch [of v] by (auto simp: same_page_def)
      have u: "unat (of_nat b :: u64) = b" using b(2) fits by (simp add: unat_of_nat)
      then have "no_large (kernel_root s) s (of_nat b)" using assms(5) b(1,2) by simp
      moreover have "same_page (of_nat b) v" unfolding same_page_unat u by (rule b(3))
      ultimately show "no_large (kernel_root s) s v" by (simp add: no_large_same_page)
    qed
    note u = unmap_pages_spec [OF assms(1-3) small]
    then have same: "kernel_root ?s = kernel_root s" "hhdm_offset ?s \<noteq> 0" "current_context ?s = 0"
      using assms(2,3) by (simp_all add: same_context_def)
    have "vmm_get_physical_addr w ?s = (if \<exists>v\<in>set ?vs. same_page v w then 0 else vmm_get_physical_addr w s)"
      if "no_large (kernel_root s) s w" for w
      using u [of w] same get_physical_lookup [of ?s w] get_physical_lookup [of s w] assms(2,3) that by simp
    with u same show ?thesis unfolding touch by auto
  qed
  have "?s = s" if "2 ^ 64 < unat a + unat sz + 4096" "unat a + unat sz \<le> 2 ^ 64"
    using pages_between_top [OF that] by simp
  with r inside show ?thesis by blast
qed

theorem vmm_unmap_range_witness:
  "\<exists>s'. vmm_unmap 0xFFFFFFFFC0000800 0x1000 sample_vmm = Some s' \<and>
     vmm_get_physical_addr 0xFFFFFFFFC0000010 s' = 0 \<and> vmm_get_physical_addr 0xFFFFFFFFC0001FF0 s' = 0"
proof -
  obtain s' where s': "vmm_unmap 0xFFFFFFFFC0000800 0x1000 sample_vmm = Some s'"
    and at: "\<And>w. vmm_get_physical_addr w s' =
       (if \<exists>b. unat (0xFFFFFFFFC0000800 :: u64) \<le> b \<and> b < unat (0xFFFFFFFFC0000800 :: u64) + unat (0x1000 :: u64) \<and>
          b div 4096 mod 2 ^ 36 = unat w div 4096 mod 2 ^ 36 then 0 else vmm_get_physical_addr w sample_vmm)"
    using vmm_unmap_range [OF sample_vmm_ok(1,3,4), of "0x1000" "0xFFFFFFFFC0000800"] sample_vmm_ok(2) by auto
  have "vmm_get_physical_addr 0xFFFFFFFFC0000010 s' = 0"
    unfolding at by (rule if_P, rule exI [of _ "0xFFFFFFFFC0000800"]) simp
  moreover have "vmm_get_physical_addr 0xFFFFFFFFC0001FF0 s' = 0"
    unfolding at by (rule if_P, rule exI [of _ "0xFFFFFFFFC0001000"]) simp
  ultimately show ?thesis using s' by blast
qed

text \<open>
  A device window: when \<^verbatim>\<open>vmm_map_mmio\<close> succeeds, it returns the next free address of the MMIO range and
  moves that on by the size in whole pages, every page of the window translates to the matching page of
  the device, and every other translation is unchanged.
\<close>

theorem vmm_map_mmio_window:
  assumes "vmm_wf (kernel_root s) s" and "hhdm_offset s \<noteq> 0" and "current_context s = 0" and "page_aligned pa"
    and n: "n = unat ((sz + PAGE_SIZE - 1) div PAGE_SIZE)"
    and room: "unat (next_mmio_vaddr s) + 4096 * n \<le> 2 ^ 64" "n \<le> 2 ^ 36"
    and small: "\<forall>i<n. no_large (kernel_root s) s (page_at (next_mmio_vaddr s) i)"
    and r: "vmm_map_mmio pa sz s = (Some va, s')"
  shows "va = next_mmio_vaddr s \<and> next_mmio_vaddr s' = page_at va n \<and> vmm_wf (kernel_root s') s' \<and>
     (\<forall>w. no_large (kernel_root s) s w \<longrightarrow>
        (\<forall>i<n. same_page (page_at va i) w \<longrightarrow> vmm_get_physical_addr w s' = page_at pa i + (w AND PAGE_MASK)) \<and>
        ((\<forall>i<n. \<not> same_page (page_at va i) w) \<longrightarrow> vmm_get_physical_addr w s' = vmm_get_physical_addr w s))"
proof -
  let ?R = "kernel_root s" and ?va = "next_mmio_vaddr s"
  let ?s = "s\<lparr>next_mmio_vaddr := page_at ?va n\<rparr>"
  obtain ok t where m: "map_mmio_pages ?R pa ?va [0..<n] ?s = (ok, t)" by fastforce
  have nx: "of_nat n = (sz + PAGE_SIZE - 1) div PAGE_SIZE" by (simp add: n)
  have ok: "ok" "va = ?va" "s' = t\<lparr>flushed := flushed t @ map (page_at ?va) [0..<n]\<rparr>"
    using r m assms(2) by (auto simp: vmm_map_mmio_def Let_def nx n [symmetric] split: if_splits bool.splits)
  have spec: "same_context ?s t \<and> next_mmio_vaddr t = next_mmio_vaddr ?s \<and> vmm_wf ?R t \<and>
     (\<forall>w. no_large ?R ?s w \<longrightarrow> no_large ?R t w \<and>
       (if \<exists>i\<in>set [0..<n]. same_page (page_at ?va i) w
        then ok \<longrightarrow> (\<forall>i\<in>set [0..<n]. same_page (page_at ?va i) w \<longrightarrow> lookup (phys t) ?R w = page_at pa i + (w AND PAGE_MASK))
        else lookup (phys t) ?R w = lookup (phys ?s) ?R w))"
    by (rule map_mmio_pages_spec [OF _ _ assms(4) _ _ m])
       (use assms(1) small window_pages_distinct [OF room] in \<open>auto simp: vmm_wf_def no_large_def\<close>)
  have f: "kernel_root s' = ?R" "phys s' = phys t" "page_pool s' = page_pool t" "current_context s' = 0" "hhdm_offset s' \<noteq> 0"
    "next_mmio_vaddr s' = page_at ?va n"
    using spec assms(2,3) by (simp_all add: ok(3) same_context_def)
  have get: "no_large ?R s' w \<Longrightarrow> vmm_get_physical_addr w s' = lookup (phys t) ?R w"
    "no_large ?R s w \<Longrightarrow> vmm_get_physical_addr w s = lookup (phys s) ?R w" for w
    using get_physical_lookup [of s' w] get_physical_lookup [of s w] f assms(2,3) by simp_all
  have nl: "no_large ?R s' w = no_large ?R t w" "no_large ?R ?s w = no_large ?R s w" for w
    by (simp_all add: no_large_def f)
  have "(\<forall>i<n. same_page (page_at va i) w \<longrightarrow> vmm_get_physical_addr w s' = page_at pa i + (w AND PAGE_MASK)) \<and>
      ((\<forall>i<n. \<not> same_page (page_at va i) w) \<longrightarrow> vmm_get_physical_addr w s' = vmm_get_physical_addr w s)"
    if w: "no_large ?R s w" for w
  proof -
    note x = spec [THEN conjunct2, THEN conjunct2, THEN conjunct2, rule_format, unfolded nl, OF w]
    show ?thesis using x get [of w] nl(1) [of w] w ok(1,2) by (cases "\<exists>i\<in>set [0..<n]. same_page (page_at ?va i) w") auto
  qed
  moreover have "vmm_wf ?R s'" using spec by (simp add: vmm_wf_def f)
  ultimately show ?thesis using f ok(2) by simp
qed

theorem vmm_map_mmio_window_witness:
  "vmm_get_physical_addr 0xFFFFFFFFC0001010 (snd (vmm_map_mmio 0xFEBC0000 0x2000 sample_vmm)) = 0xFEBC1010"
proof -
  let ?r = "vmm_map_mmio 0xFEBC0000 0x2000 sample_vmm"
  have "fst ?r = Some 0xFFFFFFFFC0000000" by code_simp
  then have r: "?r = (Some 0xFFFFFFFFC0000000, snd ?r)" by (metis prod.collapse)
  have n: "2 = unat ((0x2000 + PAGE_SIZE - 1) div PAGE_SIZE)" by (simp add: PAGE_SIZE_def)
  have room: "unat (next_mmio_vaddr sample_vmm) + 4096 * 2 \<le> 2 ^ 64" "(2 :: nat) \<le> 2 ^ 36"
    by (simp_all add: sample_vmm_def MMIO_VIRTUAL_BASE_def)
  have al: "page_aligned 0xFEBC0000" by (simp add: page_aligned_def)
  have sm: "\<forall>i<2. no_large (kernel_root sample_vmm) sample_vmm (page_at (next_mmio_vaddr sample_vmm) i)"
    using sample_vmm_ok(2) by simp
  have "same_page (page_at 0xFFFFFFFFC0000000 1) 0xFFFFFFFFC0001010"
    by (simp add: same_page_def PAGE_SIZE_def)
  with vmm_map_mmio_window [OF sample_vmm_ok(1,3,4) al n room sm r] sample_vmm_ok(2) [of "0xFFFFFFFFC0001010"]
  have "vmm_get_physical_addr 0xFFFFFFFFC0001010 (snd ?r) = page_at 0xFEBC0000 1 + (0xFFFFFFFFC0001010 AND PAGE_MASK)"
    by (metis one_less_numeral_iff semiring_norm(76))
  then show ?thesis by (simp add: PAGE_SIZE_def PAGE_MASK_def)
qed

end
