(* ===== verification/Ports.thy ===== *)
theory Ports
  imports Cgos_Prelude
begin

text \<open>
  The port instructions of \<^verbatim>\<open>pci.h\<close> (\<open>inb\<close>, \<open>outb\<close>, \<open>inw\<close>, \<open>outw\<close>, \<open>inl\<close>, \<open>outl\<close>). What they do is up to the
  hardware, so they are a parameter of the drivers: a record of operations on a state \<open>'d\<close> of the hardware.
  Each driver states as a predicate what the standard of its device promises of them.
\<close>

record 'd ports =
  inb :: "u16 \<Rightarrow> 'd \<Rightarrow> u8 \<times> 'd"
  outb :: "u16 \<Rightarrow> u8 \<Rightarrow> 'd \<Rightarrow> 'd"
  inw :: "u16 \<Rightarrow> 'd \<Rightarrow> u16 \<times> 'd"
  outw :: "u16 \<Rightarrow> u16 \<Rightarrow> 'd \<Rightarrow> 'd"
  inl :: "u16 \<Rightarrow> 'd \<Rightarrow> u32 \<times> 'd"
  outl :: "u16 \<Rightarrow> u32 \<Rightarrow> 'd \<Rightarrow> 'd"

text \<open>A sequence of byte writes, in order.\<close>

definition outb_seq :: "'d ports \<Rightarrow> (u16 \<times> u8) list \<Rightarrow> 'd \<Rightarrow> 'd" where
  "outb_seq P ws d = fold (\<lambda>(port, v). outb P port v) ws d"

lemma outb_seq_simps [simp]:
  "outb_seq P [] d = d" "outb_seq P ((port, v) # ws) d = outb_seq P ws (outb P port v d)"
  "outb_seq P (ws @ vs) d = outb_seq P vs (outb_seq P ws d)"
  by (simp_all add: outb_seq_def)

end
