(* ===== verification/Ata.thy ===== *)
theory Ata
  imports Net_Bytes Ports
begin

text \<open>
  The IDE disk driver (\<^verbatim>\<open>drivers/ata.c\<close>), programmed input and output on the primary channel.

  What a disk documented by the ATA standard does with the port instructions is the predicate \<open>disk_contract\<close>.
\<close>

section \<open>State\<close>

definition ATA_PRIMARY_DATA :: u16 where "ATA_PRIMARY_DATA = 0x1F0"
definition ATA_PRIMARY_SECCOUNT :: u16 where "ATA_PRIMARY_SECCOUNT = 0x1F2"
definition ATA_PRIMARY_LBA_LO :: u16 where "ATA_PRIMARY_LBA_LO = 0x1F3"
definition ATA_PRIMARY_LBA_MID :: u16 where "ATA_PRIMARY_LBA_MID = 0x1F4"
definition ATA_PRIMARY_LBA_HI :: u16 where "ATA_PRIMARY_LBA_HI = 0x1F5"
definition ATA_PRIMARY_DRIVE :: u16 where "ATA_PRIMARY_DRIVE = 0x1F6"
definition ATA_PRIMARY_STATUS :: u16 where "ATA_PRIMARY_STATUS = 0x1F7"
definition ATA_PRIMARY_COMMAND :: u16 where "ATA_PRIMARY_COMMAND = 0x1F7"
definition ATA_PRIMARY_CONTROL :: u16 where "ATA_PRIMARY_CONTROL = 0x3F6"
definition ATA_CMD_READ_SECTORS :: u8 where "ATA_CMD_READ_SECTORS = 0x20"
definition ATA_CMD_WRITE_SECTORS :: u8 where "ATA_CMD_WRITE_SECTORS = 0x30"
definition ATA_CMD_IDENTIFY :: u8 where "ATA_CMD_IDENTIFY = 0xEC"
definition ATA_CMD_FLUSH :: u8 where "ATA_CMD_FLUSH = 0xE7"
definition ATA_SR_BSY :: u8 where "ATA_SR_BSY = 0x80"
definition ATA_SR_DRQ :: u8 where "ATA_SR_DRQ = 0x08"
definition ATA_SR_ERR :: u8 where "ATA_SR_ERR = 0x01"

record ata_drive_t =
  drive_present :: bool
  is_ata :: bool
  size_sectors :: u32
  model_name :: "u8 list"
  serial :: "u8 list"

record 'd ata =
  drives :: "ata_drive_t list"
  hw :: 'd

section \<open>Waiting and transferring\<close>

text \<open>The loops count down from 100000.\<close>

fun wait_ready_loop :: "'d ports \<Rightarrow> nat \<Rightarrow> 'd \<Rightarrow> int \<times> 'd" where
  "wait_ready_loop P 0 d = (- 1, d)"
| "wait_ready_loop P (Suc timeout) d =
     (case inb P ATA_PRIMARY_STATUS d of
        (status, d) \<Rightarrow> if status AND ATA_SR_BSY = 0 then (0, d) else wait_ready_loop P timeout d)"

definition ata_wait_ready :: "'d ports \<Rightarrow> 'd \<Rightarrow> int \<times> 'd" where
  "ata_wait_ready P d = wait_ready_loop P 100000 d"

fun wait_drq_loop :: "'d ports \<Rightarrow> nat \<Rightarrow> 'd \<Rightarrow> int \<times> 'd" where
  "wait_drq_loop P 0 d = (- 1, d)"
| "wait_drq_loop P (Suc timeout) d =
     (case inb P ATA_PRIMARY_STATUS d of
        (status, d) \<Rightarrow>
          if status AND ATA_SR_ERR \<noteq> 0 then (- 1, d)
          else if status AND ATA_SR_BSY = 0 \<and> status AND ATA_SR_DRQ \<noteq> 0 then (0, d)
          else wait_drq_loop P timeout d)"

definition ata_wait_drq :: "'d ports \<Rightarrow> 'd \<Rightarrow> int \<times> 'd" where
  "ata_wait_drq P d = wait_drq_loop P 100000 d"

definition drive_bit :: "int \<Rightarrow> u8" where
  "drive_bit drive = push_bit 4 (word_of_int drive AND 1)"

definition ata_select_drive :: "'d ports \<Rightarrow> int \<Rightarrow> 'd \<Rightarrow> 'd" where
  "ata_select_drive P drive d =
     ((\<lambda>d. snd (inb P ATA_PRIMARY_STATUS d)) ^^ 15) (outb P ATA_PRIMARY_DRIVE (0xA0 OR drive_bit drive) d)"

fun read_words :: "'d ports \<Rightarrow> nat \<Rightarrow> 'd \<Rightarrow> u16 list \<times> 'd" where
  "read_words P 0 d = ([], d)"
| "read_words P (Suc n) d =
     (case inw P ATA_PRIMARY_DATA d of
        (w, d) \<Rightarrow> (case read_words P n d of (ws, d) \<Rightarrow> (w # ws, d)))"

definition write_words :: "'d ports \<Rightarrow> u16 list \<Rightarrow> 'd \<Rightarrow> 'd" where
  "write_words P ws d = fold (outw P ATA_PRIMARY_DATA) ws d"

section \<open>Detection\<close>

definition swapped_text :: "u16 list \<Rightarrow> u8 list" where
  "swapped_text ws = concat (map (\<lambda>w. [ucast (drop_bit 8 w AND 0xFF), ucast (w AND 0xFF)]) ws)"

definition trim_spaces :: "u8 list \<Rightarrow> u8 list" where
  "trim_spaces bs = (let kept = rev (dropWhile (\<lambda>b. b = 32) (rev bs)) in kept @ replicate (length bs - length kept) 0)"

abbreviation upd_drive :: "int \<Rightarrow> (ata_drive_t \<Rightarrow> ata_drive_t) \<Rightarrow> ('d, 'z) ata_scheme \<Rightarrow> ('d, 'z) ata_scheme" where
  "upd_drive n f s \<equiv> s\<lparr>drives := (drives s)[nat n := f (drives s ! nat n)]\<rparr>"

definition identified :: "u16 list \<Rightarrow> ata_drive_t \<Rightarrow> ata_drive_t" where
  "identified ident x =
     x\<lparr>drive_present := True, is_ata := True,
       size_sectors := ucast (ident ! 60) OR push_bit 16 (ucast (ident ! 61)),
       model_name := trim_spaces (swapped_text (take 20 (drop 27 ident))) @ [0],
       serial := swapped_text (take 10 (drop 10 ident)) @ [0]\<rparr>"

definition ata_identify :: "'d ports \<Rightarrow> int \<Rightarrow> ('d, 'z) ata_scheme \<Rightarrow> bool \<times> ('d, 'z) ata_scheme" where
  "ata_identify P drive s =
     (let d = ata_select_drive P drive (hw s);
          d = outb P ATA_PRIMARY_SECCOUNT 0 d;
          d = outb P ATA_PRIMARY_LBA_LO 0 d;
          d = outb P ATA_PRIMARY_LBA_MID 0 d;
          d = outb P ATA_PRIMARY_LBA_HI 0 d;
          d = outb P ATA_PRIMARY_COMMAND ATA_CMD_IDENTIFY d
      in case inb P ATA_PRIMARY_STATUS d of
           (status, d) \<Rightarrow>
             if status = 0 then (False, s\<lparr>hw := d\<rparr>)
             else case ata_wait_ready P d of
                    (r, d) \<Rightarrow>
                      if r < 0 then (False, s\<lparr>hw := d\<rparr>)
                      else case inb P ATA_PRIMARY_LBA_MID d of
                             (lba_mid, d) \<Rightarrow>
                               (case inb P ATA_PRIMARY_LBA_HI d of
                                  (lba_hi, d) \<Rightarrow>
                                    if lba_mid \<noteq> 0 \<or> lba_hi \<noteq> 0
                                    then (False, upd_drive drive (\<lambda>x. x\<lparr>is_ata := False\<rparr>) (s\<lparr>hw := d\<rparr>))
                                    else case ata_wait_drq P d of
                                           (r, d) \<Rightarrow>
                                             if r < 0 then (False, s\<lparr>hw := d\<rparr>)
                                             else case read_words P 256 d of
                                                    (ident, d) \<Rightarrow>
                                                      (True, upd_drive drive (identified ident) (s\<lparr>hw := d\<rparr>))))"

definition no_drive :: "ata_drive_t \<Rightarrow> ata_drive_t" where
  "no_drive x = x\<lparr>drive_present := False, is_ata := False, size_sectors := 0,
     model_name := (model_name x)[0 := 0], serial := (serial x)[0 := 0]\<rparr>"

definition ata_init :: "'d ports \<Rightarrow> ('d, 'z) ata_scheme \<Rightarrow> int \<times> ('d, 'z) ata_scheme" where
  "ata_init P s =
     (let s = s\<lparr>hw := outb P ATA_PRIMARY_CONTROL 0x02 (hw s)\<rparr>;
          s = upd_drive 1 no_drive (upd_drive 0 no_drive s);
          s = snd (ata_identify P 1 (snd (ata_identify P 0 s)))
      in if \<not> drive_present (drives s ! 0) \<and> \<not> drive_present (drives s ! 1) then (- 1, s) else (0, s))"

definition ata_drive_present :: "int \<Rightarrow> ('d, 'z) ata_scheme \<Rightarrow> bool" where
  "ata_drive_present drive s \<longleftrightarrow>
     \<not> (drive < 0 \<or> 1 < drive) \<and> drive_present (drives s ! nat drive) \<and> is_ata (drives s ! nat drive)"

definition ata_get_drive_info :: "int \<Rightarrow> ('d, 'z) ata_scheme \<Rightarrow> ata_drive_t option" where
  "ata_get_drive_info drive s = (if drive < 0 \<or> 1 < drive then None else Some (drives s ! nat drive))"

section \<open>Sectors\<close>

text \<open>The register writes that start a command.\<close>

definition ata_issue :: "'d ports \<Rightarrow> u8 \<Rightarrow> int \<Rightarrow> u32 \<Rightarrow> u8 \<Rightarrow> 'd \<Rightarrow> 'd" where
  "ata_issue P cmd drive lba count d =
     (let drv_sel = 0xE0 OR drive_bit drive OR ucast (drop_bit 24 lba AND 0x0F);
          d = outb P ATA_PRIMARY_DRIVE drv_sel d;
          d = outb P ATA_PRIMARY_SECCOUNT count d;
          d = outb P ATA_PRIMARY_LBA_LO (ucast (lba AND 0xFF)) d;
          d = outb P ATA_PRIMARY_LBA_MID (ucast (drop_bit 8 lba AND 0xFF)) d;
          d = outb P ATA_PRIMARY_LBA_HI (ucast (drop_bit 16 lba AND 0xFF)) d
      in outb P ATA_PRIMARY_COMMAND cmd d)"

fun read_loop :: "'d ports \<Rightarrow> nat \<Rightarrow> 'd \<Rightarrow> (bool \<times> u16 list) \<times> 'd" where
  "read_loop P 0 d = ((True, []), d)"
| "read_loop P (Suc n) d =
     (case ata_wait_drq P d of
        (r, d) \<Rightarrow>
          if r < 0 then ((False, []), d)
          else case read_words P 256 d of
                 (ws, d) \<Rightarrow> (case read_loop P n d of ((ok, vs), d) \<Rightarrow> ((ok, ws @ vs), d)))"

text \<open>The result is the return value and the bytes stored at the start of the caller's buffer.\<close>

definition ata_read_sectors ::
  "'d ports \<Rightarrow> int \<Rightarrow> u32 \<Rightarrow> u8 \<Rightarrow> ('d, 'z) ata_scheme \<Rightarrow> (int \<times> u8 list) \<times> ('d, 'z) ata_scheme" where
  "ata_read_sectors P drive lba count s =
     (if \<not> ata_drive_present drive s then ((- 1, []), s)
      else if count = 0 then ((0, []), s)
      else case ata_wait_ready P (hw s) of
             (r, d) \<Rightarrow>
               if r < 0 then ((- 1, []), s\<lparr>hw := d\<rparr>)
               else case read_loop P (unat count) (ata_issue P ATA_CMD_READ_SECTORS drive lba count d) of
                      ((ok, ws), d) \<Rightarrow>
                        ((if ok then int (unat count) else - 1, concat (map le16 ws)), s\<lparr>hw := d\<rparr>))"

fun words_of :: "u8 list \<Rightarrow> u16 list" where
  "words_of (a # b # bs) = rd16 [a, b] 0 # words_of bs"
| "words_of _ = []"

fun write_loop :: "'d ports \<Rightarrow> nat \<Rightarrow> u16 list \<Rightarrow> 'd \<Rightarrow> bool \<times> 'd" where
  "write_loop P 0 ws d = (True, d)"
| "write_loop P (Suc n) ws d =
     (case ata_wait_drq P d of
        (r, d) \<Rightarrow>
          if r < 0 then (False, d)
          else write_loop P n (drop 256 ws) (write_words P (take 256 ws) d))"

definition ata_write_sectors ::
  "'d ports \<Rightarrow> int \<Rightarrow> u32 \<Rightarrow> u8 \<Rightarrow> u8 list \<Rightarrow> ('d, 'z) ata_scheme \<Rightarrow> int \<times> ('d, 'z) ata_scheme" where
  "ata_write_sectors P drive lba count buffer s =
     (if \<not> ata_drive_present drive s then (- 1, s)
      else if count = 0 then (0, s)
      else case ata_wait_ready P (hw s) of
             (r, d) \<Rightarrow>
               if r < 0 then (- 1, s\<lparr>hw := d\<rparr>)
               else case write_loop P (unat count) (words_of buffer)
                          (ata_issue P ATA_CMD_WRITE_SECTORS drive lba count d) of
                      (False, d) \<Rightarrow> (- 1, s\<lparr>hw := d\<rparr>)
                    | (True, d) \<Rightarrow>
                        let d = outb P ATA_PRIMARY_COMMAND ATA_CMD_FLUSH d
                        in (int (unat count), s\<lparr>hw := snd (ata_wait_ready P d)\<rparr>))"

section \<open>A working disk\<close>

text \<open>
  What the driver relies on: in a ready state the status register shows no activity and reading it has no
  effect; after a read command for one sector the drive requests a transfer and hands out the sector's 256
  words; after a write command it takes 256 words, and after the flush the sector holds them and every
  other one is as it was. The registers hold 28 bits of the sector's address.
\<close>

definition lba28 :: "u32 \<Rightarrow> bool" where
  "lba28 lba \<longleftrightarrow> drop_bit 28 lba = 0"

definition idle_status :: "'d ports \<Rightarrow> 'd \<Rightarrow> bool" where
  "idle_status P d \<longleftrightarrow> snd (inb P ATA_PRIMARY_STATUS d) = d \<and> fst (inb P ATA_PRIMARY_STATUS d) AND ATA_SR_BSY = 0"

definition drq_status :: "'d ports \<Rightarrow> 'd \<Rightarrow> bool" where
  "drq_status P d \<longleftrightarrow> snd (inb P ATA_PRIMARY_STATUS d) = d \<and>
     (let st = fst (inb P ATA_PRIMARY_STATUS d)
      in st AND ATA_SR_ERR = 0 \<and> st AND ATA_SR_BSY = 0 \<and> st AND ATA_SR_DRQ \<noteq> 0)"

definition disk_contract ::
  "'d ports \<Rightarrow> int \<Rightarrow> ('d \<Rightarrow> bool) \<Rightarrow> ('d \<Rightarrow> u32 \<Rightarrow> u8 list) \<Rightarrow> bool" where
  "disk_contract P drive ready content \<longleftrightarrow>
     (\<forall>d. ready d \<longrightarrow> idle_status P d) \<and>
     (\<forall>d lba. ready d \<longrightarrow> length (content d lba) = 512) \<and>
     (\<forall>d lba. ready d \<longrightarrow> lba28 lba \<longrightarrow>
        (let d1 = ata_issue P ATA_CMD_READ_SECTORS drive lba 1 d; r = read_words P 256 d1
         in drq_status P d1 \<and> ready (snd r) \<and> content (snd r) = content d \<and>
            concat (map le16 (fst r)) = content d lba)) \<and>
     (\<forall>d lba ws. ready d \<longrightarrow> lba28 lba \<longrightarrow> length ws = 256 \<longrightarrow>
        (let d1 = ata_issue P ATA_CMD_WRITE_SECTORS drive lba 1 d;
             d2 = outb P ATA_PRIMARY_COMMAND ATA_CMD_FLUSH (write_words P ws d1)
         in drq_status P d1 \<and> ready d2 \<and> content d2 = (content d)(lba := concat (map le16 ws))))"

lemma wait_ready_idle: "idle_status P d \<Longrightarrow> ata_wait_ready P d = (0, d)"
  using wait_ready_loop.simps(2) [of P 99999 d] by (auto simp: ata_wait_ready_def idle_status_def split_beta)

lemma wait_drq_ok: "drq_status P d \<Longrightarrow> ata_wait_drq P d = (0, d)"
  using wait_drq_loop.simps(2) [of P 99999 d] by (auto simp: ata_wait_drq_def drq_status_def split_beta Let_def)

lemma contract_idle: "disk_contract P drive ready content \<Longrightarrow> ready d \<Longrightarrow> ata_wait_ready P d = (0, d)"
  by (rule wait_ready_idle) (simp add: disk_contract_def)

lemma contract_length: "disk_contract P drive ready content \<Longrightarrow> ready d \<Longrightarrow> length (content d lba) = 512"
  by (simp add: disk_contract_def)

lemma ata_read_one:
  assumes "disk_contract P drive ready content" and "ready (hw s)" and "ata_drive_present drive s" and "lba28 lba"
  obtains d where "ata_read_sectors P drive lba 1 s = ((1, content (hw s) lba), s\<lparr>hw := d\<rparr>)"
    and "ready d" and "content d = content (hw s)"
proof -
  let ?d1 = "ata_issue P ATA_CMD_READ_SECTORS drive lba 1 (hw s)"
  have c: "drq_status P ?d1 \<and> ready (snd (read_words P 256 ?d1)) \<and> content (snd (read_words P 256 ?d1)) = content (hw s) \<and>
      concat (map le16 (fst (read_words P 256 ?d1))) = content (hw s) lba"
    using assms(1,2,4) unfolding disk_contract_def Let_def by blast
  then have q: "ata_wait_drq P ?d1 = (0, ?d1)" by (blast intro: wait_drq_ok)
  have "read_loop P 1 ?d1 = ((True, fst (read_words P 256 ?d1)), snd (read_words P 256 ?d1))"
    by (simp only: One_nat_def read_loop.simps q split_beta) simp
  with c contract_idle [OF assms(1,2)] assms(3) show thesis
    by (intro that [of "snd (read_words P 256 ?d1)"]) (simp_all add: ata_read_sectors_def)
qed

lemma words_of_bytes: "even (length bs) \<Longrightarrow> concat (map le16 (words_of bs)) = bs"
  by (induction bs rule: words_of.induct) (simp_all add: le16_rd16)

lemma words_of_le16: "words_of (concat (map le16 ws)) = ws"
  using rd16_le16 [where bs = "[]"] by (induction ws) (simp_all add: le16_def)

lemma length_words_of: "length (words_of bs) = length bs div 2"
  by (induction bs rule: words_of.induct) simp_all

lemma nth_words_of: "2 * i + 1 < length bs \<Longrightarrow> words_of bs ! i = rd16 bs (2 * i)"
proof (induction bs arbitrary: i rule: words_of.induct)
  case (1 a b bs)
  then show ?case by (cases i) (simp_all add: rd16_def)
qed simp_all

lemma ata_write_one:
  assumes "disk_contract P drive ready content" and "ready (hw s)" and "ata_drive_present drive s" and "lba28 lba"
    and "length bytes = 512"
  obtains d where "ata_write_sectors P drive lba 1 bytes s = (1, s\<lparr>hw := d\<rparr>)"
    and "ready d" and "content d = (content (hw s))(lba := bytes)"
proof -
  let ?d1 = "ata_issue P ATA_CMD_WRITE_SECTORS drive lba 1 (hw s)"
  let ?d2 = "outb P ATA_PRIMARY_COMMAND ATA_CMD_FLUSH (write_words P (words_of bytes) ?d1)"
  have len: "length (words_of bytes) = 256" using assms(5) by (simp add: length_words_of)
  have c: "drq_status P ?d1 \<and> ready ?d2 \<and> content ?d2 = (content (hw s))(lba := concat (map le16 (words_of bytes)))"
    using assms(1,2,4) len unfolding disk_contract_def Let_def by blast
  then have q: "ata_wait_drq P ?d1 = (0, ?d1)" by (blast intro: wait_drq_ok)
  have "write_loop P 1 (words_of bytes) ?d1 = (True, write_words P (words_of bytes) ?d1)"
    using len by (simp only: One_nat_def write_loop.simps q split_beta) simp
  with c contract_idle [OF assms(1,2)] contract_idle [OF assms(1), of ?d2] assms(3,5) show thesis
    by (intro that [of ?d2]) (simp_all add: ata_write_sectors_def Let_def words_of_bytes)
qed

text \<open>A drive that never raises its data request makes a transfer fail after the timeout.\<close>

lemma wait_drq_loop_error:
  assumes "\<And>d. fst (inb P ATA_PRIMARY_STATUS d) AND ATA_SR_ERR \<noteq> 0"
  shows "fst (wait_drq_loop P n d) = - 1"
  using assms by (cases n) (simp_all add: split_beta)

section \<open>A disk that keeps the contract\<close>

text \<open>
  The contract is satisfiable: a drive at the level of its registers, with the words of a pending transfer
  in a queue, meets it.
\<close>

record sim_disk =
  r_sel :: u8
  r_lo :: u8
  r_mid :: u8
  r_hi :: u8
  out_queue :: "u16 list"
  in_words :: "u16 list option"
  store :: "u32 \<Rightarrow> u8 list"

definition sim_addr :: "sim_disk \<Rightarrow> u32" where
  "sim_addr d = ucast (r_lo d) OR push_bit 8 (ucast (r_mid d)) OR push_bit 16 (ucast (r_hi d)) OR
     push_bit 24 (ucast (r_sel d AND 0x0F))"

definition sim_command :: "u8 \<Rightarrow> sim_disk \<Rightarrow> sim_disk" where
  "sim_command cmd d =
     (if cmd = ATA_CMD_READ_SECTORS then d\<lparr>out_queue := words_of (store d (sim_addr d))\<rparr>
      else if cmd = ATA_CMD_WRITE_SECTORS then d\<lparr>in_words := Some []\<rparr>
      else if cmd = ATA_CMD_FLUSH
      then case in_words d of
             None \<Rightarrow> d
           | Some ws \<Rightarrow> d\<lparr>in_words := None, store := (store d)(sim_addr d := concat (map le16 ws))\<rparr>
      else d)"

definition sim_status :: "sim_disk \<Rightarrow> u8" where
  "sim_status d = (if out_queue d = [] \<and> in_words d = None then 0x40 else 0x48)"

definition sim_ports :: "sim_disk ports" where
  "sim_ports =
     \<lparr>inb = (\<lambda>port d. (if port = ATA_PRIMARY_STATUS then sim_status d else 0, d)),
      outb = (\<lambda>port v d.
        if port = ATA_PRIMARY_DRIVE then d\<lparr>r_sel := v\<rparr>
        else if port = ATA_PRIMARY_LBA_LO then d\<lparr>r_lo := v\<rparr>
        else if port = ATA_PRIMARY_LBA_MID then d\<lparr>r_mid := v\<rparr>
        else if port = ATA_PRIMARY_LBA_HI then d\<lparr>r_hi := v\<rparr>
        else if port = ATA_PRIMARY_COMMAND then sim_command v d
        else d),
      inw = (\<lambda>port d. case out_queue d of [] \<Rightarrow> (0, d) | w # ws \<Rightarrow> (w, d\<lparr>out_queue := ws\<rparr>)),
      outw = (\<lambda>port w d. d\<lparr>in_words := map_option (\<lambda>ws. ws @ [w]) (in_words d)\<rparr>),
      inl = (\<lambda>port d. (0, d)), outl = (\<lambda>port v d. d)\<rparr>"

definition sim_ready :: "sim_disk \<Rightarrow> bool" where
  "sim_ready d \<longleftrightarrow> out_queue d = [] \<and> in_words d = None \<and> (\<forall>lba. length (store d lba) = 512)"

lemmas ata_port_defs = ATA_PRIMARY_DATA_def ATA_PRIMARY_SECCOUNT_def ATA_PRIMARY_LBA_LO_def ATA_PRIMARY_LBA_MID_def
  ATA_PRIMARY_LBA_HI_def ATA_PRIMARY_DRIVE_def ATA_PRIMARY_STATUS_def ATA_PRIMARY_COMMAND_def ATA_PRIMARY_CONTROL_def

lemmas ata_const_defs = ATA_CMD_READ_SECTORS_def ATA_CMD_WRITE_SECTORS_def ATA_CMD_IDENTIFY_def ATA_CMD_FLUSH_def
  ATA_SR_BSY_def ATA_SR_DRQ_def ATA_SR_ERR_def

lemma sim_issue:
  "ata_issue sim_ports cmd drive lba count d =
     sim_command cmd (d\<lparr>r_sel := 0xE0 OR drive_bit drive OR ucast (drop_bit 24 lba AND 0x0F),
       r_lo := ucast (lba AND 0xFF), r_mid := ucast (drop_bit 8 lba AND 0xFF), r_hi := ucast (drop_bit 16 lba AND 0xFF)\<rparr>)"
  by (simp add: ata_issue_def sim_ports_def ata_port_defs Let_def)

lemma ata_masks: "(0x0F :: u32) = mask 4" "(0xFF :: u32) = mask 8" "(0x0F :: u8) = mask 4" "(0xE0 :: u8) = push_bit 5 (mask 3)"
  by (simp_all add: mask_eq_exp_minus_1 push_bit_eq_mult)

lemma lba28_bit: "lba28 lba \<Longrightarrow> 28 \<le> n \<Longrightarrow> \<not> bit lba n"
  using bit_drop_bit_eq [of 28 lba] by (auto simp: lba28_def fun_eq_iff dest: spec [of _ "n - 28"])

lemma sim_addr_issue:
  assumes "lba28 lba"
  shows "sim_addr (d\<lparr>r_sel := 0xE0 OR drive_bit drive OR ucast (drop_bit 24 lba AND 0x0F),
       r_lo := ucast (lba AND 0xFF), r_mid := ucast (drop_bit 8 lba AND 0xFF), r_hi := ucast (drop_bit 16 lba AND 0xFF)\<rparr>) = lba"
proof (rule bit_word_eqI)
  fix n assume "n < LENGTH(32)"
  then consider "n < 8" | "8 \<le> n" "n < 16" | "16 \<le> n" "n < 24" | "24 \<le> n" "n < 28" | "28 \<le> n" "n < 32" by fastforce
  then show "bit (sim_addr (d\<lparr>r_sel := 0xE0 OR drive_bit drive OR ucast (drop_bit 24 lba AND 0x0F),
       r_lo := ucast (lba AND 0xFF), r_mid := ucast (drop_bit 8 lba AND 0xFF), r_hi := ucast (drop_bit 16 lba AND 0xFF)\<rparr>)) n
     = bit lba n"
    unfolding ata_masks sim_addr_def drive_bit_def
    by cases (use lba28_bit [OF assms, of n] in \<open>simp_all add: bit_simps, linarith+\<close>)
qed

lemma sim_read_words: "read_words sim_ports (length ws) (d\<lparr>out_queue := ws\<rparr>) = (ws, d\<lparr>out_queue := []\<rparr>)"
  by (induction ws arbitrary: d) (simp_all add: sim_ports_def)

lemma sim_write_words:
  "in_words d = Some us \<Longrightarrow> write_words sim_ports ws d = d\<lparr>in_words := Some (us @ ws)\<rparr>"
proof (induction ws arbitrary: us d)
  case (Cons w ws)
  then show ?case using Cons.IH [of "d\<lparr>in_words := Some (us @ [w])\<rparr>" "us @ [w]"]
    by (simp add: write_words_def sim_ports_def)
qed (simp add: write_words_def)

lemma sim_contract: "disk_contract sim_ports drive sim_ready store"
proof -
  have status: "inb sim_ports ATA_PRIMARY_STATUS d = (sim_status d, d)" for d by (simp add: sim_ports_def)
  have cmds: "outb sim_ports ATA_PRIMARY_COMMAND c d = sim_command c d" for c d by (simp add: sim_ports_def ata_port_defs)
  note facts = status cmds idle_status_def drq_status_def sim_status_def sim_ready_def sim_issue sim_command_def
    ata_const_defs sim_addr_issue Let_def
  show ?thesis unfolding disk_contract_def
  proof (intro conjI allI impI)
    fix d lba assume "sim_ready d" and "lba28 lba"
    let ?d = "d\<lparr>r_sel := 0xE0 OR drive_bit drive OR ucast (drop_bit 24 lba AND 0x0F), r_lo := ucast (lba AND 0xFF),
      r_mid := ucast (drop_bit 8 lba AND 0xFF), r_hi := ucast (drop_bit 16 lba AND 0xFF)\<rparr>"
    let ?ws = "words_of (store d lba)"
    have len: "length ?ws = 256" using \<open>sim_ready d\<close> by (simp add: sim_ready_def length_words_of)
    then have "?ws \<noteq> []" by auto
    moreover have "read_words sim_ports 256 (?d\<lparr>out_queue := ?ws\<rparr>) = (?ws, ?d\<lparr>out_queue := []\<rparr>)"
      using sim_read_words [of ?ws ?d] by (simp only: len)
    moreover have "concat (map le16 ?ws) = store d lba"
      using \<open>sim_ready d\<close> by (simp add: sim_ready_def words_of_bytes)
    moreover have "ata_issue sim_ports ATA_CMD_READ_SECTORS drive lba 1 d = ?d\<lparr>out_queue := ?ws\<rparr>"
      using \<open>lba28 lba\<close> by (simp add: sim_issue sim_command_def sim_addr_issue)
    ultimately show "let d1 = ata_issue sim_ports ATA_CMD_READ_SECTORS drive lba 1 d; r = read_words sim_ports 256 d1
       in drq_status sim_ports d1 \<and> sim_ready (snd r) \<and> store (snd r) = store d \<and> concat (map le16 (fst r)) = store d lba"
      using \<open>sim_ready d\<close> by (simp add: Let_def drq_status_def status sim_status_def ata_const_defs sim_ready_def)
  next
    fix d lba and ws :: "u16 list" assume "sim_ready d" and "lba28 lba" and "length ws = 256"
    let ?d = "d\<lparr>r_sel := 0xE0 OR drive_bit drive OR ucast (drop_bit 24 lba AND 0x0F), r_lo := ucast (lba AND 0xFF),
      r_mid := ucast (drop_bit 8 lba AND 0xFF), r_hi := ucast (drop_bit 16 lba AND 0xFF)\<rparr>"
    have i: "ata_issue sim_ports ATA_CMD_WRITE_SECTORS drive lba 1 d = ?d\<lparr>in_words := Some []\<rparr>"
      by (simp add: sim_issue sim_command_def ata_const_defs)
    have w: "write_words sim_ports ws (?d\<lparr>in_words := Some []\<rparr>) = ?d\<lparr>in_words := Some ws\<rparr>"
      using sim_write_words [of "?d\<lparr>in_words := Some []\<rparr>" "[]" ws] by simp
    have a: "sim_addr (d\<lparr>r_sel := 0xE0 OR drive_bit drive OR ucast (drop_bit 24 lba AND 0x0F), r_lo := ucast (lba AND 0xFF),
      r_mid := ucast (drop_bit 8 lba AND 0xFF), r_hi := ucast (drop_bit 16 lba AND 0xFF), in_words := Some ws\<rparr>) = lba"
      using sim_addr_issue [OF \<open>lba28 lba\<close>, of drive "d\<lparr>in_words := Some ws\<rparr>"] by (simp add: sim_addr_def)
    have "length (concat (map le16 ws)) = 512"
      using \<open>length ws = 256\<close> by (simp add: length_concat comp_def sum_list_triv)
    then show "let d1 = ata_issue sim_ports ATA_CMD_WRITE_SECTORS drive lba 1 d;
             d2 = outb sim_ports ATA_PRIMARY_COMMAND ATA_CMD_FLUSH (write_words sim_ports ws d1)
         in drq_status sim_ports d1 \<and> sim_ready d2 \<and> store d2 = (store d)(lba := concat (map le16 ws))"
      using \<open>sim_ready d\<close> unfolding Let_def i w cmds
      by (simp add: a sim_command_def drq_status_def status sim_status_def ata_const_defs sim_ready_def)
  qed (simp_all add: facts)
qed

end
