(* ===== verification/Fat16.thy ===== *)
theory Fat16
  imports Ata
begin

text \<open>
  The FAT16 file system (\<^verbatim>\<open>fs/fat16.c\<close>) on top of the disk driver: mounting, the file allocation table with its
  one-sector cache, the root directory, and reading, creating, writing, deleting files and formatting.

  The static variables of the file are fields of the state \<open>fat16\<close>, which extends the driver's. The one
  static \<open>sector_buffer\<close> is shared by all functions, so what a call leaves in it is part of the model. Loops
  whose end depends on what is on the disk are \<^theory_text>\<open>partial_function (option)\<close>: \<open>None\<close> is a loop that runs forever.
  C strings are byte lists without the terminator.
\<close>

section \<open>State\<close>

record fat16_fs_t =
  mounted :: bool
  fs_drive :: int
  bytes_per_sector :: u16
  sectors_per_cluster :: u8
  reserved_sectors :: u16
  num_fats :: u8
  root_entry_count :: u16
  fat_size :: u16
  total_sectors :: u32
  fat_start_sector :: u32
  root_dir_start :: u32
  root_dir_sectors :: u32
  data_start_sector :: u32
  total_clusters :: u32

record 'd fat16 = "'d ata" +
  fs :: fat16_fs_t
  sector_buffer :: "u8 list"
  fat_cache :: "u16 list"
  fat_cache_sector :: u32

record fat16_dir_entry_t =
  name :: "u8 list"
  ext :: "u8 list"
  attr :: u8
  reserved :: u8
  create_time_ms :: u8
  create_time :: u16
  create_date :: u16
  access_date :: u16
  cluster_hi :: u16
  modify_time :: u16
  modify_date :: u16
  cluster_lo :: u16
  file_size :: u32

definition FAT_ATTR_VOLUME_ID :: u8 where "FAT_ATTR_VOLUME_ID = 0x08"
definition FAT_ATTR_DIRECTORY :: u8 where "FAT_ATTR_DIRECTORY = 0x10"
definition FAT_ATTR_ARCHIVE :: u8 where "FAT_ATTR_ARCHIVE = 0x20"
definition FAT_ATTR_LFN :: u8 where "FAT_ATTR_LFN = 0x0F"
definition FAT16_FREE :: u16 where "FAT16_FREE = 0"
definition FAT16_BAD_CLUSTER :: u16 where "FAT16_BAD_CLUSTER = 0xFFF7"
definition FAT16_END_OF_CHAIN :: u16 where "FAT16_END_OF_CHAIN = 0xFFF8"

abbreviation NO_SECTOR :: u32 where "NO_SECTOR \<equiv> 0xFFFFFFFF"

text \<open>Storing a field of a packed struct that lies in a buffer.\<close>

definition store_at :: "u8 list \<Rightarrow> nat \<Rightarrow> u8 list \<Rightarrow> u8 list" where
  "store_at buf off data = take off buf @ data @ drop (off + length data) buf"

text \<open>Entry \<open>j\<close> of the directory sector in a buffer.\<close>

definition dir_entry_at :: "u8 list \<Rightarrow> nat \<Rightarrow> fat16_dir_entry_t" where
  "dir_entry_at buf j =
     \<lparr>name = take 8 (drop (32 * j) buf), ext = take 3 (drop (32 * j + 8) buf), attr = buf ! (32 * j + 11),
      reserved = buf ! (32 * j + 12), create_time_ms = buf ! (32 * j + 13), create_time = rd16 buf (32 * j + 14),
      create_date = rd16 buf (32 * j + 16), access_date = rd16 buf (32 * j + 18), cluster_hi = rd16 buf (32 * j + 20),
      modify_time = rd16 buf (32 * j + 22), modify_date = rd16 buf (32 * j + 24),
      cluster_lo = rd16 buf (32 * j + 26), file_size = rd32 buf (32 * j + 28)\<rparr>"

section \<open>Sectors and the file allocation table\<close>

definition read_sector ::
  "'d ports \<Rightarrow> u32 \<Rightarrow> ('d, 'z) fat16_scheme \<Rightarrow> (int \<times> u8 list) \<times> ('d, 'z) fat16_scheme" where
  "read_sector P lba s = ata_read_sectors P (fs_drive (fs s)) lba 1 s"

definition write_sector :: "'d ports \<Rightarrow> u32 \<Rightarrow> u8 list \<Rightarrow> ('d, 'z) fat16_scheme \<Rightarrow> int \<times> ('d, 'z) fat16_scheme" where
  "write_sector P lba bytes s = ata_write_sectors P (fs_drive (fs s)) lba 1 bytes s"

text \<open>\<open>read_sector(lba, sector_buffer)\<close> and \<open>write_sector(lba, sector_buffer)\<close>.\<close>

definition read_buffer :: "'d ports \<Rightarrow> u32 \<Rightarrow> ('d, 'z) fat16_scheme \<Rightarrow> int \<times> ('d, 'z) fat16_scheme" where
  "read_buffer P lba s =
     (case read_sector P lba s of
        ((r, bytes), s) \<Rightarrow> (r, s\<lparr>sector_buffer := write_prefix bytes (sector_buffer s)\<rparr>))"

definition write_buffer :: "'d ports \<Rightarrow> u32 \<Rightarrow> ('d, 'z) fat16_scheme \<Rightarrow> int \<times> ('d, 'z) fat16_scheme" where
  "write_buffer P lba s = write_sector P lba (sector_buffer s) s"

definition cluster_to_sector :: "fat16_fs_t \<Rightarrow> u16 \<Rightarrow> u32" where
  "cluster_to_sector f cluster = data_start_sector f + (ucast cluster - 2) * ucast (sectors_per_cluster f)"

definition fat_sector :: "fat16_fs_t \<Rightarrow> u16 \<Rightarrow> u32" where
  "fat_sector f cluster = fat_start_sector f + (ucast cluster * 2) div 512"

definition entry_offset :: "u16 \<Rightarrow> nat" where
  "entry_offset cluster = unat (((ucast cluster * 2 :: u32) mod 512) div 2)"

definition fat_read_entry :: "'d ports \<Rightarrow> u16 \<Rightarrow> ('d, 'z) fat16_scheme \<Rightarrow> u16 \<times> ('d, 'z) fat16_scheme" where
  "fat_read_entry P cluster s =
     (if fat_sector (fs s) cluster \<noteq> fat_cache_sector s
      then case read_sector P (fat_sector (fs s) cluster) s of
             ((r, bytes), s) \<Rightarrow>
               let s = s\<lparr>fat_cache := words_of bytes @ drop (length (words_of bytes)) (fat_cache s)\<rparr>
               in if r < 0 then (FAT16_BAD_CLUSTER, s)
                  else (fat_cache s ! entry_offset cluster, s\<lparr>fat_cache_sector := fat_sector (fs s) cluster\<rparr>)
      else (fat_cache s ! entry_offset cluster, s))"

text \<open>Writing the same buffer to one sector after the other, until a write fails.\<close>

fun write_seq :: "(u32 \<Rightarrow> 's \<Rightarrow> int \<times> 's) \<Rightarrow> u32 list \<Rightarrow> 's \<Rightarrow> bool \<times> 's" where
  "write_seq wr [] s = (True, s)"
| "write_seq wr (lba # lbas) s = (case wr lba s of (r, s) \<Rightarrow> if r < 0 then (False, s) else write_seq wr lbas s)"

text \<open>The loop over the copies of the table.\<close>

definition write_copies :: "'d ports \<Rightarrow> u32 \<Rightarrow> ('d, 'z) fat16_scheme \<Rightarrow> bool \<times> ('d, 'z) fat16_scheme" where
  "write_copies P lba s =
     write_seq (write_buffer P) (map (\<lambda>i. lba + of_nat i * ucast (fat_size (fs s))) [0..<unat (num_fats (fs s))]) s"

definition fat_write_entry ::
  "'d ports \<Rightarrow> u16 \<Rightarrow> u16 \<Rightarrow> ('d, 'z) fat16_scheme \<Rightarrow> int \<times> ('d, 'z) fat16_scheme" where
  "fat_write_entry P cluster value s =
     (case read_buffer P (fat_sector (fs s) cluster) s of
        (r, s) \<Rightarrow>
          if r < 0 then (- 1, s)
          else let s = s\<lparr>sector_buffer := wr16 (sector_buffer s) (2 * entry_offset cluster) value\<rparr>
               in case write_copies P (fat_sector (fs s) cluster) s of
                    (ok, s) \<Rightarrow> if \<not> ok then (- 1, s) else (0, s\<lparr>fat_cache_sector := NO_SECTOR\<rparr>))"

partial_function (option) find_free ::
  "'d ports \<Rightarrow> u16 \<Rightarrow> ('d, 'z) fat16_scheme \<Rightarrow> (u16 \<times> ('d, 'z) fat16_scheme) option" where
  "find_free P cluster s =
     (if ucast cluster < total_clusters (fs s) + 2
      then let r = fat_read_entry P cluster s
           in if fst r = FAT16_FREE then Some (cluster, snd r) else find_free P (cluster + 1) (snd r)
      else Some (0, s))"

definition fat_find_free_cluster ::
  "'d ports \<Rightarrow> ('d, 'z) fat16_scheme \<Rightarrow> (u16 \<times> ('d, 'z) fat16_scheme) option" where
  "fat_find_free_cluster P s = find_free P 2 s"

section \<open>Names\<close>

definition upper :: "u8 \<Rightarrow> u8" where
  "upper c = (if 0x61 \<le> c \<and> c \<le> 0x7A then c - 32 else c)"

definition entry_name :: "fat16_dir_entry_t \<Rightarrow> u8 list" where
  "entry_name e =
     takeWhile (\<lambda>c. c \<noteq> 0x20) (name e) @
     (if ext e ! 0 \<noteq> 0x20 then 0x2E # takeWhile (\<lambda>c. c \<noteq> 0x20) (ext e) else [])"

fun same_text :: "u8 list \<Rightarrow> u8 list \<Rightarrow> bool" where
  "same_text (a # as) (b # bs) \<longleftrightarrow> upper a = upper b \<and> same_text as bs"
| "same_text [] [] \<longleftrightarrow> True"
| "same_text _ _ \<longleftrightarrow> False"

definition name_matches :: "fat16_dir_entry_t \<Rightarrow> u8 list \<Rightarrow> bool" where
  "name_matches e n \<longleftrightarrow> same_text (takeWhile (\<lambda>c. c \<noteq> 0) (entry_name e)) n"

definition padded :: "nat \<Rightarrow> u8 list \<Rightarrow> u8 list" where
  "padded k bs = bs @ replicate (k - length bs) 0x20"

definition name_to_83 :: "u8 list \<Rightarrow> u8 list" where
  "name_to_83 n =
     (let base = map upper (take 8 (takeWhile (\<lambda>c. c \<noteq> 0x2E) n));
          rest = dropWhile (\<lambda>c. c \<noteq> 0x2E) n
      in padded 8 base @ padded 3 (map upper (take 3 (drop 1 rest))))"

section \<open>Mounting\<close>

definition fat16_unmount :: "('d, 'z) fat16_scheme \<Rightarrow> ('d, 'z) fat16_scheme" where
  "fat16_unmount s = s\<lparr>fs := (fs s)\<lparr>mounted := False\<rparr>, fat_cache_sector := NO_SECTOR\<rparr>"

definition fat16_is_mounted :: "('d, 'z) fat16_scheme \<Rightarrow> bool" where
  "fat16_is_mounted s \<longleftrightarrow> mounted (fs s)"

definition fat16_get_fs :: "('d, 'z) fat16_scheme \<Rightarrow> fat16_fs_t" where
  "fat16_get_fs s = fs s"

text \<open>The values taken over from the boot sector, and the ones derived from them.\<close>

definition bpb_values :: "u8 list \<Rightarrow> fat16_fs_t \<Rightarrow> fat16_fs_t" where
  "bpb_values buf f =
     f\<lparr>bytes_per_sector := rd16 buf 11, sectors_per_cluster := buf ! 13, reserved_sectors := rd16 buf 14,
       num_fats := buf ! 16, root_entry_count := rd16 buf 17, fat_size := rd16 buf 22,
       total_sectors := (if rd16 buf 19 \<noteq> 0 then ucast (rd16 buf 19) else rd32 buf 32)\<rparr>"

definition derived_values :: "fat16_fs_t \<Rightarrow> fat16_fs_t" where
  "derived_values f =
     (let fat_start = ucast (reserved_sectors f);
          root_start = fat_start + ucast (num_fats f) * ucast (fat_size f);
          root_sectors = (ucast (root_entry_count f) * 32 + 511) div 512
      in f\<lparr>fat_start_sector := fat_start, root_dir_start := root_start, root_dir_sectors := root_sectors,
           data_start_sector := root_start + root_sectors\<rparr>)"

text \<open>\<open>None\<close> is the division trap of a boot sector that gives zero sectors per cluster.\<close>

definition fat16_mount :: "'d ports \<Rightarrow> int \<Rightarrow> ('d, 'z) fat16_scheme \<Rightarrow> (int \<times> ('d, 'z) fat16_scheme) option" where
  "fat16_mount P drive s =
     (let s = (if mounted (fs s) then fat16_unmount s else s)
      in if \<not> ata_drive_present drive s then Some (- 1, s)
         else case read_buffer P 0 (s\<lparr>fs := (fs s)\<lparr>fs_drive := drive\<rparr>\<rparr>) of
                (r, s) \<Rightarrow>
                  let buf = sector_buffer s
                  in if r < 0 then Some (- 1, s)
                     else if buf ! 510 \<noteq> 0x55 \<or> buf ! 511 \<noteq> 0xAA then Some (- 1, s)
                     else if rd16 buf 11 \<noteq> 512 then Some (- 1, s)
                     else let f = derived_values (bpb_values buf (fs s))
                          in if sectors_per_cluster f = 0 then None
                             else let f = f\<lparr>total_clusters := (total_sectors f - data_start_sector f) div ucast (sectors_per_cluster f)\<rparr>
                                  in if total_clusters f < 4085 \<or> 65525 \<le> total_clusters f then Some (- 1, s\<lparr>fs := f\<rparr>)
                                     else Some (0, s\<lparr>fs := f\<lparr>mounted := True\<rparr>, fat_cache_sector := NO_SECTOR\<rparr>))"

section \<open>The root directory\<close>

datatype scan = End_Of_Dir | Hit nat | Next_Sector

definition lfn_or_label :: "fat16_dir_entry_t \<Rightarrow> bool" where
  "lfn_or_label e \<longleftrightarrow> attr e = FAT_ATTR_LFN \<or> attr e AND FAT_ATTR_VOLUME_ID \<noteq> 0"

fun scan_entries :: "(fat16_dir_entry_t \<Rightarrow> bool) \<Rightarrow> u8 list \<Rightarrow> u8 list \<Rightarrow> nat list \<Rightarrow> scan" where
  "scan_entries skip n buf [] = Next_Sector"
| "scan_entries skip n buf (j # js) =
     (let e = dir_entry_at buf j
      in if name e ! 0 = 0 then End_Of_Dir
         else if name e ! 0 = 0xE5 then scan_entries skip n buf js
         else if skip e then scan_entries skip n buf js
         else if name_matches e n then Hit j
         else scan_entries skip n buf js)"

text \<open>The sector's number within the directory and the entry's number within the sector, or \<open>None\<close> for \<open>return -1\<close>.\<close>

fun find_loop ::
  "'d ports \<Rightarrow> (fat16_dir_entry_t \<Rightarrow> bool) \<Rightarrow> u8 list \<Rightarrow> nat list \<Rightarrow> ('d, 'z) fat16_scheme
     \<Rightarrow> (nat \<times> nat) option \<times> ('d, 'z) fat16_scheme" where
  "find_loop P skip n [] s = (None, s)"
| "find_loop P skip n (i # is) s =
     (case read_buffer P (root_dir_start (fs s) + of_nat i) s of
        (r, s) \<Rightarrow>
          if r < 0 then (None, s)
          else case scan_entries skip n (sector_buffer s) [0..<16] of
                 End_Of_Dir \<Rightarrow> (None, s)
               | Hit j \<Rightarrow> (Some (i, j), s)
               | Next_Sector \<Rightarrow> find_loop P skip n is s)"

abbreviation dir_range :: "('d, 'z) fat16_scheme \<Rightarrow> nat list" where
  "dir_range s \<equiv> [0..<unat (root_dir_sectors (fs s))]"

fun list_entries :: "u8 list \<Rightarrow> nat list \<Rightarrow> (u8 list \<times> u32 \<times> bool) list \<times> bool" where
  "list_entries buf [] = ([], False)"
| "list_entries buf (j # js) =
     (let e = dir_entry_at buf j
      in if name e ! 0 = 0 then ([], True)
         else if name e ! 0 = 0xE5 \<or> lfn_or_label e then list_entries buf js
         else case list_entries buf js of
                (calls, ended) \<Rightarrow> ((entry_name e, file_size e, attr e AND FAT_ATTR_DIRECTORY \<noteq> 0) # calls, ended))"

fun list_loop ::
  "'d ports \<Rightarrow> nat list \<Rightarrow> ('d, 'z) fat16_scheme \<Rightarrow> (int \<times> (u8 list \<times> u32 \<times> bool) list) \<times> ('d, 'z) fat16_scheme" where
  "list_loop P [] s = ((0, []), s)"
| "list_loop P (i # is) s =
     (case read_buffer P (root_dir_start (fs s) + of_nat i) s of
        (r, s) \<Rightarrow>
          if r < 0 then ((- 1, []), s)
          else case list_entries (sector_buffer s) [0..<16] of
                 (calls, ended) \<Rightarrow>
                   if ended then ((0, calls), s)
                   else case list_loop P is s of ((r, later), s) \<Rightarrow> ((r, calls @ later), s))"

text \<open>The arguments of the calls of \<open>callback\<close>, in order, beside the result.\<close>

definition fat16_list_root ::
  "'d ports \<Rightarrow> ('d, 'z) fat16_scheme \<Rightarrow> (int \<times> (u8 list \<times> u32 \<times> bool) list) \<times> ('d, 'z) fat16_scheme" where
  "fat16_list_root P s = (if \<not> mounted (fs s) then ((- 1, []), s) else list_loop P (dir_range s) s)"

definition fat16_find_file ::
  "'d ports \<Rightarrow> u8 list \<Rightarrow> ('d, 'z) fat16_scheme \<Rightarrow> (int \<times> fat16_dir_entry_t option) \<times> ('d, 'z) fat16_scheme" where
  "fat16_find_file P n s =
     (if \<not> mounted (fs s) then ((- 1, None), s)
      else case find_loop P lfn_or_label n (dir_range s) s of
             (None, s) \<Rightarrow> ((- 1, None), s)
           | (Some (i, j), s) \<Rightarrow> ((0, Some (dir_entry_at (sector_buffer s) j)), s))"

section \<open>Reading\<close>

text \<open>A result of type \<open>size_t\<close> returned as an \<open>int\<close>.\<close>

definition int_of_size :: "nat \<Rightarrow> int" where
  "int_of_size n = sint (of_nat n :: u32)"

fun read_cluster ::
  "'d ports \<Rightarrow> u32 \<Rightarrow> nat list \<Rightarrow> nat \<Rightarrow> u8 list \<Rightarrow> ('d, 'z) fat16_scheme
     \<Rightarrow> (bool \<times> nat \<times> u8 list) \<times> ('d, 'z) fat16_scheme" where
  "read_cluster P sector [] remaining dst s = ((True, remaining, dst), s)"
| "read_cluster P sector (i # is) remaining dst s =
     (if remaining = 0 then ((True, remaining, dst), s)
      else case read_buffer P (sector + of_nat i) s of
             (r, s) \<Rightarrow>
               if r < 0 then ((False, remaining, dst), s)
               else let copy = (if 512 < remaining then 512 else remaining)
                    in read_cluster P sector is (remaining - copy) (dst @ take copy (sector_buffer s)) s)"

partial_function (option) read_chain ::
  "'d ports \<Rightarrow> u16 \<Rightarrow> nat \<Rightarrow> u8 list \<Rightarrow> ('d, 'z) fat16_scheme \<Rightarrow> ((bool \<times> u8 list) \<times> ('d, 'z) fat16_scheme) option" where
  "read_chain P cluster remaining dst s =
     (if 0 < remaining \<and> 2 \<le> cluster \<and> cluster < FAT16_END_OF_CHAIN
      then let r = read_cluster P (cluster_to_sector (fs s) cluster) [0..<unat (sectors_per_cluster (fs s))] remaining dst s;
               n = fat_read_entry P cluster (snd r)
           in if \<not> fst (fst r) then Some ((False, snd (snd (fst r))), snd r)
              else read_chain P (fst n) (fst (snd (fst r))) (snd (snd (fst r))) (snd n)
      else Some ((True, dst), s))"

text \<open>The return value, and the bytes stored at the start of the caller's buffer.\<close>

definition fat16_read_file ::
  "'d ports \<Rightarrow> u8 list \<Rightarrow> nat \<Rightarrow> ('d, 'z) fat16_scheme \<Rightarrow> ((int \<times> u8 list) \<times> ('d, 'z) fat16_scheme) option" where
  "fat16_read_file P n max_size s =
     (if \<not> mounted (fs s) then Some ((- 1, []), s)
      else case fat16_find_file P n s of
             ((r, None), s) \<Rightarrow> Some ((- 1, []), s)
           | ((r, Some e), s) \<Rightarrow>
               if attr e AND FAT_ATTR_DIRECTORY \<noteq> 0 then Some ((- 1, []), s)
               else let size = min (unat (file_size e)) max_size
                    in map_option (\<lambda>((ok, dst), s). ((if ok then int_of_size size else - 1, dst), s))
                         (read_chain P (cluster_lo e) size [] s))"

section \<open>Creating\<close>

definition free_slot :: "u8 list \<Rightarrow> nat \<Rightarrow> bool" where
  "free_slot buf j \<longleftrightarrow> buf ! (32 * j) = 0 \<or> buf ! (32 * j) = 0xE5"

definition new_entry :: "u8 list \<Rightarrow> u8 list" where
  "new_entry n = name_to_83 n @ [FAT_ATTR_ARCHIVE] @ replicate 20 0"

fun create_loop :: "'d ports \<Rightarrow> u8 list \<Rightarrow> nat list \<Rightarrow> ('d, 'z) fat16_scheme \<Rightarrow> int \<times> ('d, 'z) fat16_scheme" where
  "create_loop P n [] s = (- 1, s)"
| "create_loop P n (i # is) s =
     (case read_buffer P (root_dir_start (fs s) + of_nat i) s of
        (r, s) \<Rightarrow>
          if r < 0 then (- 1, s)
          else case find (free_slot (sector_buffer s)) [0..<16] of
                 None \<Rightarrow> create_loop P n is s
               | Some j \<Rightarrow>
                   (case write_buffer P (root_dir_start (fs s) + of_nat i)
                           (s\<lparr>sector_buffer := store_at (sector_buffer s) (32 * j) (new_entry n)\<rparr>) of
                      (r, s) \<Rightarrow> if r < 0 then (- 1, s) else (0, s)))"

definition fat16_create_file :: "'d ports \<Rightarrow> u8 list \<Rightarrow> ('d, 'z) fat16_scheme \<Rightarrow> int \<times> ('d, 'z) fat16_scheme" where
  "fat16_create_file P n s =
     (if \<not> mounted (fs s) then (- 1, s)
      else case fat16_find_file P n s of
             ((r, _), s) \<Rightarrow> if r = 0 then (- 1, s) else create_loop P n (dir_range s) s)"

section \<open>Writing and deleting\<close>

partial_function (option) free_chain :: "'d ports \<Rightarrow> u16 \<Rightarrow> ('d, 'z) fat16_scheme \<Rightarrow> ('d, 'z) fat16_scheme option" where
  "free_chain P cluster s =
     (if 2 \<le> cluster \<and> cluster < FAT16_END_OF_CHAIN
      then let r = fat_read_entry P cluster s
           in free_chain P (fst r) (snd (fat_write_entry P cluster FAT16_FREE (snd r)))
      else Some s)"

fun write_cluster ::
  "'d ports \<Rightarrow> u32 \<Rightarrow> nat list \<Rightarrow> u8 list \<Rightarrow> ('d, 'z) fat16_scheme \<Rightarrow> (bool \<times> u8 list) \<times> ('d, 'z) fat16_scheme" where
  "write_cluster P sector [] src s = ((True, src), s)"
| "write_cluster P sector (i # is) src s =
     (if src = [] then ((True, src), s)
      else case write_buffer P (sector + of_nat i) (s\<lparr>sector_buffer := write_prefix (take 512 src) (replicate 512 0)\<rparr>) of
             (r, s) \<Rightarrow> if r < 0 then ((False, src), s) else write_cluster P sector is (drop 512 src) s)"

text \<open>The first cluster of the new chain, or \<open>None\<close> for \<open>return -1\<close>.\<close>

partial_function (option) write_chain ::
  "'d ports \<Rightarrow> u8 list \<Rightarrow> u16 \<Rightarrow> u16 \<Rightarrow> ('d, 'z) fat16_scheme \<Rightarrow> (u16 option \<times> ('d, 'z) fat16_scheme) option" where
  "write_chain P src first_cluster prev_cluster s =
     (if src = [] then Some (Some first_cluster, s)
      else Option.bind (fat_find_free_cluster P s) (\<lambda>(cluster, s).
        if cluster = 0 then Some (None, s)
        else let first_cluster = (if first_cluster = 0 then cluster else first_cluster);
                 s = (if prev_cluster \<noteq> 0 then snd (fat_write_entry P prev_cluster cluster s) else s);
                 s = snd (fat_write_entry P cluster FAT16_END_OF_CHAIN s);
                 w = write_cluster P (cluster_to_sector (fs s) cluster) [0..<unat (sectors_per_cluster (fs s))] src s
             in if \<not> fst (fst w) then Some (None, snd w)
                else write_chain P (snd (fst w)) first_cluster cluster (snd w)))"

definition update_entry :: "u8 list \<Rightarrow> nat \<Rightarrow> u16 \<Rightarrow> nat \<Rightarrow> u8 list" where
  "update_entry buf j first_cluster len =
     store_at (store_at buf (32 * j + 26) (le16 first_cluster)) (32 * j + 28) (le32 (of_nat len))"

definition fat16_write_file ::
  "'d ports \<Rightarrow> u8 list \<Rightarrow> u8 list \<Rightarrow> ('d, 'z) fat16_scheme \<Rightarrow> (int \<times> ('d, 'z) fat16_scheme) option" where
  "fat16_write_file P n data s =
     (if \<not> mounted (fs s) then Some (- 1, s)
      else case find_loop P lfn_or_label n (dir_range s) s of
             (None, s) \<Rightarrow> Some (- 1, s)
           | (Some (i, j), s) \<Rightarrow>
               let e = dir_entry_at (sector_buffer s) j;
                   entry_sector = root_dir_start (fs s) + of_nat i
               in Option.bind (if 2 \<le> cluster_lo e then free_chain P (cluster_lo e) s else Some s) (\<lambda>s.
                  Option.bind (write_chain P data 0 0 s) (\<lambda>(first, s).
                    case first of
                      None \<Rightarrow> Some (- 1, s)
                    | Some first_cluster \<Rightarrow>
                        (case read_buffer P entry_sector s of
                           (r, s) \<Rightarrow>
                             if r < 0 then Some (- 1, s)
                             else case write_buffer P entry_sector
                                         (s\<lparr>sector_buffer := update_entry (sector_buffer s) j first_cluster (length data)\<rparr>) of
                                    (r, s) \<Rightarrow> Some (if r < 0 then - 1 else int_of_size (length data), s)))))"

definition fat16_delete_file ::
  "'d ports \<Rightarrow> u8 list \<Rightarrow> ('d, 'z) fat16_scheme \<Rightarrow> (int \<times> ('d, 'z) fat16_scheme) option" where
  "fat16_delete_file P n s =
     (if \<not> mounted (fs s) then Some (- 1, s)
      else case find_loop P (\<lambda>e. attr e = FAT_ATTR_LFN) n (dir_range s) s of
             (None, s) \<Rightarrow> Some (- 1, s)
           | (Some (i, j), s) \<Rightarrow>
               Option.bind (free_chain P (cluster_lo (dir_entry_at (sector_buffer s) j)) s) (\<lambda>s.
                 Some (write_buffer P (root_dir_start (fs s) + of_nat i)
                         (s\<lparr>sector_buffer := (sector_buffer s)[32 * j := 0xE5]\<rparr>))))"

section \<open>Formatting\<close>

definition format_fat_size :: "u32 \<Rightarrow> u16" where
  "format_fat_size sectors = ucast ((((sectors - 1 - 32) div 4) * 2 + 511) div 512 :: u32)"

definition format_clusters :: "u32 \<Rightarrow> u32" where
  "format_clusters sectors = (sectors - 1 - 2 * ucast (format_fat_size sectors) - 32) div 4"

definition label_bytes :: "u8 list option \<Rightarrow> u8 list" where
  "label_bytes label =
     (case label of
        Some l \<Rightarrow> padded 11 (map upper (take 11 l))
      | None \<Rightarrow> [0x4E, 0x4F, 0x20, 0x4E, 0x41, 0x4D, 0x45, 0x20, 0x20, 0x20, 0x20])"

definition boot_sector :: "u32 \<Rightarrow> u8 list option \<Rightarrow> u8 list" where
  "boot_sector sectors label =
     [0xEB, 0x3C, 0x90] @ [0x43, 0x47, 0x4F, 0x53, 0x20, 0x20, 0x20, 0x20] @
     le16 512 @ [4] @ le16 1 @ [2] @ le16 512 @ le16 (if sectors \<le> 65535 then ucast sectors else 0) @ [0xF8] @
     le16 (format_fat_size sectors) @ le16 63 @ le16 16 @ le32 0 @ le32 (if 65535 < sectors then sectors else 0) @
     [0x80, 0, 0x29] @ le32 0x12345678 @ label_bytes label @
     [0x46, 0x41, 0x54, 0x31, 0x36, 0x20, 0x20, 0x20] @ replicate 448 0 @ [0x55, 0xAA]"

definition write_all :: "'d ports \<Rightarrow> int \<Rightarrow> u32 list \<Rightarrow> ('d, 'z) fat16_scheme \<Rightarrow> bool \<times> ('d, 'z) fat16_scheme" where
  "write_all P drive lbas s = write_seq (\<lambda>lba s. ata_write_sectors P drive lba 1 (sector_buffer s) s) lbas s"

fun format_fats :: "'d ports \<Rightarrow> int \<Rightarrow> u16 \<Rightarrow> nat list \<Rightarrow> ('d, 'z) fat16_scheme \<Rightarrow> bool \<times> ('d, 'z) fat16_scheme" where
  "format_fats P drive fatsz [] s = (True, s)"
| "format_fats P drive fatsz (f # fcs) s =
     (let fat_start = 1 + of_nat f * ucast fatsz
      in case write_all P drive [fat_start] s of
           (ok, s) \<Rightarrow>
             if \<not> ok then (False, s)
             else case write_all P drive (map (\<lambda>k. fat_start + of_nat k) [1..<unat fatsz])
                         (s\<lparr>sector_buffer := replicate 512 0\<rparr>) of
                    (ok, s) \<Rightarrow> if \<not> ok then (False, s) else format_fats P drive fatsz fcs s)"

definition label_entry :: "u8 list \<Rightarrow> u8 list \<Rightarrow> u8 list" where
  "label_entry l buf =
     (let buf = store_at buf 0 (replicate 32 0);
          buf = store_at buf 0 (padded 8 (map upper (take 11 l)));
          buf = store_at buf 8 [0x20, 0x20, 0x20]
      in buf[11 := FAT_ATTR_VOLUME_ID])"

definition fat16_format ::
  "'d ports \<Rightarrow> int \<Rightarrow> u8 list option \<Rightarrow> ('d, 'z) fat16_scheme \<Rightarrow> int \<times> ('d, 'z) fat16_scheme" where
  "fat16_format P drive label s =
     (if \<not> ata_drive_present drive s then (- 1, s)
      else case ata_get_drive_info drive s of
        None \<Rightarrow> (- 1, s)
      | Some drv \<Rightarrow>
          let sectors = size_sectors drv;
              fatsz = format_fat_size sectors;
              clusters = format_clusters sectors;
              root_start = 1 + 2 * ucast fatsz
          in if sectors < 8192 then (- 1, s)
             else if clusters < 4085 \<or> 65525 \<le> clusters then (- 1, s)
             else case write_all P drive [0] (s\<lparr>sector_buffer := boot_sector sectors label\<rparr>) of
                    (ok, s) \<Rightarrow>
                      if \<not> ok then (- 1, s)
                      else case format_fats P drive fatsz [0, 1]
                                  (s\<lparr>sector_buffer := le16 0xFFF8 @ le16 0xFFFF @ replicate 508 0\<rparr>) of
                             (ok, s) \<Rightarrow>
                               if \<not> ok then (- 1, s)
                               else case write_all P drive (map (\<lambda>k. root_start + of_nat k) [0..<32])
                                           (s\<lparr>sector_buffer := replicate 512 0\<rparr>) of
                                      (ok, s) \<Rightarrow>
                                        if \<not> ok then (- 1, s)
                                        else case label of
                                               None \<Rightarrow> (0, s)
                                             | Some l \<Rightarrow>
                                                 (case write_all P drive [root_start]
                                                         (s\<lparr>sector_buffer := label_entry l (sector_buffer s)\<rparr>) of
                                                    (ok, s) \<Rightarrow> (if \<not> ok then - 1 else 0, s)))"

end
