(* ===== verification/Fat16_Table.thy ===== *)
theory Fat16_Table
  imports Fat16
begin

text \<open>
  The file system on a working disk: what the sector helpers, the file allocation table and its cache do,
  the layout \<open>geometry\<close> that keeps the table, the root directory and the data area apart, and the
  well-formedness \<open>fs_ok\<close> of a volume.
\<close>

section \<open>Layout\<close>

definition geometry :: "fat16_fs_t \<Rightarrow> bool" where
  "geometry f \<longleftrightarrow>
     0 < unat (num_fats f) \<and> 0 < unat (sectors_per_cluster f) \<and>
     unat (fat_start_sector f) + unat (num_fats f) * unat (fat_size f) \<le> unat (root_dir_start f) \<and>
     unat (root_dir_start f) + unat (root_dir_sectors f) \<le> unat (data_start_sector f) \<and>
     unat (data_start_sector f) + unat (total_clusters f) * unat (sectors_per_cluster f) \<le> 2 ^ 28 \<and>
     unat (total_clusters f) + 2 \<le> 256 * unat (fat_size f) \<and> unat (total_clusters f) < 65525"

text \<open>Clusters of the volume, and sectors of the table and of the root directory.\<close>

definition valid_cluster :: "fat16_fs_t \<Rightarrow> u16 \<Rightarrow> bool" where
  "valid_cluster f c \<longleftrightarrow> 2 \<le> unat c \<and> unat c < unat (total_clusters f) + 2"

definition in_table :: "fat16_fs_t \<Rightarrow> u32 \<Rightarrow> bool" where
  "in_table f lba \<longleftrightarrow> unat (fat_start_sector f) \<le> unat lba \<and> unat lba < unat (root_dir_start f)"

definition in_root :: "fat16_fs_t \<Rightarrow> u32 \<Rightarrow> bool" where
  "in_root f lba \<longleftrightarrow> unat (root_dir_start f) \<le> unat lba \<and> unat lba < unat (root_dir_start f) + unat (root_dir_sectors f)"

lemma lba28_iff: "lba28 lba \<longleftrightarrow> unat lba < 2 ^ 28"
proof -
  have "take_bit 32 (unat lba) = unat lba"
    using unsigned_less [of lba, where ?'a = nat] by (simp add: take_bit_nat_eq_self)
  then have "unat (drop_bit 28 lba) = unat lba div 2 ^ 28"
    by (subst unsigned_drop_bit_eq) (simp add: drop_bit_eq_div)
  moreover have "lba28 lba \<longleftrightarrow> unat (drop_bit 28 lba) = 0" by (simp add: lba28_def unat_eq_0)
  ultimately show ?thesis by (simp add: div_eq_0_iff)
qed

lemma unat_u16: "unat (c :: u16) < 65536"
  using unsigned_less [of c, where ?'a = nat] by simp

lemma unat_u8: "unat (c :: u8) < 256"
  using unsigned_less [of c, where ?'a = nat] by simp

lemma unat_double: "unat (ucast (c :: u16) * 2 :: u32) = 2 * unat c"
  using unat_u16 [of c] by (simp add: unat_word_ariths unsigned_ucast_eq take_bit_nat_eq_self)

lemma entry_offset_eq: "entry_offset c = unat c mod 256"
proof -
  have "2 * unat c mod 512 = 2 * (unat c mod 256)" using mult_mod_right [of 2 "unat c" 256] by simp
  then show ?thesis by (simp add: entry_offset_def unat_div unat_mod unat_double)
qed

lemma entry_offset_less: "entry_offset c < 256"
  by (simp add: entry_offset_eq)

lemma unat_fat_sector:
  assumes "geometry f"
  shows "unat (fat_sector f c) = unat (fat_start_sector f) + unat c div 256"
proof -
  have "unat ((ucast c * 2 :: u32) div 512) = unat c div 256" by (simp add: unat_div unat_double)
  moreover have "unat (fat_start_sector f) < 2 ^ 29" using assms by (simp add: geometry_def)
  moreover have "unat c div 256 < 256" using unat_u16 [of c] by simp
  ultimately show ?thesis unfolding fat_sector_def by (subst unat_add_no_wrap) simp_all
qed

text \<open>The sectors that hold the entry of a cluster, one in each copy of the table.\<close>

definition copies :: "fat16_fs_t \<Rightarrow> u16 \<Rightarrow> u32 set" where
  "copies f c = (\<lambda>i. fat_sector f c + of_nat i * ucast (fat_size f)) ` {0..<unat (num_fats f)}"

lemma fat_copy_sector:
  assumes "geometry f" and "valid_cluster f c" and "i < unat (num_fats f)"
  shows "unat (fat_sector f c + of_nat i * ucast (fat_size f)) =
      unat (fat_start_sector f) + unat c div 256 + i * unat (fat_size f)"
    and "unat c div 256 < unat (fat_size f)"
    and "in_table f (fat_sector f c + of_nat i * ucast (fat_size f))"
proof -
  let ?fz = "unat (fat_size f)" and ?nf = "unat (num_fats f)"
  show c: "unat c div 256 < ?fz" using assms(1,2) by (auto simp: geometry_def valid_cluster_def)
  have i: "Suc i * ?fz \<le> ?nf * ?fz" using assms(3) by (intro mult_le_mono1) simp
  then have b: "unat (fat_start_sector f) + unat c div 256 + i * ?fz < unat (root_dir_start f)"
    using c assms(1) by (simp add: geometry_def)
  moreover have "unat (root_dir_start f) \<le> 2 ^ 28" using assms(1) by (simp add: geometry_def)
  ultimately have "unat (of_nat i * ucast (fat_size f) :: u32) = i * ?fz"
    using unat_u8 [of "num_fats f"] unat_u16 [of "fat_size f"] assms(3)
    by (simp add: unat_word_ariths unsigned_ucast_eq take_bit_nat_eq_self unat_of_nat)
  with b \<open>unat (root_dir_start f) \<le> 2 ^ 28\<close>
  show u: "unat (fat_sector f c + of_nat i * ucast (fat_size f)) = unat (fat_start_sector f) + unat c div 256 + i * ?fz"
    by (subst unat_add_no_wrap) (simp_all add: unat_fat_sector [OF assms(1)])
  show "in_table f (fat_sector f c + of_nat i * ucast (fat_size f))" unfolding in_table_def u using b by simp
qed

lemma in_table_lba28: "geometry f \<Longrightarrow> in_table f lba \<Longrightarrow> lba28 lba"
  by (simp add: geometry_def in_table_def lba28_iff)

lemma in_root_lba28: "geometry f \<Longrightarrow> in_root f lba \<Longrightarrow> lba28 lba"
  by (simp add: geometry_def in_root_def lba28_iff)

lemma fat_sector_in_table: "geometry f \<Longrightarrow> valid_cluster f c \<Longrightarrow> in_table f (fat_sector f c)"
  using fat_copy_sector(3) [of f c 0] by (simp add: geometry_def)

lemma unat_cluster_sector:
  assumes "geometry f" and "valid_cluster f c" and "i < unat (sectors_per_cluster f)"
  shows "unat (cluster_to_sector f c + of_nat i) =
      unat (data_start_sector f) + (unat c - 2) * unat (sectors_per_cluster f) + i"
    and "unat (data_start_sector f) + (unat c - 2) * unat (sectors_per_cluster f) + i < 2 ^ 28"
proof -
  let ?spc = "unat (sectors_per_cluster f)"
  have "Suc (unat c - 2) * ?spc \<le> unat (total_clusters f) * ?spc"
    using assms(2) by (intro mult_le_mono1) (auto simp: valid_cluster_def)
  then show b: "unat (data_start_sector f) + (unat c - 2) * ?spc + i < 2 ^ 28"
    using assms(1,3) by (simp add: geometry_def)
  have "unat (ucast c - 2 :: u32) = unat c - 2"
    using assms(2) unat_u16 [of c] by (subst unat_sub_no_wrap) (simp_all add: valid_cluster_def unsigned_ucast_eq take_bit_nat_eq_self)
  then have "unat ((ucast c - 2) * ucast (sectors_per_cluster f) :: u32) = (unat c - 2) * ?spc"
    using b unat_u8 [of "sectors_per_cluster f"] by (simp add: unat_word_ariths unsigned_ucast_eq take_bit_nat_eq_self)
  moreover have "unat (of_nat i :: u32) = i" using assms(3) unat_u8 [of "sectors_per_cluster f"] by (simp add: unat_of_nat)
  ultimately show "unat (cluster_to_sector f c + of_nat i) = unat (data_start_sector f) + (unat c - 2) * ?spc + i"
    unfolding cluster_to_sector_def using b by (simp add: unat_word_ariths)
qed

section \<open>Devices of sectors\<close>

text \<open>Sectors overwritten with the same bytes.\<close>

definition overlay :: "u32 set \<Rightarrow> u8 list \<Rightarrow> (u32 \<Rightarrow> u8 list) \<Rightarrow> u32 \<Rightarrow> u8 list" where
  "overlay A bytes m = (\<lambda>a. if a \<in> A then bytes else m a)"

lemma overlay_empty [simp]: "overlay {} bytes m = m"
  by (simp add: overlay_def)

lemma overlay_upd: "overlay A bytes (m(a := bytes)) = overlay (insert a A) bytes m"
  by (auto simp: overlay_def)

text \<open>
  What the file system asks of the layer below when it writes: in a state that is \<open>ok\<close>, writing the buffer to
  an address succeeds, changes that sector and no other, and leaves alone what \<open>keep\<close> compares.
\<close>

locale sector_writer =
  fixes wr :: "u32 \<Rightarrow> 's \<Rightarrow> int \<times> 's" and ok :: "'s \<Rightarrow> bool" and keep :: "'s \<Rightarrow> 's \<Rightarrow> bool"
    and buffer :: "'s \<Rightarrow> u8 list" and image :: "'s \<Rightarrow> u32 \<Rightarrow> u8 list" and addr :: "u32 \<Rightarrow> bool"
  assumes write_law: "ok s \<Longrightarrow> addr a \<Longrightarrow> \<exists>s'. wr a s = (1, s') \<and> ok s' \<and> keep s s' \<and> buffer s' = buffer s \<and> image s' = (image s)(a := buffer s)"
    and keep_refl: "keep s s" and keep_trans: "keep s t \<Longrightarrow> keep t u \<Longrightarrow> keep s u"
begin

lemma write_seq_ok:
  assumes "ok s" and "\<forall>a \<in> set as. addr a"
  shows "\<exists>s'. write_seq wr as s = (True, s') \<and> ok s' \<and> keep s s' \<and> buffer s' = buffer s \<and> image s' = overlay (set as) (buffer s) (image s)"
  using assms
proof (induction "as" arbitrary: s)
  case Nil
  then show ?case by (simp add: keep_refl)
next
  case (Cons a "as")
  then obtain s1 where s1: "wr a s = (1, s1)" "ok s1" "keep s s1" "buffer s1 = buffer s" "image s1 = (image s)(a := buffer s)"
    using write_law by fastforce
  then obtain s2 where "write_seq wr as s1 = (True, s2)" "ok s2" "keep s1 s2" "buffer s2 = buffer s"
    "image s2 = overlay (set as) (buffer s) (image s1)"
    using Cons.IH [of s1] Cons.prems(2) by (auto simp: fun_upd_def)
  then show ?case using s1 keep_trans by (intro exI [of _ s2]) (auto simp: overlay_upd)
qed

end

text \<open>A device that can be read as well.\<close>

locale sector_device = sector_writer +
  fixes rd :: "u32 \<Rightarrow> 's \<Rightarrow> int \<times> 's"
  assumes read_law: "ok s \<Longrightarrow> addr a \<Longrightarrow> \<exists>s'. rd a s = (1, s') \<and> ok s' \<and> keep s s' \<and> buffer s' = image s a \<and> image s' = image s"
begin

lemma read_after_write:
  assumes "ok s" and "\<forall>a \<in> set as. addr a" and "addr b"
  shows "\<exists>s1 s2. write_seq wr as s = (True, s1) \<and> rd b s1 = (1, s2) \<and> ok s2 \<and> keep s s2 \<and>
    buffer s2 = (if b \<in> set as then buffer s else image s b)"
proof -
  obtain s1 where s1: "write_seq wr as s = (True, s1)" "ok s1" "keep s s1" "image s1 = overlay (set as) (buffer s) (image s)"
    using write_seq_ok [OF assms(1,2)] by blast
  obtain s2 where "rd b s1 = (1, s2)" "ok s2" "keep s1 s2" "buffer s2 = image s1 b"
    using read_law [OF s1(2) assms(3)] by blast
  then show ?thesis using s1 keep_trans by (intro exI [of _ s1] exI [of _ s2]) (auto simp: overlay_def)
qed

end

section \<open>A working volume\<close>

definition working :: "'d ports \<Rightarrow> ('d \<Rightarrow> bool) \<Rightarrow> ('d \<Rightarrow> u32 \<Rightarrow> u8 list) \<Rightarrow> ('d, 'z) fat16_scheme \<Rightarrow> bool" where
  "working P ready content s \<longleftrightarrow>
     disk_contract P (fs_drive (fs s)) ready content \<and> ready (hw s) \<and> ata_drive_present (fs_drive (fs s)) s \<and>
     length (sector_buffer s) = 512 \<and> length (fat_cache s) = 256"

text \<open>The cache holds the sector of the table that it claims to hold.\<close>

definition cache_ok :: "('d \<Rightarrow> u32 \<Rightarrow> u8 list) \<Rightarrow> ('d, 'z) fat16_scheme \<Rightarrow> bool" where
  "cache_ok content s \<longleftrightarrow> fat_cache_sector s = NO_SECTOR \<or>
     in_table (fs s) (fat_cache_sector s) \<and> fat_cache s = words_of (content (hw s) (fat_cache_sector s))"

text \<open>The table entry of a cluster, in the first copy of the table.\<close>

definition entry_of :: "('d \<Rightarrow> u32 \<Rightarrow> u8 list) \<Rightarrow> ('d, 'z) fat16_scheme \<Rightarrow> u16 \<Rightarrow> u16" where
  "entry_of content s c = rd16 (content (hw s) (fat_sector (fs s) c)) (2 * entry_offset c)"

lemma present_frame: "drives s' = drives s \<Longrightarrow> ata_drive_present d s' = ata_drive_present d s"
  by (simp add: ata_drive_present_def)

lemma working_length: "working P ready content s \<Longrightarrow> length (content (hw s) lba) = 512"
  unfolding working_def by (elim conjE) (rule contract_length)

lemma read_sector_ok:
  assumes "working P ready content s" and "lba28 lba"
  obtains d where "read_sector P lba s = ((1, content (hw s) lba), s\<lparr>hw := d\<rparr>)" and "ready d" and "content d = content (hw s)"
proof (rule ata_read_one [of P "fs_drive (fs s)" ready content s lba])
  fix d assume "ata_read_sectors P (fs_drive (fs s)) lba 1 s = ((1, content (hw s) lba), s\<lparr>hw := d\<rparr>)"
    and "ready d" and "content d = content (hw s)"
  then show thesis by (intro that [of d]) (simp_all add: read_sector_def)
qed (use assms in \<open>simp_all add: working_def\<close>)

lemma read_buffer_ok:
  assumes "working P ready content s" and "lba28 lba"
  obtains s' where "read_buffer P lba s = (1, s')" and "working P ready content s'" and "fs s' = fs s"
    and "sector_buffer s' = content (hw s) lba" and "content (hw s') = content (hw s)"
    and "fat_cache s' = fat_cache s" and "fat_cache_sector s' = fat_cache_sector s"
proof (rule read_sector_ok [OF assms])
  fix d assume d: "read_sector P lba s = ((1, content (hw s) lba), s\<lparr>hw := d\<rparr>)" "ready d" "content d = content (hw s)"
  let ?s = "s\<lparr>hw := d, sector_buffer := content (hw s) lba\<rparr>"
  have "write_prefix (content (hw s) lba) (sector_buffer s) = content (hw s) lba"
    using assms(1) working_length [OF assms(1)] by (intro write_prefix_full) (simp add: working_def)
  then have "read_buffer P lba s = (1, ?s)" using d(1) by (simp add: read_buffer_def)
  moreover have "working P ready content ?s"
    using assms(1) d(2) working_length [OF assms(1)] by (simp add: working_def ata_drive_present_def)
  ultimately show thesis using d(3) by (intro that [of ?s]) simp_all
qed

lemma write_buffer_ok:
  assumes "working P ready content s" and "lba28 lba"
  obtains s' where "write_buffer P lba s = (1, s')" and "working P ready content s'" and "fs s' = fs s"
    and "sector_buffer s' = sector_buffer s" and "content (hw s') = (content (hw s))(lba := sector_buffer s)"
    and "fat_cache s' = fat_cache s" and "fat_cache_sector s' = fat_cache_sector s"
proof -
  have w: "disk_contract P (fs_drive (fs s)) ready content" "ready (hw s)" "ata_drive_present (fs_drive (fs s)) s"
    "length (sector_buffer s) = 512" using assms(1) by (simp_all add: working_def)
  obtain d where d: "ata_write_sectors P (fs_drive (fs s)) lba 1 (sector_buffer s) s = (1, s\<lparr>hw := d\<rparr>)" "ready d"
    "content d = (content (hw s))(lba := sector_buffer s)"
    by (rule ata_write_one [OF w(1-3) assms(2) w(4)])
  have "working P ready content (s\<lparr>hw := d\<rparr>)" using assms(1) d(2) by (simp add: working_def ata_drive_present_def)
  then show thesis using d by (intro that [of "s\<lparr>hw := d\<rparr>"]) (simp_all add: write_buffer_def write_sector_def)
qed

lemma working_buffer [simp]: "length bs = 512 \<Longrightarrow> working P ready content (s\<lparr>sector_buffer := bs\<rparr>) = working P ready content s"
  if "length (sector_buffer s) = 512"
  using that by (simp add: working_def ata_drive_present_def)

lemma no_sector_lba: "lba28 lba \<Longrightarrow> lba \<noteq> NO_SECTOR"
  by (auto simp: lba28_iff)

text \<open>Reading an entry of the table, through the cache.\<close>

lemma fat_read_entry_ok:
  assumes "working P ready content s" and "cache_ok content s" and "geometry (fs s)" and "valid_cluster (fs s) c"
  obtains s' where "fat_read_entry P c s = (entry_of content s c, s')" and "working P ready content s'" and "cache_ok content s'"
    and "fs s' = fs s" and "content (hw s') = content (hw s)" and "sector_buffer s' = sector_buffer s"
proof -
  let ?lba = "fat_sector (fs s) c"
  have lba: "lba28 ?lba" by (intro in_table_lba28 [OF assms(3)] fat_sector_in_table assms)
  have off: "words_of (content (hw s) ?lba) ! entry_offset c = entry_of content s c"
    using working_length [OF assms(1), of ?lba] entry_offset_less [of c] by (simp add: entry_of_def nth_words_of)
  show thesis
  proof (cases "?lba = fat_cache_sector s")
    case True
    then have "fat_cache s = words_of (content (hw s) ?lba)"
      using assms(2) no_sector_lba [OF lba] by (simp add: cache_ok_def)
    with True off assms(1,2) show thesis by (intro that [of s]) (simp_all add: fat_read_entry_def)
  next
    case False
    obtain d where d: "read_sector P ?lba s = ((1, content (hw s) ?lba), s\<lparr>hw := d\<rparr>)" "ready d" "content d = content (hw s)"
      by (rule read_sector_ok [OF assms(1) lba])
    let ?ws = "words_of (content (hw s) ?lba)"
    have len: "length ?ws = 256" using working_length [OF assms(1), of ?lba] by (simp add: length_words_of)
    then have cache: "?ws @ drop (length ?ws) (fat_cache s) = ?ws" using assms(1) by (simp add: working_def)
    let ?s = "s\<lparr>hw := d, fat_cache := ?ws, fat_cache_sector := ?lba\<rparr>"
    have "fat_read_entry P c s = (entry_of content s c, ?s)"
      unfolding fat_read_entry_def using False d(1) by (simp add: cache off Let_def)
    moreover have "working P ready content ?s"
      using assms(1) d(2) len by (simp add: working_def ata_drive_present_def)
    moreover have "cache_ok content ?s" using d(3) fat_sector_in_table [OF assms(3,4)] by (simp add: cache_ok_def)
    ultimately show thesis using d(3) by (intro that [of ?s]) simp_all
  qed
qed

text \<open>The disk driver as the file system uses it is such a device.\<close>

interpretation fat_io: sector_device "write_buffer P" "working P ready content" "\<lambda>s s'. fs s' = fs s" sector_buffer
  "\<lambda>s. content (hw s)" lba28 "read_buffer P"
  for P ready content
proof (unfold_locales, goal_cases)
  case (1 s a)
  then show ?case by (rule write_buffer_ok) blast
next
  case (4 s a)
  then show ?case by (rule read_buffer_ok) blast
qed simp_all

text \<open>Every copy of the table gets the updated sector, and nothing else changes.\<close>

lemma fat_write_entry_ok:
  assumes "working P ready content s" and "geometry (fs s)" and "valid_cluster (fs s) c"
  obtains s' where "fat_write_entry P c v s = (0, s')" and "working P ready content s'" and "cache_ok content s'"
    and "fs s' = fs s" and "sector_buffer s' = wr16 (content (hw s) (fat_sector (fs s) c)) (2 * entry_offset c) v"
    and "content (hw s') = overlay (copies (fs s) c)
          (wr16 (content (hw s) (fat_sector (fs s) c)) (2 * entry_offset c) v) (content (hw s))"
proof -
  let ?lba = "fat_sector (fs s) c"
  let ?buf = "wr16 (content (hw s) ?lba) (2 * entry_offset c) v"
  have lbas: "lba28 (?lba + of_nat i * ucast (fat_size (fs s)))" if "i < unat (num_fats (fs s))" for i
    by (intro in_table_lba28 [OF assms(2)] fat_copy_sector assms that)
  obtain s1 where s1: "read_buffer P ?lba s = (1, s1)" "working P ready content s1" "fs s1 = fs s"
    "sector_buffer s1 = content (hw s) ?lba" "content (hw s1) = content (hw s)"
    by (rule read_buffer_ok [OF assms(1) lbas [of 0, simplified]]) (use assms(2) in \<open>simp_all add: geometry_def\<close>)
  have len: "length (content (hw s) ?lba) = 512" by (rule working_length [OF assms(1)])
  have w: "working P ready content (s1\<lparr>sector_buffer := ?buf\<rparr>)" using s1 len by simp
  let ?lbas = "map (\<lambda>i. ?lba + of_nat i * ucast (fat_size (fs s))) [0..<unat (num_fats (fs s))]"
  have "set ?lbas = copies (fs s) c" "\<forall>a \<in> copies (fs s) c. lba28 a" using lbas by (auto simp: copies_def)
  then obtain s2 where s2: "write_copies P ?lba (s1\<lparr>sector_buffer := ?buf\<rparr>) = (True, s2)"
    "working P ready content s2" "fs s2 = fs s1" "sector_buffer s2 = ?buf"
    "content (hw s2) = overlay (copies (fs s) c) ?buf (content (hw s))"
    using fat_io.write_seq_ok [OF w, of ?lbas] s1 by (auto simp: write_copies_def)
  have "fat_write_entry P c v s = (0, s2\<lparr>fat_cache_sector := NO_SECTOR\<rparr>)"
    using s1 s2(1) by (simp add: fat_write_entry_def Let_def)
  moreover have "working P ready content (s2\<lparr>fat_cache_sector := NO_SECTOR\<rparr>)"
    using s2(2) by (simp add: working_def ata_drive_present_def)
  ultimately show thesis using s1 s2
    by (intro that [of "s2\<lparr>fat_cache_sector := NO_SECTOR\<rparr>"]) (simp_all add: cache_ok_def)
qed

lemma rd16_wr16: "i + 1 < length bs \<Longrightarrow> rd16 (wr16 bs i v) i = v"
  using rd16_le16 [of v "[]"] by (simp add: rd16_def wr16_def le16_def)

lemma rd16_wr16_other: "k + 1 < i \<or> i + 1 < k \<Longrightarrow> rd16 (wr16 bs i v) k = rd16 bs k"
  by (auto simp: rd16_def wr16_def)

lemma same_cluster: "unat c div 256 = unat c' div 256 \<Longrightarrow> entry_offset c = entry_offset c' \<Longrightarrow> c = c'"
  for c c' :: u16
  unfolding entry_offset_eq by (metis div_mod_decomp word_unat_eq_iff)

lemma copy_is_sector:
  assumes "geometry f" and "valid_cluster f c" and "valid_cluster f c'"
  shows "fat_sector f c' \<in> copies f c \<longleftrightarrow> unat c div 256 = unat c' div 256"
proof
  assume "fat_sector f c' \<in> copies f c"
  then obtain i where i: "i < unat (num_fats f)" "fat_sector f c' = fat_sector f c + of_nat i * ucast (fat_size f)"
    by (auto simp: copies_def)
  have "unat c' div 256 = unat c div 256 + i * unat (fat_size f)"
    using unat_fat_sector [OF assms(1), of c'] fat_copy_sector(1) [OF assms(1,2) i(1)] i(2) by simp
  moreover have "unat c' div 256 < unat (fat_size f)"
    using fat_copy_sector(2) [OF assms(1,3), of 0] assms(1) by (simp add: geometry_def)
  ultimately show "unat c div 256 = unat c' div 256" by (cases i) auto
next
  assume "unat c div 256 = unat c' div 256"
  then have "fat_sector f c' = fat_sector f c" by (simp add: word_unat_eq_iff unat_fat_sector [OF assms(1)])
  then show "fat_sector f c' \<in> copies f c"
    unfolding copies_def using assms(1) by (intro image_eqI [of _ _ 0]) (simp_all add: geometry_def)
qed

lemma fat_write_entry_abs:
  assumes "working P ready content s" and "geometry (fs s)" and "valid_cluster (fs s) c"
  obtains s' where "fat_write_entry P c v s = (0, s')" and "working P ready content s'" and "cache_ok content s'"
    and "fs s' = fs s" and "\<And>c'. valid_cluster (fs s) c' \<Longrightarrow> entry_of content s' c' = (if c' = c then v else entry_of content s c')"
    and "\<And>lba. \<not> in_table (fs s) lba \<Longrightarrow> content (hw s') lba = content (hw s) lba"
    and "sector_buffer s' = content (hw s') (fat_sector (fs s) c)"
proof (rule fat_write_entry_ok [OF assms, of v])
  let ?buf = "wr16 (content (hw s) (fat_sector (fs s) c)) (2 * entry_offset c) v"
  fix s' assume s': "fat_write_entry P c v s = (0, s')" "working P ready content s'" "cache_ok content s'" "fs s' = fs s"
    "content (hw s') = overlay (copies (fs s) c) ?buf (content (hw s))" "sector_buffer s' = ?buf"
  have "entry_of content s' c' = (if c' = c then v else entry_of content s c')" if c': "valid_cluster (fs s) c'" for c'
  proof (cases "unat c div 256 = unat c' div 256")
    case True
    then have eq: "fat_sector (fs s) c' = fat_sector (fs s) c" by (simp add: word_unat_eq_iff unat_fat_sector [OF assms(2)])
    have len: "length (content (hw s) (fat_sector (fs s) c)) = 512" by (rule working_length [OF assms(1)])
    have "entry_of content s' c' = rd16 ?buf (2 * entry_offset c')"
      using copy_is_sector [OF assms(2,3) c'] True by (simp add: entry_of_def s'(4,5) overlay_def)
    also have "\<dots> = (if c' = c then v else entry_of content s c')"
    proof (cases "c' = c")
      case False
      with True have "entry_offset c' < entry_offset c \<or> entry_offset c < entry_offset c'"
        using same_cluster [of c c'] by fastforce
      then have "rd16 ?buf (2 * entry_offset c') = rd16 (content (hw s) (fat_sector (fs s) c)) (2 * entry_offset c')"
        by (intro rd16_wr16_other) linarith
      then show ?thesis using False eq by (simp add: entry_of_def)
    qed (use len entry_offset_less [of c] in \<open>simp add: rd16_wr16\<close>)
    finally show ?thesis .
  next
    case False
    then show ?thesis using copy_is_sector [OF assms(2,3) c'] by (auto simp: entry_of_def s'(4,5) overlay_def)
  qed
  moreover have "content (hw s') lba = content (hw s) lba" if "\<not> in_table (fs s) lba" for lba
    using that fat_copy_sector(3) [OF assms(2,3)] by (auto simp: s'(5) copies_def overlay_def)
  moreover have "sector_buffer s' = content (hw s') (fat_sector (fs s) c)"
    using copy_is_sector [OF assms(2,3,3)] by (simp add: s'(5,6) overlay_def)
  ultimately show thesis using s' by (intro that [of s']) simp_all
qed

section \<open>A well-formed volume\<close>

text \<open>
  Links stay inside the volume: an entry of the table, and the first cluster of a directory entry, is a
  cluster of the volume, an end mark, or smaller than 2.
\<close>

definition link_ok :: "fat16_fs_t \<Rightarrow> u16 \<Rightarrow> bool" where
  "link_ok f v \<longleftrightarrow> (2 \<le> v \<and> v < FAT16_END_OF_CHAIN \<longrightarrow> valid_cluster f v)"

definition links_ok :: "('d \<Rightarrow> u32 \<Rightarrow> u8 list) \<Rightarrow> ('d, 'z) fat16_scheme \<Rightarrow> bool" where
  "links_ok content s \<longleftrightarrow> (\<forall>c. valid_cluster (fs s) c \<longrightarrow> link_ok (fs s) (entry_of content s c))"

definition dir_ok :: "('d \<Rightarrow> u32 \<Rightarrow> u8 list) \<Rightarrow> ('d, 'z) fat16_scheme \<Rightarrow> bool" where
  "dir_ok content s \<longleftrightarrow> (\<forall>lba j. in_root (fs s) lba \<longrightarrow> j < 16 \<longrightarrow> link_ok (fs s) (cluster_lo (dir_entry_at (content (hw s) lba) j)))"

definition fs_ok :: "'d ports \<Rightarrow> ('d \<Rightarrow> bool) \<Rightarrow> ('d \<Rightarrow> u32 \<Rightarrow> u8 list) \<Rightarrow> ('d, 'z) fat16_scheme \<Rightarrow> bool" where
  "fs_ok P ready content s \<longleftrightarrow>
     working P ready content s \<and> cache_ok content s \<and> geometry (fs s) \<and> links_ok content s \<and> dir_ok content s"

lemma fs_okD:
  assumes "fs_ok P ready content s"
  shows "working P ready content s" and "cache_ok content s" and "geometry (fs s)" and "links_ok content s" and "dir_ok content s"
  using assms by (simp_all add: fs_ok_def)

text \<open>The state after a step: what may differ is which sectors of the data area or the table were written.\<close>

lemma links_ok_frame:
  "links_ok content s \<Longrightarrow> fs s' = fs s \<Longrightarrow> (\<And>c. valid_cluster (fs s) c \<Longrightarrow> entry_of content s' c = entry_of content s c)
     \<Longrightarrow> links_ok content s'"
  by (simp add: links_ok_def)

lemma entry_of_frame: "fs s' = fs s \<Longrightarrow> content (hw s') = content (hw s) \<Longrightarrow> entry_of content s' c = entry_of content s c"
  by (simp add: entry_of_def)

lemma dir_ok_frame:
  "dir_ok content s \<Longrightarrow> fs s' = fs s \<Longrightarrow> (\<And>lba. in_root (fs s) lba \<Longrightarrow> content (hw s') lba = content (hw s) lba) \<Longrightarrow> dir_ok content s'"
  by (simp add: dir_ok_def)

lemma root_not_table: "in_root f lba \<Longrightarrow> \<not> in_table f lba"
  by (simp add: in_root_def in_table_def)

lemma fs_ok_read:
  assumes "fs_ok P ready content s" and "working P ready content s'" and "cache_ok content s'" and "fs s' = fs s"
    and "content (hw s') = content (hw s)"
  shows "fs_ok P ready content s'"
  using assms links_ok_frame [of content s s'] dir_ok_frame [of content s s'] entry_of_frame [of s' s content]
  by (simp add: fs_ok_def)

text \<open>A step that leaves the table and the root directory alone.\<close>

lemma fs_ok_data_write:
  assumes "fs_ok P ready content s" and "working P ready content s'" and "fs s' = fs s"
    and "fat_cache s' = fat_cache s" and "fat_cache_sector s' = fat_cache_sector s"
    and same: "\<And>lba. in_table (fs s) lba \<or> in_root (fs s) lba \<Longrightarrow> content (hw s') lba = content (hw s) lba"
  shows "fs_ok P ready content s'" and "valid_cluster (fs s) c \<Longrightarrow> entry_of content s' c = entry_of content s c"
proof -
  note ok = fs_okD [OF assms(1)]
  have e: "entry_of content s' c = entry_of content s c" if "valid_cluster (fs s) c" for c
    using same [of "fat_sector (fs s) c"] fat_sector_in_table [OF ok(3) that] assms(3) by (simp add: entry_of_def)
  then show "valid_cluster (fs s) c \<Longrightarrow> entry_of content s' c = entry_of content s c" by simp
  have "links_ok content s'" by (rule links_ok_frame [OF ok(4) assms(3) e])
  moreover have "dir_ok content s'" by (rule dir_ok_frame [OF ok(5) assms(3)]) (simp add: same)
  moreover have "cache_ok content s'" using ok(2) assms(3-5) same by (auto simp: cache_ok_def)
  ultimately show "fs_ok P ready content s'" using ok(3) assms(2,3) by (simp add: fs_ok_def)
qed

lemma fs_ok_read_entry:
  assumes "fs_ok P ready content s" and "valid_cluster (fs s) c"
  obtains s' where "fat_read_entry P c s = (entry_of content s c, s')" and "fs_ok P ready content s'" and "fs s' = fs s"
    and "content (hw s') = content (hw s)" and "sector_buffer s' = sector_buffer s"
  by (rule fat_read_entry_ok [OF fs_okD(1-3) [OF assms(1)] assms(2)]) (use assms(1) fs_ok_read in blast)

lemma fs_ok_write_entry:
  assumes "fs_ok P ready content s" and "valid_cluster (fs s) c" and "link_ok (fs s) v"
  obtains s' where "fat_write_entry P c v s = (0, s')" and "fs_ok P ready content s'" and "fs s' = fs s"
    and "\<And>c'. valid_cluster (fs s) c' \<Longrightarrow> entry_of content s' c' = (if c' = c then v else entry_of content s c')"
    and "\<And>lba. \<not> in_table (fs s) lba \<Longrightarrow> content (hw s') lba = content (hw s) lba"
    and "sector_buffer s' = content (hw s') (fat_sector (fs s) c)"
proof (rule fat_write_entry_abs [OF fs_okD(1,3) [OF assms(1)] assms(2), of v])
  fix s' assume s': "fat_write_entry P c v s = (0, s')" "working P ready content s'" "cache_ok content s'" "fs s' = fs s"
    and e: "\<And>c'. valid_cluster (fs s) c' \<Longrightarrow> entry_of content s' c' = (if c' = c then v else entry_of content s c')"
    and o: "\<And>lba. \<not> in_table (fs s) lba \<Longrightarrow> content (hw s') lba = content (hw s) lba"
    and b: "sector_buffer s' = content (hw s') (fat_sector (fs s) c)"
  have "links_ok content s'" using fs_okD(4) [OF assms(1)] assms(3) by (simp add: links_ok_def s'(4) e)
  moreover have "dir_ok content s'"
    by (rule dir_ok_frame [OF fs_okD(5) [OF assms(1)] s'(4)]) (simp add: o root_not_table)
  ultimately have "fs_ok P ready content s'" using s' fs_okD(3) [OF assms(1)] by (simp add: fs_ok_def)
  then show thesis using s' e o b by (intro that [of s']) simp_all
qed

section \<open>Searching a free cluster\<close>

lemma u16_consts: "FAT16_FREE = 0" "FAT16_END_OF_CHAIN = 0xFFF8" "FAT16_BAD_CLUSTER = 0xFFF7"
  by (simp_all add: FAT16_FREE_def FAT16_END_OF_CHAIN_def FAT16_BAD_CLUSTER_def)

lemma cluster_guard:
  assumes "geometry f" and "2 \<le> unat k"
  shows "(ucast k < total_clusters f + 2) = valid_cluster f k"
proof -
  have "unat (total_clusters f + 2) = unat (total_clusters f) + 2"
    using assms(1) by (subst unat_add_no_wrap) (simp_all add: geometry_def)
  then show ?thesis using assms(2) unat_u16 [of k]
    by (simp add: word_less_nat_alt valid_cluster_def unsigned_ucast_eq take_bit_nat_eq_self)
qed

lemma unat_next_cluster: "geometry f \<Longrightarrow> valid_cluster f k \<Longrightarrow> unat (k + 1) = unat k + 1"
  by (subst unat_add_no_wrap) (simp_all add: geometry_def valid_cluster_def)

lemma find_free_ok:
  assumes "fs_ok P ready content s" and "2 \<le> unat k"
  shows "\<exists>c s'. find_free P k s = Some (c, s') \<and> fs_ok P ready content s' \<and> fs s' = fs s \<and> content (hw s') = content (hw s) \<and>
    (if c = 0 then \<forall>c'. valid_cluster (fs s) c' \<longrightarrow> unat k \<le> unat c' \<longrightarrow> entry_of content s c' \<noteq> 0
     else valid_cluster (fs s) c \<and> entry_of content s c = 0)"
  using assms
proof (induction "unat (total_clusters (fs s)) + 2 - unat k" arbitrary: k s rule: less_induct)
  case less
  note geo = fs_okD(3) [OF less.prems(1)]
  show ?case
  proof (cases "valid_cluster (fs s) k")
    case False
    then have "\<forall>c'. valid_cluster (fs s) c' \<longrightarrow> \<not> unat k \<le> unat c'" using less.prems(2) by (auto simp: valid_cluster_def)
    then show ?thesis using False less.prems by (subst find_free.simps) (simp add: cluster_guard [OF geo])
  next
    case True
    obtain s1 where s1: "fat_read_entry P k s = (entry_of content s k, s1)" "fs_ok P ready content s1" "fs s1 = fs s"
      "content (hw s1) = content (hw s)"
      by (rule fs_ok_read_entry [OF less.prems(1) True])
    have eq: "find_free P k s = (if entry_of content s k = 0 then Some (k, s1) else find_free P (k + 1) s1)"
      using True s1(1) less.prems(2) by (subst find_free.simps) (simp add: cluster_guard [OF geo] u16_consts Let_def)
    show ?thesis
    proof (cases "entry_of content s k = 0")
      case free: True
      moreover have "k \<noteq> 0" using True by (auto simp: valid_cluster_def)
      ultimately show ?thesis unfolding eq using True s1 by auto
    next
      case False
      have up: "unat (k + 1) = unat k + 1" by (rule unat_next_cluster [OF geo True])
      have "\<exists>c s'. find_free P (k + 1) s1 = Some (c, s') \<and> fs_ok P ready content s' \<and> fs s' = fs s1 \<and> content (hw s') = content (hw s1) \<and>
        (if c = 0 then \<forall>c'. valid_cluster (fs s1) c' \<longrightarrow> unat (k + 1) \<le> unat c' \<longrightarrow> entry_of content s1 c' \<noteq> 0
         else valid_cluster (fs s1) c \<and> entry_of content s1 c = 0)"
        using True less.prems(2) by (intro less.hyps s1) (simp_all add: up s1(3) valid_cluster_def)
      then obtain c s' where c: "find_free P (k + 1) s1 = Some (c, s')" "fs_ok P ready content s'" "fs s' = fs s"
        "content (hw s') = content (hw s)"
        "if c = 0 then \<forall>c'. valid_cluster (fs s) c' \<longrightarrow> unat (k + 1) \<le> unat c' \<longrightarrow> entry_of content s c' \<noteq> 0
         else valid_cluster (fs s) c \<and> entry_of content s c = 0"
        unfolding entry_of_frame [OF s1(3,4)] s1(3,4) by blast
      moreover have "entry_of content s c' \<noteq> 0" if "c = 0" "valid_cluster (fs s) c'" "unat k \<le> unat c'" for c'
        using that c(5) False up word_unat_eq_iff [of c' k] by (cases "c' = k") auto
      ultimately show ?thesis unfolding eq using False by (intro exI [of _ c] exI [of _ s']) auto
    qed
  qed
qed

lemma find_free_cluster_ok:
  assumes "fs_ok P ready content s"
  obtains c s' where "fat_find_free_cluster P s = Some (c, s')" and "fs_ok P ready content s'" and "fs s' = fs s"
    and "content (hw s') = content (hw s)"
    and "c = 0 \<Longrightarrow> \<forall>c'. valid_cluster (fs s) c' \<longrightarrow> entry_of content s c' \<noteq> 0"
    and "c \<noteq> 0 \<Longrightarrow> valid_cluster (fs s) c" and "c \<noteq> 0 \<Longrightarrow> entry_of content s c = 0"
  using find_free_ok [OF assms, of 2] unfolding fat_find_free_cluster_def
  by (auto simp: valid_cluster_def split: if_splits)

end
