(* ===== verification/Fat16_Files.thy ===== *)
theory Fat16_Files
  imports Fat16_Table
begin

text \<open>
  Files of a well-formed volume: the chain of clusters that an entry of the root directory starts, what
  freeing, writing and reading a chain do, and what the searches of the root directory find.
\<close>

section \<open>Chains\<close>

text \<open>The clusters from \<open>c\<close> on up to an end mark, along the links \<open>E\<close> of the table.\<close>

fun chain_of :: "fat16_fs_t \<Rightarrow> (u16 \<Rightarrow> u16) \<Rightarrow> u16 \<Rightarrow> u16 list \<Rightarrow> bool" where
  "chain_of f E c [] \<longleftrightarrow> \<not> (2 \<le> c \<and> c < FAT16_END_OF_CHAIN)"
| "chain_of f E c (x # xs) \<longleftrightarrow> c = x \<and> valid_cluster f x \<and> chain_of f E (E x) xs"

lemma link_zero: "link_ok f 0"
  by (simp add: link_ok_def)

lemma link_end: "link_ok f FAT16_END_OF_CHAIN"
  by (simp add: link_ok_def)

lemma link_valid: "valid_cluster f c \<Longrightarrow> link_ok f c"
  by (simp add: link_ok_def)

lemma valid_guard: "geometry f \<Longrightarrow> valid_cluster f c \<Longrightarrow> 2 \<le> c \<and> c < FAT16_END_OF_CHAIN"
  by (simp add: geometry_def valid_cluster_def u16_consts word_le_nat_alt word_less_nat_alt)

lemma chain_valid: "chain_of f E c cs \<Longrightarrow> x \<in> set cs \<Longrightarrow> valid_cluster f x"
  by (induction cs arbitrary: c) auto

lemma chain_cong: "(\<And>x. x \<in> set cs \<Longrightarrow> E x = E' x) \<Longrightarrow> chain_of f E c cs = chain_of f E' c cs"
  by (induction cs arbitrary: c) auto

lemma chain_link: "chain_of f E c cs \<Longrightarrow> link_ok f c"
  by (cases cs) (auto simp: link_ok_def)

lemma chain_unique: "geometry f \<Longrightarrow> chain_of f E c cs \<Longrightarrow> chain_of f E c ds \<Longrightarrow> cs = ds"
proof (induction cs arbitrary: c ds)
  case Nil
  then show ?case using valid_guard [of f c] by (cases ds) auto
next
  case (Cons x xs)
  then show ?case using valid_guard [of f c] by (cases ds) auto
qed

lemma chain_suffix: "chain_of f E c (us @ x # vs) \<Longrightarrow> chain_of f E x (x # vs)"
  by (induction us arbitrary: c) auto

lemma chain_distinct: "geometry f \<Longrightarrow> chain_of f E c cs \<Longrightarrow> distinct cs"
proof (induction cs arbitrary: c)
  case (Cons x xs)
  have "x \<notin> set xs"
  proof
    assume "x \<in> set xs"
    then obtain us vs where xs: "xs = us @ x # vs" by (meson split_list)
    have "chain_of f E x (x # vs)" using Cons.prems(2) chain_suffix [of f E "E x" us x vs] by (simp add: xs)
    moreover have "chain_of f E x (x # xs)" using Cons.prems(2) by simp
    ultimately have "x # vs = x # xs" using chain_unique [OF Cons.prems(1)] by blast
    then show False by (simp add: xs)
  qed
  with Cons show ?case by auto
qed simp

lemma chain_snoc:
  assumes "chain_of f E c cs" and "cs \<noteq> []" and "distinct cs" and "d \<notin> set cs" and "valid_cluster f d"
  shows "chain_of f (E(last cs := d, d := FAT16_END_OF_CHAIN)) c (cs @ [d])"
  using assms
proof (induction cs arbitrary: c)
  case (Cons x xs)
  then show ?case
  proof (cases xs)
    case (Cons y ys)
    then have "x \<noteq> last xs" using Cons.prems(3) by (metis distinct.simps(2) last_in_set list.distinct(1))
    then show ?thesis using Cons.IH Cons.prems Cons by auto
  qed auto
qed simp

section \<open>Freeing a chain\<close>

text \<open>The clusters in use; each step of the loop frees one, which is why it ends even on a cyclic chain.\<close>

definition used_clusters :: "('d \<Rightarrow> u32 \<Rightarrow> u8 list) \<Rightarrow> ('d, 'z) fat16_scheme \<Rightarrow> u16 set" where
  "used_clusters content s = {c. valid_cluster (fs s) c \<and> entry_of content s c \<noteq> 0}"

lemma finite_used: "finite (used_clusters content s)"
  by (rule finite_subset [of _ UNIV]) simp_all

lemma free_chain_end: "\<not> (2 \<le> c \<and> c < FAT16_END_OF_CHAIN) \<Longrightarrow> free_chain P c s = Some s"
  by (subst free_chain.simps) auto

lemma free_chain_step:
  assumes "fs_ok P ready content s" and "valid_cluster (fs s) c"
  obtains s2 where "free_chain P c s = free_chain P (entry_of content s c) s2" and "fs_ok P ready content s2" and "fs s2 = fs s"
    and "\<And>c'. valid_cluster (fs s) c' \<Longrightarrow> entry_of content s2 c' = (if c' = c then 0 else entry_of content s c')"
    and "\<And>lba. \<not> in_table (fs s) lba \<Longrightarrow> content (hw s2) lba = content (hw s) lba"
    and "sector_buffer s2 = content (hw s2) (fat_sector (fs s) c)"
proof -
  obtain s1 where s1: "fat_read_entry P c s = (entry_of content s c, s1)" "fs_ok P ready content s1" "fs s1 = fs s"
    "content (hw s1) = content (hw s)"
    by (rule fs_ok_read_entry [OF assms])
  note e1 = entry_of_frame [OF s1(3,4)]
  obtain s2 where s2: "fat_write_entry P c FAT16_FREE s1 = (0, s2)" "fs_ok P ready content s2" "fs s2 = fs s"
    "\<And>c'. valid_cluster (fs s) c' \<Longrightarrow> entry_of content s2 c' = (if c' = c then 0 else entry_of content s c')"
    "\<And>lba. \<not> in_table (fs s) lba \<Longrightarrow> content (hw s2) lba = content (hw s) lba"
    "sector_buffer s2 = content (hw s2) (fat_sector (fs s) c)"
    by (rule fs_ok_write_entry [of P ready content s1 c FAT16_FREE])
      (use s1 assms(2) link_zero in \<open>simp_all add: u16_consts e1\<close>)
  have "free_chain P c s = free_chain P (entry_of content s c) s2"
    using valid_guard [OF fs_okD(3) [OF assms(1)] assms(2)] s1(1) s2(1) by (subst free_chain.simps) (simp add: Let_def)
  then show thesis using s2 by (intro that [of s2]) simp_all
qed

lemma free_chain_ok:
  assumes "fs_ok P ready content s" and "link_ok (fs s) c"
  shows "\<exists>s'. free_chain P c s = Some s' \<and> fs_ok P ready content s' \<and> fs s' = fs s \<and>
    (\<forall>lba. \<not> in_table (fs s) lba \<longrightarrow> content (hw s') lba = content (hw s) lba)"
  using assms
proof (induction "card (used_clusters content s)" arbitrary: c s rule: less_induct)
  case less
  show ?case
  proof (cases "2 \<le> c \<and> c < FAT16_END_OF_CHAIN")
    case False
    then show ?thesis using less.prems(1) by (simp add: free_chain_end)
  next
    case True
    then have v: "valid_cluster (fs s) c" using less.prems(2) by (simp add: link_ok_def)
    obtain s2 where step: "free_chain P c s = free_chain P (entry_of content s c) s2"
      and s2: "fs_ok P ready content s2" "fs s2 = fs s"
      "\<And>c'. valid_cluster (fs s) c' \<Longrightarrow> entry_of content s2 c' = (if c' = c then 0 else entry_of content s c')"
      "\<And>lba. \<not> in_table (fs s) lba \<Longrightarrow> content (hw s2) lba = content (hw s) lba"
      by (rule free_chain_step [OF less.prems(1) v]) blast
    show ?thesis
    proof (cases "entry_of content s c = 0")
      case True
      then show ?thesis using step s2 by (simp add: free_chain_end)
    next
      case False
      have "used_clusters content s2 = used_clusters content s - {c}"
        unfolding used_clusters_def s2(2) using s2(3) by (auto split: if_splits)
      moreover have "c \<in> used_clusters content s" using v False by (simp add: used_clusters_def)
      ultimately have "used_clusters content s2 \<subset> used_clusters content s" by blast
      then have "card (used_clusters content s2) < card (used_clusters content s)"
        by (rule psubset_card_mono [OF finite_used])
      moreover have "link_ok (fs s2) (entry_of content s c)"
        using fs_okD(4) [OF less.prems(1)] v by (simp add: links_ok_def s2(2))
      ultimately show ?thesis using less.hyps [OF _ s2(1)] s2 step by fastforce
    qed
  qed
qed

text \<open>On a chain that ends, exactly its clusters become free.\<close>

lemma free_chain_frees:
  assumes "fs_ok P ready content s" and "chain_of (fs s) (entry_of content s) c cs"
  shows "\<exists>s'. free_chain P c s = Some s' \<and> fs_ok P ready content s' \<and> fs s' = fs s \<and>
    (\<forall>lba. \<not> in_table (fs s) lba \<longrightarrow> content (hw s') lba = content (hw s) lba) \<and>
    (\<forall>d. valid_cluster (fs s) d \<longrightarrow> entry_of content s' d = (if d \<in> set cs then 0 else entry_of content s d)) \<and>
    sector_buffer s' = (if cs = [] then sector_buffer s else content (hw s') (fat_sector (fs s) (last cs)))"
  using assms
proof (induction cs arbitrary: c s)
  case Nil
  then show ?case by (simp add: free_chain_end)
next
  case (Cons x xs)
  then have v: "valid_cluster (fs s) c" "c = x" by simp_all
  obtain s2 where step: "free_chain P c s = free_chain P (entry_of content s c) s2"
    and s2: "fs_ok P ready content s2" "fs s2 = fs s"
    "\<And>c'. valid_cluster (fs s) c' \<Longrightarrow> entry_of content s2 c' = (if c' = c then 0 else entry_of content s c')"
    "\<And>lba. \<not> in_table (fs s) lba \<Longrightarrow> content (hw s2) lba = content (hw s) lba"
    "sector_buffer s2 = content (hw s2) (fat_sector (fs s) c)"
    by (rule free_chain_step [OF Cons.prems(1) v(1)]) blast
  have "x \<notin> set xs" using chain_distinct [OF fs_okD(3) [OF Cons.prems(1)] Cons.prems(2)] by simp
  then have "chain_of (fs s2) (entry_of content s2) (entry_of content s c) xs"
    using Cons.prems(2) chain_valid [of "fs s" "entry_of content s" "entry_of content s x" xs] s2(3) v(2)
    by (subst chain_cong [of xs _ "entry_of content s"]) (auto simp: s2(2))
  from Cons.IH [OF s2(1) this] obtain s' where s': "free_chain P (entry_of content s c) s2 = Some s'" "fs_ok P ready content s'" "fs s' = fs s"
    "\<forall>lba. \<not> in_table (fs s) lba \<longrightarrow> content (hw s') lba = content (hw s2) lba"
    "\<forall>d. valid_cluster (fs s) d \<longrightarrow> entry_of content s' d = (if d \<in> set xs then 0 else entry_of content s2 d)"
    "sector_buffer s' = (if xs = [] then sector_buffer s2 else content (hw s') (fat_sector (fs s) (last xs)))"
    unfolding s2(2) by blast
  moreover have "sector_buffer s' = content (hw s') (fat_sector (fs s) (last (x # xs)))"
  proof (cases "xs = []")
    case True
    with Cons.prems(2) v(2) s'(1) have "s' = s2" using free_chain_end [of "entry_of content s c" P s2] by simp
    then show ?thesis using True s2(5) v(2) by simp
  qed (use s'(6) in simp)
  ultimately show ?case using s2(3,4) step v(2) by (intro exI [of _ s']) simp
qed

section \<open>Reading a chain\<close>

definition cluster_bytes :: "('d \<Rightarrow> u32 \<Rightarrow> u8 list) \<Rightarrow> ('d, 'z) fat16_scheme \<Rightarrow> u16 \<Rightarrow> u8 list" where
  "cluster_bytes content s c =
     concat (map (\<lambda>i. content (hw s) (cluster_to_sector (fs s) c + of_nat i)) [0..<unat (sectors_per_cluster (fs s))])"

definition chain_bytes :: "('d \<Rightarrow> u32 \<Rightarrow> u8 list) \<Rightarrow> ('d, 'z) fat16_scheme \<Rightarrow> u16 list \<Rightarrow> u8 list" where
  "chain_bytes content s cs = concat (map (cluster_bytes content s) cs)"

lemma data_lba28: "geometry f \<Longrightarrow> valid_cluster f c \<Longrightarrow> i < unat (sectors_per_cluster f) \<Longrightarrow> lba28 (cluster_to_sector f c + of_nat i)"
  using unat_cluster_sector by (simp add: lba28_iff)

lemma concat_blocks_length: "(\<And>x. x \<in> set xs \<Longrightarrow> length (f x) = k) \<Longrightarrow> length (concat (map f xs)) = length xs * k"
  by (induction xs) auto

lemma cluster_bytes_length:
  "working P ready content s \<Longrightarrow> length (cluster_bytes content s c) = unat (sectors_per_cluster (fs s)) * 512"
  unfolding cluster_bytes_def by (subst concat_blocks_length [of _ _ 512]) (simp_all add: working_length)

lemma read_cluster_ok:
  assumes "working P ready content s" and "\<forall>i \<in> set is. lba28 (sector + of_nat i)"
  shows "\<exists>s'. read_cluster P sector is n dst s =
      ((True, n - 512 * length is, dst @ take n (concat (map (\<lambda>i. content (hw s) (sector + of_nat i)) is))), s') \<and>
    working P ready content s' \<and> fs s' = fs s \<and> content (hw s') = content (hw s) \<and>
    fat_cache s' = fat_cache s \<and> fat_cache_sector s' = fat_cache_sector s"
  using assms
proof (induction "is" arbitrary: n dst s)
  case (Cons i "is")
  show ?case
  proof (cases "n = 0")
    case False
    obtain s1 where s1: "read_buffer P (sector + of_nat i) s = (1, s1)" "working P ready content s1" "fs s1 = fs s"
      "sector_buffer s1 = content (hw s) (sector + of_nat i)" "content (hw s1) = content (hw s)"
      "fat_cache s1 = fat_cache s" "fat_cache_sector s1 = fat_cache_sector s"
      by (rule read_buffer_ok [OF Cons.prems(1), of "sector + of_nat i"]) (use Cons.prems(2) in simp_all)
    have len: "length (content (hw s) (sector + of_nat i)) = 512" by (rule working_length [OF Cons.prems(1)])
    let ?copy = "if 512 < n then 512 else n"
    have "take n (content (hw s) (sector + of_nat i)) = take ?copy (content (hw s) (sector + of_nat i))" using len by simp
    moreover have "n - ?copy = n - 512" by simp
    ultimately show ?thesis
      using Cons.IH [OF s1(2), of "n - ?copy" "dst @ take ?copy (sector_buffer s1)"] Cons.prems(2) s1 False len
      by (auto simp: Let_def)
  qed (use Cons.prems in auto)
qed auto

lemma fs_ok_read_cluster:
  assumes "fs_ok P ready content s" and "valid_cluster (fs s) c"
  obtains s' where "read_cluster P (cluster_to_sector (fs s) c) [0..<unat (sectors_per_cluster (fs s))] n dst s =
      ((True, n - length (cluster_bytes content s c), dst @ take n (cluster_bytes content s c)), s')"
    and "fs_ok P ready content s'" and "fs s' = fs s" and "content (hw s') = content (hw s)"
proof -
  note w = fs_okD(1) [OF assms(1)]
  have "\<forall>i \<in> set [0..<unat (sectors_per_cluster (fs s))]. lba28 (cluster_to_sector (fs s) c + of_nat i)"
    using data_lba28 [OF fs_okD(3) [OF assms(1)] assms(2)] by simp
  from read_cluster_ok [OF w this, of n dst]
  obtain s' where s': "read_cluster P (cluster_to_sector (fs s) c) [0..<unat (sectors_per_cluster (fs s))] n dst s =
      ((True, n - length (cluster_bytes content s c), dst @ take n (cluster_bytes content s c)), s')"
    "working P ready content s'" "fs s' = fs s" "content (hw s') = content (hw s)" "fat_cache s' = fat_cache s"
    "fat_cache_sector s' = fat_cache_sector s"
    unfolding cluster_bytes_length [OF w] by (auto simp: cluster_bytes_def mult.commute)
  then have "cache_ok content s'" using fs_okD(2) [OF assms(1)] by (simp add: cache_ok_def)
  with s' assms(1) show thesis by (intro that [of s'] fs_ok_read [OF assms(1)]) simp_all
qed

lemma chain_bytes_frame: "fs s' = fs s \<Longrightarrow> content (hw s') = content (hw s) \<Longrightarrow> chain_bytes content s' cs = chain_bytes content s cs"
  by (simp add: chain_bytes_def cluster_bytes_def cong: map_cong)

lemma read_chain_ok:
  assumes "fs_ok P ready content s" and "chain_of (fs s) (entry_of content s) c cs"
  shows "\<exists>s'. read_chain P c n dst s = Some ((True, dst @ take n (chain_bytes content s cs)), s') \<and>
    fs_ok P ready content s' \<and> fs s' = fs s \<and> content (hw s') = content (hw s)"
  using assms
proof (induction cs arbitrary: c n dst s)
  case Nil
  then show ?case by (subst read_chain.simps) (auto simp: chain_bytes_def)
next
  case (Cons x xs)
  show ?case
  proof (cases "n = 0")
    case True
    then show ?thesis using Cons.prems(1) by (subst read_chain.simps) auto
  next
    case False
    have v: "valid_cluster (fs s) c" "c = x" using Cons.prems(2) by simp_all
    obtain s1 where s1: "read_cluster P (cluster_to_sector (fs s) c) [0..<unat (sectors_per_cluster (fs s))] n dst s =
      ((True, n - length (cluster_bytes content s c), dst @ take n (cluster_bytes content s c)), s1)"
      "fs_ok P ready content s1" "fs s1 = fs s" "content (hw s1) = content (hw s)"
      by (rule fs_ok_read_cluster [OF Cons.prems(1) v(1)])
    obtain s2 where s2: "fat_read_entry P c s1 = (entry_of content s1 c, s2)" "fs_ok P ready content s2" "fs s2 = fs s1"
      "content (hw s2) = content (hw s1)"
      by (rule fs_ok_read_entry [OF s1(2), of c]) (use v s1(3) in simp_all)
    have f: "fs s2 = fs s" "content (hw s2) = content (hw s)" using s1 s2 by simp_all
    have "read_chain P c n dst s = read_chain P (entry_of content s c) (n - length (cluster_bytes content s c))
        (dst @ take n (cluster_bytes content s c)) s2"
      using False valid_guard [OF fs_okD(3) [OF Cons.prems(1)] v(1)] s1(1) s2(1)
      by (subst read_chain.simps) (simp add: Let_def entry_of_frame [OF s1(3,4)])
    moreover have "chain_of (fs s2) (entry_of content s2) (entry_of content s c) xs"
      using Cons.prems(2) chain_cong [of xs "entry_of content s2" "entry_of content s"] entry_of_frame [OF f] by (simp add: f(1) v(2))
    ultimately show ?thesis
      using Cons.IH [OF s2(2), of "entry_of content s c" "n - length (cluster_bytes content s c)" "dst @ take n (cluster_bytes content s c)"] f v(2)
      by (simp add: chain_bytes_frame [OF f]) (simp add: chain_bytes_def)
  qed
qed

section \<open>Writing a chain\<close>

lemma padded_block: "src \<noteq> [] \<Longrightarrow> take (length src) (write_prefix (take 512 src) (replicate 512 0)) = take 512 src"
  by (simp add: write_prefix_def min_def)

lemma write_cluster_ok:
  assumes "working P ready content s" and "\<forall>i \<in> set is. lba28 (sector + of_nat i)"
    and "distinct (map (\<lambda>i. sector + of_nat i) is)"
  shows "\<exists>s'. write_cluster P sector is src s = ((True, drop (512 * length is) src), s') \<and>
    working P ready content s' \<and> fs s' = fs s \<and> fat_cache s' = fat_cache s \<and> fat_cache_sector s' = fat_cache_sector s \<and>
    (\<forall>a. a \<notin> set (map (\<lambda>i. sector + of_nat i) is) \<longrightarrow> content (hw s') a = content (hw s) a) \<and>
    take (length src) (concat (map (\<lambda>i. content (hw s') (sector + of_nat i)) is)) = take (512 * length is) src"
  using assms
proof (induction "is" arbitrary: src s)
  case (Cons i "is")
  show ?case
  proof (cases "src = []")
    case False
    let ?a = "sector + of_nat i" and ?block = "write_prefix (take 512 src) (replicate 512 0) :: u8 list"
    have len: "length ?block = 512" by (simp add: write_prefix_def)
    have w: "working P ready content (s\<lparr>sector_buffer := ?block\<rparr>)"
      using Cons.prems(1) len by (simp add: working_def ata_drive_present_def)
    obtain s1 where s1: "write_buffer P ?a (s\<lparr>sector_buffer := ?block\<rparr>) = (1, s1)" "working P ready content s1" "fs s1 = fs s"
      "content (hw s1) = (content (hw s))(?a := ?block)" "fat_cache s1 = fat_cache s" "fat_cache_sector s1 = fat_cache_sector s"
      by (rule write_buffer_ok [OF w, of ?a]) (use Cons.prems(2) in simp_all)
    obtain s2 where s2: "write_cluster P sector is (drop 512 src) s1 = ((True, drop (512 * length is) (drop 512 src)), s2)"
      "working P ready content s2" "fs s2 = fs s1" "fat_cache s2 = fat_cache s1" "fat_cache_sector s2 = fat_cache_sector s1"
      "\<forall>a. a \<notin> set (map (\<lambda>i. sector + of_nat i) is) \<longrightarrow> content (hw s2) a = content (hw s1) a"
      "take (length (drop 512 src)) (concat (map (\<lambda>i. content (hw s2) (sector + of_nat i)) is)) = take (512 * length is) (drop 512 src)"
      using Cons.IH [OF s1(2), of "drop 512 src"] Cons.prems(2,3) by auto
    have first: "content (hw s2) ?a = ?block" using s2(6) s1(4) Cons.prems(3) by simp
    have "take (length src) (concat (map (\<lambda>i. content (hw s2) (sector + of_nat i)) (i # is))) =
        take 512 src @ take (512 * length is) (drop 512 src)"
      using s2(7) False by (simp add: first len padded_block)
    also have "\<dots> = take (512 * length (i # is)) src" by (simp add: take_add)
    finally show ?thesis
      using False s1 s2 by (intro exI [of _ s2]) (simp add: add.commute)
  qed (use Cons.prems in auto)
qed auto

definition cluster_sectors :: "fat16_fs_t \<Rightarrow> u16 \<Rightarrow> u32 list" where
  "cluster_sectors f c = map (\<lambda>i. cluster_to_sector f c + of_nat i) [0..<unat (sectors_per_cluster f)]"

lemma cluster_sectors_distinct:
  assumes "geometry f" and "valid_cluster f c"
  shows "distinct (cluster_sectors f c)"
proof -
  have "inj_on (\<lambda>i. cluster_to_sector f c + of_nat i) {0..<unat (sectors_per_cluster f)}"
    by (rule inj_onI) (use unat_cluster_sector(1) [OF assms] in \<open>force simp: word_unat_eq_iff\<close>)
  then show ?thesis by (simp add: cluster_sectors_def distinct_map)
qed

lemma cluster_sectors_in_data:
  assumes "geometry f" and "valid_cluster f c" and "a \<in> set (cluster_sectors f c)"
  shows "\<not> in_table f a" and "\<not> in_root f a"
proof -
  obtain i where i: "i < unat (sectors_per_cluster f)" "a = cluster_to_sector f c + of_nat i"
    using assms(3) by (auto simp: cluster_sectors_def)
  then have "unat (data_start_sector f) \<le> unat a" using unat_cluster_sector(1) [OF assms(1,2) i(1)] by simp
  then show "\<not> in_table f a" "\<not> in_root f a" using assms(1) by (auto simp: in_table_def in_root_def geometry_def)
qed

lemma cluster_sectors_disjoint:
  assumes "geometry f" and "valid_cluster f c" and "valid_cluster f d" and "c \<noteq> d"
  shows "set (cluster_sectors f c) \<inter> set (cluster_sectors f d) = {}"
proof (rule ccontr)
  assume "set (cluster_sectors f c) \<inter> set (cluster_sectors f d) \<noteq> {}"
  then obtain i j where ij: "i < unat (sectors_per_cluster f)" "j < unat (sectors_per_cluster f)"
    "cluster_to_sector f c + of_nat i = cluster_to_sector f d + of_nat j" by (auto simp: cluster_sectors_def)
  have "(unat c - 2) * unat (sectors_per_cluster f) + i = (unat d - 2) * unat (sectors_per_cluster f) + j"
    using unat_cluster_sector(1) [OF assms(1,2) ij(1)] unat_cluster_sector(1) [OF assms(1,3) ij(2)] ij(3) by simp
  then have "((unat c - 2) * unat (sectors_per_cluster f) + i) div unat (sectors_per_cluster f) =
      ((unat d - 2) * unat (sectors_per_cluster f) + j) div unat (sectors_per_cluster f)" by simp
  then have "unat c - 2 = unat d - 2" using ij(1,2) by simp
  then show False using assms(2-4) by (auto simp: valid_cluster_def word_unat_eq_iff)
qed

lemma cluster_bytes_sectors: "cluster_bytes content s c = concat (map (content (hw s)) (cluster_sectors (fs s) c))"
  by (simp add: cluster_bytes_def cluster_sectors_def comp_def)

lemma cluster_bytes_frame:
  "fs s' = fs s \<Longrightarrow> (\<And>a. a \<in> set (cluster_sectors (fs s) c) \<Longrightarrow> content (hw s') a = content (hw s) a)
     \<Longrightarrow> cluster_bytes content s' c = cluster_bytes content s c"
  by (simp add: cluster_bytes_sectors cong: map_cong)

lemma fs_ok_write_cluster:
  assumes "fs_ok P ready content s" and "valid_cluster (fs s) c"
  obtains s' where "write_cluster P (cluster_to_sector (fs s) c) [0..<unat (sectors_per_cluster (fs s))] src s =
      ((True, drop (length (cluster_bytes content s' c)) src), s')"
    and "fs_ok P ready content s'" and "fs s' = fs s"
    and "\<And>d. valid_cluster (fs s) d \<Longrightarrow> entry_of content s' d = entry_of content s d"
    and "\<And>lba. in_root (fs s) lba \<Longrightarrow> content (hw s') lba = content (hw s) lba"
    and "\<And>d. valid_cluster (fs s) d \<Longrightarrow> d \<noteq> c \<Longrightarrow> cluster_bytes content s' d = cluster_bytes content s d"
    and "take (length src) (cluster_bytes content s' c) = take (length (cluster_bytes content s' c)) src"
proof -
  let ?is = "[0..<unat (sectors_per_cluster (fs s))]"
  note ok = fs_okD [OF assms(1)]
  have "\<forall>i \<in> set ?is. lba28 (cluster_to_sector (fs s) c + of_nat i)" using data_lba28 [OF ok(3) assms(2)] by simp
  moreover have "distinct (map (\<lambda>i. cluster_to_sector (fs s) c + of_nat i) ?is)"
    using cluster_sectors_distinct [OF ok(3) assms(2)] by (simp add: cluster_sectors_def)
  ultimately obtain s' where s': "write_cluster P (cluster_to_sector (fs s) c) ?is src s = ((True, drop (512 * length ?is) src), s')"
    "working P ready content s'" "fs s' = fs s" "fat_cache s' = fat_cache s" "fat_cache_sector s' = fat_cache_sector s"
    "\<forall>a. a \<notin> set (cluster_sectors (fs s) c) \<longrightarrow> content (hw s') a = content (hw s) a"
    "take (length src) (cluster_bytes content s' c) = take (512 * length ?is) src"
    using write_cluster_ok [OF ok(1), of ?is "cluster_to_sector (fs s) c" src]
    by (auto simp: cluster_sectors_def cluster_bytes_def)
  have len: "length (cluster_bytes content s' c) = 512 * length ?is"
    using cluster_bytes_length [OF s'(2), of c] s'(3) by simp
  have same: "content (hw s') lba = content (hw s) lba" if "in_table (fs s) lba \<or> in_root (fs s) lba" for lba
    using that s'(6) cluster_sectors_in_data [OF ok(3) assms(2)] by blast
  have bytes: "cluster_bytes content s' d = cluster_bytes content s d" if "valid_cluster (fs s) d" "d \<noteq> c" for d
    by (rule cluster_bytes_frame [OF s'(3)]) (use s'(6) cluster_sectors_disjoint [OF ok(3) that(1) assms(2) that(2)] in blast)
  note keep = fs_ok_data_write [OF assms(1) s'(2-5) same]
  show thesis by (rule that [of s']) (use s' len same bytes keep in simp_all)
qed

lemma link_previous:
  assumes "fs_ok P ready content s" and "prev \<noteq> 0 \<Longrightarrow> valid_cluster (fs s) prev" and "valid_cluster (fs s) c"
  defines "s' \<equiv> if prev \<noteq> 0 then snd (fat_write_entry P prev c s) else s"
  shows "fs_ok P ready content s' \<and> fs s' = fs s \<and>
    (\<forall>d. valid_cluster (fs s) d \<longrightarrow> entry_of content s' d = (if prev \<noteq> 0 \<and> d = prev then c else entry_of content s d)) \<and>
    (\<forall>lba. \<not> in_table (fs s) lba \<longrightarrow> content (hw s') lba = content (hw s) lba)"
proof (cases "prev = 0")
  case False
  show ?thesis
    by (rule fs_ok_write_entry [OF assms(1) assms(2) [OF False] link_valid [OF assms(3)]]) (use False in \<open>simp_all add: s'_def\<close>)
qed (use assms(1) in \<open>simp add: s'_def\<close>)

text \<open>One round of the loop: a free cluster is linked behind the previous one and filled.\<close>

lemma write_chain_step:
  assumes "fs_ok P ready content s" and "src \<noteq> []" and "prev \<noteq> 0 \<Longrightarrow> valid_cluster (fs s) prev" and "prev \<noteq> 0 \<Longrightarrow> entry_of content s prev \<noteq> 0"
  obtains s' where "write_chain P src first prev s = Some (None, s')" and "fs_ok P ready content s'" and "fs s' = fs s"
      and "content (hw s') = content (hw s)" and "\<forall>c'. valid_cluster (fs s) c' \<longrightarrow> entry_of content s c' \<noteq> 0"
  | c s' where "write_chain P src first prev s = write_chain P (drop (length (cluster_bytes content s' c)) src) (if first = 0 then c else first) c s'"
      and "valid_cluster (fs s) c" and "entry_of content s c = 0" and "fs_ok P ready content s'" and "fs s' = fs s"
      and "\<And>d. valid_cluster (fs s) d \<Longrightarrow> entry_of content s' d =
             (if d = c then FAT16_END_OF_CHAIN else if prev \<noteq> 0 \<and> d = prev then c else entry_of content s d)"
      and "\<And>lba. in_root (fs s) lba \<Longrightarrow> content (hw s') lba = content (hw s) lba"
      and "\<And>d. valid_cluster (fs s) d \<Longrightarrow> d \<noteq> c \<Longrightarrow> cluster_bytes content s' d = cluster_bytes content s d"
      and "take (length src) (cluster_bytes content s' c) = take (length (cluster_bytes content s' c)) src"
proof -
  obtain c s0 where find: "fat_find_free_cluster P s = Some (c, s0)" and s0: "fs_ok P ready content s0" "fs s0 = fs s"
    "content (hw s0) = content (hw s)" and full: "c = 0 \<Longrightarrow> \<forall>c'. valid_cluster (fs s) c' \<longrightarrow> entry_of content s c' \<noteq> 0"
    and c: "c \<noteq> 0 \<Longrightarrow> valid_cluster (fs s) c" "c \<noteq> 0 \<Longrightarrow> entry_of content s c = 0"
    by (rule find_free_cluster_ok [OF assms(1)]) blast
  note e0 = entry_of_frame [OF s0(2,3)]
  show thesis
  proof (cases "c = 0")
    case True
    then have "write_chain P src first prev s = Some (None, s0)"
      using find assms(2) by (subst write_chain.simps) simp
    then show thesis using s0 full [OF True] by (intro that(1) [of s0]) simp_all
  next
    case False
    note v = c [OF False]
    let ?s1 = "if prev \<noteq> 0 then snd (fat_write_entry P prev c s0) else s0"
    have s1: "fs_ok P ready content ?s1" "fs ?s1 = fs s"
      "\<And>d. valid_cluster (fs s) d \<Longrightarrow> entry_of content ?s1 d = (if prev \<noteq> 0 \<and> d = prev then c else entry_of content s d)"
      "\<And>lba. \<not> in_table (fs s) lba \<Longrightarrow> content (hw ?s1) lba = content (hw s) lba"
      using link_previous [OF s0(1), of prev c] assms(3) v(1) s0 e0 by simp_all
    obtain s2 where s2: "fat_write_entry P c FAT16_END_OF_CHAIN ?s1 = (0, s2)" "fs_ok P ready content s2" "fs s2 = fs s"
      "\<And>d. valid_cluster (fs s) d \<Longrightarrow> entry_of content s2 d = (if d = c then FAT16_END_OF_CHAIN else entry_of content ?s1 d)"
      "\<And>lba. \<not> in_table (fs s) lba \<Longrightarrow> content (hw s2) lba = content (hw ?s1) lba"
      by (rule fs_ok_write_entry [OF s1(1), of c FAT16_END_OF_CHAIN]) (use s1(2) v link_end in \<open>simp_all split del: if_split\<close>)
    obtain s3 where s3: "write_cluster P (cluster_to_sector (fs s2) c) [0..<unat (sectors_per_cluster (fs s2))] src s2 =
        ((True, drop (length (cluster_bytes content s3 c)) src), s3)" "fs_ok P ready content s3" "fs s3 = fs s2"
      "\<And>d. valid_cluster (fs s2) d \<Longrightarrow> entry_of content s3 d = entry_of content s2 d"
      "\<And>lba. in_root (fs s2) lba \<Longrightarrow> content (hw s3) lba = content (hw s2) lba"
      "\<And>d. valid_cluster (fs s2) d \<Longrightarrow> d \<noteq> c \<Longrightarrow> cluster_bytes content s3 d = cluster_bytes content s2 d"
      "take (length src) (cluster_bytes content s3 c) = take (length (cluster_bytes content s3 c)) src"
      by (rule fs_ok_write_cluster [OF s2(2), of c src]) (use s2(3) v in auto)
    have "write_chain P src first prev s =
        write_chain P (drop (length (cluster_bytes content s3 c)) src) (if first = 0 then c else first) c s3"
      using find assms(2) False s2(1) s3(1) by (subst write_chain.simps) (simp add: Let_def split del: if_split)
    moreover have "cluster_bytes content s2 d = cluster_bytes content s d" if "valid_cluster (fs s) d" for d
      by (rule cluster_bytes_frame [OF s2(3)])
        (use s2(5) s1(4) cluster_sectors_in_data(1) [OF fs_okD(3) [OF assms(1)] that] in simp)
    moreover have "content (hw s3) lba = content (hw s) lba" if "in_root (fs s) lba" for lba
      using that s3(5) s2(3,5) s1(4) root_not_table by simp
    moreover have "entry_of content s3 d =
        (if d = c then FAT16_END_OF_CHAIN else if prev \<noteq> 0 \<and> d = prev then c else entry_of content s d)"
      if "valid_cluster (fs s) d" for d
      using that s3(4) [of d] s2(3,4) s1(3) by (cases "d = c") (simp_all split del: if_split)
    ultimately show thesis using v s3 s2(3) by (intro that(2) [of s3 c]) simp_all
  qed
qed

lemma chain_bytes_snoc:
  "(\<And>d. d \<in> set cs \<Longrightarrow> cluster_bytes content s' d = cluster_bytes content s d) \<Longrightarrow>
    chain_bytes content s' (cs @ [c]) = chain_bytes content s cs @ cluster_bytes content s' c"
  by (simp add: chain_bytes_def cong: map_cong)

lemma chain_grows:
  assumes "geometry f" and "chain_of f E first cs" and "cs = [] \<Longrightarrow> first = 0" and "valid_cluster f c" and "c \<notin> set cs"
    and "\<And>d. valid_cluster f d \<Longrightarrow> E' d =
           (if d = c then FAT16_END_OF_CHAIN else if cs \<noteq> [] \<and> d = last cs then c else E d)"
  shows "chain_of f E' (if first = 0 then c else first) (cs @ [c])"
proof (cases "cs = []")
  case True
  then show ?thesis using assms(3,4,6) by simp
next
  case False
  then have "valid_cluster f first" using assms(2) by (cases cs) auto
  then have "first \<noteq> 0" by (auto simp: valid_cluster_def)
  moreover have "chain_of f E' first (cs @ [c]) = chain_of f (E(last cs := c, c := FAT16_END_OF_CHAIN)) first (cs @ [c])"
    by (rule chain_cong) (use False assms(4,6) chain_valid [OF assms(2)] in auto)
  ultimately show ?thesis
    using chain_snoc [OF assms(2) False chain_distinct [OF assms(1,2)] assms(5,4)] by simp
qed

lemma write_chain_ok:
  assumes "fs_ok P ready content s" and "chain_of (fs s) (entry_of content s) first cs" and "cs = [] \<Longrightarrow> first = 0"
    and "prev = (if cs = [] then 0 else last cs)" and "\<forall>x \<in> set cs. entry_of content s x \<noteq> 0"
    and "take (length dn) (chain_bytes content s cs) = dn" and "src \<noteq> [] \<Longrightarrow> length dn = length (chain_bytes content s cs)"
  shows "\<exists>r s'. write_chain P src first prev s = Some (r, s') \<and> fs_ok P ready content s' \<and> fs s' = fs s \<and>
    (\<forall>lba. in_root (fs s) lba \<longrightarrow> content (hw s') lba = content (hw s) lba) \<and>
    (\<forall>d. valid_cluster (fs s) d \<longrightarrow> entry_of content s d \<noteq> 0 \<longrightarrow> d \<notin> set cs \<longrightarrow>
       entry_of content s' d = entry_of content s d \<and> cluster_bytes content s' d = cluster_bytes content s d) \<and>
    (case r of None \<Rightarrow> \<forall>d. valid_cluster (fs s) d \<longrightarrow> entry_of content s' d \<noteq> 0
     | Some f \<Rightarrow> \<exists>ds. chain_of (fs s) (entry_of content s') f ds \<and> take (length (dn @ src)) (chain_bytes content s' ds) = dn @ src)"
  using assms
proof (induction "length src" arbitrary: src first prev s cs dn rule: less_induct)
  case less
  note geo = fs_okD(3) [OF less.prems(1)]
  show ?case
  proof (cases "src = []")
    case True
    then show ?thesis using less.prems by (subst write_chain.simps) auto
  next
    case False
    have pv: "prev \<noteq> 0 \<Longrightarrow> prev \<in> set cs" using less.prems(4) by (auto split: if_splits)
    show ?thesis
    proof (rule write_chain_step [OF less.prems(1) False, of prev first])
      show "valid_cluster (fs s) prev" "entry_of content s prev \<noteq> 0" if "prev \<noteq> 0"
        using pv [OF that] less.prems(5) chain_valid [OF less.prems(2)] by auto
      fix s' assume "write_chain P src first prev s = Some (None, s')" "fs_ok P ready content s'" "fs s' = fs s"
        "content (hw s') = content (hw s)" "\<forall>c'. valid_cluster (fs s) c' \<longrightarrow> entry_of content s c' \<noteq> 0"
      then show ?thesis using entry_of_frame [of s' s content]
        by (intro exI [of _ None] exI [of _ s']) (simp add: cluster_bytes_def cong: map_cong)
    next
      fix c s'
      assume step: "write_chain P src first prev s =
          write_chain P (drop (length (cluster_bytes content s' c)) src) (if first = 0 then c else first) c s'"
        and c: "valid_cluster (fs s) c" "entry_of content s c = 0" and ok: "fs_ok P ready content s'" "fs s' = fs s"
        and e: "\<And>d. valid_cluster (fs s) d \<Longrightarrow> entry_of content s' d =
             (if d = c then FAT16_END_OF_CHAIN else if prev \<noteq> 0 \<and> d = prev then c else entry_of content s d)"
        and root: "\<And>lba. in_root (fs s) lba \<Longrightarrow> content (hw s') lba = content (hw s) lba"
        and bytes: "\<And>d. valid_cluster (fs s) d \<Longrightarrow> d \<noteq> c \<Longrightarrow> cluster_bytes content s' d = cluster_bytes content s d"
        and filled: "take (length src) (cluster_bytes content s' c) = take (length (cluster_bytes content s' c)) src"
      let ?n = "length (cluster_bytes content s' c)"
      have new: "c \<notin> set cs" using c(2) less.prems(5) by auto
      have valid: "valid_cluster (fs s) d" if "d \<in> set cs" for d using that by (rule chain_valid [OF less.prems(2)])
      have n: "0 < ?n" using cluster_bytes_length [OF fs_okD(1) [OF ok(1)], of c] geo ok(2) by (simp add: geometry_def)
      have e': "entry_of content s' d = (if d = c then FAT16_END_OF_CHAIN else if cs \<noteq> [] \<and> d = last cs then c else entry_of content s d)"
        if "valid_cluster (fs s) d" for d
        using e [OF that] less.prems(4) valid [OF last_in_set, of] by (auto simp: valid_cluster_def)
      have grown: "chain_bytes content s' (cs @ [c]) = dn @ cluster_bytes content s' c"
        using chain_bytes_snoc [of cs content s' s c] bytes valid new less.prems(6) less.prems(7) [OF False] by force
      have ih: "\<exists>r t. write_chain P (drop ?n src) (if first = 0 then c else first) c s' = Some (r, t) \<and> fs_ok P ready content t \<and> fs t = fs s' \<and>
        (\<forall>lba. in_root (fs s') lba \<longrightarrow> content (hw t) lba = content (hw s') lba) \<and>
        (\<forall>d. valid_cluster (fs s') d \<longrightarrow> entry_of content s' d \<noteq> 0 \<longrightarrow> d \<notin> set (cs @ [c]) \<longrightarrow>
           entry_of content t d = entry_of content s' d \<and> cluster_bytes content t d = cluster_bytes content s' d) \<and>
        (case r of None \<Rightarrow> \<forall>d. valid_cluster (fs s') d \<longrightarrow> entry_of content t d \<noteq> 0
         | Some f \<Rightarrow> \<exists>ds. chain_of (fs s') (entry_of content t) f ds \<and>
             take (length ((dn @ take ?n src) @ drop ?n src)) (chain_bytes content t ds) = (dn @ take ?n src) @ drop ?n src)"
      proof (rule less.hyps)
        show "length (drop ?n src) < length src" using n False by simp
        show "chain_of (fs s') (entry_of content s') (if first = 0 then c else first) (cs @ [c])"
          unfolding ok(2) by (rule chain_grows [OF geo less.prems(2,3) c(1) new e'])
        show "\<forall>x\<in>set (cs @ [c]). entry_of content s' x \<noteq> 0"
          using e' valid c(1) less.prems(5) by (auto simp: u16_consts valid_cluster_def)
        show "take (length (dn @ take ?n src)) (chain_bytes content s' (cs @ [c])) = dn @ take ?n src"
          using filled unfolding grown by (simp add: min_def) (metis take_all_iff linorder_le_cases)
        show "length (dn @ take ?n src) = length (chain_bytes content s' (cs @ [c]))" if "drop ?n src \<noteq> []"
          using that by (simp add: grown)
      qed (use ok in simp_all)
      then obtain r t where t: "write_chain P (drop ?n src) (if first = 0 then c else first) c s' = Some (r, t)"
        "fs_ok P ready content t" "fs t = fs s"
        "\<forall>lba. in_root (fs s) lba \<longrightarrow> content (hw t) lba = content (hw s') lba"
        "\<forall>d. valid_cluster (fs s) d \<longrightarrow> entry_of content s' d \<noteq> 0 \<longrightarrow> d \<notin> set (cs @ [c]) \<longrightarrow>
           entry_of content t d = entry_of content s' d \<and> cluster_bytes content t d = cluster_bytes content s' d"
        "case r of None \<Rightarrow> \<forall>d. valid_cluster (fs s) d \<longrightarrow> entry_of content t d \<noteq> 0
         | Some f \<Rightarrow> \<exists>ds. chain_of (fs s) (entry_of content t) f ds \<and> take (length (dn @ src)) (chain_bytes content t ds) = dn @ src"
        unfolding ok(2) append_assoc append_take_drop_id by blast
      have "entry_of content t d = entry_of content s d \<and> cluster_bytes content t d = cluster_bytes content s d"
        if "valid_cluster (fs s) d" "entry_of content s d \<noteq> 0" "d \<notin> set cs" for d
      proof -
        have "d \<noteq> c" using that(2) c(2) by auto
        moreover from this have "entry_of content s' d = entry_of content s d" using e' [OF that(1)] that(3) by auto
        ultimately show ?thesis using t(5) that bytes [OF that(1)] by auto
      qed
      then show ?thesis
        using t root by (intro exI [of _ r] exI [of _ t]) (simp add: step)
    qed
  qed
qed

end
