(* ===== verification/Fat16_Dir.thy ===== *)
theory Fat16_Dir
  imports Fat16_Files
begin

text \<open>
  The root directory of a well-formed volume: the searches as a function of what is on the disk, the
  effect of the stores into a directory sector on its entries, and 8.3 names.
\<close>

section \<open>Entries of a directory sector\<close>

lemma length_store_at [simp]: "off + length data \<le> length buf \<Longrightarrow> length (store_at buf off data) = length buf"
  by (simp add: store_at_def)

lemma nth_store_at:
  assumes "off + length data \<le> length buf" and "k < length buf"
  shows "store_at buf off data ! k = (if off \<le> k \<and> k < off + length data then data ! (k - off) else buf ! k)"
  using assms by (auto simp: store_at_def nth_append min_def)

lemma slice_cong:
  assumes "length buf' = length buf" and "\<And>k. a \<le> k \<Longrightarrow> k < a + n \<Longrightarrow> buf' ! k = buf ! k"
  shows "take n (drop a buf') = take n (drop a buf)"
  by (rule nth_equalityI) (use assms in auto)

lemma dir_entry_at_cong:
  assumes "length buf' = length buf" and "\<And>k. 32 * j \<le> k \<Longrightarrow> k < 32 * j + 32 \<Longrightarrow> buf' ! k = buf ! k"
  shows "dir_entry_at buf' j = dir_entry_at buf j"
  using slice_cong [OF assms(1), of "32 * j" 8] slice_cong [OF assms(1), of "32 * j + 8" 3] assms(2)
  by (simp add: dir_entry_at_def rd16_def rd32_def)

lemma rd16_store_at: "off + 2 \<le> length buf \<Longrightarrow> rd16 (store_at buf off (le16 w)) off = w"
  unfolding store_at_def by (rule rd16_field) simp

lemma rd32_store_at: "off + 4 \<le> length buf \<Longrightarrow> rd32 (store_at buf off (le32 w)) off = w"
  unfolding store_at_def by (rule rd32_field) simp

lemma length_update_entry: "j < 16 \<Longrightarrow> length buf = 512 \<Longrightarrow> length (update_entry buf j c n) = 512"
  by (simp add: update_entry_def)

lemma dir_entry_at_update:
  assumes "length buf = 512" and "j < 16" and "k < 16"
  shows "dir_entry_at (update_entry buf j c n) k =
    (if k = j then (dir_entry_at buf j)\<lparr>cluster_lo := c, file_size := of_nat n\<rparr> else dir_entry_at buf k)"
proof -
  let ?buf = "update_entry buf j c n"
  have len: "length ?buf = length buf" using assms by (simp add: length_update_entry)
  have other: "?buf ! i = buf ! i" if "\<not> (32 * j + 26 \<le> i \<and> i < 32 * j + 32)" "i < 512" for i
    using that assms(1,2) by (auto simp: update_entry_def nth_store_at)
  show ?thesis
  proof (cases "k = j")
    case True
    have "rd32 ?buf (32 * j + 28) = of_nat n" unfolding update_entry_def using assms by (intro rd32_store_at) simp
    moreover have "rd16 ?buf (32 * j + 26) = rd16 (store_at buf (32 * j + 26) (le16 c)) (32 * j + 26)"
      using assms by (simp add: update_entry_def rd16_def nth_store_at)
    moreover have "\<dots> = c" using assms by (intro rd16_store_at) simp
    moreover have "take 8 (drop (32 * j) ?buf) = take 8 (drop (32 * j) buf)" by (rule slice_cong [OF len]) (use assms in \<open>simp add: other\<close>)
    moreover have "take 3 (drop (32 * j + 8) ?buf) = take 3 (drop (32 * j + 8) buf)" by (rule slice_cong [OF len]) (use assms in \<open>simp add: other\<close>)
    ultimately show ?thesis using True assms by (simp add: dir_entry_at_def rd16_def other)
  next
    case False
    have "dir_entry_at ?buf k = dir_entry_at buf k" by (rule dir_entry_at_cong [OF len]) (use False assms in \<open>simp add: other\<close>)
    with False show ?thesis by simp
  qed
qed

section \<open>Searching\<close>

definition same_head :: "fat16_dir_entry_t \<Rightarrow> fat16_dir_entry_t \<Rightarrow> bool" where
  "same_head e e' \<longleftrightarrow> name e = name e' \<and> ext e = ext e' \<and> attr e = attr e'"

lemma same_head_matches: "same_head e e' \<Longrightarrow> name_matches e n = name_matches e' n"
  by (simp add: same_head_def name_matches_def entry_name_def)

lemma same_head_skip: "same_head e e' \<Longrightarrow> lfn_or_label e = lfn_or_label e'"
  by (simp add: same_head_def lfn_or_label_def)

lemma scan_cong:
  assumes "\<And>j. j \<in> set js \<Longrightarrow> same_head (dir_entry_at buf j) (dir_entry_at buf' j)"
  shows "scan_entries lfn_or_label n buf js = scan_entries lfn_or_label n buf' js"
  using assms
proof (induction js)
  case (Cons j js)
  then have "same_head (dir_entry_at buf j) (dir_entry_at buf' j)" by simp
  then show ?case
    using Cons same_head_matches [of "dir_entry_at buf j" "dir_entry_at buf' j" n] same_head_skip [of "dir_entry_at buf j" "dir_entry_at buf' j"]
    by (simp add: same_head_def Let_def)
qed simp

lemma scan_hit:
  "scan_entries skip n buf js = Hit j \<Longrightarrow>
    j \<in> set js \<and> name_matches (dir_entry_at buf j) n \<and> \<not> skip (dir_entry_at buf j) \<and> name (dir_entry_at buf j) ! 0 \<noteq> 0 \<and> name (dir_entry_at buf j) ! 0 \<noteq> 0xE5"
  by (induction js) (auto simp: Let_def split: if_splits)

text \<open>The search as a function of the sectors of the directory.\<close>

fun dir_search :: "(fat16_dir_entry_t \<Rightarrow> bool) \<Rightarrow> u8 list \<Rightarrow> (nat \<Rightarrow> u8 list) \<Rightarrow> nat list \<Rightarrow> (nat \<times> nat) option" where
  "dir_search skip n g [] = None"
| "dir_search skip n g (i # is) =
     (case scan_entries skip n (g i) [0..<16] of
        End_Of_Dir \<Rightarrow> None | Hit j \<Rightarrow> Some (i, j) | Next_Sector \<Rightarrow> dir_search skip n g is)"

definition root_sectors :: "('d \<Rightarrow> u32 \<Rightarrow> u8 list) \<Rightarrow> ('d, 'z) fat16_scheme \<Rightarrow> nat \<Rightarrow> u8 list" where
  "root_sectors content s i = content (hw s) (root_dir_start (fs s) + of_nat i)"

lemma root_lba:
  assumes "geometry f" and "i < unat (root_dir_sectors f)"
  shows "unat (root_dir_start f + of_nat i) = unat (root_dir_start f) + i"
    and "in_root f (root_dir_start f + of_nat i)" and "lba28 (root_dir_start f + of_nat i)"
proof -
  have "unat (root_dir_start f) + i < 2 ^ 28" using assms by (simp add: geometry_def)
  moreover from this have "unat (of_nat i :: u32) = i" by (simp add: unat_of_nat)
  ultimately show u: "unat (root_dir_start f + of_nat i) = unat (root_dir_start f) + i"
    by (subst unat_add_no_wrap) simp_all
  show "in_root f (root_dir_start f + of_nat i)" "lba28 (root_dir_start f + of_nat i)"
    using assms \<open>unat (root_dir_start f) + i < 2 ^ 28\<close> by (simp_all add: in_root_def lba28_iff u)
qed

lemma dir_search_hit:
  "dir_search skip n g is = Some (i, j) \<Longrightarrow> i \<in> set is \<and> scan_entries skip n (g i) [0..<16] = Hit j"
  by (induction "is") (auto split: scan.splits)

lemma dir_search_cong:
  "(\<And>i. i \<in> set is \<Longrightarrow> scan_entries skip n (g i) [0..<16] = scan_entries skip n (g' i) [0..<16]) \<Longrightarrow>
    dir_search skip n g is = dir_search skip n g' is"
  by (induction "is") (auto split: scan.splits)

lemma find_loop_ok:
  assumes "fs_ok P ready content s" and "\<forall>i \<in> set is. i < unat (root_dir_sectors (fs s))"
  shows "\<exists>s'. find_loop P skip n is s = (dir_search skip n (root_sectors content s) is, s') \<and> fs_ok P ready content s' \<and>
    fs s' = fs s \<and> content (hw s') = content (hw s) \<and>
    (\<forall>i j. dir_search skip n (root_sectors content s) is = Some (i, j) \<longrightarrow> sector_buffer s' = root_sectors content s i)"
  using assms
proof (induction "is" arbitrary: s)
  case (Cons i "is")
  note ok = fs_okD [OF Cons.prems(1)]
  let ?lba = "root_dir_start (fs s) + of_nat i"
  obtain s1 where s1: "read_buffer P ?lba s = (1, s1)" "working P ready content s1" "fs s1 = fs s"
    "sector_buffer s1 = content (hw s) ?lba" "content (hw s1) = content (hw s)" "fat_cache s1 = fat_cache s"
    "fat_cache_sector s1 = fat_cache_sector s"
    by (rule read_buffer_ok [OF ok(1), of ?lba]) (use root_lba(3) [OF ok(3)] Cons.prems(2) in simp_all)
  have "fs_ok P ready content s1" by (rule fs_ok_data_write(1) [OF Cons.prems(1) s1(2,3,6,7)]) (simp add: s1(5))
  moreover have "root_sectors content s1 = root_sectors content s" using s1 by (simp add: root_sectors_def fun_eq_iff)
  ultimately show ?case
    using Cons.IH [of s1] Cons.prems(2) s1 by (auto simp: root_sectors_def split: scan.splits)
qed simp

lemma find_file_ok:
  assumes "fs_ok P ready content s" and "mounted (fs s)"
  obtains s' where "fat16_find_file P n s =
      ((case dir_search lfn_or_label n (root_sectors content s) (dir_range s) of
          None \<Rightarrow> (- 1, None)
        | Some (i, j) \<Rightarrow> (0, Some (dir_entry_at (root_sectors content s i) j))), s')"
    and "fs_ok P ready content s'" and "fs s' = fs s" and "content (hw s') = content (hw s)"
proof -
  obtain s' where s': "find_loop P lfn_or_label n (dir_range s) s = (dir_search lfn_or_label n (root_sectors content s) (dir_range s), s')"
    "fs_ok P ready content s'" "fs s' = fs s" "content (hw s') = content (hw s)"
    "\<forall>i j. dir_search lfn_or_label n (root_sectors content s) (dir_range s) = Some (i, j) \<longrightarrow> sector_buffer s' = root_sectors content s i"
    using find_loop_ok [OF assms(1), of "dir_range s" lfn_or_label n] by auto
  then show thesis using assms(2) by (intro that [of s']) (auto simp: fat16_find_file_def split: option.split)
qed

lemma find_file_search:
  assumes "fs_ok P ready content s" and "mounted (fs s)" and "fst (fat16_find_file P n s) = (0, Some e)"
  obtains i j where "dir_search lfn_or_label n (root_sectors content s) (dir_range s) = Some (i, j)"
    and "e = dir_entry_at (root_sectors content s i) j" and "i < unat (root_dir_sectors (fs s))" and "j < 16"
proof -
  obtain s' where "fat16_find_file P n s =
      ((case dir_search lfn_or_label n (root_sectors content s) (dir_range s) of
          None \<Rightarrow> (- 1, None)
        | Some (i, j) \<Rightarrow> (0, Some (dir_entry_at (root_sectors content s i) j))), s')"
    by (rule find_file_ok [OF assms(1,2)])
  with assms(3) obtain i j where ij: "dir_search lfn_or_label n (root_sectors content s) (dir_range s) = Some (i, j)"
    "e = dir_entry_at (root_sectors content s i) j" by (auto split: option.splits)
  with dir_search_hit [OF ij(1)] scan_hit [of lfn_or_label n "root_sectors content s i" "[0..<16]" j] show thesis
    by (intro that [of i j]) auto
qed

section \<open>Names\<close>

lemma same_text_iff: "same_text as bs \<longleftrightarrow> map upper as = map upper bs"
  by (induction "as" bs rule: same_text.induct) auto

lemma matches_unique: "name_matches e m \<Longrightarrow> name_matches e n \<Longrightarrow> map upper m = map upper n"
  by (simp add: name_matches_def same_text_iff)

text \<open>A name that the 8.3 format can hold.\<close>

definition base_part :: "u8 list \<Rightarrow> u8 list" where
  "base_part n = takeWhile (\<lambda>c. c \<noteq> 0x2E) n"

definition ext_part :: "u8 list \<Rightarrow> u8 list" where
  "ext_part n = drop 1 (dropWhile (\<lambda>c. c \<noteq> 0x2E) n)"

definition short_name :: "u8 list \<Rightarrow> bool" where
  "short_name n \<longleftrightarrow>
     0 < length (base_part n) \<and> length (base_part n) \<le> 8 \<and> length (ext_part n) \<le> 3 \<and>
     (ext_part n = [] \<longrightarrow> n = base_part n) \<and> 0x20 \<notin> set n \<and> 0 \<notin> set n \<and> 0xE5 \<notin> set n"

lemma upper_eq_iff: "c \<noteq> 0x00 \<Longrightarrow> upper c \<noteq> 0x00" "c \<noteq> 0x20 \<Longrightarrow> upper c \<noteq> 0x20" "c \<noteq> 0xE5 \<Longrightarrow> upper c \<noteq> 0xE5"
  and upper_upper: "upper (upper c) = upper c"
proof -
  have *: "upper c = c \<and> \<not> (0x61 \<le> unat c \<and> unat c \<le> 0x7A) \<or> unat (upper c) = unat c - 32 \<and> 0x61 \<le> unat c \<and> unat c \<le> 0x7A"
    by (auto simp: upper_def word_le_nat_alt unat_sub_no_wrap)
  show "c \<noteq> 0x00 \<Longrightarrow> upper c \<noteq> 0x00" "c \<noteq> 0x20 \<Longrightarrow> upper c \<noteq> 0x20" "c \<noteq> 0xE5 \<Longrightarrow> upper c \<noteq> 0xE5"
    using * by (auto simp: word_unat_eq_iff)
  show "upper (upper c) = upper c"
    using * by (auto simp: upper_def [of "upper c"] word_le_nat_alt)
qed

lemma takeWhile_padded: "0x20 \<notin> set bs \<Longrightarrow> takeWhile (\<lambda>c. c \<noteq> 0x20) (padded k bs) = bs"
  unfolding padded_def by (subst takeWhile_append2) (auto intro: ccontr)

lemma length_padded: "length bs \<le> k \<Longrightarrow> length (padded k bs) = k"
  by (simp add: padded_def)

lemma short_name_split: "short_name n \<Longrightarrow> n = base_part n @ (if ext_part n = [] then [] else 0x2E # ext_part n)"
proof (cases "ext_part n = []")
  case False
  assume "short_name n"
  have "dropWhile (\<lambda>c. c \<noteq> 0x2E) n = 0x2E # ext_part n"
  proof (cases "dropWhile (\<lambda>c. c \<noteq> 0x2E) n")
    case Nil
    then have "ext_part n = []" by (simp only: ext_part_def drop_Nil)
    with False show ?thesis by simp
  next
    case (Cons a as)
    then show ?thesis using hd_dropWhile [of "\<lambda>c. c \<noteq> 0x2E" n] by (simp add: ext_part_def)
  qed
  then show ?thesis using False takeWhile_dropWhile_id [of "\<lambda>c. c \<noteq> 0x2E" n] by (simp add: base_part_def)
qed (simp add: short_name_def)

lemma name_to_83_parts:
  "name_to_83 n = padded 8 (map upper (take 8 (base_part n))) @ padded 3 (map upper (take 3 (ext_part n)))"
  by (simp add: name_to_83_def Let_def base_part_def ext_part_def)

lemma short_name_parts: "short_name n \<Longrightarrow> take 8 (base_part n) = base_part n" "short_name n \<Longrightarrow> take 3 (ext_part n) = ext_part n"
  by (simp_all add: short_name_def)

text \<open>The name stored for a short name is found again under it.\<close>

lemma short_name_matches:
  assumes "short_name n" and "name e = padded 8 (map upper (base_part n))" and "ext e = padded 3 (map upper (ext_part n))"
  shows "name_matches e n" and "name e ! 0 \<noteq> 0" and "name e ! 0 \<noteq> 0xE5"
proof -
  have sub: "set (base_part n) \<subseteq> set n" "set (ext_part n) \<subseteq> set n"
    by (auto simp: base_part_def ext_part_def dest: set_takeWhileD in_set_dropD set_dropWhileD)
  have sp: "0x20 \<notin> set (map upper (base_part n))" "0x20 \<notin> set (map upper (ext_part n))"
    using assms(1) sub upper_eq_iff(2) by (force simp: short_name_def)+
  have first: "name e ! 0 = upper (base_part n ! 0)"
    using assms(1,2) by (cases "base_part n") (simp_all add: short_name_def padded_def)
  moreover have "base_part n ! 0 \<in> set n" using assms(1) sub by (metis nth_mem short_name_def subsetD)
  ultimately show "name e ! 0 \<noteq> 0" "name e ! 0 \<noteq> 0xE5"
    using assms(1) upper_eq_iff(1,3) by (metis short_name_def)+
  have "ext e ! 0 \<noteq> 0x20 \<longleftrightarrow> ext_part n \<noteq> []"
    using sp(2) assms(1) unfolding assms(3) by (cases "ext_part n") (auto simp: padded_def)
  then have "entry_name e = map upper (base_part n) @ (if ext_part n = [] then [] else 0x2E # map upper (ext_part n))"
    using takeWhile_padded [OF sp(1), of 8] takeWhile_padded [OF sp(2), of 3] by (simp add: entry_name_def assms(2,3))
  also have "\<dots> = map upper (base_part n @ (if ext_part n = [] then [] else 0x2E # ext_part n))" by (simp add: upper_def)
  also have "\<dots> = map upper n" using short_name_split [OF assms(1)] by (rule arg_cong [OF sym])
  finally have "entry_name e = map upper n" .
  moreover have "0 \<notin> set (map upper n)" using assms(1) upper_eq_iff(1) unfolding short_name_def set_map by (metis imageE)
  then have "takeWhile (\<lambda>c. c \<noteq> 0) (map upper n) = map upper n" by (auto simp: takeWhile_eq_all_conv)
  ultimately have "takeWhile (\<lambda>c. c \<noteq> 0) (entry_name e) = map upper n" by (simp only:)
  then show "name_matches e n" by (simp add: name_matches_def same_text_iff upper_upper)
qed

end
