(* ===== verification/Fat16_Example.thy ===== *)
theory Fat16_Example
  imports Fat16_Dir
begin

text \<open>
  A small volume on the disk of theory \<open>Ata\<close>: four clusters of one sector, an empty file A and a file B
  of one byte in cluster 2. It shows that the hypotheses of the file system's properties can hold.
\<close>

definition demo_fat :: "u8 list" where
  "demo_fat = le16 0xFFF8 @ le16 0xFFFF @ le16 0xFFF8 @ replicate 506 0"

definition demo_root :: "u8 list" where
  "demo_root = 0x41 # replicate 11 0x20 @ replicate 20 0 @
     0x42 # replicate 11 0x20 @ replicate 14 0 @ le16 2 @ le32 1 @ replicate 448 0"

definition demo_disk :: sim_disk where
  "demo_disk = \<lparr>r_sel = 0, r_lo = 0, r_mid = 0, r_hi = 0, out_queue = [], in_words = None,
     store = (\<lambda>lba. if lba = 1 then demo_fat else if lba = 2 then demo_root else replicate 512 0)\<rparr>"

definition demo_fs :: fat16_fs_t where
  "demo_fs = \<lparr>mounted = True, fs_drive = 0, bytes_per_sector = 512, sectors_per_cluster = 1, reserved_sectors = 1, num_fats = 1,
     root_entry_count = 16, fat_size = 1, total_sectors = 7, fat_start_sector = 1, root_dir_start = 2, root_dir_sectors = 1,
     data_start_sector = 3, total_clusters = 4\<rparr>"

definition demo_drive :: ata_drive_t where
  "demo_drive = \<lparr>drive_present = True, is_ata = True, size_sectors = 20000, model_name = [], serial = []\<rparr>"

definition demo :: "sim_disk fat16" where
  "demo = \<lparr>drives = [demo_drive, demo_drive], hw = demo_disk, fs = demo_fs, sector_buffer = replicate 512 0,
     fat_cache = replicate 256 0, fat_cache_sector = NO_SECTOR\<rparr>"

lemma demo_lengths: "length demo_fat = 512" "length demo_root = 512"
  by (simp_all add: demo_fat_def demo_root_def)

lemma demo_ready: "sim_ready demo_disk"
  by (simp add: sim_ready_def demo_disk_def demo_lengths)

lemma demo_geometry: "geometry (fs demo)"
  by (simp add: geometry_def demo_def demo_fs_def)

lemma demo_valid: "valid_cluster (fs demo) c \<longleftrightarrow> c \<in> {2, 3, 4, 5}"
proof -
  have "valid_cluster (fs demo) c \<longleftrightarrow> unat c \<in> {2, 3, 4, 5}" by (auto simp: valid_cluster_def demo_def demo_fs_def)
  then show ?thesis by (simp add: word_unat_eq_iff)
qed

lemma demo_entry: "valid_cluster (fs demo) c \<Longrightarrow> entry_of store demo c = (if c = 2 then FAT16_END_OF_CHAIN else 0)"
proof -
  assume "valid_cluster (fs demo) c"
  then have c: "c \<in> {2, 3, 4, 5}" by (simp add: demo_valid)
  have "fat_sector (fs demo) c = 1" using c by (auto simp: fat_sector_def demo_def demo_fs_def)
  moreover have "rd16 demo_fat 4 = 0xFFF8" using rd16_field [of "le16 0xFFF8 @ le16 0xFFFF" 4 "0xFFF8"] by (simp add: demo_fat_def)
  moreover have "rd16 demo_fat k = 0" if "6 \<le> k" "k < 500" for k
    using that by (simp add: rd16_def demo_fat_def le16_def nth_Cons')
  ultimately show ?thesis using c
    by (auto simp: entry_of_def demo_def demo_disk_def u16_consts entry_offset_def)
qed

lemma demo_root_tail: "64 \<le> k \<Longrightarrow> k < 512 \<Longrightarrow> demo_root ! k = 0"
proof -
  assume k: "64 \<le> k" "k < 512"
  let ?head = "0x41 # replicate 11 0x20 @ replicate 20 0 @ 0x42 # replicate 11 0x20 @ replicate 14 0 @ le16 2 @ le32 1 :: u8 list"
  have "demo_root = ?head @ replicate 448 0" "length ?head = 64" by (simp_all add: demo_root_def)
  then have "demo_root ! k = (replicate 448 0 :: u8 list) ! (k - 64)" using k by (metis nth_append not_less)
  then show "demo_root ! k = 0" using k by simp
qed

lemma demo_root_entries:
  "cluster_lo (dir_entry_at demo_root 0) = 0" "cluster_lo (dir_entry_at demo_root (Suc 0)) = 2"
  "attr (dir_entry_at demo_root 0) = 0x20" "attr (dir_entry_at demo_root (Suc 0)) = 0x20"
  "2 \<le> j \<Longrightarrow> j < 16 \<Longrightarrow> cluster_lo (dir_entry_at demo_root j) = 0" "2 \<le> j \<Longrightarrow> j < 16 \<Longrightarrow> name (dir_entry_at demo_root j) ! 0 = 0"
proof -
  show "2 \<le> j \<Longrightarrow> j < 16 \<Longrightarrow> cluster_lo (dir_entry_at demo_root j) = 0" "2 \<le> j \<Longrightarrow> j < 16 \<Longrightarrow> name (dir_entry_at demo_root j) ! 0 = 0"
    by (simp_all add: dir_entry_at_def rd16_def demo_root_tail demo_lengths)
qed (simp_all add: dir_entry_at_def demo_root_def rd16_def le16_def le32_def nth_append)

lemma demo_search:
  "scan_entries skip [0x61] demo_root [0..<16] = Hit 0" "scan_entries skip [0x62] demo_root [0..<16] = Hit 1"
  if "\<not> skip (dir_entry_at demo_root 0)" "\<not> skip (dir_entry_at demo_root 1)"
proof -
  have upt: "[0..<16] = 0 # 1 # [2..<16]" by (simp add: upt_conv_Cons)
  have "name (dir_entry_at demo_root 0) = 0x41 # replicate 7 0x20" "ext (dir_entry_at demo_root 0) = replicate 3 0x20"
    "name (dir_entry_at demo_root 1) = 0x42 # replicate 7 0x20" "ext (dir_entry_at demo_root 1) = replicate 3 0x20"
    by (simp_all add: dir_entry_at_def demo_root_def)
  then show "scan_entries skip [0x61] demo_root [0..<16] = Hit 0" "scan_entries skip [0x62] demo_root [0..<16] = Hit 1"
    unfolding upt using that by (simp_all add: Let_def name_matches_def entry_name_def upper_def)
qed

lemma demo_root_sector: "root_sectors store demo 0 = demo_root" "dir_range demo = [0]"
  by (simp_all add: root_sectors_def demo_def demo_fs_def demo_disk_def)

lemma demo_ok: "fs_ok sim_ports sim_ready store demo"
proof -
  have "working sim_ports sim_ready store demo"
    using sim_contract demo_ready by (simp add: working_def demo_def demo_fs_def demo_drive_def ata_drive_present_def)
  moreover have "cache_ok store demo" by (simp add: cache_ok_def demo_def)
  moreover have "links_ok store demo" by (simp add: links_ok_def demo_entry link_ok_def)
  moreover have "dir_ok store demo"
  proof -
    have "link_ok (fs demo) (cluster_lo (dir_entry_at demo_root j))" if "j < 16" for j
    proof -
      consider "j = 0" | "j = 1" | "2 \<le> j" by linarith
      then show ?thesis by cases (use demo_root_entries that in \<open>simp_all add: link_ok_def demo_valid\<close>)
    qed
    moreover have "store (hw demo) lba = demo_root" if "in_root (fs demo) lba" for lba
    proof -
      have "lba = 2" using that by (simp add: in_root_def demo_def demo_fs_def word_unat_eq_iff)
      then show ?thesis by (simp add: demo_def demo_disk_def)
    qed
    ultimately show ?thesis by (simp add: dir_ok_def)
  qed
  ultimately show ?thesis using demo_geometry by (simp add: fs_ok_def)
qed

lemma demo_mounted: "mounted (fs demo)"
  by (simp add: demo_def demo_fs_def)

lemma demo_plain: "\<not> lfn_or_label (dir_entry_at demo_root 0)" "\<not> lfn_or_label (dir_entry_at demo_root 1)"
  by (simp_all add: lfn_or_label_def demo_root_entries FAT_ATTR_LFN_def FAT_ATTR_VOLUME_ID_def)

lemma demo_dir_search:
  "dir_search lfn_or_label [0x61] (root_sectors store demo) (dir_range demo) = Some (0, 0)"
  "dir_search lfn_or_label [0x62] (root_sectors store demo) (dir_range demo) = Some (0, 1)"
  "dir_search (\<lambda>e. attr e = FAT_ATTR_LFN) [0x62] (root_sectors store demo) (dir_range demo) = Some (0, 1)"
proof -
  have "\<not> attr (dir_entry_at demo_root 0) = FAT_ATTR_LFN" "\<not> attr (dir_entry_at demo_root 1) = FAT_ATTR_LFN"
    by (simp_all add: demo_root_entries FAT_ATTR_LFN_def)
  note s = demo_search [OF demo_plain] demo_search(2) [of "\<lambda>e. attr e = FAT_ATTR_LFN", OF this]
  show "dir_search lfn_or_label [0x61] (root_sectors store demo) (dir_range demo) = Some (0, 0)"
    "dir_search lfn_or_label [0x62] (root_sectors store demo) (dir_range demo) = Some (0, 1)"
    "dir_search (\<lambda>e. attr e = FAT_ATTR_LFN) [0x62] (root_sectors store demo) (dir_range demo) = Some (0, 1)"
    unfolding demo_root_sector(2) dir_search.simps demo_root_sector(1) s by simp_all
qed

lemma demo_find:
  "fst (fat16_find_file sim_ports [0x61] demo) = (0, Some (dir_entry_at demo_root 0))"
  "fst (fat16_find_file sim_ports [0x62] demo) = (0, Some (dir_entry_at demo_root 1))"
proof -
  show "fst (fat16_find_file sim_ports [0x61] demo) = (0, Some (dir_entry_at demo_root 0))"
    by (rule find_file_ok [OF demo_ok demo_mounted, of "[0x61]"]) (simp add: demo_dir_search demo_root_sector(1))
  show "fst (fat16_find_file sim_ports [0x62] demo) = (0, Some (dir_entry_at demo_root 1))"
    by (rule find_file_ok [OF demo_ok demo_mounted, of "[0x62]"]) (simp add: demo_dir_search demo_root_sector(1))
qed

lemma demo_chains:
  "chain_of (fs demo) (entry_of store demo) (cluster_lo (dir_entry_at demo_root 0)) []"
  "chain_of (fs demo) (entry_of store demo) (cluster_lo (dir_entry_at demo_root 1)) [2]"
  by (simp_all add: demo_root_entries demo_valid demo_entry)

end
