(* ===== verification/Fat16_Properties.thy ===== *)
theory Fat16_Properties
  imports Fat16_Example
begin

text \<open>
  Properties of the file system operations on a well-formed volume, and of the ways they go wrong.
\<close>

section \<open>The table as a map\<close>

text \<open>
  C11. The table is a map from clusters to links. Storing a link on a well-formed volume succeeds; reading
  any cluster's entry afterwards, through the cache or not, gives the map with that one entry updated. All
  copies of the changed sector are equal, and no sector outside the table changes.
\<close>

theorem fat_write_entry_refines:
  assumes "fs_ok P ready content s" and "valid_cluster (fs s) c" and "link_ok (fs s) v"
  shows "\<exists>s'. fat_write_entry P c v s = (0, s') \<and> fs_ok P ready content s' \<and>
    (\<forall>d. valid_cluster (fs s) d \<longrightarrow> fst (fat_read_entry P d s') = ((entry_of content s)(c := v)) d) \<and>
    (\<forall>i < unat (num_fats (fs s)). content (hw s') (fat_sector (fs s) c + of_nat i * ucast (fat_size (fs s))) =
       content (hw s') (fat_sector (fs s) c)) \<and>
    (\<forall>lba. \<not> in_table (fs s) lba \<longrightarrow> content (hw s') lba = content (hw s) lba)"
proof -
  obtain s' where s': "fat_write_entry P c v s = (0, s')" "fs_ok P ready content s'" "fs s' = fs s"
    and e: "\<And>d. valid_cluster (fs s) d \<Longrightarrow> entry_of content s' d = (if d = c then v else entry_of content s d)"
    and o: "\<And>lba. \<not> in_table (fs s) lba \<Longrightarrow> content (hw s') lba = content (hw s) lba"
    by (rule fs_ok_write_entry [OF assms]) blast
  have "fst (fat_read_entry P d s') = ((entry_of content s)(c := v)) d" if "valid_cluster (fs s) d" for d
    by (rule fs_ok_read_entry [OF s'(2), of d]) (use that e s'(3) in simp_all)
  moreover obtain w where w: "content (hw s') = overlay (copies (fs s) c) w (content (hw s))"
    by (rule fat_write_entry_ok [OF fs_okD(1,3) [OF assms(1)] assms(2), of v]) (use s'(1) in auto)
  have "content (hw s') (fat_sector (fs s) c + of_nat i * ucast (fat_size (fs s))) = content (hw s') (fat_sector (fs s) c)"
    if "i < unat (num_fats (fs s))" for i
    using that copy_is_sector [OF fs_okD(3) [OF assms(1)] assms(2,2)] unfolding w by (auto simp: overlay_def copies_def)
  ultimately show ?thesis using s' o by blast
qed

theorem fat_write_entry_refines_witness:
  "\<exists>s'. fat_write_entry sim_ports 3 FAT16_END_OF_CHAIN demo = (0, s') \<and> fs_ok sim_ports sim_ready store s' \<and>
    (\<forall>d. valid_cluster (fs demo) d \<longrightarrow> fst (fat_read_entry sim_ports d s') = ((entry_of store demo)(3 := FAT16_END_OF_CHAIN)) d) \<and>
    (\<forall>i < unat (num_fats (fs demo)). store (hw s') (fat_sector (fs demo) 3 + of_nat i * ucast (fat_size (fs demo))) =
       store (hw s') (fat_sector (fs demo) 3)) \<and>
    (\<forall>lba. \<not> in_table (fs demo) lba \<longrightarrow> store (hw s') lba = store (hw demo) lba)"
  by (rule fat_write_entry_refines [OF demo_ok]) (simp_all add: demo_valid link_ok_def)

section \<open>Writing a file\<close>

lemma fs_ok_root_write:
  assumes "fs_ok P ready content s" and "working P ready content s'" and "fs s' = fs s"
    and "fat_cache s' = fat_cache s" and "fat_cache_sector s' = fat_cache_sector s"
    and "content (hw s') = (content (hw s))(lba := buf)" and "in_root (fs s) lba"
    and "\<And>j. j < 16 \<Longrightarrow> link_ok (fs s) (cluster_lo (dir_entry_at buf j))"
  shows "fs_ok P ready content s'" and "valid_cluster (fs s) c \<Longrightarrow> entry_of content s' c = entry_of content s c"
    and "valid_cluster (fs s) c \<Longrightarrow> cluster_bytes content s' c = cluster_bytes content s c"
proof -
  note ok = fs_okD [OF assms(1)]
  have table: "content (hw s') a = content (hw s) a" if "in_table (fs s) a" for a
    using that assms(6,7) root_not_table by auto
  have e: "entry_of content s' c = entry_of content s c" if "valid_cluster (fs s) c" for c
    using table fat_sector_in_table [OF ok(3) that] assms(3) by (simp add: entry_of_def)
  then show "valid_cluster (fs s) c \<Longrightarrow> entry_of content s' c = entry_of content s c" by simp
  show "valid_cluster (fs s) c \<Longrightarrow> cluster_bytes content s' c = cluster_bytes content s c"
    by (rule cluster_bytes_frame [OF assms(3)]) (use assms(6,7) cluster_sectors_in_data(2) [OF ok(3)] in auto)
  have "links_ok content s'" by (rule links_ok_frame [OF ok(4) assms(3) e])
  moreover have "dir_ok content s'" using ok(5) assms(3,6,8) by (simp add: dir_ok_def)
  moreover have "cache_ok content s'" using ok(2) assms(3-5) table by (auto simp: cache_ok_def)
  ultimately show "fs_ok P ready content s'" using ok(3) assms(2,3) by (simp add: fs_ok_def)
qed

lemma root_sectors_frame:
  "geometry (fs s) \<Longrightarrow> fs s' = fs s \<Longrightarrow> (\<And>lba. in_root (fs s) lba \<Longrightarrow> content (hw s') lba = content (hw s) lba) \<Longrightarrow>
    k < unat (root_dir_sectors (fs s)) \<Longrightarrow> root_sectors content s' k = root_sectors content s k"
  by (simp add: root_sectors_def root_lba)

lemma root_lba_inj:
  assumes "geometry f" and "i < unat (root_dir_sectors f)" and "k < unat (root_dir_sectors f)"
  shows "root_dir_start f + of_nat i = root_dir_start f + of_nat k \<longleftrightarrow> i = k"
  using root_lba(1) [OF assms(1,2)] root_lba(1) [OF assms(1,3)] by (auto simp: word_unat_eq_iff)

text \<open>Freeing the clusters of an entry.\<close>

lemma free_entry_ok:
  assumes "fs_ok P ready content s" and "link_ok (fs s) c"
  obtains s' where "(if 2 \<le> c then free_chain P c s else Some s) = Some s'" and "fs_ok P ready content s'" and "fs s' = fs s"
    and "\<And>lba. \<not> in_table (fs s) lba \<Longrightarrow> content (hw s') lba = content (hw s) lba"
    and "\<And>cs d. chain_of (fs s) (entry_of content s) c cs \<Longrightarrow> valid_cluster (fs s) d \<Longrightarrow> d \<notin> set cs \<Longrightarrow>
           entry_of content s' d = entry_of content s d"
proof -
  obtain s' where s': "free_chain P c s = Some s'" "fs_ok P ready content s'" "fs s' = fs s"
    "\<And>lba. \<not> in_table (fs s) lba \<Longrightarrow> content (hw s') lba = content (hw s) lba"
    using free_chain_ok [OF assms] by blast
  moreover have "entry_of content s' d = entry_of content s d"
    if "chain_of (fs s) (entry_of content s) c cs" "valid_cluster (fs s) d" "d \<notin> set cs" for cs d
    using free_chain_frees [OF assms(1) that(1)] s'(1) that(2,3) by auto
  moreover have "(if 2 \<le> c then free_chain P c s else Some s) = Some s'" using s'(1) free_chain_end [of c P s] by auto
  ultimately show thesis by (intro that [of s']) simp_all
qed

text \<open>Storing the new start and size of a file into its directory entry.\<close>

lemma update_dir_ok:
  assumes "fs_ok P ready content s" and "i < unat (root_dir_sectors (fs s))" and "j < 16" and "link_ok (fs s) f"
  defines "lba \<equiv> root_dir_start (fs s) + of_nat i"
  obtains s1 s' where "read_buffer P lba s = (1, s1)"
    and "write_buffer P lba (s1\<lparr>sector_buffer := update_entry (sector_buffer s1) j f n\<rparr>) = (1, s')"
    and "fs_ok P ready content s'" and "fs s' = fs s"
    and "\<And>k. k < unat (root_dir_sectors (fs s)) \<Longrightarrow> root_sectors content s' k =
           (if k = i then update_entry (root_sectors content s i) j f n else root_sectors content s k)"
    and "\<And>c. valid_cluster (fs s) c \<Longrightarrow> entry_of content s' c = entry_of content s c"
    and "\<And>c. valid_cluster (fs s) c \<Longrightarrow> cluster_bytes content s' c = cluster_bytes content s c"
proof -
  note ok = fs_okD [OF assms(1)]
  have lba: "lba28 lba" "in_root (fs s) lba" using root_lba [OF ok(3) assms(2)] by (simp_all add: lba_def)
  obtain s1 where s1: "read_buffer P lba s = (1, s1)" "working P ready content s1" "fs s1 = fs s"
    "sector_buffer s1 = content (hw s) lba" "content (hw s1) = content (hw s)" "fat_cache s1 = fat_cache s"
    "fat_cache_sector s1 = fat_cache_sector s"
    by (rule read_buffer_ok [OF ok(1) lba(1)])
  let ?old = "content (hw s) lba" and ?buf = "update_entry (content (hw s) lba) j f n"
  have len: "length ?old = 512" by (rule working_length [OF ok(1)])
  have w: "working P ready content (s1\<lparr>sector_buffer := ?buf\<rparr>)"
    using s1(2,4) len length_update_entry [OF assms(3) len] by simp
  obtain s' where s': "write_buffer P lba (s1\<lparr>sector_buffer := ?buf\<rparr>) = (1, s')" "working P ready content s'" "fs s' = fs s"
    "content (hw s') = (content (hw s))(lba := ?buf)" "fat_cache s' = fat_cache s" "fat_cache_sector s' = fat_cache_sector s"
    by (rule write_buffer_ok [OF w lba(1)]) (use s1 in simp)
  have "link_ok (fs s) (cluster_lo (dir_entry_at ?buf k))" if "k < 16" for k
    using that ok(5) lba(2) assms(4) dir_entry_at_update [OF len assms(3) that] by (simp add: dir_ok_def)
  note keep = fs_ok_root_write [OF assms(1) s'(2,3,5,6,4) lba(2) this]
  have "root_sectors content s' k = (if k = i then update_entry (root_sectors content s i) j f n else root_sectors content s k)"
    if "k < unat (root_dir_sectors (fs s))" for k
    using root_lba_inj [OF ok(3) that assms(2)] by (simp add: root_sectors_def s'(3,4) lba_def)
  then show thesis using s1 s' keep by (intro that [of s1 s']) simp_all
qed

text \<open>What the clusters outside the old chain of a file keep.\<close>

definition kept :: "('d \<Rightarrow> u32 \<Rightarrow> u8 list) \<Rightarrow> u16 \<Rightarrow> ('d, 'z) fat16_scheme \<Rightarrow> ('d, 'z) fat16_scheme \<Rightarrow> bool" where
  "kept content c s s' \<longleftrightarrow>
     (\<forall>cs d. chain_of (fs s) (entry_of content s) c cs \<longrightarrow> valid_cluster (fs s) d \<longrightarrow> entry_of content s d \<noteq> 0 \<longrightarrow> d \<notin> set cs \<longrightarrow>
       entry_of content s' d = entry_of content s d \<and> cluster_bytes content s' d = cluster_bytes content s d)"

lemma rewrite_chain_ok:
  assumes "fs_ok P ready content s" and "link_ok (fs s) c"
  obtains s1 r s' where "(if 2 \<le> c then free_chain P c s else Some s) = Some s1" and "write_chain P data 0 0 s1 = Some (r, s')"
    and "fs_ok P ready content s'" and "fs s1 = fs s" and "fs s' = fs s"
    and "\<And>lba. in_root (fs s) lba \<Longrightarrow> content (hw s') lba = content (hw s) lba" and "kept content c s s'"
    and "r = None \<Longrightarrow> \<forall>d. valid_cluster (fs s) d \<longrightarrow> entry_of content s' d \<noteq> 0"
    and "\<And>f. r = Some f \<Longrightarrow> \<exists>ds. chain_of (fs s) (entry_of content s') f ds \<and> take (length data) (chain_bytes content s' ds) = data"
proof -
  note geo = fs_okD(3) [OF assms(1)]
  obtain s1 where s1: "(if 2 \<le> c then free_chain P c s else Some s) = Some s1" "fs_ok P ready content s1" "fs s1 = fs s"
    "\<And>lba. \<not> in_table (fs s) lba \<Longrightarrow> content (hw s1) lba = content (hw s) lba"
    "\<And>cs d. chain_of (fs s) (entry_of content s) c cs \<Longrightarrow> valid_cluster (fs s) d \<Longrightarrow> d \<notin> set cs \<Longrightarrow>
       entry_of content s1 d = entry_of content s d"
    by (rule free_entry_ok [OF assms]) blast
  obtain r s' where s': "write_chain P data 0 0 s1 = Some (r, s')" "fs_ok P ready content s'" "fs s' = fs s"
    "\<forall>lba. in_root (fs s) lba \<longrightarrow> content (hw s') lba = content (hw s1) lba"
    "\<forall>d. valid_cluster (fs s) d \<longrightarrow> entry_of content s1 d \<noteq> 0 \<longrightarrow>
       entry_of content s' d = entry_of content s1 d \<and> cluster_bytes content s' d = cluster_bytes content s1 d"
    "case r of None \<Rightarrow> \<forall>d. valid_cluster (fs s) d \<longrightarrow> entry_of content s' d \<noteq> 0
     | Some f \<Rightarrow> \<exists>ds. chain_of (fs s) (entry_of content s') f ds \<and> take (length data) (chain_bytes content s' ds) = data"
    using write_chain_ok [OF s1(2), of 0 "[]" 0 "[]" data] unfolding s1(3) append_Nil by (auto simp: chain_bytes_def)
  have "cluster_bytes content s1 d = cluster_bytes content s d" if "valid_cluster (fs s) d" for d
    by (rule cluster_bytes_frame [OF s1(3)]) (use s1(4) cluster_sectors_in_data(1) [OF geo that] in simp)
  then have "kept content c s s'" unfolding kept_def using s1(5) s'(5) by auto
  moreover have "content (hw s') lba = content (hw s) lba" if "in_root (fs s) lba" for lba
    using that s'(4) s1(4) root_not_table by simp
  ultimately show thesis using s1 s' by (intro that [of s1 r s']) auto
qed

lemma write_file_ok:
  assumes "fs_ok P ready content s" and "mounted (fs s)"
    and "dir_search lfn_or_label n (root_sectors content s) (dir_range s) = Some (i, j)"
  obtains r s' where "fat16_write_file P n data s = Some (r, s')" and "fs_ok P ready content s'" and "fs s' = fs s"
    and "kept content (cluster_lo (dir_entry_at (root_sectors content s i) j)) s s'"
    and "r = - 1 \<and> (\<forall>d. valid_cluster (fs s) d \<longrightarrow> entry_of content s' d \<noteq> 0) \<and>
       (\<forall>k < unat (root_dir_sectors (fs s)). root_sectors content s' k = root_sectors content s k) \<or>
     r = int_of_size (length data) \<and>
       (\<exists>f ds. chain_of (fs s) (entry_of content s') f ds \<and> take (length data) (chain_bytes content s' ds) = data \<and>
          (\<forall>k < unat (root_dir_sectors (fs s)). root_sectors content s' k =
             (if k = i then update_entry (root_sectors content s i) j f (length data) else root_sectors content s k)))"
proof -
  note geo = fs_okD(3) [OF assms(1)]
  let ?c = "cluster_lo (dir_entry_at (root_sectors content s i) j)"
  have hit: "i < unat (root_dir_sectors (fs s))" "j < 16"
    using dir_search_hit [OF assms(3)] scan_hit [of lfn_or_label n "root_sectors content s i" "[0..<16]" j] by auto
  obtain s1 where s1: "find_loop P lfn_or_label n (dir_range s) s = (Some (i, j), s1)" "fs_ok P ready content s1"
    "fs s1 = fs s" "content (hw s1) = content (hw s)" "sector_buffer s1 = root_sectors content s i"
    using find_loop_ok [OF assms(1), of "dir_range s" lfn_or_label n] assms(3) by auto
  have link: "link_ok (fs s1) ?c"
    using fs_okD(5) [OF assms(1)] root_lba(2) [OF geo hit(1)] hit(2) by (simp add: dir_ok_def s1(3) root_sectors_def)
  obtain s2 r s3 where s2: "(if 2 \<le> ?c then free_chain P ?c s1 else Some s1) = Some s2" "write_chain P data 0 0 s2 = Some (r, s3)"
    and s3: "fs_ok P ready content s3" "fs s3 = fs s"
    "\<And>lba. in_root (fs s) lba \<Longrightarrow> content (hw s3) lba = content (hw s) lba" "kept content ?c s1 s3"
    and r: "r = None \<Longrightarrow> \<forall>d. valid_cluster (fs s) d \<longrightarrow> entry_of content s3 d \<noteq> 0"
    "\<And>f. r = Some f \<Longrightarrow> \<exists>ds. chain_of (fs s) (entry_of content s3) f ds \<and> take (length data) (chain_bytes content s3 ds) = data"
    by (rule rewrite_chain_ok [OF s1(2) link, of data, unfolded s1(3,4)]) blast
  have "entry_of content s1 = entry_of content s" by (rule ext) (rule entry_of_frame [OF s1(3,4)])
  then have kept: "kept content ?c s s3" using s3(4) by (simp add: kept_def s1(3,4) cluster_bytes_def)
  have same: "root_sectors content s3 k = root_sectors content s k" if "k < unat (root_dir_sectors (fs s))" for k
    by (rule root_sectors_frame [OF geo s3(2,3) that])
  show thesis
  proof (cases r)
    case None
    have "fat16_write_file P n data s = Some (- 1, s3)"
      using assms(2) s1 s2 None by (cases "2 \<le> ?c") (simp_all add: fat16_write_file_def Let_def)
    then show thesis using s3 kept same r(1) [OF None] by (intro that [of "- 1" s3]) simp_all
  next
    case (Some f)
    obtain ds where ds: "chain_of (fs s) (entry_of content s3) f ds" "take (length data) (chain_bytes content s3 ds) = data"
      using r(2) [OF Some] by blast
    have f: "link_ok (fs s3) f" using chain_link [OF ds(1)] by (simp add: s3(2))
    obtain s4 s5 where s4: "read_buffer P (root_dir_start (fs s) + of_nat i) s3 = (1, s4)"
      "write_buffer P (root_dir_start (fs s) + of_nat i)
         (s4\<lparr>sector_buffer := update_entry (sector_buffer s4) j f (length data)\<rparr>) = (1, s5)"
      and s5: "fs_ok P ready content s5" "fs s5 = fs s"
      "\<And>k. k < unat (root_dir_sectors (fs s)) \<Longrightarrow> root_sectors content s5 k =
         (if k = i then update_entry (root_sectors content s i) j f (length data) else root_sectors content s k)"
      "\<And>c. valid_cluster (fs s) c \<Longrightarrow> entry_of content s5 c = entry_of content s3 c"
      "\<And>c. valid_cluster (fs s) c \<Longrightarrow> cluster_bytes content s5 c = cluster_bytes content s3 c"
      by (rule update_dir_ok [OF s3(1) _ hit(2) f, of i "length data", unfolded s3(2)]) (use hit(1) same in auto)
    have "fat16_write_file P n data s = Some (int_of_size (length data), s5)"
      using assms(2) s1 s2 s4 Some by (cases "2 \<le> ?c") (simp_all add: fat16_write_file_def Let_def)
    moreover have "kept content ?c s s5" using kept s5(4,5) by (simp add: kept_def)
    moreover have "chain_of (fs s) (entry_of content s5) f ds"
      using ds(1) chain_cong [of ds "entry_of content s5" "entry_of content s3"] chain_valid [OF ds(1)] s5(4) by simp
    moreover have "chain_bytes content s5 ds = chain_bytes content s3 ds"
      using chain_valid [OF ds(1)] s5(5) by (simp add: chain_bytes_def cong: map_cong)
    ultimately show thesis using s5 ds(2) by (intro that [of _ s5] disjI2 conjI exI [of _ f] exI [of _ ds]) simp_all
  qed
qed

section \<open>Reading a file\<close>

lemma read_file_ok:
  assumes "fs_ok P ready content s" and "mounted (fs s)"
    and "dir_search lfn_or_label n (root_sectors content s) (dir_range s) = Some (i, j)"
    and "e = dir_entry_at (root_sectors content s i) j" and "attr e AND FAT_ATTR_DIRECTORY = 0"
    and "chain_of (fs s) (entry_of content s) (cluster_lo e) cs"
  obtains s' where "fat16_read_file P n max_size s =
      Some ((int_of_size (min (unat (file_size e)) max_size), take (min (unat (file_size e)) max_size) (chain_bytes content s cs)), s')"
    and "fs_ok P ready content s'" and "fs s' = fs s" and "content (hw s') = content (hw s)"
proof -
  obtain s1 where s1: "fat16_find_file P n s = ((0, Some e), s1)" "fs_ok P ready content s1" "fs s1 = fs s"
    "content (hw s1) = content (hw s)"
    by (rule find_file_ok [OF assms(1,2), of n]) (use assms(3,4) in simp)
  have "entry_of content s1 = entry_of content s" by (rule ext) (rule entry_of_frame [OF s1(3,4)])
  then have "chain_of (fs s1) (entry_of content s1) (cluster_lo e) cs" using assms(6) by (simp add: s1(3))
  from read_chain_ok [OF s1(2) this, of "min (unat (file_size e)) max_size" "[]"]
  obtain s' where "read_chain P (cluster_lo e) (min (unat (file_size e)) max_size) [] s1 =
      Some ((True, take (min (unat (file_size e)) max_size) (chain_bytes content s cs)), s')"
    "fs_ok P ready content s'" "fs s' = fs s" "content (hw s') = content (hw s)"
    by (auto simp: s1(3,4) chain_bytes_frame [OF s1(3,4)])
  then show thesis using assms(2,5) s1(1) by (intro that [of s']) (simp_all add: fat16_read_file_def Let_def)
qed

text \<open>The heads of the entries decide a search, so the update of an entry's start and size does not change it.\<close>

lemma update_same_head:
  "length buf = 512 \<Longrightarrow> j < 16 \<Longrightarrow> k < 16 \<Longrightarrow> same_head (dir_entry_at (update_entry buf j f n) k) (dir_entry_at buf k)"
  by (simp add: dir_entry_at_update same_head_def)

lemma search_after_update:
  assumes "fs_ok P ready content s" and "fs s' = fs s" and "j < 16" and "i < unat (root_dir_sectors (fs s))"
    and "\<forall>k < unat (root_dir_sectors (fs s)). root_sectors content s' k =
           (if k = i then update_entry (root_sectors content s i) j f len else root_sectors content s k)"
  shows "dir_search lfn_or_label n (root_sectors content s') (dir_range s') =
    dir_search lfn_or_label n (root_sectors content s) (dir_range s)"
proof -
  have len: "length (root_sectors content s i) = 512"
    unfolding root_sectors_def by (rule working_length [OF fs_okD(1) [OF assms(1)]])
  have "scan_entries lfn_or_label n (root_sectors content s' k) [0..<16] = scan_entries lfn_or_label n (root_sectors content s k) [0..<16]"
    if "k < unat (root_dir_sectors (fs s))" for k
    using that assms(5) update_same_head [OF len assms(3)]
    by (cases "k = i") (auto intro!: scan_cong)
  then show ?thesis unfolding assms(2) by (intro dir_search_cong) simp
qed

lemma int_of_size_small: "n < 2 ^ 31 \<Longrightarrow> int_of_size n = int n"
  by (simp add: int_of_size_def signed_of_nat signed_take_bit_int_eq_self)

lemma write_then_read:
  assumes "fs_ok P ready content s" and "mounted (fs s)"
    and "fst (fat16_find_file P n s) = (0, Some e)" and "attr e AND FAT_ATTR_DIRECTORY = 0"
    and "length data < 2 ^ 31" and "length data \<le> max_size"
  shows "\<exists>r s'. fat16_write_file P n data s = Some (r, s') \<and> fs_ok P ready content s' \<and>
    (r = - 1 \<and> (\<forall>c. valid_cluster (fs s) c \<longrightarrow> entry_of content s' c \<noteq> FAT16_FREE) \<or>
     r = int (length data) \<and> (\<exists>s''. fat16_read_file P n max_size s' = Some ((int (length data), data), s'')))"
proof (rule find_file_search [OF assms(1-3)])
  fix i j
  assume ij: "dir_search lfn_or_label n (root_sectors content s) (dir_range s) = Some (i, j)"
    "e = dir_entry_at (root_sectors content s i) j" "i < unat (root_dir_sectors (fs s))" "j < 16"
  show ?thesis
  proof (rule write_file_ok [OF assms(1,2) ij(1), of data])
    fix r s'
    assume w: "fat16_write_file P n data s = Some (r, s')" "fs_ok P ready content s'" "fs s' = fs s"
      and r: "r = - 1 \<and> (\<forall>d. valid_cluster (fs s) d \<longrightarrow> entry_of content s' d \<noteq> 0) \<and>
         (\<forall>k < unat (root_dir_sectors (fs s)). root_sectors content s' k = root_sectors content s k) \<or>
       r = int_of_size (length data) \<and>
         (\<exists>f ds. chain_of (fs s) (entry_of content s') f ds \<and> take (length data) (chain_bytes content s' ds) = data \<and>
            (\<forall>k < unat (root_dir_sectors (fs s)). root_sectors content s' k =
               (if k = i then update_entry (root_sectors content s i) j f (length data) else root_sectors content s k)))"
    from r show ?thesis
    proof (elim disjE conjE exE)
      fix f ds
      assume "r = int_of_size (length data)" and ds: "chain_of (fs s) (entry_of content s') f ds"
        "take (length data) (chain_bytes content s' ds) = data"
        and root: "\<forall>k < unat (root_dir_sectors (fs s)). root_sectors content s' k =
               (if k = i then update_entry (root_sectors content s i) j f (length data) else root_sectors content s k)"
      have "length (root_sectors content s i) = 512"
        unfolding root_sectors_def by (rule working_length [OF fs_okD(1) [OF assms(1)]])
      then have e': "dir_entry_at (root_sectors content s' i) j = e\<lparr>cluster_lo := f, file_size := of_nat (length data)\<rparr>"
        using root ij by (simp add: dir_entry_at_update)
      have found: "dir_search lfn_or_label n (root_sectors content s') (dir_range s') = Some (i, j)"
        using search_after_update [OF assms(1) w(3) ij(4,3) root] ij(1) by simp
      obtain s'' where "fat16_read_file P n max_size s' = Some ((int_of_size (length data), data), s'')"
        by (rule read_file_ok [OF w(2) _ found refl, of ds max_size])
          (use assms(2,4-6) ds e' w(3) in \<open>simp_all add: unat_of_nat min_def take_bit_nat_eq_self\<close>)
      with \<open>r = _\<close> w show ?thesis using assms(5) by (auto simp: int_of_size_small)
    qed (use w in \<open>auto simp: u16_consts\<close>)
  qed
qed

text \<open>
  C5. Write, then read. On a well-formed mounted volume, writing a file that exists and is not a
  directory always returns. Either it fails because not one cluster of the volume is free any more, or it
  returns the size, and reading the file back, into a buffer that is large enough, returns the size and
  the very bytes written. The volume stays well-formed in both cases.
\<close>

theorem fat16_write_read:
  assumes "fs_ok P ready content s" and "mounted (fs s)"
    and "fst (fat16_find_file P n s) = (0, Some e)" and "attr e AND FAT_ATTR_DIRECTORY = 0"
    and "length data < 2 ^ 31" and "length data \<le> max_size"
  shows "\<exists>r s'. fat16_write_file P n data s = Some (r, s') \<and> fs_ok P ready content s' \<and>
    (r = - 1 \<and> (\<forall>c. valid_cluster (fs s) c \<longrightarrow> entry_of content s' c \<noteq> FAT16_FREE) \<or>
     r = int (length data) \<and> (\<exists>s''. fat16_read_file P n max_size s' = Some ((int (length data), data), s'')))"
  using write_then_read [OF assms] .

theorem fat16_write_read_witness:
  "\<exists>r s'. fat16_write_file sim_ports [0x61] [1, 2, 3] demo = Some (r, s') \<and> fs_ok sim_ports sim_ready store s' \<and>
    (r = - 1 \<and> (\<forall>c. valid_cluster (fs demo) c \<longrightarrow> entry_of store s' c \<noteq> FAT16_FREE) \<or>
     r = int (length [1, 2, 3 :: u8]) \<and> (\<exists>s''. fat16_read_file sim_ports [0x61] 100 s' = Some ((int (length [1, 2, 3 :: u8]), [1, 2, 3]), s'')))"
  by (rule fat16_write_read [OF demo_ok demo_mounted demo_find(1)])
    (simp_all add: demo_root_entries FAT_ATTR_DIRECTORY_def)

text \<open>
  C10. Other files are safe. While a file is written, whether that succeeds or the disk fills up, every
  other file with clusters of its own keeps its contents: reading it afterwards gives the result that
  reading it before would have given.
\<close>

theorem fat16_write_keeps_others:
  assumes "fs_ok P ready content s" and "mounted (fs s)"
    and "fst (fat16_find_file P n s) = (0, Some e)" and "fst (fat16_find_file P m s) = (0, Some g)"
    and "map upper m \<noteq> map upper n" and "attr g AND FAT_ATTR_DIRECTORY = 0"
    and "chain_of (fs s) (entry_of content s) (cluster_lo e) cs"
    and "chain_of (fs s) (entry_of content s) (cluster_lo g) ds"
    and "set cs \<inter> set ds = {}" and "\<forall>d \<in> set ds. entry_of content s d \<noteq> FAT16_FREE"
  shows "\<exists>r s'. fat16_write_file P n data s = Some (r, s') \<and>
    (\<exists>b t t'. fat16_read_file P m max_size s = Some (b, t) \<and> fat16_read_file P m max_size s' = Some (b, t'))"
proof -
  obtain i j where ij: "dir_search lfn_or_label n (root_sectors content s) (dir_range s) = Some (i, j)"
    "e = dir_entry_at (root_sectors content s i) j" "i < unat (root_dir_sectors (fs s))" "j < 16"
    by (rule find_file_search [OF assms(1-3)])
  obtain k l where kl: "dir_search lfn_or_label m (root_sectors content s) (dir_range s) = Some (k, l)"
    "g = dir_entry_at (root_sectors content s k) l" "k < unat (root_dir_sectors (fs s))" "l < 16"
    by (rule find_file_search [OF assms(1,2,4)])
  have "name_matches (dir_entry_at (root_sectors content s i) j) n" "name_matches (dir_entry_at (root_sectors content s k) l) m"
    using scan_hit dir_search_hit [OF ij(1)] dir_search_hit [OF kl(1)] by blast+
  then have ne: "(i, j) \<noteq> (k, l)" using assms(5) matches_unique by blast
  have len: "length (root_sectors content s i) = 512"
    unfolding root_sectors_def by (rule working_length [OF fs_okD(1) [OF assms(1)]])
  show ?thesis
  proof (rule write_file_ok [OF assms(1,2) ij(1), of data])
    fix r s'
    assume w: "fat16_write_file P n data s = Some (r, s')" "fs_ok P ready content s'" "fs s' = fs s"
      and kept: "kept content (cluster_lo (dir_entry_at (root_sectors content s i) j)) s s'"
      and r: "r = - 1 \<and> (\<forall>d. valid_cluster (fs s) d \<longrightarrow> entry_of content s' d \<noteq> 0) \<and>
         (\<forall>k < unat (root_dir_sectors (fs s)). root_sectors content s' k = root_sectors content s k) \<or>
       r = int_of_size (length data) \<and>
         (\<exists>f ds. chain_of (fs s) (entry_of content s') f ds \<and> take (length data) (chain_bytes content s' ds) = data \<and>
            (\<forall>k < unat (root_dir_sectors (fs s)). root_sectors content s' k =
               (if k = i then update_entry (root_sectors content s i) j f (length data) else root_sectors content s k)))"
    have same: "entry_of content s' d = entry_of content s d" "cluster_bytes content s' d = cluster_bytes content s d" if "d \<in> set ds" for d
      using kept assms(7,9,10) chain_valid [OF assms(8) that] that unfolding kept_def ij(2) [symmetric] u16_consts by blast+
    have g: "dir_entry_at (root_sectors content s' k) l = g \<and>
        dir_search lfn_or_label m (root_sectors content s') (dir_range s') = Some (k, l)"
      using r
    proof (elim disjE conjE exE)
      assume root: "\<forall>k < unat (root_dir_sectors (fs s)). root_sectors content s' k = root_sectors content s k"
      have "dir_search lfn_or_label m (root_sectors content s') (dir_range s') =
          dir_search lfn_or_label m (root_sectors content s) (dir_range s)"
        unfolding w(3) by (rule dir_search_cong) (use root in simp)
      then show ?thesis using root kl by simp
    next
      fix f
      assume root: "\<forall>k < unat (root_dir_sectors (fs s)). root_sectors content s' k =
               (if k = i then update_entry (root_sectors content s i) j f (length data) else root_sectors content s k)"
      then show ?thesis
        using kl ne search_after_update [OF assms(1) w(3) ij(4,3) root, of m] dir_entry_at_update [OF len ij(4) kl(4)] by auto
    qed
    have "chain_of (fs s') (entry_of content s') (cluster_lo g) ds"
      using assms(8) chain_cong [of ds "entry_of content s'" "entry_of content s"] same(1) w(3) by simp
    moreover have "chain_bytes content s' ds = chain_bytes content s ds"
      using same(2) by (simp add: chain_bytes_def cong: map_cong)
    ultimately have "\<exists>t'. fat16_read_file P m max_size s' = Some ((int_of_size (min (unat (file_size g)) max_size),
        take (min (unat (file_size g)) max_size) (chain_bytes content s ds)), t')"
      using read_file_ok [OF w(2) _ _ refl, of m k l ds max_size] g assms(2,6) w(3) by auto
    moreover have "\<exists>t. fat16_read_file P m max_size s = Some ((int_of_size (min (unat (file_size g)) max_size),
        take (min (unat (file_size g)) max_size) (chain_bytes content s ds)), t)"
      using read_file_ok [OF assms(1,2) kl(1,2) assms(6,8), of max_size] by blast
    ultimately show ?thesis using w(1) by blast
  qed
qed

theorem fat16_write_keeps_others_witness:
  "\<exists>r s'. fat16_write_file sim_ports [0x61] [1, 2, 3] demo = Some (r, s') \<and>
    (\<exists>b t t'. fat16_read_file sim_ports [0x62] 100 demo = Some (b, t) \<and> fat16_read_file sim_ports [0x62] 100 s' = Some (b, t'))"
  by (rule fat16_write_keeps_others [OF demo_ok demo_mounted demo_find _ _ demo_chains])
    (simp_all add: upper_def demo_root_entries FAT_ATTR_DIRECTORY_def demo_valid demo_entry u16_consts)

end
