(* ===== verification/Fat16_Create.thy ===== *)
theory Fat16_Create
  imports Fat16_Properties
begin

text \<open>
  Creating files, names that do not fit the 8.3 format, and what every operation keeps of the volume.
\<close>

section \<open>Creating a file\<close>

lemma length_name_83: "length (name_to_83 n) = 11"
  by (simp add: name_to_83_parts length_padded)

lemma length_new_entry: "length (new_entry n) = 32"
  by (simp add: new_entry_def length_name_83)

lemma new_entry_at:
  assumes "length buf = 512" and "j < 16"
  shows "name (dir_entry_at (store_at buf (32 * j) (new_entry n)) j) = padded 8 (map upper (take 8 (base_part n)))"
    and "ext (dir_entry_at (store_at buf (32 * j) (new_entry n)) j) = padded 3 (map upper (take 3 (ext_part n)))"
    and "attr (dir_entry_at (store_at buf (32 * j) (new_entry n)) j) = FAT_ATTR_ARCHIVE"
    and "cluster_lo (dir_entry_at (store_at buf (32 * j) (new_entry n)) j) = 0"
    and "file_size (dir_entry_at (store_at buf (32 * j) (new_entry n)) j) = 0"
proof -
  let ?b = "padded 8 (map upper (take 8 (base_part n)))" and ?x = "padded 3 (map upper (take 3 (ext_part n)))"
  have len: "length ?b = 8" "length ?x = 3" by (simp_all add: length_padded)
  have buf: "store_at buf (32 * j) (new_entry n) =
      take (32 * j) buf @ ?b @ ?x @ FAT_ATTR_ARCHIVE # replicate 20 0 @ drop (32 * j + 32) buf"
    unfolding store_at_def length_new_entry by (simp add: new_entry_def name_to_83_parts)
  have pre: "length (take (32 * j) buf) = 32 * j" using assms by simp
  note simps = dir_entry_at_def buf rd16_def rd32_def nth_append pre len
  show "name (dir_entry_at (store_at buf (32 * j) (new_entry n)) j) = ?b" "ext (dir_entry_at (store_at buf (32 * j) (new_entry n)) j) = ?x"
    "attr (dir_entry_at (store_at buf (32 * j) (new_entry n)) j) = FAT_ATTR_ARCHIVE"
    "cluster_lo (dir_entry_at (store_at buf (32 * j) (new_entry n)) j) = 0"
    "file_size (dir_entry_at (store_at buf (32 * j) (new_entry n)) j) = 0"
    using assms by (simp_all add: simps)
qed

lemma dir_entry_at_store_other:
  assumes "length buf = 512" and "j < 16" and "k < 16" and "k \<noteq> j"
  shows "dir_entry_at (store_at buf (32 * j) (new_entry n)) k = dir_entry_at buf k"
  by (rule dir_entry_at_cong) (use assms in \<open>auto simp: nth_store_at length_new_entry\<close>)

text \<open>The first free slot of the directory.\<close>

fun dir_slot :: "(nat \<Rightarrow> u8 list) \<Rightarrow> nat list \<Rightarrow> (nat \<times> nat) option" where
  "dir_slot g [] = None"
| "dir_slot g (i # is) =
     (case find (free_slot (g i)) [0..<16] of None \<Rightarrow> dir_slot g is | Some j \<Rightarrow> Some (i, j))"

lemma find_upt_Some: "find Q [0..<16] = Some j \<longleftrightarrow> j < 16 \<and> Q j \<and> (\<forall>u < j. \<not> Q u)"
  using first_index_Some_iff [of Q 16 j] by (simp add: first_index_def)

lemma find_upt_None: "find Q [0..<16] = None \<longleftrightarrow> (\<forall>u < 16. \<not> Q u)"
  using first_index_None_iff [of Q 16] by (simp add: first_index_def)

lemma dir_slot_Some: "dir_slot g is = Some (i, j) \<Longrightarrow> i \<in> set is \<and> j < 16 \<and> free_slot (g i) j"
  by (induction "is") (auto simp: find_upt_Some split: option.splits)

lemma dir_slot_None: "dir_slot g is = None \<Longrightarrow> i \<in> set is \<Longrightarrow> j < 16 \<Longrightarrow> \<not> free_slot (g i) j"
  by (induction "is") (auto simp: find_upt_None split: option.splits)

lemma free_slot_name: "length buf = 512 \<Longrightarrow> j < 16 \<Longrightarrow> free_slot buf j \<longleftrightarrow> name (dir_entry_at buf j) ! 0 \<in> {0, 0xE5}"
  by (simp add: free_slot_def dir_entry_at_def)

lemma scan_new:
  assumes "\<forall>u \<in> set us. name (dir_entry_at buf u) ! 0 \<notin> {0, 0xE5} \<and> dir_entry_at buf' u = dir_entry_at buf u"
    and "\<forall>h. scan_entries skip n buf (us @ vs) \<noteq> Hit h"
  shows "scan_entries skip n buf' (us @ j # ws) = scan_entries skip n buf' (j # ws)"
  using assms by (induction us) (auto simp: Let_def split: if_splits)

lemma scan_no_free:
  assumes "\<forall>u \<in> set us. name (dir_entry_at buf u) ! 0 \<notin> {0, 0xE5}" and "\<forall>h. scan_entries skip n buf us \<noteq> Hit h"
  shows "scan_entries skip n buf us = Next_Sector"
  using assms by (induction us) (auto simp: Let_def split: if_splits)

lemma search_finds_new:
  assumes "dir_slot g is = Some (i, j)" and "dir_search skip n g is = None" and "distinct is"
    and "\<forall>k \<in> set is. length (g k) = 512"
    and "name_matches (dir_entry_at buf j) n" and "\<not> skip (dir_entry_at buf j)" and "name (dir_entry_at buf j) ! 0 \<notin> {0, 0xE5}"
    and "\<forall>u < 16. u \<noteq> j \<longrightarrow> dir_entry_at buf u = dir_entry_at (g i) u"
  shows "dir_search skip n (g(i := buf)) is = Some (i, j)"
  using assms
proof (induction "is")
  case (Cons k ks)
  have free: "free_slot (g k) u \<longleftrightarrow> name (dir_entry_at (g k) u) ! 0 \<in> {0, 0xE5}" if "u < 16" for u
    using that Cons.prems(4) by (simp add: free_slot_name)
  have no_hit: "\<forall>h. scan_entries skip n (g k) [0..<16] \<noteq> Hit h" using Cons.prems(2) by auto
  show ?case
  proof (cases "find (free_slot (g k)) [0..<16]")
    case None
    then have "scan_entries skip n (g k) [0..<16] = Next_Sector"
      using no_hit free by (intro scan_no_free) (auto simp: find_upt_None)
    moreover have "dir_slot g ks = Some (i, j)" using Cons.prems(1) None by simp
    moreover have "k \<noteq> i" using dir_slot_Some [OF \<open>dir_slot g ks = Some (i, j)\<close>] Cons.prems(3) by auto
    ultimately show ?thesis using Cons.IH Cons.prems by simp
  next
    case (Some h)
    with Cons.prems(1) have ij: "k = i" "h = j" by simp_all
    then have "j < 16" and before: "\<forall>u < j. \<not> free_slot (g k) u" using Some by (simp_all add: find_upt_Some)
    note ij = ij this(1)
    have split: "[0..<16] = [0..<j] @ j # [Suc j..<16]" using ij(3) by (metis le_add_diff_inverse less_imp_le_nat upt_add_eq_append upt_conv_Cons zero_le)
    have "scan_entries skip n buf ([0..<j] @ j # [Suc j..<16]) = scan_entries skip n buf (j # [Suc j..<16])"
      by (rule scan_new [where vs = "j # [Suc j..<16]" and buf = "g k"])
        (use before free ij Cons.prems(8) no_hit in \<open>simp_all add: split\<close>)
    then have "scan_entries skip n buf [0..<16] = Hit j" unfolding split using Cons.prems(5-7) by simp
    then show ?thesis using ij(1) by simp
  qed
qed simp

lemma create_loop_ok:
  assumes "fs_ok P ready content s" and "\<forall>i \<in> set is. i < unat (root_dir_sectors (fs s))"
  shows "\<exists>s'. create_loop P n is s = (case dir_slot (root_sectors content s) is of None \<Rightarrow> - 1 | Some _ \<Rightarrow> 0, s') \<and>
    fs_ok P ready content s' \<and> fs s' = fs s \<and>
    (\<forall>k < unat (root_dir_sectors (fs s)). root_sectors content s' k =
       (case dir_slot (root_sectors content s) is of
          None \<Rightarrow> root_sectors content s k
        | Some (i, j) \<Rightarrow> if k = i then store_at (root_sectors content s i) (32 * j) (new_entry n) else root_sectors content s k)) \<and>
    content (hw s') =
       (case dir_slot (root_sectors content s) is of
          None \<Rightarrow> content (hw s)
        | Some (i, j) \<Rightarrow> (content (hw s))(root_dir_start (fs s) + of_nat i := store_at (root_sectors content s i) (32 * j) (new_entry n)))"
  using assms
proof (induction "is" arbitrary: s)
  case (Cons i "is")
  note ok = fs_okD [OF Cons.prems(1)]
  let ?lba = "root_dir_start (fs s) + of_nat i"
  have lba: "lba28 ?lba" "in_root (fs s) ?lba" using root_lba [OF ok(3)] Cons.prems(2) by simp_all
  obtain s1 where s1: "read_buffer P ?lba s = (1, s1)" "working P ready content s1" "fs s1 = fs s"
    "sector_buffer s1 = content (hw s) ?lba" "content (hw s1) = content (hw s)" "fat_cache s1 = fat_cache s"
    "fat_cache_sector s1 = fat_cache_sector s"
    by (rule read_buffer_ok [OF ok(1) lba(1)])
  have s1_ok: "fs_ok P ready content s1" by (rule fs_ok_data_write(1) [OF Cons.prems(1) s1(2,3,6,7)]) (simp add: s1(5))
  have root: "root_sectors content s1 = root_sectors content s" using s1 by (simp add: root_sectors_def fun_eq_iff)
  have sb: "sector_buffer s1 = root_sectors content s i" using s1(4) by (simp add: root_sectors_def)
  show ?case
  proof (cases "find (free_slot (root_sectors content s i)) [0..<16]")
    case None
    then show ?thesis
      using Cons.IH [OF s1_ok, unfolded root s1(3,5)] Cons.prems(2) s1(1,3) sb by simp
  next
    case (Some j)
    then have j: "j < 16" by (simp add: find_upt_Some)
    let ?old = "content (hw s) ?lba" and ?buf = "store_at (content (hw s) ?lba) (32 * j) (new_entry n)"
    have len: "length ?old = 512" by (rule working_length [OF ok(1)])
    then have blen: "length ?buf = 512" using j by (simp add: length_new_entry)
    have w: "working P ready content (s1\<lparr>sector_buffer := ?buf\<rparr>)" using s1(2,4) len blen by simp
    obtain s' where s': "write_buffer P ?lba (s1\<lparr>sector_buffer := ?buf\<rparr>) = (1, s')" "working P ready content s'" "fs s' = fs s"
      "content (hw s') = (content (hw s))(?lba := ?buf)" "fat_cache s' = fat_cache s" "fat_cache_sector s' = fat_cache_sector s"
      by (rule write_buffer_ok [OF w lba(1)]) (use s1 in simp)
    have "link_ok (fs s) (cluster_lo (dir_entry_at ?buf k))" if "k < 16" for k
      using that ok(5) lba(2) dir_entry_at_store_other [OF len j that] new_entry_at(4) [OF len j]
      by (cases "k = j") (simp_all add: dir_ok_def link_zero)
    note keep = fs_ok_root_write(1) [OF Cons.prems(1) s'(2,3,5,6,4) lba(2) this]
    have "root_sectors content s' k = (if k = i then ?buf else root_sectors content s k)" if "k < unat (root_dir_sectors (fs s))" for k
      using root_lba_inj [OF ok(3) that, of i] Cons.prems(2) by (simp add: root_sectors_def s'(3,4))
    moreover have "?old = root_sectors content s i" by (simp add: root_sectors_def)
    ultimately show ?thesis using Some s1(1,3) sb s' keep by (intro exI [of _ s']) simp
  qed
qed simp

lemma create_file_ok:
  assumes "fs_ok P ready content s" and "mounted (fs s)"
  obtains s' where "fat16_create_file P n s =
      (if dir_search lfn_or_label n (root_sectors content s) (dir_range s) = None \<and> dir_slot (root_sectors content s) (dir_range s) \<noteq> None
       then 0 else - 1, s')"
    and "fs_ok P ready content s'" and "fs s' = fs s"
    and "\<And>i j k. dir_search lfn_or_label n (root_sectors content s) (dir_range s) = None \<Longrightarrow>
       dir_slot (root_sectors content s) (dir_range s) = Some (i, j) \<Longrightarrow> k < unat (root_dir_sectors (fs s)) \<Longrightarrow>
       root_sectors content s' k = (if k = i then store_at (root_sectors content s i) (32 * j) (new_entry n) else root_sectors content s k)"
    and "content (hw s') =
      (case dir_slot (root_sectors content s) (dir_range s) of
         None \<Rightarrow> content (hw s)
       | Some (i, j) \<Rightarrow>
           if dir_search lfn_or_label n (root_sectors content s) (dir_range s) = None
           then (content (hw s))(root_dir_start (fs s) + of_nat i := store_at (root_sectors content s i) (32 * j) (new_entry n))
           else content (hw s))"
proof -
  obtain s1 where s1: "fat16_find_file P n s =
      ((case dir_search lfn_or_label n (root_sectors content s) (dir_range s) of
          None \<Rightarrow> (- 1, None)
        | Some (i, j) \<Rightarrow> (0, Some (dir_entry_at (root_sectors content s i) j))), s1)"
    "fs_ok P ready content s1" "fs s1 = fs s" "content (hw s1) = content (hw s)"
    by (rule find_file_ok [OF assms])
  have root: "root_sectors content s1 = root_sectors content s" using s1 by (simp add: root_sectors_def fun_eq_iff)
  show thesis
  proof (cases "dir_search lfn_or_label n (root_sectors content s) (dir_range s)")
    case (Some x)
    then have "fat16_create_file P n s = (- 1, s1)" using assms(2) s1(1) by (simp add: fat16_create_file_def split: prod.splits)
    then show thesis using s1 Some by (intro that [of s1]) (simp_all split: option.split)
  next
    case None
    have "fat16_create_file P n s = create_loop P n (dir_range s) s1"
      using assms(2) s1(1,3) None by (simp add: fat16_create_file_def)
    then show thesis
      using create_loop_ok [OF s1(2), of "dir_range s" n] None unfolding root s1(3,4)
      by (cases "dir_slot (root_sectors content s) (dir_range s)") (auto intro: that)
  qed
qed

lemma create_keeps:
  assumes "fs_ok P ready content s" and "mounted (fs s)"
  shows "fs_ok P ready content (snd (fat16_create_file P n s)) \<and> fs (snd (fat16_create_file P n s)) = fs s"
  by (rule create_file_ok [OF assms, of n]) simp

lemma create_then_find:
  assumes "fs_ok P ready content s" and "mounted (fs s)" and "short_name n"
  shows "\<exists>s'. fat16_create_file P n s =
      (if fst (fat16_find_file P n s) = (- 1, None) \<and>
          (\<exists>i < unat (root_dir_sectors (fs s)). \<exists>j < 16. name (dir_entry_at (root_sectors content s i) j) ! 0 \<in> {0, 0xE5})
       then 0 else - 1, s') \<and> fs_ok P ready content s' \<and> fs s' = fs s \<and>
    (fst (fat16_create_file P n s) = - 1 \<longrightarrow> content (hw s') = content (hw s)) \<and>
    (fst (fat16_create_file P n s) = 0 \<longrightarrow>
      (\<exists>i < unat (root_dir_sectors (fs s)). \<exists>j < 16. \<exists>e.
        name (dir_entry_at (root_sectors content s i) j) ! 0 \<in> {0, 0xE5} \<and>
        dir_entry_at (root_sectors content s' i) j = e \<and> fst (fat16_find_file P n s') = (0, Some e) \<and>
        attr e = FAT_ATTR_ARCHIVE \<and> cluster_lo e = 0 \<and> file_size e = 0 \<and>
        (\<forall>k < 16. k \<noteq> j \<longrightarrow> dir_entry_at (root_sectors content s' i) k = dir_entry_at (root_sectors content s i) k) \<and>
        (\<forall>lba. lba \<noteq> root_dir_start (fs s) + of_nat i \<longrightarrow> content (hw s') lba = content (hw s) lba)))"
proof -
  let ?g = "root_sectors content s"
  have len: "length (?g k) = 512" for k unfolding root_sectors_def by (rule working_length [OF fs_okD(1) [OF assms(1)]])
  then have free: "free_slot (?g i) j \<longleftrightarrow> name (dir_entry_at (?g i) j) ! 0 \<in> {0, 0xE5}" if "j < 16" for i j
    using that by (simp add: free_slot_name)
  obtain s1 where s1: "fat16_find_file P n s =
      ((case dir_search lfn_or_label n ?g (dir_range s) of
          None \<Rightarrow> (- 1, None) | Some (i, j) \<Rightarrow> (0, Some (dir_entry_at (?g i) j))), s1)"
    by (rule find_file_ok [OF assms(1,2)])
  then have absent: "fst (fat16_find_file P n s) = (- 1, None) \<longleftrightarrow> dir_search lfn_or_label n ?g (dir_range s) = None"
    by (simp split: option.splits)
  obtain s' where s': "fat16_create_file P n s =
      (if dir_search lfn_or_label n ?g (dir_range s) = None \<and> dir_slot ?g (dir_range s) \<noteq> None then 0 else - 1, s')"
    "fs_ok P ready content s'" "fs s' = fs s"
    and content: "content (hw s') =
      (case dir_slot ?g (dir_range s) of
         None \<Rightarrow> content (hw s)
       | Some (i, j) \<Rightarrow>
           if dir_search lfn_or_label n ?g (dir_range s) = None
           then (content (hw s))(root_dir_start (fs s) + of_nat i := store_at (?g i) (32 * j) (new_entry n)) else content (hw s))"
    and new: "\<And>i j k. dir_search lfn_or_label n ?g (dir_range s) = None \<Longrightarrow> dir_slot ?g (dir_range s) = Some (i, j) \<Longrightarrow>
      k < unat (root_dir_sectors (fs s)) \<Longrightarrow> root_sectors content s' k = (if k = i then store_at (?g i) (32 * j) (new_entry n) else ?g k)"
    by (rule create_file_ok [OF assms(1,2), of n]) blast
  have room: "dir_slot ?g (dir_range s) \<noteq> None \<longleftrightarrow>
      (\<exists>i < unat (root_dir_sectors (fs s)). \<exists>j < 16. name (dir_entry_at (?g i) j) ! 0 \<in> {0, 0xE5})"
    using dir_slot_Some [of ?g "dir_range s"] dir_slot_None [of ?g "dir_range s"] free
    by (cases "dir_slot ?g (dir_range s)") (fastforce simp del: insert_iff)+
  have result: "fat16_create_file P n s =
      (if fst (fat16_find_file P n s) = (- 1, None) \<and>
          (\<exists>i < unat (root_dir_sectors (fs s)). \<exists>j < 16. name (dir_entry_at (?g i) j) ! 0 \<in> {0, 0xE5})
       then 0 else - 1, s')"
    unfolding absent room [symmetric] by (rule s'(1))
  show ?thesis
  proof (cases "dir_search lfn_or_label n ?g (dir_range s) = None \<and> dir_slot ?g (dir_range s) \<noteq> None")
    case False
    then have "content (hw s') = content (hw s)" unfolding content by (auto split: option.split)
    moreover have "fst (fat16_create_file P n s) = - 1" unfolding s'(1) using False by simp
    ultimately show ?thesis using s'(2,3) by (intro exI [of _ s'] conjI result) simp_all
  next
    case True
    then obtain i j where slot: "dir_slot ?g (dir_range s) = Some (i, j)" by auto
    then have ij: "i < unat (root_dir_sectors (fs s))" "j < 16" "free_slot (?g i) j" using dir_slot_Some [OF slot] by auto
    let ?buf = "store_at (?g i) (32 * j) (new_entry n)"
    note new_e = new_entry_at [OF len ij(2), of i n]
    have heads: "name_matches (dir_entry_at ?buf j) n" "name (dir_entry_at ?buf j) ! 0 \<notin> {0, 0xE5}"
      using short_name_matches [OF assms(3)] new_e(1,2) short_name_parts [OF assms(3)] by auto
    have "dir_search lfn_or_label n (?g(i := ?buf)) (dir_range s) = Some (i, j)"
      by (rule search_finds_new [OF slot])
        (use True len heads new_e(3) dir_entry_at_store_other [OF len ij(2)]
         in \<open>simp_all add: lfn_or_label_def FAT_ATTR_ARCHIVE_def FAT_ATTR_LFN_def FAT_ATTR_VOLUME_ID_def\<close>)
    moreover have "dir_search lfn_or_label n (root_sectors content s') (dir_range s') = dir_search lfn_or_label n (?g(i := ?buf)) (dir_range s)"
      unfolding s'(3) by (rule dir_search_cong) (use new [OF _ slot] True in auto)
    moreover have buf: "root_sectors content s' i = ?buf" using new [OF _ slot ij(1)] True by simp
    moreover have "mounted (fs s')" using assms(2) s'(3) by simp
    ultimately have found: "fst (fat16_find_file P n s') = (0, Some (dir_entry_at ?buf j))"
      using find_file_ok [OF s'(2), of n "fst (fat16_find_file P n s') = (0, Some (dir_entry_at ?buf j))"] by fastforce
    have r: "fst (fat16_create_file P n s) = 0" using True s'(1) by simp
    have others: "\<forall>k < 16. k \<noteq> j \<longrightarrow> dir_entry_at ?buf k = dir_entry_at (?g i) k" using dir_entry_at_store_other [OF len ij(2)] by simp
    have rest: "\<forall>lba. lba \<noteq> root_dir_start (fs s) + of_nat i \<longrightarrow> content (hw s') lba = content (hw s) lba"
      unfolding content using slot True by simp
    note entry = ij(3) [unfolded free [OF ij(2)]] buf found new_e(3-5) others rest
    show ?thesis
      apply (intro exI [of _ s'] conjI result s'(2,3))
       apply (simp add: r)
      apply (rule impI, rule exI [of _ i], rule conjI [OF ij(1)], rule exI [of _ j], rule conjI [OF ij(2)],
          rule exI [of _ "dir_entry_at ?buf j"])
      using entry by simp
  qed
qed

text \<open>The same as a choice of outcomes.\<close>

lemma create_outcome:
  assumes "fs_ok P ready content s" and "mounted (fs s)" and "short_name n"
  shows "\<exists>r s'. fat16_create_file P n s = (r, s') \<and> fs_ok P ready content s' \<and> fs s' = fs s \<and>
    (r = - 1 \<and> (fst (fst (fat16_find_file P n s)) = 0 \<or>
        (\<forall>i < unat (root_dir_sectors (fs s)). \<forall>j < 16. \<not> free_slot (root_sectors content s i) j)) \<or>
     r = 0 \<and> fst (fat16_find_file P n s) = (- 1, None) \<and>
       (\<exists>e. fst (fat16_find_file P n s') = (0, Some e) \<and> attr e = FAT_ATTR_ARCHIVE \<and> cluster_lo e = 0 \<and> file_size e = 0))"
proof -
  have free: "free_slot (root_sectors content s i) j \<longleftrightarrow> name (dir_entry_at (root_sectors content s i) j) ! 0 \<in> {0, 0xE5}" if "j < 16" for i j
    using that working_length [OF fs_okD(1) [OF assms(1)]] by (simp add: free_slot_name root_sectors_def)
  have found: "fst (fat16_find_file P n s) = (- 1, None) \<or> fst (fst (fat16_find_file P n s)) = 0"
    by (rule find_file_ok [OF assms(1,2), of n]) (simp split: option.split)
  from create_then_find [OF assms] free found show ?thesis by (auto split: if_splits)
qed

text \<open>
  C17. Create, then find. On a well-formed volume, creating a file whose name fits the 8.3 format returns 0
  exactly if no file is found under that name and some entry of the directory is free (its first name byte is 0
  or 0xE5), and -1 otherwise. A failure leaves every sector of the disk as it was. A success fills one entry that was free:
  the file is then found under its name with that entry, an empty plain file, and every other entry of the directory and
  every other sector of the disk is unchanged. The volume stays well-formed either way.
\<close>

theorem fat16_create_finds:
  assumes "fs_ok P ready content s" and "mounted (fs s)" and "short_name n"
  shows "\<exists>s'. fat16_create_file P n s =
      (if fst (fat16_find_file P n s) = (- 1, None) \<and>
          (\<exists>i < unat (root_dir_sectors (fs s)). \<exists>j < 16. name (dir_entry_at (root_sectors content s i) j) ! 0 \<in> {0, 0xE5})
       then 0 else - 1, s') \<and> fs_ok P ready content s' \<and> fs s' = fs s \<and>
    (fst (fat16_create_file P n s) = - 1 \<longrightarrow> content (hw s') = content (hw s)) \<and>
    (fst (fat16_create_file P n s) = 0 \<longrightarrow>
      (\<exists>i < unat (root_dir_sectors (fs s)). \<exists>j < 16. \<exists>e.
        name (dir_entry_at (root_sectors content s i) j) ! 0 \<in> {0, 0xE5} \<and>
        dir_entry_at (root_sectors content s' i) j = e \<and> fst (fat16_find_file P n s') = (0, Some e) \<and>
        attr e = FAT_ATTR_ARCHIVE \<and> cluster_lo e = 0 \<and> file_size e = 0 \<and>
        (\<forall>k < 16. k \<noteq> j \<longrightarrow> dir_entry_at (root_sectors content s' i) k = dir_entry_at (root_sectors content s i) k) \<and>
        (\<forall>lba. lba \<noteq> root_dir_start (fs s) + of_nat i \<longrightarrow> content (hw s') lba = content (hw s) lba)))"
  by (rule create_then_find [OF assms])

lemma demo_absent: "fst (fat16_find_file sim_ports [0x63] demo) = (- 1, None)"
proof -
  have e: "[0..<16] = 0 # 1 # 2 # [Suc 2..<16]" by (simp add: upt_rec)
  have n: "name (dir_entry_at demo_root 0) = 0x41 # replicate 7 0x20" "name (dir_entry_at demo_root 1) = 0x42 # replicate 7 0x20"
    "name (dir_entry_at demo_root 2) ! 0 = 0"
    using demo_root_entries(6) [of 2] by (simp_all add: dir_entry_at_def demo_root_def)
  then have "\<not> name_matches (dir_entry_at demo_root 0) [0x63]" "\<not> name_matches (dir_entry_at demo_root 1) [0x63]"
    by (simp_all add: name_matches_def Let_def upper_def entry_name_def dir_entry_at_def demo_root_def)
  then have "scan_entries lfn_or_label [0x63] demo_root [0..<16] = End_Of_Dir"
    using n demo_plain unfolding e by simp
  then have "dir_search lfn_or_label [0x63] (root_sectors store demo) (dir_range demo) = None"
    by (simp add: demo_root_sector)
  then show ?thesis by - (rule find_file_ok [OF demo_ok demo_mounted, of "[0x63]"], simp)
qed

theorem fat16_create_finds_witness:
  "\<exists>s' e. fat16_create_file sim_ports [0x63] demo = (0, s') \<and> fst (fat16_find_file sim_ports [0x63] s') = (0, Some e) \<and> file_size e = 0"
proof -
  have "short_name [0x63]" by (simp add: short_name_def base_part_def ext_part_def)
  moreover have "0 < unat (root_dir_sectors (fs demo))" by (simp add: demo_def demo_fs_def)
  moreover have "name (dir_entry_at (root_sectors store demo 0) 2) ! 0 \<in> {0, 0xE5}"
    using demo_root_entries(6) [of 2] by (simp add: demo_root_sector(1))
  then have "\<exists>j < 16. name (dir_entry_at (root_sectors store demo 0) j) ! 0 \<in> {0, 0xE5}" by (intro exI [of _ 2]) simp
  ultimately have room: "\<exists>i < unat (root_dir_sectors (fs demo)). \<exists>j < 16. name (dir_entry_at (root_sectors store demo i) j) ! 0 \<in> {0, 0xE5}"
    by blast
  from \<open>short_name [0x63]\<close> fat16_create_finds [OF demo_ok demo_mounted, of "[0x63]"] demo_absent room show ?thesis
    by (simp del: insert_iff) (metis fst_conv)
qed

end
