(* ===== verification/Fat16_Format.thy ===== *)
theory Fat16_Format
  imports Fat16_Create
begin

text \<open>
  Formatting a drive and mounting it: the sectors the format writes, and that the mounted volume is
  well-formed and empty.
\<close>

section \<open>Writing many sectors\<close>

definition drive_ok :: "'d ports \<Rightarrow> int \<Rightarrow> ('d \<Rightarrow> bool) \<Rightarrow> ('d \<Rightarrow> u32 \<Rightarrow> u8 list) \<Rightarrow> ('d, 'z) fat16_scheme \<Rightarrow> bool" where
  "drive_ok P drive ready content s \<longleftrightarrow>
     disk_contract P drive ready content \<and> ready (hw s) \<and> ata_drive_present drive s \<and> length (sector_buffer s) = 512"

text \<open>The driver as the format uses it, on a drive that need not be the mounted one.\<close>

interpretation raw_io: sector_writer "\<lambda>lba s. ata_write_sectors P drive lba 1 (sector_buffer s) s" "drive_ok P drive ready content"
  "\<lambda>s s'. \<exists>d. s' = s\<lparr>hw := d\<rparr>" sector_buffer "\<lambda>s. content (hw s)" lba28
  for P drive ready content
proof (unfold_locales, goal_cases)
  case (1 s a)
  then have d: "disk_contract P drive ready content" "ready (hw s)" "ata_drive_present drive s" "length (sector_buffer s) = 512"
    by (simp_all add: drive_ok_def)
  show ?case
    by (rule ata_write_one [OF d(1-3) 1(2) d(4)]) (use d in \<open>auto simp: drive_ok_def ata_drive_present_def\<close>)
next
  case (2 s)
  show ?case by (intro exI [of _ "hw s"]) simp
qed auto

lemma write_all_ok:
  assumes "disk_contract P drive ready content" and "ready (hw s)" and "ata_drive_present drive s"
    and "length (sector_buffer s) = 512" and "\<forall>lba \<in> set lbas. lba28 lba"
  shows "\<exists>d. write_all P drive lbas s = (True, s\<lparr>hw := d\<rparr>) \<and> ready d \<and> content d = overlay (set lbas) (sector_buffer s) (content (hw s))"
proof -
  have "drive_ok P drive ready content s" using assms(1-4) by (simp add: drive_ok_def)
  from raw_io.write_seq_ok [OF this assms(5)] show ?thesis by (auto simp: write_all_def drive_ok_def)
qed

section \<open>The sizes\<close>

lemma format_numbers:
  assumes "8192 \<le> unat sectors" and "unat (format_clusters sectors) < 65525"
  defines "fz \<equiv> unat (format_fat_size sectors)"
  shows "unat sectors < 2 ^ 19" and "fz = ((unat sectors - 33) div 4 * 2 + 511) div 512"
    and "unat (format_clusters sectors) = (unat sectors - 33 - 2 * fz) div 4" and "33 + 2 * fz \<le> unat sectors"
proof -
  let ?S = "unat sectors"
  have S: "?S < 2 ^ 32" using unsigned_less [of sectors, where ?'a = nat] by simp
  have a: "unat (sectors - 1 - 32) = ?S - 33"
    using assms(1) by (simp add: unat_sub_no_wrap)
  have fzb: "fz < 65536" unfolding fz_def by (rule unat_u16)
  have b: "unat (2 * ucast (format_fat_size sectors) :: u32) = 2 * fz"
    using fzb by (simp add: unat_word_ariths unsigned_ucast_eq take_bit_nat_eq_self fz_def)
  show S19: "?S < 2 ^ 19"
  proof (rule ccontr)
    assume "\<not> ?S < 2 ^ 19"
    then have "unat (sectors - 1 - 2 * ucast (format_fat_size sectors) - 32) = ?S - 33 - 2 * fz"
      using fzb b by (simp add: unat_sub_no_wrap)
    then have "unat (format_clusters sectors) = (?S - 33 - 2 * fz) div 4" by (simp add: format_clusters_def unat_div)
    then show False using assms(2) \<open>\<not> ?S < 2 ^ 19\<close> fzb by simp
  qed
  have "unat ((sectors - 1 - 32) div 4 * 2 + 511) = (?S - 33) div 4 * 2 + 511"
    using S19 a by (simp add: unat_word_ariths unat_div)
  then have c: "unat (((sectors - 1 - 32) div 4 * 2 + 511) div 512) = ((?S - 33) div 4 * 2 + 511) div 512"
    by (simp add: unat_div)
  show fz: "fz = ((?S - 33) div 4 * 2 + 511) div 512"
    unfolding fz_def format_fat_size_def using c S19 by (simp add: unsigned_ucast_eq take_bit_nat_eq_self)
  show le: "33 + 2 * fz \<le> ?S" using fz assms(1) by simp
  have "unat (sectors - 1 - 2 * ucast (format_fat_size sectors) - 32) = ?S - 33 - 2 * fz"
    using le b by (simp add: unat_sub_no_wrap)
  then show "unat (format_clusters sectors) = (?S - 33 - 2 * fz) div 4" by (simp add: format_clusters_def unat_div)
qed

lemma format_fat_size_bounds:
  assumes "8192 \<le> unat sectors" and "unat (format_clusters sectors) < 65525"
  shows "unat (format_fat_size sectors) < 2000" and "0 < unat (format_fat_size sectors)"
  using format_numbers(1,2) [OF assms] assms(1) by simp_all

text \<open>The table has an entry for each cluster.\<close>

lemma format_table_size:
  fixes S fz c :: nat
  assumes "fz = ((S - 33) div 4 * 2 + 511) div 512" and "c = (S - 33 - 2 * fz) div 4" and "4085 \<le> c"
  shows "c + 2 \<le> 256 * fz"
proof -
  define X where "X = (S - 33) div 4"
  have "4 * c \<le> S - 33 - 2 * fz" unfolding assms(2) by simp
  moreover have "S - 33 \<le> 4 * X + 3" unfolding X_def by simp
  moreover have "2 * X \<le> 512 * fz" unfolding assms(1) X_def [symmetric] by simp
  moreover have "8 \<le> fz" using calculation assms(3) by linarith
  ultimately show ?thesis using assms(3) by linarith
qed

section \<open>The boot sector\<close>

lemma rd16_Cons: "0 < n \<Longrightarrow> rd16 (x # xs) n = rd16 xs (n - 1)"
  by (cases n) (simp_all add: rd16_def)

lemma rd32_Cons: "0 < n \<Longrightarrow> rd32 (x # xs) n = rd32 xs (n - 1)"
  by (cases n) (simp_all add: rd32_def add.commute)

lemma rd16_skip: "length as \<le> n \<Longrightarrow> rd16 (as @ bs) n = rd16 bs (n - length as)"
  using rd16_append [of as bs "n - length as"] by simp

lemma rd32_skip: "length as \<le> n \<Longrightarrow> rd32 (as @ bs) n = rd32 bs (n - length as)"
  using rd32_append [of as bs "n - length as"] by simp

lemma length_label_bytes: "length (label_bytes l) = 11"
  by (cases l) (simp_all add: label_bytes_def length_padded)

lemma length_boot_sector: "length (boot_sector sectors l) = 512"
  by (simp add: boot_sector_def length_label_bytes)

lemma boot_sector_fields:
  "rd16 (boot_sector sectors l) 11 = 512" "boot_sector sectors l ! 13 = 4" "rd16 (boot_sector sectors l) 14 = 1"
  "boot_sector sectors l ! 16 = 2" "rd16 (boot_sector sectors l) 17 = 512"
  "rd16 (boot_sector sectors l) 19 = (if sectors \<le> 65535 then ucast sectors else 0)"
  "rd16 (boot_sector sectors l) 22 = format_fat_size sectors"
  "rd32 (boot_sector sectors l) 32 = (if 65535 < sectors then sectors else 0)"
  "boot_sector sectors l ! 510 = 0x55" "boot_sector sectors l ! 511 = 0xAA"
  by (simp_all add: boot_sector_def rd16_Cons rd16_skip rd16_le16 rd32_Cons rd32_skip rd32_le32 nth_append length_label_bytes)

lemma boot_total:
  assumes "8192 \<le> unat sectors"
  shows "total_sectors (bpb_values (boot_sector sectors l) f) = sectors"
proof (cases "sectors \<le> 65535")
  case True
  then have "unat (ucast sectors :: u16) = unat sectors"
    by (simp add: unsigned_ucast_eq take_bit_nat_eq_self word_le_nat_alt)
  moreover from this have "(ucast sectors :: u16) \<noteq> 0" using assms by (auto simp: word_unat_eq_iff)
  moreover have "unat (ucast (w :: u16) :: u32) = unat w" for w
    using unat_u16 [of w] by (simp add: unsigned_ucast_eq take_bit_nat_eq_self)
  from this [of "ucast sectors"] calculation(1) have "(ucast (ucast sectors :: u16) :: u32) = sectors"
    by (metis word_unat_eq_iff)
  ultimately show ?thesis using True by (simp add: bpb_values_def boot_sector_fields)
next
  case False
  then show ?thesis using linorder_not_le [of sectors 65535] by (simp add: bpb_values_def boot_sector_fields)
qed

section \<open>The formatted disk\<close>

definition empty_fat :: "u8 list" where
  "empty_fat = le16 0xFFF8 @ le16 0xFFFF @ replicate 508 0"

definition zeros :: "u8 list" where
  "zeros = replicate 512 0"

definition root_image :: "u8 list option \<Rightarrow> u8 list" where
  "root_image label = (case label of None \<Rightarrow> zeros | Some l \<Rightarrow> label_entry l zeros)"

lemma label_padded: "length (padded 8 (map upper (take 11 l))) \<le> 11"
  by (simp add: padded_def)

lemma length_label_entry: "length buf = 512 \<Longrightarrow> length (label_entry l buf) = 512"
  using label_padded [of l] by (simp add: label_entry_def Let_def)

lemma nth_label_entry: "length buf = 512 \<Longrightarrow> 32 \<le> k \<Longrightarrow> k < 512 \<Longrightarrow> label_entry l buf ! k = buf ! k"
  "length buf = 512 \<Longrightarrow> 12 \<le> k \<Longrightarrow> k < 32 \<Longrightarrow> label_entry l buf ! k = 0"
  "length buf = 512 \<Longrightarrow> label_entry l buf ! 11 = FAT_ATTR_VOLUME_ID"
  using label_padded [of l] by (simp_all add: label_entry_def Let_def nth_store_at)

lemma length_root_image: "length (root_image label) = 512"
  by (cases label) (simp_all add: root_image_def zeros_def length_label_entry)

text \<open>The contents after a format, as far as the volume's management area reaches.\<close>

definition formatted :: "u32 \<Rightarrow> u8 list option \<Rightarrow> (u32 \<Rightarrow> u8 list) \<Rightarrow> bool" where
  "formatted sectors label m \<longleftrightarrow>
     m 0 = boot_sector sectors label \<and> m 1 = empty_fat \<and>
     m (1 + 2 * ucast (format_fat_size sectors)) = root_image label \<and>
     (\<forall>lba. 2 \<le> unat lba \<longrightarrow> unat lba < 33 + 2 * unat (format_fat_size sectors) \<longrightarrow>
        lba \<noteq> 1 + 2 * ucast (format_fat_size sectors) \<longrightarrow> m lba = zeros)"

lemma format_fats_ok:
  assumes "disk_contract P drive ready content" and "ready (hw s)" and "ata_drive_present drive s"
    and "length (sector_buffer s) = 512" and "\<And>f k. f < 2 \<Longrightarrow> k < unat fz \<Longrightarrow> lba28 (1 + of_nat f * ucast fz + of_nat k)"
    and "0 < unat fz"
  shows "\<exists>d. format_fats P drive fz [0, 1] s = (True, s\<lparr>sector_buffer := zeros, hw := d\<rparr>) \<and> ready d \<and>
    content d = overlay ((\<lambda>k. 1 + ucast fz + of_nat k) ` {1..<unat fz}) zeros (overlay {1 + ucast fz} zeros
      (overlay ((\<lambda>k. 1 + of_nat k) ` {1..<unat fz}) zeros (overlay {1} (sector_buffer s) (content (hw s)))))"
proof -
  have l0: "lba28 (1 + of_nat k)" if "k < unat fz" for k using assms(5) [of 0 k] that by simp
  have l1: "lba28 (1 + ucast fz + of_nat k)" if "k < unat fz" for k using assms(5) [of 1 k] that by simp
  obtain d1 where d1: "write_all P drive [1] s = (True, s\<lparr>hw := d1\<rparr>)" "ready d1"
    "content d1 = overlay {1} (sector_buffer s) (content (hw s))"
    using write_all_ok [OF assms(1-4), of "[1]"] l0 [of 0] assms(6) by auto
  let ?s1 = "s\<lparr>hw := d1, sector_buffer := zeros\<rparr>"
  obtain d2 where d2: "write_all P drive (map (\<lambda>k. 1 + of_nat k) [1..<unat fz]) ?s1 = (True, ?s1\<lparr>hw := d2\<rparr>)" "ready d2"
    "content d2 = overlay ((\<lambda>k. 1 + of_nat k) ` {1..<unat fz}) zeros (content d1)"
    using write_all_ok [OF assms(1), of ?s1 "map (\<lambda>k. 1 + of_nat k) [1..<unat fz]"] d1(2) assms(3) l0
    by (auto simp: ata_drive_present_def zeros_def)
  let ?s2 = "s\<lparr>sector_buffer := zeros, hw := d2\<rparr>"
  obtain d3 where d3: "write_all P drive [1 + ucast fz] ?s2 = (True, ?s2\<lparr>hw := d3\<rparr>)" "ready d3"
    "content d3 = overlay {1 + ucast fz} zeros (content d2)"
    using write_all_ok [OF assms(1), of ?s2 "[1 + ucast fz]"] d2(2) assms(3) l1 [of 0] assms(6)
    by (auto simp: ata_drive_present_def zeros_def)
  let ?s3 = "s\<lparr>hw := d3, sector_buffer := zeros\<rparr>"
  obtain d4 where d4: "write_all P drive (map (\<lambda>k. 1 + ucast fz + of_nat k) [1..<unat fz]) ?s3 = (True, ?s3\<lparr>hw := d4\<rparr>)" "ready d4"
    "content d4 = overlay ((\<lambda>k. 1 + ucast fz + of_nat k) ` {1..<unat fz}) zeros (content d3)"
    using write_all_ok [OF assms(1), of ?s3 "map (\<lambda>k. 1 + ucast fz + of_nat k) [1..<unat fz]"] d3(2) assms(3) l1
    by (auto simp: ata_drive_present_def zeros_def)
  have "format_fats P drive fz [0, 1] s = (True, s\<lparr>sector_buffer := zeros, hw := d4\<rparr>)"
    using d1(1) d2(1) d3(1) d4(1) by (simp add: Let_def zeros_def)
  then show ?thesis using d1 d2 d3 d4 by auto
qed

lemma unat_small_lba:
  assumes "unat (fz :: u16) < 2000" and "k < 2000" and "f \<le> 2"
  shows "unat (1 + of_nat f * ucast fz + of_nat k :: u32) = 1 + f * unat fz + k"
proof -
  have f: "f * unat fz \<le> 2 * 2000" using assms by (intro mult_le_mono) simp_all
  have "unat (of_nat f * ucast fz :: u32) = f * unat fz"
    using assms f by (simp add: unat_word_ariths unsigned_ucast_eq take_bit_nat_eq_self unat_of_nat)
  then show ?thesis using assms(2) f by (simp add: unat_word_ariths unat_of_nat)
qed

lemma overlay_same: "m a = x \<Longrightarrow> overlay {a} x m = m"
  by (auto simp: overlay_def)

text \<open>The layers of sectors that a format writes one over the other.\<close>

definition format_layers :: "u32 \<Rightarrow> u8 list option \<Rightarrow> (u32 \<Rightarrow> u8 list) \<Rightarrow> u32 \<Rightarrow> u8 list" where
  "format_layers sectors label m =
     (let fz = format_fat_size sectors; root = 1 + 2 * ucast fz
      in overlay {root} (root_image label) (overlay ((\<lambda>k. root + of_nat k) ` {0..<32}) zeros
         (overlay ((\<lambda>k. 1 + ucast fz + of_nat k) ` {1..<unat fz}) zeros (overlay {1 + ucast fz} zeros
         (overlay ((\<lambda>k. 1 + of_nat k) ` {1..<unat fz}) zeros (overlay {1} empty_fat
         (overlay {0} (boot_sector sectors label) m)))))))"

lemma formatted_layers:
  assumes "unat (format_fat_size sectors) < 2000" and "0 < unat (format_fat_size sectors)"
  shows "formatted sectors label (format_layers sectors label m)"
proof -
  let ?fz = "format_fat_size sectors"
  let ?n = "unat ?fz" and ?root = "1 + 2 * ucast ?fz :: u32"
  note addr = unat_small_lba [OF assms(1)]
  have a0: "unat (1 + of_nat k :: u32) = 1 + k" if "k < 2000" for k using addr [OF that, of 0] by simp
  have a1: "unat (1 + ucast ?fz + of_nat k :: u32) = 1 + ?n + k" if "k < 2000" for k using addr [OF that, of 1] by simp
  have a2: "unat (?root + of_nat k :: u32) = 1 + 2 * ?n + k" if "k < 2000" for k using addr [OF that, of 2] by simp
  have root: "unat ?root = 1 + 2 * ?n" "unat (1 + ucast ?fz :: u32) = 1 + ?n" using a2 [of 0] a1 [of 0] by simp_all
  have low: "format_layers sectors label m a = (if a = 0 then boot_sector sectors label else empty_fat)" if "unat a < 2" for a
  proof -
    have a: "a = 0 \<or> a = 1" using that by (auto simp: word_unat_eq_iff)
    have "a \<noteq> ?root" "a \<noteq> 1 + ucast ?fz" using that root assms(2) by auto
    moreover have "a \<notin> (\<lambda>k. ?root + of_nat k) ` {0..<32}" using that a2 assms(2) by fastforce
    moreover have "a \<notin> (\<lambda>k. 1 + ucast ?fz + of_nat k) ` {1..<?n}" using that a1 assms by fastforce
    moreover have "a \<notin> (\<lambda>k. 1 + of_nat k) ` {1..<?n}" using that a0 assms(1) by fastforce
    ultimately show ?thesis using a by (auto simp: format_layers_def Let_def overlay_def)
  qed
  have high: "format_layers sectors label m a = zeros" if u: "2 \<le> unat a" "unat a < 33 + 2 * ?n" "a \<noteq> ?root" for a
  proof -
    have m0: "a \<in> (\<lambda>k. 1 + of_nat k) ` {1..<?n}" if "unat a < 1 + ?n"
      by (rule image_eqI [of _ _ "unat a - 1"]) (use that u assms a0 [of "unat a - 1"] in \<open>auto simp: word_unat_eq_iff\<close>)
    have m1: "a = 1 + ucast ?fz" if "unat a = 1 + ?n" using that root by (simp add: word_unat_eq_iff)
    have m2: "a \<in> (\<lambda>k. 1 + ucast ?fz + of_nat k) ` {1..<?n}" if "1 + ?n < unat a" "unat a < 1 + 2 * ?n"
      by (rule image_eqI [of _ _ "unat a - 1 - ?n"]) (use that assms a1 [of "unat a - 1 - ?n"] in \<open>auto simp: word_unat_eq_iff\<close>)
    have m3: "a \<in> (\<lambda>k. ?root + of_nat k) ` {0..<32}" if "1 + 2 * ?n \<le> unat a"
      by (rule image_eqI [of _ _ "unat a - 1 - 2 * ?n"]) (use that u a2 [of "unat a - 1 - 2 * ?n"] in \<open>simp_all add: word_unat_eq_iff\<close>)
    have ne: "a \<noteq> 0" "a \<noteq> 1" using u(1) by auto
    consider "unat a < 1 + ?n" | "unat a = 1 + ?n" | "1 + ?n < unat a" "unat a < 1 + 2 * ?n" | "1 + 2 * ?n \<le> unat a" by linarith
    then show ?thesis
      by cases (use m0 m1 m2 m3 u(3) ne in \<open>simp_all add: format_layers_def Let_def overlay_def\<close>)
  qed
  show ?thesis unfolding formatted_def using low [of 0] low [of 1] high by (simp add: format_layers_def Let_def overlay_def)
qed

lemma fat16_format_ok:
  assumes "disk_contract P drive ready content" and "ready (hw s)" and "ata_drive_present drive s"
    and "sectors = size_sectors (drives s ! nat drive)" and "8192 \<le> unat sectors"
    and "4085 \<le> unat (format_clusters sectors)" and "unat (format_clusters sectors) < 65525"
  obtains s' where "fat16_format P drive label s = (0, s')" and "ready (hw s')" and "drives s' = drives s"
    and "fs s' = fs s" and "fat_cache s' = fat_cache s" and "length (sector_buffer s') = 512"
    and "formatted sectors label (content (hw s'))"
proof -
  let ?fz = "format_fat_size sectors"
  let ?root = "1 + 2 * ucast ?fz :: u32"
  note num = format_numbers [OF assms(5,7)]
  note fz = format_fat_size_bounds [OF assms(5,7)]
  note addr = unat_small_lba [OF fz(1)]
  have lba: "lba28 (1 + of_nat f * ucast ?fz + of_nat k)" if "f \<le> 2" "k < 2000" for f k
    using addr [OF that(2,1)] that fz(1) mult_le_mono [OF that(1) less_imp_le [OF fz(1)]] by (simp add: lba28_iff)
  let ?s0 = "s\<lparr>sector_buffer := boot_sector sectors label\<rparr>"
  obtain d1 where d1: "write_all P drive [0] ?s0 = (True, ?s0\<lparr>hw := d1\<rparr>)" "ready d1"
    "content d1 = overlay {0} (boot_sector sectors label) (content (hw s))"
    using write_all_ok [OF assms(1), of ?s0 "[0]"] assms(2,3) by (auto simp: ata_drive_present_def length_boot_sector lba28_iff)
  let ?s1 = "s\<lparr>hw := d1, sector_buffer := empty_fat\<rparr>"
  have "\<exists>d. format_fats P drive ?fz [0, 1] ?s1 = (True, ?s1\<lparr>sector_buffer := zeros, hw := d\<rparr>) \<and> ready d \<and>
    content d = overlay ((\<lambda>k. 1 + ucast ?fz + of_nat k) ` {1..<unat ?fz}) zeros (overlay {1 + ucast ?fz} zeros
      (overlay ((\<lambda>k. 1 + of_nat k) ` {1..<unat ?fz}) zeros (overlay {1} (sector_buffer ?s1) (content (hw ?s1)))))"
    by (rule format_fats_ok [OF assms(1)]) (use assms(3) d1(2) lba fz in \<open>simp_all add: ata_drive_present_def empty_fat_def\<close>)
  then obtain d2 where d2: "format_fats P drive ?fz [0, 1] ?s1 = (True, s\<lparr>sector_buffer := zeros, hw := d2\<rparr>)" "ready d2"
    "content d2 = overlay ((\<lambda>k. 1 + ucast ?fz + of_nat k) ` {1..<unat ?fz}) zeros (overlay {1 + ucast ?fz} zeros
      (overlay ((\<lambda>k. 1 + of_nat k) ` {1..<unat ?fz}) zeros (overlay {1} empty_fat (content d1))))" by auto
  let ?s2 = "s\<lparr>hw := d2, sector_buffer := zeros\<rparr>"
  obtain d3 where d3: "write_all P drive (map (\<lambda>k. ?root + of_nat k) [0..<32]) ?s2 = (True, s\<lparr>sector_buffer := zeros, hw := d3\<rparr>)" "ready d3"
    "content d3 = overlay ((\<lambda>k. ?root + of_nat k) ` {0..<32}) zeros (content d2)"
    using write_all_ok [OF assms(1), of ?s2 "map (\<lambda>k. ?root + of_nat k) [0..<32]"] d2(2) assms(3) lba [of 2]
    by (auto simp: ata_drive_present_def zeros_def)
  have layers: "overlay {?root} (root_image label) (content d3) = format_layers sectors label (content (hw s))"
    by (simp only: format_layers_def Let_def d3(3) d2(3) d1(3))
  have start: "ata_get_drive_info drive s = Some (drives s ! nat drive)" "\<not> sectors < 8192"
    "\<not> (format_clusters sectors < 4085 \<or> 65525 \<le> format_clusters sectors)"
    using assms(3,5-7) by (auto simp: ata_drive_present_def ata_get_drive_info_def word_less_nat_alt word_le_nat_alt)
  have run: "fat16_format P drive label s = (case label of
      None \<Rightarrow> (0, s\<lparr>sector_buffer := zeros, hw := d3\<rparr>)
    | Some l \<Rightarrow> (case write_all P drive [?root] (s\<lparr>hw := d3, sector_buffer := label_entry l zeros\<rparr>) of
        (ok, s) \<Rightarrow> (if \<not> ok then - 1 else 0, s)))"
    using d1(1) d2(1) d3(1) unfolding empty_fat_def zeros_def
    by (simp add: fat16_format_def start assms(3) assms(4) [symmetric] Let_def  del: format_fats.simps split: option.split)
  have "\<exists>s'. fat16_format P drive label s = (0, s') \<and> ready (hw s') \<and> drives s' = drives s \<and> fs s' = fs s \<and>
      fat_cache s' = fat_cache s \<and> length (sector_buffer s') = 512 \<and> content (hw s') = format_layers sectors label (content (hw s))"
  proof (cases label)
    case None
    have "content d3 ?root = zeros" by (auto simp: d3(3) overlay_def intro!: image_eqI [of _ _ 0])
    then have "overlay {?root} (root_image label) (content d3) = content d3" using None by (simp add: overlay_same root_image_def)
    moreover have "fat16_format P drive label s = (0, s\<lparr>sector_buffer := zeros, hw := d3\<rparr>)"
      unfolding run using None by simp
    ultimately show ?thesis using d3(2) layers by (simp add: zeros_def)
  next
    case (Some l)
    let ?s3 = "s\<lparr>hw := d3, sector_buffer := root_image label\<rparr>"
    obtain d4 where d4: "write_all P drive [?root] ?s3 = (True, ?s3\<lparr>hw := d4\<rparr>)" "ready d4"
      "content d4 = overlay {?root} (root_image label) (content d3)"
      using write_all_ok [OF assms(1), of ?s3 "[?root]"] d3(2) assms(3) lba [of 2 0] by (auto simp: ata_drive_present_def length_root_image)
    then have "fat16_format P drive label s = (0, ?s3\<lparr>hw := d4\<rparr>)"
      unfolding run using Some by (simp add: root_image_def)
    then show ?thesis using d4 layers by (simp add: length_root_image)
  qed
  then show thesis using formatted_layers [OF fz] that by metis
qed

section \<open>Mounting a formatted disk\<close>

text \<open>The description of the volume that mounting reads from the boot sector of a format.\<close>

definition format_fs :: "u32 \<Rightarrow> int \<Rightarrow> fat16_fs_t" where
  "format_fs sectors drive =
     \<lparr>mounted = True, fs_drive = drive, bytes_per_sector = 512, sectors_per_cluster = 4, reserved_sectors = 1, num_fats = 2,
      root_entry_count = 512, fat_size = format_fat_size sectors, total_sectors = sectors, fat_start_sector = 1,
      root_dir_start = 1 + 2 * ucast (format_fat_size sectors), root_dir_sectors = 32,
      data_start_sector = 1 + 2 * ucast (format_fat_size sectors) + 32, total_clusters = format_clusters sectors\<rparr>"

lemma format_geometry:
  assumes "8192 \<le> unat sectors" and "4085 \<le> unat (format_clusters sectors)" and "unat (format_clusters sectors) < 65525"
  shows "geometry (format_fs sectors drive)"
    and "unat (root_dir_start (format_fs sectors drive)) = 1 + 2 * unat (format_fat_size sectors)"
proof -
  note num = format_numbers [OF assms(1,3)]
  note fz = format_fat_size_bounds(1) [OF assms(1,3)]
  have a: "unat (1 + 2 * ucast (format_fat_size sectors) :: u32) = 1 + 2 * unat (format_fat_size sectors)"
    using unat_small_lba [OF fz, of 0 2] by simp
  have b: "unat (1 + 2 * ucast (format_fat_size sectors) + 32 :: u32) = 33 + 2 * unat (format_fat_size sectors)"
    using unat_small_lba [OF fz, of 32 2] by simp
  show "unat (root_dir_start (format_fs sectors drive)) = 1 + 2 * unat (format_fat_size sectors)" by (simp add: format_fs_def a)
  have "unat (format_clusters sectors) + 2 \<le> 256 * unat (format_fat_size sectors)"
    by (rule format_table_size [OF num(2,3) assms(2)])
  moreover have "33 + 2 * unat (format_fat_size sectors) + unat (format_clusters sectors) * 4 \<le> 2 ^ 28"
    using assms(3) fz by simp
  ultimately show "geometry (format_fs sectors drive)"
    unfolding geometry_def using assms(3) a b by (simp add: format_fs_def)
qed

lemma mount_formatted:
  assumes "disk_contract P drive ready content" and "ready (hw s)" and "ata_drive_present drive s"
    and "length (sector_buffer s) = 512" and "length (fat_cache s) = 256" and "8192 \<le> unat sectors"
    and "4085 \<le> unat (format_clusters sectors)" and "unat (format_clusters sectors) < 65525"
    and "formatted sectors label (content (hw s))"
  obtains s' where "fat16_mount P drive s = Some (0, s')" and "working P ready content s'" and "fat_cache_sector s' = NO_SECTOR"
    and "fs s' = format_fs sectors drive" and "content (hw s') = content (hw s)"
proof -
  define t where "t = (if mounted (fs s) then fat16_unmount s else s)"
  let ?t = "t\<lparr>fs := (fs t)\<lparr>fs_drive := drive\<rparr>\<rparr>"
  have t: "hw t = hw s" "drives t = drives s" "sector_buffer t = sector_buffer s" "fat_cache t = fat_cache s"
    by (simp_all add: t_def fat16_unmount_def)
  have w: "working P ready content ?t"
    using assms(1-5) by (simp add: working_def t ata_drive_present_def)
  obtain s1 where s1: "read_buffer P 0 ?t = (1, s1)" "working P ready content s1" "fs s1 = fs ?t"
    "sector_buffer s1 = boot_sector sectors label" "content (hw s1) = content (hw s)"
    by (rule read_buffer_ok [OF w, of 0]) (use assms(9) t in \<open>simp_all add: lba28_iff formatted_def\<close>)
  define f where "f = derived_values (bpb_values (boot_sector sectors label) (fs s1))"
  have root: "(ucast (512 :: u16) * 32 + 511) div 512 = (32 :: u32)" by simp
  have fields: "bytes_per_sector f = 512" "sectors_per_cluster f = 4" "reserved_sectors f = 1" "num_fats f = 2" "root_entry_count f = 512"
    "fat_size f = format_fat_size sectors" "total_sectors f = sectors" "fat_start_sector f = 1"
    "root_dir_start f = 1 + 2 * ucast (format_fat_size sectors)" "root_dir_sectors f = 32"
    "data_start_sector f = 1 + 2 * ucast (format_fat_size sectors) + 32" "fs_drive f = drive"
    using boot_total [OF assms(6), of label "fs s1"]
    by (simp_all add: f_def derived_values_def bpb_values_def boot_sector_fields Let_def root s1(3))
  have clusters: "(total_sectors f - data_start_sector f) div ucast (sectors_per_cluster f) = format_clusters sectors"
    by (simp add: fields format_clusters_def) (simp add: algebra_simps)
  have image: "f\<lparr>total_clusters := format_clusters sectors, mounted := True\<rparr> = format_fs sectors drive"
    by (rule fat16_fs_t.equality) (simp_all add: fields format_fs_def)
  have range: "\<not> format_clusters sectors < 4085" "\<not> 65525 \<le> format_clusters sectors"
    using assms(7,8) by (simp_all add: word_less_nat_alt word_le_nat_alt)
  have spc: "sectors_per_cluster f \<noteq> 0" by (simp add: fields(2))
  have "fat16_mount P drive s = Some (0, s1\<lparr>fs := format_fs sectors drive, fat_cache_sector := NO_SECTOR\<rparr>)"
    using assms(3) s1(1,4) range image
    by (simp add: fat16_mount_def Let_def t_def [symmetric] present_frame [OF t(2)] boot_sector_fields
        f_def [symmetric] clusters spc)
  moreover have "working P ready content (s1\<lparr>fs := format_fs sectors drive, fat_cache_sector := NO_SECTOR\<rparr>)"
    using s1(2,3) by (simp add: working_def format_fs_def ata_drive_present_def)
  ultimately show thesis
    using s1(5) by (intro that [of "s1\<lparr>fs := format_fs sectors drive, fat_cache_sector := NO_SECTOR\<rparr>"]) simp_all
qed

lemma zero_entry: "j < 16 \<Longrightarrow> cluster_lo (dir_entry_at zeros j) = 0" "j < 16 \<Longrightarrow> name (dir_entry_at zeros j) ! 0 = 0"
  by (simp_all add: dir_entry_at_def zeros_def rd16_def)

lemma root_image_entry: "j < 16 \<Longrightarrow> cluster_lo (dir_entry_at (root_image label) j) = 0"
proof (cases label)
  case (Some l)
  assume j: "j < 16"
  have "label_entry l zeros ! k = 0" if "12 \<le> k" "k < 512" for k
    using that nth_label_entry(1,2) [of zeros k l] by (cases "k < 32") (simp_all add: zeros_def)
  then show ?thesis using Some j by (simp add: root_image_def dir_entry_at_def rd16_def)
qed (simp add: root_image_def zero_entry)

lemma formatted_volume:
  assumes "working P ready content s" and "fat_cache_sector s = NO_SECTOR" and "fs s = format_fs sectors drive"
    and "8192 \<le> unat sectors" and "4085 \<le> unat (format_clusters sectors)" and "unat (format_clusters sectors) < 65525"
    and "formatted sectors label (content (hw s))"
  shows "fs_ok P ready content s" and "valid_cluster (fs s) c \<Longrightarrow> entry_of content s c = FAT16_FREE"
    and "k < 32 \<Longrightarrow> root_sectors content s k = (if k = 0 then root_image label else zeros)"
proof -
  note geo = format_geometry [OF assms(4-6), of drive]
  let ?fz = "format_fat_size sectors"
  have root: "content (hw s) lba = (if lba = 1 + 2 * ucast ?fz then root_image label else zeros)"
    if "2 \<le> unat lba" "unat lba < 33 + 2 * unat ?fz" for lba
    using that assms(7) by (simp add: formatted_def)
  have free: "entry_of content s c = 0" if "valid_cluster (fs s) c" for c
  proof -
    have sec: "unat (fat_sector (fs s) c) = 1 + unat c div 256" "unat c div 256 < unat ?fz"
      using unat_fat_sector [OF geo(1), of c] fat_copy_sector(2) [OF geo(1), of c 0] that by (simp_all add: assms(3) format_fs_def)
    show ?thesis
    proof (cases "unat c div 256 = 0")
      case True
      then have "fat_sector (fs s) c = 1" using sec(1) by (simp add: word_unat_eq_iff)
      moreover have "2 \<le> entry_offset c" using True that entry_offset_eq [of c] by (simp add: valid_cluster_def div_eq_0_iff)
      moreover have "empty_fat ! k = 0" if "4 \<le> k" "k < 512" for k
        using that nth_append [of "le16 0xFFF8 @ le16 0xFFFF" "replicate 508 0" k] by (simp add: empty_fat_def)
      ultimately show ?thesis
        using assms(7) entry_offset_less [of c] by (simp add: entry_of_def formatted_def rd16_def)
    next
      case False
      then have "content (hw s) (fat_sector (fs s) c) = zeros"
        using root [of "fat_sector (fs s) c"] sec geo(2) by (auto simp: assms(3) format_fs_def)
      then show ?thesis using entry_offset_less [of c] by (simp add: entry_of_def zeros_def rd16_def)
    qed
  qed
  then show "valid_cluster (fs s) c \<Longrightarrow> entry_of content s c = FAT16_FREE" by (simp add: u16_consts)
  note fz = format_fat_size_bounds(2) [OF assms(4,6)]
  have rs: "root_dir_sectors (fs s) = 32" "root_dir_start (fs s) = 1 + 2 * ucast ?fz" by (simp_all add: assms(3) format_fs_def)
  have "content (hw s) lba = (if lba = 1 + 2 * ucast ?fz then root_image label else zeros)" if "in_root (fs s) lba" for lba
    by (rule root) (use that geo(2) fz in \<open>simp_all add: in_root_def assms(3) [symmetric] rs\<close>)
  then have "dir_ok content s" unfolding dir_ok_def by (simp add: root_image_entry zero_entry link_zero)
  moreover have "links_ok content s" by (simp add: links_ok_def free link_zero)
  ultimately show "fs_ok P ready content s" using assms(1,2) geo(1) by (simp add: fs_ok_def cache_ok_def assms(3))
  assume k: "k < 32"
  have u: "unat (root_dir_start (fs s) + of_nat k) = 1 + 2 * unat ?fz + k"
    using root_lba(1) [OF geo(1), of k] geo(2) k by (simp add: assms(3) [symmetric] rs(1))
  moreover have "root_dir_start (fs s) + of_nat k = 1 + 2 * ucast ?fz \<longleftrightarrow> k = 0"
    using root_lba_inj [OF geo(1), of k 0] k by (simp add: assms(3) [symmetric] rs)
  ultimately show "root_sectors content s k = (if k = 0 then root_image label else zeros)"
    unfolding root_sectors_def using root [of "root_dir_start (fs s) + of_nat k"] k fz by simp
qed

lemma root_image_list: "list_entries (root_image label) [0..<16] = ([], True)"
proof -
  have upt: "[0..<16] = 0 # 1 # [2..<16]" by (simp add: upt_conv_Cons)
  show ?thesis
  proof (cases label)
    case None
    then show ?thesis unfolding upt by (simp add: root_image_def zero_entry)
  next
    case (Some l)
    let ?buf = "label_entry l zeros"
    have len: "length zeros = 512" by (simp add: zeros_def)
    have "lfn_or_label (dir_entry_at ?buf 0)"
      by (simp add: lfn_or_label_def dir_entry_at_def nth_label_entry(3) [OF len] FAT_ATTR_VOLUME_ID_def)
    moreover have "name (dir_entry_at ?buf 1) ! 0 = 0"
      using nth_label_entry(1) [OF len, of 32 l] length_label_entry [OF len, of l] by (simp add: dir_entry_at_def zeros_def)
    ultimately show ?thesis unfolding upt using Some by (simp add: root_image_def Let_def)
  qed
qed

text \<open>
  C16. Format, then mount. On a working drive of at least 8192 sectors for which the format computes between
  4085 and 65524 clusters, formatting succeeds, mounting the drive then succeeds, the mounted volume is
  well-formed, all its clusters are free, and listing it shows no file.
\<close>

theorem fat16_format_mount:
  assumes "disk_contract P drive ready content" and "ready (hw s)" and "ata_drive_present drive s" and "length (fat_cache s) = 256"
    and "8192 \<le> size_sectors (drives s ! nat drive)"
    and "4085 \<le> format_clusters (size_sectors (drives s ! nat drive))" and "format_clusters (size_sectors (drives s ! nat drive)) < 65525"
  shows "\<exists>s' s''. fat16_format P drive label s = (0, s') \<and> fat16_mount P drive s' = Some (0, s'') \<and>
    fs_ok P ready content s'' \<and> mounted (fs s'') \<and>
    (\<forall>c. valid_cluster (fs s'') c \<longrightarrow> entry_of content s'' c = FAT16_FREE) \<and> fst (fat16_list_root P s'') = (0, [])"
proof -
  let ?n = "size_sectors (drives s ! nat drive)"
  have n: "8192 \<le> unat ?n" "4085 \<le> unat (format_clusters ?n)" "unat (format_clusters ?n) < 65525"
    using assms(5-7) by (simp_all add: word_le_nat_alt word_less_nat_alt)
  obtain s' where s': "fat16_format P drive label s = (0, s')" "ready (hw s')" "drives s' = drives s"
    "fat_cache s' = fat_cache s" "length (sector_buffer s') = 512" "formatted ?n label (content (hw s'))"
    by (rule fat16_format_ok [OF assms(1-3) refl n])
  obtain s'' where s'': "fat16_mount P drive s' = Some (0, s'')" "working P ready content s''" "fat_cache_sector s'' = NO_SECTOR"
    "fs s'' = format_fs ?n drive" "content (hw s'') = content (hw s')"
    by (rule mount_formatted [OF assms(1) s'(2) _ s'(5) _ n s'(6)]) (use assms(3,4) s'(3,4) present_frame [OF s'(3)] in simp_all)
  note vol = formatted_volume [OF s''(2-4) n, of label]
  have ok: "fs_ok P ready content s''" by (rule vol(1)) (simp add: s''(5) s'(6))
  have free: "entry_of content s'' c = FAT16_FREE" if "valid_cluster (fs s'') c" for c
    by (rule vol(2) [OF _ that]) (simp add: s''(5) s'(6))
  have root: "root_sectors content s'' 0 = root_image label" using vol(3) [of 0] by (simp add: s''(5) s'(6))
  have "unat (root_dir_sectors (fs s'')) = Suc 31" by (simp add: s''(4) format_fs_def)
  then have upt: "dir_range s'' = 0 # [1..<32]" by (simp add: upt_conv_Cons)
  have "lba28 (root_dir_start (fs s''))" using root_lba(3) [OF fs_okD(3) [OF ok], of 0] by (simp add: s''(4) format_fs_def)
  then obtain t where t: "read_buffer P (root_dir_start (fs s'')) s'' = (1, t)" "sector_buffer t = root_image label"
    by (rule read_buffer_ok [OF fs_okD(1) [OF ok]]) (use root in \<open>simp add: root_sectors_def\<close>)
  have "fst (fat16_list_root P s'') = (0, [])"
    unfolding fat16_list_root_def upt using t root_image_list [of label] by (simp add: s''(4) format_fs_def)
  moreover have "mounted (fs s'')" by (simp add: s''(4) format_fs_def)
  ultimately show ?thesis using s'(1) s''(1) ok free by blast
qed

theorem fat16_format_mount_witness:
  "\<exists>s' s''. fat16_format sim_ports 0 (Some [0x43]) demo = (0, s') \<and> fat16_mount sim_ports 0 s' = Some (0, s'') \<and>
    fs_ok sim_ports sim_ready store s'' \<and> mounted (fs s'') \<and>
    (\<forall>c. valid_cluster (fs s'') c \<longrightarrow> entry_of store s'' c = FAT16_FREE) \<and> fst (fat16_list_root sim_ports s'') = (0, [])"
  by (rule fat16_format_mount [OF sim_contract])
    (use demo_ready in \<open>simp_all add: demo_def demo_drive_def ata_drive_present_def format_clusters_def format_fat_size_def\<close>)

text \<open>
  The copies of the table differ from the start. A format that succeeds writes the media mark and the
  end mark into the first table only: the buffer is cleared before the second table is written, whose first
  sector is zero.
\<close>

theorem fat16_format_copies_differ:
  assumes "disk_contract P drive ready content" and "ready (hw s)" and "ata_drive_present drive s"
    and "8192 \<le> size_sectors (drives s ! nat drive)"
    and "4085 \<le> format_clusters (size_sectors (drives s ! nat drive))" and "format_clusters (size_sectors (drives s ! nat drive)) < 65525"
  shows "\<exists>s'. fat16_format P drive label s = (0, s') \<and> rd16 (content (hw s') 1) 0 = 0xFFF8 \<and> rd16 (content (hw s') 1) 2 = 0xFFFF \<and>
    content (hw s') (1 + ucast (format_fat_size (size_sectors (drives s ! nat drive)))) = replicate 512 0"
proof -
  let ?n = "size_sectors (drives s ! nat drive)"
  have n: "8192 \<le> unat ?n" "4085 \<le> unat (format_clusters ?n)" "unat (format_clusters ?n) < 65525"
    using assms(4-6) by (simp_all add: word_le_nat_alt word_less_nat_alt)
  note fz = format_fat_size_bounds [OF n(1,3)]
  obtain s' where s': "fat16_format P drive label s = (0, s')" "formatted ?n label (content (hw s'))"
    by (rule fat16_format_ok [OF assms(1-3) refl n])
  let ?lba = "1 + ucast (format_fat_size ?n) :: u32"
  have "unat ?lba = 1 + unat (format_fat_size ?n)" "unat (1 + 2 * ucast (format_fat_size ?n) :: u32) = 1 + 2 * unat (format_fat_size ?n)"
    using unat_small_lba [OF fz(1), of 0 1] unat_small_lba [OF fz(1), of 0 2] by simp_all
  then have "content (hw s') ?lba = zeros"
    using s'(2) fz(2) unfolding formatted_def by (auto dest!: spec [of _ ?lba])
  moreover have "rd16 empty_fat 0 = 0xFFF8" "rd16 empty_fat 2 = 0xFFFF"
    using rd16_field [of "[]" 0 "0xFFF8"] rd16_field [of "le16 0xFFF8" 2 "0xFFFF"] by (simp_all add: empty_fat_def)
  ultimately show ?thesis using s' by (auto simp: formatted_def zeros_def)
qed

theorem fat16_format_copies_differ_witness:
  "\<exists>s'. fat16_format sim_ports 0 None demo = (0, s') \<and> rd16 (store (hw s') 1) 0 = 0xFFF8 \<and> rd16 (store (hw s') 1) 2 = 0xFFFF \<and>
    store (hw s') (1 + ucast (format_fat_size (size_sectors (drives demo ! nat 0)))) = replicate 512 0"
  by (rule fat16_format_copies_differ [OF sim_contract])
    (use demo_ready in \<open>simp_all add: demo_def demo_drive_def ata_drive_present_def format_clusters_def format_fat_size_def\<close>)

end
