(* ===== verification/Fat16_Faults.thy ===== *)
theory Fat16_Faults
  imports Fat16_Create
begin

text \<open>
  What every sequence of operations keeps of a well-formed volume, and the operations that do not do what
  they are meant to: deleting a file, names that are too long, and a table that cannot be read.
\<close>

section \<open>Sequences of operations\<close>

lemma read_chain_returns:
  assumes "fs_ok P ready content s" and "link_ok (fs s) c"
  shows "\<exists>x s'. read_chain P c n dst s = Some (x, s') \<and> fs_ok P ready content s' \<and> fs s' = fs s"
  using assms
proof (induction n arbitrary: c dst s rule: less_induct)
  case (less n)
  show ?case
  proof (cases "0 < n \<and> 2 \<le> c \<and> c < FAT16_END_OF_CHAIN")
    case False
    then show ?thesis using less.prems(1) by (subst read_chain.simps) auto
  next
    case True
    then have v: "valid_cluster (fs s) c" using less.prems(2) by (simp add: link_ok_def)
    obtain s1 where s1: "read_cluster P (cluster_to_sector (fs s) c) [0..<unat (sectors_per_cluster (fs s))] n dst s =
        ((True, n - length (cluster_bytes content s c), dst @ take n (cluster_bytes content s c)), s1)"
      "fs_ok P ready content s1" "fs s1 = fs s" "content (hw s1) = content (hw s)"
      by (rule fs_ok_read_cluster [OF less.prems(1) v])
    obtain s2 where s2: "fat_read_entry P c s1 = (entry_of content s1 c, s2)" "fs_ok P ready content s2" "fs s2 = fs s1"
      by (rule fs_ok_read_entry [OF s1(2), of c]) (use v s1(3) in simp_all)
    have "0 < length (cluster_bytes content s c)"
      using cluster_bytes_length [OF fs_okD(1) [OF less.prems(1)], of c] fs_okD(3) [OF less.prems(1)] by (simp add: geometry_def)
    then have less': "n - length (cluster_bytes content s c) < n" using True by simp
    have link: "link_ok (fs s2) (entry_of content s1 c)"
      using fs_okD(4) [OF s1(2)] v s1(3) s2(3) by (simp add: links_ok_def)
    have "read_chain P c n dst s = read_chain P (entry_of content s1 c) (n - length (cluster_bytes content s c))
        (dst @ take n (cluster_bytes content s c)) s2"
      using True s1(1) s2(1) by (subst read_chain.simps) (simp add: Let_def)
    then show ?thesis
      using less.IH [OF less' s2(2) link, of "dst @ take n (cluster_bytes content s c)"] s1(3) s2(3) by auto
  qed
qed

lemma dir_entry_link:
  "fs_ok P ready content s \<Longrightarrow> i < unat (root_dir_sectors (fs s)) \<Longrightarrow> j < 16 \<Longrightarrow>
    link_ok (fs s) (cluster_lo (dir_entry_at (root_sectors content s i) j))"
  using root_lba(2) [of "fs s" i] by (simp add: fs_ok_def dir_ok_def root_sectors_def)

lemma read_file_returns:
  assumes "fs_ok P ready content s" and "mounted (fs s)"
  shows "\<exists>x s'. fat16_read_file P n max_size s = Some (x, s') \<and> fs_ok P ready content s' \<and> fs s' = fs s"
proof -
  obtain s1 where s1: "fat16_find_file P n s =
      ((case dir_search lfn_or_label n (root_sectors content s) (dir_range s) of
          None \<Rightarrow> (- 1, None)
        | Some (i, j) \<Rightarrow> (0, Some (dir_entry_at (root_sectors content s i) j))), s1)"
    "fs_ok P ready content s1" "fs s1 = fs s"
    by (rule find_file_ok [OF assms])
  show ?thesis
  proof (cases "dir_search lfn_or_label n (root_sectors content s) (dir_range s)")
    case None
    then show ?thesis using assms(2) s1 by (simp add: fat16_read_file_def)
  next
    case (Some x)
    then obtain i j where x: "x = (i, j)" "i < unat (root_dir_sectors (fs s))" "j < 16"
      using dir_search_hit [of lfn_or_label n "root_sectors content s" "dir_range s"]
        scan_hit [of lfn_or_label n _ "[0..<16]"] by (cases x) fastforce
    let ?e = "dir_entry_at (root_sectors content s i) j"
    have "link_ok (fs s1) (cluster_lo ?e)" using dir_entry_link [OF assms(1) x(2,3)] by (simp add: s1(3))
    from read_chain_returns [OF s1(2) this, of "min (unat (file_size ?e)) max_size" "[]"]
    obtain ok dst s' where "read_chain P (cluster_lo ?e) (min (unat (file_size ?e)) max_size) [] s1 = Some ((ok, dst), s')"
      "fs_ok P ready content s'" "fs s' = fs s" using s1(3) by auto
    then show ?thesis using assms(2) s1(1,2,3) Some x(1)
      by (cases "attr ?e AND FAT_ATTR_DIRECTORY = 0") (simp_all add: fat16_read_file_def Let_def)
  qed
qed

lemma write_file_returns:
  assumes "fs_ok P ready content s" and "mounted (fs s)"
  shows "\<exists>r s'. fat16_write_file P n data s = Some (r, s') \<and> fs_ok P ready content s' \<and> fs s' = fs s"
proof (cases "dir_search lfn_or_label n (root_sectors content s) (dir_range s)")
  case None
  then show ?thesis
    using find_loop_ok [OF assms(1), of "dir_range s" lfn_or_label n] assms(2) by (auto simp: fat16_write_file_def)
next
  case (Some x)
  then show ?thesis using write_file_ok [OF assms, of n _ _ data] by (cases x) metis
qed

lemma list_loop_returns:
  assumes "fs_ok P ready content s" and "\<forall>i \<in> set is. i < unat (root_dir_sectors (fs s))"
  shows "\<exists>x s'. list_loop P is s = (x, s') \<and> fs_ok P ready content s' \<and> fs s' = fs s"
  using assms
proof (induction "is" arbitrary: s)
  case (Cons i "is")
  note ok = fs_okD [OF Cons.prems(1)]
  let ?lba = "root_dir_start (fs s) + of_nat i"
  obtain s1 where s1: "read_buffer P ?lba s = (1, s1)" "working P ready content s1" "fs s1 = fs s"
    "content (hw s1) = content (hw s)" "fat_cache s1 = fat_cache s" "fat_cache_sector s1 = fat_cache_sector s"
    by (rule read_buffer_ok [OF ok(1), of ?lba]) (use root_lba(3) [OF ok(3)] Cons.prems(2) in simp_all)
  have "fs_ok P ready content s1" by (rule fs_ok_data_write(1) [OF Cons.prems(1) s1(2,3,5,6)]) (simp add: s1(4))
  with Cons.IH [OF this] show ?case using Cons.prems(2) s1(1,3) by (auto split: prod.split)
qed simp

text \<open>The states that calls of the operations other than deleting lead to.\<close>

inductive fat_run :: "'d ports \<Rightarrow> ('d, 'z) fat16_scheme \<Rightarrow> ('d, 'z) fat16_scheme \<Rightarrow> bool" for P s where
  fat_run_start: "fat_run P s s"
| fat_run_list: "fat_run P s t \<Longrightarrow> fat_run P s (snd (fat16_list_root P t))"
| fat_run_find: "fat_run P s t \<Longrightarrow> fat_run P s (snd (fat16_find_file P n t))"
| fat_run_read: "fat_run P s t \<Longrightarrow> fat16_read_file P n max_size t = Some (x, t') \<Longrightarrow> fat_run P s t'"
| fat_run_create: "fat_run P s t \<Longrightarrow> fat_run P s (snd (fat16_create_file P n t))"
| fat_run_write: "fat_run P s t \<Longrightarrow> fat16_write_file P n data t = Some (r, t') \<Longrightarrow> fat_run P s t'"

text \<open>
  C8. Nothing but deleting damages a volume. After any sequence of calls that list, find, read, create
  and write files of a well-formed mounted volume, the volume is well-formed: its links and the first
  clusters of its directory entries stay inside the volume, the cached sector is the sector on the disk.
  And every further read and write returns, whatever the chains on the disk look like.
\<close>

theorem fat_run_keeps_volume:
  assumes "fat_run P s t" and "fs_ok P ready content s" and "mounted (fs s)"
  shows "fs_ok P ready content t \<and> mounted (fs t) \<and>
    (\<exists>x t'. fat16_read_file P n max_size t = Some (x, t')) \<and> (\<exists>r t'. fat16_write_file P n data t = Some (r, t'))"
proof -
  have "fs_ok P ready content t \<and> mounted (fs t)" using assms
  proof (induction rule: fat_run.induct)
    case (fat_run_list t)
    then show ?case using list_loop_returns [of P ready content t "dir_range t"] by (force simp: fat16_list_root_def)
  next
    case (fat_run_find t n)
    then show ?case using find_file_ok [of P ready content t n] by (metis snd_conv)
  next
    case (fat_run_read t n max_size x t')
    then show ?case using read_file_returns [of P ready content t n max_size] by force
  next
    case (fat_run_create t n)
    then show ?case using create_keeps [of P ready content t n] by simp
  next
    case (fat_run_write t n data r t')
    then show ?case using write_file_returns [of P ready content t n data] by force
  qed simp_all
  then show ?thesis using read_file_returns [of P ready content t n max_size] write_file_returns [of P ready content t n data] by blast
qed

theorem fat_run_keeps_volume_witness:
  "fs_ok sim_ports sim_ready store (snd (fat16_list_root sim_ports demo)) \<and> mounted (fs (snd (fat16_list_root sim_ports demo))) \<and>
    (\<exists>x t'. fat16_read_file sim_ports [0x62] 100 (snd (fat16_list_root sim_ports demo)) = Some (x, t')) \<and>
    (\<exists>r t'. fat16_write_file sim_ports [0x62] [7] (snd (fat16_list_root sim_ports demo)) = Some (r, t'))"
  by (rule fat_run_keeps_volume [OF fat_run_list [OF fat_run_start] demo_ok demo_mounted])

section \<open>Deleting\<close>

text \<open>
  C37. Deleting a file overwrites the directory. On a well-formed volume a delete frees exactly the
  clusters of the file. But freeing them leaves a sector of the table in the shared buffer, and that is
  what goes back to the disk: for a file with at least one cluster the directory sector that held its entry
  becomes the table sector of its last cluster with one byte changed. Only for an empty file is it the
  directory sector with the entry marked as deleted.
\<close>

theorem fat16_delete_overwrites_directory:
  assumes "fs_ok P ready content s" and "mounted (fs s)"
    and "dir_search (\<lambda>e. attr e = FAT_ATTR_LFN) n (root_sectors content s) (dir_range s) = Some (i, j)"
    and "chain_of (fs s) (entry_of content s) (cluster_lo (dir_entry_at (root_sectors content s i) j)) cs"
  shows "\<exists>s'. fat16_delete_file P n s = Some (1, s') \<and>
    (\<forall>c. valid_cluster (fs s) c \<longrightarrow> entry_of content s' c = (if c \<in> set cs then FAT16_FREE else entry_of content s c)) \<and>
    (\<forall>k < unat (root_dir_sectors (fs s)). root_sectors content s' k =
       (if k = i
        then (if cs = [] then root_sectors content s i else content (hw s') (fat_sector (fs s) (last cs)))[32 * j := 0xE5]
        else root_sectors content s k))"
proof -
  note geo = fs_okD(3) [OF assms(1)]
  let ?skip = "\<lambda>e. attr e = FAT_ATTR_LFN" and ?c = "cluster_lo (dir_entry_at (root_sectors content s i) j)"
  have hit: "i < unat (root_dir_sectors (fs s))" "j < 16"
    using dir_search_hit [OF assms(3)] scan_hit [of ?skip n "root_sectors content s i" "[0..<16]" j] by auto
  obtain s1 where s1: "find_loop P ?skip n (dir_range s) s = (Some (i, j), s1)" "fs_ok P ready content s1"
    "fs s1 = fs s" "content (hw s1) = content (hw s)" "sector_buffer s1 = root_sectors content s i"
    using find_loop_ok [OF assms(1), of "dir_range s" ?skip n] assms(3) by auto
  have "entry_of content s1 = entry_of content s" by (rule ext) (rule entry_of_frame [OF s1(3,4)])
  then obtain s2 where s2: "free_chain P ?c s1 = Some s2" "fs_ok P ready content s2" "fs s2 = fs s"
    "\<forall>lba. \<not> in_table (fs s) lba \<longrightarrow> content (hw s2) lba = content (hw s) lba"
    "\<forall>d. valid_cluster (fs s) d \<longrightarrow> entry_of content s2 d = (if d \<in> set cs then 0 else entry_of content s d)"
    "sector_buffer s2 = (if cs = [] then root_sectors content s i else content (hw s2) (fat_sector (fs s) (last cs)))"
    using free_chain_frees [OF s1(2), of ?c cs] assms(4) unfolding s1(3-5) by auto
  let ?lba = "root_dir_start (fs s) + of_nat i" and ?buf = "(sector_buffer s2)[32 * j := 0xE5]"
  have lba: "lba28 ?lba" "in_root (fs s) ?lba" using root_lba [OF geo hit(1)] by simp_all
  have blen: "length (sector_buffer s2) = 512" using fs_okD(1) [OF s2(2)] by (simp add: working_def)
  have w: "working P ready content (s2\<lparr>sector_buffer := ?buf\<rparr>)" using fs_okD(1) [OF s2(2)] blen by simp
  obtain s3 where s3: "write_buffer P ?lba (s2\<lparr>sector_buffer := ?buf\<rparr>) = (1, s3)" "fs s3 = fs s"
    "content (hw s3) = (content (hw s2))(?lba := ?buf)"
    by (rule write_buffer_ok [OF w lba(1)]) (use s2(3) in simp)
  have "fat16_delete_file P n s = Some (1, s3)" using assms(2) s1 s2(1,3) s3(1) by (simp add: fat16_delete_file_def)
  moreover have table: "content (hw s3) (fat_sector (fs s) c) = content (hw s2) (fat_sector (fs s) c)" if "valid_cluster (fs s) c" for c
    using fat_sector_in_table [OF geo that] root_not_table [OF lba(2)] by (auto simp: s3(3))
  then have "entry_of content s3 c = (if c \<in> set cs then FAT16_FREE else entry_of content s c)" if "valid_cluster (fs s) c" for c
    using s2(5) that by (simp add: entry_of_def [of content s3] entry_of_def [of content s2] s3(2) s2(3) u16_consts)
  moreover have "root_sectors content s3 k = (if k = i
        then (if cs = [] then root_sectors content s i else content (hw s3) (fat_sector (fs s) (last cs)))[32 * j := 0xE5]
        else root_sectors content s k)" if "k < unat (root_dir_sectors (fs s))" for k
    using root_lba_inj [OF geo that hit(1)] root_lba(2) [OF geo that] root_not_table s2(4,6)
      table [OF chain_valid [OF assms(4) last_in_set]]
    by (auto simp: root_sectors_def s3(2,3))
  ultimately show ?thesis by blast
qed

theorem fat16_delete_overwrites_directory_witness:
  "\<exists>s'. fat16_delete_file sim_ports [0x62] demo = Some (1, s') \<and>
    (\<forall>c. valid_cluster (fs demo) c \<longrightarrow> entry_of store s' c = (if c \<in> set [2] then FAT16_FREE else entry_of store demo c)) \<and>
    (\<forall>k < unat (root_dir_sectors (fs demo)). root_sectors store s' k =
       (if k = 0
        then (if [2 :: u16] = [] then root_sectors store demo 0 else store (hw s') (fat_sector (fs demo) (last [2])))[32 * 1 := 0xE5]
        else root_sectors store demo k))"
  by (rule fat16_delete_overwrites_directory [OF demo_ok demo_mounted demo_dir_search(3)])
    (use demo_chains(2) in \<open>simp add: demo_root_sector(1)\<close>)

section \<open>Names that are too long\<close>

lemma upper_dot: "upper c = 0x2E \<Longrightarrow> c = 0x2E"
  by (auto simp: upper_def word_le_nat_alt word_unat_eq_iff unat_sub_no_wrap split: if_splits)

lemma long_name_matches_nothing:
  assumes "length (name e) \<le> 8" and "8 < length (base_part n)"
  shows "\<not> name_matches e n"
proof
  assume "name_matches e n"
  define a where "a = takeWhile (\<lambda>c. c \<noteq> 0) (entry_name e)"
  define k where "k = length (takeWhile (\<lambda>c. c \<noteq> 0x20) (name e))"
  have eq: "map upper a = map upper n" using \<open>name_matches e n\<close> by (simp add: a_def name_matches_def same_text_iff)
  have k: "k \<le> 8" using assms(1) length_takeWhile_le [of "\<lambda>c. c \<noteq> 0x20" "name e"] by (simp add: k_def)
  have n: "k < length n" using k assms(2) length_takeWhile_le [of "\<lambda>c. c \<noteq> 0x2E" n] by (simp add: base_part_def)
  then have ka: "k < length a" using arg_cong [OF eq, of length] by simp
  then have "k < length (entry_name e)" using length_takeWhile_le [of _ "entry_name e"] by (metis a_def order.strict_trans2)
  then have "entry_name e ! k = 0x2E" by (auto simp: entry_name_def k_def nth_append split: if_splits)
  then have "a ! k = 0x2E" using ka by (simp add: a_def takeWhile_nth)
  then have "upper (n ! k) = upper 0x2E" using arg_cong [OF eq, of "\<lambda>xs. xs ! k"] ka n by simp
  then have "n ! k = 0x2E" using upper_dot by (simp add: upper_def [of "0x2E"])
  moreover have "n ! k = base_part n ! k" using k assms(2) by (simp add: base_part_def takeWhile_nth)
  moreover have "base_part n ! k \<in> set (base_part n)" using k assms(2) by simp
  ultimately show False by (auto simp: base_part_def dest: set_takeWhileD)
qed

lemma long_name_not_found:
  assumes "8 < length (base_part n)"
  shows "dir_search skip n g is = None"
proof (rule ccontr)
  assume "dir_search skip n g is \<noteq> None"
  then obtain i j where "dir_search skip n g is = Some (i, j)" by auto
  from dir_search_hit [OF this] have "name_matches (dir_entry_at (g i) j) n" using scan_hit by blast
  moreover have "length (name (dir_entry_at (g i) j)) \<le> 8" by (simp add: dir_entry_at_def)
  ultimately show False using long_name_matches_nothing assms by blast
qed

text \<open>
  Files with long names are lost. For a name with more than eight characters before the dot, creating
  the file succeeds whenever the directory has a free slot. But no entry ever matches the name: the file
  is not found under it, writing it fails, and creating it again uses up another slot.
\<close>

theorem fat16_long_name_lost:
  assumes "fs_ok P ready content s" and "mounted (fs s)" and "8 < length (base_part n)"
  shows "\<exists>r s'. fat16_create_file P n s = (r, s') \<and>
    (r = 0 \<longleftrightarrow> (\<exists>i < unat (root_dir_sectors (fs s)). \<exists>j < 16. free_slot (root_sectors content s i) j)) \<and>
    fst (fat16_find_file P n s') = (- 1, None) \<and> (\<exists>s''. fat16_write_file P n data s' = Some (- 1, s''))"
proof -
  obtain s' where s': "fat16_create_file P n s = (if dir_slot (root_sectors content s) (dir_range s) \<noteq> None then 0 else - 1, s')"
    "fs_ok P ready content s'" "fs s' = fs s"
    by (rule create_file_ok [OF assms(1,2), of n]) (simp add: long_name_not_found [OF assms(3)])
  have m: "mounted (fs s')" using assms(2) s'(3) by simp
  have "dir_slot (root_sectors content s) (dir_range s) \<noteq> None \<longleftrightarrow>
      (\<exists>i < unat (root_dir_sectors (fs s)). \<exists>j < 16. free_slot (root_sectors content s i) j)"
    using dir_slot_None [of "root_sectors content s" "dir_range s"] dir_slot_Some [of "root_sectors content s" "dir_range s"] by fastforce
  moreover have "fst (fat16_find_file P n s') = (- 1, None)"
    by (rule find_file_ok [OF s'(2) m, of n]) (simp add: long_name_not_found [OF assms(3)])
  moreover have "\<exists>s''. fat16_write_file P n data s' = Some (- 1, s'')"
    using find_loop_ok [OF s'(2), of "dir_range s'" lfn_or_label n] m
    by (auto simp: fat16_write_file_def long_name_not_found [OF assms(3)])
  ultimately show ?thesis using s'(1) by auto
qed

theorem fat16_long_name_lost_witness:
  "\<exists>r s'. fat16_create_file sim_ports (replicate 9 0x61) demo = (r, s') \<and>
    (r = 0 \<longleftrightarrow> (\<exists>i < unat (root_dir_sectors (fs demo)). \<exists>j < 16. free_slot (root_sectors store demo i) j)) \<and>
    fst (fat16_find_file sim_ports (replicate 9 0x61) s') = (- 1, None) \<and>
    (\<exists>s''. fat16_write_file sim_ports (replicate 9 0x61) [7] s' = Some (- 1, s''))"
  by (rule fat16_long_name_lost [OF demo_ok demo_mounted]) (simp add: base_part_def)

section \<open>A table that cannot be read\<close>

definition read_error :: "'d ports \<Rightarrow> bool" where
  "read_error P \<longleftrightarrow> (\<forall>d. fst (inb P ATA_PRIMARY_STATUS d) AND ATA_SR_ERR \<noteq> 0)"

lemma read_fails:
  assumes "read_error P"
  obtains d where "read_sector P lba s = ((- 1, []), s\<lparr>hw := d\<rparr>)"
proof -
  have "fst (ata_wait_drq P d) = - 1" for d
    unfolding ata_wait_drq_def by (rule wait_drq_loop_error) (use assms in \<open>simp add: read_error_def\<close>)
  then have drq: "ata_wait_drq P d = (- 1, snd (ata_wait_drq P d))" for d by (metis prod.collapse)
  have "\<exists>d. read_sector P lba s = ((- 1, []), s\<lparr>hw := d\<rparr>)"
  proof (cases "ata_drive_present (fs_drive (fs s)) s")
    case True
    obtain r d where w: "ata_wait_ready P (hw s) = (r, d)" by fastforce
    show ?thesis
    proof (cases "r < 0")
      case False
      let ?d = "ata_issue P ATA_CMD_READ_SECTORS (fs_drive (fs s)) lba 1 d"
      have "read_loop P (Suc 0) ?d = ((False, []), snd (ata_wait_drq P ?d))" by (subst read_loop.simps, subst drq) simp
      then show ?thesis using True w False by (simp add: read_sector_def ata_read_sectors_def) blast
    qed (use True w in \<open>auto simp: read_sector_def ata_read_sectors_def\<close>)
  next
    case False
    then show ?thesis by (intro exI [of _ "hw s"]) (simp add: read_sector_def ata_read_sectors_def)
  qed
  then show thesis using that by blast
qed

definition uncached :: "('d, 'z) fat16_scheme \<Rightarrow> bool" where
  "uncached s \<longleftrightarrow> fat_cache_sector s \<notin> range (fat_sector (fs s))"

lemma read_entry_fails:
  assumes "read_error P" and "uncached s"
  obtains s' where "fat_read_entry P c s = (FAT16_BAD_CLUSTER, s')" and "uncached s'"
proof (rule read_fails [OF assms(1), of "fat_sector (fs s) c" s])
  fix d assume "read_sector P (fat_sector (fs s) c) s = ((- 1, []), s\<lparr>hw := d\<rparr>)"
  moreover have "fat_sector (fs s) c \<noteq> fat_cache_sector s" using assms(2) rangeI [of "fat_sector (fs s)" c] by (metis uncached_def)
  ultimately show thesis using assms(2) by (intro that [of "s\<lparr>hw := d\<rparr>"]) (simp_all add: fat_read_entry_def uncached_def Let_def)
qed

lemma write_entry_fails:
  assumes "read_error P" and "uncached s"
  shows "uncached (snd (fat_write_entry P c v s))"
proof (rule read_fails [OF assms(1), of "fat_sector (fs s) c" s])
  fix d assume "read_sector P (fat_sector (fs s) c) s = ((- 1, []), s\<lparr>hw := d\<rparr>)"
  then show ?thesis using assms(2) by (simp add: fat_write_entry_def read_buffer_def uncached_def)
qed

text \<open>
  A table that cannot be read hangs the kernel. The value that stands for a read error, 0xFFF7, counts
  as a link to another cluster. So if the drive reports errors and the table is not in the cache, the loop
  that frees the clusters of a file (when it is deleted or written again) never ends.
\<close>

theorem free_chain_never_returns:
  fixes P :: "'d ports" and s :: "('d, 'z) fat16_scheme"
  assumes "read_error P" and "uncached s" and "2 \<le> c" and "c < FAT16_END_OF_CHAIN"
  shows "free_chain P c s = None"
proof (cases "free_chain P c s")
  case (Some s')
  have "\<not> (read_error P \<and> uncached s \<and> 2 \<le> c \<and> c < FAT16_END_OF_CHAIN)"
  proof (rule free_chain.raw_induct
      [where Pa = "\<lambda>x s'. \<not> (read_error (fst (fst x)) \<and> uncached (snd x) \<and> 2 \<le> snd (fst x) \<and> snd (fst x) < FAT16_END_OF_CHAIN)",
       OF _ Some, unfolded fst_conv snd_conv])
    fix f :: "'d ports \<Rightarrow> u16 \<Rightarrow> ('d, 'z) fat16_scheme \<Rightarrow> ('d, 'z) fat16_scheme option" and P c s s'
    assume IH: "\<And>P c s s'. f P c s = Some s' \<Longrightarrow> \<not> (read_error P \<and> uncached s \<and> 2 \<le> c \<and> c < FAT16_END_OF_CHAIN)"
      and eq: "(if 2 \<le> c \<and> c < FAT16_END_OF_CHAIN
        then let r = fat_read_entry P c s in f P (fst r) (snd (fat_write_entry P c FAT16_FREE (snd r))) else Some s) = Some s'"
    show "\<not> (read_error P \<and> uncached s \<and> 2 \<le> c \<and> c < FAT16_END_OF_CHAIN)"
    proof
      assume *: "read_error P \<and> uncached s \<and> 2 \<le> c \<and> c < FAT16_END_OF_CHAIN"
      obtain s1 where s1: "fat_read_entry P c s = (FAT16_BAD_CLUSTER, s1)" "uncached s1"
        using read_entry_fails [of P s c] * by blast
      have "f P FAT16_BAD_CLUSTER (snd (fat_write_entry P c FAT16_FREE s1)) = Some s'" using eq * s1(1) by simp
      from IH [OF this] show False using * write_entry_fails [of P s1 c FAT16_FREE] s1(2) by (simp add: u16_consts)
    qed
  qed
  then show ?thesis using assms by simp
qed

theorem free_chain_never_returns_witness: "free_chain (sim_ports\<lparr>inb := \<lambda>port d. (0x41, d)\<rparr>) 2 demo = None"
proof (rule free_chain_never_returns)
  show "read_error (sim_ports\<lparr>inb := \<lambda>port d. (0x41, d)\<rparr>)" by (simp add: read_error_def ATA_SR_ERR_def)
  have "fat_sector (fs demo) c \<noteq> NO_SECTOR" for c
  proof -
    have "unat (fat_sector (fs demo) c) < 1000"
      using unat_fat_sector [OF demo_geometry, of c] unat_u16 [of c] by (simp add: demo_def demo_fs_def)
    then show ?thesis by auto
  qed
  then show "uncached demo" by (auto simp: uncached_def demo_def)
qed (simp_all add: u16_consts)

end
