(* ===== verification/Pci.thy ===== *)
theory Pci
  imports Ports
begin

text \<open>
  PCI configuration space and the scan of the buses (\<^verbatim>\<open>pci/pci.c\<close>), over the two configuration ports.
\<close>

section \<open>State\<close>

definition PCI_CONFIG_ADDRESS :: u16 where "PCI_CONFIG_ADDRESS = 0xCF8"
definition PCI_CONFIG_DATA :: u16 where "PCI_CONFIG_DATA = 0xCFC"
definition PCI_VENDOR_ID :: u8 where "PCI_VENDOR_ID = 0x00"
definition PCI_DEVICE_ID :: u8 where "PCI_DEVICE_ID = 0x02"
definition PCI_COMMAND :: u8 where "PCI_COMMAND = 0x04"
definition PCI_REVISION_ID :: u8 where "PCI_REVISION_ID = 0x08"
definition PCI_PROG_IF :: u8 where "PCI_PROG_IF = 0x09"
definition PCI_SUBCLASS :: u8 where "PCI_SUBCLASS = 0x0A"
definition PCI_CLASS_CODE :: u8 where "PCI_CLASS_CODE = 0x0B"
definition PCI_HEADER_TYPE :: u8 where "PCI_HEADER_TYPE = 0x0E"
definition PCI_BAR0 :: u8 where "PCI_BAR0 = 0x10"
definition PCI_INTERRUPT_LINE :: u8 where "PCI_INTERRUPT_LINE = 0x3C"
definition PCI_INTERRUPT_PIN :: u8 where "PCI_INTERRUPT_PIN = 0x3D"
definition PCI_COMMAND_MEMORY :: u16 where "PCI_COMMAND_MEMORY = 0x02"
definition PCI_COMMAND_MASTER :: u16 where "PCI_COMMAND_MASTER = 0x04"
definition MAX_PCI_DEVICES :: nat where "MAX_PCI_DEVICES = 256"

record pci_device_t =
  bus :: u8
  device :: u8
  function_no :: u8
  vendor_id :: u16
  device_id :: u16
  class_code :: u8
  subclass_code :: u8
  prog_if :: u8
  revision_id :: u8
  bar :: "u32 list"
  interrupt_line :: u8
  interrupt_pin :: u8

record 'd pci =
  pci_devices :: "pci_device_t list"
  pci_device_count :: nat
  pci_hw :: 'd

section \<open>Configuration space\<close>

definition config_address :: "u8 \<Rightarrow> u8 \<Rightarrow> u8 \<Rightarrow> u8 \<Rightarrow> u32" where
  "config_address b dev f off =
     0x80000000 OR push_bit 16 (ucast b) OR push_bit 11 (ucast dev) OR push_bit 8 (ucast f) OR (ucast off AND 0xFC)"

definition pci_config_read32 :: "'d ports \<Rightarrow> u8 \<Rightarrow> u8 \<Rightarrow> u8 \<Rightarrow> u8 \<Rightarrow> 'd \<Rightarrow> u32 \<times> 'd" where
  "pci_config_read32 P b dev f off d = inl P PCI_CONFIG_DATA (outl P PCI_CONFIG_ADDRESS (config_address b dev f off) d)"

definition pci_config_read16 :: "'d ports \<Rightarrow> u8 \<Rightarrow> u8 \<Rightarrow> u8 \<Rightarrow> u8 \<Rightarrow> 'd \<Rightarrow> u16 \<times> 'd" where
  "pci_config_read16 P b dev f off d =
     (case inl P PCI_CONFIG_DATA (outl P PCI_CONFIG_ADDRESS (config_address b dev f off) d) of
        (w, d) \<Rightarrow> (ucast (drop_bit (unat (off AND 2) * 8) w AND 0xFFFF), d))"

definition pci_config_read8 :: "'d ports \<Rightarrow> u8 \<Rightarrow> u8 \<Rightarrow> u8 \<Rightarrow> u8 \<Rightarrow> 'd \<Rightarrow> u8 \<times> 'd" where
  "pci_config_read8 P b dev f off d =
     (case inl P PCI_CONFIG_DATA (outl P PCI_CONFIG_ADDRESS (config_address b dev f off) d) of
        (w, d) \<Rightarrow> (ucast (drop_bit (unat (off AND 3) * 8) w AND 0xFF), d))"

definition pci_config_write32 :: "'d ports \<Rightarrow> u8 \<Rightarrow> u8 \<Rightarrow> u8 \<Rightarrow> u8 \<Rightarrow> u32 \<Rightarrow> 'd \<Rightarrow> 'd" where
  "pci_config_write32 P b dev f off value d =
     outl P PCI_CONFIG_DATA value (outl P PCI_CONFIG_ADDRESS (config_address b dev f off) d)"

definition pci_config_write16 :: "'d ports \<Rightarrow> u8 \<Rightarrow> u8 \<Rightarrow> u8 \<Rightarrow> u8 \<Rightarrow> u16 \<Rightarrow> 'd \<Rightarrow> 'd" where
  "pci_config_write16 P b dev f off value d =
     (case inl P PCI_CONFIG_DATA (outl P PCI_CONFIG_ADDRESS (config_address b dev f off) d) of
        (data, d) \<Rightarrow>
          let sh = unat (off AND 2) * 8
          in outl P PCI_CONFIG_DATA (data AND NOT (push_bit sh 0xFFFF) OR push_bit sh (ucast value)) d)"

definition pci_config_write8 :: "'d ports \<Rightarrow> u8 \<Rightarrow> u8 \<Rightarrow> u8 \<Rightarrow> u8 \<Rightarrow> u8 \<Rightarrow> 'd \<Rightarrow> 'd" where
  "pci_config_write8 P b dev f off value d =
     (case inl P PCI_CONFIG_DATA (outl P PCI_CONFIG_ADDRESS (config_address b dev f off) d) of
        (data, d) \<Rightarrow>
          let sh = unat (off AND 3) * 8
          in outl P PCI_CONFIG_DATA (data AND NOT (push_bit sh 0xFF) OR push_bit sh (ucast value)) d)"

section \<open>The scan\<close>

fun read_bars :: "'d ports \<Rightarrow> u8 \<Rightarrow> u8 \<Rightarrow> u8 \<Rightarrow> nat list \<Rightarrow> 'd \<Rightarrow> u32 list \<times> 'd" where
  "read_bars P b dev f [] d = ([], d)"
| "read_bars P b dev f (i # is) d =
     (case pci_config_read32 P b dev f (PCI_BAR0 + of_nat i * 4) d of
        (w, d) \<Rightarrow> (case read_bars P b dev f is d of (ws, d) \<Rightarrow> (w # ws, d)))"

definition read_device :: "'d ports \<Rightarrow> u8 \<Rightarrow> u8 \<Rightarrow> u8 \<Rightarrow> u16 \<Rightarrow> 'd \<Rightarrow> pci_device_t \<times> 'd" where
  "read_device P b dev f vendor d =
     (case pci_config_read16 P b dev f PCI_DEVICE_ID d of (did, d) \<Rightarrow>
      case pci_config_read8 P b dev f PCI_CLASS_CODE d of (cls, d) \<Rightarrow>
      case pci_config_read8 P b dev f PCI_SUBCLASS d of (sub, d) \<Rightarrow>
      case pci_config_read8 P b dev f PCI_PROG_IF d of (prog, d) \<Rightarrow>
      case pci_config_read8 P b dev f PCI_REVISION_ID d of (rev_id, d) \<Rightarrow>
      case pci_config_read8 P b dev f PCI_INTERRUPT_LINE d of (line, d) \<Rightarrow>
      case pci_config_read8 P b dev f PCI_INTERRUPT_PIN d of (pin, d) \<Rightarrow>
      case read_bars P b dev f [0..<6] d of (bars, d) \<Rightarrow>
        (\<lparr>bus = b, device = dev, function_no = f, vendor_id = vendor, device_id = did, class_code = cls,
          subclass_code = sub, prog_if = prog, revision_id = rev_id, bar = bars, interrupt_line = line,
          interrupt_pin = pin\<rparr>, d))"

text \<open>
  The three loops. The first component of a result says that the scan returned early, the table being full.
\<close>

fun scan_functions :: "'d ports \<Rightarrow> u8 \<Rightarrow> u8 \<Rightarrow> nat list \<Rightarrow> ('d, 'z) pci_scheme \<Rightarrow> bool \<times> ('d, 'z) pci_scheme" where
  "scan_functions P b dev [] s = (False, s)"
| "scan_functions P b dev (f # fns) s =
     (case pci_config_read16 P b dev (of_nat f) PCI_VENDOR_ID (pci_hw s) of
        (vendor, d) \<Rightarrow>
          let s = s\<lparr>pci_hw := d\<rparr>
          in if vendor = 0xFFFF then (if f = 0 then (False, s) else scan_functions P b dev fns s)
             else if MAX_PCI_DEVICES \<le> pci_device_count s then (True, s)
             else case read_device P b dev (of_nat f) vendor (pci_hw s) of
                    (x, d) \<Rightarrow>
                      let s = s\<lparr>pci_hw := d, pci_devices := (pci_devices s)[pci_device_count s := x],
                                pci_device_count := pci_device_count s + 1\<rparr>
                      in if f = 0
                         then (case pci_config_read8 P b dev (of_nat f) PCI_HEADER_TYPE (pci_hw s) of
                                 (header_type, d) \<Rightarrow>
                                   let s = s\<lparr>pci_hw := d\<rparr>
                                   in if header_type AND 0x80 = 0 then (False, s) else scan_functions P b dev fns s)
                         else scan_functions P b dev fns s)"

fun for_each :: "('a \<Rightarrow> 's \<Rightarrow> bool \<times> 's) \<Rightarrow> 'a list \<Rightarrow> 's \<Rightarrow> bool \<times> 's" where
  "for_each body [] s = (False, s)"
| "for_each body (x # xs) s = (case body x s of (stop, s) \<Rightarrow> if stop then (True, s) else for_each body xs s)"

definition scan_bus :: "'d ports \<Rightarrow> nat \<Rightarrow> ('d, 'z) pci_scheme \<Rightarrow> bool \<times> ('d, 'z) pci_scheme" where
  "scan_bus P b s = for_each (\<lambda>dev. scan_functions P (of_nat b) (of_nat dev) [0..<8]) [0..<32] s"

definition pci_scan_devices :: "'d ports \<Rightarrow> ('d, 'z) pci_scheme \<Rightarrow> nat \<times> ('d, 'z) pci_scheme" where
  "pci_scan_devices P s =
     (case for_each (scan_bus P) [0..<256] (s\<lparr>pci_device_count := 0\<rparr>) of (_, s) \<Rightarrow> (pci_device_count s, s))"

definition pci_init :: "'d ports \<Rightarrow> ('d, 'z) pci_scheme \<Rightarrow> ('d, 'z) pci_scheme" where
  "pci_init P s = snd (pci_scan_devices P (s\<lparr>pci_device_count := 0\<rparr>))"

text \<open>A pointer into the table is an index.\<close>

definition pci_find_device :: "u16 \<Rightarrow> u16 \<Rightarrow> ('d, 'z) pci_scheme \<Rightarrow> nat option" where
  "pci_find_device vendor did s =
     first_index (\<lambda>i. vendor_id (pci_devices s ! i) = vendor \<and> device_id (pci_devices s ! i) = did) (pci_device_count s)"

definition pci_get_device :: "int \<Rightarrow> ('d, 'z) pci_scheme \<Rightarrow> nat option" where
  "pci_get_device index s = (if index < 0 \<or> int (pci_device_count s) \<le> index then None else Some (nat index))"

definition pci_get_device_count :: "('d, 'z) pci_scheme \<Rightarrow> nat" where
  "pci_get_device_count s = pci_device_count s"

section \<open>The configuration mechanism\<close>

text \<open>
  What the PCI standard promises of configuration mechanism 1: the address port selects a register (\<open>sel\<close>), the data
  port reads it, and a register that is plain storage (\<open>rw\<close>) takes the value written to the data port.
\<close>

definition config_contract ::
  "'d ports \<Rightarrow> ('d \<Rightarrow> u32) \<Rightarrow> ('d \<Rightarrow> u32 \<Rightarrow> u32) \<Rightarrow> (u32 \<Rightarrow> bool) \<Rightarrow> bool" where
  "config_contract P sel cfg rw \<longleftrightarrow>
     (\<forall>d a. sel (outl P PCI_CONFIG_ADDRESS a d) = a \<and> cfg (outl P PCI_CONFIG_ADDRESS a d) = cfg d) \<and>
     (\<forall>d. fst (inl P PCI_CONFIG_DATA d) = cfg d (sel d) \<and>
          sel (snd (inl P PCI_CONFIG_DATA d)) = sel d \<and> cfg (snd (inl P PCI_CONFIG_DATA d)) = cfg d) \<and>
     (\<forall>d v. rw (sel d) \<longrightarrow> cfg (outl P PCI_CONFIG_DATA v d) = (cfg d)(sel d := v))"

text \<open>Fields of the configuration space.\<close>

definition cfg32 :: "(u32 \<Rightarrow> u32) \<Rightarrow> u8 \<Rightarrow> u8 \<Rightarrow> u8 \<Rightarrow> u8 \<Rightarrow> u32" where
  "cfg32 c b dev f off = c (config_address b dev f off)"

definition cfg16 :: "(u32 \<Rightarrow> u32) \<Rightarrow> u8 \<Rightarrow> u8 \<Rightarrow> u8 \<Rightarrow> u8 \<Rightarrow> u16" where
  "cfg16 c b dev f off = ucast (drop_bit (unat (off AND 2) * 8) (cfg32 c b dev f off))"

definition cfg8 :: "(u32 \<Rightarrow> u32) \<Rightarrow> u8 \<Rightarrow> u8 \<Rightarrow> u8 \<Rightarrow> u8 \<Rightarrow> u8" where
  "cfg8 c b dev f off = ucast (drop_bit (unat (off AND 3) * 8) (cfg32 c b dev f off))"

lemma ucast_and_ones: "(ucast (w AND 0xFFFF) :: u16) = ucast w" "(ucast (w AND 0xFF) :: u8) = ucast w" for w :: u32
proof -
  have m: "(0xFFFF :: u32) = mask 16" "(0xFF :: u32) = mask 8" by (simp_all add: mask_eq_exp_minus_1)
  show "(ucast (w AND 0xFFFF) :: u16) = ucast w" "(ucast (w AND 0xFF) :: u8) = ucast w"
    unfolding m by (rule bit_word_eqI; simp add: bit_simps)+
qed

lemma config_reads:
  assumes "config_contract P sel cfg rw"
  shows "fst (pci_config_read32 P b dev f off d) = cfg32 (cfg d) b dev f off"
    "fst (pci_config_read16 P b dev f off d) = cfg16 (cfg d) b dev f off"
    "fst (pci_config_read8 P b dev f off d) = cfg8 (cfg d) b dev f off"
    "cfg (snd (pci_config_read32 P b dev f off d)) = cfg d"
    "cfg (snd (pci_config_read16 P b dev f off d)) = cfg d"
    "cfg (snd (pci_config_read8 P b dev f off d)) = cfg d"
  using assms
  by (simp_all add: config_contract_def pci_config_read32_def pci_config_read16_def pci_config_read8_def split_beta
      cfg32_def cfg16_def cfg8_def ucast_and_ones)

section \<open>The devices of a configuration space\<close>

definition device_at :: "(u32 \<Rightarrow> u32) \<Rightarrow> u8 \<Rightarrow> u8 \<Rightarrow> u8 \<Rightarrow> pci_device_t" where
  "device_at c b dev f =
     \<lparr>bus = b, device = dev, function_no = f, vendor_id = cfg16 c b dev f PCI_VENDOR_ID,
      device_id = cfg16 c b dev f PCI_DEVICE_ID, class_code = cfg8 c b dev f PCI_CLASS_CODE,
      subclass_code = cfg8 c b dev f PCI_SUBCLASS, prog_if = cfg8 c b dev f PCI_PROG_IF,
      revision_id = cfg8 c b dev f PCI_REVISION_ID,
      bar = map (\<lambda>i. cfg32 c b dev f (PCI_BAR0 + of_nat i * 4)) [0..<6],
      interrupt_line = cfg8 c b dev f PCI_INTERRUPT_LINE, interrupt_pin = cfg8 c b dev f PCI_INTERRUPT_PIN\<rparr>"

definition exists_at :: "(u32 \<Rightarrow> u32) \<Rightarrow> u8 \<Rightarrow> u8 \<Rightarrow> u8 \<Rightarrow> bool" where
  "exists_at c b dev f \<longleftrightarrow> cfg16 c b dev f PCI_VENDOR_ID \<noteq> 0xFFFF"

definition multi_function :: "(u32 \<Rightarrow> u32) \<Rightarrow> u8 \<Rightarrow> u8 \<Rightarrow> bool" where
  "multi_function c b dev \<longleftrightarrow> cfg8 c b dev 0 PCI_HEADER_TYPE AND 0x80 \<noteq> 0"

definition functions_of :: "(u32 \<Rightarrow> u32) \<Rightarrow> u8 \<Rightarrow> u8 \<Rightarrow> pci_device_t list" where
  "functions_of c b dev =
     [device_at c b dev (of_nat f).
        f \<leftarrow> [0..<8], exists_at c b dev 0 \<and> exists_at c b dev (of_nat f) \<and> (f = 0 \<or> multi_function c b dev)]"

definition all_functions :: "(u32 \<Rightarrow> u32) \<Rightarrow> pci_device_t list" where
  "all_functions c = [x. b \<leftarrow> [0..<256], dev \<leftarrow> [0..<32], x \<leftarrow> functions_of c (of_nat b) (of_nat dev)]"

definition table :: "('d, 'z) pci_scheme \<Rightarrow> pci_device_t list" where
  "table s = take (pci_device_count s) (pci_devices s)"

definition table_ok :: "('d, 'z) pci_scheme \<Rightarrow> bool" where
  "table_ok s \<longleftrightarrow> length (pci_devices s) = MAX_PCI_DEVICES \<and> pci_device_count s \<le> MAX_PCI_DEVICES"

lemma length_table: "table_ok s \<Longrightarrow> length (table s) = pci_device_count s"
  by (simp add: table_def table_ok_def)

lemma read_bars_contract:
  assumes "config_contract P sel cfg rw"
  shows "fst (read_bars P b dev f is d) = map (\<lambda>i. cfg32 (cfg d) b dev f (PCI_BAR0 + of_nat i * 4)) is \<and>
    cfg (snd (read_bars P b dev f is d)) = cfg d"
  by (induction "is" arbitrary: d) (simp_all add: split_beta config_reads [OF assms])

lemma read_device_contract:
  assumes "config_contract P sel cfg rw"
  shows "fst (read_device P b dev f (cfg16 (cfg d) b dev f PCI_VENDOR_ID) d) = device_at (cfg d) b dev f"
    "cfg (snd (read_device P b dev f vendor d)) = cfg d"
  by (simp_all add: read_device_def device_at_def split_beta config_reads [OF assms] read_bars_contract [OF assms])

text \<open>A loop appends devices to the table until the table is full.\<close>

definition appends ::
  "('d \<Rightarrow> u32 \<Rightarrow> u32) \<Rightarrow> pci_device_t list \<Rightarrow> ('d, 'z) pci_scheme \<Rightarrow> bool \<times> ('d, 'z) pci_scheme \<Rightarrow> bool" where
  "appends cfg xs s r \<longleftrightarrow>
     table_ok (snd r) \<and> cfg (pci_hw (snd r)) = cfg (pci_hw s) \<and>
     table (snd r) = take MAX_PCI_DEVICES (table s @ xs) \<and>
     (fst r \<longrightarrow> pci_device_count (snd r) = MAX_PCI_DEVICES)"

lemma take_take_append: "take n (take n xs @ ys) = take n (xs @ ys)"
  by (cases "n \<le> length xs") simp_all

lemma appends_trans:
  assumes "appends cfg xs s (b, s')" and "appends cfg ys s' r"
  shows "appends cfg (xs @ ys) s r"
  using assms take_take_append [of MAX_PCI_DEVICES "table s @ xs" ys] by (simp add: appends_def del: take_append)

lemma appends_stop:
  assumes "appends cfg xs s (True, s')"
  shows "appends cfg (xs @ ys) s (True, s')"
proof -
  have "MAX_PCI_DEVICES \<le> length (table s @ xs)"
    using assms length_table [of s'] by (auto simp: appends_def min_def split: if_splits)
  then show ?thesis using assms by (auto simp: appends_def)
qed

lemma for_each_appends:
  assumes "\<And>x s. table_ok s \<Longrightarrow> cfg (pci_hw s) = c \<Longrightarrow> appends cfg (g x) s (body x s)"
    and "table_ok s" and "cfg (pci_hw s) = c"
  shows "appends cfg (concat (map g xs)) s (for_each body xs s)"
  using assms(2,3)
proof (induction xs arbitrary: s)
  case Nil
  then show ?case by (simp add: appends_def table_ok_def table_def)
next
  case (Cons x xs)
  obtain stop s' where b: "body x s = (stop, s')" by fastforce
  have a: "appends cfg (g x) s (stop, s')" using assms(1) [OF Cons.prems, of x] b by simp
  show ?case
  proof (cases stop)
    case True
    then show ?thesis using appends_stop [of cfg "g x" s s'] a b by simp
  next
    case False
    then have "appends cfg (concat (map g xs)) s' (for_each body xs s')"
      using a Cons by (auto simp: appends_def)
    then show ?thesis using appends_trans [OF a] b False by simp
  qed
qed

lemma config_read16E:
  assumes "config_contract P sel cfg rw" and "cfg d = c"
  obtains d' where "pci_config_read16 P b dev f off d = (cfg16 c b dev f off, d')" and "cfg d' = c"
  by (rule that [of "snd (pci_config_read16 P b dev f off d)"]) (simp_all add: prod_eq_iff config_reads [OF assms(1)] assms(2))

lemma config_read8E:
  assumes "config_contract P sel cfg rw" and "cfg d = c"
  obtains d' where "pci_config_read8 P b dev f off d = (cfg8 c b dev f off, d')" and "cfg d' = c"
  by (rule that [of "snd (pci_config_read8 P b dev f off d)"]) (simp_all add: prod_eq_iff config_reads [OF assms(1)] assms(2))

lemma read_deviceE:
  assumes "config_contract P sel cfg rw" and "cfg d = c"
  obtains d' where "read_device P b dev f (cfg16 c b dev f PCI_VENDOR_ID) d = (device_at c b dev f, d')" and "cfg d' = c"
  using that [of "snd (read_device P b dev f (cfg16 c b dev f PCI_VENDOR_ID) d)"]
    read_device_contract(1) [OF assms(1), of b dev f d] read_device_contract(2) [OF assms(1), where d = d] assms(2)
  by (simp add: prod_eq_iff)

lemma table_push:
  assumes "table_ok s" and "pci_device_count s < MAX_PCI_DEVICES" and "cfg d = cfg (pci_hw s)"
  shows "appends cfg [x] s (False, s\<lparr>pci_hw := d, pci_devices := (pci_devices s)[pci_device_count s := x],
    pci_device_count := pci_device_count s + 1\<rparr>)"
  using assms length_table [OF assms(1)]
  by (simp add: appends_def table_ok_def table_def take_Suc_conv_app_nth)

lemma appends_nothing: "table_ok s \<Longrightarrow> cfg d = cfg (pci_hw s) \<Longrightarrow> appends cfg [] s (False, s\<lparr>pci_hw := d\<rparr>)"
  by (simp add: appends_def table_ok_def table_def)

lemma appends_full:
  assumes "table_ok s" and "MAX_PCI_DEVICES \<le> pci_device_count s" and "cfg d = cfg (pci_hw s)"
  shows "appends cfg xs s (True, s\<lparr>pci_hw := d\<rparr>)"
proof -
  have "pci_device_count s = MAX_PCI_DEVICES" "length (table s) = MAX_PCI_DEVICES"
    using assms length_table [OF assms(1)] by (simp_all add: table_ok_def)
  then show ?thesis using assms(1,3) by (simp add: appends_def table_ok_def table_def)
qed

lemma appends_table_ok: "appends cfg xs s (b, s') \<Longrightarrow> table_ok s' \<and> cfg (pci_hw s') = cfg (pci_hw s)"
  by (simp add: appends_def)

lemma scan_functions_step:
  fixes s :: "('d, 'z) pci_scheme"
  assumes "config_contract P sel cfg rw" and "cfg (pci_hw s) = c" and "table_ok s"
    and "\<And>s' :: ('d, 'z) pci_scheme. table_ok s' \<Longrightarrow> cfg (pci_hw s') = c \<Longrightarrow> appends cfg later s' (scan_functions P b dev fns s')"
  shows "appends cfg
    ((if exists_at c b dev (of_nat f) then [device_at c b dev (of_nat f)] else []) @
     (if f = 0 \<and> \<not> (exists_at c b dev 0 \<and> multi_function c b dev) then [] else later)) s
    (scan_functions P b dev (f # fns) s)"
proof -
  let ?f = "of_nat f :: u8"
  obtain d where rd: "pci_config_read16 P b dev ?f PCI_VENDOR_ID (pci_hw s) = (cfg16 c b dev ?f PCI_VENDOR_ID, d)" "cfg d = c"
    by (rule config_read16E [OF assms(1,2)])
  let ?s = "s\<lparr>pci_hw := d\<rparr>"
  have ok: "table_ok ?s" using assms(3) by (simp add: table_ok_def)
  have none: "appends cfg [] s (False, ?s)" by (rule appends_nothing) (simp_all add: assms(2,3) rd(2))
  show ?thesis
  proof (cases "exists_at c b dev ?f")
    case False
    have "appends cfg ([] @ later) s (scan_functions P b dev fns ?s)"
      by (rule appends_trans [OF none assms(4) [OF ok]]) (simp add: rd(2))
    moreover have "scan_functions P b dev (f # fns) s = (if f = 0 then (False, ?s) else scan_functions P b dev fns ?s)"
      using False rd(1) by (simp add: exists_at_def Let_def)
    ultimately show ?thesis using False none by (cases f) (simp_all del: scan_functions.simps)
  next
    case ex: True
    show ?thesis
    proof (cases "MAX_PCI_DEVICES \<le> pci_device_count s")
      case True
      then show ?thesis
        using ex rd appends_full [OF assms(3), of cfg d] assms(2) by (simp add: exists_at_def Let_def)
    next
      case False
      obtain d2 where d2: "read_device P b dev ?f (cfg16 c b dev ?f PCI_VENDOR_ID) d = (device_at c b dev ?f, d2)" "cfg d2 = c"
        by (rule read_deviceE [OF assms(1) rd(2)])
      let ?t = "s\<lparr>pci_hw := d2, pci_devices := (pci_devices s)[pci_device_count s := device_at c b dev ?f],
        pci_device_count := pci_device_count s + 1\<rparr>"
      have push: "appends cfg [device_at c b dev ?f] s (False, ?t)"
        by (rule table_push) (use assms False d2(2) in simp_all)
      obtain d3 where d3: "pci_config_read8 P b dev ?f PCI_HEADER_TYPE d2 = (cfg8 c b dev ?f PCI_HEADER_TYPE, d3)" "cfg d3 = c"
        by (rule config_read8E [OF assms(1) d2(2)])
      let ?u = "?t\<lparr>pci_hw := d3\<rparr>"
      note t = appends_table_ok [OF push]
      have "appends cfg [] ?t (False, ?u)" by (rule appends_nothing) (use t d3(2) assms(2) in auto)
      from appends_trans [OF push this] have u: "appends cfg [device_at c b dev ?f] s (False, ?u)" unfolding append_Nil2 .
      have scan: "scan_functions P b dev (f # fns) s =
          (if f = 0 then if cfg8 c b dev ?f PCI_HEADER_TYPE AND 0x80 = 0 then (False, ?u) else scan_functions P b dev fns ?u
           else scan_functions P b dev fns ?t)"
        using ex False rd(1) d2(1) d3(1) by (cases "f = 0") (simp_all add: exists_at_def Let_def)
      have "appends cfg ([device_at c b dev ?f] @ later) s (scan_functions P b dev fns ?t)"
        "appends cfg ([device_at c b dev ?f] @ later) s (scan_functions P b dev fns ?u)"
        by (rule appends_trans [OF push assms(4)] appends_trans [OF u assms(4)];
            use t appends_table_ok [OF u] assms(2) in auto)+
      then show ?thesis using u ex unfolding scan by (cases "f = 0") (simp_all add: multi_function_def)
    qed
  qed
qed

definition later_functions :: "(u32 \<Rightarrow> u32) \<Rightarrow> u8 \<Rightarrow> u8 \<Rightarrow> nat list \<Rightarrow> pci_device_t list" where
  "later_functions c b dev fns = map (\<lambda>f. device_at c b dev (of_nat f)) (filter (\<lambda>f. exists_at c b dev (of_nat f)) fns)"

lemma scan_later_functions:
  fixes s :: "('d, 'z) pci_scheme"
  assumes "config_contract P sel cfg rw" and "0 \<notin> set fns" and "table_ok s" and "cfg (pci_hw s) = c"
  shows "appends cfg (later_functions c b dev fns) s (scan_functions P b dev fns s)"
  using assms(2-)
proof (induction fns arbitrary: s)
  case Nil
  then show ?case by (simp add: later_functions_def appends_def table_ok_def table_def)
next
  case (Cons f fns)
  have IH: "appends cfg (later_functions c b dev fns) s' (scan_functions P b dev fns s')"
    if "table_ok s'" "cfg (pci_hw s') = c" for s' :: "('d, 'z) pci_scheme" by (rule Cons.IH) (use that Cons.prems in simp_all)
  have "f \<noteq> 0" using Cons.prems(1) by auto
  then show ?case using scan_functions_step [OF assms(1) Cons.prems(3,2) IH, of f]
    by (simp add: later_functions_def del: scan_functions.simps split: if_splits)
qed

lemma scan_functions_appends:
  fixes s :: "('d, 'z) pci_scheme"
  assumes "config_contract P sel cfg rw" and "table_ok s" and "cfg (pci_hw s) = c"
  shows "appends cfg (functions_of c b dev) s (scan_functions P b dev [0..<8] s)"
proof -
  have up: "[0..<8] = 0 # [1..<8 :: nat]" by (simp add: upt_rec)
  have "functions_of c b dev = (if exists_at c b dev (of_nat 0) then [device_at c b dev (of_nat 0)] else []) @
      (if 0 = (0 :: nat) \<and> \<not> (exists_at c b dev 0 \<and> multi_function c b dev) then [] else later_functions c b dev [1..<8])"
    unfolding functions_of_def up later_functions_def by (simp add: upt_rec)
  moreover have later: "appends cfg (later_functions c b dev [1..<8]) s' (scan_functions P b dev [1..<8] s')"
    if "table_ok s'" "cfg (pci_hw s') = c" for s' :: "('d, 'z) pci_scheme"
    by (rule scan_later_functions [OF assms(1) _ that]) simp
  ultimately show ?thesis
    using scan_functions_step [OF assms(1,3,2) later, of 0] unfolding up by metis
qed

lemma pci_scan_appends:
  fixes s :: "('d, 'z) pci_scheme"
  assumes "config_contract P sel cfg rw" and "table_ok s"
  shows "appends cfg (all_functions (cfg (pci_hw s))) (s\<lparr>pci_device_count := 0\<rparr>) (False, snd (pci_scan_devices P s))"
proof -
  let ?c = "cfg (pci_hw s)" and ?s = "s\<lparr>pci_device_count := 0\<rparr>"
  have "appends cfg (concat (map (\<lambda>dev. functions_of ?c (of_nat b) (of_nat dev)) [0..<32])) t (scan_bus P b t)"
    if "table_ok t" "cfg (pci_hw t) = ?c" for b and t :: "('d, 'z) pci_scheme"
    unfolding scan_bus_def by (rule for_each_appends) (use that scan_functions_appends [OF assms(1)] in blast)+
  then have "appends cfg (concat (map (\<lambda>b. concat (map (\<lambda>dev. functions_of ?c (of_nat b) (of_nat dev)) [0..<32])) [0..<256])) ?s
      (for_each (scan_bus P) [0..<256] ?s)"
    by (rule for_each_appends) (use assms(2) in \<open>simp_all add: table_ok_def\<close>)
  then show ?thesis
    by (simp add: all_functions_def pci_scan_devices_def split_beta appends_def)
qed

section \<open>Properties\<close>

lemma find_by_index: "find P xs = map_option ((!) xs) (first_index (\<lambda>i. P (xs ! i)) (length xs))"
  using find_map_conv [of P "(!) xs" "[0..<length xs]"] by (simp add: first_index_def map_nth)

text \<open>A host bridge as the standard describes it, with plain storage behind it.\<close>

definition sim_bridge :: "(u32 \<times> (u32 \<Rightarrow> u32)) ports" where
  "sim_bridge =
     \<lparr>inb = (\<lambda>port d. (0, d)), outb = (\<lambda>port v d. d), inw = (\<lambda>port d. (0, d)), outw = (\<lambda>port v d. d),
      inl = (\<lambda>port d. (if port = PCI_CONFIG_DATA then snd d (fst d) else 0, d)),
      outl = (\<lambda>port v d. if port = PCI_CONFIG_ADDRESS then (v, snd d)
                else if port = PCI_CONFIG_DATA then (fst d, (snd d)(fst d := v)) else d)\<rparr>"

lemma sim_bridge_contract: "config_contract sim_bridge fst snd (\<lambda>a. True)"
  by (simp add: config_contract_def sim_bridge_def PCI_CONFIG_ADDRESS_def PCI_CONFIG_DATA_def)

text \<open>
  C23. The scan is complete. Whatever was in the table before, after a scan it holds, in order of bus, device and
  function number, exactly the functions that the configuration space shows, with their fields, up to the
  first 256, and the count is theirs. A search by vendor and device number finds the first match.
\<close>

theorem pci_scan_complete:
  assumes "config_contract P sel cfg rw" and "table_ok s"
  shows "case pci_scan_devices P s of (n, s') \<Rightarrow>
    let found = take 256 (all_functions (cfg (pci_hw s))) in
      n = length found \<and> take n (pci_devices s') = found \<and>
      (case pci_find_device v did s' of
         None \<Rightarrow> \<forall>x \<in> set found. \<not> (vendor_id x = v \<and> device_id x = did)
       | Some i \<Rightarrow> find (\<lambda>x. vendor_id x = v \<and> device_id x = did) found = Some (pci_devices s' ! i))"
proof -
  let ?s = "snd (pci_scan_devices P s)" and ?found = "take 256 (all_functions (cfg (pci_hw s)))"
  let ?p = "\<lambda>x. vendor_id x = v \<and> device_id x = did"
  have n: "fst (pci_scan_devices P s) = pci_device_count ?s" by (simp add: pci_scan_devices_def split_beta)
  have ok: "table_ok ?s" and tab: "table ?s = ?found"
    using pci_scan_appends [OF assms] by (simp_all add: appends_def table_def MAX_PCI_DEVICES_def)
  have len: "pci_device_count ?s = length ?found" using length_table [OF ok] tab by simp
  have nth: "pci_devices ?s ! i = ?found ! i" if "i < length ?found" for i
    using nth_take [of i "pci_device_count ?s" "pci_devices ?s"] that unfolding len [symmetric] tab [unfolded table_def] by metis
  have dev: "pci_find_device v did ?s = first_index (\<lambda>i. ?p (?found ! i)) (length ?found)"
    unfolding pci_find_device_def len by (rule first_index_cong [OF refl]) (simp only: nth)
  have "case pci_find_device v did ?s of None \<Rightarrow> \<forall>x \<in> set ?found. \<not> ?p x
    | Some i \<Rightarrow> find ?p ?found = Some (pci_devices ?s ! i)"
  proof (cases "pci_find_device v did ?s")
    case None
    then show ?thesis using find_by_index [of ?p ?found] unfolding dev by (auto simp: find_None_iff)
  next
    case (Some i)
    then have "i < length ?found" unfolding dev first_index_Some_iff by blast
    then show ?thesis using find_by_index [of ?p ?found] Some unfolding dev by (simp add: nth)
  qed
  then show ?thesis using n len tab by (simp add: split_beta Let_def table_def)
qed

theorem pci_scan_complete_witness:
  "case pci_scan_devices sim_bridge \<lparr>pci_devices = replicate 256 (device_at (\<lambda>a. 0) 0 0 0), pci_device_count = 0, pci_hw = (0, \<lambda>a. 0x100E8086)\<rparr> of
    (n, s') \<Rightarrow>
      let found = take 256 (all_functions (\<lambda>a. 0x100E8086)) in
      n = length found \<and> take n (pci_devices s') = found \<and>
      (case pci_find_device 0x8086 0x100E s' of
         None \<Rightarrow> \<forall>x \<in> set found. \<not> (vendor_id x = 0x8086 \<and> device_id x = 0x100E)
       | Some i \<Rightarrow> find (\<lambda>x. vendor_id x = 0x8086 \<and> device_id x = 0x100E) found = Some (pci_devices s' ! i))"
  using pci_scan_complete [OF sim_bridge_contract, where s = "\<lparr>pci_devices = replicate 256 (device_at (\<lambda>a. 0) 0 0 0),
      pci_device_count = 0, pci_hw = (0, \<lambda>a. 0x100E8086)\<rparr>" and v = "0x8086" and did = "0x100E"]
  by (simp add: table_ok_def MAX_PCI_DEVICES_def)

lemma byte_of_update:
  fixes w :: u32 and v :: u8
  assumes "k < 4" and "j < 4"
  shows "(ucast (drop_bit (8 * j) (w AND NOT (push_bit (8 * k) 0xFF) OR push_bit (8 * k) (ucast v))) :: u8) =
    (if j = k then v else ucast (drop_bit (8 * j) w))"
proof -
  have m: "(0xFF :: u32) = mask 8" by (simp add: mask_eq_exp_minus_1)
  show ?thesis
    unfolding m using assms
    by (intro bit_word_eqI) (auto simp: bit_simps dest: bit_imp_le_length)
qed

lemma half_of_update:
  fixes w :: u32 and v :: u16
  assumes "k = 0 \<or> k = 2" and "j = 0 \<or> j = 2"
  shows "(ucast (drop_bit (8 * j) (w AND NOT (push_bit (8 * k) 0xFFFF) OR push_bit (8 * k) (ucast v))) :: u16) =
    (if j = k then v else ucast (drop_bit (8 * j) w))"
proof -
  have m: "(0xFFFF :: u32) = mask 16" by (simp add: mask_eq_exp_minus_1)
  show ?thesis
    unfolding m using assms
    by (intro bit_word_eqI) (auto simp: bit_simps dest: bit_imp_le_length)
qed

lemma low_bits:
  fixes off :: u8
  shows "unat (off AND 3) < 4" "unat (off AND 2) = 0 \<or> unat (off AND 2) = 2"
proof -
  have "off AND 3 = take_bit 2 off" by (simp add: take_bit_eq_mask mask_eq_exp_minus_1)
  then have "unat (off AND 3) = unat off mod 4" by (simp add: take_bit_eq_mod unat_mod)
  then show "unat (off AND 3) < 4" by simp
  have "off AND push_bit 1 1 = (if bit off 1 then push_bit 1 1 else 0)"
    by (rule bit_word_eqI) (auto simp: bit_simps)
  then have "off AND 2 = (if bit off 1 then 2 else 0)" by (simp add: push_bit_of_1)
  then show "unat (off AND 2) = 0 \<or> unat (off AND 2) = 2" by auto
qed

text \<open>
  A write to part of a configuration register changes that part only: after the 8-bit and the 16-bit write to a
  register that is plain storage, the bytes and halves read back are the value at the place written to and the
  old ones everywhere else.
\<close>

theorem pci_config_write_part:
  assumes "config_contract P sel cfg rw" and "rw (config_address b dev f off)"
  shows "fst (pci_config_read8 P b' dev' f' off' (pci_config_write8 P b dev f off v d)) =
      (if config_address b' dev' f' off' = config_address b dev f off \<and> off' AND 3 = off AND 3 then v
       else fst (pci_config_read8 P b' dev' f' off' d)) \<and>
    fst (pci_config_read16 P b' dev' f' off' (pci_config_write16 P b dev f off w d)) =
      (if config_address b' dev' f' off' = config_address b dev f off \<and> off' AND 2 = off AND 2 then w
       else fst (pci_config_read16 P b' dev' f' off' d))"
proof -
  let ?a = "config_address b dev f off"
  have "cfg (pci_config_write8 P b dev f off v d) = (cfg d)(?a := cfg d ?a AND NOT (push_bit (8 * unat (off AND 3)) 0xFF)
      OR push_bit (8 * unat (off AND 3)) (ucast v))"
    "cfg (pci_config_write16 P b dev f off w d) = (cfg d)(?a := cfg d ?a AND NOT (push_bit (8 * unat (off AND 2)) 0xFFFF)
      OR push_bit (8 * unat (off AND 2)) (ucast w))"
    using assms by (simp_all add: config_contract_def pci_config_write8_def pci_config_write16_def split_beta Let_def mult.commute)
  note c = this
  show ?thesis
    unfolding config_reads [OF assms(1)] cfg8_def cfg16_def cfg32_def c fun_upd_apply mult.commute [of _ 8]
    using byte_of_update [OF low_bits(1) [of off] low_bits(1) [of off'], of "cfg d ?a" v]
      half_of_update [OF low_bits(2) [of off] low_bits(2) [of off'], of "cfg d ?a" w]
    by (auto simp only: word_unat_eq_iff [of "off' AND 3"] word_unat_eq_iff [of "off' AND 2"] if_True if_False split: if_split)
qed

theorem pci_config_write_part_witness:
  "fst (pci_config_read8 sim_bridge 0 3 0 5 (pci_config_write8 sim_bridge 0 3 0 4 7 (0, \<lambda>a. 0))) =
      (if config_address 0 3 0 5 = config_address 0 3 0 4 \<and> (5 :: u8) AND 3 = 4 AND 3 then 7
       else fst (pci_config_read8 sim_bridge 0 3 0 5 (0, \<lambda>a. 0))) \<and>
    fst (pci_config_read16 sim_bridge 0 3 0 5 (pci_config_write16 sim_bridge 0 3 0 4 7 (0, \<lambda>a. 0))) =
      (if config_address 0 3 0 5 = config_address 0 3 0 4 \<and> (5 :: u8) AND 2 = 4 AND 2 then 7
       else fst (pci_config_read16 sim_bridge 0 3 0 5 (0, \<lambda>a. 0)))"
  by (rule pci_config_write_part [OF sim_bridge_contract]) simp

end
