(* ===== verification/Timer.thy ===== *)
theory Timer
  imports Ports
begin

text \<open>
  The interrupt controllers and the interval timer (the hardware side of \<^verbatim>\<open>timer/timer.c\<close>; the tick counter and the
  handler of the timer interrupt are with the scheduler). What the two 8259 controllers and the 8254 timer do
  with the bytes they are sent is stated as their data sheets describe it, in \<open>timer_contract\<close>.
\<close>

section \<open>Ports and commands\<close>

definition PIT_CHANNEL0_DATA :: u16 where "PIT_CHANNEL0_DATA = 0x40"
definition PIT_COMMAND :: u16 where "PIT_COMMAND = 0x43"
definition PIT_CMD_CHANNEL0 :: u8 where "PIT_CMD_CHANNEL0 = 0x00"
definition PIT_CMD_ACCESS_LOHI :: u8 where "PIT_CMD_ACCESS_LOHI = 0x30"
definition PIT_CMD_MODE_SQUARE :: u8 where "PIT_CMD_MODE_SQUARE = 0x06"
definition PIT_CMD_BINARY :: u8 where "PIT_CMD_BINARY = 0x00"
definition PIC1_COMMAND :: u16 where "PIC1_COMMAND = 0x20"
definition PIC1_DATA :: u16 where "PIC1_DATA = 0x21"
definition PIC2_COMMAND :: u16 where "PIC2_COMMAND = 0xA0"
definition PIC2_DATA :: u16 where "PIC2_DATA = 0xA1"
definition PIC_EOI :: u8 where "PIC_EOI = 0x20"
definition ICW1_ICW4 :: u8 where "ICW1_ICW4 = 0x01"
definition ICW1_INIT :: u8 where "ICW1_INIT = 0x10"
definition ICW4_8086 :: u8 where "ICW4_8086 = 0x01"
definition PIT_FREQUENCY :: nat where "PIT_FREQUENCY = 1193182"
definition TIMER_HZ :: nat where "TIMER_HZ = 1000"
definition IRQ_TIMER :: u8 where "IRQ_TIMER = 0"

lemmas timer_ports = PIT_CHANNEL0_DATA_def PIT_COMMAND_def PIC1_COMMAND_def PIC1_DATA_def PIC2_COMMAND_def PIC2_DATA_def
lemmas timer_commands = PIT_CMD_CHANNEL0_def PIT_CMD_ACCESS_LOHI_def PIT_CMD_MODE_SQUARE_def PIT_CMD_BINARY_def
  PIC_EOI_def ICW1_ICW4_def ICW1_INIT_def ICW4_8086_def

section \<open>Operations\<close>

definition io_wait :: "u16 \<times> u8" where
  "io_wait = (0x80, 0)"

definition pic_init :: "'d ports \<Rightarrow> 'd \<Rightarrow> 'd" where
  "pic_init P d =
     (case inb P PIC1_DATA d of
        (mask1, d) \<Rightarrow>
          (case inb P PIC2_DATA d of
             (mask2, d) \<Rightarrow>
               outb_seq P
                 [(PIC1_COMMAND, ICW1_INIT OR ICW1_ICW4), io_wait, (PIC2_COMMAND, ICW1_INIT OR ICW1_ICW4), io_wait,
                  (PIC1_DATA, 0x20), io_wait, (PIC2_DATA, 0x28), io_wait,
                  (PIC1_DATA, 0x04), io_wait, (PIC2_DATA, 0x02), io_wait,
                  (PIC1_DATA, ICW4_8086), io_wait, (PIC2_DATA, ICW4_8086), io_wait,
                  (PIC1_DATA, mask1), (PIC2_DATA, mask2)] d))"

definition pic_send_eoi :: "'d ports \<Rightarrow> u8 \<Rightarrow> 'd \<Rightarrow> 'd" where
  "pic_send_eoi P irq d =
     outb P PIC1_COMMAND PIC_EOI (if 8 \<le> irq then outb P PIC2_COMMAND PIC_EOI d else d)"

definition irq_port :: "u8 \<Rightarrow> u16 \<times> nat" where
  "irq_port irq = (if irq < 8 then (PIC1_DATA, unat irq) else (PIC2_DATA, unat (irq - 8)))"

text \<open>The shifts are done in \<open>int\<close> and cut to eight bits.\<close>

definition pic_set_mask :: "'d ports \<Rightarrow> u8 \<Rightarrow> 'd \<Rightarrow> 'd" where
  "pic_set_mask P irq d =
     (case irq_port irq of (port, n) \<Rightarrow>
        (case inb P port d of (v, d) \<Rightarrow> outb P port (v OR ucast (push_bit n 1 :: u32)) d))"

definition pic_clear_mask :: "'d ports \<Rightarrow> u8 \<Rightarrow> 'd \<Rightarrow> 'd" where
  "pic_clear_mask P irq d =
     (case irq_port irq of (port, n) \<Rightarrow>
        (case inb P port d of (v, d) \<Rightarrow> outb P port (v AND ucast (NOT (push_bit n 1 :: u32))) d))"

text \<open>The second component is the interrupt flag of the processor, set by \<open>sti\<close>.\<close>

definition timer_init :: "'d ports \<Rightarrow> 'd \<Rightarrow> 'd \<times> bool" where
  "timer_init P d =
     (let d = pic_init P d;
          divisor = of_nat (PIT_FREQUENCY div TIMER_HZ) :: u16;
          d = outb_seq P
                [(PIT_COMMAND, PIT_CMD_CHANNEL0 OR PIT_CMD_ACCESS_LOHI OR PIT_CMD_MODE_SQUARE OR PIT_CMD_BINARY),
                 (PIT_CHANNEL0_DATA, ucast (divisor AND 0xFF)), io_wait,
                 (PIT_CHANNEL0_DATA, ucast (drop_bit 8 divisor AND 0xFF))] d
      in (pic_clear_mask P IRQ_TIMER d, True))"

text \<open>
  Busy waiting. The list holds the values the loop reads from the tick counter, which the timer interrupt advances;
  the result is what is left of it, \<open>None\<close> if the loop is still spinning.
\<close>

fun spin_until :: "u64 \<Rightarrow> u64 list \<Rightarrow> u64 list option" where
  "spin_until target [] = None"
| "spin_until target (t # ts) = (if t < target then spin_until target ts else Some ts)"

definition timer_sleep_ms :: "u32 \<Rightarrow> u64 \<Rightarrow> u64 list \<Rightarrow> u64 list option" where
  "timer_sleep_ms ms ticks reads = spin_until (ticks + ucast ms) reads"

section \<open>The chips\<close>

text \<open>
  An 8259 controller, as its data sheet describes it: the initialisation word it waits for next (0 when it is ready), what
  word 1 said of the rest of the sequence and of the triggering, its vector base, cascade wiring, mode (word 4)
  and mask. A command byte with bit 4 set is word 1: it starts the sequence, clears the mask and all word 4 functions, and
  says whether word 3 (bit 1 clear: not single) and word 4 (bit 0 set) follow. Other command bytes change none of
  this. A data byte is the word waited for, or the mask.
\<close>

record pic8259 =
  awaiting :: nat
  single :: bool
  with_icw4 :: bool
  level_triggered :: bool
  vector_base :: u8
  cascade :: u8
  pic_mode :: u8
  imr :: u8

definition pic_command_byte :: "u8 \<Rightarrow> pic8259 \<Rightarrow> pic8259" where
  "pic_command_byte v p =
     (if bit v 4
      then p\<lparr>awaiting := 2, single := bit v 1, with_icw4 := bit v 0, level_triggered := bit v 3, pic_mode := 0, imr := 0\<rparr>
      else p)"

definition pic_data_byte :: "u8 \<Rightarrow> pic8259 \<Rightarrow> pic8259" where
  "pic_data_byte v p =
     (if awaiting p = 2
      then p\<lparr>vector_base := v AND 0xF8, awaiting := (if \<not> single p then 3 else if with_icw4 p then 4 else 0)\<rparr>
      else if awaiting p = 3 then p\<lparr>cascade := v, awaiting := (if with_icw4 p then 4 else 0)\<rparr>
      else if awaiting p = 4 then p\<lparr>pic_mode := v, awaiting := 0\<rparr>
      else p\<lparr>imr := v\<rparr>)"

text \<open>
  Channel 0 of the 8254 timer: access mode (1 low byte only, 2 high byte only, 3 low byte then high byte; 0 before it is first
  programmed), counting mode, decimal or binary counting, the low byte of a pair half written, and the reload value. A control
  byte for another channel, the read-back command (channel bits 3) and the latch command (access bits 0) change
  none of it; modes 6 and 7 are modes 2 and 3.
\<close>

record pit8254 =
  access_mode :: nat
  counting_mode :: nat
  counts_decimal :: bool
  low_byte :: "u8 option"
  reload :: u16

definition pit_control_byte :: "u8 \<Rightarrow> pit8254 \<Rightarrow> pit8254" where
  "pit_control_byte v t =
     (let channel = unat v div 64; acc = unat v div 16 mod 4; mode = unat v div 2 mod 8
      in if channel = 0 \<and> acc \<noteq> 0
         then t\<lparr>access_mode := acc, counting_mode := (if 6 \<le> mode then mode - 4 else mode), counts_decimal := odd (unat v),
                low_byte := None\<rparr>
         else t)"

definition pit_data_byte :: "u8 \<Rightarrow> pit8254 \<Rightarrow> pit8254" where
  "pit_data_byte v t =
     (if access_mode t = 1 then t\<lparr>reload := ucast v\<rparr>
      else if access_mode t = 2 then t\<lparr>reload := push_bit 8 (ucast v)\<rparr>
      else if access_mode t = 3 then
        (case low_byte t of
           None \<Rightarrow> t\<lparr>low_byte := Some v\<rparr>
         | Some l \<Rightarrow> t\<lparr>low_byte := None, reload := ucast l OR push_bit 8 (ucast v)\<rparr>)
      else t)"

text \<open>The input clocks between two interrupts: in binary counting a reload value of zero counts 65536.\<close>

definition pit_period :: "pit8254 \<Rightarrow> nat" where
  "pit_period t = (if reload t = 0 then 65536 else unat (reload t))"

definition timer_contract ::
  "'d ports \<Rightarrow> ('d \<Rightarrow> pic8259) \<Rightarrow> ('d \<Rightarrow> pic8259) \<Rightarrow> ('d \<Rightarrow> pit8254) \<Rightarrow> bool" where
  "timer_contract P pic1 pic2 pit \<longleftrightarrow>
     (\<forall>d port v. pic1 (outb P port v d) =
        (if port = PIC1_COMMAND then pic_command_byte v (pic1 d) else if port = PIC1_DATA then pic_data_byte v (pic1 d) else pic1 d)) \<and>
     (\<forall>d port v. pic2 (outb P port v d) =
        (if port = PIC2_COMMAND then pic_command_byte v (pic2 d) else if port = PIC2_DATA then pic_data_byte v (pic2 d) else pic2 d)) \<and>
     (\<forall>d port v. pit (outb P port v d) =
        (if port = PIT_COMMAND then pit_control_byte v (pit d)
         else if port = PIT_CHANNEL0_DATA then pit_data_byte v (pit d) else pit d)) \<and>
     (\<forall>d port. pic1 (snd (inb P port d)) = pic1 d \<and> pic2 (snd (inb P port d)) = pic2 d \<and> pit (snd (inb P port d)) = pit d) \<and>
     (\<forall>d. fst (inb P PIC1_DATA d) = imr (pic1 d) \<and> fst (inb P PIC2_DATA d) = imr (pic2 d))"

text \<open>Both controllers and the timer as a simulated machine.\<close>

definition sim_chips :: "(pic8259 \<times> pic8259 \<times> pit8254) ports" where
  "sim_chips =
     \<lparr>inb = (\<lambda>port (p, q, t). (if port = PIC1_DATA then imr p else if port = PIC2_DATA then imr q else 0, (p, q, t))),
      outb = (\<lambda>port v (p, q, t).
        (if port = PIC1_COMMAND then pic_command_byte v p else if port = PIC1_DATA then pic_data_byte v p else p,
         if port = PIC2_COMMAND then pic_command_byte v q else if port = PIC2_DATA then pic_data_byte v q else q,
         if port = PIT_COMMAND then pit_control_byte v t
         else if port = PIT_CHANNEL0_DATA then pit_data_byte v t else t)),
      inw = (\<lambda>port d. (0, d)), outw = (\<lambda>port v d. d), inl = (\<lambda>port d. (0, d)), outl = (\<lambda>port v d. d)\<rparr>"

lemma sim_chips_contract: "timer_contract sim_chips fst (\<lambda>d. fst (snd d)) (\<lambda>d. snd (snd d))"
  unfolding timer_contract_def sim_chips_def by (auto simp: timer_ports split: prod.split)

lemma contract_bytes:
  assumes "timer_contract P pic1 pic2 pit"
  shows "pic1 (outb P port v d) =
      (if port = PIC1_COMMAND then pic_command_byte v (pic1 d) else if port = PIC1_DATA then pic_data_byte v (pic1 d) else pic1 d)"
    "pic2 (outb P port v d) =
      (if port = PIC2_COMMAND then pic_command_byte v (pic2 d) else if port = PIC2_DATA then pic_data_byte v (pic2 d) else pic2 d)"
    "pit (outb P port v d) =
      (if port = PIT_COMMAND then pit_control_byte v (pit d)
       else if port = PIT_CHANNEL0_DATA then pit_data_byte v (pit d) else pit d)"
    "pic1 (snd (inb P port d)) = pic1 d" "pic2 (snd (inb P port d)) = pic2 d" "pit (snd (inb P port d)) = pit d"
    "fst (inb P PIC1_DATA d) = imr (pic1 d)" "fst (inb P PIC2_DATA d) = imr (pic2 d)"
  using assms unfolding timer_contract_def by blast+

lemmas contract_ports = contract_bytes [unfolded timer_ports]

lemma pic_init_programs:
  assumes "timer_contract P pic1 pic2 pit"
  shows "pic1 (pic_init P d) = \<lparr>awaiting = 0, single = False, with_icw4 = True, level_triggered = False,
      vector_base = 0x20, cascade = 4, pic_mode = 1, imr = imr (pic1 d)\<rparr>"
    "pic2 (pic_init P d) = \<lparr>awaiting = 0, single = False, with_icw4 = True, level_triggered = False,
      vector_base = 0x28, cascade = 2, pic_mode = 1, imr = imr (pic2 d)\<rparr>"
    "pit (pic_init P d) = pit d"
  by (simp_all add: pic_init_def split_beta contract_ports [OF assms] io_wait_def pic_command_byte_def pic_data_byte_def
      timer_ports timer_commands bit_simps pic8259.equality)

definition masked :: "('d \<Rightarrow> pic8259) \<Rightarrow> ('d \<Rightarrow> pic8259) \<Rightarrow> 'd \<Rightarrow> nat \<Rightarrow> bool" where
  "masked pic1 pic2 d line = (if line < 8 then bit (imr (pic1 d)) line else bit (imr (pic2 d)) (line - 8))"

lemma mask_bits:
  fixes v :: u8
  assumes "n < 8"
  shows "bit (v OR ucast (push_bit n 1 :: u32)) k = (k = n \<or> bit v k)"
    "bit (v AND ucast (NOT (push_bit n 1 :: u32))) k = (k \<noteq> n \<and> bit v k)"
  using assms by (auto simp: bit_simps dest: bit_imp_le_length)

lemma irq_port_cases:
  assumes "irq < 16"
  shows "irq_port irq = (if unat irq < 8 then (PIC1_DATA, unat irq) else (PIC2_DATA, unat irq - 8))" and "unat irq < 16"
proof -
  show "unat irq < 16" using assms by (simp add: word_less_nat_alt)
  have "irq < 8 \<longleftrightarrow> unat irq < 8" by (simp add: word_less_nat_alt)
  moreover have "unat (irq - 8) = unat irq - 8" if "\<not> unat irq < 8" using that by (simp add: unat_sub_no_wrap)
  ultimately show "irq_port irq = (if unat irq < 8 then (PIC1_DATA, unat irq) else (PIC2_DATA, unat irq - 8))"
    by (simp add: irq_port_def)
qed

text \<open>
  Masking and unmasking an interrupt line changes that line and no other, on whichever of the two
  controllers it is.
\<close>

theorem pic_mask_exact:
  assumes "timer_contract P pic1 pic2 pit" and "awaiting (pic1 d) = 0" and "awaiting (pic2 d) = 0" and "irq < 16" and "line < 16"
  shows "masked pic1 pic2 (pic_set_mask P irq d) line = (line = unat irq \<or> masked pic1 pic2 d line) \<and>
    masked pic1 pic2 (pic_clear_mask P irq d) line = (line \<noteq> unat irq \<and> masked pic1 pic2 d line)"
  using assms(2,3,5) irq_port_cases [OF assms(4)] mask_bits
  by (auto simp: masked_def pic_set_mask_def pic_clear_mask_def split_beta contract_ports [OF assms(1)] pic_data_byte_def timer_ports)

definition sample_pic :: "u8 \<Rightarrow> pic8259" where
  "sample_pic m = \<lparr>awaiting = 0, single = False, with_icw4 = True, level_triggered = False, vector_base = 0x70, cascade = 0,
     pic_mode = 0, imr = m\<rparr>"

definition sample_pit :: pit8254 where
  "sample_pit = \<lparr>access_mode = 1, counting_mode = 2, counts_decimal = True, low_byte = Some 3, reload = 0\<rparr>"

theorem pic_mask_exact_witness:
  "\<not> masked fst (\<lambda>d. fst (snd d)) (pic_clear_mask sim_chips 9 (sample_pic 0xFF, sample_pic 0xFF, sample_pit)) 9"
  using pic_mask_exact [OF sim_chips_contract, of "(sample_pic 0xFF, sample_pic 0xFF, sample_pit)" 9 9]
  by (simp add: sample_pic_def)

text \<open>
  C31. The set-up of the timer. Whatever state the chips were in, \<^verbatim>\<open>timer_init\<close> leaves both interrupt controllers out of
  their initialisation sequence, edge triggered, in 8086 mode and wired to each other on line 2, with interrupts 0 to 15 at
  vectors 32 to 47. Every mask bit is as it was, except that the timer's is clear (the comment at timer.c:43 that says all lines but
  the timer's are masked is not what the code does). Channel 0 of the interval timer counts in binary as a
  square wave generator, with no byte pending, and divides the 1193182 Hz clock by 1193, which is 1000 Hz to within a fifth of a
  hertz. Interrupts are enabled.
\<close>

theorem timer_init_programs:
  assumes "timer_contract P pic1 pic2 pit"
  shows "case timer_init P d of (d', enabled) \<Rightarrow> enabled \<and>
    pic1 d' = \<lparr>awaiting = 0, single = False, with_icw4 = True, level_triggered = False,
      vector_base = 32, cascade = push_bit 2 1, pic_mode = 1, imr = imr (pic1 d) AND NOT 1\<rparr> \<and>
    pic2 d' = \<lparr>awaiting = 0, single = False, with_icw4 = True, level_triggered = False,
      vector_base = 40, cascade = 2, pic_mode = 1, imr = imr (pic2 d)\<rparr> \<and>
    access_mode (pit d') = 3 \<and> counting_mode (pit d') = 3 \<and> \<not> counts_decimal (pit d') \<and> low_byte (pit d') = None \<and>
    pit_period (pit d') = 1193 \<and> 9998 * pit_period (pit d') \<le> 1193182 * 10 \<and> 1193182 * 10 \<le> 10002 * pit_period (pit d')"
proof -
  have cut: "(4294967294 :: u8) = - 2" by simp
  show ?thesis
    by (simp add: timer_init_def Let_def split_beta contract_ports [OF assms] pic_init_programs [OF assms] io_wait_def
      pic_clear_mask_def irq_port_def IRQ_TIMER_def pic_data_byte_def pit_data_byte_def pit_control_byte_def pit_period_def
      timer_ports timer_commands PIT_FREQUENCY_def TIMER_HZ_def) (simp only: cut)
qed

theorem timer_init_programs_witness:
  "case timer_init sim_chips (sample_pic 0xB9, sample_pic 0x8F, sample_pit) of
     (d', enabled) \<Rightarrow> enabled \<and> imr (fst d') = 0xB8 \<and> counting_mode (snd (snd d')) = 3 \<and> pit_period (snd (snd d')) = 1193"
  using timer_init_programs [OF sim_chips_contract, of "(sample_pic 0xB9, sample_pic 0x8F, sample_pit)"]
  by (simp add: split_beta sample_pic_def)

end
