(* ===== verification/Gdt.thy ===== *)
theory Gdt
  imports Cgos_Prelude
begin

text \<open>
  The global descriptor table and the task state segment (\<^verbatim>\<open>gdt/gdt.c\<close>). The addresses of the two static objects
  are arguments. What \<^verbatim>\<open>lgdt\<close> and \<^verbatim>\<open>ltr\<close> load is recorded in the state.
\<close>

section \<open>State\<close>

record gdt_entry_t =
  limit_low :: u16
  base_low :: u16
  base_mid :: u8
  access :: u8
  flags_limit_high :: u8
  base_high :: u8

record tss_descriptor_t = gdt_entry_t +
  base_upper :: u32
  tss_reserved :: u32

record tss_t =
  rsp0 :: u64
  rsp1 :: u64
  rsp2 :: u64
  ist :: "u64 list"
  iopb_offset :: u16

record gdt_ptr_t =
  gdt_limit :: u16
  gdt_base :: u64

record gdt =
  entries :: "gdt_entry_t list"
  tss_desc :: tss_descriptor_t
  tss :: tss_t
  gdtr :: "gdt_ptr_t option"
  code_selector :: u16
  data_selector :: u16
  task_register :: u16

definition GDT_KERNEL_CODE :: u16 where "GDT_KERNEL_CODE = 0x08"
definition GDT_KERNEL_DATA :: u16 where "GDT_KERNEL_DATA = 0x10"
definition GDT_TSS :: u16 where "GDT_TSS = 0x28"
definition GDT_ACCESS_PRESENT :: u8 where "GDT_ACCESS_PRESENT = push_bit 7 1"
definition GDT_ACCESS_DPL0 :: u8 where "GDT_ACCESS_DPL0 = 0"
definition GDT_ACCESS_DPL3 :: u8 where "GDT_ACCESS_DPL3 = push_bit 5 3"
definition GDT_ACCESS_SEGMENT :: u8 where "GDT_ACCESS_SEGMENT = push_bit 4 1"
definition GDT_ACCESS_EXECUTABLE :: u8 where "GDT_ACCESS_EXECUTABLE = push_bit 3 1"
definition GDT_ACCESS_RW :: u8 where "GDT_ACCESS_RW = push_bit 1 1"
definition GDT_FLAG_GRANULARITY :: u8 where "GDT_FLAG_GRANULARITY = push_bit 7 1"
definition GDT_FLAG_LONG :: u8 where "GDT_FLAG_LONG = push_bit 5 1"
definition TSS_ACCESS_PRESENT :: u8 where "TSS_ACCESS_PRESENT = push_bit 7 1"
definition TSS_ACCESS_DPL0 :: u8 where "TSS_ACCESS_DPL0 = 0"
definition TSS_ACCESS_TYPE_TSS :: u8 where "TSS_ACCESS_TYPE_TSS = 0x09"

lemmas gdt_constants = GDT_KERNEL_CODE_def GDT_KERNEL_DATA_def GDT_TSS_def GDT_ACCESS_PRESENT_def GDT_ACCESS_DPL0_def
  GDT_ACCESS_DPL3_def GDT_ACCESS_SEGMENT_def GDT_ACCESS_EXECUTABLE_def GDT_ACCESS_RW_def GDT_FLAG_GRANULARITY_def
  GDT_FLAG_LONG_def TSS_ACCESS_PRESENT_def TSS_ACCESS_DPL0_def TSS_ACCESS_TYPE_TSS_def

section \<open>Operations\<close>

definition gdt_set_entry :: "nat \<Rightarrow> u32 \<Rightarrow> u32 \<Rightarrow> u8 \<Rightarrow> u8 \<Rightarrow> gdt \<Rightarrow> gdt" where
  "gdt_set_entry index base limit acc flags s =
     s\<lparr>entries := (entries s)[index :=
         \<lparr>limit_low = ucast (limit AND 0xFFFF), base_low = ucast (base AND 0xFFFF),
          base_mid = ucast (drop_bit 16 base AND 0xFF), access = acc,
          flags_limit_high = ucast (drop_bit 16 limit AND 0x0F) OR (flags AND 0xF0),
          base_high = ucast (drop_bit 24 base AND 0xFF)\<rparr>]\<rparr>"

definition gdt_set_tss :: "u64 \<Rightarrow> u32 \<Rightarrow> gdt \<Rightarrow> gdt" where
  "gdt_set_tss tss_addr tss_size s =
     s\<lparr>tss_desc :=
         \<lparr>limit_low = ucast (tss_size AND 0xFFFF), base_low = ucast (tss_addr AND 0xFFFF),
          base_mid = ucast (drop_bit 16 tss_addr AND 0xFF),
          access = TSS_ACCESS_PRESENT OR TSS_ACCESS_DPL0 OR TSS_ACCESS_TYPE_TSS,
          flags_limit_high = ucast (drop_bit 16 tss_size AND 0x0F),
          base_high = ucast (drop_bit 24 tss_addr AND 0xFF),
          base_upper = ucast (drop_bit 32 tss_addr AND 0xFFFFFFFF), tss_reserved = 0\<rparr>\<rparr>"

definition zero_entry :: gdt_entry_t where
  "zero_entry = \<lparr>limit_low = 0, base_low = 0, base_mid = 0, access = 0, flags_limit_high = 0, base_high = 0\<rparr>"

definition zero_tss :: tss_t where
  "zero_tss = \<lparr>rsp0 = 0, rsp1 = 0, rsp2 = 0, ist = replicate 7 0, iopb_offset = 0\<rparr>"

definition gdt_load :: "gdt_ptr_t \<Rightarrow> u16 \<Rightarrow> u16 \<Rightarrow> gdt \<Rightarrow> gdt" where
  "gdt_load ptr code data s = s\<lparr>gdtr := Some ptr, code_selector := code, data_selector := data\<rparr>"

text \<open>
  The table has five entries of 8 bytes and a descriptor of 16; the structure that holds them is aligned to 16 bytes, so its size is
  rounded up from 56 to 64. The task state segment has 104 bytes.
\<close>

definition gdt_init :: "u64 \<Rightarrow> u64 \<Rightarrow> gdt \<Rightarrow> gdt" where
  "gdt_init gdt_addr tss_addr s =
     (let s = s\<lparr>entries := replicate 5 zero_entry, tss := zero_tss\<rparr>;
          s = gdt_set_entry 0 0 0 0 0 s;
          s = gdt_set_entry 1 0 0xFFFFF
                (GDT_ACCESS_PRESENT OR GDT_ACCESS_DPL0 OR GDT_ACCESS_SEGMENT OR GDT_ACCESS_EXECUTABLE OR GDT_ACCESS_RW)
                (GDT_FLAG_LONG OR GDT_FLAG_GRANULARITY) s;
          s = gdt_set_entry 2 0 0xFFFFF
                (GDT_ACCESS_PRESENT OR GDT_ACCESS_DPL0 OR GDT_ACCESS_SEGMENT OR GDT_ACCESS_RW) GDT_FLAG_GRANULARITY s;
          s = gdt_set_entry 3 0 0xFFFFF
                (GDT_ACCESS_PRESENT OR GDT_ACCESS_DPL3 OR GDT_ACCESS_SEGMENT OR GDT_ACCESS_EXECUTABLE OR GDT_ACCESS_RW)
                (GDT_FLAG_LONG OR GDT_FLAG_GRANULARITY) s;
          s = gdt_set_entry 4 0 0xFFFFF
                (GDT_ACCESS_PRESENT OR GDT_ACCESS_DPL3 OR GDT_ACCESS_SEGMENT OR GDT_ACCESS_RW) GDT_FLAG_GRANULARITY s;
          s = s\<lparr>tss := (tss s)\<lparr>iopb_offset := 104\<rparr>\<rparr>;
          s = gdt_set_tss tss_addr (104 - 1) s;
          s = gdt_load \<lparr>gdt_limit = 64 - 1, gdt_base = gdt_addr\<rparr> GDT_KERNEL_CODE GDT_KERNEL_DATA s
      in s\<lparr>task_register := GDT_TSS\<rparr>)"

definition gdt_get_tss :: "gdt \<Rightarrow> tss_t" where
  "gdt_get_tss s = tss s"

section \<open>How the processor reads a descriptor\<close>

definition segment_base :: "('z) gdt_entry_t_scheme \<Rightarrow> u32" where
  "segment_base e = ucast (base_low e) OR push_bit 16 (ucast (base_mid e)) OR push_bit 24 (ucast (base_high e))"

definition segment_limit :: "('z) gdt_entry_t_scheme \<Rightarrow> u32" where
  "segment_limit e = ucast (limit_low e) OR push_bit 16 (ucast (flags_limit_high e AND 0x0F))"

definition system_base :: "tss_descriptor_t \<Rightarrow> u64" where
  "system_base e = ucast (segment_base e) OR push_bit 32 (ucast (base_upper e))"

definition segment_present :: "('z) gdt_entry_t_scheme \<Rightarrow> bool" where
  "segment_present e \<longleftrightarrow> bit (access e) 7"

definition segment_ring :: "('z) gdt_entry_t_scheme \<Rightarrow> nat" where
  "segment_ring e = unat (drop_bit 5 (access e) AND 3)"

definition segment_code64 :: "('z) gdt_entry_t_scheme \<Rightarrow> bool" where
  "segment_code64 e \<longleftrightarrow> bit (access e) 4 \<and> bit (access e) 3 \<and> bit (flags_limit_high e) 5 \<and> \<not> bit (flags_limit_high e) 6"

definition segment_data :: "('z) gdt_entry_t_scheme \<Rightarrow> bool" where
  "segment_data e \<longleftrightarrow> bit (access e) 4 \<and> \<not> bit (access e) 3 \<and> bit (access e) 1"

text \<open>Descriptor a selector names.\<close>

definition selected :: "u16 \<Rightarrow> gdt \<Rightarrow> gdt_entry_t" where
  "selected sel s = entries s ! unat (drop_bit 3 sel)"

lemma split_base:
  fixes base :: u32
  shows "(ucast (ucast (base AND 0xFFFF) :: u16) :: u32) OR push_bit 16 (ucast (ucast (drop_bit 16 base AND 0xFF) :: u8)) OR
    push_bit 24 (ucast (ucast (drop_bit 24 base AND 0xFF) :: u8)) = base" (is "?l = _")
proof (rule bit_word_eqI)
  have m: "(0xFFFF :: u32) = mask 16" "(0xFF :: u32) = mask 8" by (simp_all add: mask_eq_exp_minus_1)
  fix n assume "n < LENGTH(32)"
  then consider "n < 16" | "16 \<le> n" "n < 24" | "24 \<le> n" "n < 32" by force
  then show "bit ?l n = bit base n" unfolding m by cases (auto simp: bit_simps)
qed

lemma split_wide_base:
  fixes base :: u64
  shows "(ucast (ucast base :: u32) :: u64) OR push_bit 32 (ucast (ucast (drop_bit 32 base AND 0xFFFFFFFF) :: u32)) = base" (is "?l = _")
proof (rule bit_word_eqI)
  have m: "(0xFFFFFFFF :: u64) = mask 32" by (simp add: mask_eq_exp_minus_1)
  fix n assume "n < LENGTH(64)"
  then consider "n < 32" | "32 \<le> n" "n < 64" by force
  then show "bit ?l n = bit base n" unfolding m by cases (auto simp: bit_simps)
qed

lemma narrow_fields:
  fixes base :: u64
  shows "(ucast (base AND 0xFFFF) :: u16) = ucast ((ucast base :: u32) AND 0xFFFF)"
    "(ucast (drop_bit 16 base AND 0xFF) :: u8) = ucast (drop_bit 16 (ucast base :: u32) AND 0xFF)"
    "(ucast (drop_bit 24 base AND 0xFF) :: u8) = ucast (drop_bit 24 (ucast base :: u32) AND 0xFF)"
proof -
  have m: "(0xFFFF :: u32) = mask 16" "(0xFF :: u32) = mask 8" "(0xFFFF :: u64) = mask 16" "(0xFF :: u64) = mask 8"
    by (simp_all add: mask_eq_exp_minus_1)
  show "(ucast (base AND 0xFFFF) :: u16) = ucast ((ucast base :: u32) AND 0xFFFF)"
    "(ucast (drop_bit 16 base AND 0xFF) :: u8) = ucast (drop_bit 16 (ucast base :: u32) AND 0xFF)"
    "(ucast (drop_bit 24 base AND 0xFF) :: u8) = ucast (drop_bit 24 (ucast base :: u32) AND 0xFF)"
    unfolding m by (rule bit_word_eqI; simp add: bit_simps)+
qed

lemma split_limit:
  fixes limit :: u32 and flags :: u8
  shows "(ucast (ucast (limit AND 0xFFFF) :: u16) :: u32) OR
    push_bit 16 (ucast ((ucast (drop_bit 16 limit AND 0x0F) OR (flags AND 0xF0)) AND 0x0F)) = take_bit 20 limit" (is "?l = _")
proof (rule bit_word_eqI)
  have m: "(0xFFFF :: u32) = mask 16" "(0x0F :: u32) = mask 4" "(0x0F :: u8) = mask 4" "(0xF0 :: u8) = push_bit 4 (mask 4)"
    by (simp_all add: mask_eq_exp_minus_1)
  fix n assume "n < LENGTH(32)"
  then consider "n < 16" | "16 \<le> n" "n < 20" | "20 \<le> n" "n < 32" by force
  then show "bit ?l n = bit (take_bit 20 limit) n" unfolding m by cases (auto simp: bit_simps)
qed

lemma set_entry_base:
  "index < length (entries s) \<Longrightarrow> segment_base (entries (gdt_set_entry index base limit acc flags s) ! index) = base"
  by (simp add: segment_base_def gdt_set_entry_def split_base)

lemma set_entry_limit:
  "index < length (entries s) \<Longrightarrow>
    segment_limit (entries (gdt_set_entry index base limit acc flags s) ! index) = take_bit 20 limit"
  by (simp add: segment_limit_def gdt_set_entry_def split_limit)

lemma set_tss_base: "system_base (tss_desc (gdt_set_tss tss_addr tss_size s)) = tss_addr"
  unfolding system_base_def segment_base_def gdt_set_tss_def
  by (simp add: narrow_fields split_base split_wide_base)

lemma set_tss_limit: "segment_limit (tss_desc (gdt_set_tss tss_addr 103 s)) = 103"
  by (simp add: segment_limit_def gdt_set_tss_def)

lemma list5:
  "replicate 5 x = [x, x, x, x, x]" "replicate 4 x = [x, x, x, x]"
  "[a, b, c, d, e][2 := x] = [a, b, x, d, e]" "[a, b, c, d, e][3 := x] = [a, b, c, x, e]" "[a, b, c, d, e][4 := x] = [a, b, c, d, x]"
  by (simp_all add: numeral_eq_Suc)

text \<open>
  The processor sees the segments the kernel means. Read the way the processor reads descriptors, the table
  built at boot holds the null descriptor, then code and data segments for ring 0 and for ring 3, flat over the
  whole address space, the code segments 64-bit; and a task state descriptor whose scattered base fields
  give back the address of the task state segment. The selectors loaded name the ring 0 code segment,
  the ring 0 data segment and the task state descriptor.
\<close>

theorem gdt_init_descriptors:
  "let g = gdt_init gdt_addr tss_addr s in
     map segment_base (entries g) = replicate 5 0 \<and> map segment_limit (entries g) = 0 # replicate 4 0xFFFFF \<and>
     map segment_present (entries g) = [False, True, True, True, True] \<and>
     map segment_ring (entries g) = [0, 0, 0, 3, 3] \<and>
     map segment_code64 (entries g) = [False, True, False, True, False] \<and>
     map segment_data (entries g) = [False, False, True, False, True] \<and>
     system_base (tss_desc g) = tss_addr \<and> segment_limit (tss_desc g) = 103 \<and> segment_present (tss_desc g) \<and>
     segment_code64 (selected (code_selector g) g) \<and> segment_ring (selected (code_selector g) g) = 0 \<and>
     segment_data (selected (data_selector g) g) \<and> segment_ring (selected (data_selector g) g) = 0 \<and>
     unat (task_register g) = 8 * length (entries g) \<and> gdtr g = Some \<lparr>gdt_limit = 63, gdt_base = gdt_addr\<rparr>"
proof -
  define g where "g = gdt_init gdt_addr tss_addr s"
  have e: "entries g = [zero_entry,
      \<lparr>limit_low = 0xFFFF, base_low = 0, base_mid = 0, access = 0x9A, flags_limit_high = 0xAF, base_high = 0\<rparr>,
      \<lparr>limit_low = 0xFFFF, base_low = 0, base_mid = 0, access = 0x92, flags_limit_high = 0x8F, base_high = 0\<rparr>,
      \<lparr>limit_low = 0xFFFF, base_low = 0, base_mid = 0, access = 0xFA, flags_limit_high = 0xAF, base_high = 0\<rparr>,
      \<lparr>limit_low = 0xFFFF, base_low = 0, base_mid = 0, access = 0xF2, flags_limit_high = 0x8F, base_high = 0\<rparr>]"
    by (simp add: g_def gdt_init_def gdt_set_entry_def gdt_set_tss_def gdt_load_def gdt_constants zero_entry_def list5)
  have t: "system_base (tss_desc g) = tss_addr" "segment_limit (tss_desc g) = 103" "segment_present (tss_desc g)"
    using set_tss_base set_tss_limit
    by (simp_all add: g_def gdt_init_def Let_def gdt_load_def)
      (simp add: gdt_set_tss_def segment_present_def gdt_constants)
  have r: "code_selector g = 8" "data_selector g = 16" "task_register g = 40" "gdtr g = Some \<lparr>gdt_limit = 63, gdt_base = gdt_addr\<rparr>"
    by (simp_all add: g_def gdt_init_def Let_def gdt_load_def gdt_constants)
  have "map segment_base (entries g) = replicate 5 0" "map segment_limit (entries g) = 0 # replicate 4 0xFFFFF"
    by (simp_all add: e segment_base_def segment_limit_def zero_entry_def list5)
  moreover have "map segment_present (entries g) = [False, True, True, True, True]" "map segment_ring (entries g) = [0, 0, 0, 3, 3]"
    "map segment_code64 (entries g) = [False, True, False, True, False]" "map segment_data (entries g) = [False, False, True, False, True]"
    by (simp_all add: e segment_present_def segment_ring_def segment_code64_def segment_data_def zero_entry_def)
  moreover have "selected 8 g = entries g ! 1" "selected 16 g = entries g ! 2" by (simp_all add: selected_def)
  ultimately show ?thesis
    using t r unfolding g_def [symmetric] Let_def by (simp add: e)
qed

end
