(* ===== verification/Interrupt.thy ===== *)
theory Interrupt
  imports Gdt Vmm_Properties
begin

text \<open>
  The interrupt descriptor table and the exception handlers (\<^verbatim>\<open>interrupt/interrupt.c\<close>). The addresses of the assembly
  stubs and of the table are arguments. A handler that halts the machine does not return: \<open>None\<close>.
\<close>

section \<open>State\<close>

record idt_entry_t =
  offset_low :: u16
  selector :: u16
  gate_ist :: u8
  type_attr :: u8
  offset_mid :: u16
  offset_high :: u32
  gate_reserved :: u32

record interrupts =
  idt :: "idt_entry_t list"
  idt_ptr :: "u16 \<times> u64"

definition EXCEPTION_DIVIDE_ERROR :: nat where "EXCEPTION_DIVIDE_ERROR = 0"
definition EXCEPTION_DEBUG :: nat where "EXCEPTION_DEBUG = 1"
definition EXCEPTION_NMI :: nat where "EXCEPTION_NMI = 2"
definition EXCEPTION_BREAKPOINT :: nat where "EXCEPTION_BREAKPOINT = 3"
definition EXCEPTION_OVERFLOW :: nat where "EXCEPTION_OVERFLOW = 4"
definition EXCEPTION_BOUND_RANGE :: nat where "EXCEPTION_BOUND_RANGE = 5"
definition EXCEPTION_INVALID_OPCODE :: nat where "EXCEPTION_INVALID_OPCODE = 6"
definition EXCEPTION_DEVICE_NOT_AVAILABLE :: nat where "EXCEPTION_DEVICE_NOT_AVAILABLE = 7"
definition EXCEPTION_DOUBLE_FAULT :: nat where "EXCEPTION_DOUBLE_FAULT = 8"
definition EXCEPTION_INVALID_TSS :: nat where "EXCEPTION_INVALID_TSS = 10"
definition EXCEPTION_SEGMENT_NOT_PRESENT :: nat where "EXCEPTION_SEGMENT_NOT_PRESENT = 11"
definition EXCEPTION_STACK_FAULT :: nat where "EXCEPTION_STACK_FAULT = 12"
definition EXCEPTION_GENERAL_PROTECTION :: nat where "EXCEPTION_GENERAL_PROTECTION = 13"
definition EXCEPTION_PAGE_FAULT :: nat where "EXCEPTION_PAGE_FAULT = 14"
definition EXCEPTION_FLOATING_POINT :: nat where "EXCEPTION_FLOATING_POINT = 16"
definition EXCEPTION_ALIGNMENT_CHECK :: nat where "EXCEPTION_ALIGNMENT_CHECK = 17"
definition EXCEPTION_MACHINE_CHECK :: nat where "EXCEPTION_MACHINE_CHECK = 18"
definition EXCEPTION_SIMD_FLOATING_POINT :: nat where "EXCEPTION_SIMD_FLOATING_POINT = 19"
definition IDT_TYPE_INTERRUPT_GATE :: u8 where "IDT_TYPE_INTERRUPT_GATE = 0x8E"
definition PAGE_FAULT_USER :: u64 where "PAGE_FAULT_USER = push_bit 2 1"

lemmas exception_numbers = EXCEPTION_DIVIDE_ERROR_def EXCEPTION_DEBUG_def EXCEPTION_NMI_def EXCEPTION_BREAKPOINT_def
  EXCEPTION_OVERFLOW_def EXCEPTION_BOUND_RANGE_def EXCEPTION_INVALID_OPCODE_def EXCEPTION_DEVICE_NOT_AVAILABLE_def
  EXCEPTION_DOUBLE_FAULT_def EXCEPTION_INVALID_TSS_def EXCEPTION_SEGMENT_NOT_PRESENT_def EXCEPTION_STACK_FAULT_def
  EXCEPTION_GENERAL_PROTECTION_def EXCEPTION_PAGE_FAULT_def EXCEPTION_FLOATING_POINT_def EXCEPTION_ALIGNMENT_CHECK_def
  EXCEPTION_MACHINE_CHECK_def EXCEPTION_SIMD_FLOATING_POINT_def

section \<open>The table\<close>

definition idt_set_gate :: "nat \<Rightarrow> u64 \<Rightarrow> u16 \<Rightarrow> u8 \<Rightarrow> interrupts \<Rightarrow> interrupts" where
  "idt_set_gate num handler sel attr s =
     s\<lparr>idt := (idt s)[num :=
         \<lparr>offset_low = ucast (handler AND 0xFFFF), selector = sel, gate_ist = 0, type_attr = attr,
          offset_mid = ucast (drop_bit 16 handler AND 0xFFFF),
          offset_high = ucast (drop_bit 32 handler AND 0xFFFFFFFF), gate_reserved = 0\<rparr>]\<rparr>"

definition zero_gate :: idt_entry_t where
  "zero_gate = \<lparr>offset_low = 0, selector = 0, gate_ist = 0, type_attr = 0, offset_mid = 0, offset_high = 0, gate_reserved = 0\<rparr>"

text \<open>The gates in the order in which they are set. \<open>exc n\<close> and \<open>irq n\<close> are the addresses of the stubs.\<close>

definition gates :: "(nat \<Rightarrow> u64) \<Rightarrow> (nat \<Rightarrow> u64) \<Rightarrow> (nat \<times> u64) list" where
  "gates exc irq =
     [(EXCEPTION_DIVIDE_ERROR, exc 0), (EXCEPTION_DEBUG, exc 1), (EXCEPTION_NMI, exc 2), (EXCEPTION_BREAKPOINT, exc 3),
      (EXCEPTION_OVERFLOW, exc 4), (EXCEPTION_BOUND_RANGE, exc 5), (EXCEPTION_INVALID_OPCODE, exc 6),
      (EXCEPTION_DEVICE_NOT_AVAILABLE, exc 7), (EXCEPTION_DOUBLE_FAULT, exc 8), (EXCEPTION_INVALID_TSS, exc 10),
      (EXCEPTION_SEGMENT_NOT_PRESENT, exc 11), (EXCEPTION_STACK_FAULT, exc 12), (EXCEPTION_GENERAL_PROTECTION, exc 13),
      (EXCEPTION_PAGE_FAULT, exc 14), (EXCEPTION_FLOATING_POINT, exc 16), (EXCEPTION_ALIGNMENT_CHECK, exc 17),
      (EXCEPTION_MACHINE_CHECK, exc 18), (EXCEPTION_SIMD_FLOATING_POINT, exc 19), (32, irq 0), (33, irq 1)]"

definition interrupt_init :: "(nat \<Rightarrow> u64) \<Rightarrow> (nat \<Rightarrow> u64) \<Rightarrow> u64 \<Rightarrow> interrupts \<Rightarrow> interrupts" where
  "interrupt_init exc irq idt_addr s =
     fold (\<lambda>(num, handler). idt_set_gate num handler GDT_KERNEL_CODE IDT_TYPE_INTERRUPT_GATE) (gates exc irq)
       (s\<lparr>idt := replicate 256 zero_gate, idt_ptr := (256 * 16 - 1, idt_addr)\<rparr>)"

section \<open>Exceptions\<close>

definition fault_flags :: "u64 \<Rightarrow> u64" where
  "fault_flags error_code =
     (let flags = PAGE_PRESENT OR PAGE_WRITABLE;
          flags = (if error_code AND PAGE_FAULT_USER = 0 then flags else flags OR PAGE_USER)
      in flags OR (PAGE_PCD OR PAGE_PWT))"

definition handle_mmio_page_fault :: "u64 \<Rightarrow> u64 \<Rightarrow> vmm \<Rightarrow> bool \<times> vmm" where
  "handle_mmio_page_fault fault_addr error_code s =
     (if 0xE0000000 \<le> fault_addr \<and> fault_addr < 0x100000000
      then let page_addr = fault_addr AND NOT PAGE_MASK
           in case vmm_map_page page_addr page_addr (fault_flags error_code) s of
                (Some mapped, s) \<Rightarrow> (mapped \<noteq> 0, s)
              | (None, s) \<Rightarrow> (False, s)
      else (False, s))"

text \<open>The register \<open>CR2\<close> holds the address of the fault.\<close>

definition page_fault_handler :: "u64 \<Rightarrow> u64 \<Rightarrow> vmm \<Rightarrow> vmm option" where
  "page_fault_handler cr2 error_code s =
     (case handle_mmio_page_fault cr2 error_code s of (ok, s) \<Rightarrow> if ok then Some s else None)"

definition generic_exception_handler :: "nat \<Rightarrow> vmm \<Rightarrow> vmm option" where
  "generic_exception_handler exception_num s = None"

definition generic_exception_handler_with_error :: "nat \<Rightarrow> u64 \<Rightarrow> u64 \<Rightarrow> vmm \<Rightarrow> vmm option" where
  "generic_exception_handler_with_error exception_num cr2 error_code s =
     (if exception_num = EXCEPTION_PAGE_FAULT then page_fault_handler cr2 error_code s else None)"

section \<open>How the processor reads a gate\<close>

definition gate_offset :: "idt_entry_t \<Rightarrow> u64" where
  "gate_offset g = ucast (offset_low g) OR push_bit 16 (ucast (offset_mid g)) OR push_bit 32 (ucast (offset_high g))"

definition gate_present :: "idt_entry_t \<Rightarrow> bool" where
  "gate_present g \<longleftrightarrow> bit (type_attr g) 7"

definition gate_disables_interrupts :: "idt_entry_t \<Rightarrow> bool" where
  "gate_disables_interrupts g \<longleftrightarrow> type_attr g AND 0x0F = 0x0E"

lemma split_offset:
  fixes h :: u64
  shows "(ucast (ucast (h AND 0xFFFF) :: u16) :: u64) OR push_bit 16 (ucast (ucast (drop_bit 16 h AND 0xFFFF) :: u16)) OR
    push_bit 32 (ucast (ucast (drop_bit 32 h AND 0xFFFFFFFF) :: u32)) = h" (is "?l = _")
proof (rule bit_word_eqI)
  have m: "(0xFFFF :: u64) = mask 16" "(0xFFFFFFFF :: u64) = mask 32" by (simp_all add: mask_eq_exp_minus_1)
  fix n assume "n < LENGTH(64)"
  then consider "n < 16" | "16 \<le> n" "n < 32" | "32 \<le> n" "n < 64" by force
  then show "bit ?l n = bit h n" unfolding m by cases (auto simp: bit_simps)
qed

lemma set_gate_nth:
  "num < length (idt s) \<Longrightarrow> idt (idt_set_gate num h sel attr s) ! v = (if v = num
     then \<lparr>offset_low = ucast (h AND 0xFFFF), selector = sel, gate_ist = 0, type_attr = attr,
          offset_mid = ucast (drop_bit 16 h AND 0xFFFF),
          offset_high = ucast (drop_bit 32 h AND 0xFFFFFFFF), gate_reserved = 0\<rparr> else idt s ! v)"
  by (simp add: idt_set_gate_def)

definition gate_of :: "u64 \<Rightarrow> idt_entry_t" where
  "gate_of h = \<lparr>offset_low = ucast (h AND 0xFFFF), selector = GDT_KERNEL_CODE, gate_ist = 0, type_attr = IDT_TYPE_INTERRUPT_GATE,
     offset_mid = ucast (drop_bit 16 h AND 0xFFFF), offset_high = ucast (drop_bit 32 h AND 0xFFFFFFFF), gate_reserved = 0\<rparr>"

lemma set_gates:
  assumes "distinct (map fst gs)" and "\<forall>g \<in> set gs. fst g < length (idt s)"
  shows "length (idt (fold (\<lambda>(num, h). idt_set_gate num h GDT_KERNEL_CODE IDT_TYPE_INTERRUPT_GATE) gs s)) = length (idt s) \<and>
    idt (fold (\<lambda>(num, h). idt_set_gate num h GDT_KERNEL_CODE IDT_TYPE_INTERRUPT_GATE) gs s) ! v =
      (case map_of gs v of None \<Rightarrow> idt s ! v | Some h \<Rightarrow> gate_of h)"
  using assms
proof (induction gs arbitrary: s)
  case (Cons g gs)
  obtain num h where g: "g = (num, h)" by fastforce
  let ?s = "idt_set_gate num h GDT_KERNEL_CODE IDT_TYPE_INTERRUPT_GATE s"
  have len: "length (idt ?s) = length (idt s)" by (simp add: idt_set_gate_def)
  have "map_of gs num = None" using Cons.prems(1) g by (simp add: map_of_eq_None_iff)
  moreover have "idt ?s ! v = (if v = num then gate_of h else idt s ! v)"
    using Cons.prems(2) g by (simp add: idt_set_gate_def gate_of_def)
  ultimately show ?case using Cons.IH [of ?s] Cons.prems len g by (auto split: option.split)
qed simp

text \<open>
  Every vector leads where it should. After the set-up the processor finds, for each of the eighteen exceptions
  and the two device interrupts, a present gate whose three offset fields give back the address of its own stub and
  which runs in the kernel's code segment with interrupts disabled; every other vector has no gate. The
  table register covers the 256 entries.
\<close>

theorem interrupt_init_gates:
  assumes "v < 256"
  shows "let s' = interrupt_init exc irq idt_addr s; g = idt s' ! v in
    length (idt s') = 256 \<and> idt_ptr s' = (4095, idt_addr) \<and>
    (if v \<in> {0, 1, 2, 3, 4, 5, 6, 7, 8, 10, 11, 12, 13, 14, 16, 17, 18, 19, 32, 33}
     then gate_present g \<and> gate_disables_interrupts g \<and> selector g = GDT_KERNEL_CODE \<and>
       gate_offset g = (if v < 32 then exc v else irq (v - 32))
     else \<not> gate_present g)"
proof -
  let ?z = "s\<lparr>idt := replicate 256 zero_gate, idt_ptr := (256 * 16 - 1, idt_addr)\<rparr>"
  let ?s = "interrupt_init exc irq idt_addr s"
  have all: "distinct (map fst (gates exc irq))" "\<forall>g \<in> set (gates exc irq). fst g < length (idt ?z)"
    by (simp_all add: gates_def exception_numbers)
  have e: "length (idt ?s) = 256" "idt ?s ! v = (case map_of (gates exc irq) v of None \<Rightarrow> zero_gate | Some h \<Rightarrow> gate_of h)"
    using set_gates [OF all, of v] assms unfolding interrupt_init_def by (simp_all split: option.split)
  have ptr: "idt_ptr (fold (\<lambda>(num, h). idt_set_gate num h GDT_KERNEL_CODE IDT_TYPE_INTERRUPT_GATE) gs t) = idt_ptr t" for gs t
    by (induction gs arbitrary: t) (auto simp: idt_set_gate_def)
  have "gate_present (gate_of h) \<and> gate_disables_interrupts (gate_of h) \<and> selector (gate_of h) = GDT_KERNEL_CODE \<and> gate_offset (gate_of h) = h" for h
    by (simp add: gate_of_def gate_present_def gate_disables_interrupts_def gate_offset_def IDT_TYPE_INTERRUPT_GATE_def split_offset)
  moreover have "\<not> gate_present zero_gate" by (simp add: gate_present_def zero_gate_def)
  moreover have "map_of (gates exc irq) v =
      (if v \<in> {0, 1, 2, 3, 4, 5, 6, 7, 8, 10, 11, 12, 13, 14, 16, 17, 18, 19, 32, 33}
       then Some (if v < 32 then exc v else irq (v - 32)) else None)"
    by (auto simp: gates_def exception_numbers)
  moreover have "idt_ptr ?s = (4095, idt_addr)" by (simp add: interrupt_init_def ptr)
  ultimately show ?thesis using e by (auto simp: Let_def)
qed

theorem interrupt_init_gates_witness:
  "let s' = interrupt_init (\<lambda>n. 0xFFFFFFFF80001000) (\<lambda>n. 0xFFFFFFFF80002000) 0 \<lparr>idt = [], idt_ptr = (0, 0)\<rparr>; g = idt s' ! 33 in
    gate_present g \<and> gate_offset g = 0xFFFFFFFF80002000"
  using interrupt_init_gates [of 33 "\<lambda>n. 0xFFFFFFFF80001000" "\<lambda>n. 0xFFFFFFFF80002000" 0 "\<lparr>idt = [], idt_ptr = (0, 0)\<rparr>"]
  by (simp add: Let_def)

lemma page_number_align: "drop_bit 12 (a AND NOT PAGE_MASK) = drop_bit 12 a"
  by (rule bit_word_eqI) (auto simp: PAGE_MASK_mask bit_simps dest: bit_imp_le_length)

text \<open>
  C21. A page fault in the device range is repaired. A fault at an address from 0xE0000000 to below 4 GiB either
  finds no memory for a page table, and the machine halts, or the handler returns, and then exactly the page of the fault
  has become mapped to the physical page with the same address; every other translation is as before. A fault at
  any other address, and every other exception with an error code, halts the machine.
\<close>

theorem page_fault_repaired:
  assumes "vmm_wf (kernel_root s) s" and "no_large (kernel_root s) s (a AND NOT PAGE_MASK)"
    and "hhdm_offset s \<noteq> 0" and "current_context s = 0"
  shows "case generic_exception_handler_with_error n a err s of
      Some s' \<Rightarrow> n = EXCEPTION_PAGE_FAULT \<and> 0xE0000000 \<le> a \<and> a < 0x100000000 \<and> vmm_wf (kernel_root s') s' \<and>
        (\<forall>w. no_large (kernel_root s) s w \<longrightarrow> vmm_get_physical_addr w s' =
           (if same_page a w then (a AND NOT PAGE_MASK) + (w AND PAGE_MASK) else vmm_get_physical_addr w s))
    | None \<Rightarrow> n \<noteq> EXCEPTION_PAGE_FAULT \<or> \<not> (0xE0000000 \<le> a \<and> a < 0x100000000) \<or>
        fst (vmm_map_page (a AND NOT PAGE_MASK) (a AND NOT PAGE_MASK) (fault_flags err) s) = None"
proof (cases "n = EXCEPTION_PAGE_FAULT \<and> 0xE0000000 \<le> a \<and> a < 0x100000000")
  case True
  let ?p = "a AND NOT PAGE_MASK"
  obtain r s' where r: "vmm_map_page ?p ?p (fault_flags err) s = (r, s')" by fastforce
  have same: "same_page ?p w = same_page a w" for w
    by (simp only: same_page_def page_number_align)
  have p0: "?p \<noteq> 0"
  proof
    assume "?p = 0"
    then have "drop_bit 12 a = 0" using page_number_align [of a] by simp
    then have "unat (a div 4096) = 0" by (simp add: drop_bit_eq_div)
    then have "unat a div 4096 = 0" by (simp add: unat_div)
    then have "unat a < 4096" by simp
    with True show False by (simp add: word_le_nat_alt)
  qed
  have al: "page_aligned ?p" by simp
  have h: "generic_exception_handler_with_error n a err s =
      (case r of Some m \<Rightarrow> if m \<noteq> 0 then Some s' else None | None \<Rightarrow> None)"
    using True r by (simp add: generic_exception_handler_with_error_def page_fault_handler_def handle_mmio_page_fault_def
        Let_def split: option.split)
  note eff = map_page_effect [OF assms al, of "fault_flags err", unfolded r]
  show ?thesis
  proof (cases r)
    case None
    then show ?thesis using h r by auto
  next
    case (Some m)
    then have m: "m = ?p" using eff by simp
    then have "generic_exception_handler_with_error n a err s = Some s'" using h Some p0 by simp
    then show ?thesis using True eff Some m same by simp
  qed
next
  case False
  then show ?thesis
    by (auto simp: generic_exception_handler_with_error_def page_fault_handler_def handle_mmio_page_fault_def split: option.splits)
qed

theorem page_fault_repaired_witness:
  "case generic_exception_handler_with_error EXCEPTION_PAGE_FAULT 0xFEC00010 2 sample_vmm of
      Some s' \<Rightarrow> vmm_get_physical_addr 0xFEC00024 s' = 0xFEC00024 | None \<Rightarrow> False"
proof -
  have r: "fst (vmm_map_page (0xFEC00010 AND NOT PAGE_MASK) (0xFEC00010 AND NOT PAGE_MASK) (fault_flags 2) sample_vmm) \<noteq> None"
    by code_simp
  have "same_page 0xFEC00010 0xFEC00024" by (simp add: same_page_def)
  with page_fault_repaired [OF sample_vmm_ok(1) sample_vmm_ok(2) sample_vmm_ok(3,4), where a = "0xFEC00010" and n = EXCEPTION_PAGE_FAULT and err = 2]
    r sample_vmm_ok(2) [of "0xFEC00024"] show ?thesis
    by (auto simp: PAGE_MASK_def PAGE_SIZE_def split: option.splits)
qed

end
