(* ===== verification/Debug.thy ===== *)
theory Debug
  imports Cgos_Prelude "HOL-Library.Signed_Division"
begin

text \<open>
  The debug console (\<^verbatim>\<open>debug/debug.c\<close>): number conversion, padding, the format interpreter shared by \<^verbatim>\<open>debug_printf\<close> and
  \<^verbatim>\<open>debug_log\<close>, and the hex dump. Characters are bytes, C strings byte lists without the terminator. What is written to
  the debug port is the field \<open>debugcon\<close>. \<open>None\<close> is undefined behaviour: a conversion without a fitting argument, a
  read outside the digit table or beyond the end of the format, a signed overflow, a division by zero, or an
  endless loop.
\<close>

section \<open>Text\<close>

definition cstr :: "string \<Rightarrow> u8 list" where
  "cstr s = map of_char s"

abbreviation chr :: "char \<Rightarrow> u8" where
  "chr c \<equiv> of_char c"

record debug =
  debugcon :: "u8 list"
  current_debug_level :: nat

definition DEBUG_LEVEL_ERROR :: nat where "DEBUG_LEVEL_ERROR = 0"
definition DEBUG_LEVEL_WARN :: nat where "DEBUG_LEVEL_WARN = 1"
definition DEBUG_LEVEL_INFO :: nat where "DEBUG_LEVEL_INFO = 2"
definition DEBUG_LEVEL_DEBUG :: nat where "DEBUG_LEVEL_DEBUG = 3"
definition DEBUG_LEVEL_TRACE :: nat where "DEBUG_LEVEL_TRACE = 4"

definition debug_putchar :: "u8 \<Rightarrow> debug \<Rightarrow> debug" where
  "debug_putchar c s = s\<lparr>debugcon := debugcon s @ [c]\<rparr>"

definition debug_puts :: "u8 list \<Rightarrow> debug \<Rightarrow> debug" where
  "debug_puts str s = fold debug_putchar str s"

definition debug_init :: "debug \<Rightarrow> debug" where
  "debug_init s = debug_puts (cstr ''Debug console initialized'' @ [10]) s"

section \<open>Numbers\<close>

text \<open>The digit string with its terminator.\<close>

definition digit_table :: "u8 list" where
  "digit_table = cstr ''0123456789abcdef'' @ [0]"

partial_function (option) ultoa_loop :: "u64 \<Rightarrow> u64 \<Rightarrow> u8 list \<Rightarrow> u8 list option" where
  "ultoa_loop base value ptr =
     (if base = 0 then None
      else let k = unat (value - value div base * base)
           in if 16 < k then None
              else if value div base = 0 then Some (ptr @ [digit_table ! k])
              else ultoa_loop base (value div base) (ptr @ [digit_table ! k]))"

text \<open>Reversing in place between two positions.\<close>

function reverse_loop :: "nat \<Rightarrow> nat \<Rightarrow> u8 list \<Rightarrow> u8 list" where
  "reverse_loop lo hi str =
     (if lo < hi then reverse_loop (lo + 1) (hi - 1) (str[hi := str ! lo, lo := str ! hi]) else str)"
  by auto
termination by (relation "measure (\<lambda>(lo, hi, str). hi - lo)") auto

definition debug_ultoa :: "u64 \<Rightarrow> u64 \<Rightarrow> u8 list option" where
  "debug_ultoa value base =
     map_option (\<lambda>str. reverse_loop 0 (length str - 1) str) (ultoa_loop base value [])"

partial_function (option) ltoa_loop :: "int \<Rightarrow> int \<Rightarrow> u8 list \<Rightarrow> u8 list option" where
  "ltoa_loop base value ptr =
     (if base = 0 then None
      else let k = value - (value sdiv base) * base
           in if k < 0 \<or> 16 < k then None
              else if value sdiv base = 0 then Some (ptr @ [digit_table ! nat k])
              else ltoa_loop base (value sdiv base) (ptr @ [digit_table ! nat k]))"

text \<open>The negation of the least 64-bit value overflows.\<close>

definition debug_ltoa :: "int \<Rightarrow> int \<Rightarrow> u8 list option" where
  "debug_ltoa value base =
     (if value < 0 \<and> base = 10
      then if value = - (2 ^ 63) then None
           else map_option (\<lambda>str. reverse_loop 1 (length str - 1) str) (ltoa_loop base (- value) [chr CHR ''-''])
      else map_option (\<lambda>str. reverse_loop 0 (length str - 1) str) (ltoa_loop base value []))"

definition debug_strlen :: "u8 list \<Rightarrow> nat" where
  "debug_strlen str = length str"

text \<open>What \<^verbatim>\<open>debug_print_padded\<close> puts out.\<close>

definition debug_print_padded :: "u8 list \<Rightarrow> nat \<Rightarrow> u8 \<Rightarrow> bool \<Rightarrow> u8 list" where
  "debug_print_padded str width pad_char left_align =
     (let padding = (if debug_strlen str < width then width - debug_strlen str else 0)
      in (if \<not> left_align then replicate padding pad_char else []) @ str @
         (if left_align then replicate padding (chr CHR '' '') else []))"

definition debug_to_upper :: "u8 list \<Rightarrow> u8 list" where
  "debug_to_upper str = map (\<lambda>c. if chr CHR ''a'' \<le> c \<and> c \<le> chr CHR ''f'' then c - chr CHR ''a'' + chr CHR ''A'' else c) str"

section \<open>Formats\<close>

text \<open>An argument: a machine word, or a string pointer with the string it points to.\<close>

datatype va_arg = Word_Arg u64 | Str_Arg "u8 list option"

definition is_flag :: "u8 \<Rightarrow> bool" where
  "is_flag c \<longleftrightarrow> c \<in> {chr CHR ''-'', chr CHR ''0'', chr CHR ''+'', chr CHR '' '', chr CHR ''#''}"

definition is_digit :: "u8 \<Rightarrow> bool" where
  "is_digit c \<longleftrightarrow> chr CHR ''0'' \<le> c \<and> c \<le> chr CHR ''9''"

fun parse_flags :: "bool \<Rightarrow> bool \<Rightarrow> u8 list \<Rightarrow> (bool \<times> bool) \<times> u8 list" where
  "parse_flags left_align zero_pad [] = ((left_align, zero_pad), [])"
| "parse_flags left_align zero_pad (c # cs) =
     (if is_flag c
      then parse_flags (left_align \<or> c = chr CHR ''-'') (zero_pad \<or> c = chr CHR ''0'') cs
      else ((left_align, zero_pad), c # cs))"

text \<open>
  The width is computed in an \<open>int\<close>. It only grows while digits are read, so the overflow of any step shows in
  the final value, which the interpreters check.
\<close>

fun parse_width :: "nat \<Rightarrow> u8 list \<Rightarrow> nat \<times> u8 list" where
  "parse_width width [] = (width, [])"
| "parse_width width (c # cs) =
     (if is_digit c then parse_width (width * 10 + unat (c - chr CHR ''0'')) cs else (width, c # cs))"

text \<open>The length modifiers that make an argument 64 bits wide, the ones that are ignored, or none.\<close>

definition parse_length :: "u8 list \<Rightarrow> bool \<times> u8 list" where
  "parse_length cs =
     (case cs of
        c # ds \<Rightarrow>
          if c = chr CHR ''l'' then (True, case ds of e # es \<Rightarrow> if e = chr CHR ''l'' then es else ds | [] \<Rightarrow> ds)
          else if c = chr CHR ''z'' then (True, ds)
          else if c = chr CHR ''h'' then (False, case ds of e # es \<Rightarrow> if e = chr CHR ''h'' then es else ds | [] \<Rightarrow> ds)
          else (False, cs)
      | [] \<Rightarrow> (False, []))"

text \<open>The value of an argument read as a signed or an unsigned number.\<close>

definition signed_arg :: "bool \<Rightarrow> u64 \<Rightarrow> int" where
  "signed_arg wide w = (if wide then sint w else sint (ucast w :: u32))"

definition unsigned_arg :: "bool \<Rightarrow> u64 \<Rightarrow> u64" where
  "unsigned_arg wide w = (if wide then w else ucast (ucast w :: u32))"

text \<open>One conversion: its output and the arguments left.\<close>

definition convert ::
  "bool \<Rightarrow> bool \<Rightarrow> nat \<Rightarrow> bool \<Rightarrow> u8 \<Rightarrow> va_arg list \<Rightarrow> (u8 list \<times> va_arg list) option" where
  "convert left_align zero_pad width wide c args =
     (let pad_char = (if zero_pad \<and> \<not> left_align then chr CHR ''0'' else chr CHR '' '')
      in if c = chr CHR ''d'' \<or> c = chr CHR ''i''
         then (case args of
                 Word_Arg w # as \<Rightarrow>
                   map_option (\<lambda>b. (debug_print_padded b width pad_char left_align, as)) (debug_ltoa (signed_arg wide w) 10)
               | _ \<Rightarrow> None)
         else if c = chr CHR ''u''
         then (case args of
                 Word_Arg w # as \<Rightarrow>
                   map_option (\<lambda>b. (debug_print_padded b width pad_char left_align, as)) (debug_ultoa (unsigned_arg wide w) 10)
               | _ \<Rightarrow> None)
         else if c = chr CHR ''x''
         then (case args of
                 Word_Arg w # as \<Rightarrow>
                   map_option (\<lambda>b. (debug_print_padded b width pad_char left_align, as)) (debug_ultoa (unsigned_arg wide w) 16)
               | _ \<Rightarrow> None)
         else if c = chr CHR ''X''
         then (case args of
                 Word_Arg w # as \<Rightarrow>
                   map_option (\<lambda>b. (debug_print_padded (debug_to_upper b) width pad_char left_align, as))
                     (debug_ultoa (unsigned_arg wide w) 16)
               | _ \<Rightarrow> None)
         else if c = chr CHR ''p''
         then (case args of
                 Word_Arg w # as \<Rightarrow>
                   map_option (\<lambda>b. (cstr ''0x'' @ debug_print_padded b (if 2 < width then width - 2 else 0) (chr CHR ''0'') False, as))
                     (debug_ultoa w 16)
               | _ \<Rightarrow> None)
         else if c = chr CHR ''s''
         then (case args of
                 Str_Arg str # as \<Rightarrow>
                   Some (debug_print_padded (case str of None \<Rightarrow> cstr ''(null)'' | Some b \<Rightarrow> b) width (chr CHR '' '') left_align, as)
               | _ \<Rightarrow> None)
         else if c = chr CHR ''c''
         then (case args of Word_Arg w # as \<Rightarrow> Some ([ucast w], as) | _ \<Rightarrow> None)
         else if c = chr CHR ''%'' then Some ([chr CHR ''%''], args)
         else Some ([chr CHR ''%'', c], args))"

lemma length_parse_flags: "length (snd (parse_flags l z cs)) \<le> length cs"
  by (induction cs arbitrary: l z) (auto simp: le_SucI)

lemma length_parse_width: "length (snd (parse_width w cs)) \<le> length cs"
  by (induction cs arbitrary: w) (auto simp: le_SucI)

lemma length_parse_length: "length (snd (parse_length cs)) \<le> length cs"
  by (auto simp: parse_length_def split: list.split)

definition parse_spec :: "u8 list \<Rightarrow> (bool \<times> bool \<times> nat \<times> bool) \<times> u8 list" where
  "parse_spec cs =
     (case parse_flags False False cs of
        ((left_align, zero_pad), cs) \<Rightarrow>
          (case parse_width 0 cs of
             (width, cs) \<Rightarrow> (case parse_length cs of (wide, cs) \<Rightarrow> ((left_align, zero_pad, width, wide), cs))))"

lemma length_parse_spec: "length (snd (parse_spec cs)) \<le> length cs"
  by (simp add: parse_spec_def split_beta)
    (rule order.trans [OF length_parse_length order.trans [OF length_parse_width length_parse_flags]])

text \<open>
  The loop over the format. A specification that the format breaks off makes the loop step over the terminator.
\<close>

function format_output :: "u8 list \<Rightarrow> va_arg list \<Rightarrow> u8 list option" where
  "format_output [] args = Some []"
| "format_output (c # cs) args =
     (if c \<noteq> chr CHR ''%'' then map_option (\<lambda>out. c # out) (format_output cs args)
      else if cs = [] then Some []
      else case parse_spec cs of
             ((left_align, zero_pad, width, wide), rest) \<Rightarrow>
               if \<not> width < 2 ^ 31 then None
               else (case rest of
                  [] \<Rightarrow> None
                | t # ts \<Rightarrow>
                    (case convert left_align zero_pad width wide t args of
                       None \<Rightarrow> None
                     | Some (out, as) \<Rightarrow> map_option (\<lambda>later. out @ later) (format_output ts as))))"
  by pat_completeness auto
termination
proof (relation "measure (\<lambda>(cs, args). length cs)", goal_cases)
  case (3 c cs args x y xa ya xb yb xc yc t ts x2 xd yd)
  then have "snd (parse_spec cs) = t # ts" by (metis snd_conv)
  then show ?case using length_parse_spec [of cs] by simp
qed auto

definition debug_printf :: "u8 list \<Rightarrow> va_arg list \<Rightarrow> debug \<Rightarrow> debug option" where
  "debug_printf format args s = map_option (\<lambda>out. debug_puts out s) (format_output format args)"

definition debug_log :: "nat \<Rightarrow> u8 list \<Rightarrow> va_arg list \<Rightarrow> debug \<Rightarrow> debug option" where
  "debug_log level format args s =
     (if current_debug_level s < level then Some s
      else map_option (\<lambda>out. debug_puts out s) (format_output format args))"

section \<open>Hex dump\<close>

fun dump_bytes :: "u8 list \<Rightarrow> nat \<Rightarrow> nat list \<Rightarrow> debug \<Rightarrow> debug option" where
  "dump_bytes bytes i [] s = Some s"
| "dump_bytes bytes i (j # js) s =
     (case (if i + j < length bytes then debug_printf (cstr ''%02x '') [Word_Arg (ucast (bytes ! (i + j)))] s
            else Some (debug_puts (cstr ''   '') s)) of
        None \<Rightarrow> None
      | Some s \<Rightarrow> dump_bytes bytes i js (if j = 7 then debug_putchar (chr CHR '' '') s else s))"

definition dump_ascii :: "u8 list \<Rightarrow> nat \<Rightarrow> debug \<Rightarrow> debug" where
  "dump_ascii bytes i s =
     fold (\<lambda>b. debug_putchar (if 32 \<le> b \<and> b \<le> 126 then b else chr CHR ''.'')) (take 16 (drop i bytes)) s"

fun dump_rows :: "u8 list \<Rightarrow> u8 list option \<Rightarrow> nat list \<Rightarrow> debug \<Rightarrow> debug option" where
  "dump_rows bytes prefix [] s = Some s"
| "dump_rows bytes prefix (i # is) s =
     (let s = (case prefix of None \<Rightarrow> s | Some p \<Rightarrow> debug_puts p s)
      in case debug_printf (cstr ''%08x: '') [Word_Arg (of_nat i)] s of
           None \<Rightarrow> None
         | Some s \<Rightarrow>
             (case dump_bytes bytes i [0..<16] s of
                None \<Rightarrow> None
              | Some s \<Rightarrow>
                  let s = debug_puts (cstr '' |'') s;
                      s = dump_ascii bytes i s;
                      s = debug_puts (cstr ''|'' @ [10]) s
                  in dump_rows bytes prefix is s))"

definition debug_hexdump :: "u8 list \<Rightarrow> u8 list option \<Rightarrow> debug \<Rightarrow> debug option" where
  "debug_hexdump bytes prefix s = dump_rows bytes prefix (map (\<lambda>r. 16 * r) [0..<(length bytes + 15) div 16]) s"

section \<open>Numbers as text\<close>

text \<open>The digits of a number, least significant first, and its text.\<close>

function rdigits :: "nat \<Rightarrow> nat \<Rightarrow> nat list" where
  "rdigits b n = (if n < b \<or> b < 2 then [n] else n mod b # rdigits b (n div b))"
  by auto
termination by (relation "measure snd") auto

declare rdigits.simps [simp del] reverse_loop.simps [simp del]

definition number_text :: "nat \<Rightarrow> nat \<Rightarrow> u8 list" where
  "number_text b n = map ((!) digit_table) (rev (rdigits b n))"

lemma rdigits_less: "2 \<le> b \<Longrightarrow> d \<in> set (rdigits b n) \<Longrightarrow> d < b"
  by (induction b n rule: rdigits.induct) (subst (asm) (2) rdigits.simps, auto split: if_splits)

lemma rdigits_ne: "rdigits b n \<noteq> []"
  by (subst rdigits.simps) simp

lemma length_rdigits: "2 \<le> b \<Longrightarrow> n < b ^ Suc k \<Longrightarrow> length (rdigits b n) \<le> Suc k"
proof (induction k arbitrary: n)
  case 0
  then show ?case by (subst rdigits.simps) simp
next
  case (Suc k)
  have "n div b < b ^ Suc k" using Suc.prems by (simp add: less_mult_imp_div_less mult.commute)
  then show ?case using Suc.IH [of "n div b"] Suc.prems(1) by (subst rdigits.simps) simp
qed

lemma rdigits_value: "2 \<le> b \<Longrightarrow> foldr (\<lambda>d v. v * b + d) (rdigits b n) 0 = n"
proof (induction b n rule: rdigits.induct)
  case (1 b n)
  then show ?case by (subst rdigits.simps) (auto simp: algebra_simps)
qed

lemma last_rdigits: "2 \<le> b \<Longrightarrow> n \<noteq> 0 \<Longrightarrow> last (rdigits b n) \<noteq> 0"
proof (induction b n rule: rdigits.induct)
  case (1 b n)
  then show ?case using rdigits_ne [of b "n div b"] by (subst rdigits.simps) (auto simp: div_eq_0_iff)
qed

lemma digit_table_nth: "n < 10 \<Longrightarrow> digit_table ! n = of_nat (48 + n)" "10 \<le> n \<Longrightarrow> n < 16 \<Longrightarrow> digit_table ! n = of_nat (87 + n)"
proof -
  have "\<forall>n \<in> {0..<10}. digit_table ! n = of_nat (48 + n)" "\<forall>n \<in> {10..<16}. digit_table ! n = of_nat (87 + n)"
    by code_simp+
  then show "n < 10 \<Longrightarrow> digit_table ! n = of_nat (48 + n)" "10 \<le> n \<Longrightarrow> n < 16 \<Longrightarrow> digit_table ! n = of_nat (87 + n)"
    by auto
qed

section \<open>The conversion routines\<close>

lemma reverse_loop_segment:
  "reverse_loop (length a) (length a + length m - 1) (a @ m @ b) = a @ rev m @ b"
proof (induction m arbitrary: a b rule: length_induct)
  case (1 m)
  show ?case
  proof (cases m)
    case Nil
    then show ?thesis by (subst reverse_loop.simps) auto
  next
    case (Cons x m1)
    show ?thesis
    proof (cases m1 rule: rev_cases)
      case Nil
      then show ?thesis using Cons by (subst reverse_loop.simps) simp
    next
      case (snoc m2 y)
      let ?lo = "length a" and ?hi = "length a + length m - 1"
      have hi: "?hi = length (a @ x # m2)" using Cons snoc by simp
      have "(a @ m @ b)[?hi := x, ?lo := y] = (a @ [y]) @ m2 @ ([x] @ b)"
        unfolding hi using Cons snoc by (simp add: list_update_append)
      moreover have "(a @ m @ b) ! ?lo = x" "(a @ m @ b) ! ?hi = y" unfolding hi using Cons snoc by (simp_all add: nth_append)
      moreover have "reverse_loop (length (a @ [y])) (length (a @ [y]) + length m2 - 1) ((a @ [y]) @ m2 @ ([x] @ b)) =
          (a @ [y]) @ rev m2 @ ([x] @ b)"
        by (rule 1 [rule_format]) (use Cons snoc in simp)
      moreover have "?hi - 1 = length (a @ [y]) + length m2 - 1" "?lo < ?hi" using Cons snoc by simp_all
      ultimately show ?thesis using Cons snoc by (subst reverse_loop.simps) simp
    qed
  qed
qed

lemma reverse_text: "reverse_loop 0 (length m - 1) m = rev m" "reverse_loop 1 (length (x # m) - 1) (x # m) = x # rev m"
  using reverse_loop_segment [of "[]" m "[]"] reverse_loop_segment [of "[x]" m "[]"] by simp_all

lemma ultoa_loop_text:
  assumes "2 \<le> unat base" and "unat base \<le> 16"
  shows "ultoa_loop base v ptr = Some (ptr @ map ((!) digit_table) (rdigits (unat base) (unat v)))"
proof (induction "unat v" arbitrary: v ptr rule: less_induct)
  case less
  have k: "unat (v - v div base * base) = unat v mod unat base"
    by (simp add: minus_div_mult_eq_mod unat_mod)
  have "unat v mod unat base < 16" using assms mod_less_divisor [of "unat base" "unat v"] by linarith
  moreover have q: "v div base = 0 \<longleftrightarrow> unat v < unat base"
    using assms by (simp add: word_unat_eq_iff unat_div div_eq_0_iff)
  moreover have "base \<noteq> 0" using assms by auto
  moreover have "ultoa_loop base (v div base) p =
      Some (p @ map ((!) digit_table) (rdigits (unat base) (unat v div unat base)))" if "\<not> unat v < unat base" for p
    using less [of "v div base" p] that assms by (simp add: unat_div)
  ultimately show ?case
    using assms by (subst ultoa_loop.simps, subst rdigits.simps) (auto simp: k Let_def)
qed

lemma debug_ultoa_text:
  "2 \<le> unat base \<Longrightarrow> unat base \<le> 16 \<Longrightarrow> debug_ultoa v base = Some (number_text (unat base) (unat v))"
  by (simp add: debug_ultoa_def ultoa_loop_text number_text_def rev_map reverse_text(1) del: One_nat_def)

lemma ltoa_loop_text:
  assumes "2 \<le> base" and "base \<le> 16" and "0 \<le> v"
  shows "ltoa_loop base v ptr = Some (ptr @ map ((!) digit_table) (rdigits (nat base) (nat v)))"
  using assms(3)
proof (induction "nat v" arbitrary: v ptr rule: less_induct)
  case less
  have sd: "v sdiv base = v div base" using less.prems assms by (auto simp: signed_divide_int_def sgn_if)
  have k: "v - v div base * base = v mod base" by (simp add: minus_div_mult_eq_mod)
  have m: "0 \<le> v mod base" "v mod base < 16" using assms pos_mod_bound [of base v] pos_mod_sign [of base v] by linarith+
  have nb: "\<not> v mod base < 0" "\<not> 16 < v mod base" using m by linarith+
  have q: "v div base = 0 \<longleftrightarrow> nat v < nat base"
    using assms less.prems by (auto simp: zdiv_eq_0_iff zless_nat_eq_int_zless)
  have "ltoa_loop base (v div base) p =
      Some (p @ map ((!) digit_table) (rdigits (nat base) (nat v div nat base)))" if "\<not> nat v < nat base" for p
  proof -
    have "nat (v div base) < nat v" using that assms less.prems by (simp add: nat_div_distrib)
    moreover have "0 \<le> v div base" using assms less.prems by (simp add: pos_imp_zdiv_nonneg_iff)
    ultimately show ?thesis using less.hyps [of "v div base" p] less.prems assms by (simp add: nat_div_distrib)
  qed
  moreover have "nat (v mod base) = nat v mod nat base" using assms less.prems by (simp add: nat_mod_distrib)
  moreover have "nat v mod nat base = nat v" if "nat v < nat base" using that by simp
  ultimately show ?case
    using assms q nb by (subst ltoa_loop.simps, subst rdigits.simps) (auto simp: k sd Let_def)
qed

lemma reverse_map:
  "reverse_loop 0 (length ds - 1) (map f ds) = map f (rev ds)" "reverse_loop 1 (length ds) (x # map f ds) = x # map f (rev ds)"
  using reverse_text(1) [of "map f ds"] reverse_text(2) [of x "map f ds"] by (simp_all add: rev_map)

lemma debug_ltoa_text:
  assumes "- (2 ^ 63) < v"
  shows "debug_ltoa v 10 =
    Some (if v < 0 then chr CHR ''-'' # number_text 10 (nat (- v)) else number_text 10 (nat v))"
  using assms
  by (auto simp: debug_ltoa_def ltoa_loop_text number_text_def reverse_map [simplified])

section \<open>Properties\<close>

text \<open>Reading a number back from its text.\<close>

definition digit_value :: "u8 \<Rightarrow> nat" where
  "digit_value c = (if c < 58 then unat (c - 48) else unat (c - 87))"

definition number_value :: "nat \<Rightarrow> u8 list \<Rightarrow> nat" where
  "number_value b str = foldl (\<lambda>v c. v * b + digit_value c) 0 str"

lemma digit_value_table: "d < 16 \<Longrightarrow> digit_value (digit_table ! d) = d"
proof -
  have "\<forall>d \<in> {0..<16}. digit_value (digit_table ! d) = d" by code_simp
  then show "d < 16 \<Longrightarrow> digit_value (digit_table ! d) = d" by auto
qed

lemma number_value_text:
  assumes "2 \<le> b" and "b \<le> 16"
  shows "number_value b (number_text b n) = n"
proof -
  have "foldr (\<lambda>d v. v * b + digit_value (digit_table ! d)) (rdigits b n) 0 = foldr (\<lambda>d v. v * b + d) (rdigits b n) 0"
    by (rule foldr_cong) (use rdigits_less [OF assms(1)] assms(2) digit_value_table in fastforce)+
  then show ?thesis
    using rdigits_value [OF assms(1), of n] by (simp add: number_value_def number_text_def foldl_conv_foldr rev_map foldr_map comp_def)
qed

lemma number_text_hd:
  assumes "2 \<le> b" and "b \<le> 16" and "n \<noteq> 0"
  shows "hd (number_text b n) \<noteq> 48"
proof -
  have "last (rdigits b n) \<noteq> 0" "last (rdigits b n) < b"
    using last_rdigits assms rdigits_less [OF assms(1), of "last (rdigits b n)" n] rdigits_ne by auto
  then have "digit_value (digit_table ! last (rdigits b n)) \<noteq> 0" using digit_value_table assms(2) by simp
  moreover have "digit_value 48 = 0" by (simp add: digit_value_def)
  ultimately show ?thesis using rdigits_ne [of b n] by (auto simp: number_text_def hd_map hd_rev)
qed

lemma length_number_text: "2 \<le> b \<Longrightarrow> n < b ^ Suc k \<Longrightarrow> length (number_text b n) \<le> Suc k"
  using length_rdigits by (simp add: number_text_def)

lemma number_text_ne: "number_text b n \<noteq> []"
  by (simp add: number_text_def rdigits_ne)

text \<open>
  The numeral of a number in a base up to 16: it is not empty, its characters are digits of the base, it has no leading zero
  unless it is the single digit 0, and it reads back as the number. There is exactly one.
\<close>

definition numeral_of :: "nat \<Rightarrow> nat \<Rightarrow> u8 list \<Rightarrow> bool" where
  "numeral_of b n str \<longleftrightarrow> str \<noteq> [] \<and> set str \<subseteq> set (take b (cstr ''0123456789abcdef'')) \<and>
     (hd str = chr CHR ''0'' \<longrightarrow> length str = 1) \<and> number_value b str = n"

lemma numeral_of_text:
  assumes "2 \<le> b" and "b \<le> 16"
  shows "numeral_of b n (number_text b n)"
proof -
  have "digit_table ! d \<in> set (take b (cstr ''0123456789abcdef''))" if "d < b" for d
  proof -
    have "length (cstr ''0123456789abcdef'') = 16" by (simp add: cstr_def)
    then show ?thesis
      using that assms(2) nth_mem [of d "take b (cstr ''0123456789abcdef'')"] by (simp add: digit_table_def nth_append)
  qed
  then have "set (number_text b n) \<subseteq> set (take b (cstr ''0123456789abcdef''))"
    using rdigits_less [OF assms(1)] by (auto simp: number_text_def)
  moreover have "length (number_text b 0) = 1" using assms(1) by (simp add: number_text_def rdigits.simps)
  ultimately show ?thesis
    using number_value_text [OF assms] number_text_ne number_text_hd [OF assms, of n] unfolding numeral_of_def
    by (cases "n = 0") auto
qed

text \<open>
  C25. Numbers print as themselves, and fit. For every 64-bit value the decimal and the hexadecimal text is the numeral of the
  value (at least one digit, no leading zero unless the value is zero, nothing else reads back as it) and fits the 32 byte
  buffer with its terminator and room to spare; a signed value prints as a minus sign, if it is negative, and the
  numeral of its magnitude. Only the least signed value has no defined result: its negation overflows.
\<close>

theorem debug_numbers_fit:
  "(\<exists>str. debug_ultoa w 10 = Some str \<and> length str + 1 \<le> 21 \<and> numeral_of 10 (unat w) str) \<and>
   (\<exists>str. debug_ultoa w 16 = Some str \<and> length str + 1 \<le> 17 \<and> numeral_of 16 (unat w) str) \<and>
   (if sint w = - (2 ^ 63) then debug_ltoa (sint w) 10 = None
    else \<exists>ds. debug_ltoa (sint w) 10 = Some ((if sint w < 0 then [chr CHR ''-''] else []) @ ds) \<and>
      (if sint w < 0 then 1 else 0) + length ds + 1 \<le> 21 \<and> numeral_of 10 (nat \<bar>sint w\<bar>) ds)"
proof -
  have lt: "unat w < 2 ^ 64" using unsigned_less [of w, where ?'a = nat] by simp
  have len: "length (number_text 10 (unat w)) \<le> 20" "length (number_text 16 (unat w)) \<le> 16"
    using length_number_text [of 10 "unat w" 19] length_number_text [of 16 "unat w" 15] lt by simp_all
  have s: "sint w < 2 ^ 63" "- (2 ^ 63) \<le> sint w" using sint_lt [of w] sint_ge [of w] by simp_all
  have slen: "length (number_text 10 (nat (\<bar>sint w\<bar>))) \<le> 19" using length_number_text [of 10 "nat \<bar>sint w\<bar>" 18] s by simp
  have "debug_ltoa (sint w) 10 = None" if "sint w = - (2 ^ 63)" using that by (simp add: debug_ltoa_def)
  moreover have "debug_ltoa (sint w) 10 = Some ((if sint w < 0 then [chr CHR ''-''] else []) @ number_text 10 (nat \<bar>sint w\<bar>))"
    if "sint w \<noteq> - (2 ^ 63)" using that s debug_ltoa_text [of "sint w"] by simp
  moreover have "debug_ultoa w 10 = Some (number_text 10 (unat w))" "debug_ultoa w 16 = Some (number_text 16 (unat w))"
    using debug_ultoa_text [of 10 w] debug_ultoa_text [of 16 w] by simp_all
  ultimately show ?thesis using len slen numeral_of_text [of 10] numeral_of_text [of 16] by auto
qed

text \<open>
  Formats as they are meant: literal characters and conversions with their flags, width, length modifier and letter;
  their text, and what printing them means.
\<close>

datatype piece = Lit u8 | Conv bool bool nat bool u8

fun piece_text :: "piece \<Rightarrow> u8 list" where
  "piece_text (Lit c) = [c]"
| "piece_text (Conv left zero width wide c) =
     chr CHR ''%'' # (if left then [chr CHR ''-''] else []) @ (if zero then [chr CHR ''0''] else []) @
     (if width = 0 then [] else number_text 10 width) @ (if wide then [chr CHR ''l''] else []) @ [c]"

fun piece_ok :: "piece \<Rightarrow> bool" where
  "piece_ok (Lit c) \<longleftrightarrow> c \<noteq> chr CHR ''%''"
| "piece_ok (Conv left zero width wide c) \<longleftrightarrow>
     width < 2 ^ 31 \<and> \<not> is_flag c \<and> \<not> is_digit c \<and> c \<notin> {chr CHR ''l'', chr CHR ''z'', chr CHR ''h''}"

fun render :: "piece list \<Rightarrow> va_arg list \<Rightarrow> u8 list option" where
  "render [] args = Some []"
| "render (Lit c # ps) args = map_option (\<lambda>out. c # out) (render ps args)"
| "render (Conv left zero width wide c # ps) args =
     (case convert left zero width wide c args of
        None \<Rightarrow> None
      | Some (out, as) \<Rightarrow> map_option (\<lambda>later. out @ later) (render ps as))"

lemma parse_flags_text:
  assumes "\<not> is_flag c"
  shows "parse_flags False False ((if left then [45] else []) @ (if zero then [48] else []) @ c # r) = ((left, zero), c # r)"
proof -
  have "is_flag 45" "is_flag 48" by (simp_all add: is_flag_def)
  then show ?thesis using assms by simp
qed

lemma parse_width_text:
  assumes "\<forall>d \<in> set ds. is_digit d" and "\<not> is_digit c"
  shows "parse_width w (ds @ c # r) = (foldl (\<lambda>v d. v * 10 + digit_value d) w ds, c # r)"
  using assms(1)
proof (induction ds arbitrary: w)
  case (Cons d ds)
  have "d < 58" using Cons.prems by (auto simp: is_digit_def word_less_nat_alt word_le_nat_alt)
  then have "unat (d - 48) = digit_value d" by (simp add: digit_value_def)
  then show ?case using Cons by simp
qed (use assms(2) in simp)

lemma number_text_digits: "d \<in> set (number_text 10 n) \<Longrightarrow> is_digit d"
proof -
  have "\<forall>k \<in> {0..<10}. is_digit (digit_table ! k)" by code_simp
  then show "d \<in> set (number_text 10 n) \<Longrightarrow> is_digit d" using rdigits_less [of 10] by (auto simp: number_text_def)
qed

lemma digit_flag: "is_digit c \<Longrightarrow> is_flag c \<Longrightarrow> c = 48"
  by (auto simp: is_digit_def is_flag_def)

lemma parse_spec_text:
  assumes "piece_ok (Conv left zero width wide c)"
  shows "parse_spec (tl (piece_text (Conv left zero width wide c)) @ r) = ((left, zero, width, wide), c # r)"
proof -
  have c: "\<not> is_flag c" "\<not> is_digit c" "c \<noteq> 108" "c \<noteq> 122" "c \<noteq> 104" using assms by simp_all
  let ?w = "if width = 0 then [] else number_text 10 width" and ?l = "(if wide then [108] else []) @ c # r"
  obtain x xs where l: "?l = x # xs" "\<not> is_digit x" "\<not> is_flag x"
    using c by (cases wide) (auto simp: is_digit_def is_flag_def)
  have "parse_flags False False ((if left then [45] else []) @ (if zero then [48] else []) @ ?w @ ?l) = ((left, zero), ?w @ ?l)"
  proof (cases "width = 0")
    case True
    then show ?thesis unfolding l(1) using parse_flags_text [OF l(3)] by simp
  next
    case False
    obtain d ds where d: "number_text 10 width = d # ds" using number_text_ne by (meson neq_Nil_conv)
    then have "is_digit d" "d \<noteq> 48" using number_text_digits [of d width] number_text_hd [of 10 width] False by auto
    then have "\<not> is_flag d" using digit_flag by blast
    from parse_flags_text [OF this] show ?thesis using d False by simp
  qed
  moreover have "parse_width 0 (?w @ ?l) = (width, ?l)"
    unfolding l(1) using parse_width_text [OF _ l(2), of ?w 0 xs] number_text_digits number_value_text [of 10 width]
    by (auto simp: number_value_def)
  moreover have "parse_length ?l = (wide, c # r)" using c by (simp add: parse_length_def)
  moreover have "tl (piece_text (Conv left zero width wide c)) @ r =
      (if left then [45] else []) @ (if zero then [48] else []) @ ?w @ ?l" by simp
  ultimately show ?thesis unfolding parse_spec_def by (simp only: prod.case)
qed

lemma format_output_conv:
  assumes "parse_spec t = ((left, zero, width, wide), c # r)" and "t \<noteq> []" and "width < 2 ^ 31"
  shows "format_output (chr CHR ''%'' # t) args =
    (case convert left zero width wide c args of
       None \<Rightarrow> None | Some (out, as) \<Rightarrow> map_option (\<lambda>later. out @ later) (format_output r as))"
  using assms by simp

text \<open>
  Formats mean what they say. For every sequence of literal characters and conversions, the interpreter run on
  the text of the sequence puts out the literals unchanged and for each conversion its rendering with exactly the
  flags, width and length written, taking one argument after the other.
\<close>

theorem format_output_pieces:
  assumes "\<forall>p \<in> set ps. piece_ok p"
  shows "format_output (concat (map piece_text ps)) args = render ps args"
  using assms
proof (induction ps args rule: render.induct)
  case (3 left zero width wide c ps args)
  let ?t = "tl (piece_text (Conv left zero width wide c)) @ concat (map piece_text ps)"
  have t: "concat (map piece_text (Conv left zero width wide c # ps)) = chr CHR ''%'' # ?t" by simp
  have "parse_spec ?t = ((left, zero, width, wide), c # concat (map piece_text ps))"
    using 3(2) by (intro parse_spec_text) simp
  moreover have "?t \<noteq> []" by simp
  ultimately show ?case unfolding t using format_output_conv [of ?t] 3 by (auto split: option.split)
qed simp_all

theorem format_output_pieces_witness:
  "format_output (cstr ''IRQ %x!'') [Word_Arg 10] = Some (cstr ''IRQ a!'')"
proof -
  let ?ps = "[Lit 73, Lit 82, Lit 81, Lit 32, Conv False False 0 False 120, Lit 33]"
  have "number_text 16 10 = [97]" by (simp add: number_text_def rdigits.simps digit_table_def cstr_def)
  then have "debug_ultoa 10 16 = Some [97]" using debug_ultoa_text [of 16 10] by simp
  then have "render ?ps [Word_Arg 10] = Some (cstr ''IRQ a!'')"
    by (simp add: convert_def unsigned_arg_def debug_print_padded_def cstr_def)
  moreover have "concat (map piece_text ?ps) = cstr ''IRQ %x!''" by (simp add: cstr_def)
  moreover have "\<forall>p \<in> set ?ps. piece_ok p" by (simp add: is_flag_def is_digit_def)
  ultimately show ?thesis using format_output_pieces [of ?ps "[Word_Arg 10]"] by metis
qed

text \<open>The rows of a hex dump: offset, sixteen cells with a gap in the middle, and the printable characters.\<close>

definition hex_cell :: "u8 \<Rightarrow> u8 list" where
  "hex_cell b = [digit_table ! (unat b div 16), digit_table ! (unat b mod 16), 32]"

definition hex_offset :: "nat \<Rightarrow> u8 list" where
  "hex_offset i = map (\<lambda>k. digit_table ! (i div 16 ^ k mod 16)) [7, 6, 5, 4, 3, 2, 1, 0]"

definition dump_row :: "u8 list \<Rightarrow> u8 list option \<Rightarrow> nat \<Rightarrow> u8 list" where
  "dump_row bytes prefix i =
     (case prefix of None \<Rightarrow> [] | Some p \<Rightarrow> p) @ hex_offset i @ [58, 32] @
     concat (map (\<lambda>j. (if i + j < length bytes then hex_cell (bytes ! (i + j)) else [32, 32, 32]) @
       (if j = 7 then [32] else [])) [0..<16]) @
     [32, 124] @ map (\<lambda>b. if 32 \<le> b \<and> b \<le> 126 then b else 46) (take 16 (drop i bytes)) @ [124, 10]"

lemma debug_puts_out: "debug_puts str s = s\<lparr>debugcon := debugcon s @ str\<rparr>"
  by (induction str arbitrary: s) (simp_all add: debug_puts_def debug_putchar_def)

lemma padded_number:
  assumes "2 \<le> b" and "n < b ^ k" and "0 < k"
  shows "replicate (k - length (rdigits b n)) 0 @ rev (rdigits b n) = map (\<lambda>i. n div b ^ i mod b) (rev [0..<k])"
  using assms(2,3)
proof (induction k arbitrary: n)
  case (Suc k)
  show ?case
  proof (cases "n < b")
    case True
    have "n div b ^ i mod b = 0" if "0 < i" for i
    proof -
      have "b ^ 1 \<le> b ^ i" using that assms(1) by (intro power_increasing) simp_all
      then have "n < b ^ i" using True by simp
      then show ?thesis by simp
    qed
    then have "map (\<lambda>i. n div b ^ i mod b) (rev [1..<Suc k]) = map (\<lambda>_. 0) (rev [1..<Suc k])"
      by (intro map_cong) auto
    then have "map (\<lambda>i. n div b ^ i mod b) (rev [1..<Suc k]) = replicate k 0"
      by (simp only: map_replicate_const length_rev length_upt) simp
    moreover have "rev [0..<Suc k] = rev [1..<Suc k] @ [0]" by (subst upt_conv_Cons) (simp_all del: upt_Suc)
    ultimately show ?thesis using True assms(1) by (subst (1 2) rdigits.simps) simp
  next
    case False
    have "n div b < b ^ k" using Suc.prems by (simp add: less_mult_imp_div_less mult.commute)
    moreover have "0 < k" using False Suc.prems(1) by (cases k) auto
    ultimately have "replicate (k - length (rdigits b (n div b))) 0 @ rev (rdigits b (n div b)) =
        map (\<lambda>i. n div b ^ Suc i mod b) (rev [0..<k])" using Suc.IH [of "n div b"] by (simp add: div_mult2_eq)
    moreover have "rev [0..<Suc k] = map Suc (rev [0..<k]) @ [0]" 
      by (subst upt_conv_Cons) (simp_all add: map_Suc_upt flip: rev_map del: upt_Suc)
    ultimately show ?thesis using False assms(1) by (subst (1 2) rdigits.simps) (simp add: comp_def)
  qed
qed simp

lemma print_hex:
  assumes "n < 16 ^ k" and "0 < k"
  shows "debug_print_padded (number_text 16 n) k 48 False = map (\<lambda>i. digit_table ! (n div 16 ^ i mod 16)) (rev [0..<k])"
proof -
  have "digit_table ! 0 = 48" by code_simp
  then have "debug_print_padded (number_text 16 n) k 48 False =
      map ((!) digit_table) (replicate (k - length (rdigits 16 n)) 0 @ rev (rdigits 16 n))"
    by (simp add: debug_print_padded_def debug_strlen_def number_text_def)
  then show ?thesis using padded_number [of 16 n k] assms by (simp add: comp_def)
qed

lemma unat_unsigned_arg: "unat (unsigned_arg False w) = unat w mod 2 ^ 32"
proof -
  have "unat (ucast x :: u64) = unat x" for x :: u32
    using unsigned_less [of x, where ?'a = nat] by (simp add: unsigned_ucast_eq take_bit_nat_eq_self_iff)
  then show ?thesis by (simp add: unsigned_arg_def unsigned_ucast_eq take_bit_eq_mod unat_mod)
qed

lemma hex_conversion:
  assumes "w \<noteq> 0" and "w < 10" and "unat (unsigned_arg False v) < 16 ^ w"
  shows "convert False True w False 120 [Word_Arg v] =
    Some (map (\<lambda>i. digit_table ! (unat (unsigned_arg False v) div 16 ^ i mod 16)) (rev [0..<w]), [])"
proof -
  have "debug_ultoa (unsigned_arg False v) 16 = Some (number_text 16 (unat (unsigned_arg False v)))"
    using debug_ultoa_text [of 16] by simp
  then show ?thesis using print_hex [OF assms(3)] assms(1) by (simp add: convert_def)
qed

lemma printf_byte:
  "debug_printf (cstr ''%02x '') [Word_Arg (ucast b)] s = Some (s\<lparr>debugcon := debugcon s @ hex_cell b\<rparr>)" for b :: u8
proof -
  have u: "unat (unsigned_arg False (ucast b)) = unat b" 
    using unsigned_less [of b, where ?'a = nat] by (simp add: unat_unsigned_arg unsigned_ucast_eq take_bit_eq_mod)
  have lt: "unat b < 256" using unsigned_less [of b, where ?'a = nat] by simp
  have "convert False True 2 False 120 [Word_Arg (ucast b)] = Some ([digit_table ! (unat b div 16), digit_table ! (unat b mod 16)], [])"
    using hex_conversion [of 2 "ucast b"] lt by (simp add: u upt_rec)
  moreover have "parse_spec (cstr ''02x '') = ((False, True, 2, False), [120, 32])"
    by (simp add: parse_spec_def parse_length_def cstr_def is_flag_def is_digit_def)
  ultimately have "format_output (cstr ''%02x '') [Word_Arg (ucast b)] = Some (hex_cell b)"
    using format_output_conv [of "cstr ''02x ''" False True 2 False 120 "[32]" "[Word_Arg (ucast b)]"]
    by (simp add: cstr_def hex_cell_def)
  then show ?thesis by (simp add: debug_printf_def debug_puts_out)
qed

lemma printf_offset:
  assumes "i < 2 ^ 32"
  shows "debug_printf (cstr ''%08x: '') [Word_Arg (of_nat i)] s = Some (s\<lparr>debugcon := debugcon s @ hex_offset i @ [58, 32]\<rparr>)"
proof -
  have u: "unat (unsigned_arg False (of_nat i)) = i"
    using assms by (simp add: unat_unsigned_arg unat_of_nat)
  have "convert False True 8 False 120 [Word_Arg (of_nat i)] = Some (hex_offset i, [])"
    using hex_conversion [of 8 "of_nat i"] assms by (simp add: u hex_offset_def upt_rec)
  moreover have "parse_spec (cstr ''08x: '') = ((False, True, 8, False), [120, 58, 32])"
    by (simp add: parse_spec_def parse_length_def cstr_def is_flag_def is_digit_def)
  ultimately have "format_output (cstr ''%08x: '') [Word_Arg (of_nat i)] = Some (hex_offset i @ [58, 32])"
    using format_output_conv [of "cstr ''08x: ''" False True 8 False 120 "[58, 32]" "[Word_Arg (of_nat i)]"]
    by (simp add: cstr_def)
  then show ?thesis by (simp add: debug_printf_def debug_puts_out)
qed

lemma dump_literals: "cstr ''   '' = [32, 32, 32]" "cstr '' |'' = [32, 124]" "cstr ''|'' = [124]"
  by (simp_all add: cstr_def)

lemma dump_bytes_out:
  "dump_bytes bytes i js s = Some (s\<lparr>debugcon := debugcon s @
     concat (map (\<lambda>j. (if i + j < length bytes then hex_cell (bytes ! (i + j)) else [32, 32, 32]) @ (if j = 7 then [32] else [])) js)\<rparr>)"
  by (induction js arbitrary: s) (simp_all add: printf_byte debug_puts_out debug_putchar_def dump_literals)

lemma dump_ascii_out:
  "dump_ascii bytes i s = s\<lparr>debugcon := debugcon s @ map (\<lambda>b. if 32 \<le> b \<and> b \<le> 126 then b else 46) (take 16 (drop i bytes))\<rparr>"
proof -
  have "fold (\<lambda>b. debug_putchar (if 32 \<le> b \<and> b \<le> 126 then b else chr CHR ''.'')) bs s =
      s\<lparr>debugcon := debugcon s @ map (\<lambda>b. if 32 \<le> b \<and> b \<le> 126 then b else 46) bs\<rparr>" for bs s
    by (induction bs arbitrary: s) (simp_all add: debug_putchar_def)
  then show ?thesis by (simp add: dump_ascii_def)
qed

lemma dump_rows_out:
  "\<forall>i \<in> set rows. i < 2 ^ 32 \<Longrightarrow>
    dump_rows bytes prefix rows s = Some (s\<lparr>debugcon := debugcon s @ concat (map (dump_row bytes prefix) rows)\<rparr>)"
proof (induction rows arbitrary: s)
  case (Cons i rows)
  then have i: "i < 2 ^ 32" by simp
  show ?case
    using Cons by (cases prefix)
      (simp_all add: printf_offset [OF i] dump_bytes_out dump_ascii_out debug_puts_out Let_def dump_row_def dump_literals)
qed simp

text \<open>
  A hex dump shows the data. For up to 4 GiB of data the dump always comes out, one row for every sixteen bytes:
  the prefix, the offset as eight hexadecimal digits, for each byte its two digits, blanks after the last byte, and
  the characters, with a dot for each that is not printable.
\<close>

theorem debug_hexdump_rows:
  assumes "length bytes \<le> 2 ^ 32"
  shows "debug_hexdump bytes prefix s = Some (s\<lparr>debugcon := debugcon s @
    concat (map (\<lambda>r. dump_row bytes prefix (16 * r)) [0..<(length bytes + 15) div 16])\<rparr>)"
proof -
  have "16 * r < 2 ^ 32" if "r < (length bytes + 15) div 16" for r using that assms by simp
  then show ?thesis unfolding debug_hexdump_def by (subst dump_rows_out) (auto simp: comp_def)
qed

theorem debug_hexdump_rows_witness:
  "debug_hexdump [0x41, 0x0A] None \<lparr>debugcon = [], current_debug_level = 2\<rparr> =
    Some \<lparr>debugcon = dump_row [0x41, 0x0A] None 0, current_debug_level = 2\<rparr>"
  using debug_hexdump_rows [of "[0x41, 0x0A]" None "\<lparr>debugcon = [], current_debug_level = 2\<rparr>"] by simp

end
