(* ===== verification/Graphic.thy ===== *)
theory Graphic
  imports Debug
begin

text \<open>
  The framebuffer (\<^verbatim>\<open>graphic/graphic.c\<close>): the font, the format interpreter behind \<^verbatim>\<open>kprintf\<close>, and the drawing routines.
  The framebuffer is a map from 32-bit cells, counted from its address, to colours; cells past the visible ones stand
  for the memory behind it. \<^verbatim>\<open>int\<close> is \<open>int\<close>, and a step whose value does not fit 32 bits is \<open>None\<close>, as are the other cases
  of undefined behaviour: a read outside the font, a write outside a local buffer, a read beyond the end of a format,
  a missing framebuffer.
\<close>

section \<open>Machine integers\<close>

definition fits_int :: "int \<Rightarrow> bool" where
  "fits_int v \<longleftrightarrow> - (2 ^ 31) \<le> v \<and> v < 2 ^ 31"

text \<open>The signed values a step computes, all of which have to fit.\<close>

definition checked :: "int list \<Rightarrow> 'a option \<Rightarrow> 'a option" where
  "checked vs r = (if list_all fits_int vs then r else None)"

primrec fold_opt :: "('a \<Rightarrow> 's \<Rightarrow> 's option) \<Rightarrow> 'a list \<Rightarrow> 's \<Rightarrow> 's option" where
  "fold_opt f [] s = Some s"
| "fold_opt f (x # xs) s = (case f x s of None \<Rightarrow> None | Some s' \<Rightarrow> fold_opt f xs s')"

lemma checked_Some [simp]: "checked vs r = Some x \<longleftrightarrow> list_all fits_int vs \<and> r = Some x"
  by (simp add: checked_def)

lemma fold_opt_invariant:
  assumes "fold_opt f xs s = Some s'" and "I s" and "\<And>x s s'. I s \<Longrightarrow> f x s = Some s' \<Longrightarrow> I s'"
  shows "I s'"
  using assms(1,2) by (induction xs arbitrary: s) (auto split: option.splits intro: assms(3))

lemma fold_opt_total:
  assumes "\<And>x s. x \<in> set xs \<Longrightarrow> f x s = Some (g x s)"
  shows "fold_opt f xs s = Some (fold g xs s)"
  using assms by (induction xs arbitrary: s) simp_all

lemma fold_opt_append:
  "fold_opt f (xs @ ys) s = (case fold_opt f xs s of None \<Rightarrow> None | Some s' \<Rightarrow> fold_opt f ys s')"
  by (induction xs arbitrary: s) (simp_all split: option.split)

section \<open>The screen\<close>

record framebuffer =
  fb_width :: u64
  fb_height :: u64
  fb_pitch :: u64

record screen =
  framebuffer :: "framebuffer option"
  width :: u64
  height :: u64
  cells :: "u64 \<Rightarrow> u32"

text \<open>The framebuffers the boot loader reports.\<close>

definition setup_graphic :: "framebuffer list option \<Rightarrow> screen \<Rightarrow> screen" where
  "setup_graphic response s =
     (case response of
        None \<Rightarrow> s
      | Some [] \<Rightarrow> s
      | Some (fb # _) \<Rightarrow> s\<lparr>framebuffer := Some fb, width := fb_width fb, height := fb_height fb\<rparr>)"

text \<open>The cell of a pixel; the coordinates are extended to 64 bits.\<close>

definition cell_index :: "framebuffer \<Rightarrow> int \<Rightarrow> int \<Rightarrow> u64" where
  "cell_index fb x y = of_int y * (fb_pitch fb div 4) + of_int x"

definition draw_pixel :: "int \<Rightarrow> int \<Rightarrow> u32 \<Rightarrow> screen \<Rightarrow> screen" where
  "draw_pixel x y color s =
     (if 0 \<le> x \<and> of_int x < width s \<and> 0 \<le> y \<and> of_int y < height s
      then case framebuffer s of
             None \<Rightarrow> s
           | Some fb \<Rightarrow> s\<lparr>cells := (cells s)(cell_index fb x y := color)\<rparr>
      else s)"

text \<open>
  Before a framebuffer is set both dimensions are zero, so that the test fails.
\<close>

section \<open>Text\<close>

text \<open>The glyphs the font initialises; every other entry is eight zero rows.\<close>

definition font_glyphs :: "(u8 \<times> u8 list) list" where
  "font_glyphs = [
     (0x41, [0x18, 0x24, 0x42, 0x7E, 0x42, 0x42, 0x42, 0x00]), (0x42, [0x7C, 0x42, 0x42, 0x7C, 0x42, 0x42, 0x7C, 0x00]),
     (0x43, [0x3C, 0x42, 0x40, 0x40, 0x40, 0x42, 0x3C, 0x00]), (0x44, [0x78, 0x44, 0x42, 0x42, 0x42, 0x44, 0x78, 0x00]),
     (0x45, [0x7E, 0x40, 0x40, 0x7C, 0x40, 0x40, 0x7E, 0x00]), (0x46, [0x7E, 0x40, 0x40, 0x7C, 0x40, 0x40, 0x40, 0x00]),
     (0x47, [0x3C, 0x42, 0x40, 0x4E, 0x42, 0x42, 0x3C, 0x00]), (0x48, [0x42, 0x42, 0x42, 0x7E, 0x42, 0x42, 0x42, 0x00]),
     (0x49, [0x3C, 0x18, 0x18, 0x18, 0x18, 0x18, 0x3C, 0x00]), (0x4A, [0x1E, 0x08, 0x08, 0x08, 0x08, 0x48, 0x30, 0x00]),
     (0x4B, [0x42, 0x44, 0x48, 0x70, 0x48, 0x44, 0x42, 0x00]), (0x4C, [0x40, 0x40, 0x40, 0x40, 0x40, 0x40, 0x7E, 0x00]),
     (0x4D, [0x42, 0x66, 0x5A, 0x5A, 0x42, 0x42, 0x42, 0x00]), (0x4E, [0x42, 0x62, 0x52, 0x4A, 0x46, 0x42, 0x42, 0x00]),
     (0x4F, [0x3C, 0x42, 0x42, 0x42, 0x42, 0x42, 0x3C, 0x00]), (0x50, [0x7C, 0x42, 0x42, 0x7C, 0x40, 0x40, 0x40, 0x00]),
     (0x51, [0x3C, 0x42, 0x42, 0x42, 0x4A, 0x44, 0x3A, 0x00]), (0x52, [0x7C, 0x42, 0x42, 0x7C, 0x48, 0x44, 0x42, 0x00]),
     (0x53, [0x3C, 0x42, 0x40, 0x3C, 0x02, 0x42, 0x3C, 0x00]), (0x54, [0x7E, 0x18, 0x18, 0x18, 0x18, 0x18, 0x18, 0x00]),
     (0x55, [0x42, 0x42, 0x42, 0x42, 0x42, 0x42, 0x3C, 0x00]), (0x56, [0x42, 0x42, 0x42, 0x42, 0x42, 0x24, 0x18, 0x00]),
     (0x57, [0x42, 0x42, 0x42, 0x5A, 0x5A, 0x66, 0x42, 0x00]), (0x58, [0x42, 0x42, 0x24, 0x18, 0x24, 0x42, 0x42, 0x00]),
     (0x59, [0x42, 0x42, 0x42, 0x24, 0x18, 0x18, 0x18, 0x00]), (0x5A, [0x7E, 0x02, 0x04, 0x18, 0x20, 0x40, 0x7E, 0x00]),
     (0x20, [0x00, 0x00, 0x00, 0x00, 0x00, 0x00, 0x00, 0x00]), (0x21, [0x18, 0x18, 0x18, 0x18, 0x00, 0x00, 0x18, 0x00]),
     (0x2E, [0x00, 0x00, 0x00, 0x00, 0x00, 0x18, 0x18, 0x00]), (0x30, [0x3C, 0x42, 0x46, 0x4A, 0x52, 0x62, 0x3C, 0x00]),
     (0x31, [0x18, 0x28, 0x48, 0x08, 0x08, 0x08, 0x3E, 0x00]), (0x32, [0x3C, 0x42, 0x02, 0x1C, 0x20, 0x40, 0x7E, 0x00]),
     (0x33, [0x3C, 0x42, 0x02, 0x1C, 0x02, 0x42, 0x3C, 0x00]), (0x34, [0x08, 0x18, 0x28, 0x48, 0x7E, 0x08, 0x08, 0x00]),
     (0x35, [0x7E, 0x40, 0x7C, 0x02, 0x02, 0x42, 0x3C, 0x00]), (0x36, [0x3C, 0x40, 0x7C, 0x42, 0x42, 0x42, 0x3C, 0x00]),
     (0x37, [0x7E, 0x02, 0x04, 0x08, 0x10, 0x10, 0x10, 0x00]), (0x38, [0x3C, 0x42, 0x42, 0x3C, 0x42, 0x42, 0x3C, 0x00]),
     (0x39, [0x3C, 0x42, 0x42, 0x3E, 0x02, 0x42, 0x3C, 0x00]), (0x3A, [0x00, 0x18, 0x18, 0x00, 0x00, 0x18, 0x18, 0x00]),
     (0x3B, [0x00, 0x18, 0x18, 0x00, 0x00, 0x18, 0x18, 0x10]), (0x2D, [0x00, 0x00, 0x00, 0x7E, 0x00, 0x00, 0x00, 0x00]),
     (0x5F, [0x00, 0x00, 0x00, 0x00, 0x00, 0x00, 0x00, 0xFF]), (0x3D, [0x00, 0x00, 0x7E, 0x00, 0x7E, 0x00, 0x00, 0x00]),
     (0x2B, [0x00, 0x18, 0x18, 0x7E, 0x18, 0x18, 0x00, 0x00]), (0x2A, [0x00, 0x18, 0x7E, 0x3C, 0x7E, 0x18, 0x00, 0x00]),
     (0x2F, [0x00, 0x02, 0x04, 0x08, 0x10, 0x20, 0x40, 0x00]), (0x5C, [0x00, 0x40, 0x20, 0x10, 0x08, 0x04, 0x02, 0x00]),
     (0x5B, [0x1C, 0x10, 0x10, 0x10, 0x10, 0x10, 0x1C, 0x00]), (0x5D, [0x38, 0x08, 0x08, 0x08, 0x08, 0x08, 0x38, 0x00]),
     (0x7B, [0x0E, 0x08, 0x08, 0x30, 0x08, 0x08, 0x0E, 0x00]), (0x7D, [0x70, 0x10, 0x10, 0x0C, 0x10, 0x10, 0x70, 0x00]),
     (0x28, [0x0C, 0x10, 0x20, 0x20, 0x20, 0x10, 0x0C, 0x00]), (0x29, [0x30, 0x08, 0x04, 0x04, 0x04, 0x08, 0x30, 0x00]),
     (0x3C, [0x00, 0x0C, 0x30, 0xC0, 0x30, 0x0C, 0x00, 0x00]), (0x3E, [0x00, 0x30, 0x0C, 0x03, 0x0C, 0x30, 0x00, 0x00]),
     (0x3F, [0x3C, 0x42, 0x02, 0x0C, 0x10, 0x00, 0x10, 0x00]), (0x40, [0x3C, 0x42, 0x5A, 0x5A, 0x5C, 0x40, 0x3E, 0x00]),
     (0x23, [0x14, 0x14, 0x7F, 0x14, 0x7F, 0x14, 0x14, 0x00]), (0x24, [0x08, 0x3E, 0x48, 0x3C, 0x12, 0x7C, 0x10, 0x00]),
     (0x25, [0x62, 0x64, 0x08, 0x10, 0x26, 0x46, 0x00, 0x00]), (0x5E, [0x10, 0x28, 0x44, 0x00, 0x00, 0x00, 0x00, 0x00]),
     (0x26, [0x30, 0x48, 0x30, 0x4A, 0x44, 0x3A, 0x00, 0x00]), (0x22, [0x18, 0x18, 0x00, 0x00, 0x00, 0x00, 0x00, 0x00]),
     (0x27, [0x18, 0x18, 0x00, 0x00, 0x00, 0x00, 0x00, 0x00]), (0x60, [0x10, 0x08, 0x00, 0x00, 0x00, 0x00, 0x00, 0x00]),
     (0x7E, [0x00, 0x00, 0x34, 0x4C, 0x00, 0x00, 0x00, 0x00]), (0x61, [0x00, 0x00, 0x3C, 0x02, 0x3E, 0x42, 0x3E, 0x00]),
     (0x62, [0x40, 0x40, 0x5C, 0x62, 0x42, 0x62, 0x5C, 0x00]), (0x63, [0x00, 0x00, 0x3C, 0x42, 0x40, 0x42, 0x3C, 0x00]),
     (0x64, [0x02, 0x02, 0x3A, 0x46, 0x42, 0x46, 0x3A, 0x00]), (0x65, [0x00, 0x00, 0x3C, 0x42, 0x7E, 0x40, 0x3C, 0x00]),
     (0x66, [0x0C, 0x10, 0x3E, 0x10, 0x10, 0x10, 0x10, 0x00]), (0x67, [0x00, 0x00, 0x3A, 0x46, 0x46, 0x3A, 0x02, 0x3C]),
     (0x68, [0x40, 0x40, 0x5C, 0x62, 0x42, 0x42, 0x42, 0x00]), (0x69, [0x18, 0x00, 0x38, 0x18, 0x18, 0x18, 0x3C, 0x00]),
     (0x6A, [0x06, 0x00, 0x0E, 0x06, 0x06, 0x46, 0x46, 0x3C]), (0x6B, [0x40, 0x40, 0x46, 0x48, 0x70, 0x48, 0x46, 0x00]),
     (0x6C, [0x38, 0x18, 0x18, 0x18, 0x18, 0x18, 0x3C, 0x00]), (0x6D, [0x00, 0x00, 0x66, 0x5A, 0x5A, 0x42, 0x42, 0x00]),
     (0x6E, [0x00, 0x00, 0x5C, 0x62, 0x42, 0x42, 0x42, 0x00]), (0x6F, [0x00, 0x00, 0x3C, 0x42, 0x42, 0x42, 0x3C, 0x00]),
     (0x70, [0x00, 0x00, 0x5C, 0x62, 0x62, 0x5C, 0x40, 0x40]), (0x71, [0x00, 0x00, 0x3A, 0x46, 0x46, 0x3A, 0x02, 0x02]),
     (0x72, [0x00, 0x00, 0x5C, 0x62, 0x40, 0x40, 0x40, 0x00]), (0x73, [0x00, 0x00, 0x3E, 0x40, 0x3C, 0x02, 0x7C, 0x00]),
     (0x74, [0x10, 0x10, 0x3E, 0x10, 0x10, 0x10, 0x0C, 0x00]), (0x75, [0x00, 0x00, 0x42, 0x42, 0x42, 0x46, 0x3A, 0x00]),
     (0x76, [0x00, 0x00, 0x42, 0x42, 0x42, 0x24, 0x18, 0x00]), (0x77, [0x00, 0x00, 0x42, 0x42, 0x5A, 0x5A, 0x24, 0x00]),
     (0x78, [0x00, 0x00, 0x42, 0x24, 0x18, 0x24, 0x42, 0x00]), (0x79, [0x00, 0x00, 0x42, 0x42, 0x46, 0x3A, 0x02, 0x3C]),
     (0x7A, [0x00, 0x00, 0x7E, 0x04, 0x18, 0x20, 0x7E, 0x00])]"

definition font :: "u8 list list" where
  "font = map (\<lambda>c. case map_of font_glyphs (of_nat c) of None \<Rightarrow> replicate 8 0 | Some rows \<Rightarrow> rows) [0..<128]"

text \<open>\<^verbatim>\<open>draw_char\<close> does not compare with the screen: the cell is wherever the coordinates put it.\<close>

definition draw_row :: "framebuffer \<Rightarrow> int \<Rightarrow> int \<Rightarrow> u8 \<Rightarrow> u32 \<Rightarrow> screen \<Rightarrow> screen" where
  "draw_row fb x y row color s =
     fold (\<lambda>j s. if bit row (7 - j) then s\<lparr>cells := (cells s)(cell_index fb (x + int j) y := color)\<rparr> else s) [0..<8] s"

definition draw_char :: "int \<Rightarrow> int \<Rightarrow> u8 \<Rightarrow> u32 \<Rightarrow> screen \<Rightarrow> screen option" where
  "draw_char x y c color s =
     (if 128 \<le> c then None
      else let glyph = font ! unat c
           in fold_opt (\<lambda>i s. if glyph ! i = 0 then Some s
                else case framebuffer s of
                       None \<Rightarrow> None
                     | Some fb \<Rightarrow> checked ((y + int i) # map (\<lambda>j. x + int j) (filter (\<lambda>j. bit (glyph ! i) (7 - j)) [0..<8]))
                                   (Some (draw_row fb x (y + int i) (glyph ! i) color s)))
              [0..<8] s)"

fun draw_string :: "int \<Rightarrow> int \<Rightarrow> u8 list \<Rightarrow> u32 \<Rightarrow> screen \<Rightarrow> screen option" where
  "draw_string x y [] color s = Some s"
| "draw_string x y (c # cs) color s =
     (case draw_char x y c color s of
        None \<Rightarrow> None
      | Some s \<Rightarrow> checked [x + 8] (draw_string (x + 8) y cs color s))"

subsection \<open>Numbers and formats\<close>

partial_function (option) utoa_digits :: "u32 \<Rightarrow> u32 \<Rightarrow> u8 list \<Rightarrow> u8 list option" where
  "utoa_digits base value temp =
     (if 0 < value
      then if base = 0 then None
           else let digit = value mod base
                in utoa_digits base (value div base)
                     (temp @ [if digit < 10 then chr CHR ''0'' + ucast digit else chr CHR ''a'' + ucast digit - 10])
      else Some temp)"

text \<open>
  The text is built in reverse in a local array of 32 bytes and copied with its terminator into a buffer of the same
  size, so that it must be shorter than 32.
\<close>

definition utoa_padded :: "u32 \<Rightarrow> u32 \<Rightarrow> nat \<Rightarrow> u8 \<Rightarrow> u8 list option" where
  "utoa_padded value base w pad =
     (case (if value = 0 then Some [chr CHR ''0''] else utoa_digits base value []) of
        None \<Rightarrow> None
      | Some temp \<Rightarrow>
          let temp = temp @ replicate (w - length temp) pad
          in if length temp < 32 then Some (rev temp) else None)"

text \<open>
  One conversion, from the character after the width on: what is put out, the rest of the format and the
  arguments left. A format that ends within a conversion makes the loop step over its terminator.
\<close>

definition print_conv :: "nat \<Rightarrow> u8 \<Rightarrow> u8 list \<Rightarrow> va_arg list \<Rightarrow> (u8 list \<times> u8 list \<times> va_arg list) option" where
  "print_conv w pad cs args =
     (case cs of
        [] \<Rightarrow> None
      | c # cs \<Rightarrow>
          if c = chr CHR ''d''
          then (case args of
                  Word_Arg v # as \<Rightarrow>
                    let value = sint (ucast v :: u32)
                    in if value = - (2 ^ 31) then None
                       else map_option (\<lambda>b. ((if value < 0 then [chr CHR ''-''] else []) @ b, cs, as))
                              (utoa_padded (of_int \<bar>value\<bar>) 10 w pad)
                | _ \<Rightarrow> None)
          else if c = chr CHR ''u''
          then (case args of
                  Word_Arg v # as \<Rightarrow> map_option (\<lambda>b. (b, cs, as)) (utoa_padded (ucast v) 10 w pad)
                | _ \<Rightarrow> None)
          else if c = chr CHR ''x''
          then (case args of
                  Word_Arg v # as \<Rightarrow> map_option (\<lambda>b. (b, cs, as)) (utoa_padded (ucast v) 16 w pad)
                | _ \<Rightarrow> None)
          else if c = chr CHR ''p''
          then (case args of
                  Word_Arg v # as \<Rightarrow>
                    map_option (\<lambda>b. (cstr ''0x'' @ b, cs, as)) (utoa_padded (ucast v) 16 16 (chr CHR ''0''))
                | _ \<Rightarrow> None)
          else if c = chr CHR ''s''
          then (case args of
                  Str_Arg str # as \<Rightarrow> Some (case str of None \<Rightarrow> [] | Some b \<Rightarrow> b, cs, as)
                | _ \<Rightarrow> None)
          else if c = chr CHR ''c''
          then (case args of Word_Arg v # as \<Rightarrow> Some ([ucast v], cs, as) | _ \<Rightarrow> None)
          else if c = chr CHR ''l''
          then (case cs of
                  [] \<Rightarrow> None
                | l # cs \<Rightarrow>
                    if l = chr CHR ''x''
                    then (case args of
                            Word_Arg v # as \<Rightarrow> map_option (\<lambda>b. (b, cs, as)) (utoa_padded (ucast v) 16 w pad)
                          | _ \<Rightarrow> None)
                    else if l = chr CHR ''u''
                    then (case args of
                            Word_Arg v # as \<Rightarrow> map_option (\<lambda>b. (b, cs, as)) (utoa_padded (ucast v) 10 w pad)
                          | _ \<Rightarrow> None)
                    else Some (cstr ''%l'' @ [l], cs, args))
          else if c = chr CHR ''%'' then Some ([chr CHR ''%''], cs, args)
          else Some ([chr CHR ''%'', c], cs, args))"

lemma print_conv_shorter: "print_conv w pad cs args = Some (out, rest, as) \<Longrightarrow> length rest < length cs"
  by (auto simp: print_conv_def Let_def split: list.splits if_splits va_arg.splits)

text \<open>The padding character, the width and the rest of the format.\<close>

definition parse_field :: "u8 list \<Rightarrow> u8 \<times> nat \<times> u8 list" where
  "parse_field cs =
     (case cs of
        c # ds \<Rightarrow> if c = chr CHR ''0'' then (c, parse_width 0 ds) else (chr CHR '' '', parse_width 0 cs)
      | [] \<Rightarrow> (chr CHR '' '', parse_width 0 cs))"

lemma length_parse_field: "parse_field cs = (pad, w, rest) \<Longrightarrow> length rest \<le> length cs"
  using length_parse_width [of 0 cs] length_parse_width [of 0 "tl cs"]
  by (auto simp: parse_field_def split: list.splits if_splits)

function vsprintf :: "u8 list \<Rightarrow> va_arg list \<Rightarrow> u8 list option" where
  "vsprintf [] args = Some []"
| "vsprintf (c # cs) args =
     (if c = chr CHR ''%''
      then (case parse_field cs of
              (pad, w, conv) \<Rightarrow>
                if \<not> fits_int (int w) then None
                else (case print_conv w pad conv args of
                        None \<Rightarrow> None
                      | Some (out, rest, as) \<Rightarrow> map_option (\<lambda>later. out @ later) (vsprintf rest as)))
      else map_option (\<lambda>later. c # later) (vsprintf cs args))"
  by pat_completeness auto
termination
proof (relation "measure (\<lambda>(cs, args). length cs)", goal_cases)
  case prems: (2 c cs args pad y w conv r out z rest as)
  then have "print_conv w pad conv args = Some (out, rest, as)" "parse_field cs = (pad, w, conv)" by simp_all
  then show ?case using print_conv_shorter [of w pad conv args out rest as] length_parse_field [of cs pad w conv] by simp
qed simp_all


text \<open>What a reader of the C string in a buffer sees of the bytes put into it.\<close>

definition c_string :: "u8 list \<Rightarrow> u8 list" where
  "c_string bs = takeWhile (\<lambda>b. b \<noteq> 0) bs"

definition kprintf :: "int \<Rightarrow> int \<Rightarrow> u8 list \<Rightarrow> va_arg list \<Rightarrow> screen \<Rightarrow> screen option" where
  "kprintf x y format args s =
     (case vsprintf format args of
        None \<Rightarrow> None
      | Some buffer \<Rightarrow> if length buffer < 1024 then draw_string x y (c_string buffer) 0xFFFFFF s else None)"

text \<open>The buffer is written as far as the text goes, whatever size \<open>n\<close> the caller states.\<close>

definition kprintf_to_buffer :: "nat \<Rightarrow> int \<Rightarrow> u8 list \<Rightarrow> va_arg list \<Rightarrow> (u8 list \<times> nat) option" where
  "kprintf_to_buffer available n format args =
     (case vsprintf format args of
        None \<Rightarrow> None
      | Some buffer \<Rightarrow> if length buffer < available then Some (buffer, length buffer) else None)"

section \<open>Figures\<close>

definition abs_int :: "int \<Rightarrow> int" where
  "abs_int x = (if x < 0 then - x else x)"

text \<open>The square of pixels at a point, without those outside the radius.\<close>

definition brush :: "int \<Rightarrow> (int \<times> int) list" where
  "brush half = filter (\<lambda>(i, j). i * i + j * j \<le> half * half + half)
     (concat (map (\<lambda>i. map (Pair i) [- half..half]) [- half..half]))"

definition draw_brush :: "int \<Rightarrow> u32 \<Rightarrow> int \<Rightarrow> int \<Rightarrow> screen \<Rightarrow> screen" where
  "draw_brush half color x y s = fold (\<lambda>(i, j). draw_pixel (x + i) (y + j) color) (brush half) s"

text \<open>
  The loop from the current point to the end point. The outermost pixels of the brush are the largest and least
  coordinates it computes.
\<close>

partial_function (option) line_loop ::
  "int \<Rightarrow> int \<Rightarrow> int \<Rightarrow> int \<Rightarrow> int \<Rightarrow> int \<Rightarrow> int \<Rightarrow> u32 \<Rightarrow> int \<Rightarrow> int \<Rightarrow> int \<Rightarrow> screen \<Rightarrow> screen option" where
  "line_loop x1 y1 dx dy sx sy half color x0 y0 err s =
     (if 0 \<le> half \<and> \<not> list_all fits_int [x0 - half, x0 + half, y0 - half, y0 + half] then None
      else let s = draw_brush half color x0 y0 s
        in if x0 = x1 \<and> y0 = y1 then Some s
           else let e2 = err * 2;
                    err' = (if - dy < e2 then err - dy else err);
                    x' = (if - dy < e2 then x0 + sx else x0);
                    err'' = (if e2 < dx then err' + dx else err');
                    y' = (if e2 < dx then y0 + sy else y0)
                in if list_all fits_int [e2, err', x', err'', y']
                   then line_loop x1 y1 dx dy sx sy half color x' y' err'' s else None)"

definition draw_line :: "int \<Rightarrow> int \<Rightarrow> int \<Rightarrow> int \<Rightarrow> int \<Rightarrow> u32 \<Rightarrow> screen \<Rightarrow> screen option" where
  "draw_line x0 y0 x1 y1 thickness color s =
     (let dx = abs_int (x1 - x0);
          dy = abs_int (y1 - y0);
          sx = (if x0 < x1 then 1 else - 1);
          sy = (if y0 < y1 then 1 else - 1);
          half = thickness sdiv 2
      in checked ([x1 - x0, y1 - y0, dx, dy, dx - dy] @
                  (if 0 \<le> half then [2 * (half * half), half * half + half] else []))
           (line_loop x1 y1 dx dy sx sy half color x0 y0 (dx - dy) s))"

definition clear_screen :: "u32 \<Rightarrow> screen \<Rightarrow> screen option" where
  "clear_screen color s =
     (case framebuffer s of
        None \<Rightarrow> None
      | Some fb \<Rightarrow> Some (s\<lparr>cells := (\<lambda>i. if i < width s * height s then color else cells s i)\<rparr>))"

definition fill_rect :: "int \<Rightarrow> int \<Rightarrow> int \<Rightarrow> int \<Rightarrow> u32 \<Rightarrow> screen \<Rightarrow> screen option" where
  "fill_rect x y w h color s =
     fold_opt (\<lambda>i. fold_opt (\<lambda>j s. checked [x + j, y + i] (Some (draw_pixel (x + j) (y + i) color s))) [0..w - 1])
       [0..h - 1] s"

definition rect_border :: "int \<Rightarrow> int \<Rightarrow> int \<Rightarrow> int \<Rightarrow> u32 \<Rightarrow> int \<Rightarrow> screen \<Rightarrow> screen option" where
  "rect_border x y w h color t s =
     checked [y - t, x + w, x + w - 1, y + h, y + h - 1, y + h - 1 + t, x - t, x + w - 1 + t]
       (case draw_line x (y - t) (x + w - 1) (y - t) 1 color s of
          None \<Rightarrow> None
        | Some s \<Rightarrow>
       (case draw_line x (y + h - 1 + t) (x + w - 1) (y + h - 1 + t) 1 color s of
          None \<Rightarrow> None
        | Some s \<Rightarrow>
       (case draw_line (x - t) y (x - t) (y + h - 1) 1 color s of
          None \<Rightarrow> None
        | Some s \<Rightarrow> draw_line (x + w - 1 + t) y (x + w - 1 + t) (y + h - 1) 1 color s)))"

definition draw_rect :: "int \<Rightarrow> int \<Rightarrow> int \<Rightarrow> int \<Rightarrow> int \<Rightarrow> u32 \<Rightarrow> bool \<Rightarrow> screen \<Rightarrow> screen option" where
  "draw_rect x y w h thickness color filled s =
     (if filled then fill_rect x y w h color s
      else fold_opt (rect_border x y w h color) [0..thickness - 1] s)"

text \<open>One step of a circle: the pixels it draws, as offsets from the centre and the brush shift.\<close>

definition circle_column :: "int \<Rightarrow> int \<Rightarrow> int list \<Rightarrow> (int \<times> int) list" where
  "circle_column x0 y0 ts = concat (map (\<lambda>i. concat (map (\<lambda>t. [(x0 + t, i), (- x0 + t, i)]) ts)) [- y0..y0])"

definition circle_octants :: "int \<Rightarrow> int \<Rightarrow> int list \<Rightarrow> (int \<times> int) list" where
  "circle_octants x0 y0 ts =
     concat (map (\<lambda>t. [(x0 + t, y0), (- x0 + t, y0), (x0 + t, - y0), (- x0 + t, - y0),
                       (y0 + t, x0), (- y0 + t, x0), (y0 + t, - x0), (- y0 + t, - x0)]) ts)"

partial_function (option) circle_loop ::
  "int \<Rightarrow> int \<Rightarrow> int list \<Rightarrow> u32 \<Rightarrow> bool \<Rightarrow> int \<Rightarrow> int \<Rightarrow> int \<Rightarrow> screen \<Rightarrow> screen option" where
  "circle_loop x y ts color filled x0 y0 d s =
     (if x0 \<le> y0
      then let offsets = (if filled then circle_column x0 y0 ts else circle_octants x0 y0 ts);
               d' = (if d < 0 then d + (2 * x0 + 3) else d + (2 * (x0 - y0) + 5));
               y' = (if d < 0 then y0 else y0 - 1)
           in if list_all fits_int (concat (map (\<lambda>(i, j). [x + i, y + j]) offsets) @
                   [if d < 0 then 2 * x0 + 3 else 2 * (x0 - y0) + 5, d', y', x0 + 1])
              then circle_loop x y ts color filled (x0 + 1) y' d'
                     (fold (\<lambda>(i, j). draw_pixel (x + i) (y + j) color) offsets s)
              else None
      else Some s)"

definition draw_circle :: "int \<Rightarrow> int \<Rightarrow> int \<Rightarrow> int \<Rightarrow> u32 \<Rightarrow> bool \<Rightarrow> screen \<Rightarrow> screen option" where
  "draw_circle x y radius thickness color filled s =
     checked [1 - radius, - thickness]
       (circle_loop x y [(- thickness) sdiv 2..thickness sdiv 2] color filled 0 radius (1 - radius) s)"

text \<open>The code that would fill a triangle is commented out.\<close>

definition draw_triangle ::
  "int \<Rightarrow> int \<Rightarrow> int \<Rightarrow> int \<Rightarrow> int \<Rightarrow> int \<Rightarrow> int \<Rightarrow> u32 \<Rightarrow> bool \<Rightarrow> screen \<Rightarrow> screen option" where
  "draw_triangle x0 y0 x1 y1 x2 y2 thickness color filled s =
     (if filled then Some s
      else case draw_line x0 y0 x1 y1 thickness color s of
             None \<Rightarrow> None
           | Some s \<Rightarrow>
               (case draw_line x1 y1 x2 y2 thickness color s of
                  None \<Rightarrow> None
                | Some s \<Rightarrow> draw_line x2 y2 x0 y0 thickness color s))"

end
