(* ===== verification/Graphic_Figures.thy ===== *)
theory Graphic_Figures
  imports Graphic
begin

text \<open>
  Lines, rectangles, circles and triangles: drawing returns, touches visible pixels only, lines connect their end
  points, filled rectangles are exact, and what \<^verbatim>\<open>clear_screen\<close> leaves.
\<close>

section \<open>Where the figures draw\<close>

definition on_screen :: "screen \<Rightarrow> int \<Rightarrow> int \<Rightarrow> bool" where
  "on_screen s x y \<longleftrightarrow> 0 \<le> x \<and> of_int x < width s \<and> 0 \<le> y \<and> of_int y < height s"

definition visible_cells :: "screen \<Rightarrow> u64 set" where
  "visible_cells s = {cell_index fb x y | fb x y. framebuffer s = Some fb \<and> on_screen s x y}"

definition draws_visibly :: "screen \<Rightarrow> screen \<Rightarrow> bool" where
  "draws_visibly s s' \<longleftrightarrow>
     framebuffer s' = framebuffer s \<and> width s' = width s \<and> height s' = height s \<and>
     (\<forall>i. i \<notin> visible_cells s \<longrightarrow> cells s' i = cells s i)"

lemma draws_visibly_refl [simp]: "draws_visibly s s"
  by (simp add: draws_visibly_def)

lemma visible_cells_cong:
  "framebuffer s' = framebuffer s \<Longrightarrow> width s' = width s \<Longrightarrow> height s' = height s \<Longrightarrow> visible_cells s' = visible_cells s"
  by (simp add: visible_cells_def on_screen_def)

lemma draws_visibly_trans: "draws_visibly s s' \<Longrightarrow> draws_visibly s' s'' \<Longrightarrow> draws_visibly s s''"
  using visible_cells_cong [of s' s] by (auto simp: draws_visibly_def)

lemma draw_pixel_visibly: "draws_visibly s (draw_pixel x y color s)"
proof -
  have "cell_index fb x y \<in> visible_cells s" if "framebuffer s = Some fb" "on_screen s x y" for fb
    using that unfolding visible_cells_def by blast
  then show ?thesis by (auto simp: draws_visibly_def draw_pixel_def on_screen_def split: option.split)
qed

lemma fold_visibly:
  assumes "\<And>x s. draws_visibly s (f x s)"
  shows "draws_visibly s (fold f xs s)"
  using assms by (induction xs arbitrary: s) (auto intro: draws_visibly_trans)

lemma fold_opt_visibly:
  assumes "fold_opt f xs s = Some s'" and "\<And>x s s'. f x s = Some s' \<Longrightarrow> draws_visibly s s'"
  shows "draws_visibly s s'"
  using assms(1) by (rule fold_opt_invariant) (auto intro: draws_visibly_trans assms(2))

lemma draw_brush_visibly: "draws_visibly s (draw_brush half color x y s)"
  unfolding draw_brush_def by (rule fold_visibly) (auto simp: draw_pixel_visibly)

section \<open>Lines\<close>

text \<open>
  A path from point to point, each step a king's move on the grid, and the bounds its points keep: the box of the end
  points, and a distance from the ideal line that is below two pixels
  (\<open>\<bar>(y - y0) * (x1 - x0) - (x - x0) * (y1 - y0)\<bar>\<close> is the distance times the length of the line).
\<close>

fun king_path :: "(int \<times> int) list \<Rightarrow> bool" where
  "king_path ((x, y) # (x', y') # ps) \<longleftrightarrow>
     \<bar>x' - x\<bar> \<le> 1 \<and> \<bar>y' - y\<bar> \<le> 1 \<and> (x', y') \<noteq> (x, y) \<and> king_path ((x', y') # ps)"
| "king_path ps \<longleftrightarrow> True"

definition near_line :: "int \<Rightarrow> int \<Rightarrow> int \<Rightarrow> int \<Rightarrow> int \<times> int \<Rightarrow> bool" where
  "near_line x0 y0 x1 y1 p \<longleftrightarrow>
     (case p of (x, y) \<Rightarrow>
        min x0 x1 \<le> x \<and> x \<le> max x0 x1 \<and> min y0 y1 \<le> y \<and> y \<le> max y0 y1 \<and>
        \<bar>(y - y0) * (x1 - x0) - (x - x0) * (y1 - y0)\<bar> \<le> \<bar>x1 - x0\<bar> + \<bar>y1 - y0\<bar>)"

definition line_invariant :: "int \<Rightarrow> int \<Rightarrow> int \<Rightarrow> int \<Rightarrow> int \<Rightarrow> bool" where
  "line_invariant dx dy a b err \<longleftrightarrow>
     0 \<le> a \<and> a \<le> dx \<and> 0 \<le> b \<and> b \<le> dy \<and> err = (b + 1) * dx - (a + 1) * dy \<and> - 2 * dy \<le> err \<and> err \<le> 2 * dx"

lemma line_invariant_x:
  assumes "line_invariant dx dy a b err" and "a = dx" and "- dy < err * 2"
  shows "b = dy"
proof (rule ccontr)
  assume "b \<noteq> dy"
  then have "b + 1 \<le> dy" "0 \<le> dx" using assms by (auto simp: line_invariant_def)
  then have "(b + 1) * dx \<le> dy * dx" by (intro mult_right_mono)
  then have "err \<le> - dy" using assms by (simp add: line_invariant_def algebra_simps)
  then show False using assms \<open>b + 1 \<le> dy\<close> by (auto simp: line_invariant_def)
qed

lemma line_invariant_y:
  assumes "line_invariant dx dy a b err" and "b = dy" and "err * 2 < dx"
  shows "a = dx"
proof (rule ccontr)
  assume "a \<noteq> dx"
  then have "a + 1 \<le> dx" "0 \<le> dy" using assms by (auto simp: line_invariant_def)
  then have "(a + 1) * dy \<le> dx * dy" by (intro mult_right_mono)
  then have "dx \<le> err" using assms by (simp add: line_invariant_def algebra_simps)
  then show False using assms \<open>a + 1 \<le> dx\<close> by (auto simp: line_invariant_def)
qed

text \<open>One step keeps the invariant and comes nearer to the end.\<close>

lemma line_step:
  assumes "line_invariant dx dy a b err" and "\<not> (a = dx \<and> b = dy)"
    and "ax = (if - dy < err * 2 then 1 else 0)" and "ay = (if err * 2 < dx then 1 else 0)"
  shows "line_invariant dx dy (a + ax) (b + ay) (err - ax * dy + ay * dx)"
    and "nat (dx - (a + ax)) + nat (dy - (b + ay)) < nat (dx - a) + nat (dy - b)"
    and "(ax, ay) \<noteq> (0, 0)"
proof -
  have x: "a < dx" if "- dy < err * 2"
    using line_invariant_x [OF assms(1) _ that] assms(1,2) by (cases "a = dx") (auto simp: line_invariant_def)
  have y: "b < dy" if "err * 2 < dx"
    using line_invariant_y [OF assms(1) _ that] assms(1,2) by (cases "b = dy") (auto simp: line_invariant_def)
  show m: "(ax, ay) \<noteq> (0, 0)" using assms by (auto simp: line_invariant_def split: if_splits)
  show "line_invariant dx dy (a + ax) (b + ay) (err - ax * dy + ay * dx)"
    using assms x y by (auto simp: line_invariant_def algebra_simps)
  show "nat (dx - (a + ax)) + nat (dy - (b + ay)) < nat (dx - a) + nat (dy - b)"
    using assms m x y by (auto simp: line_invariant_def split: if_splits)
qed

lemma line_loop_path:
  fixes dx dy sx sy half :: int
  assumes "line_invariant dx dy a b err" and "dx < 2 ^ 29" and "dy < 2 ^ 29" and "\<bar>sx\<bar> = 1" and "\<bar>sy\<bar> = 1"
    and "\<And>k. 0 \<le> k \<Longrightarrow> k \<le> dx \<Longrightarrow> \<bar>x0 + sx * k\<bar> + \<bar>half\<bar> < 2 ^ 31"
    and "\<And>k. 0 \<le> k \<Longrightarrow> k \<le> dy \<Longrightarrow> \<bar>y0 + sy * k\<bar> + \<bar>half\<bar> < 2 ^ 31"
  shows "\<exists>ks. hd ks = (a, b) \<and> ks \<noteq> [] \<and> last ks = (dx, dy) \<and> int (length ks) \<le> (dx - a) + (dy - b) + 1 \<and> king_path ks \<and>
    (\<forall>(a, b) \<in> set ks. \<exists>err. line_invariant dx dy a b err) \<and>
    line_loop (x0 + sx * dx) (y0 + sy * dy) dx dy sx sy half color (x0 + sx * a) (y0 + sy * b) err s =
      Some (fold (\<lambda>(a, b). draw_brush half color (x0 + sx * a) (y0 + sy * b)) ks s)"
  using assms(1)
proof (induction "nat (dx - a) + nat (dy - b)" arbitrary: a b err s rule: less_induct)
  case less
  have ab: "0 \<le> a" "a \<le> dx" "0 \<le> b" "b \<le> dy" "\<bar>err\<bar> < 2 ^ 30"
    using less.prems assms(2,3) by (auto simp: line_invariant_def)
  have inj: "x0 + sx * a = x0 + sx * dx \<longleftrightarrow> a = dx" "y0 + sy * b = y0 + sy * dy \<longleftrightarrow> b = dy"
    using assms(4,5) by auto
  have guard: "list_all fits_int [x0 + sx * a - half, x0 + sx * a + half, y0 + sy * b - half, y0 + sy * b + half]"
    using assms(6) [of a] assms(7) [of b] ab by (simp add: fits_int_def) linarith
  let ?s = "draw_brush half color (x0 + sx * a) (y0 + sy * b) s"
  show ?case
  proof (cases "a = dx \<and> b = dy")
    case True
    then show ?thesis
      using less.prems guard by (intro exI [of _ "[(a, b)]"], subst line_loop.simps) (auto simp: Let_def)
  next
    case False
    define ax ay :: int where "ax = (if - dy < err * 2 then 1 else 0)" and "ay = (if err * 2 < dx then 1 else 0)"
    define e where "e = err - ax * dy + ay * dx"
    note step = line_step [OF less.prems False ax_def ay_def, folded e_def]
    obtain ks where ks: "hd ks = (a + ax, b + ay)" "ks \<noteq> []" "last ks = (dx, dy)"
        "int (length ks) \<le> (dx - (a + ax)) + (dy - (b + ay)) + 1" "king_path ks"
        "\<forall>(a, b) \<in> set ks. \<exists>err. line_invariant dx dy a b err"
        "line_loop (x0 + sx * dx) (y0 + sy * dy) dx dy sx sy half color (x0 + sx * (a + ax)) (y0 + sy * (b + ay)) e ?s =
          Some (fold (\<lambda>(a, b). draw_brush half color (x0 + sx * a) (y0 + sy * b)) ks ?s)"
      using less.hyps [OF step(2,1)] by blast
    have e': "(if err * 2 < dx then (if - dy < err * 2 then err - dy else err) + dx else if - dy < err * 2 then err - dy else err) = e"
      "(if - dy < err * 2 then x0 + sx * a + sx else x0 + sx * a) = x0 + sx * (a + ax)"
      "(if err * 2 < dx then y0 + sy * b + sy else y0 + sy * b) = y0 + sy * (b + ay)"
      by (auto simp: e_def ax_def ay_def algebra_simps)
    have n: "0 \<le> a + ax" "a + ax \<le> dx" "0 \<le> b + ay" "b + ay \<le> dy" "\<bar>e\<bar> < 2 ^ 30"
      using step(1) assms(2,3) by (auto simp: line_invariant_def)
    have fits: "list_all fits_int [err * 2, (if - dy < err * 2 then err - dy else err), x0 + sx * (a + ax), e, y0 + sy * (b + ay)]"
      using assms(3) assms(6) [of "a + ax"] assms(7) [of "b + ay"] n ab by (simp add: fits_int_def) linarith
    have "line_loop (x0 + sx * dx) (y0 + sy * dy) dx dy sx sy half color (x0 + sx * a) (y0 + sy * b) err s =
        Some (fold (\<lambda>(a, b). draw_brush half color (x0 + sx * a) (y0 + sy * b)) ks ?s)"
      using fits guard False by (subst line_loop.simps) (simp only: Let_def e' inj ks(7) if_True simp_thms if_False)
    moreover have "king_path ((a, b) # ks)"
      using ks(1,2,5) step(3) by (cases ks) (auto simp: ax_def ay_def split: if_splits)
    moreover have "1 \<le> ax + ay" using step(3) by (auto simp: ax_def ay_def split: if_splits)
    ultimately show ?thesis
      using ks less.prems by (intro exI [of _ "(a, b) # ks"]) auto
  qed
qed

definition line_path :: "int \<Rightarrow> int \<Rightarrow> int \<Rightarrow> int \<Rightarrow> (int \<times> int) list \<Rightarrow> bool" where
  "line_path x0 y0 x1 y1 path \<longleftrightarrow>
     path \<noteq> [] \<and> hd path = (x0, y0) \<and> last path = (x1, y1) \<and> king_path path \<and>
     int (length path) \<le> \<bar>x1 - x0\<bar> + \<bar>y1 - y0\<bar> + 1 \<and> (\<forall>p \<in> set path. near_line x0 y0 x1 y1 p)"

lemma king_path_map:
  assumes "\<bar>sx\<bar> = 1" and "\<bar>sy\<bar> = 1"
  shows "king_path (map (\<lambda>(a, b). (x0 + sx * a, y0 + sy * b)) ks) = king_path ks"
proof (induction ks rule: king_path.induct)
  case (1 x y x' y' ps)
  have "\<bar>x0 + sx * x' - (x0 + sx * x)\<bar> = \<bar>x' - x\<bar>" "\<bar>y0 + sy * y' - (y0 + sy * y)\<bar> = \<bar>y' - y\<bar>"
    using assms by (auto simp: abs_if split: if_splits)
  moreover have "x0 + sx * x' = x0 + sx * x \<longleftrightarrow> x' = x" "y0 + sy * y' = y0 + sy * y \<longleftrightarrow> y' = y" using assms by auto
  ultimately show ?case using 1 by auto
qed simp_all

lemma near_line_invariant:
  assumes "line_invariant dx dy a b err" and "\<bar>sx\<bar> = 1" and "\<bar>sy\<bar> = 1"
  shows "near_line x0 y0 (x0 + sx * dx) (y0 + sy * dy) (x0 + sx * a, y0 + sy * b)"
proof -
  have "\<bar>b * dx - a * dy\<bar> \<le> dx + dy" using assms(1) by (auto simp: line_invariant_def algebra_simps)
  moreover have "sy * b * (sx * dx) - sx * a * (sy * dy) = sx * sy * (b * dx - a * dy)" by (simp add: algebra_simps)
  then have "\<bar>sy * b * (sx * dx) - sx * a * (sy * dy)\<bar> = \<bar>b * dx - a * dy\<bar>" using assms by (simp add: abs_mult)
  moreover have "\<bar>sx * dx\<bar> = dx" "\<bar>sy * dy\<bar> = dy" using assms by (auto simp: line_invariant_def abs_mult)
  moreover have "sx = 1 \<or> sx = - 1" "sy = 1 \<or> sy = - 1" using assms by linarith+
  ultimately show ?thesis using assms(1) by (auto simp: near_line_def line_invariant_def)
qed

text \<open>Coordinates and sizes far from the ends of the integer range.\<close>

abbreviation small :: "int \<Rightarrow> bool" where
  "small v \<equiv> - (2 ^ 27) < v \<and> v < 2 ^ 27"

lemma half_thickness:
  fixes t :: int
  assumes "- (2 ^ 16) < t" and "t < 2 ^ 16"
  shows "- (2 ^ 15) < t sdiv 2" "t sdiv 2 < 2 ^ 15"
proof -
  have "\<bar>t\<bar> div 2 < 2 ^ 15" "0 \<le> \<bar>t\<bar> div 2" using assms by auto
  then show "- (2 ^ 15) < t sdiv 2" "t sdiv 2 < 2 ^ 15"
    by (auto simp: signed_divide_int_def sgn_if)
qed

lemma draw_line_path:
  assumes "small x0" and "small y0" and "small x1" and "small y1" and "- (2 ^ 16) < thickness" and "thickness < 2 ^ 16"
  shows "\<exists>path. line_path x0 y0 x1 y1 path \<and>
    draw_line x0 y0 x1 y1 thickness color s =
      Some (fold (\<lambda>(x, y). draw_brush (thickness sdiv 2) color x y) path s)"
proof -
  define half where "half = thickness sdiv 2"
  note h = half_thickness [OF assms(5,6), folded half_def]
  define dx dy sx sy where "dx = \<bar>x1 - x0\<bar>" and "dy = \<bar>y1 - y0\<bar>" and "sx = (if x0 < x1 then 1 else - 1 :: int)" and
    "sy = (if y0 < y1 then 1 else - 1 :: int)"
  have s: "\<bar>sx\<bar> = 1" "\<bar>sy\<bar> = 1" "x1 = x0 + sx * dx" "y1 = y0 + sy * dy" by (auto simp: dx_def dy_def sx_def sy_def)
  have d: "0 \<le> dx" "0 \<le> dy" "dx < 2 ^ 28" "dy < 2 ^ 28" using assms by (auto simp: dx_def dy_def)
  have i: "line_invariant dx dy 0 0 (dx - dy)" using d by (simp add: line_invariant_def)
  have bx: "\<bar>x0 + sx * k\<bar> + \<bar>half\<bar> < 2 ^ 31" if "0 \<le> k" "k \<le> dx" for k
    using that assms h d by (auto simp: sx_def)
  have by': "\<bar>y0 + sy * k\<bar> + \<bar>half\<bar> < 2 ^ 31" if "0 \<le> k" "k \<le> dy" for k
    using that assms h d by (auto simp: sy_def)
  have lt: "dx < 2 ^ 29" "dy < 2 ^ 29" using d by auto
  obtain ks where ks: "hd ks = (0, 0)" "ks \<noteq> []" "last ks = (dx, dy)" "int (length ks) \<le> dx + dy + 1" "king_path ks"
      "\<forall>(a, b) \<in> set ks. \<exists>err. line_invariant dx dy a b err"
      "line_loop (x0 + sx * dx) (y0 + sy * dy) dx dy sx sy half color x0 y0 (dx - dy) s =
        Some (fold (\<lambda>(a, b). draw_brush half color (x0 + sx * a) (y0 + sy * b)) ks s)"
    using line_loop_path [OF i lt s(1,2) bx by', where color = color and s = s] by auto
  let ?path = "map (\<lambda>(a, b). (x0 + sx * a, y0 + sy * b)) ks"
  have "line_path x0 y0 x1 y1 ?path"
    unfolding line_path_def
  proof (intro conjI ballI)
    show "hd ?path = (x0, y0)" "?path \<noteq> []" "king_path ?path" using ks king_path_map [OF s(1,2)] by (simp_all add: hd_map)
    show "last ?path = (x1, y1)" using ks(2,3) s(3,4) by (simp add: last_map)
    show "int (length ?path) \<le> \<bar>x1 - x0\<bar> + \<bar>y1 - y0\<bar> + 1" using ks(4) by (simp add: dx_def dy_def)
    fix p
    assume "p \<in> set ?path"
    then obtain a b where p: "p = (x0 + sx * a, y0 + sy * b)" "(a, b) \<in> set ks" by auto
    then obtain err where "line_invariant dx dy a b err" using ks(6) by blast
    from near_line_invariant [OF this s(1,2)] show "near_line x0 y0 x1 y1 p" unfolding p(1) s(3,4) .
  qed
  moreover have "\<bar>half\<bar> * \<bar>half\<bar> \<le> 32767 * 32767" using h by (intro mult_mono) auto
  then have "half * half \<le> 32767 * 32767" "- 1 < half * half"
    using zero_le_square [of half] by (simp_all del: zero_le_square)
  then have "list_all fits_int ([x1 - x0, y1 - y0, abs_int (x1 - x0), abs_int (y1 - y0), abs_int (x1 - x0) - abs_int (y1 - y0)] @
      (if 0 \<le> half then [2 * (half * half), half * half + half] else []))"
    using h assms by (auto simp: fits_int_def abs_int_def)
  then have "draw_line x0 y0 x1 y1 thickness color s =
      line_loop x1 y1 (abs_int (x1 - x0)) (abs_int (y1 - y0)) sx sy half color x0 y0 (abs_int (x1 - x0) - abs_int (y1 - y0)) s"
    unfolding draw_line_def checked_def Let_def half_def [symmetric] sx_def [symmetric] sy_def [symmetric]
    by (simp only: if_True)
  then have "draw_line x0 y0 x1 y1 thickness color s =
      line_loop (x0 + sx * dx) (y0 + sy * dy) dx dy sx sy half color x0 y0 (dx - dy) s"
    unfolding s(3,4) [symmetric] by (simp add: abs_int_def dx_def dy_def abs_if)
  ultimately show ?thesis using ks(7)
    by (intro exI [of _ ?path]) (simp add: fold_map comp_def case_prod_beta' half_def)
qed

lemma draw_line_returns:
  assumes "small x0" and "small y0" and "small x1" and "small y1" and "- (2 ^ 16) < thickness" and "thickness < 2 ^ 16"
  shows "\<exists>s'. draw_line x0 y0 x1 y1 thickness color s = Some s' \<and> draws_visibly s s'"
  using draw_line_path [OF assms, of color s] by (auto intro!: fold_visibly draw_brush_visibly)

section \<open>Rectangles, circles and triangles\<close>

lemma fold_opt_returns:
  assumes "\<And>x s. x \<in> set xs \<Longrightarrow> \<exists>s'. f x s = Some s' \<and> draws_visibly s s'"
  shows "\<exists>s'. fold_opt f xs s = Some s' \<and> draws_visibly s s'"
  using assms
proof (induction xs arbitrary: s)
  case (Cons x xs)
  then obtain s1 where s1: "f x s = Some s1" "draws_visibly s s1" by (meson list.set_intros(1))
  obtain s2 where "fold_opt f xs s1 = Some s2" "draws_visibly s1 s2" using Cons by (meson list.set_intros(2))
  then show ?case using s1 by (auto intro: draws_visibly_trans)
qed simp

lemma fill_rect_fold:
  assumes "small x" and "small y" and "w < 2 ^ 27" and "h < 2 ^ 27"
  shows "fill_rect x y w h color s =
    Some (fold (\<lambda>i. fold (\<lambda>j. draw_pixel (x + j) (y + i) color) [0..w - 1]) [0..h - 1] s)"
  unfolding fill_rect_def
  by (intro fold_opt_total) (use assms in \<open>auto simp: checked_def fits_int_def\<close>)

lemma fill_rect_returns:
  assumes "small x" and "small y" and "w < 2 ^ 27" and "h < 2 ^ 27"
  shows "\<exists>s'. fill_rect x y w h color s = Some s' \<and> draws_visibly s s'"
  using fill_rect_fold [OF assms] by (auto intro!: fold_visibly draw_pixel_visibly)

abbreviation modest :: "int \<Rightarrow> bool" where
  "modest v \<equiv> - (2 ^ 24) < v \<and> v < 2 ^ 24"

lemma rect_border_returns:
  assumes "modest x" and "modest y" and "modest w" and "modest h" and "0 \<le> t" and "t < 2 ^ 24"
  shows "\<exists>s'. rect_border x y w h color t s = Some s' \<and> draws_visibly s s'"
proof -
  have line: "\<exists>s'. draw_line a b c d 1 color s = Some s' \<and> draws_visibly s s'"
    if "small a" "small b" "small c" "small d" for a b c d s
    using draw_line_returns [OF that] by simp
  obtain s1 where "draw_line x (y - t) (x + w - 1) (y - t) 1 color s = Some s1" "draws_visibly s s1"
    using line [of x "y - t" "x + w - 1" "y - t" s] assms by auto
  moreover obtain s2 where "draw_line x (y + h - 1 + t) (x + w - 1) (y + h - 1 + t) 1 color s1 = Some s2" "draws_visibly s1 s2"
    using line [of x "y + h - 1 + t" "x + w - 1" "y + h - 1 + t" s1] assms by auto
  moreover obtain s3 where "draw_line (x - t) y (x - t) (y + h - 1) 1 color s2 = Some s3" "draws_visibly s2 s3"
    using line [of "x - t" y "x - t" "y + h - 1" s2] assms by auto
  moreover obtain s4 where "draw_line (x + w - 1 + t) y (x + w - 1 + t) (y + h - 1) 1 color s3 = Some s4" "draws_visibly s3 s4"
    using line [of "x + w - 1 + t" y "x + w - 1 + t" "y + h - 1" s3] assms by auto
  moreover have "list_all fits_int [y - t, x + w, x + w - 1, y + h, y + h - 1, y + h - 1 + t, x - t, x + w - 1 + t]"
    using assms by (simp add: fits_int_def)
  ultimately show ?thesis
    unfolding rect_border_def checked_def by (auto intro: draws_visibly_trans simp del: list.pred_inject)
qed

lemma draw_rect_returns:
  assumes "modest x" and "modest y" and "modest w" and "modest h" and "modest thickness"
  shows "\<exists>s'. draw_rect x y w h thickness color filled s = Some s' \<and> draws_visibly s s'"
proof (cases filled)
  case True
  then show ?thesis using fill_rect_returns [of x y w h color s] assms by (simp add: draw_rect_def)
next
  case False
  then show ?thesis
    unfolding draw_rect_def using assms by (auto intro!: fold_opt_returns rect_border_returns)
qed

lemma circle_offsets:
  assumes "(i, j) \<in> set (if filled then circle_column x0 y0 ts else circle_octants x0 y0 ts)" and "0 \<le> x0" and "x0 \<le> y0"
  shows "\<exists>t \<in> set ts. \<bar>i\<bar> \<le> y0 + \<bar>t\<bar> \<and> \<bar>j\<bar> \<le> y0"
  using assms by (cases filled) (force simp: circle_column_def, force simp: circle_octants_def)

lemma circle_loop_returns:
  assumes "0 \<le> x0" and "x0 \<le> r + 1" and "y0 \<le> r" and "- 2 * r \<le> d" and "d \<le> 2 * r + 3 + 5 * x0" and "r < 2 ^ 24"
    and "modest x" and "modest y" and "\<forall>t \<in> set ts. small t" and "0 \<le> r"
  shows "\<exists>s'. circle_loop x y ts color filled x0 y0 d s = Some s' \<and> draws_visibly s s'"
  using assms(1-5)
proof (induction "nat (y0 + 1 - x0)" arbitrary: x0 y0 d s rule: less_induct)
  case less
  show ?case
  proof (cases "x0 \<le> y0")
    case False
    then show ?thesis by (subst circle_loop.simps) simp
  next
    case True
    let ?o = "if filled then circle_column x0 y0 ts else circle_octants x0 y0 ts"
    let ?s = "fold (\<lambda>(i, j). draw_pixel (x + i) (y + j) color) ?o s"
    define d' y' where "d' = (if d < 0 then d + (2 * x0 + 3) else d + (2 * (x0 - y0) + 5))" and
      "y' = (if d < 0 then y0 else y0 - 1)"
    have o: "list_all fits_int (concat (map (\<lambda>(i, j). [x + i, y + j]) ?o))"
    proof -
      have fits: "fits_int v" if offset: "(i, j) \<in> set ?o" and v: "v = x + i \<or> v = y + j" for v i j
      proof -
        obtain t where t: "t \<in> set ts" "\<bar>i\<bar> \<le> y0 + \<bar>t\<bar>" "\<bar>j\<bar> \<le> y0"
          using circle_offsets [OF offset less.prems(1) True] by auto
        have "\<bar>t\<bar> < 2 ^ 27" using bspec [OF assms(9) t(1)] by (simp add: abs_less_iff)
        moreover have "y0 < 2 ^ 24" using less.prems(3) assms(6) by (rule order.strict_trans1)
        ultimately have "\<bar>i\<bar> < 2 ^ 28" "\<bar>j\<bar> < 2 ^ 28" using t(2,3) by simp_all
        then show ?thesis using v assms(7,8) by (auto simp: fits_int_def)
      qed
      show ?thesis unfolding list_all_iff
      proof
        fix v
        assume "v \<in> set (concat (map (\<lambda>(i, j). [x + i, y + j]) ?o))"
        then obtain p where p: "p \<in> set ?o" "v \<in> set (case p of (i, j) \<Rightarrow> [x + i, y + j])" 
          unfolding set_concat set_map by (elim UN_E imageE) (simp only:)
        obtain i j where ij: "p = (i, j)" by (rule prod.exhaust)
        have "v = x + i \<or> v = y + j" using p(2) unfolding ij by (simp only: prod.case list.set insert_iff empty_iff simp_thms)
        then show "fits_int v" by (rule fits [OF p(1) [unfolded ij]])
      qed
    qed
    have "d' \<le> 2 * r + 3 + 5 * (x0 + 1)" "- 2 * r \<le> d'" using less.prems True by (auto simp: d'_def)
    moreover have "nat (y' + 1 - (x0 + 1)) < nat (y0 + 1 - x0)" using True by (auto simp: y'_def)
    ultimately obtain s' where s': "circle_loop x y ts color filled (x0 + 1) y' d' ?s = Some s'" "draws_visibly ?s s'"
      using less.hyps [of y' "x0 + 1" d' ?s] less.prems True by (auto simp: y'_def)
    have "list_all fits_int [if d < 0 then 2 * x0 + 3 else 2 * (x0 - y0) + 5, d', y', x0 + 1]"
      using less.prems True assms(6,10) by (auto simp: fits_int_def d'_def y'_def)
    then have "circle_loop x y ts color filled x0 y0 d s = Some s'"
      using o True s'(1) by (subst circle_loop.simps) (simp only: Let_def d'_def y'_def list_all_append simp_thms if_True)
    moreover have "draws_visibly s ?s" by (rule fold_visibly) (auto simp: draw_pixel_visibly)
    ultimately show ?thesis using s'(2) by (auto intro: draws_visibly_trans)
  qed
qed

lemma draw_circle_returns:
  assumes "modest x" and "modest y" and "0 \<le> radius" and "radius < 2 ^ 24" and "modest thickness"
  shows "\<exists>s'. draw_circle x y radius thickness color filled s = Some s' \<and> draws_visibly s s'"
proof -
  have s: "\<bar>v sdiv 2\<bar> \<le> \<bar>v\<bar>" for v :: int by (auto simp: signed_divide_int_def sgn_if)
  have "small t" if "t \<in> set [(- thickness) sdiv 2..thickness sdiv 2]" for t
    using that assms(5) s [of thickness] s [of "- thickness"] by auto
  then have "\<exists>s'. circle_loop x y [(- thickness) sdiv 2..thickness sdiv 2] color filled 0 radius (1 - radius) s = Some s' \<and>
      draws_visibly s s'"
    using assms by (intro circle_loop_returns [of _ radius]) auto
  then show ?thesis using assms by (simp add: draw_circle_def checked_def fits_int_def)
qed

section \<open>Properties\<close>

datatype figure =
  Line int int int int int
| Rectangle int int int int int bool
| Circle int int int int bool
| Triangle int int int int int int int bool

fun draw_figure :: "figure \<times> u32 \<Rightarrow> screen \<Rightarrow> screen option" where
  "draw_figure (Line x0 y0 x1 y1 t, color) s = draw_line x0 y0 x1 y1 t color s"
| "draw_figure (Rectangle x y w h t filled, color) s = draw_rect x y w h t color filled s"
| "draw_figure (Circle x y r t filled, color) s = draw_circle x y r t color filled s"
| "draw_figure (Triangle x0 y0 x1 y1 x2 y2 t filled, color) s = draw_triangle x0 y0 x1 y1 x2 y2 t color filled s"

definition thin :: "int \<Rightarrow> bool" where
  "thin t \<longleftrightarrow> - (2 ^ 16) < t \<and> t < 2 ^ 16"

fun modest_figure :: "figure \<Rightarrow> bool" where
  "modest_figure (Line x0 y0 x1 y1 t) \<longleftrightarrow> modest x0 \<and> modest y0 \<and> modest x1 \<and> modest y1 \<and> thin t"
| "modest_figure (Rectangle x y w h t filled) \<longleftrightarrow> modest x \<and> modest y \<and> modest w \<and> modest h \<and> modest t"
| "modest_figure (Circle x y r t filled) \<longleftrightarrow> modest x \<and> modest y \<and> 0 \<le> r \<and> r < 2 ^ 24 \<and> modest t"
| "modest_figure (Triangle x0 y0 x1 y1 x2 y2 t filled) \<longleftrightarrow>
     modest x0 \<and> modest y0 \<and> modest x1 \<and> modest y1 \<and> modest x2 \<and> modest y2 \<and> thin t"

lemma draw_figure_returns:
  assumes "modest_figure f"
  shows "\<exists>s'. draw_figure (f, color) s = Some s' \<and> draws_visibly s s'"
proof (cases f)
  case (Line x0 y0 x1 y1 t)
  then show ?thesis using assms draw_line_returns [of x0 y0 x1 y1 t color s] by (simp add: thin_def)
next
  case (Rectangle x y w h t filled)
  then show ?thesis using assms draw_rect_returns [of x y w h t color filled s] by simp
next
  case (Circle x y r t filled)
  then show ?thesis using assms draw_circle_returns [of x y r t color filled s] by simp
next
  case (Triangle x0 y0 x1 y1 x2 y2 t filled)
  note line = draw_line_returns [where thickness = t and color = color]
  obtain s1 s2 s3 where "draw_line x0 y0 x1 y1 t color s = Some s1" "draws_visibly s s1"
    and "draw_line x1 y1 x2 y2 t color s1 = Some s2" "draws_visibly s1 s2"
    and "draw_line x2 y2 x0 y0 t color s2 = Some s3" "draws_visibly s2 s3"
  proof -
    obtain s1 where s1: "draw_line x0 y0 x1 y1 t color s = Some s1" "draws_visibly s s1"
      using line [of x0 y0 x1 y1 s] assms Triangle by (auto simp: thin_def)
    obtain s2 where s2: "draw_line x1 y1 x2 y2 t color s1 = Some s2" "draws_visibly s1 s2"
      using line [of x1 y1 x2 y2 s1] assms Triangle by (auto simp: thin_def)
    obtain s3 where "draw_line x2 y2 x0 y0 t color s2 = Some s3" "draws_visibly s2 s3"
      using line [of x2 y2 x0 y0 s2] assms Triangle by (auto simp: thin_def)
    then show thesis using s1 s2 that by blast
  qed
  then show ?thesis
    unfolding Triangle by (auto simp: draw_triangle_def intro: draws_visibly_trans)
qed

text \<open>
  A line of thickness \<open>2 ^ 16\<close> or more is undefined behaviour: the squares that round its brush overflow.
\<close>

lemma thick_line_undefined:
  assumes "2 ^ 16 \<le> thickness"
  shows "draw_line x0 y0 x1 y1 thickness color s = None"
proof -
  have "32768 \<le> thickness sdiv 2" using assms by (simp add: signed_divide_int_def)
  then have "32768 * 32768 \<le> (thickness sdiv 2) * (thickness sdiv 2)" by (intro mult_mono) simp_all
  then have "0 \<le> thickness sdiv 2 \<and> \<not> fits_int (2 * ((thickness sdiv 2) * (thickness sdiv 2)))"
    using \<open>32768 \<le> thickness sdiv 2\<close> by (simp add: fits_int_def)
  then show ?thesis by (simp add: draw_line_def Let_def checked_def)
qed

text \<open>
  C22. Drawing returns and stays on the screen. A sequence of figures, on the screen or off it, is drawn without undefined
  behaviour in finitely many steps and changes no memory but the cells of visible pixels, if the magnitudes of its coordinates,
  widths and heights are below \<open>2 ^ 24\<close>, its radii are not negative and below \<open>2 ^ 24\<close>, the thickness of its rectangles and
  circles is below \<open>2 ^ 24\<close> in magnitude and that of its lines and triangles below \<open>2 ^ 16\<close>. The last bound is the exact one:
  a thicker line overflows.
\<close>

theorem figures_stay_on_screen:
  assumes "\<forall>f \<in> set figures. modest_figure (fst f)"
  shows "\<exists>s'. fold_opt draw_figure figures s = Some s' \<and>
    framebuffer s' = framebuffer s \<and> width s' = width s \<and> height s' = height s \<and>
    (\<forall>i. cells s' i \<noteq> cells s i \<longrightarrow>
      (\<exists>fb x y. framebuffer s = Some fb \<and> i = cell_index fb x y \<and> 0 \<le> x \<and> of_int x < width s \<and> 0 \<le> y \<and> of_int y < height s))"
proof -
  have "\<exists>s'. fold_opt draw_figure figures s = Some s' \<and> draws_visibly s s'"
    using assms draw_figure_returns by (intro fold_opt_returns) (metis prod.collapse)
  then show ?thesis by (fastforce simp: draws_visibly_def visible_cells_def on_screen_def)
qed

theorem figures_stay_on_screen_witness:
  "\<exists>s'. fold_opt draw_figure [(Line (- 5) 2 30 7 3, 1), (Circle 0 0 9 1 True, 2)]
      \<lparr>framebuffer = Some \<lparr>fb_width = 8, fb_height = 8, fb_pitch = 32\<rparr>, width = 8, height = 8, cells = (\<lambda>_. 0)\<rparr> = Some s'"
  using figures_stay_on_screen [of "[(Line (- 5) 2 30 7 3, 1), (Circle 0 0 9 1 True, 2)]"]
  by (auto simp: thin_def)

text \<open>
  C30. Lines connect their end points. \<^verbatim>\<open>draw_line\<close> returns after drawing its brush along a path from the first end
  point to the second: each step goes to one of the eight neighbours, the number of points is at most the
  sum of the extents and one, no point leaves the box of the end points, and the distance of each point
  from the ideal line is less than two pixels.
\<close>

theorem draw_line_connects:
  assumes "- (2 ^ 27) < x0" "x0 < 2 ^ 27" "- (2 ^ 27) < y0" "y0 < 2 ^ 27" "- (2 ^ 27) < x1" "x1 < 2 ^ 27"
    and "- (2 ^ 27) < y1" "y1 < 2 ^ 27" "- (2 ^ 16) < thickness" "thickness < 2 ^ 16"
  shows "\<exists>path. line_path x0 y0 x1 y1 path \<and>
    draw_line x0 y0 x1 y1 thickness color s = Some (fold (\<lambda>(x, y). draw_brush (thickness sdiv 2) color x y) path s)"
  using draw_line_path assms by blast

theorem draw_line_connects_witness:
  "\<exists>path. line_path 3 4 100 (- 50) path \<and>
    draw_line 3 4 100 (- 50) 1 7 \<lparr>framebuffer = Some \<lparr>fb_width = 8, fb_height = 8, fb_pitch = 32\<rparr>, width = 8, height = 8, cells = (\<lambda>_. 0)\<rparr> =
      Some (fold (\<lambda>(x, y). draw_brush (1 sdiv 2) 7 x y) path
        \<lparr>framebuffer = Some \<lparr>fb_width = 8, fb_height = 8, fb_pitch = 32\<rparr>, width = 8, height = 8, cells = (\<lambda>_. 0)\<rparr>)"
  by (rule draw_line_connects) simp_all

text \<open>A filled rectangle is exactly the visible part of the rectangle.\<close>

lemma fold_pixels:
  assumes "framebuffer s = Some fb"
  shows "fold (\<lambda>(x, y). draw_pixel x y color) ps s =
    s\<lparr>cells := (\<lambda>i. if \<exists>(x, y) \<in> set ps. on_screen s x y \<and> i = cell_index fb x y then color else cells s i)\<rparr>"
  using assms
proof (induction ps arbitrary: s)
  case (Cons p ps)
  obtain x y where p: "p = (x, y)" by force
  let ?c = "\<lambda>i. if on_screen s x y \<and> i = cell_index fb x y then color else cells s i"
  have "draw_pixel x y color s = s\<lparr>cells := ?c\<rparr>"
    using Cons.prems by (auto simp: draw_pixel_def on_screen_def fun_upd_def intro!: screen.equality)
  moreover have "on_screen (s\<lparr>cells := ?c\<rparr>) = on_screen s" by (simp add: fun_eq_iff on_screen_def)
  ultimately show ?case
    using Cons.IH [of "s\<lparr>cells := ?c\<rparr>"] Cons.prems p by (auto intro!: screen.equality)
qed simp

theorem filled_rect_exact:
  assumes "framebuffer s = Some fb" and "modest x" and "modest y" and "w < 2 ^ 24" and "h < 2 ^ 24"
  shows "draw_rect x y w h thickness color True s = Some (s\<lparr>cells := (\<lambda>i.
    if \<exists>px py. x \<le> px \<and> px < x + w \<and> y \<le> py \<and> py < y + h \<and> on_screen s px py \<and> i = cell_index fb px py
    then color else cells s i)\<rparr>)"
proof -
  let ?ps = "concat (map (\<lambda>i. map (\<lambda>j. (x + j, y + i)) [0..w - 1]) [0..h - 1])"
  have "fold (\<lambda>i. fold (\<lambda>j. draw_pixel (x + j) (y + i) color) [0..w - 1]) is s = 
      fold (\<lambda>(x, y). draw_pixel x y color) (concat (map (\<lambda>i. map (\<lambda>j. (x + j, y + i)) [0..w - 1]) is)) s" for "is" s
    by (induction "is" arbitrary: s) (simp_all add: fold_map comp_def)
  then have "draw_rect x y w h thickness color True s = Some (fold (\<lambda>(x, y). draw_pixel x y color) ?ps s)"
    using fill_rect_fold [of x y w h color s] assms by (simp add: draw_rect_def)
  moreover have "(\<exists>(px, py) \<in> set ?ps. on_screen s px py \<and> i = cell_index fb px py) \<longleftrightarrow>
      (\<exists>px py. x \<le> px \<and> px < x + w \<and> y \<le> py \<and> py < y + h \<and> on_screen s px py \<and> i = cell_index fb px py)" for i
  proof -
    have "(px, py) \<in> set ?ps \<longleftrightarrow> x \<le> px \<and> px < x + w \<and> y \<le> py \<and> py < y + h" for px py
      by (auto intro!: bexI [of _ "py - y"] image_eqI [of _ _ "px - x"])
    then show ?thesis by blast
  qed
  ultimately show ?thesis unfolding fold_pixels [OF assms(1)] by simp
qed

text \<open>
  \<^verbatim>\<open>clear_screen\<close> fills as many cells as there are pixels and ignores the pitch: where rows are padded, the last visible
  pixel keeps its colour.
\<close>

theorem clear_screen_leaves_corner:
  assumes "framebuffer s = Some fb" and "0 < unat (width s)" and "1 < unat (height s)"
    and "unat (width s) < unat (fb_pitch fb div 4)" and "unat (fb_pitch fb div 4) < 2 ^ 16" and "unat (height s) < 2 ^ 16"
  shows "\<exists>s'. clear_screen color s = Some s' \<and>
    (let i = cell_index fb (int (unat (width s)) - 1) (int (unat (height s)) - 1)
     in i \<in> visible_cells s \<and> cells s' i = cells s i)"
proof -
  define w h q where "w = unat (width s)" and "h = unat (height s)" and "q = unat (fb_pitch fb div 4)"
  note b = assms(2-6) [folded w_def h_def q_def]
  define i where "i = cell_index fb (int w - 1) (int h - 1)"
  have c: "(of_int (int h - 1) :: u64) = of_nat (h - 1)" "(of_int (int w - 1) :: u64) = of_nat (w - 1)"
    using b by (simp_all add: of_nat_diff)
  moreover have "fb_pitch fb div 4 = of_nat q" by (simp add: q_def)
  ultimately have i: "i = of_nat ((h - 1) * q + (w - 1))" by (simp add: i_def cell_index_def)
  have "(h - 1) * q + (w - 1) < 2 ^ 16 * 2 ^ 16 + 2 ^ 16"
    using b by (intro add_strict_mono mult_strict_mono') simp_all
  then have ui: "unat i = (h - 1) * q + (w - 1)" unfolding i by (intro unat_of_nat_small) simp
  have "w * h < 2 ^ 16 * 2 ^ 16" using b by (intro mult_strict_mono') simp_all
  then have wh: "unat (width s * height s) = w * h" by (simp add: unat_word_ariths w_def h_def)
  have "(h - 1) * (w + 1) \<le> (h - 1) * q" using b by (intro mult_le_mono2) simp
  moreover have "w * h \<le> (h - 1) * (w + 1) + (w - 1)" using b by (cases h; cases w) (simp_all add: algebra_simps)
  ultimately have "\<not> i < width s * height s" using ui wh by (simp add: word_less_nat_alt)
  moreover have "on_screen s (int w - 1) (int h - 1)"
  proof -
    have "unat (of_nat (w - 1) :: u64) = w - 1" "unat (of_nat (h - 1) :: u64) = h - 1"
      using b by (intro unat_of_nat_small; simp)+
    then have "(of_nat (w - 1) :: u64) < width s" "(of_nat (h - 1) :: u64) < height s"
      using b unfolding word_less_nat_alt w_def [symmetric] h_def [symmetric] by simp_all
    then have "of_int (int w - 1) < width s" "of_int (int h - 1) < height s" unfolding c .
    then show ?thesis using b by (simp add: on_screen_def)
  qed
  then have "i \<in> visible_cells s" using assms(1) unfolding visible_cells_def i_def by blast
  ultimately show ?thesis using assms(1) by (simp add: clear_screen_def i_def w_def h_def)
qed

theorem clear_screen_leaves_corner_witness:
  "\<exists>s'. clear_screen 7 \<lparr>framebuffer = Some \<lparr>fb_width = 6, fb_height = 8, fb_pitch = 32\<rparr>, width = 6, height = 8, cells = (\<lambda>_. 0)\<rparr> = Some s' \<and>
    cells s' 61 = 0"
  using clear_screen_leaves_corner [of "\<lparr>framebuffer = Some \<lparr>fb_width = 6, fb_height = 8, fb_pitch = 32\<rparr>, width = 6, height = 8, cells = (\<lambda>_. 0)\<rparr>"
      "\<lparr>fb_width = 6, fb_height = 8, fb_pitch = 32\<rparr>" 7]
  by (auto simp: cell_index_def Let_def)

end
