(* ===== verification/Acpi.thy ===== *)
theory Acpi
  imports Ports
begin

text \<open>
  Power management (\<^verbatim>\<open>acpi/acpi.c\<close>): the writes that switch the machine off or reset it. Both routines end in a
  halt loop, so the state they leave is the last one; the instructions the processor is left with are listed beside it.
\<close>

record acpi =
  acpi_available :: bool

definition acpi_init :: "'z acpi_scheme \<Rightarrow> int \<times> 'z acpi_scheme" where
  "acpi_init s = (0, s\<lparr>acpi_available := True\<rparr>)"

definition acpi_is_available :: "'z acpi_scheme \<Rightarrow> bool" where
  "acpi_is_available s = acpi_available s"

text \<open>
  What is executed after the last port access: loading the interrupt table register from an address, a breakpoint, and the
  loop of \<^verbatim>\<open>cli; hlt\<close>.
\<close>

datatype last_instruction = Lidt u64 | Int3 | Cli_Hlt_Loop

definition acpi_shutdown :: "'d ports \<Rightarrow> 'd \<Rightarrow> 'd \<times> last_instruction list" where
  "acpi_shutdown P d = (outw P 0xB004 0x2000 (outw P 0x604 0x2000 d), [Cli_Hlt_Loop])"

text \<open>The keyboard controller is polled until its input buffer is empty. \<open>None\<close> is polling forever.\<close>

partial_function (option) reboot_wait :: "'d ports \<Rightarrow> u8 \<Rightarrow> 'd \<Rightarrow> 'd option" where
  "reboot_wait P val d =
     (if val AND 0x02 \<noteq> 0 then reboot_wait P (fst (inb P 0x64 d)) (snd (inb P 0x64 d)) else Some d)"

text \<open>The last resort is a triple fault: an empty interrupt table and an interrupt.\<close>

definition acpi_reboot :: "'d ports \<Rightarrow> 'd \<Rightarrow> ('d \<times> last_instruction list) option" where
  "acpi_reboot P d =
     map_option (\<lambda>d. (outb P 0x92 0x01 (outb P 0x64 0xFE d), [Lidt 0, Int3, Cli_Hlt_Loop])) (reboot_wait P 0x02 d)"

text \<open>A controller whose input buffer empties after \<open>n\<close> reads is reset after exactly \<open>n + 1\<close> of them.\<close>

fun polls :: "'d ports \<Rightarrow> nat \<Rightarrow> 'd \<Rightarrow> 'd" where
  "polls P 0 d = d"
| "polls P (Suc n) d = polls P n (snd (inb P 0x64 d))"

lemma reboot_wait_polls:
  assumes "val AND 0x02 \<noteq> 0" and "\<And>k. k < n \<Longrightarrow> fst (inb P 0x64 (polls P k d)) AND 0x02 \<noteq> 0"
    and "fst (inb P 0x64 (polls P n d)) AND 0x02 = 0"
  shows "reboot_wait P val d = Some (polls P (Suc n) d)"
  using assms
proof (induction n arbitrary: val d)
  case 0
  then show ?case by (subst reboot_wait.simps, subst reboot_wait.simps) simp
next
  case (Suc n)
  have "fst (inb P 0x64 d) AND 0x02 \<noteq> 0" using Suc.prems(2) [of 0] by simp
  moreover have "fst (inb P 0x64 (polls P k (snd (inb P 0x64 d)))) AND 0x02 \<noteq> 0" if "k < n" for k
    using Suc.prems(2) [of "Suc k"] that by simp
  moreover have "fst (inb P 0x64 (polls P n (snd (inb P 0x64 d)))) AND 0x02 = 0" using Suc.prems(3) by simp
  ultimately show ?case using Suc.IH Suc.prems(1) by (subst reboot_wait.simps) simp
qed

theorem acpi_reboot_resets:
  assumes "\<And>k. k < n \<Longrightarrow> fst (inb P 0x64 (polls P k d)) AND 0x02 \<noteq> 0" and "fst (inb P 0x64 (polls P n d)) AND 0x02 = 0"
  shows "acpi_reboot P d = Some (outb P 0x92 0x01 (outb P 0x64 0xFE (polls P (Suc n) d)), [Lidt 0, Int3, Cli_Hlt_Loop])"
  using reboot_wait_polls [of 2 n P d] assms by (simp add: acpi_reboot_def)

end
