(* ===== verification/Shell.thy ===== *)
theory Shell
  imports Graphic Keyboard Pmm Pci Net_Input Fat16 Acpi "HOL-Library.Monad_Syntax"
begin

text \<open>
  The shell (\<^verbatim>\<open>shell/shell.c\<close>): the line editor with its history, the output on the screen, the commands and the loop
  of the shell thread, on top of the models of the components the commands call. C strings passed around
  are byte lists without the terminator; the two static line buffers keep their bytes, terminators
  included. \<open>None\<close> is undefined behaviour or a call that never returns; the flag in a result is set when the
  machine was switched off or reset, after which nothing is executed. The drivers keep the hardware
  state they were given: \<open>hw\<close> in \<open>disk\<close> for the disk and power ports, \<open>pci_hw\<close> in \<open>pci_bus\<close>.
\<close>

section \<open>State\<close>

definition SHELL_BUFFER_SIZE :: nat where "SHELL_BUFFER_SIZE = 256"
definition SHELL_PROMPT :: "u8 list" where "SHELL_PROMPT = cstr ''cgos> ''"
definition HISTORY_SIZE :: nat where "HISTORY_SIZE = 16"
definition shell_start_y :: int where "shell_start_y = 50"
definition line_height :: int where "line_height = 15"
definition max_y :: int where "max_y = 750"
definition SPECIAL_KEY_ESC :: u8 where "SPECIAL_KEY_ESC = 0x1B"

record 'd shell = acpi +
  cmd_buffer :: "u8 list"
  cmd_pos :: nat
  history :: "u8 list list"
  history_count :: nat
  history_pos :: nat
  shell_x :: int
  shell_y :: int
  file_buf :: "u8 list"
  display :: screen
  disk :: "'d fat16"
  network :: tcp_net
  memory :: pmm
  pci_bus :: "'d pci"
  kbd :: keyboard

section \<open>Strings\<close>

fun shell_strcmp :: "u8 list \<Rightarrow> u8 list \<Rightarrow> int" where
  "shell_strcmp (a # as) (b # bs) = (if a = b then shell_strcmp as bs else uint a - uint b)"
| "shell_strcmp [] (b # bs) = - uint b"
| "shell_strcmp (a # as) [] = uint a"
| "shell_strcmp [] [] = 0"

fun shell_strncmp :: "u8 list \<Rightarrow> u8 list \<Rightarrow> nat \<Rightarrow> int" where
  "shell_strncmp s1 s2 0 = 0"
| "shell_strncmp (a # as) (b # bs) (Suc n) = (if a = b then shell_strncmp as bs n else uint a - uint b)"
| "shell_strncmp [] (b # bs) (Suc n) = - uint b"
| "shell_strncmp (a # as) [] (Suc n) = uint a"
| "shell_strncmp [] [] (Suc n) = 0"

text \<open>Copying between buffers, up to and with the terminator.\<close>

definition shell_strcpy :: "u8 list \<Rightarrow> u8 list \<Rightarrow> u8 list option" where
  "shell_strcpy dest src =
     (if 0 \<in> set src \<and> length (c_string src) < length dest then Some (write_prefix (c_string src @ [0]) dest) else None)"

definition shell_strlen :: "u8 list \<Rightarrow> int option" where
  "shell_strlen s = (if 0 \<in> set s then Some (int (length (c_string s))) else None)"

abbreviation skip_spaces :: "u8 list \<Rightarrow> u8 list" where
  "skip_spaces \<equiv> dropWhile (\<lambda>c. c = chr CHR '' '')"

section \<open>Output\<close>

definition on_display :: "(screen \<Rightarrow> screen option) \<Rightarrow> 'd shell \<Rightarrow> 'd shell option" where
  "on_display f s = map_option (\<lambda>d. s\<lparr>display := d\<rparr>) (f (display s))"

definition put_char :: "u8 \<Rightarrow> 'd shell \<Rightarrow> 'd shell option" where
  "put_char c s =
     do { s \<leftarrow> on_display (draw_char (shell_x s) (shell_y s) c 0xFFFFFF) s;
          checked [shell_x s + 8] (Some (s\<lparr>shell_x := shell_x s + 8\<rparr>)) }"

definition print_char :: "u8 \<Rightarrow> 'd shell \<Rightarrow> 'd shell option" where
  "print_char c s =
     (if c = 10
      then let s = s\<lparr>shell_x := 10, shell_y := shell_y s + line_height\<rparr>
           in if max_y \<le> shell_y s
              then let s = s\<lparr>shell_y := shell_start_y\<rparr>
                   in on_display (draw_rect 10 (shell_y s) 780 line_height 0 0x6495ED True) s
              else Some s
      else put_char c s)"

definition shell_print :: "u8 list \<Rightarrow> 'd shell \<Rightarrow> 'd shell option" where
  "shell_print str s = fold_opt print_char str s"

definition shell_println :: "u8 list \<Rightarrow> 'd shell \<Rightarrow> 'd shell option" where
  "shell_println str s = do { s \<leftarrow> shell_print str s; shell_print [10] s }"

definition shell_clear_line :: "'d shell \<Rightarrow> 'd shell option" where
  "shell_clear_line s =
     do { s \<leftarrow> on_display (draw_rect 10 (shell_y s) 780 line_height 0 0x6495ED True) s;
          Some (s\<lparr>shell_x := 10\<rparr>) }"

definition shell_prompt :: "'d shell \<Rightarrow> 'd shell option" where
  "shell_prompt s = shell_print SHELL_PROMPT s"

definition shell_newline :: "'d shell \<Rightarrow> 'd shell option" where
  "shell_newline s =
     (let s = s\<lparr>shell_x := 10, shell_y := shell_y s + line_height\<rparr>;
          s = (if max_y \<le> shell_y s then s\<lparr>shell_y := shell_start_y\<rparr> else s)
      in shell_clear_line s)"

text \<open>Lines of fixed text, and a formatted line through a local buffer of the given size.\<close>

definition print_lines :: "string list \<Rightarrow> 'd shell \<Rightarrow> 'd shell option" where
  "print_lines ls s = fold_opt (\<lambda>l. shell_println (cstr l)) ls s"

definition format_line :: "nat \<Rightarrow> string \<Rightarrow> va_arg list \<Rightarrow> 'd shell \<Rightarrow> 'd shell option" where
  "format_line n format args s =
     do { (buf, len) \<leftarrow> kprintf_to_buffer n (int n) (cstr format) args; shell_println (c_string buf) s }"

section \<open>Commands about the machine\<close>

definition cmd_help :: "'d shell \<Rightarrow> 'd shell option" where
  "cmd_help s = print_lines
     [''Available commands:'', ''  help    - Show this help'', ''  clear   - Clear screen'',
      ''  mem     - Show memory stats'', ''  pci     - List PCI devices'', ''  net     - Show network info'',
      ''  arp     - Show ARP table'', ''  uptime  - Show system uptime'', ''  ping    - Ping an IP address'',
      ''  ls      - List files'', ''  cat     - Display file contents'', ''  shutdown- Power off'',
      ''  reboot  - Restart system'', ''  disk    - List disk drives'', ''  format  - Format a drive with FAT16'',
      ''  write   - Write text to file''] s"

definition cmd_clear :: "'d shell \<Rightarrow> 'd shell option" where
  "cmd_clear s =
     do { s \<leftarrow> on_display (draw_rect 0 (shell_start_y - 20) 800 400 0 0x6495ED True) s;
          Some (s\<lparr>shell_x := 10, shell_y := shell_start_y\<rparr>) }"

definition cmd_mem :: "'d shell \<Rightarrow> 'd shell option" where
  "cmd_mem s =
     (let total = physical_get_total_memory (memory s);
          used = physical_get_used_memory (memory s);
          free = total - used;
          kb = (\<lambda>n :: u64. Word_Arg (ucast (ucast (n div 1024) :: u32)))
      in do { s \<leftarrow> shell_println (cstr ''Memory Statistics:'') s;
              s \<leftarrow> shell_print (cstr ''  Total: '') s;
              s \<leftarrow> format_line 64 ''%u KB'' [kb total] s;
              s \<leftarrow> shell_print (cstr ''  Used:  '') s;
              s \<leftarrow> format_line 64 ''%u KB'' [kb used] s;
              s \<leftarrow> shell_print (cstr ''  Free:  '') s;
              format_line 64 ''%u KB'' [kb free] s })"

definition pci_line :: "nat \<Rightarrow> 'd shell \<Rightarrow> 'd shell option" where
  "pci_line i s =
     (case pci_get_device (int i) (pci_bus s) of
        None \<Rightarrow> Some s
      | Some k \<Rightarrow>
          let dev = pci_devices (pci_bus s) ! k
          in format_line 80 ''  %d:%d.%d - %04x:%04x class=%02x''
               [Word_Arg (ucast (bus dev)), Word_Arg (ucast (device dev)), Word_Arg (ucast (function_no dev)),
                Word_Arg (ucast (vendor_id dev)), Word_Arg (ucast (device_id dev)), Word_Arg (ucast (class_code dev))] s)"

definition cmd_pci :: "'d shell \<Rightarrow> 'd shell option" where
  "cmd_pci s =
     do { s \<leftarrow> shell_println (cstr ''PCI Devices:'') s;
          fold_opt pci_line [0..<min (pci_get_device_count (pci_bus s)) 6] s }"

text \<open>The bytes of an address, highest first, as the commands print them.\<close>

definition octets :: "u32 \<Rightarrow> va_arg list" where
  "octets ip = map (\<lambda>k. Word_Arg (ucast (drop_bit k ip AND 0xFF))) [24, 16, 8, 0]"

definition net_line :: "nat \<Rightarrow> 'd shell \<Rightarrow> 'd shell option" where
  "net_line i s =
     (case network_get_interface (int i) (network s) of
        None \<Rightarrow> Some s
      | Some k \<Rightarrow>
          if \<not> active (iface (network s) k) then Some s
          else do { s \<leftarrow> format_line 80 ''  %s: %02x:%02x:%02x:%02x:%02x:%02x''
                      (Str_Arg (Some (c_string (cstr (network_interface_t.name (iface (network s) k))))) #
                       map (\<lambda>b. Word_Arg (ucast b)) (take 6 (mac_address (iface (network s) k)))) s;
                    format_line 80 ''    IP: %d.%d.%d.%d'' (octets (ip_address (iface (network s) k))) s })"

definition cmd_net :: "'d shell \<Rightarrow> 'd shell option" where
  "cmd_net s =
     do { s \<leftarrow> shell_println (cstr ''Network Interfaces:'') s; fold_opt net_line [0..<MAX_NETWORK_INTERFACES] s }"

definition cmd_arp :: "'d shell \<Rightarrow> 'd shell option" where
  "cmd_arp s = print_lines [''ARP Table:'', ''  (ARP entries stored in memory)''] s"

definition timer_seconds :: "'d shell \<Rightarrow> u32" where
  "timer_seconds s = ucast (timer_ticks (network s) div 1000)"

definition cmd_uptime :: "'d shell \<Rightarrow> 'd shell option" where
  "cmd_uptime s =
     (let seconds = timer_seconds s;
          minutes = seconds div 60;
          hours = minutes div 60
      in format_line 64 ''Uptime: %u:%02u:%02u''
           [Word_Arg (ucast hours), Word_Arg (ucast (minutes mod 60)), Word_Arg (ucast (seconds mod 60))] s)"

section \<open>Commands about files\<close>

definition ls_callback :: "u8 list \<times> u32 \<times> bool \<Rightarrow> 'd shell \<Rightarrow> 'd shell option" where
  "ls_callback entry s =
     (case entry of (n, sz, is_dir) \<Rightarrow>
        if is_dir then format_line 80 ''  [DIR] %s'' [Str_Arg (Some n)] s
        else format_line 80 ''  %s (%u bytes)'' [Str_Arg (Some n), Word_Arg (ucast sz)] s)"

definition cmd_ls :: "'d ports \<Rightarrow> 'd shell \<Rightarrow> 'd shell option" where
  "cmd_ls P s =
     (if \<not> fat16_is_mounted (disk s) then shell_println (cstr ''No filesystem mounted'') s
      else do { s \<leftarrow> shell_println (cstr ''Files:'') s;
                case fat16_list_root P (disk s) of
                  ((r, calls), d) \<Rightarrow>
                    do { s \<leftarrow> fold_opt ls_callback calls (s\<lparr>disk := d\<rparr>);
                         if r < 0 then shell_println (cstr ''Error reading directory'') s else Some s } })"

text \<open>The text of a file line by line; a line longer than 255 characters is cut.\<close>

fun cat_lines :: "u8 list \<Rightarrow> u8 list \<Rightarrow> 'd shell \<Rightarrow> 'd shell option" where
  "cat_lines [] line s = (if line \<noteq> [] then shell_println line s else Some s)"
| "cat_lines (c # cs) line s =
     (if c = 10 \<or> c = 13
      then do { s \<leftarrow> if line \<noteq> [] then shell_println line s else Some s;
                case cs of
                  n # ds \<Rightarrow> if c = 13 \<and> n = 10 then cat_lines ds [] s else cat_lines cs [] s
                | [] \<Rightarrow> cat_lines cs [] s }
      else if length line < 255 then cat_lines cs (line @ [c]) s
      else cat_lines cs line s)"

definition cat_file :: "'d ports \<Rightarrow> u8 list \<Rightarrow> 'd shell \<Rightarrow> 'd shell option" where
  "cat_file P filename s =
     do { ((n, bytes), d) \<leftarrow> fat16_read_file P filename 4095 (disk s);
          let s = s\<lparr>disk := d, file_buf := write_prefix bytes (file_buf s)\<rparr>
          in if n < 0 then shell_println (cstr ''File not found'') s
             else let s = s\<lparr>file_buf := (file_buf s)[nat n := 0]\<rparr>
                  in cat_lines (c_string (file_buf s)) [] s }"

definition cmd_cat :: "'d ports \<Rightarrow> u8 list \<Rightarrow> 'd shell \<Rightarrow> 'd shell option" where
  "cmd_cat P args s =
     (let args = skip_spaces args
      in if args = [] then shell_println (cstr ''Usage: cat <filename>'') s
         else if \<not> fat16_is_mounted (disk s) then shell_println (cstr ''No filesystem mounted'') s
         else cat_file P args s)"

definition is_quote :: "u8 \<Rightarrow> bool" where
  "is_quote c \<longleftrightarrow> c = 39 \<or> c = 34"

text \<open>The file name of \<^verbatim>\<open>write\<close>: at most twelve characters up to a space or a quote.\<close>

definition name_length :: "u8 list \<Rightarrow> nat" where
  "name_length args = min 12 (length (takeWhile (\<lambda>c. c \<noteq> chr CHR '' '' \<and> \<not> is_quote c) args))"

definition write_parse :: "u8 list \<Rightarrow> u8 list \<times> u8 list" where
  "write_parse args =
     (let args = (case args of c # cs \<Rightarrow> if is_quote c then cs else args | [] \<Rightarrow> args);
          n = name_length args
      in (take n args, dropWhile (\<lambda>c. is_quote c \<or> c = chr CHR '' '') (drop n args)))"

definition write_content :: "u8 list \<Rightarrow> u8 list" where
  "write_content args =
     (case args of
        c # cs \<Rightarrow> if is_quote c then takeWhile (\<lambda>d. d \<noteq> c) cs else args
      | [] \<Rightarrow> [])"

definition write_text :: "'d ports \<Rightarrow> u8 list \<Rightarrow> u8 list \<Rightarrow> 'd shell \<Rightarrow> 'd shell option" where
  "write_text P filename content s =
     (case fat16_find_file P filename (disk s) of
        ((found, e), d) \<Rightarrow>
          (case (if found < 0 then fat16_create_file P filename d else (0, d)) of
             (created, d) \<Rightarrow>
               if created < 0 then shell_println (cstr ''Failed to create file'') (s\<lparr>disk := d\<rparr>)
               else do { (n, d) \<leftarrow> fat16_write_file P filename content d;
                         if n < 0 then shell_println (cstr ''Failed to write file'') (s\<lparr>disk := d\<rparr>)
                         else format_line 64 ''Wrote %u bytes to %s''
                                [Word_Arg (of_nat (length content)), Str_Arg (Some filename)] (s\<lparr>disk := d\<rparr>) }))"

definition cmd_write :: "'d ports \<Rightarrow> u8 list \<Rightarrow> 'd shell \<Rightarrow> 'd shell option" where
  "cmd_write P args s =
     (let args = skip_spaces args
      in if args = [] then print_lines [''Usage: write <filename> <text>'', ''Example: write test.txt Hello World''] s
         else if \<not> fat16_is_mounted (disk s) then shell_println (cstr ''No filesystem mounted'') s
         else case write_parse args of
           (filename, rest) \<Rightarrow>
             if rest = [] then shell_println (cstr ''Usage: write <filename> <text>'') s
             else write_text P filename (write_content rest) s)"

definition disk_line :: "nat \<Rightarrow> 'd shell \<Rightarrow> 'd shell option" where
  "disk_line i s =
     (case ata_get_drive_info (int i) (disk s) of
        None \<Rightarrow> Some s
      | Some d \<Rightarrow>
          format_line 80 ''  Drive %d (%s): %s (%u MB)''
            [Word_Arg (of_nat i), Str_Arg (Some (cstr (if i = 0 then ''Master'' else ''Slave''))),
             Str_Arg (Some (c_string (model_name d))), Word_Arg (ucast (size_sectors d div 2048))] s)"

definition drive_shown :: "'d shell \<Rightarrow> nat \<Rightarrow> bool" where
  "drive_shown s i \<longleftrightarrow> (case ata_get_drive_info (int i) (disk s) of None \<Rightarrow> False | Some d \<Rightarrow> drive_present d)"

definition cmd_disk :: "'d shell \<Rightarrow> 'd shell option" where
  "cmd_disk s =
     do { s \<leftarrow> shell_println (cstr ''ATA Drives:'') s;
          let shown = filter (drive_shown s) [0, 1];
          s \<leftarrow> fold_opt disk_line shown s;
          s \<leftarrow> if shown = [] then shell_println (cstr ''  No drives detected'') s else Some s;
          if fat16_is_mounted (disk s) then shell_println (cstr ''Mounted: FAT16 filesystem'') s
          else shell_println (cstr ''No filesystem mounted'') s }"

definition format_drive :: "u8 list \<Rightarrow> 'd shell \<Rightarrow> int" where
  "format_drive args s =
     (case args of
        c # cs \<Rightarrow> if chr CHR ''0'' \<le> c \<and> c \<le> chr CHR ''1'' then uint c - 48
                 else if ata_drive_present 0 (disk s) then 0 else if ata_drive_present 1 (disk s) then 1 else - 1
      | [] \<Rightarrow> if ata_drive_present 0 (disk s) then 0 else if ata_drive_present 1 (disk s) then 1 else - 1)"

definition cmd_format :: "'d ports \<Rightarrow> u8 list \<Rightarrow> 'd shell \<Rightarrow> 'd shell option" where
  "cmd_format P args s =
     (let drive = format_drive (skip_spaces args) s
      in if drive < 0 then print_lines [''Usage: format [0|1]'', ''No drives available''] s
         else do { s \<leftarrow> format_line 64 ''Formatting drive %d with FAT16...'' [Word_Arg (of_int drive)] s;
                   case fat16_format P drive (Some (cstr ''CGOS'')) (fat16_unmount (disk s)) of
                     (r, d) \<Rightarrow>
                       if r = 0
                       then do { s \<leftarrow> shell_println (cstr ''Format complete!'') (s\<lparr>disk := d\<rparr>);
                                 (m, d) \<leftarrow> fat16_mount P drive (disk s);
                                 if m = 0 then shell_println (cstr ''Filesystem mounted'') (s\<lparr>disk := d\<rparr>)
                                 else Some (s\<lparr>disk := d\<rparr>) }
                       else shell_println (cstr ''Format failed'') (s\<lparr>disk := d\<rparr>) })"

section \<open>Ping\<close>

text \<open>The address read so far, the current octet and the number of dots.\<close>

fun parse_ip_loop :: "u8 list \<Rightarrow> u32 \<Rightarrow> int \<Rightarrow> nat \<Rightarrow> (u32 \<times> int \<times> nat) option" where
  "parse_ip_loop [] ip octet cnt = Some (ip, octet, cnt)"
| "parse_ip_loop (c # cs) ip octet cnt =
     (if 4 \<le> cnt then Some (ip, octet, cnt)
      else if chr CHR ''0'' \<le> c \<and> c \<le> chr CHR ''9''
      then checked [octet * 10, octet * 10 + (uint c - 48)] (parse_ip_loop cs ip (octet * 10 + (uint c - 48)) cnt)
      else if c = chr CHR ''.'' then parse_ip_loop cs (push_bit 8 ip OR (of_int octet AND 0xFF)) 0 (cnt + 1)
      else Some (ip, octet, cnt))"

definition parse_ip :: "u8 list \<Rightarrow> u32 option" where
  "parse_ip str =
     (case parse_ip_loop str 0 0 0 of
        None \<Rightarrow> None
      | Some (ip, octet, cnt) \<Rightarrow> Some (if cnt = 3 then push_bit 8 ip OR (of_int octet AND 0xFF) else ip))"

definition print_result :: "ping_result_t \<Rightarrow> 'd shell \<Rightarrow> 'd shell option" where
  "print_result result s =
     do { s \<leftarrow> shell_println [] s;
          s \<leftarrow> format_line 80 ''Sent: %d, Received: %d''
                 [Word_Arg (of_int (sent result)), Word_Arg (of_int (received_count result))] s;
          if 0 < received_count result
          then format_line 80 ''RTT: min=%u avg=%u max=%u ms''
                 [Word_Arg (ucast (min_time result)),
                  Word_Arg (ucast (total_time result div of_int (received_count result))),
                  Word_Arg (ucast (max_time result))] s
          else shell_println (cstr ''No reply received'') s }"

text \<open>\<open>stack\<close> and \<open>env\<close> are handed on to \<open>icmp_ping\<close>.\<close>

definition cmd_ping ::
  "u8 list \<Rightarrow> (tcp_net \<Rightarrow> tcp_net) list \<Rightarrow> u8 list \<Rightarrow> 'd shell \<Rightarrow> 'd shell option" where
  "cmd_ping stack env args s =
     (let args = skip_spaces args
      in if args = [] then print_lines [''Usage: ping <ip>'', ''Example: ping 10.0.2.2''] s
         else (case parse_ip args of
           None \<Rightarrow> None
         | Some dest_ip \<Rightarrow>
             if dest_ip = 0 then shell_println (cstr ''Invalid IP address'') s
             else do { s \<leftarrow> format_line 80 ''Pinging %d.%d.%d.%d...'' (octets dest_ip) s;
                       case network_get_interface 1 (network s) of
                         None \<Rightarrow> shell_println (cstr ''No network interface'') s
                       | Some i \<Rightarrow>
                           (case icmp_ping i dest_ip 4 stack env (network s) of
                              None \<Rightarrow> None
                            | Some (r, result, net) \<Rightarrow> print_result result (s\<lparr>network := net\<rparr>)) }))"

section \<open>Command execution\<close>

abbreviation going_on :: "'d shell option \<Rightarrow> (bool \<times> 'd shell) option" where
  "going_on r \<equiv> map_option (Pair False) r"

definition shell_execute ::
  "'d ports \<Rightarrow> u8 list \<Rightarrow> (tcp_net \<Rightarrow> tcp_net) list \<Rightarrow> u8 list \<Rightarrow> 'd shell \<Rightarrow> (bool \<times> 'd shell) option" where
  "shell_execute P stack env cmd s =
     (let cmd = skip_spaces cmd;
          is = (\<lambda>word. shell_strcmp cmd (cstr word) = 0);
          starts = (\<lambda>word n. shell_strncmp cmd (cstr word) n = 0)
      in if cmd = [] then Some (False, s)
         else if is ''help'' then going_on (cmd_help s)
         else if is ''clear'' then going_on (cmd_clear s)
         else if is ''mem'' then going_on (cmd_mem s)
         else if is ''pci'' then going_on (cmd_pci s)
         else if is ''net'' then going_on (cmd_net s)
         else if is ''arp'' then going_on (cmd_arp s)
         else if is ''uptime'' then going_on (cmd_uptime s)
         else if starts ''ping '' 5 \<or> is ''ping'' then going_on (cmd_ping stack env (drop 4 cmd) s)
         else if is ''ls'' then going_on (cmd_ls P s)
         else if is ''cat'' \<or> starts ''cat '' 4 then going_on (cmd_cat P (drop 3 cmd) s)
         else if is ''write'' \<or> starts ''write '' 6 then going_on (cmd_write P (drop 5 cmd) s)
         else if is ''shutdown''
         then do { s \<leftarrow> shell_println (cstr ''Shutting down...'') s;
                   Some (True, s\<lparr>disk := (disk s)\<lparr>hw := fst (acpi_shutdown P (hw (disk s)))\<rparr>\<rparr>) }
         else if is ''reboot''
         then do { s \<leftarrow> shell_println (cstr ''Rebooting...'') s;
                   d \<leftarrow> acpi_reboot P (hw (disk s));
                   Some (True, s\<lparr>disk := (disk s)\<lparr>hw := fst d\<rparr>\<rparr>) }
         else if is ''disk'' then going_on (cmd_disk s)
         else if is ''format'' \<or> starts ''format '' 7 then going_on (cmd_format P (drop 6 cmd) s)
         else do { s \<leftarrow> shell_print (cstr ''Unknown command: '') s;
                   s \<leftarrow> shell_println cmd s;
                   s \<leftarrow> shell_println (cstr ''Type '' @ [39] @ cstr ''help'' @ [39] @ cstr '' for available commands'') s;
                   Some (False, s) })"

section \<open>The line editor\<close>

definition shell_redraw_cmd :: "'d shell \<Rightarrow> 'd shell option" where
  "shell_redraw_cmd s =
     (let s = s\<lparr>shell_x := 10 + 6 * 8\<rparr>
      in do { s \<leftarrow> on_display (draw_rect (shell_x s) (shell_y s) (780 - shell_x s) line_height 0 0x6495ED True) s;
              fold_opt put_char (take (cmd_pos s) (cmd_buffer s)) s })"

text \<open>Storing a command: the next free entry, or the last one after all have moved up by one.\<close>

definition shift_history :: "u8 list list \<Rightarrow> u8 list list option" where
  "shift_history h =
     fold_opt (\<lambda>i h. map_option (\<lambda>e. h[i := e]) (shell_strcpy (h ! i) (h ! (i + 1)))) [0..<HISTORY_SIZE - 1] h"

definition save_history :: "'d shell \<Rightarrow> 'd shell option" where
  "save_history s =
     (if history_count s < HISTORY_SIZE
      then do { e \<leftarrow> shell_strcpy (history s ! history_count s) (cmd_buffer s);
                Some (s\<lparr>history := (history s)[history_count s := e], history_count := history_count s + 1\<rparr>) }
      else do { h \<leftarrow> shift_history (history s);
                e \<leftarrow> shell_strcpy (h ! (HISTORY_SIZE - 1)) (cmd_buffer s);
                Some (s\<lparr>history := h[HISTORY_SIZE - 1 := e]\<rparr>) })"

definition recall :: "nat \<Rightarrow> 'd shell \<Rightarrow> 'd shell option" where
  "recall pos s =
     do { b \<leftarrow> shell_strcpy (cmd_buffer s) (history s ! pos);
          n \<leftarrow> shell_strlen b;
          shell_redraw_cmd (s\<lparr>history_pos := pos, cmd_buffer := b, cmd_pos := nat n\<rparr>) }"

definition clear_command :: "'d shell \<Rightarrow> 'd shell option" where
  "clear_command s = shell_redraw_cmd (s\<lparr>cmd_pos := 0, cmd_buffer := (cmd_buffer s)[0 := 0]\<rparr>)"

definition shell_process_char ::
  "'d ports \<Rightarrow> u8 list \<Rightarrow> (tcp_net \<Rightarrow> tcp_net) list \<Rightarrow> u8 \<Rightarrow> 'd shell \<Rightarrow> (bool \<times> 'd shell) option" where
  "shell_process_char P stack env c s =
     (if c = 10 \<or> c = 13
      then let s = s\<lparr>cmd_buffer := (cmd_buffer s)[cmd_pos s := 0]\<rparr>
           in do { s \<leftarrow> if 0 < cmd_pos s then save_history s else Some s;
                   s \<leftarrow> shell_newline (s\<lparr>history_pos := history_count s\<rparr>);
                   (stopped, s) \<leftarrow> shell_execute P stack env (c_string (cmd_buffer s)) s;
                   if stopped then Some (True, s)
                   else going_on (shell_prompt (s\<lparr>cmd_pos := 0\<rparr>)) }
      else if c = 8
      then if 0 < cmd_pos s
           then let s = s\<lparr>cmd_pos := cmd_pos s - 1, shell_x := shell_x s - 8\<rparr>
                in going_on (on_display (draw_rect (shell_x s) (shell_y s) 8 15 0 0x6495ED True) s)
           else Some (False, s)
      else if c = SPECIAL_KEY_ESC then going_on (clear_command s)
      else if c = SPECIAL_KEY_UP
      then if 0 < history_pos s then going_on (recall (history_pos s - 1) s) else Some (False, s)
      else if c = SPECIAL_KEY_DOWN
      then if history_pos s + 1 < history_count s then going_on (recall (history_pos s + 1) s)
           else if history_pos s < history_count s then going_on (clear_command (s\<lparr>history_pos := history_count s\<rparr>))
           else Some (False, s)
      else if 32 \<le> c \<and> c < 127
      then if cmd_pos s < SHELL_BUFFER_SIZE - 1
           then going_on (put_char c (s\<lparr>cmd_buffer := (cmd_buffer s)[cmd_pos s := c], cmd_pos := cmd_pos s + 1\<rparr>))
           else Some (False, s)
      else Some (False, s))"

section \<open>The shell thread\<close>

definition shell_init :: "'d shell \<Rightarrow> 'd shell option" where
  "shell_init s =
     do { s \<leftarrow> on_display (clear_screen 0x6495ED) (s\<lparr>cmd_pos := 0, shell_x := 10, shell_y := shell_start_y\<rparr>);
          s \<leftarrow> on_display (draw_rect 0 0 800 30 0 0x4169E1 True) s;
          s \<leftarrow> on_display (draw_string 10 8 (cstr ''CGOS Shell - Type '' @ [39] @ cstr ''help'' @ [39] @ cstr '' for commands'') 0xFFFFFF) s;
          shell_prompt s }"

definition shell_dhcp :: "'d shell \<Rightarrow> nat option" where
  "shell_dhcp s = (case network_get_interface 1 (network s) of None \<Rightarrow> None | Some i \<Rightarrow> dhcp_get_client i (network s))"

text \<open>
  One turn of the endless loop: a key if there is one, else \<open>yield\<close>, which stands for what other threads do until the
  shell runs again, then the network.
\<close>

definition shell_turn ::
  "'d ports \<Rightarrow> u8 list \<Rightarrow> (tcp_net \<Rightarrow> tcp_net) list \<Rightarrow> ('d shell \<Rightarrow> 'd shell) \<Rightarrow> nat option
     \<Rightarrow> 'd shell \<Rightarrow> (bool \<times> 'd shell) option" where
  "shell_turn P stack env yield dhcp s =
     do { (stopped, s) \<leftarrow>
            if keyboard_has_key (kbd s)
            then do { (c, rest, k) \<leftarrow> keyboard_get_char [] (kbd s); shell_process_char P stack env c (s\<lparr>kbd := k\<rparr>) }
            else Some (False, yield s);
          if stopped then Some (True, s)
          else do { net \<leftarrow> network_process_packets stack (network s);
                    Some (False, s\<lparr>network := (case dhcp of None \<Rightarrow> net | Some c \<Rightarrow> dhcp_client_update c net)\<rparr>) } }"

end
