(* ===== verification/Shell_Frame.thy ===== *)
theory Shell_Frame
  imports Shell Graphic_Figures
begin

text \<open>
  What the commands of the shell leave alone: a command that returns keeps the buffers of the line editor and leaves
  the cursor at the start of a line of the shell area.
\<close>

section \<open>Drawing returns\<close>

lemma fold_opt_keeps:
  assumes "\<And>x s. x \<in> set xs \<Longrightarrow> Q s \<Longrightarrow> \<exists>s'. f x s = Some s' \<and> Q s'" and "Q s"
  shows "\<exists>s'. fold_opt f xs s = Some s' \<and> Q s'"
  using assms
proof (induction xs arbitrary: s)
  case (Cons x xs)
  then obtain s1 where "f x s = Some s1" "Q s1" by (meson list.set_intros(1))
  then show ?case using Cons by simp
qed simp

lemma draw_row_framebuffer [simp]: "framebuffer (draw_row fb x y row color s) = framebuffer s"
proof -
  have "framebuffer (fold (\<lambda>j s. if bit row (7 - j) then s\<lparr>cells := (cells s)(cell_index fb (x + int j) y := color)\<rparr> else s) js s) =
      framebuffer s" for js s
    by (induction js arbitrary: s) simp_all
  then show ?thesis by (simp add: draw_row_def)
qed

lemma draw_char_returns:
  assumes "framebuffer s = Some fb" and "c < 128" and "small x" and "small y"
  shows "\<exists>s'. draw_char x y c color s = Some s' \<and> framebuffer s' = Some fb"
proof -
  let ?f = "\<lambda>i s. if font ! unat c ! i = 0 then Some s
                else case framebuffer s of
                       None \<Rightarrow> None
                     | Some fb \<Rightarrow> checked ((y + int i) # map (\<lambda>j. x + int j) (filter (\<lambda>j. bit (font ! unat c ! i) (7 - j)) [0..<8]))
                                   (Some (draw_row fb x (y + int i) (font ! unat c ! i) color s))"
  have "\<exists>s'. fold_opt ?f [0..<8] s = Some s' \<and> framebuffer s' = Some fb"
  proof (rule fold_opt_keeps)
    fix i and s :: screen
    assume "i \<in> set [0..<8]" and fb: "framebuffer s = Some fb"
    then have "list_all fits_int ((y + int i) # map (\<lambda>j. x + int j) (filter (\<lambda>j. bit (font ! unat c ! i) (7 - j)) [0..<8]))"
      using assms(3,4) by (auto simp: list_all_iff fits_int_def)
    then show "\<exists>s'. ?f i s = Some s' \<and> framebuffer s' = Some fb" using fb by (simp add: checked_def)
  qed (fact assms(1))
  then show ?thesis using assms(2) by (simp add: draw_char_def Let_def not_le)
qed

lemma draw_char_framebuffer:
  assumes "draw_char x y c color s = Some s'"
  shows "framebuffer s' = framebuffer s"
proof -
  have "fold_opt (\<lambda>i s. if font ! unat c ! i = 0 then Some s
                else case framebuffer s of
                       None \<Rightarrow> None
                     | Some fb \<Rightarrow> checked ((y + int i) # map (\<lambda>j. x + int j) (filter (\<lambda>j. bit (font ! unat c ! i) (7 - j)) [0..<8]))
                                   (Some (draw_row fb x (y + int i) (font ! unat c ! i) color s))) [0..<8] s = Some s'"
    using assms by (simp add: draw_char_def Let_def split: if_splits)
  then show ?thesis
    by (rule fold_opt_invariant [of _ _ _ _ "\<lambda>s'. framebuffer s' = framebuffer s"]) (auto split: if_splits option.splits)
qed

text \<open>The part of the state a command must leave alone, and where it leaves the cursor.\<close>

definition editor_same :: "'d shell \<Rightarrow> 'd shell \<Rightarrow> bool" where
  "editor_same s s' \<longleftrightarrow>
     cmd_buffer s' = cmd_buffer s \<and> cmd_pos s' = cmd_pos s \<and> history s' = history s \<and>
     history_count s' = history_count s \<and> history_pos s' = history_pos s"

definition cursor_ok :: "'d shell \<Rightarrow> bool" where
  "cursor_ok s \<longleftrightarrow> framebuffer (display s) \<noteq> None \<and> 10 \<le> shell_x s \<and> 50 \<le> shell_y s \<and> shell_y s < 750"

definition keeps :: "'d shell \<Rightarrow> 'd shell \<Rightarrow> bool" where
  "keeps s s' \<longleftrightarrow> editor_same s s' \<and> cursor_ok s'"

lemma display_keeps_trans: "keeps s s' \<Longrightarrow> keeps s' s'' \<Longrightarrow> keeps s s''"
  by (simp add: keeps_def editor_same_def)

lemma display_keeps_refl: "cursor_ok s \<Longrightarrow> keeps s s"
  by (simp add: keeps_def editor_same_def)

lemma keeps_cursor: "keeps s s' \<Longrightarrow> cursor_ok s'"
  by (simp add: keeps_def)

lemma keeps_update:
  "keeps s (s'\<lparr>disk := d\<rparr>) = keeps s s'" "keeps s (s'\<lparr>network := n\<rparr>) = keeps s s'" "keeps s (s'\<lparr>file_buf := b\<rparr>) = keeps s s'"
  "cursor_ok (s'\<lparr>disk := d\<rparr>) = cursor_ok s'" "cursor_ok (s'\<lparr>network := n\<rparr>) = cursor_ok s'" "cursor_ok (s'\<lparr>file_buf := b\<rparr>) = cursor_ok s'"
  "keeps (s\<lparr>disk := d\<rparr>) s' = keeps s s'" "keeps (s\<lparr>network := n\<rparr>) s' = keeps s s'" "keeps (s\<lparr>file_buf := b\<rparr>) s' = keeps s s'"
  by (simp_all add: keeps_def editor_same_def cursor_ok_def)

lemma rect_on_display:
  assumes "framebuffer (display s) \<noteq> None" and "modest x" and "modest y" and "modest w" and "modest h" and "modest t"
  shows "\<exists>d. on_display (draw_rect x y w h t color filled) s = Some (s\<lparr>display := d\<rparr>) \<and> framebuffer d = framebuffer (display s)"
proof -
  obtain d where "draw_rect x y w h t color filled (display s) = Some d" "draws_visibly (display s) d"
    using draw_rect_returns [OF assms(2-6)] by blast
  then show ?thesis by (intro exI [of _ d]) (simp add: on_display_def draws_visibly_def)
qed

lemma put_char_keeps:
  assumes "put_char c s = Some s'" and "cursor_ok s"
  shows "keeps s s'"
  using assms by (auto simp: put_char_def on_display_def Option.bind_eq_Some_conv keeps_def editor_same_def cursor_ok_def
      dest: draw_char_framebuffer)

lemma print_char_keeps:
  assumes "print_char c s = Some s'" and "cursor_ok s"
  shows "keeps s s'"
proof (cases "c = 10")
  case False
  then show ?thesis using assms put_char_keeps by (simp add: print_char_def)
next
  case True
  let ?s = "s\<lparr>shell_x := 10, shell_y := shell_start_y\<rparr>"
  obtain d where "on_display (draw_rect 10 (shell_y ?s) 780 line_height 0 0x6495ED True) ?s = Some (?s\<lparr>display := d\<rparr>)"
      "framebuffer d = framebuffer (display s)"
    using rect_on_display [of ?s 10 "shell_y ?s" 780 line_height 0 "0x6495ED" True] assms(2)
    by (auto simp: cursor_ok_def shell_start_y_def line_height_def)
  then show ?thesis
    using assms True by (auto simp: print_char_def Let_def keeps_def editor_same_def cursor_ok_def shell_start_y_def
        line_height_def max_y_def split: if_splits)
qed

lemma print_newline:
  assumes "cursor_ok s"
  shows "\<exists>s'. print_char 10 s = Some s' \<and> shell_x s' = 10"
proof -
  let ?s = "s\<lparr>shell_x := 10, shell_y := shell_start_y\<rparr>"
  obtain d where "on_display (draw_rect 10 (shell_y ?s) 780 line_height 0 0x6495ED True) ?s = Some (?s\<lparr>display := d\<rparr>)"
      "framebuffer d = framebuffer (display s)"
    using rect_on_display [of ?s 10 "shell_y ?s" 780 line_height 0 "0x6495ED" True] assms
    by (auto simp: cursor_ok_def shell_start_y_def line_height_def)
  then show ?thesis using assms by (auto simp: print_char_def Let_def shell_start_y_def)
qed

lemma fold_opt_keep_rel:
  assumes "fold_opt f xs s = Some s'" and "cursor_ok s" and "\<And>x s s'. f x s = Some s' \<Longrightarrow> cursor_ok s \<Longrightarrow> keeps s s'"
  shows "keeps s s'"
  using assms(1,2)
proof (induction xs arbitrary: s)
  case (Cons x xs)
  then obtain s1 where s1: "f x s = Some s1" "fold_opt f xs s1 = Some s'" by (auto split: option.splits)
  then have "keeps s s1" using assms(3) Cons.prems(2) by blast
  then show ?case using Cons.IH [OF s1(2)] keeps_cursor display_keeps_trans by blast
qed (simp add: display_keeps_refl)

lemma shell_print_keeps: "shell_print str s = Some s' \<Longrightarrow> cursor_ok s \<Longrightarrow> keeps s s'"
  unfolding shell_print_def by (rule fold_opt_keep_rel) (auto intro: print_char_keeps)

text \<open>After a printed line the cursor is at the left edge.\<close>

definition line_done :: "'d shell \<Rightarrow> 'd shell \<Rightarrow> bool" where
  "line_done s s' \<longleftrightarrow> keeps s s' \<and> shell_x s' = 10"

lemma shell_println_done:
  assumes "shell_println str s = Some s'" and "cursor_ok s"
  shows "line_done s s'"
proof -
  obtain s1 where s1: "shell_print str s = Some s1" "shell_print [10] s1 = Some s'"
    using assms(1) by (auto simp: shell_println_def Option.bind_eq_Some_conv)
  have k1: "keeps s s1" using shell_print_keeps [OF s1(1) assms(2)] .
  then have k2: "keeps s1 s'" using shell_print_keeps [OF s1(2)] keeps_cursor by blast
  have "shell_x s' = 10" using print_newline [OF keeps_cursor [OF k1]] s1(2) by (auto simp: shell_print_def)
  then show ?thesis using k1 k2 display_keeps_trans by (auto simp: line_done_def)
qed

lemma format_line_done: "format_line n format args s = Some s' \<Longrightarrow> cursor_ok s \<Longrightarrow> line_done s s'"
  by (auto simp: format_line_def Option.bind_eq_Some_conv dest: shell_println_done)

text \<open>A command that starts at the left edge ends there.\<close>

lemma line_done_trans: "line_done s s' \<Longrightarrow> line_done s' s'' \<Longrightarrow> line_done s s''"
  by (auto simp: line_done_def intro: display_keeps_trans)

lemma line_done_refl: "cursor_ok s \<Longrightarrow> shell_x s = 10 \<Longrightarrow> line_done s s"
  by (simp add: line_done_def display_keeps_refl)

lemma fold_opt_done:
  assumes "fold_opt f xs s = Some s'" and "cursor_ok s" and "shell_x s = 10"
    and "\<And>x s s'. f x s = Some s' \<Longrightarrow> cursor_ok s \<Longrightarrow> shell_x s = 10 \<Longrightarrow> line_done s s'"
  shows "line_done s s'"
  using assms(1-3)
proof (induction xs arbitrary: s)
  case (Cons x xs)
  then obtain s1 where s1: "f x s = Some s1" "fold_opt f xs s1 = Some s'" by (auto split: option.splits)
  then have d: "line_done s s1" using assms(4) Cons.prems by blast
  then have "line_done s1 s'" using Cons.IH [OF s1(2)] by (auto simp: line_done_def keeps_def)
  then show ?case using d line_done_trans by blast
qed (simp add: line_done_refl)

lemma print_lines_done: "print_lines ls s = Some s' \<Longrightarrow> cursor_ok s \<Longrightarrow> shell_x s = 10 \<Longrightarrow> line_done s s'"
  unfolding print_lines_def by (rule fold_opt_done) (auto dest: shell_println_done)

section \<open>Commands leave the editor alone\<close>

lemma line_done_end: "line_done s s' \<Longrightarrow> cursor_ok s'" "line_done s s' \<Longrightarrow> shell_x s' = 10"
  by (simp_all add: line_done_def keeps_def)

lemma line_done_update:
  "line_done s (s'\<lparr>disk := d\<rparr>) = line_done s s'" "line_done s (s'\<lparr>network := n\<rparr>) = line_done s s'"
  "line_done s (s'\<lparr>file_buf := b\<rparr>) = line_done s s'"
  "line_done (s\<lparr>disk := d\<rparr>) s' = line_done s s'" "line_done (s\<lparr>network := n\<rparr>) s' = line_done s s'"
  "line_done (s\<lparr>file_buf := b\<rparr>) s' = line_done s s'"
  by (simp_all add: line_done_def keeps_update)

lemmas step_bind = Option.bind_eq_Some_conv

text \<open>Text printed before a line on the same row.\<close>

lemma print_then_line:
  assumes "shell_print str s = Some s1" and "format_line n format args s1 = Some s'" and "cursor_ok s"
  shows "line_done s s'"
  using shell_print_keeps [OF assms(1,3)] format_line_done [OF assms(2)] keeps_cursor display_keeps_trans
  by (auto simp: line_done_def)

lemma cmd_help_done: "cmd_help s = Some s' \<Longrightarrow> cursor_ok s \<Longrightarrow> shell_x s = 10 \<Longrightarrow> line_done s s'"
  unfolding cmd_help_def by (rule print_lines_done)

lemma cmd_arp_done: "cmd_arp s = Some s' \<Longrightarrow> cursor_ok s \<Longrightarrow> shell_x s = 10 \<Longrightarrow> line_done s s'"
  unfolding cmd_arp_def by (rule print_lines_done)

lemma cmd_uptime_done: "cmd_uptime s = Some s' \<Longrightarrow> cursor_ok s \<Longrightarrow> shell_x s = 10 \<Longrightarrow> line_done s s'"
  unfolding cmd_uptime_def Let_def by (rule format_line_done)

lemma cmd_clear_done:
  assumes "cmd_clear s = Some s'" and "cursor_ok s"
  shows "line_done s s'"
proof -
  obtain d where "on_display (draw_rect 0 (shell_start_y - 20) 800 400 0 0x6495ED True) s = Some (s\<lparr>display := d\<rparr>)"
      "framebuffer d = framebuffer (display s)"
    using rect_on_display [of s 0 "shell_start_y - 20" 800 400 0 "0x6495ED" True] assms(2)
    by (auto simp: cursor_ok_def shell_start_y_def)
  then show ?thesis
    using assms by (auto simp: cmd_clear_def line_done_def keeps_def editor_same_def cursor_ok_def shell_start_y_def)
qed

lemma cmd_mem_done:
  assumes "cmd_mem s = Some s'" and "cursor_ok s" and "shell_x s = 10"
  shows "line_done s s'"
proof -
  obtain s1 s2 s3 s4 s5 s6 f1 a1 f2 a2 f3 a3 where
    "shell_println (cstr ''Memory Statistics:'') s = Some s1"
    "shell_print (cstr ''  Total: '') s1 = Some s2" "format_line 64 f1 a1 s2 = Some s3"
    "shell_print (cstr ''  Used:  '') s3 = Some s4" "format_line 64 f2 a2 s4 = Some s5"
    "shell_print (cstr ''  Free:  '') s5 = Some s6" "format_line 64 f3 a3 s6 = Some s'"
    using assms(1) unfolding cmd_mem_def Let_def step_bind by blast
  note steps = this
  have d: "line_done s s1" using shell_println_done [OF steps(1) assms(2)] .
  have d1: "line_done s1 s3" using print_then_line [OF steps(2,3) line_done_end(1) [OF d]] .
  have d2: "line_done s3 s5" using print_then_line [OF steps(4,5) line_done_end(1) [OF d1]] .
  have d3: "line_done s5 s'" using print_then_line [OF steps(6,7) line_done_end(1) [OF d2]] .
  show ?thesis using line_done_trans [OF d line_done_trans [OF d1 line_done_trans [OF d2 d3]]] .
qed

text \<open>A heading, and a line or nothing for each of some items.\<close>

lemma heading_lines_done:
  assumes "shell_println str s = Some s1" and "fold_opt f xs s1 = Some s'" and "cursor_ok s"
    and "\<And>x s s'. f x s = Some s' \<Longrightarrow> cursor_ok s \<Longrightarrow> shell_x s = 10 \<Longrightarrow> line_done s s'"
  shows "line_done s s'"
proof -
  have d: "line_done s s1" using shell_println_done [OF assms(1,3)] .
  show ?thesis using line_done_trans [OF d fold_opt_done [OF assms(2) line_done_end [OF d] assms(4)]] .
qed

lemma pci_line_done: "pci_line i s = Some s' \<Longrightarrow> cursor_ok s \<Longrightarrow> shell_x s = 10 \<Longrightarrow> line_done s s'"
  by (auto simp: pci_line_def Let_def split: option.splits intro: line_done_refl format_line_done)

lemma two_lines_done:
  assumes "format_line n f a s = Some s1" and "format_line n' f' a' s1 = Some s'" and "cursor_ok s"
  shows "line_done s s'"
proof -
  have d: "line_done s s1" using format_line_done [OF assms(1,3)] .
  show ?thesis using line_done_trans [OF d format_line_done [OF assms(2) line_done_end(1) [OF d]]] .
qed

lemma net_line_done:
  assumes "net_line i s = Some s'" and "cursor_ok s" and "shell_x s = 10"
  shows "line_done s s'"
proof (cases "network_get_interface (int i) (network s)")
  case None
  then show ?thesis using assms line_done_refl by (simp add: net_line_def)
next
  case (Some k)
  show ?thesis
  proof (cases "active (iface (network s) k)")
    case False
    then show ?thesis using Some assms line_done_refl by (simp add: net_line_def)
  next
    case True
    with Some show ?thesis
      using assms(1) two_lines_done [OF _ _ assms(2)] unfolding net_line_def step_bind by (simp add: step_bind) blast
  qed
qed

lemma disk_line_done: "disk_line i s = Some s' \<Longrightarrow> cursor_ok s \<Longrightarrow> shell_x s = 10 \<Longrightarrow> line_done s s'"
  by (auto simp: disk_line_def Let_def split: option.splits intro: line_done_refl format_line_done)

lemma ls_callback_done: "ls_callback e s = Some s' \<Longrightarrow> cursor_ok s \<Longrightarrow> shell_x s = 10 \<Longrightarrow> line_done s s'"
  by (auto simp: ls_callback_def split: prod.splits if_splits intro: format_line_done)

lemma cmd_pci_done: "cmd_pci s = Some s' \<Longrightarrow> cursor_ok s \<Longrightarrow> shell_x s = 10 \<Longrightarrow> line_done s s'"
  by (auto simp: cmd_pci_def step_bind intro: heading_lines_done pci_line_done)

lemma cmd_net_done: "cmd_net s = Some s' \<Longrightarrow> cursor_ok s \<Longrightarrow> shell_x s = 10 \<Longrightarrow> line_done s s'"
  by (auto simp: cmd_net_def step_bind intro: heading_lines_done net_line_done)

lemma cat_lines_done:
  "cat_lines cs line s = Some s' \<Longrightarrow> cursor_ok s \<Longrightarrow> shell_x s = 10 \<Longrightarrow> line_done s s'"
proof (induction cs line s rule: cat_lines.induct)
  case (1 line s)
  then show ?case by (auto split: if_splits intro: shell_println_done line_done_refl)
next
  case (2 c cs line s)
  show ?case
  proof (cases "c = 10 \<or> c = 13")
    case True
    then obtain s1 where s1: "(if line \<noteq> [] then shell_println line s else Some s) = Some s1"
        "(case cs of n # ds \<Rightarrow> if c = 13 \<and> n = 10 then cat_lines ds [] s1 else cat_lines cs [] s1 | [] \<Rightarrow> cat_lines cs [] s1) = Some s'"
      using 2(6) by (simp only: cat_lines.simps if_True step_bind) blast
    have d: "line_done s s1"
      using s1(1) shell_println_done [OF _ 2(7)] line_done_refl [OF 2(7,8)] by (cases "line = []") simp_all
    note ih = line_done_end [OF d]
    have "line_done s1 s'"
    proof (cases cs)
      case Nil
      then show ?thesis using s1(2) ih line_done_refl by simp
    next
      case (Cons n ds)
      then show ?thesis using s1(2) 2(2) [OF True s1(1) Cons] 2(3) [OF True s1(1) Cons] ih by (cases "c = 13 \<and> n = 10") (simp_all only: list.case if_True if_False simp_thms)
    qed
    then show ?thesis using d line_done_trans by blast
  next
    case False
    then show ?thesis using 2(4,5) [OF False] 2(6-8) by (cases "length line < 255") simp_all
  qed
qed

lemma cmd_ls_done:
  assumes "cmd_ls P s = Some s'" and "cursor_ok s" and "shell_x s = 10"
  shows "line_done s s'"
proof (cases "fat16_is_mounted (disk s)")
  case False
  then show ?thesis using assms shell_println_done by (simp add: cmd_ls_def)
next
  case True
  then obtain s1 where s1: "shell_println (cstr ''Files:'') s = Some s1"
      "(case fat16_list_root P (disk s1) of
          ((r, calls), d) \<Rightarrow>
            do { s \<leftarrow> fold_opt ls_callback calls (s1\<lparr>disk := d\<rparr>);
                 if r < 0 then shell_println (cstr ''Error reading directory'') s else Some s }) = Some s'"
    using assms(1) by (auto simp: cmd_ls_def step_bind)
  obtain rc d where rc: "fat16_list_root P (disk s1) = (rc, d)" by (rule prod.exhaust)
  obtain r calls where "rc = (r, calls)" by (rule prod.exhaust)
  with rc have l: "fat16_list_root P (disk s1) = ((r, calls), d)" by simp
  obtain s2 where s2: "fold_opt ls_callback calls (s1\<lparr>disk := d\<rparr>) = Some s2"
      "(if r < 0 then shell_println (cstr ''Error reading directory'') s2 else Some s2) = Some s'"
    using s1(2) unfolding l prod.case step_bind by - (erule exE, erule conjE, rule that)
  have d1: "line_done s s1" using shell_println_done [OF s1(1) assms(2)] .
  have d2: "line_done s1 s2"
  proof -
    have "cursor_ok (s1\<lparr>disk := d\<rparr>)" "shell_x (s1\<lparr>disk := d\<rparr>) = 10"
      using line_done_end [OF d1] by (simp_all add: keeps_update)
    from fold_opt_done [OF s2(1) this ls_callback_done] show ?thesis by (simp only: line_done_update)
  qed
  have "line_done s2 s'"
    using s2(2) shell_println_done [of _ s2] line_done_refl [of s2] line_done_end [OF d2] by (simp split: if_split_asm)
  then show ?thesis using d1 d2 line_done_trans by blast
qed

lemma cat_file_done:
  assumes "cat_file P n s = Some s'" and "cursor_ok s" and "shell_x s = 10"
  shows "line_done s s'"
proof -
  obtain r bytes d where r: "fat16_read_file P n 4095 (disk s) = Some ((r, bytes), d)"
    using assms(1) unfolding cat_file_def step_bind by (metis prod.exhaust)
  let ?s = "s\<lparr>disk := d, file_buf := write_prefix bytes (file_buf s)\<rparr>"
  have e: "cat_file P n s = (if r < 0 then shell_println (cstr ''File not found'') ?s
      else let s = ?s\<lparr>file_buf := (file_buf ?s)[nat r := 0]\<rparr> in cat_lines (c_string (file_buf s)) [] s)"
    using r by (simp add: cat_file_def Let_def)
  have c: "cursor_ok ?s" "shell_x ?s = 10" using assms by (simp_all add: keeps_update cursor_ok_def)
  show ?thesis
  proof (cases "r < 0")
    case True
    then have "line_done ?s s'" using assms(1) e shell_println_done c by simp
    then show ?thesis by (simp only: line_done_update)
  next
    case False
    then have "cat_lines (c_string ((file_buf ?s)[nat r := 0])) [] (?s\<lparr>file_buf := (file_buf ?s)[nat r := 0]\<rparr>) = Some s'"
      using assms(1) e by simp
    then have "line_done (?s\<lparr>file_buf := (file_buf ?s)[nat r := 0]\<rparr>) s'"
      by (rule cat_lines_done) (use assms in \<open>simp_all add: cursor_ok_def\<close>)
    then show ?thesis by (simp only: line_done_update)
  qed
qed

lemma cmd_cat_done:
  assumes "cmd_cat P args s = Some s'" and "cursor_ok s" and "shell_x s = 10"
  shows "line_done s s'"
  using assms(1) unfolding cmd_cat_def Let_def
  by (simp only: split: if_split_asm) (blast intro: shell_println_done cat_file_done assms(2,3))+

lemma write_text_done:
  assumes "write_text P n content s = Some s'" and "cursor_ok s" and "shell_x s = 10"
  shows "line_done s s'"
proof -
  have p: "line_done s s'" if "shell_println str (s\<lparr>disk := d\<rparr>) = Some s'" for str d
    using shell_println_done [OF that] assms(2) by (simp add: line_done_update keeps_update)
  have q: "line_done s s'" if "format_line n f a (s\<lparr>disk := d\<rparr>) = Some s'" for n f a d
    using format_line_done [OF that] assms(2) by (simp add: line_done_update keeps_update)
  obtain r e d c d2 where c: "fat16_find_file P n (disk s) = ((r, e), d)"
      "(if r < 0 then fat16_create_file P n d else (0, d)) = (c, d2)"
    by (metis prod.exhaust)
  show ?thesis
  proof (cases "c < 0")
    case True
    then show ?thesis using assms(1) p by (simp add: write_text_def c)
  next
    case False
    then have "do { (w, d) \<leftarrow> fat16_write_file P n content d2;
        if w < 0 then shell_println (cstr ''Failed to write file'') (s\<lparr>disk := d\<rparr>)
        else format_line 64 ''Wrote %u bytes to %s'' [Word_Arg (of_nat (length content)), Str_Arg (Some n)] (s\<lparr>disk := d\<rparr>) } = Some s'"
      using assms(1) by (simp add: write_text_def c)
    then obtain w :: int and d3 where "(if w < 0 then shell_println (cstr ''Failed to write file'') (s\<lparr>disk := d3\<rparr>)
        else format_line 64 ''Wrote %u bytes to %s'' [Word_Arg (of_nat (length content)), Str_Arg (Some n)] (s\<lparr>disk := d3\<rparr>)) = Some s'"
      by (simp only: step_bind split_paired_all split_paired_Ex prod.case) (elim exE conjE, rule that)
    then show ?thesis using p q by (cases "w < 0") simp_all
  qed
qed

lemma cmd_write_done:
  assumes "cmd_write P args s = Some s'" and "cursor_ok s" and "shell_x s = 10"
  shows "line_done s s'"
  using assms(1) unfolding cmd_write_def Let_def
  by (simp only: split: if_split_asm prod.split_asm)
    (blast intro: shell_println_done print_lines_done write_text_done assms(2,3))+

lemma cmd_disk_done:
  assumes "cmd_disk s = Some s'" and "cursor_ok s" and "shell_x s = 10"
  shows "line_done s s'"
proof -
  obtain s1 s2 s3 str where s1: "shell_println (cstr ''ATA Drives:'') s = Some s1"
      "fold_opt disk_line (filter (drive_shown s1) [0, 1]) s1 = Some s2"
      "(if filter (drive_shown s1) [0, 1] = [] then shell_println (cstr ''  No drives detected'') s2 else Some s2) = Some s3"
      "shell_println str s3 = Some s'"
    using assms(1) unfolding cmd_disk_def Let_def step_bind by (metis (full_types))
  have d: "line_done s s2" by (rule heading_lines_done [OF s1(1,2) assms(2) disk_line_done])
  have d2: "line_done s2 s3"
    using s1(3) shell_println_done line_done_refl line_done_end [OF d]
    by (cases "filter (drive_shown s1) [0, 1] = []") simp_all
  show ?thesis using line_done_trans [OF d line_done_trans [OF d2 shell_println_done [OF s1(4) line_done_end(1) [OF d2]]]] .
qed

lemma cmd_format_done:
  assumes "cmd_format P args s = Some s'" and "cursor_ok s" and "shell_x s = 10"
  shows "line_done s s'"
proof (cases "format_drive (skip_spaces args) s < 0")
  case True
  then show ?thesis using assms print_lines_done by (simp add: cmd_format_def)
next
  case False
  define drive where "drive = format_drive (skip_spaces args) s"
  obtain s1 where s1: "format_line 64 ''Formatting drive %d with FAT16...'' [Word_Arg (of_int drive)] s = Some s1"
      "(case fat16_format P drive (Some (cstr ''CGOS'')) (fat16_unmount (disk s1)) of
         (r, d) \<Rightarrow>
           if r = 0
           then do { s \<leftarrow> shell_println (cstr ''Format complete!'') (s1\<lparr>disk := d\<rparr>);
                     (m, d) \<leftarrow> fat16_mount P drive (disk s);
                     if m = 0 then shell_println (cstr ''Filesystem mounted'') (s\<lparr>disk := d\<rparr>)
                     else Some (s\<lparr>disk := d\<rparr>) }
           else shell_println (cstr ''Format failed'') (s1\<lparr>disk := d\<rparr>)) = Some s'"
    using assms(1) False unfolding cmd_format_def Let_def drive_def [symmetric] by (auto simp: step_bind)
  obtain r d where f: "fat16_format P drive (Some (cstr ''CGOS'')) (fat16_unmount (disk s1)) = (r, d)" by force
  have d1: "line_done s s1" using format_line_done [OF s1(1) assms(2)] .
  have c: "cursor_ok (s1\<lparr>disk := d\<rparr>)" using line_done_end(1) [OF d1] by (simp add: keeps_update)
  have "line_done s1 s'"
  proof (cases "r = 0")
    case False
    then have "shell_println (cstr ''Format failed'') (s1\<lparr>disk := d\<rparr>) = Some s'" using s1(2) by (simp add: f)
    from shell_println_done [OF this c] show ?thesis by (simp add: line_done_update)
  next
    case True
    then obtain s2 where s2: "shell_println (cstr ''Format complete!'') (s1\<lparr>disk := d\<rparr>) = Some s2"
        "do { (m, d) \<leftarrow> fat16_mount P drive (disk s2);
              if m = 0 then shell_println (cstr ''Filesystem mounted'') (s2\<lparr>disk := d\<rparr>) else Some (s2\<lparr>disk := d\<rparr>) } = Some s'"
      using s1(2) unfolding f prod.case if_P [OF True] step_bind by blast
    then obtain m :: int and d2 where
        m: "(if m = 0 then shell_println (cstr ''Filesystem mounted'') (s2\<lparr>disk := d2\<rparr>) else Some (s2\<lparr>disk := d2\<rparr>)) = Some s'"
      by (simp only: step_bind split_paired_all split_paired_Ex prod.case) (elim exE conjE, rule that)
    have d2: "line_done s1 s2" using shell_println_done [OF s2(1) c] by (simp add: line_done_update)
    have "cursor_ok (s2\<lparr>disk := d2\<rparr>)" "shell_x (s2\<lparr>disk := d2\<rparr>) = 10"
      using line_done_end [OF d2] by (simp_all add: keeps_update)
    then have "line_done (s2\<lparr>disk := d2\<rparr>) s'"
      using m shell_println_done [of _ "s2\<lparr>disk := d2\<rparr>"] line_done_refl [of "s2\<lparr>disk := d2\<rparr>"]
      by (simp split: if_split_asm)
    then show ?thesis using d2 line_done_trans by (simp add: line_done_update) blast
  qed
  then show ?thesis using d1 line_done_trans by blast
qed

lemma print_result_done:
  assumes "print_result result s = Some s'" and "cursor_ok s"
  shows "line_done s s'"
proof -
  obtain s1 s2 where s1: "shell_println [] s = Some s1"
      "format_line 80 ''Sent: %d, Received: %d''
         [Word_Arg (of_int (sent result)), Word_Arg (of_int (received_count result))] s1 = Some s2"
      "(if 0 < received_count result
        then format_line 80 ''RTT: min=%u avg=%u max=%u ms''
               [Word_Arg (ucast (min_time result)),
                Word_Arg (ucast (total_time result div of_int (received_count result))),
                Word_Arg (ucast (max_time result))] s2
        else shell_println (cstr ''No reply received'') s2) = Some s'"
    using assms(1) unfolding print_result_def step_bind by blast
  have d1: "line_done s s1" using shell_println_done [OF s1(1) assms(2)] .
  have d2: "line_done s1 s2" using format_line_done [OF s1(2) line_done_end(1) [OF d1]] .
  have "line_done s2 s'"
    using s1(3) format_line_done [OF _ line_done_end(1) [OF d2]] shell_println_done [OF _ line_done_end(1) [OF d2]]
    by (simp split: if_split_asm)
  then show ?thesis using d1 d2 line_done_trans by blast
qed

lemma cmd_ping_done:
  assumes "cmd_ping stack env args s = Some s'" and "cursor_ok s" and "shell_x s = 10"
  shows "line_done s s'"
proof (cases "skip_spaces args = []")
  case True
  then show ?thesis using assms print_lines_done by (simp add: cmd_ping_def Let_def del: dropWhile_eq_Nil_conv)
next
  case False
  then obtain ip where ip: "parse_ip (skip_spaces args) = Some ip"
    using assms(1) by (cases "parse_ip (skip_spaces args)") (simp_all add: cmd_ping_def Let_def del: dropWhile_eq_Nil_conv)
  show ?thesis
  proof (cases "ip = 0")
    case True
    then show ?thesis using assms shell_println_done False ip by (simp add: cmd_ping_def Let_def del: dropWhile_eq_Nil_conv)
  next
    case nz: False
    have "do { s \<leftarrow> format_line 80 ''Pinging %d.%d.%d.%d...'' (octets ip) s;
                       case network_get_interface 1 (network s) of
                         None \<Rightarrow> shell_println (cstr ''No network interface'') s
                       | Some i \<Rightarrow>
                           (case icmp_ping i ip 4 stack env (network s) of
                              None \<Rightarrow> None
                            | Some (r, result, net) \<Rightarrow> print_result result (s\<lparr>network := net\<rparr>)) } = Some s'"
      using assms(1) False ip nz by (simp add: cmd_ping_def Let_def del: dropWhile_eq_Nil_conv)
    then obtain s1 where s1: "format_line 80 ''Pinging %d.%d.%d.%d...'' (octets ip) s = Some s1"
        "(case network_get_interface 1 (network s1) of
            None \<Rightarrow> shell_println (cstr ''No network interface'') s1
          | Some i \<Rightarrow>
              (case icmp_ping i ip 4 stack env (network s1) of
                 None \<Rightarrow> None
               | Some (r, result, net) \<Rightarrow> print_result result (s1\<lparr>network := net\<rparr>))) = Some s'"
      unfolding step_bind by blast
    have d1: "line_done s s1" using format_line_done [OF s1(1) assms(2)] .
    have "line_done s1 s'"
    proof (cases "network_get_interface 1 (network s1)")
      case None
      then show ?thesis using s1(2) shell_println_done line_done_end(1) [OF d1] by simp
    next
      case (Some i)
      then obtain r result net where "print_result result (s1\<lparr>network := net\<rparr>) = Some s'"
        using s1(2) by (simp split: option.split_asm prod.split_asm)
      then have "line_done (s1\<lparr>network := net\<rparr>) s'"
        by (rule print_result_done) (simp add: keeps_update line_done_end(1) [OF d1])
      then show ?thesis by (simp only: line_done_update)
    qed
    then show ?thesis using d1 line_done_trans by blast
  qed
qed

lemma shell_execute_done:
  assumes "shell_execute P stack env cmd s = Some (False, s')" and "cursor_ok s" and "shell_x s = 10"
  shows "line_done s s'"
proof -
  note cmds = cmd_clear_done [OF _ assms(2)] cmd_help_done [OF _ assms(2,3)] cmd_mem_done [OF _ assms(2,3)] cmd_pci_done [OF _ assms(2,3)]
    cmd_net_done [OF _ assms(2,3)] cmd_arp_done [OF _ assms(2,3)] cmd_uptime_done [OF _ assms(2,3)]
    cmd_ping_done [OF _ assms(2,3)] cmd_ls_done [OF _ assms(2,3)] cmd_cat_done [OF _ assms(2,3)]
    cmd_write_done [OF _ assms(2,3)] cmd_disk_done [OF _ assms(2,3)] cmd_format_done [OF _ assms(2,3)]
  have unknown: "line_done s s'" if u: "do { s \<leftarrow> shell_print a s; s \<leftarrow> shell_println b s; s \<leftarrow> shell_println c s; Some (False, s) } = Some (False, s')" for a b c
  proof -
    obtain s1 s2 where s1: "shell_print a s = Some s1" "shell_println b s1 = Some s2" "shell_println c s2 = Some s'"
      using u by (auto simp: step_bind)
    have k1: "keeps s s1" using shell_print_keeps [OF s1(1) assms(2)] .
    have k2: "line_done s1 s2" using shell_println_done [OF s1(2) keeps_cursor [OF k1]] .
    have k3: "line_done s2 s'" using shell_println_done [OF s1(3) line_done_end(1) [OF k2]] .
    show ?thesis using k1 line_done_trans [OF k2 k3] display_keeps_trans by (auto simp: line_done_def)
  qed
  have stop: "do { s \<leftarrow> shell_println a s; Some (True, f s) } \<noteq> Some (False, s')"
    "do { s \<leftarrow> shell_println a s; d \<leftarrow> g s; Some (True, h s d) } \<noteq> Some (False, s')" for a f g h
    by (auto simp: step_bind)
  have go: "map_option (Pair False) r = Some (False, s') \<longleftrightarrow> r = Some s'" for r by auto
  have none: "line_done s s'" if "Some (False, s) = Some (False, s')" using that assms(2,3) line_done_refl by simp
  show ?thesis
    using assms(1) unfolding shell_execute_def Let_def
    by (simp only: go stop simp_thms split: if_split_asm) (erule cmds unknown none)+
qed

end
