(* ===== verification/Shell_Editor.thy ===== *)
theory Shell_Editor
  imports Shell_Frame Fat16_Example Net_Properties
begin

text \<open>
  The line editor of the shell refines an abstract one: a line, the list of the last sixteen commands and a position
  in it.
\<close>

section \<open>The buffers\<close>

definition printable :: "u8 \<Rightarrow> bool" where
  "printable c \<longleftrightarrow> 32 \<le> c \<and> c < 127"

lemma printable_0: "\<not> printable 0"
  by (simp add: printable_def)

lemma c_string_terminated:
  assumes "n < length b" and "\<forall>c \<in> set (take n b). c \<noteq> 0"
  shows "c_string (b[n := 0]) = take n b"
proof -
  have "b[n := 0] = take n b @ 0 # drop (Suc n) b" using assms(1) by (simp add: upd_conv_take_nth_drop)
  then show ?thesis using assms(2) by (simp add: c_string_def)
qed

lemma c_string_write: "0 \<notin> set bs \<Longrightarrow> c_string (write_prefix (bs @ [0]) dest) = bs"
  unfolding c_string_def write_prefix_def by (auto simp: takeWhile_append)

lemma c_string_no_0: "0 \<notin> set (c_string bs)"
  by (auto simp: c_string_def dest: set_takeWhileD)

lemma length_c_string: "0 \<in> set bs \<Longrightarrow> length (c_string bs) < length bs"
  unfolding c_string_def by (induction bs) auto

lemma strcpy_c_string:
  assumes "0 \<in> set src" and "length (c_string src) < length dest"
  shows "\<exists>e. shell_strcpy dest src = Some e \<and> length e = length dest \<and> 0 \<in> set e \<and> c_string e = c_string src"
  using assms c_string_write [OF c_string_no_0, of src dest]
  by (auto simp: shell_strcpy_def write_prefix_def)

definition entry_ok :: "u8 list \<Rightarrow> bool" where
  "entry_ok e \<longleftrightarrow> length e = 256 \<and> 0 \<in> set e \<and> c_string e \<noteq> [] \<and> (\<forall>c \<in> set (c_string e). printable c)"

definition editor_ok :: "'d shell \<Rightarrow> bool" where
  "editor_ok s \<longleftrightarrow>
     length (cmd_buffer s) = 256 \<and> cmd_pos s < 256 \<and> (\<forall>c \<in> set (take (cmd_pos s) (cmd_buffer s)). printable c) \<and>
     length (history s) = 16 \<and> (\<forall>e \<in> set (history s). length e = 256) \<and> history_count s \<le> 16 \<and>
     (\<forall>e \<in> set (take (history_count s) (history s)). entry_ok e) \<and> history_pos s \<le> history_count s \<and>
     cursor_ok s \<and> shell_x s = 58 + 8 * int (cmd_pos s)"

lemma shift_history_ok:
  assumes "length h = 16" and "\<forall>e \<in> set h. entry_ok e"
  shows "\<exists>h'. shift_history h = Some h' \<and> length h' = 16 \<and> (\<forall>e \<in> set h'. entry_ok e) \<and>
    map c_string (take 15 h') = map c_string (tl h)"
proof -
  define f where "f = (\<lambda>i h. map_option (\<lambda>e. h[i := e]) (shell_strcpy (h ! i) (h ! (i + 1))))"
  have "\<exists>h'. fold_opt f [0..<n] h = Some h' \<and> length h' = 16 \<and> (\<forall>e \<in> set h'. entry_ok e) \<and>
      (\<forall>i < n. c_string (h' ! i) = c_string (h ! (i + 1))) \<and> (\<forall>i. n \<le> i \<longrightarrow> h' ! i = h ! i)" if "n \<le> 15" for n
    using that
  proof (induction n)
    case (Suc n)
    then obtain h' where h': "fold_opt f [0..<n] h = Some h'" "length h' = 16" "\<forall>e \<in> set h'. entry_ok e"
        "\<forall>i < n. c_string (h' ! i) = c_string (h ! (i + 1))" "\<forall>i. n \<le> i \<longrightarrow> h' ! i = h ! i" by auto
    have e: "entry_ok (h' ! n)" "entry_ok (h' ! (n + 1))" using h'(2,3) Suc.prems by auto
    then obtain e where "shell_strcpy (h' ! n) (h' ! (n + 1)) = Some e" "length e = 256" "0 \<in> set e"
        "c_string e = c_string (h' ! (n + 1))"
      using strcpy_c_string [of "h' ! (n + 1)" "h' ! n"] length_c_string [of "h' ! (n + 1)"] by (auto simp: entry_ok_def)
    moreover from this have "entry_ok e" using e(2) by (simp add: entry_ok_def)
    ultimately show ?case
      using h' Suc.prems by (intro exI [of _ "h'[n := e]"])
        (auto simp: fold_opt_append f_def nth_list_update less_Suc_eq dest!: subsetD [OF set_update_subset_insert])
  qed (use assms in simp)
  from this [of 15] obtain h' where h': "fold_opt f [0..<15] h = Some h'" "length h' = 16" "\<forall>e \<in> set h'. entry_ok e"
      "\<forall>i < 15. c_string (h' ! i) = c_string (h ! (i + 1))" by auto
  have "map c_string (take 15 h') = map c_string (tl h)"
    using h'(2,4) assms(1) by (intro nth_equalityI) (auto simp: nth_tl)
  then show ?thesis using h' by (auto simp: shift_history_def f_def HISTORY_SIZE_def)
qed

section \<open>Redrawing\<close>

lemma put_char_ok:
  assumes "framebuffer (display s) = Some fb" and "c < 128" and "10 \<le> shell_x s" and "shell_x s < 2 ^ 20"
    and "0 \<le> shell_y s" and "shell_y s < 2 ^ 20"
  shows "\<exists>d. put_char c s = Some (s\<lparr>display := d, shell_x := shell_x s + 8\<rparr>) \<and> framebuffer d = Some fb"
proof -
  obtain d where "draw_char (shell_x s) (shell_y s) c 0xFFFFFF (display s) = Some d" "framebuffer d = Some fb"
    using draw_char_returns [OF assms(1,2), of "shell_x s" "shell_y s"] assms(3-6) by auto
  then show ?thesis
    using assms by (intro exI [of _ d]) (simp add: put_char_def on_display_def checked_def fits_int_def)
qed

lemma put_chars_ok:
  assumes "framebuffer (display s) = Some fb" and "\<forall>c \<in> set cs. c < 128" and "10 \<le> shell_x s"
    and "shell_x s + 8 * int (length cs) < 2 ^ 20" and "0 \<le> shell_y s" and "shell_y s < 2 ^ 20"
  shows "\<exists>d. fold_opt put_char cs s = Some (s\<lparr>display := d, shell_x := shell_x s + 8 * int (length cs)\<rparr>) \<and>
    framebuffer d = Some fb"
  using assms
proof (induction cs arbitrary: s)
  case (Cons c cs)
  obtain d where d: "put_char c s = Some (s\<lparr>display := d, shell_x := shell_x s + 8\<rparr>)" "framebuffer d = Some fb"
    using put_char_ok [of s fb c] Cons.prems by auto
  then show ?case
    using Cons.IH [of "s\<lparr>display := d, shell_x := shell_x s + 8\<rparr>"] Cons.prems by (auto simp: algebra_simps)
next
  case Nil
  then show ?case by (intro exI [of _ "display s"]) simp
qed

lemma redraw_ok:
  assumes "cursor_ok s" and "cmd_pos s < 256" and "cmd_pos s \<le> length (cmd_buffer s)"
    and "\<forall>c \<in> set (take (cmd_pos s) (cmd_buffer s)). printable c"
  shows "\<exists>d. shell_redraw_cmd s = Some (s\<lparr>display := d, shell_x := 58 + 8 * int (cmd_pos s)\<rparr>) \<and> framebuffer d \<noteq> None"
proof -
  let ?s = "s\<lparr>shell_x := 10 + 6 * 8\<rparr>"
  obtain fb where fb: "framebuffer (display s) = Some fb" using assms(1) by (auto simp: cursor_ok_def)
  obtain d where d: "on_display (draw_rect (shell_x ?s) (shell_y ?s) (780 - shell_x ?s) line_height 0 0x6495ED True) ?s =
      Some (?s\<lparr>display := d\<rparr>)" "framebuffer d = Some fb"
    using rect_on_display [of ?s "shell_x ?s" "shell_y ?s" "780 - shell_x ?s" line_height 0 "0x6495ED" True] assms(1) fb
    by (auto simp: cursor_ok_def line_height_def)
  let ?cs = "take (cmd_pos s) (cmd_buffer s)"
  have "\<forall>c \<in> set ?cs. c < 128" using assms(4) by (auto simp: printable_def word_less_nat_alt)
  then obtain e where "fold_opt put_char ?cs (?s\<lparr>display := d\<rparr>) =
      Some (?s\<lparr>display := d\<rparr>\<lparr>display := e, shell_x := shell_x (?s\<lparr>display := d\<rparr>) + 8 * int (length ?cs)\<rparr>)" "framebuffer e = Some fb"
    using put_chars_ok [of "?s\<lparr>display := d\<rparr>" fb ?cs] d(2) assms(1-3) by (auto simp: cursor_ok_def)
  then show ?thesis
    using d assms(3) by (intro exI [of _ e]) (simp add: shell_redraw_cmd_def Let_def min_def)
qed

section \<open>The abstract editor\<close>

record editor =
  line :: "u8 list"
  past :: "u8 list list"
  place :: nat

text \<open>
  Enter starts a new line and adds a non-empty one to the last sixteen commands; the arrows walk through them, and
  below the last one is an empty line.
\<close>

definition editor_key :: "u8 \<Rightarrow> editor \<Rightarrow> editor" where
  "editor_key c e =
     (if c = 10 \<or> c = 13
      then let p = (if line e = [] then past e
                    else if length (past e) < 16 then past e @ [line e] else tl (past e) @ [line e])
           in \<lparr>line = [], past = p, place = length p\<rparr>
      else if c = 8 then e\<lparr>line := butlast (line e)\<rparr>
      else if c = SPECIAL_KEY_ESC then e\<lparr>line := []\<rparr>
      else if c = SPECIAL_KEY_UP
      then if 0 < place e then e\<lparr>place := place e - 1, line := past e ! (place e - 1)\<rparr> else e
      else if c = SPECIAL_KEY_DOWN
      then if place e + 1 < length (past e) then e\<lparr>place := place e + 1, line := past e ! (place e + 1)\<rparr>
           else if place e < length (past e) then e\<lparr>place := length (past e), line := []\<rparr> else e
      else if printable c \<and> length (line e) < 255 then e\<lparr>line := line e @ [c]\<rparr> else e)"

definition editor_of :: "'d shell \<Rightarrow> editor" where
  "editor_of s =
     \<lparr>line = take (cmd_pos s) (cmd_buffer s), past = map c_string (take (history_count s) (history s)), place = history_pos s\<rparr>"

text \<open>The editor after a redraw, with the buffer or the place in the history changed before.\<close>

definition buffers_ok :: "'d shell \<Rightarrow> bool" where
  "buffers_ok s \<longleftrightarrow>
     length (cmd_buffer s) = 256 \<and> cmd_pos s < 256 \<and> (\<forall>c \<in> set (take (cmd_pos s) (cmd_buffer s)). printable c) \<and>
     length (history s) = 16 \<and> (\<forall>e \<in> set (history s). length e = 256) \<and> history_count s \<le> 16 \<and>
     (\<forall>e \<in> set (take (history_count s) (history s)). entry_ok e) \<and> history_pos s \<le> history_count s"

lemma editor_ok_iff: "editor_ok s \<longleftrightarrow> buffers_ok s \<and> cursor_ok s \<and> shell_x s = 58 + 8 * int (cmd_pos s)"
  by (auto simp: editor_ok_def buffers_ok_def)

text \<open>What a key other than Enter leaves alone.\<close>

definition machine_same :: "'d shell \<Rightarrow> 'd shell \<Rightarrow> bool" where
  "machine_same s s' \<longleftrightarrow> disk s' = disk s \<and> network s' = network s \<and> memory s' = memory s \<and> pci_bus s' = pci_bus s \<and> kbd s' = kbd s"

lemma redraw_editor:
  assumes "buffers_ok s" and "cursor_ok s"
  shows "\<exists>s'. shell_redraw_cmd s = Some s' \<and> editor_ok s' \<and> editor_of s' = editor_of s \<and> machine_same s s'"
proof -
  obtain d where "shell_redraw_cmd s = Some (s\<lparr>display := d, shell_x := 58 + 8 * int (cmd_pos s)\<rparr>)" "framebuffer d \<noteq> None"
    using redraw_ok [of s] assms by (auto simp: buffers_ok_def)
  then show ?thesis using assms by (auto simp: editor_ok_iff buffers_ok_def cursor_ok_def editor_of_def machine_same_def)
qed

lemma recall_editor:
  assumes "editor_ok s" and "pos < history_count s"
  shows "\<exists>s'. recall pos s = Some s' \<and> editor_ok s' \<and> machine_same s s' \<and>
    editor_of s' = (editor_of s)\<lparr>place := pos, line := past (editor_of s) ! pos\<rparr>"
proof -
  let ?e = "history s ! pos"
  have "?e \<in> set (take (history_count s) (history s))"
    using assms by (auto simp: editor_ok_def in_set_conv_nth intro!: exI [of _ pos])
  then have e: "entry_ok ?e" using assms(1) by (simp add: editor_ok_def)
  have len: "length (c_string ?e) < 256" using e length_c_string [of ?e] by (simp add: entry_ok_def)
  obtain b where b: "shell_strcpy (cmd_buffer s) ?e = Some b" "length b = 256" "0 \<in> set b" "c_string b = c_string ?e"
    using strcpy_c_string [of ?e "cmd_buffer s"] e len assms(1) by (auto simp: entry_ok_def editor_ok_def)
  let ?s = "s\<lparr>history_pos := pos, cmd_buffer := b, cmd_pos := length (c_string ?e)\<rparr>"
  have r: "recall pos s = shell_redraw_cmd ?s" using b by (simp add: recall_def shell_strlen_def)
  have t: "take (length (c_string ?e)) b = c_string ?e"
    using b(4) unfolding c_string_def by (metis takeWhile_eq_take)
  have "buffers_ok ?s" "cursor_ok ?s"
    using assms e b(2) len t by (auto simp: buffers_ok_def editor_ok_def entry_ok_def cursor_ok_def)
  from redraw_editor [OF this] obtain s' where "recall pos s = Some s'" "editor_ok s'" "editor_of s' = editor_of ?s" "machine_same ?s s'"
    using r by auto
  moreover have "editor_of ?s = (editor_of s)\<lparr>place := pos, line := past (editor_of s) ! pos\<rparr>"
    using t assms by (simp add: editor_of_def editor_ok_def)
  ultimately show ?thesis by (auto simp: machine_same_def)
qed

lemma clear_editor:
  assumes "editor_ok s" and "p = history_pos s \<or> p = history_count s"
  shows "\<exists>s'. clear_command (s\<lparr>history_pos := p\<rparr>) = Some s' \<and> editor_ok s' \<and> machine_same s s' \<and>
    editor_of s' = (editor_of s)\<lparr>place := p, line := []\<rparr>"
proof -
  let ?s = "s\<lparr>history_pos := p, cmd_pos := 0, cmd_buffer := (cmd_buffer s)[0 := 0]\<rparr>"
  have "buffers_ok ?s" "cursor_ok ?s" using assms by (auto simp: buffers_ok_def editor_ok_def cursor_ok_def)
  from redraw_editor [OF this] show ?thesis
    by (auto simp: clear_command_def editor_of_def machine_same_def)
qed

section \<open>Enter\<close>

lemma fold_opt_cong: "(\<And>x s. x \<in> set xs \<Longrightarrow> f x s = g x s) \<Longrightarrow> fold_opt f xs s = fold_opt g xs s"
  by (induction xs arbitrary: s) (auto split: option.split)

lemma prompt_ok:
  assumes "cursor_ok s" and "shell_x s = 10"
  shows "\<exists>d. shell_prompt s = Some (s\<lparr>display := d, shell_x := 58\<rparr>) \<and> framebuffer d \<noteq> None"
proof -
  have c: "\<forall>c \<in> set SHELL_PROMPT. c < 128 \<and> c \<noteq> 10" "length SHELL_PROMPT = 6" by (simp_all add: SHELL_PROMPT_def cstr_def)
  then have "shell_prompt s = fold_opt put_char SHELL_PROMPT s"
    unfolding shell_prompt_def shell_print_def by (intro fold_opt_cong) (simp add: print_char_def)
  moreover obtain fb where "framebuffer (display s) = Some fb" using assms(1) by (auto simp: cursor_ok_def)
  moreover from this obtain d where "fold_opt put_char SHELL_PROMPT s =
      Some (s\<lparr>display := d, shell_x := shell_x s + 8 * int (length SHELL_PROMPT)\<rparr>)" "framebuffer d = Some fb"
    using put_chars_ok [of s fb SHELL_PROMPT] c assms by (auto simp: cursor_ok_def)
  ultimately show ?thesis using assms(2) c(2) by (intro exI [of _ d]) simp
qed

lemma newline_ok:
  assumes "cursor_ok s"
  shows "\<exists>d y. shell_newline s = Some (s\<lparr>shell_x := 10, shell_y := y, display := d\<rparr>) \<and> framebuffer d \<noteq> None \<and> 50 \<le> y \<and> y < 750"
proof -
  define y where "y = (if max_y \<le> shell_y s + line_height then shell_start_y else shell_y s + line_height)"
  let ?s = "s\<lparr>shell_x := 10, shell_y := y\<rparr>"
  have y: "50 \<le> y" "y < 750" using assms by (auto simp: y_def cursor_ok_def line_height_def max_y_def shell_start_y_def)
  obtain d where "on_display (draw_rect 10 (shell_y ?s) 780 line_height 0 0x6495ED True) ?s = Some (?s\<lparr>display := d\<rparr>)"
      "framebuffer d = framebuffer (display s)"
    using rect_on_display [of ?s 10 "shell_y ?s" 780 line_height 0 "0x6495ED" True] assms y
    by (auto simp: cursor_ok_def line_height_def)
  moreover have "shell_newline s = shell_clear_line ?s" by (simp add: shell_newline_def y_def)
  ultimately show ?thesis
    using y assms by (intro exI [of _ d] exI [of _ y]) (auto simp: shell_clear_line_def cursor_ok_def)
qed

lemma save_history_ok:
  assumes "buffers_ok s" and "0 < cmd_pos s" and b: "cmd_buffer s' = (cmd_buffer s)[cmd_pos s := 0]"
    and s': "history s' = history s" "history_count s' = history_count s"
  shows "\<exists>h n. save_history s' = Some (s'\<lparr>history := h, history_count := n\<rparr>) \<and> length h = 16 \<and> n \<le> 16 \<and>
    (\<forall>e \<in> set h. length e = 256) \<and> (\<forall>e \<in> set (take n h). entry_ok e) \<and>
    map c_string (take n h) = past (editor_key 10 (editor_of s))"
proof -
  let ?l = "take (cmd_pos s) (cmd_buffer s)"
  have c: "length (cmd_buffer s) = 256" "cmd_pos s < 256" "\<forall>c \<in> set ?l. printable c" "length (history s) = 16"
    "\<forall>e \<in> set (history s). length e = 256" "history_count s \<le> 16" "\<forall>e \<in> set (take (history_count s) (history s)). entry_ok e"
    using assms(1) by (auto simp: buffers_ok_def)
  have str: "c_string (cmd_buffer s') = ?l"
    unfolding b using c printable_0 by (intro c_string_terminated) auto
  have zero: "0 \<in> set (cmd_buffer s')" unfolding b using c by (intro set_update_memI) simp
  have len: "length ?l < 256" and ne: "?l \<noteq> []" using c assms(2) by auto
  have copy: "\<exists>e. shell_strcpy x (cmd_buffer s') = Some e \<and> entry_ok e \<and> c_string e = ?l" if "length x = 256" for x
    using strcpy_c_string [OF zero, of x] that len ne c(3) str by (auto simp: entry_ok_def)
  have past: "past (editor_key 10 (editor_of s)) =
      (if history_count s < 16 then map c_string (take (history_count s) (history s)) @ [?l]
       else tl (map c_string (take (history_count s) (history s))) @ [?l])"
    using ne c(4,6) by (simp add: editor_key_def editor_of_def Let_def)
  show ?thesis
  proof (cases "history_count s < 16")
    case True
    then obtain e where e: "shell_strcpy (history s ! history_count s) (cmd_buffer s') = Some e" "entry_ok e" "c_string e = ?l"
      using copy [of "history s ! history_count s"] c(4,5) by auto
    let ?h = "(history s)[history_count s := e]"
    have t: "take (Suc (history_count s)) ?h = take (history_count s) (history s) @ [e]"
      using True c(4) by (simp add: take_Suc_conv_app_nth)
    have "\<forall>x \<in> set ?h. length x = 256" using c(5) e(2) by (auto simp: entry_ok_def dest!: subsetD [OF set_update_subset_insert])
    then show ?thesis
      using True e c t past s'
      by (intro exI [of _ ?h] exI [of _ "Suc (history_count s)"]) (auto simp: save_history_def HISTORY_SIZE_def)
  next
    case False
    then have n: "history_count s = 16" using c(6) by simp
    then have "\<forall>e \<in> set (history s). entry_ok e" using c(4,7) by simp
    from shift_history_ok [OF c(4) this] obtain h where h: "shift_history (history s) = Some h" "length h = 16"
        "\<forall>e \<in> set h. entry_ok e" "map c_string (take 15 h) = map c_string (tl (history s))" by blast
    obtain e where e: "shell_strcpy (h ! 15) (cmd_buffer s') = Some e" "entry_ok e" "c_string e = ?l"
      using copy [of "h ! 15"] h(2,3) by (auto simp: entry_ok_def)
    let ?h = "h[15 := e]"
    have ok: "\<forall>x \<in> set ?h. entry_ok x" using h(3) e(2) by (auto dest!: subsetD [OF set_update_subset_insert])
    have t: "?h = take 15 h @ [e]" using h(2) by (simp add: list_eq_iff_nth_eq nth_append nth_list_update less_Suc_eq)
    have "map c_string ?h = map c_string (tl (history s)) @ [?l]" unfolding t using h(4) e(3) by simp
    then show ?thesis
      using ok h e n c(4) past s'
      by (intro exI [of _ ?h] exI [of _ 16]) (auto simp: save_history_def HISTORY_SIZE_def entry_ok_def map_tl)
  qed
qed

definition finish :: "(bool \<times> 'd shell) option \<Rightarrow> (bool \<times> 'd shell) option" where
  "finish r =
     (case r of
        None \<Rightarrow> None
      | Some (stopped, s) \<Rightarrow> if stopped then Some (True, s) else going_on (shell_prompt (s\<lparr>cmd_pos := 0\<rparr>)))"

text \<open>Enter saves the line, moves to a new row and executes the line.\<close>

lemma enter_executes:
  assumes "editor_ok s" and "c = 10 \<or> c = 13"
  shows "\<exists>s1. shell_process_char P stack env c s = finish (shell_execute P stack env (line (editor_of s)) s1) \<and>
    machine_same s s1 \<and> cursor_ok s1 \<and> shell_x s1 = 10 \<and> buffers_ok (s1\<lparr>cmd_pos := 0\<rparr>) \<and>
    editor_of (s1\<lparr>cmd_pos := 0\<rparr>) = editor_key c (editor_of s)"
proof -
  let ?l = "take (cmd_pos s) (cmd_buffer s)"
  let ?s = "s\<lparr>cmd_buffer := (cmd_buffer s)[cmd_pos s := 0]\<rparr>"
  have ok: "buffers_ok s" "cursor_ok s" using assms(1) by (simp_all add: editor_ok_iff)
  have b: "length (cmd_buffer s) = 256" "cmd_pos s < 256" "\<forall>c \<in> set ?l. printable c" using ok(1) by (auto simp: buffers_ok_def)
  have str: "c_string (cmd_buffer ?s) = ?l" using b printable_0 by simp (intro c_string_terminated; auto)
  have key: "editor_key c e = editor_key 10 e" for e using assms(2) by (auto simp: editor_key_def)
  have saved: "\<exists>h n. (if 0 < cmd_pos ?s then save_history ?s else Some ?s) = Some (?s\<lparr>history := h, history_count := n\<rparr>) \<and>
      length h = 16 \<and> n \<le> 16 \<and> (\<forall>e \<in> set h. length e = 256) \<and> (\<forall>e \<in> set (take n h). entry_ok e) \<and>
      map c_string (take n h) = past (editor_key 10 (editor_of s))"
  proof (cases "0 < cmd_pos s")
    case True
    then show ?thesis using save_history_ok [OF ok(1) True, of ?s] by simp
  next
    case False
    then show ?thesis
      using ok(1) by (intro exI [of _ "history s"] exI [of _ "history_count s"])
        (auto simp: buffers_ok_def editor_key_def editor_of_def)
  qed
  then obtain h n where h: "(if 0 < cmd_pos ?s then save_history ?s else Some ?s) = Some (?s\<lparr>history := h, history_count := n\<rparr>)"
      "length h = 16" "n \<le> 16" "\<forall>e \<in> set h. length e = 256" "\<forall>e \<in> set (take n h). entry_ok e"
      "map c_string (take n h) = past (editor_key 10 (editor_of s))" by blast
  let ?t = "?s\<lparr>history := h, history_count := n, history_pos := n\<rparr>"
  obtain d y where d: "shell_newline ?t = Some (?t\<lparr>shell_x := 10, shell_y := y, display := d\<rparr>)" "framebuffer d \<noteq> None" "50 \<le> y" "y < 750"
    using newline_ok [of ?t] ok(2) by (auto simp: cursor_ok_def)
  let ?s1 = "?t\<lparr>shell_x := 10, shell_y := y, display := d\<rparr>"
  have "shell_process_char P stack env c s = finish (shell_execute P stack env ?l ?s1)"
  proof -
    have "shell_process_char P stack env c s =
        do { s \<leftarrow> if 0 < cmd_pos ?s then save_history ?s else Some ?s;
             s \<leftarrow> shell_newline (s\<lparr>history_pos := history_count s\<rparr>);
             (stopped, s) \<leftarrow> shell_execute P stack env (c_string (cmd_buffer s)) s;
             if stopped then Some (True, s) else going_on (shell_prompt (s\<lparr>cmd_pos := 0\<rparr>)) }"
      using assms(2) by (simp only: shell_process_char_def Let_def if_True)
    also have "\<dots> = do { s \<leftarrow> shell_newline ?t;
             (stopped, s) \<leftarrow> shell_execute P stack env (c_string (cmd_buffer s)) s;
             if stopped then Some (True, s) else going_on (shell_prompt (s\<lparr>cmd_pos := 0\<rparr>)) }"
      unfolding h(1) by simp
    also have "\<dots> = finish (shell_execute P stack env ?l ?s1)"
      unfolding d(1) using str by (simp add: finish_def split: option.split)
    finally show ?thesis .
  qed
  moreover have "editor_of (?s1\<lparr>cmd_pos := 0\<rparr>) = editor_key c (editor_of s)"
  proof -
    have "length (past (editor_key 10 (editor_of s))) = n" using h(2,3,6) by (metis length_map length_take min.absorb2)
    then have "place (editor_key 10 (editor_of s)) = n" "line (editor_key 10 (editor_of s)) = []"
      by (auto simp: editor_key_def Let_def)
    then show ?thesis unfolding key using h(6) by (simp add: editor_of_def editor.equality)
  qed
  ultimately show ?thesis
    using d h b by (intro exI [of _ ?s1]) (auto simp: machine_same_def cursor_ok_def buffers_ok_def editor_of_def)
qed

lemma enter_result:
  assumes "editor_ok s" and "c = 10 \<or> c = 13" and "shell_process_char P stack env c s = Some (False, s')"
  shows "editor_ok s' \<and> editor_of s' = editor_key c (editor_of s)"
proof -
  obtain s1 where s1: "shell_process_char P stack env c s = finish (shell_execute P stack env (line (editor_of s)) s1)"
    "cursor_ok s1" "shell_x s1 = 10" "buffers_ok (s1\<lparr>cmd_pos := 0\<rparr>)" "editor_of (s1\<lparr>cmd_pos := 0\<rparr>) = editor_key c (editor_of s)"
    using enter_executes [OF assms(1,2)] by blast
  obtain s2 where s2: "shell_execute P stack env (line (editor_of s)) s1 = Some (False, s2)" "shell_prompt (s2\<lparr>cmd_pos := 0\<rparr>) = Some s'"
    using assms(3) s1(1) by (auto simp: finish_def split: option.splits if_splits)
  have d: "line_done s1 s2" using shell_execute_done [OF s2(1) s1(2,3)] .
  have c: "cursor_ok (s2\<lparr>cmd_pos := 0\<rparr>)" "shell_x (s2\<lparr>cmd_pos := 0\<rparr>) = 10" using line_done_end [OF d] by (simp_all add: cursor_ok_def)
  obtain d2 where "s' = s2\<lparr>cmd_pos := 0, display := d2, shell_x := 58\<rparr>" "framebuffer d2 \<noteq> None"
    using prompt_ok [OF c] s2(2) by auto
  moreover have "editor_same s1 s2" using d by (simp add: line_done_def keeps_def)
  ultimately show ?thesis
    using s1(4,5) line_done_end(1) [OF d] by (auto simp: editor_ok_iff buffers_ok_def cursor_ok_def editor_of_def editor_same_def)
qed

lemma key_result:
  assumes "editor_ok s" and "c \<noteq> 10" and "c \<noteq> 13"
  shows "\<exists>s'. shell_process_char P stack env c s = Some (False, s') \<and> editor_ok s' \<and> machine_same s s' \<and>
    editor_of s' = editor_key c (editor_of s)"
proof -
  have len: "length (take (history_count s) (history s)) = history_count s" "cmd_pos s \<le> length (cmd_buffer s)" "cmd_pos s < 256"
    using assms(1) by (auto simp: editor_ok_def)
  have same: "machine_same s s" by (simp add: machine_same_def)
  consider "c = 8" | "c = SPECIAL_KEY_ESC" | "c = SPECIAL_KEY_UP" | "c = SPECIAL_KEY_DOWN"
    | "printable c" "c \<notin> {8, SPECIAL_KEY_ESC, SPECIAL_KEY_UP, SPECIAL_KEY_DOWN}"
    | "\<not> printable c" "c \<notin> {8, SPECIAL_KEY_ESC, SPECIAL_KEY_UP, SPECIAL_KEY_DOWN}" by blast
  then show ?thesis
  proof cases
    case 1
    show ?thesis
    proof (cases "cmd_pos s = 0")
      case True
      then show ?thesis using 1 assms same by (auto simp: shell_process_char_def editor_key_def editor_of_def)
    next
      case False
      let ?s = "s\<lparr>cmd_pos := cmd_pos s - 1, shell_x := shell_x s - 8\<rparr>"
      obtain d where d: "on_display (draw_rect (shell_x ?s) (shell_y ?s) 8 15 0 0x6495ED True) ?s = Some (?s\<lparr>display := d\<rparr>)"
          "framebuffer d = framebuffer (display s)"
        using rect_on_display [of ?s "shell_x ?s" "shell_y ?s" 8 15 0 "0x6495ED" True] assms(1) False
        by (auto simp: editor_ok_def cursor_ok_def)
      have "butlast (take (cmd_pos s) (cmd_buffer s)) = take (cmd_pos s - 1) (cmd_buffer s)"
        using len(2) by (simp add: butlast_take)
      moreover have "set (take (cmd_pos s - 1) (cmd_buffer s)) \<subseteq> set (take (cmd_pos s) (cmd_buffer s))"
        by (simp add: set_take_subset_set_take)
      then have "editor_ok (?s\<lparr>display := d\<rparr>)"
        using assms(1) False d(2) by (auto simp: editor_ok_def cursor_ok_def)
      ultimately show ?thesis
        using 1 False d(1) by (auto simp: shell_process_char_def editor_key_def editor_of_def machine_same_def)
    qed
  next
    case 2
    obtain s' where "clear_command (s\<lparr>history_pos := history_pos s\<rparr>) = Some s'" "editor_ok s'" "machine_same s s'"
        "editor_of s' = (editor_of s)\<lparr>place := history_pos s, line := []\<rparr>"
      using clear_editor [OF assms(1), of "history_pos s"] by auto
    then show ?thesis using 2 by (auto simp: shell_process_char_def editor_key_def SPECIAL_KEY_ESC_def editor_of_def)
  next
    case 3
    then show ?thesis
    proof (cases "0 < history_pos s")
      case False
      then show ?thesis using 3 assms same
        by (auto simp: shell_process_char_def editor_key_def editor_of_def SPECIAL_KEY_ESC_def SPECIAL_KEY_UP_def)
    next
      case True
      then have "history_pos s - 1 < history_count s" using assms(1) by (auto simp: editor_ok_def)
      from recall_editor [OF assms(1) this] show ?thesis
        using 3 True by (auto simp: shell_process_char_def editor_key_def SPECIAL_KEY_ESC_def SPECIAL_KEY_UP_def editor_of_def)
    qed
  next
    case 4
    have past: "length (past (editor_of s)) = history_count s" "place (editor_of s) = history_pos s"
      using len(1) by (simp_all add: editor_of_def)
    consider "history_pos s + 1 < history_count s" | "history_pos s < history_count s" "\<not> history_pos s + 1 < history_count s"
      | "\<not> history_pos s < history_count s" by blast
    then show ?thesis
    proof cases
      case 1
      from recall_editor [OF assms(1) this] show ?thesis
        using 4 1 past by (auto simp: shell_process_char_def editor_key_def SPECIAL_KEY_ESC_def SPECIAL_KEY_UP_def SPECIAL_KEY_DOWN_def)
    next
      case 2
      from clear_editor [OF assms(1), of "history_count s"] show ?thesis
        using 4 2 past by (auto simp: shell_process_char_def editor_key_def SPECIAL_KEY_ESC_def SPECIAL_KEY_UP_def SPECIAL_KEY_DOWN_def)
    next
      case 3
      then show ?thesis
        using 4 past assms same by (auto simp: shell_process_char_def editor_key_def SPECIAL_KEY_ESC_def SPECIAL_KEY_UP_def SPECIAL_KEY_DOWN_def)
    qed
  next
    case 5
    show ?thesis
    proof (cases "cmd_pos s < 255")
      case False
      then show ?thesis using 5 assms same len(2,3)
        by (auto simp: shell_process_char_def editor_key_def editor_of_def SHELL_BUFFER_SIZE_def printable_def min_def)
    next
      case True
      let ?s = "s\<lparr>cmd_buffer := (cmd_buffer s)[cmd_pos s := c], cmd_pos := cmd_pos s + 1\<rparr>"
      obtain fb where fb: "framebuffer (display s) = Some fb" using assms(1) by (auto simp: editor_ok_def cursor_ok_def)
      have "c < 128" using 5(1) by (simp add: printable_def word_less_nat_alt)
      then obtain d where d: "put_char c ?s = Some (?s\<lparr>display := d, shell_x := shell_x ?s + 8\<rparr>)" "framebuffer d = Some fb"
        using put_char_ok [of ?s fb c] assms(1) fb True by (auto simp: editor_ok_def cursor_ok_def)
      have t: "take (Suc (cmd_pos s)) ((cmd_buffer s)[cmd_pos s := c]) = take (cmd_pos s) (cmd_buffer s) @ [c]"
        using True assms(1) by (simp add: editor_ok_def take_Suc_conv_app_nth)
      have "editor_ok (?s\<lparr>display := d, shell_x := shell_x ?s + 8\<rparr>)"
        using assms(1) d(2) True 5(1) t by (auto simp: editor_ok_def cursor_ok_def)
      moreover have "shell_process_char P stack env c s = going_on (put_char c ?s)"
        using 5 assms True by (simp add: shell_process_char_def SHELL_BUFFER_SIZE_def printable_def)
      moreover have "editor_key c (editor_of s) = (editor_of s)\<lparr>line := line (editor_of s) @ [c]\<rparr>"
        using 5 assms True len(2) by (simp add: editor_key_def editor_of_def min_def)
      ultimately show ?thesis
        using d(1) t by (auto simp: editor_of_def machine_same_def)
    qed
  next
    case 6
    then show ?thesis using assms same by (auto simp: shell_process_char_def editor_key_def printable_def)
  qed
qed

section \<open>Properties\<close>

text \<open>
  C18. The line editor refines the abstract editor. From a well-formed state every key but Enter returns without
  touching the disk, the network or the other devices; Enter executes exactly the edited line, on a state with
  unchanged devices and the cursor at the start of a row; and whenever the call comes back, whatever the
  command did, the buffers are well formed, the cursor stands behind the line, and line, history and
  position are those of the abstract editor. No sequence of keys overruns the line or the history.
\<close>

theorem shell_editor_refines:
  assumes "editor_ok s"
  shows "(c \<noteq> 10 \<and> c \<noteq> 13 \<longrightarrow>
      (\<exists>s'. shell_process_char P stack env c s = Some (False, s') \<and> machine_same s s')) \<and>
    (c = 10 \<or> c = 13 \<longrightarrow>
      (\<exists>s1. shell_process_char P stack env c s = finish (shell_execute P stack env (line (editor_of s)) s1) \<and>
        machine_same s s1 \<and> cursor_ok s1 \<and> shell_x s1 = 10)) \<and>
    (\<forall>s'. shell_process_char P stack env c s = Some (False, s') \<longrightarrow>
      editor_ok s' \<and> editor_of s' = editor_key c (editor_of s))"
proof (cases "c = 10 \<or> c = 13")
  case True
  then show ?thesis using enter_executes [OF assms True] enter_result [OF assms True] by blast
next
  case False
  then show ?thesis using key_result [OF assms, of c P stack env] by auto
qed

definition sample_shell :: "sim_disk shell" where
  "sample_shell =
     \<lparr>acpi_available = True, cmd_buffer = replicate 256 0, cmd_pos = 0, history = replicate 16 (replicate 256 0), history_count = 0,
      history_pos = 0, shell_x = 58, shell_y = 50, file_buf = replicate 4096 0,
      display = \<lparr>framebuffer = Some \<lparr>fb_width = 1024, fb_height = 768, fb_pitch = 4096\<rparr>, width = 1024, height = 768, cells = (\<lambda>_. 0)\<rparr>,
      disk = demo, network = tcp_net.truncate sample_net, memory = sample_pmm,
      pci_bus = \<lparr>pci_devices = [], pci_device_count = 0, pci_hw = demo_disk\<rparr>, kbd = keyboard_boot\<rparr>"

lemma sample_shell_ok: "editor_ok sample_shell"
  by (simp add: sample_shell_def editor_ok_def cursor_ok_def)

theorem shell_editor_refines_witness:
  "\<exists>s'. shell_process_char sim_ports [] [] 0x68 sample_shell = Some (False, s') \<and>
    editor_of s' = \<lparr>line = [0x68], past = [], place = 0\<rparr>"
proof -
  have "editor_key 0x68 (editor_of sample_shell) = \<lparr>line = [0x68], past = [], place = 0\<rparr>"
    by (simp add: editor_key_def editor_of_def sample_shell_def printable_def SPECIAL_KEY_ESC_def SPECIAL_KEY_UP_def SPECIAL_KEY_DOWN_def)
  then show ?thesis
    using shell_editor_refines [OF sample_shell_ok, of "0x68" sim_ports "[]" "[]"] by auto
qed

end
