(* ===== verification/Graphic_Text.thy ===== *)
theory Graphic_Text
  imports Graphic
begin

text \<open>
  Text on the screen: the numbers \<^verbatim>\<open>utoa_padded\<close> writes, the agreement of the two format interpreters of the kernel on
  plain conversions, and the pointers that lose their upper half.
\<close>

section \<open>Text of numbers\<close>

lemma length_font: "length font = 128"
  by (simp add: font_def)

lemma digit_char:
  fixes d :: u32
  assumes "unat d < 16"
  shows "(if d < 10 then chr CHR ''0'' + ucast d else chr CHR ''a'' + ucast d - 10) = digit_table ! unat d"
proof -
  have u: "(of_nat (unat d) :: u8) = ucast d" by (simp add: of_nat_unat)
  have lt: "d < 10 \<longleftrightarrow> unat d < 10" by (simp add: word_less_nat_alt)
  show ?thesis
    using digit_table_nth [of "unat d"] assms by (cases "unat d < 10") (simp_all add: lt u)
qed

lemma utoa_digits_text:
  assumes "2 \<le> unat base" and "unat base \<le> 16" and "v \<noteq> 0"
  shows "utoa_digits base v temp = Some (temp @ map ((!) digit_table) (rdigits (unat base) (unat v)))"
  using assms(3)
proof (induction "unat v" arbitrary: v temp rule: less_induct)
  case less
  have "unat v mod unat base < 16" using assms mod_less_divisor [of "unat base" "unat v"] by linarith
  then have c: "(if v mod base < 10 then chr CHR ''0'' + ucast (v mod base) else chr CHR ''a'' + ucast (v mod base) - 10) =
      digit_table ! (unat v mod unat base)"
    using digit_char [of "v mod base"] by (simp add: unat_mod)
  have "base \<noteq> 0" using assms by auto
  moreover have q: "v div base = 0 \<longleftrightarrow> unat v < unat base"
    using assms by (simp add: word_unat_eq_iff unat_div div_eq_0_iff)
  moreover have "0 < v" using less.prems by (simp add: word_neq_0_conv)
  moreover have "utoa_digits base 0 temp = Some temp" for temp by (subst utoa_digits.simps) simp
  moreover have "utoa_digits base (v div base) p =
      Some (p @ map ((!) digit_table) (rdigits (unat base) (unat v div unat base)))" if "\<not> unat v < unat base" for p
    using less.hyps [of "v div base" p] that assms q by (simp add: unat_div)
  ultimately show ?case
    using assms c by (subst utoa_digits.simps, subst rdigits.simps) (auto simp: Let_def)
qed

lemma utoa_padded_text:
  assumes "2 \<le> unat base" and "unat base \<le> 16" and "length (number_text (unat base) (unat v)) < 32" and "w < 32"
  shows "utoa_padded v base w pad =
    Some (replicate (w - length (number_text (unat base) (unat v))) pad @ number_text (unat base) (unat v))"
proof -
  have z: "number_text (unat base) 0 = [48]"
    using assms(1) digit_table_nth(1) [of 0] by (simp add: number_text_def rdigits.simps)
  show ?thesis
  proof (cases "v = 0")
    case True
    then show ?thesis using z assms(4) by (auto simp: utoa_padded_def Let_def max_def)
  next
    case False
    then show ?thesis using utoa_digits_text [OF assms(1,2) False, of "[]"] assms(3,4)
      by (auto simp: utoa_padded_def Let_def number_text_def rev_map)
  qed
qed

lemma length_u32_text: "length (number_text 10 (unat v)) \<le> 10" "length (number_text 16 (unat v)) \<le> 8" for v :: u32
  using length_number_text [of 10 "unat v" 9] length_number_text [of 16 "unat v" 7] unsigned_less [of v, where ?'a = nat]
  by simp_all

lemma utoa_decimal: "w < 32 \<Longrightarrow> utoa_padded v 10 w pad =
    Some (replicate (w - length (number_text 10 (unat v))) pad @ number_text 10 (unat v))"
  and utoa_hex: "w < 32 \<Longrightarrow> utoa_padded v 16 w pad =
    Some (replicate (w - length (number_text 16 (unat v))) pad @ number_text 16 (unat v))"
  using utoa_padded_text [of 10 v w pad] utoa_padded_text [of 16 v w pad] length_u32_text [of v] by simp_all

section \<open>The two interpreters\<close>

text \<open>Conversions without flags, widths and length modifiers, and the arguments both interpreters treat alike.\<close>

fun plain_piece :: "piece \<Rightarrow> bool" where
  "plain_piece (Lit c) \<longleftrightarrow> c \<noteq> chr CHR ''%''"
| "plain_piece (Conv left zero w wide c) \<longleftrightarrow>
     \<not> left \<and> \<not> zero \<and> w = 0 \<and> \<not> wide \<and>
     c \<in> {chr CHR ''d'', chr CHR ''u'', chr CHR ''x'', chr CHR ''s'', chr CHR ''c'', chr CHR ''%''}"

fun plain_arg :: "va_arg \<Rightarrow> bool" where
  "plain_arg (Word_Arg w) \<longleftrightarrow> sint (ucast w :: u32) \<noteq> - (2 ^ 31)"
| "plain_arg (Str_Arg str) \<longleftrightarrow> str \<noteq> None"

lemma unsigned_arg_text: "debug_ultoa (unsigned_arg False w) 10 = Some (number_text 10 (unat (ucast w :: u32)))"
  "debug_ultoa (unsigned_arg False w) 16 = Some (number_text 16 (unat (ucast w :: u32)))"
proof -
  have "unat (unsigned_arg False w) = unat (ucast w :: u32)"
    by (simp add: unat_unsigned_arg unsigned_ucast_eq take_bit_eq_mod)
  then show "debug_ultoa (unsigned_arg False w) 10 = Some (number_text 10 (unat (ucast w :: u32)))"
    "debug_ultoa (unsigned_arg False w) 16 = Some (number_text 16 (unat (ucast w :: u32)))"
    using debug_ultoa_text [of 10 "unsigned_arg False w"] debug_ultoa_text [of 16 "unsigned_arg False w"] by simp_all
qed

lemma plain_conv:
  assumes "plain_piece (Conv False False 0 False c)" and "\<forall>a \<in> set args. plain_arg a"
  shows "print_conv 0 (chr CHR '' '') (c # rest) args =
    map_option (\<lambda>(out, as). (out, rest, as)) (convert False False 0 False c args)"
proof -
  have d: "debug_print_padded b 0 p False = b" for b p by (simp add: debug_print_padded_def)
  have signed: "utoa_padded (of_int \<bar>v\<bar>) 10 0 (chr CHR '' '') = Some (number_text 10 (nat \<bar>v\<bar>))" and
    dbg: "debug_ltoa v 10 = Some (if v < 0 then chr CHR ''-'' # number_text 10 (nat (- v)) else number_text 10 (nat v))"
    if "v = sint (ucast w :: u32)" "v \<noteq> - (2 ^ 31)" for v w
  proof -
    have "\<bar>v\<bar> < 2 ^ 31" using that sint_lt [of "ucast w :: u32"] sint_ge [of "ucast w :: u32"] by simp
    then have "unat (of_int \<bar>v\<bar> :: u32) = nat \<bar>v\<bar>" by (simp add: unat_eq_nat_uint uint_word_of_int)
    then show "utoa_padded (of_int \<bar>v\<bar>) 10 0 (chr CHR '' '') = Some (number_text 10 (nat \<bar>v\<bar>))" by (simp add: utoa_decimal)
    show "debug_ltoa v 10 = Some (if v < 0 then chr CHR ''-'' # number_text 10 (nat (- v)) else number_text 10 (nat v))"
      using \<open>\<bar>v\<bar> < 2 ^ 31\<close> by (intro debug_ltoa_text) simp
  qed
  show ?thesis
  proof (cases args)
    case Nil
    then show ?thesis using assms(1) by (auto simp: print_conv_def convert_def)
  next
    case (Cons a as)
    show ?thesis
    proof (cases a)
      case (Word_Arg w)
      define v where "v = sint (ucast w :: u32)"
      have v: "v \<noteq> - (2 ^ 31)" using Word_Arg assms(2) Cons by (simp add: v_def)
      show ?thesis
      proof (cases "c = chr CHR ''d''")
        case True
        have "print_conv 0 (chr CHR '' '') (c # rest) args =
            Some ((if v < 0 then [chr CHR ''-''] else []) @ number_text 10 (nat \<bar>v\<bar>), rest, as)"
          using signed [OF v_def v] v by (simp add: print_conv_def Cons Word_Arg True Let_def v_def [symmetric])
        moreover have "convert False False 0 False c args =
            Some ((if v < 0 then [chr CHR ''-''] else []) @ number_text 10 (nat \<bar>v\<bar>), as)"
          using dbg [OF v_def v] by (simp add: convert_def Cons Word_Arg True Let_def signed_arg_def d v_def [symmetric])
        ultimately show ?thesis by simp
      next
        case False
        then show ?thesis using assms(1) Cons Word_Arg
          by (auto simp: print_conv_def convert_def d utoa_decimal utoa_hex unsigned_arg_text)
      qed
    next
      case (Str_Arg str)
      then obtain b where "str = Some b" using assms(2) Cons by auto
      then show ?thesis using assms(1) Cons Str_Arg by (auto simp: print_conv_def convert_def d)
    qed
  qed
qed

lemma convert_plain_args:
  "convert l z w wide c args = Some (out, as) \<Longrightarrow> \<forall>a \<in> set args. plain_arg a \<Longrightarrow> \<forall>a \<in> set as. plain_arg a"
  by (auto simp: convert_def Let_def split: list.splits va_arg.splits if_splits)

text \<open>
  C26. The two format interpreters agree. On every format of literal characters and the plain conversions for signed,
  unsigned and hexadecimal numbers, strings, characters and the percent sign, the text for the screen is
  the text for the debug console, for all arguments but null strings and the least integer.
\<close>

theorem print_interpreters_agree:
  assumes "\<forall>p \<in> set ps. plain_piece p" and "\<forall>a \<in> set args. plain_arg a"
  shows "vsprintf (concat (map piece_text ps)) args = format_output (concat (map piece_text ps)) args"
  using assms
proof (induction ps arbitrary: args)
  case (Cons p ps)
  let ?r = "concat (map piece_text ps)"
  show ?case
  proof (cases p)
    case (Lit c)
    then show ?thesis using Cons by simp
  next
    case (Conv left zero w wide c)
    then have c: "left = False" "zero = False" "w = 0" "wide = False" "plain_piece (Conv False False 0 False c)"
      using Cons.prems by simp_all
    have t: "concat (map piece_text (p # ps)) = chr CHR ''%'' # c # ?r" using Conv c by simp
    have "piece_ok (Conv False False 0 False c)" using c(5) by (auto simp: is_flag_def is_digit_def)
    from parse_spec_text [OF this, of ?r] have f: "format_output (chr CHR ''%'' # c # ?r) args =
        (case convert False False 0 False c args of
           None \<Rightarrow> None | Some (out, as) \<Rightarrow> map_option (\<lambda>later. out @ later) (format_output ?r as))"
      by (intro format_output_conv) simp_all
    have "parse_field (c # ?r) = (chr CHR '' '', 0, c # ?r)" using c(5) by (auto simp: parse_field_def is_digit_def)
    moreover have "fits_int (int 0)" by (simp add: fits_int_def)
    ultimately have v: "vsprintf (chr CHR ''%'' # c # ?r) args =
        (case convert False False 0 False c args of
           None \<Rightarrow> None | Some (out, as) \<Rightarrow> map_option (\<lambda>later. out @ later) (vsprintf ?r as))"
      using plain_conv [OF c(5), of args ?r] Cons.prems by (auto split: option.split)
    show ?thesis
      unfolding t f v using Cons convert_plain_args by (auto split: option.split)
  qed
qed simp

theorem print_interpreters_agree_witness:
  "vsprintf (cstr ''MAC %x!'') [Word_Arg 255] = format_output (cstr ''MAC %x!'') [Word_Arg 255]"
proof -
  let ?ps = "[Lit 77, Lit 65, Lit 67, Lit 32, Conv False False 0 False 120, Lit 33]"
  have "concat (map piece_text ?ps) = cstr ''MAC %x!''" by (simp add: cstr_def)
  then show ?thesis using print_interpreters_agree [of ?ps "[Word_Arg 255]"] by simp
qed

text \<open>
  Pointers and long numbers pass through an \<^verbatim>\<open>unsigned int\<close>: two pointers that differ in their upper half only print alike.
\<close>

theorem pointer_text_truncated:
  assumes "(ucast v :: u32) = ucast w"
  shows "vsprintf (cstr ''%p'') [Word_Arg v] = vsprintf (cstr ''%p'') [Word_Arg w]"
    "vsprintf (cstr ''%lx'') [Word_Arg v] = vsprintf (cstr ''%lx'') [Word_Arg w]"
  using assms by (simp_all add: cstr_def parse_field_def is_digit_def print_conv_def)

end
