(* ===== verification/Shell_Files.thy ===== *)
theory Shell_Files
  imports Shell_Editor Graphic_Text Fat16_Create
begin

text \<open>
  The shell, the file system, the disk driver and the screen together: what \<^verbatim>\<open>write\<close> puts into a file \<^verbatim>\<open>cat\<close> prints, and what
  the command line parser of \<^verbatim>\<open>write\<close> gets wrong.
\<close>

section \<open>Printing returns\<close>

definition plain_text :: "u8 list \<Rightarrow> bool" where
  "plain_text str \<longleftrightarrow> (\<forall>c \<in> set str. c < 128 \<and> c \<noteq> 10)"

lemma print_ok:
  assumes "cursor_ok s" and "plain_text str" and "shell_x s + 8 * int (length str) < 2 ^ 20"
  shows "\<exists>d. shell_print str s = Some (s\<lparr>display := d, shell_x := shell_x s + 8 * int (length str)\<rparr>) \<and> framebuffer d \<noteq> None"
proof -
  obtain fb where fb: "framebuffer (display s) = Some fb" using assms(1) by (auto simp: cursor_ok_def)
  have "shell_print str s = fold_opt put_char str s"
    unfolding shell_print_def using assms(2) by (intro fold_opt_cong) (simp add: print_char_def plain_text_def)
  moreover obtain d where "fold_opt put_char str s = Some (s\<lparr>display := d, shell_x := shell_x s + 8 * int (length str)\<rparr>)"
      "framebuffer d = Some fb"
    using put_chars_ok [OF fb, of str] assms by (auto simp: cursor_ok_def plain_text_def)
  ultimately show ?thesis by auto
qed

lemma newline_char_ok:
  assumes "cursor_ok s"
  shows "\<exists>d y. print_char 10 s = Some (s\<lparr>shell_x := 10, shell_y := y, display := d\<rparr>)"
proof (cases "max_y \<le> shell_y s + line_height")
  case True
  let ?s = "s\<lparr>shell_x := 10, shell_y := shell_start_y\<rparr>"
  obtain d where "on_display (draw_rect 10 (shell_y ?s) 780 line_height 0 0x6495ED True) ?s = Some (?s\<lparr>display := d\<rparr>)"
    using rect_on_display [of ?s 10 "shell_y ?s" 780 line_height 0 "0x6495ED" True] assms
    by (auto simp: cursor_ok_def shell_start_y_def line_height_def)
  then show ?thesis using True by (intro exI [of _ d] exI [of _ shell_start_y]) (simp add: print_char_def Let_def)
next
  case False
  then show ?thesis
    by (intro exI [of _ "display s"] exI [of _ "shell_y s + line_height"]) (simp add: print_char_def Let_def)
qed

lemma println_ok:
  assumes "cursor_ok s" and "plain_text str" and "shell_x s + 8 * int (length str) < 2 ^ 20"
  shows "\<exists>s'. shell_println str s = Some s' \<and> line_done s s' \<and> disk s' = disk s \<and> file_buf s' = file_buf s"
proof -
  obtain d where d: "shell_print str s = Some (s\<lparr>display := d, shell_x := shell_x s + 8 * int (length str)\<rparr>)" "framebuffer d \<noteq> None"
    using print_ok [OF assms] by blast
  let ?s = "s\<lparr>display := d, shell_x := shell_x s + 8 * int (length str)\<rparr>"
  have "cursor_ok ?s" using assms(1) d(2) by (simp add: cursor_ok_def)
  then obtain e y where "print_char 10 ?s = Some (?s\<lparr>shell_x := 10, shell_y := y, display := e\<rparr>)" using newline_char_ok by blast
  then have p: "shell_println str s = Some (?s\<lparr>shell_x := 10, shell_y := y, display := e\<rparr>)"
    using d(1) by (simp add: shell_println_def shell_print_def)
  show ?thesis using shell_println_done [OF p assms(1)] p by simp
qed

lemma plain_append [simp]: "plain_text (a @ b) \<longleftrightarrow> plain_text a \<and> plain_text b"
  by (auto simp: plain_text_def)

lemma printable_plain: "\<forall>c \<in> set str. printable c \<Longrightarrow> plain_text str"
  by (auto simp: plain_text_def printable_def word_less_nat_alt word_le_nat_alt)

lemma printable_no_0: "\<forall>c \<in> set str. printable c \<Longrightarrow> 0 \<notin> set str"
  by (auto simp: printable_def)

lemma number_text_printable: "c \<in> set (number_text 10 n) \<Longrightarrow> printable c"
  using number_text_digits [of c n] by (auto simp: is_digit_def printable_def word_less_nat_alt word_le_nat_alt)

lemma wrote_text:
  "vsprintf (cstr ''Wrote %u bytes to %s'') [Word_Arg w, Str_Arg (Some n)] =
     Some (cstr ''Wrote '' @ number_text 10 (unat (ucast w :: u32)) @ cstr '' bytes to '' @ n)"
  by (simp add: cstr_def parse_field_def is_digit_def print_conv_def utoa_decimal fits_int_def)

lemma c_string_id: "0 \<notin> set bs \<Longrightarrow> c_string bs = bs"
  by (auto simp: c_string_def takeWhile_eq_all_conv)

lemma wrote_line:
  assumes "cursor_ok s" and "shell_x s = 10" and "\<forall>c \<in> set n. printable c" and "length n \<le> 12"
  shows "\<exists>s'. format_line 64 ''Wrote %u bytes to %s'' [Word_Arg w, Str_Arg (Some n)] s = Some s' \<and>
    line_done s s' \<and> disk s' = disk s \<and> file_buf s' = file_buf s"
proof -
  let ?t = "cstr ''Wrote '' @ number_text 10 (unat (ucast w :: u32)) @ cstr '' bytes to '' @ n"
  have p: "\<forall>c \<in> set ?t. printable c"
    using assms(3) number_text_printable by (auto simp: cstr_def printable_def)
  have len: "length ?t \<le> 38" using assms(4) length_u32_text(1) [of "ucast w"] by (simp add: cstr_def)
  then have "format_line 64 ''Wrote %u bytes to %s'' [Word_Arg w, Str_Arg (Some n)] s = shell_println ?t s"
    using c_string_id [OF printable_no_0 [OF p]] by (simp add: format_line_def kprintf_to_buffer_def wrote_text)
  then show ?thesis using println_ok [OF assms(1) printable_plain [OF p]] len assms(2) by simp
qed

section \<open>The two command lines\<close>

lemma strcmp_prefix:
  "shell_strncmp (w @ r) w (length w) = 0"
  by (induction w) (simp_all del: length_Cons add: length_Cons)

lemma strncmp_differs: "a \<noteq> b \<Longrightarrow> 0 < n \<Longrightarrow> shell_strncmp (a # as) (b # bs) n \<noteq> 0"
  by (cases n) (simp_all add: word_uint_eq_iff)

lemma execute_write:
  "shell_execute P stack env (cstr ''write '' @ args) s = going_on (cmd_write P (32 # args) s)"
proof -
  have s: "skip_spaces (cstr ''write '' @ args) = cstr ''write '' @ args" "cstr ''write '' @ args \<noteq> []"
    "drop 5 (cstr ''write '' @ args) = 32 # args" by (simp_all add: cstr_def)
  have len: "length (cstr ''write '') = 6" by (simp add: cstr_def)
  have w: "shell_strncmp (cstr ''write '' @ args) (cstr ''write '') 6 = 0"
    using strcmp_prefix [of "cstr ''write ''" args] by (simp only: len)
  have n: "shell_strcmp (cstr ''write '' @ args) (cstr ''help'') \<noteq> 0"
    "shell_strcmp (cstr ''write '' @ args) (cstr ''clear'') \<noteq> 0"
    "shell_strcmp (cstr ''write '' @ args) (cstr ''mem'') \<noteq> 0"
    "shell_strcmp (cstr ''write '' @ args) (cstr ''pci'') \<noteq> 0"
    "shell_strcmp (cstr ''write '' @ args) (cstr ''net'') \<noteq> 0"
    "shell_strcmp (cstr ''write '' @ args) (cstr ''arp'') \<noteq> 0"
    "shell_strcmp (cstr ''write '' @ args) (cstr ''uptime'') \<noteq> 0"
    "shell_strcmp (cstr ''write '' @ args) (cstr ''ping'') \<noteq> 0"
    "shell_strcmp (cstr ''write '' @ args) (cstr ''ls'') \<noteq> 0"
    "shell_strcmp (cstr ''write '' @ args) (cstr ''cat'') \<noteq> 0"
    by (simp_all add: cstr_def)
  have m: "shell_strncmp (cstr ''write '' @ args) (cstr ''ping '') 5 \<noteq> 0"
    "shell_strncmp (cstr ''write '' @ args) (cstr ''cat '') 4 \<noteq> 0"
    unfolding cstr_def list.map append_Cons by (rule strncmp_differs; simp)+
  show ?thesis
    unfolding shell_execute_def Let_def s using n m w by (simp only: s if_False if_True simp_thms)
qed

lemma execute_cat:
  "shell_execute P stack env (cstr ''cat '' @ args) s = going_on (cmd_cat P (32 # args) s)"
proof -
  have s: "skip_spaces (cstr ''cat '' @ args) = cstr ''cat '' @ args" "cstr ''cat '' @ args \<noteq> []"
    "drop 3 (cstr ''cat '' @ args) = 32 # args" by (simp_all add: cstr_def)
  have len: "length (cstr ''cat '') = 4" by (simp add: cstr_def)
  have w: "shell_strncmp (cstr ''cat '' @ args) (cstr ''cat '') 4 = 0"
    using strcmp_prefix [of "cstr ''cat ''" args] by (simp only: len)
  have n: "shell_strcmp (cstr ''cat '' @ args) (cstr ''help'') \<noteq> 0"
    "shell_strcmp (cstr ''cat '' @ args) (cstr ''clear'') \<noteq> 0"
    "shell_strcmp (cstr ''cat '' @ args) (cstr ''mem'') \<noteq> 0"
    "shell_strcmp (cstr ''cat '' @ args) (cstr ''pci'') \<noteq> 0"
    "shell_strcmp (cstr ''cat '' @ args) (cstr ''net'') \<noteq> 0"
    "shell_strcmp (cstr ''cat '' @ args) (cstr ''arp'') \<noteq> 0"
    "shell_strcmp (cstr ''cat '' @ args) (cstr ''uptime'') \<noteq> 0"
    "shell_strcmp (cstr ''cat '' @ args) (cstr ''ping'') \<noteq> 0"
    "shell_strcmp (cstr ''cat '' @ args) (cstr ''ls'') \<noteq> 0"
    by (simp_all add: cstr_def)
  have m: "shell_strncmp (cstr ''cat '' @ args) (cstr ''ping '') 5 \<noteq> 0"
    unfolding cstr_def list.map append_Cons by (rule strncmp_differs; simp)+
  show ?thesis
    unfolding shell_execute_def Let_def s using n m w by (simp only: s if_False if_True simp_thms)
qed

lemma length_short_name:
  assumes "short_name n"
  shows "length n \<le> 12"
proof -
  define b x where "b = base_part n" and "x = ext_part n"
  have "length n = length b + (if x = [] then 0 else Suc (length x))"
    using arg_cong [OF short_name_split [OF assms], of length] unfolding b_def [symmetric] x_def [symmetric] by (auto split: if_splits)
  moreover have "length b \<le> 8" "length x \<le> 3" using assms by (simp_all add: short_name_def b_def x_def)
  ultimately show ?thesis by (auto split: if_splits)
qed

section \<open>Parsing and writing\<close>

definition file_name :: "u8 list \<Rightarrow> bool" where
  "file_name n \<longleftrightarrow> short_name n \<and> (\<forall>c \<in> set n. printable c \<and> \<not> is_quote c)"

definition text_ok :: "u8 list \<Rightarrow> bool" where
  "text_ok body \<longleftrightarrow> body \<noteq> [] \<and> length body \<le> 255 \<and> (\<forall>c \<in> set body. printable c) \<and> hd body \<noteq> 32 \<and> \<not> is_quote (hd body)"

lemma file_name_ne:
  assumes "file_name n"
  obtains c cs where "n = c # cs" "c \<noteq> 32" "\<not> is_quote c"
proof (cases n)
  case Nil
  then show ?thesis using assms by (simp add: file_name_def short_name_def base_part_def)
next
  case (Cons c cs)
  then show ?thesis using assms that by (auto simp: file_name_def short_name_def)
qed

lemma skip_name:
  assumes "file_name n"
  shows "skip_spaces (32 # n @ r) = n @ r"
  using file_name_ne [OF assms] by fastforce

lemma write_parse_name:
  assumes "file_name n" and "text_ok body"
  shows "write_parse (n @ 32 # body) = (n, body)" and "write_content body = body"
proof -
  obtain c cs where n: "n = c # cs" "\<not> is_quote c" using file_name_ne [OF assms(1)] by blast
  have "takeWhile (\<lambda>c. c \<noteq> chr CHR '' '' \<and> \<not> is_quote c) (n @ 32 # body) = n"
    using assms(1) by (subst takeWhile_append2) (auto simp: file_name_def short_name_def)
  then have len: "name_length (n @ 32 # body) = length n"
    using assms(1) length_short_name [of n] by (simp add: name_length_def file_name_def)
  obtain a ts where a: "body = a # ts" "a \<noteq> 32" "\<not> is_quote a" using assms(2) by (cases body) (auto simp: text_ok_def)
  then have "dropWhile (\<lambda>c. is_quote c \<or> c = chr CHR '' '') (32 # body) = body" by simp
  then show "write_parse (n @ 32 # body) = (n, body)"
    using n len unfolding write_parse_def Let_def by simp
  show "write_content body = body" using a by (simp add: write_content_def)
qed

lemma find_again:
  assumes "fs_ok P ready content d" and "mounted (fs d)" and "fs_ok P ready content d'" and "fs d' = fs d" and "content (hw d') = content (hw d)"
  shows "fst (fat16_find_file P n d') = fst (fat16_find_file P n d)"
proof -
  have m: "mounted (fs d')" using assms(2,4) by simp
  have "root_sectors content d' = root_sectors content d" using assms(4,5) by (simp add: root_sectors_def fun_eq_iff)
  then show ?thesis
    using find_file_ok [OF assms(1,2), of n "fst (fat16_find_file P n d') = fst (fat16_find_file P n d)"]
      find_file_ok [OF assms(3) m, of n "fst (fat16_find_file P n d') = fst (fat16_find_file P n d)"] assms(4)
    by (metis fst_conv)
qed

text \<open>What \<^verbatim>\<open>write\<close> leaves: a full directory, a full disk, or a file that reads back as the text.\<close>

definition no_slot :: "('d \<Rightarrow> u32 \<Rightarrow> u8 list) \<Rightarrow> 'd fat16 \<Rightarrow> bool" where
  "no_slot content d \<longleftrightarrow> (\<forall>i < unat (root_dir_sectors (fs d)). \<forall>j < 16. \<not> free_slot (root_sectors content d i) j)"

definition no_cluster :: "('d \<Rightarrow> u32 \<Rightarrow> u8 list) \<Rightarrow> fat16_fs_t \<Rightarrow> 'd fat16 \<Rightarrow> bool" where
  "no_cluster content f d \<longleftrightarrow> (\<forall>c. valid_cluster f c \<longrightarrow> entry_of content d c \<noteq> FAT16_FREE)"

lemma write_text_ok:
  assumes "fs_ok P ready content (disk s)" and "mounted (fs (disk s))" and "cursor_ok s" and "shell_x s = 10"
    and "file_name n" and "text_ok body"
    and "\<And>e. fst (fat16_find_file P n (disk s)) = (0, Some e) \<Longrightarrow> attr e AND FAT_ATTR_DIRECTORY = 0"
  shows "\<exists>s1. write_text P n body s = Some s1 \<and> line_done s s1 \<and> file_buf s1 = file_buf s \<and> fs_ok P ready content (disk s1) \<and>
    (no_slot content (disk s) \<or> no_cluster content (fs (disk s)) (disk s1) \<or>
     (\<exists>d. fat16_read_file P n 4095 (disk s1) = Some ((int (length body), body), d)))"
proof -
  obtain d1 where d1: "fat16_find_file P n (disk s) =
      ((case dir_search lfn_or_label n (root_sectors content (disk s)) (dir_range (disk s)) of
          None \<Rightarrow> (- 1, None)
        | Some (i, j) \<Rightarrow> (0, Some (dir_entry_at (root_sectors content (disk s) i) j))), d1)"
    "fs_ok P ready content d1" "fs d1 = fs (disk s)" "content (hw d1) = content (hw (disk s))"
    by (rule find_file_ok [OF assms(1,2), of n])
  note again = find_again [OF assms(1,2) d1(2-4), of n]
  have m1: "mounted (fs d1)" using assms(2) d1(3) by simp
  have short: "short_name n" "length n \<le> 12" "\<forall>c \<in> set n. printable c" using assms(5) length_short_name by (auto simp: file_name_def)
  have len: "length body < 2 ^ 31" "length body \<le> 4095" using assms(6) by (auto simp: text_ok_def)
  have line: "\<exists>s'. shell_println (cstr str) (s\<lparr>disk := d\<rparr>) = Some s' \<and> line_done s s' \<and> disk s' = d \<and> file_buf s' = file_buf s"
    if "plain_text (cstr str)" "length str < 100" for str d
    using println_ok [of "s\<lparr>disk := d\<rparr>" "cstr str"] assms(3,4) that by (auto simp: keeps_update line_done_update cstr_def)
  have store: "\<exists>s1. (case fat16_write_file P n body d2 of
        None \<Rightarrow> None
      | Some (w, d) \<Rightarrow> if w < 0 then shell_println (cstr ''Failed to write file'') (s\<lparr>disk := d\<rparr>)
          else format_line 64 ''Wrote %u bytes to %s'' [Word_Arg (of_nat (length body)), Str_Arg (Some n)] (s\<lparr>disk := d\<rparr>)) = Some s1 \<and>
      line_done s s1 \<and> file_buf s1 = file_buf s \<and> fs_ok P ready content (disk s1) \<and>
      (no_cluster content (fs d2) (disk s1) \<or> (\<exists>d. fat16_read_file P n 4095 (disk s1) = Some ((int (length body), body), d)))"
    if d2: "fs_ok P ready content d2" "mounted (fs d2)" "fst (fat16_find_file P n d2) = (0, Some e)" "attr e AND FAT_ATTR_DIRECTORY = 0" for d2 e
  proof -
    obtain r d3 where w: "fat16_write_file P n body d2 = Some (r, d3)" "fs_ok P ready content d3"
        "r = - 1 \<and> no_cluster content (fs d2) d3 \<or>
         r = int (length body) \<and> (\<exists>d. fat16_read_file P n 4095 d3 = Some ((int (length body), body), d))"
      using write_then_read [OF d2 len] unfolding no_cluster_def by blast
    show ?thesis
    proof (cases "r < 0")
      case True
      then have "no_cluster content (fs d2) d3" using w(3) by auto
      then show ?thesis using line [of "''Failed to write file''" d3] w(1,2) True by (auto simp: plain_text_def cstr_def)
    next
      case False
      obtain s' where "format_line 64 ''Wrote %u bytes to %s'' [Word_Arg (of_nat (length body)), Str_Arg (Some n)] (s\<lparr>disk := d3\<rparr>) = Some s'"
          "line_done s s'" "disk s' = d3" "file_buf s' = file_buf s"
        using wrote_line [of "s\<lparr>disk := d3\<rparr>" n] assms(3,4) short by (auto simp: keeps_update line_done_update)
      then show ?thesis using w False by auto
    qed
  qed
  have bind: "write_text P n body s =
      (case (if fst (fst (fat16_find_file P n (disk s))) < 0 then fat16_create_file P n d1 else (0, d1)) of
         (created, d2) \<Rightarrow>
           if created < 0 then shell_println (cstr ''Failed to create file'') (s\<lparr>disk := d2\<rparr>)
           else (case fat16_write_file P n body d2 of
                   None \<Rightarrow> None
                 | Some (w, d) \<Rightarrow> if w < 0 then shell_println (cstr ''Failed to write file'') (s\<lparr>disk := d\<rparr>)
                     else format_line 64 ''Wrote %u bytes to %s'' [Word_Arg (of_nat (length body)), Str_Arg (Some n)] (s\<lparr>disk := d\<rparr>)))"
    unfolding write_text_def d1(1) by (simp add: Option.bind_def split: prod.split option.split)
  show ?thesis
  proof (cases "dir_search lfn_or_label n (root_sectors content (disk s)) (dir_range (disk s))")
    case (Some x)
    then obtain e where e: "fst (fat16_find_file P n (disk s)) = (0, Some e)" by (cases x) (simp add: d1(1))
    then have "fst (fat16_find_file P n d1) = (0, Some e)" using again by simp
    from store [OF d1(2) m1 this assms(7) [OF e]] show ?thesis unfolding bind e d1(3) by auto
  next
    case None
    then have nf: "fst (fat16_find_file P n (disk s)) = (- 1, None)" by (simp add: d1(1))
    obtain r d2 where c: "fat16_create_file P n d1 = (r, d2)" "fs_ok P ready content d2"
        "r = - 1 \<and> (fst (fst (fat16_find_file P n d1)) = 0 \<or> no_slot content d1) \<or>
         r = 0 \<and> (\<exists>e. fst (fat16_find_file P n d2) = (0, Some e) \<and> attr e = FAT_ATTR_ARCHIVE)"
      using create_outcome [OF d1(2) m1 short(1)] unfolding no_slot_def by blast
    have same: "no_slot content d1 = no_slot content (disk s)" using d1(3,4) by (simp add: no_slot_def root_sectors_def)
    show ?thesis
    proof (cases "r < 0")
      case True
      then have "no_slot content (disk s)" using c(3) again nf same by auto
      then show ?thesis
        using line [of "''Failed to create file''" d2] True c(1,2) nf unfolding bind by (auto simp: plain_text_def cstr_def)
    next
      case False
      then obtain e where e: "fst (fat16_find_file P n d2) = (0, Some e)" "attr e = FAT_ATTR_ARCHIVE" "r = 0" using c(3) by auto
      have "attr e AND FAT_ATTR_DIRECTORY = 0" using e(2) by (simp add: FAT_ATTR_ARCHIVE_def FAT_ATTR_DIRECTORY_def)
      moreover have f2: "fs d2 = fs (disk s)"
        using create_keeps [OF d1(2) m1, of n] c(1) d1(3) by simp
      moreover have "mounted (fs d2)" using f2 assms(2) by simp
      ultimately show ?thesis using store [OF c(2) _ e(1)] c(1) e(3) nf unfolding bind by auto
    qed
  qed
qed

lemma cat_lines_single:
  assumes "\<forall>c \<in> set cs. c \<noteq> 10 \<and> c \<noteq> 13" and "length row + length cs \<le> 255" and "row @ cs \<noteq> []"
  shows "cat_lines cs row s = shell_println (row @ cs) s"
  using assms
proof (induction cs arbitrary: row)
  case (Cons c cs)
  then have "cat_lines (c # cs) row s = cat_lines cs (row @ [c]) s" by simp
  also have "\<dots> = shell_println ((row @ [c]) @ cs) s" using Cons.prems by (intro Cons.IH) auto
  finally show ?case by simp
qed simp

lemma cat_file_ok:
  assumes "fat16_read_file P n 4095 (disk s) = Some ((int (length body), body), d)" and "text_ok body"
    and "length (file_buf s) = 4096"
  shows "\<exists>b. cat_file P n s = shell_println body (s\<lparr>disk := d, file_buf := b\<rparr>)"
proof -
  let ?b = "(write_prefix body (file_buf s))[length body := 0]"
  have len: "length body < 4096" "length body \<le> 255" and ne: "body \<noteq> []" using assms(2) by (auto simp: text_ok_def)
  have p: "\<forall>c \<in> set body. printable c" using assms(2) by (simp add: text_ok_def)
  have "take (length body) (write_prefix body (file_buf s)) = body" by (simp add: write_prefix_def)
  then have "c_string ?b = body"
    using c_string_terminated [of "length body" "write_prefix body (file_buf s)"] p printable_0 len assms(3)
    by (auto simp: write_prefix_def)
  moreover have "\<forall>c \<in> set body. c \<noteq> 10 \<and> c \<noteq> 13" using p by (auto simp: printable_def)
  ultimately have "cat_lines (c_string ?b) [] s' = shell_println body s'" for s'
    using cat_lines_single [of body "[]" s'] len(2) ne by simp
  then show ?thesis using assms(1) by (intro exI [of _ ?b]) (simp add: cat_file_def Let_def)
qed

section \<open>Properties\<close>

text \<open>
  C19. What is written is shown. On a mounted well-formed volume the command line \<open>write NAME TEXT\<close>, for an 8.3
  name that is not a directory and one to 255 printable characters of which the first is neither a space nor a quotation mark (the
  command skips both before the text, so a quoted text loses its opening mark at shell.c:308), always returns to the prompt and keeps
  the volume well-formed. Unless the directory or the disk is full, the line \<open>cat NAME\<close> then prints exactly
  the text, as one line, and returns.
\<close>

theorem shell_write_cat:
  assumes "fs_ok P ready content (disk s)" and "mounted (fs (disk s))" and "cursor_ok s" and "shell_x s = 10"
    and "length (file_buf s) = 4096" and "file_name n" and "text_ok body"
    and "\<And>e. fst (fat16_find_file P n (disk s)) = (0, Some e) \<Longrightarrow> attr e AND FAT_ATTR_DIRECTORY = 0"
  shows "\<exists>s1. shell_execute P stack env (cstr ''write '' @ n @ 32 # body) s = Some (False, s1) \<and>
    fs_ok P ready content (disk s1) \<and> cursor_ok s1 \<and> shell_x s1 = 10 \<and>
    (no_slot content (disk s) \<or> no_cluster content (fs (disk s)) (disk s1) \<or>
     (\<exists>d b s2. shell_println body (s1\<lparr>disk := d, file_buf := b\<rparr>) = Some s2 \<and>
        shell_execute P stack env (cstr ''cat '' @ n) s1 = Some (False, s2)))"
proof -
  obtain c cs where n: "n = c # cs" "c \<noteq> 32" "\<not> is_quote c" using file_name_ne [OF assms(6)] by blast
  have "cmd_write P (32 # n @ 32 # body) s = write_text P n body s"
    using assms(2,7) n(1) write_parse_name [OF assms(6,7)]
    unfolding cmd_write_def Let_def skip_name [OF assms(6)] by (simp add: fat16_is_mounted_def text_ok_def)
  moreover obtain s1 where s1: "write_text P n body s = Some s1" "line_done s s1" "file_buf s1 = file_buf s" "fs_ok P ready content (disk s1)"
    "no_slot content (disk s) \<or> no_cluster content (fs (disk s)) (disk s1) \<or>
     (\<exists>d. fat16_read_file P n 4095 (disk s1) = Some ((int (length body), body), d))"
    using write_text_ok [OF assms(1-4,6-8)] by blast
  ultimately have w: "shell_execute P stack env (cstr ''write '' @ n @ 32 # body) s = Some (False, s1)"
    by (simp add: execute_write)
  have "\<exists>d b s2. shell_println body (s1\<lparr>disk := d, file_buf := b\<rparr>) = Some s2 \<and>
      shell_execute P stack env (cstr ''cat '' @ n) s1 = Some (False, s2)"
    if r: "fat16_read_file P n 4095 (disk s1) = Some ((int (length body), body), d)" for d
  proof -
    have "mounted (fs (disk s1))" using r by (cases "mounted (fs (disk s1))") (auto simp: fat16_read_file_def)
    then have "cmd_cat P (32 # n) s1 = cat_file P n s1"
      using n(1) skip_name [OF assms(6), of "[]"] by (simp add: cmd_cat_def Let_def fat16_is_mounted_def)
    moreover obtain b where b: "cat_file P n s1 = shell_println body (s1\<lparr>disk := d, file_buf := b\<rparr>)"
      using cat_file_ok [OF r assms(7)] s1(3) assms(5) by auto
    moreover have "plain_text body" "length body \<le> 255" using assms(7) printable_plain by (auto simp: text_ok_def)
    then obtain s2 where "shell_println body (s1\<lparr>disk := d, file_buf := b\<rparr>) = Some s2"
      using println_ok [of "s1\<lparr>disk := d, file_buf := b\<rparr>" body] line_done_end [OF s1(2)] by (auto simp: keeps_update)
    ultimately show ?thesis
      using execute_cat [of P stack env n s1] by (intro exI [of _ d] exI [of _ b] exI [of _ s2]) simp
  qed
  then show ?thesis using w s1(4,5) line_done_end [OF s1(2)] by blast
qed

theorem shell_write_cat_witness:
  "\<exists>s1. shell_execute sim_ports [] [] (cstr ''write '' @ cstr ''a'' @ 32 # cstr ''hello'') (sample_shell\<lparr>shell_x := 10\<rparr>) = Some (False, s1) \<and>
    shell_x s1 = 10"
proof -
  let ?s = "sample_shell\<lparr>shell_x := 10\<rparr>"
  have "disk ?s = demo" by (simp add: sample_shell_def)
  moreover have "cursor_ok ?s" using sample_shell_ok by (simp add: editor_ok_def cursor_ok_def)
  moreover have "file_name (cstr ''a'')"
    by (simp add: file_name_def short_name_def base_part_def ext_part_def cstr_def printable_def is_quote_def)
  moreover have "text_ok (cstr ''hello'')" by (simp add: text_ok_def cstr_def printable_def is_quote_def)
  moreover have "length (file_buf ?s) = 4096" by (simp add: sample_shell_def)
  moreover have "attr e AND FAT_ATTR_DIRECTORY = 0" if "fst (fat16_find_file sim_ports (cstr ''a'') demo) = (0, Some e)" for e
    using that demo_find(1) by (auto simp: cstr_def demo_root_entries FAT_ATTR_DIRECTORY_def)
  ultimately show ?thesis
    using shell_write_cat [of sim_ports sim_ready store ?s "cstr ''a''" "cstr ''hello''" "[]" "[]"] demo_ok demo_mounted by auto
qed

section \<open>What the parser of write gets wrong\<close>

text \<open>
  The loop that skips the quote and the spaces behind the name also skips the opening quote of the text. The code that
  strips quotes from the text is therefore never reached: a quoted text is stored with its closing quote.
\<close>

theorem write_keeps_closing_quote:
  assumes "file_name n" and "text_ok body"
  shows "(case write_parse (n @ 32 # 34 # body @ [34]) of (filename, rest) \<Rightarrow> filename = n \<and> write_content rest = body @ [34])"
proof -
  obtain c cs where n: "n = c # cs" "\<not> is_quote c" using file_name_ne [OF assms(1)] by blast
  have "takeWhile (\<lambda>c. c \<noteq> chr CHR '' '' \<and> \<not> is_quote c) (n @ 32 # 34 # body @ [34]) = n"
    using assms(1) by (subst takeWhile_append2) (auto simp: file_name_def short_name_def)
  then have len: "name_length (n @ 32 # 34 # body @ [34]) = length n"
    using assms(1) length_short_name [of n] by (simp add: name_length_def file_name_def)
  obtain a ts where a: "body = a # ts" "a \<noteq> 32" "\<not> is_quote a" using assms(2) by (cases body) (auto simp: text_ok_def)
  have "is_quote 34" by (simp add: is_quote_def)
  then have "dropWhile (\<lambda>c. is_quote c \<or> c = chr CHR '' '') (32 # 34 # body @ [34]) = body @ [34]" using a by simp
  then have "write_parse (n @ 32 # 34 # body @ [34]) = (n, body @ [34])" using n len unfolding write_parse_def Let_def by simp
  then show ?thesis using a by (simp add: write_content_def)
qed

text \<open>A name of more than twelve characters is cut, and its rest becomes the start of the text.\<close>

theorem write_splits_long_name:
  assumes "\<forall>c \<in> set n. printable c \<and> c \<noteq> 32 \<and> \<not> is_quote c" and "12 < length n"
  shows "(case write_parse (n @ 32 # body) of (filename, rest) \<Rightarrow> filename = take 12 n \<and> write_content rest = drop 12 n @ 32 # body)"
proof -
  obtain c cs where n: "n = c # cs" "\<not> is_quote c" using assms by (cases n) auto
  have "takeWhile (\<lambda>c. c \<noteq> chr CHR '' '' \<and> \<not> is_quote c) (n @ 32 # body) = n"
    using assms(1) by (subst takeWhile_append2) auto
  then have len: "name_length (n @ 32 # body) = 12" using assms(2) by (simp add: name_length_def)
  obtain a ts where a: "drop 12 n = a # ts" using assms(2) by (cases "drop 12 n") auto
  then have "a \<in> set n" by (metis in_set_dropD list.set_intros(1))
  then have "a \<noteq> 32" "\<not> is_quote a" using assms(1) by auto
  then have "write_parse (n @ 32 # body) = (take 12 n, drop 12 n @ 32 # body)"
    using n len assms(2) a unfolding write_parse_def Let_def by simp
  then show ?thesis using a \<open>\<not> is_quote a\<close> by (simp add: write_content_def)
qed

end
