(* ===== verification/Shell_Ping.thy ===== *)
theory Shell_Ping
  imports Shell Graphic_Text
begin

text \<open>
  The address parser of \<^verbatim>\<open>ping\<close>: it reads back every dotted address, and takes an incomplete one for another address.
\<close>

section \<open>One octet\<close>

abbreviation decimal :: "nat \<Rightarrow> u8 list \<Rightarrow> nat" where
  "decimal \<equiv> foldl (\<lambda>v c. v * 10 + digit_value c)"

lemma decimal_ge: "m \<le> decimal m ds"
proof (induction ds arbitrary: m)
  case (Cons d ds)
  have "m \<le> m * 10 + digit_value d" by simp
  also have "\<dots> \<le> decimal (m * 10 + digit_value d) ds" by (rule Cons.IH)
  finally show ?case by simp
qed simp

lemma digit_value_uint: "is_digit c \<Longrightarrow> uint c - 48 = int (digit_value c)"
proof -
  assume "is_digit c"
  then have "48 \<le> unat c" "unat c < 58" by (auto simp: is_digit_def word_le_nat_alt)
  then have "digit_value c = unat c - 48" "48 \<le> unat c"
    by (simp_all add: digit_value_def word_less_nat_alt unat_sub_no_wrap)
  then show ?thesis by (simp add: of_nat_diff)
qed

lemma parse_digits:
  assumes "cnt < 4" and "\<forall>d \<in> set ds. is_digit d" and "decimal m ds < 2 ^ 31"
  shows "parse_ip_loop (ds @ r) ip (int m) cnt = parse_ip_loop r ip (int (decimal m ds)) cnt"
  using assms(2,3)
proof (induction ds arbitrary: m)
  case (Cons d ds)
  have d: "chr CHR ''0'' \<le> d \<and> d \<le> chr CHR ''9''" using Cons.prems(1) by (simp add: is_digit_def)
  have v: "int m * 10 + (uint d - 48) = int (m * 10 + digit_value d)" using digit_value_uint [of d] Cons.prems(1) by simp
  have lt: "m * 10 + digit_value d < 2 ^ 31" using decimal_ge [of "m * 10 + digit_value d" ds] Cons.prems(2) by simp
  have "list_all fits_int [int m * 10, int m * 10 + (uint d - 48)]" unfolding v using lt by (simp add: fits_int_def)
  then have "parse_ip_loop ((d # ds) @ r) ip (int m) cnt = parse_ip_loop (ds @ r) ip (int (m * 10 + digit_value d)) cnt"
    using d assms(1) unfolding append_Cons parse_ip_loop.simps(2) checked_def v by (simp only: not_le [symmetric] if_True if_False simp_thms)
  also have "\<dots> = parse_ip_loop r ip (int (decimal (m * 10 + digit_value d) ds)) cnt"
    by (rule Cons.IH) (use Cons.prems in simp_all)
  finally show ?case by (simp only: foldl_Cons)
qed simp

lemma ping_octet:
  assumes "cnt < 4" and "n < 256"
  shows "parse_ip_loop (number_text 10 n @ r) ip 0 cnt = parse_ip_loop r ip (int n) cnt"
proof -
  have "decimal 0 (number_text 10 n) = n" using number_value_text [of 10 n] by (simp add: number_value_def)
  then show ?thesis using parse_digits [OF assms(1), of "number_text 10 n" 0 r ip] number_text_digits assms(2) by simp
qed

lemma ping_dot: "cnt < 4 \<Longrightarrow> parse_ip_loop (46 # r) ip v cnt = parse_ip_loop r (push_bit 8 ip OR (of_int v AND 0xFF)) 0 (cnt + 1)"
  by simp

section \<open>Properties\<close>

definition octet :: "nat \<Rightarrow> u32 \<Rightarrow> nat" where
  "octet k ip = unat (drop_bit (8 * k) ip AND 0xFF)"

definition dotted :: "u32 \<Rightarrow> u8 list" where
  "dotted ip = number_text 10 (octet 3 ip) @ 46 # number_text 10 (octet 2 ip) @ 46 # number_text 10 (octet 1 ip) @ 46 #
     number_text 10 (octet 0 ip)"

lemma octet_less: "octet k ip < 256"
proof -
  have "drop_bit (8 * k) ip AND 0xFF \<le> 0xFF" by (rule word_and_le1)
  then show ?thesis by (simp add: octet_def word_le_nat_alt)
qed

lemma octet_word: "(of_int (int (octet k ip)) :: u32) AND 0xFF = drop_bit (8 * k) ip AND 0xFF"
  by (simp add: octet_def and.assoc)

lemma join_bit:
  fixes x ip :: u32
  assumes "n < 32"
  shows "bit (push_bit 8 x OR (drop_bit k ip AND 0xFF)) n \<longleftrightarrow> (if n < 8 then bit ip (k + n) else bit x (n - 8))"
proof -
  have "bit (0xFF :: u32) n \<longleftrightarrow> n < 8" using bit_mask_iff [of 8 n, where ?'a = u32] assms by (auto simp: mask_eq_exp_minus_1)
  then show ?thesis using assms by (simp add: bit_simps)
qed

lemma low_byte: "n < 8 \<Longrightarrow> bit (y AND 0xFF) n = bit y n" for y :: u32
  using join_bit [of n 0 0 y] by simp

lemma join_octets:
  "push_bit 8 (push_bit 8 (push_bit 8 (push_bit 8 0 OR (drop_bit 24 ip AND 0xFF)) OR (drop_bit 16 ip AND 0xFF)) OR
     (drop_bit 8 ip AND 0xFF)) OR (drop_bit 0 ip AND 0xFF) = ip" for ip :: u32
proof (rule bit_word_eqI)
  fix n
  assume n: "n < LENGTH(32)"
  define m q where "m = n mod 8" and "q = n div 8"
  have "n = m + 8 * q" "m < 8" by (simp_all add: m_def q_def)
  moreover have "q \<in> {0, 1, 2, 3}" using n by (auto simp: q_def)
  ultimately show "bit (push_bit 8 (push_bit 8 (push_bit 8 (push_bit 8 0 OR (drop_bit 24 ip AND 0xFF)) OR (drop_bit 16 ip AND 0xFF)) OR
     (drop_bit 8 ip AND 0xFF)) OR (drop_bit 0 ip AND 0xFF)) n = bit ip n"
    by (auto simp: join_bit join_bit [of _ _ 0, simplified] low_byte bit_drop_bit_eq add.commute simp del: push_bit_or push_bit_and)
qed

text \<open>
  C34. An address is parsed from its text. For every address the shell reads the dotted decimal text of its four bytes
  as that address, whatever follows it after a space.
\<close>

theorem parse_ip_dotted:
  "parse_ip (dotted ip) = Some ip \<and> parse_ip (dotted ip @ 32 # rest) = Some ip"
proof -
  have step: "parse_ip_loop (number_text 10 (octet k ip) @ 46 # r) v 0 cnt =
      parse_ip_loop r (push_bit 8 v OR (drop_bit (8 * k) ip AND 0xFF)) 0 (cnt + 1)" if "cnt < 4" for k cnt r v
    using ping_octet [OF that octet_less] ping_dot [OF that] octet_word by simp
  have last: "parse_ip_loop (number_text 10 (octet 0 ip) @ r) v 0 3 = Some (v, int (octet 0 ip), 3)" if "r = [] \<or> r = 32 # rest" for r v
    using ping_octet [of 3, OF _ octet_less] that by auto
  have s1: "parse_ip_loop (number_text 10 (octet 3 ip) @ 46 # r) v 0 0 = parse_ip_loop r (push_bit 8 v OR (drop_bit 24 ip AND 0xFF)) 0 1"
    and s2: "parse_ip_loop (number_text 10 (octet 2 ip) @ 46 # r) v 0 1 = parse_ip_loop r (push_bit 8 v OR (drop_bit 16 ip AND 0xFF)) 0 2"
    and s3: "parse_ip_loop (number_text 10 (octet 1 ip) @ 46 # r) v 0 2 = parse_ip_loop r (push_bit 8 v OR (drop_bit 8 ip AND 0xFF)) 0 3" for r v
    using step [of 0 3] step [of 1 2] step [of 2 1] by (simp_all add: numeral_2_eq_2 numeral_3_eq_3)
  have "parse_ip_loop (dotted ip @ r) 0 0 0 =
      Some (push_bit 8 (push_bit 8 (push_bit 8 0 OR (drop_bit 24 ip AND 0xFF)) OR (drop_bit 16 ip AND 0xFF)) OR (drop_bit 8 ip AND 0xFF),
        int (octet 0 ip), 3)" if "r = [] \<or> r = 32 # rest" for r
    unfolding dotted_def append_assoc append_Cons s1 s2 s3 using last [OF that] .
  from this [of "[]"] this [of "32 # rest"] show ?thesis
    using octet_word [of 0 ip] join_octets [of ip] unfolding parse_ip_def by simp
qed

text \<open>Three numbers are taken for an address of two bytes, and numbers above 255 for their last eight bits.\<close>

theorem parse_ip_incomplete:
  "parse_ip (cstr ''10.0.2'') = Some 0x0A00" "parse_ip (cstr ''10.0.2.258'') = Some 0x0A000202"
  by (simp_all add: parse_ip_def cstr_def checked_def fits_int_def)

end
