(* ===== verification/E1000_Probe.thy ===== *)
theory E1000_Probe
  imports E1000 Pci Vmm_Properties
begin

text \<open>
  Finding and starting the network card (\<^verbatim>\<open>e1000_probe\<close> and \<^verbatim>\<open>e1000_init\<close> of \<^verbatim>\<open>drivers/e1000.c\<close>), on top of
  the device table and configuration space of \<open>Pci\<close>, the device windows of \<open>Vmm\<close> and the rings of \<open>E1000\<close>. The state
  extends that of the PCI driver; pages come from the pool the page tables come from.
\<close>

section \<open>State\<close>

definition E1000_VENDOR_ID :: u16 where "E1000_VENDOR_ID = 0x8086"
definition E1000_DEVICE_ID_82540EM :: u16 where "E1000_DEVICE_ID_82540EM = 0x100E"
definition E1000_DEVICE_ID_82545EM :: u16 where "E1000_DEVICE_ID_82545EM = 0x100F"
definition E1000_DEVICE_ID_82574L :: u16 where "E1000_DEVICE_ID_82574L = 0x10D3"
definition E1000_CTRL_SLU :: u32 where "E1000_CTRL_SLU = 0x00000040"

record 'd nic = "'d pci" +
  nic_dev :: e1000_device_t
  nic_pci_dev :: "nat option"
  vm :: vmm

section \<open>Operations\<close>

definition map_physical_memory :: "u64 \<Rightarrow> u64 \<Rightarrow> ('d, 'z) nic_scheme \<Rightarrow> u64 \<times> ('d, 'z) nic_scheme" where
  "map_physical_memory phys_addr sz s =
     (case vmm_map_mmio phys_addr sz (vm s) of
        (virt_addr, v) \<Rightarrow> (case virt_addr of None \<Rightarrow> 0 | Some a \<Rightarrow> a, s\<lparr>vm := v\<rparr>))"

text \<open>The two ring set-ups take their pages from the pool of the memory manager.\<close>

definition with_pool ::
  "(u64 \<Rightarrow> e1000_device_t \<Rightarrow> pmm \<Rightarrow> int \<times> e1000_device_t \<times> pmm) \<Rightarrow> ('d, 'z) nic_scheme \<Rightarrow> int \<times> ('d, 'z) nic_scheme" where
  "with_pool ring_init s =
     (case ring_init (hhdm_offset (vm s)) (nic_dev s) (page_pool (vm s)) of
        (r, dev, pool) \<Rightarrow> (r, s\<lparr>nic_dev := dev, vm := (vm s)\<lparr>page_pool := pool\<rparr>\<rparr>))"

text \<open>From the reset on.\<close>

definition start_card :: "('d, 'z) nic_scheme \<Rightarrow> int \<times> ('d, 'z) nic_scheme" where
  "start_card s =
     (let s = s\<lparr>nic_dev := e1000_read_mac_address (e1000_reset (nic_dev s))\<rparr>
      in case with_pool e1000_rx_init s of
           (r, s) \<Rightarrow> if r \<noteq> 0 then (- 1, s) else
         (case with_pool e1000_tx_init s of
           (r, s) \<Rightarrow> if r \<noteq> 0 then (- 1, s) else
             let ctrl = e1000_read_reg (nic_dev s) E1000_CTRL OR E1000_CTRL_SLU
             in (0, s\<lparr>nic_dev := (e1000_write_reg E1000_CTRL ctrl (nic_dev s))\<lparr>e1000_initialized := True\<rparr>\<rparr>)))"

definition e1000_probe :: "'d ports \<Rightarrow> nat option \<Rightarrow> ('d, 'z) nic_scheme \<Rightarrow> int \<times> ('d, 'z) nic_scheme" where
  "e1000_probe P pci_dev s =
     (case pci_dev of
        None \<Rightarrow> (- 1, s)
      | Some k \<Rightarrow>
          let dev = pci_devices s ! k
          in if vendor_id dev \<noteq> E1000_VENDOR_ID then (- 1, s)
             else if device_id dev \<noteq> E1000_DEVICE_ID_82540EM \<and> device_id dev \<noteq> E1000_DEVICE_ID_82545EM \<and>
               device_id dev \<noteq> E1000_DEVICE_ID_82574L then (- 1, s)
             else case pci_config_read16 P (bus dev) (device dev) (function_no dev) PCI_COMMAND (pci_hw s) of
               (command, d) \<Rightarrow>
                 let s = s\<lparr>nic_pci_dev := Some k,
                           pci_hw := pci_config_write16 P (bus dev) (device dev) (function_no dev) PCI_COMMAND
                             (command OR (PCI_COMMAND_MEMORY OR PCI_COMMAND_MASTER)) d\<rparr>;
                     bar0 = bar dev ! 0
                 in if bar0 AND 1 \<noteq> 0 then (- 1, s)
                    else let physical_base = ucast (bar0 AND 0xFFFFFFF0)
                    in if physical_base = 0 then (- 1, s)
                    else case map_physical_memory physical_base 0x20000 s of
                      (mapped, s) \<Rightarrow>
                        if mapped = 0 then (- 1, s\<lparr>nic_dev := (nic_dev s)\<lparr>mmio_base := 0\<rparr>\<rparr>)
                        else let s = s\<lparr>nic_dev := (nic_dev s)\<lparr>mmio_base := mapped\<rparr>\<rparr>
                        in if e1000_read_reg (nic_dev s) E1000_STATUS = 0xFFFFFFFF
                           then (- 1, s\<lparr>nic_dev := (nic_dev s)\<lparr>mmio_base := 0\<rparr>\<rparr>)
                           else start_card s)"

definition e1000_init :: "'d ports \<Rightarrow> ('d, 'z) nic_scheme \<Rightarrow> int \<times> ('d, 'z) nic_scheme" where
  "e1000_init P s =
     (let pci_dev = pci_find_device E1000_VENDOR_ID E1000_DEVICE_ID_82540EM s;
          pci_dev = (if pci_dev = None then pci_find_device E1000_VENDOR_ID E1000_DEVICE_ID_82545EM s else pci_dev);
          pci_dev = (if pci_dev = None then pci_find_device E1000_VENDOR_ID E1000_DEVICE_ID_82574L s else pci_dev)
      in if pci_dev = None then (- 1, s)
         else case e1000_probe P pci_dev s of
                (r, s) \<Rightarrow> if r \<noteq> 0 then (- 1, s) else (0, s))"

section \<open>The rings and the pool\<close>

text \<open>Taking pages from the pool: only available pages are taken, and none is given back.\<close>

definition takes_pages :: "pmm \<Rightarrow> pmm \<Rightarrow> bool" where
  "takes_pages s s' \<longleftrightarrow> (pool_ok s \<longrightarrow>
     pool_ok s' \<and> (\<forall>a. available s' a \<longrightarrow> available s a) \<and> owned_pages s \<subseteq> owned_pages s' \<and>
     (\<forall>a. unat a \<in> owned_pages s' - owned_pages s \<longrightarrow> available s a))"

lemma takes_pages_refl [simp]: "takes_pages s s"
  by (simp add: takes_pages_def)

lemma takes_pages_trans: "takes_pages s s' \<Longrightarrow> takes_pages s' s'' \<Longrightarrow> takes_pages s s''"
  unfolding takes_pages_def by blast

lemma alloc_takes_pages: "takes_pages s (snd (physical_alloc_page s))"
proof (cases "pool_ok s")
  case ok: True
  obtain a s' where r: "physical_alloc_page s = (a, s')" by fastforce
  show ?thesis
  proof (cases "a = 0")
    case True
    then show ?thesis using pool.alloc_none [OF ok] r by simp
  next
    case False
    have "pmm_wf s" using ok by (simp add: pool_ok_def)
    from physical_alloc_page_owned [OF this r False] pool.alloc_page [OF ok r False]
    show ?thesis using r by (auto simp: takes_pages_def simp flip: word_unat_eq_iff)
  qed
qed (simp add: takes_pages_def)

lemma rx_fill_takes_pages: "takes_pages s (snd (snd (rx_fill hhdm is dev s)))"
proof (induction "is" arbitrary: dev s)
  case (Cons i "is")
  then show ?case
    using alloc_takes_pages [of s] by (cases "physical_alloc_page s") (auto intro: takes_pages_trans)
qed simp

lemma tx_fill_takes_pages: "takes_pages s (snd (snd (tx_fill hhdm is dev s)))"
proof (induction "is" arbitrary: dev s)
  case (Cons i "is")
  then show ?case
    using alloc_takes_pages [of s] by (cases "physical_alloc_page s") (auto intro: takes_pages_trans)
qed simp

lemma two_pages:
  assumes "physical_alloc_page s = (a, s1)" and "physical_alloc_page s1 = (b, s2)"
  shows "takes_pages s s2"
  using alloc_takes_pages [of s] alloc_takes_pages [of s1] assms by (auto intro: takes_pages_trans)

lemma rx_initE:
  assumes "e1000_rx_init hhdm dev s = (0, dev', s')"
  obtains p s1 q s2 d where "physical_alloc_page s = (p, s1)" "p \<noteq> 0" "physical_alloc_page s1 = (q, s2)" "q \<noteq> 0"
    "rx_fill hhdm [0..<32] (dev\<lparr>rx_desc := replicate 32 zero_rx_desc, rx_buffers := replicate 32 0\<rparr>) s2 = (True, d, s')"
    "dev' = rx_registers p (d\<lparr>rx_cur := 0\<rparr>)"
  using assms by (auto simp: e1000_rx_init_def e1000_consts Let_def split: prod.splits if_splits)

lemma tx_initE:
  assumes "e1000_tx_init hhdm dev s = (0, dev', s')"
  obtains p s1 q s2 d where "physical_alloc_page s = (p, s1)" "p \<noteq> 0" "physical_alloc_page s1 = (q, s2)" "q \<noteq> 0"
    "tx_fill hhdm [0..<32] (dev\<lparr>tx_desc := replicate 32 zero_tx_desc, tx_buffers := replicate 32 0\<rparr>) s2 = (True, d, s')"
    "dev' = tx_registers p (d\<lparr>tx_cur := 0\<rparr>)"
  using assms by (auto simp: e1000_tx_init_def e1000_consts Let_def split: prod.splits if_splits)

lemma rx_init_takes_pages:
  assumes "e1000_rx_init hhdm dev s = (0, dev', s')"
  shows "takes_pages s s'"
proof -
  obtain p s1 q s2 d where "physical_alloc_page s = (p, s1)" "physical_alloc_page s1 = (q, s2)"
    and f: "rx_fill hhdm [0..<32] (dev\<lparr>rx_desc := replicate 32 zero_rx_desc, rx_buffers := replicate 32 0\<rparr>) s2 = (True, d, s')"
    using rx_initE [OF assms] by metis
  then have "takes_pages s s2" by (blast intro: two_pages)
  moreover have "takes_pages s2 s'" using rx_fill_takes_pages [of s2] f by (metis snd_conv)
  ultimately show ?thesis by (blast intro: takes_pages_trans)
qed

lemma tx_init_takes_pages:
  assumes "e1000_tx_init hhdm dev s = (0, dev', s')"
  shows "takes_pages s s'"
proof -
  obtain p s1 q s2 d where "physical_alloc_page s = (p, s1)" "physical_alloc_page s1 = (q, s2)"
    and f: "tx_fill hhdm [0..<32] (dev\<lparr>tx_desc := replicate 32 zero_tx_desc, tx_buffers := replicate 32 0\<rparr>) s2 = (True, d, s')"
    using tx_initE [OF assms] by metis
  then have "takes_pages s s2" by (blast intro: two_pages)
  moreover have "takes_pages s2 s'" using tx_fill_takes_pages [of s2] f by (metis snd_conv)
  ultimately show ?thesis by (blast intro: takes_pages_trans)
qed

text \<open>The fields of the card a set-up leaves alone.\<close>

definition rx_view :: "e1000_device_t \<Rightarrow> e1000_rx_desc_t list \<times> u64 list \<times> u16 \<times> u64 \<times> u8 list \<times> bool" where
  "rx_view d = (rx_desc d, rx_buffers d, rx_cur d, mmio_base d, dev_mac_address d, e1000_initialized d)"

definition tx_view :: "e1000_device_t \<Rightarrow> u64 \<times> u8 list \<times> bool" where
  "tx_view d = (mmio_base d, dev_mac_address d, e1000_initialized d)"

lemma tx_fill_view: "rx_view (fst (snd (tx_fill hhdm is d s))) = rx_view d"
  by (induction "is" arbitrary: d s) (auto simp: rx_view_def split: prod.splits)

lemma rx_fill_view: "tx_view (fst (snd (rx_fill hhdm is d s))) = tx_view d"
  by (induction "is" arbitrary: d s) (auto simp: tx_view_def split: prod.splits)

lemma tx_registers_fields [simp]:
  "tx_desc (tx_registers p dev) = tx_desc dev" "tx_buffers (tx_registers p dev) = tx_buffers dev"
  "tx_cur (tx_registers p dev) = tx_cur dev"
  by (simp_all add: tx_registers_def)

lemma registers_view [simp]: "rx_view (tx_registers p d) = rx_view d" "tx_view (rx_registers p d) = tx_view d"
  by (simp_all add: rx_view_def tx_view_def tx_registers_def rx_registers_def)

lemma rx_init_view:
  assumes "e1000_rx_init hhdm dev s = (0, dev', s')"
  shows "tx_view dev' = tx_view dev"
proof -
  obtain p s1 q s2 d
    where f: "rx_fill hhdm [0..<32] (dev\<lparr>rx_desc := replicate 32 zero_rx_desc, rx_buffers := replicate 32 0\<rparr>) s2 = (True, d, s')"
      and d: "dev' = rx_registers p (d\<lparr>rx_cur := 0\<rparr>)"
    using rx_initE [OF assms] by metis
  have "tx_view d = tx_view dev"
    using rx_fill_view [of hhdm "[0..<32]" "dev\<lparr>rx_desc := replicate 32 zero_rx_desc, rx_buffers := replicate 32 0\<rparr>" s2] f
    by (simp add: tx_view_def)
  then show ?thesis unfolding d registers_view by (simp add: tx_view_def)
qed

lemma tx_init_view:
  assumes "e1000_tx_init hhdm dev s = (0, dev', s')"
  shows "rx_view dev' = rx_view dev"
proof -
  obtain p s1 q s2 d
    where f: "tx_fill hhdm [0..<32] (dev\<lparr>tx_desc := replicate 32 zero_tx_desc, tx_buffers := replicate 32 0\<rparr>) s2 = (True, d, s')"
      and d: "dev' = tx_registers p (d\<lparr>tx_cur := 0\<rparr>)"
    using tx_initE [OF assms] by metis
  have "rx_view d = rx_view dev"
    using tx_fill_view [of hhdm "[0..<32]" "dev\<lparr>tx_desc := replicate 32 zero_tx_desc, tx_buffers := replicate 32 0\<rparr>" s2] f
    by (simp add: rx_view_def)
  then show ?thesis unfolding d registers_view by (simp add: rx_view_def)
qed

text \<open>The transmit buffers are pages of their own.\<close>

lemma tx_fill_pages:
  assumes "pmm_wf s" and "tx_fill hhdm is dev s = (True, dev', s')"
    and "distinct is" and "\<forall>i\<in>set is. i < length (tx_desc dev)"
    and "length (tx_buffers dev) = length (tx_desc dev)"
  shows "\<exists>as. length as = length is \<and> distinct as \<and> unat ` set as \<inter> owned_pages s = {} \<and>
     pmm_wf s' \<and> owned_pages s' = owned_pages s \<union> unat ` set as \<and>
     length (tx_desc dev') = length (tx_desc dev) \<and> length (tx_buffers dev') = length (tx_desc dev) \<and>
     (\<forall>k<length is. tx_buffer_addr (tx_desc dev' ! (is ! k)) = as ! k \<and>
        tx_buffers dev' ! (is ! k) = as ! k + hhdm \<and> tx_status (tx_desc dev' ! (is ! k)) = E1000_TXD_STAT_DD) \<and>
     (\<forall>k. k \<notin> set is \<longrightarrow> tx_desc dev' ! k = tx_desc dev ! k \<and> tx_buffers dev' ! k = tx_buffers dev ! k)"
  using assms
proof (induction "is" arbitrary: dev s)
  case Nil
  then show ?case by simp
next
  case (Cons i "is")
  obtain a s1 where al: "physical_alloc_page s = (a, s1)" by fastforce
  with Cons.prems(2) have a: "a \<noteq> 0" by (auto split: if_splits)
  note own = physical_alloc_page_owned [OF Cons.prems(1) al a]
  let ?d = "dev\<lparr>tx_buffers := (tx_buffers dev)[i := a + hhdm],
      tx_desc := (tx_desc dev)[i := (tx_desc dev ! i)\<lparr>tx_buffer_addr := a, tx_status := E1000_TXD_STAT_DD\<rparr>]\<rparr>"
  from Cons.prems(2) al a have "tx_fill hhdm is ?d s1 = (True, dev', s')" by simp
  from Cons.IH [OF own(1) this] Cons.prems(3-5) obtain as where
    as: "length as = length is" "distinct as" "unat ` set as \<inter> owned_pages s1 = {}" "pmm_wf s'"
      "owned_pages s' = owned_pages s1 \<union> unat ` set as"
      "length (tx_desc dev') = length (tx_desc dev)" "length (tx_buffers dev') = length (tx_desc dev)"
      "\<And>k. k < length is \<Longrightarrow> tx_buffer_addr (tx_desc dev' ! (is ! k)) = as ! k \<and>
        tx_buffers dev' ! (is ! k) = as ! k + hhdm \<and> tx_status (tx_desc dev' ! (is ! k)) = E1000_TXD_STAT_DD"
      "\<And>k. k \<notin> set is \<Longrightarrow> tx_desc dev' ! k = tx_desc ?d ! k \<and> tx_buffers dev' ! k = tx_buffers ?d ! k"
    by auto
  have "a \<notin> set as" using as(3) own(3) by auto
  moreover have "tx_desc dev' ! i = (tx_desc dev ! i)\<lparr>tx_buffer_addr := a, tx_status := E1000_TXD_STAT_DD\<rparr>"
    "tx_buffers dev' ! i = a + hhdm"
    using as(9) [of i] Cons.prems(3-5) by simp_all
  ultimately show ?case
    using as own Cons.prems(3) by (intro exI [of _ "a # as"]) (auto simp: nth_Cons split: nat.split)
qed

text \<open>After its set-up the transmit ring is empty, over pages that were free before.\<close>

lemma tx_init_exclusive:
  assumes "pmm_wf s" and "e1000_tx_init hhdm dev s = (0, dev', s')"
  shows "length (tx_desc dev') = 32 \<and> tx_cur dev' = 0 \<and> distinct (map tx_buffer_addr (tx_desc dev')) \<and>
     tx_buffers dev' = map (\<lambda>d. tx_buffer_addr d + hhdm) (tx_desc dev') \<and> (\<forall>k<32. tx_done dev' k) \<and> pmm_wf s' \<and>
     (\<forall>d\<in>set (tx_desc dev'). unat (tx_buffer_addr d) \<in> owned_pages s' - owned_pages s)"
proof -
  obtain p s1 q s2 d where
    p: "physical_alloc_page s = (p, s1)" "p \<noteq> 0" and q: "physical_alloc_page s1 = (q, s2)" "q \<noteq> 0"
    and fill: "tx_fill hhdm [0..<32] (dev\<lparr>tx_desc := replicate 32 zero_tx_desc, tx_buffers := replicate 32 0\<rparr>) s2 = (True, d, s')"
    and dev': "dev' = tx_registers p (d\<lparr>tx_cur := 0\<rparr>)"
    by (rule tx_initE [OF assms(2)])
  note own1 = physical_alloc_page_owned [OF assms(1) p]
  note own2 = physical_alloc_page_owned [OF own1(1) q]
  from tx_fill_pages [OF own2(1) fill] obtain as where
    as: "length as = 32" "distinct as" "unat ` set as \<inter> owned_pages s2 = {}" "pmm_wf s'"
      "owned_pages s' = owned_pages s2 \<union> unat ` set as"
      "length (tx_desc d) = 32" "length (tx_buffers d) = 32"
      "\<And>k. k < 32 \<Longrightarrow> tx_buffer_addr (tx_desc d ! k) = as ! k \<and>
        tx_buffers d ! k = as ! k + hhdm \<and> tx_status (tx_desc d ! k) = E1000_TXD_STAT_DD"
    by auto
  have addrs: "map tx_buffer_addr (tx_desc d) = as" by (rule nth_equalityI) (simp_all add: as)
  have bufs: "tx_buffers d = map (\<lambda>x. tx_buffer_addr x + hhdm) (tx_desc d)"
    by (rule nth_equalityI) (simp_all add: as)
  have "unat (tx_buffer_addr x) \<in> owned_pages s' - owned_pages s" if "x \<in> set (tx_desc d)" for x
  proof -
    from that have "tx_buffer_addr x \<in> set as" by (simp flip: addrs)
    with as(3,5) own1(3) own2(3) show ?thesis by auto
  qed
  with as addrs bufs show ?thesis by (simp add: dev' tx_done_def E1000_TXD_STAT_DD_def)
qed

section \<open>The window of the card\<close>

lemma same_page_offset:
  assumes "page_aligned a" and "unat m < 4096"
  shows "same_page a (a + m)"
proof -
  have "drop_bit 12 (a OR m) = drop_bit 12 a"
    by (rule bit_word_eqI) (use small_word_bit [OF assms(2)] in \<open>auto simp: bit_simps\<close>)
  then show ?thesis using aligned_plus(1) [OF assms] by (simp add: same_page_def)
qed

text \<open>A window of \<open>n\<close> pages translates byte for byte.\<close>

lemma window_bytes:
  assumes "page_aligned va" and "unat off < 4096 * n"
    and "\<And>i. i < n \<Longrightarrow> same_page (page_at va i) (va + off) \<Longrightarrow> f (va + off) = page_at pa i + ((va + off) AND PAGE_MASK)"
  shows "f (va + off) = pa + off"
proof -
  define i m where "i = unat off div 4096" and "m = off AND PAGE_MASK"
  have um: "unat m < 4096"
    by (simp add: m_def PAGE_MASK_mask flip: take_bit_eq_mask) (simp add: unat_take_bit)
  have "unat m = unat off mod 4096"
    by (simp add: m_def PAGE_MASK_mask flip: take_bit_eq_mask) (simp add: unat_take_bit)
  then have "of_nat (4096 * i + unat m) = off" by (simp only: i_def mult_div_mod_eq of_nat_unat ucast_id)
  then have off: "off = of_nat i * PAGE_SIZE + m" by (simp add: PAGE_SIZE_def mult.commute)
  have al: "page_aligned (page_at va i)" using assms(1) page_aligned_mult by (rule page_aligned_add)
  have eq: "va + off = page_at va i + m" by (simp add: off)
  have "i < n" using assms(2) by (simp add: i_def less_mult_imp_div_less mult.commute)
  then have "f (va + off) = page_at pa i + ((va + off) AND PAGE_MASK)"
    by (rule assms(3)) (use same_page_offset [OF al um] in \<open>simp add: eq\<close>)
  also have "\<dots> = pa + off" using aligned_plus(3) [OF al um] unfolding eq by (simp add: off)
  finally show ?thesis .
qed

lemma map_window:
  assumes "vmm_wf (kernel_root v) v" and "hhdm_offset v \<noteq> 0" and "current_context v = 0" and "page_aligned pa"
    and "page_aligned (next_mmio_vaddr v)" and "unat (next_mmio_vaddr v) + 0x20000 \<le> 2 ^ 64"
    and small: "\<forall>i<32. no_large (kernel_root v) v (page_at (next_mmio_vaddr v) i)"
    and r: "vmm_map_mmio pa 0x20000 v = (Some va, v')"
  shows "vmm_wf (kernel_root v') v' \<and> (\<forall>off<0x20000. vmm_get_physical_addr (va + off) v' = pa + off)"
proof -
  have n: "32 = unat ((0x20000 + PAGE_SIZE - 1) div PAGE_SIZE)" by (simp add: PAGE_SIZE_def)
  have "unat (next_mmio_vaddr v) + 4096 * 32 \<le> 2 ^ 64" "(32 :: nat) \<le> 2 ^ 36" using assms(6) by simp_all
  note w = vmm_map_mmio_window [OF assms(1-4) n this small r]
  have "vmm_get_physical_addr (va + off) v' = pa + off" if off: "off < 0x20000" for off
  proof (rule window_bytes [of va off 32])
    show "page_aligned va" using w assms(5) by simp
    show "unat off < 4096 * 32" using off by (simp add: word_less_nat_alt)
    show "vmm_get_physical_addr (va + off) v' = page_at pa i + ((va + off) AND PAGE_MASK)"
      if "i < 32" "same_page (page_at va i) (va + off)" for i
    proof -
      have "no_large (kernel_root v) v (va + off)"
        using small [rule_format, OF that(1)] that(2) w unfolding no_large_def same_page_iff by metis
      then show ?thesis using w that by blast
    qed
  qed
  then show ?thesis using w by blast
qed

section \<open>Starting the card\<close>

lemma reset_mac_fields [simp]:
  "mmio_base (e1000_read_mac_address (e1000_reset d)) = mmio_base d"
  "e1000_initialized (e1000_read_mac_address (e1000_reset d)) = e1000_initialized d"
  by (auto simp: e1000_read_mac_address_def e1000_reset_def Let_def)

lemma physical_addr_pool [simp]: "vmm_get_physical_addr a (v\<lparr>page_pool := p\<rparr>) = vmm_get_physical_addr a v"
  by (simp add: vmm_get_physical_addr_def find_table_def Let_def)

text \<open>The rings of a started card: empty, ready for use, over pages that belong to nobody else.\<close>

definition rings_ready :: "pmm \<Rightarrow> pmm \<Rightarrow> u64 \<Rightarrow> e1000_device_t \<Rightarrow> bool" where
  "rings_ready before after hhdm d \<longleftrightarrow>
     rx_ring_wf d \<and> tx_ring_wf d \<and> (\<forall>k<32. \<not> rx_done d k \<and> tx_done d k) \<and>
     rx_buffers d = map (\<lambda>x. rx_buffer_addr x + hhdm) (rx_desc d) \<and>
     tx_buffers d = map (\<lambda>x. tx_buffer_addr x + hhdm) (tx_desc d) \<and>
     distinct (map rx_buffer_addr (rx_desc d) @ map tx_buffer_addr (tx_desc d)) \<and>
     (\<forall>a\<in>set (map rx_buffer_addr (rx_desc d) @ map tx_buffer_addr (tx_desc d)).
        unat a \<in> owned_pages after - owned_pages before)"

lemma start_cardD:
  assumes "start_card s = (0, s')" and "pool_ok (page_pool (vm s))"
  shows "\<exists>pool. vm s' = (vm s)\<lparr>page_pool := pool\<rparr> \<and> takes_pages (page_pool (vm s)) pool \<and>
    rings_ready (page_pool (vm s)) pool (hhdm_offset (vm s)) (nic_dev s') \<and> mmio_base (nic_dev s') = mmio_base (nic_dev s) \<and>
    pci_hw s' = pci_hw s \<and> pci_devices s' = pci_devices s \<and> nic_pci_dev s' = nic_pci_dev s"
proof -
  let ?c = "e1000_read_mac_address (e1000_reset (nic_dev s))" and ?h = "hhdm_offset (vm s)" and ?p = "page_pool (vm s)"
  obtain d1 p1 where rx: "e1000_rx_init ?h ?c ?p = (0, d1, p1)"
    using assms(1) by (auto simp: start_card_def with_pool_def Let_def split: prod.splits if_splits)
  then obtain d2 p2 where tx: "e1000_tx_init ?h d1 p1 = (0, d2, p2)"
    using assms(1) by (auto simp: start_card_def with_pool_def Let_def split: prod.splits if_splits)
  let ?d = "(e1000_write_reg E1000_CTRL (e1000_read_reg d2 E1000_CTRL OR E1000_CTRL_SLU) d2)\<lparr>e1000_initialized := True\<rparr>"
  have s': "s' = s\<lparr>nic_dev := ?d, vm := (vm s)\<lparr>page_pool := p2\<rparr>\<rparr>"
    using assms(1) rx tx by (auto simp: start_card_def with_pool_def Let_def)
  have wf: "pmm_wf ?p" using assms(2) by (simp add: pool_ok_def)
  note r = e1000_rx_init_exclusive [OF wf rx]
  then have "pmm_wf p1" by blast
  note x = tx_init_exclusive [OF this tx]
  note v = tx_init_view [OF tx, unfolded rx_view_def prod.inject] rx_init_view [OF rx, unfolded tx_view_def prod.inject]
  note takes = rx_init_takes_pages [OF rx] tx_init_takes_pages [OF tx]
  have own: "owned_pages ?p \<subseteq> owned_pages p1" "owned_pages p1 \<subseteq> owned_pages p2"
    using takes assms(2) by (simp_all add: takes_pages_def)
  have rxa: "unat a \<in> owned_pages p1 - owned_pages ?p" if "a \<in> rx_buffer_addr ` set (rx_desc d2)" for a
    using that r v by auto
  have txa: "unat a \<in> owned_pages p2 - owned_pages p1" if "a \<in> tx_buffer_addr ` set (tx_desc d2)" for a
    using that x by auto
  have "distinct (tx_buffers d2)" using x by (simp add: distinct_map inj_on_def)
  moreover have "rx_buffer_addr ` set (rx_desc d2) \<inter> tx_buffer_addr ` set (tx_desc d2) = {}" using rxa txa by blast
  moreover have "length (rx_buffers d2) = 32" "length (tx_buffers d2) = 32" using r x v by simp_all
  ultimately have "rings_ready ?p p2 ?h ?d"
    using r x v own rxa txa
    by (auto simp: rings_ready_def rx_ring_wf_def tx_ring_wf_def rx_done_def tx_done_def e1000_consts distinct_map)
  moreover have "takes_pages ?p p2" using takes by (rule takes_pages_trans)
  ultimately show ?thesis using v by (intro exI [of _ p2]) (simp add: s')
qed

section \<open>Properties\<close>

definition supported :: "pci_device_t \<Rightarrow> bool" where
  "supported x \<longleftrightarrow> vendor_id x = E1000_VENDOR_ID \<and>
     device_id x \<in> {E1000_DEVICE_ID_82540EM, E1000_DEVICE_ID_82545EM, E1000_DEVICE_ID_82574L}"

text \<open>The address in the first base register, without its flags.\<close>

definition window_base :: "pci_device_t \<Rightarrow> u64" where
  "window_base x = ucast (bar x ! 0 AND 0xFFFFFFF0)"

lemma find_deviceD:
  assumes "pci_find_device v i s = Some k"
  shows "k < pci_device_count s \<and> vendor_id (pci_devices s ! k) = v \<and> device_id (pci_devices s ! k) = i"
  using assms by (auto simp: pci_find_device_def first_index_Some_iff)

lemma init_probes:
  assumes "e1000_init P s = (0, s')"
  obtains k where "k < pci_device_count s" "supported (pci_devices s ! k)" "e1000_probe P (Some k) s = (0, s')"
  using assms
  by (auto simp: e1000_init_def Let_def supported_def split: if_splits prod.splits dest!: find_deviceD)

lemma probe_starts:
  assumes "e1000_probe P (Some k) s = (0, s')"
  obtains va v where "vmm_map_mmio (window_base (pci_devices s ! k)) 0x20000 (vm s) = (Some va, v)"
    "bar (pci_devices s ! k) ! 0 AND 1 = 0" "va \<noteq> 0"
    "start_card (s\<lparr>nic_pci_dev := Some k,
       pci_hw := (case pci_config_read16 P (bus (pci_devices s ! k)) (device (pci_devices s ! k)) (function_no (pci_devices s ! k)) PCI_COMMAND (pci_hw s) of
         (command, d) \<Rightarrow> pci_config_write16 P (bus (pci_devices s ! k)) (device (pci_devices s ! k)) (function_no (pci_devices s ! k)) PCI_COMMAND
                             (command OR (PCI_COMMAND_MEMORY OR PCI_COMMAND_MASTER)) d),
       vm := v, nic_dev := (nic_dev s)\<lparr>mmio_base := va\<rparr>\<rparr>) = (0, s')"
  using assms
  by (auto simp: e1000_probe_def Let_def map_physical_memory_def window_base_def split: if_splits prod.splits option.splits)

definition command_address :: "pci_device_t \<Rightarrow> u32" where
  "command_address x = config_address (bus x) (device x) (function_no x) PCI_COMMAND"

lemma and_6: "(w AND NOT 0xFFFF OR ucast (c OR 6)) AND 6 = 6" for w :: u32 and c :: u16
proof (rule bit_word_eqI)
  fix n assume "n < LENGTH(32)"
  have "(6 :: u32) = 2 ^ 1 OR 2 ^ 2" "(6 :: u16) = 2 ^ 1 OR 2 ^ 2" by simp_all
  then have b: "bit (6 :: u32) n \<longleftrightarrow> n = 1 \<or> n = 2" "bit (6 :: u16) n \<longleftrightarrow> n = 1 \<or> n = 2"
    by (simp_all only: bit_or_iff bit_exp_iff possible_bit_word) auto
  show "bit ((w AND NOT 0xFFFF OR ucast (c OR 6)) AND 6) n = bit (6 :: u32) n"
    using b by (auto simp: bit_simps)
qed

lemma command_set:
  assumes "config_contract P sel cfg rw"
    and "\<And>d v. sel d = config_address b dv f PCI_COMMAND \<Longrightarrow>
      cfg (outl P PCI_CONFIG_DATA v d) (config_address b dv f PCI_COMMAND) AND 6 = v AND 6"
  shows "cfg (case pci_config_read16 P b dv f PCI_COMMAND d of
      (command, d) \<Rightarrow> pci_config_write16 P b dv f PCI_COMMAND (command OR (PCI_COMMAND_MEMORY OR PCI_COMMAND_MASTER)) d)
      (config_address b dv f PCI_COMMAND) AND 6 = 6"
proof -
  have sh: "unat (PCI_COMMAND AND 2) * 8 = 0" by (simp add: PCI_COMMAND_def)
  show ?thesis
    unfolding split_beta pci_config_write16_def Let_def sh push_bit_0_id id_apply
    using assms and_6 by (simp add: config_contract_def PCI_COMMAND_MEMORY_def PCI_COMMAND_MASTER_def)
qed

text \<open>Mapping takes pages and keeps the direct map.\<close>

definition takes_tables :: "vmm \<Rightarrow> vmm \<Rightarrow> bool" where
  "takes_tables v v' \<longleftrightarrow> takes_pages (page_pool v) (page_pool v') \<and> hhdm_offset v' = hhdm_offset v"

lemma takes_tables_trans: "takes_tables v v' \<Longrightarrow> takes_tables v' v'' \<Longrightarrow> takes_tables v v''"
  by (auto simp: takes_tables_def intro: takes_pages_trans)

lemma walk_takes_tables:
  assumes "walk_tables root a v = (p, v')"
  shows "takes_tables v v'"
proof -
  have "takes_tables v v'" if "walk_or_create t i v = (p, v')" for t i v p v'
    using alloc_takes_pages [of "page_pool v"] that
    by (auto simp: walk_or_create_def takes_tables_def split: prod.splits if_splits)
  then show ?thesis
    using assms by (auto simp: walk_tables_def split: prod.splits option.splits) (blast intro: takes_tables_trans)+
qed

lemma map_pages_takes_tables:
  "map_mmio_pages root pa va is v = (ok, v') \<Longrightarrow> takes_tables v v'"
proof (induction "is" arbitrary: v)
  case (Cons i "is")
  obtain p v1 where w: "walk_tables root (page_at va i) v = (p, v1)" by fastforce
  note t = walk_takes_tables [OF w]
  show ?case
  proof (cases p)
    case None
    then show ?thesis using Cons.prems w t by (simp add: Let_def)
  next
    case (Some pt)
    then have "takes_tables v1 v'" using Cons.prems w Cons.IH by (fastforce simp: Let_def takes_tables_def)
    then show ?thesis by (rule takes_tables_trans [OF t])
  qed
qed (simp add: takes_tables_def)

lemma map_mmio_takes_tables: "vmm_map_mmio pa sz v = (r, v') \<Longrightarrow> takes_tables v v'"
  using map_pages_takes_tables
  by (fastforce simp: vmm_map_mmio_def Let_def takes_tables_def split: prod.splits bool.splits if_splits)

text \<open>A failed start leaves the driver uninitialised.\<close>

lemma fill_initialized:
  "e1000_initialized (fst (snd (rx_fill h is d s))) = e1000_initialized d"
  "e1000_initialized (fst (snd (tx_fill h is d s))) = e1000_initialized d"
  using rx_fill_view [of h "is" d s] tx_fill_view [of h "is" d s] by (simp_all add: rx_view_def tx_view_def)

lemma init_initialized:
  "e1000_initialized (fst (snd (e1000_rx_init h d s))) = e1000_initialized d"
  "e1000_initialized (fst (snd (e1000_tx_init h d s))) = e1000_initialized d"
  by (auto simp: e1000_rx_init_def e1000_tx_init_def Let_def rx_registers_def tx_registers_def split: prod.splits
      dest!: arg_cong [of _ _ "\<lambda>r. e1000_initialized (fst (snd r))"] simp: fill_initialized)

lemma with_pool_initialized:
  assumes "with_pool f s = (r, s')" and "\<And>h d p. e1000_initialized (fst (snd (f h d p))) = e1000_initialized d"
  shows "e1000_initialized (nic_dev s') = e1000_initialized (nic_dev s)"
  using assms(1) assms(2) [of "hhdm_offset (vm s)" "nic_dev s" "page_pool (vm s)"]
  by (auto simp: with_pool_def split: prod.splits)

lemma start_card_failed:
  assumes "start_card s = (r, s')" and "r \<noteq> 0"
  shows "e1000_initialized (nic_dev s') = e1000_initialized (nic_dev s)"
  using assms
  by (auto simp: start_card_def Let_def init_initialized split: prod.splits if_splits dest!: with_pool_initialized)

lemma probe_failed:
  assumes "e1000_probe P k s = (r, s')" and "r \<noteq> 0"
  shows "e1000_initialized (nic_dev s') = e1000_initialized (nic_dev s)"
  using assms
  by (auto simp: e1000_probe_def Let_def map_physical_memory_def split: prod.splits if_splits option.splits dest!: start_card_failed)

lemma init_failed:
  assumes "e1000_init P s = (r, s')" and "r \<noteq> 0"
  shows "e1000_initialized (nic_dev s') = e1000_initialized (nic_dev s)"
  using assms by (auto simp: e1000_init_def Let_def split: prod.splits if_splits dest!: probe_failed)

text \<open>Pages taken from the pool are no page tables.\<close>

lemma vmm_wf_taken:
  assumes "vmm_wf root v" and "takes_pages (page_pool v) pool"
  shows "vmm_wf root (v\<lparr>page_pool := pool\<rparr>)"
    and "unat a \<in> owned_pages pool - owned_pages (page_pool v) \<Longrightarrow> a \<notin> tables (phys v) root"
  using assms by (auto simp: vmm_wf_def takes_pages_def)

lemma init_succeeds:
  assumes "e1000_init P s = (0, s')"
    and "config_contract P sel cfg rw"
    and "\<forall>k<pci_device_count s. \<forall>d v. sel d = command_address (pci_devices s ! k) \<longrightarrow>
      cfg (outl P PCI_CONFIG_DATA v d) (command_address (pci_devices s ! k)) AND 6 = v AND 6"
    and "\<forall>k<pci_device_count s. page_aligned (window_base (pci_devices s ! k))"
    and wf: "vmm_wf (kernel_root (vm s)) (vm s)" "hhdm_offset (vm s) \<noteq> 0" "current_context (vm s) = 0"
    and room: "page_aligned (next_mmio_vaddr (vm s))" "unat (next_mmio_vaddr (vm s)) + 0x20000 \<le> 2 ^ 64"
    and small: "\<forall>i<32. no_large (kernel_root (vm s)) (vm s) (page_at (next_mmio_vaddr (vm s)) i)"
  shows "\<exists>k<pci_device_count s. supported (pci_devices s ! k) \<and> nic_pci_dev s' = Some k \<and>
      cfg (pci_hw s') (command_address (pci_devices s ! k)) AND 6 = 6 \<and>
      (\<forall>off<0x20000. vmm_get_physical_addr (mmio_base (nic_dev s') + off) (vm s') = window_base (pci_devices s ! k) + off) \<and>
      vmm_wf (kernel_root (vm s')) (vm s') \<and>
      rings_ready (page_pool (vm s)) (page_pool (vm s')) (hhdm_offset (vm s)) (nic_dev s') \<and>
      (\<forall>a\<in>set (map rx_buffer_addr (rx_desc (nic_dev s')) @ map tx_buffer_addr (tx_desc (nic_dev s'))).
         a \<notin> tables (phys (vm s')) (kernel_root (vm s')))"
proof -
  obtain k where k: "k < pci_device_count s" "supported (pci_devices s ! k)" "e1000_probe P (Some k) s = (0, s')"
    by (rule init_probes [OF assms(1)])
  let ?x = "pci_devices s ! k"
  define hw where "hw = (case pci_config_read16 P (bus ?x) (device ?x) (function_no ?x) PCI_COMMAND (pci_hw s) of
         (command, d) \<Rightarrow> pci_config_write16 P (bus ?x) (device ?x) (function_no ?x) PCI_COMMAND
                             (command OR (PCI_COMMAND_MEMORY OR PCI_COMMAND_MASTER)) d)"
  obtain va v where m: "vmm_map_mmio (window_base ?x) 0x20000 (vm s) = (Some va, v)"
    and st: "start_card (s\<lparr>nic_pci_dev := Some k, pci_hw := hw, vm := v, nic_dev := (nic_dev s)\<lparr>mmio_base := va\<rparr>\<rparr>) = (0, s')"
    using probe_starts [OF k(3)] unfolding hw_def by metis
  have w: "vmm_wf (kernel_root v) v" "\<And>off. off < 0x20000 \<Longrightarrow> vmm_get_physical_addr (va + off) v = window_base ?x + off"
    using map_window [OF wf _ room small m] assms(4) k(1) by blast+
  have h: "hhdm_offset v = hhdm_offset (vm s)" "takes_pages (page_pool (vm s)) (page_pool v)"
    using map_mmio_takes_tables [OF m] by (simp_all add: takes_tables_def)
  have ok: "pool_ok (page_pool v)" using w(1) by (simp add: vmm_wf_def)
  obtain pool where p: "vm s' = v\<lparr>page_pool := pool\<rparr>" "takes_pages (page_pool v) pool"
     "rings_ready (page_pool v) pool (hhdm_offset (vm s)) (nic_dev s')" "mmio_base (nic_dev s') = va"
     "pci_hw s' = hw" "nic_pci_dev s' = Some k"
    using start_cardD [OF st] ok h(1) by auto
  have cmd: "cfg hw (command_address ?x) AND 6 = 6"
    unfolding hw_def command_address_def
    by (rule command_set [OF assms(2)]) (use assms(3) k(1) in \<open>simp add: command_address_def\<close>)
  have own: "owned_pages (page_pool (vm s)) \<subseteq> owned_pages (page_pool v)"
    using wf(1) h(2) by (simp add: takes_pages_def vmm_wf_def)
  have rings: "rings_ready (page_pool (vm s)) pool (hhdm_offset (vm s)) (nic_dev s')"
    using p(3) own unfolding rings_ready_def by blast
  have "a \<notin> tables (phys v) (kernel_root v)"
    if "a \<in> set (map rx_buffer_addr (rx_desc (nic_dev s')) @ map tx_buffer_addr (tx_desc (nic_dev s')))" for a
    using vmm_wf_taken(2) [OF w(1) p(2)] p(3) that unfolding rings_ready_def by blast
  then show ?thesis
    using k w vmm_wf_taken(1) [OF w(1) p(2)] rings p cmd by (intro exI [of _ k]) simp
qed

subsection \<open>Enough free pages\<close>

definition enough :: "nat \<Rightarrow> pmm \<Rightarrow> bool" where
  "enough n s \<longleftrightarrow> pmm_wf s \<and> n \<le> unat (free_blocks (phys_mem s))"

lemma alloc_enough:
  assumes "enough (Suc n) s"
  obtains a s' where "physical_alloc_page s = (a, s')" "a \<noteq> 0" "enough n s'"
proof -
  let ?m = "phys_mem s"
  have wf: "bitmap_wf ?m" "memory_base ?m \<noteq> 0" "pmm_wf s" and f: "Suc n \<le> unat (free_blocks ?m)"
    using assms by (simp_all add: enough_def pmm_wf_def)
  then have "free_blocks ?m \<noteq> 0" by auto
  then obtain i where i: "lowest_free ?m = Some i"
    using free_zero_iff [OF wf(1)] lowest_free_None_iff [of ?m] by (cases "lowest_free ?m") auto
  then have run: "free_run (bitmap ?m) (nblocks ?m) 1 i" by (rule lowest_free_free_run)
  then have lt: "i < nblocks ?m" by (simp add: free_run_def)
  let ?a = "bitmap_block_to_address ?m i"
  let ?s = "s\<lparr>phys_mem := mark_run ?m i 1, used_memory := used_memory s + BITMAP_BLOCK_SIZE\<rparr>"
  have a: "?a \<noteq> 0" by (rule block_address_nonzero [OF wf(1,2) lt])
  moreover have "physical_alloc_page s = (?a, ?s)"
    using bitmap_alloc_block_alt [OF wf(1)] i a by (simp add: physical_alloc_page_def)
  moreover have "pmm_wf ?s" by (rule mark_run_pmm(1) [OF wf(3) run _ lt]) simp
  then have "enough n ?s"
    using f unat_sub_no_wrap [of 1 "free_blocks ?m"] by (simp add: enough_def mark_run_def word_le_nat_alt unat_sub)
  ultimately show thesis using that by blast
qed

lemma fill_enough:
  "enough (length is + n) s \<Longrightarrow> \<exists>d s'. rx_fill h is dev s = (True, d, s') \<and> enough n s'"
  "enough (length is + n) s \<Longrightarrow> \<exists>d s'. tx_fill h is dev s = (True, d, s') \<and> enough n s'"
proof (induction "is" arbitrary: dev s)
  case (Cons i "is")
  {
    case 1
    then obtain a s1 where "physical_alloc_page s = (a, s1)" "a \<noteq> 0" "enough (length is + n) s1" by (auto elim: alloc_enough)
    then show ?case using Cons.IH(1) by simp
  next
    case 2
    then obtain a s1 where "physical_alloc_page s = (a, s1)" "a \<noteq> 0" "enough (length is + n) s1" by (auto elim: alloc_enough)
    then show ?case using Cons.IH(2) by simp
  }
qed simp_all

lemma ring_init_enough:
  assumes "enough (34 + n) s"
  shows "\<exists>d s'. e1000_rx_init h dev s = (0, d, s') \<and> enough n s'" "\<exists>d s'. e1000_tx_init h dev s = (0, d, s') \<and> enough n s'"
proof -
  obtain a s1 where a: "physical_alloc_page s = (a, s1)" "a \<noteq> 0" "enough (33 + n) s1"
    using alloc_enough [of "33 + n" s] assms by auto
  obtain b s2 where b: "physical_alloc_page s1 = (b, s2)" "b \<noteq> 0" "enough (32 + n) s2"
    using alloc_enough [of "32 + n" s1] a(3) by auto
  have f: "enough (length [0..<32] + n) s2" using b(3) by simp
  show "\<exists>d s'. e1000_rx_init h dev s = (0, d, s') \<and> enough n s'"
    using fill_enough(1) [OF f, of h "dev\<lparr>rx_desc := replicate 32 zero_rx_desc, rx_buffers := replicate 32 0\<rparr>"] a b
    by (auto simp: e1000_rx_init_def e1000_consts Let_def)
  show "\<exists>d s'. e1000_tx_init h dev s = (0, d, s') \<and> enough n s'"
    using fill_enough(2) [OF f, of h "dev\<lparr>tx_desc := replicate 32 zero_tx_desc, tx_buffers := replicate 32 0\<rparr>"] a b
    by (auto simp: e1000_tx_init_def e1000_consts Let_def)
qed

lemma walk_enough:
  assumes "enough (3 + n) (page_pool v)"
  obtains pt v' where "walk_tables root a v = (Some pt, v')" "enough n (page_pool v')"
proof -
  have step: "\<exists>p v'. walk_or_create t i v = (Some p, v') \<and> enough k (page_pool v')" if e: "enough (Suc k) (page_pool v)" for t i k v
  proof (cases "entry (phys v) t i AND PAGE_PRESENT \<noteq> 0")
    case True
    then show ?thesis using e by (simp add: walk_or_create_def enough_def)
  next
    case False
    obtain p s' where "physical_alloc_page (page_pool v) = (p, s')" "p \<noteq> 0" "enough k s'"
      by (rule alloc_enough [OF e])
    then show ?thesis using False by (simp add: walk_or_create_def)
  qed
  have e: "enough (Suc (Suc (Suc n))) (page_pool v)" using assms by (simp add: numeral_3_eq_3)
  obtain p v1 where 1: "walk_or_create root (PML4_INDEX a) v = (Some p, v1)" "enough (Suc (Suc n)) (page_pool v1)"
    using step [OF e] by blast
  obtain q v2 where 2: "walk_or_create p (PDP_INDEX a) v1 = (Some q, v2)" "enough (Suc n) (page_pool v2)"
    using step [OF 1(2)] by blast
  obtain r v3 where 3: "walk_or_create q (PD_INDEX a) v2 = (Some r, v3)" "enough n (page_pool v3)"
    using step [OF 2(2)] by blast
  then show thesis using that 1 2 by (simp add: walk_tables_def)
qed

lemma map_pages_enough:
  "enough (3 * length is + n) (page_pool v) \<Longrightarrow>
    \<exists>v'. map_mmio_pages root pa va is v = (True, v') \<and> enough n (page_pool v')"
proof (induction "is" arbitrary: v)
  case (Cons i "is")
  have "enough (3 + (3 * length is + n)) (page_pool v)" using Cons.prems by (simp add: algebra_simps)
  then obtain pt v1 where "walk_tables root (page_at va i) v = (Some pt, v1)" "enough (3 * length is + n) (page_pool v1)"
    by (rule walk_enough)
  then show ?case using Cons.IH by (simp add: Let_def)
qed simp

lemma map_mmio_enough:
  assumes "enough (96 + n) (page_pool v)" and "hhdm_offset v \<noteq> 0"
  shows "\<exists>v'. vmm_map_mmio pa 0x20000 v = (Some (next_mmio_vaddr v), v') \<and> enough n (page_pool v')"
proof -
  have p: "unat ((0x20000 + PAGE_SIZE - 1) div PAGE_SIZE) = 32" by (simp add: PAGE_SIZE_def)
  let ?v = "v\<lparr>next_mmio_vaddr := next_mmio_vaddr v + (0x20000 + PAGE_SIZE - 1) div PAGE_SIZE * PAGE_SIZE\<rparr>"
  have "enough (3 * length [0..<32] + n) (page_pool ?v)" using assms(1) by simp
  from map_pages_enough [OF this, of "kernel_root v" pa "next_mmio_vaddr v"] obtain v' where
    "map_mmio_pages (kernel_root ?v) pa (next_mmio_vaddr v) [0..<32] ?v = (True, v')" "enough n (page_pool v')" by auto
  then show ?thesis using assms(2) unfolding vmm_map_mmio_def Let_def p by simp
qed

lemma start_card_enough:
  assumes "enough 68 (page_pool (vm s))"
  shows "fst (start_card s) = 0"
proof -
  let ?c = "e1000_read_mac_address (e1000_reset (nic_dev s))" and ?h = "hhdm_offset (vm s)"
  obtain d1 p1 where 1: "e1000_rx_init ?h ?c (page_pool (vm s)) = (0, d1, p1)" "enough 34 p1"
    using ring_init_enough(1) [of 34 "page_pool (vm s)" ?h ?c] assms by auto
  obtain d2 p2 where "e1000_tx_init ?h d1 p1 = (0, d2, p2)"
    using ring_init_enough(2) [of 0 p1 ?h d1] 1(2) by auto
  then show ?thesis using 1(1) by (simp add: start_card_def with_pool_def Let_def)
qed

text \<open>
  With a supported card whose registers answer, and 164 free pages, the start succeeds: 96 pages for the tables of the
  window at most, and 34 for each ring.
\<close>

theorem e1000_init_succeeds:
  assumes "\<exists>k<pci_device_count s. supported (pci_devices s ! k)"
    and "\<forall>k<pci_device_count s. bar (pci_devices s ! k) ! 0 AND 1 = 0 \<and> window_base (pci_devices s ! k) \<noteq> 0"
    and "mmio_read (nic_dev s) E1000_STATUS \<noteq> 0xFFFFFFFF"
    and "enough 164 (page_pool (vm s))" and "hhdm_offset (vm s) \<noteq> 0" and "next_mmio_vaddr (vm s) \<noteq> 0"
  shows "fst (e1000_init P s) = 0"
proof -
  have probe: "fst (e1000_probe P (Some k) s) = 0" if k: "k < pci_device_count s" "supported (pci_devices s ! k)" for k
  proof -
    obtain v where v: "vmm_map_mmio (window_base (pci_devices s ! k)) 0x20000 (vm s) = (Some (next_mmio_vaddr (vm s)), v)"
      "enough 68 (page_pool v)"
      using map_mmio_enough [of 68 "vm s"] assms(4,5) by auto
    then show ?thesis
      using k assms(2,3,6)
      by (auto simp: e1000_probe_def supported_def Let_def map_physical_memory_def e1000_read_reg_def start_card_enough
          simp flip: window_base_def split: prod.split)
  qed
  let ?find = "\<lambda>i. pci_find_device E1000_VENDOR_ID i s"
  have found: "fst (e1000_probe P (?find i) s) = 0"
    if "i \<in> {E1000_DEVICE_ID_82540EM, E1000_DEVICE_ID_82545EM, E1000_DEVICE_ID_82574L}" "?find i \<noteq> None" for i
    using that find_deviceD [of E1000_VENDOR_ID i s] probe by (auto simp: supported_def)
  have "\<exists>i\<in>{E1000_DEVICE_ID_82540EM, E1000_DEVICE_ID_82545EM, E1000_DEVICE_ID_82574L}. ?find i \<noteq> None"
    using assms(1) by (auto simp: supported_def pci_find_device_def first_index_None_iff)
  then have "\<exists>i\<in>{E1000_DEVICE_ID_82540EM, E1000_DEVICE_ID_82545EM, E1000_DEVICE_ID_82574L}. ?find i \<noteq> None \<and>
      e1000_init P s = (case e1000_probe P (?find i) s of (r, s) \<Rightarrow> if r \<noteq> 0 then (- 1, s) else (0, s))"
    unfolding e1000_init_def Let_def
    by (cases "?find E1000_DEVICE_ID_82540EM"; cases "?find E1000_DEVICE_ID_82545EM"; cases "?find E1000_DEVICE_ID_82574L") simp_all
  then obtain i where "i \<in> {E1000_DEVICE_ID_82540EM, E1000_DEVICE_ID_82545EM, E1000_DEVICE_ID_82574L}" "?find i \<noteq> None"
    and e: "e1000_init P s = (case e1000_probe P (?find i) s of (r, s) \<Rightarrow> if r \<noteq> 0 then (- 1, s) else (0, s))" by blast
  then have "fst (e1000_probe P (?find i) s) = 0" using found by blast
  then show ?thesis unfolding e by (simp add: split_beta)
qed

text \<open>
  C24. A card that was started is ready. If \<^verbatim>\<open>e1000_init\<close> reports success, it found a supported card in the device
  table and gave it memory access and bus mastering; the 128 kB of registers are mapped, byte for byte, at
  the address the driver uses; the page tables are well formed; and both rings are empty and ready, over pages
  that were available before, that no two buffers share and that are no page tables. If it reports failure,
  the driver is not marked as initialised by it.
\<close>

theorem e1000_init_brings_up:
  assumes contract: "config_contract P sel cfg rw"
    and writable: "\<forall>k<pci_device_count s. \<forall>d v. sel d = command_address (pci_devices s ! k) \<longrightarrow>
      cfg (outl P PCI_CONFIG_DATA v d) (command_address (pci_devices s ! k)) AND 6 = v AND 6"
    and aligned: "\<forall>k<pci_device_count s. page_aligned (window_base (pci_devices s ! k))"
    and wf: "vmm_wf (kernel_root (vm s)) (vm s)" and "hhdm_offset (vm s) \<noteq> 0" and "current_context (vm s) = 0"
    and room: "page_aligned (next_mmio_vaddr (vm s))" "unat (next_mmio_vaddr (vm s)) + 0x20000 \<le> 2 ^ 64"
    and small: "\<forall>i<32. no_large (kernel_root (vm s)) (vm s) (page_at (next_mmio_vaddr (vm s)) i)"
  shows "case e1000_init P s of (r, s') \<Rightarrow>
    if r = 0
    then \<exists>k<pci_device_count s. supported (pci_devices s ! k) \<and> nic_pci_dev s' = Some k \<and>
      cfg (pci_hw s') (command_address (pci_devices s ! k)) AND 6 = 6 \<and>
      (\<forall>off<0x20000. vmm_get_physical_addr (mmio_base (nic_dev s') + off) (vm s') = window_base (pci_devices s ! k) + off) \<and>
      vmm_wf (kernel_root (vm s')) (vm s') \<and>
      rings_ready (page_pool (vm s)) (page_pool (vm s')) (hhdm_offset (vm s)) (nic_dev s') \<and>
      (\<forall>a\<in>set (map rx_buffer_addr (rx_desc (nic_dev s')) @ map tx_buffer_addr (tx_desc (nic_dev s'))).
         a \<notin> tables (phys (vm s')) (kernel_root (vm s')))
    else e1000_initialized (nic_dev s') = e1000_initialized (nic_dev s)"
proof (cases "e1000_init P s")
  case (Pair r s')
  have "r = 0 \<Longrightarrow> e1000_init P s = (0, s')" using Pair by simp
  from init_succeeds [OF this assms] init_failed [OF Pair] show ?thesis
    unfolding Pair prod.case by (cases "r = 0") (simp_all only: if_True if_False simp_thms not_False_eq_True)
qed

text \<open>A machine with one card, empty page tables and 256 free pages.\<close>

definition sample_pool :: pmm where
  "sample_pool = sample_pmm\<lparr>phys_mem := \<lparr>bitmap = replicate 32 0, memory_base = 0x200000,
     total_blocks = 256, free_blocks = 256, bitmap_size = 32\<rparr>\<rparr>"

definition sample_pci_card :: pci_device_t where
  "sample_pci_card = \<lparr>bus = 0, device = 3, function_no = 0, vendor_id = 0x8086, device_id = 0x100E, class_code = 2,
     subclass_code = 0, prog_if = 0, revision_id = 3, bar = [0xFEBC0000, 0, 0, 0, 0, 0], interrupt_line = 11, interrupt_pin = 1\<rparr>"

definition sample_machine :: "(u32 \<times> (u32 \<Rightarrow> u32)) nic" where
  "sample_machine = \<lparr>pci_devices = sample_pci_card # replicate 255 (device_at (\<lambda>_. 0) 0 0 0), pci_device_count = 1,
     pci_hw = (0, \<lambda>_. 0), nic_dev = sample_nic\<lparr>e1000_initialized := False\<rparr>, nic_pci_dev = None,
     vm = sample_vmm\<lparr>page_pool := sample_pool\<rparr>\<rparr>"

lemma sample_pool_ok: "pool_ok sample_pool" "\<not> available sample_pool 0x101000"
proof -
  have "filter (bitmap_test_bit (bitmap (phys_mem sample_pool))) [0..<nblocks (phys_mem sample_pool)] = []" by code_simp
  then have u: "used_blocks (phys_mem sample_pool) = {}" by (simp add: used_blocks_filter)
  then have wf: "bitmap_wf (phys_mem sample_pool)" by (simp add: bitmap_wf_def) (simp add: sample_pool_def)
  then show "pool_ok sample_pool" by (simp add: pool_ok_def pmm_wf_def page_aligned_def) (simp add: sample_pool_def)
  have "0x200000 \<le> unat (bitmap_block_to_address (phys_mem sample_pool) i)" if "i < nblocks (phys_mem sample_pool)" for i
    using unat_block_to_address [OF wf that] by (simp add: sample_pool_def)
  then show "\<not> available sample_pool 0x101000" by (force simp: available_def)
qed

lemma sample_machine_init: "fst (e1000_init sim_bridge sample_machine) = 0"
proof (rule e1000_init_succeeds)
  have s: "pci_device_count sample_machine = 1" "pci_devices sample_machine ! 0 = sample_pci_card"
    by (simp_all add: sample_machine_def)
  show "\<exists>k<pci_device_count sample_machine. supported (pci_devices sample_machine ! k)"
    by (simp add: s supported_def sample_pci_card_def E1000_VENDOR_ID_def E1000_DEVICE_ID_82540EM_def)
  show "\<forall>k<pci_device_count sample_machine.
      bar (pci_devices sample_machine ! k) ! 0 AND 1 = 0 \<and> window_base (pci_devices sample_machine ! k) \<noteq> 0"
    by (simp add: s window_base_def sample_pci_card_def)
  show "mmio_read (nic_dev sample_machine) E1000_STATUS \<noteq> 0xFFFFFFFF" "hhdm_offset (vm sample_machine) \<noteq> 0"
    "next_mmio_vaddr (vm sample_machine) \<noteq> 0"
    by (simp_all add: sample_machine_def sample_nic_def sample_vmm_def MMIO_VIRTUAL_BASE_def)
  show "enough 164 (page_pool (vm sample_machine))"
    using sample_pool_ok(1) by (simp add: enough_def pool_ok_def sample_machine_def) (simp add: sample_pool_def)
qed


theorem e1000_init_brings_up_witness:
  "vmm_get_physical_addr (mmio_base (nic_dev (snd (e1000_init sim_bridge sample_machine))) + 0x5400)
     (vm (snd (e1000_init sim_bridge sample_machine))) = 0xFEBC5400"
proof -
  have s: "pci_device_count sample_machine = 1" "pci_devices sample_machine ! 0 = sample_pci_card"
    "vm sample_machine = sample_vmm\<lparr>page_pool := sample_pool\<rparr>"
    by (simp_all add: sample_machine_def)
  have w: "window_base sample_pci_card = 0xFEBC0000" by (simp add: window_base_def sample_pci_card_def)
  have root: "kernel_root (vm sample_machine) = 0x101000" by (simp add: s sample_vmm_def)
  have wf: "vmm_wf (kernel_root (vm sample_machine)) (vm sample_machine)"
    using sample_pool_ok sample_vmm_ok(1) unfolding root sample_vmm_root vmm_wf_def
    by (simp add: s tables_def empty_walk path_ok_def sample_vmm_def split: if_splits)
  have wr: "\<forall>k<pci_device_count sample_machine. \<forall>d v. fst d = command_address (pci_devices sample_machine ! k) \<longrightarrow>
      snd (outl sim_bridge PCI_CONFIG_DATA v d) (command_address (pci_devices sample_machine ! k)) AND 6 = v AND 6"
    by (simp add: s sim_bridge_def PCI_CONFIG_ADDRESS_def PCI_CONFIG_DATA_def)
  have al: "\<forall>k<pci_device_count sample_machine. page_aligned (window_base (pci_devices sample_machine ! k))"
    by (simp add: s w page_aligned_def)
  have v: "hhdm_offset (vm sample_machine) \<noteq> 0" "current_context (vm sample_machine) = 0"
    "page_aligned (next_mmio_vaddr (vm sample_machine))" "unat (next_mmio_vaddr (vm sample_machine)) + 0x20000 \<le> 2 ^ 64"
    by (simp_all add: s sample_vmm_def MMIO_VIRTUAL_BASE_def page_aligned_def)
  have sm: "\<forall>i<32. no_large (kernel_root (vm sample_machine)) (vm sample_machine) (page_at (next_mmio_vaddr (vm sample_machine)) i)"
    by (simp add: s no_large_def sample_vmm_def empty_small)
  obtain s' where i: "e1000_init sim_bridge sample_machine = (0, s')"
    using sample_machine_init by (cases "e1000_init sim_bridge sample_machine") simp
  have "\<forall>off<0x20000. vmm_get_physical_addr (mmio_base (nic_dev s') + off) (vm s') = window_base sample_pci_card + off"
    using e1000_init_brings_up [OF sim_bridge_contract wr al wf v sm] s(1,2) unfolding i by auto
  then show ?thesis unfolding i snd_conv w by (simp add: word_less_nat_alt)
qed

end
