(* ===== verification/Spec2Isabelle.thy ===== *)
theory Spec2Isabelle
  imports Kmalloc Keyboard Scheduler Tcp_Properties Vmm_Properties Fat16_Format Fat16_Faults Pci Timer Interrupt Graphic_Figures Shell_Files Shell_Ping E1000_Probe
begin

text \<open>
  \<^bold>\<open>Verification of the cgos kernel\<close>

  cgos is a small x86-64 kernel in C, started by the Limine boot loader. It runs on one processor with
  interrupts; its parts share static variables and call each other directly. The theories below model
  the kernel function by function, from the page allocator to the shell, and prove what makes the parts correct, or
  where they are not.

  \<^bold>\<open>The parts and their theories\<close> (source files under \<^verbatim>\<open>src/src/\<close>)

  \<^item> \<open>Cgos_Prelude\<close>: the C integer types as words, the search loop \<open>first_index\<close>, word lemmas.
  \<^item> \<open>Bitmap_Mem\<close> (\<^verbatim>\<open>memory/bitmap_mem.c\<close>): one bit per 4096-byte block; allocation, release, counters.
  \<^item> \<open>Pmm\<close> (\<^verbatim>\<open>memory/pmm.c\<close>): the page allocator over the largest usable memory region.
  \<^item> \<open>Linked_List\<close>: doubly linked lists through pointer fields, shared by the heap and the scheduler.
  \<^item> \<open>Kmalloc\<close> (\<^verbatim>\<open>memory/memory.c\<close>): byte routines and the heap: pages, headers, the allocation list.
  \<^item> \<open>Vmm\<close>, \<open>Vmm_Properties\<close> (\<^verbatim>\<open>memory/vmm.c\<close>): four-level page tables in physical memory, mapping, unmapping,
    translation, device windows.
  \<^item> \<open>Ports\<close>: the port instructions, a parameter of the drivers. \<open>Gdt\<close> (\<^verbatim>\<open>gdt/gdt.c\<close>), \<open>Interrupt\<close>
    (\<^verbatim>\<open>interrupt/interrupt.c\<close>): descriptor tables, exception and page fault handlers. \<open>Timer\<close> (\<^verbatim>\<open>timer/timer.c\<close>): interrupt
    controllers and interval timer. \<open>Acpi\<close> (\<^verbatim>\<open>acpi/acpi.c\<close>): switching off and resetting.
  \<^item> \<open>Ring_Fifo\<close>: circular buffers as bounded FIFOs. \<open>Keyboard\<close> (\<^verbatim>\<open>drivers/keyboard.c\<close>): scancodes,
    modifiers, the key buffer, the interrupt handler, the blocking read.
  \<^item> \<open>Thread\<close> (\<^verbatim>\<open>sched/thread.c\<close>, \<^verbatim>\<open>sched/switch.s\<close>): thread blocks, creation, the register-level context switch.
  \<^item> \<open>Scheduler\<close> (\<^verbatim>\<open>sched/scheduler.c\<close>, \<^verbatim>\<open>timer/timer.c\<close>): ready queues, sleep queue, adaptive priority, timer tick.
  \<^item> \<open>Pci\<close> (\<^verbatim>\<open>pci/pci.c\<close>): configuration space, the scan of the buses, the device table.
  \<^item> \<open>E1000\<close> (\<^verbatim>\<open>drivers/e1000.c\<close>): descriptor rings, their set-up, send and receive. \<open>E1000_Probe\<close>: finding and starting
    the card, on \<open>Pci\<close>, \<open>Vmm\<close> and \<open>E1000\<close>.
  \<^item> \<open>Net_Bytes\<close> (byte order, one's complement sums), \<open>Netdev\<close> (\<^verbatim>\<open>network/netdev.c\<close> and the interface table of
    \<^verbatim>\<open>network/network.c\<close>), \<open>Ethernet\<close>, \<open>Arp\<close>, \<open>Ip\<close>, \<open>Icmp\<close>, \<open>Udp\<close>, \<open>Dhcp\<close>, \<open>Tcp\<close>, \<open>Socket\<close> (the files of the same
    name under \<^verbatim>\<open>network/\<close>), \<open>Net_Input\<close>: the receive side that ties them together (frame, packet and datagram
    dispatch, \<^verbatim>\<open>network_process_packets\<close>, \<^verbatim>\<open>network_init\<close>, \<^verbatim>\<open>icmp_ping\<close>).
  \<^item> \<open>Net_Properties\<close>, \<open>Dhcp_Properties\<close>, \<open>Tcp_Properties\<close>: properties that span these layers.
  \<^item> \<open>Ata\<close> (\<^verbatim>\<open>drivers/ata.c\<close>): sector transfers over the ports of a disk. \<open>Fat16\<close> (\<^verbatim>\<open>fs/fat16.c\<close>): the file system, with the
    shared sector buffer and the one-sector cache of the table. Its proofs: \<open>Fat16_Table\<close> (the allocation table),
    \<open>Fat16_Files\<close> (chains and their contents), \<open>Fat16_Dir\<close> (names and directory entries), \<open>Fat16_Properties\<close>
    (writing and reading), \<open>Fat16_Create\<close>, \<open>Fat16_Format\<close>, \<open>Fat16_Faults\<close> (sequences of calls, errors), \<open>Fat16_Example\<close> (a
    small volume).
  \<^item> \<open>Debug\<close> (\<^verbatim>\<open>debug/debug.c\<close>): number conversion, the format interpreter, log levels, hex dump. \<open>Graphic\<close>
    (\<^verbatim>\<open>graphic/graphic.c\<close>): framebuffer, font, the second format interpreter, figures; \<open>Graphic_Figures\<close>, \<open>Graphic_Text\<close>
    their properties.
  \<^item> \<open>Shell\<close> (\<^verbatim>\<open>shell/shell.c\<close>): line editor, history, output, all commands, the loop of the shell thread, on top of the
    components the commands call. \<open>Shell_Frame\<close> (what commands leave alone), \<open>Shell_Editor\<close>, \<open>Shell_Files\<close>, \<open>Shell_Ping\<close> its
    properties.

  \<^bold>\<open>How code is modelled\<close>

  A file's static variables are the fields of a record, and a function is a HOL function that takes the
  record and returns it updated, with the C result in front. Integers keep their width as words;
  sizes and indices that cannot wrap are natural numbers; in the drawing routines \<^verbatim>\<open>int\<close> is \<open>int\<close> and every value
  computed is tested to fit 32 bits. Pointers into memory the kernel manages are 64-bit
  addresses with 0 for NULL (heap, threads, page tables); pointers into a static array are indices. The network
  records extend one another (\<open>netdev\<close>, \<open>arp_net\<close>, \<open>ip_net\<close>, \<open>icmp_net\<close>, \<open>udp_net\<close>, \<open>dhcp_net\<close>, \<open>tcp_net\<close>,
  \<open>net\<close>), so that an operation of a lower layer works on every state above it. Packets and sectors are byte lists with
  the layout the packed structs have on a little-endian machine. Callbacks are identifiers or lists whose invocations are
  logged. Log messages have no counterpart.

  Hardware is outside the program: the drivers take the six port instructions as a parameter (\<open>'d ports\<close>) and theorems
  that depend on a device state its documented behaviour as a predicate (\<open>disk_contract\<close>, \<open>config_contract\<close>,
  \<open>timer_contract\<close>), each shown to be met by a concrete simulation. The registers of the network card are a read
  function and a log of writes.

  Undefined behaviour and not returning are the value \<open>None\<close>. A loop that may run forever (waking sleepers on a corrupt
  list, polling a device, unmapping, following a cluster chain, drawing a line) is a
  \<open>partial_function\<close> in the option type, and that a loop does return is a theorem, as is that polling the
  loopback device may not. Waiting for the outside world (a key, a ping reply, the tick counter) takes the list of what the
  hardware does meanwhile as an argument. No fuel is used.

  \<^bold>\<open>What is proved\<close>

  \<^item> Memory: pages and heap blocks are exclusive, freeing undoes allocating, growing keeps contents, the block
    allocator is first fit; mapping a page or a device window changes the translation of exactly these pages, whatever
    tables the boot loader left, as long as they form a tree, and unmapping removes exactly the pages that hold a byte of the range; a page
    fault in the device range is repaired by mapping exactly that page.
  \<^item> Threads: a switched-out thread resumes unchanged, a new one starts at its entry on its own stack; the
    pointer queues refine priority queues with round robin; sleepers are woken exactly when due.
  \<^item> Devices: the bus scan finds exactly the functions the configuration space shows; a started network card is
    enabled, mapped byte for byte and has two empty rings over pages of its own, and with enough memory the start succeeds;
    every vector has its gate, the timer and the controllers are programmed as intended; typed keys come back in order.
  \<^item> Network: checksums meet RFC 1071 and detect a changed word; addresses resolve; a datagram arrives intact at
    the bound socket; ports and socket slots have one owner in every reachable state; written options arrive with their RFC 2132 meaning; only an
    acknowledged request configures an interface; polling the card always returns.
  \<^item> Files: storing a link refines a map update of the table, in all its copies; writing a file returns, and reading gives
    the bytes back and other files are unchanged; creating a file fills one free directory entry, in which the file is then found; a formatted drive mounts as an empty volume; every
    sequence of calls keeps the volume well-formed, so that further calls return.
  \<^item> Text and figures: number conversion gives the numeral of the number and fits its buffer; formats mean the sequence of their pieces, the
    same for both interpreters; figures of bounded size are drawn in finitely many steps on visible pixels only, and lines connect
    their ends.
  \<^item> Shell: the line editor refines an abstract editor with a history; a text written by the \<open>write\<close> command is what \<open>cat\<close> prints;
    every address is read back from its dotted text.
  \<^item> Errors found: unmapping a range that reaches the last page of the address space does nothing; a reserved region marks other pages; a shrunk block leaks; a second tick queues a thread twice;
    resets answer resets forever; listeners are unreachable; connection slots are never reused; an
    unanswered renewal is never repeated; echo requests with data are dropped; deleting a file overwrites the
    directory; long names are lost; a chain is freed forever when the disk fails; pointers are printed modulo \<open>2 ^ 32\<close>;
    \<^verbatim>\<open>clear_screen\<close> leaves a corner when rows are padded; the shell keeps a closing quote in the file and cuts
    long names into the text.

  \<^bold>\<open>Interfaces\<close>

  The locale \<open>page_allocator\<close> is the contract between the page allocator and the heap (interpretation \<open>pages\<close>),
  \<open>page_source\<close> the one between the page allocator and the virtual memory manager (interpretation \<open>pool\<close>), \<open>bounded_fifo\<close> the contract
  of the key buffer (\<open>kbd\<close>) and of the loopback queue (\<open>lo\<close>). \<open>sector_writer\<close> is what loops over sectors rely on when
  they write (\<open>raw_io\<close>, for formatting a drive); \<open>sector_device\<close> extends it to what the file system relies on
  (\<open>fat_io\<close>, on the disk driver).

  \<^bold>\<open>Not modelled\<close>

  The start-up sequence of \<^verbatim>\<open>main.c\<close>, which calls the initialisation functions above in order and draws a
  demonstration on the screen; functions that only print listings or statistics (\<^verbatim>\<open>physical_print_stats\<close>,
  \<^verbatim>\<open>draw_memory_bitmap\<close>, \<^verbatim>\<open>malloc_print_stats\<close>, \<^verbatim>\<open>scheduler_print_threads\<close>, \<^verbatim>\<open>arp_print_table\<close>,
  \<^verbatim>\<open>netdev_list\<close>, \<^verbatim>\<open>pci_print_devices\<close>); the static \<^verbatim>\<open>itoa\<close> of \<^verbatim>\<open>graphic.c\<close>, which nothing calls. The
  assembly entry stubs of interrupts are represented by their addresses. The pauses of the drivers (\<^verbatim>\<open>timer_sleep_ms\<close>
  in \<^verbatim>\<open>e1000_reset\<close>) take no time. Preemption at arbitrary instructions is not modelled: interrupt handlers
  are operations that run between others.
\<close>

end
